(* ===== verification/Prelude.thy ===== *)
theory Prelude
  imports
    Main
    "HOL-Library.AList"
    "HOL-Library.Char_ord"
    "HOL-Library.List_Lexorder"
    "HOL-Library.Sublist"
begin

text \<open>
  What the components share: JavaScript strings, insertion-ordered maps and sets, stable
  sorting with a comparator, and results of operations that may throw.

  Strings are HOL strings whose characters are read as the code units 0 to 255; white space and
  case are those of ECMAScript on this range. A \<open>Map\<close> is an association list with the
  functions of \<open>HOL-Library.AList\<close>: \<open>AList.update\<close> overwrites in place and appends a new
  key at the end, as \<open>Map.prototype.set\<close> does, so the list order is the iteration order of
  the code. A method that may throw and change its object returns \<open>(Inl error, state)\<close> or
  \<open>(Inr result, state)\<close>; the state of a throwing call is part of the result, because the code
  does not roll back.
\<close>

section \<open>Collections of facts\<close>

named_theorems str_simps \<open>evaluation of the string functions\<close>
named_theorems frame \<open>what an operation leaves alone\<close>

section \<open>Strings\<close>

definition isSpace :: "char \<Rightarrow> bool" where
  "isSpace c = ((of_char c :: nat) \<in> {9, 10, 11, 12, 13, 32, 160})"

definition trimStart :: "string \<Rightarrow> string" where
  "trimStart = dropWhile isSpace"

definition trimEnd :: "string \<Rightarrow> string" where
  "trimEnd s = rev (dropWhile isSpace (rev s))"

definition trim :: "string \<Rightarrow> string" where
  "trim s = trimEnd (trimStart s)"

definition lowerChar :: "char \<Rightarrow> char" where
  "lowerChar c =
     (let n = (of_char c :: nat)
      in if (65 \<le> n \<and> n \<le> 90) \<or> (192 \<le> n \<and> n \<le> 222 \<and> n \<noteq> 215) then char_of (n + 32) else c)"

definition toLowerCase :: "string \<Rightarrow> string" where
  "toLowerCase = map lowerChar"

definition isDigitChar :: "char \<Rightarrow> bool" where
  "isDigitChar c = (48 \<le> (of_char c :: nat) \<and> (of_char c :: nat) \<le> 57)"

definition isUpperChar :: "char \<Rightarrow> bool" where
  "isUpperChar c = (65 \<le> (of_char c :: nat) \<and> (of_char c :: nat) \<le> 90)"

definition isLowerChar :: "char \<Rightarrow> bool" where
  "isLowerChar c = (97 \<le> (of_char c :: nat) \<and> (of_char c :: nat) \<le> 122)"

definition isAlnumChar :: "char \<Rightarrow> bool" where
  "isAlnumChar c = (isDigitChar c \<or> isUpperChar c \<or> isLowerChar c)"

definition nul :: char where
  "nul = CHR 0x00"

text \<open>\<open>s.split(sep)\<close> for a separator of one character, and \<open>s.replaceAll(a, b)\<close>.\<close>

fun splitOn :: "char \<Rightarrow> string \<Rightarrow> string list" where
  "splitOn d [] = [[]]"
| "splitOn d (c # cs) =
     (if c = d then [] # splitOn d cs
      else (case splitOn d cs of [] \<Rightarrow> [[c]] | w # ws \<Rightarrow> (c # w) # ws))"

definition replaceChar :: "char \<Rightarrow> char \<Rightarrow> string \<Rightarrow> string" where
  "replaceChar a b = map (\<lambda>c. if c = a then b else c)"

definition stripTrailing :: "char \<Rightarrow> string \<Rightarrow> string" where
  "stripTrailing d s = rev (dropWhile (\<lambda>c. c = d) (rev s))"

definition stripLeading :: "char \<Rightarrow> string \<Rightarrow> string" where
  "stripLeading d = dropWhile (\<lambda>c. c = d)"

lemma in_dropWhileD: "c \<in> set (dropWhile P s) \<Longrightarrow> c \<in> set s"
  by (simp add: set_dropWhileD)

lemma set_trim: "set (trim s) \<subseteq> set s"
  by (auto simp: trim_def trimEnd_def trimStart_def dest!: in_dropWhileD)

lemma in_trimD: "c \<in> set (trim s) \<Longrightarrow> c \<in> set s"
  using set_trim by blast

lemma length_trim: "length (trim s) \<le> length s"
  using length_dropWhile_le [of isSpace "rev (dropWhile isSpace s)"]
    length_dropWhile_le [of isSpace s]
  by (simp add: trim_def trimEnd_def trimStart_def)

lemma dropWhile_idem: "dropWhile P (dropWhile P xs) = dropWhile P xs"
  by (induction xs) auto

lemma trim_Nil [simp]: "trim [] = []"
  by (simp add: trim_def trimEnd_def trimStart_def)

lemma trimEnd_prefix: "\<exists>t. s = trimEnd s @ t"
proof -
  have "rev s = takeWhile isSpace (rev s) @ dropWhile isSpace (rev s)" by simp
  then have "s = rev (dropWhile isSpace (rev s)) @ rev (takeWhile isSpace (rev s))"
    by (metis rev_append rev_rev_ident)
  then show ?thesis unfolding trimEnd_def by blast
qed

lemma trimStart_noop: "trim s = s \<Longrightarrow> trimStart s = s"
proof -
  assume a: "trim s = s"
  have "length (trimStart s) \<le> length s" by (simp add: trimStart_def length_dropWhile_le)
  moreover have "length (trim s) \<le> length (trimStart s)"
    using length_dropWhile_le [of isSpace "rev (dropWhile isSpace s)"]
    by (simp add: trim_def trimEnd_def trimStart_def)
  ultimately have "length (trimStart s) = length s" using a by simp
  moreover have "s = takeWhile isSpace s @ trimStart s" by (simp add: trimStart_def)
  ultimately show ?thesis
    by (metis append_eq_append_conv append_self_conv2)
qed

lemma trim_idem [simp]: "trim (trim s) = trim s"
proof -
  let ?u = "trimStart s"
  obtain t where t: "?u = trimEnd ?u @ t" using trimEnd_prefix by blast
  have "trimStart (trimEnd ?u) = trimEnd ?u"
  proof (cases "trimEnd ?u")
    case Nil
    then show ?thesis by (simp add: trimStart_def)
  next
    case (Cons c cs)
    then have "?u = c # (cs @ t)" using t by simp
    then have "\<not> isSpace c"
      unfolding trimStart_def by (metis dropWhile_eq_Cons_conv)
    with Cons show ?thesis by (simp add: trimStart_def)
  qed
  moreover have "trimEnd (trimEnd ?u) = trimEnd ?u"
    by (simp add: trimEnd_def dropWhile_idem)
  ultimately show ?thesis by (simp add: trim_def)
qed

lemma splitOn_nonempty [simp]: "splitOn d s \<noteq> []"
  by (induction s) (auto split: list.splits)

lemma splitOn_no_sep: "w \<in> set (splitOn d s) \<Longrightarrow> d \<notin> set w"
proof (induction s arbitrary: w)
  case (Cons c cs)
  then show ?case
    by (cases "splitOn d cs") (auto split: if_splits)
qed simp

lemma splitOn_chars: "w \<in> set (splitOn d s) \<Longrightarrow> set w \<subseteq> set s"
proof (induction s arbitrary: w)
  case (Cons c cs)
  then show ?case
    by (cases "splitOn d cs") (fastforce split: if_splits)+
qed simp

section \<open>Sets and sorting\<close>

text \<open>\<open>[...new Set(xs)]\<close>: the first occurrence of every element, in order.\<close>

definition jsUnique :: "'a list \<Rightarrow> 'a list" where
  "jsUnique xs = rev (remdups (rev xs))"

lemma set_jsUnique [simp]: "set (jsUnique xs) = set xs"
  by (simp add: jsUnique_def)

lemma distinct_jsUnique [simp]: "distinct (jsUnique xs)"
  by (simp add: jsUnique_def)

lemma length_jsUnique: "length (jsUnique xs) \<le> length xs"
  using length_remdups_leq [of "rev xs"] by (simp add: jsUnique_def)

text \<open>\<open>set.add(x)\<close> on a set kept as its list of members in insertion order.\<close>

definition setAdd :: "'a \<Rightarrow> 'a list \<Rightarrow> 'a list" where
  "setAdd x xs = (if x \<in> set xs then xs else xs @ [x])"

lemma set_setAdd [simp]: "set (setAdd x xs) = insert x (set xs)"
  by (auto simp: setAdd_def)

lemma distinct_setAdd [simp]: "distinct xs \<Longrightarrow> distinct (setAdd x xs)"
  by (auto simp: setAdd_def)

text \<open>
  \<open>xs.toSorted(cmp)\<close>: the sort of ECMAScript is stable, so it is the insertion sort below for
  every comparator that is a total preorder.
\<close>

fun insertBy :: "('a \<Rightarrow> 'a \<Rightarrow> int) \<Rightarrow> 'a \<Rightarrow> 'a list \<Rightarrow> 'a list" where
  "insertBy cmp x [] = [x]"
| "insertBy cmp x (y # ys) = (if cmp x y \<le> 0 then x # y # ys else y # insertBy cmp x ys)"

definition toSortedBy :: "('a \<Rightarrow> 'a \<Rightarrow> int) \<Rightarrow> 'a list \<Rightarrow> 'a list" where
  "toSortedBy cmp xs = foldr (insertBy cmp) xs []"

lemma set_insertBy [simp]: "set (insertBy cmp x xs) = insert x (set xs)"
  by (induction xs) auto

lemma length_insertBy [simp]: "length (insertBy cmp x xs) = Suc (length xs)"
  by (induction xs) auto

lemma distinct_insertBy: "distinct (insertBy cmp x xs) = (x \<notin> set xs \<and> distinct xs)"
  by (induction xs) auto

lemma set_toSortedBy [simp]: "set (toSortedBy cmp xs) = set xs"
  by (induction xs) (auto simp: toSortedBy_def)

lemma length_toSortedBy [simp]: "length (toSortedBy cmp xs) = length xs"
  by (induction xs) (auto simp: toSortedBy_def)

lemma distinct_toSortedBy [simp]: "distinct (toSortedBy cmp xs) = distinct xs"
proof (induction xs)
  case (Cons x xs)
  have "set (foldr (insertBy cmp) xs []) = set xs"
    using set_toSortedBy [of cmp xs] by (simp add: toSortedBy_def)
  with Cons show ?case by (simp add: toSortedBy_def distinct_insertBy)
qed (simp add: toSortedBy_def)

locale comparator =
  fixes cmp :: "'a \<Rightarrow> 'a \<Rightarrow> int"
  assumes cmp_total: "0 < cmp x y \<Longrightarrow> cmp y x \<le> 0"
    and cmp_trans: "cmp x y \<le> 0 \<Longrightarrow> cmp y z \<le> 0 \<Longrightarrow> cmp x z \<le> 0"
begin

lemma sorted_insertBy:
  "sorted_wrt (\<lambda>x y. cmp x y \<le> 0) xs \<Longrightarrow> sorted_wrt (\<lambda>x y. cmp x y \<le> 0) (insertBy cmp x xs)"
  by (induction xs) (auto intro: cmp_total dest: cmp_trans)

lemma sorted_toSortedBy: "sorted_wrt (\<lambda>x y. cmp x y \<le> 0) (toSortedBy cmp xs)"
  by (induction xs) (simp_all add: toSortedBy_def sorted_insertBy)

end

interpretation intCmp: comparator "\<lambda>x y :: int. x - y"
  by unfold_locales auto

section \<open>Maps\<close>

type_synonym ('k, 'v) jsmap = "('k \<times> 'v) list"

abbreviation mapGet :: "('k, 'v) jsmap \<Rightarrow> 'k \<Rightarrow> 'v option" where
  "mapGet \<equiv> map_of"

abbreviation mapSet :: "('k, 'v) jsmap \<Rightarrow> 'k \<Rightarrow> 'v \<Rightarrow> ('k, 'v) jsmap" where
  "mapSet m k v \<equiv> AList.update k v m"

abbreviation mapDelete :: "('k, 'v) jsmap \<Rightarrow> 'k \<Rightarrow> ('k, 'v) jsmap" where
  "mapDelete m k \<equiv> AList.delete k m"

abbreviation mapHas :: "('k, 'v) jsmap \<Rightarrow> 'k \<Rightarrow> bool" where
  "mapHas m k \<equiv> map_of m k \<noteq> None"

abbreviation mapKeys :: "('k, 'v) jsmap \<Rightarrow> 'k list" where
  "mapKeys m \<equiv> map fst m"

definition mapValues :: "('k, 'v) jsmap \<Rightarrow> 'v list" where
  "mapValues m = map snd m"

lemma mapGet_mapSet [simp]: "mapGet (mapSet m k v) k' = (if k' = k then Some v else mapGet m k')"
  by (simp add: update_conv')

lemma mapGet_mapDelete [simp]: "mapGet (mapDelete m k) k' = (if k' = k then None else mapGet m k')"
  by (simp add: delete_conv')

lemma distinct_mapSet [simp]: "distinct (mapKeys m) \<Longrightarrow> distinct (mapKeys (mapSet m k v))"
  by (rule distinct_update)

lemma distinct_mapDelete [simp]: "distinct (mapKeys m) \<Longrightarrow> distinct (mapKeys (mapDelete m k))"
  by (rule distinct_delete)

lemma set_mapKeys: "set (mapKeys m) = dom (mapGet m)"
  by (simp add: dom_map_of_conv_image_fst)

lemma in_mapValuesD: "distinct (mapKeys m) \<Longrightarrow> v \<in> set (mapValues m) \<Longrightarrow> \<exists>k. mapGet m k = Some v"
  by (auto simp: mapValues_def)

lemma in_mapValuesI: "mapGet m k = Some v \<Longrightarrow> v \<in> set (mapValues m)"
  by (force simp: mapValues_def dest: map_of_SomeD)

lemma mapSet_fresh: "\<not> mapHas m k \<Longrightarrow> mapSet m k v = m @ [(k, v)]"
  by (induction m) (auto split: if_splits)

lemma mapSet_same: "mapGet m k = Some v \<Longrightarrow> mapSet m k v = m"
  by (induction m) (auto split: if_splits)

lemma length_mapSet_has: "mapHas m k \<Longrightarrow> length (mapSet m k v) = length m"
  by (induction m) (auto split: if_splits)

section \<open>Paths\<close>

text \<open>\<open>path.posix.normalize\<close> of an absolute path.\<close>

fun joinWith :: "char \<Rightarrow> string list \<Rightarrow> string" where
  "joinWith d [] = []"
| "joinWith d [w] = w"
| "joinWith d (w # v # ws) = w @ d # joinWith d (v # ws)"

fun normalizeSegments :: "string list \<Rightarrow> string list \<Rightarrow> string list" where
  "normalizeSegments acc [] = rev acc"
| "normalizeSegments acc (w # ws) =
     (if w = [] \<or> w = ''.'' then normalizeSegments acc ws
      else if w = ''..'' then normalizeSegments (drop 1 acc) ws
      else normalizeSegments (w # acc) ws)"

definition posixNormalizeAbsolute :: "string \<Rightarrow> string" where
  "posixNormalizeAbsolute p =
     (let body = joinWith (CHR ''/'') (normalizeSegments [] (splitOn (CHR ''/'') p)) in
      if body = [] then ''/''
      else ''/'' @ body @ (if last p = CHR ''/'' then ''/'' else []))"

lemma joinWith_splitOn: "joinWith d (splitOn d s) = s"
proof (induction s)
  case (Cons c cs)
  obtain w ws where w: "splitOn d cs = w # ws" by (cases "splitOn d cs") auto
  then show ?case using Cons by (cases ws) auto
qed simp

lemma splitOn_append: "splitOn d (s @ d # t) = splitOn d s @ splitOn d t"
proof (induction s)
  case (Cons c cs)
  obtain w ws where w: "splitOn d cs = w # ws" by (cases "splitOn d cs") auto
  then show ?case using Cons by auto
qed simp

lemma joinWith_append: "A \<noteq> [] \<Longrightarrow> B \<noteq> [] \<Longrightarrow> joinWith d (A @ B) = joinWith d A @ d # joinWith d B"
proof (induction d A rule: joinWith.induct)
  case (2 d w)
  then show ?case by (cases B) auto
qed auto

lemma normalizeSegments_append:
  "normalizeSegments acc (A @ B) = normalizeSegments (rev (normalizeSegments acc A)) B"
  by (induction acc A rule: normalizeSegments.induct) auto

lemma normalizeSegments_plain:
  "\<forall>w \<in> set ws. w \<noteq> [] \<and> w \<noteq> ''.'' \<and> w \<noteq> ''..'' \<Longrightarrow> normalizeSegments acc ws = rev acc @ ws"
  by (induction ws arbitrary: acc) auto

text \<open>A relative path without empty, \<open>.\<close> and \<open>..\<close> components stays below the directory it is joined to.\<close>

lemma normalize_below:
  assumes "posixNormalizeAbsolute dir = dir" and "last dir \<noteq> CHR ''/''" and "dir \<noteq> []"
    and "\<forall>w \<in> set (splitOn (CHR ''/'') path). w \<noteq> [] \<and> w \<noteq> ''.'' \<and> w \<noteq> ''..''"
  shows "posixNormalizeAbsolute (dir @ CHR ''/'' # path) = dir @ CHR ''/'' # path"
proof -
  let ?N = "normalizeSegments [] (splitOn (CHR ''/'') dir)" and ?B = "splitOn (CHR ''/'') path"
  have N: "normalizeSegments [] (splitOn (CHR ''/'') (dir @ CHR ''/'' # path)) = ?N @ ?B"
    using normalizeSegments_plain [OF assms(4)] by (simp add: splitOn_append normalizeSegments_append)
  have ne: "?N \<noteq> []" using assms(1-3) by (auto simp: posixNormalizeAbsolute_def Let_def split: if_splits)
  then have dir: "dir = CHR ''/'' # joinWith (CHR ''/'') ?N"
    using assms(1-3) by (auto simp: posixNormalizeAbsolute_def Let_def split: if_splits)
  have join: "joinWith (CHR ''/'') (?N @ ?B) = joinWith (CHR ''/'') ?N @ CHR ''/'' # path"
    using ne by (simp add: joinWith_append joinWith_splitOn)
  have "path \<noteq> []"
  proof
    assume "path = []"
    then have "[] \<in> set ?B" by simp
    with assms(4) show False by blast
  qed
  moreover have "last path \<noteq> CHR ''/''"
  proof
    assume "last path = CHR ''/''"
    then have "path = butlast path @ CHR ''/'' # []" using \<open>path \<noteq> []\<close> append_butlast_last_id by metis
    then have "splitOn (CHR ''/'') path = splitOn (CHR ''/'') (butlast path) @ [[]]"
      by (metis splitOn.simps(1) splitOn_append)
    with assms(4) show False by simp
  qed
  ultimately have "posixNormalizeAbsolute (dir @ CHR ''/'' # path) = CHR ''/'' # joinWith (CHR ''/'') ?N @ CHR ''/'' # path"
    by (simp add: posixNormalizeAbsolute_def N join)
  also have "\<dots> = (CHR ''/'' # joinWith (CHR ''/'') ?N) @ CHR ''/'' # path" by simp
  also have "\<dots> = dir @ CHR ''/'' # path" by (simp only: dir [symmetric])
  finally show ?thesis .
qed

section \<open>Numbers\<close>

text \<open>
  A number of JavaScript where the code validates it: \<open>Number.isInteger\<close> tells the two cases
  apart. The integers modelled are below \<open>2\<^sup>53\<close> where the code checks \<open>Number.isSafeInteger\<close>.
\<close>

datatype js_number = IntegerNumber int | OtherNumber

definition isSafeInteger :: "int \<Rightarrow> bool" where
  "isSafeInteger n \<longleftrightarrow> - (2 ^ 53 - 1) \<le> n \<and> n \<le> 2 ^ 53 - 1"

section \<open>Operations that may throw\<close>

text \<open>
  \<open>orThrow r s k\<close> is \<open>const x = r; ...\<close>: a throwing \<open>r\<close> ends the method with the state
  reached so far.
\<close>

definition orThrow :: "'e + 'a \<Rightarrow> 's \<Rightarrow> ('a \<Rightarrow> ('e + 'b) \<times> 's) \<Rightarrow> ('e + 'b) \<times> 's" where
  "orThrow r s k = (case r of Inl e \<Rightarrow> (Inl e, s) | Inr x \<Rightarrow> k x)"

lemma orThrow_simps [simp]:
  "orThrow (Inl e) s k = (Inl e, s)"
  "orThrow (Inr x) s k = k x"
  by (simp_all add: orThrow_def)

lemma orThrow_split:
  "P (orThrow r s k) \<longleftrightarrow> (\<forall>e. r = Inl e \<longrightarrow> P (Inl e, s)) \<and> (\<forall>x. r = Inr x \<longrightarrow> P (k x))"
  by (cases r) auto

lemma orThrow_split_asm:
  "P (orThrow r s k) \<longleftrightarrow> \<not> ((\<exists>e. r = Inl e \<and> \<not> P (Inl e, s)) \<or> (\<exists>x. r = Inr x \<and> \<not> P (k x)))"
  by (cases r) auto

lemma orThrow_InrE:
  assumes "orThrow r s k = (Inr y, s')"
  obtains x where "r = Inr x" and "k x = (Inr y, s')"
  using assms by (cases r) auto

definition andThen :: "('e + 'a) \<times> 's \<Rightarrow> ('a \<Rightarrow> 's \<Rightarrow> ('e + 'b) \<times> 's) \<Rightarrow> ('e + 'b) \<times> 's" where
  "andThen r k = (case r of (Inl e, s) \<Rightarrow> (Inl e, s) | (Inr x, s) \<Rightarrow> k x s)"

lemma andThen_simps [simp]:
  "andThen (Inl e, s) k = (Inl e, s)"
  "andThen (Inr x, s) k = k x s"
  by (simp_all add: andThen_def)

lemma andThen_split:
  "P (andThen r k) \<longleftrightarrow>
     (\<forall>e s. r = (Inl e, s) \<longrightarrow> P (Inl e, s)) \<and> (\<forall>x s. r = (Inr x, s) \<longrightarrow> P (k x s))"
  by (cases r; cases "fst r") auto

lemma andThen_split_asm:
  "P (andThen r k) \<longleftrightarrow>
     \<not> ((\<exists>e s. r = (Inl e, s) \<and> \<not> P (Inl e, s)) \<or> (\<exists>x s. r = (Inr x, s) \<and> \<not> P (k x s)))"
  by (cases r; cases "fst r") auto

lemmas throw_splits = orThrow_split orThrow_split_asm andThen_split andThen_split_asm

end
