(* ===== verification/Contracts.thy ===== *)
theory Contracts
  imports Prelude
begin

text \<open>
  The data of the control plane (\<open>contracts.ts\<close>, \<open>execution-contracts.ts\<close>,
  \<open>ssh-credential-contracts.ts\<close>): principals, users, identities, agent bindings, browser
  sessions, managed scopes, audit events and the errors the stores throw.

  Times are integers (milliseconds). A field that TypeScript marks optional is an \<open>option\<close>.
  An error keeps its class, its code or resource, and the pieces its message is built from; the
  text of a conflict is not kept, callers use the code.
\<close>

section \<open>Errors\<close>

datatype conflict_code =
    CredentialChanged | AnnouncementRevisionConflict | SpaceChanged | KnowledgeVaultChanged
  | AccountIdConflict | AccountIdMismatch | EmployeeIdConflict | EmployeeIdMismatch
  | StaleAuthentication | AgentIdConflict | SafeconnectEndpointConflict | VmHostConflict
  | VmAllocationConflict | ExecutionTargetConflict | ManagedScopeNameConflict
  | OrganizationScopeChanged | OrganizationMembershipChanged | OrganizationJoinRequestConflict
  | SkillHubOwnerChanged | SkillHubNamespaceBindingChanged | SkillHubNamespacePopulated
  | SkillHubNamespaceConflict | SkillHubChanged | SkillHubPublicationPending
  | SkillHubPublicationChanged | SkillHubPublicationCancelled | SkillHubPublicationCompleted
  | SkillHubNativeIdentityChanged | SkillHubInstallationChanged
  | OrganizationJoinRequestTerminalConflict | SessionTokenConflict

datatype resource =
    UserResource | KnowledgeVaultDocument | KnowledgeVaultAttachment | AgentBindingResource
  | ManagedScopeResource | OrganizationJoinRequestResource | SkillHubSkill | SkillHubPublication

datatype error =
    ConflictError conflict_code
  | NotFoundError resource string
  | AuthorizationError string
  | StateError string "string list"
  | PlainError string "string list"

section \<open>Identity directory\<close>

datatype auth_provider = Ldap | Saml

record principal =
  p_provider :: auth_provider
  p_subject :: string
  p_accountId :: "string option"
  p_employeeId :: string
  p_displayName :: "string option"
  p_email :: "string option"
  p_department :: "string option"
  p_groups :: "string list option"

datatype user_status = UserActive | UserDisabled

datatype global_role = GlobalMember | GlobalAdmin

record platform_user =
  u_id :: string
  u_accountId :: string
  u_employeeId :: string
  u_status :: user_status
  u_globalRole :: global_role
  u_displayName :: "string option"
  u_email :: "string option"
  u_department :: "string option"
  u_timezone :: "string option"
  u_groups :: "string list"
  u_createdAt :: int
  u_updatedAt :: int
  u_lastLoginAt :: "int option"

record identity =
  i_provider :: auth_provider
  i_subject :: string
  i_userId :: string
  i_employeeId :: string
  i_createdAt :: int
  i_lastAuthenticatedAt :: int

record upsert_result =
  r_user :: platform_user
  r_identity :: identity
  r_createdUser :: bool
  r_createdIdentity :: bool

section \<open>Agent bindings and execution profiles\<close>

datatype provisioning_state = Provisioning | AgentActive | AgentFailed | AgentDisabled

text \<open>The two kinds of binding differ in their owner: a user, or a Knox room of an account.\<close>

datatype binding_owner = Personal (owner_userId: string) | KnoxRoom string string

record agent_binding =
  b_id :: string
  b_owner :: binding_owner
  b_agentId :: string
  b_state :: provisioning_state
  b_createdAt :: int
  b_updatedAt :: int
  b_failureCode :: "string option"

record reservation =
  rv_binding :: agent_binding
  rv_created :: bool

datatype execution_target = PlatformServer | AssignedVm

record execution_profile =
  ep_agentBindingId :: string
  ep_activeTarget :: execution_target
  ep_activeAllocationId :: "string option"
  ep_targetRevision :: int
  ep_updatedAt :: int

section \<open>Browser sessions\<close>

record browser_session =
  s_id :: string
  s_userId :: string
  s_tokenHash :: string
  s_createdAt :: int
  s_lastSeenAt :: int
  s_idleExpiresAt :: int
  s_absoluteExpiresAt :: int
  s_revokedAt :: "int option"

record session_policy =
  idleTimeoutMs :: int
  absoluteTimeoutMs :: int
  maxConcurrentSessions :: int

definition BROWSER_SESSION_POLICY :: session_policy where
  "BROWSER_SESSION_POLICY =
     \<lparr>idleTimeoutMs = 12 * 60 * 60 * 1000,
      absoluteTimeoutMs = 7 * 24 * 60 * 60 * 1000,
      maxConcurrentSessions = 3\<rparr>"

datatype create_session_result =
    SessionCreated browser_session
  | LimitReached int

datatype expiry_reason = IdleExpiry | AbsoluteExpiry

datatype session_resolution =
    ResActive browser_session platform_user
  | ResNotFound
  | ResRevoked browser_session
  | ResExpired expiry_reason browser_session
  | ResUserDisabled browser_session platform_user

datatype dm_route =
    DmResolved platform_user agent_binding string execution_target
  | DmUserNotFound
  | DmAgentUnavailable

section \<open>Managed scopes\<close>

datatype scope_kind = Team | Group | Part

datatype scope_status = ScopeActive | ScopeArchived

datatype scope_role = ScopeMember | ScopeLeader

text \<open>\<open>managedBy\<close> has one value, \<open>"ldap-login"\<close>; it is the flag \<open>sc_ldapManaged\<close>.\<close>

record managed_scope =
  sc_id :: string
  sc_kind :: scope_kind
  sc_name :: string
  sc_parentScopeId :: "string option"
  sc_status :: scope_status
  sc_createdByUserId :: string
  sc_createdAt :: int
  sc_updatedAt :: int
  sc_ldapManaged :: bool
  sc_externalKey :: "string option"

record scope_membership =
  m_scopeId :: string
  m_userId :: string
  m_role :: scope_role
  m_createdAt :: int
  m_updatedAt :: int
  m_ldapManaged :: bool
  m_manualRole :: "scope_role option"

datatype access_source = AdministratorAccess | DirectAccess | AncestorAccess

record scope_access =
  ac_scope :: managed_scope
  ac_source :: access_source
  ac_directRole :: "scope_role option"

datatype auth_source = NoSource | AdministratorSource | MembershipSource | LeadershipSource

record organization_authorization =
  canRead :: bool
  canManageMembers :: bool
  canManageStructure :: bool
  canManageLeaders :: bool
  factSource :: auth_source
  factScopeIds :: "string list"

section \<open>Audit events\<close>

text \<open>
  \<open>details\<close> is a record of JSON values; the modelled callers store strings, integers and
  booleans in it.
\<close>

datatype detail = DStr string | DInt int | DBool bool

record audit_params =
  ap_actorUserId :: "string option"
  ap_eventType :: string
  ap_targetType :: string
  ap_targetId :: string
  ap_details :: "(string \<times> detail) list option"
  ap_createdAt :: int

record audit_event =
  ae_id :: string
  ae_actorUserId :: "string option"
  ae_eventType :: string
  ae_targetType :: string
  ae_targetId :: string
  ae_details :: "(string \<times> detail) list option"
  ae_createdAt :: int

section \<open>Identifiers\<close>

datatype resource_kind = SafeConnectEndpointKind | VmHostKind | VmAllocationKind | SshCredentialKind

datatype id_kind =
  UserId | BindingId | SessionId | ScopeId | AuditEventId | ExecutionResourceId resource_kind

text \<open>
  An id factory is a source of identifiers. Its calls are numbered over the life of the process,
  so that it is a function of the kind asked for and the number of the call; a store keeps the
  number of calls made so far. What the stores rely on is that identifiers of one kind never
  repeat and are not blank.
\<close>

type_synonym id_factory_fun = "id_kind \<Rightarrow> nat \<Rightarrow> string"

locale id_factory =
  fixes nextId :: id_factory_fun
  assumes nextId_inj: "nextId k m = nextId k n \<Longrightarrow> m = n"
    and nextId_nonblank: "trim (nextId k n) \<noteq> []"
begin

lemma nextId_eq_iff [simp]: "nextId k m = nextId k n \<longleftrightarrow> m = n"
  using nextId_inj by blast

lemma nextId_nonempty: "nextId k n \<noteq> []"
  using nextId_nonblank [of k n] by auto

end

fun resourceKindName :: "resource_kind \<Rightarrow> string" where
  "resourceKindName SafeConnectEndpointKind = ''safeconnect-endpoint''"
| "resourceKindName VmHostKind = ''vm-host''"
| "resourceKindName VmAllocationKind = ''vm-allocation''"
| "resourceKindName SshCredentialKind = ''ssh-credential''"

fun idPrefix :: "id_kind \<Rightarrow> string" where
  "idPrefix UserId = ''user-''"
| "idPrefix BindingId = ''binding-''"
| "idPrefix SessionId = ''session-''"
| "idPrefix ScopeId = ''scope-''"
| "idPrefix AuditEventId = ''audit-''"
| "idPrefix (ExecutionResourceId k) = resourceKindName k @ ''-''"

text \<open>The default factory: a prefix and the \<open>n\<close>-th result of \<open>randomUUID\<close>, a parameter.\<close>

definition defaultControlPlaneIdFactory :: "(nat \<Rightarrow> string) \<Rightarrow> id_factory_fun" where
  "defaultControlPlaneIdFactory randomUUID k n = idPrefix k @ randomUUID n"

lemma trim_nonspace_head:
  assumes "\<not> isSpace c"
  shows "trim (c # cs) \<noteq> []"
proof
  assume "trim (c # cs) = []"
  then have "dropWhile isSpace (rev (c # cs)) = []"
    using assms by (simp add: trim_def trimStart_def trimEnd_def)
  then have "\<forall>x \<in> set (rev (c # cs)). isSpace x"
    by (simp only: dropWhile_eq_Nil_conv)
  with assms show False by simp
qed

lemma resourceKindName_head: "\<exists>c cs. resourceKindName k = c # cs \<and> \<not> isSpace c"
  by (cases k) (simp_all add: isSpace_def)

lemma idPrefix_head: "\<exists>c cs. idPrefix k = c # cs \<and> \<not> isSpace c"
proof (cases k)
  case (ExecutionResourceId r)
  then show ?thesis using resourceKindName_head [of r] by auto
qed (simp_all add: isSpace_def)

locale uuid_source =
  fixes randomUUID :: "nat \<Rightarrow> string"
  assumes randomUUID_inj: "randomUUID m = randomUUID n \<Longrightarrow> m = n"

sublocale uuid_source \<subseteq> dflt: id_factory "defaultControlPlaneIdFactory randomUUID"
proof
  fix k m n
  show "defaultControlPlaneIdFactory randomUUID k m = defaultControlPlaneIdFactory randomUUID k n \<Longrightarrow> m = n"
    by (simp add: defaultControlPlaneIdFactory_def randomUUID_inj)
  obtain c cs where "idPrefix k = c # cs" and "\<not> isSpace c"
    using idPrefix_head by blast
  then show "trim (defaultControlPlaneIdFactory randomUUID k n) \<noteq> []"
    by (simp add: defaultControlPlaneIdFactory_def trim_nonspace_head)
qed

text \<open>A numbering that stands for the random identifiers in the witnesses.\<close>

definition unaryUUID :: "nat \<Rightarrow> string" where
  "unaryUUID n = replicate n (CHR ''x'')"

lemma unaryUUID_inj: "unaryUUID m = unaryUUID n \<Longrightarrow> m = n"
  by (metis unaryUUID_def length_replicate)

interpretation unary: uuid_source unaryUUID
  by unfold_locales (rule unaryUUID_inj)

end
