(* ===== verification/AgentIds.thy ===== *)
theory AgentIds
  imports Contracts
begin

text \<open>
  Agent identifiers: \<open>normalization-core/src/agent-id.ts\<close>, the string coercions it uses
  (\<open>string-coerce.ts\<close>) and \<open>ids.ts\<close>. SHA-256 in hexadecimal (\<open>node:crypto\<close>) is the
  parameter \<open>sha256hex\<close>.
\<close>

section \<open>Coercions\<close>

definition normalizeOptionalString :: "string option \<Rightarrow> string option" where
  "normalizeOptionalString value =
     (case value of None \<Rightarrow> None
      | Some v \<Rightarrow> (let t = trim v in if t = [] then None else Some t))"

definition normalizeOptionalLowercaseString :: "string option \<Rightarrow> string option" where
  "normalizeOptionalLowercaseString value = map_option toLowerCase (normalizeOptionalString value)"

definition normalizeLowercaseStringOrEmpty :: "string option \<Rightarrow> string" where
  "normalizeLowercaseStringOrEmpty value =
     (case normalizeOptionalLowercaseString value of None \<Rightarrow> [] | Some v \<Rightarrow> v)"

section \<open>agent-id.ts\<close>

definition DEFAULT_AGENT_ID :: string where
  "DEFAULT_AGENT_ID = ''main''"

text \<open>The class \<open>[a-z0-9_-]\<close>, and \<open>VALID_ID_RE\<close>, which ignores case.\<close>

definition isIdChar :: "char \<Rightarrow> bool" where
  "isIdChar c = (isLowerChar c \<or> isDigitChar c \<or> c = CHR ''_'' \<or> c = CHR ''-'')"

definition validIdRe :: "string \<Rightarrow> bool" where
  "validIdRe s =
     (case s of [] \<Rightarrow> False
      | c # cs \<Rightarrow> isAlnumChar c \<and> length cs \<le> 63
                 \<and> list_all (\<lambda>d. isAlnumChar d \<or> d = CHR ''_'' \<or> d = CHR ''-'') cs)"

text \<open>\<open>replace(INVALID_CHARS_RE, "-")\<close>: every maximal run of other characters is one dash.\<close>

fun replaceInvalidRuns :: "bool \<Rightarrow> string \<Rightarrow> string" where
  "replaceInvalidRuns inRun [] = []"
| "replaceInvalidRuns inRun (c # cs) =
     (if isIdChar c then c # replaceInvalidRuns False cs
      else if inRun then replaceInvalidRuns True cs
      else CHR ''-'' # replaceInvalidRuns True cs)"

definition normalizeAgentId :: "string option \<Rightarrow> string" where
  "normalizeAgentId value =
     (let trimmed = trim (case value of None \<Rightarrow> [] | Some v \<Rightarrow> v) in
      if trimmed = [] then DEFAULT_AGENT_ID
      else
        let normalized = normalizeLowercaseStringOrEmpty (Some trimmed) in
        if validIdRe trimmed then normalized
        else
          let cut = take 64 (stripTrailing (CHR ''-'')
                      (stripLeading (CHR ''-'') (replaceInvalidRuns False normalized)))
          in if cut = [] then DEFAULT_AGENT_ID else cut)"

definition isValidAgentId :: "string option \<Rightarrow> bool" where
  "isValidAgentId value =
     (let trimmed = trim (case value of None \<Rightarrow> [] | Some v \<Rightarrow> v)
      in trimmed \<noteq> [] \<and> validIdRe trimmed)"

section \<open>ids.ts\<close>

definition MAX_AGENT_ID_LENGTH :: nat where
  "MAX_AGENT_ID_LENGTH = 64"

definition ROOM_AGENT_PREFIX :: string where
  "ROOM_AGENT_PREFIX = ''group-''"

definition ROOM_AGENT_DIGEST_LENGTH :: nat where
  "ROOM_AGENT_DIGEST_LENGTH = 12"

text \<open>
  \<open>idFactory.nextExecutionResourceId\<close> is an optional method; without it the id is made of a
  fresh random identifier, given here by the same numbering.
\<close>

definition nextExecutionResourceId ::
    "(resource_kind \<Rightarrow> nat \<Rightarrow> string) option \<Rightarrow> (nat \<Rightarrow> string) \<Rightarrow> resource_kind \<Rightarrow> nat \<Rightarrow> string" where
  "nextExecutionResourceId method randomUUID kind n =
     (case method of Some f \<Rightarrow> f kind n
      | None \<Rightarrow> resourceKindName kind @ ''-'' @ randomUUID n)"

definition derivePersonalAgentId :: "string \<Rightarrow> error + string" where
  "derivePersonalAgentId accountId =
     (let candidate = toLowerCase (replaceChar (CHR ''.'') (CHR ''_'') (trim accountId)) in
      if \<not> isValidAgentId (Some candidate)
      then Inl (PlainError ''account id cannot form a valid personal agent id'' [accountId])
      else Inr candidate)"

definition deriveKnoxRoomAgentId :: "(string \<Rightarrow> string) \<Rightarrow> string \<Rightarrow> string" where
  "deriveKnoxRoomAgentId sha256hex roomId =
     (let legacyCandidate = ROOM_AGENT_PREFIX @ toLowerCase (trim roomId) in
      if isValidAgentId (Some legacyCandidate) then legacyCandidate
      else
        let normalizedRoomId = normalizeAgentId (Some roomId);
            digest = take ROOM_AGENT_DIGEST_LENGTH (sha256hex roomId);
            readableLength =
              MAX_AGENT_ID_LENGTH - length ROOM_AGENT_PREFIX - 1 - ROOM_AGENT_DIGEST_LENGTH;
            readable = take readableLength normalizedRoomId
        in ROOM_AGENT_PREFIX @ readable @ ''-'' @ digest)"

section \<open>Character classes\<close>

lemma isIdChar_cases: "isIdChar c \<Longrightarrow> isAlnumChar c \<or> c = CHR ''_'' \<or> c = CHR ''-''"
  by (auto simp: isIdChar_def isAlnumChar_def)

lemma idChar_not_space: "isAlnumChar c \<or> c = CHR ''_'' \<or> c = CHR ''-'' \<Longrightarrow> \<not> isSpace c"
  by (auto simp: isSpace_def isAlnumChar_def isDigitChar_def isUpperChar_def isLowerChar_def)

lemma trim_no_space: "\<forall>c \<in> set s. \<not> isSpace c \<Longrightarrow> trim s = s"
proof -
  assume a: "\<forall>c \<in> set s. \<not> isSpace c"
  then have "dropWhile isSpace s = s" by (cases s) auto
  moreover have "dropWhile isSpace (rev s) = rev s"
    using a by (cases "rev s") (auto simp: dropWhile_eq_self_iff)
  ultimately show ?thesis by (simp add: trim_def trimStart_def trimEnd_def)
qed

lemma validIdRe_chars:
  "validIdRe s \<Longrightarrow> c \<in> set s \<Longrightarrow> isAlnumChar c \<or> c = CHR ''_'' \<or> c = CHR ''-''"
  by (auto simp: validIdRe_def list_all_iff split: list.splits)

lemma validIdRe_trim: "validIdRe s \<Longrightarrow> trim s = s"
  by (rule trim_no_space, rule ballI, rule idChar_not_space, rule validIdRe_chars)

lemma validIdRe_length: "validIdRe s \<Longrightarrow> length s \<le> MAX_AGENT_ID_LENGTH"
  by (auto simp: validIdRe_def MAX_AGENT_ID_LENGTH_def split: list.splits)

lemma isValidAgentId_iff: "isValidAgentId (Some s) \<longleftrightarrow> validIdRe (trim s)"
  by (auto simp: isValidAgentId_def Let_def validIdRe_def)

text \<open>Lower-casing keeps the class of a character.\<close>

lemma lowerChar_upper: "isUpperChar c \<Longrightarrow> isLowerChar (lowerChar c)"
  by (auto simp: isUpperChar_def isLowerChar_def lowerChar_def Let_def)

lemma lowerChar_other: "isIdChar c \<Longrightarrow> lowerChar c = c"
  by (auto simp: isIdChar_def isLowerChar_def isDigitChar_def lowerChar_def Let_def)

lemma lowerChar_not_upper: "\<not> isUpperChar (lowerChar c)"
  by (auto simp: isUpperChar_def lowerChar_def Let_def)

lemma lowerChar_id: "isAlnumChar c \<or> c = CHR ''_'' \<or> c = CHR ''-'' \<Longrightarrow> isIdChar (lowerChar c)"
  using lowerChar_upper [of c] lowerChar_other [of c]
  by (auto simp: isAlnumChar_def isIdChar_def)

lemma lowerChar_alnum: "isAlnumChar c \<Longrightarrow> isAlnumChar (lowerChar c)"
  using lowerChar_upper [of c] lowerChar_other [of c]
  by (auto simp: isAlnumChar_def isIdChar_def)

lemma idem_lowerChar: "isIdChar c \<or> isUpperChar c \<Longrightarrow> lowerChar (lowerChar c) = lowerChar c"
  using lowerChar_other lowerChar_upper by (metis isIdChar_def)

lemma validIdRe_lower:
  assumes "validIdRe s"
  shows "validIdRe (toLowerCase s) \<and> list_all isIdChar (toLowerCase s)"
proof -
  from assms obtain c cs where s: "s = c # cs" "isAlnumChar c" "length cs \<le> 63"
    "list_all (\<lambda>d. isAlnumChar d \<or> d = CHR ''_'' \<or> d = CHR ''-'') cs"
    by (auto simp: validIdRe_def split: list.splits)
  then have "list_all isIdChar (toLowerCase s)"
    by (auto simp: toLowerCase_def list_all_iff lowerChar_id)
  moreover from this have "validIdRe (toLowerCase s)"
    using s by (auto simp: validIdRe_def toLowerCase_def list_all_iff lowerChar_alnum
        dest: isIdChar_cases)
  ultimately show ?thesis by simp
qed

section \<open>Normalised agent ids\<close>

lemma replaceInvalidRuns_chars: "list_all isIdChar (replaceInvalidRuns b s)"
  by (induction b s rule: replaceInvalidRuns.induct) (auto simp: isIdChar_def)

lemma set_stripTrailing: "set (stripTrailing d s) \<subseteq> set s"
  by (auto simp: stripTrailing_def dest!: in_dropWhileD)

lemma set_stripLeading: "set (stripLeading d s) \<subseteq> set s"
  by (auto simp: stripLeading_def dest!: in_dropWhileD)

lemma DEFAULT_AGENT_ID_ok:
  "DEFAULT_AGENT_ID \<noteq> [] \<and> length DEFAULT_AGENT_ID \<le> 64 \<and> list_all isIdChar DEFAULT_AGENT_ID"
  by (simp add: DEFAULT_AGENT_ID_def isIdChar_def isLowerChar_def)

text \<open>
  Whatever the input, \<open>normalizeAgentId\<close> returns a non-empty name of at most 64
  characters of \<open>[a-z0-9_-]\<close>: no separator, dot or control character reaches a path built
  from it.
\<close>

lemma normalizeAgentId_filesystem_safe:
  "normalizeAgentId v \<noteq> [] \<and> length (normalizeAgentId v) \<le> 64
   \<and> list_all isIdChar (normalizeAgentId v)"
proof -
  define t where "t = trim (case v of None \<Rightarrow> [] | Some x \<Rightarrow> x)"
  define n where "n = normalizeLowercaseStringOrEmpty (Some t)"
  define cut where "cut = take 64 (stripTrailing (CHR ''-'')
                      (stripLeading (CHR ''-'') (replaceInvalidRuns False n)))"
  have eq: "normalizeAgentId v =
      (if t = [] then DEFAULT_AGENT_ID
       else if validIdRe t then n else if cut = [] then DEFAULT_AGENT_ID else cut)"
    by (simp add: normalizeAgentId_def Let_def t_def n_def cut_def)
  have tt: "trim t = t" by (simp add: t_def)
  have n: "n = toLowerCase t" if "t \<noteq> []"
    using that by (simp add: n_def normalizeLowercaseStringOrEmpty_def tt
        normalizeOptionalLowercaseString_def normalizeOptionalString_def Let_def)
  have cutc: "list_all isIdChar cut"
  proof -
    have "set cut \<subseteq> set (replaceInvalidRuns False n)"
      unfolding cut_def using set_take_subset set_stripTrailing set_stripLeading by fast
    then show ?thesis
      using replaceInvalidRuns_chars [of False n] by (auto simp: list_all_iff)
  qed
  have cutl: "length cut \<le> 64" by (simp add: cut_def)
  show ?thesis
  proof (cases "t = [] \<or> \<not> validIdRe t")
    case True
    then show ?thesis using eq cutc cutl DEFAULT_AGENT_ID_ok by auto
  next
    case False
    then have "validIdRe n \<and> list_all isIdChar n"
      using n validIdRe_lower by simp
    then show ?thesis
      using False eq validIdRe_length [of n] by (auto simp: MAX_AGENT_ID_LENGTH_def validIdRe_def)
  qed
qed

text \<open>A valid id is fixed by normalisation up to case.\<close>

lemma normalizeAgentId_valid:
  assumes "validIdRe s"
  shows "normalizeAgentId (Some s) = toLowerCase s"
proof -
  have "trim s = s" using assms by (rule validIdRe_trim)
  moreover have "s \<noteq> []" using assms by (auto simp: validIdRe_def)
  ultimately show ?thesis
    using assms by (simp add: normalizeAgentId_def Let_def normalizeLowercaseStringOrEmpty_def
        normalizeOptionalLowercaseString_def normalizeOptionalString_def)
qed

section \<open>Derived agent ids\<close>

lemma derivePersonalAgentId_Inr:
  assumes "derivePersonalAgentId a = Inr i"
  shows "i = toLowerCase (replaceChar (CHR ''.'') (CHR ''_'') (trim a)) \<and> validIdRe (trim i)"
  using assms by (auto simp: derivePersonalAgentId_def Let_def isValidAgentId_iff split: if_splits)

lemma lowerChar_space: "isSpace (lowerChar c) = isSpace c"
  by (auto simp: isSpace_def lowerChar_def Let_def)

lemma dotChar_space: "isSpace (if c = CHR ''.'' then CHR ''_'' else c) = isSpace c"
  by (simp add: isSpace_def)

lemma trim_fix_iff: "trim s = s \<longleftrightarrow> s = [] \<or> \<not> isSpace (hd s) \<and> \<not> isSpace (last s)"
proof (cases s)
  case Nil
  then show ?thesis by simp
next
  case (Cons c cs)
  have r: "rev s \<noteq> []" "hd (rev s) = last s" using Cons by (auto simp: hd_rev)
  show ?thesis
  proof
    assume a: "trim s = s"
    then have "dropWhile isSpace s = s" using trimStart_noop by (simp add: trimStart_def)
    moreover from this have "dropWhile isSpace (rev s) = rev s"
      using a by (simp add: trim_def trimStart_def trimEnd_def) (metis rev_rev_ident)
    ultimately show "s = [] \<or> \<not> isSpace (hd s) \<and> \<not> isSpace (last s)"
      using Cons r by (metis dropWhile_eq_self_iff)
  next
    assume "s = [] \<or> \<not> isSpace (hd s) \<and> \<not> isSpace (last s)"
    then have "dropWhile isSpace s = s" "dropWhile isSpace (rev s) = rev s"
      using Cons r by (simp_all add: dropWhile_eq_self_iff)
    then show "trim s = s" by (simp add: trim_def trimStart_def trimEnd_def)
  qed
qed

lemma derived_trimmed: "trim (toLowerCase (replaceChar (CHR ''.'') (CHR ''_'') (trim a)))
    = toLowerCase (replaceChar (CHR ''.'') (CHR ''_'') (trim a))"
proof -
  have "trim (trim a) = trim a" by simp
  then show ?thesis
    unfolding trim_fix_iff
    by (auto simp: toLowerCase_def replaceChar_def last_map hd_map lowerChar_space dotChar_space
        split del: if_split)
qed

text \<open>
  An agent id derived from an account id is a canonical agent id: it is valid, lower case,
  trimmed and fixed by \<open>normalizeAgentId\<close>, so every part of the system names the agent the
  same way.
\<close>

theorem derivePersonalAgentId_canonical:
  assumes "derivePersonalAgentId accountId = Inr agentId"
  shows "isValidAgentId (Some agentId) \<and> trim agentId = agentId
    \<and> normalizeAgentId (Some agentId) = agentId"
proof -
  from derivePersonalAgentId_Inr [OF assms]
  have i: "agentId = toLowerCase (replaceChar (CHR ''.'') (CHR ''_'') (trim accountId))"
    and v: "validIdRe (trim agentId)" by blast+
  have t: "trim agentId = agentId" using i derived_trimmed by simp
  with v have va: "validIdRe agentId" by simp
  have "lowerChar c = c" if "c \<in> set agentId" for c
  proof -
    have "isAlnumChar c \<or> c = CHR ''_'' \<or> c = CHR ''-''"
      using validIdRe_chars [OF va that] .
    moreover from that i obtain d where "c = lowerChar d"
      by (auto simp: toLowerCase_def)
    ultimately have "isIdChar c"
      using lowerChar_not_upper [of d] by (auto simp: isAlnumChar_def isIdChar_def)
    then show ?thesis by (rule lowerChar_other)
  qed
  then have "toLowerCase agentId = agentId"
    by (simp add: toLowerCase_def map_idI)
  with va v t show ?thesis
    by (simp add: isValidAgentId_iff normalizeAgentId_valid)
qed

theorem derivePersonalAgentId_canonical_witness:
  "derivePersonalAgentId '' Jane.Doe '' = Inr ''jane_doe''
   \<and> normalizeAgentId (Some ''jane_doe'') = ''jane_doe''"
proof -
  have h: "derivePersonalAgentId '' Jane.Doe '' = Inr ''jane_doe''" by code_simp
  then show ?thesis using derivePersonalAgentId_canonical [OF h] by simp
qed

lemma alnum_g: "isAlnumChar CHR ''g'' \<and> isAlnumChar CHR ''r'' \<and> isAlnumChar CHR ''o''
    \<and> isAlnumChar CHR ''u'' \<and> isAlnumChar CHR ''p''"
  by (simp add: isAlnumChar_def isLowerChar_def)

text \<open>
  Every room id yields a valid agent id of at most 64 characters, whatever characters the
  room id has, when the digest is a string of at least twelve hexadecimal digits.
\<close>

theorem deriveKnoxRoomAgentId_valid:
  assumes "\<And>s. 12 \<le> length (sha256hex s)"
    and "\<And>s. list_all (\<lambda>c. isDigitChar c \<or> isLowerChar c) (sha256hex s)"
  shows "isValidAgentId (Some (deriveKnoxRoomAgentId sha256hex roomId))
    \<and> length (trim (deriveKnoxRoomAgentId sha256hex roomId)) \<le> MAX_AGENT_ID_LENGTH"
proof (cases "isValidAgentId (Some (ROOM_AGENT_PREFIX @ toLowerCase (trim roomId)))")
  case True
  then show ?thesis
    using validIdRe_length by (simp add: deriveKnoxRoomAgentId_def Let_def isValidAgentId_iff)
next
  case False
  define readable where "readable = take 45 (normalizeAgentId (Some roomId))"
  define digest where "digest = take 12 (sha256hex roomId)"
  have eq: "deriveKnoxRoomAgentId sha256hex roomId = ''group-'' @ readable @ ''-'' @ digest"
    using False by (simp add: deriveKnoxRoomAgentId_def Let_def readable_def digest_def
        MAX_AGENT_ID_LENGTH_def ROOM_AGENT_PREFIX_def ROOM_AGENT_DIGEST_LENGTH_def)
  have "list_all isIdChar readable"
    using normalizeAgentId_filesystem_safe [of "Some roomId"]
    by (auto simp: readable_def list_all_iff dest: in_set_takeD)
  moreover have "list_all isIdChar digest"
    using assms(2) [of roomId] by (auto simp: digest_def list_all_iff isIdChar_def dest: in_set_takeD)
  moreover have "length readable \<le> 45" "length digest \<le> 12"
    by (simp_all add: readable_def digest_def)
  ultimately have v: "validIdRe (''group-'' @ readable @ ''-'' @ digest)"
    by (auto simp: validIdRe_def list_all_iff alnum_g dest: isIdChar_cases)
  then show ?thesis
    using eq validIdRe_trim [OF v] validIdRe_length [OF v] by (simp add: isValidAgentId_iff)
qed

theorem deriveKnoxRoomAgentId_valid_witness:
  "isValidAgentId (Some (deriveKnoxRoomAgentId (\<lambda>_. replicate 64 (CHR ''0'')) ''Room #7''))"
proof -
  have "12 \<le> length (replicate 64 (CHR ''0''))" by simp
  moreover have "list_all (\<lambda>c. isDigitChar c \<or> isLowerChar c) (replicate 64 (CHR ''0''))"
    by (simp add: list_all_iff isDigitChar_def)
  ultimately show ?thesis
    using deriveKnoxRoomAgentId_valid [of "\<lambda>_. replicate 64 (CHR ''0'')" "''Room #7''"] by blast
qed

text \<open>A name that normalisation keeps and validation rejects: a leading underscore.\<close>

lemma normalizeAgentId_underscore:
  "normalizeAgentId (Some ''_ops'') = ''_ops'' \<and> \<not> isValidAgentId (Some ''_ops'')"
  by code_simp

end
