(* ===== verification/StoreState.thy ===== *)
theory StoreState
  imports AgentIds
begin

text \<open>
  The state of \<open>InMemoryControlPlaneStore\<close> (\<open>memory-store.ts\<close>), its options, and the helpers
  every method shares: required strings, fresh identifiers and the audit log.

  Every method body of the class runs without an \<open>await\<close>, so a call is one atomic step on this
  state. The objects the maps hold are mutated in place by the code; the model writes the changed
  object back under its key. Identifiers are non-empty (the law of the id factory), so the
  truthiness tests on them are tests for presence.
\<close>

section \<open>State and options\<close>

record store_options =
  o_buildAgentMainSessionKey :: "string \<Rightarrow> string"
  o_initialAdminAccountIds :: "string list"
  o_idFactory :: id_factory_fun
  o_sessionPolicy :: session_policy
  o_sha256hex :: "string \<Rightarrow> string"
  o_localeCompare :: "string \<Rightarrow> string \<Rightarrow> int"

record mem =
  users :: "(string, platform_user) jsmap"
  userIdByAccountId :: "(string, string) jsmap"
  userIdByEmployeeId :: "(string, string) jsmap"
  identities :: "(string, identity) jsmap"
  bindings :: "(string, agent_binding) jsmap"
  personalBindingIdByUserId :: "(string, string) jsmap"
  roomBindingIdByKey :: "(string, string) jsmap"
  bindingIdByAgentId :: "(string, string) jsmap"
  executionProfiles :: "(string, execution_profile) jsmap"
  sessions :: "(string, browser_session) jsmap"
  sessionIdByTokenHash :: "(string, string) jsmap"
  sessionIdsByUserId :: "(string, string list) jsmap"
  auditEvents :: "audit_event list"
  issued :: nat

definition emptyStore :: mem where
  "emptyStore =
     \<lparr>users = [], userIdByAccountId = [], userIdByEmployeeId = [], identities = [],
      bindings = [], personalBindingIdByUserId = [], roomBindingIdByKey = [],
      bindingIdByAgentId = [], executionProfiles = [], sessions = [],
      sessionIdByTokenHash = [], sessionIdsByUserId = [], auditEvents = [], issued = 0\<rparr>"

section \<open>Helpers\<close>

definition requireNonEmpty :: "string \<Rightarrow> string \<Rightarrow> error + string" where
  "requireNonEmpty value field =
     (let normalized = trim value in
      if normalized = [] then Inl (StateError ''must not be empty'' [field]) else Inr normalized)"

definition copyOptional :: "string option \<Rightarrow> string option" where
  "copyOptional value =
     (case value of None \<Rightarrow> None
      | Some v \<Rightarrow> (let n = trim v in if n = [] then None else Some n))"

text \<open>An optional string in a condition: the empty string counts as absent.\<close>

definition truthy :: "string option \<Rightarrow> string option" where
  "truthy value = (case value of None \<Rightarrow> None | Some v \<Rightarrow> if v = [] then None else Some v)"

definition takeId :: "store_options \<Rightarrow> id_kind \<Rightarrow> mem \<Rightarrow> string \<times> mem" where
  "takeId opts kind s = (o_idFactory opts kind (issued s), s\<lparr>issued := Suc (issued s)\<rparr>)"

definition adminAccountIds :: "store_options \<Rightarrow> string list" where
  "adminAccountIds opts =
     filter (\<lambda>v. v \<noteq> []) (map (\<lambda>v. toLowerCase (trim v)) (o_initialAdminAccountIds opts))"

lemma requireNonEmpty_Inr [simp]:
  "requireNonEmpty v f = Inr x \<longleftrightarrow> x = trim v \<and> trim v \<noteq> []"
  by (auto simp: requireNonEmpty_def Let_def)

lemma requireNonEmpty_ok [simp]: "trim v \<noteq> [] \<Longrightarrow> requireNonEmpty v f = Inr (trim v)"
  by simp

lemma requireNonEmpty_Inl:
  "requireNonEmpty v f = Inl e \<longleftrightarrow> trim v = [] \<and> e = StateError ''must not be empty'' [f]"
  by (auto simp: requireNonEmpty_def Let_def)

section \<open>Audit log\<close>

definition appendAuditEvent ::
    "store_options \<Rightarrow> audit_params \<Rightarrow> mem \<Rightarrow> (error + audit_event) \<times> mem" where
  "appendAuditEvent opts ap s =
     (let (eid, s1) = takeId opts AuditEventId s in
      orThrow (requireNonEmpty (ap_eventType ap) ''eventType'') s1 (\<lambda>eventType.
      orThrow (requireNonEmpty (ap_targetType ap) ''targetType'') s1 (\<lambda>targetType.
      orThrow (requireNonEmpty (ap_targetId ap) ''targetId'') s1 (\<lambda>targetId.
        let event =
          \<lparr>ae_id = eid, ae_actorUserId = truthy (ap_actorUserId ap), ae_eventType = eventType,
           ae_targetType = targetType, ae_targetId = targetId, ae_details = ap_details ap,
           ae_createdAt = ap_createdAt ap\<rparr>
        in (Inr event, s1\<lparr>auditEvents := auditEvents s1 @ [event]\<rparr>)))))"

definition recordAuditEvent ::
    "store_options \<Rightarrow> audit_params \<Rightarrow> mem \<Rightarrow> (error + audit_event) \<times> mem" where
  "recordAuditEvent opts ap s = appendAuditEvent opts ap s"

text \<open>
  The \<open>limit\<close> of \<open>listAuditEvents\<close> is any JavaScript number: finite, possibly with a fraction,
  or not (\<open>Number.isFinite\<close> is false). A finite number is given by its truncation.
\<close>

datatype js_limit = FiniteLimit int | NotFinite

definition boundedLimit :: "int \<Rightarrow> int \<Rightarrow> int \<Rightarrow> js_limit \<Rightarrow> int" where
  "boundedLimit lo hi dflt limit =
     (case limit of FiniteLimit n \<Rightarrow> max lo (min n hi) | NotFinite \<Rightarrow> dflt)"

definition listAuditEvents :: "js_limit \<Rightarrow> mem \<Rightarrow> audit_event list" where
  "listAuditEvents limit s = take (nat (boundedLimit 1 500 100 limit)) (rev (auditEvents s))"

lemma boundedLimit_range: "lo \<le> d \<Longrightarrow> d \<le> hi \<Longrightarrow> lo \<le> boundedLimit lo hi d l \<and> boundedLimit lo hi d l \<le> hi"
  by (cases l) (auto simp: boundedLimit_def)

lemma appendAuditEvent_cases:
  obtains (thrown) e where "appendAuditEvent opts ap s = (Inl e, s\<lparr>issued := Suc (issued s)\<rparr>)"
  | (logged) ev where "appendAuditEvent opts ap s
      = (Inr ev, s\<lparr>issued := Suc (issued s), auditEvents := auditEvents s @ [ev]\<rparr>)"
      and "ae_id ev = o_idFactory opts AuditEventId (issued s)"
      and "ae_eventType ev = trim (ap_eventType ap)" and "ae_createdAt ev = ap_createdAt ap"
      and "ae_targetId ev = trim (ap_targetId ap)"
proof (cases "appendAuditEvent opts ap s")
  case (Pair r t)
  show ?thesis
  proof (cases r)
    case (Inl e)
    with Pair have "t = s\<lparr>issued := Suc (issued s)\<rparr>"
      by (auto simp: appendAuditEvent_def takeId_def Let_def split: throw_splits)
    with Pair Inl thrown show ?thesis by simp
  next
    case (Inr ev)
    with Pair show ?thesis
      by (intro logged [of ev])
        (auto simp: appendAuditEvent_def takeId_def Let_def split: throw_splits)
  qed
qed

text \<open>Fields of the state that the audit log does not touch.\<close>

definition sameTables :: "mem \<Rightarrow> mem \<Rightarrow> bool" where
  "sameTables s t \<longleftrightarrow>
     users t = users s \<and> userIdByAccountId t = userIdByAccountId s
     \<and> userIdByEmployeeId t = userIdByEmployeeId s \<and> identities t = identities s
     \<and> bindings t = bindings s \<and> personalBindingIdByUserId t = personalBindingIdByUserId s
     \<and> roomBindingIdByKey t = roomBindingIdByKey s \<and> bindingIdByAgentId t = bindingIdByAgentId s
     \<and> executionProfiles t = executionProfiles s \<and> sessions t = sessions s
     \<and> sessionIdByTokenHash t = sessionIdByTokenHash s
     \<and> sessionIdsByUserId t = sessionIdsByUserId s"

lemma appendAuditEvent_frame:
  "sameTables s (snd (appendAuditEvent opts ap s))"
  by (rule appendAuditEvent_cases [of opts ap s]) (simp_all add: sameTables_def)

lemma appendAuditEvent_issued [simp]:
  "issued (snd (appendAuditEvent opts ap s)) = Suc (issued s)"
  by (rule appendAuditEvent_cases [of opts ap s]) simp_all

lemma appendAuditEvent_prefix:
  "prefix (auditEvents s) (auditEvents (snd (appendAuditEvent opts ap s)))"
  by (rule appendAuditEvent_cases [of opts ap s]) simp_all

text \<open>
  The identifiers a factory has given in its first \<open>n\<close> calls; the next one is none of them.
\<close>

definition issuedId :: "store_options \<Rightarrow> id_kind \<Rightarrow> nat \<Rightarrow> string \<Rightarrow> bool" where
  "issuedId opts kind n k \<longleftrightarrow> (\<exists>m < n. k = o_idFactory opts kind m)"

lemma issuedId_mono: "issuedId opts kind m k \<Longrightarrow> m \<le> n \<Longrightarrow> issuedId opts kind n k"
  by (metis issuedId_def order_less_le_trans)

lemma issuedId_Suc: "issuedId opts kind n k \<Longrightarrow> issuedId opts kind (Suc n) k"
  by (erule issuedId_mono) simp

lemma issuedId_new: "m < n \<Longrightarrow> issuedId opts kind n (o_idFactory opts kind m)"
  unfolding issuedId_def by blast

lemma not_issuedId_next:
  assumes "id_factory (o_idFactory opts)"
  shows "\<not> issuedId opts kind n (o_idFactory opts kind n)"
  using id_factory.nextId_inj [OF assms] by (fastforce simp: issuedId_def)

section \<open>A concrete configuration\<close>

text \<open>The options the witnesses run with: numbered identifiers and a constant digest.\<close>

definition demoOptions :: store_options where
  "demoOptions =
     \<lparr>o_buildAgentMainSessionKey = (\<lambda>a. ''agent:'' @ a @ '':main''),
      o_initialAdminAccountIds = ['' Root ''],
      o_idFactory = defaultControlPlaneIdFactory unaryUUID,
      o_sessionPolicy = BROWSER_SESSION_POLICY,
      o_sha256hex = (\<lambda>_. replicate 64 (CHR ''0'')),
      o_localeCompare = (\<lambda>x y. if x = y then 0 else if x < y then - 1 else 1)\<rparr>"

lemma demo_factory: "id_factory (o_idFactory demoOptions)"
  by (simp add: demoOptions_def unary.dflt.id_factory_axioms)

end
