(* ===== verification/Directory.thy ===== *)
theory Directory
  imports StoreState
begin

text \<open>
  The identity directory of \<open>memory-store.ts\<close>: \<open>upsertPrincipal\<close> and the lookups. An
  authenticated principal is matched to its identity (provider and subject), and otherwise to a
  user by account id and employee id; the directory keeps one user per employee id.
\<close>

section \<open>Operations\<close>

fun providerName :: "auth_provider \<Rightarrow> string" where
  "providerName Ldap = ''ldap''"
| "providerName Saml = ''saml''"

definition identityKey :: "auth_provider \<Rightarrow> string \<Rightarrow> string" where
  "identityKey provider subject = providerName provider @ nul # subject"

definition normalizeGroups :: "string list option \<Rightarrow> string list" where
  "normalizeGroups groups =
     sort (jsUnique (filter (\<lambda>g. g \<noteq> []) (map trim (case groups of None \<Rightarrow> [] | Some gs \<Rightarrow> gs))))"

definition normalizeEmployeeId :: "string \<Rightarrow> error + string" where
  "normalizeEmployeeId employeeId =
     (case requireNonEmpty employeeId ''principal.employeeId'' of
        Inl e \<Rightarrow> Inl e | Inr v \<Rightarrow> Inr (toLowerCase v))"

definition requestedAccountId :: "principal \<Rightarrow> error + string option" where
  "requestedAccountId p =
     (case truthy (p_accountId p) of
        None \<Rightarrow> Inr None
      | Some a \<Rightarrow> (case normalizeEmployeeId a of Inl e \<Rightarrow> Inl e | Inr v \<Rightarrow> Inr (Some v)))"

definition requireUser :: "string \<Rightarrow> mem \<Rightarrow> error + platform_user" where
  "requireUser userId s =
     (case mapGet (users s) userId of
        None \<Rightarrow> Inl (NotFoundError UserResource userId) | Some u \<Rightarrow> Inr u)"

definition updateUserFromPrincipal :: "principal \<Rightarrow> int \<Rightarrow> platform_user \<Rightarrow> platform_user" where
  "updateUserFromPrincipal p updatedAt user =
     user\<lparr>u_groups := normalizeGroups (p_groups p),
          u_lastLoginAt :=
            Some (max updatedAt
                   ((case u_lastLoginAt user of None \<Rightarrow> updatedAt - 1 | Some t \<Rightarrow> t) + 1)),
          u_updatedAt := updatedAt,
          u_displayName := copyOptional (p_displayName p),
          u_email := copyOptional (p_email p),
          u_department := copyOptional (p_department p)\<rparr>"

definition createUser ::
    "store_options \<Rightarrow> string \<Rightarrow> string \<Rightarrow> principal \<Rightarrow> int \<Rightarrow> mem \<Rightarrow> platform_user \<times> mem" where
  "createUser opts accountId employeeId p createdAt s =
     (let (uid, s1) = takeId opts UserId s;
          user =
            \<lparr>u_id = uid, u_accountId = accountId, u_employeeId = employeeId,
             u_status = UserActive,
             u_globalRole =
               (if accountId \<in> set (adminAccountIds opts) then GlobalAdmin else GlobalMember),
             u_displayName = copyOptional (p_displayName p),
             u_email = copyOptional (p_email p),
             u_department = copyOptional (p_department p),
             u_timezone = None,
             u_groups = normalizeGroups (p_groups p),
             u_createdAt = createdAt, u_updatedAt = createdAt,
             u_lastLoginAt = Some createdAt\<rparr>
      in (user,
          s1\<lparr>users := mapSet (users s1) uid user,
             userIdByAccountId := mapSet (userIdByAccountId s1) accountId uid,
             userIdByEmployeeId := mapSet (userIdByEmployeeId s1) employeeId uid\<rparr>))"

definition moveEmployeeId ::
    "platform_user \<Rightarrow> string \<Rightarrow> (string, string) jsmap
     \<Rightarrow> error + platform_user \<times> (string, string) jsmap" where
  "moveEmployeeId user employeeId index =
     (if u_employeeId user = employeeId then Inr (user, index)
      else if (case mapGet index employeeId of None \<Rightarrow> False | Some owner \<Rightarrow> owner \<noteq> u_id user)
      then Inl (ConflictError EmployeeIdConflict)
      else Inr (user\<lparr>u_employeeId := employeeId\<rparr>,
                mapSet (mapDelete index (u_employeeId user)) employeeId (u_id user)))"

definition reconcileIdentityEmployeeId ::
    "identity \<Rightarrow> platform_user \<Rightarrow> string \<Rightarrow> (string, string) jsmap
     \<Rightarrow> error + identity \<times> platform_user \<times> (string, string) jsmap" where
  "reconcileIdentityEmployeeId ident user employeeId index =
     (if employeeId = u_employeeId user
      then Inr (ident\<lparr>i_employeeId := employeeId\<rparr>, user, index)
      else if i_employeeId ident \<noteq> u_employeeId user
      then Inl (ConflictError EmployeeIdMismatch)
      else (case moveEmployeeId user employeeId index of
              Inl e \<Rightarrow> Inl e
            | Inr (user', index') \<Rightarrow> Inr (ident\<lparr>i_employeeId := employeeId\<rparr>, user', index')))"

text \<open>The branch for an identity that has authenticated before.\<close>

definition upsertKnownIdentity ::
    "principal \<Rightarrow> int \<Rightarrow> string \<Rightarrow> string option \<Rightarrow> string \<Rightarrow> identity \<Rightarrow> mem
     \<Rightarrow> (error + upsert_result) \<times> mem" where
  "upsertKnownIdentity p authenticatedAt employeeId requested key ident s =
     orThrow (requireUser (i_userId ident) s) s (\<lambda>user.
       if (case requested of None \<Rightarrow> False | Some a \<Rightarrow> a \<noteq> u_accountId user)
       then (Inl (ConflictError AccountIdMismatch), s)
       else if authenticatedAt < i_lastAuthenticatedAt ident
               \<or> (authenticatedAt = i_lastAuthenticatedAt ident \<and> employeeId \<noteq> i_employeeId ident)
       then (Inl (ConflictError StaleAuthentication), s)
       else
         orThrow (reconcileIdentityEmployeeId ident user employeeId (userIdByEmployeeId s)) s
           (\<lambda>(ident1, user1, index).
             let user2 = updateUserFromPrincipal p authenticatedAt user1;
                 ident2 = ident1\<lparr>i_lastAuthenticatedAt := authenticatedAt\<rparr>
             in (Inr \<lparr>r_user = user2, r_identity = ident2,
                      r_createdUser = False, r_createdIdentity = False\<rparr>,
                 s\<lparr>users := mapSet (users s) (u_id user) user2,
                   userIdByEmployeeId := index,
                   identities := mapSet (identities s) key ident2\<rparr>)))"

text \<open>The branch for a new identity: attach it to a user, or create the user.\<close>

definition insertIdentity ::
    "principal \<Rightarrow> int \<Rightarrow> string \<Rightarrow> string \<Rightarrow> string \<Rightarrow> platform_user \<Rightarrow> bool \<Rightarrow> mem
     \<Rightarrow> (error + upsert_result) \<times> mem" where
  "insertIdentity p authenticatedAt subject employeeId key user created s =
     (let ident =
        \<lparr>i_provider = p_provider p, i_subject = subject, i_userId = u_id user,
         i_employeeId = employeeId, i_createdAt = authenticatedAt,
         i_lastAuthenticatedAt = authenticatedAt\<rparr>
      in (Inr \<lparr>r_user = user, r_identity = ident, r_createdUser = created,
               r_createdIdentity = True\<rparr>,
          s\<lparr>identities := mapSet (identities s) key ident\<rparr>))"

definition upsertNewIdentity ::
    "store_options \<Rightarrow> principal \<Rightarrow> int \<Rightarrow> string \<Rightarrow> string \<Rightarrow> string option \<Rightarrow> string \<Rightarrow> mem
     \<Rightarrow> (error + upsert_result) \<times> mem" where
  "upsertNewIdentity opts p authenticatedAt subject employeeId requested key s =
     (let accountOwnerId =
            (case requested of None \<Rightarrow> None | Some a \<Rightarrow> mapGet (userIdByAccountId s) a);
          employeeOwnerId = mapGet (userIdByEmployeeId s) employeeId
      in
      if (case (accountOwnerId, employeeOwnerId) of (Some a, Some e) \<Rightarrow> a \<noteq> e | _ \<Rightarrow> False)
      then (Inl (ConflictError AccountIdConflict), s)
      else
        (case (case accountOwnerId of None \<Rightarrow> employeeOwnerId | Some a \<Rightarrow> Some a) of
           Some existingUserId \<Rightarrow>
             orThrow (requireUser existingUserId s) s (\<lambda>user.
               if (case requested of None \<Rightarrow> False | Some a \<Rightarrow> u_accountId user \<noteq> a)
               then (Inl (ConflictError AccountIdMismatch), s)
               else
                 let user1 = updateUserFromPrincipal p authenticatedAt user in
                 insertIdentity p authenticatedAt subject employeeId key user1 False
                   (s\<lparr>users := mapSet (users s) (u_id user) user1\<rparr>))
         | None \<Rightarrow>
             let accountId = (case requested of None \<Rightarrow> employeeId | Some a \<Rightarrow> a);
                 (user, s1) = createUser opts accountId employeeId p authenticatedAt s
             in insertIdentity p authenticatedAt subject employeeId key user True s1))"

definition upsertPrincipal ::
    "store_options \<Rightarrow> principal \<Rightarrow> int \<Rightarrow> mem \<Rightarrow> (error + upsert_result) \<times> mem" where
  "upsertPrincipal opts p authenticatedAt s =
     orThrow (requireNonEmpty (p_subject p) ''principal.subject'') s (\<lambda>subject.
     orThrow (normalizeEmployeeId (p_employeeId p)) s (\<lambda>employeeId.
     orThrow (requestedAccountId p) s (\<lambda>requested.
       let key = identityKey (p_provider p) subject in
       case mapGet (identities s) key of
         Some ident \<Rightarrow> upsertKnownIdentity p authenticatedAt employeeId requested key ident s
       | None \<Rightarrow> upsertNewIdentity opts p authenticatedAt subject employeeId requested key s)))"

definition getUserById :: "string \<Rightarrow> mem \<Rightarrow> platform_user option" where
  "getUserById userId s = mapGet (users s) userId"

definition getUserByAccountId :: "string \<Rightarrow> mem \<Rightarrow> platform_user option" where
  "getUserByAccountId accountId s =
     (case mapGet (userIdByAccountId s) (toLowerCase (trim accountId)) of
        None \<Rightarrow> None | Some uid \<Rightarrow> mapGet (users s) uid)"

definition getUserByEmployeeId :: "string \<Rightarrow> mem \<Rightarrow> platform_user option" where
  "getUserByEmployeeId employeeId s =
     (case mapGet (userIdByEmployeeId s) (toLowerCase (trim employeeId)) of
        None \<Rightarrow> None | Some uid \<Rightarrow> mapGet (users s) uid)"

section \<open>Outcomes of an upsert\<close>

lemma moveEmployeeId_Inr:
  assumes "moveEmployeeId user e idx = Inr (user', idx')"
  shows "user' = user\<lparr>u_employeeId := e\<rparr>
    \<and> (u_employeeId user = e \<and> idx' = idx
       \<or> (mapGet idx e = None \<or> mapGet idx e = Some (u_id user))
         \<and> idx' = mapSet (mapDelete idx (u_employeeId user)) e (u_id user))"
  using assms by (auto simp: moveEmployeeId_def split: if_splits option.splits)

lemma reconcile_Inr:
  assumes "reconcileIdentityEmployeeId ident user e idx = Inr (ident', user', idx')"
  shows "ident' = ident\<lparr>i_employeeId := e\<rparr> \<and> user' = user\<lparr>u_employeeId := e\<rparr>
    \<and> (u_employeeId user = e \<and> idx' = idx
       \<or> (mapGet idx e = None \<or> mapGet idx e = Some (u_id user))
         \<and> idx' = mapSet (mapDelete idx (u_employeeId user)) e (u_id user))"
  using assms
  by (auto simp: reconcileIdentityEmployeeId_def split: if_splits sum.splits dest!: moveEmployeeId_Inr)

lemma updateUser_fields [simp]:
  "u_id (updateUserFromPrincipal p t u) = u_id u"
  "u_accountId (updateUserFromPrincipal p t u) = u_accountId u"
  "u_employeeId (updateUserFromPrincipal p t u) = u_employeeId u"
  "u_status (updateUserFromPrincipal p t u) = u_status u"
  "u_globalRole (updateUserFromPrincipal p t u) = u_globalRole u"
  "u_createdAt (updateUserFromPrincipal p t u) = u_createdAt u"
  "u_timezone (updateUserFromPrincipal p t u) = u_timezone u"
  by (simp_all add: updateUserFromPrincipal_def)

text \<open>The normalised request of a principal: its subject, employee id and requested account.\<close>

definition principalRequest :: "principal \<Rightarrow> string \<Rightarrow> string \<Rightarrow> string option \<Rightarrow> bool" where
  "principalRequest p subject employeeId requested \<longleftrightarrow>
     subject = trim (p_subject p) \<and> subject \<noteq> [] \<and> normalizeEmployeeId (p_employeeId p) = Inr employeeId
     \<and> requestedAccountId p = Inr requested"

lemma upsert_request:
  assumes "upsertPrincipal opts p t s = (Inr r, s')"
  obtains subject employeeId requested where "principalRequest p subject employeeId requested"
    and "(case mapGet (identities s) (identityKey (p_provider p) subject) of
           Some ident \<Rightarrow> upsertKnownIdentity p t employeeId requested
             (identityKey (p_provider p) subject) ident s
         | None \<Rightarrow> upsertNewIdentity opts p t subject employeeId requested
             (identityKey (p_provider p) subject) s) = (Inr r, s')"
  using assms
  by (auto simp: upsertPrincipal_def principalRequest_def Let_def elim!: orThrow_InrE)

text \<open>The three ways an upsert succeeds.\<close>

lemma upsert_cases [consumes 1, case_names known attached created]:
  assumes "upsertPrincipal opts p t s = (Inr r, s')"
  obtains
    (known) subject e req ident user user2 idx where
      "principalRequest p subject e req"
      "mapGet (identities s) (identityKey (p_provider p) subject) = Some ident"
      "mapGet (users s) (i_userId ident) = Some user"
      "req = None \<or> req = Some (u_accountId user)"
      "i_lastAuthenticatedAt ident \<le> t"
      "user2 = updateUserFromPrincipal p t (user\<lparr>u_employeeId := e\<rparr>)"
      "u_employeeId user = e \<and> idx = userIdByEmployeeId s
       \<or> (mapGet (userIdByEmployeeId s) e = None \<or> mapGet (userIdByEmployeeId s) e = Some (u_id user))
         \<and> idx = mapSet (mapDelete (userIdByEmployeeId s) (u_employeeId user)) e (u_id user)"
      "r = \<lparr>r_user = user2, r_identity = ident\<lparr>i_employeeId := e, i_lastAuthenticatedAt := t\<rparr>,
            r_createdUser = False, r_createdIdentity = False\<rparr>"
      "s' = s\<lparr>users := mapSet (users s) (u_id user) user2, userIdByEmployeeId := idx,
              identities := mapSet (identities s) (identityKey (p_provider p) subject)
                (ident\<lparr>i_employeeId := e, i_lastAuthenticatedAt := t\<rparr>)\<rparr>"
  | (attached) subject e req ident user user2 where
      "principalRequest p subject e req"
      "mapGet (identities s) (identityKey (p_provider p) subject) = None"
      "\<exists>k. mapGet (users s) k = Some user \<and> (mapGet (userIdByEmployeeId s) e = Some k
           \<or> (\<exists>a. req = Some a \<and> mapGet (userIdByAccountId s) a = Some k))"
      "req = None \<or> req = Some (u_accountId user)"
      "user2 = updateUserFromPrincipal p t user"
      "ident = \<lparr>i_provider = p_provider p, i_subject = subject, i_userId = u_id user,
         i_employeeId = e, i_createdAt = t, i_lastAuthenticatedAt = t\<rparr>"
      "r = \<lparr>r_user = user2, r_identity = ident, r_createdUser = False, r_createdIdentity = True\<rparr>"
      "s' = s\<lparr>users := mapSet (users s) (u_id user) user2,
              identities := mapSet (identities s) (identityKey (p_provider p) subject) ident\<rparr>"
  | (created) subject e req ident user where
      "principalRequest p subject e req"
      "mapGet (identities s) (identityKey (p_provider p) subject) = None"
      "mapGet (userIdByEmployeeId s) e = None"
      "\<And>a. req = Some a \<Longrightarrow> mapGet (userIdByAccountId s) a = None"
      "u_id user = o_idFactory opts UserId (issued s)"
      "u_accountId user = (case req of None \<Rightarrow> e | Some a \<Rightarrow> a)" "u_employeeId user = e"
      "u_status user = UserActive" "u_lastLoginAt user = Some t"
      "u_globalRole user =
        (if u_accountId user \<in> set (adminAccountIds opts) then GlobalAdmin else GlobalMember)"
      "ident = \<lparr>i_provider = p_provider p, i_subject = subject, i_userId = u_id user,
         i_employeeId = e, i_createdAt = t, i_lastAuthenticatedAt = t\<rparr>"
      "r = \<lparr>r_user = user, r_identity = ident, r_createdUser = True, r_createdIdentity = True\<rparr>"
      "s' = s\<lparr>users := mapSet (users s) (u_id user) user,
              userIdByAccountId := mapSet (userIdByAccountId s) (u_accountId user) (u_id user),
              userIdByEmployeeId := mapSet (userIdByEmployeeId s) e (u_id user),
              issued := Suc (issued s),
              identities := mapSet (identities s) (identityKey (p_provider p) subject) ident\<rparr>"
proof -
  from assms obtain subject e req where q: "principalRequest p subject e req"
    and out: "(case mapGet (identities s) (identityKey (p_provider p) subject) of
           Some ident \<Rightarrow> upsertKnownIdentity p t e req (identityKey (p_provider p) subject) ident s
         | None \<Rightarrow> upsertNewIdentity opts p t subject e req
             (identityKey (p_provider p) subject) s) = (Inr r, s')"
    by (rule upsert_request)
  show ?thesis
  proof (cases "mapGet (identities s) (identityKey (p_provider p) subject)")
    case (Some ident)
    with out have known_eq: "upsertKnownIdentity p t e req (identityKey (p_provider p) subject) ident s = (Inr r, s')"
      by simp
    then obtain user where u: "mapGet (users s) (i_userId ident) = Some user"
      by (auto simp: upsertKnownIdentity_def requireUser_def elim!: orThrow_InrE split: option.splits)
    have ru: "requireUser (i_userId ident) s = Inr user" using u by (simp add: requireUser_def)
    from known_eq have ok: "req = None \<or> req = Some (u_accountId user)" "i_lastAuthenticatedAt ident \<le> t"
      by (auto simp: upsertKnownIdentity_def ru split: if_splits option.splits)
    from known_eq obtain ident1 user1 idx where
      rc: "reconcileIdentityEmployeeId ident user e (userIdByEmployeeId s) = Inr (ident1, user1, idx)"
      and res: "r = \<lparr>r_user = updateUserFromPrincipal p t user1,
              r_identity = ident1\<lparr>i_lastAuthenticatedAt := t\<rparr>,
              r_createdUser = False, r_createdIdentity = False\<rparr>"
        "s' = s\<lparr>users := mapSet (users s) (u_id user) (updateUserFromPrincipal p t user1),
              userIdByEmployeeId := idx,
              identities := mapSet (identities s) (identityKey (p_provider p) subject)
                (ident1\<lparr>i_lastAuthenticatedAt := t\<rparr>)\<rparr>"
      by (auto simp: upsertKnownIdentity_def ru Let_def elim!: orThrow_InrE split: if_splits option.splits)
    from reconcile_Inr [OF rc] res known [OF q Some u ok refl, of idx] show ?thesis by auto
  next
    case None
    with out have new_eq: "upsertNewIdentity opts p t subject e req (identityKey (p_provider p) subject) s = (Inr r, s')"
      by simp
    define acc where "acc = (case req of None \<Rightarrow> None | Some a \<Rightarrow> mapGet (userIdByAccountId s) a)"
    define emp where "emp = mapGet (userIdByEmployeeId s) e"
    show ?thesis
    proof (cases "case acc of None \<Rightarrow> emp | Some a \<Rightarrow> Some a")
      case (Some k)
      with new_eq obtain user where u: "mapGet (users s) k = Some user"
        and rest: "req = None \<or> req = Some (u_accountId user)"
          "insertIdentity p t subject e (identityKey (p_provider p) subject)
             (updateUserFromPrincipal p t user) False
             (s\<lparr>users := mapSet (users s) (u_id user) (updateUserFromPrincipal p t user)\<rparr>) = (Inr r, s')"
        unfolding upsertNewIdentity_def Let_def acc_def [symmetric] emp_def [symmetric]
        by (auto simp: requireUser_def elim!: orThrow_InrE split: if_splits option.splits)
      moreover have "emp = Some k \<or> (\<exists>a. req = Some a \<and> mapGet (userIdByAccountId s) a = Some k)"
        using Some by (auto simp: acc_def split: option.splits)
      ultimately show ?thesis
        using attached [OF q None, of user, OF _ rest(1) refl refl]
        by (auto simp: insertIdentity_def Let_def emp_def)
    next
      case no: None
      then have "acc = None" "emp = None" by (auto split: option.splits)
      with new_eq no obtain user s1 where cu: "createUser opts (case req of None \<Rightarrow> e | Some a \<Rightarrow> a) e p t s = (user, s1)"
        and ins: "insertIdentity p t subject e (identityKey (p_provider p) subject) user True s1 = (Inr r, s')"
        unfolding upsertNewIdentity_def Let_def acc_def [symmetric] emp_def [symmetric]
        by (cases "createUser opts (case req of None \<Rightarrow> e | Some a \<Rightarrow> a) e p t s") auto
      have acc0: "\<And>a. req = Some a \<Longrightarrow> mapGet (userIdByAccountId s) a = None"
        using \<open>acc = None\<close> by (simp add: acc_def)
      show ?thesis
        by (rule created [OF q None \<open>emp = None\<close> [unfolded emp_def] acc0, of user])
          (use cu ins in \<open>auto simp: createUser_def insertIdentity_def takeId_def Let_def\<close>)
    qed
  qed
qed

section \<open>Failed upserts\<close>

lemma upsertKnown_error:
  "upsertKnownIdentity p t emp req key ident s = (Inl e, s') \<Longrightarrow> s' = s"
  by (auto simp: upsertKnownIdentity_def Let_def split: throw_splits if_splits)

lemma upsertNew_error:
  "upsertNewIdentity opts p t subj emp req key s = (Inl e, s') \<Longrightarrow> s' = s"
  by (auto simp: upsertNewIdentity_def insertIdentity_def Let_def
      split: throw_splits if_splits option.splits prod.splits)

text \<open>
  An upsert that throws leaves the whole store as it was: every check of the code comes before its
  first write.
\<close>

lemma upsert_error_unchanged:
  assumes "upsertPrincipal opts p t s = (Inl e, s')"
  shows "s' = s"
  using assms unfolding upsertPrincipal_def Let_def
  by (auto split: throw_splits option.splits dest: upsertKnown_error upsertNew_error)

text \<open>
  A login whose authentication is older than the one already recorded for the identity never
  overwrites newer directory data: it throws, and nothing changes.
\<close>

theorem upsertPrincipal_stale_rejected:
  assumes "principalRequest p subject employeeId requested"
    and "mapGet (identities s) (identityKey (p_provider p) subject) = Some ident"
    and "t < i_lastAuthenticatedAt ident"
  shows "\<exists>e. upsertPrincipal opts p t s = (Inl e, s)"
proof -
  obtain out s' where r: "upsertPrincipal opts p t s = (out, s')" by force
  show ?thesis
  proof (cases out)
    case (Inl e)
    with r upsert_error_unchanged show ?thesis by blast
  next
    case (Inr res)
    from r [unfolded this] show ?thesis
      by (cases rule: upsert_cases) (use assms in \<open>auto simp: principalRequest_def\<close>)
  qed
qed

section \<open>Well-formed directories\<close>

text \<open>
  Every user is stored under its id, an id the factory has issued, and its employee id finds it;
  the two indexes and the identities name users that exist, with the account id or employee id
  they are indexed by.
\<close>

definition wfDirectory :: "store_options \<Rightarrow> mem \<Rightarrow> bool" where
  "wfDirectory opts s \<longleftrightarrow>
     (\<forall>k u. mapGet (users s) k = Some u \<longrightarrow>
        u_id u = k \<and> issuedId opts UserId (issued s) k
        \<and> mapGet (userIdByEmployeeId s) (u_employeeId u) = Some k)
     \<and> (\<forall>a k. mapGet (userIdByAccountId s) a = Some k \<longrightarrow>
          (\<exists>u. mapGet (users s) k = Some u \<and> u_accountId u = a))
     \<and> (\<forall>e k. mapGet (userIdByEmployeeId s) e = Some k \<longrightarrow>
          (\<exists>u. mapGet (users s) k = Some u \<and> u_employeeId u = e))
     \<and> (\<forall>key i. mapGet (identities s) key = Some i \<longrightarrow>
          key = identityKey (i_provider i) (i_subject i) \<and> mapHas (users s) (i_userId i))"

lemma wfDirectoryD:
  assumes "wfDirectory opts s"
  shows "mapGet (users s) k = Some u \<Longrightarrow> u_id u = k"
    and "mapGet (users s) k = Some u \<Longrightarrow> issuedId opts UserId (issued s) k"
    and "mapGet (users s) k = Some u \<Longrightarrow> mapGet (userIdByEmployeeId s) (u_employeeId u) = Some k"
    and "mapGet (userIdByAccountId s) a = Some k \<Longrightarrow> \<exists>u. mapGet (users s) k = Some u \<and> u_accountId u = a"
    and "mapGet (userIdByEmployeeId s) e = Some k \<Longrightarrow> \<exists>u. mapGet (users s) k = Some u \<and> u_employeeId u = e"
    and "mapGet (identities s) key = Some i \<Longrightarrow> key = identityKey (i_provider i) (i_subject i)"
    and "mapGet (identities s) key = Some i \<Longrightarrow> mapHas (users s) (i_userId i)"
  using assms unfolding wfDirectory_def by blast+

lemma wfDirectory_empty: "wfDirectory opts emptyStore"
  by (simp add: wfDirectory_def emptyStore_def)

text \<open>The invariant reads the directory tables and a lower bound of the identifiers issued.\<close>

lemma wfDirectory_frame:
  assumes "wfDirectory opts s" and "users t = users s"
    and "userIdByAccountId t = userIdByAccountId s" and "userIdByEmployeeId t = userIdByEmployeeId s"
    and "identities t = identities s" and "issued s \<le> issued t"
  shows "wfDirectory opts t"
proof -
  have "issuedId opts UserId (issued t) k" if "issuedId opts UserId (issued s) k" for k
    using that assms(6) by (rule issuedId_mono)
  then show ?thesis
    using assms(1) unfolding wfDirectory_def assms(2-5) by blast
qed

text \<open>Replacing a user by one with the same id and account, and moving its employee index along.\<close>

lemma wfDirectory_replaceUser:
  assumes wf: "wfDirectory opts s" and u: "mapGet (users s) k = Some u"
    and same: "u_id u2 = u_id u" "u_accountId u2 = u_accountId u"
    and idx: "u_employeeId u2 = u_employeeId u \<and> idx = userIdByEmployeeId s
      \<or> (mapGet (userIdByEmployeeId s) (u_employeeId u2) = None
         \<or> mapGet (userIdByEmployeeId s) (u_employeeId u2) = Some k)
        \<and> idx = mapSet (mapDelete (userIdByEmployeeId s) (u_employeeId u)) (u_employeeId u2) k"
  shows "wfDirectory opts (s\<lparr>users := mapSet (users s) (u_id u) u2, userIdByEmployeeId := idx\<rparr>)"
proof -
  have k: "u_id u = k" using wfDirectoryD(1) [OF wf u] .
  have emp: "mapGet idx (u_employeeId v) = Some j"
    if "mapGet (mapSet (users s) k u2) j = Some v" for j v
  proof (cases "j = k")
    case True
    with that have "v = u2" by simp
    with idx wfDirectoryD(3) [OF wf u] True show ?thesis by auto
  next
    case False
    with that have v: "mapGet (users s) j = Some v" by simp
    then have "mapGet (userIdByEmployeeId s) (u_employeeId v) = Some j"
      using wfDirectoryD(3) [OF wf] by blast
    moreover from this False wfDirectoryD(3) [OF wf u] have "u_employeeId v \<noteq> u_employeeId u" by auto
    ultimately show ?thesis using idx False by auto
  qed
  have bwd: "\<exists>v. mapGet (mapSet (users s) k u2) j = Some v \<and> u_employeeId v = e"
    if "mapGet idx e = Some j" for e j
  proof -
    have "mapGet (userIdByEmployeeId s) e = Some j \<and> e \<noteq> u_employeeId u \<or> e = u_employeeId u2 \<and> j = k
        \<or> mapGet (userIdByEmployeeId s) e = Some j \<and> u_employeeId u2 = u_employeeId u"
      using that idx by (auto split: if_splits)
    then show ?thesis
      using wfDirectoryD(5) [OF wf, of e j] u wfDirectoryD(3) [OF wf u] by auto
  qed
  have acc: "\<exists>v. mapGet (mapSet (users s) k u2) j = Some v \<and> u_accountId v = a"
    if "mapGet (userIdByAccountId s) a = Some j" for a j
    using wfDirectoryD(4) [OF wf that] u same by auto
  show ?thesis
    unfolding wfDirectory_def
    using k u same emp bwd acc wfDirectoryD(1,2,6,7) [OF wf]
    by (auto simp: k split: if_splits)
qed

lemma wfDirectory_putIdentity:
  assumes "wfDirectory opts s" and "mapHas (users s) (i_userId i)"
  shows "wfDirectory opts
    (s\<lparr>identities := mapSet (identities s) (identityKey (i_provider i) (i_subject i)) i\<rparr>)"
  using assms unfolding wfDirectory_def by (auto split: if_splits)

lemma wfDirectory_newUser:
  assumes wf: "wfDirectory opts s" and fac: "id_factory (o_idFactory opts)"
    and uid: "u_id u = o_idFactory opts UserId (issued s)"
    and emp: "mapGet (userIdByEmployeeId s) (u_employeeId u) = None"
  shows "wfDirectory opts
    (s\<lparr>users := mapSet (users s) (u_id u) u,
       userIdByAccountId := mapSet (userIdByAccountId s) (u_accountId u) (u_id u),
       userIdByEmployeeId := mapSet (userIdByEmployeeId s) (u_employeeId u) (u_id u),
       issued := Suc (issued s)\<rparr>)"
proof -
  have fresh: "mapGet (users s) (u_id u) = None"
    using wfDirectoryD(2) [OF wf] not_issuedId_next [OF fac] uid by (metis option.exhaust)
  have new: "issuedId opts UserId (Suc (issued s)) (u_id u)"
    using uid by (simp add: issuedId_new)
  have other: "u_employeeId v \<noteq> u_employeeId u" if "mapGet (users s) k = Some v" for k v
    using wfDirectoryD(3) [OF wf that] emp by auto
  have noAcc: "mapGet (userIdByAccountId s) a \<noteq> Some (u_id u)" for a
    using wfDirectoryD(4) [OF wf] fresh by fastforce
  have noEmp: "mapGet (userIdByEmployeeId s) e \<noteq> Some (u_id u)" for e
    using wfDirectoryD(5) [OF wf] fresh by fastforce
  show ?thesis
    unfolding wfDirectory_def
    using wfDirectoryD [OF wf] new other noAcc noEmp fresh issuedId_Suc
    by (auto split: if_splits)
qed

lemma upsert_wfDirectory:
  assumes wf: "wfDirectory opts s" and fac: "id_factory (o_idFactory opts)"
  shows "wfDirectory opts (snd (upsertPrincipal opts p t s))"
proof (cases "upsertPrincipal opts p t s")
  case (Pair out s')
  show ?thesis
  proof (cases out)
    case (Inl e)
    with Pair wf upsert_error_unchanged show ?thesis by force
  next
    case (Inr r)
    from Pair [unfolded this] show ?thesis
    proof (cases rule: upsert_cases)
      case (known subject e req ident user user2 idx)
      let ?i = "ident\<lparr>i_employeeId := e, i_lastAuthenticatedAt := t\<rparr>"
      let ?m = "s\<lparr>users := mapSet (users s) (u_id user) user2, userIdByEmployeeId := idx\<rparr>"
      have "wfDirectory opts ?m"
        using wfDirectory_replaceUser [OF wf known(3), of user2 idx] known(6,7)
          wfDirectoryD(1) [OF wf known(3)] by auto
      moreover have "mapHas (users ?m) (i_userId ?i)" using known(3) by simp
      moreover have "identityKey (p_provider p) subject = identityKey (i_provider ?i) (i_subject ?i)"
        using wfDirectoryD(6) [OF wf known(2)] by simp
      ultimately show ?thesis
        using wfDirectory_putIdentity [of opts ?m ?i] Pair Inr known(9) by simp
    next
      case (attached subject e req ident user user2)
      then obtain k where k: "mapGet (users s) k = Some user" by blast
      let ?m = "s\<lparr>users := mapSet (users s) (u_id user) user2\<rparr>"
      have "wfDirectory opts ?m"
        using wfDirectory_replaceUser [OF wf k, of user2 "userIdByEmployeeId s"] attached(5) by simp
      then show ?thesis
        using wfDirectory_putIdentity [of opts ?m ident] Pair Inr attached(6,8) by simp
    next
      case (created subject e req ident user)
      let ?m = "s\<lparr>users := mapSet (users s) (u_id user) user,
           userIdByAccountId := mapSet (userIdByAccountId s) (u_accountId user) (u_id user),
           userIdByEmployeeId := mapSet (userIdByEmployeeId s) (u_employeeId user) (u_id user),
           issued := Suc (issued s)\<rparr>"
      have "wfDirectory opts ?m"
        using wfDirectory_newUser [OF wf fac created(5)] created(3,7) by simp
      then show ?thesis
        using wfDirectory_putIdentity [of opts ?m ident] Pair Inr created(7,11,13) by simp
    qed
  qed
qed

section \<open>What an upsert keeps and what it writes\<close>

lemma identityKey_inj: "identityKey p x = identityKey q y \<longleftrightarrow> p = q \<and> x = y"
  by (cases p; cases q) (simp_all add: identityKey_def)

text \<open>The store after a successful upsert holds exactly the user and the identity returned.\<close>

lemma upsert_post:
  assumes wf: "wfDirectory opts s" and up: "upsertPrincipal opts p t s = (Inr r, s')"
  obtains subject e req where "principalRequest p subject e req"
    and "mapGet (identities s') (identityKey (p_provider p) subject) = Some (r_identity r)"
    and "mapGet (users s') (i_userId (r_identity r)) = Some (r_user r)"
    and "i_userId (r_identity r) = u_id (r_user r)"
    and "req = None \<or> req = Some (u_accountId (r_user r))"
    and "i_lastAuthenticatedAt (r_identity r) = t" and "i_employeeId (r_identity r) = e"
  using up
proof (cases rule: upsert_cases)
  case (known subject e req ident user user2 idx)
  then have "u_id user = i_userId ident" using wfDirectoryD(1) [OF wf] by blast
  with known that [OF known(1)] show ?thesis by auto
next
  case (attached subject e req ident user user2)
  with that [OF attached(1)] show ?thesis by auto
next
  case (created subject e req ident user)
  with that [OF created(1)] show ?thesis by (auto split: option.splits)
qed

text \<open>
  Logging in never changes who a user is: no login promotes, disables or re-enables an account.
\<close>

lemma upsert_keeps_accounts:
  assumes wf: "wfDirectory opts s" and fac: "id_factory (o_idFactory opts)"
    and u: "mapGet (users s) k = Some u"
  shows "\<exists>v. mapGet (users (snd (upsertPrincipal opts p t s))) k = Some v
    \<and> u_id v = u_id u \<and> u_accountId v = u_accountId u \<and> u_status v = u_status u
    \<and> u_globalRole v = u_globalRole u \<and> u_createdAt v = u_createdAt u"
proof (cases "upsertPrincipal opts p t s")
  case (Pair out s')
  show ?thesis
  proof (cases out)
    case (Inl e)
    with Pair u upsert_error_unchanged show ?thesis by force
  next
    case (Inr r)
    from Pair [unfolded this] show ?thesis
    proof (cases rule: upsert_cases)
      case (known subject e req ident user user2 idx)
      then have "u_id user = i_userId ident" using wfDirectoryD(1) [OF wf] by blast
      with known Pair Inr u show ?thesis by auto
    next
      case (attached subject e req ident user user2)
      then obtain j where j: "mapGet (users s) j = Some user" by blast
      then have "u_id user = j" using wfDirectoryD(1) [OF wf] by blast
      with attached j Pair Inr u show ?thesis by auto
    next
      case (created subject e req ident user)
      have "k \<noteq> u_id user"
        using wfDirectoryD(2) [OF wf u] not_issuedId_next [OF fac] created(5) by auto
      with created Pair Inr u show ?thesis by auto
    qed
  qed
qed

text \<open>
  Logging in is repeatable: after a successful upsert, the same principal authenticating again
  at the same time or later is accepted, resolves to the same user, and creates nothing, when the
  user carries the employee id the identity reported.
\<close>

theorem upsertPrincipal_repeatable:
  assumes wf: "wfDirectory opts s" and up: "upsertPrincipal opts p t s = (Inr r, s')"
    and same: "u_employeeId (r_user r) = i_employeeId (r_identity r)" and later: "t \<le> t'"
  shows "\<exists>r' s''. upsertPrincipal opts p t' s' = (Inr r', s'')
    \<and> u_id (r_user r') = u_id (r_user r) \<and> \<not> r_createdUser r' \<and> \<not> r_createdIdentity r'"
  using wf up
proof (rule upsert_post)
  fix subject e req
  assume q: "principalRequest p subject e req"
    and i: "mapGet (identities s') (identityKey (p_provider p) subject) = Some (r_identity r)"
    and u: "mapGet (users s') (i_userId (r_identity r)) = Some (r_user r)"
    and id: "i_userId (r_identity r) = u_id (r_user r)"
    and req: "req = None \<or> req = Some (u_accountId (r_user r))"
    and auth: "i_lastAuthenticatedAt (r_identity r) = t" "i_employeeId (r_identity r) = e"
  have "reconcileIdentityEmployeeId (r_identity r) (r_user r) e (userIdByEmployeeId s')
      = Inr ((r_identity r)\<lparr>i_employeeId := e\<rparr>, r_user r, userIdByEmployeeId s')"
    using same auth by (simp add: reconcileIdentityEmployeeId_def)
  then show ?thesis
    using q i u req auth later
    by (auto simp: upsertPrincipal_def principalRequest_def requireUser_def
        upsertKnownIdentity_def Let_def simp del: requireNonEmpty_Inr)
qed

text \<open>
  Every accepted login of a known identity moves the user's \<open>lastLoginAt\<close> strictly forward,
  even when the clock has not advanced, so it can serve as a version stamp.
\<close>

theorem upsertPrincipal_stamp_advances:
  assumes wf: "wfDirectory opts s" and up: "upsertPrincipal opts p t s = (Inr r, s')"
    and u: "mapGet (users s) (u_id (r_user r)) = Some u" and old: "u_lastLoginAt u = Some t0"
    and notNew: "\<not> r_createdUser r"
  shows "\<exists>t1. u_lastLoginAt (r_user r) = Some t1 \<and> t0 < t1 \<and> t \<le> t1"
  using up
proof (cases rule: upsert_cases)
  case (known subject e req ident user user2 idx)
  then have "user = u" using u wfDirectoryD(1) [OF wf known(3)] by simp
  with known old show ?thesis by (simp add: updateUserFromPrincipal_def)
next
  case (attached subject e req ident user user2)
  then obtain j where j: "mapGet (users s) j = Some user" by blast
  with attached u wfDirectoryD(1) [OF wf j] have "user = u" by simp
  with attached old show ?thesis by (simp add: updateUserFromPrincipal_def)
next
  case (created subject e req ident user)
  with notNew show ?thesis by simp
qed

section \<open>Account ids\<close>

text \<open>Every user is found by its account id.\<close>

definition accountsIndexed :: "mem \<Rightarrow> bool" where
  "accountsIndexed s \<longleftrightarrow>
     (\<forall>k u. mapGet (users s) k = Some u \<longrightarrow> mapGet (userIdByAccountId s) (u_accountId u) = Some k)"

lemma accountsIndexed_empty: "accountsIndexed emptyStore"
  by (simp add: accountsIndexed_def emptyStore_def)

text \<open>
  As long as every principal carries an account id, account ids stay unique and indexed: the
  lookup by account id finds every user.
\<close>

theorem upsertPrincipal_accountsIndexed:
  assumes wf: "wfDirectory opts s" and ix: "accountsIndexed s"
    and acc: "truthy (p_accountId p) \<noteq> None"
  shows "accountsIndexed (snd (upsertPrincipal opts p t s))"
proof (cases "upsertPrincipal opts p t s")
  case (Pair out s')
  show ?thesis
  proof (cases out)
    case (Inl e)
    with Pair ix upsert_error_unchanged show ?thesis by force
  next
    case (Inr r)
    from Pair [unfolded this] show ?thesis
    proof (cases rule: upsert_cases)
      case (known subject e req ident user user2 idx)
      with wfDirectoryD(1) [OF wf known(3)] ix Pair Inr show ?thesis
        by (auto simp: accountsIndexed_def)
    next
      case (attached subject e req ident user user2)
      then obtain j where j: "mapGet (users s) j = Some user" by blast
      with attached wfDirectoryD(1) [OF wf j] ix Pair Inr show ?thesis
        by (auto simp: accountsIndexed_def)
    next
      case (created subject e req ident user)
      obtain a where a: "req = Some a"
        using created(1) acc
        by (auto simp: principalRequest_def requestedAccountId_def split: option.splits sum.splits)
      with created(4,6) have none: "mapGet (userIdByAccountId s) (u_accountId user) = None" by simp
      have "u_accountId v \<noteq> u_accountId user" if "mapGet (users s) k = Some v" for k v
        using ix that none unfolding accountsIndexed_def by (metis option.distinct(1))
      with created ix Pair Inr show ?thesis by (auto simp: accountsIndexed_def)
    qed
  qed
qed

section \<open>Concrete runs\<close>

definition ann :: principal where
  "ann = \<lparr>p_provider = Ldap, p_subject = ''ann'', p_accountId = Some ''Ann'', p_employeeId = ''E1'',
          p_displayName = Some '' Ann '', p_email = None, p_department = Some [],
          p_groups = Some [''b'', ''a'', ''b'', '' '']\<rparr>"

definition annUser :: platform_user where
  "annUser =
     \<lparr>u_id = ''user-'', u_accountId = ''ann'', u_employeeId = ''e1'', u_status = UserActive,
      u_globalRole = GlobalMember, u_displayName = Some ''Ann'', u_email = None,
      u_department = None, u_timezone = None, u_groups = [''a'', ''b''], u_createdAt = 10,
      u_updatedAt = 10, u_lastLoginAt = Some 10\<rparr>"

definition annIdentity :: identity where
  "annIdentity = \<lparr>i_provider = Ldap, i_subject = ''ann'', i_userId = ''user-'', i_employeeId = ''e1'',
     i_createdAt = 10, i_lastAuthenticatedAt = 10\<rparr>"

definition annStore :: mem where
  "annStore = emptyStore\<lparr>users := [(''user-'', annUser)],
     userIdByAccountId := [(''ann'', ''user-'')], userIdByEmployeeId := [(''e1'', ''user-'')],
     identities := [(identityKey Ldap ''ann'', annIdentity)], issued := 1\<rparr>"

lemma annRequest: "principalRequest ann ''ann'' ''e1'' (Some ''ann'')"
  unfolding principalRequest_def by code_simp

lemma annStore_run: "upsertPrincipal demoOptions ann 10 emptyStore =
    (Inr \<lparr>r_user = annUser, r_identity = annIdentity, r_createdUser = True,
          r_createdIdentity = True\<rparr>, annStore)"
  by code_simp

lemma annStore_wf: "wfDirectory demoOptions annStore"
  using upsert_wfDirectory [OF wfDirectory_empty demo_factory, of ann 10]
  by (simp add: annStore_run)

theorem upsertPrincipal_stale_rejected_witness:
  "\<exists>e. upsertPrincipal demoOptions ann 9 annStore = (Inl e, annStore)"
proof -
  have "mapGet (identities annStore) (identityKey (p_provider ann) ''ann'') = Some annIdentity"
    by (simp add: annStore_def ann_def)
  moreover have "(9::int) < i_lastAuthenticatedAt annIdentity"
    by (simp add: annIdentity_def)
  ultimately show ?thesis using upsertPrincipal_stale_rejected [OF annRequest] by blast
qed

theorem upsertPrincipal_repeatable_witness:
  "\<exists>r' s''. upsertPrincipal demoOptions ann 10 annStore = (Inr r', s'')
     \<and> u_id (r_user r') = ''user-'' \<and> \<not> r_createdUser r' \<and> \<not> r_createdIdentity r'"
  using upsertPrincipal_repeatable [OF wfDirectory_empty annStore_run, of 10]
  by (simp add: annUser_def annIdentity_def)

lemma annStore_again:
  "upsertPrincipal demoOptions ann 10 annStore =
     (Inr \<lparr>r_user = annUser\<lparr>u_lastLoginAt := Some 11\<rparr>, r_identity = annIdentity,
           r_createdUser = False, r_createdIdentity = False\<rparr>,
      annStore\<lparr>users := [(''user-'', annUser\<lparr>u_lastLoginAt := Some 11\<rparr>)]\<rparr>)"
  by code_simp

theorem upsertPrincipal_stamp_advances_witness:
  "\<exists>t1. u_lastLoginAt (annUser\<lparr>u_lastLoginAt := Some 11\<rparr>) = Some t1 \<and> 10 < t1 \<and> (10::int) \<le> t1"
proof -
  have "mapGet (users annStore) (u_id (annUser\<lparr>u_lastLoginAt := Some 11\<rparr>)) = Some annUser"
    and "u_lastLoginAt annUser = Some 10"
    by (simp_all add: annStore_def annUser_def)
  then show ?thesis
    using upsertPrincipal_stamp_advances [OF annStore_wf annStore_again, of annUser 10] by simp
qed

theorem upsertPrincipal_accountsIndexed_witness:
  "accountsIndexed (snd (upsertPrincipal demoOptions ann 10 emptyStore))"
  by (rule upsertPrincipal_accountsIndexed [OF wfDirectory_empty accountsIndexed_empty])
    (simp add: truthy_def ann_def)

text \<open>
  Without an account id the employee id becomes the account id of a new user, and the code does not
  check whether another user holds that account: the index entry is overwritten, and the account
  resolves to the new user from then on.
\<close>

definition impostor :: principal where
  "impostor = ann\<lparr>p_subject := ''imp'', p_accountId := None, p_employeeId := ''ANN''\<rparr>"

theorem upsertPrincipal_account_takeover:
  "map_option u_id (getUserByAccountId ''ann'' annStore) = Some ''user-''
   \<and> map_option u_id (getUserByAccountId ''ann''
        (snd (upsertPrincipal demoOptions impostor 20 annStore))) = Some ''user-x''
   \<and> map_option u_accountId (getUserById ''user-''
        (snd (upsertPrincipal demoOptions impostor 20 annStore))) = Some ''ann''"
  by code_simp

text \<open>
  A second identity of a known account with another employee id is accepted once: the user keeps
  its employee id, so the same principal is refused from its second login on.
\<close>

definition annSaml :: principal where
  "annSaml = ann\<lparr>p_provider := Saml, p_employeeId := ''E2''\<rparr>"

theorem upsertPrincipal_second_login_refused:
  "(case upsertPrincipal demoOptions annSaml 20 annStore of
      (Inl _, _) \<Rightarrow> False
    | (Inr r, s') \<Rightarrow> u_id (r_user r) = ''user-''
        \<and> fst (upsertPrincipal demoOptions annSaml 30 s') = Inl (ConflictError EmployeeIdMismatch))"
  by code_simp

end
