(* ===== verification/Agents.thy ===== *)
theory Agents
  imports Directory
begin

text \<open>
  Agent bindings of \<open>memory-store.ts\<close>: reservation of a user's personal agent and of a Knox
  room's agent, the provisioning state machine, and the lookups. A binding owns its agent id: the
  index \<open>bindingIdByAgentId\<close> makes a second binding with the same id a conflict.
\<close>

section \<open>Operations\<close>

fun allowedAgentTransitions :: "provisioning_state \<Rightarrow> provisioning_state list" where
  "allowedAgentTransitions Provisioning = [AgentActive, AgentFailed, AgentDisabled]"
| "allowedAgentTransitions AgentActive = [AgentFailed, AgentDisabled]"
| "allowedAgentTransitions AgentFailed = [Provisioning, AgentDisabled]"
| "allowedAgentTransitions AgentDisabled = []"

fun stateName :: "provisioning_state \<Rightarrow> string" where
  "stateName Provisioning = ''provisioning''"
| "stateName AgentActive = ''active''"
| "stateName AgentFailed = ''failed''"
| "stateName AgentDisabled = ''disabled''"

definition roomKey :: "string \<Rightarrow> string \<Rightarrow> string" where
  "roomKey accountId roomId = accountId @ nul # roomId"

definition requireBinding :: "string \<Rightarrow> mem \<Rightarrow> error + agent_binding" where
  "requireBinding bindingId s =
     (case mapGet (bindings s) bindingId of
        None \<Rightarrow> Inl (NotFoundError AgentBindingResource bindingId) | Some b \<Rightarrow> Inr b)"

definition isPersonal :: "agent_binding \<Rightarrow> bool" where
  "isPersonal b = (case b_owner b of Personal _ \<Rightarrow> True | KnoxRoom _ _ \<Rightarrow> False)"

definition requirePersonalBinding :: "string \<Rightarrow> mem \<Rightarrow> error + agent_binding" where
  "requirePersonalBinding bindingId s =
     (case requireBinding bindingId s of
        Inl e \<Rightarrow> Inl e
      | Inr b \<Rightarrow> if \<not> isPersonal b then Inl (StateError ''binding is not personal'' [bindingId]) else Inr b)"

definition requireRoomBinding :: "string \<Rightarrow> mem \<Rightarrow> error + agent_binding" where
  "requireRoomBinding bindingId s =
     (case requireBinding bindingId s of
        Inl e \<Rightarrow> Inl e
      | Inr b \<Rightarrow> if isPersonal b then Inl (StateError ''binding is not a Knox room'' [bindingId]) else Inr b)"

definition insertBinding :: "agent_binding \<Rightarrow> mem \<Rightarrow> error + mem" where
  "insertBinding binding s =
     (if mapHas (bindingIdByAgentId s) (b_agentId binding)
      then Inl (ConflictError AgentIdConflict)
      else Inr (s\<lparr>bindings := mapSet (bindings s) (b_id binding) binding,
                  bindingIdByAgentId :=
                    mapSet (bindingIdByAgentId s) (b_agentId binding) (b_id binding)\<rparr>))"

definition reservePersonalAgent ::
    "store_options \<Rightarrow> string \<Rightarrow> int \<Rightarrow> mem \<Rightarrow> (error + reservation) \<times> mem" where
  "reservePersonalAgent opts userId reservedAt s =
     orThrow (requireUser userId s) s (\<lambda>user.
       if u_status user \<noteq> UserActive
       then (Inl (StateError ''cannot provision agent for disabled user'' [userId]), s)
       else
         (case mapGet (personalBindingIdByUserId s) userId of
            Some existingId \<Rightarrow>
              orThrow (requirePersonalBinding existingId s) s (\<lambda>b.
                (Inr \<lparr>rv_binding = b, rv_created = False\<rparr>, s))
          | None \<Rightarrow>
              let (bid, s1) = takeId opts BindingId s in
              orThrow (derivePersonalAgentId (u_accountId user)) s1 (\<lambda>agentId.
                let binding =
                  \<lparr>b_id = bid, b_owner = Personal userId, b_agentId = agentId,
                   b_state = Provisioning, b_createdAt = reservedAt, b_updatedAt = reservedAt,
                   b_failureCode = None\<rparr>
                in
                orThrow (insertBinding binding s1) s1 (\<lambda>s2.
                  (Inr \<lparr>rv_binding = binding, rv_created = True\<rparr>,
                   s2\<lparr>personalBindingIdByUserId := mapSet (personalBindingIdByUserId s2) userId bid,
                      executionProfiles := mapSet (executionProfiles s2) bid
                        \<lparr>ep_agentBindingId = bid, ep_activeTarget = PlatformServer,
                         ep_activeAllocationId = None, ep_targetRevision = 0,
                         ep_updatedAt = reservedAt\<rparr>\<rparr>)))))"

definition reserveKnoxRoomAgent ::
    "store_options \<Rightarrow> string \<Rightarrow> string \<Rightarrow> int \<Rightarrow> mem \<Rightarrow> (error + reservation) \<times> mem" where
  "reserveKnoxRoomAgent opts rawAccountId rawRoomId reservedAt s =
     orThrow (requireNonEmpty rawAccountId ''accountId'') s (\<lambda>accountId.
     orThrow (requireNonEmpty rawRoomId ''roomId'') s (\<lambda>roomId.
       let key = roomKey accountId roomId in
       case mapGet (roomBindingIdByKey s) key of
         Some existingId \<Rightarrow>
           orThrow (requireRoomBinding existingId s) s (\<lambda>b.
             (Inr \<lparr>rv_binding = b, rv_created = False\<rparr>, s))
       | None \<Rightarrow>
           let (bid, s1) = takeId opts BindingId s;
               binding =
                 \<lparr>b_id = bid, b_owner = KnoxRoom accountId roomId,
                  b_agentId = deriveKnoxRoomAgentId (o_sha256hex opts) roomId,
                  b_state = Provisioning, b_createdAt = reservedAt, b_updatedAt = reservedAt,
                  b_failureCode = None\<rparr>
           in
           orThrow (insertBinding binding s1) s1 (\<lambda>s2.
             (Inr \<lparr>rv_binding = binding, rv_created = True\<rparr>,
              s2\<lparr>roomBindingIdByKey := mapSet (roomBindingIdByKey s2) key bid\<rparr>))))"

text \<open>
  The binding is an object of the map: its state and time are written before the failure code is
  checked, so a blank code throws with those two fields already changed.
\<close>

definition transitionAgent ::
    "string \<Rightarrow> provisioning_state \<Rightarrow> int \<Rightarrow> string option \<Rightarrow> mem \<Rightarrow> (error + agent_binding) \<times> mem" where
  "transitionAgent bindingId state changedAt failureCode s =
     orThrow (requireBinding bindingId s) s (\<lambda>binding.
       if b_state binding \<noteq> state \<and> state \<notin> set (allowedAgentTransitions (b_state binding))
       then (Inl (StateError ''invalid agent transition'' [stateName (b_state binding), stateName state]), s)
       else
         let b1 = binding\<lparr>b_state := state, b_updatedAt := changedAt\<rparr>;
             s1 = s\<lparr>bindings := mapSet (bindings s) bindingId b1\<rparr>
         in
         if state = AgentFailed then
           orThrow (requireNonEmpty (case failureCode of None \<Rightarrow> ''unknown'' | Some c \<Rightarrow> c) ''failureCode'') s1
             (\<lambda>code. let b2 = b1\<lparr>b_failureCode := Some code\<rparr> in
                (Inr b2, s1\<lparr>bindings := mapSet (bindings s1) bindingId b2\<rparr>))
         else
           let b2 = b1\<lparr>b_failureCode := None\<rparr> in
           (Inr b2, s1\<lparr>bindings := mapSet (bindings s1) bindingId b2\<rparr>))"

definition getPersonalAgentBinding :: "string \<Rightarrow> mem \<Rightarrow> error + agent_binding option" where
  "getPersonalAgentBinding userId s =
     (case mapGet (personalBindingIdByUserId s) userId of
        None \<Rightarrow> Inr None
      | Some bid \<Rightarrow> (case requirePersonalBinding bid s of Inl e \<Rightarrow> Inl e | Inr b \<Rightarrow> Inr (Some b)))"

definition getPersonalExecutionProfile :: "string \<Rightarrow> mem \<Rightarrow> execution_profile option" where
  "getPersonalExecutionProfile agentId s =
     (case mapGet (bindingIdByAgentId s) agentId of
        None \<Rightarrow> None | Some bid \<Rightarrow> mapGet (executionProfiles s) bid)"

text \<open>\<open>left.createdAt - right.createdAt || left.id.localeCompare(right.id)\<close>\<close>

definition compareBindings :: "store_options \<Rightarrow> agent_binding \<Rightarrow> agent_binding \<Rightarrow> int" where
  "compareBindings opts l r =
     (if b_createdAt l - b_createdAt r \<noteq> 0 then b_createdAt l - b_createdAt r
      else o_localeCompare opts (b_id l) (b_id r))"

definition listAgentBindingsByState ::
    "store_options \<Rightarrow> provisioning_state \<Rightarrow> mem \<Rightarrow> agent_binding list" where
  "listAgentBindingsByState opts state s =
     toSortedBy (compareBindings opts) (filter (\<lambda>b. b_state b = state) (mapValues (bindings s)))"

record vm_agent =
  va_userId :: string
  va_accountId :: string
  va_agentId :: string
  va_displayName :: "string option"
  va_department :: "string option"
  va_allocationId :: "string option"

definition listActivePersonalAgents ::
    "agent_binding list \<Rightarrow> (string, platform_user) jsmap \<Rightarrow> vm_agent list" where
  "listActivePersonalAgents bs us =
     concat (map (\<lambda>b.
       case b_owner b of
         KnoxRoom _ _ \<Rightarrow> []
       | Personal userId \<Rightarrow>
           if b_state b \<noteq> AgentActive then []
           else (case mapGet us userId of
                   None \<Rightarrow> []
                 | Some user \<Rightarrow>
                     if u_status user \<noteq> UserActive then []
                     else [\<lparr>va_userId = u_id user, va_accountId = u_accountId user,
                            va_agentId = b_agentId b,
                            va_displayName = truthy (u_displayName user),
                            va_department = truthy (u_department user),
                            va_allocationId = None\<rparr>])) bs)"

section \<open>Outcomes\<close>

lemma insertBinding_Inr:
  "insertBinding b s = Inr s' \<longleftrightarrow> mapGet (bindingIdByAgentId s) (b_agentId b) = None \<and>
     s' = s\<lparr>bindings := mapSet (bindings s) (b_id b) b,
            bindingIdByAgentId := mapSet (bindingIdByAgentId s) (b_agentId b) (b_id b)\<rparr>"
  by (auto simp: insertBinding_def)

definition newProfile :: "string \<Rightarrow> int \<Rightarrow> execution_profile" where
  "newProfile bid t = \<lparr>ep_agentBindingId = bid, ep_activeTarget = PlatformServer,
     ep_activeAllocationId = None, ep_targetRevision = 0, ep_updatedAt = t\<rparr>"

text \<open>A reservation either throws, finds the owner's binding, or makes a new one.\<close>

lemma reservePersonal_cases [consumes 1, case_names thrown found made]:
  assumes "reservePersonalAgent opts uid t s = (out, s')"
  obtains
    (thrown) e where "out = Inl e" "s' = s \<or> s' = s\<lparr>issued := Suc (issued s)\<rparr>"
  | (found) bid b where
      "mapGet (personalBindingIdByUserId s) uid = Some bid" "mapGet (bindings s) bid = Some b"
      "isPersonal b" "out = Inr \<lparr>rv_binding = b, rv_created = False\<rparr>" "s' = s"
  | (made) user b where
      "mapGet (users s) uid = Some user" "u_status user = UserActive"
      "mapGet (personalBindingIdByUserId s) uid = None"
      "derivePersonalAgentId (u_accountId user) = Inr (b_agentId b)"
      "mapGet (bindingIdByAgentId s) (b_agentId b) = None"
      "b_id b = o_idFactory opts BindingId (issued s)" "b_owner b = Personal uid"
      "b_state b = Provisioning" "b_failureCode b = None"
      "out = Inr \<lparr>rv_binding = b, rv_created = True\<rparr>"
      "s' = s\<lparr>issued := Suc (issued s), bindings := mapSet (bindings s) (b_id b) b,
              bindingIdByAgentId := mapSet (bindingIdByAgentId s) (b_agentId b) (b_id b),
              personalBindingIdByUserId := mapSet (personalBindingIdByUserId s) uid (b_id b),
              executionProfiles := mapSet (executionProfiles s) (b_id b) (newProfile (b_id b) t)\<rparr>"
proof (cases out)
  case (Inl e)
  with assms have "s' = s \<or> s' = s\<lparr>issued := Suc (issued s)\<rparr>"
    by (auto simp: reservePersonalAgent_def takeId_def Let_def
        split: throw_splits if_splits option.splits)
  with Inl thrown show ?thesis by blast
next
  case (Inr r)
  show ?thesis
  proof (cases "mapGet (personalBindingIdByUserId s) uid")
    case None
    with assms Inr show ?thesis
      by (auto simp: reservePersonalAgent_def requireUser_def takeId_def Let_def insertBinding_Inr
          newProfile_def elim!: orThrow_InrE split: if_splits option.splits intro!: made)
  next
    case (Some bid)
    with assms Inr obtain b where "mapGet (bindings s) bid = Some b \<and> isPersonal b
        \<and> out = Inr \<lparr>rv_binding = b, rv_created = False\<rparr> \<and> s' = s"
      by (auto simp: reservePersonalAgent_def requirePersonalBinding_def requireBinding_def
          elim!: orThrow_InrE split: if_splits option.splits sum.splits)
    with Some found show ?thesis by blast
  qed
qed

lemma reserveRoom_cases [consumes 1, case_names thrown found made]:
  assumes "reserveKnoxRoomAgent opts acct room t s = (out, s')"
  obtains
    (thrown) e where "out = Inl e" "s' = s \<or> s' = s\<lparr>issued := Suc (issued s)\<rparr>"
  | (found) bid b where
      "mapGet (roomBindingIdByKey s) (roomKey (trim acct) (trim room)) = Some bid"
      "mapGet (bindings s) bid = Some b" "\<not> isPersonal b"
      "out = Inr \<lparr>rv_binding = b, rv_created = False\<rparr>" "s' = s"
  | (made) b where
      "mapGet (roomBindingIdByKey s) (roomKey (trim acct) (trim room)) = None"
      "mapGet (bindingIdByAgentId s) (b_agentId b) = None"
      "b_id b = o_idFactory opts BindingId (issued s)" "b_owner b = KnoxRoom (trim acct) (trim room)"
      "b_state b = Provisioning" "b_failureCode b = None"
      "out = Inr \<lparr>rv_binding = b, rv_created = True\<rparr>"
      "s' = s\<lparr>issued := Suc (issued s), bindings := mapSet (bindings s) (b_id b) b,
              bindingIdByAgentId := mapSet (bindingIdByAgentId s) (b_agentId b) (b_id b),
              roomBindingIdByKey := mapSet (roomBindingIdByKey s) (roomKey (trim acct) (trim room)) (b_id b)\<rparr>"
proof (cases out)
  case (Inl e)
  with assms have "s' = s \<or> s' = s\<lparr>issued := Suc (issued s)\<rparr>"
    by (auto simp: reserveKnoxRoomAgent_def takeId_def Let_def
        split: throw_splits if_splits option.splits)
  with Inl thrown show ?thesis by blast
next
  case (Inr r)
  show ?thesis
  proof (cases "mapGet (roomBindingIdByKey s) (roomKey (trim acct) (trim room))")
    case None
    with assms Inr show ?thesis
      by (auto simp: reserveKnoxRoomAgent_def takeId_def Let_def insertBinding_Inr
          elim!: orThrow_InrE split: if_splits option.splits intro!: made)
  next
    case (Some bid)
    with assms Inr obtain b where "mapGet (bindings s) bid = Some b \<and> \<not> isPersonal b
        \<and> out = Inr \<lparr>rv_binding = b, rv_created = False\<rparr> \<and> s' = s"
      by (auto simp: reserveKnoxRoomAgent_def requireRoomBinding_def requireBinding_def Let_def
          elim!: orThrow_InrE split: if_splits option.splits sum.splits)
    with Some found show ?thesis by blast
  qed
qed

text \<open>
  A transition either throws before writing, or writes the state; the failure code is the third
  field it writes, and the one it may throw on.
\<close>

lemma transition_cases [consumes 1, case_names refused blank moved]:
  assumes "transitionAgent bid st t fc s = (out, s')"
  obtains
    (refused) e where "out = Inl e" "s' = s"
  | (blank) b e where "mapGet (bindings s) bid = Some b" "st = AgentFailed" "out = Inl e"
      "b_state b = AgentFailed \<or> AgentFailed \<in> set (allowedAgentTransitions (b_state b))"
      "\<exists>c. fc = Some c \<and> trim c = []"
      "s' = s\<lparr>bindings := mapSet (bindings s) bid (b\<lparr>b_state := AgentFailed, b_updatedAt := t\<rparr>)\<rparr>"
  | (moved) b b2 where "mapGet (bindings s) bid = Some b" "out = Inr b2"
      "b_state b = st \<or> st \<in> set (allowedAgentTransitions (b_state b))"
      "b2 = b\<lparr>b_state := st, b_updatedAt := t, b_failureCode := b_failureCode b2\<rparr>"
      "b_failureCode b2 \<noteq> None \<longleftrightarrow> st = AgentFailed"
      "s' = s\<lparr>bindings := mapSet (bindings s) bid b2\<rparr>"
proof (cases "requireBinding bid s")
  case (Inl e)
  with assms have "out = Inl e \<and> s' = s" by (simp add: transitionAgent_def)
  with refused show ?thesis by blast
next
  case (Inr b)
  then have b: "mapGet (bindings s) bid = Some b" by (auto simp: requireBinding_def split: option.splits)
  show ?thesis
  proof (cases "b_state b \<noteq> st \<and> st \<notin> set (allowedAgentTransitions (b_state b))")
    case True
    with assms Inr refused show ?thesis by (auto simp: transitionAgent_def)
  next
    case allowed: False
    show ?thesis
    proof (cases out)
      case (Inl e)
      have "trim ''unknown'' = ''unknown''" by code_simp
      with Inl assms Inr allowed b blank [OF b] show ?thesis
        by (auto simp: transitionAgent_def Let_def requireNonEmpty_Inl
            split: throw_splits if_splits option.splits)
    next
      case (Inr b2)
      have upd: "mapSet (mapSet m k v) k w = mapSet m k w" for m :: "(string, agent_binding) jsmap" and k v w
        by (induction m) auto
      from Inr assms \<open>requireBinding bid s = Inr b\<close> allowed show ?thesis
        by (intro moved [OF b, of b2])
          (auto simp: transitionAgent_def Let_def upd split: throw_splits if_splits)
    qed
  qed
qed

section \<open>Well-formed bindings\<close>

text \<open>
  Every binding is stored under its id, its agent id finds it, and so does its owner; a personal
  binding has an execution profile; the three indexes name existing bindings of the right owner;
  only a failed binding carries a failure code.
\<close>

definition ownerIndexed :: "mem \<Rightarrow> string \<Rightarrow> agent_binding \<Rightarrow> bool" where
  "ownerIndexed s k b =
     (case b_owner b of
        Personal u \<Rightarrow> mapGet (personalBindingIdByUserId s) u = Some k \<and> mapHas (executionProfiles s) k
      | KnoxRoom a r \<Rightarrow> mapGet (roomBindingIdByKey s) (roomKey a r) = Some k)"

definition wfAgents :: "store_options \<Rightarrow> mem \<Rightarrow> bool" where
  "wfAgents opts s \<longleftrightarrow>
     distinct (mapKeys (bindings s))
     \<and> (\<forall>k b. mapGet (bindings s) k = Some b \<longrightarrow>
          b_id b = k \<and> issuedId opts BindingId (issued s) k
          \<and> mapGet (bindingIdByAgentId s) (b_agentId b) = Some k \<and> ownerIndexed s k b
          \<and> (b_failureCode b \<noteq> None \<longrightarrow> b_state b = AgentFailed))
     \<and> (\<forall>a k. mapGet (bindingIdByAgentId s) a = Some k \<longrightarrow>
          (\<exists>b. mapGet (bindings s) k = Some b \<and> b_agentId b = a))
     \<and> (\<forall>u k. mapGet (personalBindingIdByUserId s) u = Some k \<longrightarrow>
          (\<exists>b. mapGet (bindings s) k = Some b \<and> b_owner b = Personal u))
     \<and> (\<forall>key k. mapGet (roomBindingIdByKey s) key = Some k \<longrightarrow>
          (\<exists>b a r. mapGet (bindings s) k = Some b \<and> b_owner b = KnoxRoom a r \<and> key = roomKey a r))"

lemma wfAgentsD:
  assumes "wfAgents opts s"
  shows "distinct (mapKeys (bindings s))"
    and "mapGet (bindings s) k = Some b \<Longrightarrow> b_id b = k"
    and "mapGet (bindings s) k = Some b \<Longrightarrow> issuedId opts BindingId (issued s) k"
    and "mapGet (bindings s) k = Some b \<Longrightarrow> mapGet (bindingIdByAgentId s) (b_agentId b) = Some k"
    and "mapGet (bindings s) k = Some b \<Longrightarrow> ownerIndexed s k b"
    and "mapGet (bindings s) k = Some b \<Longrightarrow> b_failureCode b \<noteq> None \<Longrightarrow> b_state b = AgentFailed"
    and "mapGet (bindingIdByAgentId s) a = Some k \<Longrightarrow> \<exists>b. mapGet (bindings s) k = Some b \<and> b_agentId b = a"
    and "mapGet (personalBindingIdByUserId s) u = Some k \<Longrightarrow>
      \<exists>b. mapGet (bindings s) k = Some b \<and> b_owner b = Personal u"
    and "mapGet (roomBindingIdByKey s) key = Some k \<Longrightarrow>
      \<exists>b a r. mapGet (bindings s) k = Some b \<and> b_owner b = KnoxRoom a r \<and> key = roomKey a r"
  using assms unfolding wfAgents_def by blast+

lemma wfAgents_empty: "wfAgents opts emptyStore"
  by (simp add: wfAgents_def emptyStore_def)

lemma wfAgents_frame:
  assumes "wfAgents opts s" and "bindings t = bindings s"
    and "personalBindingIdByUserId t = personalBindingIdByUserId s"
    and "roomBindingIdByKey t = roomBindingIdByKey s"
    and "bindingIdByAgentId t = bindingIdByAgentId s"
    and "executionProfiles t = executionProfiles s" and "issued s \<le> issued t"
  shows "wfAgents opts t"
proof -
  have "issuedId opts BindingId (issued t) k" if "issuedId opts BindingId (issued s) k" for k
    using that assms(7) by (rule issuedId_mono)
  then show ?thesis
    using assms(1) unfolding wfAgents_def ownerIndexed_def assms(2-6) by blast
qed

text \<open>Changing the state, times and failure code of one binding.\<close>

lemma wfAgents_replaceBinding:
  assumes wf: "wfAgents opts s" and b: "mapGet (bindings s) k = Some b"
    and same: "b_id b2 = b_id b" "b_owner b2 = b_owner b" "b_agentId b2 = b_agentId b"
    and fc: "b_failureCode b2 \<noteq> None \<longrightarrow> b_state b2 = AgentFailed"
  shows "wfAgents opts (s\<lparr>bindings := mapSet (bindings s) k b2\<rparr>)"
proof -
  let ?t = "s\<lparr>bindings := mapSet (bindings s) k b2\<rparr>"
  have own: "ownerIndexed ?t j c" if "ownerIndexed s j c" for j c
    using that by (auto simp: ownerIndexed_def split: binding_owner.splits)
  have ownB: "ownerIndexed ?t k b2"
    using wfAgentsD(5) [OF wf b] same
    by (auto simp: ownerIndexed_def split: binding_owner.splits)
  have agent: "\<exists>c. mapGet (bindings ?t) j = Some c \<and> b_agentId c = a"
    if "mapGet (bindingIdByAgentId s) a = Some j" for a j
    using wfAgentsD(7) [OF wf that] b same by auto
  have pers: "\<exists>c. mapGet (bindings ?t) j = Some c \<and> b_owner c = Personal u"
    if "mapGet (personalBindingIdByUserId s) u = Some j" for u j
    using wfAgentsD(8) [OF wf that] b same by auto
  have room: "\<exists>c a r. mapGet (bindings ?t) j = Some c \<and> b_owner c = KnoxRoom a r \<and> key = roomKey a r"
    if "mapGet (roomBindingIdByKey s) key = Some j" for key j
    using wfAgentsD(9) [OF wf that] b same by auto
  show ?thesis
    unfolding wfAgents_def
    using own ownB agent pers room wfAgentsD(1-6) [OF wf] b same fc by auto
qed

lemma wfAgents_addBinding:
  assumes wf: "wfAgents opts s" and fac: "id_factory (o_idFactory opts)"
    and bid: "b_id b = o_idFactory opts BindingId (issued s)"
    and new: "mapGet (bindingIdByAgentId s) (b_agentId b) = None" and fc: "b_failureCode b = None"
    and t: "bindings t = mapSet (bindings s) (b_id b) b"
      "bindingIdByAgentId t = mapSet (bindingIdByAgentId s) (b_agentId b) (b_id b)"
      "issued t = Suc (issued s)"
    and owner: "(\<exists>u. b_owner b = Personal u \<and> mapGet (personalBindingIdByUserId s) u = None
        \<and> personalBindingIdByUserId t = mapSet (personalBindingIdByUserId s) u (b_id b)
        \<and> roomBindingIdByKey t = roomBindingIdByKey s
        \<and> (\<exists>pr. executionProfiles t = mapSet (executionProfiles s) (b_id b) pr))
      \<or> (\<exists>a r. b_owner b = KnoxRoom a r \<and> mapGet (roomBindingIdByKey s) (roomKey a r) = None
        \<and> roomBindingIdByKey t = mapSet (roomBindingIdByKey s) (roomKey a r) (b_id b)
        \<and> personalBindingIdByUserId t = personalBindingIdByUserId s
        \<and> executionProfiles t = executionProfiles s)"
  shows "wfAgents opts t"
proof -
  have fresh: "mapGet (bindings s) (b_id b) = None"
    using wfAgentsD(3) [OF wf] not_issuedId_next [OF fac] bid by (metis option.exhaust)
  have iss: "issuedId opts BindingId (issued t) (b_id b)" using bid t(3) by (simp add: issuedId_new)
  have mono: "issuedId opts BindingId (issued t) k" if "mapGet (bindings s) k = Some c" for k c
    using wfAgentsD(3) [OF wf that] t(3) by (simp add: issuedId_Suc)
  have agentNe: "b_agentId c \<noteq> b_agentId b" if "mapGet (bindings s) k = Some c" for k c
    using wfAgentsD(4) [OF wf that] new by auto
  have keyNe: "k \<noteq> b_id b" if "mapGet (bindings s) k = Some c" for k c
    using that fresh by auto
  have ownOld: "ownerIndexed t k c" if "mapGet (bindings s) k = Some c" for k c
    using wfAgentsD(5) [OF wf that] owner by (auto simp: ownerIndexed_def split: binding_owner.splits)
  have ownNew: "ownerIndexed t (b_id b) b"
    using owner by (auto simp: ownerIndexed_def)
  have pers: "\<exists>c. mapGet (bindings t) k = Some c \<and> b_owner c = Personal u"
    if "mapGet (personalBindingIdByUserId t) u = Some k" for u k
    using that owner wfAgentsD(8) [OF wf, of u k] fresh by (auto simp: t split: if_splits)
  have room: "\<exists>c a r. mapGet (bindings t) k = Some c \<and> b_owner c = KnoxRoom a r \<and> key = roomKey a r"
    if "mapGet (roomBindingIdByKey t) key = Some k" for key k
    using that owner wfAgentsD(9) [OF wf, of key k] fresh by (auto simp: t split: if_splits)
  have agent: "\<exists>c. mapGet (bindings t) k = Some c \<and> b_agentId c = a"
    if "mapGet (bindingIdByAgentId t) a = Some k" for a k
    using that wfAgentsD(7) [OF wf, of a k] fresh by (auto simp: t split: if_splits)
  show ?thesis
    unfolding wfAgents_def
    using pers room agent ownOld ownNew mono iss agentNe keyNe fc wfAgentsD(1,2,4,6) [OF wf]
    by (auto simp: t)
qed

lemma reservePersonal_wfAgents:
  assumes "wfAgents opts s" and "id_factory (o_idFactory opts)"
  shows "wfAgents opts (snd (reservePersonalAgent opts uid t s))"
proof (cases "reservePersonalAgent opts uid t s")
  case (Pair out s')
  from Pair show ?thesis
  proof (cases rule: reservePersonal_cases)
    case (thrown e)
    then show ?thesis using Pair wfAgents_frame [OF assms(1), of s'] assms(1) by auto
  next
    case (found bid b)
    then show ?thesis using Pair assms(1) by simp
  next
    case (made user b)
    show ?thesis
      using wfAgents_addBinding [OF assms made(6,5,9), of s'] made Pair by auto
  qed
qed

lemma reserveRoom_wfAgents:
  assumes "wfAgents opts s" and "id_factory (o_idFactory opts)"
  shows "wfAgents opts (snd (reserveKnoxRoomAgent opts a r t s))"
proof (cases "reserveKnoxRoomAgent opts a r t s")
  case (Pair out s')
  from Pair show ?thesis
  proof (cases rule: reserveRoom_cases)
    case (thrown e)
    then show ?thesis using Pair wfAgents_frame [OF assms(1), of s'] assms(1) by auto
  next
    case (found bid b)
    then show ?thesis using Pair assms(1) by simp
  next
    case (made b)
    show ?thesis
      using wfAgents_addBinding [OF assms made(3,2,6), of s'] made Pair by auto
  qed
qed

lemma transition_wfAgents:
  assumes "wfAgents opts s"
  shows "wfAgents opts (snd (transitionAgent bid st t fc s))"
proof (cases "transitionAgent bid st t fc s")
  case (Pair out s')
  from Pair show ?thesis
  proof (cases rule: transition_cases)
    case (refused e)
    then show ?thesis using Pair assms by simp
  next
    case (blank b e)
    then show ?thesis
      using Pair wfAgents_replaceBinding [OF assms blank(1), of "b\<lparr>b_state := AgentFailed, b_updatedAt := t\<rparr>"]
      by simp
  next
    case (moved b b2)
    have "b_id b2 = b_id b" "b_owner b2 = b_owner b" "b_agentId b2 = b_agentId b" "b_state b2 = st"
      by (subst moved(4), simp)+
    then show ?thesis
      using Pair wfAgents_replaceBinding [OF assms moved(1), of b2] moved(5,6) by simp
  qed
qed

section \<open>Reservations\<close>

text \<open>
  Reserving is idempotent: once a reservation has succeeded, reserving again for the same user,
  at any time, returns the same binding, creates nothing and leaves the store as it is.
\<close>

theorem reservePersonalAgent_idempotent:
  assumes "reservePersonalAgent opts uid t s = (Inr r, s')"
  shows "reservePersonalAgent opts uid t' s'
    = (Inr \<lparr>rv_binding = rv_binding r, rv_created = False\<rparr>, s')"
proof -
  have "\<exists>user. mapGet (users s) uid = Some user \<and> u_status user = UserActive"
    using assms by (auto simp: reservePersonalAgent_def requireUser_def
        elim!: orThrow_InrE split: if_splits option.splits)
  moreover from assms have "\<exists>bid. mapGet (personalBindingIdByUserId s') uid = Some bid
      \<and> mapGet (bindings s') bid = Some (rv_binding r) \<and> isPersonal (rv_binding r) \<and> users s' = users s"
    by (cases rule: reservePersonal_cases) (auto simp: isPersonal_def)
  ultimately show ?thesis
    by (auto simp: reservePersonalAgent_def requireUser_def requirePersonalBinding_def
        requireBinding_def)
qed

text \<open>
  The same for rooms: the second reservation of a room finds the binding of the first.
\<close>

theorem reserveKnoxRoomAgent_idempotent:
  assumes "reserveKnoxRoomAgent opts acct room t s = (Inr r, s')"
  shows "reserveKnoxRoomAgent opts acct room t' s'
    = (Inr \<lparr>rv_binding = rv_binding r, rv_created = False\<rparr>, s')"
proof -
  have "trim acct \<noteq> [] \<and> trim room \<noteq> []"
    using assms by (auto simp: reserveKnoxRoomAgent_def elim!: orThrow_InrE)
  moreover from assms have "\<exists>bid. mapGet (roomBindingIdByKey s') (roomKey (trim acct) (trim room)) = Some bid
      \<and> mapGet (bindings s') bid = Some (rv_binding r) \<and> \<not> isPersonal (rv_binding r)"
    by (cases rule: reserveRoom_cases) (auto simp: isPersonal_def)
  ultimately show ?thesis
    by (auto simp: reserveKnoxRoomAgent_def requireRoomBinding_def requireBinding_def Let_def)
qed

section \<open>Lists of bindings\<close>

lemma compareBindings_comparator:
  assumes "comparator (o_localeCompare opts)"
  shows "comparator (compareBindings opts)"
proof
  fix x y z
  show "0 < compareBindings opts x y \<Longrightarrow> compareBindings opts y x \<le> 0"
    using comparator.cmp_total [OF assms] by (auto simp: compareBindings_def split: if_splits)
  show "compareBindings opts x y \<le> 0 \<Longrightarrow> compareBindings opts y z \<le> 0 \<Longrightarrow> compareBindings opts x z \<le> 0"
    using comparator.cmp_trans [OF assms] by (auto simp: compareBindings_def split: if_splits)
qed

lemma demo_localeCompare: "comparator (o_localeCompare demoOptions)"
  by unfold_locales (auto simp: demoOptions_def split: if_splits)

interpretation demoBindings: comparator "compareBindings demoOptions"
  by (rule compareBindings_comparator [OF demo_localeCompare])

lemma set_listAgentBindingsByState:
  assumes "wfAgents opts s"
  shows "b \<in> set (listAgentBindingsByState opts st s)
    \<longleftrightarrow> mapGet (bindings s) (b_id b) = Some b \<and> b_state b = st"
proof -
  have "b \<in> set (mapValues (bindings s)) \<longleftrightarrow> mapGet (bindings s) (b_id b) = Some b"
    using in_mapValuesD [OF wfAgentsD(1) [OF assms]] in_mapValuesI wfAgentsD(2) [OF assms] by fastforce
  then show ?thesis by (auto simp: listAgentBindingsByState_def)
qed

lemma sorted_wrt_mono': "sorted_wrt P xs \<Longrightarrow> (\<And>x y. P x y \<Longrightarrow> Q x y) \<Longrightarrow> sorted_wrt Q xs"
  by (induction xs) auto

text \<open>
  Listing bindings by state returns exactly the bindings in that state, each once, oldest
  first.
\<close>

theorem listAgentBindingsByState_correct:
  assumes "wfAgents opts s" and "comparator (o_localeCompare opts)"
  shows "set (listAgentBindingsByState opts st s) = {b. mapGet (bindings s) (b_id b) = Some b \<and> b_state b = st}
    \<and> distinct (listAgentBindingsByState opts st s)
    \<and> sorted_wrt (\<lambda>x y. b_createdAt x \<le> b_createdAt y) (listAgentBindingsByState opts st s)"
proof (intro conjI)
  show "set (listAgentBindingsByState opts st s) = {b. mapGet (bindings s) (b_id b) = Some b \<and> b_state b = st}"
    using set_listAgentBindingsByState [OF assms(1)] by blast
  have "inj_on b_id (set (mapValues (bindings s)))"
    using in_mapValuesD [OF wfAgentsD(1) [OF assms(1)]] wfAgentsD(2) [OF assms(1)]
    by (metis (no_types, lifting) inj_onI option.inject)
  moreover have "map b_id (mapValues (bindings s)) = mapKeys (bindings s)"
    using wfAgentsD(1,2) [OF assms(1)] by (auto simp: mapValues_def)
  ultimately have "distinct (mapValues (bindings s))"
    using wfAgentsD(1) [OF assms(1)] by (metis distinct_map)
  then show "distinct (listAgentBindingsByState opts st s)"
    by (simp add: listAgentBindingsByState_def)
  show "sorted_wrt (\<lambda>x y. b_createdAt x \<le> b_createdAt y) (listAgentBindingsByState opts st s)"
    unfolding listAgentBindingsByState_def
    by (rule sorted_wrt_mono' [OF comparator.sorted_toSortedBy [OF compareBindings_comparator [OF assms(2)]]])
      (simp add: compareBindings_def split: if_splits)
qed

section \<open>Transitions\<close>

text \<open>
  A transition that succeeds is one the table allows (or none), and every other binding is as
  before.
\<close>

lemma transition_allowed:
  assumes "transitionAgent bid st t fc s = (out, s')" and "mapGet (bindings s') k = Some b'"
  shows "\<exists>b. mapGet (bindings s) k = Some b \<and> b_owner b' = b_owner b \<and> b_agentId b' = b_agentId b
    \<and> b_createdAt b' = b_createdAt b
    \<and> (b_state b' = b_state b \<or> b_state b' \<in> set (allowedAgentTransitions (b_state b)))"
  using assms(1)
proof (cases rule: transition_cases)
  case (refused e)
  with assms(2) show ?thesis by auto
next
  case (blank b e)
  with assms(2) show ?thesis by (auto split: if_splits)
next
  case (moved b b2)
  have "b_owner b2 = b_owner b" "b_agentId b2 = b_agentId b" "b_state b2 = st" "b_createdAt b2 = b_createdAt b"
    by (subst moved(4), simp)+
  with moved assms(2) show ?thesis by (auto split: if_splits)
qed

section \<open>Concrete runs\<close>

definition annBinding :: agent_binding where
  "annBinding = \<lparr>b_id = ''binding-x'', b_owner = Personal ''user-'', b_agentId = ''ann'',
     b_state = Provisioning, b_createdAt = 20, b_updatedAt = 20, b_failureCode = None\<rparr>"

definition annAgentStore :: mem where
  "annAgentStore = annStore\<lparr>bindings := [(''binding-x'', annBinding)],
     bindingIdByAgentId := [(''ann'', ''binding-x'')],
     personalBindingIdByUserId := [(''user-'', ''binding-x'')],
     executionProfiles := [(''binding-x'', newProfile ''binding-x'' 20)], issued := 2\<rparr>"

lemma annAgent_run: "reservePersonalAgent demoOptions ''user-'' 20 annStore =
    (Inr \<lparr>rv_binding = annBinding, rv_created = True\<rparr>, annAgentStore)"
  by code_simp

lemma annStore_wfAgents: "wfAgents demoOptions annStore"
  by (rule wfAgents_frame [OF wfAgents_empty]) (simp_all add: annStore_def emptyStore_def)

lemma annAgentStore_wf: "wfAgents demoOptions annAgentStore"
  using reservePersonal_wfAgents [OF annStore_wfAgents demo_factory, of "''user-''" 20]
  by (simp add: annAgent_run)

theorem reservePersonalAgent_idempotent_witness:
  "reservePersonalAgent demoOptions ''user-'' 99 annAgentStore =
     (Inr \<lparr>rv_binding = annBinding, rv_created = False\<rparr>, annAgentStore)"
  using reservePersonalAgent_idempotent [OF annAgent_run, of 99] by simp

theorem reserveKnoxRoomAgent_idempotent_witness:
  "\<exists>r s'. reserveKnoxRoomAgent demoOptions ''acc'' ''R1'' 5 emptyStore = (Inr r, s')
     \<and> b_agentId (rv_binding r) = ''group-r1''
     \<and> reserveKnoxRoomAgent demoOptions ''acc'' ''R1'' 7 s' = (Inr \<lparr>rv_binding = rv_binding r, rv_created = False\<rparr>, s')"
proof -
  let ?run = "reserveKnoxRoomAgent demoOptions ''acc'' ''R1'' 5 emptyStore"
  have "(case fst ?run of Inl _ \<Rightarrow> False | Inr r \<Rightarrow> b_agentId (rv_binding r) = ''group-r1'')"
    by code_simp
  then obtain r where "fst ?run = Inr r" "b_agentId (rv_binding r) = ''group-r1''"
    by (auto split: sum.splits)
  then have "?run = (Inr r, snd ?run)" "b_agentId (rv_binding r) = ''group-r1''"
    by (simp_all add: prod_eq_iff)
  then show ?thesis using reserveKnoxRoomAgent_idempotent by blast
qed

theorem listAgentBindingsByState_correct_witness:
  "set (listAgentBindingsByState demoOptions Provisioning annAgentStore) =
     {b. mapGet (bindings annAgentStore) (b_id b) = Some b \<and> b_state b = Provisioning}"
  using listAgentBindingsByState_correct [OF annAgentStore_wf demo_localeCompare] by blast

text \<open>
  A transition to \<open>failed\<close> with a blank failure code throws after it has moved the binding:
  the caller sees an error, and the binding is failed without a failure code.
\<close>

theorem transitionAgent_blank_code_half_applied:
  "(case transitionAgent ''binding-x'' AgentFailed 30 (Some '' '') annAgentStore of
      (Inr _, _) \<Rightarrow> False
    | (Inl e, s') \<Rightarrow> e = StateError ''must not be empty'' [''failureCode'']
        \<and> (case mapGet (bindings s') ''binding-x'' of None \<Rightarrow> False
           | Some b \<Rightarrow> b_state b = AgentFailed \<and> b_updatedAt b = 30 \<and> b_failureCode b = None))"
  by code_simp

text \<open>Accounts that differ by a dot and an underscore ask for the same agent id.\<close>

lemma derivePersonalAgentId_collision:
  "derivePersonalAgentId ''a.b'' = derivePersonalAgentId ''a_b''"
  by code_simp

end
