(* ===== verification/Sessions.thy ===== *)
theory Sessions
  imports Agents
begin

text \<open>
  Browser sessions of \<open>memory-store.ts\<close>: creation under the session limit, resolution with
  sliding idle expiry under an absolute bound, revocation, and the account status change that
  revokes every session of a disabled user.
\<close>

section \<open>Operations\<close>

definition resolveExpiryReason :: "browser_session \<Rightarrow> int \<Rightarrow> expiry_reason option" where
  "resolveExpiryReason session at =
     (if at \<ge> s_absoluteExpiresAt session then Some AbsoluteExpiry
      else if at \<ge> s_idleExpiresAt session then Some IdleExpiry
      else None)"

definition isLive :: "int \<Rightarrow> browser_session \<Rightarrow> bool" where
  "isLive at session = (s_revokedAt session = None \<and> resolveExpiryReason session at = None)"

text \<open>The loop of \<open>countActiveSessions\<close> over the session ids of the user.\<close>

definition userSessionIds :: "string \<Rightarrow> mem \<Rightarrow> string list" where
  "userSessionIds userId s =
     (case mapGet (sessionIdsByUserId s) userId of None \<Rightarrow> [] | Some ids \<Rightarrow> ids)"

fun countLive :: "int \<Rightarrow> (string, browser_session) jsmap \<Rightarrow> string list \<Rightarrow> int" where
  "countLive at m [] = 0"
| "countLive at m (sid # sids) =
     (case mapGet m sid of
        None \<Rightarrow> countLive at m sids
      | Some session \<Rightarrow> (if isLive at session then 1 else 0) + countLive at m sids)"

definition countActiveSessions :: "string \<Rightarrow> int \<Rightarrow> mem \<Rightarrow> int" where
  "countActiveSessions userId at s = countLive at (sessions s) (userSessionIds userId s)"

definition createBrowserSession ::
    "store_options \<Rightarrow> string \<Rightarrow> string \<Rightarrow> int \<Rightarrow> mem \<Rightarrow> (error + create_session_result) \<times> mem" where
  "createBrowserSession opts userId rawTokenHash createdAt s =
     orThrow (requireUser userId s) s (\<lambda>user.
       if u_status user \<noteq> UserActive
       then (Inl (StateError ''cannot create session for disabled user'' [u_id user]), s)
       else
         orThrow (requireNonEmpty rawTokenHash ''tokenHash'') s (\<lambda>tokenHash.
           if mapHas (sessionIdByTokenHash s) tokenHash
           then (Inl (ConflictError SessionTokenConflict), s)
           else
             let activeSessionCount = countActiveSessions (u_id user) createdAt s in
             if activeSessionCount \<ge> maxConcurrentSessions (o_sessionPolicy opts)
             then (Inr (LimitReached activeSessionCount), s)
             else
               let absoluteExpiresAt = createdAt + absoluteTimeoutMs (o_sessionPolicy opts);
                   (sid, s1) = takeId opts SessionId s;
                   session =
                     \<lparr>s_id = sid, s_userId = u_id user, s_tokenHash = tokenHash,
                      s_createdAt = createdAt, s_lastSeenAt = createdAt,
                      s_idleExpiresAt =
                        min (createdAt + idleTimeoutMs (o_sessionPolicy opts)) absoluteExpiresAt,
                      s_absoluteExpiresAt = absoluteExpiresAt, s_revokedAt = None\<rparr>
               in
               (Inr (SessionCreated session),
                s1\<lparr>sessions := mapSet (sessions s1) sid session,
                   sessionIdByTokenHash := mapSet (sessionIdByTokenHash s1) tokenHash sid,
                   sessionIdsByUserId :=
                     mapSet (sessionIdsByUserId s1) (u_id user)
                       (setAdd sid (userSessionIds (u_id user) s1))\<rparr>)))"

definition resolveBrowserSession ::
    "store_options \<Rightarrow> string \<Rightarrow> int \<Rightarrow> bool \<Rightarrow> mem \<Rightarrow> (error + session_resolution) \<times> mem" where
  "resolveBrowserSession opts tokenHash resolvedAt touch s =
     (case (case mapGet (sessionIdByTokenHash s) tokenHash of
              None \<Rightarrow> None | Some sid \<Rightarrow> mapGet (sessions s) sid) of
        None \<Rightarrow> (Inr ResNotFound, s)
      | Some session \<Rightarrow>
          if s_revokedAt session \<noteq> None then (Inr (ResRevoked session), s)
          else
            (case resolveExpiryReason session resolvedAt of
               Some reason \<Rightarrow> (Inr (ResExpired reason session), s)
             | None \<Rightarrow>
                 orThrow (requireUser (s_userId session) s) s (\<lambda>user.
                   if u_status user \<noteq> UserActive
                   then (Inr (ResUserDisabled session user), s)
                   else if touch then
                     let session1 =
                       session\<lparr>s_lastSeenAt := resolvedAt,
                               s_idleExpiresAt :=
                                 min (resolvedAt + idleTimeoutMs (o_sessionPolicy opts))
                                     (s_absoluteExpiresAt session)\<rparr>
                     in (Inr (ResActive session1 user),
                         s\<lparr>sessions := mapSet (sessions s) (s_id session) session1\<rparr>)
                   else (Inr (ResActive session user), s))))"

definition revokeBrowserSession :: "string \<Rightarrow> int \<Rightarrow> mem \<Rightarrow> browser_session option \<times> mem" where
  "revokeBrowserSession sessionId revokedAt s =
     (case mapGet (sessions s) sessionId of
        None \<Rightarrow> (None, s)
      | Some session \<Rightarrow>
          let session1 =
            session\<lparr>s_revokedAt :=
              (case s_revokedAt session of None \<Rightarrow> Some revokedAt | Some r \<Rightarrow> Some r)\<rparr>
          in (Some session1, s\<lparr>sessions := mapSet (sessions s) sessionId session1\<rparr>))"

text \<open>The loop of \<open>setManagedUserStatus\<close> that revokes the sessions of a disabled user.\<close>

fun revokeEach :: "int \<Rightarrow> string list \<Rightarrow> (string, browser_session) jsmap \<Rightarrow> (string, browser_session) jsmap" where
  "revokeEach at [] m = m"
| "revokeEach at (sid # sids) m =
     revokeEach at sids
       (case mapGet m sid of
          None \<Rightarrow> m
        | Some session \<Rightarrow>
            if s_revokedAt session = None then mapSet m sid (session\<lparr>s_revokedAt := Some at\<rparr>) else m)"

definition setManagedUserStatus ::
    "string \<Rightarrow> string \<Rightarrow> user_status \<Rightarrow> int \<Rightarrow> mem \<Rightarrow> (error + platform_user) \<times> mem" where
  "setManagedUserStatus actorUserId targetUserId status changedAt s =
     orThrow (requireUser actorUserId s) s (\<lambda>actor.
     orThrow (requireUser targetUserId s) s (\<lambda>user.
       if u_status actor \<noteq> UserActive \<or> u_globalRole actor \<noteq> GlobalAdmin
       then (Inl (AuthorizationError ''active administrator required''), s)
       else if u_id actor = u_id user \<and> u_status actor \<noteq> status
       then (Inl (StateError ''administrators cannot change their own status'' []), s)
       else
         let user1 = user\<lparr>u_status := status, u_updatedAt := changedAt\<rparr>;
             s1 = s\<lparr>users := mapSet (users s) (u_id user) user1\<rparr>
         in (Inr user1,
             if status = UserDisabled
             then s1\<lparr>sessions := revokeEach changedAt (userSessionIds (u_id user) s1) (sessions s1)\<rparr>
             else s1)))"

section \<open>Well-formed sessions\<close>

text \<open>
  Every session is stored under its id, its token hash finds it and its user's set lists it; the
  token index and the sets name existing sessions; the idle expiry never passes the absolute one.
\<close>

definition wfSessions :: "store_options \<Rightarrow> mem \<Rightarrow> bool" where
  "wfSessions opts s \<longleftrightarrow>
     (\<forall>k e. mapGet (sessions s) k = Some e \<longrightarrow>
        s_id e = k \<and> issuedId opts SessionId (issued s) k
        \<and> mapGet (sessionIdByTokenHash s) (s_tokenHash e) = Some k
        \<and> k \<in> set (userSessionIds (s_userId e) s)
        \<and> s_idleExpiresAt e \<le> s_absoluteExpiresAt e
        \<and> s_absoluteExpiresAt e = s_createdAt e + absoluteTimeoutMs (o_sessionPolicy opts))
     \<and> (\<forall>h k. mapGet (sessionIdByTokenHash s) h = Some k \<longrightarrow>
          (\<exists>e. mapGet (sessions s) k = Some e \<and> s_tokenHash e = h))
     \<and> (\<forall>u k. k \<in> set (userSessionIds u s) \<longrightarrow>
          (\<exists>e. mapGet (sessions s) k = Some e \<and> s_userId e = u))
     \<and> (\<forall>u. distinct (userSessionIds u s))"

lemma wfSessionsD:
  assumes "wfSessions opts s"
  shows "mapGet (sessions s) k = Some e \<Longrightarrow> s_id e = k"
    and "mapGet (sessions s) k = Some e \<Longrightarrow> issuedId opts SessionId (issued s) k"
    and "mapGet (sessions s) k = Some e \<Longrightarrow> mapGet (sessionIdByTokenHash s) (s_tokenHash e) = Some k"
    and "mapGet (sessions s) k = Some e \<Longrightarrow> k \<in> set (userSessionIds (s_userId e) s)"
    and "mapGet (sessions s) k = Some e \<Longrightarrow> s_idleExpiresAt e \<le> s_absoluteExpiresAt e"
    and "mapGet (sessions s) k = Some e \<Longrightarrow>
      s_absoluteExpiresAt e = s_createdAt e + absoluteTimeoutMs (o_sessionPolicy opts)"
    and "mapGet (sessionIdByTokenHash s) h = Some k \<Longrightarrow> \<exists>e. mapGet (sessions s) k = Some e \<and> s_tokenHash e = h"
    and "k \<in> set (userSessionIds u s) \<Longrightarrow> \<exists>e. mapGet (sessions s) k = Some e \<and> s_userId e = u"
    and "distinct (userSessionIds u s)"
  using assms unfolding wfSessions_def by blast+

lemma wfSessions_empty: "wfSessions opts emptyStore"
  by (simp add: wfSessions_def emptyStore_def userSessionIds_def)

lemma wfSessions_frame:
  assumes "wfSessions opts s" and "sessions t = sessions s"
    and "sessionIdByTokenHash t = sessionIdByTokenHash s"
    and "sessionIdsByUserId t = sessionIdsByUserId s" and "issued s \<le> issued t"
  shows "wfSessions opts t"
proof -
  have "issuedId opts SessionId (issued t) k" if "issuedId opts SessionId (issued s) k" for k
    using that assms(5) by (rule issuedId_mono)
  then show ?thesis
    using assms(1) unfolding wfSessions_def userSessionIds_def assms(2-4) by blast
qed

text \<open>Updates that change only the times of existing sessions.\<close>

definition sameSession :: "browser_session \<Rightarrow> browser_session \<Rightarrow> bool" where
  "sameSession e f \<longleftrightarrow> s_id f = s_id e \<and> s_userId f = s_userId e \<and> s_tokenHash f = s_tokenHash e
     \<and> s_createdAt f = s_createdAt e \<and> s_absoluteExpiresAt f = s_absoluteExpiresAt e"

lemma wfSessions_update:
  assumes wf: "wfSessions opts s"
    and upd: "\<And>k. rel_option (\<lambda>e f. sameSession e f \<and> s_idleExpiresAt f \<le> s_absoluteExpiresAt f)
        (mapGet (sessions s) k) (mapGet m k)"
  shows "wfSessions opts (s\<lparr>sessions := m\<rparr>)"
proof -
  have fwd: "\<exists>f. mapGet m k = Some f \<and> sameSession e f" if "mapGet (sessions s) k = Some e" for k e
    using upd [of k] that by (auto simp: option_rel_Some1)
  have bwd: "\<exists>e. mapGet (sessions s) k = Some e \<and> sameSession e f \<and> s_idleExpiresAt f \<le> s_absoluteExpiresAt f"
    if "mapGet m k = Some f" for k f
    using upd [of k] that by (auto simp: option_rel_Some2)
  have ids: "userSessionIds u (s\<lparr>sessions := m\<rparr>) = userSessionIds u s" for u
    by (simp add: userSessionIds_def)
  show ?thesis
    unfolding wfSessions_def ids
  proof (intro conjI allI impI)
    fix k f
    assume "mapGet (sessions (s\<lparr>sessions := m\<rparr>)) k = Some f"
    then obtain e where e: "mapGet (sessions s) k = Some e" "sameSession e f"
      "s_idleExpiresAt f \<le> s_absoluteExpiresAt f" using bwd by auto
    show "s_id f = k" "issuedId opts SessionId (issued (s\<lparr>sessions := m\<rparr>)) k"
      "mapGet (sessionIdByTokenHash (s\<lparr>sessions := m\<rparr>)) (s_tokenHash f) = Some k"
      "k \<in> set (userSessionIds (s_userId f) s)" "s_idleExpiresAt f \<le> s_absoluteExpiresAt f"
      "s_absoluteExpiresAt f = s_createdAt f + absoluteTimeoutMs (o_sessionPolicy opts)"
      using e wfSessionsD(1-4,6) [OF wf e(1)] by (auto simp: sameSession_def)
  next
    fix h k
    assume "mapGet (sessionIdByTokenHash (s\<lparr>sessions := m\<rparr>)) h = Some k"
    then show "\<exists>f. mapGet (sessions (s\<lparr>sessions := m\<rparr>)) k = Some f \<and> s_tokenHash f = h"
      using wfSessionsD(7) [OF wf, of h k] fwd by (fastforce simp: sameSession_def)
  next
    fix u k
    assume "k \<in> set (userSessionIds u s)"
    then show "\<exists>f. mapGet (sessions (s\<lparr>sessions := m\<rparr>)) k = Some f \<and> s_userId f = u"
      using wfSessionsD(8) [OF wf, of k u] fwd by (fastforce simp: sameSession_def)
  next
    fix u
    show "distinct (userSessionIds u s)" using wfSessionsD(9) [OF wf] .
  qed
qed

section \<open>Outcomes\<close>

lemma mapGet_revokeEach:
  "mapGet (revokeEach at ids m) k =
     map_option (\<lambda>e. if k \<in> set ids \<and> s_revokedAt e = None then e\<lparr>s_revokedAt := Some at\<rparr> else e)
       (mapGet m k)"
proof (induction ids arbitrary: m)
  case Nil
  then show ?case by (simp add: option.map_ident)
next
  case (Cons sid sids)
  then show ?case by (cases "mapGet m k") (auto split: option.splits if_splits)
qed

lemma createSession_cases [consumes 1, case_names kept made]:
  assumes "createBrowserSession opts uid th t s = (out, s')"
  obtains
    (kept) "s' = s" "\<And>e. out \<noteq> Inr (SessionCreated e)"
  | (made) user e where
      "mapGet (users s) uid = Some user" "u_status user = UserActive"
      "mapGet (sessionIdByTokenHash s) (s_tokenHash e) = None" "s_tokenHash e = trim th"
      "countActiveSessions (u_id user) t s < maxConcurrentSessions (o_sessionPolicy opts)"
      "s_id e = o_idFactory opts SessionId (issued s)" "s_userId e = u_id user"
      "s_createdAt e = t" "s_revokedAt e = None"
      "s_absoluteExpiresAt e = t + absoluteTimeoutMs (o_sessionPolicy opts)"
      "s_idleExpiresAt e = min (t + idleTimeoutMs (o_sessionPolicy opts)) (s_absoluteExpiresAt e)"
      "out = Inr (SessionCreated e)"
      "s' = s\<lparr>issued := Suc (issued s), sessions := mapSet (sessions s) (s_id e) e,
              sessionIdByTokenHash := mapSet (sessionIdByTokenHash s) (s_tokenHash e) (s_id e),
              sessionIdsByUserId := mapSet (sessionIdsByUserId s) (u_id user)
                (setAdd (s_id e) (userSessionIds (u_id user) s))\<rparr>"
proof (cases "\<exists>e. out = Inr (SessionCreated e)")
  case False
  with assms have "s' = s"
    by (auto simp: createBrowserSession_def takeId_def Let_def
        split: throw_splits if_splits prod.splits)
  with False kept show ?thesis by blast
next
  case True
  then obtain e where e: "out = Inr (SessionCreated e)" by blast
  with assms obtain user where u: "mapGet (users s) uid = Some user"
    by (auto simp: createBrowserSession_def requireUser_def elim!: orThrow_InrE split: option.splits)
  have ids: "userSessionIds k (s\<lparr>issued := n\<rparr>) = userSessionIds k s" for k n
    by (simp add: userSessionIds_def)
  from assms e u show ?thesis
    by (intro made [OF u, of e])
      (auto simp: createBrowserSession_def requireUser_def takeId_def Let_def ids
        elim!: orThrow_InrE split: if_splits)
qed

text \<open>
  Resolving changes the store only for a session that is live at the time of the call and whose
  user is active, and then only its times.
\<close>

lemma resolve_cases [consumes 1, case_names kept touched]:
  assumes "resolveBrowserSession opts h t touch s = (out, s')"
  obtains
    (kept) "s' = s"
      "\<And>e u. out = Inr (ResActive e u) \<Longrightarrow> \<exists>sid. mapGet (sessionIdByTokenHash s) h = Some sid
        \<and> mapGet (sessions s) sid = Some e \<and> isLive t e
        \<and> mapGet (users s) (s_userId e) = Some u \<and> u_status u = UserActive"
  | (touched) sid e u e1 where "touch" "mapGet (sessionIdByTokenHash s) h = Some sid"
      "mapGet (sessions s) sid = Some e" "isLive t e"
      "mapGet (users s) (s_userId e) = Some u" "u_status u = UserActive"
      "e1 = e\<lparr>s_lastSeenAt := t, s_idleExpiresAt :=
              min (t + idleTimeoutMs (o_sessionPolicy opts)) (s_absoluteExpiresAt e)\<rparr>"
      "out = Inr (ResActive e1 u)" "s' = s\<lparr>sessions := mapSet (sessions s) (s_id e) e1\<rparr>"
proof (cases "touch \<and> (\<exists>e u. out = Inr (ResActive e u))")
  case False
  have "s' = s"
    using assms False
    by (auto simp: resolveBrowserSession_def requireUser_def Let_def
        split: throw_splits if_splits option.splits)
  moreover have "\<exists>sid. mapGet (sessionIdByTokenHash s) h = Some sid
        \<and> mapGet (sessions s) sid = Some e \<and> isLive t e
        \<and> mapGet (users s) (s_userId e) = Some u \<and> u_status u = UserActive"
    if "out = Inr (ResActive e u)" for e u
    using assms False that
    by (auto simp: resolveBrowserSession_def requireUser_def isLive_def Let_def
        elim!: orThrow_InrE split: if_splits option.splits)
  ultimately show ?thesis using kept by blast
next
  case True
  then obtain e1 u where "touch" "out = Inr (ResActive e1 u)" by blast
  with assms show ?thesis
    by (auto simp: resolveBrowserSession_def requireUser_def isLive_def Let_def
        elim!: orThrow_InrE split: if_splits option.splits intro!: touched)
qed

lemma setStatus_cases [consumes 1, case_names refused changed]:
  assumes "setManagedUserStatus actor target st t s = (out, s')"
  obtains
    (refused) e where "out = Inl e" "s' = s"
  | (changed) a u where "mapGet (users s) actor = Some a" "mapGet (users s) target = Some u"
      "u_status a = UserActive" "u_globalRole a = GlobalAdmin" "u_id a = u_id u \<Longrightarrow> u_status a = st"
      "out = Inr (u\<lparr>u_status := st, u_updatedAt := t\<rparr>)"
      "s' = s\<lparr>users := mapSet (users s) (u_id u) (u\<lparr>u_status := st, u_updatedAt := t\<rparr>),
              sessions := (if st = UserDisabled
                then revokeEach t (userSessionIds (u_id u) s) (sessions s) else sessions s)\<rparr>"
proof (cases out)
  case (Inl e)
  with assms have "s' = s"
    by (auto simp: setManagedUserStatus_def Let_def split: throw_splits if_splits)
  with Inl refused show ?thesis by blast
next
  case (Inr u)
  have ids: "userSessionIds k (s\<lparr>users := x\<rparr>) = userSessionIds k s" for k x
    by (simp add: userSessionIds_def)
  from Inr assms show ?thesis
    by (auto simp: setManagedUserStatus_def requireUser_def Let_def ids
        elim!: orThrow_InrE split: if_splits option.splits intro!: changed)
qed

section \<open>The invariant is kept\<close>

lemma createSession_wfSessions:
  assumes wf: "wfSessions opts s" and fac: "id_factory (o_idFactory opts)"
  shows "wfSessions opts (snd (createBrowserSession opts uid th t s))"
proof (cases "createBrowserSession opts uid th t s")
  case (Pair out s')
  from Pair show ?thesis
  proof (cases rule: createSession_cases)
    case kept
    with Pair wf show ?thesis by simp
  next
    case (made user e)
    have fresh: "mapGet (sessions s) (s_id e) = None"
      using wfSessionsD(2) [OF wf] not_issuedId_next [OF fac] made(6) by (metis option.exhaust)
    have iss: "issuedId opts SessionId (Suc (issued s)) (s_id e)" using made(6) by (simp add: issuedId_new)
    have notIn: "s_id e \<notin> set (userSessionIds v s)" for v
      using wfSessionsD(8) [OF wf, of "s_id e" v] fresh by auto
    have "userSessionIds v s' =
        (if v = u_id user then setAdd (s_id e) (userSessionIds (u_id user) s) else userSessionIds v s)" for v
      by (simp add: made(13) userSessionIds_def)
    then have ids: "userSessionIds v s' =
        (if v = u_id user then userSessionIds v s @ [s_id e] else userSessionIds v s)" for v
      using notIn by (simp add: setAdd_def)
    have old: "k \<noteq> s_id e \<and> s_tokenHash f \<noteq> s_tokenHash e \<and> issuedId opts SessionId (Suc (issued s)) k"
      if "mapGet (sessions s) k = Some f" for k f
      using that fresh wfSessionsD(3) [OF wf that] made(3) wfSessionsD(2) [OF wf that]
      by (auto simp: issuedId_Suc)
    have tok: "mapGet (sessionIdByTokenHash s) h \<noteq> Some (s_id e)" for h
      using wfSessionsD(7) [OF wf, of h] fresh by auto
    have one: "s_id f = k \<and> issuedId opts SessionId (issued s') k
        \<and> mapGet (sessionIdByTokenHash s') (s_tokenHash f) = Some k
        \<and> k \<in> set (userSessionIds (s_userId f) s') \<and> s_idleExpiresAt f \<le> s_absoluteExpiresAt f
        \<and> s_absoluteExpiresAt f = s_createdAt f + absoluteTimeoutMs (o_sessionPolicy opts)"
      if "mapGet (sessions s') k = Some f" for k f
    proof (cases "k = s_id e")
      case True
      have "s_id e \<in> set (userSessionIds (u_id user) s')" by (simp add: ids)
      with True that made iss show ?thesis by simp
    next
      case False
      with that have f: "mapGet (sessions s) k = Some f" by (simp add: made(13))
      have "k \<in> set (userSessionIds (s_userId f) s')"
        using wfSessionsD(4) [OF wf f] by (auto simp: ids)
      with old [OF f] wfSessionsD(1,3) [OF wf f] wfSessionsD(5) [OF wf f] wfSessionsD(6) [OF wf f]
      show ?thesis by (simp add: made(13))
    qed
    have two: "\<exists>f. mapGet (sessions s') k = Some f \<and> s_tokenHash f = h"
      if "mapGet (sessionIdByTokenHash s') h = Some k" for h k
      using that wfSessionsD(7) [OF wf, of h k] tok [of h] by (auto simp: made(13) split: if_splits)
    have three: "\<exists>f. mapGet (sessions s') k = Some f \<and> s_userId f = v"
      if "k \<in> set (userSessionIds v s')" for v k
    proof (cases "k = s_id e")
      case True
      then have "v = u_id user" using that notIn [of v] by (auto simp: ids split: if_splits)
      with True made(7) show ?thesis by (simp add: made(13))
    next
      case False
      then have "k \<in> set (userSessionIds v s)" using that by (auto simp: ids split: if_splits)
      with False show ?thesis using wfSessionsD(8) [OF wf] by (simp add: made(13))
    qed
    have four: "distinct (userSessionIds v s')" for v
      using wfSessionsD(9) [OF wf, of v] notIn [of v] by (auto simp: ids)
    show ?thesis
      unfolding wfSessions_def Pair snd_conv using one two three four by blast
  qed
qed

lemma wfSessions_putSession:
  assumes wf: "wfSessions opts s" and e: "mapGet (sessions s) k = Some e"
    and f: "sameSession e f" "s_idleExpiresAt f \<le> s_absoluteExpiresAt f"
  shows "wfSessions opts (s\<lparr>sessions := mapSet (sessions s) k f\<rparr>)"
proof (rule wfSessions_update [OF wf])
  fix j
  show "rel_option (\<lambda>e f. sameSession e f \<and> s_idleExpiresAt f \<le> s_absoluteExpiresAt f)
        (mapGet (sessions s) j) (mapGet (mapSet (sessions s) k f) j)"
    using e f wfSessionsD(5) [OF wf, of j] by (cases "mapGet (sessions s) j") (auto simp: sameSession_def)
qed

lemma resolve_wfSessions:
  assumes wf: "wfSessions opts s"
  shows "wfSessions opts (snd (resolveBrowserSession opts h t touch s))"
proof (cases "resolveBrowserSession opts h t touch s")
  case (Pair out s')
  from Pair show ?thesis
  proof (cases rule: resolve_cases)
    case kept
    with Pair wf show ?thesis by simp
  next
    case (touched sid e u e1)
    then have "s_id e = sid" using wfSessionsD(1) [OF wf] by blast
    with touched Pair wfSessions_putSession [OF wf touched(3), of e1] show ?thesis
      by (simp add: sameSession_def)
  qed
qed

lemma revoke_wfSessions:
  assumes wf: "wfSessions opts s"
  shows "wfSessions opts (snd (revokeBrowserSession sid t s))"
proof (cases "mapGet (sessions s) sid")
  case None
  with wf show ?thesis by (simp add: revokeBrowserSession_def)
next
  case (Some e)
  with wfSessions_putSession [OF wf Some] wfSessionsD(5) [OF wf Some] show ?thesis
    by (simp add: revokeBrowserSession_def Let_def sameSession_def)
qed

lemma setStatus_wfSessions:
  assumes wf: "wfSessions opts s"
  shows "wfSessions opts (snd (setManagedUserStatus actor target st t s))"
proof (cases "setManagedUserStatus actor target st t s")
  case (Pair out s')
  from Pair show ?thesis
  proof (cases rule: setStatus_cases)
    case (refused e)
    with Pair wf show ?thesis by simp
  next
    case (changed a u)
    let ?m = "revokeEach t (userSessionIds (u_id u) s) (sessions s)"
    have "wfSessions opts (s\<lparr>sessions := ?m\<rparr>)"
    proof (rule wfSessions_update [OF wf])
      fix k
      show "rel_option (\<lambda>e f. sameSession e f \<and> s_idleExpiresAt f \<le> s_absoluteExpiresAt f)
          (mapGet (sessions s) k) (mapGet ?m k)"
        using wfSessionsD(5) [OF wf, of k]
        by (cases "mapGet (sessions s) k") (auto simp: mapGet_revokeEach sameSession_def)
    qed
    then have "wfSessions opts s'"
      using wfSessions_frame [of opts "s\<lparr>sessions := ?m\<rparr>" s'] wfSessions_frame [OF wf, of s'] changed(7)
      by (cases st) simp_all
    then show ?thesis by (simp add: Pair)
  qed
qed

section \<open>Counting live sessions\<close>

text \<open>The ids of a user's sessions that are live at a time; the loop of the code counts them.\<close>

definition liveIds :: "string \<Rightarrow> int \<Rightarrow> mem \<Rightarrow> string set" where
  "liveIds u at s = {k \<in> set (userSessionIds u s). \<exists>e. mapGet (sessions s) k = Some e \<and> isLive at e}"

lemma countLive_card:
  "distinct ids \<Longrightarrow> countLive at m ids = int (card {k \<in> set ids. \<exists>e. mapGet m k = Some e \<and> isLive at e})"
proof (induction ids)
  case (Cons k ids)
  let ?P = "\<lambda>k. \<exists>e. mapGet m k = Some e \<and> isLive at e"
  have "{j \<in> set (k # ids). ?P j} = (if ?P k then insert k {j \<in> set ids. ?P j} else {j \<in> set ids. ?P j})"
    by auto
  with Cons show ?case by (auto split: option.splits)
qed simp

lemma countActive_card:
  assumes "wfSessions opts s"
  shows "countActiveSessions u at s = int (card (liveIds u at s))"
  using countLive_card [OF wfSessionsD(9) [OF assms], of at "sessions s" u]
  by (simp add: countActiveSessions_def liveIds_def)

lemma finite_liveIds [simp]: "finite (liveIds u at s)"
  by (simp add: liveIds_def)

lemma isLive_earlier: "isLive t e \<Longrightarrow> t0 \<le> t \<Longrightarrow> isLive t0 e"
  by (auto simp: isLive_def resolveExpiryReason_def split: if_splits)

lemma liveIds_antimono: "t0 \<le> t \<Longrightarrow> liveIds u t s \<subseteq> liveIds u t0 s"
  using isLive_earlier by (auto simp: liveIds_def)

text \<open>
  The session limit as an invariant of a store at a time: from then on, no user has more live
  sessions than the policy allows.
\<close>

definition withinLimit :: "store_options \<Rightarrow> int \<Rightarrow> mem \<Rightarrow> bool" where
  "withinLimit opts now s \<longleftrightarrow>
     (\<forall>u. \<forall>t \<ge> now. countActiveSessions u t s \<le> maxConcurrentSessions (o_sessionPolicy opts))"

lemma withinLimit_later: "withinLimit opts now s \<Longrightarrow> now \<le> t \<Longrightarrow> withinLimit opts t s"
  by (simp add: withinLimit_def)

lemma withinLimit_frame:
  assumes "withinLimit opts now s" and "sessions t = sessions s"
    and "sessionIdsByUserId t = sessionIdsByUserId s"
  shows "withinLimit opts now t"
  using assms by (simp add: withinLimit_def countActiveSessions_def userSessionIds_def)

text \<open>No new session is live in \<open>s'\<close> after \<open>now\<close> that was not live in \<open>s\<close> at \<open>now\<close>.\<close>

lemma withinLimit_shrink:
  assumes lim: "withinLimit opts now s" and wf: "wfSessions opts s" "wfSessions opts s'"
    and sub: "\<And>u t. now \<le> t \<Longrightarrow> liveIds u t s' \<subseteq> liveIds u now s"
  shows "withinLimit opts now s'"
  unfolding withinLimit_def
proof (intro allI impI)
  fix u t assume t: "now \<le> t"
  have "card (liveIds u t s') \<le> card (liveIds u now s)"
    using sub [OF t] by (simp add: card_mono)
  then have "countActiveSessions u t s' \<le> countActiveSessions u now s"
    by (simp add: countActive_card [OF wf(1)] countActive_card [OF wf(2)])
  then show "countActiveSessions u t s' \<le> maxConcurrentSessions (o_sessionPolicy opts)"
    using lim [unfolded withinLimit_def, rule_format, of now u] by linarith
qed

lemma createSession_withinLimit:
  assumes lim: "withinLimit opts now s" and wf: "wfSessions opts s"
    and fac: "id_factory (o_idFactory opts)" and t: "now \<le> t"
  shows "withinLimit opts t (snd (createBrowserSession opts uid th t s))"
proof (cases "createBrowserSession opts uid th t s")
  case (Pair out s')
  from Pair show ?thesis
  proof (cases rule: createSession_cases)
    case kept
    with Pair lim t show ?thesis by (simp add: withinLimit_later)
  next
    case (made user e)
    have wf': "wfSessions opts s'" using createSession_wfSessions [OF wf fac, of uid th t] Pair by simp
    have sub: "liveIds v t' s' \<subseteq> (if v = u_id user then insert (s_id e) (liveIds v t s) else liveIds v t s)"
      if "t \<le> t'" for v t'
    proof -
      have "userSessionIds v s' =
          (if v = u_id user then setAdd (s_id e) (userSessionIds (u_id user) s) else userSessionIds v s)"
        by (simp add: made(13) userSessionIds_def)
      moreover have "mapGet (sessions s') k = (if k = s_id e then Some e else mapGet (sessions s) k)" for k
        by (simp add: made(13))
      moreover have "s_id e \<notin> set (userSessionIds w s)" for w
        using wfSessionsD(8) [OF wf, of "s_id e" w] wfSessionsD(2) [OF wf] made(6) not_issuedId_next [OF fac]
        by fastforce
      ultimately show ?thesis
        using isLive_earlier [OF _ that] by (auto simp: liveIds_def split: if_splits)
    qed
    show ?thesis
      unfolding withinLimit_def Pair snd_conv
    proof (intro allI impI)
      fix v t' assume t': "t \<le> t'"
      have "card (liveIds v t' s') \<le> card (if v = u_id user then insert (s_id e) (liveIds v t s) else liveIds v t s)"
        using sub [OF t', of v] by (auto intro!: card_mono split: if_splits)
      moreover have "card (insert (s_id e) (liveIds v t s)) \<le> Suc (card (liveIds v t s))"
        by (simp add: card_insert_if)
      ultimately have "countActiveSessions v t' s' \<le> countActiveSessions v t s + (if v = u_id user then 1 else 0)"
        by (simp add: countActive_card [OF wf] countActive_card [OF wf'] split: if_splits)
      moreover have "countActiveSessions v t s \<le> maxConcurrentSessions (o_sessionPolicy opts)"
        using lim t by (simp add: withinLimit_def)
      ultimately show "countActiveSessions v t' s' \<le> maxConcurrentSessions (o_sessionPolicy opts)"
        using made(5) by (auto split: if_splits)
    qed
  qed
qed

lemma resolve_withinLimit:
  assumes lim: "withinLimit opts now s" and wf: "wfSessions opts s" and t: "now \<le> t"
  shows "withinLimit opts t (snd (resolveBrowserSession opts h t touch s))"
proof (cases "resolveBrowserSession opts h t touch s")
  case (Pair out s')
  have wf': "wfSessions opts s'" using resolve_wfSessions [OF wf, of h t touch] Pair by simp
  from Pair show ?thesis
  proof (cases rule: resolve_cases)
    case kept
    with Pair lim t show ?thesis by (simp add: withinLimit_later)
  next
    case (touched sid e u e1)
    then have id: "s_id e = sid" using wfSessionsD(1) [OF wf] by blast
    have "liveIds v t' s' \<subseteq> liveIds v t s" if "t \<le> t'" for v t'
    proof -
      have "userSessionIds v s' = userSessionIds v s"
        by (simp add: touched(9) userSessionIds_def)
      moreover have "mapGet (sessions s') k = (if k = sid then Some e1 else mapGet (sessions s) k)" for k
        by (simp add: touched(9) id)
      ultimately show ?thesis
        using touched(3,4) isLive_earlier [OF _ that] by (auto simp: liveIds_def split: if_splits)
    qed
    then show ?thesis
      using withinLimit_shrink [OF withinLimit_later [OF lim t] wf wf'] Pair by simp
  qed
qed

lemma withinLimit_revoking:
  assumes lim: "withinLimit opts now s" and wf: "wfSessions opts s" "wfSessions opts s'" and t: "now \<le> t"
    and ids: "sessionIdsByUserId s' = sessionIdsByUserId s"
    and rev: "\<And>k f. mapGet (sessions s') k = Some f \<Longrightarrow> s_revokedAt f = None \<Longrightarrow> mapGet (sessions s) k = Some f"
  shows "withinLimit opts t s'"
proof (rule withinLimit_shrink [OF withinLimit_later [OF lim t] wf])
  fix u t' assume t': "t \<le> t'"
  have "userSessionIds u s' = userSessionIds u s" by (simp add: userSessionIds_def ids)
  then show "liveIds u t' s' \<subseteq> liveIds u t s"
    using rev isLive_earlier [OF _ t'] by (auto simp: liveIds_def isLive_def)
qed

lemma revoke_withinLimit:
  assumes lim: "withinLimit opts now s" and wf: "wfSessions opts s" and t: "now \<le> t"
  shows "withinLimit opts t (snd (revokeBrowserSession sid r s))"
  by (rule withinLimit_revoking [OF lim wf revoke_wfSessions [OF wf] t])
    (auto simp: revokeBrowserSession_def Let_def split: option.splits if_splits)

lemma setStatus_withinLimit:
  assumes lim: "withinLimit opts now s" and wf: "wfSessions opts s" and t: "now \<le> t"
  shows "withinLimit opts t (snd (setManagedUserStatus actor target st r s))"
proof (rule withinLimit_revoking [OF lim wf setStatus_wfSessions [OF wf] t])
  obtain out s' where p: "setManagedUserStatus actor target st r s = (out, s')" by force
  show "sessionIdsByUserId (snd (setManagedUserStatus actor target st r s)) = sessionIdsByUserId s"
    using p by (cases rule: setStatus_cases) (auto simp: p)
  show "mapGet (sessions s) k = Some f"
    if "mapGet (sessions (snd (setManagedUserStatus actor target st r s))) k = Some f" "s_revokedAt f = None" for k f
    using p that by (cases rule: setStatus_cases) (auto simp: p mapGet_revokeEach split: if_splits)
qed

end
