(* ===== verification/ControlStore.thy ===== *)
theory ControlStore
  imports Sessions
begin

text \<open>
  The control plane store as a whole: the calls a client can make on
  \<open>InMemoryControlPlaneStore\<close> (\<open>memory-store.ts\<close>), sequences of them, the stores they reach, and
  what holds in every store reached. The Knox route resolution reads all tables and is here.
\<close>

section \<open>Knox direct messages\<close>

definition resolveAuthenticatedKnoxDmRoute :: "store_options \<Rightarrow> string \<Rightarrow> mem \<Rightarrow> dm_route" where
  "resolveAuthenticatedKnoxDmRoute opts accountId s =
     (case (case mapGet (userIdByAccountId s) (toLowerCase (trim accountId)) of
              None \<Rightarrow> None | Some userId \<Rightarrow> mapGet (users s) userId) of
        None \<Rightarrow> DmUserNotFound
      | Some user \<Rightarrow>
          if u_status user \<noteq> UserActive then DmAgentUnavailable
          else
            (case (case mapGet (personalBindingIdByUserId s) (u_id user) of
                     None \<Rightarrow> None | Some bid \<Rightarrow> mapGet (bindings s) bid) of
               None \<Rightarrow> DmAgentUnavailable
             | Some binding \<Rightarrow>
                 if \<not> isPersonal binding \<or> b_state binding \<noteq> AgentActive then DmAgentUnavailable
                 else
                   DmResolved user binding (o_buildAgentMainSessionKey opts (b_agentId binding))
                     (case mapGet (executionProfiles s) (b_id binding) of
                        None \<Rightarrow> PlatformServer | Some profile \<Rightarrow> ep_activeTarget profile)))"

section \<open>Calls\<close>

text \<open>The calls that can change the store, each with the time its caller gives it.\<close>

datatype call =
    UpsertPrincipal principal (callTime: int)
  | ReservePersonalAgent string (callTime: int)
  | ReserveKnoxRoomAgent string string (callTime: int)
  | TransitionAgent string provisioning_state (callTime: int) "string option"
  | CreateBrowserSession string string (callTime: int)
  | ResolveBrowserSession string (callTime: int) bool
  | RevokeBrowserSession string (callTime: int)
  | SetManagedUserStatus string string user_status (callTime: int)
  | RecordAuditEvent audit_params (callTime: int)

fun step :: "store_options \<Rightarrow> call \<Rightarrow> mem \<Rightarrow> mem" where
  "step opts (UpsertPrincipal p t) s = snd (upsertPrincipal opts p t s)"
| "step opts (ReservePersonalAgent uid t) s = snd (reservePersonalAgent opts uid t s)"
| "step opts (ReserveKnoxRoomAgent acct room t) s = snd (reserveKnoxRoomAgent opts acct room t s)"
| "step opts (TransitionAgent bid st t fc) s = snd (transitionAgent bid st t fc s)"
| "step opts (CreateBrowserSession uid th t) s = snd (createBrowserSession opts uid th t s)"
| "step opts (ResolveBrowserSession h t touch) s = snd (resolveBrowserSession opts h t touch s)"
| "step opts (RevokeBrowserSession sid t) s = snd (revokeBrowserSession sid t s)"
| "step opts (SetManagedUserStatus actor target st t) s = snd (setManagedUserStatus actor target st t s)"
| "step opts (RecordAuditEvent ap t) s = snd (recordAuditEvent opts ap s)"

text \<open>A sequence of calls, and the stores a sequence of calls reaches from the empty store.\<close>

definition runCalls :: "store_options \<Rightarrow> call list \<Rightarrow> mem \<Rightarrow> mem" where
  "runCalls opts cs s = fold (step opts) cs s"

inductive reachable :: "store_options \<Rightarrow> mem \<Rightarrow> bool" for opts where
  empty: "reachable opts emptyStore"
| call: "reachable opts s \<Longrightarrow> reachable opts (step opts c s)"

text \<open>
  The stores reached when callers pass times that do not go back, with the time of the last call.
\<close>

inductive reachableAt :: "store_options \<Rightarrow> int \<Rightarrow> mem \<Rightarrow> bool" for opts where
  empty: "reachableAt opts t emptyStore"
| call: "reachableAt opts t s \<Longrightarrow> t \<le> callTime c \<Longrightarrow> reachableAt opts (callTime c) (step opts c s)"

lemma runCalls_Nil [simp]: "runCalls opts [] s = s"
  and runCalls_Cons [simp]: "runCalls opts (c # cs) s = runCalls opts cs (step opts c s)"
  and runCalls_append: "runCalls opts (cs @ ds) s = runCalls opts ds (runCalls opts cs s)"
  by (simp_all add: runCalls_def)

lemma reachable_runCalls: "reachable opts s \<Longrightarrow> reachable opts (runCalls opts cs s)"
  by (induction cs arbitrary: s) (auto intro: reachable.call)

lemma reachableAt_reachable: "reachableAt opts t s \<Longrightarrow> reachable opts s"
  by (induction rule: reachableAt.induct) (auto intro: reachable.intros)

text \<open>A property kept by every call holds after every sequence of calls.\<close>

lemma runCalls_keeps:
  assumes "\<And>c s. P s \<Longrightarrow> P (step opts c s)" and "P s"
  shows "P (runCalls opts cs s)"
  using assms(2) by (induction cs arbitrary: s) (auto intro: assms(1))

section \<open>What each call leaves alone\<close>

lemma reservePersonal_leaves [simp]:
  shows "users (snd (reservePersonalAgent opts uid t s)) = users s"
    and "userIdByAccountId (snd (reservePersonalAgent opts uid t s)) = userIdByAccountId s"
    and "userIdByEmployeeId (snd (reservePersonalAgent opts uid t s)) = userIdByEmployeeId s"
    and "identities (snd (reservePersonalAgent opts uid t s)) = identities s"
    and "roomBindingIdByKey (snd (reservePersonalAgent opts uid t s)) = roomBindingIdByKey s"
    and "sessions (snd (reservePersonalAgent opts uid t s)) = sessions s"
    and "sessionIdByTokenHash (snd (reservePersonalAgent opts uid t s)) = sessionIdByTokenHash s"
    and "sessionIdsByUserId (snd (reservePersonalAgent opts uid t s)) = sessionIdsByUserId s"
    and "auditEvents (snd (reservePersonalAgent opts uid t s)) = auditEvents s"
    and "issued s \<le> issued (snd (reservePersonalAgent opts uid t s))"
proof -
  obtain out s' where p: "reservePersonalAgent opts uid t s = (out, s')" by force
  from p have *: "users s' = users s \<and> userIdByAccountId s' = userIdByAccountId s
      \<and> userIdByEmployeeId s' = userIdByEmployeeId s \<and> identities s' = identities s
      \<and> roomBindingIdByKey s' = roomBindingIdByKey s \<and> sessions s' = sessions s
      \<and> sessionIdByTokenHash s' = sessionIdByTokenHash s
      \<and> sessionIdsByUserId s' = sessionIdsByUserId s \<and> auditEvents s' = auditEvents s
      \<and> issued s \<le> issued s'"
    by (cases rule: reservePersonal_cases) auto
  show "users (snd (reservePersonalAgent opts uid t s)) = users s"
    "userIdByAccountId (snd (reservePersonalAgent opts uid t s)) = userIdByAccountId s"
    "userIdByEmployeeId (snd (reservePersonalAgent opts uid t s)) = userIdByEmployeeId s"
    "identities (snd (reservePersonalAgent opts uid t s)) = identities s"
    "roomBindingIdByKey (snd (reservePersonalAgent opts uid t s)) = roomBindingIdByKey s"
    "sessions (snd (reservePersonalAgent opts uid t s)) = sessions s"
    "sessionIdByTokenHash (snd (reservePersonalAgent opts uid t s)) = sessionIdByTokenHash s"
    "sessionIdsByUserId (snd (reservePersonalAgent opts uid t s)) = sessionIdsByUserId s"
    "auditEvents (snd (reservePersonalAgent opts uid t s)) = auditEvents s"
    "issued s \<le> issued (snd (reservePersonalAgent opts uid t s))"
    using * by (simp_all only: p snd_conv)
qed

lemma reserveRoom_leaves [simp]:
  shows "users (snd (reserveKnoxRoomAgent opts acct room t s)) = users s"
    and "userIdByAccountId (snd (reserveKnoxRoomAgent opts acct room t s)) = userIdByAccountId s"
    and "userIdByEmployeeId (snd (reserveKnoxRoomAgent opts acct room t s)) = userIdByEmployeeId s"
    and "identities (snd (reserveKnoxRoomAgent opts acct room t s)) = identities s"
    and "personalBindingIdByUserId (snd (reserveKnoxRoomAgent opts acct room t s)) = personalBindingIdByUserId s"
    and "executionProfiles (snd (reserveKnoxRoomAgent opts acct room t s)) = executionProfiles s"
    and "sessions (snd (reserveKnoxRoomAgent opts acct room t s)) = sessions s"
    and "sessionIdByTokenHash (snd (reserveKnoxRoomAgent opts acct room t s)) = sessionIdByTokenHash s"
    and "sessionIdsByUserId (snd (reserveKnoxRoomAgent opts acct room t s)) = sessionIdsByUserId s"
    and "auditEvents (snd (reserveKnoxRoomAgent opts acct room t s)) = auditEvents s"
    and "issued s \<le> issued (snd (reserveKnoxRoomAgent opts acct room t s))"
proof -
  obtain out s' where p: "reserveKnoxRoomAgent opts acct room t s = (out, s')" by force
  from p have *: "users s' = users s \<and> userIdByAccountId s' = userIdByAccountId s
      \<and> userIdByEmployeeId s' = userIdByEmployeeId s \<and> identities s' = identities s
      \<and> personalBindingIdByUserId s' = personalBindingIdByUserId s
      \<and> executionProfiles s' = executionProfiles s \<and> sessions s' = sessions s
      \<and> sessionIdByTokenHash s' = sessionIdByTokenHash s
      \<and> sessionIdsByUserId s' = sessionIdsByUserId s \<and> auditEvents s' = auditEvents s
      \<and> issued s \<le> issued s'"
    by (cases rule: reserveRoom_cases) auto
  show "users (snd (reserveKnoxRoomAgent opts acct room t s)) = users s"
    "userIdByAccountId (snd (reserveKnoxRoomAgent opts acct room t s)) = userIdByAccountId s"
    "userIdByEmployeeId (snd (reserveKnoxRoomAgent opts acct room t s)) = userIdByEmployeeId s"
    "identities (snd (reserveKnoxRoomAgent opts acct room t s)) = identities s"
    "personalBindingIdByUserId (snd (reserveKnoxRoomAgent opts acct room t s)) = personalBindingIdByUserId s"
    "executionProfiles (snd (reserveKnoxRoomAgent opts acct room t s)) = executionProfiles s"
    "sessions (snd (reserveKnoxRoomAgent opts acct room t s)) = sessions s"
    "sessionIdByTokenHash (snd (reserveKnoxRoomAgent opts acct room t s)) = sessionIdByTokenHash s"
    "sessionIdsByUserId (snd (reserveKnoxRoomAgent opts acct room t s)) = sessionIdsByUserId s"
    "auditEvents (snd (reserveKnoxRoomAgent opts acct room t s)) = auditEvents s"
    "issued s \<le> issued (snd (reserveKnoxRoomAgent opts acct room t s))"
    using * by (simp_all only: p snd_conv)
qed

lemma transition_leaves [simp]:
  shows "users (snd (transitionAgent bid st t fc s)) = users s"
    and "userIdByAccountId (snd (transitionAgent bid st t fc s)) = userIdByAccountId s"
    and "userIdByEmployeeId (snd (transitionAgent bid st t fc s)) = userIdByEmployeeId s"
    and "identities (snd (transitionAgent bid st t fc s)) = identities s"
    and "personalBindingIdByUserId (snd (transitionAgent bid st t fc s)) = personalBindingIdByUserId s"
    and "roomBindingIdByKey (snd (transitionAgent bid st t fc s)) = roomBindingIdByKey s"
    and "bindingIdByAgentId (snd (transitionAgent bid st t fc s)) = bindingIdByAgentId s"
    and "executionProfiles (snd (transitionAgent bid st t fc s)) = executionProfiles s"
    and "sessions (snd (transitionAgent bid st t fc s)) = sessions s"
    and "sessionIdByTokenHash (snd (transitionAgent bid st t fc s)) = sessionIdByTokenHash s"
    and "sessionIdsByUserId (snd (transitionAgent bid st t fc s)) = sessionIdsByUserId s"
    and "auditEvents (snd (transitionAgent bid st t fc s)) = auditEvents s"
    and "issued s \<le> issued (snd (transitionAgent bid st t fc s))"
proof -
  obtain out s' where p: "transitionAgent bid st t fc s = (out, s')" by force
  from p have *: "users s' = users s \<and> userIdByAccountId s' = userIdByAccountId s
      \<and> userIdByEmployeeId s' = userIdByEmployeeId s \<and> identities s' = identities s
      \<and> personalBindingIdByUserId s' = personalBindingIdByUserId s
      \<and> roomBindingIdByKey s' = roomBindingIdByKey s
      \<and> bindingIdByAgentId s' = bindingIdByAgentId s \<and> executionProfiles s' = executionProfiles s
      \<and> sessions s' = sessions s \<and> sessionIdByTokenHash s' = sessionIdByTokenHash s
      \<and> sessionIdsByUserId s' = sessionIdsByUserId s \<and> auditEvents s' = auditEvents s
      \<and> issued s \<le> issued s'"
    by (cases rule: transition_cases) auto
  show "users (snd (transitionAgent bid st t fc s)) = users s"
    "userIdByAccountId (snd (transitionAgent bid st t fc s)) = userIdByAccountId s"
    "userIdByEmployeeId (snd (transitionAgent bid st t fc s)) = userIdByEmployeeId s"
    "identities (snd (transitionAgent bid st t fc s)) = identities s"
    "personalBindingIdByUserId (snd (transitionAgent bid st t fc s)) = personalBindingIdByUserId s"
    "roomBindingIdByKey (snd (transitionAgent bid st t fc s)) = roomBindingIdByKey s"
    "bindingIdByAgentId (snd (transitionAgent bid st t fc s)) = bindingIdByAgentId s"
    "executionProfiles (snd (transitionAgent bid st t fc s)) = executionProfiles s"
    "sessions (snd (transitionAgent bid st t fc s)) = sessions s"
    "sessionIdByTokenHash (snd (transitionAgent bid st t fc s)) = sessionIdByTokenHash s"
    "sessionIdsByUserId (snd (transitionAgent bid st t fc s)) = sessionIdsByUserId s"
    "auditEvents (snd (transitionAgent bid st t fc s)) = auditEvents s"
    "issued s \<le> issued (snd (transitionAgent bid st t fc s))"
    using * by (simp_all only: p snd_conv)
qed

lemma createSession_leaves [simp]:
  shows "users (snd (createBrowserSession opts uid th t s)) = users s"
    and "userIdByAccountId (snd (createBrowserSession opts uid th t s)) = userIdByAccountId s"
    and "userIdByEmployeeId (snd (createBrowserSession opts uid th t s)) = userIdByEmployeeId s"
    and "identities (snd (createBrowserSession opts uid th t s)) = identities s"
    and "bindings (snd (createBrowserSession opts uid th t s)) = bindings s"
    and "personalBindingIdByUserId (snd (createBrowserSession opts uid th t s)) = personalBindingIdByUserId s"
    and "roomBindingIdByKey (snd (createBrowserSession opts uid th t s)) = roomBindingIdByKey s"
    and "bindingIdByAgentId (snd (createBrowserSession opts uid th t s)) = bindingIdByAgentId s"
    and "executionProfiles (snd (createBrowserSession opts uid th t s)) = executionProfiles s"
    and "auditEvents (snd (createBrowserSession opts uid th t s)) = auditEvents s"
    and "issued s \<le> issued (snd (createBrowserSession opts uid th t s))"
proof -
  obtain out s' where p: "createBrowserSession opts uid th t s = (out, s')" by force
  from p have *: "users s' = users s \<and> userIdByAccountId s' = userIdByAccountId s
      \<and> userIdByEmployeeId s' = userIdByEmployeeId s \<and> identities s' = identities s
      \<and> bindings s' = bindings s \<and> personalBindingIdByUserId s' = personalBindingIdByUserId s
      \<and> roomBindingIdByKey s' = roomBindingIdByKey s
      \<and> bindingIdByAgentId s' = bindingIdByAgentId s \<and> executionProfiles s' = executionProfiles s
      \<and> auditEvents s' = auditEvents s \<and> issued s \<le> issued s'"
    by (cases rule: createSession_cases) auto
  show "users (snd (createBrowserSession opts uid th t s)) = users s"
    "userIdByAccountId (snd (createBrowserSession opts uid th t s)) = userIdByAccountId s"
    "userIdByEmployeeId (snd (createBrowserSession opts uid th t s)) = userIdByEmployeeId s"
    "identities (snd (createBrowserSession opts uid th t s)) = identities s"
    "bindings (snd (createBrowserSession opts uid th t s)) = bindings s"
    "personalBindingIdByUserId (snd (createBrowserSession opts uid th t s)) = personalBindingIdByUserId s"
    "roomBindingIdByKey (snd (createBrowserSession opts uid th t s)) = roomBindingIdByKey s"
    "bindingIdByAgentId (snd (createBrowserSession opts uid th t s)) = bindingIdByAgentId s"
    "executionProfiles (snd (createBrowserSession opts uid th t s)) = executionProfiles s"
    "auditEvents (snd (createBrowserSession opts uid th t s)) = auditEvents s"
    "issued s \<le> issued (snd (createBrowserSession opts uid th t s))"
    using * by (simp_all only: p snd_conv)
qed

lemma resolve_leaves [simp]:
  shows "users (snd (resolveBrowserSession opts h t touch s)) = users s"
    and "userIdByAccountId (snd (resolveBrowserSession opts h t touch s)) = userIdByAccountId s"
    and "userIdByEmployeeId (snd (resolveBrowserSession opts h t touch s)) = userIdByEmployeeId s"
    and "identities (snd (resolveBrowserSession opts h t touch s)) = identities s"
    and "bindings (snd (resolveBrowserSession opts h t touch s)) = bindings s"
    and "personalBindingIdByUserId (snd (resolveBrowserSession opts h t touch s)) = personalBindingIdByUserId s"
    and "roomBindingIdByKey (snd (resolveBrowserSession opts h t touch s)) = roomBindingIdByKey s"
    and "bindingIdByAgentId (snd (resolveBrowserSession opts h t touch s)) = bindingIdByAgentId s"
    and "executionProfiles (snd (resolveBrowserSession opts h t touch s)) = executionProfiles s"
    and "sessionIdByTokenHash (snd (resolveBrowserSession opts h t touch s)) = sessionIdByTokenHash s"
    and "sessionIdsByUserId (snd (resolveBrowserSession opts h t touch s)) = sessionIdsByUserId s"
    and "auditEvents (snd (resolveBrowserSession opts h t touch s)) = auditEvents s"
    and "issued s \<le> issued (snd (resolveBrowserSession opts h t touch s))"
proof -
  obtain out s' where p: "resolveBrowserSession opts h t touch s = (out, s')" by force
  from p have *: "users s' = users s \<and> userIdByAccountId s' = userIdByAccountId s
      \<and> userIdByEmployeeId s' = userIdByEmployeeId s \<and> identities s' = identities s
      \<and> bindings s' = bindings s \<and> personalBindingIdByUserId s' = personalBindingIdByUserId s
      \<and> roomBindingIdByKey s' = roomBindingIdByKey s
      \<and> bindingIdByAgentId s' = bindingIdByAgentId s \<and> executionProfiles s' = executionProfiles s
      \<and> sessionIdByTokenHash s' = sessionIdByTokenHash s
      \<and> sessionIdsByUserId s' = sessionIdsByUserId s \<and> auditEvents s' = auditEvents s
      \<and> issued s \<le> issued s'"
    by (cases rule: resolve_cases) auto
  show "users (snd (resolveBrowserSession opts h t touch s)) = users s"
    "userIdByAccountId (snd (resolveBrowserSession opts h t touch s)) = userIdByAccountId s"
    "userIdByEmployeeId (snd (resolveBrowserSession opts h t touch s)) = userIdByEmployeeId s"
    "identities (snd (resolveBrowserSession opts h t touch s)) = identities s"
    "bindings (snd (resolveBrowserSession opts h t touch s)) = bindings s"
    "personalBindingIdByUserId (snd (resolveBrowserSession opts h t touch s)) = personalBindingIdByUserId s"
    "roomBindingIdByKey (snd (resolveBrowserSession opts h t touch s)) = roomBindingIdByKey s"
    "bindingIdByAgentId (snd (resolveBrowserSession opts h t touch s)) = bindingIdByAgentId s"
    "executionProfiles (snd (resolveBrowserSession opts h t touch s)) = executionProfiles s"
    "sessionIdByTokenHash (snd (resolveBrowserSession opts h t touch s)) = sessionIdByTokenHash s"
    "sessionIdsByUserId (snd (resolveBrowserSession opts h t touch s)) = sessionIdsByUserId s"
    "auditEvents (snd (resolveBrowserSession opts h t touch s)) = auditEvents s"
    "issued s \<le> issued (snd (resolveBrowserSession opts h t touch s))"
    using * by (simp_all only: p snd_conv)
qed

lemma setStatus_leaves [simp]:
  shows "userIdByAccountId (snd (setManagedUserStatus actor target st t s)) = userIdByAccountId s"
    and "userIdByEmployeeId (snd (setManagedUserStatus actor target st t s)) = userIdByEmployeeId s"
    and "identities (snd (setManagedUserStatus actor target st t s)) = identities s"
    and "bindings (snd (setManagedUserStatus actor target st t s)) = bindings s"
    and "personalBindingIdByUserId (snd (setManagedUserStatus actor target st t s)) = personalBindingIdByUserId s"
    and "roomBindingIdByKey (snd (setManagedUserStatus actor target st t s)) = roomBindingIdByKey s"
    and "bindingIdByAgentId (snd (setManagedUserStatus actor target st t s)) = bindingIdByAgentId s"
    and "executionProfiles (snd (setManagedUserStatus actor target st t s)) = executionProfiles s"
    and "sessionIdByTokenHash (snd (setManagedUserStatus actor target st t s)) = sessionIdByTokenHash s"
    and "sessionIdsByUserId (snd (setManagedUserStatus actor target st t s)) = sessionIdsByUserId s"
    and "auditEvents (snd (setManagedUserStatus actor target st t s)) = auditEvents s"
    and "issued s \<le> issued (snd (setManagedUserStatus actor target st t s))"
proof -
  obtain out s' where p: "setManagedUserStatus actor target st t s = (out, s')" by force
  from p have *: "userIdByAccountId s' = userIdByAccountId s
      \<and> userIdByEmployeeId s' = userIdByEmployeeId s \<and> identities s' = identities s
      \<and> bindings s' = bindings s \<and> personalBindingIdByUserId s' = personalBindingIdByUserId s
      \<and> roomBindingIdByKey s' = roomBindingIdByKey s
      \<and> bindingIdByAgentId s' = bindingIdByAgentId s \<and> executionProfiles s' = executionProfiles s
      \<and> sessionIdByTokenHash s' = sessionIdByTokenHash s
      \<and> sessionIdsByUserId s' = sessionIdsByUserId s \<and> auditEvents s' = auditEvents s
      \<and> issued s \<le> issued s'"
    by (cases rule: setStatus_cases) auto
  show "userIdByAccountId (snd (setManagedUserStatus actor target st t s)) = userIdByAccountId s"
    "userIdByEmployeeId (snd (setManagedUserStatus actor target st t s)) = userIdByEmployeeId s"
    "identities (snd (setManagedUserStatus actor target st t s)) = identities s"
    "bindings (snd (setManagedUserStatus actor target st t s)) = bindings s"
    "personalBindingIdByUserId (snd (setManagedUserStatus actor target st t s)) = personalBindingIdByUserId s"
    "roomBindingIdByKey (snd (setManagedUserStatus actor target st t s)) = roomBindingIdByKey s"
    "bindingIdByAgentId (snd (setManagedUserStatus actor target st t s)) = bindingIdByAgentId s"
    "executionProfiles (snd (setManagedUserStatus actor target st t s)) = executionProfiles s"
    "sessionIdByTokenHash (snd (setManagedUserStatus actor target st t s)) = sessionIdByTokenHash s"
    "sessionIdsByUserId (snd (setManagedUserStatus actor target st t s)) = sessionIdsByUserId s"
    "auditEvents (snd (setManagedUserStatus actor target st t s)) = auditEvents s"
    "issued s \<le> issued (snd (setManagedUserStatus actor target st t s))"
    using * by (simp_all only: p snd_conv)
qed

lemma upsert_leaves [simp]:
  shows "bindings (snd (upsertPrincipal opts p t s)) = bindings s"
    and "personalBindingIdByUserId (snd (upsertPrincipal opts p t s)) = personalBindingIdByUserId s"
    and "roomBindingIdByKey (snd (upsertPrincipal opts p t s)) = roomBindingIdByKey s"
    and "bindingIdByAgentId (snd (upsertPrincipal opts p t s)) = bindingIdByAgentId s"
    and "executionProfiles (snd (upsertPrincipal opts p t s)) = executionProfiles s"
    and "sessions (snd (upsertPrincipal opts p t s)) = sessions s"
    and "sessionIdByTokenHash (snd (upsertPrincipal opts p t s)) = sessionIdByTokenHash s"
    and "sessionIdsByUserId (snd (upsertPrincipal opts p t s)) = sessionIdsByUserId s"
    and "auditEvents (snd (upsertPrincipal opts p t s)) = auditEvents s"
    and "issued s \<le> issued (snd (upsertPrincipal opts p t s))"
proof -
  obtain out s' where p: "upsertPrincipal opts p t s = (out, s')" by force
  have *: "bindings s' = bindings s \<and> personalBindingIdByUserId s' = personalBindingIdByUserId s
      \<and> roomBindingIdByKey s' = roomBindingIdByKey s
      \<and> bindingIdByAgentId s' = bindingIdByAgentId s \<and> executionProfiles s' = executionProfiles s
      \<and> sessions s' = sessions s \<and> sessionIdByTokenHash s' = sessionIdByTokenHash s
      \<and> sessionIdsByUserId s' = sessionIdsByUserId s \<and> auditEvents s' = auditEvents s
      \<and> issued s \<le> issued s'"
  proof (cases out)
    case (Inl e)
    from upsert_error_unchanged [OF p [unfolded this]] show ?thesis by simp
  next
    case (Inr r)
    from p [unfolded this] show ?thesis by (cases rule: upsert_cases) simp_all
  qed
  show "bindings (snd (upsertPrincipal opts p t s)) = bindings s"
    "personalBindingIdByUserId (snd (upsertPrincipal opts p t s)) = personalBindingIdByUserId s"
    "roomBindingIdByKey (snd (upsertPrincipal opts p t s)) = roomBindingIdByKey s"
    "bindingIdByAgentId (snd (upsertPrincipal opts p t s)) = bindingIdByAgentId s"
    "executionProfiles (snd (upsertPrincipal opts p t s)) = executionProfiles s"
    "sessions (snd (upsertPrincipal opts p t s)) = sessions s"
    "sessionIdByTokenHash (snd (upsertPrincipal opts p t s)) = sessionIdByTokenHash s"
    "sessionIdsByUserId (snd (upsertPrincipal opts p t s)) = sessionIdsByUserId s"
    "auditEvents (snd (upsertPrincipal opts p t s)) = auditEvents s"
    "issued s \<le> issued (snd (upsertPrincipal opts p t s))"
    using * by (simp_all only: p snd_conv)
qed

lemma revoke_leaves [simp]:
  shows "users (snd (revokeBrowserSession sid t s)) = users s"
    and "userIdByAccountId (snd (revokeBrowserSession sid t s)) = userIdByAccountId s"
    and "userIdByEmployeeId (snd (revokeBrowserSession sid t s)) = userIdByEmployeeId s"
    and "identities (snd (revokeBrowserSession sid t s)) = identities s"
    and "bindings (snd (revokeBrowserSession sid t s)) = bindings s"
    and "personalBindingIdByUserId (snd (revokeBrowserSession sid t s)) = personalBindingIdByUserId s"
    and "roomBindingIdByKey (snd (revokeBrowserSession sid t s)) = roomBindingIdByKey s"
    and "bindingIdByAgentId (snd (revokeBrowserSession sid t s)) = bindingIdByAgentId s"
    and "executionProfiles (snd (revokeBrowserSession sid t s)) = executionProfiles s"
    and "sessionIdByTokenHash (snd (revokeBrowserSession sid t s)) = sessionIdByTokenHash s"
    and "sessionIdsByUserId (snd (revokeBrowserSession sid t s)) = sessionIdsByUserId s"
    and "auditEvents (snd (revokeBrowserSession sid t s)) = auditEvents s"
    and "issued s \<le> issued (snd (revokeBrowserSession sid t s))"
  by (simp_all add: revokeBrowserSession_def Let_def split: option.splits)

lemma audit_leaves [simp]:
  shows "users (snd (appendAuditEvent opts ap s)) = users s"
    and "userIdByAccountId (snd (appendAuditEvent opts ap s)) = userIdByAccountId s"
    and "userIdByEmployeeId (snd (appendAuditEvent opts ap s)) = userIdByEmployeeId s"
    and "identities (snd (appendAuditEvent opts ap s)) = identities s"
    and "bindings (snd (appendAuditEvent opts ap s)) = bindings s"
    and "personalBindingIdByUserId (snd (appendAuditEvent opts ap s)) = personalBindingIdByUserId s"
    and "roomBindingIdByKey (snd (appendAuditEvent opts ap s)) = roomBindingIdByKey s"
    and "bindingIdByAgentId (snd (appendAuditEvent opts ap s)) = bindingIdByAgentId s"
    and "executionProfiles (snd (appendAuditEvent opts ap s)) = executionProfiles s"
    and "sessions (snd (appendAuditEvent opts ap s)) = sessions s"
    and "sessionIdByTokenHash (snd (appendAuditEvent opts ap s)) = sessionIdByTokenHash s"
    and "sessionIdsByUserId (snd (appendAuditEvent opts ap s)) = sessionIdsByUserId s"
  using appendAuditEvent_frame [of s opts ap] by (simp_all add: sameTables_def)


lemma record_leaves [simp]:
  "users (snd (recordAuditEvent opts ap s)) = users s"
  "sessions (snd (recordAuditEvent opts ap s)) = sessions s"
  "bindings (snd (recordAuditEvent opts ap s)) = bindings s"
  by (simp_all add: recordAuditEvent_def)

section \<open>What every reached store satisfies\<close>

text \<open>
  The invariants of the directory, the agents and the sessions, and the links between them: the
  user of a session and the owner of a personal binding are users of the directory.
\<close>

definition wfStore :: "store_options \<Rightarrow> mem \<Rightarrow> bool" where
  "wfStore opts s \<longleftrightarrow> wfDirectory opts s \<and> wfAgents opts s \<and> wfSessions opts s
     \<and> (\<forall>k e. mapGet (sessions s) k = Some e \<longrightarrow> mapHas (users s) (s_userId e))
     \<and> (\<forall>k b u. mapGet (bindings s) k = Some b \<longrightarrow> b_owner b = Personal u \<longrightarrow> mapHas (users s) u)"

lemma wfStoreD:
  assumes "wfStore opts s"
  shows "wfDirectory opts s" and "wfAgents opts s" and "wfSessions opts s"
    and "mapGet (sessions s) k = Some e \<Longrightarrow> mapHas (users s) (s_userId e)"
    and "mapGet (bindings s) k = Some b \<Longrightarrow> b_owner b = Personal u \<Longrightarrow> mapHas (users s) u"
  using assms unfolding wfStore_def by blast+

lemma setStatus_users:
  assumes wf: "wfDirectory opts s"
  shows "mapGet (users (snd (setManagedUserStatus actor target st t s))) k =
    (if k = target \<and> (\<exists>u. fst (setManagedUserStatus actor target st t s) = Inr u)
     then map_option (\<lambda>u. u\<lparr>u_status := st, u_updatedAt := t\<rparr>) (mapGet (users s) k)
     else mapGet (users s) k)"
proof -
  obtain out s' where p: "setManagedUserStatus actor target st t s = (out, s')" by force
  from p show ?thesis
  proof (cases rule: setStatus_cases)
    case (refused e)
    with p show ?thesis by simp
  next
    case (changed a u)
    then have "u_id u = target" using wfDirectoryD(1) [OF wf] by blast
    with changed p show ?thesis by simp
  qed
qed

lemma setStatus_wfDirectory:
  assumes wf: "wfDirectory opts s"
  shows "wfDirectory opts (snd (setManagedUserStatus actor target st t s))"
proof -
  obtain out s' where p: "setManagedUserStatus actor target st t s = (out, s')" by force
  from p show ?thesis
  proof (cases rule: setStatus_cases)
    case (refused e)
    with p wf show ?thesis by simp
  next
    case (changed a u)
    then have id: "u_id u = target" using wfDirectoryD(1) [OF wf] by blast
    have "wfDirectory opts (s\<lparr>users := mapSet (users s) (u_id u) (u\<lparr>u_status := st, u_updatedAt := t\<rparr>),
        userIdByEmployeeId := userIdByEmployeeId s\<rparr>)"
      by (rule wfDirectory_replaceUser [OF wf changed(2)]) simp_all
    then have "wfDirectory opts s'"
      by (rule wfDirectory_frame) (simp_all add: changed(7))
    with p show ?thesis by simp
  qed
qed

text \<open>No call removes a user, and no call changes its identity, its role or its creation time.\<close>

lemma step_users:
  assumes wf: "wfDirectory opts s" and fac: "id_factory (o_idFactory opts)"
    and u: "mapGet (users s) k = Some u"
  obtains v where "mapGet (users (step opts c s)) k = Some v" "u_id v = u_id u"
    "u_accountId v = u_accountId u" "u_globalRole v = u_globalRole u" "u_createdAt v = u_createdAt u"
    "u_status v = u_status u \<or> (\<exists>actor t r. c = SetManagedUserStatus actor k (u_status v) t
        \<and> fst (setManagedUserStatus actor k (u_status v) t s) = Inr r)"
proof (cases c)
  case (UpsertPrincipal p t)
  with upsert_keeps_accounts [OF wf fac u, of p t] that show ?thesis by auto
next
  case (SetManagedUserStatus actor target st t)
  with u that show ?thesis
    by (cases "k = target \<and> (\<exists>r. fst (setManagedUserStatus actor target st t s) = Inr r)")
      (auto simp: setStatus_users [OF wf])
qed (use u that in auto)


text \<open>A session of a reached store belongs to a user, whatever call made or changed it.\<close>

lemma step_session_user:
  assumes wf: "wfStore opts s" and fac: "id_factory (o_idFactory opts)"
    and e: "mapGet (sessions (step opts c s)) k = Some e"
  shows "mapHas (users s) (s_userId e)"
proof (cases c)
  case (CreateBrowserSession uid th t)
  obtain out s' where p: "createBrowserSession opts uid th t s = (out, s')" by force
  from p show ?thesis
  proof (cases rule: createSession_cases)
    case kept
    with e p CreateBrowserSession wfStoreD(4) [OF wf] show ?thesis by simp
  next
    case (made user f)
    have "u_id user = uid" using made(1) wfDirectoryD(1) [OF wfStoreD(1) [OF wf]] by blast
    with made e p CreateBrowserSession wfStoreD(4) [OF wf] show ?thesis
      by (auto split: if_splits)
  qed
next
  case (ResolveBrowserSession h t touch)
  obtain out s' where p: "resolveBrowserSession opts h t touch s = (out, s')" by force
  from p show ?thesis
  proof (cases rule: resolve_cases)
    case kept
    with e p ResolveBrowserSession wfStoreD(4) [OF wf] show ?thesis by simp
  next
    case (touched sid f u f1)
    with e p ResolveBrowserSession wfStoreD(4) [OF wf, of k] show ?thesis
      by (auto split: if_splits)
  qed
next
  case (RevokeBrowserSession sid t)
  with e wfStoreD(4) [OF wf] show ?thesis
    by (auto simp: revokeBrowserSession_def Let_def split: option.splits if_splits)
next
  case (SetManagedUserStatus actor target st t)
  obtain out s' where p: "setManagedUserStatus actor target st t s = (out, s')" by force
  from p show ?thesis
    using e p SetManagedUserStatus wfStoreD(4) [OF wf, of k]
    by (cases rule: setStatus_cases) (auto simp: mapGet_revokeEach split: if_splits)
qed (use e wfStoreD(4) [OF wf] in auto)

lemma step_binding_user:
  assumes wf: "wfStore opts s" and b: "mapGet (bindings (step opts c s)) k = Some b"
    and own: "b_owner b = Personal u"
  shows "mapHas (users s) u"
proof (cases c)
  case (ReservePersonalAgent uid t)
  obtain out s' where p: "reservePersonalAgent opts uid t s = (out, s')" by force
  from p show ?thesis
    using b own p ReservePersonalAgent wfStoreD(5) [OF wf, of k b u]
    by (cases rule: reservePersonal_cases) (auto split: if_splits)
next
  case (ReserveKnoxRoomAgent acct room t)
  obtain out s' where p: "reserveKnoxRoomAgent opts acct room t s = (out, s')" by force
  from p show ?thesis
    using b own p ReserveKnoxRoomAgent wfStoreD(5) [OF wf, of k b u]
    by (cases rule: reserveRoom_cases) (auto split: if_splits)
next
  case (TransitionAgent bid st t fc)
  obtain out s' where p: "transitionAgent bid st t fc s = (out, s')" by force
  from transition_allowed [OF p] b TransitionAgent p obtain b0 where
    "mapGet (bindings s) k = Some b0" "b_owner b = b_owner b0" by fastforce
  with own wfStoreD(5) [OF wf] show ?thesis by simp
qed (use b own wfStoreD(5) [OF wf] in auto)

lemma step_wfStore:
  assumes wf: "wfStore opts s" and fac: "id_factory (o_idFactory opts)"
  shows "wfStore opts (step opts c s)"
proof -
  have keep: "mapHas (users (step opts c s)) u" if "mapHas (users s) u" for u
    using that step_users [OF wfStoreD(1) [OF wf] fac] by (metis not_None_eq)
  have "wfDirectory opts (step opts c s)"
    using wfStoreD(1) [OF wf] upsert_wfDirectory [OF _ fac] setStatus_wfDirectory
    by (cases c) (auto simp: recordAuditEvent_def elim!: wfDirectory_frame)
  moreover have "wfAgents opts (step opts c s)"
    using wfStoreD(2) [OF wf] reservePersonal_wfAgents [OF _ fac] reserveRoom_wfAgents [OF _ fac]
      transition_wfAgents
    by (cases c) (auto simp: recordAuditEvent_def elim!: wfAgents_frame)
  moreover have "wfSessions opts (step opts c s)"
    using wfStoreD(3) [OF wf] createSession_wfSessions [OF _ fac] resolve_wfSessions revoke_wfSessions
      setStatus_wfSessions
    by (cases c) (auto simp: recordAuditEvent_def elim!: wfSessions_frame)
  ultimately show ?thesis
    unfolding wfStore_def
    using step_session_user [OF wf fac] step_binding_user [OF wf] keep by blast
qed

lemma wfStore_empty: "wfStore opts emptyStore"
  by (simp add: wfStore_def wfDirectory_empty wfAgents_empty wfSessions_empty)
    (simp add: emptyStore_def)

lemma reachable_wfStore:
  assumes "reachable opts s" and "id_factory (o_idFactory opts)"
  shows "wfStore opts s"
  using assms(1) by (induction rule: reachable.induct) (auto intro: wfStore_empty step_wfStore assms(2))

lemma runCalls_wfStore:
  assumes "wfStore opts s" and "id_factory (o_idFactory opts)"
  shows "wfStore opts (runCalls opts cs s)"
  using assms(1) by (induction cs arbitrary: s) (auto intro: step_wfStore assms(2))


section \<open>What sequences of calls keep\<close>

text \<open>A relation between a store and the next one extends to sequences of calls.\<close>

lemma runCalls_relates:
  assumes wf: "wfStore opts s" and fac: "id_factory (o_idFactory opts)"
    and one: "\<And>c s. wfStore opts s \<Longrightarrow> P s \<Longrightarrow> P (step opts c s)" and P: "P s"
  shows "P (runCalls opts cs s)"
  using wf P by (induction cs arbitrary: s) (auto intro: one step_wfStore [OF _ fac])

text \<open>A session that is revoked stays revoked, with the same token.\<close>

definition revokedSession :: "string \<Rightarrow> string \<Rightarrow> mem \<Rightarrow> bool" where
  "revokedSession k h s \<longleftrightarrow>
     (\<exists>e. mapGet (sessions s) k = Some e \<and> s_tokenHash e = h \<and> s_revokedAt e \<noteq> None)"

lemma step_revokedSession:
  assumes wf: "wfStore opts s" and fac: "id_factory (o_idFactory opts)" and rev: "revokedSession k h s"
  shows "revokedSession k h (step opts c s)"
proof -
  obtain e where e: "mapGet (sessions s) k = Some e" "s_tokenHash e = h" "s_revokedAt e \<noteq> None"
    using rev unfolding revokedSession_def by blast
  show ?thesis
  proof (cases c)
    case (CreateBrowserSession uid th t)
    obtain out s' where p: "createBrowserSession opts uid th t s = (out, s')" by force
    from p show ?thesis
    proof (cases rule: createSession_cases)
      case kept
      with rev p CreateBrowserSession show ?thesis by simp
    next
      case (made user f)
      have "k \<noteq> s_id f"
        using wfSessionsD(2) [OF wfStoreD(3) [OF wf] e(1)] not_issuedId_next [OF fac] made(6) by auto
      with made p CreateBrowserSession e show ?thesis by (simp add: revokedSession_def)
    qed
  next
    case (ResolveBrowserSession h' t touch)
    obtain out s' where p: "resolveBrowserSession opts h' t touch s = (out, s')" by force
    from p show ?thesis
    proof (cases rule: resolve_cases)
      case kept
      with rev p ResolveBrowserSession show ?thesis by simp
    next
      case (touched sid f u f1)
      have "s_id f = sid" using wfSessionsD(1) [OF wfStoreD(3) [OF wf] touched(3)] .
      with touched e p ResolveBrowserSession show ?thesis
        by (auto simp: revokedSession_def isLive_def)
    qed
  next
    case (RevokeBrowserSession sid t)
    with e show ?thesis
      by (auto simp: revokedSession_def revokeBrowserSession_def Let_def split: option.splits)
  next
    case (SetManagedUserStatus actor target st t)
    obtain out s' where p: "setManagedUserStatus actor target st t s = (out, s')" by force
    from p show ?thesis
      using e p SetManagedUserStatus
      by (cases rule: setStatus_cases) (auto simp: revokedSession_def mapGet_revokeEach)
  qed (use rev in \<open>auto simp: revokedSession_def\<close>)
qed

lemma runCalls_revokedSession:
  assumes "wfStore opts s" and "id_factory (o_idFactory opts)" and "revokedSession k h s"
  shows "revokedSession k h (runCalls opts cs s)"
  using runCalls_relates [where P = "revokedSession k h", OF assms(1,2) step_revokedSession [OF _ assms(2)] assms(3)] .

lemma revokedSession_not_active:
  assumes wf: "wfStore opts s" and rev: "revokedSession k h s"
    and act: "fst (resolveBrowserSession opts h t touch s) = Inr (ResActive e u)"
  shows False
proof -
  obtain out s' where p: "resolveBrowserSession opts h t touch s = (out, s')" by force
  obtain f where f: "mapGet (sessions s) k = Some f" "s_tokenHash f = h" "s_revokedAt f \<noteq> None"
    using rev unfolding revokedSession_def by blast
  then have "mapGet (sessionIdByTokenHash s) h = Some k"
    using wfSessionsD(3) [OF wfStoreD(3) [OF wf] f(1)] by simp
  with p act f show False
    by (simp add: resolveBrowserSession_def)
qed

text \<open>Bindings stay where they are, with the owner and the agent id they were made with.\<close>

lemma step_binding:
  assumes wf: "wfStore opts s" and fac: "id_factory (o_idFactory opts)"
    and b: "mapGet (bindings s) k = Some b"
  obtains b' where "mapGet (bindings (step opts c s)) k = Some b'" "b_owner b' = b_owner b"
    "b_agentId b' = b_agentId b" "b_createdAt b' = b_createdAt b"
    "b_state b' = b_state b \<or> b_state b' \<in> set (allowedAgentTransitions (b_state b))"
proof (cases c)
  case (ReservePersonalAgent uid t)
  obtain out s' where p: "reservePersonalAgent opts uid t s = (out, s')" by force
  from p show ?thesis
  proof (cases rule: reservePersonal_cases)
    case (made user f)
    have "k \<noteq> b_id f"
      using wfAgentsD(3) [OF wfStoreD(2) [OF wf] b] not_issuedId_next [OF fac] made(6) by auto
    with made p b ReservePersonalAgent that show ?thesis by simp
  qed (use p b ReservePersonalAgent that in auto)
next
  case (ReserveKnoxRoomAgent acct room t)
  obtain out s' where p: "reserveKnoxRoomAgent opts acct room t s = (out, s')" by force
  from p show ?thesis
  proof (cases rule: reserveRoom_cases)
    case (made f)
    have "k \<noteq> b_id f"
      using wfAgentsD(3) [OF wfStoreD(2) [OF wf] b] not_issuedId_next [OF fac] made(3) by auto
    with made p b ReserveKnoxRoomAgent that show ?thesis by simp
  qed (use p b ReserveKnoxRoomAgent that in auto)
next
  case (TransitionAgent bid st t fc)
  obtain out s' where p: "transitionAgent bid st t fc s = (out, s')" by force
  have "\<exists>b'. mapGet (bindings s') k = Some b'"
    using p b by (cases rule: transition_cases) auto
  then obtain b' where b': "mapGet (bindings s') k = Some b'" ..
  with transition_allowed [OF p b'] b p TransitionAgent that show ?thesis by auto
qed (use b that in auto)

lemma step_auditEvents: "prefix (auditEvents s) (auditEvents (step opts c s))"
  by (cases c) (simp_all add: recordAuditEvent_def appendAuditEvent_prefix revokeBrowserSession_def Let_def
      split: option.splits)

text \<open>Administrators are the accounts the options name.\<close>

lemma upsert_users_new:
  assumes wf: "wfDirectory opts s" and u: "mapGet (users (snd (upsertPrincipal opts p t s))) k = Some v"
  shows "(\<exists>u. mapGet (users s) k = Some u \<and> u_globalRole v = u_globalRole u \<and> u_accountId v = u_accountId u)
     \<or> (u_globalRole v = GlobalAdmin \<longrightarrow> u_accountId v \<in> set (adminAccountIds opts))"
proof -
  obtain out s' where p: "upsertPrincipal opts p t s = (out, s')" by force
  show ?thesis
  proof (cases out)
    case (Inl e)
    with p u upsert_error_unchanged show ?thesis by force
  next
    case (Inr r)
    from p [unfolded this] show ?thesis
    proof (cases rule: upsert_cases)
      case (known subject e req ident user user2 idx)
      then have "u_id user = i_userId ident" using wfDirectoryD(1) [OF wf] by blast
      with known p u show ?thesis by (auto split: if_splits)
    next
      case (attached subject e req ident user user2)
      then obtain j where j: "mapGet (users s) j = Some user" by blast
      then have "u_id user = j" using wfDirectoryD(1) [OF wf] by blast
      with attached j p u show ?thesis by (auto split: if_splits)
    next
      case (created subject e req ident user)
      with p u show ?thesis by (auto split: if_splits)
    qed
  qed
qed

lemma step_admins:
  assumes wf: "wfStore opts s"
    and adm: "\<forall>k u. mapGet (users s) k = Some u \<longrightarrow> u_globalRole u = GlobalAdmin \<longrightarrow> u_accountId u \<in> set (adminAccountIds opts)"
    and u: "mapGet (users (step opts c s)) k = Some u" and role: "u_globalRole u = GlobalAdmin"
  shows "u_accountId u \<in> set (adminAccountIds opts)"
proof (cases c)
  case (UpsertPrincipal p t)
  with upsert_users_new [OF wfStoreD(1) [OF wf], of p t k u] u role adm show ?thesis by auto
next
  case (SetManagedUserStatus actor target st t)
  with u role adm show ?thesis
    by (auto simp: setStatus_users [OF wfStoreD(1) [OF wf]] split: if_splits)
qed (use u role adm in auto)


lemma step_withinLimit:
  assumes wf: "wfStore opts s" and fac: "id_factory (o_idFactory opts)"
    and lim: "withinLimit opts now s" and t: "now \<le> callTime c"
  shows "withinLimit opts (callTime c) (step opts c s)"
  using createSession_withinLimit [OF lim wfStoreD(3) [OF wf] fac]
    resolve_withinLimit [OF lim wfStoreD(3) [OF wf]] revoke_withinLimit [OF lim wfStoreD(3) [OF wf]]
    setStatus_withinLimit [OF lim wfStoreD(3) [OF wf]] withinLimit_later [OF lim t] t
  by (cases c) (auto simp: recordAuditEvent_def elim: withinLimit_frame)

lemma reachableAt_withinLimit:
  assumes "reachableAt opts t s" and "id_factory (o_idFactory opts)"
    and "0 \<le> maxConcurrentSessions (o_sessionPolicy opts)"
  shows "withinLimit opts t s"
  using assms(1)
proof (induction rule: reachableAt.induct)
  case (empty t)
  have "countActiveSessions u x emptyStore = 0" for u x
    by (simp add: countActiveSessions_def userSessionIds_def emptyStore_def)
  with assms(3) show ?case by (simp add: withinLimit_def)
next
  case (call t s c)
  show ?case
    using step_withinLimit [OF reachable_wfStore [OF reachableAt_reachable [OF call.hyps(1)] assms(2)]
        assms(2) call.IH call.hyps(2)] .
qed

section \<open>Properties of reached stores\<close>

text \<open>
  C9. Whatever sequence of calls was made, agent ids and owners identify bindings: two bindings
  with the same agent id are the same binding, a user has at most one personal binding, and so has
  a room of an account.
\<close>

theorem bindings_unique:
  assumes "reachable opts s" and "id_factory (o_idFactory opts)"
    and "mapGet (bindings s) j = Some b" and "mapGet (bindings s) k = Some c"
    and "b_agentId b = b_agentId c \<or> b_owner b = b_owner c"
  shows "j = k"
proof -
  have wf: "wfAgents opts s" using wfStoreD(2) [OF reachable_wfStore [OF assms(1,2)]] .
  have "mapGet (bindingIdByAgentId s) (b_agentId b) = Some j" "mapGet (bindingIdByAgentId s) (b_agentId c) = Some k"
    using wfAgentsD(4) [OF wf] assms(3,4) by auto
  moreover have "ownerIndexed s j b" "ownerIndexed s k c"
    using wfAgentsD(5) [OF wf] assms(3,4) by auto
  ultimately show ?thesis
    using assms(5) by (auto simp: ownerIndexed_def split: binding_owner.splits)
qed

text \<open>
  C7. The session limit holds at all times: when callers pass times that do not go back, no user
  ever has more live sessions than the policy allows, now or at any later time.
\<close>

theorem session_limit_holds:
  assumes "reachableAt opts now s" and "id_factory (o_idFactory opts)"
    and "0 \<le> maxConcurrentSessions (o_sessionPolicy opts)" and "now \<le> t"
  shows "int (card {k. \<exists>e. mapGet (sessions s) k = Some e \<and> s_userId e = u \<and> isLive t e})
    \<le> maxConcurrentSessions (o_sessionPolicy opts)"
proof -
  have wf: "wfSessions opts s"
    using wfStoreD(3) [OF reachable_wfStore [OF reachableAt_reachable [OF assms(1)] assms(2)]] .
  have "{k. \<exists>e. mapGet (sessions s) k = Some e \<and> s_userId e = u \<and> isLive t e} = liveIds u t s"
    using wfSessionsD(4,8) [OF wf] by (fastforce simp: liveIds_def)
  then show ?thesis
    using reachableAt_withinLimit [OF assms(1-3)] assms(4)
    by (simp add: withinLimit_def countActive_card [OF wf])
qed

text \<open>
  C5. Revoking is final: after a session is revoked, no sequence of calls makes its token resolve
  to an active session again.
\<close>

theorem revoked_token_stays_dead:
  assumes "reachable opts s" and "id_factory (o_idFactory opts)"
    and "revokeBrowserSession sid r s = (Some e, s')"
  shows "fst (resolveBrowserSession opts (s_tokenHash e) t touch (runCalls opts cs s')) \<noteq> Inr (ResActive f u)"
proof -
  have wf: "wfStore opts s" using reachable_wfStore [OF assms(1,2)] .
  have "step opts (RevokeBrowserSession sid r) s = s'" using assms(3) by simp
  then have wf': "wfStore opts s'" using step_wfStore [OF wf assms(2)] by metis
  have "revokedSession sid (s_tokenHash e) s'"
    using assms(3) by (auto simp: revokedSession_def revokeBrowserSession_def Let_def split: option.splits)
  then have "revokedSession sid (s_tokenHash e) (runCalls opts cs s')"
    using runCalls_revokedSession [OF wf' assms(2)] by blast
  then show ?thesis
    using revokedSession_not_active [OF runCalls_wfStore [OF wf' assms(2)]] by blast
qed

text \<open>
  C8. Disabling an account ends its sessions for good: no token the user held when an administrator
  disabled the account resolves to an active session again, even after the account is enabled.
\<close>

theorem disabled_user_sessions_end:
  assumes "reachable opts s" and "id_factory (o_idFactory opts)"
    and "setManagedUserStatus actor target UserDisabled r s = (Inr user, s')"
    and "mapGet (sessions s) k = Some e" and "s_userId e = target"
  shows "fst (resolveBrowserSession opts (s_tokenHash e) t touch (runCalls opts cs s')) \<noteq> Inr (ResActive f u)"
proof -
  have wf: "wfStore opts s" using reachable_wfStore [OF assms(1,2)] .
  have "step opts (SetManagedUserStatus actor target UserDisabled r) s = s'" using assms(3) by simp
  then have wf': "wfStore opts s'" using step_wfStore [OF wf assms(2)] by metis
  from assms(3) have "revokedSession k (s_tokenHash e) s'"
  proof (cases rule: setStatus_cases)
    case (changed a u)
    have "u_id u = target" using changed(2) wfDirectoryD(1) [OF wfStoreD(1) [OF wf]] by blast
    then have "k \<in> set (userSessionIds (u_id u) s)"
      using wfSessionsD(4) [OF wfStoreD(3) [OF wf] assms(4)] assms(5) by simp
    with changed assms(4) show ?thesis by (auto simp: revokedSession_def mapGet_revokeEach)
  qed simp
  then have "revokedSession k (s_tokenHash e) (runCalls opts cs s')"
    using runCalls_revokedSession [OF wf' assms(2)] by blast
  then show ?thesis
    using revokedSession_not_active [OF runCalls_wfStore [OF wf' assms(2)]] by blast
qed

text \<open>
  C2. A token resolves to an active session exactly when a session with that token exists, is not
  revoked, is before both of its expiry times and belongs to an active user; an active session is
  never older than the absolute timeout. Resolving never throws.
\<close>

theorem resolveBrowserSession_correct:
  assumes "reachable opts s" and "id_factory (o_idFactory opts)"
  shows "((\<exists>f u. fst (resolveBrowserSession opts h t touch s) = Inr (ResActive f u)) \<longleftrightarrow>
      (\<exists>k e u. mapGet (sessions s) k = Some e \<and> s_tokenHash e = h \<and> s_revokedAt e = None
         \<and> t < s_idleExpiresAt e \<and> t < s_createdAt e + absoluteTimeoutMs (o_sessionPolicy opts)
         \<and> mapGet (users s) (s_userId e) = Some u \<and> u_status u = UserActive))
    \<and> (\<exists>res. fst (resolveBrowserSession opts h t touch s) = Inr res)"
    (is "(?active \<longleftrightarrow> ?live) \<and> ?total")
proof
  have wf: "wfStore opts s" using reachable_wfStore [OF assms] .
  note ws = wfSessionsD [OF wfStoreD(3) [OF wf]]
  obtain out s' where p: "resolveBrowserSession opts h t touch s = (out, s')" by force
  show ?total
  proof (rule ccontr)
    assume "\<not> ?total"
    then obtain k e where "mapGet (sessions s) k = Some e" "mapGet (users s) (s_userId e) = None"
      by (auto simp: resolveBrowserSession_def requireUser_def Let_def split: option.splits if_splits)
    with wfStoreD(4) [OF wf] show False by fastforce
  qed
  show "?active \<longleftrightarrow> ?live"
  proof
    assume ?active
    with p obtain f u where a: "out = Inr (ResActive f u)" by auto
    from p obtain k e where "mapGet (sessionIdByTokenHash s) h = Some k" "mapGet (sessions s) k = Some e"
      "isLive t e" "mapGet (users s) (s_userId e) = Some u" "u_status u = UserActive"
      by (cases rule: resolve_cases) (use a in auto)
    moreover from this have "s_tokenHash e = h" using ws(7) by force
    ultimately show ?live
      using ws(6) by (fastforce simp: isLive_def resolveExpiryReason_def split: if_splits)
  next
    assume ?live
    then obtain k e u where k: "mapGet (sessions s) k = Some e" "s_tokenHash e = h" "s_revokedAt e = None"
      "t < s_idleExpiresAt e" "t < s_createdAt e + absoluteTimeoutMs (o_sessionPolicy opts)"
      "mapGet (users s) (s_userId e) = Some u" "u_status u = UserActive" by blast
    then have "mapGet (sessionIdByTokenHash s) h = Some k" using ws(3) by blast
    with k ws(6) [OF k(1)] show ?active
      by (simp add: resolveBrowserSession_def requireUser_def resolveExpiryReason_def Let_def)
  qed
qed


text \<open>A binding and what it may become: nothing changes its owner or agent id, and disabled is final.\<close>

definition descends :: "string \<Rightarrow> agent_binding \<Rightarrow> mem \<Rightarrow> bool" where
  "descends k b s \<longleftrightarrow> (\<exists>b'. mapGet (bindings s) k = Some b' \<and> b_owner b' = b_owner b
     \<and> b_agentId b' = b_agentId b \<and> b_createdAt b' = b_createdAt b
     \<and> (b_state b = AgentDisabled \<longrightarrow> b_state b' = AgentDisabled))"

lemma step_descends:
  assumes wf: "wfStore opts s" and fac: "id_factory (o_idFactory opts)" and d: "descends k b s"
  shows "descends k b (step opts c s)"
proof -
  obtain b1 where b1: "mapGet (bindings s) k = Some b1" "b_owner b1 = b_owner b"
    "b_agentId b1 = b_agentId b" "b_createdAt b1 = b_createdAt b"
    "b_state b = AgentDisabled \<longrightarrow> b_state b1 = AgentDisabled"
    using d unfolding descends_def by blast
  show ?thesis
    using step_binding [OF wf fac b1(1), of c] b1(2-5) by (fastforce simp: descends_def)
qed

text \<open>
  A binding is permanent: after any sequence of calls it is still there, with the owner, the
  agent id and the creation time it was made with, and a disabled binding is never brought back.
\<close>

theorem binding_permanent:
  assumes "reachable opts s" and "id_factory (o_idFactory opts)" and "mapGet (bindings s) k = Some b"
  shows "\<exists>b'. mapGet (bindings (runCalls opts cs s)) k = Some b' \<and> b_owner b' = b_owner b
     \<and> b_agentId b' = b_agentId b \<and> b_createdAt b' = b_createdAt b
     \<and> (b_state b = AgentDisabled \<longrightarrow> b_state b' = AgentDisabled)"
  using runCalls_relates [where P = "descends k b", OF reachable_wfStore [OF assms(1,2)] assms(2)
      step_descends [OF _ assms(2)]] assms(3)
  by (auto simp: descends_def)

definition sameAccount :: "string \<Rightarrow> platform_user \<Rightarrow> mem \<Rightarrow> bool" where
  "sameAccount k u s \<longleftrightarrow> (\<exists>v. mapGet (users s) k = Some v \<and> u_id v = u_id u
     \<and> u_accountId v = u_accountId u \<and> u_globalRole v = u_globalRole u \<and> u_createdAt v = u_createdAt u)"

lemma step_sameAccount:
  assumes "wfStore opts s" and "id_factory (o_idFactory opts)" and "sameAccount k u s"
  shows "sameAccount k u (step opts c s)"
proof -
  obtain v where "mapGet (users s) k = Some v" "u_id v = u_id u" "u_accountId v = u_accountId u"
    "u_globalRole v = u_globalRole u" "u_createdAt v = u_createdAt u"
    using assms(3) unfolding sameAccount_def by blast
  then show ?thesis
    using step_users [OF wfStoreD(1) [OF assms(1)] assms(2), of k v c] by (auto simp: sameAccount_def)
qed

text \<open>
  An account is permanent: no sequence of calls removes a user or changes its id, its account
  id, its role or its creation time.
\<close>

theorem account_permanent:
  assumes "reachable opts s" and "id_factory (o_idFactory opts)" and "mapGet (users s) k = Some u"
  shows "\<exists>v. mapGet (users (runCalls opts cs s)) k = Some v \<and> u_id v = u_id u
     \<and> u_accountId v = u_accountId u \<and> u_globalRole v = u_globalRole u \<and> u_createdAt v = u_createdAt u"
  using runCalls_relates [where P = "sameAccount k u", OF reachable_wfStore [OF assms(1,2)] assms(2)
      step_sameAccount [OF _ assms(2)]] assms(3)
  by (auto simp: sameAccount_def)

text \<open>
  Only an active administrator changes the status of an account, and never its own: whenever a
  call changes the status of a user, the call is the administrator's status change of that user.
\<close>

theorem status_changed_by_admin:
  assumes "reachable opts s" and "id_factory (o_idFactory opts)"
    and "mapGet (users s) k = Some u" and "mapGet (users (step opts c s)) k = Some v"
    and "u_status v \<noteq> u_status u"
  shows "\<exists>actor a t. c = SetManagedUserStatus actor k (u_status v) t
    \<and> mapGet (users s) actor = Some a \<and> u_status a = UserActive \<and> u_globalRole a = GlobalAdmin
    \<and> actor \<noteq> k"
proof -
  have wf: "wfDirectory opts s" using wfStoreD(1) [OF reachable_wfStore [OF assms(1,2)]] .
  obtain w where w: "mapGet (users (step opts c s)) k = Some w"
    "u_status w = u_status u \<or> (\<exists>actor t r. c = SetManagedUserStatus actor k (u_status w) t
        \<and> fst (setManagedUserStatus actor k (u_status w) t s) = Inr r)"
    by (rule step_users [OF wf assms(2,3), where c = c]) (rule that)
  have "w = v" using w(1) assms(4) by simp
  with w(2) assms(5) obtain actor t r where c: "c = SetManagedUserStatus actor k (u_status v) t"
    "fst (setManagedUserStatus actor k (u_status v) t s) = Inr r" by blast
  then have "setManagedUserStatus actor k (u_status v) t s =
      (Inr r, snd (setManagedUserStatus actor k (u_status v) t s))"
    by (simp add: prod_eq_iff)
  then show ?thesis
  proof (cases rule: setStatus_cases)
    case (changed a user)
    have same: "user = u" using changed(2) assms(3) by simp
    have ids: "u_id a = actor" "u_id u = k" using wfDirectoryD(1) [OF wf] changed(1) assms(3) by auto
    have "actor \<noteq> k"
    proof
      assume "actor = k"
      with changed(1,5) same ids assms(3) have "u_status u = u_status v" by simp
      with assms(5) show False by simp
    qed
    with c(1) changed(1,3,4) show ?thesis by blast
  qed simp
qed

text \<open>
  No call makes an administrator of an account the options do not name: in every reached store,
  the account id of an administrator is one of the configured ones.
\<close>

theorem administrators_configured:
  assumes "reachable opts s" and "id_factory (o_idFactory opts)"
    and "mapGet (users s) k = Some u" and "u_globalRole u = GlobalAdmin"
  shows "u_accountId u \<in> set (adminAccountIds opts)"
proof -
  have "\<forall>k u. mapGet (users s) k = Some u \<longrightarrow> u_globalRole u = GlobalAdmin \<longrightarrow> u_accountId u \<in> set (adminAccountIds opts)"
    using assms(1)
  proof (induction rule: reachable.induct)
    case empty
    then show ?case by (simp add: emptyStore_def)
  next
    case (call s c)
    then show ?case using step_admins [OF reachable_wfStore [OF call.hyps assms(2)]] by blast
  qed
  with assms(3,4) show ?thesis by blast
qed

text \<open>
  The audit log only grows: every sequence of calls keeps the events recorded before, in their
  order, and the list a reader gets is the newest events first, at most 500 of them.
\<close>

theorem audit_log_append_only:
  "prefix (auditEvents s) (auditEvents (runCalls opts cs s))
   \<and> prefix (listAuditEvents limit s) (rev (auditEvents s)) \<and> length (listAuditEvents limit s) \<le> 500"
proof (intro conjI)
  show "prefix (auditEvents s) (auditEvents (runCalls opts cs s))"
    by (rule runCalls_keeps [where P = "\<lambda>t. prefix (auditEvents s) (auditEvents t)"])
      (auto intro: prefix_order.trans step_auditEvents)
  show "prefix (listAuditEvents limit s) (rev (auditEvents s))"
    by (simp add: listAuditEvents_def take_is_prefix)
  have "nat (boundedLimit 1 500 100 limit) \<le> 500"
    using boundedLimit_range [of 1 100 500 limit] by linarith
  then show "length (listAuditEvents limit s) \<le> 500"
    by (simp add: listAuditEvents_def)
qed

lemma resolveDm_iff:
  "resolveAuthenticatedKnoxDmRoute opts account s = DmResolved u b key target \<longleftrightarrow>
     getUserByAccountId account s = Some u \<and> u_status u = UserActive
     \<and> (\<exists>bid. mapGet (personalBindingIdByUserId s) (u_id u) = Some bid \<and> mapGet (bindings s) bid = Some b)
     \<and> isPersonal b \<and> b_state b = AgentActive
     \<and> key = o_buildAgentMainSessionKey opts (b_agentId b)
     \<and> target = (case mapGet (executionProfiles s) (b_id b) of
          None \<Rightarrow> PlatformServer | Some profile \<Rightarrow> ep_activeTarget profile)"
  by (auto simp: resolveAuthenticatedKnoxDmRoute_def getUserByAccountId_def split: option.splits)

text \<open>
  A Knox direct message reaches an agent exactly when the account is an active user with an
  active personal binding, and then it is that user's own binding, with the main session key of its
  agent and the execution target of its profile; a disabled user or an agent that is not active is
  never routed.
\<close>

theorem dm_route_correct:
  assumes "reachable opts s" and "id_factory (o_idFactory opts)"
  shows "resolveAuthenticatedKnoxDmRoute opts account s = DmResolved u b key target
    \<longleftrightarrow> getUserByAccountId account s = Some u \<and> u_status u = UserActive
      \<and> mapGet (bindings s) (b_id b) = Some b \<and> b_owner b = Personal (u_id u) \<and> b_state b = AgentActive
      \<and> key = o_buildAgentMainSessionKey opts (b_agentId b)
      \<and> map_option ep_activeTarget (mapGet (executionProfiles s) (b_id b)) = Some target"
proof -
  have wf: "wfAgents opts s" using wfStoreD(2) [OF reachable_wfStore [OF assms]] .
  have idx: "(\<exists>k. mapGet (personalBindingIdByUserId s) v = Some k \<and> mapGet (bindings s) k = Some b) \<and> isPersonal b
      \<longleftrightarrow> mapGet (bindings s) (b_id b) = Some b \<and> b_owner b = Personal v" for v
  proof
    assume "(\<exists>k. mapGet (personalBindingIdByUserId s) v = Some k \<and> mapGet (bindings s) k = Some b) \<and> isPersonal b"
    then obtain k where "mapGet (personalBindingIdByUserId s) v = Some k" "mapGet (bindings s) k = Some b" by blast
    with wfAgentsD(2) [OF wf this(2)] wfAgentsD(8) [OF wf this(1)]
    show "mapGet (bindings s) (b_id b) = Some b \<and> b_owner b = Personal v" by auto
  next
    assume "mapGet (bindings s) (b_id b) = Some b \<and> b_owner b = Personal v"
    with wfAgentsD(5) [OF wf, of "b_id b" b]
    show "(\<exists>k. mapGet (personalBindingIdByUserId s) v = Some k \<and> mapGet (bindings s) k = Some b) \<and> isPersonal b"
      by (simp add: ownerIndexed_def isPersonal_def)
  qed
  have prof: "\<exists>p. mapGet (executionProfiles s) (b_id b) = Some p"
    if "mapGet (bindings s) (b_id b) = Some b" "b_owner b = Personal v" for v
    using wfAgentsD(5) [OF wf that(1)] that(2) by (simp add: ownerIndexed_def)
  show ?thesis
  proof (cases "mapGet (bindings s) (b_id b) = Some b \<and> b_owner b = Personal (u_id u)")
    case True
    then obtain p where "mapGet (executionProfiles s) (b_id b) = Some p" using prof by blast
    with True idx [of "u_id u"] show ?thesis unfolding resolveDm_iff by auto
  next
    case False
    with idx [of "u_id u"] show ?thesis unfolding resolveDm_iff by blast
  qed
qed


section \<open>A concrete run\<close>

text \<open>
  An administrator and a member log in, the member's agent is provisioned and made active, and the
  member opens a session.
\<close>

definition root :: principal where
  "root = \<lparr>p_provider = Ldap, p_subject = ''root'', p_accountId = Some ''ROOT'', p_employeeId = ''E0'',
           p_displayName = None, p_email = None, p_department = None, p_groups = None\<rparr>"

definition demoCalls :: "call list" where
  "demoCalls =
     [UpsertPrincipal root 5, UpsertPrincipal ann 10, ReservePersonalAgent ''user-x'' 11,
      TransitionAgent ''binding-xx'' AgentActive 12 None, CreateBrowserSession ''user-x'' ''tok'' 13]"

definition rootUser :: platform_user where
  "rootUser =
     \<lparr>u_id = ''user-'', u_accountId = ''root'', u_employeeId = ''e0'', u_status = UserActive,
      u_globalRole = GlobalAdmin, u_displayName = None, u_email = None,
      u_department = None, u_timezone = None, u_groups = [], u_createdAt = 5,
      u_updatedAt = 5, u_lastLoginAt = Some 5\<rparr>"

definition annMember :: platform_user where
  "annMember = annUser\<lparr>u_id := ''user-x''\<rparr>"

definition annActive :: agent_binding where
  "annActive = \<lparr>b_id = ''binding-xx'', b_owner = Personal ''user-x'', b_agentId = ''ann'',
     b_state = AgentActive, b_createdAt = 11, b_updatedAt = 12, b_failureCode = None\<rparr>"

definition annSession :: browser_session where
  "annSession = \<lparr>s_id = ''session-xxx'', s_userId = ''user-x'', s_tokenHash = ''tok'', s_createdAt = 13,
     s_lastSeenAt = 13, s_idleExpiresAt = 43200013, s_absoluteExpiresAt = 604800013, s_revokedAt = None\<rparr>"

definition demoStore :: mem where
  "demoStore = \<lparr>users = [(''user-'', rootUser), (''user-x'', annMember)],
     userIdByAccountId = [(''root'', ''user-''), (''ann'', ''user-x'')],
     userIdByEmployeeId = [(''e0'', ''user-''), (''e1'', ''user-x'')],
     identities =
       [(identityKey Ldap ''root'', \<lparr>i_provider = Ldap, i_subject = ''root'', i_userId = ''user-'',
           i_employeeId = ''e0'', i_createdAt = 5, i_lastAuthenticatedAt = 5\<rparr>),
        (identityKey Ldap ''ann'', annIdentity\<lparr>i_userId := ''user-x''\<rparr>)],
     bindings = [(''binding-xx'', annActive)], personalBindingIdByUserId = [(''user-x'', ''binding-xx'')],
     roomBindingIdByKey = [], bindingIdByAgentId = [(''ann'', ''binding-xx'')],
     executionProfiles = [(''binding-xx'', newProfile ''binding-xx'' 11)],
     sessions = [(''session-xxx'', annSession)], sessionIdByTokenHash = [(''tok'', ''session-xxx'')],
     sessionIdsByUserId = [(''user-x'', [''session-xxx''])], auditEvents = [], issued = 4\<rparr>"

lemma demoStore_run: "runCalls demoOptions demoCalls emptyStore = demoStore"
  by code_simp

lemma demoStore_reachable: "reachable demoOptions demoStore"
  using reachable_runCalls [OF reachable.empty, of demoOptions demoCalls] by (simp add: demoStore_run)

lemma demoStore_reachableAt: "reachableAt demoOptions 13 demoStore"
proof -
  have "reachableAt demoOptions 5 (runCalls demoOptions [UpsertPrincipal root 5] emptyStore)"
    using reachableAt.call [OF reachableAt.empty, of 5 "UpsertPrincipal root 5" demoOptions] by simp
  then have "reachableAt demoOptions 10 (runCalls demoOptions [UpsertPrincipal root 5, UpsertPrincipal ann 10] emptyStore)"
    using reachableAt.call [of demoOptions 5 _ "UpsertPrincipal ann 10"] by simp
  then have "reachableAt demoOptions 11 (runCalls demoOptions [UpsertPrincipal root 5, UpsertPrincipal ann 10,
      ReservePersonalAgent ''user-x'' 11] emptyStore)"
    using reachableAt.call [of demoOptions 10 _ "ReservePersonalAgent ''user-x'' 11"] by simp
  then have "reachableAt demoOptions 12 (runCalls demoOptions [UpsertPrincipal root 5, UpsertPrincipal ann 10,
      ReservePersonalAgent ''user-x'' 11, TransitionAgent ''binding-xx'' AgentActive 12 None] emptyStore)"
    using reachableAt.call [of demoOptions 11 _ "TransitionAgent ''binding-xx'' AgentActive 12 None"] by simp
  then have "reachableAt demoOptions 13 (runCalls demoOptions demoCalls emptyStore)"
    using reachableAt.call [of demoOptions 12 _ "CreateBrowserSession ''user-x'' ''tok'' 13"]
    by (simp add: demoCalls_def)
  then show ?thesis by (simp add: demoStore_run)
qed

lemmas demoReach = demoStore_reachable demo_factory

lemma demo_gets:
  "mapGet (users demoStore) ''user-'' = Some rootUser" "mapGet (users demoStore) ''user-x'' = Some annMember"
  "mapGet (bindings demoStore) ''binding-xx'' = Some annActive"
  "mapGet (sessions demoStore) ''session-xxx'' = Some annSession"
  by (simp_all add: demoStore_def)

lemma demo_token: "s_userId annSession = ''user-x''" "s_tokenHash annSession = ''tok''"
  "s_tokenHash (annSession\<lparr>s_revokedAt := r\<rparr>) = ''tok''"
  by (simp_all add: annSession_def)

text \<open>The store with a room beside the personal agent has two bindings, which differ in agent and owner.\<close>

definition roomCall :: call where
  "roomCall = ReserveKnoxRoomAgent ''ann'' ''R1'' 15"

definition roomBinding :: agent_binding where
  "roomBinding = \<lparr>b_id = ''binding-xxxx'', b_owner = KnoxRoom ''ann'' ''R1'', b_agentId = ''group-r1'',
     b_state = Provisioning, b_createdAt = 15, b_updatedAt = 15, b_failureCode = None\<rparr>"

lemma room_gets:
  "mapGet (bindings (step demoOptions roomCall demoStore)) ''binding-xx'' = Some annActive"
  "mapGet (bindings (step demoOptions roomCall demoStore)) ''binding-xxxx'' = Some roomBinding"
  by code_simp+

theorem bindings_unique_witness:
  "b_agentId annActive \<noteq> b_agentId roomBinding \<and> b_owner annActive \<noteq> b_owner roomBinding"
  using bindings_unique [OF reachable.call [OF demoStore_reachable] demo_factory room_gets] by auto

theorem session_limit_holds_witness:
  "card {k. \<exists>e. mapGet (sessions demoStore) k = Some e \<and> s_userId e = ''user-x'' \<and> isLive 20 e} \<le> 3"
proof -
  have "maxConcurrentSessions (o_sessionPolicy demoOptions) = 3"
    by (simp add: demoOptions_def BROWSER_SESSION_POLICY_def)
  then show ?thesis
    using session_limit_holds [OF demoStore_reachableAt demo_factory, of 20 "''user-x''"] by simp
qed

theorem revoked_token_stays_dead_witness:
  "fst (resolveBrowserSession demoOptions ''tok'' 15 True
      (runCalls demoOptions [ResolveBrowserSession ''tok'' 14 True]
        (snd (revokeBrowserSession ''session-xxx'' 14 demoStore)))) \<noteq> Inr (ResActive annSession annMember)"
proof -
  have "revokeBrowserSession ''session-xxx'' 14 demoStore = (Some (annSession\<lparr>s_revokedAt := Some 14\<rparr>),
      snd (revokeBrowserSession ''session-xxx'' 14 demoStore))"
    by (simp add: revokeBrowserSession_def demo_gets annSession_def Let_def)
  from revoked_token_stays_dead [OF demoReach this, unfolded demo_token] show ?thesis by blast
qed

theorem disabled_user_sessions_end_witness:
  "fst (resolveBrowserSession demoOptions ''tok'' 15 True
      (runCalls demoOptions [SetManagedUserStatus ''user-'' ''user-x'' UserActive 14]
        (snd (setManagedUserStatus ''user-'' ''user-x'' UserDisabled 14 demoStore))))
    \<noteq> Inr (ResActive annSession annMember)"
proof -
  have "setManagedUserStatus ''user-'' ''user-x'' UserDisabled 14 demoStore =
      (Inr (annMember\<lparr>u_status := UserDisabled, u_updatedAt := 14\<rparr>),
       snd (setManagedUserStatus ''user-'' ''user-x'' UserDisabled 14 demoStore))"
    by (simp add: setManagedUserStatus_def requireUser_def demo_gets Let_def rootUser_def annMember_def annUser_def)
  from disabled_user_sessions_end [OF demoReach this demo_gets(4) demo_token(1), unfolded demo_token]
  show ?thesis by blast
qed

theorem resolveBrowserSession_correct_witness:
  "\<exists>f u. fst (resolveBrowserSession demoOptions ''tok'' 20 True demoStore) = Inr (ResActive f u)"
proof -
  have "absoluteTimeoutMs (o_sessionPolicy demoOptions) = 604800000"
    by (simp add: demoOptions_def BROWSER_SESSION_POLICY_def)
  then have "\<exists>k e u. mapGet (sessions demoStore) k = Some e \<and> s_tokenHash e = ''tok'' \<and> s_revokedAt e = None
      \<and> 20 < s_idleExpiresAt e \<and> 20 < s_createdAt e + absoluteTimeoutMs (o_sessionPolicy demoOptions)
      \<and> mapGet (users demoStore) (s_userId e) = Some u \<and> u_status u = UserActive"
    using demo_gets(2,4)
    by (intro exI [of _ "''session-xxx''"] exI [of _ annSession] exI [of _ annMember])
      (simp add: annSession_def annMember_def annUser_def)
  then show ?thesis using resolveBrowserSession_correct [OF demoReach, of "''tok''" 20 True] by blast
qed

theorem binding_permanent_witness:
  "\<exists>b'. mapGet (bindings (runCalls demoOptions [TransitionAgent ''binding-xx'' AgentDisabled 14 None] demoStore))
      ''binding-xx'' = Some b' \<and> b_agentId b' = ''ann''"
  using binding_permanent [OF demoReach demo_gets(3), of "[TransitionAgent ''binding-xx'' AgentDisabled 14 None]"]
  by (auto simp: annActive_def)

theorem account_permanent_witness:
  "\<exists>v. mapGet (users (runCalls demoOptions [UpsertPrincipal ann 20] demoStore)) ''user-x'' = Some v
     \<and> u_accountId v = ''ann'' \<and> u_globalRole v = GlobalMember"
  using account_permanent [OF demoReach demo_gets(2), of "[UpsertPrincipal ann 20]"]
  by (auto simp: annMember_def annUser_def)

theorem status_changed_by_admin_witness:
  "\<exists>actor t. SetManagedUserStatus ''user-'' ''user-x'' UserDisabled 14
     = SetManagedUserStatus actor ''user-x'' UserDisabled t \<and> actor \<noteq> ''user-x''"
proof -
  let ?c = "SetManagedUserStatus ''user-'' ''user-x'' UserDisabled 14"
  let ?v = "annMember\<lparr>u_status := UserDisabled, u_updatedAt := 14\<rparr>"
  have "mapGet (users (step demoOptions ?c demoStore)) ''user-x'' = Some ?v"
    by (simp add: setManagedUserStatus_def requireUser_def demo_gets Let_def rootUser_def annMember_def annUser_def)
  moreover have "u_status ?v \<noteq> u_status annMember" by (simp add: annMember_def annUser_def)
  ultimately show ?thesis using status_changed_by_admin [OF demoReach demo_gets(2)] by fastforce
qed

theorem administrators_configured_witness: "''root'' \<in> set (adminAccountIds demoOptions)"
  using administrators_configured [OF demoReach demo_gets(1)] by (simp add: rootUser_def)

theorem dm_route_correct_witness:
  "resolveAuthenticatedKnoxDmRoute demoOptions '' ANN '' demoStore
     = DmResolved annMember annActive ''agent:ann:main'' PlatformServer"
proof -
  have "getUserByAccountId '' ANN '' demoStore = Some annMember"
    by code_simp
  then show ?thesis
    using demo_gets(3)
    by (subst dm_route_correct [OF demoReach])
      (simp add: demoStore_def annMember_def annUser_def annActive_def newProfile_def demoOptions_def)
qed

end
