(* ===== verification/SshCredentials.thy ===== *)
theory SshCredentials
  imports ControlStore "HOL-Library.Word"
begin

text \<open>
  Encrypted SSH credentials: \<open>ssh-credential-memory-store.ts\<close>,
  \<open>ssh-credential-validation.ts\<close> and \<open>ssh-credential-contracts.ts\<close>. The store is a client of
  three operations of its host (who is active, the audit log, fresh ids); they are the locale
  \<open>credential_host\<close>, interpreted on the control plane store.
\<close>

section \<open>Data\<close>

type_synonym byte = "8 word"

record envelope =
  en_ciphertext :: "byte list"
  en_nonce :: "byte list"
  en_authTag :: "byte list"
  en_keyId :: string
  en_formatVersion :: int

datatype credential_status = CredCurrent | CredUpdateRequired

record stored_credential =
  cr_id :: string
  cr_userId :: string
  cr_envelope :: envelope
  cr_revision :: int
  cr_status :: credential_status
  cr_lastAuthFailureAt :: "int option"
  cr_createdAt :: int
  cr_updatedAt :: int

text \<open>The metadata is the credential without the three byte fields of its envelope.\<close>

record credential_metadata =
  cm_id :: string
  cm_userId :: string
  cm_keyId :: string
  cm_formatVersion :: int
  cm_revision :: int
  cm_status :: credential_status
  cm_lastAuthFailureAt :: "int option"
  cm_createdAt :: int
  cm_updatedAt :: int

definition metadata :: "stored_credential \<Rightarrow> credential_metadata" where
  "metadata c =
     \<lparr>cm_id = cr_id c, cm_userId = cr_userId c, cm_keyId = en_keyId (cr_envelope c),
      cm_formatVersion = en_formatVersion (cr_envelope c), cm_revision = cr_revision c,
      cm_status = cr_status c, cm_lastAuthFailureAt = cr_lastAuthFailureAt c,
      cm_createdAt = cr_createdAt c, cm_updatedAt = cr_updatedAt c\<rparr>"

section \<open>Envelopes\<close>

text \<open>The expression \<open>/^sha256:[A-Za-z0-9_-]{43}$/u\<close>.\<close>

definition isKeyIdChar :: "char \<Rightarrow> bool" where
  "isKeyIdChar c \<longleftrightarrow> isAlnumChar c \<or> c = CHR ''_'' \<or> c = CHR ''-''"

definition keyIdRe :: "string \<Rightarrow> bool" where
  "keyIdRe s \<longleftrightarrow> take 7 s = ''sha256:'' \<and> length (drop 7 s) = 43 \<and> list_all isKeyIdChar (drop 7 s)"

definition validateSshCredentialEnvelope :: "envelope \<Rightarrow> error + unit" where
  "validateSshCredentialEnvelope envelope =
     (if en_formatVersion envelope \<noteq> 1
      then Inl (StateError ''unsupported SSH credential format version'' [])
      else if \<not> keyIdRe (en_keyId envelope)
      then Inl (StateError ''SSH credential key id is invalid'' [])
      else if length (en_ciphertext envelope) = 0
      then Inl (StateError ''SSH credential ciphertext must not be empty'' [])
      else if length (en_nonce envelope) \<noteq> 12
      then Inl (StateError ''SSH credential nonce must contain 12 bytes'' [])
      else if length (en_authTag envelope) \<noteq> 16
      then Inl (StateError ''SSH credential authentication tag must contain 16 bytes'' [])
      else Inr ())"

section \<open>The host and the store\<close>

record 'h cred_host =
  ch_isActiveUser :: "'h \<Rightarrow> string \<Rightarrow> bool"
  ch_recordAudit :: "audit_params \<Rightarrow> 'h \<Rightarrow> (error + unit) \<times> 'h"
  ch_nextId :: "'h \<Rightarrow> string \<times> 'h"

text \<open>The credentials by user id, and the state of the host.\<close>

type_synonym 'h cred_state = "(string, stored_credential) jsmap \<times> 'h"

definition requireSelf :: "string \<Rightarrow> string \<Rightarrow> error + unit" where
  "requireSelf actorUserId userId =
     (if actorUserId \<noteq> userId
      then Inl (AuthorizationError ''users may manage only their own SSH credential'') else Inr ())"

definition requireActiveUser :: "'h cred_host \<Rightarrow> string \<Rightarrow> 'h \<Rightarrow> error + unit" where
  "requireActiveUser H userId h =
     (if \<not> ch_isActiveUser H h userId
      then Inl (StateError ''active user required for SSH credential management'' []) else Inr ())"

definition credAudit :: "string option \<Rightarrow> string \<Rightarrow> stored_credential \<Rightarrow> int \<Rightarrow> audit_params" where
  "credAudit actor eventType c at =
     \<lparr>ap_actorUserId = actor, ap_eventType = eventType, ap_targetType = ''ssh-credential'',
      ap_targetId = cr_id c, ap_details = Some [(''revision'', DInt (cr_revision c))], ap_createdAt = at\<rparr>"

definition replaceEncryptedUserSshCredential ::
    "'h cred_host \<Rightarrow> string \<Rightarrow> string \<Rightarrow> envelope \<Rightarrow> int \<Rightarrow> 'h cred_state
     \<Rightarrow> (error + credential_metadata) \<times> 'h cred_state" where
  "replaceEncryptedUserSshCredential H actorUserId userId envelope replacedAt s =
     (case s of (credentials, h) \<Rightarrow>
     orThrow (requireSelf actorUserId userId) s (\<lambda>_.
     orThrow (requireActiveUser H userId h) s (\<lambda>_.
     orThrow (validateSshCredentialEnvelope envelope) s (\<lambda>_.
       let existing = mapGet credentials userId;
           (cid, h1) = (case existing of Some e \<Rightarrow> (cr_id e, h) | None \<Rightarrow> ch_nextId H h);
           stored =
             \<lparr>cr_id = cid, cr_userId = userId, cr_envelope = envelope,
              cr_revision = (case existing of Some e \<Rightarrow> cr_revision e | None \<Rightarrow> 0) + 1,
              cr_status = CredCurrent, cr_lastAuthFailureAt = None,
              cr_createdAt = (case existing of Some e \<Rightarrow> cr_createdAt e | None \<Rightarrow> replacedAt),
              cr_updatedAt = replacedAt\<rparr>;
           credentials1 = mapSet credentials userId stored;
           (audited, h2) =
             ch_recordAudit H
               (credAudit (Some actorUserId)
                 (if existing \<noteq> None then ''ssh-credential.replaced'' else ''ssh-credential.created'')
                 stored replacedAt) h1
       in
       orThrow audited (credentials1, h2) (\<lambda>_. (Inr (metadata stored), (credentials1, h2)))))))"

definition getUserSshCredentialMetadata ::
    "'h cred_host \<Rightarrow> string \<Rightarrow> string \<Rightarrow> 'h cred_state \<Rightarrow> error + credential_metadata option" where
  "getUserSshCredentialMetadata H actorUserId userId s =
     (case requireSelf actorUserId userId of Inl e \<Rightarrow> Inl e | Inr _ \<Rightarrow>
     (case requireActiveUser H userId (snd s) of Inl e \<Rightarrow> Inl e | Inr _ \<Rightarrow>
        Inr (map_option metadata (mapGet (fst s) userId))))"

definition readEncryptedUserSshCredential ::
    "'h cred_host \<Rightarrow> string \<Rightarrow> 'h cred_state \<Rightarrow> error + stored_credential option" where
  "readEncryptedUserSshCredential H userId s =
     (case mapGet (fst s) userId of
        Some stored \<Rightarrow>
          if \<not> ch_isActiveUser H (snd s) userId
          then Inl (StateError ''active user required for SSH credential resolution'' [])
          else Inr (Some stored)
      | None \<Rightarrow> Inr None)"

definition markUserSshCredentialUpdateRequired ::
    "'h cred_host \<Rightarrow> string \<Rightarrow> int \<Rightarrow> int \<Rightarrow> 'h cred_state
     \<Rightarrow> (error + credential_metadata option) \<times> 'h cred_state" where
  "markUserSshCredentialUpdateRequired H userId revision failedAt s =
     (case s of (credentials, h) \<Rightarrow>
      case mapGet credentials userId of
        None \<Rightarrow> (Inr None, s)
      | Some stored \<Rightarrow>
          if cr_revision stored \<noteq> revision then (Inr (Some (metadata stored)), s)
          else
            let stored1 =
                  stored\<lparr>cr_status := CredUpdateRequired, cr_lastAuthFailureAt := Some failedAt,
                         cr_updatedAt := failedAt\<rparr>;
                credentials1 = mapSet credentials userId stored1;
                (audited, h1) =
                  ch_recordAudit H (credAudit None ''ssh-credential.update-required'' stored1 failedAt) h
            in orThrow audited (credentials1, h1)
                 (\<lambda>_. (Inr (Some (metadata stored1)), (credentials1, h1))))"

definition deleteUserSshCredential ::
    "'h cred_host \<Rightarrow> string \<Rightarrow> string \<Rightarrow> int \<Rightarrow> 'h cred_state \<Rightarrow> (error + bool) \<times> 'h cred_state" where
  "deleteUserSshCredential H actorUserId userId deletedAt s =
     (case s of (credentials, h) \<Rightarrow>
     orThrow (requireSelf actorUserId userId) s (\<lambda>_.
     orThrow (requireActiveUser H userId h) s (\<lambda>_.
       case mapGet credentials userId of
         None \<Rightarrow> (Inr False, s)
       | Some stored \<Rightarrow>
           let credentials1 = mapDelete credentials userId;
               (audited, h1) =
                 ch_recordAudit H (credAudit (Some actorUserId) ''ssh-credential.deleted'' stored deletedAt) h
           in orThrow audited (credentials1, h1) (\<lambda>_. (Inr True, (credentials1, h1))))))"

section \<open>The host on the control plane store\<close>

definition isActiveCredentialUser :: "mem \<Rightarrow> string \<Rightarrow> bool" where
  "isActiveCredentialUser s userId =
     (case mapGet (users s) userId of None \<Rightarrow> False | Some u \<Rightarrow> u_status u = UserActive)"

definition recordCredentialAudit :: "store_options \<Rightarrow> audit_params \<Rightarrow> mem \<Rightarrow> (error + unit) \<times> mem" where
  "recordCredentialAudit opts ap s =
     (case appendAuditEvent opts ap s of (Inl e, t) \<Rightarrow> (Inl e, t) | (Inr _, t) \<Rightarrow> (Inr (), t))"

definition memCredHost :: "store_options \<Rightarrow> mem cred_host" where
  "memCredHost opts =
     \<lparr>ch_isActiveUser = isActiveCredentialUser, ch_recordAudit = recordCredentialAudit opts,
      ch_nextId = takeId opts (ExecutionResourceId SshCredentialKind)\<rparr>"

text \<open>Every credential is stored under its user, with a non-blank id and a revision from 1 on.\<close>

definition wfCredentials :: "(string, stored_credential) jsmap \<Rightarrow> bool" where
  "wfCredentials cs \<longleftrightarrow> (\<forall>u c. mapGet cs u = Some c \<longrightarrow>
     cr_userId c = u \<and> trim (cr_id c) \<noteq> [] \<and> 1 \<le> cr_revision c
     \<and> validateSshCredentialEnvelope (cr_envelope c) = Inr ()
     \<and> (cr_status c = CredUpdateRequired \<longleftrightarrow> cr_lastAuthFailureAt c \<noteq> None))"

lemma wfCredentialsD:
  assumes "wfCredentials cs" and "mapGet cs u = Some c"
  shows "cr_userId c = u" "trim (cr_id c) \<noteq> []" "1 \<le> cr_revision c"
    "validateSshCredentialEnvelope (cr_envelope c) = Inr ()"
    "cr_status c = CredUpdateRequired \<longleftrightarrow> cr_lastAuthFailureAt c \<noteq> None"
  using assms unfolding wfCredentials_def by blast+

lemma wfCredentials_put:
  assumes "wfCredentials cs" and "cr_userId c = u" "trim (cr_id c) \<noteq> []" "1 \<le> cr_revision c"
    "validateSshCredentialEnvelope (cr_envelope c) = Inr ()"
    "cr_status c = CredUpdateRequired \<longleftrightarrow> cr_lastAuthFailureAt c \<noteq> None"
  shows "wfCredentials (mapSet cs u c)"
  using assms unfolding wfCredentials_def by auto

section \<open>The interface\<close>

text \<open>
  What the credential store relies on: recording an event and taking an id do not change who is
  active, an event with non-blank fields is recorded without an error, and ids are not blank.
\<close>

locale credential_host =
  fixes H :: "'h cred_host"
  assumes audit_active: "ch_isActiveUser H (snd (ch_recordAudit H ap h)) u = ch_isActiveUser H h u"
    and audit_ok: "trim (ap_eventType ap) \<noteq> [] \<Longrightarrow> trim (ap_targetType ap) \<noteq> [] \<Longrightarrow> trim (ap_targetId ap) \<noteq> []
      \<Longrightarrow> fst (ch_recordAudit H ap h) = Inr ()"
    and id_active: "ch_isActiveUser H (snd (ch_nextId H h)) u = ch_isActiveUser H h u"
    and id_nonblank: "trim (fst (ch_nextId H h)) \<noteq> []"
begin

lemma credAudit_ok:
  assumes "trim (cr_id c) \<noteq> []" and "trim ev \<noteq> []"
  shows "fst (ch_recordAudit H (credAudit a ev c t) h) = Inr ()"
proof (rule audit_ok)
  have "trim ''ssh-credential'' = ''ssh-credential''" by code_simp
  then show "trim (ap_targetType (credAudit a ev c t)) \<noteq> []" by (simp add: credAudit_def)
qed (use assms in \<open>simp_all add: credAudit_def\<close>)

lemma event_names:
  "trim ''ssh-credential.replaced'' = ''ssh-credential.replaced''"
  "trim ''ssh-credential.created'' = ''ssh-credential.created''"
  "trim ''ssh-credential.deleted'' = ''ssh-credential.deleted''"
  "trim ''ssh-credential.update-required'' = ''ssh-credential.update-required''"
  by code_simp+

text \<open>Replacing succeeds exactly for the active user itself with a valid envelope.\<close>

lemma replace_spec:
  assumes wf: "wfCredentials cs" and act: "ch_isActiveUser H h u"
    and valid: "validateSshCredentialEnvelope en = Inr ()"
  obtains c h' where
    "replaceEncryptedUserSshCredential H u u en t (cs, h) = (Inr (metadata c), (mapSet cs u c, h'))"
    "cr_envelope c = en" "cr_status c = CredCurrent" "cr_userId c = u" "cr_lastAuthFailureAt c = None"
    "cr_revision c = (case mapGet cs u of Some e \<Rightarrow> cr_revision e | None \<Rightarrow> 0) + 1"
    "\<And>v. ch_isActiveUser H h' v = ch_isActiveUser H h v"
    "wfCredentials (mapSet cs u c)"
proof (cases "mapGet cs u")
  case None
  obtain i h1 where i: "ch_nextId H h = (i, h1)" by force
  let ?c = "\<lparr>cr_id = i, cr_userId = u, cr_envelope = en, cr_revision = 1, cr_status = CredCurrent,
      cr_lastAuthFailureAt = None, cr_createdAt = t, cr_updatedAt = t\<rparr>"
  let ?a = "credAudit (Some u) ''ssh-credential.created'' ?c t"
  have nb: "trim i \<noteq> []" and act1: "ch_isActiveUser H h1 v = ch_isActiveUser H h v" for v
    using id_nonblank [of h] id_active [of h v] by (simp_all add: i)
  obtain h2 where h2: "ch_recordAudit H ?a h1 = (Inr (), h2)"
    using credAudit_ok [of ?c "''ssh-credential.created''" "Some u" t h1] nb event_names
    by (cases "ch_recordAudit H ?a h1") simp
  have act2: "ch_isActiveUser H h2 v = ch_isActiveUser H h v" for v
    using audit_active [of ?a h1 v] by (simp add: h2 act1)
  show ?thesis
    using None act valid h2 act2 nb i wf
    by (intro that [of ?c h2])
      (simp_all add: replaceEncryptedUserSshCredential_def requireSelf_def requireActiveUser_def Let_def
        wfCredentials_put)
next
  case (Some e)
  let ?c = "\<lparr>cr_id = cr_id e, cr_userId = u, cr_envelope = en, cr_revision = cr_revision e + 1,
      cr_status = CredCurrent, cr_lastAuthFailureAt = None, cr_createdAt = cr_createdAt e, cr_updatedAt = t\<rparr>"
  let ?a = "credAudit (Some u) ''ssh-credential.replaced'' ?c t"
  obtain h2 where h2: "ch_recordAudit H ?a h = (Inr (), h2)"
    using credAudit_ok [of ?c "''ssh-credential.replaced''" "Some u" t h] wfCredentialsD(2) [OF wf Some] event_names
    by (cases "ch_recordAudit H ?a h") simp
  have act2: "ch_isActiveUser H h2 v = ch_isActiveUser H h v" for v
    using audit_active [of ?a h v] by (simp add: h2)
  show ?thesis
    using Some act valid h2 act2 wfCredentialsD [OF wf Some] wf
    by (intro that [of ?c h2])
      (simp_all add: replaceEncryptedUserSshCredential_def requireSelf_def requireActiveUser_def Let_def
        wfCredentials_put)
qed

lemma replace_refused:
  assumes "a \<noteq> u \<or> \<not> ch_isActiveUser H h u \<or> validateSshCredentialEnvelope en \<noteq> Inr ()"
  shows "\<exists>e. replaceEncryptedUserSshCredential H a u en t (cs, h) = (Inl e, (cs, h))"
  using assms
  by (cases "validateSshCredentialEnvelope en")
    (auto simp: replaceEncryptedUserSshCredential_def requireSelf_def requireActiveUser_def)

lemma mark_spec:
  assumes wf: "wfCredentials cs" and c: "mapGet cs u = Some c"
  obtains h' where "markUserSshCredentialUpdateRequired H u (cr_revision c) t (cs, h) =
      (Inr (Some (metadata (c\<lparr>cr_status := CredUpdateRequired, cr_lastAuthFailureAt := Some t, cr_updatedAt := t\<rparr>))),
       (mapSet cs u (c\<lparr>cr_status := CredUpdateRequired, cr_lastAuthFailureAt := Some t, cr_updatedAt := t\<rparr>), h'))"
    "\<And>v. ch_isActiveUser H h' v = ch_isActiveUser H h v"
proof -
  let ?c = "c\<lparr>cr_status := CredUpdateRequired, cr_lastAuthFailureAt := Some t, cr_updatedAt := t\<rparr>"
  let ?a = "credAudit None ''ssh-credential.update-required'' ?c t"
  obtain h' where h': "ch_recordAudit H ?a h = (Inr (), h')"
    using credAudit_ok [of ?c "''ssh-credential.update-required''" None t h] wfCredentialsD(2) [OF wf c] event_names
    by (cases "ch_recordAudit H ?a h") simp
  show ?thesis
    using that [of h'] audit_active [of ?a h] c h'
    by (simp add: markUserSshCredentialUpdateRequired_def Let_def)
qed

lemma mark_stale:
  assumes "mapGet cs u = Some c" and "r \<noteq> cr_revision c"
  shows "markUserSshCredentialUpdateRequired H u r t (cs, h) = (Inr (Some (metadata c)), (cs, h))"
  using assms by (auto simp: markUserSshCredentialUpdateRequired_def)

lemma mark_absent:
  "mapGet cs u = None \<Longrightarrow> markUserSshCredentialUpdateRequired H u r t (cs, h) = (Inr None, (cs, h))"
  by (simp add: markUserSshCredentialUpdateRequired_def)

lemma delete_spec:
  assumes wf: "wfCredentials cs" and act: "ch_isActiveUser H h u"
  obtains h' where "deleteUserSshCredential H u u t (cs, h) = (Inr (mapHas cs u), (mapDelete cs u, h'))"
    "\<And>v. ch_isActiveUser H h' v = ch_isActiveUser H h v"
proof (cases "mapGet cs u")
  case None
  then have "mapDelete cs u = cs"
    by (metis delete_id map_of_eq_None_iff)
  with None act that [of h] show ?thesis
    by (simp add: deleteUserSshCredential_def requireSelf_def requireActiveUser_def)
next
  case (Some c)
  let ?a = "credAudit (Some u) ''ssh-credential.deleted'' c t"
  obtain h' where h': "ch_recordAudit H ?a h = (Inr (), h')"
    using credAudit_ok [of c "''ssh-credential.deleted''" "Some u" t h] wfCredentialsD(2) [OF wf Some] event_names
    by (cases "ch_recordAudit H ?a h") simp
  show ?thesis
    using that [of h'] audit_active [of ?a h] Some h' act
    by (simp add: deleteUserSshCredential_def requireSelf_def requireActiveUser_def Let_def)
qed

lemma delete_refused:
  assumes "a \<noteq> u \<or> \<not> ch_isActiveUser H h u"
  shows "\<exists>e. deleteUserSshCredential H a u t (cs, h) = (Inl e, (cs, h))"
  using assms by (auto simp: deleteUserSshCredential_def requireSelf_def requireActiveUser_def)

end

section \<open>The control plane store provides the interface\<close>

lemma memCredHost_host:
  assumes "id_factory (o_idFactory opts)"
  shows "credential_host (memCredHost opts)"
proof
  fix ap :: audit_params and h :: mem and u
  obtain r h' where a: "appendAuditEvent opts ap h = (r, h')" by force
  have "users h' = users h" using appendAuditEvent_frame [of h opts ap] by (simp add: sameTables_def a)
  then show "ch_isActiveUser (memCredHost opts) (snd (ch_recordAudit (memCredHost opts) ap h)) u =
      ch_isActiveUser (memCredHost opts) h u"
    by (auto simp: memCredHost_def recordCredentialAudit_def isActiveCredentialUser_def a split: sum.splits)
next
  fix ap :: audit_params and h :: mem
  assume "trim (ap_eventType ap) \<noteq> []" "trim (ap_targetType ap) \<noteq> []" "trim (ap_targetId ap) \<noteq> []"
  then show "fst (ch_recordAudit (memCredHost opts) ap h) = Inr ()"
    by (simp add: memCredHost_def recordCredentialAudit_def appendAuditEvent_def takeId_def Let_def)
next
  fix h u
  show "ch_isActiveUser (memCredHost opts) (snd (ch_nextId (memCredHost opts) h)) u =
      ch_isActiveUser (memCredHost opts) h u"
    by (simp add: memCredHost_def takeId_def isActiveCredentialUser_def)
next
  fix h
  show "trim (fst (ch_nextId (memCredHost opts) h)) \<noteq> []"
    using id_factory.nextId_nonblank [OF assms] by (simp add: memCredHost_def takeId_def)
qed

interpretation demoCred: credential_host "memCredHost demoOptions"
  by (rule memCredHost_host [OF demo_factory])

section \<open>Sequences of calls\<close>

text \<open>The calls on the control plane store and on its credentials, on their common state.\<close>

datatype cred_call =
    StoreCall call
  | ReplaceCredential string string envelope int
  | MarkCredential string int int
  | DeleteCredential string string int

fun credStep :: "store_options \<Rightarrow> cred_call \<Rightarrow> mem cred_state \<Rightarrow> mem cred_state" where
  "credStep opts (StoreCall c) s = (fst s, step opts c (snd s))"
| "credStep opts (ReplaceCredential a u en t) s =
     snd (replaceEncryptedUserSshCredential (memCredHost opts) a u en t s)"
| "credStep opts (MarkCredential u r t) s = snd (markUserSshCredentialUpdateRequired (memCredHost opts) u r t s)"
| "credStep opts (DeleteCredential a u t) s = snd (deleteUserSshCredential (memCredHost opts) a u t s)"

inductive credReachable :: "store_options \<Rightarrow> mem cred_state \<Rightarrow> bool" for opts where
  empty: "credReachable opts ([], emptyStore)"
| call: "credReachable opts s \<Longrightarrow> credReachable opts (credStep opts c s)"

text \<open>What one call does to the credentials.\<close>

lemma credStep_cases:
  assumes fac: "id_factory (o_idFactory opts)" and wf: "wfCredentials cs"
  obtains (same) "fst (credStep opts c (cs, s)) = cs"
  | (replaced) u en t k where "c = ReplaceCredential u u en t" "isActiveCredentialUser s u"
      "fst (credStep opts c (cs, s)) = mapSet cs u k" "wfCredentials (mapSet cs u k)"
  | (marked) u t k where "mapGet cs u = Some k" "c = MarkCredential u (cr_revision k) t"
      "fst (credStep opts c (cs, s)) = mapSet cs u
        (k\<lparr>cr_status := CredUpdateRequired, cr_lastAuthFailureAt := Some t, cr_updatedAt := t\<rparr>)"
  | (deleted) u t where "c = DeleteCredential u u t" "isActiveCredentialUser s u"
      "fst (credStep opts c (cs, s)) = mapDelete cs u"
proof (cases c)
  case (StoreCall d)
  then show ?thesis using same by simp
next
  case (ReplaceCredential a u en t)
  note host = memCredHost_host [OF fac]
  have active: "ch_isActiveUser (memCredHost opts) s u = isActiveCredentialUser s u"
    by (simp add: memCredHost_def)
  show ?thesis
  proof (cases "a = u \<and> isActiveCredentialUser s u \<and> validateSshCredentialEnvelope en = Inr ()")
    case True
    with ReplaceCredential active show ?thesis
      by (auto intro: replaced elim!: credential_host.replace_spec [OF host wf, of s u en t])
  next
    case False
    then show ?thesis
      using credential_host.replace_refused [OF host, of a u s en t cs] ReplaceCredential active same by auto
  qed
next
  case (MarkCredential u r t)
  note host = memCredHost_host [OF fac]
  show ?thesis
  proof (cases "mapGet cs u")
    case None
    with MarkCredential same show ?thesis by (simp add: credential_host.mark_absent [OF host])
  next
    case (Some k)
    show ?thesis
    proof (cases "r = cr_revision k")
      case True
      obtain h' where "markUserSshCredentialUpdateRequired (memCredHost opts) u (cr_revision k) t (cs, s) =
          (Inr (Some (metadata (k\<lparr>cr_status := CredUpdateRequired, cr_lastAuthFailureAt := Some t, cr_updatedAt := t\<rparr>))),
           (mapSet cs u (k\<lparr>cr_status := CredUpdateRequired, cr_lastAuthFailureAt := Some t, cr_updatedAt := t\<rparr>), h'))"
        by (rule credential_host.mark_spec [OF host wf Some, of t s])
      with MarkCredential True show ?thesis by (intro marked [OF Some, of t]) simp_all
    next
      case False
      with MarkCredential same show ?thesis by (simp add: credential_host.mark_stale [OF host Some])
    qed
  qed
next
  case (DeleteCredential a u t)
  note host = memCredHost_host [OF fac]
  have active: "ch_isActiveUser (memCredHost opts) s u = isActiveCredentialUser s u"
    by (simp add: memCredHost_def)
  show ?thesis
  proof (cases "a = u \<and> isActiveCredentialUser s u")
    case True
    with DeleteCredential active show ?thesis
      by (auto intro: deleted elim!: credential_host.delete_spec [OF host wf, of s u t])
  next
    case False
    then show ?thesis
      using credential_host.delete_refused [OF host, of a u s t cs] DeleteCredential active same by auto
  qed
qed

lemma credStep_wfCredentials:
  assumes "id_factory (o_idFactory opts)" and wf: "wfCredentials cs"
  shows "wfCredentials (fst (credStep opts c (cs, s)))"
  using assms
proof (cases rule: credStep_cases [of opts cs c s])
  case (marked u t k)
  then show ?thesis using wf wfCredentialsD [OF wf marked(1)] by (simp add: wfCredentials_put)
next
  case (deleted u t)
  then show ?thesis using wf by (auto simp: wfCredentials_def)
qed (use wf in simp_all)

lemma credReachable_wf:
  assumes "credReachable opts s" and "id_factory (o_idFactory opts)"
  shows "wfCredentials (fst s)"
  using assms(1)
proof (induction rule: credReachable.induct)
  case empty
  then show ?case by (simp add: wfCredentials_def)
next
  case (call s c)
  then show ?case using credStep_wfCredentials [OF assms(2), of "fst s" c "snd s"] by simp
qed

text \<open>
  C10. A credential belongs to its user alone: whenever a call changes what is stored for a user, it
  is that user's own replace or delete, made while the user is active, or a report of a failed
  authentication for the revision that is stored, and a report leaves the encrypted envelope as it
  is.
\<close>

theorem credential_call_confined:
  assumes "credReachable opts s" and "id_factory (o_idFactory opts)"
    and "mapGet (fst (credStep opts c s)) u \<noteq> mapGet (fst s) u"
  shows "isActiveCredentialUser (snd s) u \<and> (\<exists>en t. c = ReplaceCredential u u en t)
    \<or> isActiveCredentialUser (snd s) u \<and> (\<exists>t. c = DeleteCredential u u t)
    \<or> (\<exists>k t. mapGet (fst s) u = Some k \<and> c = MarkCredential u (cr_revision k) t
        \<and> map_option cr_envelope (mapGet (fst (credStep opts c s)) u) = Some (cr_envelope k))"
proof -
  have "mapGet (fst (credStep opts c (fst s, snd s))) u \<noteq> mapGet (fst s) u" using assms(3) by simp
  with assms(2) credReachable_wf [OF assms(1,2)] show ?thesis
    by (cases rule: credStep_cases [of opts "fst s" c "snd s"]) (auto split: if_splits)
qed

text \<open>
  C11. What a user stores is what is resolved: when an active user replaces its credential with a
  valid envelope, the call succeeds, the revision goes up by one, and reading returns exactly the
  envelope stored, as the current credential.
\<close>

theorem credential_roundtrip:
  assumes "credReachable opts (cs, s)" and "id_factory (o_idFactory opts)"
    and "isActiveCredentialUser s u" and "validateSshCredentialEnvelope en = Inr ()"
  shows "\<exists>c s'. replaceEncryptedUserSshCredential (memCredHost opts) u u en t (cs, s) = (Inr (metadata c), s')
    \<and> readEncryptedUserSshCredential (memCredHost opts) u s' = Inr (Some c)
    \<and> cr_envelope c = en \<and> cr_status c = CredCurrent
    \<and> cr_revision c = (case mapGet cs u of Some e \<Rightarrow> cr_revision e | None \<Rightarrow> 0) + 1
    \<and> (\<forall>v. v \<noteq> u \<longrightarrow> mapGet (fst s') v = mapGet cs v)"
proof -
  have wf: "wfCredentials cs" using credReachable_wf [OF assms(1,2)] by simp
  have active: "ch_isActiveUser (memCredHost opts) t v = isActiveCredentialUser t v" for t v
    by (simp add: memCredHost_def)
  obtain c h' where r:
    "replaceEncryptedUserSshCredential (memCredHost opts) u u en t (cs, s) = (Inr (metadata c), (mapSet cs u c, h'))"
    "cr_envelope c = en" "cr_status c = CredCurrent"
    "cr_revision c = (case mapGet cs u of Some e \<Rightarrow> cr_revision e | None \<Rightarrow> 0) + 1"
    "isActiveCredentialUser h' u"
    using credential_host.replace_spec [OF memCredHost_host [OF assms(2)] wf, of s u en t, unfolded active]
      assms(3,4) by metis
  then have "readEncryptedUserSshCredential (memCredHost opts) u (mapSet cs u c, h') = Inr (Some c)"
    by (simp add: readEncryptedUserSshCredential_def active)
  with r show ?thesis by (intro exI [of _ c] exI [of _ "(mapSet cs u c, h')"]) simp
qed

section \<open>A concrete run\<close>

definition demoEnvelope :: "byte \<Rightarrow> envelope" where
  "demoEnvelope b = \<lparr>en_ciphertext = [b], en_nonce = replicate 12 0, en_authTag = replicate 16 0,
     en_keyId = ''sha256:'' @ replicate 43 (CHR ''k''), en_formatVersion = 1\<rparr>"

lemma demoEnvelope_valid: "validateSshCredentialEnvelope (demoEnvelope b) = Inr ()"
  by (simp add: validateSshCredentialEnvelope_def demoEnvelope_def keyIdRe_def isKeyIdChar_def isAlnumChar_def
      isLowerChar_def isDigitChar_def isUpperChar_def list_all_iff)

lemma cred_demo: "credReachable demoOptions ([], annStore)" "isActiveCredentialUser annStore ''user-''"
proof -
  have "credStep demoOptions (StoreCall (UpsertPrincipal ann 10)) ([], emptyStore) = ([], annStore)"
    by (simp add: annStore_run)
  then show "credReachable demoOptions ([], annStore)"
    using credReachable.call [OF credReachable.empty] by metis
  show "isActiveCredentialUser annStore ''user-''" by code_simp
qed

theorem credential_roundtrip_witness:
  "\<exists>c s'. replaceEncryptedUserSshCredential (memCredHost demoOptions) ''user-'' ''user-'' (demoEnvelope 7) 20
      ([], annStore) = (Inr (metadata c), s')
    \<and> readEncryptedUserSshCredential (memCredHost demoOptions) ''user-'' s' = Inr (Some c)
    \<and> cr_envelope c = demoEnvelope 7 \<and> cr_revision c = 1"
  using credential_roundtrip [OF cred_demo(1) demo_factory cred_demo(2) demoEnvelope_valid, of 7 20] by auto

theorem credential_call_confined_witness:
  "isActiveCredentialUser annStore ''user-''"
proof -
  let ?c = "ReplaceCredential ''user-'' ''user-'' (demoEnvelope 7) 20"
  have "mapHas (fst (credStep demoOptions ?c ([], annStore))) ''user-''"
    by code_simp
  then have "mapGet (fst (credStep demoOptions ?c ([], annStore))) ''user-'' \<noteq> mapGet (fst ([], annStore)) ''user-''"
    by simp
  from credential_call_confined [OF cred_demo(1) demo_factory this] show ?thesis by simp
qed

text \<open>
  Deleting a credential forgets its revision: a report of a failure of the deleted credential hits
  the one stored after it, because both have revision 1.
\<close>

theorem credential_revision_reused:
  "(let s1 = credStep demoOptions (ReplaceCredential ''user-'' ''user-'' (demoEnvelope 7) 20) ([], annStore);
        s2 = credStep demoOptions (DeleteCredential ''user-'' ''user-'' 30) s1;
        s3 = credStep demoOptions (ReplaceCredential ''user-'' ''user-'' (demoEnvelope 8) 40) s2
    in map_option cr_revision (mapGet (fst s1) ''user-'') = Some 1
       \<and> map_option cr_status (mapGet (fst (credStep demoOptions (MarkCredential ''user-'' 1 50) s3)) ''user-'')
           = Some CredUpdateRequired)"
  by code_simp

end
