(* ===== verification/ExecutionValidation.thy ===== *)
theory ExecutionValidation
  imports StoreState "HOL-Library.Word"
begin

text \<open>
  \<open>execution-validation.ts\<close>: normalisation of what administrators enter about hosts, keys and
  environments. The address functions of the Node library that are not defined here (IPv6 parsing
  and the IDNA mapping of domain names) and SHA-256 are fields of \<open>net_lib\<close>; the IPv4
  syntax, base64, POSIX path normalisation and the regular expressions are written out.
\<close>

section \<open>JSON values\<close>

text \<open>
  What \<open>JSON.parse\<close> and callers pass as \<open>unknown\<close>: numbers are integers or fractions
  \<open>m / 2^k\<close>, objects keep their entries in order.
\<close>

datatype js_value =
    JUndefined | JNull | JBool bool | JNum int | JFraction int nat | JStr string
  | JArr "js_value list" | JObj "(string \<times> js_value) list"

text \<open>\<open>obj.field ?? default\<close>\<close>

definition fieldOr :: "(string \<times> js_value) list \<Rightarrow> string \<Rightarrow> js_value \<Rightarrow> js_value" where
  "fieldOr obj field dflt =
     (case map_of obj field of
        None \<Rightarrow> dflt | Some JUndefined \<Rightarrow> dflt | Some JNull \<Rightarrow> dflt | Some v \<Rightarrow> v)"

section \<open>Library functions\<close>

record net_lib =
  nl_isIPv6 :: "string \<Rightarrow> bool"
  nl_ipv6Hostname :: "string \<Rightarrow> string"
  nl_domainToASCII :: "string \<Rightarrow> string"
  nl_sha256 :: "8 word list \<Rightarrow> 8 word list"
  nl_localeCompare :: "string \<Rightarrow> string \<Rightarrow> int"

fun decimalValue :: "nat \<Rightarrow> string \<Rightarrow> nat" where
  "decimalValue acc [] = acc"
| "decimalValue acc (c # cs) = decimalValue (10 * acc + (of_char c - 48)) cs"

text \<open>An octet has one to three digits, no leading zero and a value up to 255.\<close>

definition isOctet :: "string \<Rightarrow> bool" where
  "isOctet s \<longleftrightarrow> s \<noteq> [] \<and> list_all isDigitChar s \<and> length s \<le> 3 \<and> (length s > 1 \<longrightarrow> hd s \<noteq> CHR ''0'')
     \<and> decimalValue 0 s \<le> 255"

definition isIPv4 :: "string \<Rightarrow> bool" where
  "isIPv4 s \<longleftrightarrow> (let parts = splitOn (CHR ''.'') s in length parts = 4 \<and> list_all isOctet parts)"

definition isIP :: "net_lib \<Rightarrow> string \<Rightarrow> nat" where
  "isIP lib s = (if isIPv4 s then 4 else if nl_isIPv6 lib s then 6 else 0)"

text \<open>\<open>Buffer.byteLength\<close>: a code unit from 128 to 255 takes two bytes of UTF-8.\<close>

definition byteLength :: "string \<Rightarrow> nat" where
  "byteLength s = sum_list (map (\<lambda>c. if (of_char c :: nat) < 128 then 1 else 2) s)"

definition upperChar :: "char \<Rightarrow> char" where
  "upperChar c = (if isLowerChar c then char_of ((of_char c :: nat) - 32) else c)"

text \<open>\<open>s.split(/\s+/u)\<close>\<close>

function splitSpaces :: "string \<Rightarrow> string list" where
  "splitSpaces [] = [[]]"
| "splitSpaces (c # cs) =
     (if isSpace c then [] # splitSpaces (dropWhile isSpace cs)
      else (case splitSpaces cs of [] \<Rightarrow> [[c]] | w # ws \<Rightarrow> (c # w) # ws))"
  by pat_completeness auto

termination
  by (relation "measure length") (auto simp: length_dropWhile_le less_Suc_eq_le)

section \<open>Base64\<close>

definition b64Char :: "nat \<Rightarrow> char" where
  "b64Char n =
     (if n < 26 then char_of (65 + n) else if n < 52 then char_of (97 + (n - 26))
      else if n < 62 then char_of (48 + (n - 52)) else if n = 62 then CHR ''+'' else CHR ''/'')"

definition b64Value :: "char \<Rightarrow> nat" where
  "b64Value c =
     (let n = of_char c in
      if isUpperChar c then n - 65 else if isLowerChar c then n - 97 + 26
      else if isDigitChar c then n - 48 + 52 else if c = CHR ''+'' then 62 else 63)"

definition isB64Char :: "char \<Rightarrow> bool" where
  "isB64Char c \<longleftrightarrow> isAlnumChar c \<or> c = CHR ''+'' \<or> c = CHR ''/''"

text \<open>The digits of a byte string, without padding, and the bytes of digits, without spare bits.\<close>

fun b64Digits :: "8 word list \<Rightarrow> nat list" where
  "b64Digits [] = []"
| "b64Digits [a] = [unat a div 4, (unat a mod 4) * 16]"
| "b64Digits [a, b] = [unat a div 4, (unat a mod 4) * 16 + unat b div 16, (unat b mod 16) * 4]"
| "b64Digits (a # b # c # xs) =
     [unat a div 4, (unat a mod 4) * 16 + unat b div 16, (unat b mod 16) * 4 + unat c div 64, unat c mod 64]
     @ b64Digits xs"

fun b64Bytes :: "nat list \<Rightarrow> 8 word list" where
  "b64Bytes (p # q # r # s # xs) =
     [of_nat (p * 4 + q div 16), of_nat ((q mod 16) * 16 + r div 4), of_nat ((r mod 4) * 64 + s)] @ b64Bytes xs"
| "b64Bytes [p, q, r] = [of_nat (p * 4 + q div 16), of_nat ((q mod 16) * 16 + r div 4)]"
| "b64Bytes [p, q] = [of_nat (p * 4 + q div 16)]"
| "b64Bytes xs = []"

definition base64Unpadded :: "8 word list \<Rightarrow> string" where
  "base64Unpadded bs = map b64Char (b64Digits bs)"

definition base64 :: "8 word list \<Rightarrow> string" where
  "base64 bs =
     (let s = base64Unpadded bs in s @ replicate ((4 - length s mod 4) mod 4) (CHR ''=''))"

definition fromBase64 :: "string \<Rightarrow> 8 word list" where
  "fromBase64 s = b64Bytes (map b64Value (takeWhile (\<lambda>c. c \<noteq> CHR ''='') s))"

section \<open>Host keys\<close>

record host_key =
  hk_algorithm :: string
  hk_publicKey :: string
  hk_fingerprint :: string

definition decodeOpenSshKeyBlob :: "string \<Rightarrow> error + 8 word list" where
  "decodeOpenSshKeyBlob value =
     (let unpadded = stripTrailing (CHR ''='') value;
          body = takeWhile isB64Char value;
          rest = dropWhile isB64Char value
      in
      if \<not> (body \<noteq> [] \<and> list_all (\<lambda>c. c = CHR ''='') rest \<and> length rest \<le> 2) \<or> length unpadded mod 4 = 1
      then Inl (StateError ''hostKey.publicKey must be canonical OpenSSH base64'' [])
      else
        let blob = fromBase64 value in
        if stripTrailing (CHR ''='') (base64 blob) \<noteq> unpadded
        then Inl (StateError ''hostKey.publicKey must be canonical OpenSSH base64'' [])
        else Inr blob)"

definition readUInt32BE :: "8 word list \<Rightarrow> nat \<Rightarrow> nat" where
  "readUInt32BE bs off =
     unat (bs ! off) * 16777216 + unat (bs ! (off + 1)) * 65536 + unat (bs ! (off + 2)) * 256 + unat (bs ! (off + 3))"

text \<open>
  Bytes as text. A byte of 128 or more decodes to a character outside ASCII and the text compared
  with is ASCII, so reading bytes as the code units of the same value decides the same equalities.
\<close>

definition bytesText :: "8 word list \<Rightarrow> string" where
  "bytesText = map (\<lambda>b. char_of (unat b))"

definition notOpenSsh :: error where
  "notOpenSsh = StateError ''hostKey.publicKey is not an OpenSSH key blob'' []"

definition notEd25519 :: error where
  "notEd25519 = StateError ''hostKey.publicKey is not an Ed25519 OpenSSH key blob'' []"

definition checkKeyBlob :: "net_lib \<Rightarrow> string \<Rightarrow> 8 word list \<Rightarrow> error + host_key" where
  "checkKeyBlob lib algorithm blob =
     (if length blob < 5 then Inl notOpenSsh
      else
        let embeddedAlgorithmLength = readUInt32BE blob 0;
            embeddedAlgorithmEnd = 4 + embeddedAlgorithmLength
        in
        if embeddedAlgorithmLength = 0 \<or> embeddedAlgorithmEnd \<ge> length blob then Inl notOpenSsh
        else if bytesText (take embeddedAlgorithmLength (drop 4 blob)) \<noteq> algorithm
        then Inl (StateError ''host key algorithm does not match key blob'' [])
        else if embeddedAlgorithmEnd + 4 > length blob then Inl notEd25519
        else
          let keyLength = readUInt32BE blob embeddedAlgorithmEnd in
          if keyLength \<noteq> 32 \<or> embeddedAlgorithmEnd + 4 + keyLength \<noteq> length blob then Inl notEd25519
          else Inr
            \<lparr>hk_algorithm = algorithm, hk_publicKey = base64 blob,
             hk_fingerprint = ''SHA256:'' @ stripTrailing (CHR ''='') (base64 (nl_sha256 lib blob))\<rparr>)"

definition normalizeObservedOpenSshHostKey :: "net_lib \<Rightarrow> string \<Rightarrow> string \<Rightarrow> error + host_key" where
  "normalizeObservedOpenSshHostKey lib rawAlgorithm rawPublicKey =
     (case requireNonEmpty rawAlgorithm ''hostKey.algorithm'' of Inl e \<Rightarrow> Inl e | Inr algorithm \<Rightarrow>
      if algorithm \<noteq> ''ssh-ed25519''
      then Inl (StateError ''only ssh-ed25519 SafeConnect host keys are supported'' [])
      else
        (case requireNonEmpty rawPublicKey ''hostKey.publicKey'' of Inl e \<Rightarrow> Inl e | Inr trimmed \<Rightarrow>
          (let publicKeyParts = splitSpaces trimmed;
               encoded = (if length publicKeyParts = 1 then publicKeyParts ! 0 else publicKeyParts ! 1)
           in
           case requireNonEmpty encoded ''hostKey.publicKey'' of Inl e \<Rightarrow> Inl e | Inr encodedKey \<Rightarrow>
             if length publicKeyParts > 1 \<and> publicKeyParts ! 0 \<noteq> algorithm
             then Inl (StateError ''host key algorithm does not match public key prefix'' [])
             else
               (case decodeOpenSshKeyBlob encodedKey of Inl e \<Rightarrow> Inl e
                | Inr blob \<Rightarrow> checkKeyBlob lib algorithm blob))))"

definition normalizeOpenSshHostKey :: "net_lib \<Rightarrow> string \<Rightarrow> string \<Rightarrow> string \<Rightarrow> error + host_key" where
  "normalizeOpenSshHostKey lib algorithm publicKey approvedFingerprint =
     (case normalizeObservedOpenSshHostKey lib algorithm publicKey of Inl e \<Rightarrow> Inl e | Inr key \<Rightarrow>
     (case requireNonEmpty approvedFingerprint ''hostKey.fingerprint'' of Inl e \<Rightarrow> Inl e | Inr fingerprint \<Rightarrow>
        if fingerprint \<noteq> hk_fingerprint key
        then Inl (StateError ''approved host key fingerprint does not match public key'' [])
        else Inr key))"

section \<open>Addresses and accounts\<close>

definition isDnsChar :: "char \<Rightarrow> bool" where
  "isDnsChar c \<longleftrightarrow> isLowerChar c \<or> isDigitChar c \<or> c = CHR ''-''"

definition isDnsLabel :: "string \<Rightarrow> bool" where
  "isDnsLabel w \<longleftrightarrow> w \<noteq> [] \<and> length w \<le> 63 \<and> list_all isDnsChar w
     \<and> hd w \<noteq> CHR ''-'' \<and> last w \<noteq> CHR ''-''"

definition dropFinalDot :: "string \<Rightarrow> string" where
  "dropFinalDot s = (if s \<noteq> [] \<and> last s = CHR ''.'' then butlast s else s)"

definition normalizeDnsName :: "net_lib \<Rightarrow> string \<Rightarrow> string \<Rightarrow> error + string" where
  "normalizeDnsName lib candidate field =
     (let dnsName = toLowerCase (nl_domainToASCII lib (dropFinalDot candidate)) in
      if dnsName = [] \<or> length dnsName > 253 \<or> list_ex (\<lambda>w. \<not> isDnsLabel w) (splitOn (CHR ''.'') dnsName)
      then Inl (StateError ''must be a valid DNS name'' [field])
      else Inr dnsName)"

definition looksLikeIPv4 :: "string \<Rightarrow> bool" where
  "looksLikeIPv4 s \<longleftrightarrow>
     (let parts = splitOn (CHR ''.'') s in length parts = 4 \<and> list_all (\<lambda>w. w \<noteq> [] \<and> list_all isDigitChar w) parts)"

definition normalizeDnsOrIpAddress :: "net_lib \<Rightarrow> string \<Rightarrow> string \<Rightarrow> error + string" where
  "normalizeDnsOrIpAddress lib value field =
     (case requireNonEmpty value field of Inl e \<Rightarrow> Inl e | Inr candidate \<Rightarrow>
        if isIP lib candidate = 4 then Inr candidate
        else
          let ipv6Candidate =
            (if hd candidate = CHR ''['' \<and> last candidate = CHR '']'' then butlast (tl candidate) else candidate)
          in
          if isIP lib ipv6Candidate = 6 then Inr (nl_ipv6Hostname lib ipv6Candidate)
          else if looksLikeIPv4 candidate
          then Inl (StateError ''contains an invalid IPv4 address'' [field])
          else normalizeDnsName lib candidate field)"

definition normalizeSafeConnectHost :: "net_lib \<Rightarrow> string \<Rightarrow> error + string" where
  "normalizeSafeConnectHost lib value = normalizeDnsOrIpAddress lib value ''endpoint.host''"

definition normalizeAdDomain :: "net_lib \<Rightarrow> string \<Rightarrow> error + string" where
  "normalizeAdDomain lib value =
     (case requireNonEmpty value ''endpoint.adDomain'' of Inl e \<Rightarrow> Inl e | Inr candidate \<Rightarrow>
        if isIP lib candidate \<noteq> 0 \<or> hd candidate = CHR ''['' \<or> last candidate = CHR '']''
        then Inl (StateError ''endpoint.adDomain must be a valid DNS name'' [])
        else normalizeDnsName lib candidate ''endpoint.adDomain'')"

definition normalizeVmTargetAddress :: "net_lib \<Rightarrow> string \<Rightarrow> error + string" where
  "normalizeVmTargetAddress lib value = normalizeDnsOrIpAddress lib value ''vmHost.targetAddress''"

definition normalizeLinuxAccount :: "string \<Rightarrow> error + string" where
  "normalizeLinuxAccount value =
     (case requireNonEmpty value ''allocation.linuxAccount'' of Inl e \<Rightarrow> Inl e | Inr account \<Rightarrow>
        if length account > 255
           \<or> list_ex (\<lambda>c. isSpace c \<or> c = CHR 0x5C \<or> c = CHR ''+'' \<or> c = CHR ''@'') account
           \<or> nul \<in> set account
        then Inl (StateError ''allocation.linuxAccount is invalid'' [])
        else Inr account)"

section \<open>Execution environments\<close>

record vm_environment =
  ve_pathPrepend :: "string list"
  ve_variables :: "(string \<times> string) list"

definition VM_ENV_BLOCKED_NAMES :: "string list" where
  "VM_ENV_BLOCKED_NAMES =
     [''BASHOPTS'', ''BASH_ENV'', ''CDPATH'', ''ENV'', ''GLOBIGNORE'', ''HOME'', ''IFS'', ''LOGNAME'',
      ''NODE_OPTIONS'', ''PATH'', ''PWD'', ''SHELL'', ''SHELLOPTS'', ''TMPDIR'', ''USER'']"

definition MAX_VM_PATH_ENTRIES :: nat where "MAX_VM_PATH_ENTRIES = 32"
definition MAX_VM_ENV_VARIABLES :: nat where "MAX_VM_ENV_VARIABLES = 64"
definition MAX_VM_ENV_VALUE_BYTES :: nat where "MAX_VM_ENV_VALUE_BYTES = 4096"

definition vmEnvNamePattern :: "string \<Rightarrow> bool" where
  "vmEnvNamePattern s \<longleftrightarrow> s \<noteq> [] \<and> length s \<le> 128
     \<and> (isUpperChar (hd s) \<or> isLowerChar (hd s) \<or> hd s = CHR ''_'')
     \<and> list_all (\<lambda>c. isAlnumChar c \<or> c = CHR ''_'') (tl s)"

definition isBlockedVmEnvironmentName :: "string \<Rightarrow> bool" where
  "isBlockedVmEnvironmentName name =
     (let upper = map upperChar name in
      upper \<in> set VM_ENV_BLOCKED_NAMES \<or> prefix ''LD_'' upper \<or> prefix ''DYLD_'' upper
      \<or> prefix ''OPENCLAW_'' upper \<or> prefix ''PLATFORMCLAW_'' upper)"

fun mapResult :: "('a \<Rightarrow> error + 'b) \<Rightarrow> 'a list \<Rightarrow> error + 'b list" where
  "mapResult f [] = Inr []"
| "mapResult f (x # xs) =
     (case f x of Inl e \<Rightarrow> Inl e
      | Inr y \<Rightarrow> (case mapResult f xs of Inl e \<Rightarrow> Inl e | Inr ys \<Rightarrow> Inr (y # ys)))"

definition normalizePathEntry :: "js_value \<Rightarrow> error + string" where
  "normalizePathEntry entry =
     (case entry of
        JStr s \<Rightarrow>
          let stripped = stripTrailing (CHR ''/'') (trim s);
              normalized = (if stripped = [] then ''/'' else stripped)
          in
          if hd normalized \<noteq> CHR ''/'' \<or> posixNormalizeAbsolute normalized \<noteq> normalized
             \<or> CHR '':'' \<in> set normalized \<or> nul \<in> set normalized
             \<or> CHR 0x0D \<in> set normalized \<or> CHR 0x0A \<in> set normalized
             \<or> list_ex (\<lambda>part. part = ''.'' \<or> part = ''..'') (splitOn (CHR ''/'') normalized)
          then Inl (StateError ''vmHost.pathPrepend entries must be absolute POSIX paths'' [])
          else Inr normalized
      | _ \<Rightarrow> Inl (StateError ''vmHost.pathPrepend entries must be strings'' []))"

definition normalizeVariable :: "string \<times> js_value \<Rightarrow> error + string \<times> string" where
  "normalizeVariable entry =
     (case entry of (name, rawValue) \<Rightarrow>
        if \<not> vmEnvNamePattern name \<or> isBlockedVmEnvironmentName name
        then Inl (StateError ''vmHost environment variable is not allowed'' [name])
        else
          (case rawValue of
             JStr s \<Rightarrow>
               let normalized = trim s in
               if nul \<in> set normalized \<or> CHR 0x0D \<in> set normalized \<or> CHR 0x0A \<in> set normalized
                  \<or> byteLength normalized > MAX_VM_ENV_VALUE_BYTES
               then Inl (StateError ''vmHost environment variable value is invalid'' [name])
               else Inr (name, normalized)
           | _ \<Rightarrow> Inl (StateError ''vmHost environment variable must be a string'' [name])))"

text \<open>
  \<open>variables[name] = value\<close> on an object literal: assigning a string to \<open>__proto__\<close> has no
  effect.
\<close>

definition assignVariable :: "string \<times> string \<Rightarrow> (string \<times> string) list \<Rightarrow> (string \<times> string) list" where
  "assignVariable entry variables =
     (if fst entry = ''__proto__'' then variables else mapSet variables (fst entry) (snd entry))"

definition normalizeVmHostExecutionEnvironment ::
    "net_lib \<Rightarrow> js_value \<Rightarrow> error + vm_environment option" where
  "normalizeVmHostExecutionEnvironment lib value =
     (case value of
        JObj candidate \<Rightarrow>
          (case fieldOr candidate ''pathPrepend'' (JArr []) of
             JArr rawPaths \<Rightarrow>
               if length rawPaths > MAX_VM_PATH_ENTRIES
               then Inl (StateError ''vmHost.pathPrepend must contain at most 32 paths'' [])
               else
                 (case fieldOr candidate ''variables'' (JObj []) of
                    JObj rawVariables \<Rightarrow>
                      (case mapResult normalizePathEntry rawPaths of Inl e \<Rightarrow> Inl e | Inr normalizedPaths \<Rightarrow>
                        let paths = jsUnique normalizedPaths in
                        if length rawVariables > MAX_VM_ENV_VARIABLES
                        then Inl (StateError ''vmHost.variables must contain at most 64 entries'' [])
                        else
                          (case mapResult normalizeVariable
                              (toSortedBy (\<lambda>l r. nl_localeCompare lib (fst l) (fst r)) rawVariables) of
                             Inl e \<Rightarrow> Inl e
                           | Inr entries \<Rightarrow>
                               let variables = fold assignVariable entries [] in
                               Inr (if length paths > 0 \<or> length variables > 0
                                    then Some \<lparr>ve_pathPrepend = paths, ve_variables = variables\<rparr> else None)))
                  | _ \<Rightarrow> Inl (StateError ''vmHost.variables must be an object'' []))
           | _ \<Rightarrow> Inl (StateError ''vmHost.pathPrepend must contain at most 32 paths'' []))
      | JUndefined \<Rightarrow> Inr None
      | JNull \<Rightarrow> Inr None
      | _ \<Rightarrow> Inl (StateError ''vmHost.executionEnvironment must be an object'' []))"

text \<open>The environment as the JSON object the code returns.\<close>

definition environmentJson :: "vm_environment \<Rightarrow> js_value" where
  "environmentJson env =
     JObj [(''pathPrepend'', JArr (map JStr (ve_pathPrepend env))),
           (''variables'', JObj (map (\<lambda>(n, v). (n, JStr v)) (ve_variables env)))]"

text \<open>A stored text, by what \<open>JSON.parse\<close> makes of it.\<close>

datatype json_text = NoText | Malformed | Document js_value

definition parseVmHostExecutionEnvironmentJson ::
    "net_lib \<Rightarrow> json_text \<Rightarrow> error + vm_environment option" where
  "parseVmHostExecutionEnvironmentJson lib value =
     (case value of
        NoText \<Rightarrow> Inr None
      | Malformed \<Rightarrow> Inl (StateError ''stored VM execution environment is invalid'' [])
      | Document v \<Rightarrow> normalizeVmHostExecutionEnvironment lib v)"

definition serializeVmHostExecutionEnvironment :: "net_lib \<Rightarrow> js_value \<Rightarrow> error + json_text" where
  "serializeVmHostExecutionEnvironment lib value =
     (case normalizeVmHostExecutionEnvironment lib value of
        Inl e \<Rightarrow> Inl e
      | Inr None \<Rightarrow> Inr NoText
      | Inr (Some env) \<Rightarrow> Inr (Document (environmentJson env)))"

section \<open>Base64 round trip\<close>

lemma byte_lt: "unat (a :: 8 word) < 256"
  using unsigned_less [of a] by simp

lemma b64_lt: "n \<in> set (b64Digits bs) \<Longrightarrow> n < 64"
proof (induction bs rule: b64Digits.induct)
  case (2 a)
  have "unat a < 256" by (rule byte_lt)
  with 2 show ?case by auto
next
  case (3 a b)
  have "unat a < 256" "unat b < 256" by (rule byte_lt)+
  with 3 show ?case by auto
next
  case (4 a b c xs)
  have "unat a < 256" "unat b < 256" "unat c < 256"
    by (rule byte_lt)+
  with 4 show ?case by auto
qed simp

lemma b64Bytes_digits: "b64Bytes (b64Digits bs) = bs"
proof (induction bs rule: b64Digits.induct)
  case (2 a)
  have "unat a div 4 * 4 + unat a mod 4 = unat a" by simp
  then show ?case by simp
next
  case (3 a b)
  have "unat a div 4 * 4 + unat a mod 4 = unat a" "unat b div 16 * 16 + unat b mod 16 = unat b" by simp_all
  moreover have "unat b < 256" by (rule byte_lt)
  then have "unat b div 16 < 16" by auto
  ultimately show ?case by simp
next
  case (4 a b c xs)
  have "unat b < 256" "unat c < 256" by (rule byte_lt)+
  then have "unat b div 16 < 16" "unat c div 64 < 4" by auto
  moreover have "unat a div 4 * 4 + unat a mod 4 = unat a" "unat b div 16 * 16 + unat b mod 16 = unat b"
    "unat c div 64 * 64 + unat c mod 64 = unat c" by simp_all
  ultimately show ?case using 4 by simp
qed simp

lemma b64Value_char: "n < 64 \<Longrightarrow> b64Value (b64Char n) = n \<and> isB64Char (b64Char n)"
  by (auto simp: b64Value_def b64Char_def isB64Char_def isAlnumChar_def isUpperChar_def isLowerChar_def
      isDigitChar_def Let_def)

lemma equals_not_b64 [simp]: "\<not> isB64Char (CHR ''='')"
  by code_simp

lemma base64Unpadded_chars: "list_all isB64Char (base64Unpadded bs)"
  using b64_lt [of _ bs] b64Value_char by (auto simp: base64Unpadded_def list_all_iff)

lemma length_b64Digits: "length (b64Digits bs) mod 4 \<noteq> 1 \<and> (bs \<noteq> [] \<longrightarrow> b64Digits bs \<noteq> [])"
  by (induction bs rule: b64Digits.induct) auto

lemma base64_parts:
  "takeWhile (\<lambda>c. c \<noteq> CHR ''='') (base64 bs) = base64Unpadded bs"
  "takeWhile isB64Char (base64 bs) = base64Unpadded bs"
  "stripTrailing (CHR ''='') (base64 bs) = base64Unpadded bs"
  "\<exists>n. n \<le> 2 \<and> dropWhile isB64Char (base64 bs) = replicate n (CHR ''='')"
proof -
  let ?u = "base64Unpadded bs" and ?n = "(4 - length (base64Unpadded bs) mod 4) mod 4"
  have b: "base64 bs = ?u @ replicate ?n (CHR ''='')" by (simp add: base64_def Let_def)
  have u: "\<forall>c \<in> set ?u. isB64Char c \<and> c \<noteq> CHR ''=''"
    using base64Unpadded_chars [of bs] equals_not_b64 by (auto simp: list_all_iff)
  have n: "?n \<le> 2"
  proof -
    have "length ?u mod 4 \<noteq> 1" using length_b64Digits [of bs] by (simp add: base64Unpadded_def)
    moreover have "length ?u mod 4 < 4" by simp
    ultimately have "length ?u mod 4 = 0 \<or> length ?u mod 4 = 2 \<or> length ?u mod 4 = 3" by linarith
    then show ?thesis by auto
  qed
  have tw: "takeWhile P (?u @ replicate k (CHR ''='')) = ?u"
    if "\<And>c. c \<in> set ?u \<Longrightarrow> P c" and "\<not> P (CHR ''='')" for P k
    using that by (cases k) (simp_all add: takeWhile_append2)
  show "takeWhile (\<lambda>c. c \<noteq> CHR ''='') (base64 bs) = ?u" "takeWhile isB64Char (base64 bs) = ?u"
    using u by (auto simp: b intro!: tw)
  have "dropWhile isB64Char (?u @ replicate k (CHR ''='')) = replicate k (CHR ''='')" for k
    using u by (cases k) (simp_all add: dropWhile_append2)
  with n show "\<exists>n. n \<le> 2 \<and> dropWhile isB64Char (base64 bs) = replicate n (CHR ''='')"
    unfolding b by blast
  have "dropWhile (\<lambda>c. c = CHR ''='') (replicate k (CHR ''='') @ rev ?u) = rev ?u" for k
  proof (cases "rev ?u")
    case Nil
    have "dropWhile P xs = []" if "\<forall>x \<in> set xs. P x" for P :: "char \<Rightarrow> bool" and xs
      using that by simp
    then show ?thesis by (simp add: Nil)
  next
    case (Cons c cs)
    have "c \<in> set (rev ?u)" unfolding Cons by simp
    then have "c \<noteq> CHR ''=''" using u by (metis set_rev)
    then show ?thesis unfolding Cons by (subst dropWhile_append2) auto
  qed
  then show "stripTrailing (CHR ''='') (base64 bs) = ?u"
    by (simp add: stripTrailing_def b)
qed

lemma fromBase64_base64: "fromBase64 (base64 bs) = bs"
proof -
  have "map (b64Value \<circ> b64Char) (b64Digits bs) = map id (b64Digits bs)"
    using b64_lt b64Value_char by (intro map_cong) auto
  then show ?thesis
    by (simp add: fromBase64_def base64_parts base64Unpadded_def b64Bytes_digits comp_def)
qed

lemma decode_base64:
  assumes "bs \<noteq> []"
  shows "decodeOpenSshKeyBlob (base64 bs) = Inr bs"
proof -
  obtain n where "n \<le> 2" "dropWhile isB64Char (base64 bs) = replicate n (CHR ''='')"
    using base64_parts(4) by blast
  moreover have "base64Unpadded bs \<noteq> []" "length (base64Unpadded bs) mod 4 \<noteq> 1"
    using length_b64Digits [of bs] assms by (simp_all add: base64Unpadded_def)
  ultimately show ?thesis
    by (simp add: decodeOpenSshKeyBlob_def base64_parts fromBase64_base64 Let_def list_all_iff)
qed

section \<open>Ed25519 key blobs\<close>

definition sshEd25519 :: string where
  "sshEd25519 = ''ssh-ed25519''"

definition ed25519Blob :: "8 word list \<Rightarrow> 8 word list" where
  "ed25519Blob key = [0, 0, 0, 11] @ map (\<lambda>c. of_nat (of_char c)) sshEd25519 @ [0, 0, 0, 32] @ key"

lemma readUInt32_small:
  assumes "readUInt32BE bs off = n" and "n < 256"
  shows "bs ! off = 0" "bs ! (off + 1) = 0" "bs ! (off + 2) = 0" "unat (bs ! (off + 3)) = n"
  using assms byte_lt [of "bs ! (off + 3)"] by (auto simp: readUInt32BE_def unat_eq_0 [symmetric])

lemma bytesText_inj: "bytesText xs = bytesText ys \<Longrightarrow> xs = ys"
proof -
  have "inj (\<lambda>b :: 8 word. char_of (unat b) :: char)"
  proof (rule injI)
    fix a b :: "8 word"
    assume "(char_of (unat a) :: char) = char_of (unat b)"
    then have "(of_char (char_of (unat a) :: char) :: nat) = of_char (char_of (unat b) :: char)" by simp
    with byte_lt [of a] byte_lt [of b] show "a = b" by (simp add: word_unat_eq_iff)
  qed
  then show "bytesText xs = bytesText ys \<Longrightarrow> xs = ys"
    unfolding bytesText_def by (rule inj_map_eq_map [THEN iffD1])
qed

lemma checkKeyBlob_Inr:
  assumes "checkKeyBlob lib sshEd25519 blob = Inr k"
  obtains key where "length key = 32" "blob = ed25519Blob key" "hk_algorithm k = sshEd25519"
    "hk_publicKey k = base64 blob"
proof -
  let ?n = "readUInt32BE blob 0"
  have c: "5 \<le> length blob" "4 + ?n < length blob" "bytesText (take ?n (drop 4 blob)) = sshEd25519"
    "4 + ?n + 4 \<le> length blob" "readUInt32BE blob (4 + ?n) = 32" "4 + ?n + 4 + 32 = length blob"
    "hk_algorithm k = sshEd25519" "hk_publicKey k = base64 blob"
    using assms by (auto simp: checkKeyBlob_def Let_def split: if_splits)
  have "length (take ?n (drop 4 blob)) = ?n" using c(2) by simp
  moreover have "length (take ?n (drop 4 blob)) = length sshEd25519"
    using c(3) by (metis bytesText_def length_map)
  ultimately have n: "?n = 11" by (simp add: sshEd25519_def)
  let ?name = "map (\<lambda>c. of_nat (of_char c)) sshEd25519 :: 8 word list"
  have "bytesText ?name = sshEd25519" by code_simp
  then have name: "take 11 (drop 4 blob) = ?name" using c(3) n bytesText_inj by metis
  have len: "length blob = 51" using c(6) n by simp
  have h: "blob ! 0 = 0" "blob ! 1 = 0" "blob ! 2 = 0" "blob ! 3 = 11"
    using readUInt32_small [of blob 0 11, unfolded add_0] n by (simp_all add: word_unat_eq_iff)
  have l: "blob ! 15 = 0" "blob ! 16 = 0" "blob ! 17 = 0" "blob ! 18 = 32"
    using readUInt32_small [of blob 15 32] c(5) n by (simp_all add: word_unat_eq_iff)
  have four: "take 4 (drop i blob) = [blob ! i, blob ! (i + 1), blob ! (i + 2), blob ! (i + 3)]"
    if "i + 4 \<le> 51" for i
    using that len by (intro nth_equalityI) (auto simp: less_Suc_eq numeral_eq_Suc)
  have "blob = take 4 (drop 0 blob) @ drop 4 blob" "drop 4 blob = take 11 (drop 4 blob) @ drop 15 blob"
    "drop 15 blob = take 4 (drop 15 blob) @ drop 19 blob"
    using append_take_drop_id [of 4 blob] append_take_drop_id [of 11 "drop 4 blob"]
      append_take_drop_id [of 4 "drop 15 blob"] by simp_all
  then have "blob = take 4 (drop 0 blob) @ take 11 (drop 4 blob) @ take 4 (drop 15 blob) @ drop 19 blob"
    by metis
  also have "\<dots> = ed25519Blob (drop 19 blob)"
    using four [of 0, unfolded add_0] four [of 15] h l name by (simp add: ed25519Blob_def)
  finally have "blob = ed25519Blob (drop 19 blob)" .
  moreover have "length (drop 19 blob) = 32" using len by simp
  ultimately show ?thesis using that c(7,8) by blast
qed

lemma checkKeyBlob_ed25519:
  assumes "length key = 32"
  shows "checkKeyBlob lib sshEd25519 (ed25519Blob key) =
    Inr \<lparr>hk_algorithm = sshEd25519, hk_publicKey = base64 (ed25519Blob key),
         hk_fingerprint = ''SHA256:'' @ stripTrailing (CHR ''='') (base64 (nl_sha256 lib (ed25519Blob key)))\<rparr>"
proof -
  have "bytesText (map (\<lambda>c. of_nat (of_char c)) sshEd25519) = sshEd25519" by code_simp
  moreover have "length sshEd25519 = 11" by (simp add: sshEd25519_def)
  moreover have "readUInt32BE (ed25519Blob key) 0 = 11" by (simp add: readUInt32BE_def ed25519Blob_def)
  moreover have "readUInt32BE (ed25519Blob key) 15 = 32"
    by (simp add: readUInt32BE_def ed25519Blob_def nth_append sshEd25519_def)
  moreover have "length (ed25519Blob key) = 51" using assms by (simp add: ed25519Blob_def sshEd25519_def)
  moreover have "take 11 (drop 4 (ed25519Blob key)) = map (\<lambda>c. of_nat (of_char c)) sshEd25519"
    by (simp add: ed25519Blob_def sshEd25519_def)
  ultimately show ?thesis by (simp add: checkKeyBlob_def Let_def)
qed

lemma trim_ed25519: "trim sshEd25519 = sshEd25519"
  by code_simp

lemma splitSpaces_none: "list_all (\<lambda>c. \<not> isSpace c) s \<Longrightarrow> splitSpaces s = [s]"
  by (induction s) auto

lemma trim_none: "list_all (\<lambda>c. \<not> isSpace c) s \<Longrightarrow> trim s = s"
proof -
  assume a: "list_all (\<lambda>c. \<not> isSpace c) s"
  have "dropWhile isSpace t = t" if "list_all (\<lambda>c. \<not> isSpace c) t" for t
    using that by (cases t) auto
  from this [of s] this [of "rev s"] a have "dropWhile isSpace s = s" "dropWhile isSpace (rev s) = rev s"
    by (simp_all add: list_all_iff)
  then show ?thesis by (simp add: trim_def trimStart_def trimEnd_def)
qed

lemma base64_no_space: "list_all (\<lambda>c. \<not> isSpace c) (base64 bs)"
proof -
  have "\<not> isSpace c" if "isB64Char c" for c
    using that by (auto simp: isB64Char_def isAlnumChar_def isDigitChar_def isUpperChar_def isLowerChar_def isSpace_def)
  moreover have "\<not> isSpace (CHR ''='')" by code_simp
  ultimately show ?thesis
    using base64Unpadded_chars [of bs] by (auto simp: base64_def Let_def list_all_iff)
qed

lemma base64_ne: "bs \<noteq> [] \<Longrightarrow> base64 bs \<noteq> []"
  using length_b64Digits [of bs] by (simp add: base64_def base64Unpadded_def Let_def)

lemma normalizeKey_blob:
  assumes "length key = 32" and "trim a = sshEd25519"
  shows "normalizeObservedOpenSshHostKey lib a (base64 (ed25519Blob key)) =
    checkKeyBlob lib sshEd25519 (ed25519Blob key)"
proof -
  let ?b = "base64 (ed25519Blob key)"
  have ne: "ed25519Blob key \<noteq> []" by (simp add: ed25519Blob_def)
  have t: "trim ?b = ?b" "splitSpaces ?b = [?b]"
    using base64_no_space by (auto intro: trim_none splitSpaces_none)
  have r: "requireNonEmpty a f = Inr sshEd25519" "requireNonEmpty ?b f = Inr ?b" for f
    using assms(2) t(1) base64_ne [OF ne] by (simp_all add: sshEd25519_def)
  show ?thesis
    by (simp add: normalizeObservedOpenSshHostKey_def Let_def r t(2) decode_base64 [OF ne]
        sshEd25519_def [symmetric] del: requireNonEmpty_Inr)
qed

lemma normalizeKey_Inr:
  assumes "normalizeObservedOpenSshHostKey lib a p = Inr k"
  obtains key where "length key = 32" "checkKeyBlob lib sshEd25519 (ed25519Blob key) = Inr k"
    "hk_publicKey k = base64 (ed25519Blob key)" "hk_algorithm k = sshEd25519"
proof -
  obtain blob where "checkKeyBlob lib sshEd25519 blob = Inr k"
    using assms by (auto simp: normalizeObservedOpenSshHostKey_def Let_def sshEd25519_def
        split: sum.splits if_splits)
  with that show ?thesis by (metis checkKeyBlob_Inr)
qed

text \<open>
  A host key that is accepted is an Ed25519 key and is kept in one form: the stored key is the
  base64 of the 51-byte blob that holds the name ssh-ed25519 and a key of 32 bytes, every such key
  is accepted, and reading the stored key gives the same key and fingerprint again.
\<close>

theorem hostKey_canonical:
  shows "(\<forall>k. normalizeObservedOpenSshHostKey lib a p = Inr k \<longrightarrow>
      hk_algorithm k = sshEd25519
      \<and> (\<exists>key. length key = 32 \<and> hk_publicKey k = base64 (ed25519Blob key))
      \<and> normalizeObservedOpenSshHostKey lib (hk_algorithm k) (hk_publicKey k) = Inr k)
    \<and> (\<forall>key. length key = 32 \<longrightarrow>
      (\<exists>k. normalizeObservedOpenSshHostKey lib sshEd25519 (base64 (ed25519Blob key)) = Inr k
        \<and> decodeOpenSshKeyBlob (hk_publicKey k) = Inr (ed25519Blob key)))"
proof -
  note t = trim_ed25519
  have ne: "ed25519Blob key \<noteq> []" for key by (simp add: ed25519Blob_def)
  have fwd: "hk_algorithm k = sshEd25519 \<and> (\<exists>key. length key = 32 \<and> hk_publicKey k = base64 (ed25519Blob key))
      \<and> normalizeObservedOpenSshHostKey lib (hk_algorithm k) (hk_publicKey k) = Inr k"
    if "normalizeObservedOpenSshHostKey lib a p = Inr k" for k
    using normalizeKey_Inr [OF that] normalizeKey_blob [OF _ t] by metis
  have bwd: "\<exists>k. normalizeObservedOpenSshHostKey lib sshEd25519 (base64 (ed25519Blob key)) = Inr k
        \<and> decodeOpenSshKeyBlob (hk_publicKey k) = Inr (ed25519Blob key)" if "length key = 32" for key
    by (simp add: normalizeKey_blob [OF that t] checkKeyBlob_ed25519 [OF that] decode_base64 [OF ne])
  show ?thesis using fwd bwd by blast
qed


section \<open>Environments are safe and stable\<close>

lemma mapResult_Inr:
  "mapResult f xs = Inr ys \<longleftrightarrow> list_all2 (\<lambda>x y. f x = Inr y) xs ys"
proof (induction xs arbitrary: ys)
  case (Cons x xs)
  then show ?case
    by (cases ys; cases "f x"; cases "mapResult f xs") auto
qed auto

lemma mapResult_set: "mapResult f xs = Inr ys \<Longrightarrow> y \<in> set ys \<Longrightarrow> \<exists>x. f x = Inr y"
  unfolding mapResult_Inr by (auto simp: in_set_conv_nth list_all2_conv_all_nth)

lemma mapResult_length: "mapResult f xs = Inr ys \<Longrightarrow> length ys = length xs"
  unfolding mapResult_Inr by (simp add: list_all2_lengthD)

lemma assign_keys:
  "\<exists>zs. mapKeys (fold assignVariable es acc) = mapKeys acc @ zs \<and> subseq zs (mapKeys es)"
proof (induction es arbitrary: acc)
  case (Cons e es)
  obtain zs where zs: "mapKeys (fold assignVariable es (assignVariable e acc)) = mapKeys (assignVariable e acc) @ zs"
    "subseq zs (mapKeys es)" using Cons by blast
  show ?case
  proof (cases "fst e = ''__proto__'' \<or> fst e \<in> set (mapKeys acc)")
    case True
    then have "mapKeys (assignVariable e acc) = mapKeys acc"
      by (auto simp: assignVariable_def update_keys)
    with zs show ?thesis by auto
  next
    case False
    then have "mapKeys (assignVariable e acc) = mapKeys acc @ [fst e]"
      by (auto simp: assignVariable_def update_keys)
    with zs show ?thesis by (intro exI [of _ "fst e # zs"]) simp
  qed
qed simp

lemma assign_set: "set (fold assignVariable es acc) \<subseteq> set es \<union> set acc"
proof (induction es arbitrary: acc)
  case (Cons e es)
  have "set (mapSet acc k v) \<subseteq> insert (k, v) (set acc)" for k v
    by (induction acc) auto
  then have "set (assignVariable e acc) \<subseteq> insert e (set acc)" by (cases e) (auto simp: assignVariable_def)
  with Cons [of "assignVariable e acc"] show ?case by auto
qed simp

lemma assign_distinct: "distinct (mapKeys acc) \<Longrightarrow> distinct (mapKeys (fold assignVariable es acc))"
  by (induction es arbitrary: acc) (auto simp: assignVariable_def)

lemma assign_no_proto:
  "''__proto__'' \<notin> set (mapKeys acc) \<Longrightarrow> ''__proto__'' \<notin> set (mapKeys (fold assignVariable es acc))"
proof (induction es arbitrary: acc)
  case (Cons e es)
  have "''__proto__'' \<notin> set (mapKeys (assignVariable e acc))"
    using Cons.prems by (simp add: assignVariable_def update_keys del: set_map)
  then show ?case using Cons.IH by simp
qed simp

lemma assign_id:
  "distinct (mapKeys acc @ mapKeys es) \<Longrightarrow> ''__proto__'' \<notin> set (mapKeys es)
    \<Longrightarrow> fold assignVariable es acc = acc @ es"
proof (induction es arbitrary: acc)
  case (Cons e es)
  then have "\<not> mapHas acc (fst e)" by (simp add: map_of_eq_None_iff)
  with Cons.prems have "assignVariable e acc = acc @ [e]"
    by (cases e) (auto simp: assignVariable_def mapSet_fresh)
  with Cons.prems Cons.IH [of "acc @ [e]"] show ?case by simp
qed simp

lemma toSortedBy_sorted: "sorted_wrt (\<lambda>x y. cmp x y \<le> 0) xs \<Longrightarrow> toSortedBy cmp xs = xs"
proof (induction xs)
  case (Cons x xs)
  then have "toSortedBy cmp (x # xs) = insertBy cmp x xs" by (simp add: toSortedBy_def)
  with Cons show ?case by (cases xs) simp_all
qed (simp add: toSortedBy_def)

lemma sorted_wrt_subseq: "subseq xs ys \<Longrightarrow> sorted_wrt P ys \<Longrightarrow> sorted_wrt P xs"
  by (induction rule: list_emb.induct) (auto dest: list_emb_set)

text \<open>What the code promises of a path and of a variable it accepts.\<close>

definition safePath :: "string \<Rightarrow> bool" where
  "safePath p \<longleftrightarrow> p \<noteq> [] \<and> hd p = CHR ''/'' \<and> posixNormalizeAbsolute p = p \<and> (p = ''/'' \<or> last p \<noteq> CHR ''/'')
     \<and> set p \<inter> {CHR '':'', nul, CHR 0x0D, CHR 0x0A} = {}
     \<and> ''.'' \<notin> set (splitOn (CHR ''/'') p) \<and> ''..'' \<notin> set (splitOn (CHR ''/'') p)"

definition safeVariable :: "string \<times> string \<Rightarrow> bool" where
  "safeVariable e \<longleftrightarrow> vmEnvNamePattern (fst e) \<and> \<not> isBlockedVmEnvironmentName (fst e) \<and> trim (snd e) = snd e
     \<and> set (snd e) \<inter> {nul, CHR 0x0D, CHR 0x0A} = {} \<and> byteLength (snd e) \<le> MAX_VM_ENV_VALUE_BYTES"

lemma stripTrailing_last: "stripTrailing d s \<noteq> [] \<Longrightarrow> last (stripTrailing d s) \<noteq> d"
  using hd_dropWhile [of "\<lambda>c. c = d" "rev s"] by (simp add: stripTrailing_def last_rev)

lemma normalizePathEntry_safe: "normalizePathEntry v = Inr p \<Longrightarrow> safePath p"
  using stripTrailing_last
  by (fastforce simp: normalizePathEntry_def safePath_def Let_def list_ex_iff split: js_value.splits if_splits)

lemma normalizeVariable_safe: "normalizeVariable e = Inr x \<Longrightarrow> safeVariable x"
  by (auto simp: normalizeVariable_def safeVariable_def Let_def split: js_value.splits if_splits prod.splits)

lemma safePath_normal: "safePath p \<Longrightarrow> trim p = p \<Longrightarrow> normalizePathEntry (JStr p) = Inr p"
proof -
  assume s: "safePath p" and t: "trim p = p"
  have "stripTrailing (CHR ''/'') p = (if p = ''/'' then [] else p)"
  proof (cases "p = ''/''")
    case False
    then have "p \<noteq> []" "last p \<noteq> CHR ''/''" using s by (auto simp: safePath_def)
    then show ?thesis using False by (cases p rule: rev_cases) (auto simp: stripTrailing_def)
  qed (simp add: stripTrailing_def)
  then show ?thesis
    using s t by (auto simp: normalizePathEntry_def safePath_def Let_def list_ex_iff)
qed

lemma safeVariable_normal: "safeVariable e \<Longrightarrow> normalizeVariable (fst e, JStr (snd e)) = Inr e"
  by (auto simp: safeVariable_def normalizeVariable_def Let_def)


lemma normalizeEnvironment_Inr:
  assumes "normalizeVmHostExecutionEnvironment lib v = Inr (Some env)"
  obtains ps qs es vs where "mapResult normalizePathEntry ps = Inr qs" "length ps \<le> MAX_VM_PATH_ENTRIES"
    "ve_pathPrepend env = jsUnique qs"
    "mapResult normalizeVariable (toSortedBy (\<lambda>l r. nl_localeCompare lib (fst l) (fst r)) vs) = Inr es"
    "length vs \<le> MAX_VM_ENV_VARIABLES" "ve_variables env = fold assignVariable es []"
    "ve_pathPrepend env \<noteq> [] \<or> ve_variables env \<noteq> []"
  using assms
  by (auto simp: normalizeVmHostExecutionEnvironment_def Let_def split: js_value.splits if_splits sum.splits)

text \<open>
  An execution environment that is accepted is safe to prepend to a shell: at most 32 distinct
  absolute paths in normal form, without separators, control characters or dot segments, and at
  most 64 variables whose names are plain and not among the blocked ones and whose values are
  trimmed, bounded and on one line.
\<close>

theorem environment_safe:
  assumes "normalizeVmHostExecutionEnvironment lib v = Inr (Some env)"
  shows "length (ve_pathPrepend env) \<le> 32 \<and> distinct (ve_pathPrepend env) \<and> list_all safePath (ve_pathPrepend env)
    \<and> length (ve_variables env) \<le> 64 \<and> distinct (mapKeys (ve_variables env))
    \<and> list_all safeVariable (ve_variables env)"
proof -
  obtain ps qs es vs where n: "mapResult normalizePathEntry ps = Inr qs" "length ps \<le> MAX_VM_PATH_ENTRIES"
    "ve_pathPrepend env = jsUnique qs"
    "mapResult normalizeVariable (toSortedBy (\<lambda>l r. nl_localeCompare lib (fst l) (fst r)) vs) = Inr es"
    "length vs \<le> MAX_VM_ENV_VARIABLES" "ve_variables env = fold assignVariable es []"
    using assms by (rule normalizeEnvironment_Inr)
  obtain zs where "mapKeys (ve_variables env) = zs" "subseq zs (mapKeys es)"
    using assign_keys [of es "[]"] n(6) by auto
  then have "length (ve_variables env) \<le> length es"
    using list_emb_length [of "(=)" zs "mapKeys es"] by (metis length_map)
  moreover have "length es = length vs" using mapResult_length [OF n(4)] by simp
  moreover have "length (ve_pathPrepend env) \<le> length qs" using length_jsUnique n(3) by metis
  moreover have "length qs = length ps" using mapResult_length [OF n(1)] .
  moreover have "list_all safePath (ve_pathPrepend env)"
    using mapResult_set [OF n(1)] normalizePathEntry_safe by (auto simp: n(3) list_all_iff)
  moreover have "list_all safeVariable (ve_variables env)"
    using assign_set [of es "[]"] mapResult_set [OF n(4)] normalizeVariable_safe n(6)
    by (fastforce simp: list_all_iff)
  ultimately show ?thesis
    using n(2,5) assign_distinct [of "[]" es] n(3,6)
    by (simp add: MAX_VM_PATH_ENTRIES_def MAX_VM_ENV_VARIABLES_def)
qed

lemma mapResult_id:
  "(\<And>x. x \<in> set xs \<Longrightarrow> f (g x) = Inr x) \<Longrightarrow> mapResult f (map g xs) = Inr xs"
  by (induction xs) auto

lemma jsUnique_distinct: "distinct xs \<Longrightarrow> jsUnique xs = xs"
  by (simp add: jsUnique_def distinct_remdups_id)

text \<open>The parts of a validated environment are their own normal form.\<close>

lemma normal_paths:
  assumes "mapResult normalizePathEntry ps = Inr qs" and "\<forall>p \<in> set qs. trim p = p"
  shows "mapResult normalizePathEntry (map JStr (jsUnique qs)) = Inr (jsUnique qs)"
proof (rule mapResult_id)
  fix p
  assume p: "p \<in> set (jsUnique qs)"
  then obtain x where "normalizePathEntry x = Inr p" using mapResult_set [OF assms(1)] by auto
  then show "normalizePathEntry (JStr p) = Inr p"
    using safePath_normal normalizePathEntry_safe assms(2) p by (metis set_jsUnique)
qed

lemma normal_variables:
  assumes "mapResult normalizeVariable xs = Inr es"
  shows "mapResult normalizeVariable (map (\<lambda>(n, v). (n, JStr v)) (fold assignVariable es [])) = Inr (fold assignVariable es [])"
proof (rule mapResult_id)
  fix e
  assume "e \<in> set (fold assignVariable es [])"
  then have "e \<in> set es" using assign_set [of es "[]"] by auto
  then obtain x where "normalizeVariable x = Inr e" using mapResult_set [OF assms] by blast
  then have "normalizeVariable (fst e, JStr (snd e)) = Inr e"
    using safeVariable_normal normalizeVariable_safe by blast
  then show "normalizeVariable (case e of (n, v) \<Rightarrow> (n, JStr v)) = Inr e" by (cases e) simp
qed

lemma sorted_variables:
  fixes cmp :: "string \<Rightarrow> string \<Rightarrow> int" and vs :: "(string \<times> js_value) list"
  assumes "comparator cmp"
    and "mapResult normalizeVariable (toSortedBy (\<lambda>l r. cmp (fst l) (fst r)) vs) = Inr es"
  shows "sorted_wrt (\<lambda>x y. cmp x y \<le> 0) (mapKeys (fold assignVariable es []))"
    and "length (fold assignVariable es []) \<le> length vs"
proof -
  let ?cmp = "\<lambda>l r :: string \<times> js_value. cmp (fst l) (fst r)"
  have "list_all2 (\<lambda>x y. fst y = fst x) (toSortedBy ?cmp vs) es"
    using assms(2) unfolding mapResult_Inr
    by (rule list_all2_mono) (auto simp: normalizeVariable_def Let_def split: if_splits js_value.splits)
  then have keys: "mapKeys es = map fst (toSortedBy ?cmp vs)"
    by (simp add: list_all2_conv_all_nth list_eq_iff_nth_eq)
  have "comparator ?cmp"
    using assms(1) by (simp add: comparator_def)
  then have "sorted_wrt (\<lambda>x y. cmp x y \<le> 0) (mapKeys es)"
    using comparator.sorted_toSortedBy [of ?cmp vs] by (simp add: keys sorted_wrt_map)
  moreover have sub: "subseq (mapKeys (fold assignVariable es [])) (mapKeys es)"
    using assign_keys [of es "[]"] by auto
  ultimately show "sorted_wrt (\<lambda>x y. cmp x y \<le> 0) (mapKeys (fold assignVariable es []))"
    by (metis sorted_wrt_subseq)
  show "length (fold assignVariable es []) \<le> length vs"
    using list_emb_length [OF sub] mapResult_length [OF assms(2)] by simp
qed

text \<open>
  Storing an environment and reading it back is lossless when no path ends in white space: the
  text written parses to exactly the environment that was validated.
\<close>

theorem environment_roundtrip:
  assumes "normalizeVmHostExecutionEnvironment lib v = Inr (Some env)"
    and "comparator (nl_localeCompare lib)" and "\<forall>p \<in> set (ve_pathPrepend env). trim p = p"
  shows "\<exists>stored. serializeVmHostExecutionEnvironment lib v = Inr stored
    \<and> parseVmHostExecutionEnvironmentJson lib stored = Inr (Some env)"
proof -
  let ?cmp = "\<lambda>l r :: string \<times> js_value. nl_localeCompare lib (fst l) (fst r)"
  let ?paths = "ve_pathPrepend env" and ?vars = "ve_variables env"
  let ?raw = "map (\<lambda>(n, v). (n, JStr v)) ?vars"
  obtain ps qs es vs where n: "mapResult normalizePathEntry ps = Inr qs" "length ps \<le> MAX_VM_PATH_ENTRIES"
    "?paths = jsUnique qs" "mapResult normalizeVariable (toSortedBy ?cmp vs) = Inr es"
    "length vs \<le> MAX_VM_ENV_VARIABLES" "?vars = fold assignVariable es []"
    "?paths \<noteq> [] \<or> ?vars \<noteq> []"
    using assms(1) by (rule normalizeEnvironment_Inr)
  have paths: "mapResult normalizePathEntry (map JStr ?paths) = Inr ?paths"
    using normal_paths [OF n(1)] assms(3) by (simp add: n(3))
  have vars: "mapResult normalizeVariable ?raw = Inr ?vars"
    using normal_variables [OF n(4)] by (simp add: n(6))
  note sorted = sorted_variables [OF assms(2) n(4), folded n(6)]
  have "toSortedBy ?cmp ?raw = ?raw"
    using sorted(1) by (intro toSortedBy_sorted) (simp add: sorted_wrt_map split_beta)
  moreover have "fold assignVariable ?vars [] = ?vars"
    using assign_distinct [of "[]" es] assign_no_proto [of "[]" es] n(6)
    by (subst assign_id) simp_all
  moreover have "jsUnique ?paths = ?paths" by (simp add: n(3) jsUnique_distinct)
  moreover have "length ?paths \<le> MAX_VM_PATH_ENTRIES" "length ?vars \<le> MAX_VM_ENV_VARIABLES"
    using length_jsUnique [of qs] n(2,3) mapResult_length [OF n(1)] sorted(2) n(5) by simp_all
  ultimately have "normalizeVmHostExecutionEnvironment lib (environmentJson env) = Inr (Some env)"
    using paths vars n(7)
    by (simp add: environmentJson_def normalizeVmHostExecutionEnvironment_def fieldOr_def Let_def)
  then show ?thesis
    using assms(1)
    by (simp add: serializeVmHostExecutionEnvironment_def parseVmHostExecutionEnvironmentJson_def)
qed

section \<open>Concrete values\<close>

definition demoLib :: net_lib where
  "demoLib = \<lparr>nl_isIPv6 = (\<lambda>_. False), nl_ipv6Hostname = id, nl_domainToASCII = id,
     nl_sha256 = (\<lambda>_. replicate 32 0), nl_localeCompare = o_localeCompare demoOptions\<rparr>"

definition demoEnvironment :: js_value where
  "demoEnvironment =
     JObj [(''pathPrepend'', JArr [JStr '' /opt/bin/ '', JStr ''/opt/bin'']),
           (''variables'', JObj [(''LANG'', JStr '' C ''), (''EDITOR'', JStr ''vi'')])]"

definition demoNormal :: vm_environment where
  "demoNormal = \<lparr>ve_pathPrepend = [''/opt/bin''], ve_variables = [(''EDITOR'', ''vi''), (''LANG'', ''C'')]\<rparr>"

lemma demoEnvironment_run: "normalizeVmHostExecutionEnvironment demoLib demoEnvironment = Inr (Some demoNormal)"
  by code_simp

theorem environment_safe_witness: "list_all safePath [''/opt/bin'']"
  using environment_safe [OF demoEnvironment_run] by (simp add: demoNormal_def)

theorem environment_roundtrip_witness:
  "\<exists>stored. serializeVmHostExecutionEnvironment demoLib demoEnvironment = Inr stored
    \<and> parseVmHostExecutionEnvironmentJson demoLib stored = Inr (Some demoNormal)"
proof (rule environment_roundtrip [OF demoEnvironment_run])
  show "comparator (nl_localeCompare demoLib)"
    by unfold_locales (auto simp: demoLib_def demoOptions_def split: if_splits)
  have "trim ''/opt/bin'' = ''/opt/bin''" by code_simp
  then show "\<forall>p \<in> set (ve_pathPrepend demoNormal). trim p = p" by (simp add: demoNormal_def)
qed

theorem hostKey_canonical_witness:
  "\<exists>k. normalizeObservedOpenSshHostKey demoLib sshEd25519 (base64 (ed25519Blob (replicate 32 7))) = Inr k
    \<and> normalizeObservedOpenSshHostKey demoLib (hk_algorithm k) (hk_publicKey k) = Inr k"
proof -
  have "length (replicate 32 (7 :: 8 word)) = 32" by simp
  then obtain k where
    "normalizeObservedOpenSshHostKey demoLib sshEd25519 (base64 (ed25519Blob (replicate 32 7))) = Inr k"
    using hostKey_canonical [of demoLib sshEd25519 "base64 (ed25519Blob (replicate 32 7))"] by blast
  then show ?thesis
    using hostKey_canonical [of demoLib sshEd25519 "base64 (ed25519Blob (replicate 32 7))"] by blast
qed

text \<open>
  A path whose last component ends in a space before its final slash is stored with the space and
  read back without it.
\<close>

theorem environment_path_drifts:
  "(case serializeVmHostExecutionEnvironment demoLib (JObj [(''pathPrepend'', JArr [JStr ''/opt/a /''])]) of
      Inl _ \<Rightarrow> False
    | Inr stored \<Rightarrow> stored = Document (environmentJson \<lparr>ve_pathPrepend = [''/opt/a ''], ve_variables = []\<rparr>)
        \<and> parseVmHostExecutionEnvironmentJson demoLib stored
            = Inr (Some \<lparr>ve_pathPrepend = [''/opt/a''], ve_variables = []\<rparr>))"
  by code_simp

end
