(* ===== verification/ExecutionStore.thy ===== *)
theory ExecutionStore
  imports ControlStore ExecutionValidation
begin

text \<open>
  \<open>execution-memory-store.ts\<close>: SafeConnect endpoints, VM hosts and the allocation of VM accounts to
  personal agents. The store asks its host who is an administrator, which binding an agent has and
  for ids and audit events; that is the locale \<open>execution_host\<close>, interpreted on the control
  plane store.
\<close>

section \<open>Data\<close>

datatype endpoint_status = EndpointPending | EndpointActive | EndpointDisabled

datatype vm_host_status = VmHostActive | VmHostDisabled

datatype allocation_status =
    AllocAssigned | AllocReady | AllocConnectionRequired | AllocRevoked

record endpoint =
  e_id :: string
  e_label :: string
  e_host :: string
  e_port :: int
  e_adDomain :: string
  e_status :: endpoint_status
  e_hostKeyAlgorithm :: "string option"
  e_hostKeyPublicKey :: "string option"
  e_hostKeyFingerprint :: "string option"
  e_hostKeyApprovedByUserId :: "string option"
  e_hostKeyApprovedAt :: "int option"
  e_createdByUserId :: string
  e_createdAt :: int
  e_updatedAt :: int

record vm_host =
  v_id :: string
  v_endpointId :: string
  v_label :: string
  v_targetAddress :: string
  v_status :: vm_host_status
  v_executionEnvironment :: "vm_environment option"
  v_createdByUserId :: string
  v_createdAt :: int
  v_updatedAt :: int

text \<open>The fields of an allocation that this store writes; it never sets the optional ones.\<close>

record allocation =
  a_id :: string
  a_agentBindingId :: string
  a_vmHostId :: string
  a_linuxAccount :: string
  a_status :: allocation_status
  a_createdByUserId :: string
  a_createdAt :: int
  a_updatedAt :: int

record vm_allocation_row =
  ar_allocation :: allocation
  ar_agentId :: string
  ar_accountId :: string
  ar_displayName :: "string option"
  ar_vmLabel :: string

record vm_snapshot =
  sn_endpoints :: "endpoint list"
  sn_hosts :: "vm_host list"
  sn_agents :: "vm_agent list"
  sn_allocations :: "vm_allocation_row list"

section \<open>Host and state\<close>

record 'h exec_host =
  eh_requireAdmin :: "'h \<Rightarrow> string \<Rightarrow> error + unit"
  eh_getPersonalBinding :: "'h \<Rightarrow> string \<Rightarrow> agent_binding option"
  eh_listPersonalAgents :: "'h \<Rightarrow> vm_agent list"
  eh_recordAudit :: "audit_params \<Rightarrow> 'h \<Rightarrow> (error + unit) \<times> 'h"
  eh_nextId :: "resource_kind \<Rightarrow> 'h \<Rightarrow> string \<times> 'h"

record exec =
  x_endpoints :: "(string, endpoint) jsmap"
  x_endpointIdByAddress :: "(string, string) jsmap"
  x_hosts :: "(string, vm_host) jsmap"
  x_hostIdByTarget :: "(string, string) jsmap"
  x_allocations :: "(string, allocation) jsmap"
  x_allocationIdByAgentBindingId :: "(string, string) jsmap"
  x_allocationIdByLinuxAccount :: "(string, string) jsmap"

definition emptyExec :: exec where
  "emptyExec = \<lparr>x_endpoints = [], x_endpointIdByAddress = [], x_hosts = [], x_hostIdByTarget = [],
     x_allocations = [], x_allocationIdByAgentBindingId = [], x_allocationIdByLinuxAccount = []\<rparr>"

type_synonym 'h exec_state = "exec \<times> 'h"

fun showNat :: "nat \<Rightarrow> string" where
  "showNat n = (if n < 10 then [char_of (48 + n)] else showNat (n div 10) @ [char_of (48 + n mod 10)])"

declare showNat.simps [simp del]

definition addressKey :: "string \<Rightarrow> int \<Rightarrow> string" where
  "addressKey host port = host @ nul # showNat (nat port)"

definition execAudit ::
    "string \<Rightarrow> string \<Rightarrow> string \<Rightarrow> string \<Rightarrow> int \<Rightarrow> (string \<times> detail) list option \<Rightarrow> audit_params" where
  "execAudit actor eventType targetType targetId at details =
     \<lparr>ap_actorUserId = Some actor, ap_eventType = eventType, ap_targetType = targetType,
      ap_targetId = targetId, ap_details = details, ap_createdAt = at\<rparr>"

section \<open>Operations\<close>

definition createSafeConnectEndpoint ::
    "net_lib \<Rightarrow> 'h exec_host \<Rightarrow> string \<Rightarrow> string \<Rightarrow> string \<Rightarrow> js_number \<Rightarrow> string \<Rightarrow> int
     \<Rightarrow> 'h exec_state \<Rightarrow> (error + endpoint) \<times> 'h exec_state" where
  "createSafeConnectEndpoint lib H actor label rawHost port adDomain createdAt s =
     (case s of (x, h) \<Rightarrow>
     orThrow (eh_requireAdmin H h actor) s (\<lambda>_.
       case port of
         OtherNumber \<Rightarrow> (Inl (StateError ''SafeConnect port must be an integer from 1 to 65535'' []), s)
       | IntegerNumber p \<Rightarrow>
         if p < 1 \<or> p > 65535
         then (Inl (StateError ''SafeConnect port must be an integer from 1 to 65535'' []), s)
         else
         orThrow (normalizeSafeConnectHost lib rawHost) s (\<lambda>host.
           if mapHas (x_endpointIdByAddress x) (addressKey host p)
           then (Inl (ConflictError SafeconnectEndpointConflict), s)
           else
             let (eid, h1) = eh_nextId H SafeConnectEndpointKind h in
             orThrow (requireNonEmpty label ''endpoint.label'') (x, h1) (\<lambda>label1.
             orThrow (normalizeAdDomain lib adDomain) (x, h1) (\<lambda>domain.
               let ep =
                     \<lparr>e_id = eid, e_label = label1, e_host = host, e_port = p, e_adDomain = domain,
                      e_status = EndpointPending, e_hostKeyAlgorithm = None, e_hostKeyPublicKey = None,
                      e_hostKeyFingerprint = None, e_hostKeyApprovedByUserId = None,
                      e_hostKeyApprovedAt = None, e_createdByUserId = actor,
                      e_createdAt = createdAt, e_updatedAt = createdAt\<rparr>;
                   x1 = x\<lparr>x_endpoints := mapSet (x_endpoints x) eid ep,
                          x_endpointIdByAddress := mapSet (x_endpointIdByAddress x) (addressKey host p) eid\<rparr>;
                   (audited, h2) =
                     eh_recordAudit H
                       (execAudit actor ''safeconnect.endpoint.created'' ''safeconnect-endpoint'' eid createdAt None) h1
               in orThrow audited (x1, h2) (\<lambda>_. (Inr ep, (x1, h2))))))))"

definition approveSafeConnectHostKey ::
    "net_lib \<Rightarrow> 'h exec_host \<Rightarrow> string \<Rightarrow> string \<Rightarrow> string \<Rightarrow> string \<Rightarrow> string \<Rightarrow> int
     \<Rightarrow> 'h exec_state \<Rightarrow> (error + endpoint) \<times> 'h exec_state" where
  "approveSafeConnectHostKey lib H actor endpointId algorithm publicKey fingerprint approvedAt s =
     (case s of (x, h) \<Rightarrow>
     orThrow (eh_requireAdmin H h actor) s (\<lambda>_.
       case mapGet (x_endpoints x) endpointId of
         None \<Rightarrow> (Inl (StateError ''SafeConnect endpoint not found'' [endpointId]), s)
       | Some ep \<Rightarrow>
           orThrow (normalizeOpenSshHostKey lib algorithm publicKey fingerprint) s (\<lambda>hostKey.
             let ep1 =
                   ep\<lparr>e_hostKeyAlgorithm := Some (hk_algorithm hostKey),
                      e_hostKeyPublicKey := Some (hk_publicKey hostKey),
                      e_hostKeyFingerprint := Some (hk_fingerprint hostKey),
                      e_hostKeyApprovedByUserId := Some actor, e_hostKeyApprovedAt := Some approvedAt,
                      e_status := EndpointActive, e_updatedAt := approvedAt\<rparr>;
                 x1 = x\<lparr>x_endpoints := mapSet (x_endpoints x) endpointId ep1\<rparr>;
                 (audited, h1) =
                   eh_recordAudit H
                     (execAudit actor ''safeconnect.host-key.approved'' ''safeconnect-endpoint'' (e_id ep1)
                       approvedAt (Some [(''fingerprint'', DStr (hk_fingerprint hostKey))])) h
             in orThrow audited (x1, h1) (\<lambda>_. (Inr ep1, (x1, h1))))))"

definition createVmHost ::
    "net_lib \<Rightarrow> 'h exec_host \<Rightarrow> string \<Rightarrow> string \<Rightarrow> string \<Rightarrow> string \<Rightarrow> js_value \<Rightarrow> int
     \<Rightarrow> 'h exec_state \<Rightarrow> (error + vm_host) \<times> 'h exec_state" where
  "createVmHost lib H actor endpointId label rawTarget rawEnvironment createdAt s =
     (case s of (x, h) \<Rightarrow>
     orThrow (eh_requireAdmin H h actor) s (\<lambda>_.
       case mapGet (x_endpoints x) endpointId of
         None \<Rightarrow> (Inl (StateError ''VM host requires an active, pinned SafeConnect endpoint'' []), s)
       | Some ep \<Rightarrow>
         if e_status ep \<noteq> EndpointActive
         then (Inl (StateError ''VM host requires an active, pinned SafeConnect endpoint'' []), s)
         else
         orThrow (normalizeVmTargetAddress lib rawTarget) s (\<lambda>targetAddress.
         orThrow (normalizeVmHostExecutionEnvironment lib rawEnvironment) s (\<lambda>executionEnvironment.
           let targetKey = e_id ep @ nul # targetAddress in
           if mapHas (x_hostIdByTarget x) targetKey then (Inl (ConflictError VmHostConflict), s)
           else
             let (hid, h1) = eh_nextId H VmHostKind h in
             orThrow (requireNonEmpty label ''vmHost.label'') (x, h1) (\<lambda>label1.
               let host =
                     \<lparr>v_id = hid, v_endpointId = e_id ep, v_label = label1, v_targetAddress = targetAddress,
                      v_status = VmHostActive, v_executionEnvironment = executionEnvironment,
                      v_createdByUserId = actor, v_createdAt = createdAt, v_updatedAt = createdAt\<rparr>;
                   x1 = x\<lparr>x_hosts := mapSet (x_hosts x) hid host,
                          x_hostIdByTarget := mapSet (x_hostIdByTarget x) targetKey hid\<rparr>;
                   (audited, h2) =
                     eh_recordAudit H (execAudit actor ''vm.host.created'' ''vm-host'' hid createdAt None) h1
               in orThrow audited (x1, h2) (\<lambda>_. (Inr host, (x1, h2))))))))"

definition assignVmToPersonalAgent ::
    "'h exec_host \<Rightarrow> string \<Rightarrow> string \<Rightarrow> string \<Rightarrow> string \<Rightarrow> int
     \<Rightarrow> 'h exec_state \<Rightarrow> (error + allocation) \<times> 'h exec_state" where
  "assignVmToPersonalAgent H actor agentId vmHostId rawAccount assignedAt s =
     (case s of (x, h) \<Rightarrow>
     orThrow (eh_requireAdmin H h actor) s (\<lambda>_.
       case eh_getPersonalBinding H h agentId of
         None \<Rightarrow> (Inl (StateError ''active personal agent not found'' [agentId]), s)
       | Some binding \<Rightarrow>
         if b_state binding \<noteq> AgentActive
         then (Inl (StateError ''active personal agent not found'' [agentId]), s)
         else
         (case mapGet (x_hosts x) vmHostId of
            None \<Rightarrow> (Inl (StateError ''active VM host not found'' [vmHostId]), s)
          | Some host \<Rightarrow>
            if v_status host \<noteq> VmHostActive
            then (Inl (StateError ''active VM host not found'' [vmHostId]), s)
            else if mapHas (x_allocationIdByAgentBindingId x) (b_id binding)
            then (Inl (ConflictError VmAllocationConflict), s)
            else
            orThrow (requireNonEmpty rawAccount ''allocation.linuxAccount'') s (\<lambda>linuxAccount.
              let accountKey = v_id host @ nul # linuxAccount in
              if mapHas (x_allocationIdByLinuxAccount x) accountKey
              then (Inl (ConflictError VmAllocationConflict), s)
              else
                let (aid, h1) = eh_nextId H VmAllocationKind h;
                    alloc =
                      \<lparr>a_id = aid, a_agentBindingId = b_id binding, a_vmHostId = v_id host,
                       a_linuxAccount = linuxAccount, a_status = AllocAssigned,
                       a_createdByUserId = actor, a_createdAt = assignedAt, a_updatedAt = assignedAt\<rparr>;
                    x1 = x\<lparr>x_allocations := mapSet (x_allocations x) aid alloc,
                           x_allocationIdByAgentBindingId :=
                             mapSet (x_allocationIdByAgentBindingId x) (b_id binding) aid,
                           x_allocationIdByLinuxAccount :=
                             mapSet (x_allocationIdByLinuxAccount x) accountKey aid\<rparr>;
                    (audited, h2) =
                      eh_recordAudit H
                        (execAudit actor ''vm.allocation.created'' ''vm-allocation'' aid assignedAt
                          (Some [(''agentBindingId'', DStr (b_id binding)), (''vmHostId'', DStr (v_id host)),
                                 (''linuxAccount'', DStr linuxAccount)])) h1
                in orThrow audited (x1, h2) (\<lambda>_. (Inr alloc, (x1, h2)))))))"

definition getVmAllocationForAgent :: "'h exec_host \<Rightarrow> string \<Rightarrow> 'h exec_state \<Rightarrow> allocation option" where
  "getVmAllocationForAgent H agentId s =
     (case s of (x, h) \<Rightarrow>
      (case eh_getPersonalBinding H h agentId of
         None \<Rightarrow> None
       | Some binding \<Rightarrow>
           (case mapGet (x_allocationIdByAgentBindingId x) (b_id binding) of
              None \<Rightarrow> None | Some aid \<Rightarrow> mapGet (x_allocations x) aid)))"

definition snapshotAgents :: "net_lib \<Rightarrow> 'h exec_host \<Rightarrow> 'h exec_state \<Rightarrow> vm_agent list" where
  "snapshotAgents lib H s =
     (case s of (x, h) \<Rightarrow>
      toSortedBy (\<lambda>l r. nl_localeCompare lib (va_accountId l) (va_accountId r))
        (map (\<lambda>agent.
           case (case eh_getPersonalBinding H h (va_agentId agent) of
                   None \<Rightarrow> None
                 | Some binding \<Rightarrow> mapGet (x_allocationIdByAgentBindingId x) (b_id binding)) of
             None \<Rightarrow> agent | Some aid \<Rightarrow> agent\<lparr>va_allocationId := Some aid\<rparr>)
          (eh_listPersonalAgents H h)))"

definition getVmAdministrationSnapshot ::
    "net_lib \<Rightarrow> 'h exec_host \<Rightarrow> string \<Rightarrow> 'h exec_state \<Rightarrow> error + vm_snapshot" where
  "getVmAdministrationSnapshot lib H actor s =
     (case s of (x, h) \<Rightarrow>
      (case eh_requireAdmin H h actor of Inl e \<Rightarrow> Inl e | Inr _ \<Rightarrow>
        let agents = snapshotAgents lib H s;
            agentsByBindingId =
              fold (\<lambda>agent m. case eh_getPersonalBinding H h (va_agentId agent) of
                  None \<Rightarrow> m | Some binding \<Rightarrow> mapSet m (b_id binding) agent) agents []
        in
        Inr \<lparr>sn_endpoints = toSortedBy (\<lambda>l r. nl_localeCompare lib (e_label l) (e_label r)) (mapValues (x_endpoints x)),
             sn_hosts = toSortedBy (\<lambda>l r. nl_localeCompare lib (v_label l) (v_label r)) (mapValues (x_hosts x)),
             sn_agents = agents,
             sn_allocations =
               toSortedBy (\<lambda>l r. nl_localeCompare lib (ar_accountId l) (ar_accountId r))
                 (concat (map (\<lambda>alloc.
                    case (mapGet agentsByBindingId (a_agentBindingId alloc), mapGet (x_hosts x) (a_vmHostId alloc)) of
                      (Some agent, Some host) \<Rightarrow>
                        [\<lparr>ar_allocation = alloc, ar_agentId = va_agentId agent, ar_accountId = va_accountId agent,
                          ar_displayName = truthy (va_displayName agent), ar_vmLabel = v_label host\<rparr>]
                    | _ \<Rightarrow> []) (mapValues (x_allocations x))))\<rparr>))"

section \<open>The host on the control plane store\<close>

definition requireAdmin :: "mem \<Rightarrow> string \<Rightarrow> error + unit" where
  "requireAdmin s actorUserId =
     (case requireUser actorUserId s of Inl e \<Rightarrow> Inl e | Inr actor \<Rightarrow>
        if u_status actor \<noteq> UserActive \<or> u_globalRole actor \<noteq> GlobalAdmin
        then Inl (AuthorizationError ''active administrator required'') else Inr ())"

definition getPersonalBinding :: "mem \<Rightarrow> string \<Rightarrow> agent_binding option" where
  "getPersonalBinding s agentId =
     (case mapGet (bindingIdByAgentId s) agentId of
        None \<Rightarrow> None
      | Some bid \<Rightarrow>
          (case mapGet (bindings s) bid of
             None \<Rightarrow> None | Some b \<Rightarrow> if isPersonal b then Some b else None))"

definition memExecHost :: "store_options \<Rightarrow> mem exec_host" where
  "memExecHost opts =
     \<lparr>eh_requireAdmin = requireAdmin, eh_getPersonalBinding = getPersonalBinding,
      eh_listPersonalAgents = (\<lambda>s. listActivePersonalAgents (mapValues (bindings s)) (users s)),
      eh_recordAudit =
        (\<lambda>ap s. case appendAuditEvent opts ap s of (Inl e, t) \<Rightarrow> (Inl e, t) | (Inr _, t) \<Rightarrow> (Inr (), t)),
      eh_nextId = (\<lambda>kind. takeId opts (ExecutionResourceId kind))\<rparr>"

section \<open>Well-formed execution stores\<close>

text \<open>An approved key: the stored key is an Ed25519 key in canonical form with its fingerprint.\<close>

definition pinned :: "net_lib \<Rightarrow> endpoint \<Rightarrow> bool" where
  "pinned lib ep \<longleftrightarrow> e_status ep = EndpointActive
     \<and> (\<exists>k. normalizeObservedOpenSshHostKey lib sshEd25519 (hk_publicKey k) = Inr k
          \<and> e_hostKeyAlgorithm ep = Some (hk_algorithm k) \<and> e_hostKeyPublicKey ep = Some (hk_publicKey k)
          \<and> e_hostKeyFingerprint ep = Some (hk_fingerprint k)) \<and> e_hostKeyApprovedByUserId ep \<noteq> None"

text \<open>
  Everything is stored under its id, and its index entry finds it; an active endpoint has a pinned
  key, a host belongs to an active endpoint, an allocation to a host. \<open>iss\<close> tells the ids issued.
\<close>

definition okEndpoint :: "net_lib \<Rightarrow> (resource_kind \<Rightarrow> string \<Rightarrow> bool) \<Rightarrow> exec \<Rightarrow> string \<Rightarrow> endpoint \<Rightarrow> bool" where
  "okEndpoint lib iss x k e \<longleftrightarrow>
     e_id e = k \<and> iss SafeConnectEndpointKind k \<and> trim k \<noteq> [] \<and> 1 \<le> e_port e \<and> e_port e \<le> 65535
     \<and> mapGet (x_endpointIdByAddress x) (addressKey (e_host e) (e_port e)) = Some k
     \<and> (e_status e = EndpointActive \<longrightarrow> pinned lib e)"

definition okHost :: "net_lib \<Rightarrow> (resource_kind \<Rightarrow> string \<Rightarrow> bool) \<Rightarrow> exec \<Rightarrow> string \<Rightarrow> vm_host \<Rightarrow> bool" where
  "okHost lib iss x k v \<longleftrightarrow>
     v_id v = k \<and> iss VmHostKind k
     \<and> mapGet (x_hostIdByTarget x) (v_endpointId v @ nul # v_targetAddress v) = Some k
     \<and> (\<exists>e. mapGet (x_endpoints x) (v_endpointId v) = Some e \<and> pinned lib e)"

definition okAllocation :: "(resource_kind \<Rightarrow> string \<Rightarrow> bool) \<Rightarrow> exec \<Rightarrow> string \<Rightarrow> allocation \<Rightarrow> bool" where
  "okAllocation iss x k a \<longleftrightarrow>
     a_id a = k \<and> iss VmAllocationKind k
     \<and> mapGet (x_allocationIdByAgentBindingId x) (a_agentBindingId a) = Some k
     \<and> mapGet (x_allocationIdByLinuxAccount x) (a_vmHostId a @ nul # a_linuxAccount a) = Some k
     \<and> mapHas (x_hosts x) (a_vmHostId a)"

definition wfExec :: "net_lib \<Rightarrow> (resource_kind \<Rightarrow> string \<Rightarrow> bool) \<Rightarrow> exec \<Rightarrow> bool" where
  "wfExec lib iss x \<longleftrightarrow>
     (\<forall>k e. mapGet (x_endpoints x) k = Some e \<longrightarrow> okEndpoint lib iss x k e)
     \<and> (\<forall>k v. mapGet (x_hosts x) k = Some v \<longrightarrow> okHost lib iss x k v)
     \<and> (\<forall>k a. mapGet (x_allocations x) k = Some a \<longrightarrow> okAllocation iss x k a)
     \<and> (\<forall>b k. mapGet (x_allocationIdByAgentBindingId x) b = Some k \<longrightarrow>
        (\<exists>a. mapGet (x_allocations x) k = Some a \<and> a_agentBindingId a = b))"

lemma wfExecI:
  assumes "\<And>k e. mapGet (x_endpoints x) k = Some e \<Longrightarrow> okEndpoint lib iss x k e"
    and "\<And>k v. mapGet (x_hosts x) k = Some v \<Longrightarrow> okHost lib iss x k v"
    and "\<And>k a. mapGet (x_allocations x) k = Some a \<Longrightarrow> okAllocation iss x k a"
    and "\<And>b k. mapGet (x_allocationIdByAgentBindingId x) b = Some k \<Longrightarrow>
      \<exists>a. mapGet (x_allocations x) k = Some a \<and> a_agentBindingId a = b"
  shows "wfExec lib iss x"
  using assms unfolding wfExec_def by blast

lemma wfExecD:
  assumes "wfExec lib iss x"
  shows "mapGet (x_endpoints x) k = Some e \<Longrightarrow> okEndpoint lib iss x k e"
    and "mapGet (x_hosts x) k = Some v \<Longrightarrow> okHost lib iss x k v"
    and "mapGet (x_allocations x) k = Some a \<Longrightarrow> okAllocation iss x k a"
    and "mapGet (x_allocationIdByAgentBindingId x) b = Some k \<Longrightarrow>
      \<exists>a. mapGet (x_allocations x) k = Some a \<and> a_agentBindingId a = b"
  using assms unfolding wfExec_def by blast+

lemma wfExec_empty: "wfExec lib iss emptyExec"
  by (simp add: wfExec_def emptyExec_def)

lemma wfExec_mono:
  assumes "wfExec lib iss x" and "\<And>k i. iss k i \<Longrightarrow> iss' k i"
  shows "wfExec lib iss' x"
proof (rule wfExecI)
  fix k e assume "mapGet (x_endpoints x) k = Some e"
  from wfExecD(1) [OF assms(1) this] show "okEndpoint lib iss' x k e" using assms(2) by (simp add: okEndpoint_def)
next
  fix k v assume "mapGet (x_hosts x) k = Some v"
  from wfExecD(2) [OF assms(1) this] show "okHost lib iss' x k v" using assms(2) by (simp add: okHost_def)
next
  fix k a assume "mapGet (x_allocations x) k = Some a"
  from wfExecD(3) [OF assms(1) this] show "okAllocation iss' x k a" using assms(2) by (simp add: okAllocation_def)
qed (use wfExecD(4) [OF assms(1)] in simp)

lemma wfExec_addEndpoint:
  assumes wf: "wfExec lib iss x" and fresh: "\<not> iss SafeConnectEndpointKind (e_id ep)"
    and mono: "\<And>k i. iss k i \<Longrightarrow> iss' k i" and new: "iss' SafeConnectEndpointKind (e_id ep)"
    and ep: "trim (e_id ep) \<noteq> []" "1 \<le> e_port ep" "e_port ep \<le> 65535" "e_status ep = EndpointPending"
    and free: "mapGet (x_endpointIdByAddress x) (addressKey (e_host ep) (e_port ep)) = None"
  shows "wfExec lib iss' (x\<lparr>x_endpoints := mapSet (x_endpoints x) (e_id ep) ep,
    x_endpointIdByAddress := mapSet (x_endpointIdByAddress x) (addressKey (e_host ep) (e_port ep)) (e_id ep)\<rparr>)"
    (is "wfExec lib iss' ?x")
proof (rule wfExecI)
  fix k e assume e: "mapGet (x_endpoints ?x) k = Some e"
  show "okEndpoint lib iss' ?x k e"
  proof (cases "k = e_id ep")
    case True
    with e new ep show ?thesis by (simp add: okEndpoint_def)
  next
    case False
    with e have ok: "okEndpoint lib iss x k e" using wfExecD(1) [OF wf] by simp
    then have "addressKey (e_host e) (e_port e) \<noteq> addressKey (e_host ep) (e_port ep)"
      using free by (auto simp: okEndpoint_def)
    with ok mono show ?thesis by (simp add: okEndpoint_def)
  qed
next
  fix k v assume "mapGet (x_hosts ?x) k = Some v"
  then have ok: "okHost lib iss x k v" using wfExecD(2) [OF wf] by simp
  then obtain e where e: "mapGet (x_endpoints x) (v_endpointId v) = Some e" "pinned lib e"
    by (auto simp: okHost_def)
  then have "v_endpointId v \<noteq> e_id ep"
    using wfExecD(1) [OF wf e(1)] fresh by (auto simp: okEndpoint_def)
  with ok e mono show "okHost lib iss' ?x k v" by (simp add: okHost_def)
next
  fix k a assume "mapGet (x_allocations ?x) k = Some a"
  then have "okAllocation iss x k a" using wfExecD(3) [OF wf] by simp
  with mono show "okAllocation iss' ?x k a" by (simp add: okAllocation_def)
qed (use wfExecD(4) [OF wf] in simp)

lemma wfExec_pin:
  assumes wf: "wfExec lib iss x" and ep: "mapGet (x_endpoints x) k = Some ep"
    and same: "e_id ep1 = e_id ep" "e_host ep1 = e_host ep" "e_port ep1 = e_port ep" and pin: "pinned lib ep1"
  shows "wfExec lib iss (x\<lparr>x_endpoints := mapSet (x_endpoints x) k ep1\<rparr>)" (is "wfExec lib iss ?x")
proof (rule wfExecI)
  fix j e assume e: "mapGet (x_endpoints ?x) j = Some e"
  show "okEndpoint lib iss ?x j e"
  proof (cases "j = k")
    case True
    with e same pin wfExecD(1) [OF wf ep] show ?thesis by (simp add: okEndpoint_def)
  next
    case False
    with e wfExecD(1) [OF wf, of j e] show ?thesis by (simp add: okEndpoint_def)
  qed
next
  fix j v assume "mapGet (x_hosts ?x) j = Some v"
  then have "okHost lib iss x j v" using wfExecD(2) [OF wf] by simp
  with pin show "okHost lib iss ?x j v" by (auto simp: okHost_def)
next
  fix j a assume "mapGet (x_allocations ?x) j = Some a"
  then have "okAllocation iss x j a" using wfExecD(3) [OF wf] by simp
  then show "okAllocation iss ?x j a" by (simp add: okAllocation_def)
qed (use wfExecD(4) [OF wf] in simp)

lemma wfExec_addHost:
  assumes wf: "wfExec lib iss x"
    and mono: "\<And>k i. iss k i \<Longrightarrow> iss' k i" and new: "iss' VmHostKind (v_id v)"
    and ep: "\<exists>e. mapGet (x_endpoints x) (v_endpointId v) = Some e \<and> pinned lib e"
    and free: "mapGet (x_hostIdByTarget x) (v_endpointId v @ nul # v_targetAddress v) = None"
  shows "wfExec lib iss' (x\<lparr>x_hosts := mapSet (x_hosts x) (v_id v) v,
    x_hostIdByTarget := mapSet (x_hostIdByTarget x) (v_endpointId v @ nul # v_targetAddress v) (v_id v)\<rparr>)"
    (is "wfExec lib iss' ?x")
proof (rule wfExecI)
  fix k w assume w: "mapGet (x_hosts ?x) k = Some w"
  show "okHost lib iss' ?x k w"
  proof (cases "k = v_id v")
    case True
    with w new ep show ?thesis by (simp add: okHost_def)
  next
    case False
    with w have ok: "okHost lib iss x k w" using wfExecD(2) [OF wf] by simp
    then have "v_endpointId w @ nul # v_targetAddress w \<noteq> v_endpointId v @ nul # v_targetAddress v"
      using free by (auto simp only: okHost_def)
    with ok mono show ?thesis by (simp add: okHost_def)
  qed
next
  fix k e assume "mapGet (x_endpoints ?x) k = Some e"
  then have "okEndpoint lib iss x k e" using wfExecD(1) [OF wf] by simp
  with mono show "okEndpoint lib iss' ?x k e" by (simp add: okEndpoint_def)
next
  fix k a assume "mapGet (x_allocations ?x) k = Some a"
  then have "okAllocation iss x k a" using wfExecD(3) [OF wf] by simp
  with mono show "okAllocation iss' ?x k a" by (simp add: okAllocation_def)
qed (use wfExecD(4) [OF wf] in simp)

lemma wfExec_addAllocation:
  assumes wf: "wfExec lib iss x" and fresh: "\<not> iss VmAllocationKind (a_id a)"
    and mono: "\<And>k i. iss k i \<Longrightarrow> iss' k i" and new: "iss' VmAllocationKind (a_id a)"
    and host: "mapHas (x_hosts x) (a_vmHostId a)"
    and free: "mapGet (x_allocationIdByAgentBindingId x) (a_agentBindingId a) = None"
      "mapGet (x_allocationIdByLinuxAccount x) (a_vmHostId a @ nul # a_linuxAccount a) = None"
  shows "wfExec lib iss' (x\<lparr>x_allocations := mapSet (x_allocations x) (a_id a) a,
    x_allocationIdByAgentBindingId := mapSet (x_allocationIdByAgentBindingId x) (a_agentBindingId a) (a_id a),
    x_allocationIdByLinuxAccount :=
      mapSet (x_allocationIdByLinuxAccount x) (a_vmHostId a @ nul # a_linuxAccount a) (a_id a)\<rparr>)"
    (is "wfExec lib iss' ?x")
proof (rule wfExecI)
  fix k b assume b: "mapGet (x_allocations ?x) k = Some b"
  show "okAllocation iss' ?x k b"
  proof (cases "k = a_id a")
    case True
    with b new host show ?thesis by (simp add: okAllocation_def)
  next
    case False
    with b have ok: "okAllocation iss x k b" using wfExecD(3) [OF wf] by simp
    then have "a_agentBindingId b \<noteq> a_agentBindingId a" "a_vmHostId b @ nul # a_linuxAccount b \<noteq> a_vmHostId a @ nul # a_linuxAccount a"
      using free by (auto simp only: okAllocation_def)
    with ok mono show ?thesis by (simp add: okAllocation_def)
  qed
next
  fix k e assume "mapGet (x_endpoints ?x) k = Some e"
  then have "okEndpoint lib iss x k e" using wfExecD(1) [OF wf] by simp
  with mono show "okEndpoint lib iss' ?x k e" by (simp add: okEndpoint_def)
next
  fix k v assume "mapGet (x_hosts ?x) k = Some v"
  then have "okHost lib iss x k v" using wfExecD(2) [OF wf] by simp
  with mono show "okHost lib iss' ?x k v" by (simp add: okHost_def)
next
  fix i k assume i: "mapGet (x_allocationIdByAgentBindingId ?x) i = Some k"
  have none: "mapGet (x_allocations x) (a_id a) = None"
    using wfExecD(3) [OF wf, of "a_id a"] fresh by (cases "mapGet (x_allocations x) (a_id a)") (auto simp: okAllocation_def)
  show "\<exists>b. mapGet (x_allocations ?x) k = Some b \<and> a_agentBindingId b = i"
    using i wfExecD(4) [OF wf, of i k] none by (auto split: if_splits)
qed

section \<open>The interface\<close>

text \<open>
  What the execution store relies on: an event with non-blank fields is recorded without an error,
  ids are not blank and never repeat; \<open>iss\<close> is the set of ids given so far.
\<close>

locale execution_host =
  fixes H :: "'h exec_host" and iss :: "'h \<Rightarrow> resource_kind \<Rightarrow> string \<Rightarrow> bool"
  assumes audit_ok: "trim (ap_eventType ap) \<noteq> [] \<Longrightarrow> trim (ap_targetType ap) \<noteq> [] \<Longrightarrow> trim (ap_targetId ap) \<noteq> []
      \<Longrightarrow> fst (eh_recordAudit H ap h) = Inr ()"
    and audit_iss: "iss h k i \<Longrightarrow> iss (snd (eh_recordAudit H ap h)) k i"
    and id_iss: "iss h k i \<Longrightarrow> iss (snd (eh_nextId H kind h)) k i"
    and id_new: "iss (snd (eh_nextId H kind h)) kind (fst (eh_nextId H kind h))"
    and id_fresh: "\<not> iss h kind (fst (eh_nextId H kind h))"
    and id_nonblank: "trim (fst (eh_nextId H kind h)) \<noteq> []"
begin

lemma audit_names:
  "trim ''safeconnect.endpoint.created'' = ''safeconnect.endpoint.created''"
  "trim ''safeconnect.host-key.approved'' = ''safeconnect.host-key.approved''"
  "trim ''vm.host.created'' = ''vm.host.created''" "trim ''vm.allocation.created'' = ''vm.allocation.created''"
  "trim ''safeconnect-endpoint'' = ''safeconnect-endpoint''" "trim ''vm-host'' = ''vm-host''"
  "trim ''vm-allocation'' = ''vm-allocation''"
  by code_simp+

lemma execAudit_ok:
  assumes "trim ev \<noteq> []" "trim tt \<noteq> []" "trim i \<noteq> []"
  obtains h' where "eh_recordAudit H (execAudit a ev tt i t d) h = (Inr (), h')"
    "\<And>k j. iss h k j \<Longrightarrow> iss h' k j"
proof -
  let ?r = "eh_recordAudit H (execAudit a ev tt i t d) h"
  have "fst ?r = Inr ()" by (rule audit_ok) (use assms in \<open>simp_all add: execAudit_def\<close>)
  then have "?r = (Inr (), snd ?r)" by (simp add: prod_eq_iff)
  with that audit_iss show ?thesis by blast
qed

lemma createEndpoint_wf:
  assumes wf: "wfExec lib (iss h) x"
    and run: "createSafeConnectEndpoint lib H actor label host port ad t (x, h) = (out, (x', h'))"
  shows "wfExec lib (iss h') x' \<and> (\<forall>k i. iss h k i \<longrightarrow> iss h' k i)"
proof -
  obtain i h1 where i: "eh_nextId H SafeConnectEndpointKind h = (i, h1)" by force
  have iss1: "iss h k j \<Longrightarrow> iss h1 k j" for k j using id_iss [of h k j SafeConnectEndpointKind] i by simp
  have nb: "trim i \<noteq> []" and new: "iss h1 SafeConnectEndpointKind i" and fresh: "\<not> iss h SafeConnectEndpointKind i"
    using id_nonblank [of SafeConnectEndpointKind h] id_new [of SafeConnectEndpointKind h]
      id_fresh [of h SafeConnectEndpointKind] i by simp_all
  obtain h2 where h2: "eh_recordAudit H (execAudit actor ''safeconnect.endpoint.created'' ''safeconnect-endpoint'' i t None) h1 = (Inr (), h2)"
    and iss2: "\<And>k j. iss h1 k j \<Longrightarrow> iss h2 k j"
    using execAudit_ok [of "''safeconnect.endpoint.created''" "''safeconnect-endpoint''" i actor t None h1] nb audit_names
    by auto
  show ?thesis
  proof (cases out)
    case (Inl e)
    with run have "x' = x \<and> (h' = h \<or> h' = h1)"
      by (auto simp: createSafeConnectEndpoint_def i h2 Let_def split: throw_splits js_number.splits if_splits)
    then show ?thesis using wf wfExec_mono [OF wf, of "iss h1"] iss1 by blast
  next
    case (Inr ep)
    with run have p: "mapGet (x_endpointIdByAddress x) (addressKey (e_host ep) (e_port ep)) = None"
      "1 \<le> e_port ep" "e_port ep \<le> 65535" "e_id ep = i" "e_status ep = EndpointPending" "h' = h2"
      "x' = x\<lparr>x_endpoints := mapSet (x_endpoints x) (e_id ep) ep,
        x_endpointIdByAddress := mapSet (x_endpointIdByAddress x) (addressKey (e_host ep) (e_port ep)) (e_id ep)\<rparr>"
      by (auto simp: createSafeConnectEndpoint_def i h2 Let_def elim!: orThrow_InrE split: js_number.splits if_splits)
    have "wfExec lib (iss h2) x'"
      unfolding p(7)
      by (rule wfExec_addEndpoint [OF wf]) (use p nb fresh new iss1 iss2 in auto)
    then show ?thesis using p(6) iss1 iss2 by blast
  qed
qed

lemma approve_wf:
  assumes wf: "wfExec lib (iss h) x"
    and run: "approveSafeConnectHostKey lib H actor eid alg pk fp t (x, h) = (out, (x', h'))"
  shows "wfExec lib (iss h') x' \<and> (\<forall>k i. iss h k i \<longrightarrow> iss h' k i)"
proof (cases "x' = x \<and> h' = h")
  case True
  with wf show ?thesis by simp
next
  case False
  with run obtain ep key where ep: "mapGet (x_endpoints x) eid = Some ep"
    and key: "normalizeOpenSshHostKey lib alg pk fp = Inr key"
    by (auto simp: approveSafeConnectHostKey_def Let_def split: throw_splits option.splits)
  let ?ep = "ep\<lparr>e_hostKeyAlgorithm := Some (hk_algorithm key), e_hostKeyPublicKey := Some (hk_publicKey key),
    e_hostKeyFingerprint := Some (hk_fingerprint key), e_hostKeyApprovedByUserId := Some actor,
    e_hostKeyApprovedAt := Some t, e_status := EndpointActive, e_updatedAt := t\<rparr>"
  have ok: "e_id ep = eid" "trim eid \<noteq> []" using wfExecD(1) [OF wf ep] by (simp_all add: okEndpoint_def)
  obtain h1 where h1: "eh_recordAudit H (execAudit actor ''safeconnect.host-key.approved'' ''safeconnect-endpoint'' eid t
      (Some [(''fingerprint'', DStr (hk_fingerprint key))])) h = (Inr (), h1)"
    and iss1: "\<And>k j. iss h k j \<Longrightarrow> iss h1 k j"
    using execAudit_ok [of "''safeconnect.host-key.approved''" "''safeconnect-endpoint''" eid actor t
        "Some [(''fingerprint'', DStr (hk_fingerprint key))]" h] ok(2) audit_names by auto
  have xh: "x' = x\<lparr>x_endpoints := mapSet (x_endpoints x) eid ?ep\<rparr>" "h' = h1"
    using run False by (auto simp: approveSafeConnectHostKey_def Let_def ep key h1 ok split: throw_splits)
  have "normalizeObservedOpenSshHostKey lib alg pk = Inr key"
    using key by (auto simp: normalizeOpenSshHostKey_def split: sum.splits if_splits)
  then have "normalizeObservedOpenSshHostKey lib sshEd25519 (hk_publicKey key) = Inr key"
    using normalizeKey_Inr normalizeKey_blob [of _ sshEd25519] trim_ed25519 by metis
  then have "pinned lib ?ep" by (auto simp: pinned_def)
  then have "wfExec lib (iss h) x'"
    unfolding xh(1) by (intro wfExec_pin [OF wf ep]) simp_all
  then show ?thesis using wfExec_mono iss1 xh(2) by blast
qed

lemma createHost_wf:
  assumes wf: "wfExec lib (iss h) x"
    and run: "createVmHost lib H actor eid label target env t (x, h) = (out, (x', h'))"
  shows "wfExec lib (iss h') x' \<and> (\<forall>k i. iss h k i \<longrightarrow> iss h' k i)"
proof -
  obtain i h1 where i: "eh_nextId H VmHostKind h = (i, h1)" by force
  have iss1: "iss h k j \<Longrightarrow> iss h1 k j" for k j using id_iss [of h k j VmHostKind] i by simp
  have nb: "trim i \<noteq> []" and new: "iss h1 VmHostKind i"
    using id_nonblank [of VmHostKind h] id_new [of VmHostKind h] i by simp_all
  obtain h2 where h2: "eh_recordAudit H (execAudit actor ''vm.host.created'' ''vm-host'' i t None) h1 = (Inr (), h2)"
    and iss2: "\<And>k j. iss h1 k j \<Longrightarrow> iss h2 k j"
    using execAudit_ok [of "''vm.host.created''" "''vm-host''" i actor t None h1] nb audit_names by auto
  show ?thesis
  proof (cases out)
    case (Inl e)
    with run have "x' = x \<and> (h' = h \<or> h' = h1)"
      by (auto simp: createVmHost_def i h2 Let_def split: throw_splits option.splits if_splits)
    then show ?thesis using wf wfExec_mono [OF wf, of "iss h1"] iss1 by blast
  next
    case (Inr v)
    with run obtain ep where ep: "mapGet (x_endpoints x) eid = Some ep" "e_status ep = EndpointActive"
      "v_endpointId v = e_id ep" "mapGet (x_hostIdByTarget x) (v_endpointId v @ nul # v_targetAddress v) = None"
      "v_id v = i" "h' = h2"
      "x' = x\<lparr>x_hosts := mapSet (x_hosts x) (v_id v) v,
        x_hostIdByTarget := mapSet (x_hostIdByTarget x) (v_endpointId v @ nul # v_targetAddress v) (v_id v)\<rparr>"
      by (auto simp: createVmHost_def i h2 Let_def elim!: orThrow_InrE split: option.splits if_splits)
    have "e_id ep = eid" "pinned lib ep" using wfExecD(1) [OF wf ep(1)] ep(2) by (simp_all add: okEndpoint_def)
    then have "wfExec lib (iss h2) x'"
      unfolding ep(7) by (intro wfExec_addHost [OF wf]) (use ep new iss1 iss2 in auto)
    then show ?thesis using ep(6) iss1 iss2 by blast
  qed
qed

lemma assign_wf:
  assumes wf: "wfExec lib (iss h) x"
    and run: "assignVmToPersonalAgent H actor agent hid acct t (x, h) = (out, (x', h'))"
  shows "wfExec lib (iss h') x' \<and> (\<forall>k i. iss h k i \<longrightarrow> iss h' k i)"
proof (cases "x' = x \<and> h' = h")
  case True
  with wf show ?thesis by simp
next
  case False
  obtain i h1 where i: "eh_nextId H VmAllocationKind h = (i, h1)" by force
  have iss1: "iss h k j \<Longrightarrow> iss h1 k j" for k j using id_iss [of h k j VmAllocationKind] i by simp
  have nb: "trim i \<noteq> []" and new: "iss h1 VmAllocationKind i" and fresh: "\<not> iss h VmAllocationKind i"
    using id_nonblank [of VmAllocationKind h] id_new [of VmAllocationKind h] id_fresh [of h VmAllocationKind] i
    by simp_all
  from False run obtain b v where b: "eh_getPersonalBinding H h agent = Some b" "mapGet (x_hosts x) hid = Some v"
    by (auto simp: assignVmToPersonalAgent_def Let_def split: throw_splits option.splits if_splits)
  let ?d = "Some [(''agentBindingId'', DStr (b_id b)), (''vmHostId'', DStr (v_id v)), (''linuxAccount'', DStr (trim acct))]"
  obtain h2 where h2: "eh_recordAudit H (execAudit actor ''vm.allocation.created'' ''vm-allocation'' i t ?d) h1 = (Inr (), h2)"
    and iss2: "\<And>k j. iss h1 k j \<Longrightarrow> iss h2 k j"
    using execAudit_ok [of "''vm.allocation.created''" "''vm-allocation''" i actor t ?d h1] nb audit_names by auto
  have "\<exists>a. out = Inr a"
    using False run
    by (cases out) (auto simp: assignVmToPersonalAgent_def b i h2 Let_def split: throw_splits if_splits)
  then obtain a where o: "out = Inr a" ..
  from run [unfolded o] have a: "a_vmHostId a = v_id v" "a_id a = i" "h' = h2"
    "mapGet (x_allocationIdByAgentBindingId x) (a_agentBindingId a) = None"
    "mapGet (x_allocationIdByLinuxAccount x) (a_vmHostId a @ nul # a_linuxAccount a) = None"
    "x' = x\<lparr>x_allocations := mapSet (x_allocations x) (a_id a) a,
      x_allocationIdByAgentBindingId := mapSet (x_allocationIdByAgentBindingId x) (a_agentBindingId a) (a_id a),
      x_allocationIdByLinuxAccount :=
        mapSet (x_allocationIdByLinuxAccount x) (a_vmHostId a @ nul # a_linuxAccount a) (a_id a)\<rparr>"
    by (auto simp: assignVmToPersonalAgent_def b i h2 Let_def elim!: orThrow_InrE split: if_splits)
  have "v_id v = hid" using wfExecD(2) [OF wf b(2)] by (simp add: okHost_def)
  then have host: "mapHas (x_hosts x) (a_vmHostId a)" using a(1) b(2) by simp
  have "wfExec lib (iss h2) x'"
    unfolding a(6)
  proof (rule wfExec_addAllocation [OF wf _ _ _ host a(4,5)])
    show "\<not> iss h VmAllocationKind (a_id a)" using fresh a(2) by simp
    show "iss h2 VmAllocationKind (a_id a)" using new iss2 a(2) by simp
    show "\<And>k i. iss h k i \<Longrightarrow> iss h2 k i" using iss1 iss2 by blast
  qed
  then show ?thesis using a(3) iss1 iss2 by blast
qed

end

section \<open>The control plane store provides the interface\<close>

definition memIssued :: "store_options \<Rightarrow> mem \<Rightarrow> resource_kind \<Rightarrow> string \<Rightarrow> bool" where
  "memIssued opts s k i = issuedId opts (ExecutionResourceId k) (issued s) i"

lemma memExecHost_host:
  assumes fac: "id_factory (o_idFactory opts)"
  shows "execution_host (memExecHost opts) (memIssued opts)"
proof
  fix ap :: audit_params and h :: mem
  assume "trim (ap_eventType ap) \<noteq> []" "trim (ap_targetType ap) \<noteq> []" "trim (ap_targetId ap) \<noteq> []"
  then show "fst (eh_recordAudit (memExecHost opts) ap h) = Inr ()"
    by (simp add: memExecHost_def appendAuditEvent_def takeId_def Let_def)
next
  fix h :: mem and k i and ap :: audit_params
  obtain r t where a: "appendAuditEvent opts ap h = (r, t)" by force
  then have "issued t = Suc (issued h)" using appendAuditEvent_issued [of opts ap h] by simp
  moreover have "snd (eh_recordAudit (memExecHost opts) ap h) = t"
    by (simp add: memExecHost_def a split: sum.splits)
  moreover assume "memIssued opts h k i"
  ultimately show "memIssued opts (snd (eh_recordAudit (memExecHost opts) ap h)) k i"
    by (simp add: memIssued_def issuedId_Suc)
next
  fix h :: mem and k i kind
  assume "memIssued opts h k i"
  then show "memIssued opts (snd (eh_nextId (memExecHost opts) kind h)) k i"
    by (simp add: memIssued_def memExecHost_def takeId_def issuedId_Suc)
next
  fix h :: mem and kind
  show "memIssued opts (snd (eh_nextId (memExecHost opts) kind h)) kind (fst (eh_nextId (memExecHost opts) kind h))"
    by (simp add: memIssued_def memExecHost_def takeId_def issuedId_new)
  show "\<not> memIssued opts h kind (fst (eh_nextId (memExecHost opts) kind h))"
    using not_issuedId_next [OF fac] by (simp add: memIssued_def memExecHost_def takeId_def)
  show "trim (fst (eh_nextId (memExecHost opts) kind h)) \<noteq> []"
    using id_factory.nextId_nonblank [OF fac] by (simp add: memExecHost_def takeId_def)
qed

interpretation demoExec: execution_host "memExecHost demoOptions" "memIssued demoOptions"
  by (rule memExecHost_host [OF demo_factory])

section \<open>Sequences of calls\<close>

datatype exec_call =
    HostCall call
  | CreateEndpoint string string string js_number string int
  | ApproveHostKey string string string string string int
  | CreateHost string string string string js_value int
  | AssignVm string string string string int

fun execStep :: "store_options \<Rightarrow> net_lib \<Rightarrow> exec_call \<Rightarrow> mem exec_state \<Rightarrow> mem exec_state" where
  "execStep opts lib (HostCall c) s = (fst s, step opts c (snd s))"
| "execStep opts lib (CreateEndpoint actor label host port ad t) s =
     snd (createSafeConnectEndpoint lib (memExecHost opts) actor label host port ad t s)"
| "execStep opts lib (ApproveHostKey actor eid alg pk fp t) s =
     snd (approveSafeConnectHostKey lib (memExecHost opts) actor eid alg pk fp t s)"
| "execStep opts lib (CreateHost actor eid label target env t) s =
     snd (createVmHost lib (memExecHost opts) actor eid label target env t s)"
| "execStep opts lib (AssignVm actor agent hid acct t) s =
     snd (assignVmToPersonalAgent (memExecHost opts) actor agent hid acct t s)"

inductive execReachable :: "store_options \<Rightarrow> net_lib \<Rightarrow> mem exec_state \<Rightarrow> bool" for opts lib where
  empty: "execReachable opts lib (emptyExec, emptyStore)"
| call: "execReachable opts lib s \<Longrightarrow> execReachable opts lib (execStep opts lib c s)"

lemma step_issued: "issued s \<le> issued (step opts c s)"
  by (cases c) (simp_all add: recordAuditEvent_def)

lemma execStep_wf:
  assumes fac: "id_factory (o_idFactory opts)" and wf: "wfExec lib (memIssued opts s) x"
    and run: "execStep opts lib c (x, s) = (x', s')"
  shows "wfExec lib (memIssued opts s') x'"
proof -
  note host = memExecHost_host [OF fac]
  show ?thesis
  proof (cases c)
    case (HostCall d)
    with run have "x' = x" "issued s \<le> issued s'" using step_issued [of s opts d] by auto
    moreover from this have "memIssued opts s k i \<Longrightarrow> memIssued opts s' k i" for k i
      by (auto simp: memIssued_def intro: issuedId_mono)
    ultimately show ?thesis using wfExec_mono [OF wf] by blast
  next
    case (CreateEndpoint actor label host port ad t)
    with run execution_host.createEndpoint_wf [OF memExecHost_host [OF fac] wf, of actor label host port ad t]
    show ?thesis by (metis execStep.simps(2) prod.collapse)
  next
    case (ApproveHostKey actor eid alg pk fp t)
    with run execution_host.approve_wf [OF host wf, of actor eid alg pk fp t]
    show ?thesis by (metis execStep.simps(3) prod.collapse)
  next
    case (CreateHost actor eid label target env t)
    with run execution_host.createHost_wf [OF host wf, of actor eid label target env t]
    show ?thesis by (metis execStep.simps(4) prod.collapse)
  next
    case (AssignVm actor agent hid acct t)
    with run execution_host.assign_wf [OF host wf, of actor agent hid acct t]
    show ?thesis by (metis execStep.simps(5) prod.collapse)
  qed
qed

lemma execReachable_wf:
  assumes "execReachable opts lib s" and "id_factory (o_idFactory opts)"
  shows "wfExec lib (memIssued opts (snd s)) (fst s)"
  using assms(1)
proof (induction rule: execReachable.induct)
  case empty
  then show ?case by (simp add: wfExec_empty)
next
  case (call s c)
  then show ?case
    using execStep_wf [OF assms(2), of lib "snd s" "fst s" c "fst (execStep opts lib c s)" "snd (execStep opts lib c s)"]
    by simp
qed

section \<open>Properties\<close>

text \<open>
  C12. Resources are exclusive: in every reached state an address has one SafeConnect endpoint, a
  target one VM host per endpoint, a personal agent at most one allocation, and a Linux account of a
  host at most one allocation.
\<close>

theorem execution_resources_exclusive:
  assumes "execReachable opts lib (x, s)" and "id_factory (o_idFactory opts)"
  shows "(\<forall>j k e f. mapGet (x_endpoints x) j = Some e \<longrightarrow> mapGet (x_endpoints x) k = Some f \<longrightarrow>
        e_host e = e_host f \<and> e_port e = e_port f \<longrightarrow> j = k)
    \<and> (\<forall>j k v w. mapGet (x_hosts x) j = Some v \<longrightarrow> mapGet (x_hosts x) k = Some w \<longrightarrow>
        v_endpointId v = v_endpointId w \<and> v_targetAddress v = v_targetAddress w \<longrightarrow> j = k)
    \<and> (\<forall>j k a b. mapGet (x_allocations x) j = Some a \<longrightarrow> mapGet (x_allocations x) k = Some b \<longrightarrow>
        a_agentBindingId a = a_agentBindingId b
        \<or> a_vmHostId a = a_vmHostId b \<and> a_linuxAccount a = a_linuxAccount b \<longrightarrow> j = k)"
proof -
  have wf: "wfExec lib (memIssued opts s) x" using execReachable_wf [OF assms] by simp
  show ?thesis
  proof (intro conjI allI impI)
    fix j k e f
    assume "mapGet (x_endpoints x) j = Some e" "mapGet (x_endpoints x) k = Some f"
      "e_host e = e_host f \<and> e_port e = e_port f"
    with wfExecD(1) [OF wf, of j e] wfExecD(1) [OF wf, of k f] show "j = k" by (simp add: okEndpoint_def)
  next
    fix j k v w
    assume "mapGet (x_hosts x) j = Some v" "mapGet (x_hosts x) k = Some w"
      "v_endpointId v = v_endpointId w \<and> v_targetAddress v = v_targetAddress w"
    with wfExecD(2) [OF wf, of j v] wfExecD(2) [OF wf, of k w] show "j = k" by (simp add: okHost_def)
  next
    fix j k a b
    assume "mapGet (x_allocations x) j = Some a" "mapGet (x_allocations x) k = Some b"
      and same: "a_agentBindingId a = a_agentBindingId b
        \<or> a_vmHostId a = a_vmHostId b \<and> a_linuxAccount a = a_linuxAccount b"
    then have "okAllocation (memIssued opts s) x j a" "okAllocation (memIssued opts s) x k b"
      using wfExecD(3) [OF wf] by blast+
    then have "mapGet (x_allocationIdByAgentBindingId x) (a_agentBindingId a) = Some j"
      "mapGet (x_allocationIdByAgentBindingId x) (a_agentBindingId b) = Some k"
      "mapGet (x_allocationIdByLinuxAccount x) (a_vmHostId a @ nul # a_linuxAccount a) = Some j"
      "mapGet (x_allocationIdByLinuxAccount x) (a_vmHostId b @ nul # a_linuxAccount b) = Some k"
      by (simp_all add: okAllocation_def)
    with same show "j = k" by (metis option.inject)
  qed
qed

text \<open>
  No VM is reachable through an unverified endpoint: in every reached state the host of every
  allocation exists, and every host belongs to an active endpoint with an approved Ed25519 key in
  canonical form, whose fingerprint is the one computed from the key.
\<close>

theorem vm_hosts_pinned:
  assumes "execReachable opts lib (x, s)" and "id_factory (o_idFactory opts)"
  shows "(\<forall>k a. mapGet (x_allocations x) k = Some a \<longrightarrow> mapHas (x_hosts x) (a_vmHostId a))
    \<and> (\<forall>k v. mapGet (x_hosts x) k = Some v \<longrightarrow>
        (\<exists>e key. mapGet (x_endpoints x) (v_endpointId v) = Some e \<and> e_status e = EndpointActive
          \<and> e_hostKeyPublicKey e = Some (hk_publicKey key) \<and> e_hostKeyFingerprint e = Some (hk_fingerprint key)
          \<and> normalizeObservedOpenSshHostKey lib sshEd25519 (hk_publicKey key) = Inr key))"
proof -
  have wf: "wfExec lib (memIssued opts s) x" using execReachable_wf [OF assms] by simp
  show ?thesis
  proof (intro conjI allI impI)
    fix k a assume "mapGet (x_allocations x) k = Some a"
    then show "mapHas (x_hosts x) (a_vmHostId a)" using wfExecD(3) [OF wf] by (simp add: okAllocation_def)
  next
    fix k v assume "mapGet (x_hosts x) k = Some v"
    then obtain e where "mapGet (x_endpoints x) (v_endpointId v) = Some e" "pinned lib e"
      using wfExecD(2) [OF wf, of k v] by (auto simp: okHost_def)
    then show "\<exists>e key. mapGet (x_endpoints x) (v_endpointId v) = Some e \<and> e_status e = EndpointActive
          \<and> e_hostKeyPublicKey e = Some (hk_publicKey key) \<and> e_hostKeyFingerprint e = Some (hk_fingerprint key)
          \<and> normalizeObservedOpenSshHostKey lib sshEd25519 (hk_publicKey key) = Inr key"
      unfolding pinned_def by blast
  qed
qed

fun callActor :: "exec_call \<Rightarrow> string option" where
  "callActor (HostCall c) = None"
| "callActor (CreateEndpoint actor label host port ad t) = Some actor"
| "callActor (ApproveHostKey actor eid alg pk fp t) = Some actor"
| "callActor (CreateHost actor eid label target env t) = Some actor"
| "callActor (AssignVm actor agent hid acct t) = Some actor"

text \<open>What a management call throws, and what the check of the administrator does for anyone else.\<close>

definition thrownBy :: "(error + 'a) \<times> 'h exec_state \<Rightarrow> error option" where
  "thrownBy r = (case fst r of Inl e \<Rightarrow> Some e | Inr _ \<Rightarrow> None)"

fun execThrown :: "store_options \<Rightarrow> net_lib \<Rightarrow> exec_call \<Rightarrow> mem exec_state \<Rightarrow> error option" where
  "execThrown opts lib (HostCall c) s = None"
| "execThrown opts lib (CreateEndpoint actor label host port ad t) s =
     thrownBy (createSafeConnectEndpoint lib (memExecHost opts) actor label host port ad t s)"
| "execThrown opts lib (ApproveHostKey actor eid alg pk fp t) s =
     thrownBy (approveSafeConnectHostKey lib (memExecHost opts) actor eid alg pk fp t s)"
| "execThrown opts lib (CreateHost actor eid label target env t) s =
     thrownBy (createVmHost lib (memExecHost opts) actor eid label target env t s)"
| "execThrown opts lib (AssignVm actor agent hid acct t) s =
     thrownBy (assignVmToPersonalAgent (memExecHost opts) actor agent hid acct t s)"

definition refusal :: "mem \<Rightarrow> string \<Rightarrow> error" where
  "refusal s actor =
     (case mapGet (users s) actor of
        None \<Rightarrow> NotFoundError UserResource actor
      | Some u \<Rightarrow> AuthorizationError ''active administrator required'')"

lemma requireAdmin_refuses:
  "(\<And>u. mapGet (users s) actor = Some u \<Longrightarrow> u_status u \<noteq> UserActive \<or> u_globalRole u \<noteq> GlobalAdmin)
   \<Longrightarrow> requireAdmin s actor = Inl (refusal s actor)"
  by (cases "mapGet (users s) actor") (auto simp: requireAdmin_def requireUser_def refusal_def)

text \<open>
  C13. Only active administrators manage execution resources: each of the four management calls, made by
  anyone else, throws (an authorization error, or that there is no such user) and leaves the endpoints, hosts,
  allocations and the control plane store exactly as they were; and the administration snapshot throws the
  same, so that it shows nothing of them.
\<close>

theorem execution_admin_only:
  assumes "\<And>u. mapGet (users s) actor = Some u \<Longrightarrow> u_status u \<noteq> UserActive \<or> u_globalRole u \<noteq> GlobalAdmin"
  shows "(callActor c = Some actor \<longrightarrow>
        execThrown opts lib c (x, s) = Some (refusal s actor) \<and> execStep opts lib c (x, s) = (x, s))
    \<and> getVmAdministrationSnapshot lib (memExecHost opts) actor (x, s) = Inl (refusal s actor)"
proof -
  have e: "eh_requireAdmin (memExecHost opts) s actor = Inl (refusal s actor)"
    using requireAdmin_refuses [OF assms] by (simp add: memExecHost_def)
  then have "callActor c = Some actor \<longrightarrow>
      execThrown opts lib c (x, s) = Some (refusal s actor) \<and> execStep opts lib c (x, s) = (x, s)"
    by (cases c) (simp_all add: thrownBy_def createSafeConnectEndpoint_def approveSafeConnectHostKey_def createVmHost_def
        assignVmToPersonalAgent_def)
  then show ?thesis using e by (simp add: getVmAdministrationSnapshot_def)
qed

section \<open>A concrete run\<close>

definition demoKey :: string where
  "demoKey = base64 (ed25519Blob (replicate 32 7))"

definition demoFingerprint :: string where
  "demoFingerprint = ''SHA256:'' @ stripTrailing (CHR ''='') (base64 (replicate 32 0))"

lemma execReachable_fold: "execReachable opts lib s \<Longrightarrow> execReachable opts lib (fold (execStep opts lib) cs s)"
proof (induction cs arbitrary: s)
  case (Cons c cs)
  from Cons.IH [OF execReachable.call [OF Cons.prems]] show ?case by simp
qed simp

lemma memExecHost_simps:
  "eh_requireAdmin (memExecHost opts) = requireAdmin"
  "eh_getPersonalBinding (memExecHost opts) = getPersonalBinding"
  "eh_nextId (memExecHost opts) k s = (o_idFactory opts (ExecutionResourceId k) (issued s), s\<lparr>issued := Suc (issued s)\<rparr>)"
  by (simp_all add: memExecHost_def takeId_def)

lemma memExecHost_audit:
  assumes "trim ev \<noteq> []" "trim tt \<noteq> []" "trim i \<noteq> []"
  shows "\<exists>as. eh_recordAudit (memExecHost opts) (execAudit a ev tt i t d) s =
    (Inr (), s\<lparr>issued := Suc (issued s), auditEvents := as\<rparr>)"
  using assms by (simp add: memExecHost_def execAudit_def appendAuditEvent_def takeId_def Let_def) blast

lemma requireAdmin_users: "users s' = users s \<Longrightarrow> requireAdmin s' a = requireAdmin s a"
  by (simp add: requireAdmin_def requireUser_def)

definition demoEndpoint :: endpoint where
  "demoEndpoint = \<lparr>e_id = ''safeconnect-endpoint-xxxx'', e_label = ''Main'', e_host = ''gate.example.org'',
     e_port = 22, e_adDomain = ''corp.example.org'', e_status = EndpointPending, e_hostKeyAlgorithm = None,
     e_hostKeyPublicKey = None, e_hostKeyFingerprint = None, e_hostKeyApprovedByUserId = None,
     e_hostKeyApprovedAt = None, e_createdByUserId = ''user-'', e_createdAt = 20, e_updatedAt = 20\<rparr>"

definition demoPinned :: endpoint where
  "demoPinned = demoEndpoint\<lparr>e_hostKeyAlgorithm := Some ''ssh-ed25519'', e_hostKeyPublicKey := Some demoKey,
      e_hostKeyFingerprint := Some demoFingerprint, e_hostKeyApprovedByUserId := Some ''user-'',
      e_hostKeyApprovedAt := Some 21, e_status := EndpointActive, e_updatedAt := 21\<rparr>"

definition demoVm :: vm_host where
  "demoVm = \<lparr>v_id = ''vm-host-xxxxxxx'', v_endpointId = ''safeconnect-endpoint-xxxx'', v_label = ''vm1'',
     v_targetAddress = ''10.0.0.5'', v_status = VmHostActive, v_executionEnvironment = None,
     v_createdByUserId = ''user-'', v_createdAt = 22, v_updatedAt = 22\<rparr>"

lemma demo_eval:
  "normalizeSafeConnectHost demoLib ''Gate.example.org'' = Inr ''gate.example.org''"
  "normalizeAdDomain demoLib ''corp.example.org'' = Inr ''corp.example.org''"
  "normalizeVmTargetAddress demoLib ''10.0.0.5'' = Inr ''10.0.0.5''"
  "normalizeVmHostExecutionEnvironment demoLib JUndefined = Inr None"
  "requireNonEmpty '' Main '' ''endpoint.label'' = Inr ''Main''"
  "requireNonEmpty ''vm1'' ''vmHost.label'' = Inr ''vm1''"
  "o_idFactory demoOptions (ExecutionResourceId SafeConnectEndpointKind) 4 = ''safeconnect-endpoint-xxxx''"
  "o_idFactory demoOptions (ExecutionResourceId VmHostKind) 7 = ''vm-host-xxxxxxx''"
  "issued demoStore = 4"
  by code_simp+

lemma demo_admin: "users s = users demoStore \<Longrightarrow> requireAdmin s ''user-'' = Inr ()"
proof -
  have "requireAdmin demoStore ''user-'' = Inr ()" by code_simp
  then show "users s = users demoStore \<Longrightarrow> requireAdmin s ''user-'' = Inr ()"
    by (simp add: requireAdmin_users [of s demoStore])
qed

lemma demo_hostKey: "normalizeOpenSshHostKey demoLib ''ssh-ed25519'' demoKey demoFingerprint =
   Inr \<lparr>hk_algorithm = ''ssh-ed25519'', hk_publicKey = demoKey, hk_fingerprint = demoFingerprint\<rparr>"
proof -
  have "requireNonEmpty demoFingerprint f = Inr demoFingerprint" for f
    unfolding demoFingerprint_def by code_simp
  moreover have "length (replicate 32 (7 :: 8 word)) = 32" by simp
  ultimately show ?thesis
    using normalizeKey_blob [OF _ trim_ed25519, of "replicate 32 7" demoLib] checkKeyBlob_ed25519 [of "replicate 32 7" demoLib]
    by (simp add: normalizeOpenSshHostKey_def demoKey_def demoFingerprint_def demoLib_def sshEd25519_def
      del: requireNonEmpty_Inr)
qed
text \<open>The store of the run with some audit log.\<close>

definition demoHost :: "nat \<Rightarrow> audit_event list \<Rightarrow> mem" where
  "demoHost n as = demoStore\<lparr>issued := n, auditEvents := as\<rparr>"

lemma demoHost_simps [simp]:
  "users (demoHost n as) = users demoStore" "issued (demoHost n as) = n"
  "(demoHost n as)\<lparr>issued := m\<rparr> = demoHost m as"
  by (simp_all add: demoHost_def)

lemma demoHost_audit:
  assumes "trim ev \<noteq> []" "trim tt \<noteq> []" "trim i \<noteq> []"
  shows "\<exists>as'. eh_recordAudit (memExecHost demoOptions) (execAudit a ev tt i t d) (demoHost n as) =
    (Inr (), demoHost (Suc n) as')"
  using memExecHost_audit [OF assms, of demoOptions a t d "demoHost n as"] by (simp add: demoHost_def)

lemma demo_names:
  "trim ''safeconnect.endpoint.created'' \<noteq> []" "trim ''safeconnect-endpoint'' \<noteq> []"
  "trim ''safeconnect-endpoint-xxxx'' \<noteq> []" "trim ''safeconnect.host-key.approved'' \<noteq> []"
  "trim ''vm.host.created'' \<noteq> []" "trim ''vm-host'' \<noteq> []" "trim ''vm-host-xxxxxxx'' \<noteq> []"
  by code_simp+

definition demoExec1 :: exec where
  "demoExec1 = emptyExec\<lparr>x_endpoints := [(''safeconnect-endpoint-xxxx'', demoEndpoint)],
     x_endpointIdByAddress := [(addressKey ''gate.example.org'' 22, ''safeconnect-endpoint-xxxx'')]\<rparr>"

definition demoExec2 :: exec where
  "demoExec2 = demoExec1\<lparr>x_endpoints := [(''safeconnect-endpoint-xxxx'', demoPinned)]\<rparr>"

definition demoExec3 :: exec where
  "demoExec3 = demoExec2\<lparr>x_hosts := [(''vm-host-xxxxxxx'', demoVm)],
     x_hostIdByTarget := [(''safeconnect-endpoint-xxxx'' @ nul # ''10.0.0.5'', ''vm-host-xxxxxxx'')]\<rparr>"

lemma demo_run1: "\<exists>as. execStep demoOptions demoLib
    (CreateEndpoint ''user-'' '' Main '' ''Gate.example.org'' (IntegerNumber 22) ''corp.example.org'' 20)
    (emptyExec, demoHost 4 []) = (demoExec1, demoHost 6 as)"
proof -
  obtain as where as: "eh_recordAudit (memExecHost demoOptions) (execAudit ''user-'' ''safeconnect.endpoint.created''
      ''safeconnect-endpoint'' ''safeconnect-endpoint-xxxx'' 20 None) (demoHost 5 []) = (Inr (), demoHost 6 as)"
    using demoHost_audit [OF demo_names(1,2,3), of "''user-''" 20 None 5 "[]"] by auto
  then show ?thesis
    by (intro exI [of _ as]) (simp add: createSafeConnectEndpoint_def memExecHost_simps demo_eval demo_admin Let_def
        emptyExec_def demoEndpoint_def demoExec1_def)
qed

lemma demo_run2: "\<exists>as'. execStep demoOptions demoLib
    (ApproveHostKey ''user-'' ''safeconnect-endpoint-xxxx'' ''ssh-ed25519'' demoKey demoFingerprint 21)
    (demoExec1, demoHost 6 as) = (demoExec2, demoHost 7 as')"
proof -
  obtain as' where as: "eh_recordAudit (memExecHost demoOptions) (execAudit ''user-'' ''safeconnect.host-key.approved''
      ''safeconnect-endpoint'' ''safeconnect-endpoint-xxxx'' 21 (Some [(''fingerprint'', DStr demoFingerprint)]))
      (demoHost 6 as) = (Inr (), demoHost 7 as')"
    using demoHost_audit [OF demo_names(4,2,3), of "''user-''" 21 "Some [(''fingerprint'', DStr demoFingerprint)]" 6 as] by auto
  then show ?thesis
    by (intro exI [of _ as']) (simp add: approveSafeConnectHostKey_def memExecHost_simps demo_hostKey demo_admin Let_def
        emptyExec_def demoEndpoint_def demoExec1_def demoExec2_def demoPinned_def)
qed

lemma demo_run3: "\<exists>as'. execStep demoOptions demoLib
    (CreateHost ''user-'' ''safeconnect-endpoint-xxxx'' ''vm1'' ''10.0.0.5'' JUndefined 22)
    (demoExec2, demoHost 7 as) = (demoExec3, demoHost 9 as')"
proof -
  obtain as' where as: "eh_recordAudit (memExecHost demoOptions) (execAudit ''user-'' ''vm.host.created''
      ''vm-host'' ''vm-host-xxxxxxx'' 22 None) (demoHost 8 as) = (Inr (), demoHost 9 as')"
    using demoHost_audit [OF demo_names(5,6,7), of "''user-''" 22 None 8 as] by auto
  then show ?thesis
    by (intro exI [of _ as']) (simp add: createVmHost_def memExecHost_simps demo_eval demo_admin Let_def
        emptyExec_def demoEndpoint_def demoExec1_def demoExec2_def demoExec3_def demoPinned_def demoVm_def)
qed

lemma demoExec3_reachable: "\<exists>as. execReachable demoOptions demoLib (demoExec3, demoHost 9 as)"
proof -
  have "fold (execStep demoOptions demoLib) (map HostCall cs) (x, s) = (x, runCalls demoOptions cs s)" for cs x s
    by (induction cs arbitrary: s) simp_all
  moreover have "demoHost 4 [] = demoStore" by (simp add: demoHost_def demoStore_def)
  ultimately have "execReachable demoOptions demoLib (emptyExec, demoHost 4 [])"
    using execReachable_fold [OF execReachable.empty, of demoOptions demoLib "map HostCall demoCalls"]
    by (simp add: demoStore_run)
  then show ?thesis
    using demo_run1 demo_run2 demo_run3 by (metis execReachable.call)
qed


theorem execution_resources_exclusive_witness:
  "mapGet (x_hosts demoExec3) ''vm-host-other'' \<noteq> Some (demoVm\<lparr>v_id := ''vm-host-other''\<rparr>)"
proof
  assume other: "mapGet (x_hosts demoExec3) ''vm-host-other'' = Some (demoVm\<lparr>v_id := ''vm-host-other''\<rparr>)"
  obtain as where r: "execReachable demoOptions demoLib (demoExec3, demoHost 9 as)"
    using demoExec3_reachable ..
  have "mapGet (x_hosts demoExec3) ''vm-host-xxxxxxx'' = Some demoVm" by (simp add: demoExec3_def)
  moreover have "v_endpointId demoVm = v_endpointId (demoVm\<lparr>v_id := ''vm-host-other''\<rparr>)
      \<and> v_targetAddress demoVm = v_targetAddress (demoVm\<lparr>v_id := ''vm-host-other''\<rparr>)" by simp
  ultimately have "''vm-host-xxxxxxx'' = ''vm-host-other''"
    using execution_resources_exclusive [OF r demo_factory] other by blast
  then show False by simp
qed

theorem vm_hosts_pinned_witness:
  "\<exists>e. mapGet (x_endpoints demoExec3) ''safeconnect-endpoint-xxxx'' = Some e \<and> e_status e = EndpointActive"
proof -
  obtain as where r: "execReachable demoOptions demoLib (demoExec3, demoHost 9 as)"
    using demoExec3_reachable ..
  have "mapGet (x_hosts demoExec3) ''vm-host-xxxxxxx'' = Some demoVm" by (simp add: demoExec3_def)
  then have "\<exists>e. mapGet (x_endpoints demoExec3) (v_endpointId demoVm) = Some e \<and> e_status e = EndpointActive"
    using vm_hosts_pinned [OF r demo_factory] by blast
  then show ?thesis by (simp add: demoVm_def)
qed

theorem execution_admin_only_witness:
  "execThrown demoOptions demoLib (AssignVm ''user-x'' ''ann'' ''vm-host-xxxxxxx'' ''ann'' 30) (emptyExec, demoStore)
     = Some (AuthorizationError ''active administrator required'')
   \<and> execStep demoOptions demoLib (AssignVm ''user-x'' ''ann'' ''vm-host-xxxxxxx'' ''ann'' 30) (emptyExec, demoStore)
     = (emptyExec, demoStore)"
proof -
  have "u_status u \<noteq> UserActive \<or> u_globalRole u \<noteq> GlobalAdmin" if "mapGet (users demoStore) ''user-x'' = Some u" for u
    using that by (auto simp: demo_gets(2) annMember_def annUser_def)
  moreover have "refusal demoStore ''user-x'' = AuthorizationError ''active administrator required''"
    by (simp add: refusal_def demo_gets(2))
  ultimately show ?thesis
    using execution_admin_only [of demoStore "''user-x''"
        "AssignVm ''user-x'' ''ann'' ''vm-host-xxxxxxx'' ''ann'' 30" demoOptions demoLib emptyExec]
    by simp
qed

end
