(* ===== verification/OrganizationPolicy.thy ===== *)
theory OrganizationPolicy
  imports StoreState
begin

text \<open>
  \<open>organization-policy.ts\<close>: lineages of managed scopes, what a user may do with a scope, and the
  scopes a user sees. Everything here is a pure function of the scopes and memberships it is given.
\<close>

section \<open>Lineages\<close>

definition assertExpectedOrganizationMembershipRole ::
    "scope_role option \<Rightarrow> scope_role option option \<Rightarrow> error + unit" where
  "assertExpectedOrganizationMembershipRole currentRole expectedRole =
     (case expectedRole of
        None \<Rightarrow> Inr ()
      | Some expected \<Rightarrow>
          if currentRole \<noteq> expected then Inl (ConflictError OrganizationMembershipChanged) else Inr ())"

text \<open>\<open>new Map(xs.map((x) => [key(x), x]))\<close>: the last entry of a key wins.\<close>

definition mapBy :: "('a \<Rightarrow> 'k) \<Rightarrow> 'a list \<Rightarrow> ('k, 'a) jsmap" where
  "mapBy key xs = fold (\<lambda>x m. mapSet m (key x) x) xs []"

type_synonym scope_map = "(string, managed_scope) jsmap"

text \<open>
  The loop of \<open>lineageFor\<close>. It ends because every round adds the id of a scope of the map, or of
  the first scope, to the ids seen.
\<close>

function lineageLoop :: "scope_map \<Rightarrow> string set \<Rightarrow> managed_scope list \<Rightarrow> managed_scope \<Rightarrow> managed_scope list" where
  "lineageLoop scopeById seen lineage current =
     (if sc_id current \<in> seen then []
      else
        (case truthy (sc_parentScopeId current) of
           None \<Rightarrow> lineage @ [current]
         | Some parentId \<Rightarrow>
             (case mapGet scopeById parentId of
                None \<Rightarrow> []
              | Some parent \<Rightarrow>
                  lineageLoop scopeById (insert (sc_id current) seen) (lineage @ [current]) parent)))"
  by pat_completeness auto

termination
proof (relation "measure (\<lambda>(m, seen, lineage, current).
    card (insert (sc_id current) (sc_id ` snd ` set m) - seen))", simp, goal_cases)
  case (1 m seen lineage current parentId parent)
  let ?ids = "sc_id ` snd ` set m"
  have "sc_id parent \<in> ?ids" using 1(3) by (force dest: map_of_SomeD)
  then have "insert (sc_id parent) ?ids - insert (sc_id current) seen \<subset> insert (sc_id current) ?ids - seen"
    using 1(1) by auto
  then show ?case by (simp add: psubset_card_mono)
qed

declare lineageLoop.simps [simp del]

definition lineageFor :: "managed_scope \<Rightarrow> scope_map \<Rightarrow> managed_scope list" where
  "lineageFor scope scopeById = lineageLoop scopeById {} [] scope"

definition allActive :: "managed_scope list \<Rightarrow> bool" where
  "allActive lineage \<longleftrightarrow> lineage \<noteq> [] \<and> list_all (\<lambda>s. sc_status s = ScopeActive) lineage"

definition isDelegatedOrganizationLeader ::
    "managed_scope \<Rightarrow> managed_scope list \<Rightarrow> scope_membership list \<Rightarrow> bool" where
  "isDelegatedOrganizationLeader targetScope scopes memberships =
     (let lineage = lineageFor targetScope (mapBy sc_id scopes) in
      if \<not> allActive lineage then False
      else
        let leaderScopeIds = map m_scopeId (filter (\<lambda>m. m_role m = ScopeLeader) memberships) in
        list_ex (\<lambda>s. sc_id s \<in> set leaderScopeIds) lineage)"

section \<open>Authorization\<close>

definition unavailable :: organization_authorization where
  "unavailable = \<lparr>canRead = False, canManageMembers = False, canManageStructure = False,
     canManageLeaders = False, factSource = NoSource, factScopeIds = []\<rparr>"

definition addReadable :: "scope_map \<Rightarrow> scope_membership \<Rightarrow> (string, string list) jsmap \<Rightarrow> (string, string list) jsmap" where
  "addReadable scopeById membership targets =
     (case mapGet scopeById (m_scopeId membership) of
        None \<Rightarrow> targets
      | Some membershipScope \<Rightarrow>
          let lineage = lineageFor membershipScope scopeById in
          if \<not> allActive lineage then targets
          else
            fold (\<lambda>scope ts.
              mapSet ts (sc_id scope)
                ((case mapGet ts (sc_id scope) of None \<Rightarrow> [] | Some sources \<Rightarrow> sources) @ [m_scopeId membership]))
              lineage targets)"

definition readableTargets :: "scope_map \<Rightarrow> scope_membership list \<Rightarrow> (string, string list) jsmap" where
  "readableTargets scopeById memberships = fold (addReadable scopeById) memberships []"

text \<open>\<open>toSorted()\<close> without a comparator orders by code units.\<close>

definition compareUnits :: "string \<Rightarrow> string \<Rightarrow> int" where
  "compareUnits x y = (if x = y then 0 else if x < y then - 1 else 1)"

definition contextLineage :: "managed_scope list \<Rightarrow> managed_scope option \<Rightarrow> managed_scope list" where
  "contextLineage scopes targetScope =
     (case targetScope of
        None \<Rightarrow> []
      | Some target \<Rightarrow>
          let lineage = lineageFor target (mapBy sc_id scopes) in if allActive lineage then lineage else [])"

definition resolveOrganizationAuthorization ::
    "platform_user option \<Rightarrow> managed_scope option \<Rightarrow> managed_scope list \<Rightarrow> scope_membership list
     \<Rightarrow> organization_authorization" where
  "resolveOrganizationAuthorization actor targetScope scopes memberships =
     (let scopeById = mapBy sc_id scopes;
          membershipByScope = mapBy m_scopeId memberships
      in
      case (actor, targetScope) of
        (Some a, Some target) \<Rightarrow>
          if u_status a \<noteq> UserActive then unavailable
          else
            let targetLineage = lineageFor target scopeById in
            if \<not> allActive targetLineage then unavailable
            else if u_globalRole a = GlobalAdmin then
              \<lparr>canRead = True, canManageMembers = True, canManageStructure = \<not> sc_ldapManaged target,
               canManageLeaders = True, factSource = AdministratorSource, factScopeIds = [sc_id target]\<rparr>
            else
              let leaderScopeIds =
                    map sc_id (filter (\<lambda>s.
                      case mapGet membershipByScope (sc_id s) of
                        None \<Rightarrow> False | Some m \<Rightarrow> m_role m = ScopeLeader) targetLineage);
                  readScopeIds =
                    toSortedBy compareUnits
                      (case mapGet (readableTargets scopeById memberships) (sc_id target) of
                         None \<Rightarrow> [] | Some sources \<Rightarrow> sources);
                  manages = (length leaderScopeIds > 0);
                  reads = (length readScopeIds > 0)
              in
              \<lparr>canRead = reads, canManageMembers = manages, canManageStructure = False,
               canManageLeaders = False,
               factSource = (if manages then LeadershipSource else if reads then MembershipSource else NoSource),
               factScopeIds = (if manages then leaderScopeIds else readScopeIds)\<rparr>
      | _ \<Rightarrow> unavailable)"

section \<open>Effective access\<close>

record organization_access =
  oa_effectiveAccess :: "scope_access list"
  oa_activeMemberships :: "scope_membership list"

definition directMemberships ::
    "scope_map \<Rightarrow> scope_membership list \<Rightarrow> (scope_membership \<times> managed_scope list) list" where
  "directMemberships scopeById memberships =
     concat (map (\<lambda>membership.
       let lineage =
         (case mapGet scopeById (m_scopeId membership) of None \<Rightarrow> [] | Some scope \<Rightarrow> lineageFor scope scopeById)
       in if allActive lineage then [(membership, lineage)] else []) memberships)"

text \<open>The loop over one lineage; \<open>first\<close> tells the scope of the membership from its ancestors.\<close>

fun addLineage ::
    "scope_role \<Rightarrow> bool \<Rightarrow> managed_scope list \<Rightarrow> (string, scope_access) jsmap \<Rightarrow> (string, scope_access) jsmap" where
  "addLineage role first [] access = access"
| "addLineage role first (scope # rest) access =
     addLineage role False rest
       (if first then
          mapSet access (sc_id scope) \<lparr>ac_scope = scope, ac_source = DirectAccess, ac_directRole = Some role\<rparr>
        else if \<not> mapHas access (sc_id scope) then
          mapSet access (sc_id scope) \<lparr>ac_scope = scope, ac_source = AncestorAccess, ac_directRole = None\<rparr>
        else access)"

definition resolveOrganizationAccess ::
    "(string \<Rightarrow> string \<Rightarrow> int) \<Rightarrow> platform_user option \<Rightarrow> managed_scope list \<Rightarrow> scope_membership list
     \<Rightarrow> organization_access" where
  "resolveOrganizationAccess localeCompare user scopes memberships =
     (case user of
        None \<Rightarrow> \<lparr>oa_effectiveAccess = [], oa_activeMemberships = []\<rparr>
      | Some u \<Rightarrow>
          if u_status u \<noteq> UserActive then \<lparr>oa_effectiveAccess = [], oa_activeMemberships = []\<rparr>
          else
            let scopeById = mapBy sc_id scopes;
                direct = directMemberships scopeById memberships;
                activeMemberships = map fst direct
            in
            if u_globalRole u = GlobalAdmin then
              \<lparr>oa_effectiveAccess =
                 map (\<lambda>scope. \<lparr>ac_scope = scope, ac_source = AdministratorAccess, ac_directRole = None\<rparr>)
                   (filter (\<lambda>scope. allActive (lineageFor scope scopeById)) scopes),
               oa_activeMemberships = activeMemberships\<rparr>
            else
              let access = fold (\<lambda>(membership, lineage). addLineage (m_role membership) True lineage) direct [] in
              \<lparr>oa_effectiveAccess =
                 toSortedBy (\<lambda>l r. localeCompare (sc_id (ac_scope l)) (sc_id (ac_scope r))) (mapValues access),
               oa_activeMemberships = activeMemberships\<rparr>)"

section \<open>What a lineage is\<close>

text \<open>
  A lineage of a scope: the scope, then its parent in the map, and so on to a scope without a
  parent, with no id twice.
\<close>

fun parentChain :: "scope_map \<Rightarrow> managed_scope list \<Rightarrow> bool" where
  "parentChain m [] \<longleftrightarrow> False"
| "parentChain m [s] \<longleftrightarrow> truthy (sc_parentScopeId s) = None"
| "parentChain m (s # p # rest) \<longleftrightarrow>
     (\<exists>i. truthy (sc_parentScopeId s) = Some i \<and> mapGet m i = Some p) \<and> parentChain m (p # rest)"

definition isLineage :: "scope_map \<Rightarrow> managed_scope \<Rightarrow> managed_scope list \<Rightarrow> bool" where
  "isLineage m scope L \<longleftrightarrow> L \<noteq> [] \<and> hd L = scope \<and> parentChain m L \<and> distinct (map sc_id L)"

lemma lineageLoop_Nil_or:
  "lineageLoop m seen acc s = [] \<or>
     (\<exists>L. lineageLoop m seen acc s = acc @ L \<and> L \<noteq> [] \<and> hd L = s \<and> parentChain m L
        \<and> distinct (map sc_id L) \<and> set (map sc_id L) \<inter> seen = {})"
proof (induction m seen acc s rule: lineageLoop.induct)
  case (1 m seen acc s)
  show ?case
  proof (cases "sc_id s \<in> seen")
    case True
    then show ?thesis by (simp add: lineageLoop.simps)
  next
    case fresh: False
    show ?thesis
    proof (cases "truthy (sc_parentScopeId s)")
      case None
      with fresh show ?thesis by (intro disjI2 exI [of _ "[s]"]) (simp add: lineageLoop.simps)
    next
      case (Some i)
      show ?thesis
      proof (cases "mapGet m i")
        case None
        with fresh Some show ?thesis by (simp add: lineageLoop.simps)
      next
        case (Some p)
        have eq: "lineageLoop m seen acc s = lineageLoop m (insert (sc_id s) seen) (acc @ [s]) p"
          using fresh Some \<open>truthy (sc_parentScopeId s) = Some i\<close> by (subst lineageLoop.simps) simp
        from "1.IH" [OF fresh \<open>truthy (sc_parentScopeId s) = Some i\<close> Some] show ?thesis
        proof
          assume "lineageLoop m (insert (sc_id s) seen) (acc @ [s]) p = []"
          then show ?thesis by (simp add: eq)
        next
          assume "\<exists>L. lineageLoop m (insert (sc_id s) seen) (acc @ [s]) p = (acc @ [s]) @ L \<and> L \<noteq> []
            \<and> hd L = p \<and> parentChain m L \<and> distinct (map sc_id L) \<and> set (map sc_id L) \<inter> insert (sc_id s) seen = {}"
          then obtain L where L: "lineageLoop m (insert (sc_id s) seen) (acc @ [s]) p = (acc @ [s]) @ L"
            "L \<noteq> []" "hd L = p" "parentChain m L" "distinct (map sc_id L)"
            "set (map sc_id L) \<inter> insert (sc_id s) seen = {}" by blast
          then have "parentChain m (s # L)"
            using Some \<open>truthy (sc_parentScopeId s) = Some i\<close> by (cases L) auto
          with L fresh show ?thesis by (intro disjI2 exI [of _ "s # L"]) (auto simp: eq)
        qed
      qed
    qed
  qed
qed

lemma lineageLoop_complete:
  "parentChain m L \<Longrightarrow> hd L = s \<Longrightarrow> distinct (map sc_id L) \<Longrightarrow> set (map sc_id L) \<inter> seen = {}
    \<Longrightarrow> lineageLoop m seen acc s = acc @ L"
proof (induction L arbitrary: s seen acc rule: parentChain.induct)
  case (2 m t)
  then show ?case by (simp add: lineageLoop.simps)
next
  case (3 m t p rest)
  then have "lineageLoop m (insert (sc_id t) seen) (acc @ [t]) p = (acc @ [t]) @ p # rest"
    by (intro "3.IH") auto
  moreover have "lineageLoop m seen acc s = lineageLoop m (insert (sc_id t) seen) (acc @ [t]) p"
    using 3 by (subst lineageLoop.simps) auto
  ultimately show ?case by simp
qed simp

lemma lineageFor_iff: "L \<noteq> [] \<Longrightarrow> lineageFor s m = L \<longleftrightarrow> isLineage m s L"
proof
  assume "L \<noteq> []" "lineageFor s m = L"
  then show "isLineage m s L"
    using lineageLoop_Nil_or [of m "{}" "[]" s] by (auto simp: lineageFor_def isLineage_def)
next
  assume "isLineage m s L"
  then show "lineageFor s m = L"
    using lineageLoop_complete [of m L s "{}" "[]"] by (simp add: lineageFor_def isLineage_def)
qed

lemma not_isLineage_Nil [simp]: "\<not> isLineage m s []"
  by (simp add: isLineage_def)

text \<open>
  C14. The lineage of a scope is found exactly when it exists: the walk over the parents always ends,
  and returns a non-empty list if and only if that list is the chain from the scope to its root, with
  no scope twice. A cycle or a missing parent gives the empty list.
\<close>

theorem lineageFor_correct:
  "\<forall>L. isLineage m s L \<longleftrightarrow> L \<noteq> [] \<and> lineageFor s m = L"
  using lineageFor_iff by (metis not_isLineage_Nil)

section \<open>Maps by key\<close>

lemma mapBy_fold:
  "mapGet (fold (\<lambda>x m. mapSet m (key x) x) xs m0) k =
    (if filter (\<lambda>x. key x = k) xs = [] then mapGet m0 k else Some (last (filter (\<lambda>x. key x = k) xs)))"
  by (induction xs arbitrary: m0) auto

lemma mapGet_mapBy:
  "mapGet (mapBy key xs) k =
    (if filter (\<lambda>x. key x = k) xs = [] then None else Some (last (filter (\<lambda>x. key x = k) xs)))"
  by (simp add: mapBy_def mapBy_fold)

lemma last_filter: "filter P xs \<noteq> [] \<Longrightarrow> last (filter P xs) \<in> set xs \<and> P (last (filter P xs))"
  using last_in_set [of "filter P xs"] by simp

lemma mapBy_key: "mapGet (mapBy key xs) k = Some x \<Longrightarrow> key x = k \<and> x \<in> set xs"
proof -
  assume "mapGet (mapBy key xs) k = Some x"
  then have "filter (\<lambda>x. key x = k) xs \<noteq> []" "x = last (filter (\<lambda>x. key x = k) xs)"
    by (auto simp: mapGet_mapBy split: if_splits)
  with last_filter [of "\<lambda>x. key x = k" xs] show ?thesis by blast
qed

lemma mapBy_distinct: "distinct (map key xs) \<Longrightarrow> x \<in> set xs \<Longrightarrow> mapGet (mapBy key xs) (key x) = Some x"
proof -
  assume d: "distinct (map key xs)" and x: "x \<in> set xs"
  have ne: "filter (\<lambda>y. key y = key x) xs \<noteq> []" using x by (auto simp: filter_empty_conv)
  moreover from last_filter [OF ne] have "last (filter (\<lambda>y. key y = key x) xs) = x"
    using d x by (auto simp: distinct_map inj_on_def)
  ultimately show ?thesis by (simp add: mapGet_mapBy)
qed

text \<open>In a map by id, the scopes of a lineage are found by their ids.\<close>

lemma chain_tail: "parentChain m (A @ t # B) \<Longrightarrow> parentChain m (t # B)"
  by (induction m A rule: parentChain.induct) auto

lemma lineage_suffix:
  assumes L: "lineageFor s m = A @ t # B"
  shows "lineageFor t m = t # B"
proof -
  have "isLineage m s (A @ t # B)" using lineageFor_iff [of "A @ t # B" s m] L by simp
  then have "isLineage m t (t # B)" using chain_tail [of m A t B] by (simp add: isLineage_def)
  then show ?thesis using lineageFor_iff [of "t # B" t m] by simp
qed

lemma chain_found:
  assumes "parentChain (mapBy sc_id scopes) L" and "t \<in> set (tl L)"
  shows "mapGet (mapBy sc_id scopes) (sc_id t) = Some t"
  using assms
proof (induction "mapBy sc_id scopes" L rule: parentChain.induct)
  case (3 s p rest)
  then show ?case using mapBy_key [of sc_id scopes] by fastforce
qed simp_all

lemma lineage_found:
  assumes "mapGet (mapBy sc_id scopes) i = Some s" and "t \<in> set (lineageFor s (mapBy sc_id scopes))"
  shows "mapGet (mapBy sc_id scopes) (sc_id t) = Some t"
proof -
  let ?L = "lineageFor s (mapBy sc_id scopes)"
  have ne: "?L \<noteq> []" using assms(2) by auto
  then have L: "isLineage (mapBy sc_id scopes) s ?L" using lineageFor_iff by blast
  then have "t = s \<or> t \<in> set (tl ?L)"
    using assms(2) by (cases ?L) (auto simp: isLineage_def)
  then show ?thesis
    using mapBy_key [OF assms(1)] assms(1) chain_found [of scopes ?L t] L by (auto simp: isLineage_def)
qed

section \<open>Who can read\<close>

text \<open>A membership makes the scopes of its active lineage readable.\<close>

definition readableVia :: "scope_map \<Rightarrow> scope_membership \<Rightarrow> string \<Rightarrow> bool" where
  "readableVia m membership k \<longleftrightarrow>
     (\<exists>s. mapGet m (m_scopeId membership) = Some s \<and> allActive (lineageFor s m) \<and> k \<in> sc_id ` set (lineageFor s m))"

definition sourcesOf :: "(string, string list) jsmap \<Rightarrow> string \<Rightarrow> string list" where
  "sourcesOf ts k = (case mapGet ts k of None \<Rightarrow> [] | Some sources \<Rightarrow> sources)"

lemma sourcesOf_mapSet [simp]: "sourcesOf (mapSet ts j v) k = (if k = j then v else sourcesOf ts k)"
  by (simp add: sourcesOf_def)

lemma sourcesOf_lineage:
  "set (sourcesOf (fold (\<lambda>scope ts. mapSet ts (sc_id scope) (sourcesOf ts (sc_id scope) @ [x])) L ts) k) =
    set (sourcesOf ts k) \<union> (if k \<in> sc_id ` set L then {x} else {})"
  by (induction L arbitrary: ts) auto

lemma sourcesOf_add:
  "set (sourcesOf (addReadable m mem ts) k) =
    set (sourcesOf ts k) \<union> (if readableVia m mem k then {m_scopeId mem} else {})"
  by (auto simp: addReadable_def readableVia_def Let_def sourcesOf_def [symmetric] sourcesOf_lineage
      split: option.splits)

lemma readable_sources:
  "set (sourcesOf (readableTargets m ms) k) = {m_scopeId mem | mem. mem \<in> set ms \<and> readableVia m mem k}"
proof -
  have "set (sourcesOf (fold (addReadable m) ms ts) k) =
      set (sourcesOf ts k) \<union> {m_scopeId mem | mem. mem \<in> set ms \<and> readableVia m mem k}" for ts
    by (induction ms arbitrary: ts) (auto simp: sourcesOf_add)
  then show ?thesis by (simp add: readableTargets_def sourcesOf_def)
qed

definition activeMember :: "platform_user \<Rightarrow> bool" where
  "activeMember u \<longleftrightarrow> u_status u = UserActive \<and> u_globalRole u \<noteq> GlobalAdmin"

lemma toSortedBy_Nil [simp]: "toSortedBy cmp xs = [] \<longleftrightarrow> xs = []"
  using length_toSortedBy [of cmp xs] by (metis length_0_conv)

lemma authorize_member:
  assumes "activeMember u" and "allActive (lineageFor target (mapBy sc_id scopes))"
  shows "canRead (resolveOrganizationAuthorization (Some u) (Some target) scopes ms)
      \<longleftrightarrow> (\<exists>mem \<in> set ms. readableVia (mapBy sc_id scopes) mem (sc_id target))"
    and "canManageMembers (resolveOrganizationAuthorization (Some u) (Some target) scopes ms)
      \<longleftrightarrow> (\<exists>s \<in> set (lineageFor target (mapBy sc_id scopes)).
            \<exists>mem. mapGet (mapBy m_scopeId ms) (sc_id s) = Some mem \<and> m_role mem = ScopeLeader)"
proof -
  have "sourcesOf (readableTargets (mapBy sc_id scopes) ms) (sc_id target) \<noteq> []
      \<longleftrightarrow> (\<exists>mem \<in> set ms. readableVia (mapBy sc_id scopes) mem (sc_id target))"
    by (simp only: set_empty [symmetric] readable_sources) auto
  then show "canRead (resolveOrganizationAuthorization (Some u) (Some target) scopes ms)
      \<longleftrightarrow> (\<exists>mem \<in> set ms. readableVia (mapBy sc_id scopes) mem (sc_id target))"
    using assms
    by (simp add: resolveOrganizationAuthorization_def activeMember_def Let_def sourcesOf_def [symmetric])
  show "canManageMembers (resolveOrganizationAuthorization (Some u) (Some target) scopes ms)
      \<longleftrightarrow> (\<exists>s \<in> set (lineageFor target (mapBy sc_id scopes)).
            \<exists>mem. mapGet (mapBy m_scopeId ms) (sc_id s) = Some mem \<and> m_role mem = ScopeLeader)"
    using assms
    by (auto simp: resolveOrganizationAuthorization_def activeMember_def Let_def filter_empty_conv
        split: option.splits)
qed

text \<open>
  C15. Structure and leaders are for administrators: nobody else may change the structure of the
  organization or appoint leaders, an administrator may not change the structure of a scope that is
  managed by the directory, and nothing at all is granted to a missing or disabled user, without a
  target, or below an archived or broken lineage.
\<close>

theorem authorization_bounds:
  "(canManageStructure (resolveOrganizationAuthorization actor target scopes ms)
      \<longleftrightarrow> (\<exists>a t. actor = Some a \<and> target = Some t \<and> u_status a = UserActive \<and> u_globalRole a = GlobalAdmin
            \<and> allActive (lineageFor t (mapBy sc_id scopes)) \<and> \<not> sc_ldapManaged t))
    \<and> (canManageLeaders (resolveOrganizationAuthorization actor target scopes ms)
      \<longleftrightarrow> (\<exists>a t. actor = Some a \<and> target = Some t \<and> u_status a = UserActive \<and> u_globalRole a = GlobalAdmin
            \<and> allActive (lineageFor t (mapBy sc_id scopes))))
    \<and> (resolveOrganizationAuthorization actor target scopes ms = unavailable
      \<or> (\<exists>a t. actor = Some a \<and> target = Some t \<and> u_status a = UserActive
            \<and> allActive (lineageFor t (mapBy sc_id scopes))))"
  by (auto simp: resolveOrganizationAuthorization_def unavailable_def Let_def split: option.splits)

text \<open>
  The two leader checks agree: when no scope has two memberships of the user, the check used on
  its own says leader exactly when the authorization lets the member manage the members.
\<close>

theorem leader_checks_agree:
  assumes "activeMember u" and "distinct (map m_scopeId ms)"
  shows "isDelegatedOrganizationLeader target scopes ms
    \<longleftrightarrow> canManageMembers (resolveOrganizationAuthorization (Some u) (Some target) scopes ms)"
proof (cases "allActive (lineageFor target (mapBy sc_id scopes))")
  case True
  have "(\<exists>mem. mapGet (mapBy m_scopeId ms) k = Some mem \<and> m_role mem = ScopeLeader)
      \<longleftrightarrow> k \<in> m_scopeId ` {mem \<in> set ms. m_role mem = ScopeLeader}" for k
    using mapBy_key [of m_scopeId ms k] mapBy_distinct [OF assms(2)] by fastforce
  then show ?thesis
    using True by (simp add: authorize_member [OF assms(1) True] isDelegatedOrganizationLeader_def Let_def list_ex_iff)
next
  case False
  with assms(1) show ?thesis
    by (simp add: isDelegatedOrganizationLeader_def resolveOrganizationAuthorization_def unavailable_def Let_def
        activeMember_def)
qed

section \<open>An example organization\<close>

text \<open>A part below a group below a team; the member leads the group and belongs to the part.\<close>

definition orgScope :: "string \<Rightarrow> scope_kind \<Rightarrow> string option \<Rightarrow> managed_scope" where
  "orgScope i kind parent =
     \<lparr>sc_id = i, sc_kind = kind, sc_name = i, sc_parentScopeId = parent, sc_status = ScopeActive,
      sc_createdByUserId = ''root'', sc_createdAt = 1, sc_updatedAt = 1, sc_ldapManaged = False,
      sc_externalKey = None\<rparr>"

definition orgScopes :: "managed_scope list" where
  "orgScopes = [orgScope ''t'' Team None, orgScope ''g'' Group (Some ''t''), orgScope ''p'' Part (Some ''g'')]"

definition orgMembership :: "string \<Rightarrow> scope_role \<Rightarrow> scope_membership" where
  "orgMembership scopeId role =
     \<lparr>m_scopeId = scopeId, m_userId = ''ann'', m_role = role, m_createdAt = 2, m_updatedAt = 2,
      m_ldapManaged = False, m_manualRole = None\<rparr>"

definition orgMemberships :: "scope_membership list" where
  "orgMemberships = [orgMembership ''g'' ScopeLeader, orgMembership ''p'' ScopeMember]"

definition orgUser :: platform_user where
  "orgUser =
     \<lparr>u_id = ''ann'', u_accountId = ''ann'', u_employeeId = ''e1'', u_status = UserActive,
      u_globalRole = GlobalMember, u_displayName = None, u_email = None, u_department = None,
      u_timezone = None, u_groups = [], u_createdAt = 1, u_updatedAt = 1, u_lastLoginAt = None\<rparr>"

lemma orgUser_active: "activeMember orgUser"
  by (simp add: activeMember_def orgUser_def)

theorem leader_checks_agree_witness:
  "isDelegatedOrganizationLeader (orgScope ''p'' Part (Some ''g'')) orgScopes orgMemberships
    \<and> canManageMembers (resolveOrganizationAuthorization (Some orgUser)
          (Some (orgScope ''p'' Part (Some ''g''))) orgScopes orgMemberships)"
proof -
  have "isDelegatedOrganizationLeader (orgScope ''p'' Part (Some ''g'')) orgScopes orgMemberships" by code_simp
  moreover have "distinct (map m_scopeId orgMemberships)" by code_simp
  ultimately show ?thesis
    using leader_checks_agree [OF orgUser_active, of orgMemberships "orgScope ''p'' Part (Some ''g'')" orgScopes] by blast
qed

section \<open>The access map\<close>

definition isDirect :: "(string, scope_access) jsmap \<Rightarrow> string \<Rightarrow> bool" where
  "isDirect access k \<longleftrightarrow> (\<exists>a. mapGet access k = Some a \<and> ac_source a = DirectAccess)"

lemma isDirect_mapSet [simp]:
  "isDirect (mapSet access j a) k \<longleftrightarrow> (if k = j then ac_source a = DirectAccess else isDirect access k)"
  by (simp add: isDirect_def)

definition keyedById :: "(string, scope_access) jsmap \<Rightarrow> bool" where
  "keyedById access \<longleftrightarrow> distinct (mapKeys access) \<and> (\<forall>k a. mapGet access k = Some a \<longrightarrow> sc_id (ac_scope a) = k)"

lemma keyedById_Nil: "keyedById []"
  by (simp add: keyedById_def)

lemma keyedById_put: "keyedById access \<Longrightarrow> sc_id (ac_scope a) = k \<Longrightarrow> keyedById (mapSet access k a)"
  by (auto simp: keyedById_def)

lemma keyedById_values:
  assumes "keyedById access"
  shows "a \<in> set (mapValues access) \<longleftrightarrow> mapGet access (sc_id (ac_scope a)) = Some a"
proof
  assume "a \<in> set (mapValues access)"
  then obtain k where k: "mapGet access k = Some a"
    using assms in_mapValuesD [of access a] by (auto simp: keyedById_def)
  with assms have "sc_id (ac_scope a) = k" by (simp add: keyedById_def)
  with k show "mapGet access (sc_id (ac_scope a)) = Some a" by simp
qed (rule in_mapValuesI)

lemma addLineage_keys: "mapHas (addLineage role first L access) k \<longleftrightarrow> mapHas access k \<or> k \<in> sc_id ` set L"
  by (induction L arbitrary: first access) auto

lemma addLineage_keyed: "keyedById access \<Longrightarrow> keyedById (addLineage role first L access)"
proof (induction L arbitrary: first access)
  case (Cons s L)
  then have "keyedById (mapSet access (sc_id s) \<lparr>ac_scope = s, ac_source = src, ac_directRole = r\<rparr>)" for src r
    by (intro keyedById_put) simp_all
  then show ?case using Cons by simp
qed simp

lemma addLineage_ancestors: "isDirect (addLineage role False L access) k \<longleftrightarrow> isDirect access k"
  by (induction L arbitrary: access) (auto simp: isDirect_def)

lemma addLineage_direct:
  "L \<noteq> [] \<Longrightarrow> isDirect (addLineage role True L access) k \<longleftrightarrow> isDirect access k \<or> k = sc_id (hd L)"
  by (cases L) (auto simp: addLineage_ancestors)

definition accessMap :: "(scope_membership \<times> managed_scope list) list \<Rightarrow> (string, scope_access) jsmap" where
  "accessMap direct = fold (\<lambda>(membership, lineage). addLineage (m_role membership) True lineage) direct []"

lemma accessMap_spec:
  assumes "\<forall>p \<in> set direct. snd p \<noteq> []"
  shows "mapHas (accessMap direct) k \<longleftrightarrow> (\<exists>p \<in> set direct. k \<in> sc_id ` set (snd p))"
    and "isDirect (accessMap direct) k \<longleftrightarrow> (\<exists>p \<in> set direct. k = sc_id (hd (snd p)))"
    and "keyedById (accessMap direct)"
proof -
  let ?f = "\<lambda>direct access. fold (\<lambda>(membership, lineage). addLineage (m_role membership) True lineage) direct access"
  have "mapHas (?f direct access) k \<longleftrightarrow> mapHas access k \<or> (\<exists>p \<in> set direct. k \<in> sc_id ` set (snd p))" for access
  proof (induction direct arbitrary: access)
    case (Cons p ps)
    have "mapHas (?f (p # ps) access) k \<longleftrightarrow> mapHas (?f ps (addLineage (m_role (fst p)) True (snd p) access)) k"
      by (cases p) simp
    with Cons show ?case by (auto simp only: addLineage_keys list.set bex_simps)
  qed simp
  then show "mapHas (accessMap direct) k \<longleftrightarrow> (\<exists>p \<in> set direct. k \<in> sc_id ` set (snd p))"
    by (simp add: accessMap_def)
  have "isDirect (?f direct access) k \<longleftrightarrow> isDirect access k \<or> (\<exists>p \<in> set direct. k = sc_id (hd (snd p)))" for access
    using assms
  proof (induction direct arbitrary: access)
    case (Cons p ps)
    then show ?case by (cases p) (auto simp: addLineage_direct)
  qed simp
  moreover have "\<not> isDirect [] k" by (simp add: isDirect_def)
  ultimately show "isDirect (accessMap direct) k \<longleftrightarrow> (\<exists>p \<in> set direct. k = sc_id (hd (snd p)))"
    by (simp add: accessMap_def)
  have "keyedById access \<Longrightarrow> keyedById (?f direct access)" for access
    by (induction direct arbitrary: access) (auto intro: addLineage_keyed)
  from this [of "[]"] show "keyedById (accessMap direct)" unfolding accessMap_def by (simp add: keyedById_Nil)
qed

lemma directMemberships_iff:
  "p \<in> set (directMemberships m ms) \<longleftrightarrow> fst p \<in> set ms
    \<and> (\<exists>s. mapGet m (m_scopeId (fst p)) = Some s \<and> snd p = lineageFor s m \<and> allActive (snd p))"
  by (cases p) (auto simp: directMemberships_def Let_def allActive_def split: option.splits if_splits)

lemma direct_readable:
  "(\<exists>p \<in> set (directMemberships m ms). k \<in> sc_id ` set (snd p)) \<longleftrightarrow> (\<exists>mem \<in> set ms. readableVia m mem k)"
proof
  assume "\<exists>p \<in> set (directMemberships m ms). k \<in> sc_id ` set (snd p)"
  then obtain p where p: "p \<in> set (directMemberships m ms)" "k \<in> sc_id ` set (snd p)" by blast
  from p(1) obtain s where "fst p \<in> set ms" "mapGet m (m_scopeId (fst p)) = Some s" "snd p = lineageFor s m"
    "allActive (snd p)" unfolding directMemberships_iff by blast
  with p(2) show "\<exists>mem \<in> set ms. readableVia m mem k"
    by (intro bexI [of _ "fst p"]) (simp_all add: readableVia_def)
next
  assume "\<exists>mem \<in> set ms. readableVia m mem k"
  then obtain mem s where "mem \<in> set ms" "mapGet m (m_scopeId mem) = Some s" "allActive (lineageFor s m)"
    "k \<in> sc_id ` set (lineageFor s m)" unfolding readableVia_def by blast
  then show "\<exists>p \<in> set (directMemberships m ms). k \<in> sc_id ` set (snd p)"
    by (intro bexI [of _ "(mem, lineageFor s m)"]) (auto simp: directMemberships_iff)
qed

lemma hd_lineage: "lineageFor s m \<noteq> [] \<Longrightarrow> hd (lineageFor s m) = s"
  using lineageFor_iff [of "lineageFor s m" s m] by (simp add: isLineage_def)

text \<open>The listed scopes are the values of the access map.\<close>

lemma access_listed:
  fixes lc :: "string \<Rightarrow> string \<Rightarrow> int" and scopes :: "managed_scope list" and ms :: "scope_membership list"
  assumes "activeMember u"
  defines "d \<equiv> directMemberships (mapBy sc_id scopes) ms"
  defines "A \<equiv> oa_effectiveAccess (resolveOrganizationAccess lc (Some u) scopes ms)"
  shows "(\<exists>a \<in> set A. sc_id (ac_scope a) = k) \<longleftrightarrow> mapHas (accessMap d) k"
    and "(\<exists>a \<in> set A. sc_id (ac_scope a) = k \<and> ac_source a = DirectAccess) \<longleftrightarrow> isDirect (accessMap d) k"
    and "distinct (map (\<lambda>a. sc_id (ac_scope a)) A)"
proof -
  have ne: "\<forall>p \<in> set d. snd p \<noteq> []" by (auto simp: d_def directMemberships_iff allActive_def)
  note keyed = accessMap_spec(3) [OF ne]
  have A: "set A = set (mapValues (accessMap d))" "length A = length (accessMap d)"
    using assms(1) by (simp_all add: A_def d_def resolveOrganizationAccess_def activeMember_def Let_def accessMap_def mapValues_def)
  have kd: "distinct (mapKeys (accessMap d))" "\<And>k a. mapGet (accessMap d) k = Some a \<Longrightarrow> sc_id (ac_scope a) = k"
    using keyed by (auto simp: keyedById_def)
  have inA: "a \<in> set A \<longleftrightarrow> mapGet (accessMap d) (sc_id (ac_scope a)) = Some a" for a
    unfolding A(1) by (rule keyedById_values [OF keyed])
  show has: "(\<exists>a \<in> set A. sc_id (ac_scope a) = k) \<longleftrightarrow> mapHas (accessMap d) k" for k
  proof
    assume "mapHas (accessMap d) k"
    then obtain a where "mapGet (accessMap d) k = Some a" by auto
    with kd(2) [OF this] show "\<exists>a \<in> set A. sc_id (ac_scope a) = k" by (intro bexI [of _ a]) (simp_all add: inA)
  qed (auto simp: inA)
  show "(\<exists>a \<in> set A. sc_id (ac_scope a) = k \<and> ac_source a = DirectAccess) \<longleftrightarrow> isDirect (accessMap d) k"
  proof
    assume "isDirect (accessMap d) k"
    then obtain a where "mapGet (accessMap d) k = Some a" "ac_source a = DirectAccess" by (auto simp: isDirect_def)
    with kd(2) [OF this(1)] show "\<exists>a \<in> set A. sc_id (ac_scope a) = k \<and> ac_source a = DirectAccess"
      by (intro bexI [of _ a]) (simp_all add: inA)
  qed (auto simp: inA isDirect_def)
  have "sc_id ` ac_scope ` set A = set (mapKeys (accessMap d))"
  proof (rule set_eqI)
    fix k
    have "k \<in> sc_id ` ac_scope ` set A \<longleftrightarrow> (\<exists>a \<in> set A. sc_id (ac_scope a) = k)" by auto
    also have "\<dots> \<longleftrightarrow> k \<in> set (mapKeys (accessMap d))" by (simp only: has set_mapKeys domIff)
    finally show "k \<in> sc_id ` ac_scope ` set A \<longleftrightarrow> k \<in> set (mapKeys (accessMap d))" .
  qed
  then have "card (sc_id ` ac_scope ` set A) = length A"
    using kd(1) A(2) distinct_card [of "mapKeys (accessMap d)"] by simp
  then show "distinct (map (\<lambda>a. sc_id (ac_scope a)) A)"
    by (intro card_distinct) (simp add: image_image)
qed

lemma direct_own:
  "(\<exists>p \<in> set (directMemberships (mapBy sc_id scopes) ms). k = sc_id (hd (snd p)))
    \<longleftrightarrow> (\<exists>mem \<in> set ms. m_scopeId mem = k \<and> readableVia (mapBy sc_id scopes) mem k)" (is "?L \<longleftrightarrow> ?R")
proof
  let ?m = "mapBy sc_id scopes"
  assume ?L
  then obtain p s where p: "fst p \<in> set ms" "mapGet ?m (m_scopeId (fst p)) = Some s" "snd p = lineageFor s ?m"
    "allActive (snd p)" "k = sc_id (hd (snd p))" by (auto simp: directMemberships_iff)
  then have "hd (snd p) = s" "hd (snd p) \<in> set (snd p)"
    using hd_lineage [of s ?m] hd_in_set [of "snd p"] by (simp_all add: allActive_def)
  moreover have "sc_id s = m_scopeId (fst p)" using mapBy_key [OF p(2)] by simp
  ultimately show ?R
    using p imageI [of s "set (lineageFor s ?m)" sc_id]
    by (intro bexI [of _ "fst p"]) (simp_all add: readableVia_def)
next
  let ?m = "mapBy sc_id scopes"
  assume ?R
  then obtain mem s where "mem \<in> set ms" "m_scopeId mem = k" "mapGet ?m k = Some s" "allActive (lineageFor s ?m)"
    unfolding readableVia_def by blast
  then show ?L
    using mapBy_key [of sc_id scopes k s] hd_lineage [of s ?m]
    by (intro bexI [of _ "(mem, lineageFor s ?m)"]) (auto simp: directMemberships_iff allActive_def)
qed

lemma readable_active:
  assumes "mapGet (mapBy sc_id scopes) k = Some t" and "readableVia (mapBy sc_id scopes) mem k"
  shows "allActive (lineageFor t (mapBy sc_id scopes))"
proof -
  let ?m = "mapBy sc_id scopes"
  obtain s v where s: "mapGet ?m (m_scopeId mem) = Some s" "allActive (lineageFor s ?m)"
    "v \<in> set (lineageFor s ?m)" "sc_id v = k" using assms(2) unfolding readableVia_def by blast
  then have "v = t" using lineage_found [OF s(1,3)] assms(1) by simp
  then obtain B C where L: "lineageFor s ?m = B @ t # C" using s(3) by (metis split_list)
  then show ?thesis
    using s(2) lineage_suffix [OF L] by (simp add: allActive_def)
qed

lemma reads_iff:
  assumes "activeMember u" and t: "mapGet (mapBy sc_id scopes) k = Some t"
  shows "canRead (resolveOrganizationAuthorization (Some u) (Some t) scopes ms)
    \<longleftrightarrow> (\<exists>mem \<in> set ms. readableVia (mapBy sc_id scopes) mem k)"
proof (cases "allActive (lineageFor t (mapBy sc_id scopes))")
  case True
  then show ?thesis using authorize_member(1) [OF assms(1) True] mapBy_key [OF t] by simp
next
  case False
  then have "\<not> readableVia (mapBy sc_id scopes) mem k" for mem using readable_active [OF t] by blast
  moreover have "resolveOrganizationAuthorization (Some u) (Some t) scopes ms = unavailable"
    using False assms(1) by (simp add: resolveOrganizationAuthorization_def Let_def activeMember_def)
  ultimately show ?thesis by (simp add: unavailable_def)
qed

text \<open>
  C16. A member sees exactly what its memberships open: the scopes listed are those on an active
  lineage of one of its memberships, each once; a scope is listed as direct exactly when the member
  has a membership of it; and a scope is listed exactly when the authorization lets the member read
  it.
\<close>

theorem effective_access_correct:
  assumes "activeMember u"
  shows "distinct (map (\<lambda>a. sc_id (ac_scope a)) (oa_effectiveAccess (resolveOrganizationAccess lc (Some u) scopes ms)))
    \<and> ((\<exists>a \<in> set (oa_effectiveAccess (resolveOrganizationAccess lc (Some u) scopes ms)). sc_id (ac_scope a) = k)
        \<longleftrightarrow> (\<exists>mem \<in> set ms. readableVia (mapBy sc_id scopes) mem k))
    \<and> ((\<exists>a \<in> set (oa_effectiveAccess (resolveOrganizationAccess lc (Some u) scopes ms)).
          sc_id (ac_scope a) = k \<and> ac_source a = DirectAccess)
        \<longleftrightarrow> (\<exists>mem \<in> set ms. m_scopeId mem = k \<and> readableVia (mapBy sc_id scopes) mem k))
    \<and> (mapGet (mapBy sc_id scopes) k = Some t \<longrightarrow>
        canRead (resolveOrganizationAuthorization (Some u) (Some t) scopes ms)
          = (\<exists>a \<in> set (oa_effectiveAccess (resolveOrganizationAccess lc (Some u) scopes ms)). sc_id (ac_scope a) = k))"
proof -
  let ?d = "directMemberships (mapBy sc_id scopes) ms"
  have "\<forall>p \<in> set ?d. snd p \<noteq> []" by (auto simp: directMemberships_iff allActive_def)
  note spec = accessMap_spec [OF this] and listed = access_listed [OF assms, of lc scopes ms]
  show ?thesis
    using listed(3) reads_iff [OF assms] by (simp only: listed(1,2) spec(1,2) direct_readable direct_own) simp
qed

theorem effective_access_correct_witness:
  "canRead (resolveOrganizationAuthorization (Some orgUser) (Some (orgScope ''t'' Team None)) orgScopes orgMemberships)
    \<and> (\<exists>a \<in> set (oa_effectiveAccess (resolveOrganizationAccess compareUnits (Some orgUser) orgScopes orgMemberships)).
          sc_id (ac_scope a) = ''t'')
    \<and> \<not> (\<exists>a \<in> set (oa_effectiveAccess (resolveOrganizationAccess compareUnits (Some orgUser) orgScopes orgMemberships)).
          sc_id (ac_scope a) = ''t'' \<and> ac_source a = DirectAccess)"
proof -
  have "canRead (resolveOrganizationAuthorization (Some orgUser) (Some (orgScope ''t'' Team None)) orgScopes orgMemberships)"
    by code_simp
  moreover have "mapGet (mapBy sc_id orgScopes) ''t'' = Some (orgScope ''t'' Team None)" by code_simp
  moreover have "\<not> (\<exists>mem \<in> set orgMemberships. m_scopeId mem = ''t'')" by code_simp
  ultimately show ?thesis
    using effective_access_correct [OF orgUser_active, of compareUnits orgScopes orgMemberships "''t''"
        "orgScope ''t'' Team None"] by blast
qed

end
