(* ===== verification/LoginRateLimiter.thy ===== *)
theory LoginRateLimiter
  imports Contracts
begin

text \<open>
  \<open>browser-login-rate-limiter.ts\<close>: the process-local limit on failed logins. The clock is an argument
  of the operations. The lemmas show that one key does not see the calls of another while no key is
  evicted, so that lockout is a fact about the calls of one key.
\<close>

section \<open>Configuration\<close>

record rate_entry =
  re_failures :: int
  re_windowStartedAt :: int
  re_blockedUntil :: int
  re_lastSeenAt :: int

record limiter =
  rl_failureLimit :: int
  rl_windowMs :: int
  rl_blockMs :: int
  rl_maxKeys :: int

definition DEFAULT_FAILURE_LIMIT :: int where "DEFAULT_FAILURE_LIMIT = 5"
definition DEFAULT_WINDOW_MS :: int where "DEFAULT_WINDOW_MS = 10 * 60 * 1000"
definition DEFAULT_BLOCK_MS :: int where "DEFAULT_BLOCK_MS = 15 * 60 * 1000"
definition DEFAULT_MAX_KEYS :: int where "DEFAULT_MAX_KEYS = 10000"

definition positiveInteger :: "js_number \<Rightarrow> string \<Rightarrow> error + int" where
  "positiveInteger value label =
     (case value of
        OtherNumber \<Rightarrow> Inl (PlainError ''must be a positive integer'' [label])
      | IntegerNumber n \<Rightarrow>
          if \<not> isSafeInteger n \<or> n \<le> 0 then Inl (PlainError ''must be a positive integer'' [label]) else Inr n)"

definition orDefault :: "js_number option \<Rightarrow> int \<Rightarrow> js_number" where
  "orDefault value dflt = (case value of None \<Rightarrow> IntegerNumber dflt | Some v \<Rightarrow> v)"

definition newLimiter ::
    "js_number option \<Rightarrow> js_number option \<Rightarrow> js_number option \<Rightarrow> js_number option \<Rightarrow> error + limiter" where
  "newLimiter failureLimit windowMs blockMs maxKeys =
     (case positiveInteger (orDefault failureLimit DEFAULT_FAILURE_LIMIT) ''login failure limit'' of
        Inl e \<Rightarrow> Inl e | Inr l \<Rightarrow>
     (case positiveInteger (orDefault windowMs DEFAULT_WINDOW_MS) ''login window'' of Inl e \<Rightarrow> Inl e | Inr w \<Rightarrow>
     (case positiveInteger (orDefault blockMs DEFAULT_BLOCK_MS) ''login block duration'' of Inl e \<Rightarrow> Inl e | Inr b \<Rightarrow>
     (case positiveInteger (orDefault maxKeys DEFAULT_MAX_KEYS) ''login rate-limit key cap'' of Inl e \<Rightarrow> Inl e | Inr k \<Rightarrow>
        Inr \<lparr>rl_failureLimit = l, rl_windowMs = w, rl_blockMs = b, rl_maxKeys = k\<rparr>))))"

section \<open>Operations\<close>

type_synonym rate_entries = "(string, rate_entry) jsmap"

definition limiterKey :: "string option \<Rightarrow> string \<Rightarrow> string" where
  "limiterKey clientIp scope =
     scope @ nul # (case clientIp of
                      None \<Rightarrow> ''unknown''
                    | Some ip \<Rightarrow> if trim ip = [] then ''unknown'' else trim ip)"

definition check :: "limiter \<Rightarrow> int \<Rightarrow> string option \<Rightarrow> string \<Rightarrow> rate_entries \<Rightarrow> (bool \<times> int) \<times> rate_entries" where
  "check L now clientIp scope entries =
     (case mapGet entries (limiterKey clientIp scope) of
        None \<Rightarrow> ((True, 0), entries)
      | Some e \<Rightarrow>
          let entry = e\<lparr>re_lastSeenAt := now\<rparr>;
              entries1 = mapSet entries (limiterKey clientIp scope) entry
          in
          if re_blockedUntil entry > now then ((False, re_blockedUntil entry - now), entries1)
          else if now - re_windowStartedAt entry \<ge> rl_windowMs L
          then ((True, 0), mapDelete entries1 (limiterKey clientIp scope))
          else ((True, 0), entries1))"

text \<open>The scan for the key seen longest ago; \<open>None\<close> stands for \<open>undefined\<close> and infinity.\<close>

fun scanOldest :: "(string \<times> int) option \<Rightarrow> rate_entries \<Rightarrow> (string \<times> int) option" where
  "scanOldest oldest [] = oldest"
| "scanOldest oldest ((key, entry) # rest) =
     scanOldest
       (case oldest of
          None \<Rightarrow> Some (key, re_lastSeenAt entry)
        | Some (k, oldestAt) \<Rightarrow> if re_lastSeenAt entry < oldestAt then Some (key, re_lastSeenAt entry) else oldest)
       rest"

lemma scanOldest_mem: "scanOldest oldest m = Some (k, t) \<Longrightarrow> k \<in> fst ` set m \<or> oldest = Some (k, t)"
  by (induction oldest m rule: scanOldest.induct) (auto split: option.splits if_splits)

lemma length_mapDelete_less:
  assumes "k \<in> fst ` set m"
  shows "length (mapDelete m k) < length m"
proof -
  from assms obtain v where "(k, v) \<in> set m" by auto
  then show ?thesis unfolding AList.delete_eq by (intro length_filter_less [of "(k, v)"]) auto
qed

function evictOldestKeys :: "limiter \<Rightarrow> rate_entries \<Rightarrow> rate_entries" where
  "evictOldestKeys L entries =
     (if int (length entries) > rl_maxKeys L then
        (case scanOldest None entries of
           None \<Rightarrow> entries
         | Some (oldestKey, _) \<Rightarrow>
             if oldestKey = [] then entries else evictOldestKeys L (mapDelete entries oldestKey))
      else entries)"
  by pat_completeness auto

termination
proof (relation "measure (\<lambda>(L, entries). length entries)", simp, goal_cases)
  case (1 L entries p k t)
  then have "k \<in> fst ` set entries" using scanOldest_mem [of None entries k t] by simp
  from length_mapDelete_less [OF this] show ?case by simp
qed

declare evictOldestKeys.simps [simp del]

definition recordFailure :: "limiter \<Rightarrow> int \<Rightarrow> string option \<Rightarrow> string \<Rightarrow> rate_entries \<Rightarrow> rate_entries" where
  "recordFailure L now clientIp scope entries =
     (let key = limiterKey clientIp scope;
          fresh = \<lparr>re_failures = 0, re_windowStartedAt = now, re_blockedUntil = 0, re_lastSeenAt = now\<rparr>;
          entry =
            (case mapGet entries key of
               None \<Rightarrow> fresh
             | Some current \<Rightarrow> if now - re_windowStartedAt current \<ge> rl_windowMs L then fresh else current);
          entry1 = entry\<lparr>re_failures := re_failures entry + 1, re_lastSeenAt := now\<rparr>;
          entry2 =
            (if re_failures entry1 \<ge> rl_failureLimit L
             then entry1\<lparr>re_blockedUntil := now + rl_blockMs L\<rparr> else entry1)
      in evictOldestKeys L (mapSet entries key entry2))"

section \<open>One key\<close>

text \<open>What the operations do to the entry of their key.\<close>

definition entryCheck :: "limiter \<Rightarrow> int \<Rightarrow> rate_entry option \<Rightarrow> (bool \<times> int) \<times> rate_entry option" where
  "entryCheck L now entry =
     (case entry of
        None \<Rightarrow> ((True, 0), None)
      | Some e \<Rightarrow>
          if re_blockedUntil e > now then ((False, re_blockedUntil e - now), Some (e\<lparr>re_lastSeenAt := now\<rparr>))
          else if now - re_windowStartedAt e \<ge> rl_windowMs L then ((True, 0), None)
          else ((True, 0), Some (e\<lparr>re_lastSeenAt := now\<rparr>)))"

definition entryFailure :: "limiter \<Rightarrow> int \<Rightarrow> rate_entry option \<Rightarrow> rate_entry" where
  "entryFailure L now entry =
     (let (failures, startedAt, blockedUntil) =
            (case entry of
               None \<Rightarrow> (1, now, 0)
             | Some e \<Rightarrow>
                 if now - re_windowStartedAt e \<ge> rl_windowMs L then (1, now, 0)
                 else (re_failures e + 1, re_windowStartedAt e, re_blockedUntil e))
      in \<lparr>re_failures = failures, re_windowStartedAt = startedAt,
          re_blockedUntil = (if failures \<ge> rl_failureLimit L then now + rl_blockMs L else blockedUntil),
          re_lastSeenAt = now\<rparr>)"

lemma fst_check: "fst (check L now ip scope m) = fst (entryCheck L now (mapGet m (limiterKey ip scope)))"
  by (simp add: check_def entryCheck_def Let_def split: option.splits)

lemma mapGet_check:
  "mapGet (snd (check L now ip scope m)) j =
    (if j = limiterKey ip scope then snd (entryCheck L now (mapGet m (limiterKey ip scope))) else mapGet m j)"
  by (simp add: check_def entryCheck_def Let_def split: option.splits)

lemma evictOldestKeys_fits: "int (length m) \<le> rl_maxKeys L \<Longrightarrow> evictOldestKeys L m = m"
  by (subst evictOldestKeys.simps) simp

lemma recordFailure_entry:
  "recordFailure L now ip scope m =
    evictOldestKeys L (mapSet m (limiterKey ip scope) (entryFailure L now (mapGet m (limiterKey ip scope))))"
proof (cases "mapGet m (limiterKey ip scope)")
  case (Some e)
  then show ?thesis by (cases e) (simp add: recordFailure_def entryFailure_def Let_def)
qed (simp add: recordFailure_def entryFailure_def Let_def)

section \<open>Runs\<close>

datatype limiter_call = CheckCall "string option" string | FailureCall "string option" string

fun callKey :: "limiter_call \<Rightarrow> string" where
  "callKey (CheckCall ip scope) = limiterKey ip scope"
| "callKey (FailureCall ip scope) = limiterKey ip scope"

fun isFailure :: "limiter_call \<Rightarrow> bool" where
  "isFailure (CheckCall ip scope) = False"
| "isFailure (FailureCall ip scope) = True"

fun limiterStep :: "limiter \<Rightarrow> int \<times> limiter_call \<Rightarrow> rate_entries \<Rightarrow> rate_entries" where
  "limiterStep L (now, CheckCall ip scope) m = snd (check L now ip scope m)"
| "limiterStep L (now, FailureCall ip scope) m = recordFailure L now ip scope m"

definition runLimiter :: "limiter \<Rightarrow> (int \<times> limiter_call) list \<Rightarrow> rate_entries \<Rightarrow> rate_entries" where
  "runLimiter L calls m = fold (limiterStep L) calls m"

fun entryStep :: "limiter \<Rightarrow> int \<times> limiter_call \<Rightarrow> rate_entry option \<Rightarrow> rate_entry option" where
  "entryStep L (now, c) e = (if isFailure c then Some (entryFailure L now e) else snd (entryCheck L now e))"

text \<open>The entries never exceed the cap, and only keys of the calls are there.\<close>

lemma evictOldestKeys_keys:
  "set (mapKeys (evictOldestKeys L m)) \<subseteq> set (mapKeys m)
    \<and> (distinct (mapKeys m) \<longrightarrow> distinct (mapKeys (evictOldestKeys L m)))"
proof (induction L m rule: evictOldestKeys.induct)
  case (1 L m)
  show ?case
  proof (cases "int (length m) > rl_maxKeys L \<and> (\<exists>k t. scanOldest None m = Some (k, t) \<and> k \<noteq> [])")
    case True
    then obtain k t where k: "scanOldest None m = Some (k, t)" "k \<noteq> []" by blast
    then have eq: "evictOldestKeys L m = evictOldestKeys L (mapDelete m k)"
      using True by (subst evictOldestKeys.simps) simp
    have "set (mapKeys (mapDelete m k)) \<subseteq> set (mapKeys m)"
      unfolding set_mapKeys by (auto split: if_splits)
    then show ?thesis using "1.IH" [OF _ k(1) refl k(2)] True unfolding eq by (auto simp del: set_map)
  next
    case False
    then have "evictOldestKeys L m = m"
      by (subst evictOldestKeys.simps) (auto split: option.splits)
    then show ?thesis by simp
  qed
qed

lemma evictOldestKeys_bound:
  "[] \<notin> set (mapKeys m) \<Longrightarrow> 0 \<le> rl_maxKeys L \<Longrightarrow> int (length (evictOldestKeys L m)) \<le> rl_maxKeys L"
proof (induction L m rule: evictOldestKeys.induct)
  case (1 L m)
  show ?case
  proof (cases "int (length m) > rl_maxKeys L")
    case big: True
    have "scanOldest oldest m \<noteq> None" if "oldest \<noteq> None \<or> m \<noteq> []" for oldest
      using that by (induction oldest m rule: scanOldest.induct) (auto split: option.splits)
    moreover have "m \<noteq> []" using big "1.prems"(2) by auto
    ultimately obtain k t where k: "scanOldest None m = Some (k, t)" by fastforce
    have "k \<in> set (mapKeys m)" using scanOldest_mem [OF k] by simp
    then have k0: "k \<noteq> []" using "1.prems"(1) by metis
    have "[] \<notin> set (mapKeys (mapDelete m k))"
      using "1.prems"(1) unfolding set_mapKeys by (auto split: if_splits)
    from "1.IH" [OF big k refl k0 this "1.prems"(2)] show ?thesis
      using big k k0 by (subst evictOldestKeys.simps) simp
  qed (use "1.prems" in \<open>simp add: evictOldestKeys_fits\<close>)
qed

lemma limiterKey_nonempty [simp]: "limiterKey ip scope \<noteq> []"
  by (simp add: limiterKey_def)

lemma keys_mapSet: "set (mapKeys (mapSet m k v)) = insert k (set (mapKeys m))"
  unfolding set_mapKeys by auto

lemma keys_check: "set (mapKeys (snd (check L now ip scope m))) \<subseteq> set (mapKeys m)"
  unfolding set_mapKeys by (auto simp: mapGet_check entryCheck_def split: if_splits option.splits)

lemma length_check: "length (snd (check L now ip scope m)) \<le> length m"
proof (cases "mapGet m (limiterKey ip scope)")
  case (Some e)
  have "length (mapDelete x k) \<le> length x" for x :: rate_entries and k by (rule length_delete_le)
  with Some show ?thesis
    by (simp add: check_def Let_def length_mapSet_has) (metis length_mapSet_has option.distinct(1))
qed (simp add: check_def)

text \<open>The invariant of every run.\<close>

definition wfLimiter :: "limiter \<Rightarrow> rate_entries \<Rightarrow> bool" where
  "wfLimiter L m \<longleftrightarrow> distinct (mapKeys m) \<and> [] \<notin> set (mapKeys m) \<and> int (length m) \<le> rl_maxKeys L"

lemma wfLimiter_step:
  assumes "wfLimiter L m"
  shows "wfLimiter L (limiterStep L (t, c) m)"
    and "set (mapKeys (limiterStep L (t, c) m)) \<subseteq> insert (callKey c) (set (mapKeys m))"
proof -
  have wf: "distinct (mapKeys m)" "[] \<notin> set (mapKeys m)" "int (length m) \<le> rl_maxKeys L"
    using assms by (simp_all add: wfLimiter_def)
  have "wfLimiter L (limiterStep L (t, c) m)
    \<and> set (mapKeys (limiterStep L (t, c) m)) \<subseteq> insert (callKey c) (set (mapKeys m))"
  proof (cases c)
    case (CheckCall ip scope)
    have "distinct (mapKeys (snd (check L t ip scope m)))"
      using wf(1) by (simp add: check_def Let_def split: option.splits)
    then show ?thesis
      using CheckCall wf keys_check [of L t ip scope m] length_check [of L t ip scope m]
      by (auto simp: wfLimiter_def simp del: set_map)
  next
    case (FailureCall ip scope)
    define m1 where "m1 = mapSet m (limiterKey ip scope) (entryFailure L t (mapGet m (limiterKey ip scope)))"
    have m1: "distinct (mapKeys m1)" "set (mapKeys m1) = insert (limiterKey ip scope) (set (mapKeys m))"
      using wf(1) by (simp_all add: m1_def keys_mapSet del: set_map)
    have "[] \<notin> set (mapKeys m1)" using m1(2) wf(2) limiterKey_nonempty by (metis insert_iff)
    then show ?thesis
      using FailureCall m1 evictOldestKeys_keys [of L m1] evictOldestKeys_bound [of m1 L] wf(3)
      by (auto simp: wfLimiter_def recordFailure_entry m1_def [symmetric] simp del: set_map)
  qed
  then show "wfLimiter L (limiterStep L (t, c) m)"
    and "set (mapKeys (limiterStep L (t, c) m)) \<subseteq> insert (callKey c) (set (mapKeys m))" by auto
qed

lemma wfLimiter_run:
  "wfLimiter L m \<Longrightarrow> wfLimiter L (runLimiter L calls m)
    \<and> set (mapKeys (runLimiter L calls m)) \<subseteq> callKey ` snd ` set calls \<union> set (mapKeys m)"
proof (induction calls arbitrary: m)
  case (Cons p calls)
  obtain t c where p: "p = (t, c)" by (cases p)
  from wfLimiter_step [OF Cons.prems, of t c] Cons.IH [of "limiterStep L (t, c) m"] show ?case
    by (auto simp: runLimiter_def p simp del: set_map)
qed (simp add: runLimiter_def)

text \<open>While all keys fit under the cap, a key sees its own calls only.\<close>

lemma limiterStep_key:
  assumes "wfLimiter L m" and "int (card (insert (callKey c) (set (mapKeys m)))) \<le> rl_maxKeys L"
  shows "mapGet (limiterStep L (t, c) m) k = (if k = callKey c then entryStep L (t, c) (mapGet m k) else mapGet m k)"
proof (cases c)
  case (CheckCall ip scope)
  then show ?thesis by (simp add: mapGet_check)
next
  case (FailureCall ip scope)
  define m1 where "m1 = mapSet m (limiterKey ip scope) (entryFailure L t (mapGet m (limiterKey ip scope)))"
  have "distinct (mapKeys m1)" using assms(1) by (simp add: m1_def wfLimiter_def)
  then have "length m1 = card (set (mapKeys m1))" using distinct_card [of "mapKeys m1"] by simp
  also have "\<dots> = card (insert (callKey c) (set (mapKeys m)))" using FailureCall by (simp add: m1_def keys_mapSet del: set_map)
  finally have "evictOldestKeys L m1 = m1" using assms(2) by (intro evictOldestKeys_fits) simp
  then show ?thesis using FailureCall by (simp add: recordFailure_entry m1_def)
qed

lemma runLimiter_key:
  assumes "wfLimiter L m" and "int (card (callKey ` snd ` set calls \<union> set (mapKeys m))) \<le> rl_maxKeys L"
  shows "mapGet (runLimiter L calls m) k
    = fold (entryStep L) (filter (\<lambda>p. callKey (snd p) = k) calls) (mapGet m k)"
  using assms
proof (induction calls arbitrary: m)
  case (Cons p calls)
  obtain t c where p: "p = (t, c)" by (cases p)
  let ?m1 = "limiterStep L (t, c) m"
  have sub: "insert (callKey c) (set (mapKeys m)) \<subseteq> callKey ` snd ` set (p # calls) \<union> set (mapKeys m)"
    by (auto simp: p)
  from card_mono [OF _ sub] Cons.prems(2) have c1: "int (card (insert (callKey c) (set (mapKeys m)))) \<le> rl_maxKeys L"
    by simp
  have "callKey ` snd ` set calls \<union> set (mapKeys ?m1) \<subseteq> callKey ` snd ` set (p # calls) \<union> set (mapKeys m)"
    using wfLimiter_step(2) [OF Cons.prems(1), of t c] by (auto simp: p simp del: set_map)
  from card_mono [OF _ this] Cons.prems(2)
  have "int (card (callKey ` snd ` set calls \<union> set (mapKeys ?m1))) \<le> rl_maxKeys L" by simp
  from Cons.IH [OF wfLimiter_step(1) [OF Cons.prems(1)] this] limiterStep_key [OF Cons.prems(1) c1, of t k]
  show ?case by (simp add: runLimiter_def p)
qed (simp add: runLimiter_def)

section \<open>Lockout\<close>

definition failureTimes :: "string \<Rightarrow> (int \<times> limiter_call) list \<Rightarrow> int list" where
  "failureTimes k calls = map fst (filter (\<lambda>p. callKey (snd p) = k \<and> isFailure (snd p)) calls)"

text \<open>
  The failures that count at the end of a run of them: a window starts with a failure, and the first
  failure that lies a whole window after that start begins the next one.
\<close>

definition joinWindow :: "limiter \<Rightarrow> int \<Rightarrow> int list \<Rightarrow> int list" where
  "joinWindow L t ws = (if ws = [] \<or> t - hd ws \<ge> rl_windowMs L then [t] else ws @ [t])"

definition currentWindow :: "limiter \<Rightarrow> int list \<Rightarrow> int list" where
  "currentWindow L fs = fold (joinWindow L) fs []"

lemma currentWindow_snoc: "currentWindow L (fs @ [t]) = joinWindow L t (currentWindow L fs)"
  by (simp add: currentWindow_def)

text \<open>
  The entry of a key after its calls up to the time \<open>now\<close>: it counts the failures of the current window, or
  it has been dropped after that window, when no block was running.
\<close>

definition entryCounts :: "limiter \<Rightarrow> int list \<Rightarrow> int \<Rightarrow> rate_entry option \<Rightarrow> bool" where
  "entryCounts L ws now entry \<longleftrightarrow>
     (if ws = [] then entry = None
      else
        (case entry of
           Some e \<Rightarrow>
             re_windowStartedAt e = hd ws \<and> re_failures e = int (length ws)
             \<and> re_blockedUntil e = (if int (length ws) \<ge> rl_failureLimit L then last ws + rl_blockMs L else 0)
         | None \<Rightarrow>
             hd ws + rl_windowMs L \<le> now
             \<and> (int (length ws) \<ge> rl_failureLimit L \<longrightarrow> last ws + rl_blockMs L \<le> now)))"

lemma entryCounts_check:
  assumes "entryCounts L ws now entry" and "now \<le> t"
  shows "entryCounts L ws t (snd (entryCheck L t entry))"
  using assms by (auto simp: entryCounts_def entryCheck_def split: option.splits if_splits)

lemma entryCounts_failure:
  assumes "entryCounts L ws now entry" and "now \<le> t"
  shows "entryCounts L (joinWindow L t ws) t (Some (entryFailure L t entry))"
  using assms by (cases ws; cases entry) (auto simp: entryCounts_def entryFailure_def joinWindow_def)

lemma entryCounts_run:
  assumes "sorted (map fst calls)" and "\<forall>p \<in> set calls. callKey (snd p) = k" and "calls \<noteq> []"
  shows "entryCounts L (currentWindow L (failureTimes k calls)) (last (map fst calls)) (fold (entryStep L) calls None)"
  using assms
proof (induction calls rule: rev_induct)
  case (snoc p calls)
  obtain t c where p: "p = (t, c)" by (cases p)
  let ?ws = "currentWindow L (failureTimes k calls)"
  have sorted: "sorted (map fst calls)" "\<forall>q \<in> set calls. fst q \<le> t" using snoc.prems(1) by (auto simp: p sorted_append)
  have ws: "currentWindow L (failureTimes k (calls @ [p])) = (if isFailure c then joinWindow L t ?ws else ?ws)"
    using snoc.prems(2) by (simp add: failureTimes_def p currentWindow_snoc)
  have before: "entryCounts L ?ws (if calls = [] then t else last (map fst calls)) (fold (entryStep L) calls None)"
    using snoc.IH sorted(1) snoc.prems(2) by (simp add: entryCounts_def failureTimes_def currentWindow_def)
  have le: "(if calls = [] then t else last (map fst calls)) \<le> t" using sorted(2) by (simp add: last_map)
  show ?case
    using entryCounts_failure [OF before le] entryCounts_check [OF before le] unfolding ws by (simp add: p)
qed simp

text \<open>
  C17. Lockout of a login: a check of a key is refused exactly when the failures of that key in its current
  window have reached the limit and the block since the last of them still runs, and tells the time left;
  otherwise it is allowed. A window starts with a failure and ends with the first failure a whole window
  later. The calls of other keys do not matter, whatever they are and however they are interleaved, as long as
  the keys fit under the cap (no key is evicted) and the clock does not go back.
\<close>

theorem login_lockout:
  assumes "0 < rl_blockMs L" and "0 < rl_failureLimit L"
    and "sorted (map fst calls)" and "\<forall>p \<in> set calls. fst p \<le> t" and "0 \<le> t"
    and "int (card (callKey ` snd ` set calls)) \<le> rl_maxKeys L"
    and "ws = currentWindow L (failureTimes (limiterKey ip scope) calls)"
  shows "fst (check L t ip scope (runLimiter L calls [])) =
    (if int (length ws) \<ge> rl_failureLimit L \<and> t < last ws + rl_blockMs L
     then (False, last ws + rl_blockMs L - t) else (True, 0))"
proof -
  let ?k = "limiterKey ip scope" and ?own = "filter (\<lambda>p. callKey (snd p) = limiterKey ip scope) calls"
  have wf: "wfLimiter L []" using assms(6) by (simp add: wfLimiter_def)
  have entry: "mapGet (runLimiter L calls []) ?k = fold (entryStep L) ?own None"
    using runLimiter_key [OF wf, of calls ?k] assms(6) by simp
  have fs: "failureTimes ?k ?own = failureTimes ?k calls" unfolding failureTimes_def filter_filter
    by (rule arg_cong [where f = "map fst"], rule filter_cong) auto
  have counts: "entryCounts L ws t (fold (entryStep L) ?own None)"
  proof (cases "?own = []")
    case True
    then have "ws = []" using fs unfolding assms(7) by (simp add: failureTimes_def currentWindow_def)
    with True show ?thesis by (simp add: entryCounts_def)
  next
    case False
    have "sorted (map fst ?own)" using assms(3) by (rule sorted_filter)
    moreover have "\<forall>p \<in> set ?own. callKey (snd p) = ?k" by simp
    ultimately have "entryCounts L ws (last (map fst ?own)) (fold (entryStep L) ?own None)"
      unfolding assms(7) by (rule entryCounts_run [of ?own ?k L, unfolded fs, OF _ _ False])
    moreover have "last (map fst ?own) \<le> t"
      using assms(4) False last_in_set [OF False] by (simp add: last_map)
    ultimately show ?thesis by (auto simp: entryCounts_def split: option.splits if_splits)
  qed
  then show ?thesis
    using assms(2,5) unfolding fst_check entry
    by (auto simp: entryCounts_def entryCheck_def split: option.splits if_splits)
qed

text \<open>
  The limiter is bounded: whatever calls are made, it never holds more keys than its cap.
\<close>

theorem limiter_bounded:
  assumes "0 \<le> rl_maxKeys L"
  shows "int (length (runLimiter L calls [])) \<le> rl_maxKeys L"
  using wfLimiter_run [of L "[]" calls] assms by (simp add: wfLimiter_def)

definition demoLimiter :: limiter where
  "demoLimiter = \<lparr>rl_failureLimit = 2, rl_windowMs = 100, rl_blockMs = 50, rl_maxKeys = 2\<rparr>"

definition demoLogins :: "(int \<times> limiter_call) list" where
  "demoLogins =
     [(1, FailureCall (Some '' ip '') ''login''), (2, FailureCall None ''login''), (5, CheckCall (Some ''ip'') ''login''),
      (9, FailureCall (Some ''ip'') ''login'')]"

text \<open>Two windows of the key: after the block of the first, one more failure is allowed before the next block.\<close>

definition demoWindows :: "(int \<times> limiter_call) list" where
  "demoWindows = demoLogins @ [(70, CheckCall None ''login''), (104, FailureCall (Some ''ip'') ''login'')]"

theorem login_lockout_witness:
  "newLimiter (Some (IntegerNumber 2)) (Some (IntegerNumber 100)) (Some (IntegerNumber 50)) (Some (IntegerNumber 2))
      = Inr demoLimiter
    \<and> fst (check demoLimiter 20 (Some ''ip'') ''login'' (runLimiter demoLimiter demoLogins [])) = (False, 39)
    \<and> fst (check demoLimiter 20 None ''login'' (runLimiter demoLimiter demoLogins [])) = (True, 0)
    \<and> fst (check demoLimiter 110 (Some ''ip'') ''login'' (runLimiter demoLimiter demoWindows [])) = (True, 0)
    \<and> fst (check demoLimiter 130 (Some ''ip'') ''login''
        (runLimiter demoLimiter (demoWindows @ [(120, FailureCall (Some ''ip'') ''login'')]) [])) = (False, 40)"
proof -
  let ?two = "demoWindows @ [(120, FailureCall (Some ''ip'') ''login'')]"
  have keys: "int (card (callKey ` snd ` set demoLogins)) \<le> rl_maxKeys demoLimiter"
    "int (card (callKey ` snd ` set demoWindows)) \<le> rl_maxKeys demoLimiter"
    "int (card (callKey ` snd ` set ?two)) \<le> rl_maxKeys demoLimiter" by code_simp+
  have sorted: "sorted (map fst demoLogins)" "\<forall>p \<in> set demoLogins. fst p \<le> 20"
    "sorted (map fst demoWindows)" "\<forall>p \<in> set demoWindows. fst p \<le> 110"
    "sorted (map fst ?two)" "\<forall>p \<in> set ?two. fst p \<le> 130" by code_simp+
  have conf: "0 < rl_blockMs demoLimiter" "0 < rl_failureLimit demoLimiter"
    by (simp_all add: demoLimiter_def)
  have ws: "[1, 9] = currentWindow demoLimiter (failureTimes (limiterKey (Some ''ip'') ''login'') demoLogins)"
    "[2] = currentWindow demoLimiter (failureTimes (limiterKey None ''login'') demoLogins)"
    "[104] = currentWindow demoLimiter (failureTimes (limiterKey (Some ''ip'') ''login'') demoWindows)"
    "[104, 120] = currentWindow demoLimiter (failureTimes (limiterKey (Some ''ip'') ''login'') ?two)" by code_simp+
  have "newLimiter (Some (IntegerNumber 2)) (Some (IntegerNumber 100)) (Some (IntegerNumber 50)) (Some (IntegerNumber 2))
      = Inr demoLimiter" by code_simp
  then show ?thesis
    using login_lockout [OF conf sorted(1,2) _ keys(1) ws(1)] login_lockout [OF conf sorted(1,2) _ keys(1) ws(2)]
      login_lockout [OF conf sorted(3,4) _ keys(2) ws(3)] login_lockout [OF conf sorted(5,6) _ keys(3) ws(4)]
    by (simp add: demoLimiter_def)
qed

theorem limiter_bounded_witness:
  "int (length (runLimiter demoLimiter (demoLogins @ [(30, FailureCall (Some ''x'') ''login'')]) [])) \<le> 2
    \<and> \<not> mapHas (runLimiter demoLimiter (demoLogins @ [(30, FailureCall (Some ''x'') ''login'')]) []) (limiterKey None ''login'')"
proof -
  have "\<not> mapHas (runLimiter demoLimiter (demoLogins @ [(30, FailureCall (Some ''x'') ''login'')]) []) (limiterKey None ''login'')"
    by code_simp
  then show ?thesis
    using limiter_bounded [of demoLimiter "demoLogins @ [(30, FailureCall (Some ''x'') ''login'')]"]
    by (simp add: demoLimiter_def)
qed

end
