(* ===== verification/CredentialGrants.thy ===== *)
theory CredentialGrants
  imports Contracts "HOL-Library.Multiset"
begin

text \<open>
  \<open>credential-broker-grants.ts\<close>: bearer tokens that release an SSH credential once. The closures
  of a grant (how to resolve the credential, what to dispose of afterwards) are handles of the types
  \<open>'r\<close> and \<open>'d\<close>; the state logs their calls in order. \<open>redeem\<close> awaits the resolver, so it is two
  steps: up to the call of the resolver, and from its outcome on. SHA-256 is a parameter.
\<close>

section \<open>State\<close>

record ('r, 'd) grant =
  g_expiresAt :: int
  g_resolve :: 'r
  g_dispose :: "'d option"

record grant_options =
  go_ttlMs :: int
  go_maxPendingGrants :: int

record ('r, 'd) grants =
  gr_pending :: "(string, ('r, 'd) grant) jsmap"
  gr_resolving :: "('r, 'd) grant list"
  gr_resolved :: "'r list"
  gr_disposed :: "'d list"

definition noGrants :: "('r, 'd) grants" where
  "noGrants = \<lparr>gr_pending = [], gr_resolving = [], gr_resolved = [], gr_disposed = []\<rparr>"

definition DEFAULT_GRANT_TTL_MS :: int where "DEFAULT_GRANT_TTL_MS = 30000"
definition DEFAULT_MAX_PENDING_GRANTS :: int where "DEFAULT_MAX_PENDING_GRANTS = 256"

definition newGrantStore :: "js_number option \<Rightarrow> js_number option \<Rightarrow> error + grant_options" where
  "newGrantStore ttlMs maxPendingGrants =
     (case (case ttlMs of None \<Rightarrow> IntegerNumber DEFAULT_GRANT_TTL_MS | Some v \<Rightarrow> v) of
        OtherNumber \<Rightarrow> Inl (StateError ''credential grant TTL must be 1000 to 120000 milliseconds'' [])
      | IntegerNumber ttl \<Rightarrow>
          if ttl < 1000 \<or> ttl > 120000
          then Inl (StateError ''credential grant TTL must be 1000 to 120000 milliseconds'' [])
          else
            (case (case maxPendingGrants of None \<Rightarrow> IntegerNumber DEFAULT_MAX_PENDING_GRANTS | Some v \<Rightarrow> v) of
               OtherNumber \<Rightarrow> Inl (StateError ''max pending credential grants must be 1 to 4096'' [])
             | IntegerNumber maxPending \<Rightarrow>
                 if maxPending < 1 \<or> maxPending > 4096
                 then Inl (StateError ''max pending credential grants must be 1 to 4096'' [])
                 else Inr \<lparr>go_ttlMs = ttl, go_maxPendingGrants = maxPending\<rparr>))"

section \<open>Operations\<close>

definition isTokenChar :: "char \<Rightarrow> bool" where
  "isTokenChar c \<longleftrightarrow> isAlnumChar c \<or> c = CHR ''_'' \<or> c = CHR ''-''"

definition tokenRe :: "string \<Rightarrow> bool" where
  "tokenRe s \<longleftrightarrow> 32 \<le> length s \<and> length s \<le> 256 \<and> list_all isTokenChar s"

definition runDispose :: "'d option \<Rightarrow> ('r, 'd) grants \<Rightarrow> ('r, 'd) grants" where
  "runDispose d s = (case d of None \<Rightarrow> s | Some x \<Rightarrow> s\<lparr>gr_disposed := gr_disposed s @ [x]\<rparr>)"

text \<open>
  \<open>disposePending\<close>. The callers that pass the grant they expect have just read it from the map, so
  the comparison with the pending grant always holds.
\<close>

definition disposePending :: "string \<Rightarrow> ('r, 'd) grants \<Rightarrow> ('r, 'd) grants" where
  "disposePending hash s =
     (case mapGet (gr_pending s) hash of
        None \<Rightarrow> s
      | Some grant \<Rightarrow> runDispose (g_dispose grant) (s\<lparr>gr_pending := mapDelete (gr_pending s) hash\<rparr>))"

definition pruneExpired :: "int \<Rightarrow> ('r, 'd) grants \<Rightarrow> ('r, 'd) grants" where
  "pruneExpired now s =
     fold (\<lambda>(hash, grant) t. if g_expiresAt grant \<le> now then disposePending hash t else t) (gr_pending s) s"

definition clear :: "('r, 'd) grants \<Rightarrow> ('r, 'd) grants" where
  "clear s = fold (\<lambda>(hash, grant) t. disposePending hash t) (gr_pending s) s"

text \<open>\<open>token\<close> is what the token factory returns.\<close>

definition issue ::
    "(string \<Rightarrow> string) \<Rightarrow> grant_options \<Rightarrow> int \<Rightarrow> string \<Rightarrow> 'r \<Rightarrow> 'd option \<Rightarrow> ('r, 'd) grants
     \<Rightarrow> (error + string \<times> int) \<times> ('r, 'd) grants" where
  "issue tokenHash opts now token resolve dispose s0 =
     (let s = pruneExpired now s0 in
      if int (length (gr_pending s)) \<ge> go_maxPendingGrants opts
      then (Inl (StateError ''credential grant capacity reached'' []), s)
      else if \<not> tokenRe token then (Inl (StateError ''credential grant token is invalid'' []), s)
      else if mapHas (gr_pending s) (tokenHash token)
      then (Inl (StateError ''credential grant token collision'' []), s)
      else
        let expiresAt = now + go_ttlMs opts;
            grant = \<lparr>g_expiresAt = expiresAt, g_resolve = resolve, g_dispose = dispose\<rparr>
        in (Inr (token, expiresAt), s\<lparr>gr_pending := mapSet (gr_pending s) (tokenHash token) grant\<rparr>))"

text \<open>\<open>redeem\<close> up to the call of the resolver: the grant is consumed whatever follows.\<close>

definition redeemStart ::
    "(string \<Rightarrow> string) \<Rightarrow> int \<Rightarrow> string \<Rightarrow> ('r, 'd) grants \<Rightarrow> (error + ('r, 'd) grant) \<times> ('r, 'd) grants" where
  "redeemStart tokenHash now token s =
     (case mapGet (gr_pending s) (tokenHash token) of
        None \<Rightarrow> (Inl (StateError ''credential grant is invalid or already used'' []), s)
      | Some grant \<Rightarrow>
          let s1 = s\<lparr>gr_pending := mapDelete (gr_pending s) (tokenHash token)\<rparr> in
          if g_expiresAt grant \<le> now
          then (Inl (StateError ''credential grant is invalid or expired'' []), runDispose (g_dispose grant) s1)
          else (Inr grant, s1\<lparr>gr_resolving := gr_resolving s1 @ [grant], gr_resolved := gr_resolved s1 @ [g_resolve grant]\<rparr>))"

text \<open>What a resolver returns: the bytes of the password, if it is a buffer, and the revision.\<close>

record resolved_credential =
  rc_password :: "nat list option"
  rc_revision :: js_number

text \<open>
  The rest of \<open>redeem\<close>, from the outcome of the resolver (a thrown error of the type \<open>'x\<close>, or what it
  returned): the result, the bytes that the password buffer holds afterwards, and the state.
\<close>

datatype 'x redeem_error = ResolverThrew 'x | RedeemError error

definition redeemFinish ::
    "('r, 'd) grant \<Rightarrow> 'x + resolved_credential \<Rightarrow> ('r, 'd) grants
     \<Rightarrow> ('x redeem_error + resolved_credential) \<times> nat list option \<times> ('r, 'd) grants" where
  "redeemFinish grant outcome s =
     (let s1 = runDispose (g_dispose grant) (s\<lparr>gr_resolving := remove1 grant (gr_resolving s)\<rparr>) in
      case outcome of
        Inl x \<Rightarrow> (Inl (ResolverThrew x), None, s1)
      | Inr resolved \<Rightarrow>
          (case rc_password resolved of
             None \<Rightarrow> (Inl (RedeemError (StateError ''credential grant resolver returned invalid bytes'' [])), None, s1)
           | Some password \<Rightarrow>
               if length password = 0
               then (Inl (RedeemError (StateError ''credential grant resolver returned invalid bytes'' [])),
                     Some (replicate (length password) 0), s1)
               else
                 (case rc_revision resolved of
                    OtherNumber \<Rightarrow>
                      (Inl (RedeemError (StateError ''credential grant resolver returned invalid revision'' [])),
                       Some (replicate (length password) 0), s1)
                  | IntegerNumber revision \<Rightarrow>
                      if revision < 1
                      then (Inl (RedeemError (StateError ''credential grant resolver returned invalid revision'' [])),
                            Some (replicate (length password) 0), s1)
                      else (Inr resolved, Some password, s1))))"

definition revoke :: "(string \<Rightarrow> string) \<Rightarrow> string \<Rightarrow> ('r, 'd) grants \<Rightarrow> bool \<times> ('r, 'd) grants" where
  "revoke tokenHash token s =
     (case mapGet (gr_pending s) (tokenHash token) of
        None \<Rightarrow> (False, s) | Some grant \<Rightarrow> (True, disposePending (tokenHash token) s))"

section \<open>Runs\<close>

text \<open>A timer fires for the hash it was set for; a call finishes a redemption that waits for its resolver.\<close>

datatype ('r, 'd) grant_call =
    IssueCall int string 'r "'d option"
  | RedeemCall int string
  | FinishCall "('r, 'd) grant" "error + resolved_credential"
  | RevokeCall string
  | ClearCall
  | TimerCall string

fun grantStep ::
    "(string \<Rightarrow> string) \<Rightarrow> grant_options \<Rightarrow> ('r, 'd) grant_call \<Rightarrow> ('r, 'd) grants \<Rightarrow> ('r, 'd) grants" where
  "grantStep th opts (IssueCall now token r d) s = snd (issue th opts now token r d s)"
| "grantStep th opts (RedeemCall now token) s = snd (redeemStart th now token s)"
| "grantStep th opts (FinishCall grant outcome) s =
     (if grant \<in> set (gr_resolving s) then snd (snd (redeemFinish grant outcome s)) else s)"
| "grantStep th opts (RevokeCall token) s = snd (revoke th token s)"
| "grantStep th opts ClearCall s = clear s"
| "grantStep th opts (TimerCall hash) s = disposePending hash s"

definition runGrants ::
    "(string \<Rightarrow> string) \<Rightarrow> grant_options \<Rightarrow> ('r, 'd) grant_call list \<Rightarrow> ('r, 'd) grants \<Rightarrow> ('r, 'd) grants" where
  "runGrants th opts calls s = fold (grantStep th opts) calls s"

text \<open>The handles of the grants that a run issues.\<close>

fun issuedStep ::
    "(string \<Rightarrow> string) \<Rightarrow> grant_options \<Rightarrow> ('r, 'd) grant_call \<Rightarrow> ('r, 'd) grants \<Rightarrow> ('r \<times> 'd option) list" where
  "issuedStep th opts (IssueCall now token r d) s =
     (case fst (issue th opts now token r d s) of Inl _ \<Rightarrow> [] | Inr _ \<Rightarrow> [(r, d)])"
| "issuedStep th opts _ s = []"

primrec issuedIn ::
    "(string \<Rightarrow> string) \<Rightarrow> grant_options \<Rightarrow> ('r, 'd) grant_call list \<Rightarrow> ('r, 'd) grants \<Rightarrow> ('r \<times> 'd option) list" where
  "issuedIn th opts [] s = []"
| "issuedIn th opts (c # cs) s = issuedStep th opts c s @ issuedIn th opts cs (grantStep th opts c s)"

section \<open>Disposal of every grant\<close>

definition somes :: "'d option multiset \<Rightarrow> 'd multiset" where
  "somes M = image_mset the (filter_mset (\<lambda>x. x \<noteq> None) M)"

lemma somes_simps [simp]:
  "somes {#} = {#}"
  "somes (M + N) = somes M + somes N"
  "somes (add_mset None M) = somes M"
  "somes (add_mset (Some x) M) = add_mset x (somes M)"
  by (simp_all add: somes_def)

text \<open>What the grants that still exist, and the log, hold of dispose handles and of resolvers.\<close>

definition owedDisposals :: "('r, 'd) grants \<Rightarrow> 'd multiset" where
  "owedDisposals s =
     somes (image_mset g_dispose (mset (mapValues (gr_pending s)) + mset (gr_resolving s))) + mset (gr_disposed s)"

definition resolverUses :: "('r, 'd) grants \<Rightarrow> 'r multiset" where
  "resolverUses s = image_mset g_resolve (mset (mapValues (gr_pending s))) + mset (gr_resolved s)"

lemma mset_mapDelete:
  assumes "distinct (mapKeys m)" and "mapGet m k = Some v"
  shows "mset (mapValues m) = add_mset v (mset (mapValues (mapDelete m k)))"
  using assms
proof (induction m)
  case (Cons p m)
  show ?case
  proof (cases "fst p = k")
    case True
    then have "k \<notin> fst ` set m" using Cons.prems(1) by auto
    then have "mapDelete m k = m" by (rule delete_id)
    then show ?thesis using True Cons.prems(2) by (cases p) (simp add: mapValues_def)
  next
    case False
    then show ?thesis using Cons by (cases p) (simp add: mapValues_def)
  qed
qed simp

lemma runDispose_simps [simp]:
  "gr_pending (runDispose d s) = gr_pending s"
  "gr_resolving (runDispose d s) = gr_resolving s"
  "gr_resolved (runDispose d s) = gr_resolved s"
  "mset (gr_disposed (runDispose d s)) = somes {#d#} + mset (gr_disposed s)"
  by (cases d; simp add: runDispose_def)+

text \<open>An operation that ends grants: nothing is added, nothing is lost.\<close>

definition endsGrants :: "('r, 'd) grants \<Rightarrow> ('r, 'd) grants \<Rightarrow> bool" where
  "endsGrants s t \<longleftrightarrow> distinct (mapKeys (gr_pending t)) \<and> length (gr_pending t) \<le> length (gr_pending s)
     \<and> owedDisposals t = owedDisposals s \<and> resolverUses t \<subseteq># resolverUses s
     \<and> (\<forall>h g. mapGet (gr_pending t) h = Some g \<longrightarrow> mapGet (gr_pending s) h = Some g)"

lemma endsGrants_refl: "distinct (mapKeys (gr_pending s)) \<Longrightarrow> endsGrants s s"
  by (simp add: endsGrants_def)

lemma endsGrants_trans: "endsGrants s t \<Longrightarrow> endsGrants t u \<Longrightarrow> endsGrants s u"
  unfolding endsGrants_def by (auto intro: subset_mset.order_trans le_trans)

lemma endsGrants_distinct: "endsGrants s t \<Longrightarrow> distinct (mapKeys (gr_pending t))"
  by (simp add: endsGrants_def)

lemma disposePending_ends:
  assumes "distinct (mapKeys (gr_pending s))"
  shows "endsGrants s (disposePending h s)"
proof (cases "mapGet (gr_pending s) h")
  case None
  then show ?thesis using assms by (simp add: disposePending_def endsGrants_refl)
next
  case (Some g)
  have "length (mapDelete (gr_pending s) h) \<le> length (gr_pending s)" by (rule length_delete_le)
  moreover note mset_mapDelete [OF assms Some]
  ultimately show ?thesis
    using Some assms
    by (cases "g_dispose g") (auto simp: disposePending_def endsGrants_def owedDisposals_def resolverUses_def split: if_splits)
qed

lemma sweep_ends:
  "distinct (mapKeys (gr_pending s))
    \<Longrightarrow> endsGrants s (fold (\<lambda>p t. if Q p then disposePending (fst p) t else t) ps s)"
proof (induction ps arbitrary: s)
  case (Cons p ps)
  let ?s1 = "if Q p then disposePending (fst p) s else s"
  have 1: "endsGrants s ?s1" using Cons.prems by (simp add: disposePending_ends endsGrants_refl)
  then have "distinct (mapKeys (gr_pending ?s1))" by (rule endsGrants_distinct)
  from endsGrants_trans [OF 1 Cons.IH [OF this]] show ?case by simp
qed (simp add: endsGrants_refl)

lemma pruneExpired_ends: "distinct (mapKeys (gr_pending s)) \<Longrightarrow> endsGrants s (pruneExpired now s)"
  using sweep_ends [of s "\<lambda>p. g_expiresAt (snd p) \<le> now" "gr_pending s"]
  by (simp add: pruneExpired_def split_def)

lemma clear_ends: "distinct (mapKeys (gr_pending s)) \<Longrightarrow> endsGrants s (clear s)"
  using sweep_ends [of s "\<lambda>_. True" "gr_pending s"] by (simp add: clear_def split_def)

lemma revoke_ends: "distinct (mapKeys (gr_pending s)) \<Longrightarrow> endsGrants s (snd (revoke th token s))"
  by (simp add: revoke_def disposePending_ends endsGrants_refl split: option.split)

lemma redeemStart_ends:
  assumes "distinct (mapKeys (gr_pending s))"
  shows "endsGrants s (snd (redeemStart th now token s))"
proof (cases "mapGet (gr_pending s) (th token)")
  case None
  then show ?thesis using assms by (simp add: redeemStart_def endsGrants_refl)
next
  case (Some g)
  have "length (mapDelete (gr_pending s) (th token)) \<le> length (gr_pending s)" by (rule length_delete_le)
  moreover note mset_mapDelete [OF assms Some]
  ultimately show ?thesis
    using Some assms
    by (cases "g_dispose g")
      (auto simp: redeemStart_def Let_def endsGrants_def owedDisposals_def resolverUses_def
        simp del: map_of_eq_Some_iff split: if_splits)
qed

lemma redeemFinish_state:
  "snd (snd (redeemFinish g outcome s)) = runDispose (g_dispose g) (s\<lparr>gr_resolving := remove1 g (gr_resolving s)\<rparr>)"
  by (simp add: redeemFinish_def Let_def split: sum.split option.split js_number.split)

lemma redeemFinish_ends:
  assumes "distinct (mapKeys (gr_pending s))" and "g \<in> set (gr_resolving s)"
  shows "endsGrants s (snd (snd (redeemFinish g outcome s)))"
proof -
  have "mset (gr_resolving s) = add_mset g (mset (remove1 g (gr_resolving s)))" using assms(2) by simp
  then show ?thesis
    using assms(1) unfolding redeemFinish_state
    by (cases "g_dispose g") (simp_all add: endsGrants_def owedDisposals_def resolverUses_def del: mset_remove1)
qed

lemma step_ends:
  "distinct (mapKeys (gr_pending s)) \<Longrightarrow> \<forall>now token r d. c \<noteq> IssueCall now token r d \<Longrightarrow> endsGrants s (grantStep th opts c s)"
  by (cases c)
    (auto simp: redeemStart_ends redeemFinish_ends revoke_ends clear_ends disposePending_ends endsGrants_refl)

text \<open>An accepted grant is pending afterwards, beside what the pruning left.\<close>

lemma issue_cases:
  obtains (Throws) e where "issue th opts now token r d s = (Inl e, pruneExpired now s)"
  | (Issued) "issue th opts now token r d s =
        (Inr (token, now + go_ttlMs opts),
         (pruneExpired now s)\<lparr>gr_pending := mapSet (gr_pending (pruneExpired now s)) (th token)
           \<lparr>g_expiresAt = now + go_ttlMs opts, g_resolve = r, g_dispose = d\<rparr>\<rparr>)"
      and "\<not> mapHas (gr_pending (pruneExpired now s)) (th token)"
      and "int (length (gr_pending (pruneExpired now s))) < go_maxPendingGrants opts" and "tokenRe token"
  by (cases "issue th opts now token r d s") (auto simp: issue_def Let_def split: if_splits)

definition wfGrants :: "grant_options \<Rightarrow> ('r \<times> 'd option) list \<Rightarrow> ('r, 'd) grants \<Rightarrow> bool" where
  "wfGrants opts issued s \<longleftrightarrow> distinct (mapKeys (gr_pending s))
     \<and> int (length (gr_pending s)) \<le> go_maxPendingGrants opts
     \<and> owedDisposals s = somes (mset (map snd issued)) \<and> resolverUses s \<subseteq># mset (map fst issued)"

lemma wfGrants_ends: "wfGrants opts issued s \<Longrightarrow> endsGrants s t \<Longrightarrow> wfGrants opts issued t"
  unfolding wfGrants_def endsGrants_def by (auto intro: subset_mset.order_trans)

lemma wfGrants_step:
  assumes "wfGrants opts issued s"
  shows "wfGrants opts (issued @ issuedStep th opts c s) (grantStep th opts c s)"
proof (cases "\<exists>now token r d. c = IssueCall now token r d")
  case True
  then obtain now token r d where c: "c = IssueCall now token r d" by blast
  let ?p = "pruneExpired now s"
  have d: "distinct (mapKeys (gr_pending s))" using assms by (simp add: wfGrants_def)
  have wf: "wfGrants opts issued ?p" by (rule wfGrants_ends [OF assms pruneExpired_ends [OF d]])
  show ?thesis
  proof (cases rule: issue_cases [of th opts now token r d s])
    case (Throws e)
    then show ?thesis using wf by (simp add: c)
  next
    case Issued
    then show ?thesis
      using wf
      by (cases d) (auto simp: c wfGrants_def owedDisposals_def resolverUses_def mapSet_fresh mapValues_def)
  qed
next
  case False
  have d: "distinct (mapKeys (gr_pending s))" using assms by (simp add: wfGrants_def)
  have "issuedStep th opts c s = []" using False by (cases c) auto
  then show ?thesis using wfGrants_ends [OF assms step_ends [OF d, of c th opts]] False by auto
qed

lemma wfGrants_run:
  "wfGrants opts issued s \<Longrightarrow> wfGrants opts (issued @ issuedIn th opts calls s) (runGrants th opts calls s)"
proof (induction calls arbitrary: issued s)
  case (Cons c calls)
  from Cons.IH [OF wfGrants_step [OF Cons.prems, of th c]] show ?case by (simp add: runGrants_def)
qed (simp add: runGrants_def)

text \<open>
  C18. Every grant is accounted for: after any calls to a new store, every dispose handle of the grants
  issued has been called, or is held by exactly one grant that is pending or being resolved, as often
  as it was issued; a resolver has been called at most as often as it was issued and is not called
  again while its grant is pending; and no more grants are pending than allowed.
\<close>

theorem grants_accounted:
  assumes "newGrantStore ttl maxPending = Inr opts"
  shows "owedDisposals (runGrants th opts calls noGrants) = somes (mset (map snd (issuedIn th opts calls noGrants)))
    \<and> resolverUses (runGrants th opts calls noGrants) \<subseteq># mset (map fst (issuedIn th opts calls noGrants))
    \<and> int (length (gr_pending (runGrants th opts calls noGrants))) \<le> go_maxPendingGrants opts"
proof -
  have "0 \<le> go_maxPendingGrants opts"
    using assms by (auto simp: newGrantStore_def split: js_number.splits option.splits if_splits)
  then have "wfGrants opts [] noGrants"
    by (simp add: wfGrants_def noGrants_def owedDisposals_def resolverUses_def mapValues_def)
  from wfGrants_run [OF this, of th calls] show ?thesis by (simp add: wfGrants_def)
qed

section \<open>One use\<close>

lemma distinct_pending: "distinct (mapKeys (gr_pending (runGrants th opts calls noGrants)))"
proof -
  have "distinct (mapKeys (gr_pending (runGrants th opts calls s)))"
    if "distinct (mapKeys (gr_pending s))" for s :: "('a, 'b) grants" and calls
    using that
  proof (induction calls arbitrary: s)
    case (Cons c calls)
    have "distinct (mapKeys (gr_pending (grantStep th opts c s)))"
    proof (cases "\<exists>now token r d. c = IssueCall now token r d")
      case True
      then obtain now token r d where c: "c = IssueCall now token r d" by blast
      show ?thesis
        using endsGrants_distinct [OF pruneExpired_ends [OF Cons.prems], of now]
        by (cases rule: issue_cases [of th opts now token r d s]) (simp_all add: c)
    next
      case False
      then show ?thesis using endsGrants_distinct [OF step_ends [OF Cons.prems]] by blast
    qed
    with Cons.IH show ?case by (simp add: runGrants_def)
  qed (simp add: runGrants_def)
  from this [of noGrants calls] show ?thesis by (simp add: noGrants_def)
qed

lemma runGrants_append: "runGrants th opts (cs @ ds) s = runGrants th opts ds (runGrants th opts cs s)"
  by (simp add: runGrants_def)

lemma endsGrants_gone: "endsGrants s t \<Longrightarrow> mapGet (gr_pending s) h = None \<Longrightarrow> mapGet (gr_pending t) h = None"
  unfolding endsGrants_def by (cases "mapGet (gr_pending t) h") (auto simp del: map_of_eq_Some_iff)

lemma step_gone:
  assumes "distinct (mapKeys (gr_pending s))" and "mapGet (gr_pending s) h = None"
    and "\<forall>now token r d. c = IssueCall now token r d \<longrightarrow> th token \<noteq> h"
  shows "mapGet (gr_pending (grantStep th opts c s)) h = None"
proof (cases "\<exists>now token r d. c = IssueCall now token r d")
  case True
  then obtain now token r d where c: "c = IssueCall now token r d" by blast
  have gone: "mapGet (gr_pending (pruneExpired now s)) h = None"
    by (rule endsGrants_gone [OF pruneExpired_ends [OF assms(1)] assms(2)])
  show ?thesis
    using assms(3) gone by (cases rule: issue_cases [of th opts now token r d s]) (simp_all add: c)
next
  case False
  then show ?thesis using endsGrants_gone [OF step_ends [OF assms(1)] assms(2)] by blast
qed

lemma run_gone:
  assumes "mapGet (gr_pending (runGrants th opts before noGrants)) h = None"
    and "\<forall>c \<in> set calls. \<forall>now token r d. c = IssueCall now token r d \<longrightarrow> th token \<noteq> h"
  shows "mapGet (gr_pending (runGrants th opts calls (runGrants th opts before noGrants))) h = None"
  using assms
proof (induction calls arbitrary: before)
  case (Cons c calls)
  from step_gone [OF distinct_pending Cons.prems(1), of c th opts] Cons.prems(2)
  have "mapGet (gr_pending (runGrants th opts (before @ [c]) noGrants)) h = None"
    by (simp add: runGrants_append) (simp add: runGrants_def)
  from Cons.IH [OF this] Cons.prems(2) show ?case by (simp add: runGrants_append) (simp add: runGrants_def)
qed (simp add: runGrants_def)

text \<open>
  C19. A token works once: after a token has been redeemed, whatever came of it, or revoked, every later
  attempt to redeem it is refused and changes nothing, until a grant is issued for it again.
\<close>

theorem grant_one_shot:
  assumes "consuming = RedeemCall now token \<or> consuming = RevokeCall token"
    and "\<forall>c \<in> set later. \<forall>n tok r d. c = IssueCall n tok r d \<longrightarrow> th tok \<noteq> th token"
  shows "redeemStart th t token (runGrants th opts (before @ consuming # later) noGrants) =
    (Inl (StateError ''credential grant is invalid or already used'' []),
     runGrants th opts (before @ consuming # later) noGrants)"
proof -
  let ?s = "runGrants th opts before noGrants"
  have "mapGet (gr_pending (grantStep th opts consuming ?s)) (th token) = None"
    using assms(1)
    by (auto simp: redeemStart_def revoke_def disposePending_def Let_def simp del: map_of_eq_Some_iff split: option.splits)
  then have "mapGet (gr_pending (runGrants th opts (before @ [consuming]) noGrants)) (th token) = None"
    by (simp add: runGrants_append) (simp add: runGrants_def)
  from run_gone [OF this assms(2)] show ?thesis
    by (simp add: redeemStart_def flip: runGrants_append)
qed

section \<open>Use before expiry\<close>

text \<open>Calls that leave the grant of a hash alone: other tokens, and nothing that clears the store.\<close>

fun sparesGrant :: "(string \<Rightarrow> string) \<Rightarrow> string \<Rightarrow> int \<Rightarrow> ('r, 'd) grant_call \<Rightarrow> bool" where
  "sparesGrant th h expiresAt (IssueCall now token r d) = (now < expiresAt)"
| "sparesGrant th h expiresAt (RedeemCall now token) = (th token \<noteq> h)"
| "sparesGrant th h expiresAt (FinishCall grant outcome) = True"
| "sparesGrant th h expiresAt (RevokeCall token) = (th token \<noteq> h)"
| "sparesGrant th h expiresAt ClearCall = False"
| "sparesGrant th h expiresAt (TimerCall hash) = (hash \<noteq> h)"

lemma disposePending_other:
  "h \<noteq> k \<Longrightarrow> mapGet (gr_pending (disposePending k s)) h = mapGet (gr_pending s) h"
  by (simp add: disposePending_def split: option.split)

lemma sweep_other:
  "\<forall>p \<in> set ps. fst p = h \<longrightarrow> \<not> Q p
    \<Longrightarrow> mapGet (gr_pending (fold (\<lambda>p t. if Q p then disposePending (fst p) t else t) ps s)) h = mapGet (gr_pending s) h"
proof (induction ps arbitrary: s)
  case (Cons p ps)
  then show ?case by (cases "Q p") (auto simp: disposePending_other)
qed simp

lemma step_spares:
  assumes "distinct (mapKeys (gr_pending s))" and "mapGet (gr_pending s) h = Some g"
    and "sparesGrant th h (g_expiresAt g) c"
  shows "mapGet (gr_pending (grantStep th opts c s)) h = Some g"
proof (cases c)
  case (IssueCall now token r d)
  have "\<forall>p \<in> set (gr_pending s). fst p = h \<longrightarrow> \<not> g_expiresAt (snd p) \<le> now"
    using assms IssueCall by (auto dest: map_of_is_SomeI [rotated])
  from sweep_other [OF this, of s] assms(2) have kept: "mapGet (gr_pending (pruneExpired now s)) h = Some g"
    by (simp add: pruneExpired_def split_def)
  show ?thesis
    using kept by (cases rule: issue_cases [of th opts now token r d s])
      (auto simp: IssueCall simp del: map_of_eq_Some_iff)
next
  case (RedeemCall now token)
  then show ?thesis
    using assms by (auto simp: redeemStart_def Let_def simp del: map_of_eq_Some_iff split: option.split)
next
  case (FinishCall g' outcome)
  then show ?thesis using assms by (simp add: redeemFinish_state)
next
  case (RevokeCall token)
  then show ?thesis using assms by (simp add: revoke_def disposePending_other split: option.split)
next
  case (TimerCall hash)
  then show ?thesis using assms by (simp add: disposePending_other)
qed (use assms in simp)

lemma run_spares:
  assumes "mapGet (gr_pending (runGrants th opts before noGrants)) h = Some g"
    and "\<forall>c \<in> set calls. sparesGrant th h (g_expiresAt g) c"
  shows "mapGet (gr_pending (runGrants th opts (before @ calls) noGrants)) h = Some g"
  using assms
proof (induction calls arbitrary: before)
  case (Cons c calls)
  from step_spares [OF distinct_pending Cons.prems(1), of th c opts] Cons.prems(2)
  have "mapGet (gr_pending (runGrants th opts (before @ [c]) noGrants)) h = Some g"
    by (simp add: runGrants_append) (simp add: runGrants_def)
  from Cons.IH [OF this] Cons.prems(2) show ?case by simp
qed simp

text \<open>
  A grant can be used until it expires: when a grant has been issued and no later call names its
  token, clears the store or fires its timer, redeeming the token reaches the resolver of the grant
  before its expiry, and fails as expired from then on.
\<close>

theorem grant_usable:
  assumes "fst (issue th opts now token r d (runGrants th opts before noGrants)) = Inr result"
    and "\<forall>c \<in> set later. sparesGrant th (th token) (now + go_ttlMs opts) c"
  shows "fst (redeemStart th t token (runGrants th opts (before @ IssueCall now token r d # later) noGrants)) =
    (if t < now + go_ttlMs opts
     then Inr \<lparr>g_expiresAt = now + go_ttlMs opts, g_resolve = r, g_dispose = d\<rparr>
     else Inl (StateError ''credential grant is invalid or expired'' []))"
proof -
  let ?g = "\<lparr>g_expiresAt = now + go_ttlMs opts, g_resolve = r, g_dispose = d\<rparr>"
  have "mapGet (gr_pending (runGrants th opts (before @ [IssueCall now token r d]) noGrants)) (th token) = Some ?g"
    using assms(1)
    by (cases rule: issue_cases [of th opts now token r d "runGrants th opts before noGrants"])
      (simp_all add: runGrants_append, simp add: runGrants_def)
  from run_spares [OF this, of later] assms(2)
  have "mapGet (gr_pending (runGrants th opts (before @ IssueCall now token r d # later) noGrants)) (th token) = Some ?g"
    by simp
  then show ?thesis by (simp add: redeemStart_def Let_def)
qed

section \<open>An example\<close>

definition demoTtl :: grant_options where
  "demoTtl = \<lparr>go_ttlMs = 1000, go_maxPendingGrants = 2\<rparr>"

definition tokenA :: string where "tokenA = replicate 32 (CHR ''a'')"
definition tokenB :: string where "tokenB = replicate 32 (CHR ''b'')"

definition demoGrantCalls :: "(nat, nat) grant_call list" where
  "demoGrantCalls =
     [IssueCall 0 tokenA 1 (Some 11), IssueCall 5 tokenB 2 (Some 12), IssueCall 6 tokenA 3 None,
      RedeemCall 10 tokenA, TimerCall tokenB]"

theorem grants_accounted_witness:
  "newGrantStore (Some (IntegerNumber 1000)) (Some (IntegerNumber 2)) = Inr demoTtl
    \<and> owedDisposals (runGrants id demoTtl demoGrantCalls noGrants) = {#11, 12#}
    \<and> gr_disposed (runGrants id demoTtl demoGrantCalls noGrants) = [12]"
proof -
  have 1: "newGrantStore (Some (IntegerNumber 1000)) (Some (IntegerNumber 2)) = Inr demoTtl"
    by (simp add: newGrantStore_def demoTtl_def)
  have "issuedIn id demoTtl demoGrantCalls noGrants = [(1, Some 11), (2, Some 12)]" by code_simp
  moreover have "gr_disposed (runGrants id demoTtl demoGrantCalls noGrants) = [12]" by code_simp
  ultimately show ?thesis
    using 1 grants_accounted [OF 1, of id demoGrantCalls] by simp
qed

theorem grant_one_shot_witness:
  "fst (redeemStart id 10 tokenA (runGrants id demoTtl [IssueCall 0 tokenA (1 :: nat) (Some (11 :: nat))] noGrants))
      = Inr \<lparr>g_expiresAt = 1000, g_resolve = 1, g_dispose = Some 11\<rparr>
    \<and> fst (redeemStart id 12 tokenA
        (runGrants id demoTtl ([IssueCall 0 tokenA (1 :: nat) (Some (11 :: nat))] @ RedeemCall 10 tokenA # [IssueCall 11 tokenB 2 None]) noGrants))
      = Inl (StateError ''credential grant is invalid or already used'' [])"
proof -
  have "\<forall>c \<in> set [IssueCall 11 tokenB (2 :: nat) (None :: nat option)].
      \<forall>n tok r d. c = IssueCall n tok r d \<longrightarrow> id tok \<noteq> id tokenA"
    by (simp add: tokenA_def tokenB_def numeral_eq_Suc)
  moreover have "fst (redeemStart id 10 tokenA (runGrants id demoTtl [IssueCall 0 tokenA (1 :: nat) (Some (11 :: nat))] noGrants))
      = Inr \<lparr>g_expiresAt = 1000, g_resolve = 1, g_dispose = Some 11\<rparr>" by code_simp
  ultimately show ?thesis
    using grant_one_shot [of "RedeemCall 10 tokenA" 10 tokenA "[IssueCall 11 tokenB 2 None]" id 12 demoTtl
        "[IssueCall 0 tokenA (1 :: nat) (Some (11 :: nat))]"] by simp
qed

theorem grant_usable_witness:
  "fst (redeemStart id 999 tokenA (runGrants id demoTtl
        ([] @ IssueCall 0 tokenA (1 :: nat) (Some (11 :: nat)) # [IssueCall 5 tokenB 2 None, RevokeCall tokenB]) noGrants))
      = Inr \<lparr>g_expiresAt = 1000, g_resolve = 1, g_dispose = Some 11\<rparr>"
proof -
  have "fst (issue id demoTtl 0 tokenA (1 :: nat) (Some (11 :: nat)) (runGrants id demoTtl [] noGrants)) = Inr (tokenA, 1000)"
    by code_simp
  moreover have "\<forall>c \<in> set [IssueCall 5 tokenB (2 :: nat) (None :: nat option), RevokeCall tokenB].
      sparesGrant id (id tokenA) (0 + go_ttlMs demoTtl) c"
    by (simp add: tokenA_def tokenB_def demoTtl_def numeral_eq_Suc)
  ultimately show ?thesis
    using grant_usable [of id demoTtl 0 tokenA "1 :: nat" "Some (11 :: nat)" "[]" "(tokenA, 1000)"
        "[IssueCall 5 tokenB 2 None, RevokeCall tokenB]" 999] by (simp add: demoTtl_def)
qed

end
