(* ===== verification/ZipArchive.thy ===== *)
theory ZipArchive
  imports Prelude "HOL-Library.Word"
begin

text \<open>
  \<open>zip-archive-validator.ts\<close> and \<open>skill-hub-archive-policy.ts\<close>: the check of an uploaded skill
  archive. The file is its list of bytes. Parameters, in \<open>zip_lib\<close>: the UTF-8 decoder, and the
  inflater, by the chunks it delivers for the compressed bytes and, unless it fails, the number of
  bytes it has taken. A thrown \<open>ZipArchiveValidationError\<close> is its message.
\<close>

unbundle bit_operations_syntax

section \<open>Archive policy\<close>

definition EXCLUDED_DIRECTORIES :: "string list" where
  "EXCLUDED_DIRECTORIES =
     [''.git'', ''.hg'', ''.svn'', ''.clawhub'', ''.clawdhub'', ''.openclaw'', ''.ssh'', ''node_modules'',
      ''__pycache__'']"

definition EXCLUDED_FILES :: "string list" where
  "EXCLUDED_FILES =
     [''id_rsa'', ''id_dsa'', ''id_ecdsa'', ''id_ed25519'', ''authorized_keys'', ''known_hosts'',
      ''credentials'', ''credentials.json'', ''secrets'', ''secrets.json'']"

definition EXCLUDED_FILE_SUFFIXES :: "string list" where
  "EXCLUDED_FILE_SUFFIXES =
     [''.pem'', ''.key'', ''.p12'', ''.pfx'', ''.jks'', ''.keystore'', ''.crt'', ''.cer'', ''.cert'', ''.der'']"

definition startsWith :: "string \<Rightarrow> string \<Rightarrow> bool" where
  "startsWith s p \<longleftrightarrow> take (length p) s = p"

definition endsWith :: "string \<Rightarrow> string \<Rightarrow> bool" where
  "endsWith s p \<longleftrightarrow> length p \<le> length s \<and> drop (length s - length p) s = p"

definition dropFinalSlash :: "string \<Rightarrow> string" where
  "dropFinalSlash s = (if s \<noteq> [] \<and> last s = CHR ''/'' then butlast s else s)"

definition isExcludedSkillArchivePath :: "string \<Rightarrow> bool \<Rightarrow> bool" where
  "isExcludedSkillArchivePath entryPath directory =
     (let components = splitOn (CHR ''/'') (dropFinalSlash (toLowerCase entryPath));
          basename = (if components = [] then [] else last components)
      in
      if list_ex (\<lambda>part. part \<in> set EXCLUDED_DIRECTORIES) components then True
      else if directory then basename \<in> set EXCLUDED_DIRECTORIES
      else basename \<in> set EXCLUDED_FILES \<or> list_ex (endsWith basename) EXCLUDED_FILE_SUFFIXES)"

section \<open>Bytes\<close>

type_synonym bytes = "8 word list"

definition u16 :: "bytes \<Rightarrow> nat \<Rightarrow> nat" where
  "u16 bs off = unat (bs ! off) + 256 * unat (bs ! (off + 1))"

definition u32 :: "bytes \<Rightarrow> nat \<Rightarrow> nat" where
  "u32 bs off = unat (bs ! off) + 256 * unat (bs ! (off + 1)) + 65536 * unat (bs ! (off + 2))
     + 16777216 * unat (bs ! (off + 3))"

definition EOCD_SIGNATURE :: nat where "EOCD_SIGNATURE = 0x06054b50"
definition CENTRAL_SIGNATURE :: nat where "CENTRAL_SIGNATURE = 0x02014b50"
definition LOCAL_SIGNATURE :: nat where "LOCAL_SIGNATURE = 0x04034b50"
definition DATA_DESCRIPTOR_SIGNATURE :: nat where "DATA_DESCRIPTOR_SIGNATURE = 0x08074b50"
definition DATA_DESCRIPTOR_FLAG :: "16 word" where "DATA_DESCRIPTOR_FLAG = 0x0008"
definition MAX_EOCD_BYTES :: nat where "MAX_EOCD_BYTES = 65557"
definition MAX_CENTRAL_DIRECTORY_BYTES :: nat where "MAX_CENTRAL_DIRECTORY_BYTES = 2 * 1024 * 1024"

record zip_limits =
  zl_archiveBytes :: nat
  zl_expandedBytes :: nat
  zl_entryBytes :: nat
  zl_files :: nat
  zl_entries :: "nat option"
  zl_retainedEntryBytes :: nat

record zip_entry =
  ze_name :: string
  ze_flags :: "16 word"
  ze_method :: nat
  ze_crc32 :: "32 word"
  ze_compressedSize :: nat
  ze_uncompressedSize :: nat
  ze_localOffset :: nat
  ze_directory :: bool
  ze_externalAttributes :: "32 word"

record zip_lib =
  zb_decodeUtf8 :: "bytes \<Rightarrow> string option"
  zb_inflateRaw :: "bytes \<Rightarrow> bytes list \<times> nat option"

definition readAt :: "bytes \<Rightarrow> nat \<Rightarrow> nat \<Rightarrow> string + bytes" where
  "readAt file off len =
     (let bs = take len (drop off file) in
      if length bs \<noteq> len then Inl ''ZIP archive is truncated'' else Inr bs)"

section \<open>Checks of one entry\<close>

definition decodeName :: "zip_lib \<Rightarrow> bytes \<Rightarrow> string + string" where
  "decodeName lib bs =
     (case zb_decodeUtf8 lib bs of
        None \<Rightarrow> Inl ''ZIP archive contains an invalid UTF-8 path'' | Some name \<Rightarrow> Inr name)"

definition validatePath :: "string \<Rightarrow> bool \<Rightarrow> string + unit" where
  "validatePath name directory =
     (let path = (if directory \<and> endsWith name ''/'' then butlast name else name) in
      if path = [] \<or> CHR 0x5C \<in> set path \<or> nul \<in> set path \<or> CHR '':'' \<in> set path \<or> startsWith path ''/''
         \<or> list_ex (\<lambda>part. part = [] \<or> part = ''.'' \<or> part = ''..'') (splitOn (CHR ''/'') path)
      then Inl ''ZIP archive contains an unsafe path''
      else if isExcludedSkillArchivePath path directory then Inl ''ZIP archive contains a reserved path''
      else Inr ())"

definition validateUnixType :: "zip_entry \<Rightarrow> string + unit" where
  "validateUnixType entry =
     (let mode = drop_bit 16 (ze_externalAttributes entry) AND 0xffff;
          type = mode AND 0xf000
      in
      if type = 0 \<or> type = 0x8000 \<or> ze_directory entry \<and> type = 0x4000 then Inr ()
      else Inl (if type = 0xa000 then ''ZIP archive contains a symbolic link''
                else ''ZIP archive contains an unsupported entry type''))"

function extraLoop :: "bytes \<Rightarrow> nat \<Rightarrow> string + unit" where
  "extraLoop bs off =
     (if off < length bs then
        (if off + 4 > length bs then Inl ''ZIP extra field is truncated''
         else if u16 bs off = 1 then Inl ''multi-disk and ZIP64 archives are not supported''
         else
           let off1 = off + (4 + u16 bs (off + 2)) in
           if off1 > length bs then Inl ''ZIP extra field is truncated'' else extraLoop bs off1)
      else Inr ())"
  by pat_completeness auto

termination
  by (relation "measure (\<lambda>(bs, off). length bs - off)") auto

declare extraLoop.simps [simp del]

definition validateExtraFields :: "bytes \<Rightarrow> string + unit" where
  "validateExtraFields bs = extraLoop bs 0"

section \<open>The central directory\<close>

text \<open>The search for the end record from \<open>off\<close> down to 0; \<open>n\<close> is \<open>off + 1\<close>, or 0 for a negative start.\<close>

fun findEocd :: "bytes \<Rightarrow> nat \<Rightarrow> nat option" where
  "findEocd tail 0 = None"
| "findEocd tail (Suc off) =
     (if u32 tail off = EOCD_SIGNATURE \<and> off + 22 + u16 tail (off + 20) = length tail then Some off
      else findEocd tail off)"

definition sub :: "bytes \<Rightarrow> nat \<Rightarrow> nat \<Rightarrow> bytes" where
  "sub bs from to = take (to - from) (drop from bs)"

definition centralEntry :: "zip_lib \<Rightarrow> bytes \<Rightarrow> nat \<Rightarrow> string + zip_entry" where
  "centralEntry lib central off =
     (let nameLength = u16 central (off + 28);
          extraLength = u16 central (off + 30)
      in
      case decodeName lib (sub central (off + 46) (off + 46 + nameLength)) of
        Inl e \<Rightarrow> Inl e
      | Inr name \<Rightarrow>
          let entry =
                \<lparr>ze_name = name, ze_flags = of_nat (u16 central (off + 8)), ze_method = u16 central (off + 10),
                 ze_crc32 = of_nat (u32 central (off + 16)), ze_compressedSize = u32 central (off + 20),
                 ze_uncompressedSize = u32 central (off + 24), ze_localOffset = u32 central (off + 42),
                 ze_directory = endsWith name ''/'', ze_externalAttributes = of_nat (u32 central (off + 38))\<rparr>
          in
          if ze_flags entry AND NOT 0x0808 \<noteq> 0 \<or> u16 central (off + 34) \<noteq> 0
             \<or> ze_compressedSize entry = 0xffffffff \<or> ze_uncompressedSize entry = 0xffffffff
             \<or> ze_localOffset entry = 0xffffffff \<or> (ze_method entry \<noteq> 0 \<and> ze_method entry \<noteq> 8)
          then Inl ''ZIP archive uses an unsupported feature''
          else
            (case validateExtraFields
                (sub central (off + 46 + nameLength) (off + 46 + nameLength + extraLength)) of
               Inl e \<Rightarrow> Inl e
             | Inr _ \<Rightarrow>
                 (case validatePath (ze_name entry) (ze_directory entry) of
                    Inl e \<Rightarrow> Inl e
                  | Inr _ \<Rightarrow>
                      (case validateUnixType entry of Inl e \<Rightarrow> Inl e | Inr _ \<Rightarrow> Inr entry))))"

function centralLoop :: "zip_lib \<Rightarrow> bytes \<Rightarrow> nat \<Rightarrow> zip_entry list \<Rightarrow> string + zip_entry list" where
  "centralLoop lib central off entries =
     (if off < length central then
        (if off + 46 > length central \<or> u32 central off \<noteq> CENTRAL_SIGNATURE
         then Inl ''ZIP central directory entry is invalid''
         else
           let next = off + 46 + u16 central (off + 28) + u16 central (off + 30) + u16 central (off + 32) in
           if next > length central then Inl ''ZIP central directory entry is truncated''
           else
             (case centralEntry lib central off of
                Inl e \<Rightarrow> Inl e | Inr entry \<Rightarrow> centralLoop lib central next (entries @ [entry])))
      else Inr entries)"
  by pat_completeness auto

termination
  by (relation "measure (\<lambda>(lib, central, off, entries). length central - off)") auto

declare centralLoop.simps [simp del]

definition readCentralDirectory :: "zip_lib \<Rightarrow> bytes \<Rightarrow> nat \<Rightarrow> string + zip_entry list \<times> nat" where
  "readCentralDirectory lib file archiveBytes =
     (let tailLength = min archiveBytes MAX_EOCD_BYTES in
      case readAt file (archiveBytes - tailLength) tailLength of
        Inl e \<Rightarrow> Inl e
      | Inr tail \<Rightarrow>
          (case findEocd tail (length tail + 1 - 22) of
             None \<Rightarrow> Inl ''ZIP archive has no valid end record''
           | Some eocd \<Rightarrow>
               let disk = u16 tail (eocd + 4);
                   centralDisk = u16 tail (eocd + 6);
                   diskEntries = u16 tail (eocd + 8);
                   entryCount = u16 tail (eocd + 10);
                   centralSize = u32 tail (eocd + 12);
                   centralOffset = u32 tail (eocd + 16)
               in
               if disk \<noteq> 0 \<or> centralDisk \<noteq> 0 \<or> diskEntries \<noteq> entryCount \<or> entryCount = 0xffff
                  \<or> centralSize = 0xffffffff \<or> centralOffset = 0xffffffff
               then Inl ''multi-disk and ZIP64 archives are not supported''
               else if centralSize > MAX_CENTRAL_DIRECTORY_BYTES
                  \<or> centralOffset + centralSize > archiveBytes - tailLength + eocd
               then Inl ''ZIP central directory is invalid''
               else
                 (case readAt file centralOffset centralSize of
                    Inl e \<Rightarrow> Inl e
                  | Inr central \<Rightarrow>
                      (case centralLoop lib central 0 [] of
                         Inl e \<Rightarrow> Inl e
                       | Inr entries \<Rightarrow>
                           if length entries \<noteq> entryCount
                           then Inl ''ZIP entry count does not match its end record''
                           else Inr (entries, centralOffset)))))"

section \<open>Checksums\<close>

definition crcShift :: "32 word \<Rightarrow> 32 word" where
  "crcShift value = (if value AND 1 \<noteq> 0 then 0xedb88320 XOR drop_bit 1 value else drop_bit 1 value)"

definition CRC_TABLE :: "32 word list" where
  "CRC_TABLE = map (\<lambda>index. (crcShift ^^ 8) (of_nat index)) [0..<256]"

definition updateCrc :: "32 word \<Rightarrow> bytes \<Rightarrow> 32 word" where
  "updateCrc crc bs =
     fold (\<lambda>byte value. CRC_TABLE ! unat ((value XOR ucast byte) AND 0xff) XOR drop_bit 8 value) bs crc"

section \<open>The entries\<close>

definition inspectDescriptor :: "bytes \<Rightarrow> zip_entry \<Rightarrow> nat \<Rightarrow> nat \<Rightarrow> string + unit" where
  "inspectDescriptor file entry dataEnd boundary =
     (let len = boundary - dataEnd in
      if len \<noteq> 12 \<and> len \<noteq> 16 then Inl ''ZIP data descriptor is truncated or overlaps another record''
      else
        (case readAt file dataEnd len of
           Inl e \<Rightarrow> Inl e
         | Inr bs \<Rightarrow>
             let off = (if len = 16 then 4 else 0) in
             if off = 4 \<and> u32 bs 0 \<noteq> DATA_DESCRIPTOR_SIGNATURE
                \<or> u32 bs off \<noteq> unat (ze_crc32 entry) \<or> u32 bs (off + 4) \<noteq> ze_compressedSize entry
                \<or> u32 bs (off + 8) \<noteq> ze_uncompressedSize entry
             then Inl ''ZIP data descriptor size or checksum does not match its central record''
             else Inr ()))"

text \<open>\<open>createReadStream\<close> delivers the range in chunks of 64 KiB, and less when the file ends early.\<close>

function chunksOf :: "bytes \<Rightarrow> bytes list" where
  "chunksOf bs = (if bs = [] then [] else take 65536 bs # chunksOf (drop 65536 bs))"
  by pat_completeness auto

termination
  by (relation "measure length") auto

declare chunksOf.simps [simp del]

text \<open>The loop over the chunks, with the bytes counted, the checksum and the chunks retained.\<close>

fun chunkLoop ::
    "zip_limits \<Rightarrow> zip_entry \<Rightarrow> bool \<Rightarrow> bytes list \<Rightarrow> nat \<Rightarrow> 32 word \<Rightarrow> bytes \<Rightarrow> string + nat \<times> 32 word \<times> bytes" where
  "chunkLoop limits entry retain [] count crc kept = Inr (count, crc, kept)"
| "chunkLoop limits entry retain (chunk # chunks) count crc kept =
     (let count1 = count + length chunk in
      if count1 > zl_entryBytes limits \<or> retain \<and> count1 > zl_retainedEntryBytes limits
      then Inl (if retain then ''ZIP archive contains an invalid SKILL.md''
                else ''ZIP archive contains an oversized entry'')
      else if count1 > ze_uncompressedSize entry then Inl ''ZIP entry size or checksum is invalid''
      else
        chunkLoop limits entry retain chunks count1 (updateCrc crc chunk) (if retain then kept @ chunk else kept))"

definition inspectData :: "zip_lib \<Rightarrow> bytes \<Rightarrow> zip_limits \<Rightarrow> zip_entry \<Rightarrow> string + bytes option" where
  "inspectData lib compressed limits entry =
     (let inflated = (ze_method entry = 8);
          (chunks, taken) =
            (if inflated then zb_inflateRaw lib compressed else (chunksOf compressed, Some (length compressed)));
          retain = (ze_name entry = ''SKILL.md'')
      in
      case chunkLoop limits entry retain chunks 0 0xffffffff [] of
        Inl e \<Rightarrow> Inl e
      | Inr (count, crc, kept) \<Rightarrow>
          (case taken of
             None \<Rightarrow> Inl ''ZIP entry compression stream is invalid''
           | Some bytesWritten \<Rightarrow>
               if count \<noteq> ze_uncompressedSize entry \<or> crc XOR 0xffffffff \<noteq> ze_crc32 entry
                  \<or> inflated \<and> bytesWritten \<noteq> ze_compressedSize entry
               then Inl ''ZIP entry size or checksum is invalid''
               else Inr (if retain then Some kept else None)))"

definition inspectEntry ::
    "zip_lib \<Rightarrow> bytes \<Rightarrow> zip_entry \<Rightarrow> nat \<Rightarrow> zip_limits \<Rightarrow> string + bytes option" where
  "inspectEntry lib file entry boundary limits =
     (if ze_localOffset entry + 30 > boundary then Inl ''ZIP archive contains overlapping entries''
      else
      (case readAt file (ze_localOffset entry) 30 of
         Inl e \<Rightarrow> Inl e
       | Inr local \<Rightarrow>
           if u32 local 0 \<noteq> LOCAL_SIGNATURE then Inl ''ZIP local entry header is invalid''
           else
           let localFlags = of_nat (u16 local 6) :: 16 word;
               localMethod = u16 local 8;
               nameLength = u16 local 26;
               extraLength = u16 local 28
           in
           if localFlags \<noteq> ze_flags entry \<or> localMethod \<noteq> ze_method entry
           then Inl ''ZIP local entry does not match its central record''
           else
           let descriptor = (ze_flags entry AND DATA_DESCRIPTOR_FLAG \<noteq> 0) in
           if u32 local 14 \<noteq> (if descriptor then 0 else unat (ze_crc32 entry))
              \<or> u32 local 18 \<noteq> (if descriptor then 0 else ze_compressedSize entry)
              \<or> u32 local 22 \<noteq> (if descriptor then 0 else ze_uncompressedSize entry)
           then Inl ''ZIP local entry size or checksum does not match its central record''
           else
           let dataStart = ze_localOffset entry + 30 + nameLength + extraLength;
               dataEnd = dataStart + ze_compressedSize entry
           in
           if dataEnd > boundary
           then Inl ''ZIP entry data overlaps another entry or its central directory''
           else
           (case readAt file (ze_localOffset entry + 30) (nameLength + extraLength) of
              Inl e \<Rightarrow> Inl e
            | Inr variable \<Rightarrow>
           (case decodeName lib (sub variable 0 nameLength) of
              Inl e \<Rightarrow> Inl e
            | Inr name \<Rightarrow>
           if name \<noteq> ze_name entry then Inl ''ZIP local entry path does not match its central record''
           else
           (case validateExtraFields (drop nameLength variable) of
              Inl e \<Rightarrow> Inl e
            | Inr _ \<Rightarrow>
           (case (if descriptor then inspectDescriptor file entry dataEnd boundary else Inr ()) of
              Inl e \<Rightarrow> Inl e
            | Inr _ \<Rightarrow>
           if ze_directory entry then
             (if ze_compressedSize entry \<noteq> 0 \<or> ze_uncompressedSize entry \<noteq> 0 \<or> ze_crc32 entry \<noteq> 0
              then Inl ''ZIP directory entry contains data'' else Inr None)
           else if ze_compressedSize entry = 0 then
             (if ze_uncompressedSize entry \<noteq> 0 \<or> ze_crc32 entry \<noteq> 0
              then Inl ''ZIP empty entry size or checksum is invalid''
              else Inr (if ze_name entry = ''SKILL.md'' then Some [] else None))
           else inspectData lib (sub file dataStart dataEnd) limits entry))))))"

section \<open>The archive\<close>

fun checkSizes :: "zip_limits \<Rightarrow> nat \<Rightarrow> zip_entry list \<Rightarrow> string + unit" where
  "checkSizes limits expanded [] = Inr ()"
| "checkSizes limits expanded (entry # entries) =
     (if ze_uncompressedSize entry > zl_entryBytes limits then Inl ''ZIP archive contains an oversized entry''
      else if expanded + ze_uncompressedSize entry > zl_expandedBytes limits
      then Inl ''ZIP archive expands past the configured size limit''
      else checkSizes limits (expanded + ze_uncompressedSize entry) entries)"

fun inspectLoop ::
    "zip_lib \<Rightarrow> bytes \<Rightarrow> zip_limits \<Rightarrow> nat \<Rightarrow> zip_entry list \<Rightarrow> bytes option \<Rightarrow> string + bytes option" where
  "inspectLoop lib file limits centralOffset [] skillMarkdown = Inr skillMarkdown"
| "inspectLoop lib file limits centralOffset (entry # rest) skillMarkdown =
     (let boundary = (case rest of [] \<Rightarrow> centralOffset | next # _ \<Rightarrow> ze_localOffset next) in
      case inspectEntry lib file entry boundary limits of
        Inl e \<Rightarrow> Inl e
      | Inr None \<Rightarrow> inspectLoop lib file limits centralOffset rest skillMarkdown
      | Inr (Some retained) \<Rightarrow>
          if skillMarkdown \<noteq> None then Inl ''ZIP archive contains duplicate SKILL.md entries''
          else inspectLoop lib file limits centralOffset rest (Some retained))"

definition physicalOrder :: "zip_entry list \<Rightarrow> zip_entry list" where
  "physicalOrder = toSortedBy (\<lambda>l r. int (ze_localOffset l) - int (ze_localOffset r))"

definition validateZipArchiveFile :: "zip_lib \<Rightarrow> bytes \<Rightarrow> nat \<Rightarrow> zip_limits \<Rightarrow> string + bytes" where
  "validateZipArchiveFile lib file archiveBytes limits =
     (if archiveBytes < 22 \<or> archiveBytes > zl_archiveBytes limits
      then Inl ''ZIP archive exceeds the configured size limit''
      else
      (case readCentralDirectory lib file archiveBytes of
         Inl e \<Rightarrow> Inl e
       | Inr (entries, centralOffset) \<Rightarrow>
           if length entries > (case zl_entries limits of None \<Rightarrow> zl_files limits | Some n \<Rightarrow> n)
           then Inl ''ZIP archive contains too many entries''
           else
           let files = filter (\<lambda>entry. \<not> ze_directory entry) entries in
           if length files < 1 \<or> length files > zl_files limits
           then Inl ''ZIP archive contains too many files''
           else
           (case checkSizes limits 0 files of
              Inl e \<Rightarrow> Inl e
            | Inr _ \<Rightarrow>
           (case inspectLoop lib file limits centralOffset (physicalOrder entries) None of
              Inl e \<Rightarrow> Inl e
            | Inr None \<Rightarrow> Inl ''ZIP archive is missing SKILL.md''
            | Inr (Some skillMarkdown) \<Rightarrow> Inr skillMarkdown))))"

section \<open>The checksum table\<close>

lemma crcShift_bits: "crcShift v = drop_bit 1 v XOR (if bit v 0 then 0xedb88320 else 0)"
  by (simp add: crcShift_def and_one_eq odd_iff_mod_2_eq_one bit_0 xor.commute)

lemma crcShift_xor: "crcShift (a XOR b) = crcShift a XOR crcShift b"
  by (auto simp: crcShift_bits bit_xor_iff drop_bit_xor ac_simps)

lemma crcShift_pow_xor: "(crcShift ^^ n) (a XOR b) = (crcShift ^^ n) a XOR (crcShift ^^ n) b"
  by (induction n) (simp_all add: crcShift_xor)

lemma crcShift_pow_high: "(\<forall>i < n. \<not> bit v i) \<Longrightarrow> (crcShift ^^ n) v = drop_bit n v"
proof (induction n)
  case (Suc n)
  then have "(crcShift ^^ n) v = drop_bit n v" by simp
  moreover from Suc.prems have "\<not> bit (drop_bit n v) 0" by (simp add: bit_drop_bit_eq)
  then have "crcShift (drop_bit n v) = drop_bit 1 (drop_bit n v)" by (simp only: crcShift_bits) simp
  ultimately show ?case by simp
qed simp

definition crcByte :: "32 word \<Rightarrow> 8 word \<Rightarrow> 32 word" where
  "crcByte value byte = (crcShift ^^ 8) (value XOR ucast byte)"

lemma crc_table_entry: "CRC_TABLE ! unat (v AND 0xff) = (crcShift ^^ 8) (v AND 0xff)"
proof -
  have "v AND 0xff \<le> (0xff :: 32 word)" by (rule word_and_le1)
  then have "unat (v AND 0xff) \<le> unat (0xff :: 32 word)" by (simp only: word_le_nat_alt)
  then have "unat (v AND 0xff) < 256" by simp
  then show ?thesis by (simp add: CRC_TABLE_def)
qed

lemma low_byte_bit: "bit (0xff :: 32 word) i \<longleftrightarrow> i < 8"
proof -
  have "(0xff :: 32 word) = mask 8" by (simp add: mask_eq_exp_minus_1)
  then show ?thesis by (simp only: bit_mask_iff) auto
qed

lemma updateCrc_step:
  "CRC_TABLE ! unat ((v XOR ucast b) AND 0xff) XOR drop_bit 8 v = crcByte v b" for v :: "32 word" and b :: "8 word"
proof -
  let ?x = "v XOR ucast b :: 32 word"
  have split: "?x = (?x AND 0xff) XOR (?x AND NOT 0xff)"
    by (rule bit_word_eqI) (auto simp: bit_simps)
  have "(crcShift ^^ 8) (?x AND NOT 0xff) = drop_bit 8 (?x AND NOT 0xff)"
  proof (rule crcShift_pow_high, intro allI impI)
    fix i :: nat
    assume "i < 8"
    then have "bit (0xff :: 32 word) i" by (simp only: low_byte_bit)
    then show "\<not> bit (?x AND NOT 0xff) i" by (simp only: bit_and_iff bit_not_iff) simp
  qed
  also have "\<dots> = drop_bit 8 v"
  proof (rule bit_word_eqI)
    fix n :: nat
    have "\<not> bit b (8 + n)" using bit_imp_le_length [of b "8 + n"] by auto
    then have b: "\<not> bit (ucast b :: 32 word) (8 + n)" by (simp add: bit_ucast_iff)
    have ff: "\<not> bit (0xff :: 32 word) (8 + n)" by (simp only: low_byte_bit)
    show "bit (drop_bit 8 (?x AND NOT 0xff)) n \<longleftrightarrow> bit (drop_bit 8 v) n"
      using b ff bit_imp_le_length [of v "8 + n"]
      by (simp only: bit_drop_bit_eq o_def bit_and_iff bit_xor_iff bit_not_iff possible_bit_word) blast
  qed
  finally have "(crcShift ^^ 8) ?x = (crcShift ^^ 8) (?x AND 0xff) XOR drop_bit 8 v"
    by (subst split) (simp only: crcShift_pow_xor)
  then show ?thesis by (simp add: crcByte_def crc_table_entry)
qed

lemma crc_table_fold: "updateCrc crc bs = fold (\<lambda>byte value. crcByte value byte) bs crc"
  by (simp add: updateCrc_def updateCrc_step)

text \<open>
  The table-driven checksum is the bit-by-bit one: folding the table over any bytes is the same as
  shifting each byte through the reflected CRC-32 polynomial one bit at a time.
\<close>

theorem crc_table_correct:
  "updateCrc crc bs = fold (\<lambda>byte value. crcByte value byte) bs crc"
  by (rule crc_table_fold)

section \<open>An accepted archive\<close>

lemma readAt_Inr: "readAt file off len = Inr bs \<longleftrightarrow> bs = take len (drop off file) \<and> length bs = len"
  by (auto simp: readAt_def Let_def)

text \<open>What the central loop has checked of each entry.\<close>

definition checkedEntry :: "zip_entry \<Rightarrow> bool" where
  "checkedEntry entry \<longleftrightarrow> validatePath (ze_name entry) (ze_directory entry) = Inr ()
     \<and> validateUnixType entry = Inr () \<and> ze_directory entry = endsWith (ze_name entry) ''/''
     \<and> (ze_method entry = 0 \<or> ze_method entry = 8)"

lemma centralEntry_checked: "centralEntry lib central off = Inr entry \<Longrightarrow> checkedEntry entry"
  by (auto simp: centralEntry_def Let_def checkedEntry_def split: sum.splits if_splits)

lemma centralLoop_checked:
  "centralLoop lib central off acc = Inr entries \<Longrightarrow> \<forall>e \<in> set acc. checkedEntry e \<Longrightarrow> \<forall>e \<in> set entries. checkedEntry e"
proof (induction lib central off acc rule: centralLoop.induct)
  case (1 lib central off acc)
  let ?next = "off + 46 + u16 central (off + 28) + u16 central (off + 30) + u16 central (off + 32)"
  show ?case
  proof (cases "off < length central")
    case more: True
    with "1.prems"(1) have ok: "\<not> (off + 46 > length central \<or> u32 central off \<noteq> CENTRAL_SIGNATURE)"
      by (subst (asm) centralLoop.simps) (auto split: if_splits)
    with more "1.prems"(1) have fits: "\<not> ?next > length central"
      by (subst (asm) centralLoop.simps) (auto simp: Let_def split: if_splits)
    obtain entry where entry: "centralEntry lib central off = Inr entry"
      using more ok fits "1.prems"(1) by (subst (asm) centralLoop.simps) (auto simp: Let_def split: sum.splits)
    have "centralLoop lib central ?next (acc @ [entry]) = Inr entries"
      using more ok fits entry "1.prems"(1) by (subst (asm) (1) centralLoop.simps) (simp add: Let_def)
    from "1.IH" [OF more ok refl fits entry this] "1.prems"(2) centralEntry_checked [OF entry] show ?thesis by simp
  next
    case False
    with "1.prems" show ?thesis by (subst (asm) centralLoop.simps) simp
  qed
qed

lemma readCentralDirectory_checked:
  "readCentralDirectory lib file archiveBytes = Inr (entries, centralOffset) \<Longrightarrow> \<forall>e \<in> set entries. checkedEntry e"
  by (auto simp: readCentralDirectory_def Let_def split: sum.splits option.splits if_splits
      dest!: centralLoop_checked)

lemma validate_cases:
  assumes "validateZipArchiveFile lib file archiveBytes limits = Inr md"
  obtains entries centralOffset where
    "readCentralDirectory lib file archiveBytes = Inr (entries, centralOffset)"
    "length (filter (\<lambda>e. \<not> ze_directory e) entries) \<le> zl_files limits"
    "length entries \<le> (case zl_entries limits of None \<Rightarrow> zl_files limits | Some n \<Rightarrow> n)"
    "checkSizes limits 0 (filter (\<lambda>e. \<not> ze_directory e) entries) = Inr ()"
    "inspectLoop lib file limits centralOffset (physicalOrder entries) None = Inr (Some md)"
  using assms
  by (auto simp: validateZipArchiveFile_def Let_def not_less split: sum.splits if_splits option.splits)

text \<open>Where an entry ends in the file, by its local header.\<close>

definition entryEnd :: "bytes \<Rightarrow> zip_entry \<Rightarrow> nat" where
  "entryEnd file entry =
     ze_localOffset entry + 30 + u16 file (ze_localOffset entry + 26) + u16 file (ze_localOffset entry + 28)
     + ze_compressedSize entry"

lemma u16_take_drop: "i + 1 < n \<Longrightarrow> off + n \<le> length file \<Longrightarrow> u16 (take n (drop off file)) i = u16 file (off + i)"
  by (simp add: u16_def)

lemma inspectEntry_ends:
  assumes "inspectEntry lib file entry boundary limits = Inr r"
  shows "entryEnd file entry \<le> boundary" and "ze_localOffset entry + 30 \<le> boundary"
proof -
  let ?l = "take 30 (drop (ze_localOffset entry) file)"
  show off: "ze_localOffset entry + 30 \<le> boundary"
    using assms by (auto simp: inspectEntry_def split: if_splits)
  then obtain local where local: "readAt file (ze_localOffset entry) 30 = Inr local"
    using assms by (auto simp: inspectEntry_def split: if_splits sum.splits)
  then have l: "local = ?l" "length ?l = 30" unfolding readAt_Inr by blast+
  then have len: "ze_localOffset entry + 30 \<le> length file" by simp
  have "ze_localOffset entry + 30 + u16 local 26 + u16 local 28 + ze_compressedSize entry \<le> boundary"
    using assms off local by (auto simp: inspectEntry_def Let_def not_less split: if_splits sum.splits)
  then show "entryEnd file entry \<le> boundary"
    unfolding l(1) entryEnd_def using len u16_take_drop [of 26 30 "ze_localOffset entry" "file"]
      u16_take_drop [of 28 30 "ze_localOffset entry" "file"] by simp
qed

text \<open>The bytes an entry unpacks to.\<close>

definition entryStart :: "bytes \<Rightarrow> zip_entry \<Rightarrow> nat" where
  "entryStart file entry =
     ze_localOffset entry + 30 + u16 file (ze_localOffset entry + 26) + u16 file (ze_localOffset entry + 28)"

definition entryContent :: "zip_lib \<Rightarrow> bytes \<Rightarrow> zip_entry \<Rightarrow> bytes" where
  "entryContent lib file entry =
     (if ze_directory entry \<or> ze_compressedSize entry = 0 then []
      else
        let compressed = sub file (entryStart file entry) (entryStart file entry + ze_compressedSize entry) in
        concat (if ze_method entry = 8 then fst (zb_inflateRaw lib compressed) else chunksOf compressed))"

definition crc32 :: "bytes \<Rightarrow> 32 word" where
  "crc32 bs = fold (\<lambda>byte value. crcByte value byte) bs 0xffffffff XOR 0xffffffff"

lemma crc32_updateCrc: "crc32 bs = updateCrc 0xffffffff bs XOR 0xffffffff"
  by (simp add: crc32_def crc_table_fold)

definition isSkill :: "zip_entry \<Rightarrow> bool" where
  "isSkill entry \<longleftrightarrow> \<not> ze_directory entry \<and> ze_name entry = ''SKILL.md''"

lemma updateCrc_append: "updateCrc crc (xs @ ys) = updateCrc (updateCrc crc xs) ys"
  by (simp add: updateCrc_def)

lemma updateCrc_Nil [simp]: "updateCrc crc [] = crc"
  by (simp add: updateCrc_def)

lemma chunkLoop_Inr:
  "chunkLoop limits entry retain chunks count crc kept = Inr (n, c, k) \<Longrightarrow>
    n = count + length (concat chunks) \<and> c = updateCrc crc (concat chunks)
    \<and> k = (if retain then kept @ concat chunks else kept)
    \<and> (retain \<longrightarrow> count \<le> zl_retainedEntryBytes limits \<longrightarrow> n \<le> zl_retainedEntryBytes limits)"
proof (induction chunks arbitrary: count crc kept)
  case (Cons chunk chunks)
  let ?kept = "if retain then kept @ chunk else kept"
  from Cons.prems have loop: "chunkLoop limits entry retain chunks (count + length chunk) (updateCrc crc chunk) ?kept = Inr (n, c, k)"
    and small: "retain \<longrightarrow> count + length chunk \<le> zl_retainedEntryBytes limits"
    by (auto simp: Let_def split: if_splits)
  from Cons.IH [OF loop] small show ?case by (cases retain) (auto simp: updateCrc_append)
qed simp

lemma inspectData_Inr:
  assumes "inspectData lib compressed limits entry = Inr r"
  defines "content \<equiv> concat (if ze_method entry = 8 then fst (zb_inflateRaw lib compressed) else chunksOf compressed)"
  shows "length content = ze_uncompressedSize entry" and "crc32 content = ze_crc32 entry"
    and "r = (if ze_name entry = ''SKILL.md'' then Some content else None)"
    and "r \<noteq> None \<longrightarrow> length content \<le> zl_retainedEntryBytes limits"
proof -
  define chunks where "chunks = (if ze_method entry = 8 then fst (zb_inflateRaw lib compressed) else chunksOf compressed)"
  obtain n c k where loop:
    "chunkLoop limits entry (ze_name entry = ''SKILL.md'') chunks 0 0xffffffff [] = Inr (n, c, k)"
    and ok: "n = ze_uncompressedSize entry" "c XOR 0xffffffff = ze_crc32 entry"
    and r: "r = (if ze_name entry = ''SKILL.md'' then Some k else None)"
    using assms(1) unfolding chunks_def
    by (auto simp: inspectData_def Let_def split: sum.splits prod.splits option.splits if_splits)
  from chunkLoop_Inr [OF loop] ok r
  show "length content = ze_uncompressedSize entry" "crc32 content = ze_crc32 entry"
    "r = (if ze_name entry = ''SKILL.md'' then Some content else None)"
    "r \<noteq> None \<longrightarrow> length content \<le> zl_retainedEntryBytes limits"
    unfolding content_def chunks_def [symmetric] by (auto simp: crc32_updateCrc split: if_splits)
qed

lemma inspectEntry_header:
  assumes "inspectEntry lib file entry boundary limits = Inr r"
  obtains local where "readAt file (ze_localOffset entry) 30 = Inr local"
    and "entryStart file entry = ze_localOffset entry + 30 + u16 local 26 + u16 local 28"
proof -
  obtain local where local: "readAt file (ze_localOffset entry) 30 = Inr local"
    using assms by (auto simp: inspectEntry_def split: if_splits sum.splits)
  then have l: "local = take 30 (drop (ze_localOffset entry) file)" "length local = 30"
    unfolding readAt_Inr by blast+
  then have "ze_localOffset entry + 30 \<le> length file" by simp
  then have "entryStart file entry = ze_localOffset entry + 30 + u16 local 26 + u16 local 28"
    unfolding l(1) entryStart_def using u16_take_drop [of 26 30 "ze_localOffset entry" "file"]
      u16_take_drop [of 28 30 "ze_localOffset entry" "file"] by simp
  with local show ?thesis by (rule that)
qed

lemma inspectEntry_content:
  assumes "inspectEntry lib file entry boundary limits = Inr r"
  shows "length (entryContent lib file entry) = ze_uncompressedSize entry \<and> crc32 (entryContent lib file entry) = ze_crc32 entry
    \<and> r = (if isSkill entry then Some (entryContent lib file entry) else None)
    \<and> (r \<noteq> None \<longrightarrow> length (entryContent lib file entry) \<le> zl_retainedEntryBytes limits)"
proof -
  obtain local where local: "readAt file (ze_localOffset entry) 30 = Inr local"
    and start: "entryStart file entry = ze_localOffset entry + 30 + u16 local 26 + u16 local 28"
    using inspectEntry_header [OF assms] .
  have empty: "crc32 [] = 0" by (simp add: crc32_def)
  show ?thesis
  proof (cases "ze_directory entry \<or> ze_compressedSize entry = 0")
    case True
    then have "entryContent lib file entry = []" by (simp add: entryContent_def)
    moreover have "ze_uncompressedSize entry = 0 \<and> ze_crc32 entry = 0 \<and> r = (if isSkill entry then Some [] else None)"
      using assms local True
      by (auto simp: inspectEntry_def isSkill_def Let_def split: if_splits sum.splits)
    ultimately show ?thesis by (simp add: empty)
  next
    case False
    have "inspectData lib (sub file (entryStart file entry) (entryStart file entry + ze_compressedSize entry)) limits entry = Inr r"
      using assms local False unfolding start
      by (auto simp: inspectEntry_def Let_def split: if_splits sum.splits)
    from inspectData_Inr [OF this] False show ?thesis
      by (simp add: entryContent_def Let_def isSkill_def)
  qed
qed

lemma checkSizes_Inr:
  "checkSizes limits expanded es = Inr () \<Longrightarrow> expanded \<le> zl_expandedBytes limits \<Longrightarrow>
    expanded + sum_list (map ze_uncompressedSize es) \<le> zl_expandedBytes limits
    \<and> (\<forall>e \<in> set es. ze_uncompressedSize e \<le> zl_entryBytes limits)"
  by (induction es arbitrary: expanded) (auto split: if_splits simp: add.assoc [symmetric])

text \<open>What the loop over the entries in file order establishes.\<close>

lemma inspectLoop_entries:
  "inspectLoop lib file limits centralOffset es md0 = Inr md \<Longrightarrow>
    \<forall>e \<in> set es. \<exists>boundary r. inspectEntry lib file e boundary limits = Inr r"
proof (induction es arbitrary: md0)
  case (Cons e es)
  then show ?case by (auto simp: Let_def split: sum.splits option.splits if_splits)
qed simp

lemma inspectLoop_order:
  assumes "inspectLoop lib file limits centralOffset es md0 = Inr md"
    and "sorted_wrt (\<lambda>a b. ze_localOffset a \<le> ze_localOffset b) es"
  shows "sorted_wrt (\<lambda>a b. entryEnd file a \<le> ze_localOffset b) es \<and> (\<forall>e \<in> set es. entryEnd file e \<le> centralOffset)"
  using assms
proof (induction es arbitrary: md0)
  case (Cons e es)
  let ?boundary = "case es of [] \<Rightarrow> centralOffset | next # _ \<Rightarrow> ze_localOffset next"
  obtain r md1 where e: "inspectEntry lib file e ?boundary limits = Inr r"
    and rest: "inspectLoop lib file limits centralOffset es md1 = Inr md"
    using Cons.prems(1) by (auto simp: Let_def split: sum.splits option.splits if_splits)
  note ends = inspectEntry_ends(1) [OF e]
  have IH: "sorted_wrt (\<lambda>a b. entryEnd file a \<le> ze_localOffset b) es" "\<forall>x \<in> set es. entryEnd file x \<le> centralOffset"
    using Cons.IH [OF rest] Cons.prems(2) by simp_all
  show ?case
  proof (cases es)
    case Nil
    then show ?thesis using ends by simp
  next
    case (Cons n ns)
    have "ze_localOffset n \<le> ze_localOffset b" if "b \<in> set es" for b
      using Cons.prems(2) that Cons by auto
    moreover have "ze_localOffset n \<le> entryEnd file n" by (simp add: entryEnd_def)
    ultimately show ?thesis using IH ends Cons by fastforce
  qed
qed simp

lemma inspectLoop_skill:
  assumes "inspectLoop lib file limits centralOffset es md0 = Inr md"
  shows "(case filter isSkill es of
      [] \<Rightarrow> md = md0
    | [e] \<Rightarrow> md0 = None \<and> md = Some (entryContent lib file e) \<and> length (entryContent lib file e) \<le> zl_retainedEntryBytes limits
    | _ \<Rightarrow> False)"
  using assms
proof (induction es arbitrary: md0)
  case (Cons e es)
  let ?boundary = "case es of [] \<Rightarrow> centralOffset | next # _ \<Rightarrow> ze_localOffset next"
  obtain r where e: "inspectEntry lib file e ?boundary limits = Inr r"
    using Cons.prems by (auto simp: Let_def split: sum.splits)
  note content = inspectEntry_content [OF e]
  show ?case
  proof (cases "isSkill e")
    case True
    then have rest: "md0 = None" "inspectLoop lib file limits centralOffset es (Some (entryContent lib file e)) = Inr md"
      using Cons.prems e content by (auto simp: Let_def split: if_splits)
    from Cons.IH [OF rest(2)] rest(1) True content show ?thesis
      by (auto split: list.splits)
  next
    case False
    then have "inspectLoop lib file limits centralOffset es md0 = Inr md"
      using Cons.prems e content by (auto simp: Let_def)
    from Cons.IH [OF this] False show ?thesis by simp
  qed
qed simp

interpretation offsetCmp: comparator "\<lambda>l r. int (ze_localOffset l) - int (ze_localOffset r)"
  by unfold_locales auto

lemma length_filter_toSortedBy: "length (filter P (toSortedBy cmp xs)) = length (filter P xs)"
proof -
  have "length (filter P (insertBy cmp x ys)) = length (filter P (x # ys))" for x ys
    by (induction ys) auto
  then show ?thesis by (induction xs) (simp_all add: toSortedBy_def)
qed

lemma physicalOrder_sorted: "sorted_wrt (\<lambda>a b. ze_localOffset a \<le> ze_localOffset b) (physicalOrder entries)"
  using offsetCmp.sorted_toSortedBy [of entries] by (simp add: physicalOrder_def)

section \<open>What acceptance means\<close>

text \<open>
  Entries do not overlap: in an accepted archive each entry, from its local header to the end of its
  data, ends before the next entry in file order begins, and all end before the central directory.
\<close>

theorem zip_entries_disjoint:
  assumes "validateZipArchiveFile lib file archiveBytes limits = Inr md"
    and "readCentralDirectory lib file archiveBytes = Inr (entries, centralOffset)"
  shows "sorted_wrt (\<lambda>a b. entryEnd file a \<le> ze_localOffset b) (physicalOrder entries)
    \<and> set (physicalOrder entries) = set entries \<and> length (physicalOrder entries) = length entries
    \<and> (\<forall>e \<in> set entries. entryEnd file e \<le> centralOffset)"
proof -
  have "inspectLoop lib file limits centralOffset (physicalOrder entries) None = Inr (Some md)"
    using validate_cases [OF assms(1)] assms(2) by auto
  from inspectLoop_order [OF this physicalOrder_sorted] show ?thesis by (simp add: physicalOrder_def)
qed

definition entryPath :: "zip_entry \<Rightarrow> string" where
  "entryPath entry = (if ze_directory entry then butlast (ze_name entry) else ze_name entry)"

definition unixType :: "zip_entry \<Rightarrow> 32 word" where
  "unixType entry = drop_bit 16 (ze_externalAttributes entry) AND 0xf000"

lemma validatePath_Inr:
  "validatePath name directory = Inr () \<Longrightarrow> directory = endsWith name ''/'' \<Longrightarrow>
    path = (if directory then butlast name else name) \<Longrightarrow>
    CHR 0x5C \<notin> set path \<and> CHR '':'' \<notin> set path \<and> nul \<notin> set path
    \<and> (\<forall>w \<in> set (splitOn (CHR ''/'') path). w \<noteq> [] \<and> w \<noteq> ''.'' \<and> w \<noteq> ''..'')
    \<and> \<not> isExcludedSkillArchivePath path directory"
  by (auto simp: validatePath_def Let_def list_ex_iff split: if_splits)

lemma unixType_Inr:
  "validateUnixType entry = Inr () \<Longrightarrow> unixType entry \<in> {0, 0x8000} \<or> ze_directory entry \<and> unixType entry = 0x4000"
  by (auto simp: validateUnixType_def unixType_def Let_def and.assoc split: if_splits)

text \<open>
  C20. Unpacking stays in its directory: joined to any absolute normalised directory, the path of every
  entry of an accepted archive is already normalised, so it lies below that directory; it has no
  separator of another platform and is not reserved, and the entry is a file or a directory, never a
  link.
\<close>

theorem zip_paths_safe:
  assumes "validateZipArchiveFile lib file archiveBytes limits = Inr md"
    and "readCentralDirectory lib file archiveBytes = Inr (entries, centralOffset)" and "e \<in> set entries"
    and "posixNormalizeAbsolute dir = dir" and "dir \<noteq> []" and "last dir \<noteq> CHR ''/''"
  shows "posixNormalizeAbsolute (dir @ CHR ''/'' # entryPath e) = dir @ CHR ''/'' # entryPath e
    \<and> CHR 0x5C \<notin> set (entryPath e) \<and> CHR '':'' \<notin> set (entryPath e) \<and> nul \<notin> set (entryPath e)
    \<and> \<not> isExcludedSkillArchivePath (entryPath e) (ze_directory e)
    \<and> (unixType e \<in> {0, 0x8000} \<or> ze_directory e \<and> unixType e = 0x4000)"
proof -
  have e: "checkedEntry e" using readCentralDirectory_checked [OF assms(2)] assms(3) by blast
  then have "validatePath (ze_name e) (ze_directory e) = Inr ()" "ze_directory e = endsWith (ze_name e) ''/''"
    unfolding checkedEntry_def by blast+
  note path = validatePath_Inr [OF this entryPath_def]
  have "posixNormalizeAbsolute (dir @ CHR ''/'' # entryPath e) = dir @ CHR ''/'' # entryPath e"
    using path by (intro normalize_below assms(4-6)) blast
  then show ?thesis using path unixType_Inr [of e] e by (simp add: checkedEntry_def)
qed

text \<open>
  The contents are what the directory says, within the limits: every entry of an accepted archive
  unpacks to as many bytes as declared, with the declared CRC-32; no file unpacks to more than the limit
  of an entry, and all together to no more than the limit of the archive.
\<close>

theorem zip_contents_verified:
  assumes "validateZipArchiveFile lib file archiveBytes limits = Inr md"
    and "readCentralDirectory lib file archiveBytes = Inr (entries, centralOffset)"
  shows "(\<forall>e \<in> set entries. length (entryContent lib file e) = ze_uncompressedSize e
        \<and> crc32 (entryContent lib file e) = ze_crc32 e
        \<and> length (entryContent lib file e) \<le> zl_entryBytes limits)
    \<and> sum_list (map (\<lambda>e. length (entryContent lib file e)) entries) \<le> zl_expandedBytes limits
    \<and> length (filter (\<lambda>e. \<not> ze_directory e) entries) \<le> zl_files limits"
proof -
  let ?files = "filter (\<lambda>e. \<not> ze_directory e) entries"
  obtain co where loop: "inspectLoop lib file limits co (physicalOrder entries) None = Inr (Some md)"
    and sizes: "checkSizes limits 0 ?files = Inr ()" and n: "length ?files \<le> zl_files limits"
    using validate_cases [OF assms(1)] assms(2) by auto
  have content: "length (entryContent lib file e) = ze_uncompressedSize e \<and> crc32 (entryContent lib file e) = ze_crc32 e"
    if "e \<in> set entries" for e
    using inspectLoop_entries [OF loop] that inspectEntry_content by (auto simp: physicalOrder_def)
  have dir: "entryContent lib file e = []" if "ze_directory e" for e using that by (simp add: entryContent_def)
  have total: "sum_list (map ze_uncompressedSize ?files) \<le> zl_expandedBytes limits"
    "\<forall>e \<in> set ?files. ze_uncompressedSize e \<le> zl_entryBytes limits"
    using checkSizes_Inr [OF sizes] by simp_all
  have "sum_list (map (\<lambda>e. length (entryContent lib file e)) entries)
      = sum_list (map (\<lambda>e. length (entryContent lib file e)) ?files)"
    using dir by (induction entries) auto
  also have "\<dots> = sum_list (map ze_uncompressedSize ?files)"
    using content by (intro arg_cong [where f = sum_list] map_cong) auto
  finally have "sum_list (map (\<lambda>e. length (entryContent lib file e)) entries) \<le> zl_expandedBytes limits"
    using total(1) by simp
  moreover have "length (entryContent lib file e) \<le> zl_entryBytes limits" if "e \<in> set entries" for e
    using total(2) content [OF that] dir [of e] that by (cases "ze_directory e") auto
  ultimately show ?thesis using content n by blast
qed

text \<open>
  The skill document is unique: an accepted archive has exactly one file \<open>SKILL.md\<close>, the result
  is its content, and it is within the limit of a retained entry.
\<close>

theorem zip_skill_markdown:
  assumes "validateZipArchiveFile lib file archiveBytes limits = Inr md"
    and "readCentralDirectory lib file archiveBytes = Inr (entries, centralOffset)"
  shows "\<exists>e. filter isSkill entries = [e] \<and> md = entryContent lib file e \<and> length md \<le> zl_retainedEntryBytes limits"
proof -
  obtain co where loop: "inspectLoop lib file limits co (physicalOrder entries) None = Inr (Some md)"
    using validate_cases [OF assms(1)] assms(2) by auto
  from inspectLoop_skill [OF loop] obtain e where e: "filter isSkill (physicalOrder entries) = [e]"
    "md = entryContent lib file e" "length md \<le> zl_retainedEntryBytes limits"
    by (auto split: list.splits)
  have len: "length (filter isSkill entries) = 1"
    using e(1) length_filter_toSortedBy [of isSkill "\<lambda>l r. int (ze_localOffset l) - int (ze_localOffset r)" entries]
    by (simp add: physicalOrder_def)
  have "set (filter isSkill entries) = set (filter isSkill (physicalOrder entries))"
    by (simp add: physicalOrder_def)
  then have "set (filter isSkill entries) = {e}" by (simp only: e(1)) simp
  with len have "filter isSkill entries = [e]" by (cases "filter isSkill entries") auto
  with e show ?thesis by blast
qed

section \<open>An example archive\<close>

text \<open>One stored entry, \<open>SKILL.md\<close>, with the content \<open>x\<close>.\<close>

definition demoLocal :: bytes where
  "demoLocal =
    [80, 75, 3, 4, 20, 0, 0, 0, 0, 0, 0, 0, 0, 0, 131, 22, 220, 140, 1, 0, 0, 0, 1, 0, 0, 0, 8, 0,
     0, 0, 83, 75, 73, 76, 76, 46, 109, 100, 120]"

definition demoCentral :: bytes where
  "demoCentral =
    [80, 75, 1, 2, 20, 0, 20, 0, 0, 0, 0, 0, 0, 0, 0, 0, 131, 22, 220, 140, 1, 0, 0, 0, 1, 0, 0, 0,
     8, 0, 0, 0, 0, 0, 0, 0, 0, 0, 0, 0, 0, 0, 0, 0, 0, 0, 83, 75, 73, 76, 76, 46, 109, 100]"

definition demoArchive :: bytes where
  "demoArchive =
    demoLocal @ demoCentral @
    [80, 75, 5, 6, 0, 0, 0, 0, 1, 0, 1, 0, 54, 0, 0, 0, 39, 0, 0, 0, 0, 0]"

definition demoZipLib :: zip_lib where
  "demoZipLib =
     \<lparr>zb_decodeUtf8 = (\<lambda>bs. if list_all (\<lambda>b. unat b < 128) bs then Some (map (\<lambda>b. char_of (unat b)) bs) else None),
      zb_inflateRaw = (\<lambda>_. ([], None))\<rparr>"

definition demoLimits :: zip_limits where
  "demoLimits =
     \<lparr>zl_archiveBytes = 1000, zl_expandedBytes = 100, zl_entryBytes = 50, zl_files = 3, zl_entries = None,
      zl_retainedEntryBytes = 10\<rparr>"

definition demoEntry :: zip_entry where
  "demoEntry =
     \<lparr>ze_name = ''SKILL.md'', ze_flags = 0, ze_method = 0, ze_crc32 = 2363233923, ze_compressedSize = 1,
      ze_uncompressedSize = 1, ze_localOffset = 0, ze_directory = False, ze_externalAttributes = 0\<rparr>"

lemmas demo_bytes = demoArchive_def demoLocal_def demoCentral_def

lemma demo_tail: "readAt demoArchive 0 115 = Inr demoArchive"
  by (simp add: readAt_def demo_bytes)

lemma demo_eocd: "findEocd demoArchive 94 = Some 93"
proof -
  have "findEocd demoArchive (Suc 93) = Some 93"
    by (simp only: findEocd.simps) (simp add: u32_def u16_def demo_bytes EOCD_SIGNATURE_def)
  then show ?thesis by simp
qed

lemma demo_end_record:
  "u16 demoArchive 97 = 0" "u16 demoArchive 99 = 0" "u16 demoArchive 101 = 1" "u16 demoArchive 103 = 1"
  "u32 demoArchive 105 = 54" "u32 demoArchive 109 = 39"
  by (simp_all add: u32_def u16_def demo_bytes)

lemma demo_central: "readAt demoArchive 39 54 = Inr demoCentral"
  by (simp add: readAt_def demo_bytes)

lemma demo_header:
  "u32 demoCentral 0 = CENTRAL_SIGNATURE" "u16 demoCentral 8 = 0" "u16 demoCentral 10 = 0"
  "u32 demoCentral 16 = 2363233923" "u32 demoCentral 20 = 1" "u32 demoCentral 24 = 1" "u16 demoCentral 28 = 8"
  "u16 demoCentral 30 = 0" "u16 demoCentral 32 = 0" "u16 demoCentral 34 = 0" "u32 demoCentral 38 = 0"
  "u32 demoCentral 42 = 0" "length demoCentral = 54"
  by (simp_all add: u32_def u16_def demoCentral_def CENTRAL_SIGNATURE_def)

definition demoName :: bytes where
  "demoName = [83, 75, 73, 76, 76, 46, 109, 100]"

lemma demo_name: "decodeName demoZipLib demoName = Inr ''SKILL.md''"
  by (simp add: decodeName_def demoZipLib_def demoName_def) code_simp

lemma demo_path: "validatePath ''SKILL.md'' False = Inr ()"
  by code_simp

lemma demo_entry: "centralEntry demoZipLib demoCentral 0 = Inr demoEntry"
proof -
  have "sub demoCentral 46 54 = demoName" "sub demoCentral 54 54 = []"
    by (simp_all add: sub_def demoCentral_def demoName_def)
  moreover have "validateExtraFields [] = Inr ()"
    unfolding validateExtraFields_def by (subst extraLoop.simps) simp
  moreover have "\<not> endsWith ''SKILL.md'' ''/''" by (simp add: endsWith_def)
  ultimately show ?thesis
    by (simp add: centralEntry_def demo_header demo_name demo_path validateUnixType_def demoEntry_def Let_def)
qed

lemma demo_directory: "readCentralDirectory demoZipLib demoArchive 115 = Inr ([demoEntry], 39)"
proof -
  have "centralLoop demoZipLib demoCentral 54 [demoEntry] = Inr [demoEntry]"
    by (subst centralLoop.simps) (simp add: demo_header)
  then have "centralLoop demoZipLib demoCentral 0 [] = Inr [demoEntry]"
    by (subst centralLoop.simps) (simp add: demo_header demo_entry)
  moreover have "length demoArchive = 115" by (simp add: demo_bytes)
  ultimately show ?thesis
    by (simp add: readCentralDirectory_def MAX_EOCD_BYTES_def MAX_CENTRAL_DIRECTORY_BYTES_def demo_tail demo_eocd
        demo_end_record demo_central)
qed

lemma demo_crc: "updateCrc 0xffffffff [120] XOR 0xffffffff = 2363233923"
proof -
  have steps:
    "crcShift 4294967175 = 2454158563"
    "crcShift 2454158563 = 2761637201"
    "crcShift 2761637201 = 3220512136"
    "crcShift 3220512136 = 1610256068"
    "crcShift 1610256068 = 805128034"
    "crcShift 805128034 = 402564017"
    "crcShift 402564017 = 3863466744"
    "crcShift 3863466744 = 1931733372"
    by (simp_all add: crcShift_def)
  have "(crcShift ^^ 8) v = crcShift (crcShift (crcShift (crcShift (crcShift (crcShift (crcShift (crcShift v)))))))" for v
    by (simp add: eval_nat_numeral)
  moreover have "0xffffffff XOR ucast (120 :: 8 word) = (4294967175 :: 32 word)" by simp
  ultimately have "crcByte 0xffffffff 120 = 1931733372" by (simp only: crcByte_def steps)
  then show ?thesis by (simp add: crc_table_fold)
qed

lemma demo_local:
  "readAt demoArchive 0 30 = Inr (take 30 demoLocal)" "u32 (take 30 demoLocal) 0 = LOCAL_SIGNATURE"
  "u16 (take 30 demoLocal) 6 = 0" "u16 (take 30 demoLocal) 8 = 0" "u16 (take 30 demoLocal) 26 = 8"
  "u16 (take 30 demoLocal) 28 = 0" "u32 (take 30 demoLocal) 14 = 2363233923" "u32 (take 30 demoLocal) 18 = 1"
  "u32 (take 30 demoLocal) 22 = 1" "readAt demoArchive 30 8 = Inr demoName" "sub demoName 0 8 = demoName"
  "drop 8 demoName = []" "sub demoArchive 38 39 = [120]"
  by (simp_all add: readAt_def u32_def u16_def sub_def demo_bytes demoName_def LOCAL_SIGNATURE_def)

lemma demo_data: "inspectData demoZipLib [120] demoLimits demoEntry = Inr (Some [120])"
proof -
  have "chunksOf [120] = [[120]]" by (simp add: chunksOf.simps)
  with demo_crc show ?thesis by (simp add: inspectData_def demoEntry_def demoLimits_def Let_def)
qed

lemma demo_inspected: "inspectEntry demoZipLib demoArchive demoEntry 39 demoLimits = Inr (Some [120])"
proof -
  have "validateExtraFields [] = Inr ()"
    unfolding validateExtraFields_def by (subst extraLoop.simps) simp
  moreover have "unat (2363233923 :: 32 word) = 2363233923" by simp
  ultimately show ?thesis using demo_data
    by (simp add: inspectEntry_def demo_local demo_name demoEntry_def DATA_DESCRIPTOR_FLAG_def)
qed

lemma demo_accepted: "validateZipArchiveFile demoZipLib demoArchive 115 demoLimits = Inr [120]"
proof -
  have "physicalOrder [demoEntry] = [demoEntry]" by (simp add: physicalOrder_def toSortedBy_def)
  moreover have "\<not> ze_directory demoEntry" "ze_uncompressedSize demoEntry = 1" by (simp_all add: demoEntry_def)
  moreover have "zl_archiveBytes demoLimits = 1000" "zl_entries demoLimits = None" "zl_files demoLimits = 3"
    "zl_entryBytes demoLimits = 50" "zl_expandedBytes demoLimits = 100" by (simp_all add: demoLimits_def)
  ultimately show ?thesis
    by (simp add: validateZipArchiveFile_def demo_directory demo_inspected)
qed

theorem zip_entries_disjoint_witness:
  "validateZipArchiveFile demoZipLib demoArchive 115 demoLimits = Inr [120] \<and> entryEnd demoArchive demoEntry \<le> 39"
  using zip_entries_disjoint [OF demo_accepted demo_directory] demo_accepted by simp

theorem zip_paths_safe_witness:
  "posixNormalizeAbsolute ''/skills/a/SKILL.md'' = ''/skills/a/SKILL.md''"
proof -
  have "demoEntry \<in> set [demoEntry]" "posixNormalizeAbsolute ''/skills/a'' = ''/skills/a''" "''/skills/a'' \<noteq> []"
    "last ''/skills/a'' \<noteq> CHR ''/''" by (simp_all add: posixNormalizeAbsolute_def)
  from zip_paths_safe [OF demo_accepted demo_directory this] show ?thesis
    by (simp add: entryPath_def demoEntry_def)
qed

theorem zip_contents_verified_witness:
  "length (entryContent demoZipLib demoArchive demoEntry) = 1 \<and> crc32 (entryContent demoZipLib demoArchive demoEntry) = 2363233923"
  using zip_contents_verified [OF demo_accepted demo_directory] by (simp add: demoEntry_def)

theorem zip_skill_markdown_witness:
  "[120] = entryContent demoZipLib demoArchive demoEntry"
proof -
  have "filter isSkill [demoEntry] = [demoEntry]" by (simp add: isSkill_def demoEntry_def)
  with zip_skill_markdown [OF demo_accepted demo_directory] show ?thesis by auto
qed

end
