(* ===== verification/StoreInterface.thy ===== *)
theory StoreInterface
  imports ControlStore
begin

text \<open>
  The part of \<open>ControlPlaneStore\<close> (\<open>contracts.ts\<close>) that the login, routing and recovery services
  call, as a record of operations, and the laws the services rely on, as locales: what a binding store
  and a session store promise. Both are interpreted on the in-memory store.
\<close>

section \<open>The operations\<close>

record 's agent_store =
  st_upsertPrincipal :: "principal \<Rightarrow> int \<Rightarrow> 's \<Rightarrow> (error + upsert_result) \<times> 's"
  st_reservePersonalAgent :: "string \<Rightarrow> int \<Rightarrow> 's \<Rightarrow> (error + reservation) \<times> 's"
  st_reserveKnoxRoomAgent :: "string \<Rightarrow> string \<Rightarrow> int \<Rightarrow> 's \<Rightarrow> (error + reservation) \<times> 's"
  st_transitionAgent :: "string \<Rightarrow> provisioning_state \<Rightarrow> int \<Rightarrow> string option \<Rightarrow> 's \<Rightarrow> (error + agent_binding) \<times> 's"
  st_getPersonalAgentBinding :: "string \<Rightarrow> 's \<Rightarrow> error + agent_binding option"
  st_listAgentBindingsByState :: "provisioning_state \<Rightarrow> 's \<Rightarrow> agent_binding list"
  st_createBrowserSession :: "string \<Rightarrow> string \<Rightarrow> int \<Rightarrow> 's \<Rightarrow> (error + create_session_result) \<times> 's"
  st_resolveBrowserSession :: "string \<Rightarrow> int \<Rightarrow> bool \<Rightarrow> 's \<Rightarrow> (error + session_resolution) \<times> 's"
  st_revokeBrowserSession :: "string \<Rightarrow> int \<Rightarrow> 's \<Rightarrow> browser_session option \<times> 's"
  st_getUserById :: "string \<Rightarrow> 's \<Rightarrow> platform_user option"
  st_getUserByAccountId :: "string \<Rightarrow> 's \<Rightarrow> platform_user option"
  st_resolveAuthenticatedKnoxDmRoute :: "string \<Rightarrow> 's \<Rightarrow> dm_route"

definition memOps :: "store_options \<Rightarrow> mem agent_store" where
  "memOps opts =
     \<lparr>st_upsertPrincipal = upsertPrincipal opts, st_reservePersonalAgent = reservePersonalAgent opts,
      st_reserveKnoxRoomAgent = reserveKnoxRoomAgent opts, st_transitionAgent = transitionAgent,
      st_getPersonalAgentBinding = getPersonalAgentBinding,
      st_listAgentBindingsByState = listAgentBindingsByState opts,
      st_createBrowserSession = createBrowserSession opts, st_resolveBrowserSession = resolveBrowserSession opts,
      st_revokeBrowserSession = revokeBrowserSession, st_getUserById = getUserById,
      st_getUserByAccountId = getUserByAccountId,
      st_resolveAuthenticatedKnoxDmRoute = resolveAuthenticatedKnoxDmRoute opts\<rparr>"

section \<open>What a binding store promises\<close>

text \<open>\<open>I\<close> is the invariant of the store and \<open>stored\<close> the binding it holds under an id.\<close>

locale binding_store =
  fixes S :: "'s agent_store"
    and I :: "'s \<Rightarrow> bool"
    and stored :: "string \<Rightarrow> 's \<Rightarrow> agent_binding option"
  assumes stored_id: "I s \<Longrightarrow> stored k s = Some b \<Longrightarrow> b_id b = k"
    and stored_owner: "I s \<Longrightarrow> stored k s = Some b \<Longrightarrow> b_owner b = Personal uid \<Longrightarrow> \<exists>u. st_getUserById S uid s = Some u"
    and transition_inv: "I s \<Longrightarrow> I (snd (st_transitionAgent S bid st t fc s))"
    and transition_allowed: "I s \<Longrightarrow> stored bid s = Some b
      \<Longrightarrow> st = b_state b \<or> st \<in> set (allowedAgentTransitions (b_state b)) \<Longrightarrow> fc = None \<or> (\<exists>c. fc = Some c \<and> trim c \<noteq> [])
      \<Longrightarrow> \<exists>b'. fst (st_transitionAgent S bid st t fc s) = Inr b'"
    and transition_moves: "I s \<Longrightarrow> st_transitionAgent S bid st t fc s = (Inr b', s')
      \<Longrightarrow> stored bid s' = Some b' \<and> b_state b' = st
        \<and> (\<exists>b. stored bid s = Some b \<and> b_owner b' = b_owner b \<and> b_agentId b' = b_agentId b)
        \<and> (\<forall>k. k \<noteq> bid \<longrightarrow> stored k s' = stored k s)"
    and transition_keeps: "I s \<Longrightarrow> stored k s = Some b
      \<Longrightarrow> \<exists>b'. stored k (snd (st_transitionAgent S bid st t fc s)) = Some b' \<and> b_owner b' = b_owner b \<and> b_agentId b' = b_agentId b"
    and transition_code: "I s \<Longrightarrow> st_transitionAgent S bid AgentFailed t (Some c) s = (Inr b', s')
      \<Longrightarrow> b_failureCode b' = Some (trim c)"
    and transition_users: "st_getUserById S uid (snd (st_transitionAgent S bid st t fc s)) = st_getUserById S uid s"
    and reserve_personal: "I s \<Longrightarrow> st_reservePersonalAgent S uid t s = (Inr r, s')
      \<Longrightarrow> I s' \<and> stored (b_id (rv_binding r)) s' = Some (rv_binding r) \<and> b_owner (rv_binding r) = Personal uid"
    and reserve_room: "I s \<Longrightarrow> st_reserveKnoxRoomAgent S acct room t s = (Inr r, s')
      \<Longrightarrow> I s' \<and> stored (b_id (rv_binding r)) s' = Some (rv_binding r)
        \<and> (\<exists>a r'. b_owner (rv_binding r) = KnoxRoom a r' \<and> roomKey a r' = roomKey (trim acct) (trim room))"
    and list_bindings: "I s \<Longrightarrow> b \<in> set (st_listAgentBindingsByState S st s) \<longleftrightarrow> (\<exists>k. stored k s = Some b) \<and> b_state b = st"
    and list_distinct: "I s \<Longrightarrow> distinct (map b_id (st_listAgentBindingsByState S st s))"

section \<open>What a session store promises\<close>

text \<open>\<open>tokenOf\<close> is the token hash of a session id.\<close>

locale session_store =
  fixes S :: "'s agent_store"
    and I :: "'s \<Rightarrow> bool"
    and tokenOf :: "string \<Rightarrow> 's \<Rightarrow> string option"
  assumes upsert_inv: "I s \<Longrightarrow> I (snd (st_upsertPrincipal S p t s))"
    and create_inv: "I s \<Longrightarrow> I (snd (st_createBrowserSession S uid h t s))"
    and resolve_inv: "I s \<Longrightarrow> I (snd (st_resolveBrowserSession S h t touch s))"
    and revoke_inv: "I s \<Longrightarrow> I (snd (st_revokeBrowserSession S k t s))"
    and resolve_token: "I s \<Longrightarrow> st_resolveBrowserSession S h t touch s = (Inr (ResActive e u), s')
      \<Longrightarrow> tokenOf (s_id e) s' = Some h"
    and resolve_again: "I s \<Longrightarrow> st_resolveBrowserSession S h t touch s = (Inr (ResActive e u), s')
      \<Longrightarrow> \<exists>e'. fst (st_resolveBrowserSession S h t touch' s') = Inr (ResActive e' u) \<and> s_id e' = s_id e"
    and create_fresh: "I s \<Longrightarrow> st_createBrowserSession S uid h t s = (Inr (SessionCreated e), s')
      \<Longrightarrow> tokenOf (s_id e) s = None"
    and create_tokens: "I s \<Longrightarrow> tokenOf k s = Some g \<Longrightarrow> tokenOf k (snd (st_createBrowserSession S uid h t s)) = Some g"
    and create_resolves: "I s \<Longrightarrow> trim h = h \<Longrightarrow> st_createBrowserSession S uid h t s = (Inr (SessionCreated e), s')
      \<Longrightarrow> \<exists>e' u. fst (st_resolveBrowserSession S h t touch s') = Inr (ResActive e' u) \<and> s_id e' = s_id e \<and> u_id u = uid"
    and revoke_other: "I s \<Longrightarrow> k \<noteq> s_id e \<Longrightarrow> fst (st_resolveBrowserSession S h t touch s) = Inr (ResActive e u)
      \<Longrightarrow> fst (st_resolveBrowserSession S h t touch (snd (st_revokeBrowserSession S k r s))) = Inr (ResActive e u)"
    and revoke_ends: "I s \<Longrightarrow> tokenOf k s = Some h
      \<Longrightarrow> fst (st_resolveBrowserSession S h t touch (snd (st_revokeBrowserSession S k r s))) \<noteq> Inr (ResActive e u)"

section \<open>The in-memory store\<close>

definition memInv :: "store_options \<Rightarrow> mem \<Rightarrow> bool" where
  "memInv opts s \<longleftrightarrow> wfStore opts s \<and> id_factory (o_idFactory opts)
     \<and> 0 < idleTimeoutMs (o_sessionPolicy opts) \<and> 0 < absoluteTimeoutMs (o_sessionPolicy opts)"

definition storedBinding :: "string \<Rightarrow> mem \<Rightarrow> agent_binding option" where
  "storedBinding k s = mapGet (bindings s) k"

definition sessionToken :: "string \<Rightarrow> mem \<Rightarrow> string option" where
  "sessionToken k s = map_option s_tokenHash (mapGet (sessions s) k)"

lemma memInv_step: "memInv opts s \<Longrightarrow> memInv opts (step opts c s)"
  by (simp add: memInv_def step_wfStore)

lemma memInv_calls:
  assumes "memInv opts s"
  shows "memInv opts (snd (upsertPrincipal opts p t s))" "memInv opts (snd (reservePersonalAgent opts uid t s))"
    "memInv opts (snd (reserveKnoxRoomAgent opts acct room t s))" "memInv opts (snd (transitionAgent bid st t fc s))"
    "memInv opts (snd (createBrowserSession opts uid h t s))" "memInv opts (snd (resolveBrowserSession opts h t touch s))"
    "memInv opts (snd (revokeBrowserSession k t s))"
  using memInv_step [OF assms, of "UpsertPrincipal p t"] memInv_step [OF assms, of "ReservePersonalAgent uid t"]
    memInv_step [OF assms, of "ReserveKnoxRoomAgent acct room t"] memInv_step [OF assms, of "TransitionAgent bid st t fc"]
    memInv_step [OF assms, of "CreateBrowserSession uid h t"] memInv_step [OF assms, of "ResolveBrowserSession h t touch"]
    memInv_step [OF assms, of "RevokeBrowserSession k t"] by simp_all

lemma memInvD:
  assumes "memInv opts s"
  shows "wfDirectory opts s" "wfAgents opts s" "wfSessions opts s" "id_factory (o_idFactory opts)"
    "0 < idleTimeoutMs (o_sessionPolicy opts)" "0 < absoluteTimeoutMs (o_sessionPolicy opts)"
  using assms wfStoreD [of opts s] unfolding memInv_def by blast+

lemma mem_transition_allowed:
  assumes "memInv opts s" and "mapGet (bindings s) bid = Some b"
    and "st = b_state b \<or> st \<in> set (allowedAgentTransitions (b_state b))" and "fc = None \<or> (\<exists>c. fc = Some c \<and> trim c \<noteq> [])"
  shows "\<exists>b'. fst (transitionAgent bid st t fc s) = Inr b'"
proof -
  have req: "requireBinding bid s = Inr b" using assms(2) by (simp add: requireBinding_def)
  have "trim ''unknown'' \<noteq> []" by code_simp
  then have "\<exists>c. requireNonEmpty (case fc of None \<Rightarrow> ''unknown'' | Some c \<Rightarrow> c) ''failureCode'' = Inr c"
    using assms(4) by (auto simp: requireNonEmpty_def Let_def)
  with assms(3) req show ?thesis
    by (auto simp: transitionAgent_def Let_def)
qed

lemma mem_transition_moves:
  assumes "memInv opts s" and "transitionAgent bid st t fc s = (Inr b', s')"
  shows "mapGet (bindings s') bid = Some b' \<and> b_state b' = st
    \<and> (\<exists>b. mapGet (bindings s) bid = Some b \<and> b_owner b' = b_owner b \<and> b_agentId b' = b_agentId b)
    \<and> (\<forall>k. k \<noteq> bid \<longrightarrow> mapGet (bindings s') k = mapGet (bindings s) k)"
  using assms(2)
proof (cases rule: transition_cases)
  case (moved b b2)
  from moved(4) have "b_owner b2 = b_owner b" "b_agentId b2 = b_agentId b" "b_state b2 = st"
    by (metis agent_binding.select_convs agent_binding.surjective agent_binding.update_convs)+
  with moved show ?thesis by simp
qed simp_all

lemma step_keepsOwner:
  assumes "memInv opts s" and "mapGet (bindings s) k = Some b"
  shows "\<exists>b'. mapGet (bindings (step opts c s)) k = Some b' \<and> b_owner b' = b_owner b \<and> b_agentId b' = b_agentId b"
proof -
  have "descends k b s" using assms(2) by (simp add: descends_def)
  then have "descends k b (step opts c s)" using step_descends assms(1) unfolding memInv_def by blast
  then show ?thesis unfolding descends_def by blast
qed

lemma mem_transition_code:
  assumes "transitionAgent bid AgentFailed t (Some c) s = (Inr b', s')"
  shows "b_failureCode b' = Some (trim c)"
  using assms
  by (auto simp: transitionAgent_def Let_def requireNonEmpty_def elim!: orThrow_InrE split: if_splits)

lemma mem_create_tokens:
  assumes "memInv opts s" and "sessionToken k s = Some g"
  shows "sessionToken k (snd (createBrowserSession opts uid h t s)) = Some g"
proof (cases "createBrowserSession opts uid h t s")
  case (Pair out s')
  from Pair show ?thesis
  proof (cases rule: createSession_cases)
    case kept
    with Pair assms show ?thesis by simp
  next
    case (made user e)
    have "mapGet (sessions s) (s_id e) = None"
      using wfSessionsD(2) [OF memInvD(3) [OF assms(1)]] not_issuedId_next [OF memInvD(4) [OF assms(1)]] made(6)
      by (metis option.exhaust)
    then have "k \<noteq> s_id e" using assms(2) by (auto simp: sessionToken_def)
    with Pair made(13) assms(2) show ?thesis by (simp add: sessionToken_def)
  qed
qed

lemma mem_reserve_personal:
  assumes "memInv opts s" and "reservePersonalAgent opts uid t s = (Inr r, s')"
  shows "memInv opts s' \<and> mapGet (bindings s') (b_id (rv_binding r)) = Some (rv_binding r)
    \<and> b_owner (rv_binding r) = Personal uid"
proof -
  have inv: "memInv opts s'" using memInv_calls(2) [OF assms(1), of uid t] unfolding assms(2) snd_conv .
  from assms(2) show ?thesis
  proof (cases rule: reservePersonal_cases)
    case (found bid b)
    with wfAgentsD(2) [OF memInvD(2) [OF assms(1)] found(2)] wfAgentsD(8) [OF memInvD(2) [OF assms(1)] found(1)]
    show ?thesis using inv by auto
  qed (use inv in simp_all)
qed

lemma mem_reserve_room:
  assumes "memInv opts s" and "reserveKnoxRoomAgent opts acct room t s = (Inr r, s')"
  shows "memInv opts s' \<and> mapGet (bindings s') (b_id (rv_binding r)) = Some (rv_binding r)
    \<and> (\<exists>a r'. b_owner (rv_binding r) = KnoxRoom a r' \<and> roomKey a r' = roomKey (trim acct) (trim room))"
proof -
  have inv: "memInv opts s'" using memInv_calls(3) [OF assms(1), of acct room t] unfolding assms(2) snd_conv .
  from assms(2) show ?thesis
  proof (cases rule: reserveRoom_cases)
    case (found bid b)
    with wfAgentsD(2) [OF memInvD(2) [OF assms(1)] found(2)] wfAgentsD(9) [OF memInvD(2) [OF assms(1)] found(1)]
    show ?thesis using inv by auto
  qed (use inv in simp_all)
qed

lemma mem_list:
  assumes "memInv opts s"
  shows "b \<in> set (listAgentBindingsByState opts st s) \<longleftrightarrow> (\<exists>k. mapGet (bindings s) k = Some b) \<and> b_state b = st"
    and "distinct (map b_id (listAgentBindingsByState opts st s))"
proof -
  note wf = memInvD(2) [OF assms]
  have vals: "b \<in> set (mapValues (bindings s)) \<longleftrightarrow> (\<exists>k. mapGet (bindings s) k = Some b)" for b
    using in_mapValuesD [OF wfAgentsD(1) [OF wf], of b] in_mapValuesI [of "bindings s" _ b] by blast
  then show "b \<in> set (listAgentBindingsByState opts st s) \<longleftrightarrow> (\<exists>k. mapGet (bindings s) k = Some b) \<and> b_state b = st"
    by (auto simp: listAgentBindingsByState_def)
  have inj: "inj_on b_id (set (mapValues (bindings s)))"
    using vals wfAgentsD(2) [OF wf] by (intro inj_onI) (metis option.inject)
  have "map b_id (mapValues (bindings s)) = mapKeys (bindings s)"
    using wfAgentsD(1,2) [OF wf] unfolding mapValues_def by (auto simp: map_of_is_SomeI)
  then have "distinct (mapValues (bindings s))" using wfAgentsD(1) [OF wf] distinct_map by metis
  then show "distinct (map b_id (listAgentBindingsByState opts st s))"
    using inj by (auto simp: listAgentBindingsByState_def distinct_map intro: inj_on_subset)
qed

interpretation memBindings: binding_store "memOps opts" "memInv opts" storedBinding for opts
proof
  fix s k b assume "memInv opts s" "storedBinding k s = Some b"
  then show "b_id b = k" using wfAgentsD(2) [OF memInvD(2)] by (simp add: storedBinding_def)
next
  fix s k b uid assume inv: "memInv opts s" and b: "storedBinding k s = Some b" "b_owner b = Personal uid"
  then have "mapHas (users s) uid" unfolding memInv_def storedBinding_def using wfStoreD(5) by blast
  then show "\<exists>u. st_getUserById (memOps opts) uid s = Some u"
    by (auto simp: memOps_def getUserById_def)
next
  fix s k b bid st t fc assume "memInv opts s" "storedBinding k s = Some b"
  then show "\<exists>b'. storedBinding k (snd (st_transitionAgent (memOps opts) bid st t fc s)) = Some b'
      \<and> b_owner b' = b_owner b \<and> b_agentId b' = b_agentId b"
    using step_keepsOwner [of opts s k b "TransitionAgent bid st t fc"] by (simp add: memOps_def storedBinding_def)
next
  fix s uid t r s' assume "memInv opts s" "st_reservePersonalAgent (memOps opts) uid t s = (Inr r, s')"
  then show "memInv opts s' \<and> storedBinding (b_id (rv_binding r)) s' = Some (rv_binding r)
      \<and> b_owner (rv_binding r) = Personal uid"
    using mem_reserve_personal [of opts s uid t r s'] by (simp add: memOps_def storedBinding_def)
next
  fix s acct room t r s' assume "memInv opts s" "st_reserveKnoxRoomAgent (memOps opts) acct room t s = (Inr r, s')"
  then show "memInv opts s' \<and> storedBinding (b_id (rv_binding r)) s' = Some (rv_binding r)
      \<and> (\<exists>a r'. b_owner (rv_binding r) = KnoxRoom a r' \<and> roomKey a r' = roomKey (trim acct) (trim room))"
    using mem_reserve_room [of opts s acct room t r s'] by (simp add: memOps_def storedBinding_def)
qed (simp_all add: memOps_def storedBinding_def memInv_calls mem_transition_allowed mem_transition_moves mem_transition_code
    mem_list getUserById_def)

section \<open>The session store\<close>

lemma resolve_live:
  assumes "mapGet (sessionIdByTokenHash s) h = Some k" and "mapGet (sessions s) k = Some e" and "isLive t e"
    and "mapGet (users s) (s_userId e) = Some u" and "u_status u = UserActive"
  shows "fst (resolveBrowserSession opts h t touch s) = Inr (ResActive
    (if touch then e\<lparr>s_lastSeenAt := t, s_idleExpiresAt :=
       min (t + idleTimeoutMs (o_sessionPolicy opts)) (s_absoluteExpiresAt e)\<rparr> else e) u)"
  using assms by (simp add: resolveBrowserSession_def requireUser_def isLive_def orThrow_def Let_def)

text \<open>What an active resolution says of the store before the call, and of the store after it.\<close>

lemma resolve_active_before:
  assumes "fst (resolveBrowserSession opts h t touch s) = Inr (ResActive e u)"
  obtains k e0 where "mapGet (sessionIdByTokenHash s) h = Some k" "mapGet (sessions s) k = Some e0" "isLive t e0"
    "s_id e = s_id e0" "mapGet (users s) (s_userId e0) = Some u" "u_status u = UserActive"
    "e = (if touch then e0\<lparr>s_lastSeenAt := t, s_idleExpiresAt :=
       min (t + idleTimeoutMs (o_sessionPolicy opts)) (s_absoluteExpiresAt e0)\<rparr> else e0)"
proof (cases "resolveBrowserSession opts h t touch s")
  case (Pair out s')
  with assms have out: "out = Inr (ResActive e u)" by simp
  from Pair show ?thesis
  proof (cases rule: resolve_cases)
    case kept
    from kept(2) [OF out] obtain k where k: "mapGet (sessionIdByTokenHash s) h = Some k"
      "mapGet (sessions s) k = Some e" "isLive t e" "mapGet (users s) (s_userId e) = Some u"
      "u_status u = UserActive" by blast
    have "e = (if touch then e\<lparr>s_lastSeenAt := t, s_idleExpiresAt :=
       min (t + idleTimeoutMs (o_sessionPolicy opts)) (s_absoluteExpiresAt e)\<rparr> else e)"
      using resolve_live [OF k] assms by simp
    with k that show ?thesis by blast
  next
    case (touched k e0 v e1)
    with out have "v = u" "e = e1" by simp_all
    with touched that [of k e0] show ?thesis by simp
  qed
qed

lemma mem_resolve_after:
  assumes "memInv opts s" and "resolveBrowserSession opts h t touch s = (Inr (ResActive e u), s')"
  shows "mapGet (sessionIdByTokenHash s') h = Some (s_id e)" "mapGet (sessions s') (s_id e) = Some e"
    "isLive t e" "s_tokenHash e = h" "mapGet (users s') (s_userId e) = Some u" "u_status u = UserActive"
proof -
  note wf = memInvD(3) [OF assms(1)]
  have "mapGet (sessionIdByTokenHash s') h = Some (s_id e) \<and> mapGet (sessions s') (s_id e) = Some e
    \<and> isLive t e \<and> s_tokenHash e = h \<and> mapGet (users s') (s_userId e) = Some u \<and> u_status u = UserActive"
    using assms(2)
  proof (cases rule: resolve_cases)
    case kept
    from kept(2) [OF refl] obtain k where k: "mapGet (sessionIdByTokenHash s) h = Some k"
      "mapGet (sessions s) k = Some e" "isLive t e" "mapGet (users s) (s_userId e) = Some u"
      "u_status u = UserActive" by blast
    with wfSessionsD(1) [OF wf k(2)] wfSessionsD(7) [OF wf k(1)] kept(1) show ?thesis by auto
  next
    case (touched k e0 v e1)
    with wfSessionsD(1) [OF wf touched(3)] wfSessionsD(7) [OF wf touched(2)] memInvD(5) [OF assms(1)]
    show ?thesis by (auto simp: isLive_def resolveExpiryReason_def split: if_splits)
  qed
  then show "mapGet (sessionIdByTokenHash s') h = Some (s_id e)" "mapGet (sessions s') (s_id e) = Some e"
    "isLive t e" "s_tokenHash e = h" "mapGet (users s') (s_userId e) = Some u" "u_status u = UserActive"
    by blast+
qed

lemma mem_create_after:
  assumes "memInv opts s" and "createBrowserSession opts uid h t s = (Inr (SessionCreated e), s')"
  obtains u where "mapGet (sessionIdByTokenHash s') (trim h) = Some (s_id e)" "mapGet (sessions s') (s_id e) = Some e"
    "isLive t e" "mapGet (users s') (s_userId e) = Some u" "u_status u = UserActive" "u_id u = uid"
    "mapGet (sessions s) (s_id e) = None"
  using assms(2)
proof (cases rule: createSession_cases)
  case (made user f)
  then have f: "f = e" by simp
  have "u_id user = uid" using wfDirectoryD(1) [OF memInvD(1) [OF assms(1)] made(1)] .
  moreover have "mapGet (sessions s) (s_id e) = None"
    using wfSessionsD(2) [OF memInvD(3) [OF assms(1)]] not_issuedId_next [OF memInvD(4) [OF assms(1)]] made(6)
    unfolding f by (metis option.exhaust)
  ultimately show ?thesis
    using that [of user] made memInvD(5,6) [OF assms(1)] unfolding f
    by (simp add: isLive_def resolveExpiryReason_def)
qed blast

interpretation memSessions: session_store "memOps opts" "memInv opts" sessionToken for opts
proof
  fix s h t touch e u s'
  assume inv: "memInv opts s" and "st_resolveBrowserSession (memOps opts) h t touch s = (Inr (ResActive e u), s')"
  then have r: "resolveBrowserSession opts h t touch s = (Inr (ResActive e u), s')" by (simp add: memOps_def)
  note after = mem_resolve_after [OF inv r]
  show "sessionToken (s_id e) s' = Some h" using after by (simp add: sessionToken_def)
  fix touch'
  show "\<exists>e'. fst (st_resolveBrowserSession (memOps opts) h t touch' s') = Inr (ResActive e' u) \<and> s_id e' = s_id e"
    using resolve_live [OF after(1,2,3,5,6), of opts touch'] by (simp add: memOps_def)
next
  fix s uid h t e s'
  assume inv: "memInv opts s" and "st_createBrowserSession (memOps opts) uid h t s = (Inr (SessionCreated e), s')"
  then have c: "createBrowserSession opts uid h t s = (Inr (SessionCreated e), s')" by (simp add: memOps_def)
  obtain u where u: "mapGet (sessionIdByTokenHash s') (trim h) = Some (s_id e)" "mapGet (sessions s') (s_id e) = Some e"
    "isLive t e" "mapGet (users s') (s_userId e) = Some u" "u_status u = UserActive" "u_id u = uid"
    "mapGet (sessions s) (s_id e) = None" by (rule mem_create_after [OF inv c])
  show "sessionToken (s_id e) s = None" using u(7) by (simp add: sessionToken_def)
  fix touch assume "trim h = h"
  then have tok: "mapGet (sessionIdByTokenHash s') h = Some (s_id e)" using u(1) by simp
  show "\<exists>e' u. fst (st_resolveBrowserSession (memOps opts) h t touch s') = Inr (ResActive e' u)
      \<and> s_id e' = s_id e \<and> u_id u = uid"
    using resolve_live [OF tok u(2-5), of opts touch] u(6) by (simp add: memOps_def)
next
  fix s k e h t touch u r
  assume inv: "memInv opts s" and k: "k \<noteq> s_id e"
    and "fst (st_resolveBrowserSession (memOps opts) h t touch s) = Inr (ResActive e u)"
  then have "fst (resolveBrowserSession opts h t touch s) = Inr (ResActive e u)" by (simp add: memOps_def)
  then obtain j e0 where j: "mapGet (sessionIdByTokenHash s) h = Some j" "mapGet (sessions s) j = Some e0" "isLive t e0"
    "s_id e = s_id e0" "mapGet (users s) (s_userId e0) = Some u" "u_status u = UserActive"
    "e = (if touch then e0\<lparr>s_lastSeenAt := t, s_idleExpiresAt :=
       min (t + idleTimeoutMs (o_sessionPolicy opts)) (s_absoluteExpiresAt e0)\<rparr> else e0)"
    by (rule resolve_active_before)
  have "k \<noteq> j" using k j(4) wfSessionsD(1) [OF memInvD(3) [OF inv] j(2)] by simp
  then have j': "mapGet (sessions (snd (revokeBrowserSession k r s))) j = Some e0"
    using j(2) by (simp add: revokeBrowserSession_def Let_def split: option.splits)
  have same: "sessionIdByTokenHash (snd (revokeBrowserSession k r s)) = sessionIdByTokenHash s"
    "users (snd (revokeBrowserSession k r s)) = users s"
    by (simp_all add: revokeBrowserSession_def Let_def split: option.splits)
  show "fst (st_resolveBrowserSession (memOps opts) h t touch (snd (st_revokeBrowserSession (memOps opts) k r s)))
      = Inr (ResActive e u)"
    using resolve_live [of "snd (revokeBrowserSession k r s)" h j e0 t u opts touch] j j' same
    by (simp add: memOps_def)
next
  fix s k h t touch r e u
  assume inv: "memInv opts s" and tok: "sessionToken k s = Some h"
  then obtain f where f: "mapGet (sessions s) k = Some f" "s_tokenHash f = h"
    by (auto simp: sessionToken_def)
  have "revokedSession k h (snd (revokeBrowserSession k r s))"
    using f by (auto simp: revokedSession_def revokeBrowserSession_def Let_def split: option.splits)
  moreover have "wfStore opts (snd (revokeBrowserSession k r s))"
    using memInv_calls(7) [OF inv, of k r] by (simp add: memInv_def)
  ultimately show "fst (st_resolveBrowserSession (memOps opts) h t touch
      (snd (st_revokeBrowserSession (memOps opts) k r s))) \<noteq> Inr (ResActive e u)"
    using revokedSession_not_active by (auto simp: memOps_def)
qed (simp_all add: memOps_def memInv_calls mem_create_tokens)

section \<open>Calls of other requests\<close>

text \<open>Other requests keep the invariant, the token of every session, and every binding they do not move.\<close>

lemma reachable_memInv:
  assumes "reachable store s" and "id_factory (o_idFactory store)"
    and "0 < idleTimeoutMs (o_sessionPolicy store)" and "0 < absoluteTimeoutMs (o_sessionPolicy store)"
  shows "memInv store s"
  using assms reachable_wfStore by (simp add: memInv_def)

lemma demo_policy: "0 < idleTimeoutMs (o_sessionPolicy demoOptions)" "0 < absoluteTimeoutMs (o_sessionPolicy demoOptions)"
  by (simp_all add: demoOptions_def BROWSER_SESSION_POLICY_def)

lemma runCalls_memInv: "memInv opts s \<Longrightarrow> memInv opts (runCalls opts cs s)"
  by (rule runCalls_keeps) (simp_all add: memInv_step)

lemma step_sessionToken:
  assumes "memInv opts s" and "sessionToken k s = Some h"
  shows "sessionToken k (step opts c s) = Some h"
proof (cases c)
  case (CreateBrowserSession uid g t)
  then show ?thesis using mem_create_tokens [OF assms] by simp
next
  case (ResolveBrowserSession g t touch)
  obtain out s' where p: "resolveBrowserSession opts g t touch s = (out, s')" by force
  from p show ?thesis
  proof (cases rule: resolve_cases)
    case (touched sid e u e1)
    with p ResolveBrowserSession assms(2) wfSessionsD(1) [OF memInvD(3) [OF assms(1)] touched(3)]
    show ?thesis by (auto simp: sessionToken_def)
  qed (use p ResolveBrowserSession assms in simp)
next
  case (RevokeBrowserSession j t)
  then show ?thesis
    using assms(2) by (auto simp: sessionToken_def revokeBrowserSession_def Let_def split: option.splits)
next
  case (SetManagedUserStatus a u st t)
  obtain out s' where p: "setManagedUserStatus a u st t s = (out, s')" by force
  have keeps: "map_option s_tokenHash (mapGet (revokeEach t ids m) k) = map_option s_tokenHash (mapGet m k)" for ids m
    by (cases "mapGet m k") (simp_all add: mapGet_revokeEach)
  from p show ?thesis
    by (cases rule: setStatus_cases)
      (use p SetManagedUserStatus assms(2) in \<open>simp_all add: sessionToken_def keeps del: map_option_eq_Some\<close>)
qed (use assms(2) in \<open>simp_all add: sessionToken_def recordAuditEvent_def\<close>)

lemma runCalls_sessionToken:
  "memInv opts s \<Longrightarrow> sessionToken k s = Some h \<Longrightarrow> sessionToken k (runCalls opts cs s) = Some h"
  by (induction cs arbitrary: s) (auto intro: memInv_step step_sessionToken)

text \<open>
  Which calls may end the session \<open>k\<close> of the user \<open>uid\<close> with the token hash \<open>h\<close>, live at \<open>t\<close>: its own
  revocation, the disabling of the account, and a use of it dated before \<open>t\<close>.
\<close>

fun endsSession :: "string \<Rightarrow> string \<Rightarrow> string \<Rightarrow> int \<Rightarrow> call \<Rightarrow> bool" where
  "endsSession k uid h t (RevokeBrowserSession j r) = (j = k)"
| "endsSession k uid h t (SetManagedUserStatus actor target st r) = (target = uid \<and> st \<noteq> UserActive)"
| "endsSession k uid h t (ResolveBrowserSession g r touch) = (touch \<and> g = h \<and> r < t)"
| "endsSession k uid h t _ = False"

definition liveFor :: "string \<Rightarrow> int \<Rightarrow> string \<Rightarrow> string \<Rightarrow> mem \<Rightarrow> bool" where
  "liveFor h t k uid s \<longleftrightarrow>
     (\<exists>e u. mapGet (sessionIdByTokenHash s) h = Some k \<and> mapGet (sessions s) k = Some e \<and> isLive t e
        \<and> s_userId e = uid \<and> mapGet (users s) uid = Some u \<and> u_status u = UserActive)"

lemma resolves_liveFor:
  assumes "memInv opts s"
  shows "(\<exists>e u. fst (resolveBrowserSession opts h t touch s) = Inr (ResActive e u) \<and> s_id e = k \<and> u_id u = uid)
    \<longleftrightarrow> liveFor h t k uid s"
proof
  note id = wfDirectoryD(1) [OF memInvD(1) [OF assms]] and wf = memInvD(3) [OF assms]
  assume "\<exists>e u. fst (resolveBrowserSession opts h t touch s) = Inr (ResActive e u) \<and> s_id e = k \<and> u_id u = uid"
  then obtain e u where "fst (resolveBrowserSession opts h t touch s) = Inr (ResActive e u)" "s_id e = k" "u_id u = uid"
    by blast
  then show "liveFor h t k uid s"
  proof (elim resolve_active_before)
    fix j e0 assume *: "mapGet (sessionIdByTokenHash s) h = Some j" "mapGet (sessions s) j = Some e0" "isLive t e0"
      "s_id e = s_id e0" "mapGet (users s) (s_userId e0) = Some u" "u_status u = UserActive" "s_id e = k" "u_id u = uid"
    then have "j = k" "s_userId e0 = uid" using wfSessionsD(1) [OF wf *(2)] id [OF *(5)] by auto
    with * show ?thesis by (auto simp: liveFor_def)
  qed
next
  note id = wfDirectoryD(1) [OF memInvD(1) [OF assms]] and wf = memInvD(3) [OF assms]
  assume "liveFor h t k uid s"
  then obtain e u where *: "mapGet (sessionIdByTokenHash s) h = Some k" "mapGet (sessions s) k = Some e" "isLive t e"
    "mapGet (users s) (s_userId e) = Some u" "u_status u = UserActive" "s_userId e = uid" by (auto simp: liveFor_def)
  then show "\<exists>e u. fst (resolveBrowserSession opts h t touch s) = Inr (ResActive e u) \<and> s_id e = k \<and> u_id u = uid"
    using resolve_live [OF *(1-5), of opts touch] wfSessionsD(1) [OF wf *(2)] id [OF *(4)] by auto
qed

lemma step_liveFor:
  assumes "memInv opts s" and "liveFor h t k uid s" and "\<not> endsSession k uid h t c"
  shows "liveFor h t k uid (step opts c s)"
proof -
  note wf = memInvD(3) [OF assms(1)] and fac = memInvD(4) [OF assms(1)]
  from assms(2) obtain e u where live: "mapGet (sessionIdByTokenHash s) h = Some k" "mapGet (sessions s) k = Some e"
    "isLive t e" "s_userId e = uid" "mapGet (users s) uid = Some u" "u_status u = UserActive"
    by (auto simp: liveFor_def)
  obtain v where v: "mapGet (users (step opts c s)) uid = Some v" "u_status v = UserActive"
    using step_users [OF memInvD(1) [OF assms(1)] fac live(5), of c] live(6) assms(3) by (metis endsSession.simps(2))
  have "mapGet (sessionIdByTokenHash (step opts c s)) h = Some k
      \<and> (\<exists>f. mapGet (sessions (step opts c s)) k = Some f \<and> isLive t f \<and> s_userId f = uid)"
  proof (cases c)
    case (CreateBrowserSession w g r)
    obtain out s' where p: "createBrowserSession opts w g r s = (out, s')" by force
    from p show ?thesis
    proof (cases rule: createSession_cases)
      case (made user f)
      have "mapGet (sessions s) (s_id f) = None"
        using wfSessionsD(2) [OF wf] not_issuedId_next [OF fac] made(6) by (metis option.exhaust)
      with p made live CreateBrowserSession show ?thesis by auto
    qed (use p live CreateBrowserSession in auto)
  next
    case (ResolveBrowserSession g r touch)
    obtain out s' where p: "resolveBrowserSession opts g r touch s = (out, s')" by force
    from p show ?thesis
    proof (cases rule: resolve_cases)
      case (touched sid e0 w e1)
      have sid: "s_id e0 = sid" using wfSessionsD(1) [OF wf touched(3)] .
      show ?thesis
      proof (cases "sid = k")
        case True
        have "g = h"
          using wfSessionsD(7) [OF wf live(1)] wfSessionsD(7) [OF wf touched(2)] live(2) touched(3) True by auto
        then have "t \<le> r" using assms(3) ResolveBrowserSession touched(1) by simp
        then have "isLive t e1"
          using live(2,3) touched(3,7) True memInvD(5) [OF assms(1)]
          by (auto simp: isLive_def resolveExpiryReason_def split: if_splits)
        with p touched live True sid ResolveBrowserSession show ?thesis by simp
      qed (use p touched live sid ResolveBrowserSession in auto)
    qed (use p live ResolveBrowserSession in auto)
  next
    case (RevokeBrowserSession j r)
    with assms(3) have "j \<noteq> k" by simp
    with live RevokeBrowserSession show ?thesis
      by (auto simp: revokeBrowserSession_def Let_def split: option.splits)
  next
    case (SetManagedUserStatus a target st r)
    obtain out s' where p: "setManagedUserStatus a target st r s = (out, s')" by force
    from p show ?thesis
    proof (cases rule: setStatus_cases)
      case (changed a' w)
      have w: "u_id w = target" using wfDirectoryD(1) [OF memInvD(1) [OF assms(1)] changed(2)] .
      have "mapGet (sessions s') k = Some e"
      proof (cases "st = UserActive")
        case False
        then have "target \<noteq> uid" using assms(3) SetManagedUserStatus by simp
        then have "k \<notin> set (userSessionIds target s)" using wfSessionsD [OF wf] live(2,4) by fastforce
        with changed(7) live(2) w show ?thesis by (simp add: mapGet_revokeEach)
      qed (use changed(7) live(2) in simp)
      with p changed(7) live SetManagedUserStatus show ?thesis by auto
    qed (use p live SetManagedUserStatus in auto)
  qed (use live in \<open>auto simp: recordAuditEvent_def\<close>)
  with v show ?thesis by (auto simp: liveFor_def)
qed

lemma runCalls_liveFor:
  "memInv opts s \<Longrightarrow> liveFor h t k uid s \<Longrightarrow> \<not> list_ex (endsSession k uid h t) cs
    \<Longrightarrow> liveFor h t k uid (runCalls opts cs s)"
  by (induction cs arbitrary: s) (auto intro: memInv_step step_liveFor)

fun movesBinding :: "string \<Rightarrow> call \<Rightarrow> bool" where
  "movesBinding k (TransitionAgent bid st t fc) = (bid = k)"
| "movesBinding k _ = False"

lemma step_storedBinding:
  assumes "memInv opts s" and "storedBinding k s = Some b" and "\<not> movesBinding k c"
  shows "storedBinding k (step opts c s) = Some b"
proof (cases c)
  case (ReservePersonalAgent uid t)
  obtain out s' where p: "reservePersonalAgent opts uid t s = (out, s')" by force
  from p show ?thesis
  proof (cases rule: reservePersonal_cases)
    case (made user f)
    have "k \<noteq> b_id f"
      using wfAgentsD(3) [OF memInvD(2) [OF assms(1)]] not_issuedId_next [OF memInvD(4) [OF assms(1)]] made(6) assms(2)
      unfolding storedBinding_def by auto
    with made p ReservePersonalAgent assms(2) show ?thesis by (simp add: storedBinding_def)
  qed (use p ReservePersonalAgent assms in \<open>auto simp: storedBinding_def\<close>)
next
  case (ReserveKnoxRoomAgent acct room t)
  obtain out s' where p: "reserveKnoxRoomAgent opts acct room t s = (out, s')" by force
  from p show ?thesis
  proof (cases rule: reserveRoom_cases)
    case (made f)
    have "k \<noteq> b_id f"
      using wfAgentsD(3) [OF memInvD(2) [OF assms(1)]] not_issuedId_next [OF memInvD(4) [OF assms(1)]] made(3) assms(2)
      unfolding storedBinding_def by auto
    with made p ReserveKnoxRoomAgent assms(2) show ?thesis by (simp add: storedBinding_def)
  qed (use p ReserveKnoxRoomAgent assms in \<open>auto simp: storedBinding_def\<close>)
next
  case (TransitionAgent bid st t fc)
  obtain out s' where p: "transitionAgent bid st t fc s = (out, s')" by force
  from p show ?thesis
    by (cases rule: transition_cases) (use p TransitionAgent assms in \<open>auto simp: storedBinding_def\<close>)
qed (use assms(2) in \<open>simp_all add: storedBinding_def recordAuditEvent_def\<close>)

lemma runCalls_keepsOwner:
  "memInv opts s \<Longrightarrow> storedBinding k s = Some b
    \<Longrightarrow> \<exists>b'. storedBinding k (runCalls opts cs s) = Some b' \<and> b_owner b' = b_owner b \<and> b_agentId b' = b_agentId b"
proof (induction cs arbitrary: s b)
  case (Cons c cs)
  obtain b1 where b1: "storedBinding k (step opts c s) = Some b1" "b_owner b1 = b_owner b" "b_agentId b1 = b_agentId b"
    using step_keepsOwner [of opts s k b c] Cons.prems by (auto simp: storedBinding_def)
  from Cons.IH [OF memInv_step [OF Cons.prems(1)] b1(1)] b1(2,3) show ?case by simp
qed simp

lemma runCalls_storedBinding:
  "memInv opts s \<Longrightarrow> storedBinding k s = Some b \<Longrightarrow> \<not> list_ex (movesBinding k) cs
    \<Longrightarrow> storedBinding k (runCalls opts cs s) = Some b"
  by (induction cs arbitrary: s) (auto intro: memInv_step step_storedBinding)

end
