(* ===== verification/Provisioning.thy ===== *)
theory Provisioning
  imports StoreInterface
begin

text \<open>
  The provisioning of a reserved agent binding, the part \<open>browser-auth-service.ts\<close>
  (\<open>runPersonalAgentProvisioning\<close>) and \<open>knox-routing-service.ts\<close> (\<open>runRoomProvisioning\<close>)
  have in common, and the map of runs in flight both keep.

  The provisioner is a parameter: a call of it returns \<open>None\<close>, or \<open>Some\<close> of what it throws. Between
  two store calls of a run other requests may change the store; \<open>env\<close> gives, for each such await
  point, what they do.
\<close>

section \<open>Errors and await points\<close>

text \<open>\<open>error instanceof Error ? error.message : ...\<close> tells the two kinds of thrown value apart.\<close>

datatype thrown = ErrorObject string | OtherThrown

datatype service_error =
    StoreThrew error | ProvisionerThrew thrown | AuthenticatorThrew thrown | ServiceError string

datatype await_point =
    AfterUpsert | AfterReserve | AfterRetry | AfterProvision | BeforeFailure
  | BeforeSession | AfterResolve | AfterCreate | BeforeSync | AfterLookup

definition fromStore :: "(error + 'a) \<times> 's \<Rightarrow> (service_error + 'a) \<times> 's" where
  "fromStore r = (case r of (Inl e, s) \<Rightarrow> (Inl (StoreThrew e), s) | (Inr x, s) \<Rightarrow> (Inr x, s))"

lemma fromStore_simps [simp]:
  "fromStore (Inl e, s) = (Inl (StoreThrew e), s)"
  "fromStore (Inr x, s) = (Inr x, s)"
  by (simp_all add: fromStore_def)

lemma fromStore_Inr [simp]: "fromStore r = (Inr x, s) \<longleftrightarrow> r = (Inr x, s)"
  by (cases r; cases "fst r") (auto simp: fromStore_def)

lemma snd_fromStore [simp]: "snd (fromStore r) = snd r"
  by (cases r; cases "fst r") (auto simp: fromStore_def)

section \<open>One run\<close>

text \<open>The \<open>catch\<close>: a binding that was being provisioned or refreshed becomes failed, and the error is thrown again.\<close>

definition failProvisioning ::
    "'s agent_store \<Rightarrow> (await_point \<Rightarrow> 's \<Rightarrow> 's) \<Rightarrow> agent_binding \<Rightarrow> int \<Rightarrow> service_error \<Rightarrow> 's
      \<Rightarrow> (service_error + agent_binding) \<times> 's" where
  "failProvisioning S env binding changedAt e s =
     (if b_state binding = Provisioning \<or> b_state binding = AgentActive
      then andThen (fromStore (st_transitionAgent S (b_id binding) AgentFailed changedAt (Some ''provisioner_error'')
             (env BeforeFailure s))) (\<lambda>_ s1. (Inl e, s1))
      else (Inl e, s))"

text \<open>The \<open>try\<close>: the provisioner is called, and a binding still being provisioned becomes active.\<close>

definition tryProvisioning ::
    "'s agent_store \<Rightarrow> (await_point \<Rightarrow> 's \<Rightarrow> 's) \<Rightarrow> (agent_binding \<Rightarrow> thrown option) \<Rightarrow> (binding_owner \<Rightarrow> bool) \<Rightarrow> string
      \<Rightarrow> agent_binding \<Rightarrow> int \<Rightarrow> 's \<Rightarrow> (service_error + agent_binding) \<times> 's" where
  "tryProvisioning S env provision kindOk changedKind binding changedAt s =
     (case provision binding of
        Some t \<Rightarrow> failProvisioning S env binding changedAt (ProvisionerThrew t) s
      | None \<Rightarrow>
          if b_state binding \<noteq> Provisioning then (Inr binding, s)
          else
            (case st_transitionAgent S (b_id binding) AgentActive changedAt None (env AfterProvision s) of
               (Inl e, s1) \<Rightarrow> failProvisioning S env binding changedAt (StoreThrew e) s1
             | (Inr transitioned, s1) \<Rightarrow>
                 if kindOk (b_owner transitioned) then (Inr transitioned, s1)
                 else failProvisioning S env binding changedAt (ServiceError changedKind) s1))"

definition runProvisioning ::
    "'s agent_store \<Rightarrow> (await_point \<Rightarrow> 's \<Rightarrow> 's) \<Rightarrow> (agent_binding \<Rightarrow> thrown option) \<Rightarrow> (binding_owner \<Rightarrow> bool) \<Rightarrow> string
      \<Rightarrow> agent_binding \<Rightarrow> int \<Rightarrow> 's \<Rightarrow> (service_error + agent_binding) \<times> 's" where
  "runProvisioning S env provision kindOk changedKind binding changedAt s =
     (if b_state binding = AgentFailed
      then
        andThen (fromStore (st_transitionAgent S (b_id binding) Provisioning changedAt None s)) (\<lambda>transitioned s1.
          if kindOk (b_owner transitioned)
          then tryProvisioning S env provision kindOk changedKind transitioned changedAt (env AfterRetry s1)
          else (Inl (ServiceError changedKind), s1))
      else tryProvisioning S env provision kindOk changedKind binding changedAt s)"

section \<open>The runs in flight\<close>

text \<open>
  \<open>provisioningByBindingId\<close> and \<open>roomProvisioning\<close> map a key to the run in flight. A finished run
  removes its entry only when the entry is still its own.
\<close>

definition trackTask :: "string \<Rightarrow> 't \<Rightarrow> (string, 't) jsmap \<Rightarrow> (string, 't) jsmap" where
  "trackTask key task m = mapSet m key task"

definition cleanupTask :: "string \<Rightarrow> 't \<Rightarrow> (string, 't) jsmap \<Rightarrow> (string, 't) jsmap" where
  "cleanupTask key task m = (if mapGet m key = Some task then mapDelete m key else m)"

lemma track_cleanup [simp]:
  "mapGet (cleanupTask key task (trackTask key task m)) key = None"
  "other \<noteq> task \<Longrightarrow> mapGet (cleanupTask key task (trackTask key other m)) key = Some other"
  by (simp_all add: cleanupTask_def trackTask_def)

section \<open>What a run leaves behind\<close>

text \<open>
  A run settles the binding it was given, when nothing else moves that binding meanwhile: it ends
  active and is the result, or the provisioner threw and the binding is failed with the code
  \<open>provisioner_error\<close>. Nothing else is touched.
\<close>

definition quiet :: "('s \<Rightarrow> bool) \<Rightarrow> (string \<Rightarrow> 's \<Rightarrow> agent_binding option) \<Rightarrow> string \<Rightarrow> (await_point \<Rightarrow> 's \<Rightarrow> 's) \<Rightarrow> bool" where
  "quiet I stored k env \<longleftrightarrow> (\<forall>p s. I s \<longrightarrow> I (env p s) \<and> (\<forall>b. stored k s = Some b \<longrightarrow> stored k (env p s) = Some b))"

definition settled :: "service_error + agent_binding \<Rightarrow> agent_binding option \<Rightarrow> bool" where
  "settled out now \<longleftrightarrow>
     (case out of
        Inr b' \<Rightarrow> b_state b' = AgentActive \<and> now = Some b'
      | Inl e \<Rightarrow> (\<exists>t b'. e = ProvisionerThrew t \<and> now = Some b' \<and> b_state b' = AgentFailed
          \<and> b_failureCode b' = Some ''provisioner_error''))"

context binding_store
begin

lemma quietD: "quiet I stored k env \<Longrightarrow> I s \<Longrightarrow> stored k s = Some b \<Longrightarrow> I (env p s) \<and> stored k (env p s) = Some b"
  by (simp add: quiet_def)

lemma transition_step:
  assumes "I s" and "stored k s = Some b"
    and "st = b_state b \<or> st \<in> set (allowedAgentTransitions (b_state b))"
    and "fc = None \<or> (\<exists>c. fc = Some c \<and> trim c \<noteq> [])"
  obtains b' s' where "st_transitionAgent S k st t fc s = (Inr b', s')" "I s'" "stored k s' = Some b'"
    "b_state b' = st" "b_owner b' = b_owner b" "b_id b' = k" "\<And>j. j \<noteq> k \<Longrightarrow> stored j s' = stored j s"
proof -
  obtain b' where b': "fst (st_transitionAgent S k st t fc s) = Inr b'"
    using transition_allowed [OF assms] by blast
  define s' where "s' = snd (st_transitionAgent S k st t fc s)"
  have t: "st_transitionAgent S k st t fc s = (Inr b', s')" using b' by (simp add: s'_def prod_eq_iff)
  have inv: "I s'" using transition_inv [OF assms(1)] by (simp add: s'_def)
  from transition_moves [OF assms(1) t] assms(2) have
    "stored k s' = Some b'" "b_state b' = st" "b_owner b' = b_owner b" "\<And>j. j \<noteq> k \<Longrightarrow> stored j s' = stored j s"
    by auto
  with that [OF t inv] stored_id [OF inv] show ?thesis by blast
qed

lemma failProvisioning_settles:
  assumes "I s" and "stored (b_id binding) s = Some b" and "b_state b \<in> {Provisioning, AgentActive}"
    and "b_state binding \<in> {Provisioning, AgentActive}" and "quiet I stored (b_id binding) env"
    and "failProvisioning S env binding changedAt (ProvisionerThrew t) s = (out, s')"
  shows "I s' \<and> settled out (stored (b_id binding) s')"
proof -
  let ?k = "b_id binding" and ?s = "env BeforeFailure s"
  have q: "I ?s" "stored ?k ?s = Some b" using quietD [OF assms(5,1,2)] by simp_all
  have allowed: "AgentFailed \<in> set (allowedAgentTransitions (b_state b))" using assms(3) by auto
  have code: "trim ''provisioner_error'' = ''provisioner_error''" by code_simp
  obtain b' s1 where m: "st_transitionAgent S ?k AgentFailed changedAt (Some ''provisioner_error'') ?s = (Inr b', s1)"
    "I s1" "stored ?k s1 = Some b'" "b_state b' = AgentFailed"
    using transition_step [OF q, of AgentFailed "Some ''provisioner_error''" changedAt] allowed code
    by (metis list.distinct(1))
  then show ?thesis
    using assms(4,6) transition_code [OF q(1) m(1)] code
    by (auto simp: failProvisioning_def settled_def)
qed

lemma tryProvisioning_settles:
  assumes "I s" and "stored (b_id binding) s = Some binding" and "b_state binding \<in> {Provisioning, AgentActive}"
    and "quiet I stored (b_id binding) env" and "kindOk (b_owner binding)"
    and run: "tryProvisioning S env provision kindOk msg binding changedAt s = (out, s')"
  shows "I s' \<and> settled out (stored (b_id binding) s') \<and> (provision binding = None \<longrightarrow> (\<exists>b'. out = Inr b'))
    \<and> (\<forall>b'. out = Inr b' \<longrightarrow> b_owner b' = b_owner binding)"
proof (cases "provision binding")
  case (Some t)
  then show ?thesis
    using failProvisioning_settles [OF assms(1,2,3,3,4), of changedAt t out s'] run
    by (auto simp: tryProvisioning_def settled_def failProvisioning_def split: throw_splits if_splits)
next
  case None
  let ?k = "b_id binding" and ?s = "env AfterProvision s"
  have q: "I ?s" "stored ?k ?s = Some binding" using quietD [OF assms(4,1,2)] by simp_all
  show ?thesis
  proof (cases "b_state binding = Provisioning")
    case True
    then obtain b' s1 where m: "st_transitionAgent S ?k AgentActive changedAt None ?s = (Inr b', s1)"
      "I s1" "stored ?k s1 = Some b'" "b_state b' = AgentActive" "b_owner b' = b_owner binding"
      using transition_step [OF q, of AgentActive None changedAt thesis] by auto
    then show ?thesis
      using None True run assms(5) by (auto simp: tryProvisioning_def settled_def)
  next
    case False
    then show ?thesis
      using None run assms(1-3) by (auto simp: tryProvisioning_def settled_def)
  qed
qed

lemma runProvisioning_settles:
  assumes "I s" and "stored (b_id binding) s = Some binding" and "b_state binding \<noteq> AgentDisabled"
    and "quiet I stored (b_id binding) env" and "kindOk (b_owner binding)"
    and run: "runProvisioning S env provision kindOk msg binding changedAt s = (out, s')"
  shows "I s' \<and> settled out (stored (b_id binding) s') \<and> ((\<forall>b. provision b = None) \<longrightarrow> (\<exists>b'. out = Inr b'))
    \<and> (\<forall>b'. out = Inr b' \<longrightarrow> b_owner b' = b_owner binding)"
proof (cases "b_state binding = AgentFailed")
  case False
  then have "b_state binding \<in> {Provisioning, AgentActive}"
    using assms(3) by (cases "b_state binding") simp_all
  then show ?thesis
    using tryProvisioning_settles [of s binding env kindOk provision msg changedAt out s'] assms run False
    by (simp add: runProvisioning_def)
next
  case True
  then obtain b1 s1 where m: "st_transitionAgent S (b_id binding) Provisioning changedAt None s = (Inr b1, s1)"
    "I s1" "stored (b_id binding) s1 = Some b1" "b_state b1 = Provisioning" "b_owner b1 = b_owner binding"
    "b_id b1 = b_id binding"
    using transition_step [OF assms(1,2), of Provisioning None changedAt thesis] True by auto
  let ?s = "env AfterRetry s1"
  have q: "I ?s" "stored (b_id b1) ?s = Some b1" using quietD [OF assms(4) m(2,3)] m(6) by simp_all
  have "tryProvisioning S env provision kindOk msg b1 changedAt ?s = (out, s')"
    using run True m assms(5) by (simp add: runProvisioning_def)
  then show ?thesis
    using tryProvisioning_settles [OF q, of env kindOk provision msg changedAt out s'] m assms(4,5) by auto
qed

end

section \<open>What no interference changes\<close>

text \<open>
  Whatever other requests do meanwhile, bindings included, they leave the owner and the agent of every binding
  alone. Then a run that gives a binding gives the one it was given, active, of the same owner and agent.
\<close>

definition lasting :: "('s \<Rightarrow> bool) \<Rightarrow> (string \<Rightarrow> 's \<Rightarrow> agent_binding option) \<Rightarrow> (await_point \<Rightarrow> 's \<Rightarrow> 's) \<Rightarrow> bool" where
  "lasting I stored env \<longleftrightarrow>
     (\<forall>p s. I s \<longrightarrow> I (env p s)
        \<and> (\<forall>k b. stored k s = Some b \<longrightarrow>
             (\<exists>b'. stored k (env p s) = Some b' \<and> b_owner b' = b_owner b \<and> b_agentId b' = b_agentId b)))"

definition heldBy :: "(string \<Rightarrow> 's \<Rightarrow> agent_binding option) \<Rightarrow> string \<Rightarrow> binding_owner \<Rightarrow> string \<Rightarrow> 's \<Rightarrow> bool" where
  "heldBy stored k owner agentId s \<longleftrightarrow> (\<exists>b. stored k s = Some b \<and> b_owner b = owner \<and> b_agentId b = agentId)"

lemma lasting_held: "lasting I stored env \<Longrightarrow> I s \<Longrightarrow> heldBy stored k ow a s \<Longrightarrow> I (env p s) \<and> heldBy stored k ow a (env p s)"
  unfolding lasting_def heldBy_def by metis

context binding_store
begin

lemma transition_held:
  assumes "I s" and "heldBy stored k ow a s"
  shows "I (snd (st_transitionAgent S bid st t fc s)) \<and> heldBy stored k ow a (snd (st_transitionAgent S bid st t fc s))"
  using assms transition_inv transition_keeps [OF assms(1)] unfolding heldBy_def by metis

lemma transition_result:
  assumes "I s" and "heldBy stored k ow a s" and "st_transitionAgent S k st t fc s = (Inr b, s')"
  shows "b_id b = k \<and> b_owner b = ow \<and> b_agentId b = a \<and> b_state b = st"
proof -
  have "I s'" using transition_inv [OF assms(1)] assms(3) by (metis snd_conv)
  then show ?thesis
    using transition_moves [OF assms(1,3)] assms(2) stored_id unfolding heldBy_def by auto
qed

lemma failProvisioning_held:
  assumes "I s" and "heldBy stored k ow a s" and "lasting I stored env"
  shows "I (snd (failProvisioning S env binding at e s)) \<and> heldBy stored k ow a (snd (failProvisioning S env binding at e s))
    \<and> fst (failProvisioning S env binding at e s) \<noteq> Inr b"
proof -
  note q = lasting_held [OF assms(3,1,2), of BeforeFailure]
  obtain out s' where t: "st_transitionAgent S (b_id binding) AgentFailed at (Some ''provisioner_error'')
      (env BeforeFailure s) = (out, s')" by force
  have "I s' \<and> heldBy stored k ow a s'" using transition_held q t by (metis snd_conv)
  with t assms show ?thesis by (cases out) (auto simp: failProvisioning_def)
qed

lemma tryProvisioning_held:
  assumes "I s" and "heldBy stored (b_id binding) (b_owner binding) (b_agentId binding) s" and "lasting I stored env"
    and "b_state binding = Provisioning \<or> b_state binding = AgentActive"
    and run: "tryProvisioning S env provision kindOk msg binding at s = (out, s')"
  shows "I s' \<and> heldBy stored (b_id binding) (b_owner binding) (b_agentId binding) s'
    \<and> (\<forall>b. out = Inr b \<longrightarrow> b_id b = b_id binding \<and> b_owner b = b_owner binding \<and> b_agentId b = b_agentId binding
         \<and> b_state b = AgentActive)"
proof -
  let ?s = "env AfterProvision s"
  note q = lasting_held [OF assms(3,1,2), of AfterProvision]
  obtain r s1 where t: "st_transitionAgent S (b_id binding) AgentActive at None ?s = (r, s1)" by force
  have s1: "I s1" "heldBy stored (b_id binding) (b_owner binding) (b_agentId binding) s1"
    using transition_held [of ?s "b_id binding" _ _ "b_id binding" AgentActive at None] q t by (metis snd_conv)+
  have b1: "r = Inr b \<Longrightarrow> b_id b = b_id binding \<and> b_owner b = b_owner binding \<and> b_agentId b = b_agentId binding
      \<and> b_state b = AgentActive" for b
    using transition_result [of ?s] q t by blast
  have fail: "I s' \<and> heldBy stored (b_id binding) (b_owner binding) (b_agentId binding) s' \<and> (\<forall>b. out \<noteq> Inr b)"
    if "I u" "heldBy stored (b_id binding) (b_owner binding) (b_agentId binding) u"
      "failProvisioning S env binding at e u = (out, s')" for e u
    using failProvisioning_held [OF that(1,2) assms(3), of binding at e] that(3) by simp
  show ?thesis
  proof (cases "provision binding")
    case (Some t')
    then have "failProvisioning S env binding at (ProvisionerThrew t') s = (out, s')"
      using run by (simp add: tryProvisioning_def)
    with fail [OF assms(1,2)] show ?thesis by blast
  next
    case None
    show ?thesis
    proof (cases "b_state binding = Provisioning")
      case True
      with run None t have "(\<exists>e. failProvisioning S env binding at e s1 = (out, s')) \<or> (\<exists>b. r = Inr b \<and> out = Inr b \<and> s' = s1)"
        by (cases r) (auto simp: tryProvisioning_def split: if_splits)
      then show ?thesis using fail [OF s1] s1 b1 by auto
    next
      case False
      then have "out = Inr binding" "s' = s" using run None by (simp_all add: tryProvisioning_def)
      with False assms(1,2,4) show ?thesis by simp
    qed
  qed
qed

lemma runProvisioning_held:
  assumes "I s" and "heldBy stored (b_id binding) (b_owner binding) (b_agentId binding) s" and "lasting I stored env"
    and "b_state binding \<noteq> AgentDisabled"
    and run: "runProvisioning S env provision kindOk msg binding at s = (Inr b, s')"
  shows "I s' \<and> heldBy stored (b_id binding) (b_owner binding) (b_agentId binding) s'
    \<and> b_id b = b_id binding \<and> b_owner b = b_owner binding \<and> b_agentId b = b_agentId binding \<and> b_state b = AgentActive"
proof (cases "b_state binding = AgentFailed")
  case False
  then have "b_state binding = Provisioning \<or> b_state binding = AgentActive"
    using assms(4) by (cases "b_state binding") simp_all
  moreover have "tryProvisioning S env provision kindOk msg binding at s = (Inr b, s')"
    using run False by (simp add: runProvisioning_def)
  ultimately show ?thesis using tryProvisioning_held [OF assms(1-3)] by blast
next
  case True
  obtain r s1 where t: "st_transitionAgent S (b_id binding) Provisioning at None s = (r, s1)" by force
  with run True obtain b1 where r: "r = Inr b1"
    and again: "tryProvisioning S env provision kindOk msg b1 at (env AfterRetry s1) = (Inr b, s')"
    by (cases r) (auto simp: runProvisioning_def split: if_splits)
  have s1: "I s1" "heldBy stored (b_id binding) (b_owner binding) (b_agentId binding) s1"
    using transition_held [OF assms(1,2), of "b_id binding" Provisioning at None] t by (metis snd_conv)+
  have b1: "b_id b1 = b_id binding \<and> b_owner b1 = b_owner binding \<and> b_agentId b1 = b_agentId binding
      \<and> b_state b1 = Provisioning"
    by (rule transition_result [OF assms(1,2) t [unfolded r]])
  note q = lasting_held [OF assms(3) s1, of AfterRetry]
  from tryProvisioning_held [OF conjunct1 [OF q] _ assms(3) _ again] b1 q show ?thesis by simp
qed

end

section \<open>Other requests as interference\<close>

definition requestsEnv :: "store_options \<Rightarrow> (await_point \<Rightarrow> call list) \<Rightarrow> await_point \<Rightarrow> mem \<Rightarrow> mem" where
  "requestsEnv opts others p s = runCalls opts (others p) s"

lemma requests_quiet:
  assumes "\<And>p. \<not> list_ex (movesBinding k) (others p)"
  shows "quiet (memInv opts) storedBinding k (requestsEnv opts others)"
  using assms runCalls_memInv runCalls_storedBinding unfolding quiet_def requestsEnv_def by blast

lemma requests_lasting: "lasting (memInv opts) storedBinding (requestsEnv opts others)"
  using runCalls_memInv runCalls_keepsOwner unfolding lasting_def requestsEnv_def by blast

end
