(* ===== verification/BrowserAuth.thy ===== *)
theory BrowserAuth
  imports Provisioning
begin

text \<open>
  The login service (\<open>browser-auth-service.ts\<close>): an employee the directory authenticated gets a user,
  a personal agent and a browser session. The store is a record of operations, what other requests do
  between two of its calls is the argument \<open>env\<close>; the hash of a token, the directory, the provisioner
  and the organization sync are parameters. The clock is read where the code reads it; the readings
  are arguments.
\<close>

section \<open>Data\<close>

text \<open>The directory data of an authenticated employee (\<open>employee-auth-client.ts\<close>).\<close>

record directory_profile =
  dp_employeeId :: string
  dp_accountId :: string
  dp_subject :: string
  dp_displayName :: "string option"
  dp_email :: "string option"
  dp_department :: "string option"
  dp_part :: "string option"
  dp_confluenceSpace :: "string option"
  dp_notes :: "string option"
  dp_groups :: "string list"
  dp_attributes :: "(string \<times> (string + string list)) list"

record request_context =
  rc_clientIp :: "string option"
  rc_gatewayUrl :: "string option"
  rc_userAgent :: "string option"

record password_credentials =
  pc_identifier :: string
  pc_password :: string

record 'o auth_success =
  as_principal :: principal
  as_profile :: directory_profile
  as_org :: 'o
  as_isTestAccount :: "bool option"

datatype 'o auth_outcome = AuthAccepted "'o auth_success" | AuthRejected string | AuthUnavailable string

record provisioning_request =
  pr_user :: platform_user
  pr_binding :: agent_binding
  pr_profile :: directory_profile
  pr_createdBinding :: bool

record 'o organization_sync =
  os_userId :: string
  os_org :: 'o
  os_isTestAccount :: bool
  os_syncedAt :: int
  os_expectedLastLoginAt :: int

record login_success =
  ls_token :: string
  ls_session :: browser_session
  ls_user :: platform_user
  ls_binding :: agent_binding
  ls_createdUser :: bool
  ls_createdBinding :: bool

datatype login_result =
    LoggedIn login_success
  | LoginRejected string
  | LoginUnavailable string
  | AccountDisabled
  | SessionLimit int
  | ProvisioningFailed string

datatype unauthenticated_reason = RevokedReason | ExpiredReason | UserDisabledReason | AgentUnavailableReason

datatype authentication_result =
    AuthActive browser_session platform_user agent_binding
  | AuthNotFound
  | Unauthenticated unauthenticated_reason

text \<open>
  The options of the service. \<open>au_errorMessage\<close> is the text of a store error; \<open>au_token\<close> is what the
  token factory returns.
\<close>

record ('s, 'o) auth_options =
  au_store :: "'s agent_store"
  au_authenticate :: "password_credentials \<Rightarrow> request_context \<Rightarrow> thrown + 'o auth_outcome"
  au_provision :: "provisioning_request \<Rightarrow> thrown option"
  au_hash :: "string \<Rightarrow> string"
  au_token :: string
  au_errorMessage :: "error \<Rightarrow> string"
  au_onLogout :: bool
  au_sync :: "('o organization_sync \<Rightarrow> 's \<Rightarrow> 's) option"

section \<open>Provisioning\<close>

definition ownerPersonal :: "binding_owner \<Rightarrow> bool" where
  "ownerPersonal owner \<longleftrightarrow> (case owner of Personal _ \<Rightarrow> True | KnoxRoom _ _ \<Rightarrow> False)"

definition runPersonalAgentProvisioning ::
    "('s, 'o) auth_options \<Rightarrow> (await_point \<Rightarrow> 's \<Rightarrow> 's) \<Rightarrow> provisioning_request \<Rightarrow> int \<Rightarrow> 's
      \<Rightarrow> (service_error + agent_binding) \<times> 's" where
  "runPersonalAgentProvisioning opts env request changedAt s =
     runProvisioning (au_store opts) env (\<lambda>b. au_provision opts (request\<lparr>pr_binding := b\<rparr>)) ownerPersonal
       ''personal agent reservation changed kind'' (pr_binding request) changedAt s"

text \<open>
  \<open>inflight\<close> is how the run in flight for a binding settles, when there is one. A second login waits for
  it and refreshes after it; it fails when the first run fails.
\<close>

definition provisionPersonalAgent ::
    "('s, 'o) auth_options \<Rightarrow> (await_point \<Rightarrow> 's \<Rightarrow> 's) \<Rightarrow> (string \<Rightarrow> (service_error + agent_binding) option)
      \<Rightarrow> provisioning_request \<Rightarrow> int \<Rightarrow> 's \<Rightarrow> (service_error + agent_binding) \<times> 's" where
  "provisionPersonalAgent opts env inflight request changedAt s =
     (case inflight (b_id (pr_binding request)) of
        None \<Rightarrow> runPersonalAgentProvisioning opts env request changedAt s
      | Some (Inl e) \<Rightarrow> (Inl e, s)
      | Some (Inr binding) \<Rightarrow>
          (case au_provision opts (request\<lparr>pr_binding := binding, pr_createdBinding := False\<rparr>) of
             None \<Rightarrow> (Inr binding, s)
           | Some t \<Rightarrow> (Inl (ProvisionerThrew t), s)))"

definition provisioningMessage :: "('s, 'o) auth_options \<Rightarrow> service_error \<Rightarrow> string" where
  "provisioningMessage opts e =
     (case e of
        StoreThrew err \<Rightarrow> au_errorMessage opts err
      | ProvisionerThrew (ErrorObject m) \<Rightarrow> m
      | AuthenticatorThrew (ErrorObject m) \<Rightarrow> m
      | ServiceError m \<Rightarrow> m
      | _ \<Rightarrow> ''personal agent provisioning failed'')"

section \<open>Login\<close>

text \<open>A failing sync is only logged, so its result is the store alone.\<close>

definition syncDirectoryOrganization ::
    "('s, 'o) auth_options \<Rightarrow> 'o auth_success \<Rightarrow> string \<Rightarrow> int \<Rightarrow> int option \<Rightarrow> 's \<Rightarrow> 's" where
  "syncDirectoryOrganization opts auth userId syncedAt expectedLastLoginAt s =
     (case (expectedLastLoginAt, au_sync opts) of
        (Some at, Some sync) \<Rightarrow>
          sync \<lparr>os_userId = userId, os_org = as_org auth, os_isTestAccount = (as_isTestAccount auth = Some True),
                os_syncedAt = syncedAt, os_expectedLastLoginAt = at\<rparr> s
      | _ \<Rightarrow> s)"

text \<open>\<open>currentSessionToken ? await resolveBrowserSession(...) : undefined\<close>: an empty token is no token.\<close>

definition resolveCurrent ::
    "('s, 'o) auth_options \<Rightarrow> string option \<Rightarrow> int \<Rightarrow> 's \<Rightarrow> (service_error + session_resolution option) \<times> 's" where
  "resolveCurrent opts current sessionAt s =
     (case current of
        None \<Rightarrow> (Inr None, s)
      | Some token \<Rightarrow>
          if token = [] then (Inr None, s)
          else andThen (fromStore (st_resolveBrowserSession (au_store opts) (au_hash opts token) sessionAt True s))
            (\<lambda>r s1. (Inr (Some r), s1)))"

definition activeSession :: "session_resolution option \<Rightarrow> (browser_session \<times> platform_user) option" where
  "activeSession r = (case r of Some (ResActive e u) \<Rightarrow> Some (e, u) | _ \<Rightarrow> None)"

definition ownSession :: "(browser_session \<times> platform_user) option \<Rightarrow> string \<Rightarrow> browser_session option" where
  "ownSession active userId =
     (case active of None \<Rightarrow> None | Some (e, u) \<Rightarrow> if u_id u = userId then Some e else None)"

definition finishLogin ::
    "('s, 'o) auth_options \<Rightarrow> (await_point \<Rightarrow> 's \<Rightarrow> 's) \<Rightarrow> 'o auth_success \<Rightarrow> upsert_result \<Rightarrow> reservation
      \<Rightarrow> agent_binding \<Rightarrow> int \<Rightarrow> string \<Rightarrow> browser_session \<Rightarrow> 's \<Rightarrow> (service_error + login_result) \<times> 's" where
  "finishLogin opts env auth upserted res binding sessionAt token session s =
     (Inr (LoggedIn \<lparr>ls_token = token, ls_session = session, ls_user = r_user upserted, ls_binding = binding,
             ls_createdUser = r_createdUser upserted, ls_createdBinding = rv_created res\<rparr>),
      syncDirectoryOrganization opts auth (u_id (r_user upserted)) sessionAt (u_lastLoginAt (r_user upserted))
        (env BeforeSync s))"

text \<open>The part of \<open>loginAuthenticated\<close> after the provisioning.\<close>

definition openSession ::
    "('s, 'o) auth_options \<Rightarrow> (await_point \<Rightarrow> 's \<Rightarrow> 's) \<Rightarrow> 'o auth_success \<Rightarrow> string option \<Rightarrow> upsert_result
      \<Rightarrow> reservation \<Rightarrow> agent_binding \<Rightarrow> int \<Rightarrow> 's \<Rightarrow> (service_error + login_result) \<times> 's" where
  "openSession opts env auth current upserted res binding sessionAt s =
     andThen (resolveCurrent opts current sessionAt s) (\<lambda>currentSession s1.
       let active = activeSession currentSession;
           finish = finishLogin opts env auth upserted res binding sessionAt
       in
       (case (current, ownSession active (u_id (r_user upserted))) of
          (Some token, Some session) \<Rightarrow> finish token session s1
        | _ \<Rightarrow>
            if au_token opts = []
            then (Inl (ServiceError ''browser session token factory returned an empty token''), s1)
            else
              andThen (fromStore (st_createBrowserSession (au_store opts) (u_id (r_user upserted))
                         (au_hash opts (au_token opts)) sessionAt (env AfterResolve s1))) (\<lambda>created s2.
                (case created of
                   LimitReached n \<Rightarrow> (Inr (SessionLimit n), s2)
                 | SessionCreated session \<Rightarrow>
                     finish (au_token opts) session
                       (case active of
                          None \<Rightarrow> s2
                        | Some (e, u) \<Rightarrow>
                            snd (st_revokeBrowserSession (au_store opts) (s_id e) sessionAt (env AfterCreate s2)))))))"

definition loginAuthenticated ::
    "('s, 'o) auth_options \<Rightarrow> (await_point \<Rightarrow> 's \<Rightarrow> 's) \<Rightarrow> (string \<Rightarrow> (service_error + agent_binding) option)
      \<Rightarrow> 'o auth_success \<Rightarrow> string option \<Rightarrow> int \<Rightarrow> int \<Rightarrow> 's \<Rightarrow> (service_error + login_result) \<times> 's" where
  "loginAuthenticated opts env inflight auth current authenticatedAt sessionAt s =
     andThen (fromStore (st_upsertPrincipal (au_store opts) (as_principal auth) authenticatedAt s)) (\<lambda>upserted s1.
       if u_status (r_user upserted) \<noteq> UserActive then (Inr AccountDisabled, s1)
       else
         andThen (fromStore (st_reservePersonalAgent (au_store opts) (u_id (r_user upserted)) authenticatedAt
                    (env AfterUpsert s1))) (\<lambda>res s2.
           if b_state (rv_binding res) = AgentDisabled then (Inr AccountDisabled, s2)
           else
             (case provisionPersonalAgent opts env inflight
                     \<lparr>pr_user = r_user upserted, pr_binding = rv_binding res, pr_profile = as_profile auth,
                      pr_createdBinding = rv_created res\<rparr> authenticatedAt (env AfterReserve s2) of
                (Inl e, s3) \<Rightarrow> (Inr (ProvisioningFailed (provisioningMessage opts e)), s3)
              | (Inr binding, s3) \<Rightarrow>
                  openSession opts env auth current upserted res binding sessionAt (env BeforeSession s3))))"

definition loginPassword ::
    "('s, 'o) auth_options \<Rightarrow> (await_point \<Rightarrow> 's \<Rightarrow> 's) \<Rightarrow> (string \<Rightarrow> (service_error + agent_binding) option)
      \<Rightarrow> password_credentials \<Rightarrow> request_context option \<Rightarrow> string option \<Rightarrow> int \<Rightarrow> int \<Rightarrow> 's
      \<Rightarrow> (service_error + login_result) \<times> 's" where
  "loginPassword opts env inflight login context current authenticatedAt sessionAt s =
     (case au_authenticate opts login
             (case context of Some c \<Rightarrow> c | None \<Rightarrow> \<lparr>rc_clientIp = None, rc_gatewayUrl = None, rc_userAgent = None\<rparr>) of
        Inl t \<Rightarrow> (Inl (AuthenticatorThrew t), s)
      | Inr (AuthRejected m) \<Rightarrow> (Inr (LoginRejected m), s)
      | Inr (AuthUnavailable m) \<Rightarrow> (Inr (LoginUnavailable m), s)
      | Inr (AuthAccepted auth) \<Rightarrow> loginAuthenticated opts env inflight auth current authenticatedAt sessionAt s)"

section \<open>Authentication and logout\<close>

definition authenticateToken ::
    "('s, 'o) auth_options \<Rightarrow> (await_point \<Rightarrow> 's \<Rightarrow> 's) \<Rightarrow> string \<Rightarrow> bool \<Rightarrow> int \<Rightarrow> 's
      \<Rightarrow> (service_error + authentication_result) \<times> 's" where
  "authenticateToken opts env token touch now s =
     (if token = [] then (Inr (Unauthenticated ExpiredReason), s)
      else
        andThen (fromStore (st_resolveBrowserSession (au_store opts) (au_hash opts token) now touch s)) (\<lambda>r s1.
          (case r of
             ResRevoked _ \<Rightarrow> (Inr (Unauthenticated RevokedReason), s1)
           | ResExpired _ _ \<Rightarrow> (Inr (Unauthenticated ExpiredReason), s1)
           | ResUserDisabled _ _ \<Rightarrow> (Inr (Unauthenticated UserDisabledReason), s1)
           | ResNotFound \<Rightarrow> (Inr AuthNotFound, s1)
           | ResActive e u \<Rightarrow>
               let s2 = env AfterLookup s1 in
               (case st_getPersonalAgentBinding (au_store opts) (u_id u) s2 of
                  Inl err \<Rightarrow> (Inl (StoreThrew err), s2)
                | Inr None \<Rightarrow> (Inr (Unauthenticated AgentUnavailableReason), s2)
                | Inr (Some b) \<Rightarrow> (Inr (AuthActive e u b), s2)))))"

text \<open>\<open>logout\<close> returns whether the session was revoked, with the agent that is told about it, if any.\<close>

definition logout ::
    "('s, 'o) auth_options \<Rightarrow> (await_point \<Rightarrow> 's \<Rightarrow> 's) \<Rightarrow> string \<Rightarrow> int \<Rightarrow> int \<Rightarrow> 's
      \<Rightarrow> (service_error + bool \<times> string option) \<times> 's" where
  "logout opts env token resolvedAt revokedAt s =
     andThen (fromStore (st_resolveBrowserSession (au_store opts) (au_hash opts token) resolvedAt False s)) (\<lambda>r s1.
       (case r of
          ResActive e u \<Rightarrow>
            let s2 = env AfterResolve s1 in
            (case st_getPersonalAgentBinding (au_store opts) (u_id u) s2 of
               Inl err \<Rightarrow> (Inl (StoreThrew err), s2)
             | Inr binding \<Rightarrow>
                 (case st_revokeBrowserSession (au_store opts) (s_id e) revokedAt (env AfterLookup s2) of
                    (None, s3) \<Rightarrow> (Inr (False, None), s3)
                  | (Some _, s3) \<Rightarrow>
                      (Inr (True,
                         case binding of
                           None \<Rightarrow> None
                         | Some b \<Rightarrow> if b_state b = AgentActive \<and> au_onLogout opts then Some (b_agentId b) else None),
                       s3)))
        | _ \<Rightarrow> (Inr (False, None), s1)))"

section \<open>A login gives a session that works\<close>

abbreviation syncAfter ::
    "('s, 'o) auth_options \<Rightarrow> (await_point \<Rightarrow> 's \<Rightarrow> 's) \<Rightarrow> 'o auth_success \<Rightarrow> upsert_result \<Rightarrow> int \<Rightarrow> 's \<Rightarrow> 's" where
  "syncAfter opts env auth upserted at s \<equiv>
     syncDirectoryOrganization opts auth (u_id (r_user upserted)) at (u_lastLoginAt (r_user upserted)) (env BeforeSync s)"

lemma resolveCurrent_active:
  assumes "resolveCurrent opts current at s = (Inr cur, s1)" and "activeSession cur = Some (e, u)"
  obtains c where "current = Some c" "c \<noteq> []"
    "st_resolveBrowserSession (au_store opts) (au_hash opts c) at True s = (Inr (ResActive e u), s1)"
  using assms
  by (auto simp: resolveCurrent_def activeSession_def split: option.splits if_splits throw_splits session_resolution.splits)

lemma openSession_cases [consumes 1, case_names own fresh]:
  assumes "openSession opts env auth current upserted res binding at s = (Inr (LoggedIn r), s')"
  obtains
    (own) c v s1 where "current = Some c"
      "st_resolveBrowserSession (au_store opts) (au_hash opts c) at True s = (Inr (ResActive (ls_session r) v), s1)"
      "u_id v = u_id (r_user upserted)" "ls_token r = c" "s' = syncAfter opts env auth upserted at s1"
  | (fresh) cur s1 s2 s3 where "resolveCurrent opts current at s = (Inr cur, s1)"
      "\<And>e v. activeSession cur = Some (e, v) \<Longrightarrow> u_id v \<noteq> u_id (r_user upserted)"
      "st_createBrowserSession (au_store opts) (u_id (r_user upserted)) (au_hash opts (au_token opts)) at
         (env AfterResolve s1) = (Inr (SessionCreated (ls_session r)), s2)"
      "ls_token r = au_token opts"
      "s3 = (case activeSession cur of None \<Rightarrow> s2
             | Some (e, v) \<Rightarrow> snd (st_revokeBrowserSession (au_store opts) (s_id e) at (env AfterCreate s2)))"
      "s' = syncAfter opts env auth upserted at s3"
proof -
  obtain cur s1 where c: "resolveCurrent opts current at s = (Inr cur, s1)"
    using assms by (auto simp: openSession_def split: throw_splits)
  let ?active = "activeSession cur" and ?uid = "u_id (r_user upserted)"
  show ?thesis
  proof (cases "ownSession ?active ?uid")
    case (Some e)
    then obtain v where a: "?active = Some (e, v)" "u_id v = ?uid"
      by (auto simp: ownSession_def split: option.splits if_splits)
    obtain tok where "current = Some tok" "tok \<noteq> []"
      "st_resolveBrowserSession (au_store opts) (au_hash opts tok) at True s = (Inr (ResActive e v), s1)"
      by (rule resolveCurrent_active [OF c a(1)])
    with own [of tok v s1] assms c Some a(2) show ?thesis
      by (auto simp: openSession_def finishLogin_def Let_def)
  next
    case None
    then have other: "u_id v \<noteq> ?uid" if "?active = Some (e, v)" for e v
      using that by (auto simp: ownSession_def)
    from assms c None obtain e s2 where e:
      "st_createBrowserSession (au_store opts) ?uid (au_hash opts (au_token opts)) at
         (env AfterResolve s1) = (Inr (SessionCreated e), s2)"
      by (auto simp: openSession_def Let_def split: option.splits if_splits throw_splits create_session_result.splits)
    from assms c None e have r: "ls_session r = e" "ls_token r = au_token opts"
      "s' = syncAfter opts env auth upserted at (case ?active of None \<Rightarrow> s2
             | Some (e, v) \<Rightarrow> snd (st_revokeBrowserSession (au_store opts) (s_id e) at (env AfterCreate s2)))"
      by (auto simp: openSession_def finishLogin_def Let_def split: option.splits if_splits)
    show ?thesis by (rule fresh [OF c _ e [folded r(1)] r(2) refl r(3)]) (rule other)
  qed
qed

text \<open>What the environment and the sync keep of a session store.\<close>

definition discreet ::
    "('s \<Rightarrow> bool) \<Rightarrow> (string \<Rightarrow> 's \<Rightarrow> string option) \<Rightarrow> (await_point \<Rightarrow> 's \<Rightarrow> 's) \<Rightarrow> bool" where
  "discreet I tokenOf env \<longleftrightarrow>
     (\<forall>p s. I s \<longrightarrow> I (env p s) \<and> (\<forall>k h. tokenOf k s = Some h \<longrightarrow> tokenOf k (env p s) = Some h))"

definition keepsSessions :: "('s, 'o) auth_options \<Rightarrow> bool" where
  "keepsSessions opts \<longleftrightarrow>
     (\<forall>sync r h t touch s. au_sync opts = Some sync \<longrightarrow>
        fst (st_resolveBrowserSession (au_store opts) h t touch (sync r s))
          = fst (st_resolveBrowserSession (au_store opts) h t touch s))"

text \<open>The token resolves to the session \<open>k\<close> of the user \<open>uid\<close>, active.\<close>

definition resolvesTo :: "'s agent_store \<Rightarrow> string \<Rightarrow> int \<Rightarrow> bool \<Rightarrow> string \<Rightarrow> string \<Rightarrow> 's \<Rightarrow> bool" where
  "resolvesTo S h t touch k uid s \<longleftrightarrow>
     (\<exists>e u. fst (st_resolveBrowserSession S h t touch s) = Inr (ResActive e u) \<and> s_id e = k \<and> u_id u = uid)"

lemma resolvesToE:
  assumes "resolvesTo S h t touch k uid s"
  obtains e u where "fst (st_resolveBrowserSession S h t touch s) = Inr (ResActive e u)" "s_id e = k" "u_id u = uid"
  using assms unfolding resolvesTo_def by blast

lemma resolve_syncAfter:
  assumes "keepsSessions opts"
  shows "fst (st_resolveBrowserSession (au_store opts) h t touch (syncAfter opts env auth upserted at s))
    = fst (st_resolveBrowserSession (au_store opts) h t touch (env BeforeSync s))"
  using assms unfolding keepsSessions_def
  by (auto simp: syncDirectoryOrganization_def split: option.splits)

lemma resolvesTo_syncAfter:
  assumes "keepsSessions opts" and "resolvesTo (au_store opts) h t touch k uid (env BeforeSync s)"
  shows "resolvesTo (au_store opts) h t touch k uid (syncAfter opts env auth upserted at s)"
  using assms(2) unfolding resolvesTo_def resolve_syncAfter [OF assms(1)] .

context session_store
begin

lemma discreetD:
  assumes "discreet I tokenOf env" and "I s"
  shows "I (env p s)" "tokenOf k s = Some h \<Longrightarrow> tokenOf k (env p s) = Some h"
  using assms by (auto simp: discreet_def)

lemma resolveCurrent_state:
  assumes "I s" and "au_store opts = S" and "resolveCurrent opts current at s = (Inr cur, s1)"
  shows "I s1"
  using assms resolve_inv [OF assms(1)]
  by (auto simp: resolveCurrent_def split: option.splits if_splits throw_splits) (metis snd_conv)+

text \<open>
  After a login the token of the session it returns resolves to that session, for the user logged in, unless
  the environment ends the session after its creation.
\<close>

lemma openSession_works:
  assumes "I s" and "au_store opts = S" and "discreet I tokenOf env" and "keepsSessions opts"
    and "trim (au_hash opts (au_token opts)) = au_hash opts (au_token opts)"
    and keep: "\<And>p u. p = AfterCreate \<or> p = BeforeSync \<Longrightarrow> I u
      \<Longrightarrow> resolvesTo S (au_hash opts (ls_token r)) at touch (s_id (ls_session r)) (u_id (r_user upserted)) u
      \<Longrightarrow> resolvesTo S (au_hash opts (ls_token r)) at touch (s_id (ls_session r)) (u_id (r_user upserted)) (env p u)"
    and run: "openSession opts env auth current upserted res binding at s = (Inr (LoggedIn r), s')"
  shows "resolvesTo S (au_hash opts (ls_token r)) at touch (s_id (ls_session r)) (u_id (r_user upserted)) s'"
  using run
proof (cases rule: openSession_cases)
  case (own c v s1)
  have "I s1" using resolve_inv [OF assms(1)] own(2) assms(2) by (metis snd_conv)
  moreover have "resolvesTo S (au_hash opts c) at touch (s_id (ls_session r)) (u_id (r_user upserted)) s1"
    using resolve_again [OF assms(1) own(2) [unfolded assms(2)], of touch] own(3) unfolding resolvesTo_def by metis
  ultimately show ?thesis
    using keep [of BeforeSync s1] resolvesTo_syncAfter [OF assms(4)] own(4,5) assms(2) by simp
next
  case (fresh cur s1 s2 s3)
  let ?h = "au_hash opts (au_token opts)" and ?s = "env AfterResolve s1" and ?k = "s_id (ls_session r)"
  let ?works = "resolvesTo S ?h at touch ?k (u_id (r_user upserted))"
  note keep' = keep [unfolded fresh(4)]
  have s1: "I s1" by (rule resolveCurrent_state [OF assms(1,2) fresh(1)])
  note q = discreetD [OF assms(3) s1]
  have create: "st_createBrowserSession S (u_id (r_user upserted)) ?h at ?s = (Inr (SessionCreated (ls_session r)), s2)"
    using fresh(3) unfolding assms(2) .
  have s2: "I s2" using create_inv [OF q(1)] create by (metis snd_conv)
  have works: "?works s2" using create_resolves [OF q(1) assms(5) create] unfolding resolvesTo_def by blast
  have "I s3 \<and> ?works s3"
  proof (cases "activeSession cur")
    case None
    then show ?thesis using works s2 fresh(5) by simp
  next
    case (Some p)
    then obtain f v where f: "activeSession cur = Some (f, v)" by (cases p) simp
    obtain c where "st_resolveBrowserSession S (au_hash opts c) at True s = (Inr (ResActive f v), s1)"
      by (rule resolveCurrent_active [OF fresh(1) f]) (simp add: assms(2))
    then have "tokenOf (s_id f) ?s = Some (au_hash opts c)"
      using resolve_token [OF assms(1)] q(2) by blast
    then have k: "s_id f \<noteq> ?k" using create_fresh [OF q(1) create] by auto
    have s3: "s3 = snd (st_revokeBrowserSession S (s_id f) at (env AfterCreate s2))"
      using f fresh(5) by (simp add: assms(2))
    have c: "I (env AfterCreate s2)" by (rule discreetD(1) [OF assms(3) s2])
    obtain e u where e: "fst (st_resolveBrowserSession S ?h at touch (env AfterCreate s2)) = Inr (ResActive e u)"
      "s_id e = ?k" "u_id u = u_id (r_user upserted)"
      using keep' [OF _ s2 works] by (blast elim: resolvesToE)
    have "fst (st_resolveBrowserSession S ?h at touch s3) = Inr (ResActive e u)"
      unfolding s3 by (rule revoke_other [OF c _ e(1)]) (simp add: k e(2))
    then show ?thesis using revoke_inv [OF c] e(2,3) unfolding resolvesTo_def s3 by blast
  qed
  then have "resolvesTo (au_store opts) ?h at touch ?k (u_id (r_user upserted)) (env BeforeSync s3)"
    using keep' unfolding assms(2) by blast
  then have "resolvesTo (au_store opts) ?h at touch ?k (u_id (r_user upserted)) s'"
    unfolding fresh(6) by (rule resolvesTo_syncAfter [OF assms(4)])
  then show ?thesis unfolding fresh(4) assms(2) .
qed

text \<open>A session of another user that the browser came with is over after the login.\<close>

lemma openSession_ends_other:
  assumes "I s" and "au_store opts = S" and "discreet I tokenOf env" and "keepsSessions opts"
    and quiet: "\<And>s. env BeforeSync s = s"
    and other: "fst (st_resolveBrowserSession S (au_hash opts c) at True s) = Inr (ResActive f v)"
      "u_id v \<noteq> u_id (r_user upserted)" "c \<noteq> []"
    and run: "openSession opts env auth (Some c) upserted res binding at s = (Inr (LoggedIn r), s')"
  shows "fst (st_resolveBrowserSession S (au_hash opts c) t touch s') \<noteq> Inr (ResActive e u)"
  using run
proof (cases rule: openSession_cases)
  case (own c' w s1)
  then show ?thesis using other(1,2) by (auto simp: assms(2))
next
  case (fresh cur s1 s2 s3)
  from other(1) obtain s0 where r: "st_resolveBrowserSession S (au_hash opts c) at True s = (Inr (ResActive f v), s0)"
    by (metis prod.collapse)
  then have "s0 = s1" "activeSession cur = Some (f, v)"
    using fresh(1) other(3) by (auto simp: resolveCurrent_def assms(2) activeSession_def)
  note this(2) and r [unfolded this(1)]
  note cur = this
  have s1: "I s1" by (rule resolveCurrent_state [OF assms(1,2) fresh(1)])
  note q = discreetD [OF assms(3) s1]
  have tok: "tokenOf (s_id f) (env AfterResolve s1) = Some (au_hash opts c)"
    using resolve_token [OF assms(1) cur(2)] q(2) by blast
  have "snd (st_createBrowserSession S (u_id (r_user upserted)) (au_hash opts (au_token opts)) at (env AfterResolve s1)) = s2"
    using fresh(3) by (simp add: assms(2))
  then have s2: "I s2" "tokenOf (s_id f) s2 = Some (au_hash opts c)"
    using create_inv [OF q(1)] create_tokens [OF q(1) tok] by auto
  have "s3 = snd (st_revokeBrowserSession S (s_id f) at (env AfterCreate s2))"
    using fresh(5) cur(1) by (simp add: assms(2))
  then have "fst (st_resolveBrowserSession S (au_hash opts c) t touch (env BeforeSync s3)) \<noteq> Inr (ResActive e u)"
    using revoke_ends [OF discreetD [OF assms(3) s2(1)], OF s2(2)] quiet by simp
  then show ?thesis unfolding fresh(6) resolve_syncAfter [OF assms(4), unfolded assms(2)] assms(2) .
qed

end

section \<open>The whole login\<close>

lemma provisionPersonal_inflight:
  "inflight (b_id (pr_binding request)) = Some out
    \<Longrightarrow> snd (provisionPersonalAgent opts env inflight request at s) = s"
  by (auto simp: provisionPersonalAgent_def split: sum.splits option.splits)

context binding_store
begin

lemma failProvisioning_inv:
  assumes "I s" and "\<And>p s. I s \<Longrightarrow> I (env p s)"
  shows "I (snd (failProvisioning S env binding at e s))"
proof -
  obtain out s' where t: "st_transitionAgent S (b_id binding) AgentFailed at (Some ''provisioner_error'')
      (env BeforeFailure s) = (out, s')" by force
  have "I s'" using transition_inv [OF assms(2) [OF assms(1)]] t by (metis snd_conv)
  with t assms show ?thesis by (cases out) (auto simp: failProvisioning_def)
qed

lemma tryProvisioning_inv:
  assumes "I s" and env: "\<And>p s. I s \<Longrightarrow> I (env p s)"
  shows "I (snd (tryProvisioning S env provision kindOk msg binding at s))"
proof -
  obtain out s' where t: "st_transitionAgent S (b_id binding) AgentActive at None (env AfterProvision s) = (out, s')"
    by force
  have "I s'" using transition_inv [OF env [OF assms(1)]] t by (metis snd_conv)
  with t assms(1) show ?thesis
    by (cases out) (auto simp: tryProvisioning_def failProvisioning_inv [OF _ env] split: option.splits)
qed

lemma runProvisioning_inv:
  assumes "I s" and env: "\<And>p s. I s \<Longrightarrow> I (env p s)"
  shows "I (snd (runProvisioning S env provision kindOk msg binding at s))"
proof -
  obtain out s' where t: "st_transitionAgent S (b_id binding) Provisioning at None s = (out, s')" by force
  have "I s'" using transition_inv [OF assms(1)] t by (metis snd_conv)
  with t assms(1) show ?thesis
    by (cases out) (auto simp: runProvisioning_def tryProvisioning_inv [OF _ env] env)
qed

lemma provisionPersonal_inv:
  assumes "I s" and "\<And>p s. I s \<Longrightarrow> I (env p s)" and "au_store opts = S"
  shows "I (snd (provisionPersonalAgent opts env inflight request at s))"
  using assms runProvisioning_inv [OF assms(1,2)]
  by (auto simp: provisionPersonalAgent_def runPersonalAgentProvisioning_def split: option.splits sum.splits)

end

text \<open>A login that succeeds ends in \<open>openSession\<close>, for the user the directory named.\<close>

lemma login_cases:
  assumes "loginAuthenticated opts env inflight auth current t0 t1 s = (Inr (LoggedIn r), s')"
  obtains upserted s1 res s2 binding s3 where
    "st_upsertPrincipal (au_store opts) (as_principal auth) t0 s = (Inr upserted, s1)"
    "u_status (r_user upserted) = UserActive"
    "st_reservePersonalAgent (au_store opts) (u_id (r_user upserted)) t0 (env AfterUpsert s1) = (Inr res, s2)"
    "provisionPersonalAgent opts env inflight
       \<lparr>pr_user = r_user upserted, pr_binding = rv_binding res, pr_profile = as_profile auth,
        pr_createdBinding = rv_created res\<rparr> t0 (env AfterReserve s2) = (Inr binding, s3)"
    "openSession opts env auth current upserted res binding t1 (env BeforeSession s3) = (Inr (LoggedIn r), s')"
    "ls_user r = r_user upserted"
proof -
  from assms obtain upserted s1 res s2 binding s3 where *:
    "st_upsertPrincipal (au_store opts) (as_principal auth) t0 s = (Inr upserted, s1)"
    "u_status (r_user upserted) = UserActive"
    "st_reservePersonalAgent (au_store opts) (u_id (r_user upserted)) t0 (env AfterUpsert s1) = (Inr res, s2)"
    "provisionPersonalAgent opts env inflight
       \<lparr>pr_user = r_user upserted, pr_binding = rv_binding res, pr_profile = as_profile auth,
        pr_createdBinding = rv_created res\<rparr> t0 (env AfterReserve s2) = (Inr binding, s3)"
    "openSession opts env auth current upserted res binding t1 (env BeforeSession s3) = (Inr (LoggedIn r), s')"
    by (auto simp: loginAuthenticated_def split: throw_splits if_splits prod.splits sum.splits)
  from *(5) have "ls_user r = r_user upserted"
    by (auto simp: openSession_def finishLogin_def Let_def
        split: throw_splits if_splits option.splits create_session_result.splits)
  with * that show ?thesis by blast
qed

text \<open>The interference of other requests on the in-memory store is discreet.\<close>

lemma requests_discreet:
  "discreet (memInv opts) sessionToken (requestsEnv opts others)"
  using runCalls_memInv runCalls_sessionToken unfolding discreet_def requestsEnv_def by auto

lemma resolvesTo_mem:
  "memInv store s \<Longrightarrow> resolvesTo (memOps store) h t touch k uid s \<longleftrightarrow> liveFor h t k uid s"
  using resolves_liveFor [of store s h t touch k uid] by (simp add: resolvesTo_def memOps_def)

lemma login_openSession_mem:
  assumes "memInv store s" and "au_store opts = memOps store"
    and "loginAuthenticated opts (requestsEnv store others) inflight auth current t0 t1 s = (Inr (LoggedIn r), s')"
  obtains upserted res binding s0 where "memInv store s0" "ls_user r = r_user upserted"
    "openSession opts (requestsEnv store others) auth current upserted res binding t1 s0 = (Inr (LoggedIn r), s')"
  using assms(3)
proof (cases rule: login_cases)
  case (1 upserted s1 res s2 binding s3)
  have env: "memInv store (requestsEnv store others p u)" if "memInv store u" for p u
    using runCalls_memInv [OF that] by (simp add: requestsEnv_def)
  have "memInv store s1"
    using memSessions.upsert_inv [OF assms(1)] 1(1) by (metis assms(2) snd_conv)
  then have "memInv store s2"
    using memBindings.reserve_personal [OF env] 1(3) by (metis assms(2))
  then have "memInv store (requestsEnv store others BeforeSession s3)"
    using memBindings.provisionPersonal_inv [where env = "requestsEnv store others", OF env env assms(2)] 1(4) env
    by (metis snd_conv)
  with that 1(5,6) show ?thesis by blast
qed

section \<open>Properties\<close>

text \<open>
  C4. A login that succeeds gives a token that works: in the store it leaves, the token resolves to the
  session the login returned, active, for the user that was logged in. This holds whatever calls other
  requests make on the store at every point where the login waits; only those made after the session exists
  may not end it, by revoking that session, disabling that account or using that session at an earlier time.
  The sync of the organization, a part of its own, leaves the sessions as they are.
\<close>

theorem login_session_works:
  assumes "reachable store s" and "id_factory (o_idFactory store)"
    and "0 < idleTimeoutMs (o_sessionPolicy store)" and "0 < absoluteTimeoutMs (o_sessionPolicy store)"
    and "au_store opts = memOps store" and "keepsSessions opts"
    and "trim (au_hash opts (au_token opts)) = au_hash opts (au_token opts)"
    and "\<not> list_ex (endsSession (s_id (ls_session r)) (u_id (ls_user r)) (au_hash opts (ls_token r)) t1)
           (others AfterCreate @ others BeforeSync)"
    and "loginAuthenticated opts (requestsEnv store others) inflight auth current t0 t1 s = (Inr (LoggedIn r), s')"
  shows "\<exists>e u. fst (resolveBrowserSession store (au_hash opts (ls_token r)) t1 touch s') = Inr (ResActive e u)
    \<and> s_id e = s_id (ls_session r) \<and> u_id u = u_id (ls_user r)"
proof -
  obtain upserted res binding s0 where o: "memInv store s0" "ls_user r = r_user upserted"
    "openSession opts (requestsEnv store others) auth current upserted res binding t1 s0 = (Inr (LoggedIn r), s')"
    by (rule login_openSession_mem [OF reachable_memInv [OF assms(1-4)] assms(5,9)])
  let ?to = "resolvesTo (memOps store) (au_hash opts (ls_token r)) t1 touch (s_id (ls_session r)) (u_id (r_user upserted))"
  have "?to (requestsEnv store others p u)" if "p = AfterCreate \<or> p = BeforeSync" "memInv store u" "?to u" for p u
    using that assms(8) runCalls_memInv [OF that(2)] runCalls_liveFor [OF that(2)] o(2)
    by (auto simp: requestsEnv_def resolvesTo_mem)
  from memSessions.openSession_works [OF o(1) assms(5) requests_discreet assms(6,7) this o(3)]
  show ?thesis by (simp add: resolvesTo_def memOps_def o(2))
qed

text \<open>
  A browser that logs in as another user loses the session it came with: when the current token
  belongs to an active session of a different user and the login opens a session, the current token
  never resolves as active in the store the login leaves.
\<close>

theorem login_ends_other_session:
  assumes "reachable store s" and "id_factory (o_idFactory store)"
    and "0 < idleTimeoutMs (o_sessionPolicy store)" and "0 < absoluteTimeoutMs (o_sessionPolicy store)"
    and "au_store opts = memOps store" and "keepsSessions opts"
    and "others BeforeSync = []" and "c \<noteq> []"
    and "fst (resolveBrowserSession store (au_hash opts c) at True s) = Inr (ResActive f v)"
    and "u_id v \<noteq> u_id (r_user upserted)"
    and "openSession opts (requestsEnv store others) auth (Some c) upserted res binding at s = (Inr (LoggedIn r), s')"
  shows "fst (resolveBrowserSession store (au_hash opts c) t touch s') \<noteq> Inr (ResActive e u)"
proof -
  have "fst (st_resolveBrowserSession (memOps store) (au_hash opts c) at True s) = Inr (ResActive f v)"
    using assms(9) by (simp add: memOps_def)
  from memSessions.openSession_ends_other [OF reachable_memInv [OF assms(1-4)] assms(5)
      requests_discreet assms(6) _ this assms(10,8,11)] assms(7)
  show ?thesis by (simp add: memOps_def requestsEnv_def)
qed

text \<open>
  Logging out is final: after a logout that returned true, no sequence of calls makes the token
  authenticate again.
\<close>

theorem logout_final:
  assumes "reachable store s" and "id_factory (o_idFactory store)"
    and "0 < idleTimeoutMs (o_sessionPolicy store)" and "0 < absoluteTimeoutMs (o_sessionPolicy store)"
    and "au_store opts = memOps store"
    and "logout opts (requestsEnv store others) token t0 t1 s = (Inr (True, told), s')"
  shows "fst (authenticateToken opts env token touch t (runCalls store cs s')) \<noteq> Inr (AuthActive e u b)"
proof -
  let ?env = "requestsEnv store others" and ?h = "au_hash opts token"
  note inv = reachable_memInv [OF assms(1-4)]
  obtain f v s1 where r: "resolveBrowserSession store ?h t0 False s = (Inr (ResActive f v), s1)"
    and s': "s' = snd (revokeBrowserSession (s_id f) t1 (?env AfterLookup (?env AfterResolve s1)))"
    using assms(6) unfolding logout_def assms(5)
    by (auto simp: memOps_def Let_def split: throw_splits session_resolution.splits sum.splits prod.splits option.splits)
  have s1: "memInv store s1" using memInv_calls(6) [OF inv, of ?h t0 False] r by simp
  have "sessionToken (s_id f) s1 = Some ?h"
    using memSessions.resolve_token [OF inv, of ?h t0 False f v s1] r by (simp add: memOps_def)
  then have "sessionToken (s_id f) (?env AfterLookup (?env AfterResolve s1)) = Some ?h"
    using runCalls_sessionToken runCalls_memInv s1 by (simp add: requestsEnv_def)
  then have "revokedSession (s_id f) ?h s'"
    by (auto simp: s' sessionToken_def revokedSession_def revokeBrowserSession_def Let_def split: option.splits)
  moreover have wf: "wfStore store s'"
    using memInv_calls(7) runCalls_memInv s1 unfolding s' requestsEnv_def memInv_def by blast
  ultimately have "revokedSession (s_id f) ?h (runCalls store cs s')" "wfStore store (runCalls store cs s')"
    using runCalls_revokedSession [OF wf assms(2)] runCalls_wfStore [OF wf assms(2)] by blast+
  then have "fst (resolveBrowserSession store ?h t touch (runCalls store cs s')) \<noteq> Inr (ResActive e u)"
    using revokedSession_not_active by blast
  then show ?thesis
    by (auto simp: authenticateToken_def assms(5) memOps_def Let_def fromStore_def
        split: throw_splits session_resolution.splits sum.splits option.splits prod.splits)
qed

text \<open>
  C21. Provisioning settles the binding it is given, when no other request moves it: it ends active and is
  what the run returns, or the provisioner threw, the error is thrown again and the binding is failed with
  the code \<open>provisioner_error\<close>. A provisioner that does not throw always leads to an active agent.
\<close>

theorem provisioning_settles:
  assumes "reachable store s" and "id_factory (o_idFactory store)"
    and "0 < idleTimeoutMs (o_sessionPolicy store)" and "0 < absoluteTimeoutMs (o_sessionPolicy store)"
    and "au_store opts = memOps store"
    and "mapGet (bindings s) (b_id (pr_binding request)) = Some (pr_binding request)"
    and "ownerPersonal (b_owner (pr_binding request))" and "b_state (pr_binding request) \<noteq> AgentDisabled"
    and "\<And>p. \<not> list_ex (movesBinding (b_id (pr_binding request))) (others p)"
    and "runPersonalAgentProvisioning opts (requestsEnv store others) request at s = (out, s')"
  shows "settled out (mapGet (bindings s') (b_id (pr_binding request)))
    \<and> ((\<forall>b. au_provision opts (request\<lparr>pr_binding := b\<rparr>) = None) \<longrightarrow> (\<exists>b'. out = Inr b'))"
  using memBindings.runProvisioning_settles [OF reachable_memInv [OF assms(1-4)] _ assms(8)
      requests_quiet [OF assms(9)], of ownerPersonal] assms(5-7,10)
  by (auto simp: runPersonalAgentProvisioning_def storedBinding_def)

section \<open>A concrete login\<close>

definition demoProfile :: directory_profile where
  "demoProfile = \<lparr>dp_employeeId = ''E0'', dp_accountId = ''ROOT'', dp_subject = ''root'', dp_displayName = None,
     dp_email = None, dp_department = None, dp_part = None, dp_confluenceSpace = None, dp_notes = None,
     dp_groups = [], dp_attributes = []\<rparr>"

definition rootAuth :: "unit auth_success" where
  "rootAuth = \<lparr>as_principal = root, as_profile = demoProfile, as_org = (), as_isTestAccount = None\<rparr>"

definition demoAuth :: "(mem, unit) auth_options" where
  "demoAuth = \<lparr>au_store = memOps demoOptions, au_authenticate = (\<lambda>_ _. Inr (AuthAccepted rootAuth)),
     au_provision = (\<lambda>_. None), au_hash = (\<lambda>t. t), au_token = ''T1'', au_errorMessage = (\<lambda>_. ''store error''),
     au_onLogout = True, au_sync = None\<rparr>"

lemma demoAuth_simps [simp]:
  "au_store demoAuth = memOps demoOptions" "au_hash demoAuth t = t" "au_token demoAuth = ''T1''"
  "au_provision demoAuth p = None" "keepsSessions demoAuth"
  by (simp_all add: demoAuth_def keepsSessions_def)

lemma demo_trim: "trim ''T1'' = ''T1''"
  by code_simp

text \<open>
  The administrator logs in with the browser of the member, who has a session. Meanwhile the new token is
  used, and after that the member's account is disabled.
\<close>

definition rootOthers :: "await_point \<Rightarrow> call list" where
  "rootOthers p =
     (case p of
        AfterCreate \<Rightarrow> [ResolveBrowserSession ''T1'' 22 True]
      | BeforeSync \<Rightarrow> [SetManagedUserStatus ''user-'' ''user-x'' UserDisabled 23, RevokeBrowserSession ''session-xxx'' 23]
      | _ \<Rightarrow> [])"

definition rootLogin :: "(service_error + login_result) \<times> mem" where
  "rootLogin = loginAuthenticated demoAuth (requestsEnv demoOptions rootOthers) (\<lambda>_. None) rootAuth (Some ''tok'') 20 21
     demoStore"

definition rootSuccess :: login_success where
  "rootSuccess = \<lparr>ls_token = ''T1'',
     ls_session = \<lparr>s_id = ''session-xxxxx'', s_userId = ''user-'', s_tokenHash = ''T1'', s_createdAt = 21,
       s_lastSeenAt = 21, s_idleExpiresAt = 43200021, s_absoluteExpiresAt = 604800021, s_revokedAt = None\<rparr>,
     ls_user = rootUser\<lparr>u_updatedAt := 20, u_lastLoginAt := Some 20\<rparr>,
     ls_binding = \<lparr>b_id = ''binding-xxxx'', b_owner = Personal ''user-'', b_agentId = ''root'', b_state = AgentActive,
       b_createdAt = 20, b_updatedAt = 20, b_failureCode = None\<rparr>,
     ls_createdUser = False, ls_createdBinding = True\<rparr>"

lemma rootLogin_run: "fst rootLogin = Inr (LoggedIn rootSuccess)"
  by code_simp

theorem login_session_works_witness:
  "\<exists>e u. fst (resolveBrowserSession demoOptions ''T1'' 21 True (snd rootLogin)) = Inr (ResActive e u)
    \<and> s_id e = ''session-xxxxx'' \<and> u_id u = ''user-''"
proof -
  have run: "loginAuthenticated demoAuth (requestsEnv demoOptions rootOthers) (\<lambda>_. None) rootAuth (Some ''tok'') 20 21 demoStore
      = (Inr (LoggedIn rootSuccess), snd rootLogin)"
    using rootLogin_run by (simp add: rootLogin_def prod_eq_iff)
  have "\<not> list_ex (endsSession (s_id (ls_session rootSuccess)) (u_id (ls_user rootSuccess))
      (au_hash demoAuth (ls_token rootSuccess)) 21) (rootOthers AfterCreate @ rootOthers BeforeSync)"
    by (simp add: rootSuccess_def rootOthers_def rootUser_def)
  from login_session_works [OF demoReach demo_policy _ _ _ this run, of True] demo_trim show ?thesis
    by (simp add: rootSuccess_def rootUser_def)
qed

definition rootUpserted :: upsert_result where
  "rootUpserted = \<lparr>r_user = rootUser,
     r_identity = \<lparr>i_provider = Ldap, i_subject = ''root'', i_userId = ''user-'', i_employeeId = ''e0'', i_createdAt = 5,
       i_lastAuthenticatedAt = 5\<rparr>, r_createdUser = False, r_createdIdentity = False\<rparr>"

definition rootOpen :: "(service_error + login_result) \<times> mem" where
  "rootOpen = openSession demoAuth (requestsEnv demoOptions (\<lambda>_. [])) rootAuth (Some ''tok'') rootUpserted
     \<lparr>rv_binding = annActive, rv_created = False\<rparr> annActive 20 demoStore"

definition rootOpened :: login_success where
  "rootOpened = (case fst rootOpen of Inr (LoggedIn r) \<Rightarrow> r | _ \<Rightarrow> rootSuccess)"

lemma rootOpen_run: "fst rootOpen = Inr (LoggedIn rootOpened)"
  by code_simp

definition annSession20 :: browser_session where
  "annSession20 = annSession\<lparr>s_lastSeenAt := 20, s_idleExpiresAt := 43200020\<rparr>"

lemma annSession_resolves:
  "fst (resolveBrowserSession demoOptions ''tok'' 20 True demoStore) = Inr (ResActive annSession20 annMember)"
  by code_simp

theorem login_ends_other_session_witness:
  "fst (resolveBrowserSession demoOptions ''tok'' 22 True (snd rootOpen)) \<noteq> Inr (ResActive annSession20 annMember)"
proof -
  have "openSession demoAuth (requestsEnv demoOptions (\<lambda>_. [])) rootAuth (Some ''tok'') rootUpserted
     \<lparr>rv_binding = annActive, rv_created = False\<rparr> annActive 20 demoStore = (Inr (LoggedIn rootOpened), snd rootOpen)"
    using rootOpen_run by (simp add: rootOpen_def prod_eq_iff)
  moreover have "u_id annMember \<noteq> u_id (r_user rootUpserted)" by code_simp
  ultimately show ?thesis
    using login_ends_other_session [OF demoReach demo_policy, where opts = demoAuth and c = "''tok''"] annSession_resolves
    by simp
qed

definition annLogout :: "(service_error + bool \<times> string option) \<times> mem" where
  "annLogout = logout demoAuth (requestsEnv demoOptions (\<lambda>_. [])) ''tok'' 20 21 demoStore"

lemma annLogout_run: "fst annLogout = Inr (True, Some ''ann'')"
  by code_simp

theorem logout_final_witness:
  "fst (authenticateToken demoAuth (\<lambda>_ s. s) ''tok'' True 23
      (runCalls demoOptions [ResolveBrowserSession ''tok'' 22 True] (snd annLogout))) \<noteq> Inr (AuthActive annSession annMember annActive)"
proof -
  have "logout demoAuth (requestsEnv demoOptions (\<lambda>_. [])) ''tok'' 20 21 demoStore
      = (Inr (True, Some ''ann''), snd annLogout)"
    using annLogout_run by (simp add: annLogout_def prod_eq_iff)
  from logout_final [OF demoReach demo_policy demoAuth_simps(1) this] show ?thesis by blast
qed

definition annRequest :: provisioning_request where
  "annRequest = \<lparr>pr_user = annMember, pr_binding = annActive, pr_profile = demoProfile, pr_createdBinding = False\<rparr>"

definition annRefresh :: "(service_error + agent_binding) \<times> mem" where
  "annRefresh = runPersonalAgentProvisioning (demoAuth\<lparr>au_provision := \<lambda>_. Some OtherThrown\<rparr>)
     (requestsEnv demoOptions (\<lambda>_. [])) annRequest 20 demoStore"

theorem provisioning_settles_witness:
  "settled (fst annRefresh) (mapGet (bindings (snd annRefresh)) ''binding-xx'')
    \<and> fst annRefresh = Inl (ProvisionerThrew OtherThrown)"
proof -
  have req: "pr_binding annRequest = annActive" "b_id annActive = ''binding-xx''" "ownerPersonal (b_owner annActive)"
    "b_state annActive \<noteq> AgentDisabled"
    by (simp_all add: annRequest_def annActive_def ownerPersonal_def)
  have run: "runPersonalAgentProvisioning (demoAuth\<lparr>au_provision := \<lambda>_. Some OtherThrown\<rparr>)
     (requestsEnv demoOptions (\<lambda>_. [])) annRequest 20 demoStore = (fst annRefresh, snd annRefresh)"
    by (simp add: annRefresh_def)
  have "fst annRefresh = Inl (ProvisionerThrew OtherThrown)" by code_simp
  with provisioning_settles [OF demoReach demo_policy _ _ _ _ _ run] show ?thesis
    by (simp add: req demo_gets)
qed

end
