(* ===== verification/KnoxRouting.thy ===== *)
theory KnoxRouting
  imports Provisioning
begin

text \<open>
  Knox messenger routing (\<open>knox-routing-service.ts\<close>): a direct message goes to the personal agent of the
  sender's account, a room message to the agent of the room, which is provisioned on demand. The
  provisioner and the session key builder are parameters.
\<close>

section \<open>Operations\<close>

datatype conversation_type = DirectMessage | RoomMessage

record knox_request =
  kr_accountId :: string
  kr_conversationType :: conversation_type
  kr_conversationId :: string
  kr_knoxUserId :: string

datatype knox_route =
    KnoxResolved string string bool "execution_target option"
  | LoginRequired
  | RoomDisabled
  | KnoxAgentUnavailable

record 's knox_options =
  ko_store :: "'s agent_store"
  ko_provision :: "agent_binding \<Rightarrow> thrown option"
  ko_mainSessionKey :: "string \<Rightarrow> string"

definition ownerRoom :: "binding_owner \<Rightarrow> bool" where
  "ownerRoom owner \<longleftrightarrow> (case owner of Personal _ \<Rightarrow> False | KnoxRoom _ _ \<Rightarrow> True)"

definition isActivePersonalAgent :: "'s knox_options \<Rightarrow> string \<Rightarrow> 's \<Rightarrow> bool" where
  "isActivePersonalAgent opts agentId s =
     list_ex (\<lambda>b. b_agentId b = agentId \<and> \<not> ownerRoom (b_owner b))
       (st_listAgentBindingsByState (ko_store opts) AgentActive s)"

definition requireValue :: "string \<Rightarrow> string \<Rightarrow> service_error + string" where
  "requireValue value field =
     (let normalized = trim value in
      if normalized = [] then Inl (ServiceError (field @ '' is required'')) else Inr normalized)"

definition runRoomProvisioning ::
    "'s knox_options \<Rightarrow> (await_point \<Rightarrow> 's \<Rightarrow> 's) \<Rightarrow> string \<Rightarrow> string \<Rightarrow> int \<Rightarrow> 's
      \<Rightarrow> (service_error + agent_binding) \<times> 's" where
  "runRoomProvisioning opts env accountId roomId changedAt s =
     andThen (fromStore (st_reserveKnoxRoomAgent (ko_store opts) accountId roomId changedAt s)) (\<lambda>res s1.
       if b_state (rv_binding res) = AgentDisabled then (Inr (rv_binding res), s1)
       else runProvisioning (ko_store opts) env (ko_provision opts) ownerRoom
              ''Knox room binding changed kind'' (rv_binding res) changedAt (env AfterReserve s1))"

text \<open>A message that arrives while its room is being provisioned waits for that run.\<close>

definition provisionRoom ::
    "'s knox_options \<Rightarrow> (await_point \<Rightarrow> 's \<Rightarrow> 's) \<Rightarrow> (string \<Rightarrow> (service_error + agent_binding) option)
      \<Rightarrow> string \<Rightarrow> string \<Rightarrow> int \<Rightarrow> 's \<Rightarrow> (service_error + agent_binding) \<times> 's" where
  "provisionRoom opts env inflight accountId roomId changedAt s =
     (case inflight (roomKey accountId roomId) of
        Some out \<Rightarrow> (out, s)
      | None \<Rightarrow> runRoomProvisioning opts env accountId roomId changedAt s)"

definition isActiveUser :: "platform_user option \<Rightarrow> bool" where
  "isActiveUser user \<longleftrightarrow> (case user of None \<Rightarrow> False | Some u \<Rightarrow> u_status u = UserActive)"

definition resolveKnox ::
    "'s knox_options \<Rightarrow> (await_point \<Rightarrow> 's \<Rightarrow> 's) \<Rightarrow> (string \<Rightarrow> (service_error + agent_binding) option)
      \<Rightarrow> knox_request \<Rightarrow> int \<Rightarrow> 's \<Rightarrow> (service_error + knox_route) \<times> 's" where
  "resolveKnox opts env inflight request now s =
     orThrow (requireValue (kr_accountId request) ''accountId'') s (\<lambda>accountId.
     orThrow (requireValue (kr_conversationId request) ''conversationId'') s (\<lambda>conversationId.
     orThrow (requireValue (kr_knoxUserId request) ''knoxUserId'') s (\<lambda>knoxUserId.
       if kr_conversationType request = DirectMessage
       then
         (case st_resolveAuthenticatedKnoxDmRoute (ko_store opts) knoxUserId s of
            DmUserNotFound \<Rightarrow> (Inr LoginRequired, s)
          | DmAgentUnavailable \<Rightarrow> (Inr KnoxAgentUnavailable, s)
          | DmResolved u binding sessionKey target \<Rightarrow>
              (Inr (KnoxResolved (b_agentId binding) sessionKey True (Some target)), s))
       else
         andThen (provisionRoom opts env inflight accountId conversationId now s) (\<lambda>binding s1.
           if b_state binding = AgentDisabled then (Inr RoomDisabled, s1)
           else if b_state binding \<noteq> AgentActive then (Inr KnoxAgentUnavailable, s1)
           else
             let s2 = env AfterLookup s1;
                 sender = st_getUserByAccountId (ko_store opts) knoxUserId s2
             in (Inr (KnoxResolved (b_agentId binding) (ko_mainSessionKey opts (b_agentId binding))
                        (isActiveUser sender) None), s2)))))"

section \<open>What a room message gets\<close>

definition roomOf :: "string \<Rightarrow> string \<Rightarrow> binding_owner \<Rightarrow> bool" where
  "roomOf accountId roomId owner \<longleftrightarrow> (\<exists>a r. owner = KnoxRoom a r \<and> roomKey a r = roomKey (trim accountId) (trim roomId))"

lemma roomOf_room: "roomOf acct room owner \<Longrightarrow> ownerRoom owner"
  by (auto simp: roomOf_def ownerRoom_def)

context binding_store
begin

lemma runRoom_cases:
  assumes "I s" and "ko_store opts = S"
    and run: "runRoomProvisioning opts env acct room at s = (Inr b, s')"
  obtains (disabled) "I s'" "stored (b_id b) s' = Some b" "b_state b = AgentDisabled" "roomOf acct room (b_owner b)"
  | (ran) b0 s1 where "I s1" "stored (b_id b0) s1 = Some b0" "b_state b0 \<noteq> AgentDisabled" "roomOf acct room (b_owner b0)"
      "runProvisioning S env (ko_provision opts) ownerRoom ''Knox room binding changed kind'' b0 at (env AfterReserve s1)
         = (Inr b, s')"
proof -
  from run obtain res s1 where res: "st_reserveKnoxRoomAgent S acct room at s = (Inr res, s1)"
    by (auto simp: runRoomProvisioning_def assms(2) split: throw_splits)
  from reserve_room [OF assms(1) res] have s1: "I s1" "stored (b_id (rv_binding res)) s1 = Some (rv_binding res)"
    "roomOf acct room (b_owner (rv_binding res))"
    by (auto simp: roomOf_def)
  show ?thesis
  proof (cases "b_state (rv_binding res) = AgentDisabled")
    case True
    with run res s1 show ?thesis by (intro disabled) (auto simp: runRoomProvisioning_def assms(2))
  next
    case False
    with run res s1 show ?thesis by (intro ran [of s1 "rv_binding res"]) (auto simp: runRoomProvisioning_def assms(2))
  qed
qed

text \<open>Whatever other requests do, a run gives the binding of the room, active or disabled.\<close>

lemma runRoom_gives:
  assumes "I s" and "ko_store opts = S" and "lasting I stored env"
    and run: "runRoomProvisioning opts env acct room at s = (Inr b, s')"
  shows "I s' \<and> heldBy stored (b_id b) (b_owner b) (b_agentId b) s'
    \<and> (b_state b = AgentActive \<or> b_state b = AgentDisabled) \<and> roomOf acct room (b_owner b)"
  using assms(1,2) run
proof (cases rule: runRoom_cases)
  case disabled
  then show ?thesis by (simp add: heldBy_def)
next
  case (ran b0 s1)
  have "heldBy stored (b_id b0) (b_owner b0) (b_agentId b0) s1" using ran(2) by (simp add: heldBy_def)
  note q = lasting_held [OF assms(3) ran(1) this, of AfterReserve]
  from runProvisioning_held [OF conjunct1 [OF q] conjunct2 [OF q] assms(3) ran(3,5)] ran(4) show ?thesis by simp
qed

text \<open>When nothing else moves that binding, the store holds it as it was given.\<close>

lemma runRoom_settles:
  assumes "I s" and "ko_store opts = S" and "lasting I stored env" and "quiet I stored (b_id b) env"
    and run: "runRoomProvisioning opts env acct room at s = (Inr b, s')"
  shows "stored (b_id b) s' = Some b"
  using assms(1,2) run
proof (cases rule: runRoom_cases)
  case (ran b0 s1)
  have "heldBy stored (b_id b0) (b_owner b0) (b_agentId b0) s1" using ran(2) by (simp add: heldBy_def)
  note q = lasting_held [OF assms(3) ran(1) this, of AfterReserve]
  from runProvisioning_held [OF conjunct1 [OF q] conjunct2 [OF q] assms(3) ran(3,5)]
  have same: "b_id b = b_id b0" by blast
  note quiet = assms(4) [unfolded same]
  from quietD [OF quiet ran(1,2), of AfterReserve] have s2: "I (env AfterReserve s1)" "stored (b_id b0) (env AfterReserve s1) = Some b0"
    by simp_all
  from runProvisioning_settles [OF s2 ran(3) quiet roomOf_room [OF ran(4)] ran(5)] same show ?thesis
    by (simp add: settled_def)
qed

end

section \<open>Properties\<close>

lemma room_request_cases:
  assumes "resolveKnox opts env inflight request now s = (Inr route, s')"
    and "kr_conversationType request = RoomMessage"
  obtains b s1 where
    "provisionRoom opts env inflight (trim (kr_accountId request)) (trim (kr_conversationId request)) now s = (Inr b, s1)"
    "b_state b = AgentDisabled \<longrightarrow> route = RoomDisabled \<and> s' = s1"
    "b_state b = AgentActive \<longrightarrow> s' = env AfterLookup s1 \<and> route = KnoxResolved (b_agentId b)
       (ko_mainSessionKey opts (b_agentId b))
       (isActiveUser (st_getUserByAccountId (ko_store opts) (trim (kr_knoxUserId request)) s')) None"
  using assms
  by (auto simp: resolveKnox_def requireValue_def Let_def split: throw_splits if_splits)

text \<open>
  A run for a room, made on a reached store, among the calls \<open>others\<close>, gave \<open>out\<close>; the calls \<open>cs\<close> later the
  store is \<open>s\<close>.
\<close>

definition roomFlight ::
    "store_options \<Rightarrow> mem knox_options \<Rightarrow> string \<Rightarrow> string \<Rightarrow> (await_point \<Rightarrow> call list) \<Rightarrow> call list
      \<Rightarrow> service_error + agent_binding \<Rightarrow> mem \<Rightarrow> bool" where
  "roomFlight store opts acct room others cs out s \<longleftrightarrow>
     (\<exists>s0 t s1. reachable store s0 \<and> runRoomProvisioning opts (requestsEnv store others) (trim acct) (trim room) t s0 = (out, s1)
        \<and> s = runCalls store cs s1)"

lemma roomOf_key:
  "roomKey (trim acct) (trim room) = roomKey (trim acct') (trim room') \<Longrightarrow> roomOf (trim acct) (trim room) ow
    \<Longrightarrow> roomOf acct' room' ow"
  by (simp add: roomOf_def)

lemma roomFlight_gives:
  assumes "roomFlight store opts acct room others cs (Inr b) s" and "ko_store opts = memOps store"
    and "id_factory (o_idFactory store)"
    and "0 < idleTimeoutMs (o_sessionPolicy store)" and "0 < absoluteTimeoutMs (o_sessionPolicy store)"
  shows "memInv store s" "heldBy storedBinding (b_id b) (b_owner b) (b_agentId b) s"
    "b_state b = AgentActive \<or> b_state b = AgentDisabled" "roomOf (trim acct) (trim room) (b_owner b)"
    "(\<And>p. \<not> list_ex (movesBinding (b_id b)) (others p)) \<Longrightarrow> \<not> list_ex (movesBinding (b_id b)) cs
      \<Longrightarrow> storedBinding (b_id b) s = Some b"
proof -
  let ?env = "requestsEnv store others"
  obtain s0 t s1 where run: "reachable store s0" "runRoomProvisioning opts ?env (trim acct) (trim room) t s0 = (Inr b, s1)"
    and s: "s = runCalls store cs s1" using assms(1) by (auto simp: roomFlight_def)
  note inv = reachable_memInv [OF run(1) assms(3-5)]
  from memBindings.runRoom_gives [OF inv assms(2) requests_lasting run(2)]
  have b: "memInv store s1" "heldBy storedBinding (b_id b) (b_owner b) (b_agentId b) s1"
    "b_state b = AgentActive \<or> b_state b = AgentDisabled" "roomOf (trim acct) (trim room) (b_owner b)" by blast+
  then show "b_state b = AgentActive \<or> b_state b = AgentDisabled" "roomOf (trim acct) (trim room) (b_owner b)" by blast+
  show "memInv store s" unfolding s by (rule runCalls_memInv [OF b(1)])
  show "heldBy storedBinding (b_id b) (b_owner b) (b_agentId b) s"
    using b(2) runCalls_keepsOwner [OF b(1), of "b_id b" _ cs] unfolding s heldBy_def by metis
  assume "\<And>p. \<not> list_ex (movesBinding (b_id b)) (others p)" and cs: "\<not> list_ex (movesBinding (b_id b)) cs"
  then have "storedBinding (b_id b) s1 = Some b"
    using memBindings.runRoom_settles [OF inv assms(2) requests_lasting requests_quiet run(2)] by blast
  then show "storedBinding (b_id b) s = Some b" unfolding s by (rule runCalls_storedBinding [OF b(1) _ cs])
qed

text \<open>
  C22. A room message that is routed goes to the agent of its room, whatever other requests do meanwhile:
  the store then holds the binding of the room of that account, and the message was either refused because
  the room is disabled, or sent to the agent of that binding, marked as linked exactly when the sender's
  account is an active user. This covers the message that arrives while its room is being provisioned and waits
  for that run: its route is the one of the run it joined. When no other request moves that binding, the store
  also holds it in the state the message was routed by, disabled or active, never half provisioned.
\<close>

theorem knox_room_routed:
  assumes "reachable store s" and "id_factory (o_idFactory store)"
    and "0 < idleTimeoutMs (o_sessionPolicy store)" and "0 < absoluteTimeoutMs (o_sessionPolicy store)"
    and "ko_store opts = memOps store" and "kr_conversationType request = RoomMessage"
    and "roomKey (trim (kr_accountId request)) (trim (kr_conversationId request)) = roomKey (trim acct) (trim room)"
    and "\<And>out. inflight (roomKey (trim acct) (trim room)) = Some out \<Longrightarrow> roomFlight store opts acct room others' cs out s"
    and "resolveKnox opts (requestsEnv store others) inflight request now s = (Inr route, s')"
  shows "\<exists>b b'. roomOf (kr_accountId request) (kr_conversationId request) (b_owner b)
    \<and> (b_state b = AgentDisabled \<and> route = RoomDisabled
       \<or> b_state b = AgentActive \<and> route = KnoxResolved (b_agentId b) (ko_mainSessionKey opts (b_agentId b))
           (isActiveUser (getUserByAccountId (trim (kr_knoxUserId request)) s')) None)
    \<and> mapGet (bindings s') (b_id b) = Some b' \<and> b_owner b' = b_owner b \<and> b_agentId b' = b_agentId b
    \<and> ((\<forall>p. \<not> list_ex (movesBinding (b_id b)) (others p @ others' p @ cs)) \<longrightarrow> b' = b)"
proof -
  let ?env = "requestsEnv store others" and ?acct = "trim (kr_accountId request)" and ?room = "trim (kr_conversationId request)"
  obtain b s1 where b: "provisionRoom opts ?env inflight ?acct ?room now s = (Inr b, s1)"
    "b_state b = AgentDisabled \<longrightarrow> route = RoomDisabled \<and> s' = s1"
    "b_state b = AgentActive \<longrightarrow> s' = ?env AfterLookup s1 \<and> route = KnoxResolved (b_agentId b)
       (ko_mainSessionKey opts (b_agentId b))
       (isActiveUser (st_getUserByAccountId (ko_store opts) (trim (kr_knoxUserId request)) s')) None"
    by (rule room_request_cases [OF assms(9,6)])
  have "\<exists>a r ds es. roomKey (trim a) (trim r) = roomKey ?acct ?room \<and> roomFlight store opts a r ds es (Inr b) s1
      \<and> (ds = others \<and> es = [] \<or> ds = others' \<and> es = cs)"
  proof (cases "inflight (roomKey ?acct ?room)")
    case None
    with b(1) have "runRoomProvisioning opts ?env ?acct ?room now s = (Inr b, s1)" by (simp add: provisionRoom_def)
    then have "roomFlight store opts (kr_accountId request) (kr_conversationId request) others [] (Inr b) s1"
      using assms(1) by (auto simp: roomFlight_def)
    then show ?thesis by blast
  next
    case (Some out)
    then have "out = Inr b" "s1 = s" using b(1) by (simp_all add: provisionRoom_def)
    then show ?thesis using assms(8) [of out] Some assms(7) by metis
  qed
  then obtain a r ds es where f: "roomKey (trim a) (trim r) = roomKey ?acct ?room" "roomFlight store opts a r ds es (Inr b) s1"
    "ds = others \<and> es = [] \<or> ds = others' \<and> es = cs" by blast
  note gives = roomFlight_gives [OF f(2) assms(5,2,3,4)]
  have later: "s' = s1 \<or> s' = ?env AfterLookup s1" using gives(3) b(2,3) by blast
  have "heldBy storedBinding (b_id b) (b_owner b) (b_agentId b) s'"
    using later lasting_held [OF requests_lasting gives(1,2)] gives(2) by blast
  then obtain b' where b': "storedBinding (b_id b) s' = Some b'" "b_owner b' = b_owner b" "b_agentId b' = b_agentId b"
    unfolding heldBy_def by blast
  have "b' = b" if "\<forall>p. \<not> list_ex (movesBinding (b_id b)) (others p @ others' p @ cs)"
  proof -
    from that f(3) have "storedBinding (b_id b) s1 = Some b" by (intro gives(5)) auto
    moreover from that have "quiet (memInv store) storedBinding (b_id b) ?env" by (intro requests_quiet) simp
    ultimately have "storedBinding (b_id b) s' = Some b" using later gives(1) unfolding quiet_def by metis
    with b'(1) show ?thesis by simp
  qed
  moreover have "roomOf (kr_accountId request) (kr_conversationId request) (b_owner b)"
    by (rule roomOf_key [OF f(1) gives(4)])
  ultimately show ?thesis
    using gives(3) b(2,3) b' assms(5) unfolding storedBinding_def memOps_def by auto
qed

section \<open>A concrete request\<close>

definition demoKnox :: "mem knox_options" where
  "demoKnox = \<lparr>ko_store = memOps demoOptions, ko_provision = (\<lambda>_. None),
     ko_mainSessionKey = (\<lambda>agentId. ''agent:'' @ agentId @ '':main'')\<rparr>"

definition demoRoom :: knox_request where
  "demoRoom = \<lparr>kr_accountId = ''bot '', kr_conversationType = RoomMessage, kr_conversationId = ''R1'', kr_knoxUserId = ''Ann''\<rparr>"

text \<open>The message joins a run for the same room that began before it; the session is used in between.\<close>

definition demoFlight :: "(service_error + agent_binding) \<times> mem" where
  "demoFlight = runRoomProvisioning demoKnox (requestsEnv demoOptions (\<lambda>_. [])) (trim ''bot'') (trim ''R1'') 30 demoStore"

definition demoRouted :: "(service_error + knox_route) \<times> mem" where
  "demoRouted = resolveKnox demoKnox (requestsEnv demoOptions (\<lambda>_. [])) (\<lambda>_. Some (fst demoFlight)) demoRoom 31
     (runCalls demoOptions [ResolveBrowserSession ''tok'' 31 True] (snd demoFlight))"

lemma demoFlight_calls:
  "snd demoFlight = runCalls demoOptions
     [ReserveKnoxRoomAgent ''bot'' ''R1'' 30, TransitionAgent ''binding-xxxx'' AgentActive 30 None] demoStore"
  by code_simp

lemma demoRouted_run: "fst demoRouted = Inr (KnoxResolved ''group-r1'' ''agent:group-r1:main'' True None)"
  by code_simp

theorem knox_room_routed_witness:
  "\<exists>b. mapGet (bindings (snd demoRouted)) (b_id b) = Some b \<and> roomOf ''bot '' ''R1'' (b_owner b)
    \<and> b_state b = AgentActive \<and> b_agentId b = ''group-r1''"
proof -
  let ?cs = "[ResolveBrowserSession ''tok'' 31 True]"
  have run: "resolveKnox demoKnox (requestsEnv demoOptions (\<lambda>_. [])) (\<lambda>_. Some (fst demoFlight)) demoRoom 31
      (runCalls demoOptions ?cs (snd demoFlight)) = (Inr (KnoxResolved ''group-r1'' ''agent:group-r1:main'' True None), snd demoRouted)"
    using demoRouted_run by (simp add: demoRouted_def prod_eq_iff)
  have knox: "ko_store demoKnox = memOps demoOptions" "kr_conversationType demoRoom = RoomMessage"
    "kr_accountId demoRoom = ''bot ''" "kr_conversationId demoRoom = ''R1''"
    by (simp_all add: demoKnox_def demoRoom_def)
  have flight: "roomFlight demoOptions demoKnox ''bot'' ''R1'' (\<lambda>_. []) ?cs (fst demoFlight) (runCalls demoOptions ?cs (snd demoFlight))"
    unfolding roomFlight_def demoFlight_def by (metis demoReach(1) prod.collapse)
  have key: "roomKey (trim (kr_accountId demoRoom)) (trim (kr_conversationId demoRoom)) = roomKey (trim ''bot'') (trim ''R1'')"
    by code_simp
  have reach: "reachable demoOptions (runCalls demoOptions ?cs (snd demoFlight))"
    unfolding demoFlight_calls by (intro reachable_runCalls demoReach(1))
  obtain b b' where b: "roomOf ''bot '' ''R1'' (b_owner b)"
    "b_state b = AgentDisabled \<and> KnoxResolved ''group-r1'' ''agent:group-r1:main'' True None = RoomDisabled
       \<or> b_state b = AgentActive \<and> KnoxResolved ''group-r1'' ''agent:group-r1:main'' True None
         = KnoxResolved (b_agentId b) (ko_mainSessionKey demoKnox (b_agentId b))
           (isActiveUser (getUserByAccountId (trim (kr_knoxUserId demoRoom)) (snd demoRouted))) None"
    "mapGet (bindings (snd demoRouted)) (b_id b) = Some b'"
    "(\<forall>p. \<not> list_ex (movesBinding (b_id b)) ([] @ [] @ ?cs)) \<longrightarrow> b' = b"
    using knox_room_routed [OF reach demoReach(2) demo_policy knox(1,2) key _ run, of "\<lambda>_. []" ?cs] flight
    unfolding knox(3,4) by blast
  then show ?thesis by auto
qed

end
