(* ===== verification/RestartReconciler.thy ===== *)
theory RestartReconciler
  imports Provisioning
begin

text \<open>
  Recovery after a restart (\<open>restart-reconciler.ts\<close>), which runs before the public ingress accepts
  requests: every binding left half provisioned, and every active personal agent, is checked against the
  gateway and settled. The gateway probe is a parameter; \<open>now n\<close> is the reading of the clock in the
  \<open>n\<close>-th round.
\<close>

section \<open>Operations\<close>

datatype recovery_result = RecoveryActive | RetryRequired | RecoveryConflict

definition recoveryReason :: "recovery_result \<Rightarrow> string" where
  "recoveryReason r =
     (case r of RecoveryActive \<Rightarrow> [] | RetryRequired \<Rightarrow> ''profile-missing'' | RecoveryConflict \<Rightarrow> ''profile-mismatch'')"

record recovery_summary =
  sm_found :: int
  sm_activated :: int
  sm_failed :: int
  sm_disabled :: int

record 's reconcile_options =
  ro_store :: "'s agent_store"
  ro_probe :: "platform_user \<Rightarrow> agent_binding \<Rightarrow> thrown + recovery_result"

definition failBinding ::
    "'s reconcile_options \<Rightarrow> string \<Rightarrow> int \<Rightarrow> string \<Rightarrow> 's \<Rightarrow> (service_error + agent_binding) \<times> 's" where
  "failBinding opts bindingId changedAt failureCode s =
     fromStore (st_transitionAgent (ro_store opts) bindingId AgentFailed changedAt (Some failureCode) s)"

text \<open>One round of the loop.\<close>

definition reconcileOne ::
    "'s reconcile_options \<Rightarrow> agent_binding \<Rightarrow> int \<Rightarrow> recovery_summary \<Rightarrow> 's \<Rightarrow> (service_error + recovery_summary) \<times> 's" where
  "reconcileOne opts binding changedAt summary s =
     (case b_owner binding of
        KnoxRoom _ _ \<Rightarrow>
          andThen (failBinding opts (b_id binding) changedAt ''restart_room_runtime_pending'' s) (\<lambda>_ s1.
            (Inr (summary\<lparr>sm_failed := sm_failed summary + 1\<rparr>), s1))
      | Personal userId \<Rightarrow>
          (case st_getUserById (ro_store opts) userId s of
             None \<Rightarrow>
               (Inl (ServiceError (''personal agent owner missing during restart recovery: '' @ b_id binding)), s)
           | Some user \<Rightarrow>
               if u_status user = UserDisabled then
                 andThen (fromStore (st_transitionAgent (ro_store opts) (b_id binding) AgentDisabled changedAt None s))
                   (\<lambda>_ s1. (Inr (summary\<lparr>sm_disabled := sm_disabled summary + 1\<rparr>), s1))
               else
                 (case ro_probe opts user binding of
                    Inl t \<Rightarrow> (Inl (ProvisionerThrew t), s)
                  | Inr result \<Rightarrow>
                      if result = RecoveryActive then
                        if b_state binding = Provisioning then
                          andThen (fromStore (st_transitionAgent (ro_store opts) (b_id binding) AgentActive changedAt None s))
                            (\<lambda>_ s1. (Inr (summary\<lparr>sm_activated := sm_activated summary + 1\<rparr>), s1))
                        else (Inr summary, s)
                      else
                        andThen (failBinding opts (b_id binding) changedAt
                            (''restart_'' @ replaceChar (CHR ''-'') (CHR ''_'') (recoveryReason result)) s) (\<lambda>_ s1.
                          (Inr (summary\<lparr>sm_failed := sm_failed summary + 1\<rparr>), s1)))))"

fun reconcileLoop ::
    "'s reconcile_options \<Rightarrow> (nat \<Rightarrow> int) \<Rightarrow> nat \<Rightarrow> agent_binding list \<Rightarrow> recovery_summary \<Rightarrow> 's
      \<Rightarrow> (service_error + recovery_summary) \<times> 's" where
  "reconcileLoop opts now n [] summary s = (Inr summary, s)"
| "reconcileLoop opts now n (binding # rest) summary s =
     andThen (reconcileOne opts binding (now n) summary s) (\<lambda>summary1 s1.
       reconcileLoop opts now (Suc n) rest summary1 s1)"

definition isPersonalBinding :: "agent_binding \<Rightarrow> bool" where
  "isPersonalBinding b \<longleftrightarrow> (case b_owner b of Personal _ \<Rightarrow> True | KnoxRoom _ _ \<Rightarrow> False)"

definition recoveryBindings :: "'s reconcile_options \<Rightarrow> 's \<Rightarrow> agent_binding list" where
  "recoveryBindings opts s =
     st_listAgentBindingsByState (ro_store opts) Provisioning s
       @ filter isPersonalBinding (st_listAgentBindingsByState (ro_store opts) AgentActive s)"

definition reconcile :: "'s reconcile_options \<Rightarrow> (nat \<Rightarrow> int) \<Rightarrow> 's \<Rightarrow> (service_error + recovery_summary) \<times> 's" where
  "reconcile opts now s =
     (let found = recoveryBindings opts s in
      reconcileLoop opts now 0 found
        \<lparr>sm_found = int (length found), sm_activated = 0, sm_failed = 0, sm_disabled = 0\<rparr> s)"

section \<open>The verdict on a binding\<close>

text \<open>Which bindings are checked, and the state each of them ends in.\<close>

definition needsRecovery :: "agent_binding \<Rightarrow> bool" where
  "needsRecovery b \<longleftrightarrow> b_state b = Provisioning \<or> b_state b = AgentActive \<and> isPersonalBinding b"

definition verdict :: "'s reconcile_options \<Rightarrow> 's \<Rightarrow> agent_binding \<Rightarrow> provisioning_state" where
  "verdict opts s b =
     (case b_owner b of
        KnoxRoom _ _ \<Rightarrow> AgentFailed
      | Personal uid \<Rightarrow>
          (case st_getUserById (ro_store opts) uid s of
             None \<Rightarrow> b_state b
           | Some u \<Rightarrow>
               if u_status u = UserDisabled then AgentDisabled
               else if ro_probe opts u b = Inr RecoveryActive then AgentActive else AgentFailed))"

text \<open>
  What the probe of a binding throws, if it is asked and throws. The loop stops there: the bindings before the
  first of these are settled.
\<close>

definition probeError :: "'s reconcile_options \<Rightarrow> 's \<Rightarrow> agent_binding \<Rightarrow> thrown option" where
  "probeError opts s b =
     (case b_owner b of
        KnoxRoom _ _ \<Rightarrow> None
      | Personal uid \<Rightarrow>
          (case st_getUserById (ro_store opts) uid s of
             None \<Rightarrow> None
           | Some u \<Rightarrow>
               if u_status u = UserDisabled then None
               else (case ro_probe opts u b of Inl t \<Rightarrow> Some t | Inr _ \<Rightarrow> None)))"

definition probeAnswered :: "'s reconcile_options \<Rightarrow> 's \<Rightarrow> agent_binding \<Rightarrow> bool" where
  "probeAnswered opts s b \<longleftrightarrow> probeError opts s b = None"

definition settledBindings :: "'s reconcile_options \<Rightarrow> 's \<Rightarrow> agent_binding list" where
  "settledBindings opts s = takeWhile (probeAnswered opts s) (recoveryBindings opts s)"

definition firstUnanswered :: "'s reconcile_options \<Rightarrow> 's \<Rightarrow> agent_binding option" where
  "firstUnanswered opts s = List.find (\<lambda>b. \<not> probeAnswered opts s b) (recoveryBindings opts s)"

lemma reconcileOne_throws:
  "probeError opts s b = Some t \<Longrightarrow> reconcileOne opts b at summary s = (Inl (ProvisionerThrew t), s)"
  by (auto simp: probeError_def reconcileOne_def split: binding_owner.splits option.splits if_splits sum.splits)

lemma reconcileLoop_append:
  "reconcileLoop opts now n (xs @ ys) summary s =
     andThen (reconcileLoop opts now n xs summary s) (\<lambda>summary1 s1. reconcileLoop opts now (n + length xs) ys summary1 s1)"
proof (induction xs arbitrary: n summary s)
  case (Cons x xs)
  then show ?case by (cases "reconcileOne opts x (now n) summary s"; cases "fst (reconcileOne opts x (now n) summary s)") auto
qed simp

lemma find_split:
  "case List.find (\<lambda>x. \<not> P x) xs of
     None \<Rightarrow> takeWhile P xs = xs
   | Some y \<Rightarrow> \<not> P y \<and> (\<exists>zs. xs = takeWhile P xs @ y # zs)"
  by (induction xs) (auto split: option.splits)

definition tally :: "('a \<Rightarrow> bool) \<Rightarrow> 'a list \<Rightarrow> int" where
  "tally P xs = int (length (filter P xs))"

lemma tally_simps [simp]:
  "tally P [] = 0" "tally P (x # xs) = (if P x then 1 else 0) + tally P xs"
  by (simp_all add: tally_def)

definition counted ::
    "'s reconcile_options \<Rightarrow> 's \<Rightarrow> agent_binding list \<Rightarrow> recovery_summary \<Rightarrow> recovery_summary" where
  "counted opts s bs summary =
     summary\<lparr>sm_activated := sm_activated summary + tally (\<lambda>b. b_state b = Provisioning \<and> verdict opts s b = AgentActive) bs,
       sm_failed := sm_failed summary + tally (\<lambda>b. verdict opts s b = AgentFailed) bs,
       sm_disabled := sm_disabled summary + tally (\<lambda>b. verdict opts s b = AgentDisabled) bs\<rparr>"

text \<open>A settled binding: in the state of the verdict, with the owner it had.\<close>

definition judged :: "'s reconcile_options \<Rightarrow> 's \<Rightarrow> agent_binding \<Rightarrow> agent_binding option \<Rightarrow> bool" where
  "judged opts s b now \<longleftrightarrow> (\<exists>b'. now = Some b' \<and> b_state b' = verdict opts s b \<and> b_owner b' = b_owner b)"

lemma needsRecovery_state: "needsRecovery b \<Longrightarrow> b_state b \<in> {Provisioning, AgentActive}"
  by (auto simp: needsRecovery_def)

lemma restart_codes: "trim (''restart_'' @ replaceChar (CHR ''-'') (CHR ''_'') (recoveryReason r)) \<noteq> []"
  "trim ''restart_room_runtime_pending'' \<noteq> []"
proof -
  have "trim (''restart_'' @ replaceChar (CHR ''-'') (CHR ''_'') (recoveryReason RecoveryActive)) \<noteq> []"
    "trim (''restart_'' @ replaceChar (CHR ''-'') (CHR ''_'') (recoveryReason RetryRequired)) \<noteq> []"
    "trim (''restart_'' @ replaceChar (CHR ''-'') (CHR ''_'') (recoveryReason RecoveryConflict)) \<noteq> []"
    by code_simp+
  then show "trim (''restart_'' @ replaceChar (CHR ''-'') (CHR ''_'') (recoveryReason r)) \<noteq> []"
    by (cases r) (simp_all only: not_False_eq_True)
  show "trim ''restart_room_runtime_pending'' \<noteq> []" by code_simp
qed

context binding_store
begin

lemma reconcileOne_settles:
  assumes "I s" and "ro_store opts = S" and "stored (b_id b) s = Some b" and "needsRecovery b"
    and probe: "probeAnswered opts s b"
  shows "\<exists>s'. reconcileOne opts b t summary s = (Inr (counted opts s [b] summary), s') \<and> I s'
    \<and> judged opts s b (stored (b_id b) s') \<and> (\<forall>k. k \<noteq> b_id b \<longrightarrow> stored k s' = stored k s)
    \<and> (\<forall>uid. st_getUserById S uid s' = st_getUserById S uid s)"
proof -
  have to: "\<exists>b' s'. st_transitionAgent S (b_id b) st t fc s = (Inr b', s') \<and> I s' \<and> stored (b_id b) s' = Some b'
      \<and> b_state b' = st \<and> b_owner b' = b_owner b \<and> (\<forall>k. k \<noteq> b_id b \<longrightarrow> stored k s' = stored k s)
      \<and> (\<forall>uid. st_getUserById S uid s' = st_getUserById S uid s)"
    if ok: "st = b_state b \<or> st \<in> set (allowedAgentTransitions (b_state b))" "fc = None \<or> (\<exists>c. fc = Some c \<and> trim c \<noteq> [])"
    for st fc
  proof -
    obtain b' s' where m: "st_transitionAgent S (b_id b) st t fc s = (Inr b', s')" "I s'" "stored (b_id b) s' = Some b'"
      "b_state b' = st" "b_owner b' = b_owner b" "\<And>k. k \<noteq> b_id b \<Longrightarrow> stored k s' = stored k s"
      using transition_step [OF assms(1,3) ok, of t thesis] by blast
    moreover have "st_getUserById S uid s' = st_getUserById S uid s" for uid
      using transition_users [of uid "b_id b" st t fc s] m(1) by simp
    ultimately show ?thesis by blast
  qed
  have failed: "AgentFailed \<in> set (allowedAgentTransitions (b_state b))"
    and disabled: "AgentDisabled \<in> set (allowedAgentTransitions (b_state b))"
    using needsRecovery_state [OF assms(4)] by auto
  show ?thesis
  proof (cases "b_owner b")
    case (KnoxRoom a r)
    obtain b' s' where "st_transitionAgent S (b_id b) AgentFailed t (Some ''restart_room_runtime_pending'') s = (Inr b', s')"
      "I s'" "stored (b_id b) s' = Some b'" "b_state b' = AgentFailed" "b_owner b' = b_owner b"
      "\<forall>k. k \<noteq> b_id b \<longrightarrow> stored k s' = stored k s" "\<forall>uid. st_getUserById S uid s' = st_getUserById S uid s"
      using to [of AgentFailed "Some ''restart_room_runtime_pending''"] failed restart_codes(2) by blast
    then show ?thesis
      using KnoxRoom by (auto simp: reconcileOne_def failBinding_def assms(2) counted_def verdict_def judged_def)
  next
    case (Personal uid)
    obtain u where u: "st_getUserById S uid s = Some u" using stored_owner [OF assms(1,3) Personal] by blast
    have r: "\<exists>r. ro_probe opts u b = Inr r" if "u_status u = UserActive"
      using probe u Personal that assms(2) by (auto simp: probeAnswered_def probeError_def split: sum.splits)
    note defs = reconcileOne_def failBinding_def assms(2) counted_def verdict_def judged_def
    consider (dis) "u_status u = UserDisabled"
      | (fail) r where "u_status u = UserActive" "ro_probe opts u b = Inr r" "r \<noteq> RecoveryActive"
      | (act) "u_status u = UserActive" "ro_probe opts u b = Inr RecoveryActive" using r by (cases "u_status u") auto
    then show ?thesis
    proof cases
      case dis
      obtain b' s' where "st_transitionAgent S (b_id b) AgentDisabled t None s = (Inr b', s')"
        "I s'" "stored (b_id b) s' = Some b'" "b_state b' = AgentDisabled" "b_owner b' = b_owner b"
        "\<forall>k. k \<noteq> b_id b \<longrightarrow> stored k s' = stored k s" "\<forall>uid. st_getUserById S uid s' = st_getUserById S uid s"
        using to [of AgentDisabled None] disabled by blast
      then show ?thesis using Personal u dis by (auto simp: defs)
    next
      case (fail r)
      let ?c = "''restart_'' @ replaceChar (CHR ''-'') (CHR ''_'') (recoveryReason r)"
      obtain b' s' where "st_transitionAgent S (b_id b) AgentFailed t (Some ?c) s = (Inr b', s')"
        "I s'" "stored (b_id b) s' = Some b'" "b_state b' = AgentFailed" "b_owner b' = b_owner b"
        "\<forall>k. k \<noteq> b_id b \<longrightarrow> stored k s' = stored k s" "\<forall>uid. st_getUserById S uid s' = st_getUserById S uid s"
        using to [of AgentFailed "Some ?c"] failed restart_codes(1) by blast
      then show ?thesis using Personal u fail by (auto simp: defs)
    next
      case act
      show ?thesis
      proof (cases "b_state b = Provisioning")
        case True
        then obtain b' s' where "st_transitionAgent S (b_id b) AgentActive t None s = (Inr b', s')"
          "I s'" "stored (b_id b) s' = Some b'" "b_state b' = AgentActive" "b_owner b' = b_owner b"
          "\<forall>k. k \<noteq> b_id b \<longrightarrow> stored k s' = stored k s" "\<forall>uid. st_getUserById S uid s' = st_getUserById S uid s"
          using to [of AgentActive None] by auto
        then show ?thesis using Personal u act True by (auto simp: defs)
      next
        case False
        then have "b_state b = AgentActive" using needsRecovery_state [OF assms(4)] by auto
        then show ?thesis using Personal u act assms(1,3) by (auto simp: defs)
      qed
    qed
  qed
qed

lemma verdict_users:
  assumes "ro_store opts = S" and "\<forall>uid. st_getUserById S uid s' = st_getUserById S uid s"
  shows "verdict opts s' = verdict opts s"
  using assms by (intro ext) (simp add: verdict_def split: binding_owner.splits)

lemma probeAnswered_users:
  assumes "ro_store opts = S" and "\<forall>uid. st_getUserById S uid s' = st_getUserById S uid s"
  shows "probeAnswered opts s' = probeAnswered opts s" "probeError opts s' = probeError opts s"
  using assms by (auto simp: probeAnswered_def probeError_def fun_eq_iff split: binding_owner.splits)

lemma reconcileLoop_settles:
  assumes "I s" and "ro_store opts = S" and "distinct (map b_id bs)"
    and "\<And>b. b \<in> set bs \<Longrightarrow> stored (b_id b) s = Some b \<and> needsRecovery b \<and> probeAnswered opts s b"
  shows "\<exists>s'. reconcileLoop opts now n bs summary s = (Inr (counted opts s bs summary), s') \<and> I s'
    \<and> (\<forall>b \<in> set bs. judged opts s b (stored (b_id b) s'))
    \<and> (\<forall>k. k \<notin> b_id ` set bs \<longrightarrow> stored k s' = stored k s)
    \<and> (\<forall>uid. st_getUserById S uid s' = st_getUserById S uid s)"
  using assms(1,3,4)
proof (induction bs arbitrary: n summary s)
  case Nil
  then show ?case by (simp add: counted_def)
next
  case (Cons b bs)
  obtain s1 where one: "reconcileOne opts b (now n) summary s = (Inr (counted opts s [b] summary), s1)" "I s1"
    "judged opts s b (stored (b_id b) s1)" "\<forall>k. k \<noteq> b_id b \<longrightarrow> stored k s1 = stored k s"
    "\<forall>uid. st_getUserById S uid s1 = st_getUserById S uid s"
    using reconcileOne_settles [OF Cons.prems(1) assms(2), of b "now n" summary] Cons.prems(3) by auto
  note v = verdict_users [OF assms(2) one(5)] and a = probeAnswered_users [OF assms(2) one(5)]
  have "stored (b_id c) s1 = Some c \<and> needsRecovery c \<and> probeAnswered opts s1 c" if "c \<in> set bs" for c
    unfolding a
    using one(4) Cons.prems(2,3) that by (metis distinct.simps(2) image_eqI list.set_intros(2) list.simps(9) set_map)
  from Cons.IH [OF one(2) _ this, of "Suc n" "counted opts s [b] summary"] Cons.prems(2)
  obtain s2 where rest: "reconcileLoop opts now (Suc n) bs (counted opts s [b] summary) s1
      = (Inr (counted opts s1 bs (counted opts s [b] summary)), s2)" "I s2"
    "\<forall>b \<in> set bs. judged opts s1 b (stored (b_id b) s2)" "\<forall>k. k \<notin> b_id ` set bs \<longrightarrow> stored k s2 = stored k s1"
    "\<forall>uid. st_getUserById S uid s2 = st_getUserById S uid s1"
    by auto
  have "counted opts s1 bs (counted opts s [b] summary) = counted opts s (b # bs) summary"
    by (simp add: counted_def v)
  moreover have "\<forall>c \<in> set (b # bs). judged opts s c (stored (b_id c) s2)"
    using rest(3,4) one(3) Cons.prems(2) by (auto simp: judged_def v)
  moreover have "\<forall>k. k \<notin> b_id ` set (b # bs) \<longrightarrow> stored k s2 = stored k s"
    using rest(4) one(4) by auto
  ultimately show ?case using one(1,5) rest(1,2,5) by simp
qed

lemma recoveryBindings_stored:
  assumes "I s" and "ro_store opts = S"
  shows "b \<in> set (recoveryBindings opts s) \<longleftrightarrow> stored (b_id b) s = Some b \<and> needsRecovery b"
    and "distinct (map b_id (recoveryBindings opts s))"
proof -
  have st: "(\<exists>k. stored k s = Some b) \<longleftrightarrow> stored (b_id b) s = Some b" for b
    using stored_id [OF assms(1)] by metis
  show "b \<in> set (recoveryBindings opts s) \<longleftrightarrow> stored (b_id b) s = Some b \<and> needsRecovery b"
    by (auto simp: recoveryBindings_def assms(2) list_bindings [OF assms(1)] st needsRecovery_def)
  have "set (map b_id (st_listAgentBindingsByState S Provisioning s))
      \<inter> set (map b_id (filter isPersonalBinding (st_listAgentBindingsByState S AgentActive s))) = {}"
    by (auto simp: list_bindings [OF assms(1)] st)
  then show "distinct (map b_id (recoveryBindings opts s))"
    using list_distinct [OF assms(1)] by (simp add: recoveryBindings_def assms(2) distinct_map_filter)
qed

text \<open>The whole recovery: the bindings up to the first one whose probe throws are settled, the others are as they were.\<close>

lemma reconcile_judges:
  assumes "I s" and "ro_store opts = S"
  obtains s' where
    "reconcile opts now s =
       (case firstUnanswered opts s of
          None \<Rightarrow> Inr (counted opts s (recoveryBindings opts s)
            \<lparr>sm_found = int (length (recoveryBindings opts s)), sm_activated = 0, sm_failed = 0, sm_disabled = 0\<rparr>)
        | Some b \<Rightarrow> Inl (ProvisionerThrew (the (probeError opts s b))), s')"
    "I s'" "\<And>b. b \<in> set (settledBindings opts s) \<Longrightarrow> judged opts s b (stored (b_id b) s')"
    "\<And>k. k \<notin> b_id ` set (settledBindings opts s) \<Longrightarrow> stored k s' = stored k s"
proof -
  let ?bs = "recoveryBindings opts s" and ?ok = "settledBindings opts s"
  let ?zero = "\<lparr>sm_found = int (length ?bs), sm_activated = 0, sm_failed = 0, sm_disabled = 0\<rparr>"
  note rb = recoveryBindings_stored [OF assms]
  note split = find_split [of "probeAnswered opts s" ?bs, folded firstUnanswered_def settledBindings_def]
  have "distinct (map b_id ?ok)"
    using rb(2) by (metis distinct_take settledBindings_def take_map takeWhile_eq_take)
  moreover have "b \<in> set ?ok \<Longrightarrow> stored (b_id b) s = Some b \<and> needsRecovery b \<and> probeAnswered opts s b" for b
    using rb(1) unfolding settledBindings_def by (auto dest: set_takeWhileD)
  ultimately obtain s' where l: "reconcileLoop opts now 0 ?ok ?zero s = (Inr (counted opts s ?ok ?zero), s')"
    "I s'" "\<forall>b \<in> set ?ok. judged opts s b (stored (b_id b) s')" "\<forall>k. k \<notin> b_id ` set ?ok \<longrightarrow> stored k s' = stored k s"
    "\<forall>uid. st_getUserById S uid s' = st_getUserById S uid s"
    using reconcileLoop_settles [OF assms, of ?ok now 0 ?zero] by blast
  have "reconcile opts now s =
       (case firstUnanswered opts s of None \<Rightarrow> Inr (counted opts s ?bs ?zero)
        | Some b \<Rightarrow> Inl (ProvisionerThrew (the (probeError opts s b))), s')"
  proof (cases "firstUnanswered opts s")
    case None
    then show ?thesis using split l(1) by (simp add: reconcile_def Let_def)
  next
    case (Some b)
    then obtain zs where b: "\<not> probeAnswered opts s b" "?bs = ?ok @ b # zs" using split by auto
    then obtain t where t: "probeError opts s b = Some t" unfolding probeAnswered_def by blast
    then have "reconcileOne opts b (now (length ?ok)) (counted opts s ?ok ?zero) s' = (Inl (ProvisionerThrew t), s')"
      by (intro reconcileOne_throws) (simp add: probeAnswered_users(2) [OF assms(2) l(5)])
    then have "reconcileLoop opts now 0 (?ok @ b # zs) ?zero s = (Inl (ProvisionerThrew t), s')"
      using l(1) by (simp add: reconcileLoop_append)
    then show ?thesis using Some t b(2) by (simp add: reconcile_def Let_def)
  qed
  with that l(2-4) show ?thesis by blast
qed

lemma tally_card:
  assumes "I s" and "ro_store opts = S"
  shows "tally P (recoveryBindings opts s) = int (card {k. \<exists>b. stored k s = Some b \<and> needsRecovery b \<and> P b})"
proof -
  let ?bs = "filter P (recoveryBindings opts s)"
  note rb = recoveryBindings_stored [OF assms]
  have "{k. \<exists>b. stored k s = Some b \<and> needsRecovery b \<and> P b} = set (map b_id ?bs)"
    using rb(1) stored_id [OF assms(1)] by (auto simp: image_iff)
  moreover have "distinct (map b_id ?bs)" using rb(2) by (simp add: distinct_map_filter)
  ultimately show ?thesis
    using distinct_card [of "map b_id ?bs"] by (simp add: tally_def del: set_map)
qed

end

section \<open>Properties\<close>

text \<open>How many stored bindings need recovery and satisfy a predicate.\<close>

definition recovered :: "mem \<Rightarrow> (agent_binding \<Rightarrow> bool) \<Rightarrow> int" where
  "recovered s P = int (card {k. \<exists>b. mapGet (bindings s) k = Some b \<and> needsRecovery b \<and> P b})"

text \<open>
  C23. Recovery settles the bindings in turn until a probe throws. Each binding it checks, half provisioned
  or the active one of a person, ends in the state of its verdict (disabled with its owner, active when the
  gateway confirms it, failed otherwise, room agents always) and keeps its owner; the others are untouched. When
  every probe answers, all that need it are settled, no binding is left half provisioned, and recovery
  returns a summary that counts exactly the bindings with each verdict. When one throws, recovery fails with
  that error: only the bindings before it are settled, it and those after it are left as they were.
\<close>

theorem reconcile_settles:
  assumes "reachable store s" and "id_factory (o_idFactory store)"
    and "0 < idleTimeoutMs (o_sessionPolicy store)" and "0 < absoluteTimeoutMs (o_sessionPolicy store)"
    and "ro_store opts = memOps store"
  shows "\<exists>out s'. reconcile opts now s = (out, s')
    \<and> (\<forall>k b. mapGet (bindings s) k = Some b \<longrightarrow>
         (if b \<in> set (settledBindings opts s) then judged opts s b (mapGet (bindings s') k)
          else mapGet (bindings s') k = Some b))
    \<and> (case firstUnanswered opts s of
         Some b \<Rightarrow> out = Inl (ProvisionerThrew (the (probeError opts s b)))
           \<and> mapGet (bindings s) (b_id b) = Some b \<and> mapGet (bindings s') (b_id b) = Some b
       | None \<Rightarrow> \<exists>summary. out = Inr summary
           \<and> (\<forall>k b. mapGet (bindings s) k = Some b \<longrightarrow> needsRecovery b = (b \<in> set (settledBindings opts s)))
           \<and> (\<forall>k b. mapGet (bindings s') k = Some b \<longrightarrow> b_state b \<noteq> Provisioning)
           \<and> sm_found summary = recovered s (\<lambda>_. True)
           \<and> sm_activated summary = recovered s (\<lambda>b. b_state b = Provisioning \<and> verdict opts s b = AgentActive)
           \<and> sm_failed summary = recovered s (\<lambda>b. verdict opts s b = AgentFailed)
           \<and> sm_disabled summary = recovered s (\<lambda>b. verdict opts s b = AgentDisabled))"
proof -
  note inv = reachable_memInv [OF assms(1-4)] and rb = memBindings.recoveryBindings_stored [OF _ assms(5)]
  let ?ok = "settledBindings opts s"
  let ?out = "case firstUnanswered opts s of
      None \<Rightarrow> Inr (counted opts s (recoveryBindings opts s)
        \<lparr>sm_found = int (length (recoveryBindings opts s)), sm_activated = 0, sm_failed = 0, sm_disabled = 0\<rparr>)
    | Some b \<Rightarrow> Inl (ProvisionerThrew (the (probeError opts s b)))"
  obtain s' where r: "reconcile opts now s = (?out, s')" "memInv store s'"
    "\<And>b. b \<in> set ?ok \<Longrightarrow> judged opts s b (storedBinding (b_id b) s')"
    "\<And>k. k \<notin> b_id ` set ?ok \<Longrightarrow> storedBinding k s' = storedBinding k s"
    by (rule memBindings.reconcile_judges [OF inv assms(5), of now]) (rule that)
  note split = find_split [of "probeAnswered opts s" "recoveryBindings opts s", folded firstUnanswered_def settledBindings_def]
  have ok: "storedBinding (b_id b) s = Some b \<and> needsRecovery b" if "b \<in> set ?ok" for b
    using that rb(1) [OF inv] by (auto simp: settledBindings_def dest: set_takeWhileD)
  have id: "b_id b = k" if "storedBinding k s = Some b" for k b
    by (rule memBindings.stored_id [OF inv that])
  have each: "if b \<in> set ?ok then judged opts s b (storedBinding k s') else storedBinding k s' = Some b"
    if b: "storedBinding k s = Some b" for k b
  proof (cases "b \<in> set ?ok")
    case False
    have "k \<notin> b_id ` set ?ok"
    proof
      assume "k \<in> b_id ` set ?ok"
      then obtain c where "c \<in> set ?ok" "b_id c = k" by blast
      with ok b False show False by auto
    qed
    with r(4) b False show ?thesis by simp
  qed (use r(3) id b in auto)
  have verdict: "verdict opts s b \<noteq> Provisioning" if "storedBinding k s = Some b" for k b
    using memBindings.stored_owner [OF inv that] assms(5)
    by (auto simp: verdict_def split: binding_owner.splits option.splits)
  note count = memBindings.tally_card [OF inv assms(5), unfolded storedBinding_def, folded recovered_def]
  show ?thesis
  proof (cases "firstUnanswered opts s")
    case (Some b)
    then have "\<not> probeAnswered opts s b" "b \<in> set (recoveryBindings opts s)" using split by force+
    then have "b \<notin> set ?ok" "storedBinding (b_id b) s = Some b"
      using rb(1) [OF inv] by (auto simp: settledBindings_def dest: set_takeWhileD)
    with each show ?thesis using r(1) Some unfolding storedBinding_def by auto
  next
    case None
    then have all: "?ok = recoveryBindings opts s" using split by simp
    have needs: "needsRecovery b = (b \<in> set ?ok)" if "storedBinding k s = Some b" for k b
      unfolding all using rb(1) [OF inv] that id [OF that] by auto
    have "b_state b \<noteq> Provisioning" if b: "storedBinding k s' = Some b" for k b
    proof (cases "k \<in> b_id ` set ?ok")
      case True
      then obtain c where c: "c \<in> set ?ok" "b_id c = k" by blast
      with r(3) have "judged opts s c (storedBinding k s')" by blast
      with b verdict ok [OF c(1)] show ?thesis by (auto simp: judged_def)
    next
      case False
      with r(4) b have "storedBinding k s = Some b" by simp
      moreover from this False id have "b \<notin> set ?ok" by auto
      ultimately show ?thesis using needs by (auto simp: needsRecovery_def)
    qed
    moreover have "int (length (recoveryBindings opts s)) = recovered s (\<lambda>_. True)"
      using count [of "\<lambda>_. True"] by (simp add: tally_def)
    ultimately show ?thesis
      using r(1) None each needs count unfolding storedBinding_def by (simp add: counted_def)
  qed
qed

section \<open>A concrete recovery\<close>

definition demoRecovery :: "mem reconcile_options" where
  "demoRecovery = \<lparr>ro_store = memOps demoOptions, ro_probe = (\<lambda>u b. Inr RetryRequired)\<rparr>"

text \<open>The same store, but the gateway does not answer.\<close>

definition demoOutage :: "mem reconcile_options" where
  "demoOutage = \<lparr>ro_store = memOps demoOptions, ro_probe = (\<lambda>u b. Inl (ErrorObject ''gateway unavailable''))\<rparr>"

lemma demo_recoveries:
  "firstUnanswered demoRecovery (step demoOptions roomCall demoStore) = None"
  "settledBindings demoRecovery (step demoOptions roomCall demoStore) = [roomBinding, annActive]"
  "firstUnanswered demoOutage (step demoOptions roomCall demoStore) = Some annActive"
  "settledBindings demoOutage (step demoOptions roomCall demoStore) = [roomBinding]"
  "the (probeError demoOutage (step demoOptions roomCall demoStore) annActive) = ErrorObject ''gateway unavailable''"
  by code_simp+

theorem reconcile_settles_witness:
  "(\<exists>b'. mapGet (bindings (snd (reconcile demoRecovery (\<lambda>_. 30) (step demoOptions roomCall demoStore)))) ''binding-xxxx'' = Some b'
      \<and> b_state b' = AgentFailed \<and> b_owner b' = KnoxRoom ''ann'' ''R1'')
    \<and> fst (reconcile demoOutage (\<lambda>_. 30) (step demoOptions roomCall demoStore))
        = Inl (ProvisionerThrew (ErrorObject ''gateway unavailable''))
    \<and> mapGet (bindings (snd (reconcile demoOutage (\<lambda>_. 30) (step demoOptions roomCall demoStore)))) ''binding-xx'' = Some annActive"
proof -
  let ?s = "step demoOptions roomCall demoStore"
  have stores: "ro_store demoRecovery = memOps demoOptions" "ro_store demoOutage = memOps demoOptions"
    by (simp_all add: demoRecovery_def demoOutage_def)
  note reach = reachable.call [OF demoStore_reachable]
  from reconcile_settles [OF reach demo_factory demo_policy stores(1), of "\<lambda>_. 30" roomCall]
  obtain out s' where r: "reconcile demoRecovery (\<lambda>_. 30) ?s = (out, s')"
    "\<And>k b. mapGet (bindings ?s) k = Some b
       \<Longrightarrow> (if b \<in> set (settledBindings demoRecovery ?s) then judged demoRecovery ?s b (mapGet (bindings s') k)
            else mapGet (bindings s') k = Some b)" by blast
  from reconcile_settles [OF reach demo_factory demo_policy stores(2), of "\<lambda>_. 30" roomCall, unfolded demo_recoveries option.case]
  obtain s2 where o: "reconcile demoOutage (\<lambda>_. 30) ?s = (Inl (ProvisionerThrew (ErrorObject ''gateway unavailable'')), s2)"
    "mapGet (bindings s2) (b_id annActive) = Some annActive" by blast
  have "b_owner roomBinding = KnoxRoom ''ann'' ''R1''" "b_id annActive = ''binding-xx''"
    by (simp_all add: roomBinding_def annActive_def)
  with r(2) [OF room_gets(2)] o(2) show ?thesis
    unfolding r(1) o(1) demo_recoveries by (simp add: judged_def verdict_def)
qed

end
