(* ===== verification/MutationLock.thy ===== *)
theory MutationLock
  imports Prelude
begin

text \<open>
  The lock of the skill registry (\<open>skill-hub-registry-mutation-lock.ts\<close>): a map from a skill's
  coordinate to the tail of a chain of promises. A job takes the locks of its coordinates one after the
  other in sorted order, runs its task, and releases them innermost first.

  A call of \<open>run\<close> is a ticket. Its tail promise settles when the tail it was chained to has settled and
  its own gate was released. The model steps from one \<open>await\<close> to the next: what happens between two of them
  is one step, and the steps of different jobs interleave in any order.
\<close>

section \<open>State\<close>

record coordinate =
  co_namespace :: string
  co_slug :: string

record ticket =
  t_key :: string
  t_prev :: "nat option"
  t_released :: bool

datatype phase = Waiting nat | Running | Unwinding | Finished

record job =
  j_keys :: "string list"
  j_held :: "nat list"
  j_phase :: phase

record lock_state =
  tails :: "(string, nat) jsmap"
  tickets :: "ticket list"
  jobs :: "job list"

definition emptyLock :: lock_state where
  "emptyLock = \<lparr>tails = [], tickets = [], jobs = []\<rparr>"

section \<open>Operations\<close>

definition lockKey :: "string \<Rightarrow> string \<Rightarrow> string" where
  "lockKey namespace slug = namespace @ nul # slug"

text \<open>\<open>runMany\<close> sorts the keys, and takes a namespace and a slug out of each again.\<close>

definition splitKey :: "string \<Rightarrow> string" where
  "splitKey key = (case splitOn nul key of namespace # slug # _ \<Rightarrow> lockKey namespace slug | _ \<Rightarrow> key)"

definition runManyKeys :: "coordinate list \<Rightarrow> string list" where
  "runManyKeys coordinates =
     map splitKey (sort (jsUnique (map (\<lambda>c. lockKey (co_namespace c) (co_slug c)) coordinates)))"

fun settledTicket :: "ticket list \<Rightarrow> nat \<Rightarrow> bool" where
  "settledTicket ts n =
     (n < length ts \<and> t_released (ts ! n)
      \<and> (case t_prev (ts ! n) of None \<Rightarrow> True | Some p \<Rightarrow> if p < n then settledTicket ts p else False))"

declare settledTicket.simps [simp del]

definition previousSettled :: "ticket list \<Rightarrow> nat \<Rightarrow> bool" where
  "previousSettled ts n \<longleftrightarrow> (case t_prev (ts ! n) of None \<Rightarrow> True | Some p \<Rightarrow> settledTicket ts p)"

text \<open>\<open>acquire(index)\<close>: the task runs once every lock is held; otherwise \<open>run\<close> enters its tail in the map.\<close>

definition acquire :: "nat \<Rightarrow> lock_state \<Rightarrow> lock_state" where
  "acquire i s =
     (let job = jobs s ! i; index = length (j_held job) in
      if index \<ge> length (j_keys job)
      then s\<lparr>jobs := (jobs s)[i := job\<lparr>j_phase := Running\<rparr>]\<rparr>
      else
        let key = j_keys job ! index; n = length (tickets s) in
        \<lparr>tails = mapSet (tails s) key n,
         tickets = tickets s @ [\<lparr>t_key = key, t_prev = mapGet (tails s) key, t_released = False\<rparr>],
         jobs = (jobs s)[i := job\<lparr>j_phase := Waiting n\<rparr>]\<rparr>)"

definition startJob :: "string list \<Rightarrow> lock_state \<Rightarrow> lock_state" where
  "startJob keys s =
     acquire (length (jobs s)) (s\<lparr>jobs := jobs s @ [\<lparr>j_keys = keys, j_held = [], j_phase = Unwinding\<rparr>]\<rparr>)"

definition runMany :: "coordinate list \<Rightarrow> lock_state \<Rightarrow> lock_state" where
  "runMany coordinates s = startJob (runManyKeys coordinates) s"

definition run :: "string \<Rightarrow> string \<Rightarrow> lock_state \<Rightarrow> lock_state" where
  "run namespace slug s = startJob [lockKey namespace slug] s"

text \<open>After \<open>await previous\<close>: the lock is held, and the next one is asked for.\<close>

definition enterJob :: "nat \<Rightarrow> lock_state \<Rightarrow> lock_state option" where
  "enterJob i s =
     (if i < length (jobs s) then
        (case j_phase (jobs s ! i) of
           Waiting n \<Rightarrow>
             if previousSettled (tickets s) n
             then Some (acquire i (s\<lparr>jobs := (jobs s)[i := (jobs s ! i)\<lparr>j_held := n # j_held (jobs s ! i)\<rparr>]\<rparr>))
             else None
         | _ \<Rightarrow> None)
      else None)"

text \<open>The task returns or throws.\<close>

definition finishTask :: "nat \<Rightarrow> lock_state \<Rightarrow> lock_state option" where
  "finishTask i s =
     (if i < length (jobs s) \<and> j_phase (jobs s ! i) = Running
      then Some (s\<lparr>jobs := (jobs s)[i := (jobs s ! i)\<lparr>j_phase :=
             (if j_held (jobs s ! i) = [] then Finished else Unwinding)\<rparr>]\<rparr>)
      else None)"

text \<open>The \<open>finally\<close> block of the innermost lock.\<close>

definition releaseJob :: "nat \<Rightarrow> lock_state \<Rightarrow> lock_state option" where
  "releaseJob i s =
     (if i < length (jobs s) \<and> j_phase (jobs s ! i) = Unwinding then
        (case j_held (jobs s ! i) of
           [] \<Rightarrow> None
         | n # rest \<Rightarrow>
             let key = t_key (tickets s ! n) in
             Some \<lparr>tails = (if mapGet (tails s) key = Some n then mapDelete (tails s) key else tails s),
                   tickets = (tickets s)[n := (tickets s ! n)\<lparr>t_released := True\<rparr>],
                   jobs = (jobs s)[i := (jobs s ! i)\<lparr>j_held := rest, j_phase := (if rest = [] then Finished else Unwinding)\<rparr>]\<rparr>)
      else None)"

section \<open>Steps\<close>

inductive job_step :: "lock_state \<Rightarrow> lock_state \<Rightarrow> bool" where
  enter: "enterJob i s = Some s' \<Longrightarrow> job_step s s'"
| finish: "finishTask i s = Some s' \<Longrightarrow> job_step s s'"
| release: "releaseJob i s = Some s' \<Longrightarrow> job_step s s'"

inductive_cases job_stepE: "job_step s s'"

text \<open>Coordinates whose namespace and slug hold no NUL character.\<close>

definition plainCoordinate :: "coordinate \<Rightarrow> bool" where
  "plainCoordinate c \<longleftrightarrow> nul \<notin> set (co_namespace c) \<and> nul \<notin> set (co_slug c)"

inductive lock_reachable :: "lock_state \<Rightarrow> bool" where
  empty: "lock_reachable emptyLock"
| many: "lock_reachable s \<Longrightarrow> list_all plainCoordinate cs \<Longrightarrow> lock_reachable (runMany cs s)"
| one: "lock_reachable s \<Longrightarrow> lock_reachable (run namespace slug s)"
| step: "lock_reachable s \<Longrightarrow> job_step s s' \<Longrightarrow> lock_reachable s'"

section \<open>The keys of a job\<close>

lemma splitKey_plain:
  assumes "nul \<notin> set a" and "nul \<notin> set b"
  shows "splitKey (lockKey a b) = lockKey a b"
proof -
  have one: "splitOn nul x = [x]" if "nul \<notin> set x" for x
    using that by (induction x) auto
  show ?thesis
    using splitOn_append [of nul a b] one assms by (simp add: splitKey_def lockKey_def)
qed

lemma runManyKeys_sorted:
  assumes "list_all plainCoordinate cs"
  shows "sorted_wrt (<) (runManyKeys cs)"
proof -
  let ?ks = "sort (jsUnique (map (\<lambda>c. lockKey (co_namespace c) (co_slug c)) cs))"
  have "splitKey k = k" if "k \<in> set ?ks" for k
    using that assms by (auto simp: list_all_iff plainCoordinate_def splitKey_plain)
  then have "runManyKeys cs = ?ks" unfolding runManyKeys_def by (rule map_idI)
  then show ?thesis by (simp add: strict_sorted_iff)
qed

section \<open>Settled tickets\<close>

text \<open>Tickets are only added, and only become released.\<close>

definition grows :: "ticket list \<Rightarrow> ticket list \<Rightarrow> bool" where
  "grows ts us \<longleftrightarrow> length ts \<le> length us
     \<and> (\<forall>n < length ts. t_key (us ! n) = t_key (ts ! n) \<and> t_prev (us ! n) = t_prev (ts ! n)
          \<and> (t_released (ts ! n) \<longrightarrow> t_released (us ! n)))"

lemma grows_append [simp]: "grows ts (ts @ us)"
  by (simp add: grows_def nth_append)

lemma release_simps [simp]:
  "t_key (ts[n := (ts ! n)\<lparr>t_released := True\<rparr>] ! m) = t_key (ts ! m)"
  "t_prev (ts[n := (ts ! n)\<lparr>t_released := True\<rparr>] ! m) = t_prev (ts ! m)"
  "t_released (ts[n := (ts ! n)\<lparr>t_released := True\<rparr>] ! m) \<longleftrightarrow> t_released (ts ! m) \<or> m = n \<and> n < length ts"
proof -
  let ?us = "ts[n := (ts ! n)\<lparr>t_released := True\<rparr>]"
  have "t_key (?us ! m) = t_key (ts ! m) \<and> t_prev (?us ! m) = t_prev (ts ! m)
      \<and> (t_released (?us ! m) \<longleftrightarrow> t_released (ts ! m) \<or> m = n \<and> n < length ts)"
    by (cases "length ts \<le> n") (auto simp: nth_list_update list_update_beyond)
  then show "t_key (?us ! m) = t_key (ts ! m)" "t_prev (?us ! m) = t_prev (ts ! m)"
    "t_released (?us ! m) \<longleftrightarrow> t_released (ts ! m) \<or> m = n \<and> n < length ts" by blast+
qed

lemma grows_release [simp]: "grows ts (ts[n := (ts ! n)\<lparr>t_released := True\<rparr>])"
  by (simp add: grows_def)

lemma settled_grows: "settledTicket ts n \<Longrightarrow> grows ts us \<Longrightarrow> settledTicket us n"
proof (induction ts n rule: settledTicket.induct)
  case (1 ts n)
  from "1.prems" have n: "n < length ts" "t_released (ts ! n)" by (simp_all add: settledTicket.simps [of ts n])
  with "1.prems"(2) have u: "n < length us" "t_released (us ! n)" "t_prev (us ! n) = t_prev (ts ! n)"
    by (auto simp: grows_def)
  show ?case
  proof (cases "t_prev (ts ! n)")
    case None
    with u show ?thesis by (simp add: settledTicket.simps [of us n])
  next
    case (Some p)
    with "1.prems"(1) have "p < n" "settledTicket ts p"
      by (auto simp: settledTicket.simps [of ts n] split: if_splits)
    with "1.IH" [OF Some] "1.prems"(2) u Some show ?thesis
      by (simp add: settledTicket.simps [of us n])
  qed
qed

lemma previousSettled_grows: "previousSettled ts n \<Longrightarrow> grows ts us \<Longrightarrow> n < length ts \<Longrightarrow> previousSettled us n"
  using settled_grows by (auto simp: previousSettled_def grows_def split: option.splits)

section \<open>The invariant\<close>

text \<open>A ticket is chained to the last earlier one of its key, unless all earlier ones of its key are released.\<close>

definition chainOk :: "ticket list \<Rightarrow> bool" where
  "chainOk ts \<longleftrightarrow> (\<forall>n < length ts.
     (case t_prev (ts ! n) of
        None \<Rightarrow> (\<forall>m < n. t_key (ts ! m) = t_key (ts ! n) \<longrightarrow> t_released (ts ! m))
      | Some p \<Rightarrow> p < n \<and> t_key (ts ! p) = t_key (ts ! n)
          \<and> (\<forall>m. p < m \<and> m < n \<longrightarrow> t_key (ts ! m) \<noteq> t_key (ts ! n))))"

text \<open>The map holds the last ticket of a key, unless all tickets of the key are released.\<close>

definition tailsOk :: "(string, nat) jsmap \<Rightarrow> ticket list \<Rightarrow> bool" where
  "tailsOk tm ts \<longleftrightarrow> (\<forall>k.
     (case mapGet tm k of
        None \<Rightarrow> (\<forall>m < length ts. t_key (ts ! m) = k \<longrightarrow> t_released (ts ! m))
      | Some n \<Rightarrow> n < length ts \<and> t_key (ts ! n) = k
          \<and> (\<forall>m. n < m \<and> m < length ts \<longrightarrow> t_key (ts ! m) \<noteq> k)))"

definition owned :: "job \<Rightarrow> nat list" where
  "owned j = (case j_phase j of Waiting n \<Rightarrow> [n] | _ \<Rightarrow> []) @ j_held j"

text \<open>Every ticket not yet released belongs to one job, which waits for it or holds it.\<close>

definition ownOk :: "job list \<Rightarrow> ticket list \<Rightarrow> bool" where
  "ownOk js ts \<longleftrightarrow>
     (\<forall>i < length js. distinct (owned (js ! i)))
     \<and> (\<forall>i < length js. \<forall>j < length js. \<forall>n. n \<in> set (owned (js ! i)) \<and> n \<in> set (owned (js ! j)) \<longrightarrow> i = j)
     \<and> (\<forall>n. (\<exists>i < length js. n \<in> set (owned (js ! i))) \<longleftrightarrow> n < length ts \<and> \<not> t_released (ts ! n))"

definition heldOk :: "ticket list \<Rightarrow> job \<Rightarrow> bool" where
  "heldOk ts j \<longleftrightarrow> sorted_wrt (<) (j_keys j) \<and> (\<forall>n \<in> set (j_held j). previousSettled ts n)
     \<and> map (\<lambda>n. t_key (ts ! n)) (rev (j_held j)) = take (length (j_held j)) (j_keys j)"

definition phaseOk :: "ticket list \<Rightarrow> job \<Rightarrow> bool" where
  "phaseOk ts j \<longleftrightarrow>
     (case j_phase j of
        Waiting n \<Rightarrow> length (j_held j) < length (j_keys j) \<and> t_key (ts ! n) = j_keys j ! length (j_held j)
      | Running \<Rightarrow> length (j_held j) = length (j_keys j)
      | Unwinding \<Rightarrow> j_held j \<noteq> []
      | Finished \<Rightarrow> j_held j = [])"

definition lockInv :: "lock_state \<Rightarrow> bool" where
  "lockInv s \<longleftrightarrow> chainOk (tickets s) \<and> tailsOk (tails s) (tickets s) \<and> ownOk (jobs s) (tickets s)
     \<and> (\<forall>i < length (jobs s). heldOk (tickets s) (jobs s ! i) \<and> phaseOk (tickets s) (jobs s ! i))"

text \<open>A settled ticket, and a ticket whose turn has come, has only released tickets of its key before it.\<close>

lemma settled_before:
  assumes "chainOk ts"
  shows "settledTicket ts n \<Longrightarrow> m \<le> n \<Longrightarrow> t_key (ts ! m) = t_key (ts ! n) \<Longrightarrow> t_released (ts ! m)"
proof (induction n arbitrary: m rule: less_induct)
  case (less n)
  from less.prems(1) have n: "n < length ts" "t_released (ts ! n)" by (simp_all add: settledTicket.simps [of ts n])
  note chain = assms [unfolded chainOk_def, rule_format, OF n(1)]
  show ?case
  proof (cases "m = n")
    case False
    with less.prems(2) have mn: "m < n" by simp
    show ?thesis
    proof (cases "t_prev (ts ! n)")
      case None
      with chain mn less.prems(3) show ?thesis by simp
    next
      case (Some p)
      with less.prems(1) have p: "settledTicket ts p"
        by (auto simp: settledTicket.simps [of ts n] split: if_splits)
      from chain Some have "p < n" "t_key (ts ! p) = t_key (ts ! n)"
        "\<forall>m. p < m \<and> m < n \<longrightarrow> t_key (ts ! m) \<noteq> t_key (ts ! n)" by auto
      with less.IH [OF _ p, of m] less.prems(3) mn show ?thesis by (metis not_le)
    qed
  qed (simp add: n(2))
qed

lemma turn_before:
  assumes "chainOk ts" and "n < length ts" and "previousSettled ts n" and "m < n" and "t_key (ts ! m) = t_key (ts ! n)"
  shows "t_released (ts ! m)"
proof (cases "t_prev (ts ! n)")
  case None
  with assms(1)[unfolded chainOk_def, rule_format, OF assms(2)] assms(4,5) show ?thesis by simp
next
  case (Some p)
  with assms(1)[unfolded chainOk_def, rule_format, OF assms(2)] have p: "p < n" "t_key (ts ! p) = t_key (ts ! n)"
    "\<forall>m. p < m \<and> m < n \<longrightarrow> t_key (ts ! m) \<noteq> t_key (ts ! n)" by auto
  have "settledTicket ts p" using assms(3) Some by (simp add: previousSettled_def)
  with settled_before [OF assms(1) this, of m] p assms(4,5) show ?thesis by (metis not_le)
qed

section \<open>The invariant is kept\<close>

lemma ownOkD:
  assumes "ownOk js ts"
  shows "i < length js \<Longrightarrow> distinct (owned (js ! i))"
    and "i < length js \<Longrightarrow> j < length js \<Longrightarrow> n \<in> set (owned (js ! i)) \<Longrightarrow> n \<in> set (owned (js ! j)) \<Longrightarrow> i = j"
    and "i < length js \<Longrightarrow> n \<in> set (owned (js ! i)) \<Longrightarrow> n < length ts \<and> \<not> t_released (ts ! n)"
    and "n < length ts \<Longrightarrow> \<not> t_released (ts ! n) \<Longrightarrow> \<exists>i < length js. n \<in> set (owned (js ! i))"
  using assms unfolding ownOk_def by blast+

lemma ownOkI:
  assumes "\<And>i. i < length js \<Longrightarrow> distinct (owned (js ! i))"
    and "\<And>i j n. i < length js \<Longrightarrow> j < length js \<Longrightarrow> n \<in> set (owned (js ! i)) \<Longrightarrow> n \<in> set (owned (js ! j)) \<Longrightarrow> i = j"
    and "\<And>i n. i < length js \<Longrightarrow> n \<in> set (owned (js ! i)) \<Longrightarrow> n < length ts \<and> \<not> t_released (ts ! n)"
    and "\<And>n. n < length ts \<Longrightarrow> \<not> t_released (ts ! n) \<Longrightarrow> \<exists>i < length js. n \<in> set (owned (js ! i))"
  shows "ownOk js ts"
  unfolding ownOk_def using assms by blast

lemma ownOk_same:
  assumes "ownOk js ts" and "owned j = owned (js ! i)"
  shows "ownOk (js[i := j]) ts"
proof -
  have "length (js[i := j]) = length js \<and> (\<forall>k < length js. owned (js[i := j] ! k) = owned (js ! k))"
    using assms(2) by (cases "length js \<le> i") (auto simp: nth_list_update list_update_beyond)
  then show ?thesis using assms(1) unfolding ownOk_def by (metis (no_types, lifting))
qed

lemma ownOk_idle: "ownOk js ts \<Longrightarrow> owned j = [] \<Longrightarrow> ownOk (js @ [j]) ts"
proof (rule ownOkI)
  assume own: "ownOk js ts" and j: "owned j = []"
  have old: "k < length js \<and> n \<in> set (owned (js ! k))"
    if "k < length (js @ [j])" "n \<in> set (owned ((js @ [j]) ! k))" for k n
    using that j by (auto simp: nth_append less_Suc_eq split: if_splits)
  show "distinct (owned ((js @ [j]) ! k))" if "k < length (js @ [j])" for k
    using that j ownOkD(1) [OF own, of k] by (auto simp: nth_append less_Suc_eq)
  show "k = l" if "k < length (js @ [j])" "l < length (js @ [j])" "n \<in> set (owned ((js @ [j]) ! k))"
      "n \<in> set (owned ((js @ [j]) ! l))" for k l n
    using old that ownOkD(2) [OF own] by blast
  show "n < length ts \<and> \<not> t_released (ts ! n)" if "k < length (js @ [j])" "n \<in> set (owned ((js @ [j]) ! k))" for k n
    using old that ownOkD(3) [OF own] by blast
  show "\<exists>k < length (js @ [j]). n \<in> set (owned ((js @ [j]) ! k))" if "n < length ts" "\<not> t_released (ts ! n)" for n
    using ownOkD(4) [OF own that] by (auto simp: nth_append intro: less_SucI)
qed

lemma ownOk_ask:
  assumes own: "ownOk js ts" and i: "i < length js" and j: "owned j = length ts # owned (js ! i)"
    and t: "\<not> t_released t"
  shows "ownOk (js[i := j]) (ts @ [t])"
proof (rule ownOkI)
  note D = ownOkD [OF own]
  have fresh: "length ts \<notin> set (owned (js ! k))" if "k < length js" for k using D(3) [OF that] by blast
  fix k assume k: "k < length (js[i := j])"
  show "distinct (owned (js[i := j] ! k))"
    using k D(1) [of k] i fresh [OF i] j by (cases "k = i") simp_all
  fix n
  show "n < length (ts @ [t]) \<and> \<not> t_released ((ts @ [t]) ! n)" if "n \<in> set (owned (js[i := j] ! k))"
    using k that i j t D(3) [of k n] D(3) [OF i, of n] by (cases "k = i") (auto simp: nth_append)
  fix l assume l: "l < length (js[i := j])"
    and n: "n \<in> set (owned (js[i := j] ! k))" "n \<in> set (owned (js[i := j] ! l))"
  show "k = l"
    using k l n j i fresh D(2) [of k l n]
    by (cases "k = i"; cases "l = i") auto
next
  fix n assume n: "n < length (ts @ [t])" "\<not> t_released ((ts @ [t]) ! n)"
  show "\<exists>k < length (js[i := j]). n \<in> set (owned (js[i := j] ! k))"
  proof (cases "n = length ts")
    case True
    with i j show ?thesis by auto
  next
    case False
    with n obtain k where "k < length js" "n \<in> set (owned (js ! k))"
      using ownOkD(4) [OF own, of n] by (auto simp: nth_append)
    with i j show ?thesis by (cases "k = i") (auto intro: exI [of _ k])
  qed
qed

lemma ownOk_free:
  assumes own: "ownOk js ts" and i: "i < length js" and j: "owned (js ! i) = n # owned j"
  shows "ownOk (js[i := j]) (ts[n := (ts ! n)\<lparr>t_released := True\<rparr>])"
proof (rule ownOkI)
  note D = ownOkD [OF own]
  have n: "n < length ts" using D(3) [OF i] j by simp
  have sub: "set (owned (js[i := j] ! k)) \<subseteq> set (owned (js ! k)) - {n}" if "k < length js" for k
    using D(1) [OF i] D(2) [OF that i, of n] that j i by (cases "k = i") auto
  fix k assume k: "k < length (js[i := j])"
  show "distinct (owned (js[i := j] ! k))"
    using k D(1) [of k] D(1) [OF i] i j by (cases "k = i") simp_all
  fix m
  show "m < length (ts[n := (ts ! n)\<lparr>t_released := True\<rparr>])
      \<and> \<not> t_released (ts[n := (ts ! n)\<lparr>t_released := True\<rparr>] ! m)" if "m \<in> set (owned (js[i := j] ! k))"
    using k that sub [of k] D(3) [of k m] by auto
  fix l assume l: "l < length (js[i := j])"
    and "m \<in> set (owned (js[i := j] ! k))" "m \<in> set (owned (js[i := j] ! l))"
  with k l sub [of k] sub [of l] show "k = l" using D(2) [of k l m] by auto
next
  fix m assume m: "m < length (ts[n := (ts ! n)\<lparr>t_released := True\<rparr>])"
    "\<not> t_released (ts[n := (ts ! n)\<lparr>t_released := True\<rparr>] ! m)"
  then have "m \<noteq> n" "\<not> t_released (ts ! m)" by auto
  with m obtain k where "k < length js" "m \<in> set (owned (js ! k))" using ownOkD(4) [OF own, of m] by auto
  with i j \<open>m \<noteq> n\<close> show "\<exists>k < length (js[i := j]). m \<in> set (owned (js[i := j] ! k))"
    by (cases "k = i") (auto intro: exI [of _ k])
qed

lemma chainOkI:
  assumes "\<And>n m. n < length ts \<Longrightarrow> t_prev (ts ! n) = None \<Longrightarrow> m < n \<Longrightarrow> t_key (ts ! m) = t_key (ts ! n) \<Longrightarrow> t_released (ts ! m)"
    and "\<And>n p. n < length ts \<Longrightarrow> t_prev (ts ! n) = Some p \<Longrightarrow> p < n \<and> t_key (ts ! p) = t_key (ts ! n)"
    and "\<And>n p m. n < length ts \<Longrightarrow> t_prev (ts ! n) = Some p \<Longrightarrow> p < m \<Longrightarrow> m < n \<Longrightarrow> t_key (ts ! m) \<noteq> t_key (ts ! n)"
  shows "chainOk ts"
  unfolding chainOk_def using assms by (auto split: option.splits)

lemma chainOkD:
  assumes "chainOk ts" and "n < length ts"
  shows "t_prev (ts ! n) = None \<Longrightarrow> m < n \<Longrightarrow> t_key (ts ! m) = t_key (ts ! n) \<Longrightarrow> t_released (ts ! m)"
    and "t_prev (ts ! n) = Some p \<Longrightarrow> p < n \<and> t_key (ts ! p) = t_key (ts ! n)"
    and "t_prev (ts ! n) = Some p \<Longrightarrow> p < m \<Longrightarrow> m < n \<Longrightarrow> t_key (ts ! m) \<noteq> t_key (ts ! n)"
  using assms unfolding chainOk_def by fastforce+

lemma tailsOkI:
  assumes "\<And>k m. mapGet tm k = None \<Longrightarrow> m < length ts \<Longrightarrow> t_key (ts ! m) = k \<Longrightarrow> t_released (ts ! m)"
    and "\<And>k n. mapGet tm k = Some n \<Longrightarrow> n < length ts \<and> t_key (ts ! n) = k"
    and "\<And>k n m. mapGet tm k = Some n \<Longrightarrow> n < m \<Longrightarrow> m < length ts \<Longrightarrow> t_key (ts ! m) \<noteq> k"
  shows "tailsOk tm ts"
  unfolding tailsOk_def using assms by (simp split: option.splits)

lemma tailsOkD:
  assumes "tailsOk tm ts"
  shows "mapGet tm k = None \<Longrightarrow> m < length ts \<Longrightarrow> t_key (ts ! m) = k \<Longrightarrow> t_released (ts ! m)"
    and "mapGet tm k = Some n \<Longrightarrow> n < length ts \<and> t_key (ts ! n) = k"
    and "mapGet tm k = Some n \<Longrightarrow> n < m \<Longrightarrow> m < length ts \<Longrightarrow> t_key (ts ! m) \<noteq> k"
  using assms [unfolded tailsOk_def, rule_format, of k] by (auto split: option.splits)

lemma chainOk_ask:
  assumes chain: "chainOk ts" and tm: "tailsOk tm ts"
  shows "chainOk (ts @ [\<lparr>t_key = k, t_prev = mapGet tm k, t_released = False\<rparr>])" (is "chainOk (ts @ [?t])")
proof (rule chainOkI)
  fix n assume n: "n < length (ts @ [?t])"
  show "t_released ((ts @ [?t]) ! m)" if "t_prev ((ts @ [?t]) ! n) = None" "m < n"
      "t_key ((ts @ [?t]) ! m) = t_key ((ts @ [?t]) ! n)" for m
    using that n chainOkD(1) [OF chain, of n m] tailsOkD(1) [OF tm, of k m]
    by (cases "n < length ts") (auto simp: nth_append)
  show "p < n \<and> t_key ((ts @ [?t]) ! p) = t_key ((ts @ [?t]) ! n)" if "t_prev ((ts @ [?t]) ! n) = Some p" for p
    using that n chainOkD(2) [OF chain, of n p] tailsOkD(2) [OF tm, of k p]
    by (cases "n < length ts") (auto simp: nth_append)
  show "t_key ((ts @ [?t]) ! m) \<noteq> t_key ((ts @ [?t]) ! n)" if "t_prev ((ts @ [?t]) ! n) = Some p" "p < m" "m < n" for p m
    using that n chainOkD(3) [OF chain, of n p m] tailsOkD(3) [OF tm, of k p m]
    by (cases "n < length ts") (auto simp: nth_append)
qed

lemma tailsOk_ask:
  assumes tm: "tailsOk tm ts"
  shows "tailsOk (mapSet tm k (length ts)) (ts @ [\<lparr>t_key = k, t_prev = p, t_released = False\<rparr>])"
    (is "tailsOk ?m (ts @ [?t])")
proof (rule tailsOkI)
  fix j
  show "t_released ((ts @ [?t]) ! m)" if "mapGet ?m j = None" "m < length (ts @ [?t])" "t_key ((ts @ [?t]) ! m) = j" for m
    using that tailsOkD(1) [OF tm, of j m] by (auto simp: nth_append split: if_splits)
  show "n < length (ts @ [?t]) \<and> t_key ((ts @ [?t]) ! n) = j" if "mapGet ?m j = Some n" for n
    using that tailsOkD(2) [OF tm, of j n] by (auto simp: nth_append split: if_splits)
  show "t_key ((ts @ [?t]) ! m) \<noteq> j" if "mapGet ?m j = Some n" "n < m" "m < length (ts @ [?t])" for n m
    using that tailsOkD(3) [OF tm, of j n m] by (auto simp: nth_append split: if_splits)
qed

text \<open>A held lock: every other ticket before it with its key is released, so the map may forget the key with it.\<close>

lemma tailsOk_free:
  assumes tm: "tailsOk tm ts" and chain: "chainOk ts" and n: "n < length ts" "previousSettled ts n"
  shows "tailsOk (if mapGet tm (t_key (ts ! n)) = Some n then mapDelete tm (t_key (ts ! n)) else tm)
    (ts[n := (ts ! n)\<lparr>t_released := True\<rparr>])" (is "tailsOk ?m ?ts")
proof (rule tailsOkI)
  fix j
  show "t_released (?ts ! m)" if m: "mapGet ?m j = None" "m < length ?ts" "t_key (?ts ! m) = j" for m
  proof (cases "mapGet tm j")
    case None
    with m tailsOkD(1) [OF tm None] show ?thesis by simp
  next
    case (Some l)
    then have l: "l = n" "j = t_key (ts ! n)" using m(1) by (auto split: if_splits)
    then have "\<not> n < m" using tailsOkD(3) [OF tm Some, of m] m(2,3) by auto
    then show ?thesis
      using turn_before [OF chain n, of m] m(2,3) l n(1) by (cases "m = n") auto
  qed
  show "l < length ?ts \<and> t_key (?ts ! l) = j" if "mapGet ?m j = Some l" for l
    using that tailsOkD(2) [OF tm, of j l] by (auto split: if_splits)
  show "t_key (?ts ! m) \<noteq> j" if "mapGet ?m j = Some l" "l < m" "m < length ?ts" for l m
    using that tailsOkD(3) [OF tm, of j l m] by (auto split: if_splits)
qed

lemma chainOk_free: "chainOk ts \<Longrightarrow> chainOk (ts[n := (ts ! n)\<lparr>t_released := True\<rparr>])"
  unfolding chainOk_def by (auto split: option.splits)

lemma owned_held: "set (j_held j) \<subseteq> set (owned j)"
  by (auto simp: owned_def)

lemma heldOk_grows:
  assumes "heldOk ts j" and "grows ts us" and "\<And>n. n \<in> set (j_held j) \<Longrightarrow> n < length ts"
  shows "heldOk us j"
proof -
  have "map (\<lambda>n. t_key (us ! n)) (rev (j_held j)) = map (\<lambda>n. t_key (ts ! n)) (rev (j_held j))"
    using assms(2,3) by (auto simp: grows_def)
  moreover have "previousSettled us n" if "n \<in> set (j_held j)" for n
    using previousSettled_grows [of ts n us] assms that by (simp add: heldOk_def)
  ultimately show ?thesis
    using assms(1) unfolding heldOk_def by simp
qed

lemma phaseOk_grows:
  assumes "phaseOk ts j" and "grows ts us" and "\<And>n. n \<in> set (owned j) \<Longrightarrow> n < length ts"
  shows "phaseOk us j"
  using assms by (cases "j_phase j") (auto simp: phaseOk_def owned_def grows_def)

lemma heldOk_length: "heldOk ts j \<Longrightarrow> length (j_held j) \<le> length (j_keys j)"
proof -
  assume "heldOk ts j"
  then have "length (map (\<lambda>n. t_key (ts ! n)) (rev (j_held j))) = length (take (length (j_held j)) (j_keys j))"
    unfolding heldOk_def by metis
  then show ?thesis by simp
qed

lemma acquire_inv:
  assumes i: "i < length (jobs s)" and chain: "chainOk (tickets s)" and tm: "tailsOk (tails s) (tickets s)"
    and own: "ownOk ((jobs s)[i := (jobs s ! i)\<lparr>j_phase := Running\<rparr>]) (tickets s)"
    and held: "heldOk (tickets s) (jobs s ! i)"
    and rest: "\<And>k. k < length (jobs s) \<Longrightarrow> k \<noteq> i \<Longrightarrow> heldOk (tickets s) (jobs s ! k) \<and> phaseOk (tickets s) (jobs s ! k)"
  shows "lockInv (acquire i s)"
proof -
  let ?j = "jobs s ! i" and ?ts = "tickets s" and ?js = "(jobs s)[i := (jobs s ! i)\<lparr>j_phase := Running\<rparr>]"
  have run: "owned (?js ! i) = j_held ?j" using i by (simp add: owned_def)
  have old: "n < length ?ts" if "k < length (jobs s)" "k \<noteq> i" "n \<in> set (owned (jobs s ! k))" for k n
    using ownOkD(3) [OF own, of k n] that by simp
  have mine: "n < length ?ts" if "n \<in> set (j_held ?j)" for n
    using ownOkD(3) [OF own, of i n] i that run by simp
  show ?thesis
  proof (cases "length (j_held ?j) \<ge> length (j_keys ?j)")
    case True
    then have "heldOk ?ts (?j\<lparr>j_phase := Running\<rparr>) \<and> phaseOk ?ts (?j\<lparr>j_phase := Running\<rparr>)"
      using held heldOk_length [OF held] by (simp add: heldOk_def phaseOk_def)
    with True chain tm own rest i show ?thesis
      by (auto simp: acquire_def Let_def lockInv_def nth_list_update)
  next
    case False
    let ?key = "j_keys ?j ! length (j_held ?j)" and ?n = "length ?ts"
    let ?us = "?ts @ [\<lparr>t_key = ?key, t_prev = mapGet (tails s) ?key, t_released = False\<rparr>]"
    let ?j' = "?j\<lparr>j_phase := Waiting ?n\<rparr>"
    have a: "acquire i s = \<lparr>tails = mapSet (tails s) ?key ?n, tickets = ?us, jobs = (jobs s)[i := ?j']\<rparr>"
      using False by (simp add: acquire_def Let_def)
    have g: "grows ?ts ?us" by simp
    have "ownOk (?js[i := ?j']) ?us"
      by (rule ownOk_ask [OF own]) (simp_all add: i run, simp add: owned_def)
    then have "ownOk ((jobs s)[i := ?j']) ?us" by simp
    moreover have "heldOk ?us ?j'" using heldOk_grows [OF held g mine] by (simp add: heldOk_def)
    moreover have "phaseOk ?us ?j'" using False by (simp add: phaseOk_def)
    moreover have "heldOk ?us (jobs s ! k) \<and> phaseOk ?us (jobs s ! k)" if "k < length (jobs s)" "k \<noteq> i" for k
      using rest [OF that] heldOk_grows [OF _ g] phaseOk_grows [OF _ g] old [OF that] owned_held by blast
    ultimately show ?thesis
      using chainOk_ask [OF chain tm] tailsOk_ask [OF tm] i by (auto simp: a lockInv_def nth_list_update)
  qed
qed

lemma lockInvD:
  assumes "lockInv s"
  shows "chainOk (tickets s)" "tailsOk (tails s) (tickets s)" "ownOk (jobs s) (tickets s)"
    "i < length (jobs s) \<Longrightarrow> heldOk (tickets s) (jobs s ! i)"
    "i < length (jobs s) \<Longrightarrow> phaseOk (tickets s) (jobs s ! i)"
  using assms unfolding lockInv_def by blast+

lemma start_inv:
  assumes inv: "lockInv s" and "sorted_wrt (<) keys"
  shows "lockInv (startJob keys s)"
  unfolding startJob_def
proof (rule acquire_inv)
  let ?j = "\<lparr>j_keys = keys, j_held = [], j_phase = Unwinding\<rparr>"
  let ?s = "s\<lparr>jobs := jobs s @ [?j]\<rparr>"
  note I = lockInvD [OF inv]
  show "length (jobs s) < length (jobs ?s)" by simp
  show "chainOk (tickets ?s)" "tailsOk (tails ?s) (tickets ?s)" using I by simp_all
  have "ownOk (jobs s @ [?j\<lparr>j_phase := Running\<rparr>]) (tickets s)"
    by (rule ownOk_idle [OF I(3)]) (simp add: owned_def)
  then show "ownOk ((jobs ?s)[length (jobs s) := (jobs ?s ! length (jobs s))\<lparr>j_phase := Running\<rparr>]) (tickets ?s)"
    by simp
  show "heldOk (tickets ?s) (jobs ?s ! length (jobs s))" using assms(2) by (simp add: heldOk_def)
  show "heldOk (tickets ?s) (jobs ?s ! k) \<and> phaseOk (tickets ?s) (jobs ?s ! k)"
    if "k < length (jobs ?s)" "k \<noteq> length (jobs s)" for k
    using I(4,5) [of k] that by (simp add: nth_append)
qed

lemma enter_inv:
  assumes inv: "lockInv s" and "enterJob i s = Some s'"
  shows "lockInv s'"
proof -
  note I = lockInvD [OF inv]
  let ?j = "jobs s ! i"
  from assms(2) obtain n where n: "i < length (jobs s)" "j_phase ?j = Waiting n" "previousSettled (tickets s) n"
    and s': "s' = acquire i (s\<lparr>jobs := (jobs s)[i := ?j\<lparr>j_held := n # j_held ?j\<rparr>]\<rparr>)"
    by (auto simp: enterJob_def split: if_splits phase.splits)
  have w: "length (j_held ?j) < length (j_keys ?j)" "t_key (tickets s ! n) = j_keys ?j ! length (j_held ?j)"
    using I(5) [OF n(1)] n(2) by (simp_all add: phaseOk_def)
  let ?j1 = "?j\<lparr>j_held := n # j_held ?j\<rparr>"
  have "ownOk ((jobs s)[i := ?j1\<lparr>j_phase := Running\<rparr>]) (tickets s)"
    by (rule ownOk_same [OF I(3)]) (simp add: owned_def n(2))
  moreover have "heldOk (tickets s) ?j1"
    using I(4) [OF n(1)] n(3) w by (simp add: heldOk_def take_Suc_conv_app_nth)
  ultimately show ?thesis
    unfolding s' using I n(1) by (intro acquire_inv) simp_all
qed

lemma finish_inv:
  assumes inv: "lockInv s" and "finishTask i s = Some s'"
  shows "lockInv s'"
proof -
  note I = lockInvD [OF inv]
  let ?j = "jobs s ! i"
  let ?j1 = "?j\<lparr>j_phase := (if j_held ?j = [] then Finished else Unwinding)\<rparr>"
  from assms(2) have i: "i < length (jobs s)" "j_phase ?j = Running" and s': "s' = s\<lparr>jobs := (jobs s)[i := ?j1]\<rparr>"
    by (auto simp: finishTask_def split: if_splits)
  have "ownOk ((jobs s)[i := ?j1]) (tickets s)"
    by (rule ownOk_same [OF I(3)]) (simp add: owned_def i(2))
  moreover have "heldOk (tickets s) ?j1" "phaseOk (tickets s) ?j1"
    using I(4) [OF i(1)] by (simp_all add: heldOk_def phaseOk_def)
  ultimately show ?thesis
    using I i(1) unfolding s' lockInv_def by (simp add: nth_list_update split del: if_split) auto
qed

lemma release_inv:
  assumes inv: "lockInv s" and "releaseJob i s = Some s'"
  shows "lockInv s'"
proof -
  note I = lockInvD [OF inv]
  let ?j = "jobs s ! i" and ?ts = "tickets s"
  from assms(2) obtain n rest where i: "i < length (jobs s)" "j_phase ?j = Unwinding" "j_held ?j = n # rest"
    and s': "s' = \<lparr>tails = (if mapGet (tails s) (t_key (?ts ! n)) = Some n then mapDelete (tails s) (t_key (?ts ! n)) else tails s),
      tickets = ?ts[n := (?ts ! n)\<lparr>t_released := True\<rparr>],
      jobs = (jobs s)[i := ?j\<lparr>j_held := rest, j_phase := (if rest = [] then Finished else Unwinding)\<rparr>]\<rparr>"
    by (auto simp: releaseJob_def Let_def split: if_splits list.splits)
  let ?us = "?ts[n := (?ts ! n)\<lparr>t_released := True\<rparr>]"
  let ?j1 = "?j\<lparr>j_held := rest, j_phase := (if rest = [] then Finished else Unwinding)\<rparr>"
  have own: "owned ?j = n # owned ?j1" by (simp add: owned_def i)
  have old: "m < length ?ts" if "k < length (jobs s)" "m \<in> set (owned (jobs s ! k))" for k m
    using ownOkD(3) [OF I(3) that] by simp
  have n: "n < length ?ts" "previousSettled ?ts n"
    using old [OF i(1), of n] own I(4) [OF i(1)] i(3) by (simp_all add: heldOk_def)
  have "heldOk ?ts ?j1"
  proof -
    have "map (\<lambda>n. t_key (?ts ! n)) (rev rest) @ [t_key (?ts ! n)] = take (Suc (length rest)) (j_keys ?j)"
      using I(4) [OF i(1)] i(3) by (simp add: heldOk_def)
    then have "take (length rest) (map (\<lambda>n. t_key (?ts ! n)) (rev rest) @ [t_key (?ts ! n)])
        = take (length rest) (take (Suc (length rest)) (j_keys ?j))" by (rule arg_cong)
    then show ?thesis using I(4) [OF i(1)] i(3) by (simp add: heldOk_def min_def)
  qed
  moreover have "m < length ?ts" if "m \<in> set (j_held ?j1)" for m
    using old [OF i(1), of m] that own owned_held [of ?j1] by auto
  ultimately have "heldOk ?us ?j1" using heldOk_grows [of ?ts ?j1 ?us] by simp
  moreover have "phaseOk ?us ?j1" by (simp add: phaseOk_def)
  moreover have "heldOk ?us (jobs s ! k) \<and> phaseOk ?us (jobs s ! k)" if "k < length (jobs s)" for k
    using I(4,5) [OF that] heldOk_grows [of ?ts _ ?us] phaseOk_grows [of ?ts _ ?us] old [OF that] owned_held [of "jobs s ! k"]
    by (auto simp del: release_simps)
  ultimately show ?thesis
    using tailsOk_free [OF I(2,1) n] chainOk_free [OF I(1)] ownOk_free [OF I(3) i(1) own] i(1)
    unfolding s' lockInv_def by (auto simp: nth_list_update)
qed

lemma job_step_inv: "job_step s s' \<Longrightarrow> lockInv s \<Longrightarrow> lockInv s'"
  by (erule job_stepE) (auto intro: enter_inv finish_inv release_inv)

lemma reachable_lockInv: "lock_reachable s \<Longrightarrow> lockInv s"
proof (induction rule: lock_reachable.induct)
  case empty
  show ?case by (auto simp: lockInv_def emptyLock_def chainOk_def tailsOk_def ownOk_def)
next
  case (many s cs)
  then show ?case by (simp add: runMany_def start_inv runManyKeys_sorted)
next
  case (one s namespace slug)
  then show ?case by (simp add: run_def start_inv)
qed (auto intro: job_step_inv)

section \<open>Progress\<close>

definition heldKeys :: "job \<Rightarrow> string list" where
  "heldKeys j = take (length (j_held j)) (j_keys j)"

lemma held_key: "heldOk ts j \<Longrightarrow> n \<in> set (j_held j) \<Longrightarrow> t_key (ts ! n) \<in> set (heldKeys j)"
proof -
  assume h: "heldOk ts j" and n: "n \<in> set (j_held j)"
  from n have "t_key (ts ! n) \<in> set (map (\<lambda>n. t_key (ts ! n)) (rev (j_held j)))" by simp
  with h show ?thesis unfolding heldOk_def heldKeys_def by metis
qed

lemma key_held: "heldOk ts j \<Longrightarrow> k \<in> set (heldKeys j) \<Longrightarrow> \<exists>n \<in> set (j_held j). t_key (ts ! n) = k"
proof -
  assume h: "heldOk ts j" and k: "k \<in> set (heldKeys j)"
  then have "k \<in> set (map (\<lambda>n. t_key (ts ! n)) (rev (j_held j)))" unfolding heldOk_def heldKeys_def by metis
  then show ?thesis by auto
qed

text \<open>A job waits for a lock greater than all it holds.\<close>

lemma waits_greater:
  assumes "heldOk ts j" and "phaseOk ts j" and "j_phase j = Waiting n" and "k \<in> set (heldKeys j)"
  shows "k < t_key (ts ! n)"
proof -
  have w: "length (j_held j) < length (j_keys j)" "t_key (ts ! n) = j_keys j ! length (j_held j)"
    using assms(2,3) by (simp_all add: phaseOk_def)
  obtain m where "m < length (j_held j)" "k = j_keys j ! m"
    using assms(4) w(1) by (auto simp: heldKeys_def in_set_conv_nth)
  with w assms(1) show ?thesis by (simp add: heldOk_def sorted_wrt_iff_nth_less)
qed

lemma unsettled_open:
  assumes "chainOk ts"
  shows "p < length ts \<Longrightarrow> \<not> settledTicket ts p \<Longrightarrow> \<exists>q \<le> p. t_key (ts ! q) = t_key (ts ! p) \<and> \<not> t_released (ts ! q)"
proof (induction p rule: less_induct)
  case (less p)
  show ?case
  proof (cases "t_released (ts ! p)")
    case True
    with less.prems obtain r where r: "t_prev (ts ! p) = Some r" "\<not> settledTicket ts r"
      using chainOkD(2) [OF assms less.prems(1)]
      by (auto simp: settledTicket.simps [of ts p] split: option.splits)
    from chainOkD(2) [OF assms less.prems(1) r(1)] have "r < p" "t_key (ts ! r) = t_key (ts ! p)" by auto
    with less.IH [of r] r(2) less.prems(1) obtain q where
      "q \<le> r" "t_key (ts ! q) = t_key (ts ! r)" "\<not> t_released (ts ! q)" by auto
    with \<open>r < p\<close> \<open>t_key (ts ! r) = t_key (ts ! p)\<close> show ?thesis by (metis less_imp_le order_trans)
  qed auto
qed

text \<open>
  Of the jobs that wait, the one for the greatest key that asked first may go on: its predecessor would
  otherwise be held by a job that waits for a greater key.
\<close>

lemma some_turn:
  assumes inv: "lockInv s" and wait: "i0 < length (jobs s)" "j_phase (jobs s ! i0) = Waiting n0"
    and all: "\<And>i. i < length (jobs s) \<Longrightarrow> (\<exists>n. j_phase (jobs s ! i) = Waiting n) \<or> j_phase (jobs s ! i) = Finished"
  shows "\<exists>i n. i < length (jobs s) \<and> j_phase (jobs s ! i) = Waiting n \<and> previousSettled (tickets s) n"
proof -
  note I = lockInvD [OF inv]
  let ?ts = "tickets s"
  define W where "W = {n. \<exists>i < length (jobs s). j_phase (jobs s ! i) = Waiting n}"
  have W: "n < length ?ts \<and> \<not> t_released (?ts ! n)" if "n \<in> W" for n
  proof -
    obtain i where "i < length (jobs s)" "j_phase (jobs s ! i) = Waiting n" using \<open>n \<in> W\<close> by (auto simp: W_def)
    then show ?thesis using ownOkD(3) [OF I(3), of i n] by (simp add: owned_def)
  qed
  then have fin: "finite W" by (rule_tac finite_subset [of _ "{..<length ?ts}"]) auto
  have ne: "W \<noteq> {}" using wait by (auto simp: W_def)
  define k where "k = Max ((\<lambda>n. t_key (?ts ! n)) ` W)"
  have k: "k \<in> (\<lambda>n. t_key (?ts ! n)) ` W" and kmax: "\<And>n. n \<in> W \<Longrightarrow> t_key (?ts ! n) \<le> k"
    unfolding k_def using fin ne by (auto intro: Max_in Max_ge)
  let ?K = "{n \<in> W. t_key (?ts ! n) = k}"
  define n where "n = Min ?K"
  have K: "finite ?K" "?K \<noteq> {}" using fin k by auto
  have "n \<in> ?K" and nmin: "\<And>m. m \<in> ?K \<Longrightarrow> n \<le> m" unfolding n_def using Min_in [OF K] Min_le [OF K(1)] by blast+
  then have n: "n \<in> W" "t_key (?ts ! n) = k" by auto
  have "previousSettled ?ts n"
  proof (rule ccontr)
    assume "\<not> previousSettled ?ts n"
    then obtain p where p: "t_prev (?ts ! n) = Some p" "\<not> settledTicket ?ts p"
      by (auto simp: previousSettled_def split: option.splits)
    have nl: "n < length ?ts" using W [OF n(1)] by simp
    from chainOkD(2) [OF I(1) nl p(1)] have pn: "p < n" "t_key (?ts ! p) = k" using n(2) by auto
    obtain q where q: "q \<le> p" "t_key (?ts ! q) = k" "\<not> t_released (?ts ! q)"
      using unsettled_open [OF I(1) _ p(2)] pn nl by auto
    then obtain l where l: "l < length (jobs s)" "q \<in> set (owned (jobs s ! l))"
      using ownOkD(4) [OF I(3), of q] pn(1) nl by auto
    have "q \<notin> W" using nmin [of q] q pn(1) by auto
    then have "q \<in> set (j_held (jobs s ! l))"
      using l by (auto simp: W_def owned_def split: phase.splits)
    moreover from this obtain r where r: "j_phase (jobs s ! l) = Waiting r"
      using all [OF l(1)] I(5) [OF l(1)] by (auto simp: phaseOk_def)
    ultimately have "k < t_key (?ts ! r)"
      using waits_greater [OF I(4,5) [OF l(1)] r] held_key [OF I(4) [OF l(1)]] q(2) by blast
    moreover have "r \<in> W" using l(1) r by (auto simp: W_def)
    ultimately show False using kmax [of r] by simp
  qed
  with n(1) show ?thesis by (auto simp: W_def)
qed

lemma some_step:
  assumes inv: "lockInv s" and i: "i < length (jobs s)" "j_phase (jobs s ! i) \<noteq> Finished"
  shows "\<exists>s'. job_step s s'"
proof (cases "\<exists>k < length (jobs s). j_phase (jobs s ! k) = Running \<or> j_phase (jobs s ! k) = Unwinding")
  case True
  then obtain k where k: "k < length (jobs s)" "j_phase (jobs s ! k) = Running \<or> j_phase (jobs s ! k) = Unwinding" by blast
  from k(2) show ?thesis
  proof
    assume "j_phase (jobs s ! k) = Running"
    with k(1) have "\<exists>s'. finishTask k s = Some s'" by (simp add: finishTask_def)
    then show ?thesis by (blast intro: job_step.finish)
  next
    assume u: "j_phase (jobs s ! k) = Unwinding"
    then have "j_held (jobs s ! k) \<noteq> []" using lockInvD(5) [OF inv k(1)] by (simp add: phaseOk_def)
    with k(1) u have "\<exists>s'. releaseJob k s = Some s'" by (cases "j_held (jobs s ! k)") (simp_all add: releaseJob_def Let_def)
    then show ?thesis by (blast intro: job_step.release)
  qed
next
  case False
  then have all: "(\<exists>n. j_phase (jobs s ! k) = Waiting n) \<or> j_phase (jobs s ! k) = Finished" if "k < length (jobs s)" for k
    using that by (cases "j_phase (jobs s ! k)") auto
  obtain n where "j_phase (jobs s ! i) = Waiting n" using all [OF i(1)] i(2) by blast
  then obtain k m where "k < length (jobs s)" "j_phase (jobs s ! k) = Waiting m" "previousSettled (tickets s) m"
    using some_turn [OF inv i(1) _ all] by blast
  then have "\<exists>s'. enterJob k s = Some s'" by (simp add: enterJob_def)
  then show ?thesis by (blast intro: job_step.enter)
qed

text \<open>The steps a job still has to make.\<close>

definition workOf :: "job \<Rightarrow> nat" where
  "workOf j =
     (case j_phase j of
        Waiting _ \<Rightarrow> 2 * length (j_keys j) - length (j_held j) + 2
      | Running \<Rightarrow> length (j_held j) + 1
      | Unwinding \<Rightarrow> length (j_held j)
      | Finished \<Rightarrow> 0)"

definition work :: "lock_state \<Rightarrow> nat" where
  "work s = sum_list (map workOf (jobs s))"

lemma work_less:
  assumes "i < length js" and "workOf j < workOf (js ! i)"
  shows "sum_list (map workOf (js[i := j])) < sum_list (map workOf js)"
proof -
  have "workOf (js ! i) \<le> sum_list (map workOf js)"
    using assms(1) elem_le_sum_list [of i "map workOf js"] by simp
  then show ?thesis
    using assms sum_list_update [of i "map workOf js" "workOf j"] by (simp add: map_update)
qed

lemma jobs_acquire: "jobs (acquire i s) = (jobs s)[i := (jobs s ! i)\<lparr>j_phase :=
    (if length (j_held (jobs s ! i)) \<ge> length (j_keys (jobs s ! i)) then Running else Waiting (length (tickets s)))\<rparr>]"
  by (simp add: acquire_def Let_def)

lemma step_work:
  assumes inv: "lockInv s" and "job_step s s'"
  shows "work s' < work s"
  using assms(2)
proof cases
  case (enter i)
  then obtain n where n: "i < length (jobs s)" "j_phase (jobs s ! i) = Waiting n"
    and s': "s' = acquire i (s\<lparr>jobs := (jobs s)[i := (jobs s ! i)\<lparr>j_held := n # j_held (jobs s ! i)\<rparr>]\<rparr>)"
    by (auto simp: enterJob_def split: if_splits phase.splits)
  have "length (j_held (jobs s ! i)) < length (j_keys (jobs s ! i))"
    using lockInvD(5) [OF inv n(1)] n(2) by (simp add: phaseOk_def)
  then show ?thesis
    using n unfolding work_def s' jobs_acquire by (auto intro!: work_less simp: workOf_def)
next
  case (finish i)
  then show ?thesis
    unfolding work_def by (auto intro!: work_less simp: finishTask_def workOf_def split: if_splits)
next
  case (release i)
  then show ?thesis
    unfolding work_def by (auto intro!: work_less simp: releaseJob_def Let_def workOf_def split: if_splits list.splits)
qed

section \<open>Properties\<close>

text \<open>
  C24. A lock is held by one job at a time, and is granted in the order it was asked for: in every reachable
  state no two jobs hold the same lock, and when a request holds its lock all earlier requests for that
  lock are released.
\<close>

theorem locks_exclusive:
  assumes "lock_reachable s"
  shows "(\<forall>i j k. i < length (jobs s) \<and> j < length (jobs s) \<and> k \<in> set (heldKeys (jobs s ! i))
        \<and> k \<in> set (heldKeys (jobs s ! j)) \<longrightarrow> i = j)
    \<and> (\<forall>i n m. i < length (jobs s) \<and> n \<in> set (j_held (jobs s ! i)) \<and> m < n
        \<and> t_key (tickets s ! m) = t_key (tickets s ! n) \<longrightarrow> t_released (tickets s ! m))"
proof -
  note I = lockInvD [OF reachable_lockInv [OF assms]]
  have order: "t_released (tickets s ! m)" if "i < length (jobs s)" "n \<in> set (j_held (jobs s ! i))" "m < n"
    "t_key (tickets s ! m) = t_key (tickets s ! n)" for i n m
    using turn_before [OF I(1) _ _ that(3,4)] ownOkD(3) [OF I(3) that(1)] that(2) owned_held I(4) [OF that(1)]
    unfolding heldOk_def by blast
  have "i = j" if h: "i < length (jobs s)" "j < length (jobs s)" "k \<in> set (heldKeys (jobs s ! i))" "k \<in> set (heldKeys (jobs s ! j))"
    for i j k
  proof -
    obtain m n where mn: "m \<in> set (j_held (jobs s ! i))" "t_key (tickets s ! m) = k"
      "n \<in> set (j_held (jobs s ! j))" "t_key (tickets s ! n) = k"
      using key_held [OF I(4) h(3)] key_held [OF I(4) h(4)] h(1,2) by blast
    have "\<not> t_released (tickets s ! m)" "\<not> t_released (tickets s ! n)"
      using ownOkD(3) [OF I(3)] h(1,2) mn(1,3) owned_held by blast+
    then have "m = n"
      using order [OF h(1) mn(1), of n] order [OF h(2) mn(3), of m] mn(2,4) by (metis linorder_neqE_nat)
    then show ?thesis using ownOkD(2) [OF I(3) h(1,2)] mn(1,3) owned_held by blast
  qed
  with order show ?thesis by blast
qed

text \<open>
  C25. The locks never deadlock, also when jobs take several: as long as a job is unfinished some job can make
  a step, and every step uses up some of the work left, so that all jobs finish after at most that many steps.
\<close>

theorem locks_progress:
  assumes "lock_reachable s"
  shows "((\<exists>j \<in> set (jobs s). j_phase j \<noteq> Finished) \<longrightarrow> (\<exists>s'. job_step s s'))
    \<and> (\<forall>s'. job_step s s' \<longrightarrow> work s' < work s)"
  using some_step [OF reachable_lockInv [OF assms]] step_work [OF reachable_lockInv [OF assms]]
  by (auto simp: in_set_conv_nth)

section \<open>A concrete run\<close>

text \<open>
  Two moves in opposite directions between the same two skills: the second waits for the first, which
  holds both locks.
\<close>

definition demoHere :: coordinate where
  "demoHere = \<lparr>co_namespace = ''team'', co_slug = ''a''\<rparr>"

definition demoThere :: coordinate where
  "demoThere = \<lparr>co_namespace = ''team'', co_slug = ''b''\<rparr>"

definition demoLock :: lock_state where
  "demoLock = the (enterJob 0 (the (enterJob 0 (runMany [demoThere, demoHere] (runMany [demoHere, demoThere] emptyLock)))))"

lemma demoLock_reachable: "lock_reachable demoLock"
proof -
  let ?s0 = "runMany [demoThere, demoHere] (runMany [demoHere, demoThere] emptyLock)"
  have plain: "list_all plainCoordinate [demoHere, demoThere]" "list_all plainCoordinate [demoThere, demoHere]"
    by code_simp+
  have "enterJob 0 ?s0 \<noteq> None" by code_simp
  then have one: "enterJob 0 ?s0 = Some (the (enterJob 0 ?s0))" by simp
  have "enterJob 0 (the (enterJob 0 ?s0)) \<noteq> None" by code_simp
  then have two: "enterJob 0 (the (enterJob 0 ?s0)) = Some demoLock" by (simp add: demoLock_def)
  show ?thesis
    by (intro lock_reachable.intros(4) [OF _ job_step.enter [OF two]] lock_reachable.intros(4) [OF _ job_step.enter [OF one]]
        lock_reachable.many lock_reachable.empty plain)
qed

lemma demoLock_jobs: "length (jobs demoLock) = 2" "j_held (jobs demoLock ! 0) = [2, 0]"
  "j_phase (jobs demoLock ! 0) = Running" "j_phase (jobs demoLock ! 1) = Waiting 1"
  by code_simp+

theorem locks_exclusive_witness:
  "lockKey ''team'' ''a'' \<in> set (heldKeys (jobs demoLock ! 0)) \<and> lockKey ''team'' ''a'' \<notin> set (heldKeys (jobs demoLock ! 1))"
proof -
  have held: "lockKey ''team'' ''a'' \<in> set (heldKeys (jobs demoLock ! 0))" by code_simp
  moreover have "lockKey ''team'' ''a'' \<notin> set (heldKeys (jobs demoLock ! 1))"
  proof
    assume "lockKey ''team'' ''a'' \<in> set (heldKeys (jobs demoLock ! 1))"
    with held demoLock_jobs(1) locks_exclusive [OF demoLock_reachable, THEN conjunct1, rule_format, of 0 1]
    show False by auto
  qed
  ultimately show ?thesis ..
qed

theorem locks_progress_witness:
  "\<exists>s'. job_step demoLock s' \<and> work s' < work demoLock"
proof -
  have "jobs demoLock ! 1 \<in> set (jobs demoLock)" using demoLock_jobs(1) by simp
  moreover have "j_phase (jobs demoLock ! 1) \<noteq> Finished" using demoLock_jobs(4) by simp
  ultimately have "\<exists>j \<in> set (jobs demoLock). j_phase j \<noteq> Finished" by (rule rev_bexI)
  with locks_progress [OF demoLock_reachable] show ?thesis by blast
qed

end
