(* ===== verification/GatewayJson.thy ===== *)
theory GatewayJson
  imports ExecutionValidation
begin

text \<open>
  What the files of the browser gateway share: reading JSON objects, refusing a request with an error
  code (\<open>browser-gateway-contracts.ts\<close>), paths below the personal memory and wiki
  (\<open>browser-gateway-content-paths.ts\<close>, \<open>browser-gateway-memory.ts\<close>) and field checks
  (\<open>browser-gateway-wiki-projection.ts\<close>).
\<close>

section \<open>Objects\<close>

type_synonym js_object = "(string \<times> js_value) list"

text \<open>\<open>obj[key]\<close> of an object, \<open>value?.[key]\<close> of any value, and an object as a list of entries.\<close>

definition fieldOf :: "js_object \<Rightarrow> string \<Rightarrow> js_value" where
  "fieldOf obj key = (case map_of obj key of None \<Rightarrow> JUndefined | Some v \<Rightarrow> v)"

definition asRecord :: "js_value \<Rightarrow> js_object option" where
  "asRecord v = (case v of JObj obj \<Rightarrow> Some obj | _ \<Rightarrow> None)"

definition memberOf :: "js_value \<Rightarrow> string \<Rightarrow> js_value" where
  "memberOf v key = (case v of JObj obj \<Rightarrow> fieldOf obj key | _ \<Rightarrow> JUndefined)"

definition optionalString :: "js_value \<Rightarrow> string option" where
  "optionalString v = (case v of JStr s \<Rightarrow> (if trim s = [] then None else Some (trim s)) | _ \<Rightarrow> None)"

definition optionalField :: "string \<Rightarrow> string option \<Rightarrow> js_object" where
  "optionalField key v = (case v of None \<Rightarrow> [] | Some s \<Rightarrow> [(key, JStr s)])"

definition withoutUndefined :: "js_object \<Rightarrow> js_object" where
  "withoutUndefined obj = filter (\<lambda>e. snd e \<noteq> JUndefined) obj"

text \<open>\<open>{ ...obj, ...entries }\<close>\<close>

definition spread :: "js_object \<Rightarrow> js_object \<Rightarrow> js_object" where
  "spread obj entries = foldl (\<lambda>m e. mapSet m (fst e) (snd e)) obj entries"

lemma fieldOf_Nil [simp]: "fieldOf [] k = JUndefined"
  by (simp add: fieldOf_def)

lemma fieldOf_Cons [simp]: "fieldOf (e # es) k = (if fst e = k then snd e else fieldOf es k)"
  by (cases e) (auto simp: fieldOf_def)

lemma fieldOf_mapSet [simp]: "fieldOf (mapSet obj k v) k' = (if k' = k then v else fieldOf obj k')"
  by (simp add: fieldOf_def)

lemma fieldOf_mapDelete [simp]: "fieldOf (mapDelete obj k) k' = (if k' = k then JUndefined else fieldOf obj k')"
  by (simp add: fieldOf_def)

lemma fieldOf_absent: "k \<notin> fst ` set obj \<Longrightarrow> fieldOf obj k = JUndefined"
  by (simp add: fieldOf_def map_of_eq_None_iff [THEN iffD2])

lemma fieldOf_append: "fieldOf (xs @ ys) k = (if k \<in> fst ` set xs then fieldOf xs k else fieldOf ys k)"
  by (induction xs) auto

lemma spread_Nil [simp]: "spread obj [] = obj"
  by (simp add: spread_def)

lemma spread_Cons [simp]: "spread obj (e # es) = spread (mapSet obj (fst e) (snd e)) es"
  by (simp add: spread_def)

lemma fieldOf_withoutUndefined [simp]:
  "distinct (map fst obj) \<Longrightarrow> fieldOf (withoutUndefined obj) k = fieldOf obj k"
proof (induction obj)
  case (Cons e es)
  then have "fst e \<notin> fst ` set (withoutUndefined es)" by (auto simp: withoutUndefined_def)
  with Cons show ?case
    by (auto simp: withoutUndefined_def fieldOf_absent)
qed (simp add: withoutUndefined_def)

lemma memberOf_simps [simp]:
  "memberOf (JObj obj) k = fieldOf obj k" "memberOf JUndefined k = JUndefined" "memberOf JNull k = JUndefined"
  by (simp_all add: memberOf_def)

lemma asRecord_simps [simp]: "asRecord v = Some obj \<longleftrightarrow> v = JObj obj" "asRecord (JObj obj) = Some obj"
  by (auto simp: asRecord_def split: js_value.splits)

lemma optionalString_Some: "optionalString v = Some t \<longleftrightarrow> (\<exists>s. v = JStr s \<and> trim s = t) \<and> t \<noteq> []"
  by (auto simp: optionalString_def split: js_value.splits if_splits)

lemma optionalString_trimmed: "optionalString v = Some t \<Longrightarrow> trim t = t"
  by (auto simp: optionalString_Some)

lemma optionalString_undefined [simp]: "optionalString JUndefined = None"
  by (simp add: optionalString_def)

section \<open>Refusals\<close>

datatype gateway_error_code =
    UnauthenticatedCode | AgentUnavailableCode | MethodNotAllowed | InvalidParams | CrossAgentDenied
  | UpstreamResultDenied

datatype gateway_error = GatewayError (ge_code: gateway_error_code) (ge_message: string)

named_theorems ok_iff \<open>when a computation that may refuse returns\<close>

definition resultThen :: "'e + 'a \<Rightarrow> ('a \<Rightarrow> 'e + 'b) \<Rightarrow> 'e + 'b" where
  "resultThen m f = (case m of Inl e \<Rightarrow> Inl e | Inr x \<Rightarrow> f x)"

definition require :: "bool \<Rightarrow> gateway_error_code \<Rightarrow> string \<Rightarrow> gateway_error + unit" where
  "require b code message = (if b then Inr () else Inl (GatewayError code message))"

definition refuse :: "gateway_error_code \<Rightarrow> string \<Rightarrow> gateway_error + 'a" where
  "refuse code message = Inl (GatewayError code message)"

text \<open>A step of a chain of handlers: \<open>None\<close> is \<open>undefined\<close>, the request is for a later one.\<close>

definition orHandled :: "'e + 'a option \<Rightarrow> 'e + 'a \<Rightarrow> 'e + 'a" where
  "orHandled m n = resultThen m (\<lambda>r. case r of Some v \<Rightarrow> Inr v | None \<Rightarrow> n)"

fun mapResult :: "('a \<Rightarrow> 'e + 'b) \<Rightarrow> 'a list \<Rightarrow> 'e + 'b list" where
  "mapResult f [] = Inr []"
| "mapResult f (x # xs) = resultThen (f x) (\<lambda>y. resultThen (mapResult f xs) (\<lambda>ys. Inr (y # ys)))"

lemma resultThen_simps [simp]: "resultThen (Inl e) f = Inl e" "resultThen (Inr x) f = f x"
  by (simp_all add: resultThen_def)

lemma resultThen_ok [ok_iff]: "resultThen m f = Inr y \<longleftrightarrow> (\<exists>x. m = Inr x \<and> f x = Inr y)"
  by (cases m) auto

lemma require_ok [ok_iff]: "require b code message = Inr u \<longleftrightarrow> b"
  by (simp add: require_def)

lemma require_True [simp]: "require True code message = Inr ()"
  by (simp add: require_def)

lemma refuse_ok [ok_iff, simp]: "refuse code message = Inr y \<longleftrightarrow> False"
  by (simp add: refuse_def)

lemma orHandled_ok [ok_iff]: "orHandled m n = Inr y \<longleftrightarrow> m = Inr (Some y) \<or> m = Inr None \<and> n = Inr y"
  by (cases m) (auto simp: orHandled_def split: option.splits)

lemma string_case_ok [ok_iff]:
  "(case v of JStr s \<Rightarrow> f s | _ \<Rightarrow> refuse code message) = Inr y \<longleftrightarrow> (\<exists>s. v = JStr s \<and> f s = Inr y)"
  by (auto split: js_value.splits)

lemma option_case_ok [ok_iff]:
  "(case v of None \<Rightarrow> refuse code message | Some x \<Rightarrow> f x) = Inr y \<longleftrightarrow> (\<exists>x. v = Some x \<and> f x = Inr y)"
  by (auto split: option.splits)

lemma if_ok [ok_iff]:
  "(if b then refuse code message else n) = Inr y \<longleftrightarrow> \<not> b \<and> n = Inr y"
  "(if b then m else refuse code message) = Inr y \<longleftrightarrow> b \<and> m = Inr y"
  by simp_all

lemma mapResult_ok: "mapResult f xs = Inr ys \<longleftrightarrow> list_all2 (\<lambda>x y. f x = Inr y) xs ys"
  by (induction xs arbitrary: ys) (auto simp: ok_iff list_all2_Cons1)

text \<open>\<open>asBrowserGatewayObject\<close>\<close>

definition asBrowserGatewayObject :: "js_value \<Rightarrow> string \<Rightarrow> gateway_error + js_object" where
  "asBrowserGatewayObject value label =
     (case value of
        JUndefined \<Rightarrow> Inr []
      | JObj obj \<Rightarrow> Inr obj
      | _ \<Rightarrow> refuse InvalidParams (label @ '' must be an object''))"

section \<open>Field checks\<close>

definition isHexHash :: "string \<Rightarrow> bool" where
  "isHexHash s \<longleftrightarrow> length s = 64
     \<and> list_all (\<lambda>c. isDigitChar c \<or> (97 \<le> (of_char c :: nat) \<and> (of_char c :: nat) \<le> 102)) s"

definition commaSeparated :: "string list \<Rightarrow> string" where
  "commaSeparated xs = (case xs of [] \<Rightarrow> [] | y # ys \<Rightarrow> y @ concat (map (\<lambda>z. '', '' @ z) ys))"

definition boundedText :: "js_value \<Rightarrow> string \<Rightarrow> nat \<Rightarrow> gateway_error + string" where
  "boundedText value label limit =
     (case value of
        JStr s \<Rightarrow> if length s \<le> limit then Inr s
                  else refuse MethodNotAllowed (''Gateway returned invalid '' @ label)
      | _ \<Rightarrow> refuse MethodNotAllowed (''Gateway returned invalid '' @ label))"

definition optionalEnum :: "js_value \<Rightarrow> string list \<Rightarrow> string \<Rightarrow> gateway_error + string option" where
  "optionalEnum value allowed label =
     (case value of
        JUndefined \<Rightarrow> Inr None
      | JStr s \<Rightarrow> if s \<in> set allowed then Inr (Some s)
                  else refuse MethodNotAllowed (label @ '' must be one of: '' @ commaSeparated allowed)
      | _ \<Rightarrow> refuse MethodNotAllowed (label @ '' must be one of: '' @ commaSeparated allowed))"

fun decimal :: "nat \<Rightarrow> string" where
  "decimal n = (if n < 10 then [char_of (48 + n)] else decimal (n div 10) @ [char_of (48 + n mod 10)])"

declare decimal.simps [simp del]

definition positiveIntegerUpTo :: "js_value \<Rightarrow> string \<Rightarrow> int \<Rightarrow> gateway_error + int option" where
  "positiveIntegerUpTo value label limit =
     (case value of
        JUndefined \<Rightarrow> Inr None
      | JNum n \<Rightarrow> if 0 < n \<and> n \<le> limit then Inr (Some n)
                  else refuse MethodNotAllowed (label @ '' must be an integer from 1 to '' @ decimal (nat limit))
      | _ \<Rightarrow> refuse MethodNotAllowed (label @ '' must be an integer from 1 to '' @ decimal (nat limit)))"

section \<open>Paths\<close>

definition unixSlashes :: "string \<Rightarrow> string" where
  "unixSlashes = replaceChar (CHR 0x5C) (CHR ''/'')"

text \<open>\<open>/^[a-zA-Z]:\//\<close>\<close>

definition startsWithDrive :: "string \<Rightarrow> bool" where
  "startsWithDrive s = (case s of c # d # e # _ \<Rightarrow> (isUpperChar c \<or> isLowerChar c) \<and> d = CHR '':'' \<and> e = CHR ''/''
                        | _ \<Rightarrow> False)"

definition safeRelative :: "string \<Rightarrow> bool" where
  "safeRelative s \<longleftrightarrow> \<not> prefix ''/'' s \<and> \<not> startsWithDrive s
     \<and> list_all (\<lambda>seg. seg \<notin> {[], ''.'', ''..''}) (splitOn (CHR ''/'') s)"

definition relativePath :: "js_value \<Rightarrow> string \<Rightarrow> gateway_error + string" where
  "relativePath value label =
     (case value of
        JStr s \<Rightarrow>
          if length s > 1024 then refuse MethodNotAllowed (''Gateway returned invalid '' @ label)
          else if \<not> safeRelative (unixSlashes s) then refuse MethodNotAllowed (''Gateway returned unsafe '' @ label)
          else Inr (unixSlashes s)
      | _ \<Rightarrow> refuse MethodNotAllowed (''Gateway returned invalid '' @ label))"

definition WIKI_ROOTS :: "string list" where
  "WIKI_ROOTS = [''entities'', ''concepts'', ''sources'', ''syntheses'', ''reports'']"

definition isGeneratedWikiIndexPath :: "string \<Rightarrow> bool" where
  "isGeneratedWikiIndexPath candidate \<longleftrightarrow>
     candidate = ''index.md'' \<or> list_ex (\<lambda>root. candidate = root @ ''/index.md'') WIKI_ROOTS"

definition wikiPath :: "js_value \<Rightarrow> string \<Rightarrow> gateway_error + string" where
  "wikiPath value label =
     resultThen (relativePath value label) (\<lambda>candidate.
       if isGeneratedWikiIndexPath candidate then Inr candidate
       else if hd (splitOn (CHR ''/'') candidate) \<in> set WIKI_ROOTS \<and> suffix ''.md'' candidate then Inr candidate
       else refuse MethodNotAllowed (''Gateway returned invalid '' @ label))"

text \<open>No character below a space and no colon.\<close>

definition plainPath :: "string \<Rightarrow> bool" where
  "plainPath s \<longleftrightarrow> list_all (\<lambda>c. 32 \<le> (of_char c :: nat) \<and> c \<noteq> CHR '':'') s"

definition personalWikiPagePath :: "js_value \<Rightarrow> gateway_error + string" where
  "personalWikiPagePath value =
     resultThen (wikiPath value ''personal Wiki page path'') (\<lambda>path.
       if isGeneratedWikiIndexPath path \<or> JStr path \<noteq> value \<or> \<not> plainPath path
       then refuse MethodNotAllowed ''Wiki mutation requires a canonical personal Wiki page path''
       else Inr path)"

definition canonicalMemoryFilePath :: "js_value \<Rightarrow> string option" where
  "canonicalMemoryFilePath value =
     (case value of
        JStr s \<Rightarrow>
          if s = [] \<or> length s > 1024 then None
          else
            let normalized = unixSlashes s in
            if \<not> safeRelative normalized then None
            else if normalized = ''MEMORY.md'' \<or> prefix ''memory/'' normalized \<and> suffix ''.md'' normalized
            then Some normalized else None
      | _ \<Rightarrow> None)"

end
