(* ===== verification/GatewayPolicy.thy ===== *)
theory GatewayPolicy
  imports GatewayJson
begin

text \<open>
  The tables of the browser gateway: which methods a browser may call, with which parameters, and how a
  method is bound to the agent of the user (\<open>browser-gateway-policy.ts\<close>, \<open>browser-gateway-talk-policy.ts\<close>,
  \<open>browser-gateway-vault-policy.ts\<close>, \<open>browser-gateway-request-ordering.ts\<close> and the method names of the games
  and spaces).
\<close>

section \<open>Services of the control plane\<close>

definition BASEBALL_RPC_METHODS :: "string list" where
  "BASEBALL_RPC_METHODS =
     [''platformclaw.baseball.progress'', ''platformclaw.baseball.plateAppearance'',
      ''platformclaw.baseball.purchaseBat'', ''platformclaw.baseball.equipBat'',
      ''platformclaw.baseball.leaderboard'', ''platformclaw.baseball.beginAtBat'',
      ''platformclaw.baseball.enhanceBat'', ''platformclaw.baseball.recoverBat'',
      ''platformclaw.baseball.equipEnhancedBat'', ''platformclaw.baseball.selectTeam'']"

definition FISHING_RPC_METHODS :: "string list" where
  "FISHING_RPC_METHODS =
     [''platformclaw.fishing.snapshot'', ''platformclaw.fishing.begin'', ''platformclaw.fishing.hook'',
      ''platformclaw.fishing.reel'', ''platformclaw.fishing.settle'', ''platformclaw.fishing.finish'',
      ''platformclaw.fishing.leaderboard'']"

definition HORSE_RACING_RPC_METHODS :: "string list" where
  "HORSE_RACING_RPC_METHODS =
     [''platformclaw.racing.snapshot'', ''platformclaw.racing.bet'', ''platformclaw.racing.cancel'']"

definition SPACE_RPC_PARAMS :: "(string \<times> string list) list" where
  "SPACE_RPC_PARAMS =
     [(''platformclaw.spaces.list'', []), (''platformclaw.spaces.create'', [''name'', ''requestId'']),
      (''platformclaw.spaces.delete'', [''spaceId'', ''expectedRevision'', ''confirmName'']),
      (''platformclaw.spaces.leave'', [''spaceId'', ''expectedRevision'']),
      (''platformclaw.spaces.get'', [''spaceId'']),
      (''platformclaw.spaces.people'', [''spaceId'', ''query'']),
      (''platformclaw.spaces.member.set'', [''spaceId'', ''userId'', ''role'', ''expectedRevision'']),
      (''platformclaw.spaces.member.remove'', [''spaceId'', ''userId'', ''expectedRevision'']),
      (''platformclaw.spaces.page.create'', [''spaceId'', ''parentId'', ''title'', ''body'', ''requestId'']),
      (''platformclaw.spaces.page.save'', [''spaceId'', ''pageId'', ''title'', ''body'', ''expectedRevision'']),
      (''platformclaw.spaces.chat.history'', [''spaceId'', ''pageId'', ''messageId'']),
      (''platformclaw.spaces.qa.list'', [''spaceId'', ''pageId'', ''cursor'', ''limit'']),
      (''platformclaw.spaces.qa.get'', [''spaceId'', ''pageId'', ''postId'', ''bodyOffset'', ''bodyLimitBytes'']),
      (''platformclaw.spaces.chat.send'', [''spaceId'', ''pageId'', ''message'', ''requestId'', ''model'']),
      (''platformclaw.spaces.conversation.resolve'', [''sessionKey'', ''agentId'', ''shortId'']),
      (''platformclaw.spaces.conversation.create'', [''spaceId'', ''pageId'', ''title'', ''requestId'']),
      (''platformclaw.spaces.conversation.rename'', [''spaceId'', ''conversationId'', ''title'', ''expectedRevision'', ''expectedTitle'']),
      (''platformclaw.spaces.conversation.history'', [''spaceId'', ''conversationId'', ''messageId'', ''offset'']),
      (''platformclaw.spaces.search'', [''spaceId'', ''query''])]"

definition SPACE_RPC_METHODS :: "string list" where
  "SPACE_RPC_METHODS = map fst SPACE_RPC_PARAMS"

definition KNOWLEDGE_VAULT_RPC_PARAMS :: "(string \<times> string list) list" where
  "KNOWLEDGE_VAULT_RPC_PARAMS =
     [(''platformclaw.vault.snapshot'', [''vaultId'']),
      (''platformclaw.vault.connection.set'', [''vaultId'', ''connected'']),
      (''platformclaw.vault.create'', [''name'', ''description'']),
      (''platformclaw.vault.rename'', [''vaultId'', ''name'']),
      (''platformclaw.vault.delete'', [''vaultId'']),
      (''platformclaw.vault.document.delete'', [''vaultId'', ''documentId'', ''expectedRevision'']),
      (''platformclaw.vault.document.get'', [''vaultId'', ''documentId'']),
      (''platformclaw.vault.document.targets'', [''vaultId'', ''query'']),
      (''platformclaw.vault.document.preview'', [''vaultId'', ''content'', ''filename'', ''title'', ''logicalPath'']),
      (''platformclaw.vault.document.import'', [''vaultId'', ''importId'', ''documents'']),
      (''platformclaw.vault.document.publish'', [''vaultId'', ''targetVaultId'', ''publishId'', ''documents'']),
      (''platformclaw.vault.document.save'', [''vaultId'', ''documentId'', ''title'', ''logicalPath'', ''content'', ''expectedRevision'', ''filename'']),
      (''platformclaw.vault.member.set'', [''vaultId'', ''accountId'', ''role'']),
      (''platformclaw.vault.member.remove'', [''vaultId'', ''userId'']),
      (''platformclaw.vault.targets.search'', [''vaultId'', ''kind'', ''query'']),
      (''platformclaw.vault.owner.recover'', [''vaultId'', ''accountId'']),
      (''platformclaw.vault.grant.set'', [''vaultId'', ''scopeId'', ''role'']),
      (''platformclaw.vault.grant.remove'', [''vaultId'', ''scopeId'']),
      (''platformclaw.vault.access.request'', [''vaultId'', ''role'', ''reason'']),
      (''platformclaw.vault.access.cancel'', [''requestId'']),
      (''platformclaw.vault.access.decide'', [''requestId'', ''decision'']),
      (''platformclaw.vault.rebuild'', [''vaultId'', ''documentId'']),
      (''platformclaw.vault.publish'', [''lookup'', ''targetVaultId'', ''path'', ''expectedRevision'', ''title'', ''content''])]"

definition KNOWLEDGE_VAULT_RPC_METHODS :: "string list" where
  "KNOWLEDGE_VAULT_RPC_METHODS = map fst KNOWLEDGE_VAULT_RPC_PARAMS"

definition isKnowledgeVaultRpc :: "string \<Rightarrow> bool" where
  "isKnowledgeVaultRpc method \<longleftrightarrow> method \<in> set KNOWLEDGE_VAULT_RPC_METHODS"

section \<open>Voice\<close>

definition PLATFORMCLAW_WEB_TALK_METHODS :: "string list" where
  "PLATFORMCLAW_WEB_TALK_METHODS =
     [''agent.wait'', ''talk.catalog'', ''talk.config'', ''talk.client.create'',
      ''talk.client.toolCall'', ''talk.client.transcript'', ''talk.client.close'',
      ''talk.client.steer'', ''talk.session.create'', ''talk.session.appendAudio'',
      ''talk.session.acknowledgeMark'', ''talk.session.cancelOutput'', ''talk.session.cancelTurn'',
      ''talk.session.submitToolResult'', ''talk.session.steer'', ''talk.session.close'']"

definition LAUNCH_FIELDS :: "string list" where
  "LAUNCH_FIELDS =
     [''sessionKey'', ''provider'', ''model'', ''voice'', ''vadThreshold'', ''silenceDurationMs'',
      ''prefixPaddingMs'', ''reasoningEffort'', ''mode'', ''transport'', ''brain'']"

definition PLATFORMCLAW_WEB_TALK_PARAMS :: "(string \<times> string list) list" where
  "PLATFORMCLAW_WEB_TALK_PARAMS =
     [(''agent.wait'', [''runId'', ''timeoutMs'']), (''talk.catalog'', []), (''talk.config'', []),
      (''talk.client.create'', LAUNCH_FIELDS @ [''voiceSessionId'', ''capabilities'']),
      (''talk.client.toolCall'', [''sessionKey'', ''voiceSessionId'', ''relaySessionId'', ''callId'', ''name'', ''args'']),
      (''talk.client.transcript'', [''sessionKey'', ''voiceSessionId'', ''entryId'', ''role'', ''text'', ''timestamp'']),
      (''talk.client.close'', [''sessionKey'', ''voiceSessionId'']),
      (''talk.client.steer'', [''sessionKey'', ''text'', ''mode'']),
      (''talk.session.create'', LAUNCH_FIELDS @ [''language'']),
      (''talk.session.appendAudio'', [''sessionId'', ''audioBase64'', ''timestamp'']),
      (''talk.session.acknowledgeMark'', [''sessionId'', ''markName'']),
      (''talk.session.cancelOutput'', [''sessionId'', ''turnId'', ''reason'']),
      (''talk.session.cancelTurn'', [''sessionId'', ''turnId'', ''reason'']),
      (''talk.session.submitToolResult'', [''sessionId'', ''callId'', ''result'', ''options'']),
      (''talk.session.steer'', [''sessionId'', ''sessionKey'', ''text'', ''mode'']),
      (''talk.session.close'', [''sessionId''])]"

section \<open>Methods\<close>

definition PLATFORMCLAW_WEB_GATEWAY_METHODS :: "string list" where
  "PLATFORMCLAW_WEB_GATEWAY_METHODS =
     KNOWLEDGE_VAULT_RPC_METHODS @
     SPACE_RPC_METHODS @
     PLATFORMCLAW_WEB_TALK_METHODS @
     [''agent.identity.get'', ''agents.files.get'', ''agents.files.list'', ''agents.files.set'',
      ''agents.list'', ''agents.workspace.get'', ''agents.workspace.list'', ''artifacts.download'',
      ''artifacts.get'', ''artifacts.list'', ''chat.abort'', ''chat.history'', ''chat.message.get'',
      ''chat.metadata'', ''chat.send'', ''chat.startup'', ''chat.toolTitles'', ''commands.list'',
      ''controlUi.githubPreview'', ''controlUi.sessionPullRequests.subscribe'', ''cron.add'',
      ''cron.get'', ''cron.list'', ''cron.remove'', ''cron.run'', ''cron.runs'', ''cron.status'',
      ''cron.update'', ''doctor.memory.backfillDreamDiary'', ''doctor.memory.dedupeDreamDiary'',
      ''doctor.memory.dreamDiary'', ''doctor.memory.repairDreamingArtifacts'',
      ''doctor.memory.resetDreamDiary'', ''doctor.memory.resetGroundedShortTerm'',
      ''doctor.memory.status'', ''models.list'', ''memory.search'', ''memory.delete'',
      ''approval.history'', ''approval.get'', ''approval.resolve'', ''plugins.install'',
      ''plugins.list'', ''plugins.search'', ''plugins.setEnabled'', ''plugins.uninstall'',
      ''plugin.surface.refresh''] @
     BASEBALL_RPC_METHODS @
     HORSE_RACING_RPC_METHODS @
     FISHING_RPC_METHODS @
     [''question.get'', ''question.list'', ''question.resolve'', ''sessions.abort'',
      ''sessions.branches.list'', ''sessions.branches.switch'', ''sessions.compact'',
      ''sessions.compaction.branch'', ''sessions.compaction.get'', ''sessions.compaction.list'',
      ''sessions.compaction.restore'', ''sessions.companion.ask'', ''sessions.companion.reset'',
      ''sessions.companion.state'', ''sessions.create'', ''sessions.delete'', ''sessions.describe'',
      ''sessions.files.download'', ''sessions.files.get'', ''sessions.files.list'',
      ''sessions.files.upload'', ''sessions.fork'', ''sessions.list'', ''sessions.messages.subscribe'',
      ''sessions.messages.unsubscribe'', ''sessions.observer.visibility'', ''sessions.patch'',
      ''sessions.preview'', ''sessions.rewind'', ''sessions.reset'', ''sessions.resolve'',
      ''sessions.search'', ''sessions.send'', ''sessions.steer'', ''sessions.subscribe'',
      ''sessions.usage'', ''sessions.usage.logs'', ''sessions.usage.timeseries'', ''skills.detail'',
      ''skills.install'', ''skills.proposals.apply'', ''skills.proposals.evaluate'',
      ''skills.proposals.historyScan'', ''skills.proposals.historyStatus'',
      ''skills.proposals.inspect'', ''skills.proposals.list'', ''skills.proposals.reject'',
      ''skills.proposals.requestRevision'', ''skills.search'', ''skills.securityVerdicts'',
      ''skills.skillCard'', ''skills.status'', ''tasks.cancel'', ''tasks.dismiss'', ''tasks.get'',
      ''tasks.list'', ''tasks.retry'', ''terminal.attach'', ''terminal.close'', ''terminal.input'',
      ''terminal.list'', ''terminal.open'', ''terminal.resize'', ''taskSuggestions.accept'',
      ''taskSuggestions.dismiss'', ''taskSuggestions.list'', ''tools.catalog'', ''tools.effective'',
      ''usage.cost'', ''usage.status'', ''users.self'', ''wiki.delete'', ''wiki.document.get'',
      ''wiki.document.save'', ''wiki.get'', ''wiki.graph'', ''wiki.importInsights'', ''wiki.overview'',
      ''wiki.search'', ''wiki.status'']"

definition PLATFORMCLAW_WEB_LOCAL_METHODS :: "string list" where
  "PLATFORMCLAW_WEB_LOCAL_METHODS =
     KNOWLEDGE_VAULT_RPC_METHODS @ SPACE_RPC_METHODS @ BASEBALL_RPC_METHODS @ HORSE_RACING_RPC_METHODS @
     FISHING_RPC_METHODS @ [''commands.list'']"

section \<open>Parameters\<close>

text \<open>The parameters a method may have.\<close>

definition gameParams :: "(string \<times> string list) list" where
  "gameParams =
     [(BASEBALL_RPC_METHODS ! 0, []),
      (BASEBALL_RPC_METHODS ! 1, [''requestId'', ''outcome'', ''distanceM'', ''atBatId'', ''timingDeltaMs'']),
      (BASEBALL_RPC_METHODS ! 2, [''requestId'', ''batId'']),
      (BASEBALL_RPC_METHODS ! 3, [''requestId'', ''batId'']), (BASEBALL_RPC_METHODS ! 4, []),
      (BASEBALL_RPC_METHODS ! 5, [''requestId'']),
      (BASEBALL_RPC_METHODS ! 6, [''requestId'', ''expectedRevision'']),
      (BASEBALL_RPC_METHODS ! 7, [''requestId'', ''expectedRevision'', ''action'']),
      (BASEBALL_RPC_METHODS ! 8, [''requestId'', ''expectedRevision'']),
      (BASEBALL_RPC_METHODS ! 9, [''requestId'', ''expectedRevision'', ''teamId'']),
      (''platformclaw.racing.snapshot'', [''raceId'']),
      (''platformclaw.racing.bet'', [''requestId'', ''raceId'', ''market'', ''selection'', ''amount'']),
      (''platformclaw.racing.cancel'', [''betId'']), (''platformclaw.fishing.snapshot'', []),
      (''platformclaw.fishing.leaderboard'', []), (''platformclaw.fishing.begin'', [''requestId'']),
      (''platformclaw.fishing.hook'', [''requestId'', ''attemptId'']),
      (''platformclaw.fishing.reel'', [''requestId'', ''attemptId'', ''held'']),
      (''platformclaw.fishing.settle'', [''requestId'', ''attemptId'']),
      (''platformclaw.fishing.finish'', [''requestId'', ''attemptId''])]"

definition chatParams :: "(string \<times> string list) list" where
  "chatParams =
     [(''agent.identity.get'', [''agentId'', ''sessionKey'']),
      (''agents.files.get'', [''agentId'', ''name'']), (''agents.files.list'', [''agentId'']),
      (''agents.files.set'', [''agentId'', ''name'', ''content'']), (''agents.list'', []),
      (''agents.workspace.get'', [''agentId'', ''path'']),
      (''agents.workspace.list'', [''agentId'', ''path'']),
      (''artifacts.download'', [''sessionKey'', ''artifactId'', ''agentId'']),
      (''artifacts.get'', [''sessionKey'', ''artifactId'', ''agentId'']),
      (''artifacts.list'', [''sessionKey'', ''agentId'']),
      (''chat.abort'', [''sessionKey'', ''agentId'', ''preserveSideRuns'', ''runId'']),
      (''chat.history'', [''sessionKey'', ''agentId'', ''limit'', ''offset'', ''messageId'', ''sessionId'', ''maxChars'']),
      (''chat.message.get'', [''sessionKey'', ''agentId'', ''messageId'', ''maxChars'']),
      (''chat.metadata'', [''agentId'']),
      (''chat.send'', [''sessionKey'', ''agentId'', ''sessionId'', ''message'', ''thinking'', ''fastMode'', ''fastAutoOnSeconds'', ''queueMode'', ''deliver'', ''attachments'', ''timeoutMs'', ''idempotencyKey'', ''expectedLeafEntryId'', ''requireExactLeaf'', ''replyToId'', ''__controlUiReconnectResume'']),
      (''chat.startup'', [''sessionKey'', ''agentId'', ''limit'', ''offset'', ''messageId'', ''sessionId'', ''maxChars'']),
      (''chat.toolTitles'', [''sessionKey'', ''agentId'', ''items'']),
      (''commands.list'', [''agentId'', ''includeArgs'', ''scope'']),
      (''controlUi.githubPreview'', [''kind'', ''number'', ''owner'', ''repo'']),
      (''controlUi.sessionPullRequests.subscribe'', [''sessionKeys'', ''refreshSessionKeys'']),
      (''cron.add'', [''agentId'', ''deleteAfterRun'', ''delivery'', ''description'', ''enabled'', ''failureAlert'', ''name'', ''payload'', ''schedule'', ''sessionKey'', ''sessionTarget'', ''wakeMode'']),
      (''cron.get'', [''id'', ''jobId'']),
      (''cron.list'', [''agentId'', ''enabled'', ''includeDisabled'', ''includeDeliveryPreviews'', ''lastRunStatus'', ''limit'', ''offset'', ''query'', ''scheduleKind'', ''sortBy'', ''sortDir'']),
      (''cron.remove'', [''expectedConfigRevision'', ''id'', ''jobId'']),
      (''cron.run'', [''expectedConfigRevision'', ''expectedProcessInstanceId'', ''id'', ''jobId'', ''mode'']),
      (''cron.runs'', [''agentId'', ''deliveryStatus'', ''deliveryStatuses'', ''id'', ''jobId'', ''limit'', ''offset'', ''query'', ''runId'', ''scope'', ''sortDir'', ''status'', ''statuses'']),
      (''cron.status'', []),
      (''cron.update'', [''expectedConfigRevision'', ''id'', ''jobId'', ''patch''])]"

definition personalParams :: "(string \<times> string list) list" where
  "personalParams =
     [(''doctor.memory.backfillDreamDiary'', [''agentId'']),
      (''doctor.memory.dedupeDreamDiary'', [''agentId'']),
      (''doctor.memory.dreamDiary'', [''agentId'']),
      (''doctor.memory.repairDreamingArtifacts'', [''agentId'']),
      (''doctor.memory.resetDreamDiary'', [''agentId'']),
      (''doctor.memory.resetGroundedShortTerm'', [''agentId'']),
      (''doctor.memory.status'', [''agentId'', ''probe'']), (''models.list'', [''view'']),
      (''memory.search'', [''agentId'', ''query'', ''vaultId'', ''maxResults'', ''scope'']),
      (''memory.delete'', [''agentId'', ''path'', ''expectedContentHash'']),
      (''approval.history'', [''agentId'', ''cursor'', ''kind'', ''limit'']),
      (''approval.get'', [''id'']), (''approval.resolve'', [''id'', ''kind'', ''decision'']),
      (''plugins.install'', [''source'', ''packageName'', ''version'', ''acknowledgeClawHubRisk'', ''pluginId'']),
      (''plugins.list'', []), (''plugins.search'', [''query'', ''limit'']),
      (''plugins.setEnabled'', [''pluginId'', ''enabled'']), (''plugins.uninstall'', [''pluginId'']),
      (''plugin.surface.refresh'', [''surface'', ''observedUrl'']), (''question.get'', [''id'']),
      (''question.list'', []), (''question.resolve'', [''id'', ''answers'', ''cancel'']),
      (''sessions.abort'', [''key'', ''agentId'', ''clearQueued'']),
      (''sessions.branches.list'', [''sessionKey'', ''agentId'']),
      (''sessions.branches.switch'', [''sessionKey'', ''agentId'', ''leafEntryId'']),
      (''sessions.compact'', [''key'', ''agentId'']),
      (''sessions.compaction.branch'', [''key'', ''agentId'', ''checkpointId'']),
      (''sessions.compaction.get'', [''key'', ''agentId'', ''checkpointId'']),
      (''sessions.compaction.list'', [''key'', ''agentId'']),
      (''sessions.compaction.restore'', [''key'', ''agentId'', ''checkpointId'']),
      (''sessions.companion.ask'', [''sessionKey'', ''question'']),
      (''sessions.companion.reset'', [''sessionKey'']),
      (''sessions.companion.state'', [''sessionKey'']),
      (''sessions.create'', [''key'', ''agentId'', ''label'', ''model'', ''thinkingLevel'', ''model'', ''catalogId'', ''parentSessionKey'', ''fork'', ''emitCommandHooks'', ''succeedsParent'', ''message'', ''attachments'']),
      (''sessions.delete'', [''key'', ''agentId'', ''deleteTranscript'', ''archivedOnly'']),
      (''sessions.describe'', [''key'', ''includeDerivedTitles'', ''includeLastMessage''])]"

definition sessionParams :: "(string \<times> string list) list" where
  "sessionParams =
     [(''sessions.files.download'', [''sessionKey'', ''path'', ''agentId'']),
      (''sessions.files.get'', [''sessionKey'', ''path'', ''agentId'']),
      (''sessions.files.list'', [''sessionKey'', ''path'', ''search'', ''agentId'']),
      (''sessions.files.upload'', [''sessionKey'', ''path'', ''name'', ''contentBase64'', ''agentId'']),
      (''sessions.fork'', [''sessionKey'', ''entryId'', ''agentId'']),
      (''sessions.list'', [''limit'', ''offset'', ''activeMinutes'', ''requireLastInteraction'', ''sortBy'', ''includeGlobal'', ''includeUnknown'', ''configuredAgentsOnly'', ''includeDerivedTitles'', ''includeLastMessage'', ''label'', ''boardFace'', ''creatorId'', ''spawnedBy'', ''agentId'', ''search'', ''archived'']),
      (''sessions.messages.subscribe'', [''key'', ''agentId'', ''includeApprovals'']),
      (''sessions.messages.unsubscribe'', [''key'', ''agentId'']),
      (''sessions.observer.visibility'', [''visible'']),
      (''sessions.patch'', [''key'', ''agentId'', ''label'', ''category'', ''boardFace'', ''icon'', ''archived'', ''pinned'', ''unread'', ''thinkingLevel'', ''fastMode'', ''verboseLevel'', ''traceLevel'', ''reasoningLevel'', ''responseUsage'', ''model'']),
      (''sessions.preview'', [''keys'', ''limit'', ''maxChars'']),
      (''sessions.rewind'', [''sessionKey'', ''entryId'', ''agentId'']),
      (''sessions.reset'', [''key'', ''agentId'', ''reason'']),
      (''sessions.resolve'', [''key'', ''sessionId'', ''label'', ''agentId'', ''spawnedBy'', ''includeGlobal'', ''includeUnknown'', ''allowMissing'']),
      (''sessions.search'', [''agentId'', ''sessionKeys'', ''query'', ''limit'', ''mode'', ''scope'', ''sessionId'', ''offset'']),
      (''sessions.send'', [''key'', ''agentId'', ''message'', ''thinking'', ''attachments'', ''timeoutMs'', ''idempotencyKey'']),
      (''sessions.steer'', [''key'', ''agentId'', ''message'', ''thinking'', ''attachments'', ''timeoutMs'', ''idempotencyKey'']),
      (''sessions.subscribe'', []),
      (''sessions.usage'', [''key'', ''agentId'', ''agentScope'', ''startDate'', ''endDate'', ''mode'', ''range'', ''groupBy'', ''includeHistorical'', ''utcOffset'', ''timeZone'', ''limit'', ''includeContextWeight''])]"

definition workshopParams :: "(string \<times> string list) list" where
  "workshopParams =
     [(''skills.detail'', [''slug'']), (''sessions.usage.logs'', [''key'', ''agentId'', ''limit'']),
      (''sessions.usage.timeseries'', [''key'', ''agentId'']),
      (''skills.install'', [''agentId'', ''source'', ''slug'', ''version'', ''force'', ''acknowledgeClawHubRisk'', ''timeoutMs'']),
      (''skills.proposals.apply'', [''agentId'', ''proposalId'', ''expectedRevisionHash'', ''correlationId'', ''reason'']),
      (''skills.proposals.evaluate'', [''agentId'', ''proposalId'', ''expectedRevisionHash'', ''correlationId'']),
      (''skills.proposals.historyScan'', [''agentId'', ''direction'']),
      (''skills.proposals.historyStatus'', [''agentId'']),
      (''skills.proposals.inspect'', [''agentId'', ''proposalId'']),
      (''skills.proposals.list'', [''agentId'']),
      (''skills.proposals.reject'', [''agentId'', ''proposalId'', ''expectedRevisionHash'', ''correlationId'', ''reason'']),
      (''skills.proposals.requestRevision'', [''agentId'', ''targetAgentId'', ''proposalId'', ''instructions'', ''sessionKey'', ''sessionId'', ''idempotencyKey'']),
      (''skills.search'', [''query'', ''limit'']), (''skills.securityVerdicts'', [''agentId'']),
      (''skills.skillCard'', [''agentId'', ''skillKey'']),
      (''skills.status'', [''agentId'', ''refresh'']), (''tasks.cancel'', [''taskId'', ''reason'']),
      (''tasks.dismiss'', [''taskIds'']), (''tasks.get'', [''taskId'']),
      (''tasks.list'', [''status'', ''agentId'', ''sessionKey'', ''limit'', ''cursor'']),
      (''tasks.retry'', [''taskIds'']), (''terminal.attach'', [''sessionId'']),
      (''terminal.close'', [''sessionId'']), (''terminal.input'', [''sessionId'', ''data'']),
      (''terminal.list'', []), (''terminal.open'', [''cols'', ''rows'']),
      (''terminal.resize'', [''sessionId'', ''cols'', ''rows'']),
      (''taskSuggestions.accept'', [''taskId'']),
      (''taskSuggestions.dismiss'', [''taskId'', ''reason'']),
      (''taskSuggestions.list'', [''agentId'', ''sessionKey'']),
      (''tools.catalog'', [''agentId'', ''includePlugins'']),
      (''tools.effective'', [''agentId'', ''sessionKey'']),
      (''usage.cost'', [''agentId'', ''agentScope'', ''startDate'', ''endDate'', ''days'', ''range'', ''mode'', ''utcOffset'', ''timeZone'']),
      (''users.self'', []), (''wiki.delete'', [''agentId'', ''path'', ''expectedContentHash'']),
      (''wiki.document.get'', [''agentId'', ''lookup'']),
      (''wiki.document.save'', [''agentId'', ''path'', ''editMode'', ''content'', ''expectedRevision'', ''title'']),
      (''usage.status'', [''agentId'']),
      (''wiki.get'', [''agentId'', ''lookup'', ''fromLine'', ''lineCount'']),
      (''wiki.graph'', [''agentId'']), (''wiki.importInsights'', [''agentId'']),
      (''wiki.overview'', [''agentId'']),
      (''wiki.search'', [''agentId'', ''query'', ''maxResults'', ''mode'', ''vaultId'', ''scope'']),
      (''wiki.status'', [''agentId''])]"

definition PLATFORMCLAW_WEB_ALLOWED_PARAMS :: "(string \<times> string list) list" where
  "PLATFORMCLAW_WEB_ALLOWED_PARAMS =
     SPACE_RPC_PARAMS @ KNOWLEDGE_VAULT_RPC_PARAMS @ gameParams @ PLATFORMCLAW_WEB_TALK_PARAMS @ chatParams @
     personalParams @ sessionParams @ workshopParams"

text \<open>\<open>PLATFORMCLAW_WEB_ALLOWED_PARAMS.get(method)\<close>: of two entries the later one counts.\<close>

definition allowedParamsOf :: "string \<Rightarrow> string list option" where
  "allowedParamsOf method = map_of (rev PLATFORMCLAW_WEB_ALLOWED_PARAMS) method"

section \<open>Binding to the agent\<close>

definition PLATFORMCLAW_WEB_AGENT_ONLY_METHODS :: "string list" where
  "PLATFORMCLAW_WEB_AGENT_ONLY_METHODS =
     [''agent.identity.get'', ''agents.files.get'', ''agents.files.list'', ''agents.files.set'',
      ''agents.workspace.get'', ''agents.workspace.list'', ''approval.history'', ''chat.metadata'',
      ''commands.list'', ''memory.search'', ''memory.delete'', ''sessions.usage'', ''skills.install'',
      ''skills.proposals.apply'', ''skills.proposals.evaluate'', ''skills.proposals.historyScan'',
      ''skills.proposals.historyStatus'', ''skills.proposals.inspect'', ''skills.proposals.list'',
      ''skills.proposals.reject'', ''skills.proposals.requestRevision'', ''skills.securityVerdicts'',
      ''skills.skillCard'', ''skills.status'', ''tasks.list'', ''tools.catalog'', ''usage.cost'',
      ''usage.status'']"

definition PLATFORMCLAW_WEB_ADMIN_METHODS :: "string list" where
  "PLATFORMCLAW_WEB_ADMIN_METHODS =
     [''plugins.install'', ''plugins.list'', ''plugins.search'', ''plugins.setEnabled'',
      ''plugins.uninstall'']"

definition PLATFORMCLAW_WEB_SESSION_KEY_METHODS :: "(string \<times> string) list" where
  "PLATFORMCLAW_WEB_SESSION_KEY_METHODS =
     [(''chat.abort'', ''sessionKey''), (''chat.history'', ''sessionKey''),
      (''chat.message.get'', ''sessionKey''), (''chat.send'', ''sessionKey''),
      (''chat.startup'', ''sessionKey''), (''chat.toolTitles'', ''sessionKey''),
      (''artifacts.download'', ''sessionKey''), (''artifacts.get'', ''sessionKey''),
      (''artifacts.list'', ''sessionKey''), (''sessions.abort'', ''key''),
      (''sessions.branches.list'', ''sessionKey''), (''sessions.branches.switch'', ''sessionKey''),
      (''sessions.compact'', ''key''), (''sessions.compaction.branch'', ''key''),
      (''sessions.compaction.get'', ''key''), (''sessions.compaction.list'', ''key''),
      (''sessions.compaction.restore'', ''key''), (''sessions.describe'', ''key''),
      (''sessions.files.download'', ''sessionKey''), (''sessions.files.get'', ''sessionKey''),
      (''sessions.files.list'', ''sessionKey''), (''sessions.files.upload'', ''sessionKey''),
      (''sessions.fork'', ''sessionKey''), (''sessions.messages.subscribe'', ''key''),
      (''sessions.messages.unsubscribe'', ''key''), (''sessions.patch'', ''key''),
      (''sessions.reset'', ''key''), (''sessions.rewind'', ''sessionKey''),
      (''sessions.steer'', ''key''), (''sessions.send'', ''key''), (''sessions.usage.logs'', ''key''),
      (''sessions.usage.timeseries'', ''key''), (''tools.effective'', ''sessionKey'')]"

section \<open>Order of requests\<close>

definition MUTATING_BROWSER_METHODS :: "string list" where
  "MUTATING_BROWSER_METHODS =
     filter (\<lambda>m. m \<notin> {''talk.catalog'', ''talk.config'', ''agent.wait''}) PLATFORMCLAW_WEB_TALK_METHODS @
     [''approval.resolve'', ''agents.files.set'', ''chat.abort'', ''chat.send'',
      ''platformclaw.spaces.create'', ''platformclaw.spaces.member.set'',
      ''platformclaw.spaces.member.remove'', ''platformclaw.spaces.page.create'',
      ''platformclaw.spaces.page.save'', ''platformclaw.spaces.conversation.create'',
      ''platformclaw.baseball.plateAppearance'', ''platformclaw.baseball.purchaseBat'',
      ''platformclaw.baseball.equipBat'', ''controlUi.sessionPullRequests.subscribe'', ''cron.add'',
      ''cron.remove'', ''cron.run'', ''cron.update'', ''question.resolve'', ''sessions.abort'',
      ''sessions.branches.switch'', ''sessions.compact'', ''sessions.compaction.branch'',
      ''sessions.compaction.restore'', ''sessions.create'', ''sessions.delete'',
      ''sessions.observer.visibility'', ''sessions.patch'', ''sessions.reset'', ''sessions.rewind'',
      ''sessions.send'', ''sessions.steer'', ''skills.proposals.apply'', ''skills.proposals.evaluate'',
      ''skills.proposals.historyScan'', ''skills.proposals.reject'',
      ''skills.proposals.requestRevision'', ''taskSuggestions.accept'', ''taskSuggestions.dismiss'',
      ''terminal.attach'', ''terminal.close'', ''terminal.input'', ''terminal.open'',
      ''terminal.resize'']"

definition isMutatingBrowserGatewayMethod :: "string \<Rightarrow> bool" where
  "isMutatingBrowserGatewayMethod method \<longleftrightarrow>
     method \<in> set MUTATING_BROWSER_METHODS
     \<or> prefix ''platformclaw.vault.'' method \<and> method \<noteq> ''platformclaw.vault.snapshot''
        \<and> method \<noteq> ''platformclaw.vault.document.get''"

section \<open>The tables fit together\<close>

lemmas policy_defs =
  BASEBALL_RPC_METHODS_def FISHING_RPC_METHODS_def HORSE_RACING_RPC_METHODS_def SPACE_RPC_PARAMS_def
  SPACE_RPC_METHODS_def KNOWLEDGE_VAULT_RPC_PARAMS_def KNOWLEDGE_VAULT_RPC_METHODS_def
  PLATFORMCLAW_WEB_TALK_METHODS_def PLATFORMCLAW_WEB_TALK_PARAMS_def LAUNCH_FIELDS_def

section \<open>The methods with a parameter\<close>

definition withParam :: "(string \<times> string list) list \<Rightarrow> string \<Rightarrow> string list" where
  "withParam table key = map fst (filter (\<lambda>e. key \<in> set (snd e)) table)"

definition methodsWith :: "string \<Rightarrow> string list" where
  "methodsWith key = withParam PLATFORMCLAW_WEB_ALLOWED_PARAMS key"

definition boundFields :: "string list" where
  "boundFields =
     [''key'', ''sessionKey'', ''parentSessionKey'', ''keys'', ''sessionKeys'', ''refreshSessionKeys'',
      ''agentId'', ''runId'', ''personalAutomations'']"

lemma withParam_SPACE_RPC_PARAMS:
  "map (withParam SPACE_RPC_PARAMS) boundFields =
     [[],
      [''platformclaw.spaces.conversation.resolve''],
      [],
      [],
      [],
      [],
      [''platformclaw.spaces.conversation.resolve''],
      [],
      []]"
  by code_simp

lemma withParam_KNOWLEDGE_VAULT_RPC_PARAMS:
  "map (withParam KNOWLEDGE_VAULT_RPC_PARAMS) boundFields =
     [[],
      [],
      [],
      [],
      [],
      [],
      [],
      [],
      []]"
  by code_simp

lemma withParam_gameParams:
  "map (withParam gameParams) boundFields =
     [[],
      [],
      [],
      [],
      [],
      [],
      [],
      [],
      []]"
  by code_simp

lemma withParam_PLATFORMCLAW_WEB_TALK_PARAMS:
  "map (withParam PLATFORMCLAW_WEB_TALK_PARAMS) boundFields =
     [[],
      [''talk.client.create'', ''talk.client.toolCall'', ''talk.client.transcript'',
        ''talk.client.close'', ''talk.client.steer'', ''talk.session.create'', ''talk.session.steer''],
      [],
      [],
      [],
      [],
      [],
      [''agent.wait''],
      []]"
  by code_simp

lemma withParam_chatParams:
  "map (withParam chatParams) boundFields =
     [[],
      [''agent.identity.get'', ''artifacts.download'', ''artifacts.get'', ''artifacts.list'',
        ''chat.abort'', ''chat.history'', ''chat.message.get'', ''chat.send'', ''chat.startup'',
        ''chat.toolTitles'', ''cron.add''],
      [],
      [],
      [''controlUi.sessionPullRequests.subscribe''],
      [''controlUi.sessionPullRequests.subscribe''],
      [''agent.identity.get'', ''agents.files.get'', ''agents.files.list'', ''agents.files.set'',
        ''agents.workspace.get'', ''agents.workspace.list'', ''artifacts.download'', ''artifacts.get'',
        ''artifacts.list'', ''chat.abort'', ''chat.history'', ''chat.message.get'', ''chat.metadata'',
        ''chat.send'', ''chat.startup'', ''chat.toolTitles'', ''commands.list'', ''cron.add'',
        ''cron.list'', ''cron.runs''],
      [''chat.abort'', ''cron.runs''],
      []]"
  by code_simp

lemma withParam_personalParams:
  "map (withParam personalParams) boundFields =
     [[''sessions.abort'', ''sessions.compact'', ''sessions.compaction.branch'',
        ''sessions.compaction.get'', ''sessions.compaction.list'', ''sessions.compaction.restore'',
        ''sessions.create'', ''sessions.delete'', ''sessions.describe''],
      [''sessions.branches.list'', ''sessions.branches.switch'', ''sessions.companion.ask'',
        ''sessions.companion.reset'', ''sessions.companion.state''],
      [''sessions.create''],
      [],
      [],
      [],
      [''doctor.memory.backfillDreamDiary'', ''doctor.memory.dedupeDreamDiary'',
        ''doctor.memory.dreamDiary'', ''doctor.memory.repairDreamingArtifacts'',
        ''doctor.memory.resetDreamDiary'', ''doctor.memory.resetGroundedShortTerm'',
        ''doctor.memory.status'', ''memory.search'', ''memory.delete'', ''approval.history'',
        ''sessions.abort'', ''sessions.branches.list'', ''sessions.branches.switch'',
        ''sessions.compact'', ''sessions.compaction.branch'', ''sessions.compaction.get'',
        ''sessions.compaction.list'', ''sessions.compaction.restore'', ''sessions.create'',
        ''sessions.delete''],
      [],
      []]"
  by code_simp

lemma withParam_sessionParams:
  "map (withParam sessionParams) boundFields =
     [[''sessions.messages.subscribe'', ''sessions.messages.unsubscribe'', ''sessions.patch'',
        ''sessions.reset'', ''sessions.resolve'', ''sessions.send'', ''sessions.steer'',
        ''sessions.usage''],
      [''sessions.files.download'', ''sessions.files.get'', ''sessions.files.list'',
        ''sessions.files.upload'', ''sessions.fork'', ''sessions.rewind''],
      [],
      [''sessions.preview''],
      [''sessions.search''],
      [],
      [''sessions.files.download'', ''sessions.files.get'', ''sessions.files.list'',
        ''sessions.files.upload'', ''sessions.fork'', ''sessions.list'',
        ''sessions.messages.subscribe'', ''sessions.messages.unsubscribe'', ''sessions.patch'',
        ''sessions.rewind'', ''sessions.reset'', ''sessions.resolve'', ''sessions.search'',
        ''sessions.send'', ''sessions.steer'', ''sessions.usage''],
      [],
      []]"
  by code_simp

lemma withParam_workshopParams:
  "map (withParam workshopParams) boundFields =
     [[''sessions.usage.logs'', ''sessions.usage.timeseries''],
      [''skills.proposals.requestRevision'', ''tasks.list'', ''taskSuggestions.list'',
        ''tools.effective''],
      [],
      [],
      [],
      [],
      [''sessions.usage.logs'', ''sessions.usage.timeseries'', ''skills.install'',
        ''skills.proposals.apply'', ''skills.proposals.evaluate'', ''skills.proposals.historyScan'',
        ''skills.proposals.historyStatus'', ''skills.proposals.inspect'', ''skills.proposals.list'',
        ''skills.proposals.reject'', ''skills.proposals.requestRevision'', ''skills.securityVerdicts'',
        ''skills.skillCard'', ''skills.status'', ''tasks.list'', ''taskSuggestions.list'',
        ''tools.catalog'', ''tools.effective'', ''usage.cost'', ''wiki.delete'', ''wiki.document.get'',
        ''wiki.document.save'', ''usage.status'', ''wiki.get'', ''wiki.graph'', ''wiki.importInsights'',
        ''wiki.overview'', ''wiki.search'', ''wiki.status''],
      [],
      []]"
  by code_simp

definition boundTable :: "(string \<times> string list) list" where
  "boundTable =
     [(''key'', [''sessions.abort'', ''sessions.compact'', ''sessions.compaction.branch'',
          ''sessions.compaction.get'', ''sessions.compaction.list'', ''sessions.compaction.restore'',
          ''sessions.create'', ''sessions.delete'', ''sessions.describe'',
          ''sessions.messages.subscribe'', ''sessions.messages.unsubscribe'', ''sessions.patch'',
          ''sessions.reset'', ''sessions.resolve'', ''sessions.send'', ''sessions.steer'',
          ''sessions.usage'', ''sessions.usage.logs'', ''sessions.usage.timeseries'']),
      (''sessionKey'', [''platformclaw.spaces.conversation.resolve'', ''talk.client.create'',
          ''talk.client.toolCall'', ''talk.client.transcript'', ''talk.client.close'',
          ''talk.client.steer'', ''talk.session.create'', ''talk.session.steer'',
          ''agent.identity.get'', ''artifacts.download'', ''artifacts.get'', ''artifacts.list'',
          ''chat.abort'', ''chat.history'', ''chat.message.get'', ''chat.send'', ''chat.startup'',
          ''chat.toolTitles'', ''cron.add'', ''sessions.branches.list'', ''sessions.branches.switch'',
          ''sessions.companion.ask'', ''sessions.companion.reset'', ''sessions.companion.state'',
          ''sessions.files.download'', ''sessions.files.get'', ''sessions.files.list'',
          ''sessions.files.upload'', ''sessions.fork'', ''sessions.rewind'',
          ''skills.proposals.requestRevision'', ''tasks.list'', ''taskSuggestions.list'',
          ''tools.effective'']),
      (''parentSessionKey'', [''sessions.create'']),
      (''keys'', [''sessions.preview'']),
      (''sessionKeys'', [''controlUi.sessionPullRequests.subscribe'', ''sessions.search'']),
      (''refreshSessionKeys'', [''controlUi.sessionPullRequests.subscribe'']),
      (''agentId'', [''platformclaw.spaces.conversation.resolve'', ''agent.identity.get'', ''agents.files.get'',
          ''agents.files.list'', ''agents.files.set'', ''agents.workspace.get'',
          ''agents.workspace.list'', ''artifacts.download'', ''artifacts.get'', ''artifacts.list'',
          ''chat.abort'', ''chat.history'', ''chat.message.get'', ''chat.metadata'', ''chat.send'',
          ''chat.startup'', ''chat.toolTitles'', ''commands.list'', ''cron.add'', ''cron.list'',
          ''cron.runs'', ''doctor.memory.backfillDreamDiary'', ''doctor.memory.dedupeDreamDiary'',
          ''doctor.memory.dreamDiary'', ''doctor.memory.repairDreamingArtifacts'',
          ''doctor.memory.resetDreamDiary'', ''doctor.memory.resetGroundedShortTerm'',
          ''doctor.memory.status'', ''memory.search'', ''memory.delete'', ''approval.history'',
          ''sessions.abort'', ''sessions.branches.list'', ''sessions.branches.switch'',
          ''sessions.compact'', ''sessions.compaction.branch'', ''sessions.compaction.get'',
          ''sessions.compaction.list'', ''sessions.compaction.restore'', ''sessions.create'',
          ''sessions.delete'', ''sessions.files.download'', ''sessions.files.get'',
          ''sessions.files.list'', ''sessions.files.upload'', ''sessions.fork'', ''sessions.list'',
          ''sessions.messages.subscribe'', ''sessions.messages.unsubscribe'', ''sessions.patch'',
          ''sessions.rewind'', ''sessions.reset'', ''sessions.resolve'', ''sessions.search'',
          ''sessions.send'', ''sessions.steer'', ''sessions.usage'', ''sessions.usage.logs'',
          ''sessions.usage.timeseries'', ''skills.install'', ''skills.proposals.apply'',
          ''skills.proposals.evaluate'', ''skills.proposals.historyScan'',
          ''skills.proposals.historyStatus'', ''skills.proposals.inspect'', ''skills.proposals.list'',
          ''skills.proposals.reject'', ''skills.proposals.requestRevision'',
          ''skills.securityVerdicts'', ''skills.skillCard'', ''skills.status'', ''tasks.list'',
          ''taskSuggestions.list'', ''tools.catalog'', ''tools.effective'', ''usage.cost'',
          ''wiki.delete'', ''wiki.document.get'', ''wiki.document.save'', ''usage.status'',
          ''wiki.get'', ''wiki.graph'', ''wiki.importInsights'', ''wiki.overview'', ''wiki.search'',
          ''wiki.status'']),
      (''runId'', [''agent.wait'', ''chat.abort'', ''cron.runs'']),
      (''personalAutomations'', [])]"

lemma withParam_append: "withParam (xs @ ys) k = withParam xs k @ withParam ys k"
  by (simp add: withParam_def)

lemma methodsWith_table: "map (\<lambda>f. (f, methodsWith f)) boundFields = boundTable"
  using withParam_SPACE_RPC_PARAMS
    withParam_KNOWLEDGE_VAULT_RPC_PARAMS
    withParam_gameParams
    withParam_PLATFORMCLAW_WEB_TALK_PARAMS
    withParam_chatParams
    withParam_personalParams
    withParam_sessionParams
    withParam_workshopParams
  by (simp add: boundFields_def boundTable_def methodsWith_def PLATFORMCLAW_WEB_ALLOWED_PARAMS_def withParam_append)

text \<open>Whether the policy of a method allows a field: read off the table above.\<close>

definition mentions :: "string \<Rightarrow> string \<Rightarrow> bool" where
  "mentions method f \<longleftrightarrow> (case map_of boundTable f of None \<Rightarrow> True | Some ms \<Rightarrow> method \<in> set ms)"

definition admitted :: "string \<Rightarrow> js_object \<Rightarrow> bool" where
  "admitted method params \<longleftrightarrow> (\<exists>allowed. allowedParamsOf method = Some allowed \<and> fst ` set params \<subseteq> set allowed)"

lemma map_of_graph: "map_of (map (\<lambda>f. (f, g f)) fs) k = (if k \<in> set fs then Some (g k) else None)"
  by (induction fs) auto

lemma mentions_iff: "f \<in> set boundFields \<Longrightarrow> mentions method f \<longleftrightarrow> method \<in> set (methodsWith f)"
  by (simp add: mentions_def methodsWith_table [symmetric] map_of_graph)

lemma allowed_methodsWith: "allowedParamsOf method = Some ps \<Longrightarrow> key \<in> set ps \<Longrightarrow> method \<in> set (methodsWith key)"
  by (force simp: allowedParamsOf_def methodsWith_def withParam_def dest!: map_of_SomeD)

lemma admitted_lacks:
  assumes "admitted method params" and "\<not> mentions method f"
  shows "fieldOf params f = JUndefined"
proof -
  have f: "f \<in> set boundFields"
    using assms(2) by (auto simp: mentions_def methodsWith_table [symmetric] map_of_graph split: if_splits)
  have "f \<notin> fst ` set params"
    using assms allowed_methodsWith mentions_iff [OF f] by (auto simp: admitted_def)
  then show ?thesis by (rule fieldOf_absent)
qed

end
