(* ===== verification/GatewayAccess.thy ===== *)
theory GatewayAccess
  imports GatewayJson BrowserAuth
begin

text \<open>
  Who a browser request acts for (\<open>browser-gateway-access.ts\<close>), the checks of agent ids and session keys
  (\<open>browser-gateway-assertions.ts\<close>) and the session keys of the deployment (\<open>deployment-runtime.ts\<close>).
\<close>

section \<open>Access and options\<close>

record gateway_access =
  ga_user :: platform_user
  ga_session :: "browser_session option"
  ga_binding :: agent_binding
  ga_mainSessionKey :: string

text \<open>
  What the boundary asks of its environment: the agent of a session key, whether a key is registered as a
  space conversation, which voice runs the browser owns, and how a pagination cursor decodes
  (\<open>JSON.parse\<close> of base64url).
\<close>

record gateway_options =
  go_resolve :: "string \<Rightarrow> string option"
  go_registered :: "string \<Rightarrow> bool"
  go_ownsRun :: "string \<Rightarrow> bool"
  go_decodeCursor :: "string \<Rightarrow> js_value option"

definition createBrowserSenderAttribution :: "gateway_access \<Rightarrow> js_object" where
  "createBrowserSenderAttribution access =
     (''id'', JStr (u_accountId (ga_user access)))
     # (case u_displayName (ga_user access) of
          Some name \<Rightarrow> if name = [] then [] else [(''name'', JStr name)]
        | None \<Rightarrow> [])
     @ [(''profileId'', JStr (u_id (ga_user access))), (''agentId'', JStr (b_agentId (ga_binding access))),
        (''isOwner'', JBool False)]"

section \<open>Session keys of the deployment\<close>

definition lowerCaseAgentId :: "string \<Rightarrow> bool" where
  "lowerCaseAgentId agentId \<longleftrightarrow> isValidAgentId (Some agentId) \<and> agentId = toLowerCase agentId"

definition buildPersonalMainSessionKey :: "string \<Rightarrow> error + string" where
  "buildPersonalMainSessionKey agentId =
     (if \<not> lowerCaseAgentId agentId then Inl (PlainError ''invalid personal agent id'' [agentId])
      else Inr (''agent:'' @ agentId @ '':main''))"

text \<open>\<open>/^agent:([^:]+):/u\<close>\<close>

definition resolvePersonalAgentId :: "string \<Rightarrow> string option" where
  "resolvePersonalAgentId sessionKey =
     (case splitOn (CHR '':'') sessionKey of
        scheme # agentId # _ # _ \<Rightarrow>
          if scheme = ''agent'' \<and> agentId \<noteq> [] \<and> lowerCaseAgentId agentId then Some agentId else None
      | _ \<Rightarrow> None)"

section \<open>Assertions\<close>

definition assertOptionalAgentId :: "string \<Rightarrow> js_value \<Rightarrow> string \<Rightarrow> gateway_error + unit" where
  "assertOptionalAgentId agentId rawAgentId label =
     (case optionalString rawAgentId of
        None \<Rightarrow> Inr ()
      | Some requested \<Rightarrow> require (requested = agentId) CrossAgentDenied (''browser access denied for '' @ label))"

definition ownedSessionKey ::
    "(string \<Rightarrow> string option) \<Rightarrow> string \<Rightarrow> js_value \<Rightarrow> string \<Rightarrow> gateway_error + string" where
  "ownedSessionKey resolve agentId rawSessionKey label =
     (case optionalString rawSessionKey of
        None \<Rightarrow> refuse InvalidParams (label @ '' is required'')
      | Some sessionKey \<Rightarrow>
          if resolve sessionKey \<noteq> Some agentId
          then refuse CrossAgentDenied (''browser access denied for '' @ label)
          else Inr sessionKey)"

definition sessionKeyArray ::
    "(string \<Rightarrow> string option) \<Rightarrow> string \<Rightarrow> js_value \<Rightarrow> string \<Rightarrow> bool \<Rightarrow> gateway_error + unit" where
  "sessionKeyArray resolve agentId value label required =
     (if value = JUndefined \<and> \<not> required then Inr ()
      else
        case value of
          JArr keys \<Rightarrow>
            if required \<and> keys = [] then refuse InvalidParams (label @ '' must be a non-empty array'')
            else resultThen (mapResult (\<lambda>key. ownedSessionKey resolve agentId key label) keys) (\<lambda>_. Inr ())
        | _ \<Rightarrow> refuse InvalidParams (label @ '' must be a non-empty array''))"

definition sessionSearch :: "(string \<Rightarrow> string option) \<Rightarrow> string \<Rightarrow> js_object \<Rightarrow> gateway_error + unit" where
  "sessionSearch resolve agentId params =
     resultThen (assertOptionalAgentId agentId (fieldOf params ''agentId'') ''sessions.search'') (\<lambda>_.
       if fieldOf params ''scope'' \<noteq> JStr ''agent'' \<or> fieldOf params ''sessionKeys'' \<noteq> JUndefined
       then sessionKeyArray resolve agentId (fieldOf params ''sessionKeys'') ''sessionKeys'' True
       else Inr ())"

definition ownedResultSessionKey ::
    "(string \<Rightarrow> string option) \<Rightarrow> string \<Rightarrow> js_value \<Rightarrow> gateway_error + unit" where
  "ownedResultSessionKey resolve agentId rawSessionKey =
     require (\<exists>key. optionalString rawSessionKey = Some key \<and> resolve key = Some agentId) UpstreamResultDenied
       ''Gateway returned a session outside the browser binding''"

definition methodParams :: "(string \<Rightarrow> string list option) \<Rightarrow> string \<Rightarrow> js_object \<Rightarrow> gateway_error + unit" where
  "methodParams allowedParams method params =
     (case allowedParams method of
        None \<Rightarrow> refuse MethodNotAllowed (''Gateway method has no browser parameter policy: '' @ method)
      | Some allowed \<Rightarrow>
          (case find (\<lambda>key. key \<notin> set allowed) (map fst params) of
             None \<Rightarrow> Inr ()
           | Some disallowed \<Rightarrow>
               refuse MethodNotAllowed
                 (''Gateway parameter is not available to browser users: '' @ method @ ''.'' @ disallowed)))"

section \<open>Whose session a key is\<close>

text \<open>A value that names a session of the agent, as the code reads it.\<close>

definition ownsKey :: "(string \<Rightarrow> string option) \<Rightarrow> string \<Rightarrow> js_value \<Rightarrow> bool" where
  "ownsKey resolve agentId v \<longleftrightarrow>
     (case optionalString v of None \<Rightarrow> False | Some key \<Rightarrow> resolve key = Some agentId)"

lemma assertOptionalAgentId_ok [ok_iff]:
  "assertOptionalAgentId agentId v label = Inr u \<longleftrightarrow> optionalString v \<in> {None, Some agentId}"
  by (auto simp: assertOptionalAgentId_def ok_iff split: option.splits)

lemma ownedSessionKey_ok [ok_iff]:
  "ownedSessionKey resolve agentId v label = Inr key \<longleftrightarrow> optionalString v = Some key \<and> resolve key = Some agentId"
  by (auto simp: ownedSessionKey_def split: option.splits)

lemma ownsKey_iff: "ownsKey resolve agentId v \<longleftrightarrow> (\<exists>key. ownedSessionKey resolve agentId v label = Inr key)"
  by (auto simp: ownsKey_def ok_iff split: option.splits)

lemma ownsKey_ok: "ownedSessionKey resolve agentId v label = Inr key \<Longrightarrow> ownsKey resolve agentId v"
  by (auto simp: ownsKey_def ok_iff)

lemma sessionKeyArray_ok [ok_iff]:
  "sessionKeyArray resolve agentId v label required = Inr u \<longleftrightarrow>
     v = JUndefined \<and> \<not> required
     \<or> (\<exists>keys. v = JArr keys \<and> (required \<longrightarrow> keys \<noteq> []) \<and> (\<forall>key \<in> set keys. ownsKey resolve agentId key))"
proof -
  have *: "(\<exists>ys. mapResult (\<lambda>key. ownedSessionKey resolve agentId key label) keys = Inr ys)
      \<longleftrightarrow> (\<forall>key \<in> set keys. ownsKey resolve agentId key)" for keys
    by (induction keys) (auto simp: ok_iff ownsKey_def split: option.splits)
  show ?thesis
    using * by (auto simp: sessionKeyArray_def ok_iff split: js_value.splits)
qed

lemma ownedResultSessionKey_ok [ok_iff]:
  "ownedResultSessionKey resolve agentId v = Inr u \<longleftrightarrow> ownsKey resolve agentId v"
  by (auto simp: ownedResultSessionKey_def ownsKey_def ok_iff split: option.splits)

lemma methodParams_ok [ok_iff]:
  "methodParams allowedParams method params = Inr u \<longleftrightarrow>
     (\<exists>allowed. allowedParams method = Some allowed \<and> fst ` set params \<subseteq> set allowed)"
proof (cases "allowedParams method")
  case (Some allowed)
  have "find (\<lambda>key. key \<notin> set allowed) (map fst params) = None \<longleftrightarrow> fst ` set params \<subseteq> set allowed"
    by (auto simp: find_None_iff)
  with Some show ?thesis by (auto simp: methodParams_def split: option.split)
qed (simp add: methodParams_def)

text \<open>The keys of the deployment name their agent literally, and an agent owns its main session.\<close>

lemma set_trim_space: "c \<in> set s \<Longrightarrow> c \<in> set (trim s) \<or> isSpace c"
proof -
  assume c: "c \<in> set s"
  have drop: "c \<in> set (dropWhile isSpace xs) \<or> isSpace c" if "c \<in> set xs" for xs
    using that by (induction xs) auto
  show ?thesis
    using drop [OF c] drop [of "rev (trimStart s)"] by (auto simp: trim_def trimStart_def trimEnd_def)
qed

lemma lowerCaseAgentId_chars: "lowerCaseAgentId a \<Longrightarrow> CHR '':'' \<notin> set a \<and> a \<noteq> []"
proof -
  assume "lowerCaseAgentId a"
  then have v: "validIdRe (trim a)" by (simp add: lowerCaseAgentId_def isValidAgentId_iff)
  have "CHR '':'' \<notin> set (trim a)"
    using validIdRe_chars [OF v, of "CHR '':''"]
    by (auto simp: isAlnumChar_def isDigitChar_def isUpperChar_def isLowerChar_def)
  moreover have "\<not> isSpace (CHR '':'')" by (simp add: isSpace_def)
  moreover from v have "a \<noteq> []" by (auto simp: validIdRe_def)
  ultimately show ?thesis using set_trim_space by blast
qed

lemma splitOn_none: "d \<notin> set s \<Longrightarrow> splitOn d s = [s]"
  by (induction s) auto

text \<open>The keys of the deployment name their agent literally, and an agent owns its main session.\<close>

lemma resolvePersonalAgentId_iff:
  "resolvePersonalAgentId key = Some a \<longleftrightarrow> lowerCaseAgentId a \<and> (\<exists>rest. key = ''agent:'' @ a @ '':'' @ rest)"
    (is "?lhs \<longleftrightarrow> ?rhs")
proof
  assume ?lhs
  then obtain x xs where s: "splitOn (CHR '':'') key = ''agent'' # a # x # xs" and a: "lowerCaseAgentId a"
    by (auto simp: resolvePersonalAgentId_def split: list.splits if_splits)
  have "key = joinWith (CHR '':'') (''agent'' # a # x # xs)"
    by (simp add: s [symmetric] joinWith_splitOn)
  with a show ?rhs by auto
next
  assume ?rhs
  then obtain rest where key: "key = ''agent'' @ CHR '':'' # a @ CHR '':'' # rest" and a: "lowerCaseAgentId a"
    by auto
  have "splitOn (CHR '':'') key = ''agent'' # a # splitOn (CHR '':'') rest"
    using lowerCaseAgentId_chars [OF a] unfolding key by (simp only: splitOn_append) (simp add: splitOn_none)
  with a lowerCaseAgentId_chars [OF a] show ?lhs
    by (auto simp: resolvePersonalAgentId_def split: list.split)
qed

lemma main_session_owned: "buildPersonalMainSessionKey a = Inr key \<Longrightarrow> resolvePersonalAgentId key = Some a"
  by (auto simp: buildPersonalMainSessionKey_def resolvePersonalAgentId_iff split: if_splits)

section \<open>Resolving the access of a token\<close>

datatype access_error = AccessRefused gateway_error | AccessThrew service_error | KeyThrew error

text \<open>
  \<open>buildKey\<close> is \<open>buildAgentMainSessionKey\<close>; what other requests do once the token is authenticated is
  \<open>env AfterResolve\<close>.
\<close>

definition resolveBrowserGatewayAccess ::
    "('s, 'o) auth_options \<Rightarrow> (string \<Rightarrow> error + string) \<Rightarrow> (await_point \<Rightarrow> 's \<Rightarrow> 's) \<Rightarrow> string \<Rightarrow> bool \<Rightarrow> int \<Rightarrow> 's
      \<Rightarrow> (access_error + gateway_access) \<times> 's" where
  "resolveBrowserGatewayAccess opts buildKey env token touch now s =
     (case authenticateToken opts env token touch now s of
        (Inl e, s1) \<Rightarrow> (Inl (AccessThrew e), s1)
      | (Inr (AuthActive session user _), s1) \<Rightarrow>
          let s2 = env AfterResolve s1 in
          (case st_getPersonalAgentBinding (au_store opts) (u_id user) s2 of
             Inl err \<Rightarrow> (Inl (AccessThrew (StoreThrew err)), s2)
           | Inr binding \<Rightarrow>
               (case binding of
                  None \<Rightarrow>
                    (Inl (AccessRefused (GatewayError AgentUnavailableCode ''active personal agent binding required'')), s2)
                | Some b \<Rightarrow>
                    if b_state b \<noteq> AgentActive
                    then (Inl (AccessRefused (GatewayError AgentUnavailableCode ''active personal agent binding required'')), s2)
                    else
                      (case buildKey (b_agentId b) of
                         Inl e \<Rightarrow> (Inl (KeyThrew e), s2)
                       | Inr key \<Rightarrow>
                           (Inr \<lparr>ga_user = user, ga_session = Some session, ga_binding = b, ga_mainSessionKey = key\<rparr>, s2))))
      | (Inr _, s1) \<Rightarrow>
          (Inl (AccessRefused (GatewayError UnauthenticatedCode ''active browser session required'')), s1))"

text \<open>What a request was admitted with must still hold when it is dispatched.\<close>

definition sameAccess :: "gateway_access \<Rightarrow> gateway_access \<Rightarrow> bool" where
  "sameAccess current expected \<longleftrightarrow>
     u_id (ga_user current) = u_id (ga_user expected)
     \<and> u_accountId (ga_user current) = u_accountId (ga_user expected)
     \<and> u_globalRole (ga_user current) = u_globalRole (ga_user expected)
     \<and> map_option s_id (ga_session current) = map_option s_id (ga_session expected)
     \<and> b_id (ga_binding current) = b_id (ga_binding expected)
     \<and> b_agentId (ga_binding current) = b_agentId (ga_binding expected)
     \<and> ga_mainSessionKey current = ga_mainSessionKey expected"

definition revalidateAccess ::
    "('s, 'o) auth_options \<Rightarrow> (string \<Rightarrow> error + string) \<Rightarrow> (await_point \<Rightarrow> 's \<Rightarrow> 's) \<Rightarrow> string \<Rightarrow> gateway_access \<Rightarrow> int
      \<Rightarrow> 's \<Rightarrow> (access_error + gateway_access) \<times> 's" where
  "revalidateAccess opts buildKey env token expected now s =
     (case resolveBrowserGatewayAccess opts buildKey env token False now s of
        (Inl e, s1) \<Rightarrow> (Inl e, s1)
      | (Inr current, s1) \<Rightarrow>
          if \<not> sameAccess current expected
          then (Inl (AccessRefused (GatewayError UnauthenticatedCode
                  ''Browser authority changed; reconnect before retrying'')), s1)
          else (Inr current, s1))"

lemma resolve_call:
  "snd (resolveBrowserSession store h now touch s) = runCalls store [ResolveBrowserSession h now touch] s"
  by simp

lemma authenticateToken_runs:
  assumes "authenticateToken opts (requestsEnv store others) token touch now s = (r, s1)" and "au_store opts = memOps store"
  shows "\<exists>ds. s1 = runCalls store ds s"
proof -
  let ?h = "au_hash opts token"
  obtain q t where q: "resolveBrowserSession store ?h now touch s = (q, t)" by fastforce
  have t: "t = runCalls store [ResolveBrowserSession ?h now touch] s"
    using resolve_call [of store ?h now touch s] by (simp only: q snd_conv)
  have "s1 = s \<or> s1 = t \<or> s1 = runCalls store (others AfterLookup) t"
    using assms q
    by (auto simp: authenticateToken_def memOps_def requestsEnv_def Let_def fromStore_def
        simp del: runCalls_Cons split: throw_splits session_resolution.splits sum.splits option.splits prod.splits if_splits)
  then show ?thesis
  proof (elim disjE)
    assume "s1 = s" then have "s1 = runCalls store [] s" by (simp only: runCalls_Nil)
    then show ?thesis by blast
  next
    assume "s1 = t" with t show ?thesis by blast
  next
    assume "s1 = runCalls store (others AfterLookup) t"
    then have "s1 = runCalls store ([ResolveBrowserSession ?h now touch] @ others AfterLookup) s"
      by (simp only: runCalls_append t)
    then show ?thesis by blast
  qed
qed

lemma access_runs:
  assumes "resolveBrowserGatewayAccess opts buildKey (requestsEnv store others) token touch now s = (Inr access, s')"
    and "au_store opts = memOps store"
  obtains ds where "s' = runCalls store ds s"
    "getPersonalAgentBinding (u_id (ga_user access)) s' = Inr (Some (ga_binding access))"
    "b_state (ga_binding access) = AgentActive" "buildKey (b_agentId (ga_binding access)) = Inr (ga_mainSessionKey access)"
proof -
  obtain r s1 where a: "authenticateToken opts (requestsEnv store others) token touch now s = (r, s1)" by fastforce
  obtain ds where s1: "s1 = runCalls store ds s" using authenticateToken_runs [OF a assms(2)] by blast
  have *: "s' = runCalls store (others AfterResolve) s1
      \<and> getPersonalAgentBinding (u_id (ga_user access)) s' = Inr (Some (ga_binding access))
      \<and> b_state (ga_binding access) = AgentActive \<and> buildKey (b_agentId (ga_binding access)) = Inr (ga_mainSessionKey access)"
    using assms a
    by (auto simp: resolveBrowserGatewayAccess_def memOps_def requestsEnv_def Let_def
        split: sum.splits authentication_result.splits option.splits if_splits)
  then have "s' = runCalls store (ds @ others AfterResolve) s" by (simp only: s1 runCalls_append)
  with * that show thesis by blast
qed

end
