(* ===== verification/GatewayRequest.thy ===== *)
theory GatewayRequest
  imports GatewayPolicy GatewayAccess
begin

text \<open>
  What a browser request becomes before it leaves for the gateway: \<open>prepareRequest\<close> of
  \<open>browser-gateway-proxy.ts\<close> with the policies it asks in turn (\<open>browser-gateway-self-service-policy.ts\<close>,
  \<open>browser-gateway-cron-policy.ts\<close>, \<open>browser-gateway-approval-history.ts\<close>, \<open>browser-gateway-memory.ts\<close>,
  \<open>browser-gateway-wiki.ts\<close>, \<open>browser-gateway-live-capabilities.ts\<close>, \<open>browser-gateway-space-access.ts\<close>).
  A policy returns \<open>None\<close> where the code returns \<open>undefined\<close>: the request is for a later one.
\<close>

section \<open>Self service\<close>

definition PASSTHROUGH_METHODS :: "string list" where
  "PASSTHROUGH_METHODS =
     [''sessions.subscribe'', ''controlUi.githubPreview'', ''plugins.search'', ''plugins.install'',
      ''plugins.setEnabled'', ''plugins.uninstall'', ''skills.search'', ''skills.detail'']"

definition VM_READ_ONLY_SKILL_METHODS :: "string list" where
  "VM_READ_ONLY_SKILL_METHODS =
     [''skills.detail'', ''skills.search'', ''skills.securityVerdicts'', ''skills.skillCard'', ''skills.status'']"

definition VM_SKILL_WORKSHOP_METHODS :: "string list" where
  "VM_SKILL_WORKSHOP_METHODS =
     [''skills.proposals.apply'', ''skills.proposals.evaluate'', ''skills.proposals.historyScan'',
      ''skills.proposals.historyStatus'', ''skills.proposals.inspect'', ''skills.proposals.list'',
      ''skills.proposals.reject'', ''skills.proposals.requestRevision'']"

text \<open>\<open>profile\<close> is the execution profile of the agent, if the store has one.\<close>

definition resolveBrowserExecutionTarget ::
    "execution_profile option \<Rightarrow> string \<Rightarrow> gateway_error + execution_target option" where
  "resolveBrowserExecutionTarget profile method =
     (let workspaceFiles =
            method \<in> {''sessions.files.list'', ''sessions.files.upload'', ''sessions.files.download''} in
      if \<not> prefix ''skills.'' method \<and> \<not> workspaceFiles then Inr None
      else
        let target = (case profile of None \<Rightarrow> PlatformServer | Some p \<Rightarrow> ep_activeTarget p) in
        if target = AssignedVm \<and> method \<in> {''sessions.files.upload'', ''sessions.files.download''}
        then refuse MethodNotAllowed
               (''File '' @ (if method = ''sessions.files.download'' then ''download'' else ''upload'')
                @ '' is available only in the Basic workspace'')
        else if \<not> workspaceFiles \<and> target = AssignedVm \<and> method \<notin> set VM_READ_ONLY_SKILL_METHODS
                \<and> method \<notin> set VM_SKILL_WORKSHOP_METHODS
        then refuse MethodNotAllowed ''Skill installation is available only in the Basic workspace''
        else Inr (Some target))"

text \<open>The methods whose parameters are passed on as they are.\<close>

definition passedOn :: "string \<Rightarrow> bool" where
  "passedOn method \<longleftrightarrow>
     method \<in> set PASSTHROUGH_METHODS \<or> method \<in> set BASEBALL_RPC_METHODS \<or> method \<in> set FISHING_RPC_METHODS
     \<or> method \<in> set HORSE_RACING_RPC_METHODS \<or> method \<in> set SPACE_RPC_METHODS \<or> isKnowledgeVaultRpc method"

definition optionallyOwned ::
    "gateway_options \<Rightarrow> string \<Rightarrow> js_value \<Rightarrow> string \<Rightarrow> gateway_error + unit" where
  "optionallyOwned opts agentId value label =
     (if value = JUndefined then Inr ()
      else resultThen (ownedSessionKey (go_resolve opts) agentId value label) (\<lambda>_. Inr ()))"

definition prepareBrowserSelfServiceRequest ::
    "gateway_options \<Rightarrow> string \<Rightarrow> string \<Rightarrow> js_object \<Rightarrow> gateway_error + js_object option" where
  "prepareBrowserSelfServiceRequest opts agentId method params =
     (if method = ''models.list'' then
        if fieldOf params ''view'' \<notin> {JUndefined, JStr ''configured''}
        then refuse MethodNotAllowed ''browser model catalog is limited to configured models''
        else Inr (Some [(''view'', JStr ''configured'')])
      else if method \<in> {''agents.list'', ''users.self'', ''plugins.list''} then Inr (Some [])
      else if passedOn method then Inr (Some params)
      else if method \<in> {''usage.cost'', ''sessions.usage''} then
        resultThen (assertOptionalAgentId agentId (fieldOf params ''agentId'') method) (\<lambda>_.
        resultThen (optionallyOwned opts agentId (fieldOf params ''key'') ''key'') (\<lambda>_.
          Inr (Some (mapDelete (mapSet params ''agentId'' (JStr agentId)) ''agentScope''))))
      else if method = ''sessions.delete'' then
        resultThen (assertOptionalAgentId agentId (fieldOf params ''agentId'') method) (\<lambda>_.
        resultThen (ownedSessionKey (go_resolve opts) agentId (fieldOf params ''key'') ''key'') (\<lambda>_.
          Inr (Some (mapSet params ''agentId'' (JStr agentId)))))
      else if method = ''skills.install'' then
        resultThen (assertOptionalAgentId agentId (fieldOf params ''agentId'') method) (\<lambda>_.
          if fieldOf params ''source'' \<noteq> JStr ''clawhub''
          then refuse MethodNotAllowed ''browser skill installation is limited to personal ClawHub skills''
          else Inr (Some (mapSet params ''agentId'' (JStr agentId))))
      else if method = ''skills.proposals.requestRevision'' then
        resultThen (assertOptionalAgentId agentId (fieldOf params ''agentId'') method) (\<lambda>_.
        resultThen (assertOptionalAgentId agentId (fieldOf params ''targetAgentId'') method) (\<lambda>_.
        resultThen (ownedSessionKey (go_resolve opts) agentId (fieldOf params ''sessionKey'') ''sessionKey'') (\<lambda>_.
          Inr (Some (spread params [(''agentId'', JStr agentId), (''targetAgentId'', JStr agentId)])))))
      else if method \<in> set VM_SKILL_WORKSHOP_METHODS then
        resultThen (assertOptionalAgentId agentId (fieldOf params ''agentId'') method) (\<lambda>_.
          Inr (Some (mapSet params ''agentId'' (JStr agentId))))
      else Inr None)"

section \<open>Scheduled jobs\<close>

definition BROWSER_CRON_METHODS :: "string list" where
  "BROWSER_CRON_METHODS =
     [''cron.add'', ''cron.get'', ''cron.list'', ''cron.remove'', ''cron.run'', ''cron.runs'', ''cron.status'',
      ''cron.update'']"

definition strings :: "string list \<Rightarrow> js_value" where
  "strings xs = JArr (map JStr xs)"

definition browserCronListScope :: "string \<Rightarrow> js_object" where
  "browserCronListScope agentId =
     [(''agentId'', JStr agentId), (''scheduleKinds'', strings [''at'', ''every'', ''cron'']),
      (''payloadKinds'', strings [''agentTurn'', ''systemEvent'']),
      (''sessionTargets'', strings [''main'', ''isolated'', ''current'']), (''sessionAgentId'', JStr agentId),
      (''ownerAgentId'', JStr agentId), (''ownerSessionAgentId'', JStr agentId),
      (''requireOwnerAccountId'', JBool True)]"

definition cronObject :: "js_value \<Rightarrow> string \<Rightarrow> gateway_error + js_object" where
  "cronObject value label =
     (case value of JObj obj \<Rightarrow> Inr obj | _ \<Rightarrow> refuse MethodNotAllowed (label @ '' must be an object''))"

text \<open>\<open>withoutUndefined\<close> of an object with the given fields of \<open>value\<close>\<close>

definition pick :: "js_object \<Rightarrow> string list \<Rightarrow> js_object" where
  "pick value keys = map (\<lambda>key. (key, fieldOf value key)) keys"

definition restrictSchedule :: "js_value \<Rightarrow> gateway_error + js_value" where
  "restrictSchedule schedule =
     (if schedule = JUndefined then Inr JUndefined
      else
        resultThen (cronObject schedule ''cron schedule'') (\<lambda>value.
          if fieldOf value ''kind'' = JStr ''at''
          then Inr (JObj (withoutUndefined ((''kind'', JStr ''at'') # pick value [''at''])))
          else if fieldOf value ''kind'' = JStr ''every''
          then Inr (JObj (withoutUndefined ((''kind'', JStr ''every'') # pick value [''everyMs'', ''anchorMs''])))
          else if fieldOf value ''kind'' = JStr ''cron''
          then Inr (JObj (withoutUndefined ((''kind'', JStr ''cron'') # pick value [''expr'', ''tz'', ''staggerMs''])))
          else refuse MethodNotAllowed ''browser cron schedules are limited to at, every, and cron''))"

definition restrictPayload :: "js_value \<Rightarrow> gateway_error + js_value" where
  "restrictPayload payload =
     (if payload = JUndefined then Inr JUndefined
      else
        resultThen (cronObject payload ''cron payload'') (\<lambda>value.
          if fieldOf value ''kind'' = JStr ''systemEvent''
          then Inr (JObj (withoutUndefined ((''kind'', JStr ''systemEvent'') # pick value [''text''])))
          else if fieldOf value ''kind'' = JStr ''agentTurn''
          then Inr (JObj (withoutUndefined ((''kind'', JStr ''agentTurn'')
                   # pick value [''message'', ''model'', ''thinking'', ''timeoutSeconds'', ''lightContext''])))
          else refuse MethodNotAllowed ''browser cron payloads are limited to agent turns and system events''))"

datatype cron_mode = CreateJob | UpdateJob

definition restrictDelivery :: "js_value \<Rightarrow> cron_mode \<Rightarrow> gateway_error + js_value" where
  "restrictDelivery delivery mode =
     (if delivery \<in> {JUndefined, JNull}
      then Inr (if mode = CreateJob then JObj [(''mode'', JStr ''none'')] else JUndefined)
      else
        resultThen (cronObject delivery ''cron job delivery'') (\<lambda>value.
          if optionalString (fieldOf value ''to'') \<noteq> None \<or> optionalString (fieldOf value ''accountId'') \<noteq> None
             \<or> fieldOf value ''threadId'' \<notin> {JUndefined, JNull}
          then refuse MethodNotAllowed ''browser cron cannot select an outbound delivery target''
          else if fieldOf value ''mode'' = JStr ''announce'' then
            if fieldOf value ''channel'' \<notin> {JUndefined, JStr ''last''}
            then refuse MethodNotAllowed ''browser cron delivery is limited to the user's last conversation''
            else Inr (JObj [(''mode'', JStr ''announce''), (''channel'', JStr ''last'')])
          else if fieldOf value ''mode'' = JStr ''none'' then Inr (JObj [(''mode'', JStr ''none'')])
          else refuse MethodNotAllowed
                 ''browser cron delivery is limited to the last conversation or internal execution''))"

text \<open>The cron policy gets the agent of the browser, its main session and its account.\<close>

record cron_owner =
  co_agentId :: string
  co_sessionKey :: string
  co_accountId :: string

definition jobChecks ::
    "gateway_options \<Rightarrow> cron_owner \<Rightarrow> string \<Rightarrow> js_object \<Rightarrow> string \<Rightarrow> cron_mode \<Rightarrow> gateway_error + js_value" where
  "jobChecks opts owner method job label mode =
     resultThen (assertOptionalAgentId (co_agentId owner) (fieldOf job ''agentId'') method) (\<lambda>_.
     resultThen (if fieldOf job ''sessionKey'' = JNull then Inr ()
                 else optionallyOwned opts (co_agentId owner) (fieldOf job ''sessionKey'') (label @ '' sessionKey'')) (\<lambda>_.
       if fieldOf job ''sessionTarget'' \<notin> {JUndefined, JStr ''main'', JStr ''isolated'', JStr ''current''}
       then refuse MethodNotAllowed ''browser cron session targets are limited to main, isolated, and current''
       else if mode = CreateJob \<and> fieldOf job ''sessionTarget'' = JStr ''current''
       then refuse MethodNotAllowed ''browser cron creation is limited to main and isolated; current jobs are created from an owned conversation''
       else
         resultThen (restrictDelivery (fieldOf job ''delivery'') mode) (\<lambda>delivery.
           if mode = CreateJob \<and> memberOf delivery ''mode'' = JStr ''announce''
              \<and> fieldOf job ''sessionTarget'' \<notin> {JStr ''isolated'', JStr ''current''}
           then refuse MethodNotAllowed ''browser cron delivery requires current or isolated Agent execution''
           else
             case fieldOf job ''failureAlert'' of
               JObj _ \<Rightarrow> refuse MethodNotAllowed ''browser cron cannot configure outbound failure alerts''
             | JArr _ \<Rightarrow> refuse MethodNotAllowed ''browser cron cannot configure outbound failure alerts''
             | _ \<Rightarrow> Inr delivery)))"

definition restrictJob ::
    "gateway_options \<Rightarrow> cron_owner \<Rightarrow> string \<Rightarrow> js_value \<Rightarrow> string \<Rightarrow> cron_mode \<Rightarrow> gateway_error + js_object" where
  "restrictJob opts owner method rawJob label mode =
     resultThen (cronObject rawJob label) (\<lambda>job.
     resultThen (jobChecks opts owner method job label mode) (\<lambda>delivery.
     resultThen (restrictSchedule (fieldOf job ''schedule'')) (\<lambda>schedule.
     resultThen (restrictPayload (fieldOf job ''payload'')) (\<lambda>payload.
       Inr (withoutUndefined
         (pick job [''name'', ''description'']
          @ [(''agentId'', JStr (co_agentId owner)), (''sessionKey'', JStr (co_sessionKey owner))]
          @ pick job [''enabled'', ''deleteAfterRun'', ''sessionTarget'', ''wakeMode'']
          @ [(''schedule'', schedule), (''payload'', payload), (''delivery'', delivery),
             (''failureAlert'', if mode = CreateJob then JBool False else JUndefined),
             (''owner'',
              if mode = CreateJob
              then JObj [(''agentId'', JStr (co_agentId owner)), (''sessionKey'', JStr (co_sessionKey owner)),
                         (''accountId'', JStr (co_accountId owner))]
              else JUndefined)]))))))"

definition prepareBrowserCronRequest ::
    "gateway_options \<Rightarrow> cron_owner \<Rightarrow> string \<Rightarrow> js_object \<Rightarrow> gateway_error + js_object option" where
  "prepareBrowserCronRequest opts owner method params =
     (if method \<notin> set BROWSER_CRON_METHODS then Inr None
      else if method = ''cron.status'' then Inr (Some [])
      else if method \<in> {''cron.list'', ''cron.runs''} then
        resultThen (assertOptionalAgentId (co_agentId owner) (fieldOf params ''agentId'') method) (\<lambda>_.
          if method = ''cron.list'' \<and> fieldOf params ''compact'' \<noteq> JUndefined
          then refuse MethodNotAllowed ''compact cron listings are not available to browser users''
          else if method = ''cron.list'' \<and> fieldOf params ''includeDeliveryPreviews'' \<notin> {JUndefined, JBool False}
          then refuse MethodNotAllowed ''cron delivery previews are not available to browser users''
          else if method = ''cron.list''
          then Inr (Some (spread params
                 ((''includeDeliveryPreviews'', JBool False) # browserCronListScope (co_agentId owner))))
          else Inr (Some (mapSet params ''agentId'' (JStr (co_agentId owner)))))
      else if method = ''cron.add''
      then resultThen (restrictJob opts owner method (JObj params) ''cron job'' CreateJob) (\<lambda>job. Inr (Some job))
      else if method = ''cron.update''
      then resultThen (restrictJob opts owner method (fieldOf params ''patch'') ''cron patch'' UpdateJob) (\<lambda>patch.
             Inr (Some (mapSet params ''patch'' (JObj patch))))
      else Inr (Some params))"

section \<open>Personal reads\<close>

definition APPROVAL_KINDS :: "string list" where
  "APPROVAL_KINDS = [''exec'', ''plugin'', ''system-agent'']"

text \<open>On code units below 256 there are no surrogates.\<close>

definition isWellFormedApprovalId :: "string \<Rightarrow> bool" where
  "isWellFormedApprovalId value \<longleftrightarrow> value \<notin> {[], ''.'', ''..''}"

definition readCursor :: "gateway_options \<Rightarrow> js_value \<Rightarrow> (int \<times> string) option" where
  "readCursor opts value =
     (case value of
        JStr s \<Rightarrow>
          if s = [] \<or> length s > 512 then None
          else
            (case Option.bind (go_decodeCursor opts s) asRecord of
               None \<Rightarrow> None
             | Some parsed \<Rightarrow>
                 (case (fieldOf parsed ''v'', fieldOf parsed ''resolvedAtMs'', fieldOf parsed ''id'') of
                    (JNum v, JNum resolvedAtMs, JStr approvalId) \<Rightarrow>
                      if v = 1 \<and> isSafeInteger resolvedAtMs \<and> 0 \<le> resolvedAtMs \<and> isWellFormedApprovalId approvalId
                      then Some (resolvedAtMs, approvalId) else None
                  | _ \<Rightarrow> None))
      | _ \<Rightarrow> None)"

definition prepareBrowserApprovalHistoryRequest ::
    "gateway_options \<Rightarrow> string \<Rightarrow> string \<Rightarrow> js_object \<Rightarrow> gateway_error + js_object option" where
  "prepareBrowserApprovalHistoryRequest opts agentId method request =
     (if method \<noteq> ''approval.history'' then Inr None
      else
        resultThen (assertOptionalAgentId agentId (fieldOf request ''agentId'') method) (\<lambda>_.
          let limit = fieldOr request ''limit'' (JNum 50);
              kind = fieldOf request ''kind'';
              cursor = fieldOf request ''cursor''
          in
          resultThen (require (case limit of JNum n \<Rightarrow> 1 \<le> n \<and> n \<le> 100 | _ \<Rightarrow> False) MethodNotAllowed
              ''approval history limit must be an integer from 1-100'') (\<lambda>_.
          resultThen (require (kind = JUndefined \<or> kind \<in> JStr ` set APPROVAL_KINDS) MethodNotAllowed
              ''approval history kind is invalid'') (\<lambda>_.
          resultThen (require (cursor = JUndefined \<or> readCursor opts cursor \<noteq> None) MethodNotAllowed
              ''approval history cursor is invalid'') (\<lambda>_.
            Inr (Some ([(''agentId'', JStr agentId), (''limit'', limit)]
              @ (if kind = JUndefined then [] else [(''kind'', kind)])
              @ (if cursor = JUndefined then [] else [(''cursor'', cursor)]))))))))"

definition searchQuery :: "js_value \<Rightarrow> string" where
  "searchQuery value = (case value of JStr s \<Rightarrow> trim s | _ \<Rightarrow> [])"

definition definedFields :: "js_object \<Rightarrow> string list \<Rightarrow> js_object" where
  "definedFields request keys = withoutUndefined (pick request keys)"

definition prepareMemorySearch :: "string \<Rightarrow> js_object \<Rightarrow> gateway_error + js_object" where
  "prepareMemorySearch agentId request =
     (let query = searchQuery (fieldOf request ''query'');
          vaultId = fieldOf request ''vaultId'';
          maxResults = fieldOf request ''maxResults''
      in
      resultThen (require (query \<noteq> [] \<and> length query \<le> 1000) MethodNotAllowed
          ''memory search query must contain 1-1000 characters'') (\<lambda>_.
      resultThen (require (fieldOf request ''scope'' \<in> {JUndefined, JStr ''connected'', JStr ''all''}) MethodNotAllowed
          ''scope must be connected or all'') (\<lambda>_.
      resultThen (require (vaultId = JUndefined
            \<or> (case vaultId of JStr v \<Rightarrow> v \<noteq> [] \<and> length v \<le> 256 | _ \<Rightarrow> False)) MethodNotAllowed
          ''vaultId must be a bounded nonempty identifier'') (\<lambda>_.
      resultThen (require (maxResults = JUndefined
            \<or> (case maxResults of JNum n \<Rightarrow> 1 \<le> n \<and> n \<le> 50 | _ \<Rightarrow> False)) MethodNotAllowed
          ''maxResults must be an integer from 1 to 50'') (\<lambda>_.
        Inr ([(''query'', JStr query), (''agentId'', JStr agentId)]
          @ definedFields request [''vaultId'', ''maxResults'', ''scope'']))))))"

definition prepareMemoryDelete :: "string \<Rightarrow> js_object \<Rightarrow> gateway_error + js_object" where
  "prepareMemoryDelete agentId request =
     (case (canonicalMemoryFilePath (fieldOf request ''path''), fieldOf request ''expectedContentHash'') of
        (Some path, JStr contentHash) \<Rightarrow>
          if \<not> plainPath path \<or> \<not> isHexHash contentHash
          then refuse MethodNotAllowed ''Reload a personal memory Markdown file before deleting it''
          else Inr [(''agentId'', JStr agentId), (''path'', JStr path), (''expectedContentHash'', JStr contentHash)]
      | _ \<Rightarrow> refuse MethodNotAllowed ''Reload a personal memory Markdown file before deleting it'')"

definition prepareMemoryFields :: "string \<Rightarrow> string \<Rightarrow> js_object \<Rightarrow> gateway_error + js_object" where
  "prepareMemoryFields agentId method request =
     (if method = ''memory.delete'' then prepareMemoryDelete agentId request
      else if method = ''memory.search'' then prepareMemorySearch agentId request
      else if method = ''agents.workspace.list'' then
        if fieldOf request ''path'' \<noteq> JStr ''memory''
        then refuse MethodNotAllowed ''browser workspace browsing is limited to the personal memory directory''
        else Inr [(''agentId'', JStr agentId), (''path'', JStr ''memory''), (''offset'', JNum 0), (''limit'', JNum 500)]
      else
        case canonicalMemoryFilePath (fieldOf request ''path'') of
          None \<Rightarrow> refuse MethodNotAllowed ''browser workspace reads are limited to personal memory Markdown files''
        | Some path \<Rightarrow> Inr [(''agentId'', JStr agentId), (''path'', JStr path)])"

definition prepareBrowserMemoryRequest ::
    "string \<Rightarrow> string \<Rightarrow> js_object \<Rightarrow> gateway_error + js_object option" where
  "prepareBrowserMemoryRequest agentId method request =
     (if method \<notin> {''memory.search'', ''memory.delete'', ''agents.workspace.get'', ''agents.workspace.list''}
      then Inr None
      else
        resultThen (assertOptionalAgentId agentId (fieldOf request ''agentId'') method) (\<lambda>_.
        resultThen (prepareMemoryFields agentId method request) (\<lambda>prepared. Inr (Some prepared))))"

definition WIKI_METHODS :: "string list" where
  "WIKI_METHODS =
     [''doctor.memory.backfillDreamDiary'', ''doctor.memory.dedupeDreamDiary'', ''doctor.memory.dreamDiary'',
      ''doctor.memory.repairDreamingArtifacts'', ''doctor.memory.resetDreamDiary'',
      ''doctor.memory.resetGroundedShortTerm'', ''doctor.memory.status'', ''wiki.delete'',
      ''wiki.document.get'', ''wiki.document.save'', ''wiki.get'', ''wiki.graph'', ''wiki.importInsights'',
      ''wiki.overview'', ''wiki.search'', ''wiki.status'']"

definition prepareWikiDelete :: "js_object \<Rightarrow> gateway_error + js_object" where
  "prepareWikiDelete request =
     resultThen (personalWikiPagePath (fieldOf request ''path'')) (\<lambda>path.
       case fieldOf request ''expectedContentHash'' of
         JStr contentHash \<Rightarrow>
           if isHexHash contentHash
           then Inr [(''path'', JStr path), (''expectedContentHash'', JStr contentHash)]
           else refuse MethodNotAllowed ''Reload the complete Wiki page before deleting it''
       | _ \<Rightarrow> refuse MethodNotAllowed ''Reload the complete Wiki page before deleting it'')"

definition prepareWikiSave :: "js_object \<Rightarrow> gateway_error + js_object" where
  "prepareWikiSave request =
     resultThen (personalWikiPagePath (fieldOf request ''path'')) (\<lambda>path.
     resultThen (optionalEnum (fieldOf request ''editMode'') [''body'', ''notes''] ''wiki edit mode'') (\<lambda>editMode.
       case (editMode, fieldOf request ''content'') of
         (Some mode, JStr content) \<Rightarrow>
           if length content > 1048576 then refuse MethodNotAllowed ''Wiki Markdown content is too large''
           else
             (case fieldOf request ''expectedRevision'' of
                JStr revision \<Rightarrow>
                  if \<not> isHexHash revision
                  then refuse MethodNotAllowed ''Reload the complete Wiki document before saving''
                  else
                    resultThen
                      (if fieldOf request ''title'' = JUndefined then Inr []
                       else resultThen (boundedText (fieldOf request ''title'') ''Wiki title'' 240) (\<lambda>title.
                              Inr [(''title'', JStr title)])) (\<lambda>title.
                      Inr ((''path'', JStr path) # title
                        @ [(''editMode'', JStr mode), (''content'', JStr content), (''expectedRevision'', JStr revision)]))
              | _ \<Rightarrow> refuse MethodNotAllowed ''Reload the complete Wiki document before saving'')
       | _ \<Rightarrow> refuse MethodNotAllowed ''Wiki save requires an editable field and Markdown content''))"

definition prepareWikiSearch :: "js_object \<Rightarrow> gateway_error + js_object" where
  "prepareWikiSearch request =
     (let query = searchQuery (fieldOf request ''query''); vaultId = fieldOf request ''vaultId'' in
      resultThen (require (query \<noteq> [] \<and> length query \<le> 1000) MethodNotAllowed
          ''wiki search query must contain 1-1000 characters'') (\<lambda>_.
      resultThen (optionalEnum (fieldOf request ''scope'') [''connected'', ''all''] ''scope'') (\<lambda>scope.
      resultThen (require (vaultId = JUndefined
            \<or> (case vaultId of JStr v \<Rightarrow> v \<noteq> [] \<and> length v \<le> 256 | _ \<Rightarrow> False)) MethodNotAllowed
          ''vaultId must be a bounded nonempty identifier'') (\<lambda>_.
      resultThen (positiveIntegerUpTo (fieldOf request ''maxResults'') ''maxResults'' 50) (\<lambda>maxResults.
      resultThen (optionalEnum (fieldOf request ''mode'')
          [''auto'', ''find-person'', ''route-question'', ''source-evidence'', ''raw-claim''] ''mode'') (\<lambda>mode.
        Inr ((''query'', JStr query) # optionalField ''scope'' scope
          @ definedFields request [''vaultId''] @ [(''corpus'', JStr ''wiki'')]
          @ (case maxResults of None \<Rightarrow> [] | Some n \<Rightarrow> [(''maxResults'', JNum n)])
          @ optionalField ''mode'' mode)))))))"

definition prepareWikiLookup :: "string \<Rightarrow> js_object \<Rightarrow> gateway_error + js_object" where
  "prepareWikiLookup method request =
     (let lookup = searchQuery (fieldOf request ''lookup'') in
      resultThen (require (lookup \<noteq> [] \<and> length lookup \<le> 1000) MethodNotAllowed
          ''wiki lookup must contain 1-1000 characters'') (\<lambda>_.
        if method \<noteq> ''wiki.get'' then Inr [(''lookup'', JStr lookup)]
        else
          resultThen (positiveIntegerUpTo (fieldOf request ''fromLine'') ''fromLine'' 9007199254740991) (\<lambda>fromLine.
          resultThen (positiveIntegerUpTo (fieldOf request ''lineCount'') ''lineCount'' 5000) (\<lambda>lineCount.
            Inr ((''lookup'', JStr lookup)
              # (case fromLine of None \<Rightarrow> [] | Some n \<Rightarrow> [(''fromLine'', JNum n)])
              @ (case lineCount of None \<Rightarrow> [] | Some n \<Rightarrow> [(''lineCount'', JNum n)]))))))"

definition prepareWikiFields :: "string \<Rightarrow> js_object \<Rightarrow> gateway_error + js_object" where
  "prepareWikiFields method request =
     (if method = ''wiki.delete'' then prepareWikiDelete request
      else if method = ''wiki.document.save'' then prepareWikiSave request
      else if method = ''doctor.memory.status'' then
        (case fieldOf request ''probe'' of
           JUndefined \<Rightarrow> Inr []
         | JBool b \<Rightarrow> Inr [(''probe'', JBool b)]
         | _ \<Rightarrow> refuse MethodNotAllowed ''memory status probe must be a boolean'')
      else if method = ''wiki.search'' then prepareWikiSearch request
      else if method \<in> {''wiki.get'', ''wiki.document.get''} then prepareWikiLookup method request
      else Inr [])"

definition prepareBrowserWikiRequest ::
    "string \<Rightarrow> string \<Rightarrow> js_object \<Rightarrow> gateway_error + js_object option" where
  "prepareBrowserWikiRequest agentId method request =
     (if method \<notin> set WIKI_METHODS then Inr None
      else
        resultThen (assertOptionalAgentId agentId (fieldOf request ''agentId'') method) (\<lambda>_.
        resultThen (prepareWikiFields method request) (\<lambda>fields. Inr (Some ((''agentId'', JStr agentId) # fields)))))"

definition prepareBrowserPersonalReadRequest ::
    "gateway_options \<Rightarrow> string \<Rightarrow> string \<Rightarrow> js_object \<Rightarrow> gateway_error + js_object option" where
  "prepareBrowserPersonalReadRequest opts agentId method request =
     resultThen (prepareBrowserApprovalHistoryRequest opts agentId method request) (\<lambda>history.
       case history of Some prepared \<Rightarrow> Inr (Some prepared)
       | None \<Rightarrow>
           resultThen (prepareBrowserMemoryRequest agentId method request) (\<lambda>memory.
             case memory of Some prepared \<Rightarrow> Inr (Some prepared)
             | None \<Rightarrow> prepareBrowserWikiRequest agentId method request))"

section \<open>Live capabilities and spaces\<close>

definition INTERACTIVE_METHOD_PREFIXES :: "string list" where
  "INTERACTIVE_METHOD_PREFIXES = [''approval.'', ''question.'', ''taskSuggestions.'']"

text \<open>\<open>True\<close>: the parameters are passed on as they are.\<close>

definition prepareLiveRequest ::
    "gateway_options \<Rightarrow> string \<Rightarrow> string \<Rightarrow> js_object \<Rightarrow> gateway_error + bool" where
  "prepareLiveRequest opts agentId method params =
     (if list_ex (\<lambda>p. prefix p method) INTERACTIVE_METHOD_PREFIXES then Inr True
      else if method \<noteq> ''controlUi.sessionPullRequests.subscribe'' then
        if method = ''sessions.messages.subscribe''
           \<and> fieldOf params ''includeApprovals'' \<notin> {JUndefined, JBool True}
        then refuse InvalidParams ''includeApprovals must be true when provided''
        else Inr False
      else
        case fieldOf params ''sessionKeys'' of
          JArr keys \<Rightarrow>
            resultThen (sessionKeyArray (go_resolve opts) agentId (JArr keys) ''sessionKeys'' False) (\<lambda>_.
            resultThen (sessionKeyArray (go_resolve opts) agentId (fieldOf params ''refreshSessionKeys'')
                ''refreshSessionKeys'' False) (\<lambda>_. Inr True))
        | _ \<Rightarrow> refuse InvalidParams ''sessionKeys must be an array'')"

text \<open>\<open>/^agent:[^:]+:space-session:/iu\<close>\<close>

definition isSpaceConversationSession :: "string \<Rightarrow> bool" where
  "isSpaceConversationSession key \<longleftrightarrow>
     (case splitOn (CHR '':'') key of
        scheme # agentId # kind # _ # _ \<Rightarrow>
          toLowerCase scheme = ''agent'' \<and> agentId \<noteq> [] \<and> toLowerCase kind = ''space-session''
      | _ \<Rightarrow> False)"

definition spaceConversationSessionPrefix :: "string \<Rightarrow> string" where
  "spaceConversationSessionPrefix agentId = ''agent:'' @ agentId @ '':space-session:''"

definition isPersonalSession :: "gateway_options \<Rightarrow> string \<Rightarrow> bool" where
  "isPersonalSession opts sessionKey \<longleftrightarrow> \<not> isSpaceConversationSession sessionKey \<and> \<not> go_registered opts sessionKey"

text \<open>The keys of the array have been checked to be strings.\<close>

definition personalKeys :: "gateway_options \<Rightarrow> js_value list \<Rightarrow> js_value list" where
  "personalKeys opts keys =
     map JStr (filter (isPersonalSession opts)
       (concat (map (\<lambda>v. case v of JStr s \<Rightarrow> [trim s] | _ \<Rightarrow> []) keys)))"

definition prepareSessionSearch :: "gateway_options \<Rightarrow> string \<Rightarrow> js_object \<Rightarrow> js_object" where
  "prepareSessionSearch opts agentId params =
     spread params
       ((''agentId'', JStr agentId)
        # (if fieldOf params ''scope'' = JStr ''agent''
           then [(''excludeSessionKeyPrefixes'', strings [spaceConversationSessionPrefix agentId])] else [])
        @ (case fieldOf params ''sessionKeys'' of
             JArr keys \<Rightarrow> [(''sessionKeys'', JArr (personalKeys opts keys))]
           | _ \<Rightarrow> []))"

section \<open>Requests\<close>

definition TERMINAL_METHODS :: "string list" where
  "TERMINAL_METHODS =
     [''terminal.open'', ''terminal.input'', ''terminal.resize'', ''terminal.close'', ''terminal.attach'',
      ''terminal.list'']"

definition BROWSER_TASK_METHODS :: "string list" where
  "BROWSER_TASK_METHODS = [''tasks.cancel'', ''tasks.dismiss'', ''tasks.get'', ''tasks.list'', ''tasks.retry'']"

definition turnMethods :: "string list" where
  "turnMethods = [''chat.send'', ''sessions.send'', ''sessions.steer'']"

definition cronOwner :: "gateway_access \<Rightarrow> cron_owner" where
  "cronOwner access =
     \<lparr>co_agentId = b_agentId (ga_binding access), co_sessionKey = ga_mainSessionKey access,
      co_accountId = u_accountId (ga_user access)\<rparr>"

text \<open>Methods with a session key of their own: \<open>sessions.list\<close> to \<open>sessions.create\<close>.\<close>

definition prepareSessionMethod ::
    "gateway_options \<Rightarrow> string \<Rightarrow> string \<Rightarrow> js_object \<Rightarrow> gateway_error + js_object option" where
  "prepareSessionMethod opts agentId method params =
     (if method = ''sessions.list'' then
        resultThen (assertOptionalAgentId agentId (fieldOf params ''agentId'') method) (\<lambda>_.
          Inr (Some (spread params
            [(''agentId'', JStr agentId), (''includeGlobal'', JBool False), (''includeUnknown'', JBool False),
             (''configuredAgentsOnly'', JBool True),
             (''excludeSessionKeyPrefixes'', strings [spaceConversationSessionPrefix agentId])])))
      else if method = ''sessions.search'' then
        resultThen (sessionSearch (go_resolve opts) agentId params) (\<lambda>_.
          Inr (Some (prepareSessionSearch opts agentId params)))
      else if method = ''sessions.preview'' then
        resultThen (sessionKeyArray (go_resolve opts) agentId (fieldOf params ''keys'') ''keys'' True) (\<lambda>_.
          Inr (Some params))
      else Inr None)"

definition prepareSessionTarget ::
    "gateway_options \<Rightarrow> string \<Rightarrow> string \<Rightarrow> js_object \<Rightarrow> gateway_error + js_object option" where
  "prepareSessionTarget opts agentId method params =
     (if method = ''sessions.describe'' then
        resultThen (ownedSessionKey (go_resolve opts) agentId (fieldOf params ''key'') ''key'') (\<lambda>_.
          Inr (Some params))
      else if method = ''sessions.resolve'' then
        resultThen (assertOptionalAgentId agentId (fieldOf params ''agentId'') method) (\<lambda>_.
        resultThen (optionallyOwned opts agentId (fieldOf params ''key'') ''key'') (\<lambda>_.
          Inr (Some (spread params
            [(''agentId'', JStr agentId), (''includeGlobal'', JBool False), (''includeUnknown'', JBool False)]))))
      else if method = ''sessions.create'' then
        resultThen (assertOptionalAgentId agentId (fieldOf params ''agentId'') method) (\<lambda>_.
        resultThen (optionallyOwned opts agentId (fieldOf params ''key'') ''key'') (\<lambda>_.
        resultThen (optionallyOwned opts agentId (fieldOf params ''parentSessionKey'') ''parentSessionKey'') (\<lambda>_.
          Inr (Some (spread params [(''agentId'', JStr agentId), (''emitCommandHooks'', JBool False)])))))
      else if prefix ''sessions.companion.'' method then
        resultThen (ownedSessionKey (go_resolve opts) agentId (fieldOf params ''sessionKey'') ''sessionKey'') (\<lambda>_.
          Inr (Some params))
      else if method = ''sessions.observer.visibility'' then
        (case fieldOf params ''visible'' of
           JBool _ \<Rightarrow> Inr (Some params)
         | _ \<Rightarrow> refuse InvalidParams ''visible must be a boolean'')
      else if method \<in> set TERMINAL_METHODS then
        Inr (Some (if method = ''terminal.open'' then mapSet params ''agentId'' (JStr agentId) else params))
      else if method \<in> set BROWSER_TASK_METHODS \<and> method \<noteq> ''tasks.list'' then Inr (Some params)
      else Inr None)"

definition prepareBound ::
    "gateway_options \<Rightarrow> gateway_access \<Rightarrow> string \<Rightarrow> js_object \<Rightarrow> gateway_error + js_object" where
  "prepareBound opts access method params =
     (let agentId = b_agentId (ga_binding access) in
      if method \<in> set PLATFORMCLAW_WEB_AGENT_ONLY_METHODS then
        resultThen (assertOptionalAgentId agentId (fieldOf params ''agentId'') method) (\<lambda>_.
        resultThen (optionallyOwned opts agentId (fieldOf params ''sessionKey'') ''sessionKey'') (\<lambda>_.
          Inr (mapSet params ''agentId'' (JStr agentId))))
      else
        case map_of PLATFORMCLAW_WEB_SESSION_KEY_METHODS method of
          None \<Rightarrow> refuse MethodNotAllowed (''Gateway method has no browser policy: '' @ method)
        | Some keyField \<Rightarrow>
            resultThen (assertOptionalAgentId agentId (fieldOf params ''agentId'') method) (\<lambda>_.
            resultThen (ownedSessionKey (go_resolve opts) agentId (fieldOf params keyField) keyField) (\<lambda>sessionKey.
              if method \<in> set turnMethods
              then Inr (spread (mapDelete params ''__controlUiReconnectResume'')
                     ([(''agentId'', JStr agentId), (''deliver'', JBool False),
                       (''senderAttribution'', JObj (createBrowserSenderAttribution access))]
                      @ (if isPersonalSession opts sessionKey then [(''personalAutomations'', JBool True)] else [])))
              else
                let ownRun = (method = ''chat.abort''
                       \<and> (case fieldOf params ''runId'' of JStr run \<Rightarrow> go_ownsRun opts run | _ \<Rightarrow> False))
                in Inr (mapSet (if ownRun then params else mapDelete params ''runId'') ''agentId'' (JStr agentId)))))"

definition handlers ::
    "gateway_options \<Rightarrow> gateway_access \<Rightarrow> string \<Rightarrow> js_object \<Rightarrow> gateway_error + js_object" where
  "handlers opts access method params =
     (let agentId = b_agentId (ga_binding access) in
      orHandled (prepareBrowserSelfServiceRequest opts agentId method params)
     (orHandled (prepareBrowserCronRequest opts (cronOwner access) method params)
     (orHandled (prepareSessionMethod opts agentId method params)
     (orHandled (prepareBrowserPersonalReadRequest opts agentId method params)
     (orHandled (resultThen (prepareLiveRequest opts agentId method params)
                   (\<lambda>live. Inr (if live then Some params else None)))
     (orHandled (prepareSessionTarget opts agentId method params)
        (prepareBound opts access method params)))))))"

definition prepareRequest ::
    "gateway_options \<Rightarrow> gateway_access \<Rightarrow> string \<Rightarrow> js_value \<Rightarrow> gateway_error + js_object" where
  "prepareRequest opts access method rawParams =
     (if method \<notin> set PLATFORMCLAW_WEB_GATEWAY_METHODS
      then refuse MethodNotAllowed (''Gateway method is not available to browser users: '' @ method)
      else if method \<in> set PLATFORMCLAW_WEB_ADMIN_METHODS \<and> u_globalRole (ga_user access) \<noteq> GlobalAdmin
      then refuse MethodNotAllowed (''Gateway administration method is not available to browser users: '' @ method)
      else
        resultThen (asBrowserGatewayObject rawParams (method @ '' params'')) (\<lambda>params.
        resultThen (methodParams allowedParamsOf method params) (\<lambda>_.
          if method \<in> set PLATFORMCLAW_WEB_TALK_METHODS then Inr params
          else handlers opts access method params)))"

end
