(* ===== verification/GatewayFields.thy ===== *)
theory GatewayFields
  imports GatewayRequest
begin

text \<open>
  The fields of a request that name sessions and agents: which methods may have them at all, read off the
  policy tables, and what it means that they are those of one agent.
\<close>

section \<open>Requests within an agent\<close>

definition sessionFields :: "string list" where
  "sessionFields = [''key'', ''sessionKey'', ''parentSessionKey'', ''keys'', ''sessionKeys'', ''refreshSessionKeys'']"

text \<open>Absent, a session key of the agent, or an array of them.\<close>

definition ownValue :: "(string \<Rightarrow> string option) \<Rightarrow> string \<Rightarrow> js_value \<Rightarrow> bool" where
  "ownValue resolve agentId v \<longleftrightarrow>
     (case v of
        JUndefined \<Rightarrow> True
      | JStr _ \<Rightarrow> ownsKey resolve agentId v
      | JArr keys \<Rightarrow> list_all (ownsKey resolve agentId) keys
      | _ \<Rightarrow> False)"

definition ownSessions :: "(string \<Rightarrow> string option) \<Rightarrow> string \<Rightarrow> js_object \<Rightarrow> bool" where
  "ownSessions resolve agentId request \<longleftrightarrow>
     list_all (\<lambda>f. ownValue resolve agentId (fieldOf request f)) sessionFields"

definition ownRequest :: "(string \<Rightarrow> string option) \<Rightarrow> string \<Rightarrow> js_object \<Rightarrow> bool" where
  "ownRequest resolve agentId request \<longleftrightarrow>
     ownSessions resolve agentId request \<and> fieldOf request ''agentId'' \<in> {JUndefined, JStr agentId}"

text \<open>
  Three kinds of request are not bound here: voice requests and the route of a space conversation, which
  the control plane answers itself under its own checks, and the list of task suggestions, whose session key
  \<open>BrowserGatewayInteractiveOwnership.request\<close> checks later.
\<close>

definition boundElsewhere :: "string \<Rightarrow> bool" where
  "boundElsewhere method \<longleftrightarrow>
     method \<in> set PLATFORMCLAW_WEB_TALK_METHODS
     \<or> method \<in> {''platformclaw.spaces.conversation.resolve'', ''taskSuggestions.list''}"

lemma ownValue_simps [simp]:
  "ownValue resolve a JUndefined" "ownValue resolve a (JArr []) \<longleftrightarrow> True"
  by (simp_all add: ownValue_def)

lemma ownsKey_JStr [simp]: "ownsKey resolve a (JStr s) \<longleftrightarrow> trim s \<noteq> [] \<and> resolve (trim s) = Some a"
  by (simp add: ownsKey_def optionalString_def)

lemma ownsKey_ownValue: "ownsKey resolve a v \<Longrightarrow> ownValue resolve a v"
  by (auto simp: ownValue_def ownsKey_def optionalString_def split: js_value.splits)

lemma optionallyOwned_ok [ok_iff]:
  "optionallyOwned opts a v label = Inr u \<longleftrightarrow> v = JUndefined \<or> ownsKey (go_resolve opts) a v"
  by (auto simp: optionallyOwned_def ok_iff ownsKey_def split: option.splits)

lemma ownSessionsI: "(\<And>f. f \<in> set sessionFields \<Longrightarrow> ownValue resolve a (fieldOf request f)) \<Longrightarrow> ownSessions resolve a request"
  by (simp add: ownSessions_def list_all_iff)

section \<open>Fields a policy leaves out\<close>

definition freeMethod :: "string \<Rightarrow> bool" where
  "freeMethod m \<longleftrightarrow>
     passedOn m \<or> m \<in> set TERMINAL_METHODS \<or> m \<in> set BROWSER_TASK_METHODS \<and> m \<noteq> ''tasks.list''
     \<or> m \<in> {''sessions.observer.visibility'', ''cron.get'', ''cron.remove'', ''cron.run''}
     \<or> list_ex (\<lambda>p. prefix p m) INTERACTIVE_METHOD_PREFIXES"

lemma free_mentions:
  "list_all (\<lambda>e. fst e = ''runId'' \<or> list_all (\<lambda>m. freeMethod m \<longrightarrow>
       m \<in> {''platformclaw.spaces.conversation.resolve'', ''taskSuggestions.list'', ''approval.history''}) (snd e)) boundTable"
  by code_simp

text \<open>The session fields a method may have: the code checks them.\<close>

definition fixedRows :: "(string \<times> string list) list" where
  "fixedRows =
     [(''usage.cost'', []), (''sessions.usage'', [''key'']), (''sessions.delete'', [''key'']), (''skills.install'', []),
      (''skills.proposals.requestRevision'', [''sessionKey'']), (''cron.list'', []), (''cron.runs'', []),
      (''cron.update'', []), (''sessions.list'', []), (''sessions.search'', [''sessionKeys'']),
      (''sessions.preview'', [''keys'']),
      (''controlUi.sessionPullRequests.subscribe'', [''sessionKeys'', ''refreshSessionKeys'']),
      (''sessions.describe'', [''key'']), (''sessions.resolve'', [''key'']),
      (''sessions.create'', [''key'', ''parentSessionKey''])]"

definition checkedTable :: "(string \<times> string list) list" where
  "checkedTable =
     fixedRows
     @ map (\<lambda>m. (m, [])) (filter (\<lambda>m. m \<noteq> ''skills.proposals.requestRevision'') VM_SKILL_WORKSHOP_METHODS)
     @ map (\<lambda>m. (m, [''sessionKey'']))
         (filter (\<lambda>m. m \<noteq> ''sessions.usage'') PLATFORMCLAW_WEB_AGENT_ONLY_METHODS)
     @ map (\<lambda>e. (fst e, [snd e])) PLATFORMCLAW_WEB_SESSION_KEY_METHODS"

lemma checked_mentions:
  "list_all (\<lambda>(m, fs). list_all (\<lambda>f. f \<in> set fs \<or> \<not> mentions m f) sessionFields) checkedTable"
  by code_simp

lemma companion_mentions:
  "list_all (\<lambda>e. fst e = ''sessionKey'' \<or> list_all (\<lambda>m. \<not> prefix ''sessions.companion.'' m) (snd e)) boundTable"
  by code_simp

lemma mentions_False: "f \<in> set boundFields \<Longrightarrow> list_all (\<lambda>e. fst e = f \<longrightarrow> m \<notin> set (snd e)) boundTable \<Longrightarrow> \<not> mentions m f"
  by (force simp: mentions_def list_all_iff methodsWith_table [symmetric] map_of_graph split: option.splits)

lemma sessionFields_bound: "f \<in> set sessionFields \<Longrightarrow> f \<in> set boundFields \<and> f \<noteq> ''runId'' \<and> f \<noteq> ''agentId''"
  by (auto simp: sessionFields_def boundFields_def)

lemma agentId_bound: "''agentId'' \<in> set boundFields" "''agentId'' \<noteq> ''runId''"
  by (simp_all add: boundFields_def)

lemma free_lacks:
  assumes "freeMethod m" and "m \<noteq> ''approval.history''" and "\<not> boundElsewhere m" and "admitted m params"
  shows "ownRequest resolve a params"
proof -
  have "\<not> mentions m f" if "f \<in> set boundFields" "f \<noteq> ''runId''" for f
    using mentions_False [OF that(1), of m] free_mentions assms(1-3) that(2)
    by (auto simp: list_all_iff boundElsewhere_def)
  then have "fieldOf params f = JUndefined" if "f \<in> set boundFields" "f \<noteq> ''runId''" for f
    using admitted_lacks [OF assms(4)] that by blast
  then show ?thesis
    using sessionFields_bound agentId_bound by (simp add: ownRequest_def ownSessions_def list_all_iff)
qed

lemma checked_sessions:
  assumes "(m, fs) \<in> set checkedTable" and "admitted m params"
    and "\<And>f. f \<in> set fs \<Longrightarrow> ownValue resolve a (fieldOf params f)"
  shows "ownSessions resolve a params"
proof (rule ownSessionsI)
  fix f assume f: "f \<in> set sessionFields"
  show "ownValue resolve a (fieldOf params f)"
  proof (cases "f \<in> set fs")
    case False
    then have "\<not> mentions m f" using checked_mentions assms(1) f by (fastforce simp: list_all_iff)
    then show ?thesis using admitted_lacks [OF assms(2)] by simp
  qed (rule assms(3))
qed

lemma companion_sessions:
  assumes "prefix ''sessions.companion.'' m" and "admitted m params"
    and "ownValue resolve a (fieldOf params ''sessionKey'')"
  shows "ownRequest resolve a params"
proof -
  have "\<not> mentions m f" if "f \<in> set boundFields" "f \<noteq> ''sessionKey''" for f
    using mentions_False [OF that(1), of m] companion_mentions assms(1) that(2) by (auto simp: list_all_iff)
  then have "fieldOf params f = JUndefined" if "f \<in> set boundFields" "f \<noteq> ''sessionKey''" for f
    using admitted_lacks [OF assms(2)] that by blast
  then have "ownValue resolve a (fieldOf params f)" if "f \<in> set boundFields" for f
    using assms(3) that by (cases "f = ''sessionKey''") auto
  moreover have "fieldOf params ''agentId'' = JUndefined"
    using \<open>\<And>f. f \<in> set boundFields \<Longrightarrow> f \<noteq> ''sessionKey'' \<Longrightarrow> fieldOf params f = JUndefined\<close> agentId_bound by simp
  ultimately show ?thesis
    using sessionFields_bound by (simp add: ownRequest_def ownSessions_def list_all_iff)
qed

end
