(* ===== verification/GatewayBoundary.thy ===== *)
theory GatewayBoundary
  imports GatewayFields
begin

text \<open>
  What a prepared request can reach: the sessions it names and the agent it is for are those of the user
  it is made for, whatever the browser sent.
\<close>

section \<open>The handlers\<close>

text \<open>Adding, overwriting or dropping fields that carry no session key keeps a request within the agent.\<close>

lemma ownSessions_mapSet [simp]:
  "f \<notin> set sessionFields \<Longrightarrow> ownSessions resolve a (mapSet request f v) \<longleftrightarrow> ownSessions resolve a request"
  by (auto simp: ownSessions_def list_all_iff)

lemma ownSessions_mapDelete: "ownSessions resolve a request \<Longrightarrow> ownSessions resolve a (mapDelete request f)"
  by (auto simp: ownSessions_def list_all_iff)

lemma ownRequest_pinned:
  "ownSessions resolve a request \<Longrightarrow> ownRequest resolve a (mapSet request ''agentId'' (JStr a))"
  by (simp add: ownRequest_def sessionFields_def)

lemma fieldOf_spread: "f \<notin> fst ` set es \<Longrightarrow> fieldOf (spread request es) f = fieldOf request f"
  by (induction es arbitrary: request) auto

lemma ownRequest_spread:
  assumes "ownRequest resolve a request" and "list_all (\<lambda>e. fst e \<notin> set sessionFields \<and> fst e \<noteq> ''agentId'') es"
  shows "ownRequest resolve a (spread request es)"
proof -
  have "fieldOf (spread request es) f = fieldOf request f" if "f \<in> set sessionFields \<or> f = ''agentId''" for f
    using assms(2) that by (intro fieldOf_spread) (auto simp: list_all_iff)
  with assms(1) show ?thesis by (simp add: ownRequest_def ownSessions_def list_all_iff)
qed

lemma spread_append: "spread r (xs @ ys) = spread (spread r xs) ys"
  by (simp add: spread_def)

lemma ownValue_array [simp]: "ownValue resolve a (JArr keys) \<longleftrightarrow> list_all (ownsKey resolve a) keys"
  by (simp add: ownValue_def)

lemma ownRequest_mapSet:
  "ownRequest resolve a r \<Longrightarrow> ownValue resolve a v \<Longrightarrow> f \<noteq> ''agentId'' \<Longrightarrow> ownRequest resolve a (mapSet r f v)"
  by (auto simp: ownRequest_def ownSessions_def list_all_iff)

text \<open>Fields laid over a request; one of them is the agent.\<close>

definition overlay :: "string \<Rightarrow> js_object \<Rightarrow> bool" where
  "overlay a es \<longleftrightarrow> list_all (\<lambda>e. fst e \<notin> set sessionFields \<and> (fst e = ''agentId'' \<longrightarrow> snd e = JStr a)) es"

lemma overlay_agent:
  "overlay a es \<Longrightarrow> fieldOf request ''agentId'' = JStr a \<or> ''agentId'' \<in> fst ` set es
   \<Longrightarrow> fieldOf (spread request es) ''agentId'' = JStr a"
  by (induction es arbitrary: request) (auto simp: overlay_def)

lemma overlay_own:
  assumes "ownSessions resolve a request" and "overlay a es" and "''agentId'' \<in> fst ` set es"
  shows "ownRequest resolve a (spread request es)"
proof -
  have "fieldOf (spread request es) f = fieldOf request f" if "f \<in> set sessionFields" for f
    using assms(2) that by (intro fieldOf_spread) (auto simp: overlay_def list_all_iff)
  with assms(1) show ?thesis
    using overlay_agent [OF assms(2)] assms(3) by (simp add: ownRequest_def ownSessions_def list_all_iff)
qed

lemma ownRequest_fields:
  assumes "list_all (\<lambda>e. fst e \<notin> set sessionFields \<and> fst e \<noteq> ''agentId'') es"
  shows "ownRequest resolve a es" "ownRequest resolve a ((''agentId'', JStr a) # es)"
proof -
  have "fieldOf es f = JUndefined" if "f \<in> set sessionFields \<or> f = ''agentId''" for f
    using assms that by (intro fieldOf_absent) (auto simp: list_all_iff)
  then show "ownRequest resolve a es" "ownRequest resolve a ((''agentId'', JStr a) # es)"
    by (auto simp: ownRequest_def ownSessions_def list_all_iff sessionFields_def)
qed

lemma row_sessions:
  "(m, fs) \<in> set checkedTable \<Longrightarrow> admitted m params
   \<Longrightarrow> (\<And>f. f \<in> set fs \<Longrightarrow> ownValue resolve a (fieldOf params f))
   \<Longrightarrow> ownRequest resolve a (mapSet params ''agentId'' (JStr a))"
  by (rule ownRequest_pinned) (rule checked_sessions)

lemma checked_rows:
  "m \<in> set VM_SKILL_WORKSHOP_METHODS \<Longrightarrow> m \<noteq> ''skills.proposals.requestRevision'' \<Longrightarrow> (m, []) \<in> set checkedTable"
  "m \<in> set PLATFORMCLAW_WEB_AGENT_ONLY_METHODS \<Longrightarrow> m \<noteq> ''sessions.usage'' \<Longrightarrow> (m, [''sessionKey'']) \<in> set checkedTable"
  "map_of PLATFORMCLAW_WEB_SESSION_KEY_METHODS m = Some kf \<Longrightarrow> (m, [kf]) \<in> set checkedTable"
  by (auto simp: checkedTable_def image_iff dest!: map_of_SomeD intro: rev_bexI)

lemma fixed_rows:
  "(''usage.cost'', []) \<in> set checkedTable" "(''sessions.usage'', [''key'']) \<in> set checkedTable"
  "(''sessions.delete'', [''key'']) \<in> set checkedTable" "(''skills.install'', []) \<in> set checkedTable"
  "(''skills.proposals.requestRevision'', [''sessionKey'']) \<in> set checkedTable"
  "(''cron.list'', []) \<in> set checkedTable" "(''cron.runs'', []) \<in> set checkedTable"
  "(''cron.update'', []) \<in> set checkedTable" "(''sessions.list'', []) \<in> set checkedTable"
  "(''sessions.search'', [''sessionKeys'']) \<in> set checkedTable" "(''sessions.preview'', [''keys'']) \<in> set checkedTable"
  "(''controlUi.sessionPullRequests.subscribe'', [''sessionKeys'', ''refreshSessionKeys'']) \<in> set checkedTable"
  "(''sessions.describe'', [''key'']) \<in> set checkedTable" "(''sessions.resolve'', [''key'']) \<in> set checkedTable"
  "(''sessions.create'', [''key'', ''parentSessionKey'']) \<in> set checkedTable"
  by (simp_all only: checkedTable_def fixedRows_def append.simps list.set insert_iff prod.inject simp_thms)

lemma elim_if: "(if b then x else y) = z \<Longrightarrow> (b \<Longrightarrow> x = z \<Longrightarrow> P) \<Longrightarrow> (\<not> b \<Longrightarrow> y = z \<Longrightarrow> P) \<Longrightarrow> P"
  by (simp split: if_splits)

lemma owned_value:
  "ownedSessionKey resolve a v label = Inr key \<Longrightarrow> ownValue resolve a v"
  "optionallyOwned opts a v label = Inr u \<Longrightarrow> ownValue (go_resolve opts) a v"
  by (auto simp: ok_iff ownsKey_def intro: ownsKey_ownValue)

lemma usage_own:
  assumes "m = ''usage.cost'' \<or> m = ''sessions.usage''" and "admitted m params"
    and "ownValue resolve a (fieldOf params ''key'')"
  shows "ownRequest resolve a (mapDelete (mapSet params ''agentId'' (JStr a)) ''agentScope'')"
proof -
  have "ownRequest resolve a (mapSet params ''agentId'' (JStr a))"
    using assms row_sessions [OF fixed_rows(1) _] row_sessions [OF fixed_rows(2) _] by auto
  then show ?thesis by (simp add: ownRequest_def ownSessions_mapDelete)
qed

lemma history_not_free: "\<not> passedOn ''approval.history''"
  by code_simp

lemma selfService_own:
  assumes "prepareBrowserSelfServiceRequest opts a m params = Inr (Some p)"
    and "admitted m params" and "\<not> boundElsewhere m"
  shows "ownRequest (go_resolve opts) a p"
  using assms(1) unfolding prepareBrowserSelfServiceRequest_def
  apply (elim elim_if)
  subgoal by simp
  subgoal by (auto intro: ownRequest_fields simp: sessionFields_def)
  subgoal by (auto intro: ownRequest_fields simp: sessionFields_def)
  subgoal
  proof -
    assume "passedOn m" "Inr (Some params) = Inr (Some p)"
    moreover from this have "m \<noteq> ''approval.history''" using history_not_free by auto
    ultimately show ?thesis using free_lacks [OF _ _ assms(3,2)] by (simp add: freeMethod_def)
  qed
  subgoal
  proof -
    assume m: "m \<in> {''usage.cost'', ''sessions.usage''}"
      and "resultThen (assertOptionalAgentId a (fieldOf params ''agentId'') m) (\<lambda>_.
        resultThen (optionallyOwned opts a (fieldOf params ''key'') ''key'') (\<lambda>_.
          Inr (Some (mapDelete (mapSet params ''agentId'' (JStr a)) ''agentScope'')))) = Inr (Some p)"
    then obtain u where p: "p = mapDelete (mapSet params ''agentId'' (JStr a)) ''agentScope''"
      and u: "optionallyOwned opts a (fieldOf params ''key'') ''key'' = Inr u"
      by (auto simp only: resultThen_ok sum.inject option.inject)
    show ?thesis unfolding p by (rule usage_own [OF _ assms(2) owned_value(2) [OF u]]) (use m in simp)
  qed
  subgoal
    using row_sessions [OF fixed_rows(3) _] assms(2) by (auto simp: resultThen_ok dest: owned_value)
  subgoal
    using row_sessions [OF fixed_rows(4) _] assms(2) by (auto simp: resultThen_ok split: if_splits)
  subgoal
    using row_sessions [OF fixed_rows(5) _] assms(2)
    by (auto simp: resultThen_ok ownRequest_def sessionFields_def dest!: owned_value(1))
  subgoal
    using row_sessions [OF checked_rows(1) assms(2)] by (auto simp: ok_iff)
  subgoal by simp
  done

lemma unpinned:
  "list_all (\<lambda>m. \<not> mentions m ''agentId'')
     [''cron.update'', ''sessions.preview'', ''controlUi.sessionPullRequests.subscribe'', ''sessions.describe'']"
  by code_simp

lemma unpinned_own:
  assumes "m = ''cron.update'' \<or> m = ''sessions.preview'' \<or> m = ''controlUi.sessionPullRequests.subscribe''
     \<or> m = ''sessions.describe''" and "admitted m params" and "ownSessions resolve a params"
  shows "ownRequest resolve a params"
  using assms unpinned admitted_lacks [OF assms(2), of "''agentId''"] by (auto simp: ownRequest_def)

definition jobFields :: "cron_owner \<Rightarrow> js_object \<Rightarrow> cron_mode \<Rightarrow> js_value \<Rightarrow> js_value \<Rightarrow> js_value \<Rightarrow> js_object" where
  "jobFields owner job mode schedule payload delivery =
     pick job [''name'', ''description'']
     @ [(''agentId'', JStr (co_agentId owner)), (''sessionKey'', JStr (co_sessionKey owner))]
     @ pick job [''enabled'', ''deleteAfterRun'', ''sessionTarget'', ''wakeMode'']
     @ [(''schedule'', schedule), (''payload'', payload), (''delivery'', delivery),
        (''failureAlert'', if mode = CreateJob then JBool False else JUndefined),
        (''owner'',
         if mode = CreateJob
         then JObj [(''agentId'', JStr (co_agentId owner)), (''sessionKey'', JStr (co_sessionKey owner)),
                    (''accountId'', JStr (co_accountId owner))]
         else JUndefined)]"

lemma restrictJob_shape:
  assumes "restrictJob opts owner m raw label mode = Inr p"
  obtains job schedule payload delivery where "raw = JObj job"
    "jobChecks opts owner m job label mode = Inr delivery" "restrictSchedule (fieldOf job ''schedule'') = Inr schedule"
    "restrictPayload (fieldOf job ''payload'') = Inr payload"
    "p = withoutUndefined (jobFields owner job mode schedule payload delivery)"
  using assms
  by (auto simp: restrictJob_def cronObject_def resultThen_ok jobFields_def split: js_value.splits)

lemma jobFields_keys:
  "map fst (jobFields owner job mode schedule payload delivery) =
     [''name'', ''description'', ''agentId'', ''sessionKey'', ''enabled'', ''deleteAfterRun'', ''sessionTarget'', ''wakeMode'',
      ''schedule'', ''payload'', ''delivery'', ''failureAlert'', ''owner'']"
  by (simp add: jobFields_def pick_def)

lemma job_field: "fieldOf (withoutUndefined (jobFields owner job mode schedule payload delivery)) f
    = fieldOf (jobFields owner job mode schedule payload delivery) f"
  by (rule fieldOf_withoutUndefined) (simp add: jobFields_keys)

lemma job_pinned:
  assumes "restrictJob opts owner m raw label mode = Inr p"
  shows "fieldOf p ''agentId'' = JStr (co_agentId owner)" "fieldOf p ''sessionKey'' = JStr (co_sessionKey owner)"
    "mode = CreateJob \<Longrightarrow> fieldOf p ''owner'' = JObj [(''agentId'', JStr (co_agentId owner)),
       (''sessionKey'', JStr (co_sessionKey owner)), (''accountId'', JStr (co_accountId owner))]"
  using assms by (auto simp: job_field jobFields_def pick_def elim!: restrictJob_shape)

lemma job_own:
  assumes "restrictJob opts owner m raw label mode = Inr p"
    and "ownsKey resolve (co_agentId owner) (JStr (co_sessionKey owner))"
  shows "ownRequest resolve (co_agentId owner) p"
proof -
  obtain job schedule payload delivery
    where p: "p = withoutUndefined (jobFields owner job mode schedule payload delivery)"
    using restrictJob_shape [OF assms(1)] .
  have "fieldOf p f = JUndefined" if "f \<in> set sessionFields" "f \<noteq> ''sessionKey''" for f
  proof -
    have "f \<notin> set (map fst (jobFields owner job mode schedule payload delivery))"
      using that by (auto simp: jobFields_keys sessionFields_def)
    then show ?thesis unfolding p job_field by (intro fieldOf_absent) simp
  qed
  moreover have "ownValue resolve (co_agentId owner) (fieldOf p ''sessionKey'')"
    using assms(2) job_pinned(2) [OF assms(1)] by (simp add: ownsKey_ownValue)
  ultimately have "ownValue resolve (co_agentId owner) (fieldOf p f)" if "f \<in> set sessionFields" for f
    using that by (cases "f = ''sessionKey''") auto
  then show ?thesis using job_pinned(1) [OF assms(1)] by (simp add: ownRequest_def ownSessions_def list_all_iff)
qed

lemma cron_scope:
  "overlay a ((''includeDeliveryPreviews'', v) # browserCronListScope a)"
  "''agentId'' \<in> fst ` set ((''includeDeliveryPreviews'', v) # browserCronListScope a)"
  by (simp_all add: overlay_def browserCronListScope_def sessionFields_def)

lemma cron_own:
  assumes "prepareBrowserCronRequest opts owner m params = Inr (Some p)"
    and "admitted m params" and "\<not> boundElsewhere m"
    and "ownsKey (go_resolve opts) (co_agentId owner) (JStr (co_sessionKey owner))"
  shows "ownRequest (go_resolve opts) (co_agentId owner) p"
  using assms(1) unfolding prepareBrowserCronRequest_def
  apply (elim elim_if)
  subgoal by simp
  subgoal by (auto intro: ownRequest_fields)
  subgoal
    using checked_sessions [OF fixed_rows(6) _] row_sessions [OF fixed_rows(7) _] assms(2) cron_scope
    by (auto simp: resultThen_ok simp del: spread_Cons split: if_splits intro: overlay_own)
  subgoal using job_own assms(4) by (auto simp: resultThen_ok)
  subgoal
  proof -
    assume m: "m = ''cron.update''"
      and "resultThen (restrictJob opts owner m (fieldOf params ''patch'') ''cron patch'' UpdateJob)
         (\<lambda>patch. Inr (Some (mapSet params ''patch'' (JObj patch)))) = Inr (Some p)"
    then obtain patch where p: "p = mapSet params ''patch'' (JObj patch)" by (auto simp: resultThen_ok)
    have "ownSessions (go_resolve opts) (co_agentId owner) params"
      using checked_sessions [OF fixed_rows(8)] assms(2) m by simp
    with m assms(2) have "ownRequest (go_resolve opts) (co_agentId owner) params" by (intro unpinned_own) auto
    then show ?thesis by (simp add: p ownRequest_def sessionFields_def)
  qed
  subgoal
  proof -
    assume "\<not> m \<notin> set BROWSER_CRON_METHODS" "m \<noteq> ''cron.status''" "m \<notin> {''cron.list'', ''cron.runs''}"
      "m \<noteq> ''cron.add''" "m \<noteq> ''cron.update''" "Inr (Some params) = Inr (Some p)"
    then have "m = ''cron.get'' \<or> m = ''cron.remove'' \<or> m = ''cron.run''" "p = params"
      by (simp_all add: BROWSER_CRON_METHODS_def)
    then show ?thesis using free_lacks [OF _ _ assms(3,2)] by (auto simp: freeMethod_def)
  qed
  done

text \<open>A search passes on the personal ones of the keys it was given.\<close>

lemma personalKeys_own:
  "\<forall>key \<in> set keys. ownsKey resolve a key \<Longrightarrow> list_all (ownsKey resolve a) (personalKeys opts keys)"
  by (fastforce simp: personalKeys_def list_all_iff split: js_value.splits)

lemma searchSessions_own:
  assumes "sessionSearch (go_resolve opts) a params = Inr u" and "admitted ''sessions.search'' params"
  shows "ownRequest (go_resolve opts) a (prepareSessionSearch opts a params)"
proof -
  let ?keys = "fieldOf params ''sessionKeys''"
  let ?base = "(''agentId'', JStr a)
    # (if fieldOf params ''scope'' = JStr ''agent''
       then [(''excludeSessionKeyPrefixes'', strings [spaceConversationSessionPrefix a])] else [])"
  have keys: "?keys = JUndefined \<or> (\<exists>keys. ?keys = JArr keys \<and> (\<forall>key \<in> set keys. ownsKey (go_resolve opts) a key))"
    using assms(1) by (auto simp: sessionSearch_def ok_iff split: if_splits)
  then have "ownSessions (go_resolve opts) a params"
    using checked_sessions [OF fixed_rows(10) assms(2), of "go_resolve opts" a] by (auto simp: list_all_iff)
  then have base: "ownRequest (go_resolve opts) a (spread params ?base)"
    by (rule overlay_own) (auto simp: overlay_def sessionFields_def)
  have "ownRequest (go_resolve opts) a (spread (spread params ?base) [(''sessionKeys'', JArr (personalKeys opts ks))])"
    if "\<forall>key \<in> set ks. ownsKey (go_resolve opts) a key" for ks
    using ownRequest_mapSet [OF base] personalKeys_own [OF that] by (simp add: spread_def)
  with keys base show ?thesis
    by (auto simp: prepareSessionSearch_def spread_append simp del: spread_Cons simp flip: append_Cons)
qed

lemma sessionMethod_own:
  assumes "prepareSessionMethod opts a m params = Inr (Some p)" and "admitted m params"
  shows "ownRequest (go_resolve opts) a p"
  using assms(1) unfolding prepareSessionMethod_def
  apply (elim elim_if)
  subgoal
    using checked_sessions [OF fixed_rows(9) _] assms(2)
    by (auto simp: resultThen_ok overlay_def sessionFields_def simp del: spread_Cons intro!: overlay_own)
  subgoal
  proof -
    assume m: "m = ''sessions.search''"
      and "resultThen (sessionSearch (go_resolve opts) a params)
         (\<lambda>_. Inr (Some (prepareSessionSearch opts a params))) = Inr (Some p)"
    then obtain u where u: "sessionSearch (go_resolve opts) a params = Inr u" and p: "p = prepareSessionSearch opts a params"
      by (auto simp: resultThen_ok)
    then show ?thesis using searchSessions_own m assms(2) by simp
  qed
  subgoal
  proof -
    assume m: "m = ''sessions.preview''"
      and "resultThen (sessionKeyArray (go_resolve opts) a (fieldOf params ''keys'') ''keys'' True)
         (\<lambda>_. Inr (Some params)) = Inr (Some p)"
    then have p: "p = params" "ownValue (go_resolve opts) a (fieldOf params ''keys'')"
      by (auto simp: resultThen_ok sessionKeyArray_ok ownValue_def list_all_iff)
    then have "ownSessions (go_resolve opts) a params"
      using checked_sessions [OF fixed_rows(11)] assms(2) m by simp
    then show ?thesis unfolding p using m assms(2) by (intro unpinned_own) auto
  qed
  subgoal by simp
  done

text \<open>What is read for the user is a new object with the agent in it and no session.\<close>

definition freshFields :: "js_object \<Rightarrow> bool" where
  "freshFields es \<longleftrightarrow> list_all (\<lambda>e. fst e \<notin> set sessionFields \<and> fst e \<noteq> ''agentId'') es"

lemma freshFields_simps [simp]:
  "freshFields []"
  "freshFields ((k, v) # es) \<longleftrightarrow> k \<notin> set sessionFields \<and> k \<noteq> ''agentId'' \<and> freshFields es"
  "freshFields (xs @ ys) \<longleftrightarrow> freshFields xs \<and> freshFields ys"
  by (auto simp: freshFields_def)

lemma freshFields_optionalField [simp]:
  "k \<notin> set sessionFields \<Longrightarrow> k \<noteq> ''agentId'' \<Longrightarrow> freshFields (optionalField k v)"
  by (simp add: optionalField_def split: option.split)

lemma freshFields_definedFields [simp]:
  "list_all (\<lambda>k. k \<notin> set sessionFields \<and> k \<noteq> ''agentId'') ks \<Longrightarrow> freshFields (definedFields request ks)"
  by (auto simp: freshFields_def definedFields_def withoutUndefined_def pick_def list_all_iff)

lemma fresh_own: "freshFields es \<Longrightarrow> ownRequest resolve a ((''agentId'', JStr a) # es)"
  by (rule ownRequest_fields) (simp add: freshFields_def)

lemma fresh_own_after:
  "freshFields [(k, v)] \<Longrightarrow> freshFields es \<Longrightarrow> ownRequest resolve a ((k, v) # (''agentId'', JStr a) # es)"
  using fresh_own [of es resolve a]
  by (auto simp: ownRequest_def ownSessions_def list_all_iff sessionFields_def)

lemma plain_names [simp]:
  "list_all (\<lambda>k. k \<notin> set sessionFields \<and> k \<noteq> ''agentId'')
     [''path'', ''expectedContentHash'', ''title'', ''editMode'', ''content'', ''expectedRevision'', ''query'', ''scope'', ''vaultId'',
      ''corpus'', ''maxResults'', ''mode'', ''lookup'', ''fromLine'', ''lineCount'', ''probe'', ''offset'', ''limit'', ''kind'',
      ''cursor'']"
  by (simp add: sessionFields_def)

lemmas plain_name [simp] = plain_names [unfolded list.pred_inject, simplified simp_thms]

lemma wikiDelete_fresh: "prepareWikiDelete request = Inr es \<Longrightarrow> freshFields es"
  by (auto simp: prepareWikiDelete_def ok_iff)

lemma wikiSave_fresh: "prepareWikiSave request = Inr es \<Longrightarrow> freshFields es"
  by (auto simp: prepareWikiSave_def ok_iff split: if_splits)

lemma resultThenE: "resultThen m f = Inr y \<Longrightarrow> (\<And>x. m = Inr x \<Longrightarrow> f x = Inr y \<Longrightarrow> P) \<Longrightarrow> P"
  by (auto simp: resultThen_ok)

lemma freshFields_number [simp]:
  "freshFields (case v of None \<Rightarrow> [] | Some n \<Rightarrow> [(k, JNum n)]) \<longleftrightarrow> v = None \<or> k \<notin> set sessionFields \<and> k \<noteq> ''agentId''"
  by (simp split: option.split)

lemma wikiSearch_fresh: "prepareWikiSearch request = Inr es \<Longrightarrow> freshFields es"
  unfolding prepareWikiSearch_def Let_def by (elim resultThenE) (simp only: sum.inject, hypsubst, simp)

lemma wikiLookup_fresh: "prepareWikiLookup m request = Inr es \<Longrightarrow> freshFields es"
  unfolding prepareWikiLookup_def Let_def by (elim resultThenE elim_if) (simp only: sum.inject, hypsubst, simp)+

lemma probe_fresh:
  "(case v of JUndefined \<Rightarrow> Inr [] | JBool b \<Rightarrow> Inr [(''probe'', JBool b)] | _ \<Rightarrow> refuse code message) = Inr es
   \<Longrightarrow> freshFields es"
  by (auto split: js_value.splits)

lemma wikiFields_fresh: "prepareWikiFields m request = Inr es \<Longrightarrow> freshFields es"
  unfolding prepareWikiFields_def
  by (elim elim_if; (erule wikiDelete_fresh | erule wikiSave_fresh | erule probe_fresh | erule wikiSearch_fresh
        | erule wikiLookup_fresh | clarsimp))

lemma wiki_own:
  "prepareBrowserWikiRequest a m request = Inr (Some p) \<Longrightarrow> ownRequest resolve a p"
  by (auto simp: prepareBrowserWikiRequest_def resultThen_ok intro!: fresh_own dest: wikiFields_fresh split: if_splits)

lemma memoryParts_own:
  "prepareMemoryDelete a request = Inr p \<Longrightarrow> ownRequest resolve a p"
  "prepareMemorySearch a request = Inr p \<Longrightarrow> ownRequest resolve a p"
  by (auto simp: prepareMemoryDelete_def prepareMemorySearch_def Let_def ok_iff intro!: fresh_own fresh_own_after)

lemma memoryFields_own: "prepareMemoryFields a m request = Inr p \<Longrightarrow> ownRequest resolve a p"
  unfolding prepareMemoryFields_def
  by (elim elim_if) (auto simp: option_case_ok intro!: fresh_own dest: memoryParts_own)

lemma memory_own:
  "prepareBrowserMemoryRequest a m request = Inr (Some p) \<Longrightarrow> ownRequest resolve a p"
  by (auto simp: prepareBrowserMemoryRequest_def resultThen_ok dest: memoryFields_own split: if_splits)

lemma history_own:
  "prepareBrowserApprovalHistoryRequest opts a m request = Inr (Some p) \<Longrightarrow> ownRequest resolve a p"
  by (auto simp: prepareBrowserApprovalHistoryRequest_def Let_def resultThen_ok
      intro!: fresh_own split: if_splits)

lemma personalRead_own:
  "prepareBrowserPersonalReadRequest opts a m request = Inr (Some p) \<Longrightarrow> ownRequest resolve a p"
  by (auto simp: prepareBrowserPersonalReadRequest_def resultThen_ok dest: history_own memory_own wiki_own
      split: option.splits)

lemma personalRead_history: "prepareBrowserPersonalReadRequest opts a ''approval.history'' request \<noteq> Inr None"
  by (auto simp: prepareBrowserPersonalReadRequest_def prepareBrowserApprovalHistoryRequest_def Let_def resultThen_ok
      split: option.splits)

lemma live_own:
  assumes "prepareLiveRequest opts a m params = Inr True" and "admitted m params" and "\<not> boundElsewhere m"
    and "m \<noteq> ''approval.history''"
  shows "ownRequest (go_resolve opts) a params"
proof (cases "list_ex (\<lambda>p. prefix p m) INTERACTIVE_METHOD_PREFIXES")
  case True
  then show ?thesis using free_lacks [OF _ assms(4,3,2)] by (simp add: freeMethod_def)
next
  case False
  with assms(1) have m: "m = ''controlUi.sessionPullRequests.subscribe''"
    by (auto simp: prepareLiveRequest_def split: if_splits)
  with False assms(1) have "ownValue (go_resolve opts) a (fieldOf params ''sessionKeys'')"
    "ownValue (go_resolve opts) a (fieldOf params ''refreshSessionKeys'')"
    by (auto simp: prepareLiveRequest_def resultThen_ok sessionKeyArray_ok list_all_iff split: js_value.splits)
  then have "ownSessions (go_resolve opts) a params"
    using checked_sessions [OF fixed_rows(12)] assms(2) m by (simp add: list_all_iff) blast
  then show ?thesis using m assms(2) by (intro unpinned_own) auto
qed

lemma target_own:
  assumes "prepareSessionTarget opts a m params = Inr (Some p)" and "admitted m params" and "\<not> boundElsewhere m"
  shows "ownRequest (go_resolve opts) a p"
  using assms(1) unfolding prepareSessionTarget_def
  apply (elim elim_if)
  subgoal
    using unpinned_own [OF _ assms(2)] checked_sessions [OF fixed_rows(13)] assms(2)
    by (auto simp: resultThen_ok dest: owned_value)
  subgoal
    using checked_sessions [OF fixed_rows(14)] assms(2)
    by (auto simp: resultThen_ok overlay_def sessionFields_def simp del: spread_Cons intro!: overlay_own dest!: owned_value(2))
  subgoal
    using checked_sessions [OF fixed_rows(15)] assms(2)
    by (auto simp: resultThen_ok overlay_def sessionFields_def simp del: spread_Cons intro!: overlay_own dest!: owned_value(2))
  subgoal using companion_sessions [OF _ assms(2)] by (auto simp: resultThen_ok dest: owned_value(1))
  subgoal using free_lacks [OF _ _ assms(3,2)] by (auto simp: freeMethod_def split: js_value.splits)
  subgoal
  proof -
    assume m: "m \<in> set TERMINAL_METHODS"
      and "Inr (Some (if m = ''terminal.open'' then mapSet params ''agentId'' (JStr a) else params)) = Inr (Some p)"
    then have p: "p = mapSet params ''agentId'' (JStr a) \<or> p = params" by (auto split: if_splits)
    from m have "m \<noteq> ''approval.history''" by (auto simp: TERMINAL_METHODS_def)
    with m have "ownRequest (go_resolve opts) a params"
      using free_lacks [OF _ _ assms(3,2)] by (simp add: freeMethod_def)
    with p show ?thesis using ownRequest_pinned by (auto simp: ownRequest_def)
  qed
  subgoal
  proof -
    assume m: "m \<in> set BROWSER_TASK_METHODS \<and> m \<noteq> ''tasks.list''" and "Inr (Some params) = Inr (Some p)"
    then have "m \<noteq> ''approval.history''" by (auto simp: BROWSER_TASK_METHODS_def)
    with m \<open>Inr (Some params) = Inr (Some p)\<close> show ?thesis
      using free_lacks [OF _ _ assms(3,2)] by (simp add: freeMethod_def)
  qed
  subgoal by simp
  done

lemma bound_own:
  assumes "prepareBound opts access m params = Inr p" and "admitted m params" and "m \<noteq> ''sessions.usage''"
  shows "ownRequest (go_resolve opts) (b_agentId (ga_binding access)) p"
proof -
  let ?a = "b_agentId (ga_binding access)" and ?r = "go_resolve opts"
  consider (agent) "m \<in> set PLATFORMCLAW_WEB_AGENT_ONLY_METHODS" "ownValue ?r ?a (fieldOf params ''sessionKey'')"
      "p = mapSet params ''agentId'' (JStr ?a)"
    | (turn) kf es where "map_of PLATFORMCLAW_WEB_SESSION_KEY_METHODS m = Some kf" "ownValue ?r ?a (fieldOf params kf)"
      "p = spread (mapDelete params ''__controlUiReconnectResume'') es" "overlay ?a es" "''agentId'' \<in> fst ` set es"
    | (key) kf where "map_of PLATFORMCLAW_WEB_SESSION_KEY_METHODS m = Some kf" "ownValue ?r ?a (fieldOf params kf)"
      "p = mapSet params ''agentId'' (JStr ?a) \<or> p = mapSet (mapDelete params ''runId'') ''agentId'' (JStr ?a)"
  proof (cases "m \<in> set PLATFORMCLAW_WEB_AGENT_ONLY_METHODS")
    case True
    with assms(1) show ?thesis
      by (auto simp: prepareBound_def Let_def resultThen_ok intro: agent dest: owned_value(2))
  next
    case False
    with assms(1) obtain kf key u where kf: "map_of PLATFORMCLAW_WEB_SESSION_KEY_METHODS m = Some kf"
      and k: "ownedSessionKey ?r ?a (fieldOf params kf) kf = Inr key"
      by (auto simp: prepareBound_def Let_def resultThen_ok split: option.splits)
    note v = owned_value(1) [OF k]
    show ?thesis
    proof (cases "m \<in> set turnMethods")
      case True
      have "overlay ?a ([(''agentId'', JStr ?a), (''deliver'', JBool False), (''senderAttribution'', v)]
          @ (if b then [(''personalAutomations'', JBool True)] else []))" for v b
        by (simp add: overlay_def sessionFields_def)
      with True False kf v assms(1) show ?thesis
        by (auto simp: prepareBound_def Let_def resultThen_ok simp del: spread_Cons intro!: turn [OF kf v])
    next
      case notTurn: False
      with False kf v assms(1) show ?thesis
        by (auto simp: prepareBound_def Let_def resultThen_ok intro: key [OF kf v] split: if_splits)
    qed
  qed
  then show ?thesis
  proof cases
    case agent
    then show ?thesis using row_sessions [OF checked_rows(2) assms(2)] assms(3) by simp
  next
    case (turn kf es)
    have "ownSessions ?r ?a params" using checked_sessions [OF checked_rows(3) assms(2)] turn(1,2) by simp
    then show ?thesis unfolding turn(3) by (intro overlay_own ownSessions_mapDelete turn)
  next
    case (key kf)
    have "ownSessions ?r ?a params" using checked_sessions [OF checked_rows(3) assms(2)] key(1,2) by simp
    then show ?thesis using key(3) ownSessions_mapDelete ownRequest_pinned by blast
  qed
qed

lemma usage_handled: "prepareBrowserSelfServiceRequest opts a ''sessions.usage'' params \<noteq> Inr None"
  by (simp add: prepareBrowserSelfServiceRequest_def resultThen_ok)

lemma handlers_own:
  assumes "handlers opts access m params = Inr p" and "admitted m params" and "\<not> boundElsewhere m"
    and "ownsKey (go_resolve opts) (b_agentId (ga_binding access)) (JStr (ga_mainSessionKey access))"
  shows "ownRequest (go_resolve opts) (b_agentId (ga_binding access)) p"
proof -
  let ?a = "b_agentId (ga_binding access)"
  consider "prepareBrowserSelfServiceRequest opts ?a m params = Inr (Some p)"
    | "prepareBrowserCronRequest opts (cronOwner access) m params = Inr (Some p)"
    | "prepareSessionMethod opts ?a m params = Inr (Some p)"
    | "prepareBrowserPersonalReadRequest opts ?a m params = Inr (Some p)"
    | "prepareBrowserPersonalReadRequest opts ?a m params = Inr None" "prepareLiveRequest opts ?a m params = Inr True" "p = params"
    | "prepareSessionTarget opts ?a m params = Inr (Some p)"
    | "prepareBrowserSelfServiceRequest opts ?a m params = Inr None" "prepareBound opts access m params = Inr p"
    using assms(1) by (auto simp: handlers_def Let_def orHandled_ok resultThen_ok split: if_splits)
  then show ?thesis
  proof cases
    case 2
    then show ?thesis using cron_own [OF 2 assms(2,3)] assms(4) by (simp add: cronOwner_def)
  next
    case 5
    then have "m \<noteq> ''approval.history''" using personalRead_history by auto
    with 5 show ?thesis using live_own [OF _ assms(2,3)] by simp
  next
    case 7
    then have "m \<noteq> ''sessions.usage''" using usage_handled by auto
    with 7 show ?thesis using bound_own [OF _ assms(2)] by simp
  qed (use assms in \<open>auto intro: selfService_own sessionMethod_own personalRead_own target_own\<close>)
qed

end
