(* ===== verification/GatewayFilters.thy ===== *)
theory GatewayFilters
  imports GatewayBoundary
begin

text \<open>
  The fields of a request that select sessions without being checked (\<open>spawnedBy\<close>, \<open>sessionId\<close> and \<open>label\<close>)
  and the second field that names an agent (\<open>targetAgentId\<close>). A request that still has one of the former when
  it leaves for the gateway has the agent of the browser in its \<open>agentId\<close>: what it selects, it selects among
  the sessions of that agent.
\<close>

section \<open>Fields that select\<close>

definition filterFields :: "string list" where
  "filterFields = [''spawnedBy'', ''sessionId'', ''label'']"

definition unfiltered :: "js_object \<Rightarrow> bool" where
  "unfiltered request \<longleftrightarrow> list_all (\<lambda>f. fieldOf request f = JUndefined) filterFields"

text \<open>
  The requests with a filter are for the agent. The session id of a terminal request is that of a terminal,
  which the terminal controller looks up among those of the connection.
\<close>

definition filtersPinned :: "string \<Rightarrow> string \<Rightarrow> js_object \<Rightarrow> bool" where
  "filtersPinned method agentId request \<longleftrightarrow>
     method \<in> set TERMINAL_METHODS \<or> fieldOf request ''agentId'' = JStr agentId \<or> unfiltered request"

text \<open>The methods whose parameters are passed on without the agent.\<close>

definition unpinnedMethod :: "string \<Rightarrow> bool" where
  "unpinnedMethod m \<longleftrightarrow>
     freeMethod m
     \<or> m \<in> {''cron.update'', ''sessions.preview'', ''controlUi.sessionPullRequests.subscribe'', ''sessions.describe''}
     \<or> prefix ''sessions.companion.'' m"

definition filterRow :: "string \<times> string list \<Rightarrow> bool" where
  "filterRow e \<longleftrightarrow>
     (if list_all (\<lambda>f. f \<notin> set (snd e)) filterFields then True
      else if fst e \<in> set TERMINAL_METHODS then True
      else if boundElsewhere (fst e) then True
      else \<not> unpinnedMethod (fst e))"

definition targetRow :: "string \<times> string list \<Rightarrow> bool" where
  "targetRow e \<longleftrightarrow> (if ''targetAgentId'' \<in> set (snd e) then fst e = ''skills.proposals.requestRevision'' else True)"

lemma policy_rows:
  "list_all (\<lambda>e. filterRow e \<and> targetRow e) SPACE_RPC_PARAMS"
  "list_all (\<lambda>e. filterRow e \<and> targetRow e) KNOWLEDGE_VAULT_RPC_PARAMS"
  "list_all (\<lambda>e. filterRow e \<and> targetRow e) gameParams"
  "list_all (\<lambda>e. filterRow e \<and> targetRow e) PLATFORMCLAW_WEB_TALK_PARAMS"
  "list_all (\<lambda>e. filterRow e \<and> targetRow e) chatParams"
  "list_all (\<lambda>e. filterRow e \<and> targetRow e) personalParams"
  "list_all (\<lambda>e. filterRow e \<and> targetRow e) sessionParams"
  "list_all (\<lambda>e. filterRow e \<and> targetRow e) workshopParams"
  by code_simp+

lemma allowed_row: "allowedParamsOf m = Some allowed \<Longrightarrow> filterRow (m, allowed) \<and> targetRow (m, allowed)"
  using policy_rows
  by (auto simp: allowedParamsOf_def PLATFORMCLAW_WEB_ALLOWED_PARAMS_def list_all_iff dest!: map_of_SomeD)

lemma passed_unfiltered:
  assumes "admitted m params" and "unpinnedMethod m" and "m \<notin> set TERMINAL_METHODS" and "\<not> boundElsewhere m"
  shows "unfiltered params"
proof -
  obtain allowed where a: "allowedParamsOf m = Some allowed" "fst ` set params \<subseteq> set allowed"
    using assms(1) by (auto simp: admitted_def)
  then have "list_all (\<lambda>f. f \<notin> set allowed) filterFields"
    using allowed_row [OF a(1)] assms(2-4) by (auto simp: filterRow_def split: if_splits)
  then show ?thesis
    using a(2) by (auto simp: unfiltered_def list_all_iff intro!: fieldOf_absent)
qed

lemma untargeted:
  assumes "admitted m params" and "m \<noteq> ''skills.proposals.requestRevision''"
  shows "fieldOf params ''targetAgentId'' = JUndefined"
proof -
  obtain allowed where a: "allowedParamsOf m = Some allowed" "fst ` set params \<subseteq> set allowed"
    using assms(1) by (auto simp: admitted_def)
  then show ?thesis
    using allowed_row [OF a(1)] assms(2) by (intro fieldOf_absent) (auto simp: targetRow_def split: if_splits)
qed

section \<open>What the handlers keep\<close>

text \<open>
  A handler either puts the agent into the request, or drops the filters, or passes them on for a method that
  may not have them.
\<close>

definition carried :: "string \<Rightarrow> string \<Rightarrow> js_object \<Rightarrow> js_object \<Rightarrow> bool" where
  "carried a m params p \<longleftrightarrow>
     (fieldOf p ''agentId'' = JStr a \<or> unfiltered p
        \<or> unpinnedMethod m \<and> list_all (\<lambda>f. fieldOf p f = fieldOf params f) filterFields)
     \<and> (fieldOf p ''targetAgentId'' \<in> {JUndefined, JStr a}
        \<or> m \<noteq> ''skills.proposals.requestRevision'' \<and> fieldOf p ''targetAgentId'' = fieldOf params ''targetAgentId'')"

lemma carried_within:
  assumes "carried a m params p" and "admitted m params" and "\<not> boundElsewhere m"
  shows "filtersPinned m a p" and "fieldOf p ''targetAgentId'' \<in> {JUndefined, JStr a}"
proof -
  show "filtersPinned m a p"
    using passed_unfiltered [OF assms(2) _ _ assms(3)] assms(1)
    by (auto simp: carried_def filtersPinned_def unfiltered_def list_all_iff)
  show "fieldOf p ''targetAgentId'' \<in> {JUndefined, JStr a}"
    using untargeted [OF assms(2)] assms(1) by (auto simp: carried_def)
qed

lemma carried_same: "unpinnedMethod m \<Longrightarrow> m \<noteq> ''skills.proposals.requestRevision'' \<Longrightarrow> carried a m params params"
  by (simp add: carried_def list_all_iff)

lemma unpinned_names:
  "m \<in> {''cron.update'', ''sessions.preview'', ''controlUi.sessionPullRequests.subscribe'', ''sessions.describe''}
   \<Longrightarrow> unpinnedMethod m"
  "prefix ''sessions.companion.'' m \<Longrightarrow> unpinnedMethod m" "freeMethod m \<Longrightarrow> unpinnedMethod m"
  "\<not> freeMethod ''skills.proposals.requestRevision''"
  by (simp_all add: unpinnedMethod_def) code_simp

lemma carried_free: "freeMethod m \<Longrightarrow> carried a m params params"
  using unpinned_names(3,4) by (intro carried_same) auto

lemma carried_plain [simp]: "carried a m params []" "carried a m params [(''view'', v)]"
  by (simp_all add: carried_def unfiltered_def filterFields_def)

lemma carriedI:
  "fieldOf p ''agentId'' = JStr a \<Longrightarrow> m \<noteq> ''skills.proposals.requestRevision''
   \<Longrightarrow> fieldOf p ''targetAgentId'' = fieldOf params ''targetAgentId'' \<Longrightarrow> carried a m params p"
  by (simp add: carried_def)

lemma carried_put:
  "unpinnedMethod m \<Longrightarrow> m \<noteq> ''skills.proposals.requestRevision'' \<Longrightarrow> f \<notin> set filterFields \<Longrightarrow> f \<noteq> ''targetAgentId''
   \<Longrightarrow> carried a m params (mapSet params f v)"
  by (auto simp: carried_def list_all_iff)

lemma free_visibility: "freeMethod ''sessions.observer.visibility''"
  by (simp add: freeMethod_def)

lemma selfService_carried:
  "prepareBrowserSelfServiceRequest opts a m params = Inr (Some p) \<Longrightarrow> carried a m params p"
  unfolding prepareBrowserSelfServiceRequest_def
  apply (elim elim_if)
  subgoal by simp
  subgoal by auto
  subgoal by auto
  subgoal by (simp add: freeMethod_def carried_free)
  subgoal by (elim resultThenE) (simp only: sum.inject option.inject, hypsubst, rule carriedI, simp, force, simp)
  subgoal by (elim resultThenE) (simp only: sum.inject option.inject, hypsubst, rule carriedI, simp_all)
  subgoal by (rule carriedI) (auto simp: resultThen_ok split: if_splits)
  subgoal by (auto simp: carried_def resultThen_ok)
  subgoal by (rule carriedI) (auto simp: resultThen_ok)
  subgoal by simp
  done

lemma cron_carried:
  "prepareBrowserCronRequest opts owner m params = Inr (Some p) \<Longrightarrow> carried (co_agentId owner) m params p"
  unfolding prepareBrowserCronRequest_def
  apply (elim elim_if)
  subgoal by simp
  subgoal by simp
  subgoal by (rule carriedI) (auto simp: resultThen_ok browserCronListScope_def split: if_splits)
  subgoal
    by (auto simp: carried_def resultThen_ok job_pinned job_field jobFields_def pick_def elim!: restrictJob_shape)
  subgoal by (elim resultThenE) (simp add: unpinned_names(1), hypsubst, rule carried_put, simp_all add: unpinned_names(1) filterFields_def)
  subgoal
  proof -
    assume "\<not> m \<notin> set BROWSER_CRON_METHODS" "m \<noteq> ''cron.status''" "m \<notin> {''cron.list'', ''cron.runs''}"
      "m \<noteq> ''cron.add''" "m \<noteq> ''cron.update''" "Inr (Some params) = Inr (Some p)"
    then have "m = ''cron.get'' \<or> m = ''cron.remove'' \<or> m = ''cron.run''" "p = params"
      by (simp_all add: BROWSER_CRON_METHODS_def)
    then show ?thesis using carried_free by (auto simp: freeMethod_def)
  qed
  done

lemma search_fields:
  "fieldOf (prepareSessionSearch opts a params) ''agentId'' = JStr a"
  "fieldOf (prepareSessionSearch opts a params) ''targetAgentId'' = fieldOf params ''targetAgentId''"
  by (simp_all add: prepareSessionSearch_def split: js_value.split)

lemma sessionMethod_carried:
  "prepareSessionMethod opts a m params = Inr (Some p) \<Longrightarrow> carried a m params p"
  unfolding prepareSessionMethod_def
  apply (elim elim_if)
  subgoal by (rule carriedI) (auto simp: resultThen_ok)
  subgoal by (rule carriedI) (auto simp: resultThen_ok search_fields)
  subgoal using unpinned_names(1) by (auto simp: resultThen_ok intro!: carried_same)
  subgoal by simp
  done

lemma live_carried:
  assumes "prepareLiveRequest opts a m params = Inr True"
  shows "carried a m params params"
proof (cases "list_ex (\<lambda>p. prefix p m) INTERACTIVE_METHOD_PREFIXES")
  case True
  then show ?thesis by (intro carried_free) (simp add: freeMethod_def)
next
  case False
  with assms have "m = ''controlUi.sessionPullRequests.subscribe''"
    by (auto simp: prepareLiveRequest_def split: if_splits)
  then show ?thesis using unpinned_names(1) by (intro carried_same) auto
qed

lemma target_carried:
  "prepareSessionTarget opts a m params = Inr (Some p) \<Longrightarrow> carried a m params p"
  unfolding prepareSessionTarget_def
  apply (elim elim_if)
  subgoal using unpinned_names(1) by (auto simp: resultThen_ok intro!: carried_same)
  subgoal by (rule carriedI) (auto simp: resultThen_ok)
  subgoal by (rule carriedI) (auto simp: resultThen_ok)
  subgoal
  proof (elim resultThenE)
    assume m: "prefix ''sessions.companion.'' m" and "Inr (Some params) = Inr (Some p)"
    then have "m \<noteq> ''skills.proposals.requestRevision''" "p = params" by auto
    with carried_same [OF unpinned_names(2) [OF m]] show ?thesis by simp
  qed
  subgoal using carried_free [OF free_visibility] by (simp split: js_value.splits)
  subgoal
  proof -
    assume m: "m \<in> set TERMINAL_METHODS"
      and "Inr (Some (if m = ''terminal.open'' then mapSet params ''agentId'' (JStr a) else params)) = Inr (Some p)"
    then have p: "p = mapSet params ''agentId'' (JStr a) \<or> p = params" by (auto split: if_splits)
    from m have f: "freeMethod m" by (simp add: freeMethod_def)
    then have "m \<noteq> ''skills.proposals.requestRevision''" using unpinned_names(4) by blast
    with p show ?thesis using carried_free [OF f] by (auto intro: carriedI)
  qed
  subgoal by (auto simp: freeMethod_def intro!: carried_free)
  subgoal by simp
  done

lemma bound_carried:
  "prepareBound opts access m params = Inr p \<Longrightarrow> m \<noteq> ''skills.proposals.requestRevision''
   \<Longrightarrow> carried (b_agentId (ga_binding access)) m params p"
  by (auto simp: prepareBound_def Let_def resultThen_ok carried_def split: if_splits option.splits)

text \<open>What is read for the user is new: the agent, and none of these fields.\<close>

definition plainFields :: "js_object \<Rightarrow> bool" where
  "plainFields es \<longleftrightarrow> list_all (\<lambda>e. fst e \<notin> {''agentId'', ''targetAgentId''}) es"

lemma plainFields_simps [simp]:
  "plainFields []" "plainFields ((k, v) # es) \<longleftrightarrow> k \<noteq> ''agentId'' \<and> k \<noteq> ''targetAgentId'' \<and> plainFields es"
  "plainFields (xs @ ys) \<longleftrightarrow> plainFields xs \<and> plainFields ys"
  "plainFields (optionalField k w) \<longleftrightarrow> w = None \<or> k \<noteq> ''agentId'' \<and> k \<noteq> ''targetAgentId''"
  "plainFields (case n of None \<Rightarrow> [] | Some n \<Rightarrow> [(k, JNum n)]) \<longleftrightarrow> n = None \<or> k \<noteq> ''agentId'' \<and> k \<noteq> ''targetAgentId''"
  by (auto simp: plainFields_def optionalField_def split: option.split)

lemma plainFields_defined [simp]:
  "list_all (\<lambda>k. k \<noteq> ''agentId'' \<and> k \<noteq> ''targetAgentId'') ks \<Longrightarrow> plainFields (definedFields request ks)"
  by (auto simp: plainFields_def definedFields_def withoutUndefined_def pick_def list_all_iff)

lemma plain_carried:
  "plainFields es \<Longrightarrow> carried a m params ((''agentId'', JStr a) # es)"
  "plainFields [(k, v)] \<Longrightarrow> plainFields es \<Longrightarrow> carried a m params ((k, v) # (''agentId'', JStr a) # es)"
  by (auto simp: carried_def plainFields_def list_all_iff intro!: fieldOf_absent)

lemma wikiFields_plain: "prepareWikiFields m request = Inr es \<Longrightarrow> plainFields es"
  unfolding prepareWikiFields_def prepareWikiDelete_def prepareWikiSave_def prepareWikiSearch_def prepareWikiLookup_def Let_def
  apply (elim elim_if)
  subgoal by (auto simp: ok_iff)
  subgoal by (auto simp: ok_iff split: if_splits)
  subgoal by (auto split: js_value.splits)
  subgoal by (elim resultThenE) (simp only: sum.inject, hypsubst, simp)
  subgoal by (elim resultThenE elim_if) (simp only: sum.inject, hypsubst, simp)+
  subgoal by simp
  done

lemma wiki_carried: "prepareBrowserWikiRequest a m request = Inr (Some p) \<Longrightarrow> carried a m params p"
  by (auto simp: prepareBrowserWikiRequest_def resultThen_ok intro!: plain_carried dest: wikiFields_plain split: if_splits)

lemma memoryParts_carried:
  "prepareMemoryDelete a request = Inr p \<Longrightarrow> carried a m params p"
  "prepareMemorySearch a request = Inr p \<Longrightarrow> carried a m params p"
  by (auto simp: prepareMemoryDelete_def prepareMemorySearch_def Let_def ok_iff intro!: plain_carried)

lemma memoryFields_carried: "prepareMemoryFields a m request = Inr p \<Longrightarrow> carried a m params p"
  unfolding prepareMemoryFields_def
  by (elim elim_if) (auto simp: option_case_ok intro!: plain_carried dest: memoryParts_carried)

lemma history_carried:
  "prepareBrowserApprovalHistoryRequest opts a m request = Inr (Some p) \<Longrightarrow> carried a m params p"
  by (auto simp: prepareBrowserApprovalHistoryRequest_def Let_def resultThen_ok intro!: plain_carried split: if_splits)

lemma memory_carried: "prepareBrowserMemoryRequest a m request = Inr (Some p) \<Longrightarrow> carried a m params p"
  by (auto simp: prepareBrowserMemoryRequest_def resultThen_ok dest: memoryFields_carried split: if_splits)

lemma personalRead_carried:
  "prepareBrowserPersonalReadRequest opts a m request = Inr (Some p) \<Longrightarrow> carried a m params p"
  by (auto simp: prepareBrowserPersonalReadRequest_def resultThen_ok
      intro: history_carried memory_carried wiki_carried split: option.splits)

lemma revision_handled: "prepareBrowserSelfServiceRequest opts a ''skills.proposals.requestRevision'' params \<noteq> Inr None"
  using unpinned_names(4)
  by (auto simp: prepareBrowserSelfServiceRequest_def resultThen_ok freeMethod_def)

lemma handlers_carried:
  assumes "handlers opts access m params = Inr p"
  shows "carried (b_agentId (ga_binding access)) m params p"
proof -
  let ?a = "b_agentId (ga_binding access)"
  consider "prepareBrowserSelfServiceRequest opts ?a m params = Inr (Some p)"
    | "prepareBrowserCronRequest opts (cronOwner access) m params = Inr (Some p)"
    | "prepareSessionMethod opts ?a m params = Inr (Some p)"
    | "prepareBrowserPersonalReadRequest opts ?a m params = Inr (Some p)"
    | "prepareLiveRequest opts ?a m params = Inr True" "p = params"
    | "prepareSessionTarget opts ?a m params = Inr (Some p)"
    | "prepareBrowserSelfServiceRequest opts ?a m params = Inr None" "prepareBound opts access m params = Inr p"
    using assms(1) by (auto simp: handlers_def Let_def orHandled_ok resultThen_ok split: if_splits)
  then show ?thesis
  proof cases
    case 2
    then show ?thesis using cron_carried [OF 2] by (simp add: cronOwner_def)
  next
    case 7
    then show ?thesis using revision_handled by (intro bound_carried) auto
  qed (auto intro: selfService_carried sessionMethod_carried personalRead_carried live_carried target_carried)
qed

end
