(* ===== verification/GatewayIsolation.thy ===== *)
theory GatewayIsolation
  imports GatewayFilters
begin

text \<open>
  What the boundary of the gateway guarantees: a prepared request stays within one agent, a turn carries the
  sender the platform names, and two users never reach the same agent or session, however their requests and
  the other calls on the control plane store are ordered.
\<close>

section \<open>Prepared requests\<close>

lemma prepareRequestE:
  assumes "prepareRequest opts access m raw = Inr p"
  obtains params where "m \<in> set PLATFORMCLAW_WEB_GATEWAY_METHODS"
    "m \<in> set PLATFORMCLAW_WEB_ADMIN_METHODS \<longrightarrow> u_globalRole (ga_user access) = GlobalAdmin"
    "asBrowserGatewayObject raw (m @ '' params'') = Inr params" "admitted m params"
    "m \<in> set PLATFORMCLAW_WEB_TALK_METHODS \<and> p = params
       \<or> m \<notin> set PLATFORMCLAW_WEB_TALK_METHODS \<and> handlers opts access m params = Inr p"
  using assms unfolding prepareRequest_def
  by (elim elim_if) (auto simp: ok_iff admitted_def refuse_def split: if_splits)

text \<open>The keys of the sessions a request names.\<close>

definition sessionNames :: "js_value \<Rightarrow> string list" where
  "sessionNames v =
     (case v of
        JStr s \<Rightarrow> [trim s]
      | JArr vs \<Rightarrow> concat (map (\<lambda>v. case v of JStr s \<Rightarrow> [trim s] | _ \<Rightarrow> []) vs)
      | _ \<Rightarrow> [])"

definition namedSessions :: "js_object \<Rightarrow> string list" where
  "namedSessions request = concat (map (\<lambda>f. sessionNames (fieldOf request f)) sessionFields)"

text \<open>
  What a request addresses: the sessions its keys name, whoever they are of, and what its filters select
  among the sessions of the agent it is for.
\<close>

definition requestAgent :: "js_object \<Rightarrow> string option" where
  "requestAgent request = (case fieldOf request ''agentId'' of JStr a \<Rightarrow> Some a | _ \<Rightarrow> None)"

definition addressed :: "(string \<Rightarrow> string option) \<Rightarrow> string \<Rightarrow> js_object \<Rightarrow> (string option \<times> string) list" where
  "addressed resolve method request =
     map (\<lambda>key. (resolve key, key)) (namedSessions request)
     @ (if method \<in> set TERMINAL_METHODS then []
        else map (\<lambda>name. (requestAgent request, name))
               (concat (map (\<lambda>f. sessionNames (fieldOf request f)) filterFields)))"

lemma ownValue_names: "ownValue resolve a v \<Longrightarrow> key \<in> set (sessionNames v) \<Longrightarrow> resolve key = Some a"
  by (cases v) (auto simp: ownValue_def sessionNames_def list_all_iff split: js_value.splits)

lemma ownRequest_names: "ownRequest resolve a p \<Longrightarrow> key \<in> set (namedSessions p) \<Longrightarrow> resolve key = Some a"
  using ownValue_names by (fastforce simp: ownRequest_def ownSessions_def namedSessions_def list_all_iff)

lemma own_addressed:
  assumes "ownRequest resolve a p" and "filtersPinned m a p"
  shows "list_all (\<lambda>x. fst x = Some a) (addressed resolve m p)"
  using assms ownRequest_names [OF assms(1)]
  by (auto simp: addressed_def requestAgent_def filtersPinned_def unfiltered_def list_all_iff sessionNames_def)


lemma prepared_own:
  assumes "prepareRequest opts access m raw = Inr p" and "\<not> boundElsewhere m"
    and "ownsKey (go_resolve opts) (b_agentId (ga_binding access)) (JStr (ga_mainSessionKey access))"
  shows "ownRequest (go_resolve opts) (b_agentId (ga_binding access)) p"
  using assms(1)
proof (rule prepareRequestE)
  fix params assume "admitted m params" and "m \<in> set PLATFORMCLAW_WEB_TALK_METHODS \<and> p = params
       \<or> m \<notin> set PLATFORMCLAW_WEB_TALK_METHODS \<and> handlers opts access m params = Inr p"
  moreover from assms(2) have "m \<notin> set PLATFORMCLAW_WEB_TALK_METHODS" by (simp add: boundElsewhere_def)
  ultimately show ?thesis using handlers_own assms(2,3) by blast
qed

lemma prepared_within:
  assumes "prepareRequest opts access m raw = Inr p" and "\<not> boundElsewhere m"
  shows "filtersPinned m (b_agentId (ga_binding access)) p"
    and "fieldOf p ''targetAgentId'' \<in> {JUndefined, JStr (b_agentId (ga_binding access))}"
proof -
  from assms(1) obtain params where "admitted m params" "handlers opts access m params = Inr p"
    by (rule prepareRequestE) (use assms(2) in \<open>auto simp: boundElsewhere_def\<close>)
  then show "filtersPinned m (b_agentId (ga_binding access)) p"
    and "fieldOf p ''targetAgentId'' \<in> {JUndefined, JStr (b_agentId (ga_binding access))}"
    using carried_within [OF handlers_carried _ assms(2)] by blast+
qed

section \<open>Agents of different users\<close>





section \<open>Turns\<close>

lemma turn_facts:
  "list_all (\<lambda>m. \<not> passedOn m \<and> m \<notin> set VM_SKILL_WORKSHOP_METHODS \<and> m \<notin> set BROWSER_CRON_METHODS
     \<and> m \<notin> set WIKI_METHODS \<and> \<not> list_ex (\<lambda>p. prefix p m) INTERACTIVE_METHOD_PREFIXES \<and> \<not> prefix ''sessions.companion.'' m
     \<and> m \<notin> set TERMINAL_METHODS \<and> m \<notin> set BROWSER_TASK_METHODS
     \<and> m \<notin> {''models.list'', ''agents.list'', ''users.self'', ''plugins.list'', ''usage.cost'', ''sessions.usage'', ''sessions.delete'',
         ''skills.install'', ''skills.proposals.requestRevision'', ''sessions.list'', ''sessions.search'', ''sessions.preview'',
         ''approval.history'', ''memory.search'', ''memory.delete'', ''agents.workspace.get'', ''agents.workspace.list'',
         ''controlUi.sessionPullRequests.subscribe'', ''sessions.messages.subscribe'', ''sessions.describe'', ''sessions.resolve'',
         ''sessions.create'', ''sessions.observer.visibility'', ''tasks.list''}
     \<and> m \<notin> set PLATFORMCLAW_WEB_TALK_METHODS \<and> m \<notin> set PLATFORMCLAW_WEB_AGENT_ONLY_METHODS
     \<and> \<not> mentions m ''personalAutomations'' \<and> map_of PLATFORMCLAW_WEB_SESSION_KEY_METHODS m \<noteq> None
     \<and> m \<in> set PLATFORMCLAW_WEB_GATEWAY_METHODS \<and> m \<notin> set PLATFORMCLAW_WEB_ADMIN_METHODS) turnMethods"
  by code_simp

lemma turn_routed:
  assumes "m \<in> set turnMethods"
  shows "handlers opts access m params = prepareBound opts access m params"
proof -
  note f = turn_facts [unfolded list_all_iff, rule_format, OF assms, unfolded insert_iff empty_iff de_Morgan_disj]
  have a: "prepareBrowserSelfServiceRequest opts a m params = Inr None" for a
    using f by (simp add: prepareBrowserSelfServiceRequest_def)
  have b: "prepareBrowserCronRequest opts ow m params = Inr None" for ow
    using f by (simp add: prepareBrowserCronRequest_def)
  have c: "prepareSessionMethod opts a m params = Inr None" for a
    using f by (simp add: prepareSessionMethod_def)
  have d: "prepareBrowserPersonalReadRequest opts a m params = Inr None" for a
    using f by (simp add: prepareBrowserPersonalReadRequest_def prepareBrowserApprovalHistoryRequest_def
        prepareBrowserMemoryRequest_def prepareBrowserWikiRequest_def)
  have e: "prepareLiveRequest opts a m params = Inr False" for a
    using f by (simp add: prepareLiveRequest_def)
  have h: "prepareSessionTarget opts a m params = Inr None" for a
    using f by (simp add: prepareSessionTarget_def)
  show ?thesis by (simp add: handlers_def Let_def orHandled_def a b c d e h)
qed

section \<open>Properties\<close>

text \<open>
  C3. A request that the boundary lets through to the gateway is for an allowed method, an administration
  method only for an administrator. Every session key it has (in \<open>key\<close>, \<open>sessionKey\<close>, \<open>parentSessionKey\<close>,
  \<open>keys\<close>, \<open>sessionKeys\<close> or \<open>refreshSessionKeys\<close>) resolves to the personal agent of the browser, and its
  \<open>agentId\<close> and \<open>targetAgentId\<close>, if any, are that agent. The fields that select sessions and are not checked,
  \<open>spawnedBy\<close>, \<open>sessionId\<close> and \<open>label\<close>, are only in a request whose \<open>agentId\<close> is that agent, so that they
  select among its sessions (the \<open>sessionId\<close> of a terminal request is that of a terminal). Set aside are the
  requests that other parts bind: voice, the route of a space conversation and the list of task suggestions.
\<close>

theorem request_within_agent:
  assumes "prepareRequest opts access m raw = Inr p" and "\<not> boundElsewhere m"
    and "ownsKey (go_resolve opts) (b_agentId (ga_binding access)) (JStr (ga_mainSessionKey access))"
  shows "m \<in> set PLATFORMCLAW_WEB_GATEWAY_METHODS
    \<and> (m \<in> set PLATFORMCLAW_WEB_ADMIN_METHODS \<longrightarrow> u_globalRole (ga_user access) = GlobalAdmin)
    \<and> ownRequest (go_resolve opts) (b_agentId (ga_binding access)) p
    \<and> fieldOf p ''targetAgentId'' \<in> {JUndefined, JStr (b_agentId (ga_binding access))}
    \<and> filtersPinned m (b_agentId (ga_binding access)) p
    \<and> list_all (\<lambda>(owner, name). owner = Some (b_agentId (ga_binding access))) (addressed (go_resolve opts) m p)"
proof -
  note own = prepared_own [OF assms] and within = prepared_within [OF assms(1,2)]
  have "m \<in> set PLATFORMCLAW_WEB_GATEWAY_METHODS"
    "m \<in> set PLATFORMCLAW_WEB_ADMIN_METHODS \<longrightarrow> u_globalRole (ga_user access) = GlobalAdmin"
    using assms(1) by (blast elim: prepareRequestE)+
  with own within own_addressed [OF own within(1)] show ?thesis by (simp only: case_prod_unfold simp_thms)
qed

text \<open>
  C6. A turn (a message sent to the agent) is accepted only with a session key of the browser's own agent. It
  reaches the gateway with delivery off, with the sender the platform names, whatever the browser claimed,
  with the automations of the person only in a session that is not a space conversation, and otherwise as
  it was sent.
\<close>

theorem turn_attributed:
  assumes "m \<in> set turnMethods" and "prepareRequest opts access m (JObj params) = Inr p"
  shows "\<exists>keyField key. map_of PLATFORMCLAW_WEB_SESSION_KEY_METHODS m = Some keyField
    \<and> optionalString (fieldOf params keyField) = Some key
    \<and> go_resolve opts key = Some (b_agentId (ga_binding access))
    \<and> fieldOf p ''agentId'' = JStr (b_agentId (ga_binding access))
    \<and> fieldOf p ''deliver'' = JBool False
    \<and> fieldOf p ''senderAttribution'' = JObj (createBrowserSenderAttribution access)
    \<and> fieldOf p ''personalAutomations'' = (if isPersonalSession opts key then JBool True else JUndefined)
    \<and> fieldOf p ''__controlUiReconnectResume'' = JUndefined
    \<and> (\<forall>f. f \<notin> {''agentId'', ''deliver'', ''senderAttribution'', ''personalAutomations'', ''__controlUiReconnectResume''}
         \<longrightarrow> fieldOf p f = fieldOf params f)"
  using assms(2)
proof (rule prepareRequestE)
  note f = turn_facts [unfolded list_all_iff, rule_format, OF assms(1)]
  fix params' assume "asBrowserGatewayObject (JObj params) (m @ '' params'') = Inr params'" and a: "admitted m params'"
    and "m \<in> set PLATFORMCLAW_WEB_TALK_METHODS \<and> p = params'
       \<or> m \<notin> set PLATFORMCLAW_WEB_TALK_METHODS \<and> handlers opts access m params' = Inr p"
  then have params: "params' = params" and p: "prepareBound opts access m params = Inr p"
    using f turn_routed [OF assms(1)] by (auto simp: asBrowserGatewayObject_def)
  have auto: "fieldOf params ''personalAutomations'' = JUndefined"
    using admitted_lacks [OF a [unfolded params]] f by blast
  from f obtain kf where kf: "map_of PLATFORMCLAW_WEB_SESSION_KEY_METHODS m = Some kf" by blast
  from p f kf assms(1) obtain key where key: "ownedSessionKey (go_resolve opts) (b_agentId (ga_binding access)) (fieldOf params kf) kf = Inr key"
    and p': "p = spread (mapDelete params ''__controlUiReconnectResume'')
      ([(''agentId'', JStr (b_agentId (ga_binding access))), (''deliver'', JBool False),
        (''senderAttribution'', JObj (createBrowserSenderAttribution access))]
       @ (if isPersonalSession opts key then [(''personalAutomations'', JBool True)] else []))"
    by (auto simp: prepareBound_def Let_def resultThen_ok simp del: spread_Cons)
  show ?thesis
    using kf key [unfolded ownedSessionKey_ok] auto by (auto simp: p')
qed


section \<open>Concrete requests\<close>

definition demoGateway :: gateway_options where
  "demoGateway = \<lparr>go_resolve = resolvePersonalAgentId, go_registered = (\<lambda>_. False), go_ownsRun = (\<lambda>_. False),
     go_decodeCursor = (\<lambda>_. None)\<rparr>"

definition demoAccess :: "platform_user \<Rightarrow> browser_session \<Rightarrow> agent_binding \<Rightarrow> gateway_access" where
  "demoAccess u e b = \<lparr>ga_user = u, ga_session = Some e, ga_binding = b,
     ga_mainSessionKey = ''agent:'' @ b_agentId b @ '':main''\<rparr>"

definition annAccess :: gateway_access where
  "annAccess = demoAccess annMember annSession20 annActive"

definition annTurn :: js_object where
  "annTurn = [(''sessionKey'', JStr ''agent:ann:main''), (''message'', JStr ''hello''), (''deliver'', JBool True)]"

lemma turn_policy:
  "allowedParamsOf ''chat.send'' =
     Some [''sessionKey'', ''agentId'', ''sessionId'', ''message'', ''thinking'', ''fastMode'', ''fastAutoOnSeconds'',
       ''queueMode'', ''deliver'', ''attachments'', ''timeoutMs'', ''idempotencyKey'', ''expectedLeafEntryId'',
       ''requireExactLeaf'', ''replyToId'', ''__controlUiReconnectResume'']"
  by code_simp

lemma turn_prepared:
  assumes "prepareBound demoGateway access ''chat.send'' params = Inr p"
    and "list_all (\<lambda>e. fst e \<in> {''sessionKey'', ''message'', ''deliver''}) params"
  shows "prepareRequest demoGateway access ''chat.send'' (JObj params) = Inr p"
proof -
  have m: "''chat.send'' \<in> set turnMethods" by (simp add: turnMethods_def)
  have "methodParams allowedParamsOf ''chat.send'' params = Inr ()"
    using assms(2) by (auto simp: methodParams_ok turn_policy list_all_iff)
  then show ?thesis
    using assms(1) turn_facts [unfolded list_all_iff, rule_format, OF m] turn_routed [OF m]
    by (simp add: prepareRequest_def asBrowserGatewayObject_def)
qed

definition annPrepared :: js_object where
  "annPrepared =
     [(''sessionKey'', JStr ''agent:ann:main''), (''message'', JStr ''hello''), (''deliver'', JBool False),
      (''agentId'', JStr ''ann''), (''senderAttribution'', JObj (createBrowserSenderAttribution annAccess)),
      (''personalAutomations'', JBool True)]"

lemma annTurn_prepared: "prepareRequest demoGateway annAccess ''chat.send'' (JObj annTurn) = Inr annPrepared"
proof (rule turn_prepared)
  show "prepareBound demoGateway annAccess ''chat.send'' annTurn = Inr annPrepared" by code_simp
qed (simp add: annTurn_def)

text \<open>A list of sessions is confined to the agent, whatever session the filter names.\<close>

definition annListing :: js_object where
  "annListing =
     [(''spawnedBy'', JStr ''agent:root:main''), (''agentId'', JStr ''ann''), (''includeGlobal'', JBool False),
      (''includeUnknown'', JBool False), (''configuredAgentsOnly'', JBool True),
      (''excludeSessionKeyPrefixes'', strings [''agent:ann:space-session:''])]"

lemma annListing_prepared:
  "prepareRequest demoGateway annAccess ''sessions.list'' (JObj [(''spawnedBy'', JStr ''agent:root:main'')]) = Inr annListing"
  by code_simp

theorem request_within_agent_witness:
  "ownRequest resolvePersonalAgentId ''ann'' annListing \<and> filtersPinned ''sessions.list'' ''ann'' annListing
    \<and> addressed resolvePersonalAgentId ''sessions.list'' annListing = [(Some ''ann'', ''agent:root:main'')]"
proof -
  have "ownsKey (go_resolve demoGateway) (b_agentId (ga_binding annAccess)) (JStr (ga_mainSessionKey annAccess))"
    and "\<not> boundElsewhere ''sessions.list''"
    by code_simp+
  from request_within_agent [OF annListing_prepared this(2,1)]
  have "ownRequest (go_resolve demoGateway) (b_agentId (ga_binding annAccess)) annListing"
    "filtersPinned ''sessions.list'' (b_agentId (ga_binding annAccess)) annListing" by blast+
  moreover have "addressed resolvePersonalAgentId ''sessions.list'' annListing = [(Some ''ann'', ''agent:root:main'')]"
    by code_simp
  ultimately show ?thesis by (simp add: demoGateway_def annAccess_def demoAccess_def annActive_def)
qed

theorem turn_attributed_witness:
  "fieldOf annPrepared ''deliver'' = JBool False
    \<and> fieldOf annPrepared ''senderAttribution'' = JObj (createBrowserSenderAttribution annAccess)"
proof -
  have "''chat.send'' \<in> set turnMethods" by (simp add: turnMethods_def)
  from turn_attributed [OF this annTurn_prepared] show ?thesis by blast
qed










end
