(* ===== verification/TerminalController.thy ===== *)
theory TerminalController
  imports GatewayRequest
begin

text \<open>
  The owner of the personal VM terminals (\<open>browser-gateway-terminal.ts\<close>): how many terminals an agent may
  have open, which browser connection a terminal is attached to, and when it is taken away. Every method runs
  until its next \<open>await\<close> in one step; the steps of all requests, timers and events interleave freely.
\<close>

section \<open>State\<close>

text \<open>
  Records are shared between two maps and compared by identity, so they live in a list and the maps hold
  their position. \<open>tr_reaper\<close> tells whether a timer is set; \<open>tr_operations\<close> is the last request that queued
  for the record (\<open>record.operations\<close> settles when that request is over).
\<close>

record terminal_record =
  tr_sessionId :: string
  tr_userId :: string
  tr_accountId :: string
  tr_bindingId :: string
  tr_agentId :: string
  tr_allocationId :: string
  tr_targetRevision :: int
  tr_attached :: "string option"
  tr_createdAt :: int
  tr_reaper :: bool
  tr_operations :: "nat option"
  tr_opening :: bool

text \<open>\<open>cn_timer\<close> identifies the connection object, which its expiry timer compares.\<close>

record connection_access =
  cn_userId :: string
  cn_agentId :: string
  cn_expiresAt :: int
  cn_timer :: nat

datatype terminal_error = TerminalRefused gateway_error | UpstreamThrew

text \<open>What a request waits for, with what it has learnt so far, or how it ended.\<close>

datatype terminal_phase =
    AwaitProfile
  | AwaitOpen string int
  | AwaitUnusable
  | AwaitAttach nat js_object
  | AwaitOpenAudit nat js_object js_object
  | AwaitFailed terminal_error
  | AwaitList "nat list"
  | AwaitMissing "js_value list" "js_value list" "nat list"
  | AwaitTurn nat "nat option"
  | AwaitOperation nat
  | AwaitCloseAudit nat js_value
  | Returned "terminal_error + js_value"

record terminal_task =
  tk_access :: gateway_access
  tk_connection :: string
  tk_method :: string
  tk_request :: js_object
  tk_agentEpoch :: nat
  tk_gatewayEpoch :: nat
  tk_phase :: terminal_phase

record terminals =
  tc_records :: "terminal_record list"
  tc_bySession :: "(string, nat) jsmap"
  tc_byOwner :: "(string, (string, nat) jsmap) jsmap"
  tc_pendingOwners :: "(string, nat) jsmap"
  tc_listeners :: "(string, nat) jsmap"
  tc_listenerSets :: "nat list list"
  tc_connections :: "(string, connection_access) jsmap"
  tc_agentEpochs :: "(string, nat) jsmap"
  tc_gatewayEpoch :: nat
  tc_timers :: nat
  tc_tasks :: "terminal_task list"
  tc_detached :: "(nat \<times> string) list"

definition emptyTerminals :: terminals where
  "emptyTerminals = \<lparr>tc_records = [], tc_bySession = [], tc_byOwner = [], tc_pendingOwners = [], tc_listeners = [],
     tc_listenerSets = [], tc_connections = [], tc_agentEpochs = [], tc_gatewayEpoch = 0, tc_timers = 0, tc_tasks = [], tc_detached = []\<rparr>"

definition MAX_PERSONAL_TERMINALS :: nat where
  "MAX_PERSONAL_TERMINALS = 8"

definition ownerKey :: "string \<Rightarrow> string \<Rightarrow> string" where
  "ownerKey userId agentId = userId @ nul # agentId"

definition recordKey :: "terminal_record \<Rightarrow> string" where
  "recordKey r = ownerKey (tr_userId r) (tr_agentId r)"

definition accessKey :: "gateway_access \<Rightarrow> string" where
  "accessKey access = ownerKey (u_id (ga_user access)) (b_agentId (ga_binding access))"

definition recordAt :: "terminals \<Rightarrow> nat \<Rightarrow> terminal_record" where
  "recordAt s ref = tc_records s ! ref"

definition changeRecord :: "nat \<Rightarrow> (terminal_record \<Rightarrow> terminal_record) \<Rightarrow> terminals \<Rightarrow> terminals" where
  "changeRecord ref f s = s\<lparr>tc_records := (tc_records s)[ref := f (recordAt s ref)]\<rparr>"

text \<open>\<open>this.bySession.get(record.sessionId) === record\<close>\<close>

definition isCurrent :: "nat \<Rightarrow> terminals \<Rightarrow> bool" where
  "isCurrent ref s \<longleftrightarrow> mapGet (tc_bySession s) (tr_sessionId (recordAt s ref)) = Some ref"

definition ownedRefs :: "string \<Rightarrow> terminals \<Rightarrow> nat list" where
  "ownedRefs key s = (case mapGet (tc_byOwner s) key of None \<Rightarrow> [] | Some owned \<Rightarrow> mapValues owned)"

definition pendingOf :: "string \<Rightarrow> terminals \<Rightarrow> nat" where
  "pendingOf key s = (case mapGet (tc_pendingOwners s) key of None \<Rightarrow> 0 | Some n \<Rightarrow> n)"

definition agentEpochOf :: "string \<Rightarrow> terminals \<Rightarrow> nat" where
  "agentEpochOf agentId s = (case mapGet (tc_agentEpochs s) agentId of None \<Rightarrow> 0 | Some n \<Rightarrow> n)"

definition agentPending :: "string \<Rightarrow> terminals \<Rightarrow> bool" where
  "agentPending agentId s \<longleftrightarrow> list_ex (\<lambda>owner. suffix (nul # agentId) owner) (mapKeys (tc_pendingOwners s))"

definition setPhase :: "nat \<Rightarrow> terminal_phase \<Rightarrow> terminals \<Rightarrow> terminals" where
  "setPhase t phase s = s\<lparr>tc_tasks := (tc_tasks s)[t := (tc_tasks s ! t)\<lparr>tk_phase := phase\<rparr>]\<rparr>"

section \<open>Connections\<close>

text \<open>
  A listener is known by a number. The function that unsubscribes it keeps the set the listener was added to,
  \<open>listeners\<close>, which need not be the one the connection has by then.
\<close>

definition subscribeConnectionEvents :: "string \<Rightarrow> nat \<Rightarrow> terminals \<Rightarrow> terminals" where
  "subscribeConnectionEvents connectionId listener s =
     (case mapGet (tc_listeners s) connectionId of
        None \<Rightarrow>
          s\<lparr>tc_listeners := mapSet (tc_listeners s) connectionId (length (tc_listenerSets s)),
            tc_listenerSets := tc_listenerSets s @ [[listener]]\<rparr>
      | Some listeners \<Rightarrow>
          s\<lparr>tc_listenerSets := (tc_listenerSets s)[listeners := setAdd listener (tc_listenerSets s ! listeners)]\<rparr>)"

definition unsubscribe :: "string \<Rightarrow> nat \<Rightarrow> nat \<Rightarrow> terminals \<Rightarrow> terminals" where
  "unsubscribe connectionId listeners listener s =
     (let left = filter (\<lambda>l. l \<noteq> listener) (tc_listenerSets s ! listeners);
          s1 = s\<lparr>tc_listenerSets := (tc_listenerSets s)[listeners := left]\<rparr>
      in if left = [] then s1\<lparr>tc_listeners := mapDelete (tc_listeners s) connectionId\<rparr> else s1)"

definition refreshConnection :: "string \<Rightarrow> gateway_access \<Rightarrow> int \<Rightarrow> terminals \<Rightarrow> terminals" where
  "refreshConnection connectionId access now s =
     s\<lparr>tc_connections := mapSet (tc_connections s) connectionId
          \<lparr>cn_userId = u_id (ga_user access), cn_agentId = b_agentId (ga_binding access),
           cn_expiresAt = (case ga_session access of
                             Some e \<Rightarrow> min (s_idleExpiresAt e) (s_absoluteExpiresAt e)
                           | None \<Rightarrow> now),
           cn_timer = tc_timers s\<rparr>,
       tc_timers := Suc (tc_timers s)\<rparr>"

definition terminalRefused :: "gateway_error_code \<Rightarrow> string \<Rightarrow> terminal_error + 'a" where
  "terminalRefused code message = Inl (TerminalRefused (GatewayError code message))"

definition assertConnection :: "string \<Rightarrow> int \<Rightarrow> terminals \<Rightarrow> terminal_error + unit" where
  "assertConnection connectionId now s =
     (case mapGet (tc_connections s) connectionId of
        None \<Rightarrow> terminalRefused UnauthenticatedCode ''Browser terminal connection is no longer active.''
      | Some connection \<Rightarrow>
          if cn_expiresAt connection \<le> now
          then terminalRefused UnauthenticatedCode ''Browser terminal connection is no longer active.''
          else Inr ())"

definition assertCurrentRecord :: "nat \<Rightarrow> terminals \<Rightarrow> terminal_error + unit" where
  "assertCurrentRecord ref s =
     (if isCurrent ref s then Inr ()
      else terminalRefused MethodNotAllowed ''This terminal's VM assignment changed. Open a new terminal.'')"

section \<open>Records\<close>

text \<open>The part of \<open>remove\<close> before its \<open>await\<close>.\<close>

definition removeRecord :: "nat \<Rightarrow> terminals \<Rightarrow> terminals" where
  "removeRecord ref s =
     (if \<not> isCurrent ref s then s
      else
        let r = recordAt s ref;
            s1 = changeRecord ref (\<lambda>r. r\<lparr>tr_reaper := False\<rparr>) s
        in s1\<lparr>tc_bySession := mapDelete (tc_bySession s1) (tr_sessionId r),
              tc_byOwner :=
                (case mapGet (tc_byOwner s1) (recordKey r) of
                   None \<Rightarrow> tc_byOwner s1
                 | Some owned \<Rightarrow>
                     let left = mapDelete owned (tr_sessionId r) in
                     if left = [] then mapDelete (tc_byOwner s1) (recordKey r)
                     else mapSet (tc_byOwner s1) (recordKey r) left)\<rparr>)"

text \<open>
  \<open>closeRecord\<close> removes the record before its first \<open>await\<close>; nothing it does later changes the state.
\<close>

definition closeRecord :: "nat \<Rightarrow> terminals \<Rightarrow> terminals" where
  "closeRecord ref s = (if \<not> isCurrent ref s then s else removeRecord ref s)"

definition closeRecords :: "(terminal_record \<Rightarrow> bool) \<Rightarrow> terminals \<Rightarrow> terminals" where
  "closeRecords sel s = fold closeRecord (filter (\<lambda>ref. sel (recordAt s ref)) (mapValues (tc_bySession s))) s"

definition attach :: "nat \<Rightarrow> string \<Rightarrow> terminals \<Rightarrow> terminals" where
  "attach ref connectionId s =
     (let r = recordAt s ref;
          s1 = changeRecord ref (\<lambda>r. r\<lparr>tr_reaper := False, tr_attached := Some connectionId\<rparr>) s
      in case tr_attached r of
           None \<Rightarrow> s1
         | Some previous \<Rightarrow>
             if previous = [] \<or> previous = connectionId then s1
             else
               let listeners = (case mapGet (tc_listeners s) previous of
                                  None \<Rightarrow> [] | Some ls \<Rightarrow> tc_listenerSets s ! ls) in
               s1\<lparr>tc_detached := tc_detached s @ map (\<lambda>l. (l, tr_sessionId r)) listeners\<rparr>)"

section \<open>Requests\<close>

definition addTask :: "gateway_access \<Rightarrow> string \<Rightarrow> string \<Rightarrow> js_object \<Rightarrow> terminal_phase \<Rightarrow> terminals \<Rightarrow> terminals" where
  "addTask access connectionId method request phase s =
     s\<lparr>tc_tasks := tc_tasks s @
         [\<lparr>tk_access = access, tk_connection = connectionId, tk_method = method, tk_request = request,
           tk_agentEpoch = agentEpochOf (b_agentId (ga_binding access)) s, tk_gatewayEpoch = tc_gatewayEpoch s,
           tk_phase = phase\<rparr>]\<rparr>"

definition startOpen :: "gateway_access \<Rightarrow> string \<Rightarrow> js_object \<Rightarrow> terminals \<Rightarrow> terminals" where
  "startOpen access connectionId request s =
     (let key = accessKey access; pending = pendingOf key s in
      if length (filter (\<lambda>ref. \<not> tr_opening (recordAt s ref)) (ownedRefs key s)) + pending \<ge> MAX_PERSONAL_TERMINALS
      then addTask access connectionId ''terminal.open'' request
             (Returned (terminalRefused MethodNotAllowed
                ''This Agent has eight open terminals. Close a terminal before opening another.'')) s
      else
        addTask access connectionId ''terminal.open'' request AwaitProfile
          (s\<lparr>tc_pendingOwners := mapSet (tc_pendingOwners s) key (pending + 1)\<rparr>))"

definition startList :: "gateway_access \<Rightarrow> string \<Rightarrow> js_object \<Rightarrow> terminals \<Rightarrow> terminals" where
  "startList access connectionId request s =
     (let refs = filter (\<lambda>ref. \<not> tr_opening (recordAt s ref)) (ownedRefs (accessKey access) s) in
      addTask access connectionId ''terminal.list'' request
        (if refs = [] then Returned (Inr (JObj [(''sessions'', JArr [])])) else AwaitList refs) s)"

definition requestedSession :: "js_object \<Rightarrow> string" where
  "requestedSession request = (case fieldOf request ''sessionId'' of JStr sessionId \<Rightarrow> trim sessionId | _ \<Rightarrow> [])"

text \<open>The record a request may operate on.\<close>

definition ownedRecord :: "gateway_access \<Rightarrow> string \<Rightarrow> terminals \<Rightarrow> nat option" where
  "ownedRecord access sessionId s =
     (case (if sessionId = [] then None else mapGet (tc_bySession s) sessionId) of
        None \<Rightarrow> None
      | Some ref \<Rightarrow>
          let r = recordAt s ref in
          if tr_opening r \<or> recordKey r \<noteq> accessKey access \<or> tr_accountId r \<noteq> u_accountId (ga_user access)
             \<or> tr_bindingId r \<noteq> b_id (ga_binding access)
          then None else Some ref)"

text \<open>The request takes its place in the queue of the record.\<close>

definition startOperation :: "gateway_access \<Rightarrow> string \<Rightarrow> string \<Rightarrow> js_object \<Rightarrow> terminals \<Rightarrow> terminals" where
  "startOperation access connectionId method request s =
     (case ownedRecord access (requestedSession request) s of
        None \<Rightarrow>
          addTask access connectionId method request
            (Returned (terminalRefused CrossAgentDenied ''Terminal session is not owned.'')) s
      | Some ref \<Rightarrow>
          addTask access connectionId method request (AwaitTurn ref (tr_operations (recordAt s ref)))
            (changeRecord ref (\<lambda>r. r\<lparr>tr_operations := Some (length (tc_tasks s))\<rparr>) s))"

text \<open>\<open>connected\<close> is \<open>context.isConnected?.() !== false\<close>.\<close>

definition startRequest ::
    "gateway_access \<Rightarrow> string option \<Rightarrow> bool \<Rightarrow> string \<Rightarrow> js_object \<Rightarrow> int \<Rightarrow> terminals \<Rightarrow> terminals" where
  "startRequest access connection connected method request now s =
     (let connectionId = (case connection of None \<Rightarrow> [] | Some c \<Rightarrow> c) in
      if connectionId = [] then
        addTask access connectionId method request
          (Returned (terminalRefused InvalidParams (method @ '' requires a browser connection''))) s
      else if \<not> connected then
        addTask access connectionId method request
          (Returned (terminalRefused UnauthenticatedCode ''Browser terminal connection is no longer active.'')) s
      else
        let s1 = refreshConnection connectionId access now s in
        case assertConnection connectionId now s1 of
          Inl e \<Rightarrow> addTask access connectionId method request (Returned (Inl e)) s1
        | Inr _ \<Rightarrow>
            if method = ''terminal.open'' then startOpen access connectionId request s1
            else if method = ''terminal.list'' then startList access connectionId request s1
            else startOperation access connectionId method request s1)"

section \<open>Opening a terminal\<close>

text \<open>The \<open>finally\<close> block.\<close>

definition finishOpen :: "nat \<Rightarrow> terminal_error + js_value \<Rightarrow> terminals \<Rightarrow> terminals" where
  "finishOpen t out s =
     (let access = tk_access (tc_tasks s ! t);
          key = accessKey access;
          agentId = b_agentId (ga_binding access);
          remaining = (case mapGet (tc_pendingOwners s) key of None \<Rightarrow> 1 | Some n \<Rightarrow> n) - 1;
          s1 = s\<lparr>tc_pendingOwners :=
                   (if remaining > 0 then mapSet (tc_pendingOwners s) key remaining
                    else mapDelete (tc_pendingOwners s) key)\<rparr>;
          s2 = (if agentPending agentId s1 then s1 else s1\<lparr>tc_agentEpochs := mapDelete (tc_agentEpochs s1) agentId\<rparr>)
      in setPhase t (Returned out) s2)"

text \<open>\<open>None\<close>: the store threw.\<close>

definition profileReturns :: "nat \<Rightarrow> execution_profile option option \<Rightarrow> terminals \<Rightarrow> terminals" where
  "profileReturns t reply s =
     (let access = tk_access (tc_tasks s ! t);
          denied = terminalRefused MethodNotAllowed ''Switch this Agent to My development VM before opening a terminal.''
      in case reply of
           None \<Rightarrow> finishOpen t (Inl UpstreamThrew) s
         | Some None \<Rightarrow> finishOpen t denied s
         | Some (Some profile) \<Rightarrow>
             (case ep_activeAllocationId profile of
                None \<Rightarrow> finishOpen t denied s
              | Some allocationId \<Rightarrow>
                  if ep_activeTarget profile \<noteq> AssignedVm \<or> allocationId = []
                     \<or> ep_agentBindingId profile \<noteq> b_id (ga_binding access)
                  then finishOpen t denied s
                  else setPhase t (AwaitOpen allocationId (ep_targetRevision profile)) s))"

definition unusableTerminal :: "terminal_error + 'a" where
  "unusableTerminal = terminalRefused UpstreamResultDenied ''Gateway returned an invalid personal VM terminal.''"

definition insertRecord :: "terminal_record \<Rightarrow> terminals \<Rightarrow> terminals" where
  "insertRecord r s =
     (let key = recordKey r;
          owned = (case mapGet (tc_byOwner s) key of None \<Rightarrow> [] | Some m \<Rightarrow> m);
          ref = length (tc_records s)
      in s\<lparr>tc_records := tc_records s @ [r],
           tc_byOwner := mapSet (tc_byOwner s) key (mapSet owned (tr_sessionId r) ref),
           tc_bySession := mapSet (tc_bySession s) (tr_sessionId r) ref\<rparr>)"

definition openReturns :: "nat \<Rightarrow> js_value option \<Rightarrow> int \<Rightarrow> terminals \<Rightarrow> terminals" where
  "openReturns t reply now s =
     (let task = tc_tasks s ! t; access = tk_access task in
      case (tk_phase task, reply) of
        (AwaitOpen allocationId revision, Some (JObj raw)) \<Rightarrow>
          let sessionId = (case fieldOf raw ''sessionId'' of JStr v \<Rightarrow> v | _ \<Rightarrow> []) in
          if sessionId = [] \<or> fieldOf raw ''agentId'' \<noteq> JStr (b_agentId (ga_binding access))
             \<or> fieldOf raw ''confined'' \<noteq> JBool True \<or> mapHas (tc_bySession s) sessionId
          then
            (if sessionId \<noteq> [] \<and> \<not> mapHas (tc_bySession s) sessionId then setPhase t AwaitUnusable s
             else finishOpen t unusableTerminal s)
          else
            setPhase t (AwaitAttach (length (tc_records s)) raw)
              (insertRecord
                 \<lparr>tr_sessionId = sessionId, tr_userId = u_id (ga_user access),
                  tr_accountId = u_accountId (ga_user access), tr_bindingId = b_id (ga_binding access),
                  tr_agentId = b_agentId (ga_binding access), tr_allocationId = allocationId,
                  tr_targetRevision = revision, tr_attached = Some (tk_connection task), tr_createdAt = now,
                  tr_reaper = False, tr_operations = None, tr_opening = True\<rparr> s)
      | (AwaitOpen _ _, Some _) \<Rightarrow> finishOpen t (terminalRefused UpstreamResultDenied ''terminal.open result is invalid'') s
      | (AwaitOpen _ _, None) \<Rightarrow> finishOpen t (Inl UpstreamThrew) s
      | _ \<Rightarrow> s)"

text \<open>\<open>catch (error)\<close>: the record is closed, and the error thrown again once that is done.\<close>

definition failOpen :: "nat \<Rightarrow> nat \<Rightarrow> terminal_error \<Rightarrow> terminals \<Rightarrow> terminals" where
  "failOpen t ref e s = setPhase t (AwaitFailed e) (closeRecord ref s)"

definition confirms :: "terminal_record \<Rightarrow> js_object \<Rightarrow> bool" where
  "confirms r attached \<longleftrightarrow>
     fieldOf attached ''sessionId'' = JStr (tr_sessionId r) \<and> fieldOf attached ''agentId'' = JStr (tr_agentId r)
     \<and> fieldOf attached ''confined'' = JBool True \<and> (case fieldOf attached ''buffer'' of JStr _ \<Rightarrow> True | _ \<Rightarrow> False)"

definition attachReturns :: "nat \<Rightarrow> js_value option \<Rightarrow> terminals \<Rightarrow> terminals" where
  "attachReturns t reply s =
     (case (tk_phase (tc_tasks s ! t), reply) of
        (AwaitAttach ref raw, Some (JObj attached)) \<Rightarrow>
          if confirms (recordAt s ref) attached then setPhase t (AwaitOpenAudit ref raw attached) s
          else failOpen t ref (TerminalRefused (GatewayError UpstreamResultDenied
                 ''Gateway returned an invalid personal VM terminal replay.'')) s
      | (AwaitAttach ref raw, Some _) \<Rightarrow>
          failOpen t ref (TerminalRefused (GatewayError UpstreamResultDenied ''terminal.attach result is invalid'')) s
      | (AwaitAttach ref raw, None) \<Rightarrow> failOpen t ref UpstreamThrew s
      | _ \<Rightarrow> s)"

definition isNumber :: "js_value \<Rightarrow> bool" where
  "isNumber v \<longleftrightarrow> (case v of JNum _ \<Rightarrow> True | JFraction _ _ \<Rightarrow> True | _ \<Rightarrow> False)"

definition openResult :: "js_object \<Rightarrow> js_object \<Rightarrow> js_value" where
  "openResult raw attached =
     JObj (spread raw ((''buffer'', fieldOf attached ''buffer'')
       # (if isNumber (fieldOf attached ''seq'') then [(''seq'', fieldOf attached ''seq'')] else [])))"

definition auditReturns :: "nat \<Rightarrow> bool \<Rightarrow> int \<Rightarrow> terminals \<Rightarrow> terminals" where
  "auditReturns t recorded now s =
     (let task = tc_tasks s ! t in
      case tk_phase task of
        AwaitOpenAudit ref raw attached \<Rightarrow>
          if \<not> recorded then failOpen t ref UpstreamThrew s
          else
            (case assertConnection (tk_connection task) now s of
               Inl e \<Rightarrow> failOpen t ref e s
             | Inr _ \<Rightarrow>
                 (case assertCurrentRecord ref s of
                    Inl e \<Rightarrow> failOpen t ref e s
                  | Inr _ \<Rightarrow>
                      if tk_gatewayEpoch task \<noteq> tc_gatewayEpoch s
                         \<or> tk_agentEpoch task \<noteq> agentEpochOf (tr_agentId (recordAt s ref)) s
                      then failOpen t ref (TerminalRefused (GatewayError MethodNotAllowed
                             ''Terminal assignment is no longer active.'')) s
                      else finishOpen t (Inr (openResult raw attached))
                             (changeRecord ref (\<lambda>r. r\<lparr>tr_opening := False\<rparr>) s)))
      | _ \<Rightarrow> s)"

text \<open>The terminal that could not be used, or the record that was closed, has been closed upstream.\<close>

definition cleanupReturns :: "nat \<Rightarrow> terminals \<Rightarrow> terminals" where
  "cleanupReturns t s =
     (case tk_phase (tc_tasks s ! t) of
        AwaitUnusable \<Rightarrow> finishOpen t unusableTerminal s
      | AwaitFailed e \<Rightarrow> finishOpen t (Inl e) s
      | _ \<Rightarrow> s)"

section \<open>Listing the terminals\<close>

definition listedAs :: "terminal_record \<Rightarrow> js_value \<Rightarrow> bool" where
  "listedAs r candidate \<longleftrightarrow>
     (case candidate of
        JObj obj \<Rightarrow> fieldOf obj ''sessionId'' = JStr (tr_sessionId r) \<and> fieldOf obj ''agentId'' = JStr (tr_agentId r)
      | _ \<Rightarrow> False)"

definition projectTerminal :: "string \<Rightarrow> terminal_record \<Rightarrow> js_value \<Rightarrow> js_value" where
  "projectTerminal connectionId r owned =
     (case owned of
        JObj obj \<Rightarrow>
          JObj (spread obj
            [(''owner'', JStr ''conn''), (''attached'', JBool (tr_attached r = Some connectionId)),
             (''available'', JBool (tr_attached r \<in> {None, Some connectionId}))])
      | v \<Rightarrow> v)"

text \<open>The loop over the records up to the next one that is gone, whose removal it waits for.\<close>

fun listRecords ::
    "nat \<Rightarrow> string \<Rightarrow> js_value list \<Rightarrow> js_value list \<Rightarrow> nat list \<Rightarrow> terminals \<Rightarrow> terminals" where
  "listRecords t connectionId listed projected [] s =
     setPhase t (Returned (Inr (JObj [(''sessions'', JArr projected)]))) s"
| "listRecords t connectionId listed projected (ref # refs) s =
     (if \<not> isCurrent ref s then listRecords t connectionId listed projected refs s
      else
        case find (listedAs (recordAt s ref)) listed of
          None \<Rightarrow> setPhase t (AwaitMissing listed projected refs) (removeRecord ref s)
        | Some owned \<Rightarrow>
            listRecords t connectionId listed
              (projected @ [projectTerminal connectionId (recordAt s ref) owned]) refs s)"

definition listReturns :: "nat \<Rightarrow> js_value option \<Rightarrow> terminals \<Rightarrow> terminals" where
  "listReturns t reply s =
     (let task = tc_tasks s ! t in
      case (tk_phase task, reply) of
        (AwaitList refs, Some (JObj raw)) \<Rightarrow>
          listRecords t (tk_connection task)
            (case fieldOf raw ''sessions'' of JArr listed \<Rightarrow> listed | _ \<Rightarrow> []) [] refs s
      | (AwaitList refs, Some _) \<Rightarrow>
          setPhase t (Returned (terminalRefused UpstreamResultDenied ''terminal.list result is invalid'')) s
      | (AwaitList refs, None) \<Rightarrow> setPhase t (Returned (Inl UpstreamThrew)) s
      | (AwaitMissing listed projected refs, _) \<Rightarrow>
          listRecords t (tk_connection task) listed projected refs s
      | _ \<Rightarrow> s)"

section \<open>Operating a terminal\<close>

text \<open>\<open>record.operations\<close> has settled: the request before in the queue is over.\<close>

definition settledOperation :: "terminals \<Rightarrow> nat option \<Rightarrow> bool" where
  "settledOperation s previous \<longleftrightarrow>
     (case previous of
        None \<Rightarrow> True
      | Some t \<Rightarrow> (case tk_phase (tc_tasks s ! t) of Returned _ \<Rightarrow> True | _ \<Rightarrow> False))"

definition operationTurn :: "nat \<Rightarrow> int \<Rightarrow> terminals \<Rightarrow> terminals" where
  "operationTurn t now s =
     (let task = tc_tasks s ! t in
      case tk_phase task of
        AwaitTurn ref previous \<Rightarrow>
          if \<not> settledOperation s previous then s
          else
            (case assertCurrentRecord ref s of
               Inl e \<Rightarrow> setPhase t (Returned (Inl e)) s
             | Inr _ \<Rightarrow>
                 (case assertConnection (tk_connection task) now s of
                    Inl e \<Rightarrow> setPhase t (Returned (Inl e)) s
                  | Inr _ \<Rightarrow>
                      if tk_method task \<noteq> ''terminal.attach''
                         \<and> tr_attached (recordAt s ref) \<noteq> Some (tk_connection task)
                      then setPhase t (Returned (terminalRefused MethodNotAllowed
                             ''Reattach this terminal before interacting with it.'')) s
                      else setPhase t (AwaitOperation ref) s))
      | _ \<Rightarrow> s)"

definition attachReplies :: "nat \<Rightarrow> nat \<Rightarrow> js_value \<Rightarrow> int \<Rightarrow> terminals \<Rightarrow> terminals" where
  "attachReplies t ref reply now s =
     (let task = tc_tasks s ! t in
      case reply of
        JObj result \<Rightarrow>
          if \<not> confirms (recordAt s ref) result
          then setPhase t (Returned (terminalRefused UpstreamResultDenied
                 ''Gateway returned an invalid personal VM terminal attachment.'')) s
          else
            (case resultThen (assertCurrentRecord ref s) (\<lambda>_. assertConnection (tk_connection task) now s) of
               Inl e \<Rightarrow> setPhase t (Returned (Inl e)) s
             | Inr _ \<Rightarrow> setPhase t (Returned (Inr (JObj result))) (attach ref (tk_connection task) s))
      | _ \<Rightarrow> setPhase t (Returned (terminalRefused UpstreamResultDenied ''terminal.attach result is invalid'')) s)"

definition operationReturns :: "nat \<Rightarrow> js_value option \<Rightarrow> int \<Rightarrow> terminals \<Rightarrow> terminals" where
  "operationReturns t reply now s =
     (let task = tc_tasks s ! t in
      case (tk_phase task, reply) of
        (AwaitOperation ref, None) \<Rightarrow> setPhase t (Returned (Inl UpstreamThrew)) s
      | (AwaitOperation ref, Some result) \<Rightarrow>
          if tk_method task = ''terminal.attach'' then attachReplies t ref result now s
          else if tk_method task = ''terminal.close''
          then setPhase t (AwaitCloseAudit ref result) (removeRecord ref s)
          else setPhase t (Returned (Inr result)) s
      | (AwaitCloseAudit ref result, _) \<Rightarrow> setPhase t (Returned (Inr result)) s
      | _ \<Rightarrow> s)"

section \<open>Events and timers\<close>

datatype terminal_output = TerminalData | TerminalExit

text \<open>Whether the event is passed on, and the state after it.\<close>

definition filterConnectionEvent ::
    "terminal_output \<Rightarrow> string \<Rightarrow> string option \<Rightarrow> int \<Rightarrow> terminals \<Rightarrow> bool \<times> terminals" where
  "filterConnectionEvent event sessionId connection now s =
     (let connectionId = (case connection of None \<Rightarrow> [] | Some c \<Rightarrow> c);
          access = (if connectionId = [] then None else mapGet (tc_connections s) connectionId);
          found = (if sessionId = [] then None else mapGet (tc_bySession s) sessionId)
      in case (access, found) of
           (Some c, Some ref) \<Rightarrow>
             let r = recordAt s ref in
             if cn_expiresAt c \<le> now \<or> tr_userId r \<noteq> cn_userId c \<or> tr_agentId r \<noteq> cn_agentId c
                \<or> tr_attached r \<noteq> Some connectionId
             then (False, if tr_attached r = Some connectionId \<and> cn_expiresAt c \<le> now then closeRecord ref s else s)
             else (True, if event = TerminalExit then removeRecord ref s else s)
         | _ \<Rightarrow> (False, s))"

definition releaseRecord :: "terminal_record \<Rightarrow> terminal_record" where
  "releaseRecord r = r\<lparr>tr_attached := None, tr_reaper := True\<rparr>"

definition releaseConnection :: "string \<Rightarrow> terminals \<Rightarrow> terminals" where
  "releaseConnection connectionId s =
     fold (\<lambda>ref. changeRecord ref releaseRecord)
       (filter (\<lambda>ref. tr_attached (recordAt s ref) = Some connectionId) (mapValues (tc_bySession s)))
       (s\<lparr>tc_listeners := mapDelete (tc_listeners s) connectionId,
          tc_connections := mapDelete (tc_connections s) connectionId\<rparr>)"

text \<open>The timer of \<open>refreshConnection\<close>.\<close>

definition connectionExpires :: "string \<Rightarrow> nat \<Rightarrow> terminals \<Rightarrow> terminals" where
  "connectionExpires connectionId timer s =
     (case mapGet (tc_connections s) connectionId of
        None \<Rightarrow> s
      | Some connection \<Rightarrow>
          if cn_timer connection \<noteq> timer then s
          else closeRecords (\<lambda>r. tr_attached r = Some connectionId)
                 (s\<lparr>tc_connections := mapDelete (tc_connections s) connectionId\<rparr>))"

text \<open>The timer of \<open>releaseConnection\<close>.\<close>

definition reaperFires :: "nat \<Rightarrow> terminals \<Rightarrow> terminals" where
  "reaperFires ref s = (if tr_reaper (recordAt s ref) then closeRecord ref s else s)"

definition closeForAgent :: "string \<Rightarrow> terminals \<Rightarrow> terminals" where
  "closeForAgent agentId s =
     closeRecords (\<lambda>r. tr_agentId r = agentId)
       (if agentPending agentId s
        then s\<lparr>tc_agentEpochs := mapSet (tc_agentEpochs s) agentId (agentEpochOf agentId s + 1)\<rparr> else s)"

definition handleGatewayDisconnect :: "terminals \<Rightarrow> terminals" where
  "handleGatewayDisconnect s =
     s\<lparr>tc_gatewayEpoch := Suc (tc_gatewayEpoch s), tc_byOwner := [], tc_bySession := []\<rparr>"

section \<open>Steps\<close>

datatype terminal_event =
    RegisterConnection string gateway_access int
  | SubscribeEvents string nat
  | UnsubscribeEvents string nat nat
  | Request gateway_access "string option" bool string js_object int
  | ProfileReturns nat "execution_profile option option"
  | OpenReturns nat "js_value option" int
  | AttachReturns nat "js_value option"
  | AuditReturns nat bool int
  | CleanupReturns nat
  | ListReturns nat "js_value option"
  | OperationTurn nat int
  | OperationReturns nat "js_value option" int
  | GatewayEvent terminal_output string "string option" int
  | ReleaseConnection string
  | ConnectionExpires string nat
  | ReaperFires nat
  | CloseForAgent string
  | GatewayDisconnects

text \<open>An event for a request that waits for something else changes nothing.\<close>

fun terminalStep :: "terminal_event \<Rightarrow> terminals \<Rightarrow> terminals" where
  "terminalStep (RegisterConnection c access now) s = refreshConnection c access now s"
| "terminalStep (SubscribeEvents c l) s = subscribeConnectionEvents c l s"
| "terminalStep (UnsubscribeEvents c ls l) s = unsubscribe c ls l s"
| "terminalStep (Request access c connected method request now) s = startRequest access c connected method request now s"
| "terminalStep (ProfileReturns t reply) s =
     (if t < length (tc_tasks s) \<and> tk_phase (tc_tasks s ! t) = AwaitProfile then profileReturns t reply s else s)"
| "terminalStep (OpenReturns t reply now) s = (if t < length (tc_tasks s) then openReturns t reply now s else s)"
| "terminalStep (AttachReturns t reply) s = (if t < length (tc_tasks s) then attachReturns t reply s else s)"
| "terminalStep (AuditReturns t recorded now) s = (if t < length (tc_tasks s) then auditReturns t recorded now s else s)"
| "terminalStep (CleanupReturns t) s = (if t < length (tc_tasks s) then cleanupReturns t s else s)"
| "terminalStep (ListReturns t reply) s = (if t < length (tc_tasks s) then listReturns t reply s else s)"
| "terminalStep (OperationTurn t now) s = (if t < length (tc_tasks s) then operationTurn t now s else s)"
| "terminalStep (OperationReturns t reply now) s = (if t < length (tc_tasks s) then operationReturns t reply now s else s)"
| "terminalStep (GatewayEvent event sessionId c now) s = snd (filterConnectionEvent event sessionId c now s)"
| "terminalStep (ReleaseConnection c) s = releaseConnection c s"
| "terminalStep (ConnectionExpires c timer) s = connectionExpires c timer s"
| "terminalStep (ReaperFires ref) s = (if ref < length (tc_records s) then reaperFires ref s else s)"
| "terminalStep (CloseForAgent agentId) s = closeForAgent agentId s"
| "terminalStep GatewayDisconnects s = handleGatewayDisconnect s"

inductive terminal_reachable :: "terminals \<Rightarrow> bool" where
  start: "terminal_reachable emptyTerminals"
| step: "terminal_reachable s \<Longrightarrow> terminal_reachable (terminalStep e s)"

definition runTerminals :: "terminal_event list \<Rightarrow> terminals \<Rightarrow> terminals" where
  "runTerminals es s = fold terminalStep es s"

end
