(* ===== verification/TerminalSafety.thy ===== *)
theory TerminalSafety
  imports TerminalController
begin

text \<open>
  What holds of the personal VM terminals in every reached state: the two maps of records agree, an owner
  never has more terminals than the limit, requests to one terminal run one after the other, and a
  revocation ends the requests that are opening one.
\<close>

section \<open>The maps of records\<close>

definition owns :: "terminals \<Rightarrow> string \<Rightarrow> string \<Rightarrow> nat \<Rightarrow> bool" where
  "owns s key sid ref \<longleftrightarrow> (\<exists>m. mapGet (tc_byOwner s) key = Some m \<and> mapGet m sid = Some ref)"

definition mapsOk :: "terminals \<Rightarrow> bool" where
  "mapsOk s \<longleftrightarrow>
     distinct (mapKeys (tc_bySession s))
     \<and> (\<forall>sid ref. mapGet (tc_bySession s) sid = Some ref \<longrightarrow>
          ref < length (tc_records s) \<and> tr_sessionId (recordAt s ref) = sid)
     \<and> (\<forall>key m. mapGet (tc_byOwner s) key = Some m \<longrightarrow> distinct (mapKeys m))
     \<and> (\<forall>key sid ref. owns s key sid ref \<longleftrightarrow>
          mapGet (tc_bySession s) sid = Some ref \<and> key = recordKey (recordAt s ref))"

lemma mapsOkD:
  assumes "mapsOk s"
  shows "distinct (mapKeys (tc_bySession s))"
    and "mapGet (tc_bySession s) sid = Some ref \<Longrightarrow> ref < length (tc_records s)"
    and "mapGet (tc_bySession s) sid = Some ref \<Longrightarrow> tr_sessionId (recordAt s ref) = sid"
    and "mapGet (tc_byOwner s) key = Some m \<Longrightarrow> distinct (mapKeys m)"
    and "owns s key sid ref \<longleftrightarrow> mapGet (tc_bySession s) sid = Some ref \<and> key = recordKey (recordAt s ref)"
  using assms unfolding mapsOk_def by blast+

text \<open>A change of a record that keeps who it belongs to.\<close>

definition keepsOwner :: "(terminal_record \<Rightarrow> terminal_record) \<Rightarrow> bool" where
  "keepsOwner f \<longleftrightarrow>
     (\<forall>r. tr_sessionId (f r) = tr_sessionId r \<and> tr_userId (f r) = tr_userId r \<and> tr_accountId (f r) = tr_accountId r
       \<and> tr_bindingId (f r) = tr_bindingId r \<and> tr_agentId (f r) = tr_agentId r)"

lemma keepsOwnerD:
  assumes "keepsOwner f"
  shows "tr_sessionId (f r) = tr_sessionId r" "tr_userId (f r) = tr_userId r" "tr_accountId (f r) = tr_accountId r"
    "tr_bindingId (f r) = tr_bindingId r" "tr_agentId (f r) = tr_agentId r" "recordKey (f r) = recordKey r"
  using assms by (simp_all add: keepsOwner_def recordKey_def)

lemma nth_update: "xs[i := x] ! j = (if j = i \<and> i < length xs then x else xs ! j)"
  by (cases "i < length xs") (auto simp: nth_list_update list_update_beyond)

lemma recordAt_changeRecord:
  "recordAt (changeRecord ref f s) i = (if i = ref \<and> ref < length (tc_records s) then f (recordAt s ref) else recordAt s i)"
  by (simp add: changeRecord_def recordAt_def nth_update)

lemma changeRecord_fields [simp]:
  "length (tc_records (changeRecord ref f s)) = length (tc_records s)"
  "tc_bySession (changeRecord ref f s) = tc_bySession s" "tc_byOwner (changeRecord ref f s) = tc_byOwner s"
  "tc_pendingOwners (changeRecord ref f s) = tc_pendingOwners s" "tc_tasks (changeRecord ref f s) = tc_tasks s"
  "tc_agentEpochs (changeRecord ref f s) = tc_agentEpochs s" "tc_gatewayEpoch (changeRecord ref f s) = tc_gatewayEpoch s"
  "tc_connections (changeRecord ref f s) = tc_connections s"
  by (simp_all add: changeRecord_def)

lemma kept_owner [simp]:
  assumes "keepsOwner f"
  shows "tr_sessionId (recordAt (changeRecord ref f s) i) = tr_sessionId (recordAt s i)"
    "tr_accountId (recordAt (changeRecord ref f s) i) = tr_accountId (recordAt s i)"
    "tr_bindingId (recordAt (changeRecord ref f s) i) = tr_bindingId (recordAt s i)"
    "tr_agentId (recordAt (changeRecord ref f s) i) = tr_agentId (recordAt s i)"
    "recordKey (recordAt (changeRecord ref f s) i) = recordKey (recordAt s i)"
  using assms by (simp_all add: recordAt_changeRecord keepsOwnerD)

lemma keepsOwner_updates [simp]:
  "keepsOwner (\<lambda>r. r\<lparr>tr_reaper := b\<rparr>)" "keepsOwner (\<lambda>r. r\<lparr>tr_reaper := b, tr_attached := c\<rparr>)"
  "keepsOwner (\<lambda>r. r\<lparr>tr_operations := t\<rparr>)" "keepsOwner (\<lambda>r. r\<lparr>tr_opening := b\<rparr>)" "keepsOwner releaseRecord"
  by (simp_all add: keepsOwner_def releaseRecord_def)

lemma mapsOk_changeRecord: "keepsOwner f \<Longrightarrow> mapsOk (changeRecord ref f s) \<longleftrightarrow> mapsOk s"
  by (simp add: mapsOk_def owns_def)

text \<open>The maps depend on nothing but the records.\<close>

lemma mapsOk_frame:
  assumes "tc_records s' = tc_records s" "tc_bySession s' = tc_bySession s" "tc_byOwner s' = tc_byOwner s"
  shows "mapsOk s' \<longleftrightarrow> mapsOk s"
  using assms by (simp add: mapsOk_def owns_def recordAt_def)

lemma removeRecord_fields [simp]:
  "length (tc_records (removeRecord ref s)) = length (tc_records s)" "tc_tasks (removeRecord ref s) = tc_tasks s"
  "tc_pendingOwners (removeRecord ref s) = tc_pendingOwners s" "tc_agentEpochs (removeRecord ref s) = tc_agentEpochs s"
  "tc_gatewayEpoch (removeRecord ref s) = tc_gatewayEpoch s"
  by (simp_all add: removeRecord_def Let_def)

lemma removeRecord_record:
  "recordAt (removeRecord ref s) i = recordAt s i \<or> recordAt (removeRecord ref s) i = (recordAt s i)\<lparr>tr_reaper := False\<rparr>"
  by (auto simp: removeRecord_def Let_def recordAt_def changeRecord_def nth_update)

lemma removeRecord_kept [simp]:
  "tr_sessionId (recordAt (removeRecord ref s) i) = tr_sessionId (recordAt s i)"
  "tr_userId (recordAt (removeRecord ref s) i) = tr_userId (recordAt s i)"
  "tr_accountId (recordAt (removeRecord ref s) i) = tr_accountId (recordAt s i)"
  "tr_bindingId (recordAt (removeRecord ref s) i) = tr_bindingId (recordAt s i)"
  "tr_agentId (recordAt (removeRecord ref s) i) = tr_agentId (recordAt s i)"
  "recordKey (recordAt (removeRecord ref s) i) = recordKey (recordAt s i)"
  "tr_opening (recordAt (removeRecord ref s) i) = tr_opening (recordAt s i)"
  "tr_operations (recordAt (removeRecord ref s) i) = tr_operations (recordAt s i)"
  using removeRecord_record [of ref s i] by (auto simp: recordKey_def)

lemma removeRecord_bySession:
  "tc_bySession (removeRecord ref s) =
     (if isCurrent ref s then mapDelete (tc_bySession s) (tr_sessionId (recordAt s ref)) else tc_bySession s)"
  by (simp add: removeRecord_def Let_def)

lemma removeRecord_owns:
  assumes "mapsOk s"
  shows "owns (removeRecord ref s) key sid i \<longleftrightarrow>
     owns s key sid i \<and> \<not> (isCurrent ref s \<and> sid = tr_sessionId (recordAt s ref))"
proof (cases "isCurrent ref s")
  case True
  have "owns s (recordKey (recordAt s ref)) (tr_sessionId (recordAt s ref)) ref"
    using True mapsOkD(5) [OF assms] by (simp add: isCurrent_def)
  then obtain m where m: "mapGet (tc_byOwner s) (recordKey (recordAt s ref)) = Some m" by (auto simp: owns_def)
  have other: "sid \<noteq> tr_sessionId (recordAt s ref)" if "owns s key sid i" "key \<noteq> recordKey (recordAt s ref)"
    using that mapsOkD(5) [OF assms, of key sid i] True by (auto simp: isCurrent_def)
  have empty: "mapGet (mapDelete m (tr_sessionId (recordAt s ref))) sid = None"
    if "mapDelete m (tr_sessionId (recordAt s ref)) = []" for sid unfolding that by simp
  then have "sid = tr_sessionId (recordAt s ref)"
    if "mapDelete m (tr_sessionId (recordAt s ref)) = []" "mapGet m sid = Some i"
    using that mapGet_mapDelete [where m = m and k = "tr_sessionId (recordAt s ref)" and k' = sid] by (auto split: if_splits)
  then show ?thesis
    using True m other
    by (auto simp: owns_def removeRecord_def Let_def split: if_splits)
qed (simp add: removeRecord_def owns_def)

lemma mapsOk_removeRecord:
  assumes "mapsOk s"
  shows "mapsOk (removeRecord ref s)"
  unfolding mapsOk_def
proof (intro conjI allI impI)
  show "distinct (mapKeys (tc_bySession (removeRecord ref s)))"
    using mapsOkD(1) [OF assms] by (simp add: removeRecord_bySession)
  show "distinct (mapKeys m)" if "mapGet (tc_byOwner (removeRecord ref s)) key = Some m" for key m
    using that mapsOkD(4) [OF assms] by (fastforce simp: removeRecord_def Let_def split: if_splits option.splits)
next
  fix sid i assume "mapGet (tc_bySession (removeRecord ref s)) sid = Some i"
  then have "mapGet (tc_bySession s) sid = Some i" by (simp add: removeRecord_bySession split: if_splits)
  then show "i < length (tc_records (removeRecord ref s))" "tr_sessionId (recordAt (removeRecord ref s) i) = sid"
    using mapsOkD(2,3) [OF assms] by auto
next
  fix key sid i
  show "owns (removeRecord ref s) key sid i \<longleftrightarrow>
      mapGet (tc_bySession (removeRecord ref s)) sid = Some i \<and> key = recordKey (recordAt (removeRecord ref s) i)"
    using removeRecord_owns [OF assms, of ref key sid i] mapsOkD(5) [OF assms, of key sid i]
    by (auto simp: removeRecord_bySession)
qed

section \<open>Requests in progress\<close>

fun openPhase :: "terminal_phase \<Rightarrow> bool" where
  "openPhase AwaitProfile = True"
| "openPhase (AwaitOpen _ _) = True"
| "openPhase AwaitUnusable = True"
| "openPhase (AwaitAttach _ _) = True"
| "openPhase (AwaitOpenAudit _ _ _) = True"
| "openPhase (AwaitFailed _) = True"
| "openPhase _ = False"

text \<open>The record a request is opening, and the one it operates on or waits for.\<close>

fun openRef :: "terminal_phase \<Rightarrow> nat option" where
  "openRef (AwaitAttach ref _) = Some ref"
| "openRef (AwaitOpenAudit ref _ _) = Some ref"
| "openRef _ = None"

fun opRef :: "terminal_phase \<Rightarrow> nat option" where
  "opRef (AwaitTurn ref _) = Some ref"
| "opRef (AwaitOperation ref) = Some ref"
| "opRef (AwaitCloseAudit ref _) = Some ref"
| "opRef _ = None"

definition phaseOf :: "terminals \<Rightarrow> nat \<Rightarrow> terminal_phase" where
  "phaseOf s t = tk_phase (tc_tasks s ! t)"

definition accessOf :: "terminals \<Rightarrow> nat \<Rightarrow> gateway_access" where
  "accessOf s t = tk_access (tc_tasks s ! t)"

definition opensFor :: "string \<Rightarrow> terminal_task \<Rightarrow> bool" where
  "opensFor key task \<longleftrightarrow> openPhase (tk_phase task) \<and> accessKey (tk_access task) = key"

definition isOpen :: "terminals \<Rightarrow> nat \<Rightarrow> bool" where
  "isOpen s ref \<longleftrightarrow> \<not> tr_opening (recordAt s ref)"

definition pendingOk :: "terminals \<Rightarrow> bool" where
  "pendingOk s \<longleftrightarrow> distinct (mapKeys (tc_pendingOwners s))
     \<and> (\<forall>key. mapGet (tc_pendingOwners s) key \<noteq> Some 0 \<and> pendingOf key s = length (filter (opensFor key) (tc_tasks s)))"

definition capOk :: "terminals \<Rightarrow> bool" where
  "capOk s \<longleftrightarrow> (\<forall>key. length (filter (isOpen s) (ownedRefs key s)) + pendingOf key s \<le> MAX_PERSONAL_TERMINALS)"

definition openingOk :: "terminals \<Rightarrow> bool" where
  "openingOk s \<longleftrightarrow>
     (\<forall>t ref. t < length (tc_tasks s) \<longrightarrow> openRef (phaseOf s t) = Some ref \<longrightarrow>
        ref < length (tc_records s) \<and> recordKey (recordAt s ref) = accessKey (accessOf s t)
        \<and> tr_agentId (recordAt s ref) = b_agentId (ga_binding (accessOf s t)))
     \<and> (\<forall>sid ref. mapGet (tc_bySession s) sid = Some ref \<longrightarrow> tr_opening (recordAt s ref) \<longrightarrow>
          (\<exists>t < length (tc_tasks s). openRef (phaseOf s t) = Some ref))"

text \<open>
  A request on a record: it is entitled to the record, the queue of the record ends with it or a later
  request, and earlier requests are before it in the queue.
\<close>

definition entitled :: "terminals \<Rightarrow> nat \<Rightarrow> nat \<Rightarrow> bool" where
  "entitled s t ref \<longleftrightarrow>
     isOpen s ref \<and> recordKey (recordAt s ref) = accessKey (accessOf s t)
     \<and> tr_accountId (recordAt s ref) = u_accountId (ga_user (accessOf s t))
     \<and> tr_bindingId (recordAt s ref) = b_id (ga_binding (accessOf s t))"

definition queued :: "terminals \<Rightarrow> nat \<Rightarrow> nat \<Rightarrow> bool" where
  "queued s t ref \<longleftrightarrow>
     (\<forall>u < t. opRef (phaseOf s u) = Some ref \<longrightarrow>
        (\<exists>p < t. phaseOf s t = AwaitTurn ref (Some p) \<and> u \<le> p \<and> opRef (phaseOf s p) = Some ref))"

definition lastInQueue :: "terminals \<Rightarrow> nat \<Rightarrow> nat \<Rightarrow> bool" where
  "lastInQueue s t ref \<longleftrightarrow>
     (\<exists>p < length (tc_tasks s). tr_operations (recordAt s ref) = Some p \<and> t \<le> p \<and> opRef (phaseOf s p) = Some ref)"

definition queuesOk :: "terminals \<Rightarrow> bool" where
  "queuesOk s \<longleftrightarrow>
     (\<forall>t ref. t < length (tc_tasks s) \<longrightarrow> opRef (phaseOf s t) = Some ref \<longrightarrow>
        ref < length (tc_records s) \<and> entitled s t ref \<and> queued s t ref \<and> lastInQueue s t ref)"

definition terminalsOk :: "terminals \<Rightarrow> bool" where
  "terminalsOk s \<longleftrightarrow> mapsOk s \<and> pendingOk s \<and> capOk s \<and> openingOk s \<and> queuesOk s"

lemmas terminalsOk_parts = terminalsOk_def pendingOk_def capOk_def openingOk_def queuesOk_def

lemma terminalsOk_frame:
  assumes "tc_records s' = tc_records s" "tc_bySession s' = tc_bySession s" "tc_byOwner s' = tc_byOwner s"
    "tc_pendingOwners s' = tc_pendingOwners s" "tc_tasks s' = tc_tasks s"
  shows "terminalsOk s' \<longleftrightarrow> terminalsOk s"
  using mapsOk_frame [OF assms(1-3)] assms
  by (simp add: terminalsOk_parts recordAt_def phaseOf_def accessOf_def isOpen_def [abs_def] ownedRefs_def pendingOf_def
      entitled_def queued_def lastInQueue_def)

text \<open>A change of a record that keeps the queue and whether it is being opened.\<close>

definition keepsState :: "(terminal_record \<Rightarrow> terminal_record) \<Rightarrow> bool" where
  "keepsState f \<longleftrightarrow> keepsOwner f \<and> (\<forall>r. tr_opening (f r) = tr_opening r \<and> tr_operations (f r) = tr_operations r)"

lemma keepsState_updates [simp]:
  "keepsState (\<lambda>r. r\<lparr>tr_reaper := b\<rparr>)" "keepsState (\<lambda>r. r\<lparr>tr_reaper := b, tr_attached := c\<rparr>)"
  "keepsState releaseRecord"
  by (simp_all add: keepsState_def) (simp add: releaseRecord_def)

lemma terminalsOk_changeRecord:
  assumes "keepsState f"
  shows "terminalsOk (changeRecord ref f s) \<longleftrightarrow> terminalsOk s"
proof -
  have o: "keepsOwner f" using assms by (simp add: keepsState_def)
  have k: "tr_opening (recordAt (changeRecord ref f s) i) = tr_opening (recordAt s i)"
    "tr_operations (recordAt (changeRecord ref f s) i) = tr_operations (recordAt s i)" for i
    using assms by (simp_all add: recordAt_changeRecord keepsState_def)
  show ?thesis
    by (simp add: terminalsOk_parts mapsOk_changeRecord [OF o] phaseOf_def accessOf_def isOpen_def [abs_def]
        ownedRefs_def pendingOf_def entitled_def queued_def lastInQueue_def k kept_owner [OF o])
qed

section \<open>Removing a record\<close>

lemma ownedRefs_removeRecord:
  "length (filter P (ownedRefs key (removeRecord ref s))) \<le> length (filter P (ownedRefs key s))"
proof -
  have part: "length (filter P (mapValues (mapDelete m k))) \<le> length (filter P (mapValues m))" for m :: "(string, nat) jsmap" and k
    unfolding mapValues_def by (induction m) (auto simp: AList.delete_eq)
  show ?thesis
    using part by (auto simp: ownedRefs_def removeRecord_def Let_def split: option.splits)
qed

lemma terminalsOk_removeRecord:
  assumes ok: "terminalsOk s"
  shows "terminalsOk (removeRecord ref s)"
proof -
  let ?s = "removeRecord ref s"
  have frame: "phaseOf ?s = phaseOf s" "accessOf ?s = accessOf s" "isOpen ?s = isOpen s" "pendingOf k ?s = pendingOf k s" for k
    by (simp_all add: phaseOf_def [abs_def] accessOf_def [abs_def] isOpen_def [abs_def] pendingOf_def)
  have "capOk ?s"
    using ok ownedRefs_removeRecord [of "isOpen s" _ ref s] le_trans add_right_mono
    unfolding terminalsOk_def capOk_def frame by meson
  moreover have "openingOk ?s"
    using ok unfolding terminalsOk_def openingOk_def frame
    by (auto simp: removeRecord_bySession split: if_splits)
  moreover have "queuesOk ?s"
    using ok unfolding terminalsOk_def queuesOk_def
    by (simp add: frame entitled_def queued_def lastInQueue_def)
  moreover have "mapsOk ?s" "pendingOk ?s"
    using ok mapsOk_removeRecord by (simp_all add: terminalsOk_def pendingOk_def frame)
  ultimately show ?thesis by (simp add: terminalsOk_def)
qed

lemma terminalsOk_closeRecord: "terminalsOk s \<Longrightarrow> terminalsOk (closeRecord ref s)"
  by (simp add: closeRecord_def terminalsOk_removeRecord)

lemma terminalsOk_closeRecords: "terminalsOk s \<Longrightarrow> terminalsOk (closeRecords sel s)"
proof -
  have "terminalsOk s \<Longrightarrow> terminalsOk (fold closeRecord refs s)" for refs s
    by (induction refs arbitrary: s) (simp_all add: terminalsOk_closeRecord)
  then show "terminalsOk s \<Longrightarrow> terminalsOk (closeRecords sel s)" unfolding closeRecords_def .
qed

section \<open>Phases\<close>

lemma setPhase_fields [simp]:
  "tc_records (setPhase t phase s) = tc_records s" "tc_bySession (setPhase t phase s) = tc_bySession s"
  "tc_byOwner (setPhase t phase s) = tc_byOwner s" "tc_pendingOwners (setPhase t phase s) = tc_pendingOwners s"
  "length (tc_tasks (setPhase t phase s)) = length (tc_tasks s)" "recordAt (setPhase t phase s) = recordAt s"
  "tc_agentEpochs (setPhase t phase s) = tc_agentEpochs s" "tc_gatewayEpoch (setPhase t phase s) = tc_gatewayEpoch s"
  "isOpen (setPhase t phase s) = isOpen s" "ownedRefs key (setPhase t phase s) = ownedRefs key s"
  "pendingOf key (setPhase t phase s) = pendingOf key s" "accessOf (setPhase t phase s) = accessOf s"
  by (auto simp: setPhase_def recordAt_def isOpen_def ownedRefs_def pendingOf_def accessOf_def nth_update fun_eq_iff)

lemma phaseOf_setPhase:
  "t < length (tc_tasks s) \<Longrightarrow> phaseOf (setPhase t phase s) u = (if u = t then phase else phaseOf s u)"
  by (simp add: phaseOf_def setPhase_def nth_update)

lemma length_filter_update:
  assumes "t < length xs"
  shows "length (filter P (xs[t := x])) + (if P (xs ! t) then 1 else 0) = length (filter P xs) + (if P x then 1 else 0)"
  using assms
proof (induction xs arbitrary: t)
  case (Cons y ys)
  then show ?case by (cases t) auto
qed simp

lemma opensFor_setPhase:
  assumes "t < length (tc_tasks s)"
  shows "length (filter (opensFor key) (tc_tasks (setPhase t phase s)))
      + (if openPhase (phaseOf s t) \<and> accessKey (accessOf s t) = key then 1 else 0)
    = length (filter (opensFor key) (tc_tasks s)) + (if openPhase phase \<and> accessKey (accessOf s t) = key then 1 else 0)"
  using length_filter_update [OF assms, of "opensFor key" "(tc_tasks s ! t)\<lparr>tk_phase := phase\<rparr>"]
  by (simp add: setPhase_def opensFor_def phaseOf_def accessOf_def)

lemma queuesOk_setPhase:
  assumes ok: "queuesOk s" and t: "t < length (tc_tasks s)"
    and op: "opRef phase = None \<or> opRef phase = opRef (phaseOf s t)"
    and turn: "\<And>ref u. opRef (phaseOf s t) = Some ref \<Longrightarrow> u < t \<Longrightarrow> opRef (phaseOf s u) \<noteq> Some ref"
  shows "queuesOk (setPhase t phase s)"
  unfolding queuesOk_def
proof (intro allI impI)
  let ?s = "setPhase t phase s"
  fix u ref assume u: "u < length (tc_tasks ?s)" and r: "opRef (phaseOf ?s u) = Some ref"
  have old: "opRef (phaseOf s u) = Some ref" using r op t by (auto simp: phaseOf_setPhase split: if_splits)
  have parts: "ref < length (tc_records s)" "entitled s u ref" "queued s u ref" "lastInQueue s u ref"
    using ok u old unfolding queuesOk_def by simp_all
  have same: "opRef (phaseOf ?s v) = Some ref \<longleftrightarrow> opRef (phaseOf s v) = Some ref" if "u \<le> v \<or> v \<noteq> t" for v
  proof (cases "v = t")
    case True
    with that have "u \<le> t" by simp
    then have "u = t" if "opRef (phaseOf s t) = Some ref" using turn [OF that, of u] old by fastforce
    then show ?thesis using True r op t old by (auto simp: phaseOf_setPhase)
  qed (simp add: phaseOf_setPhase t)
  have "queued ?s u ref"
    unfolding queued_def
  proof (intro allI impI)
    fix v assume v: "v < u" "opRef (phaseOf ?s v) = Some ref"
    have v': "opRef (phaseOf s v) = Some ref" using v op t by (auto simp: phaseOf_setPhase split: if_splits)
    obtain p where p: "p < u" "phaseOf s u = AwaitTurn ref (Some p)" "v \<le> p" "opRef (phaseOf s p) = Some ref"
      using parts(3) v(1) v' unfolding queued_def by blast
    have "u \<noteq> t" using turn old v(1) v' by blast
    moreover have "opRef (phaseOf ?s p) = Some ref"
    proof (cases "p = t")
      case True
      then have "v = t" using turn [of ref v] p(3,4) v' by fastforce
      then show ?thesis using v(2) True by simp
    qed (use p(4) t in \<open>simp add: phaseOf_setPhase\<close>)
    ultimately show "\<exists>p < u. phaseOf ?s u = AwaitTurn ref (Some p) \<and> v \<le> p \<and> opRef (phaseOf ?s p) = Some ref"
      using p by (auto simp: phaseOf_setPhase t)
  qed
  moreover have "lastInQueue ?s u ref" using parts(4) same unfolding lastInQueue_def by simp blast
  moreover have "entitled ?s u ref" using parts(2) by (simp add: entitled_def)
  ultimately show "ref < length (tc_records ?s) \<and> entitled ?s u ref \<and> queued ?s u ref \<and> lastInQueue ?s u ref"
    using parts(1) by simp
qed

lemma openingOk_setPhase:
  assumes ok: "openingOk s" and t: "t < length (tc_tasks s)"
    and ref: "openRef phase = None \<or> openRef phase = openRef (phaseOf s t)"
    and gone: "\<And>ref sid. openRef phase = None \<Longrightarrow> openRef (phaseOf s t) = Some ref \<Longrightarrow> mapGet (tc_bySession s) sid = Some ref
      \<Longrightarrow> \<not> tr_opening (recordAt s ref)"
  shows "openingOk (setPhase t phase s)"
proof -
  have "\<exists>u < length (tc_tasks s). openRef (phaseOf (setPhase t phase s) u) = Some r"
    if c: "mapGet (tc_bySession s) sid = Some r" "tr_opening (recordAt s r)" for sid r
  proof -
    obtain u where u: "u < length (tc_tasks s)" "openRef (phaseOf s u) = Some r"
      using ok c unfolding openingOk_def by blast
    then show ?thesis using gone [OF _ _ c(1)] c(2) ref t by (cases "u = t") (auto simp: phaseOf_setPhase)
  qed
  then show ?thesis using ok ref t unfolding openingOk_def by (auto simp: phaseOf_setPhase split: if_splits)
qed

lemma terminalsOk_setPhase:
  assumes ok: "terminalsOk s" and t: "t < length (tc_tasks s)"
    and "openPhase phase = openPhase (phaseOf s t)"
    and "openRef phase = None \<or> openRef phase = openRef (phaseOf s t)"
    and "\<And>ref sid. openRef phase = None \<Longrightarrow> openRef (phaseOf s t) = Some ref \<Longrightarrow> mapGet (tc_bySession s) sid = Some ref
      \<Longrightarrow> \<not> tr_opening (recordAt s ref)"
    and "opRef phase = None \<or> opRef phase = opRef (phaseOf s t)"
    and "\<And>ref u. opRef (phaseOf s t) = Some ref \<Longrightarrow> u < t \<Longrightarrow> opRef (phaseOf s u) \<noteq> Some ref"
  shows "terminalsOk (setPhase t phase s)"
proof -
  have "length (filter (opensFor key) (tc_tasks (setPhase t phase s))) = length (filter (opensFor key) (tc_tasks s))" for key
    using opensFor_setPhase [OF t, of key phase] assms(3) by (simp split: if_splits)
  then have "pendingOk (setPhase t phase s)" using ok by (simp add: terminalsOk_def pendingOk_def)
  moreover have "mapsOk (setPhase t phase s)"
    using ok mapsOk_frame [of "setPhase t phase s" s] by (simp add: terminalsOk_def)
  moreover have "capOk (setPhase t phase s)" using ok by (simp add: terminalsOk_def capOk_def)
  ultimately show ?thesis
    using openingOk_setPhase [OF _ t assms(4,5)] queuesOk_setPhase [OF _ t assms(6,7)] ok by (simp add: terminalsOk_def)
qed

section \<open>New records\<close>

lemma insertRecord_fields [simp]:
  "length (tc_records (insertRecord r s)) = Suc (length (tc_records s))"
  "tc_bySession (insertRecord r s) = mapSet (tc_bySession s) (tr_sessionId r) (length (tc_records s))"
  "tc_pendingOwners (insertRecord r s) = tc_pendingOwners s" "tc_tasks (insertRecord r s) = tc_tasks s"
  "tc_agentEpochs (insertRecord r s) = tc_agentEpochs s" "tc_gatewayEpoch (insertRecord r s) = tc_gatewayEpoch s"
  "phaseOf (insertRecord r s) = phaseOf s" "accessOf (insertRecord r s) = accessOf s"
  "pendingOf key (insertRecord r s) = pendingOf key s"
  by (simp_all add: insertRecord_def Let_def phaseOf_def [abs_def] accessOf_def [abs_def] pendingOf_def)

lemma insertRecord_record:
  "i < length (tc_records s) \<Longrightarrow> recordAt (insertRecord r s) i = recordAt s i"
  "recordAt (insertRecord r s) (length (tc_records s)) = r"
  by (simp_all add: insertRecord_def Let_def recordAt_def nth_append)

lemma insertRecord_owns:
  "owns (insertRecord r s) key sid ref \<longleftrightarrow>
     (if key = recordKey r \<and> sid = tr_sessionId r then ref = length (tc_records s) else owns s key sid ref)"
  by (auto simp: owns_def insertRecord_def Let_def split: option.splits)

lemma mapsOk_insertRecord:
  assumes ok: "mapsOk s" and new: "\<not> mapHas (tc_bySession s) (tr_sessionId r)"
  shows "mapsOk (insertRecord r s)"
  unfolding mapsOk_def
proof (intro conjI allI impI)
  show "distinct (mapKeys (tc_bySession (insertRecord r s)))" using mapsOkD(1) [OF ok] by simp
  show "distinct (mapKeys m)" if "mapGet (tc_byOwner (insertRecord r s)) key = Some m" for key m
    using that mapsOkD(4) [OF ok] by (auto simp: insertRecord_def Let_def split: if_splits option.splits)
next
  fix sid i assume "mapGet (tc_bySession (insertRecord r s)) sid = Some i"
  then have "sid = tr_sessionId r \<and> i = length (tc_records s) \<or> mapGet (tc_bySession s) sid = Some i"
    by (simp split: if_splits)
  then show "i < length (tc_records (insertRecord r s))" "tr_sessionId (recordAt (insertRecord r s) i) = sid"
    using mapsOkD(2,3) [OF ok, of sid i] by (auto simp: insertRecord_record)
next
  fix key sid i
  have "\<not> owns s key (tr_sessionId r) i" for key i using mapsOkD(5) [OF ok] new by simp
  then show "owns (insertRecord r s) key sid i \<longleftrightarrow>
      mapGet (tc_bySession (insertRecord r s)) sid = Some i \<and> key = recordKey (recordAt (insertRecord r s) i)"
    using mapsOkD(5) [OF ok, of key sid i] mapsOkD(2) [OF ok, of sid i]
    by (cases "sid = tr_sessionId r") (auto simp: insertRecord_owns insertRecord_record)
qed

lemma ownedRefs_insertRecord:
  assumes ok: "mapsOk s" and new: "\<not> mapHas (tc_bySession s) (tr_sessionId r)"
  shows "ownedRefs key (insertRecord r s) = ownedRefs key s @ (if key = recordKey r then [length (tc_records s)] else [])"
proof (cases "key = recordKey r")
  case True
  have "\<not> mapHas m (tr_sessionId r)" if "mapGet (tc_byOwner s) key = Some m" for m
    using that mapsOkD(5) [OF ok, of key "tr_sessionId r"] new by (auto simp: owns_def)
  then show ?thesis
    using True by (auto simp: ownedRefs_def insertRecord_def Let_def mapValues_def mapSet_fresh split: option.splits)
qed (simp add: ownedRefs_def insertRecord_def Let_def)

lemma ownedRefs_valid: "mapsOk s \<Longrightarrow> ref \<in> set (ownedRefs key s) \<Longrightarrow>
  \<exists>sid. mapGet (tc_bySession s) sid = Some ref \<and> key = recordKey (recordAt s ref) \<and> ref < length (tc_records s)"
proof -
  assume ok: "mapsOk s" and r: "ref \<in> set (ownedRefs key s)"
  have "mapGet (tc_byOwner s) key \<noteq> None"
  proof
    assume "mapGet (tc_byOwner s) key = None"
    then show False using r by (simp add: ownedRefs_def)
  qed
  then obtain m where m: "mapGet (tc_byOwner s) key = Some m" by blast
  have v: "ref \<in> set (mapValues m)" using r by (simp add: ownedRefs_def m)
  obtain sid where sid: "mapGet m sid = Some ref" using in_mapValuesD [OF mapsOkD(4) [OF ok m] v] ..
  have "owns s key sid ref" unfolding owns_def using m sid by (intro exI conjI)
  then have b: "mapGet (tc_bySession s) sid = Some ref" "key = recordKey (recordAt s ref)"
    using mapsOkD(5) [OF ok, of key sid ref] by (rule iffD1 [THEN conjunct1, rotated], rule iffD1 [THEN conjunct2, rotated])
  show ?thesis using b mapsOkD(2) [OF ok b(1)] by (intro exI conjI)
qed

lemma terminalsOk_insertRecord:
  assumes ok: "terminalsOk s" and t: "t < length (tc_tasks s)" and phase: "phaseOf s t = AwaitOpen allocation revision"
    and new: "\<not> mapHas (tc_bySession s) (tr_sessionId r)" and r: "tr_opening r" "recordKey r = accessKey (accessOf s t)"
      "tr_agentId r = b_agentId (ga_binding (accessOf s t))"
  shows "terminalsOk (setPhase t (AwaitAttach (length (tc_records s)) raw) (insertRecord r s))"
    (is "terminalsOk ?s")
proof -
  note maps = ok [unfolded terminalsOk_def, THEN conjunct1]
  let ?i = "insertRecord r s"
  have t': "t < length (tc_tasks ?i)" using t by simp
  have "mapsOk ?s" using mapsOk_insertRecord [OF maps new] mapsOk_frame [of ?s ?i] by simp
  moreover have "pendingOk ?s"
    using ok opensFor_setPhase [OF t', of _ "AwaitAttach (length (tc_records s)) raw"] phase
    by (simp add: terminalsOk_def pendingOk_def)
  moreover have "capOk ?s"
  proof -
    have "filter (isOpen ?i) (ownedRefs key s) = filter (isOpen s) (ownedRefs key s)" for key
      using ownedRefs_valid [OF maps] by (intro filter_cong) (auto simp: isOpen_def insertRecord_record)
    moreover have "\<not> isOpen ?i (length (tc_records s))" using r(1) by (simp add: isOpen_def insertRecord_record)
    ultimately show ?thesis
      using ok by (simp add: terminalsOk_def capOk_def ownedRefs_insertRecord [OF maps new])
  qed
  moreover have "openingOk ?s"
    unfolding openingOk_def
  proof (intro conjI allI impI)
    fix u ref assume "u < length (tc_tasks ?s)" "openRef (phaseOf ?s u) = Some ref"
    then have "u = t \<and> ref = length (tc_records s) \<or> u < length (tc_tasks s) \<and> openRef (phaseOf s u) = Some ref"
      using t by (auto simp: phaseOf_setPhase [OF t'] split: if_splits)
    then show "ref < length (tc_records ?s)" "recordKey (recordAt ?s ref) = accessKey (accessOf ?s u)"
      "tr_agentId (recordAt ?s ref) = b_agentId (ga_binding (accessOf ?s u))"
      using ok r by (auto simp: terminalsOk_def openingOk_def insertRecord_record)
  next
    fix sid ref assume b: "mapGet (tc_bySession ?s) sid = Some ref" "tr_opening (recordAt ?s ref)"
    show "\<exists>u < length (tc_tasks ?s). openRef (phaseOf ?s u) = Some ref"
    proof (cases "ref = length (tc_records s)")
      case True then show ?thesis using t by (auto simp: phaseOf_setPhase [OF t'])
    next
      case False
      with b have s: "mapGet (tc_bySession s) sid = Some ref" by (simp split: if_splits)
      with b False have "tr_opening (recordAt s ref)" using mapsOkD(2) [OF maps s] by (simp add: insertRecord_record)
      then obtain u where "u < length (tc_tasks s)" "openRef (phaseOf s u) = Some ref"
        using ok s unfolding terminalsOk_def openingOk_def by blast
      moreover have "u \<noteq> t" using phase calculation by auto
      ultimately show ?thesis by (auto simp: phaseOf_setPhase [OF t'])
    qed
  qed
  moreover have "queuesOk ?s"
  proof -
    have "queuesOk ?i"
      using ok unfolding terminalsOk_def queuesOk_def
      by (auto simp: entitled_def queued_def lastInQueue_def isOpen_def insertRecord_record)
    then show ?thesis using queuesOk_setPhase [OF _ t'] phase by simp
  qed
  ultimately show ?thesis by (simp add: terminalsOk_def)
qed

section \<open>The end of a request that opens a terminal\<close>

lemma distinct_ownedRefs:
  assumes ok: "mapsOk s"
  shows "distinct (ownedRefs key s)"
proof (cases "mapGet (tc_byOwner s) key")
  case (Some m)
  have d: "distinct (mapKeys m)" by (rule mapsOkD(4) [OF ok Some])
  have "inj_on snd (set m)"
  proof (rule inj_onI)
    fix e e' assume e: "e \<in> set m" "e' \<in> set m" "snd e = snd e'"
    have "tr_sessionId (recordAt s (snd x)) = fst x" if "x \<in> set m" for x
    proof -
      have "mapGet m (fst x) = Some (snd x)" using d that by (cases x) simp
      then have "owns s key (fst x) (snd x)" unfolding owns_def using Some by (intro exI conjI)
      then show ?thesis using mapsOkD(5) [OF ok, of key "fst x" "snd x"] mapsOkD(3) [OF ok, of "fst x" "snd x"] by simp
    qed
    then show "e = e'" using e by (metis prod_eqI)
  qed
  moreover have "distinct m" using d by (rule distinct_map [THEN iffD1, THEN conjunct1])
  ultimately show ?thesis using Some by (simp add: ownedRefs_def mapValues_def distinct_map)
qed (simp add: ownedRefs_def)

lemma length_filter_or: "distinct xs \<Longrightarrow>
  length (filter (\<lambda>x. P x \<or> x = a) xs) \<le> length (filter P xs) + (if a \<in> set xs then 1 else 0)"
  by (induction xs) auto

text \<open>The terminal is no longer being opened: it counts as open, and the request that opened it is over.\<close>

definition opened :: "nat \<Rightarrow> terminals \<Rightarrow> terminals" where
  "opened ref s = changeRecord ref (\<lambda>r. r\<lparr>tr_opening := False\<rparr>) s"

lemma opened_isOpen: "isOpen (opened ref s) i \<Longrightarrow> isOpen s i \<or> i = ref"
  by (auto simp: isOpen_def opened_def recordAt_changeRecord split: if_splits)

lemma opened_kept:
  "recordKey (recordAt (opened ref s) i) = recordKey (recordAt s i)"
  "tr_opening (recordAt (opened ref s) i) \<Longrightarrow> tr_opening (recordAt s i)"
  "isOpen s i \<Longrightarrow> isOpen (opened ref s) i"
  "ownedRefs key (opened ref s) = ownedRefs key s" "pendingOf key (opened ref s) = pendingOf key s"
  "phaseOf (opened ref s) = phaseOf s" "accessOf (opened ref s) = accessOf s"
  "tr_agentId (recordAt (opened ref s) i) = tr_agentId (recordAt s i)"
  by (auto simp: opened_def isOpen_def recordAt_changeRecord ownedRefs_def pendingOf_def phaseOf_def [abs_def]
      accessOf_def [abs_def] recordKey_def split: if_splits)

lemma opened_cap:
  assumes ok: "mapsOk s"
  shows "length (filter (isOpen (opened ref s)) (ownedRefs key (opened ref s)))
    \<le> length (filter (isOpen s) (ownedRefs key s)) + (if key = recordKey (recordAt s ref) then 1 else 0)"
proof -
  have in_: "ref \<in> set (ownedRefs key s) \<Longrightarrow> key = recordKey (recordAt s ref)"
    using ownedRefs_valid [OF ok] by blast
  have "length (filter (isOpen (opened ref s)) xs) \<le> length (filter (\<lambda>i. isOpen s i \<or> i = ref) xs)" for xs
    using opened_isOpen by (induction xs) auto
  then have "length (filter (isOpen (opened ref s)) (ownedRefs key s))
      \<le> length (filter (\<lambda>i. isOpen s i \<or> i = ref) (ownedRefs key s))" .
  also have "\<dots> \<le> length (filter (isOpen s) (ownedRefs key s)) + (if ref \<in> set (ownedRefs key s) then 1 else 0)"
    by (rule length_filter_or [OF distinct_ownedRefs [OF ok]])
  finally show ?thesis using in_ by (auto simp: opened_kept split: if_splits)
qed

lemma finishOpen_fields [simp]:
  "tc_records (finishOpen t out s) = tc_records s" "tc_bySession (finishOpen t out s) = tc_bySession s"
  "tc_byOwner (finishOpen t out s) = tc_byOwner s" "length (tc_tasks (finishOpen t out s)) = length (tc_tasks s)"
  "accessOf (finishOpen t out s) = accessOf s" "recordAt (finishOpen t out s) = recordAt s"
  "isOpen (finishOpen t out s) = isOpen s" "ownedRefs key (finishOpen t out s) = ownedRefs key s"
  "tc_gatewayEpoch (finishOpen t out s) = tc_gatewayEpoch s"
  by (auto simp: finishOpen_def Let_def accessOf_def recordAt_def isOpen_def ownedRefs_def setPhase_def nth_update fun_eq_iff)

lemma finishOpen_tasks: "tc_tasks (finishOpen t out s) = tc_tasks (setPhase t (Returned out) s)"
  by (simp add: finishOpen_def setPhase_def Let_def)

lemma phaseOf_finishOpen: "phaseOf (finishOpen t out s) = phaseOf (setPhase t (Returned out) s)"
  by (simp add: phaseOf_def [abs_def] finishOpen_tasks)

lemma pendingOf_pos: "pendingOk s \<Longrightarrow> t < length (tc_tasks s) \<Longrightarrow> openPhase (phaseOf s t) \<Longrightarrow>
  \<exists>n. mapGet (tc_pendingOwners s) (accessKey (accessOf s t)) = Some (Suc n)"
proof -
  let ?key = "accessKey (accessOf s t)"
  assume ok: "pendingOk s" and t: "t < length (tc_tasks s)" "openPhase (phaseOf s t)"
  then have "tc_tasks s ! t \<in> set (filter (opensFor ?key) (tc_tasks s))"
    by (simp add: opensFor_def phaseOf_def accessOf_def)
  then have "0 < length (filter (opensFor ?key) (tc_tasks s))" using length_pos_if_in_set by fast
  then have "0 < pendingOf ?key s" using ok by (simp add: pendingOk_def)
  then show ?thesis by (cases "mapGet (tc_pendingOwners s) ?key") (auto simp: pendingOf_def gr0_conv_Suc)
qed

lemma pendingOwners_finishOpen:
  assumes ok: "pendingOk s" and t: "t < length (tc_tasks s)" "openPhase (phaseOf s t)"
  shows "pendingOf key (finishOpen t out s) + (if key = accessKey (accessOf s t) then 1 else 0) = pendingOf key s"
    and "mapGet (tc_pendingOwners (finishOpen t out s)) key \<noteq> Some 0"
    and "distinct (mapKeys (tc_pendingOwners (finishOpen t out s)))"
proof -
  obtain n where n: "mapGet (tc_pendingOwners s) (accessKey (accessOf s t)) = Some (Suc n)"
    using pendingOf_pos [OF ok t] ..
  have p: "tc_pendingOwners (finishOpen t out s) =
      (if 0 < n then mapSet (tc_pendingOwners s) (accessKey (accessOf s t)) n
       else mapDelete (tc_pendingOwners s) (accessKey (accessOf s t)))"
    using n by (simp add: finishOpen_def Let_def accessOf_def setPhase_def)
  show "pendingOf key (finishOpen t out s) + (if key = accessKey (accessOf s t) then 1 else 0) = pendingOf key s"
    using n by (simp add: pendingOf_def p)
  have "mapGet (tc_pendingOwners s) key \<noteq> Some 0" "distinct (mapKeys (tc_pendingOwners s))"
    using ok unfolding pendingOk_def by blast+
  then show "mapGet (tc_pendingOwners (finishOpen t out s)) key \<noteq> Some 0"
    and "distinct (mapKeys (tc_pendingOwners (finishOpen t out s)))"
    unfolding p by (simp_all only: distinct_mapSet distinct_mapDelete mapGet_mapSet mapGet_mapDelete split: if_split) simp_all
qed

lemma terminalsOk_finishOpen:
  assumes maps: "mapsOk s" and pending: "pendingOk s" and opens: "openingOk s" and queues: "queuesOk s"
    and t: "t < length (tc_tasks s)" "openPhase (phaseOf s t)"
    and cap: "\<And>key. length (filter (isOpen s) (ownedRefs key s)) + pendingOf key s
      \<le> MAX_PERSONAL_TERMINALS + (if key = accessKey (accessOf s t) then 1 else 0)"
    and gone: "\<And>ref sid. openRef (phaseOf s t) = Some ref \<Longrightarrow> mapGet (tc_bySession s) sid = Some ref
      \<Longrightarrow> \<not> tr_opening (recordAt s ref)"
  shows "terminalsOk (finishOpen t out s)" (is "terminalsOk ?s")
proof -
  let ?p = "setPhase t (Returned out) s"
  note pend = pendingOwners_finishOpen [OF pending t, where out = out]
  have op: "opRef (phaseOf s t) = None" using t(2) by (cases "phaseOf s t") auto
  have "mapsOk ?s" using maps mapsOk_frame [of ?s s] by simp
  moreover have "pendingOk ?s"
    unfolding pendingOk_def finishOpen_tasks
  proof (intro conjI allI)
    fix key
    have "pendingOf key s = length (filter (opensFor key) (tc_tasks s))" using pending by (simp add: pendingOk_def)
    then show "pendingOf key ?s = length (filter (opensFor key) (tc_tasks ?p))"
      using pend(1) [of key] opensFor_setPhase [OF t(1), of key "Returned out"] t(2) by (auto split: if_splits)
  qed (use pend in auto)
  moreover have "capOk ?s"
    unfolding capOk_def
  proof
    fix key show "length (filter (isOpen ?s) (ownedRefs key ?s)) + pendingOf key ?s \<le> MAX_PERSONAL_TERMINALS"
      using cap [of key] pend(1) [of key] by simp
  qed
  moreover have "openingOk ?s"
    using openingOk_setPhase [OF opens t(1), of "Returned out"] gone
    by (simp add: openingOk_def phaseOf_finishOpen)
  moreover have "queuesOk ?s"
    using queuesOk_setPhase [OF queues t(1), of "Returned out"] op
    by (simp add: queuesOk_def entitled_def queued_def lastInQueue_def phaseOf_finishOpen)
  ultimately show ?thesis by (simp add: terminalsOk_def)
qed

section \<open>New requests\<close>

lemma addTask_fields [simp]:
  "tc_records (addTask access c m r phase s) = tc_records s" "tc_bySession (addTask access c m r phase s) = tc_bySession s"
  "tc_byOwner (addTask access c m r phase s) = tc_byOwner s"
  "tc_pendingOwners (addTask access c m r phase s) = tc_pendingOwners s"
  "length (tc_tasks (addTask access c m r phase s)) = Suc (length (tc_tasks s))"
  "recordAt (addTask access c m r phase s) = recordAt s" "isOpen (addTask access c m r phase s) = isOpen s"
  "ownedRefs key (addTask access c m r phase s) = ownedRefs key s"
  "pendingOf key (addTask access c m r phase s) = pendingOf key s"
  "tc_agentEpochs (addTask access c m r phase s) = tc_agentEpochs s"
  "tc_gatewayEpoch (addTask access c m r phase s) = tc_gatewayEpoch s"
  by (auto simp: addTask_def recordAt_def isOpen_def ownedRefs_def pendingOf_def fun_eq_iff)

lemma addTask_phase:
  "t \<le> length (tc_tasks s) \<Longrightarrow>
    phaseOf (addTask access c m r phase s) t = (if t = length (tc_tasks s) then phase else phaseOf s t)"
  "t \<le> length (tc_tasks s) \<Longrightarrow>
    accessOf (addTask access c m r phase s) t = (if t = length (tc_tasks s) then access else accessOf s t)"
  by (auto simp: addTask_def phaseOf_def accessOf_def nth_append)

lemma opensFor_addTask:
  "length (filter (opensFor key) (tc_tasks (addTask access c m r phase s))) =
     length (filter (opensFor key) (tc_tasks s)) + (if openPhase phase \<and> accessKey access = key then 1 else 0)"
  by (simp add: addTask_def opensFor_def)

lemma openingOk_addTask:
  assumes ok: "openingOk s" and "openRef phase = None"
  shows "openingOk (addTask access c m r phase s)" (is "openingOk ?s")
  unfolding openingOk_def
proof (intro conjI allI impI)
  fix t ref assume "t < length (tc_tasks ?s)" "openRef (phaseOf ?s t) = Some ref"
  then have t: "t < length (tc_tasks s)" "openRef (phaseOf s t) = Some ref"
    using assms(2) by (auto simp: less_Suc_eq addTask_phase)
  then show "ref < length (tc_records ?s)" "recordKey (recordAt ?s ref) = accessKey (accessOf ?s t)"
    "tr_agentId (recordAt ?s ref) = b_agentId (ga_binding (accessOf ?s t))"
    using ok by (auto simp: openingOk_def addTask_phase)
next
  fix sid ref assume b: "mapGet (tc_bySession ?s) sid = Some ref" "tr_opening (recordAt ?s ref)"
  have "mapGet (tc_bySession s) sid = Some ref" "tr_opening (recordAt s ref)" using b by simp_all
  then obtain t where "t < length (tc_tasks s)" "openRef (phaseOf s t) = Some ref"
    using ok unfolding openingOk_def by blast
  then show "\<exists>t < length (tc_tasks ?s). openRef (phaseOf ?s t) = Some ref"
    by (intro exI [of _ t]) (simp add: addTask_phase)
qed

lemma queuesOk_addTask:
  assumes ok: "queuesOk s" and "opRef phase = None"
  shows "queuesOk (addTask access c m r phase s)" (is "queuesOk ?s")
  unfolding queuesOk_def
proof (intro allI impI)
  fix t ref assume "t < length (tc_tasks ?s)" "opRef (phaseOf ?s t) = Some ref"
  then have t: "t < length (tc_tasks s)" "opRef (phaseOf s t) = Some ref"
    using assms(2) by (auto simp: less_Suc_eq addTask_phase)
  have parts: "ref < length (tc_records s)" "entitled s t ref" "queued s t ref" "lastInQueue s t ref"
    using ok t unfolding queuesOk_def by simp_all
  have "entitled ?s t ref" "queued ?s t ref"
    using parts(2,3) t(1) by (auto simp: entitled_def queued_def addTask_phase)
  moreover have "lastInQueue ?s t ref"
  proof -
    obtain p where "p < length (tc_tasks s)" "tr_operations (recordAt s ref) = Some p" "t \<le> p" "opRef (phaseOf s p) = Some ref"
      using parts(4) unfolding lastInQueue_def by blast
    then show ?thesis unfolding lastInQueue_def by (intro exI [of _ p]) (simp add: addTask_phase)
  qed
  ultimately show "ref < length (tc_records ?s) \<and> entitled ?s t ref \<and> queued ?s t ref \<and> lastInQueue ?s t ref"
    using parts(1) by simp
qed

lemma terminalsOk_addTask:
  assumes ok: "terminalsOk s" and phase: "\<not> openPhase phase" "opRef phase = None"
  shows "terminalsOk (addTask access c m r phase s)" (is "terminalsOk ?s")
proof -
  have "openRef phase = None" using phase(1) by (cases phase) auto
  then have "openingOk ?s" "queuesOk ?s" using ok openingOk_addTask queuesOk_addTask phase by (simp_all add: terminalsOk_def)
  moreover have "mapsOk ?s" using ok mapsOk_frame [of ?s s] by (simp add: terminalsOk_def)
  moreover have "pendingOk ?s" using ok phase(1) by (simp add: terminalsOk_def pendingOk_def opensFor_addTask)
  moreover have "capOk ?s" using ok by (simp add: terminalsOk_def capOk_def)
  ultimately show ?thesis by (simp add: terminalsOk_def)
qed

lemma terminalsOk_startOpen:
  assumes ok: "terminalsOk s"
  shows "terminalsOk (startOpen access c r s)"
proof (cases "length (filter (isOpen s) (ownedRefs (accessKey access) s)) + pendingOf (accessKey access) s \<ge> MAX_PERSONAL_TERMINALS")
  case True
  then show ?thesis
    using terminalsOk_addTask [OF ok] by (simp add: startOpen_def Let_def isOpen_def [abs_def])
next
  case False
  let ?key = "accessKey access"
  let ?q = "s\<lparr>tc_pendingOwners := mapSet (tc_pendingOwners s) ?key (Suc (pendingOf ?key s))\<rparr>"
  let ?s = "addTask access c ''terminal.open'' r AwaitProfile ?q"
  have frame: "tc_records ?q = tc_records s" "recordAt ?q = recordAt s" "isOpen ?q = isOpen s" "ownedRefs key ?q = ownedRefs key s"
    "phaseOf ?q = phaseOf s" "accessOf ?q = accessOf s" for key
    by (auto simp: recordAt_def isOpen_def ownedRefs_def phaseOf_def accessOf_def fun_eq_iff)
  have p: "pendingOf key ?q = pendingOf key s + (if key = ?key then 1 else 0)" for key
    by (simp add: pendingOf_def)
  have "openingOk ?q" "queuesOk ?q"
    using ok by (simp_all add: terminalsOk_def openingOk_def queuesOk_def frame entitled_def queued_def lastInQueue_def)
  then have "openingOk ?s" "queuesOk ?s" using openingOk_addTask queuesOk_addTask by simp_all
  moreover have "mapsOk ?s" using ok mapsOk_frame [of ?s s] by (simp add: terminalsOk_def)
  moreover have "pendingOk ?s"
    unfolding pendingOk_def
  proof (intro conjI allI)
    fix key
    have old: "pendingOf key s = length (filter (opensFor key) (tc_tasks s))" "mapGet (tc_pendingOwners s) key \<noteq> Some 0"
      using ok unfolding terminalsOk_def pendingOk_def by blast+
    show "pendingOf key ?s = length (filter (opensFor key) (tc_tasks ?s))"
      using old(1) unfolding opensFor_addTask by (simp only: addTask_fields p) simp
    show "mapGet (tc_pendingOwners ?s) key \<noteq> Some 0" using old(2) by (simp only: addTask_fields) simp
  qed (use ok in \<open>simp add: terminalsOk_def pendingOk_def\<close>)
  moreover have "capOk ?s"
    unfolding capOk_def
  proof
    fix key
    have "length (filter (isOpen s) (ownedRefs key s)) + pendingOf key s \<le> MAX_PERSONAL_TERMINALS"
      using ok unfolding terminalsOk_def capOk_def by blast
    then show "length (filter (isOpen ?s) (ownedRefs key ?s)) + pendingOf key ?s \<le> MAX_PERSONAL_TERMINALS"
      using False by (simp only: addTask_fields p frame) (simp split: if_split)
  qed
  ultimately show ?thesis using False by (simp add: startOpen_def Let_def isOpen_def [abs_def] terminalsOk_def not_le)
qed

lemma ownedRecord_Some:
  assumes "ownedRecord access sid s = Some ref"
  shows "mapGet (tc_bySession s) sid = Some ref \<and> isOpen s ref \<and> recordKey (recordAt s ref) = accessKey access
    \<and> tr_accountId (recordAt s ref) = u_accountId (ga_user access) \<and> tr_bindingId (recordAt s ref) = b_id (ga_binding access)"
  using assms by (auto simp: ownedRecord_def Let_def isOpen_def split: option.splits if_splits)

definition enqueue :: "nat \<Rightarrow> terminals \<Rightarrow> terminals" where
  "enqueue ref s = changeRecord ref (\<lambda>r. r\<lparr>tr_operations := Some (length (tc_tasks s))\<rparr>) s"

lemma enqueue_fields [simp]:
  "length (tc_records (enqueue ref s)) = length (tc_records s)" "tc_bySession (enqueue ref s) = tc_bySession s"
  "tc_byOwner (enqueue ref s) = tc_byOwner s" "tc_pendingOwners (enqueue ref s) = tc_pendingOwners s"
  "tc_tasks (enqueue ref s) = tc_tasks s" "isOpen (enqueue ref s) = isOpen s" "ownedRefs key (enqueue ref s) = ownedRefs key s"
  "pendingOf key (enqueue ref s) = pendingOf key s" "phaseOf (enqueue ref s) = phaseOf s" "accessOf (enqueue ref s) = accessOf s"
  "tr_opening (recordAt (enqueue ref s) i) = tr_opening (recordAt s i)"
  "recordKey (recordAt (enqueue ref s) i) = recordKey (recordAt s i)"
  "tr_agentId (recordAt (enqueue ref s) i) = tr_agentId (recordAt s i)"
  "tr_accountId (recordAt (enqueue ref s) i) = tr_accountId (recordAt s i)"
  "tr_bindingId (recordAt (enqueue ref s) i) = tr_bindingId (recordAt s i)"
  by (auto simp: enqueue_def isOpen_def [abs_def] recordAt_changeRecord ownedRefs_def pendingOf_def phaseOf_def [abs_def]
      accessOf_def [abs_def] recordKey_def)

lemma enqueue_operations:
  "ref < length (tc_records s) \<Longrightarrow> tr_operations (recordAt (enqueue ref s) i) =
     (if i = ref then Some (length (tc_tasks s)) else tr_operations (recordAt s i))"
  by (simp add: enqueue_def recordAt_changeRecord)

lemma queuesOk_enqueue:
  assumes ok: "queuesOk s" and ref: "ref < length (tc_records s)"
    and own: "isOpen s ref" "recordKey (recordAt s ref) = accessKey access"
      "tr_accountId (recordAt s ref) = u_accountId (ga_user access)" "tr_bindingId (recordAt s ref) = b_id (ga_binding access)"
  shows "queuesOk (addTask access c m r (AwaitTurn ref (tr_operations (recordAt s ref))) (enqueue ref s))"
    (is "queuesOk ?s")
  unfolding queuesOk_def
proof (intro allI impI)
  let ?n = "length (tc_tasks s)"
  have tail: "\<exists>p < ?n. tr_operations (recordAt s ref) = Some p \<and> u \<le> p \<and> opRef (phaseOf s p) = Some ref"
    if "u < ?n" "opRef (phaseOf s u) = Some ref" for u
    using ok that unfolding queuesOk_def lastInQueue_def by blast
  fix t i assume "t < length (tc_tasks ?s)" and o: "opRef (phaseOf ?s t) = Some i"
  then consider (old) "t < ?n" "opRef (phaseOf s t) = Some i" | (new) "t = ?n" "i = ref"
    by (auto simp: less_Suc_eq addTask_phase split: if_splits)
  then show "i < length (tc_records ?s) \<and> entitled ?s t i \<and> queued ?s t i \<and> lastInQueue ?s t i"
  proof cases
    case old
    have parts: "i < length (tc_records s)" "entitled s t i" "queued s t i" "lastInQueue s t i"
      using ok old unfolding queuesOk_def by simp_all
    have "entitled ?s t i" "queued ?s t i"
      using parts(2,3) old(1) by (auto simp: entitled_def queued_def addTask_phase)
    moreover have "lastInQueue ?s t i"
    proof (cases "i = ref")
      case True
      then show ?thesis using old(1) ref unfolding lastInQueue_def
        by (intro exI [of _ ?n]) (simp add: addTask_phase enqueue_operations)
    next
      case False
      obtain p where "p < ?n" "tr_operations (recordAt s i) = Some p" "t \<le> p" "opRef (phaseOf s p) = Some i"
        using parts(4) unfolding lastInQueue_def by blast
      then show ?thesis using False ref unfolding lastInQueue_def
        by (intro exI [of _ p]) (simp add: addTask_phase enqueue_operations)
    qed
    ultimately show ?thesis using parts(1) by simp
  next
    case new
    have "entitled ?s t i" using own new by (simp add: entitled_def addTask_phase)
    moreover have "queued ?s t i"
      using tail new unfolding queued_def by (fastforce simp: addTask_phase)
    moreover have "lastInQueue ?s t i"
      unfolding lastInQueue_def using new ref by (intro exI [of _ ?n]) (simp add: addTask_phase enqueue_operations)
    ultimately show ?thesis using new ref by simp
  qed
qed

lemma terminalsOk_startOperation:
  assumes ok: "terminalsOk s"
  shows "terminalsOk (startOperation access c m r s)"
proof (cases "ownedRecord access (requestedSession r) s")
  case None
  then show ?thesis using terminalsOk_addTask [OF ok] by (simp add: startOperation_def)
next
  case (Some ref)
  note own = ownedRecord_Some [OF Some]
  have maps: "mapsOk s" using ok by (simp add: terminalsOk_def)
  have ref: "ref < length (tc_records s)" using mapsOkD(2) [OF maps] own by blast
  let ?phase = "AwaitTurn ref (tr_operations (recordAt s ref))"
  let ?s = "addTask access c m r ?phase (enqueue ref s)"
  have "openingOk (enqueue ref s)" using ok by (simp add: terminalsOk_def openingOk_def)
  then have "openingOk ?s" using openingOk_addTask by simp
  moreover have "queuesOk ?s" using queuesOk_enqueue [OF _ ref] own ok by (simp add: terminalsOk_def)
  moreover have "mapsOk ?s"
    using maps mapsOk_frame [of ?s "enqueue ref s"] mapsOk_changeRecord by (simp add: enqueue_def)
  moreover have "pendingOk ?s" using ok by (simp add: terminalsOk_def pendingOk_def opensFor_addTask)
  moreover have "capOk ?s" using ok by (simp add: terminalsOk_def capOk_def)
  ultimately show ?thesis using Some by (simp add: startOperation_def enqueue_def terminalsOk_def)
qed

lemma terminalsOk_refreshConnection: "terminalsOk (refreshConnection c access now s) \<longleftrightarrow> terminalsOk s"
  by (rule terminalsOk_frame) (simp_all add: refreshConnection_def)

lemma ok_if: "terminalsOk x \<Longrightarrow> terminalsOk y \<Longrightarrow> terminalsOk (if b then x else y)"
  and ok_sum: "(\<And>e. terminalsOk (f e)) \<Longrightarrow> (\<And>v. terminalsOk (g v)) \<Longrightarrow> terminalsOk (case r of Inl e \<Rightarrow> f e | Inr v \<Rightarrow> g v)"
  by (auto split: sum.split)

lemma terminalsOk_startRequest:
  assumes ok: "terminalsOk s"
  shows "terminalsOk (startRequest access c connected m r now s)"
proof -
  have c: "terminalsOk (refreshConnection d access now s)" for d using ok by (simp add: terminalsOk_refreshConnection)
  have r: "terminalsOk (addTask access d n r (Returned out) s')" if "terminalsOk s'" for d n out s'
    by (rule terminalsOk_addTask [OF that]) simp_all
  have l: "terminalsOk (startList access d r s')" if "terminalsOk s'" for d s'
    unfolding startList_def Let_def by (rule terminalsOk_addTask [OF that]) simp_all
  show ?thesis
    unfolding startRequest_def Let_def
    by (intro ok_if ok_sum r [OF ok] r [OF c] l [OF c] terminalsOk_startOpen [OF c] terminalsOk_startOperation [OF c])
qed

section \<open>The answers to a request\<close>

lemma finishOpen_ok:
  assumes ok: "terminalsOk s" and t: "t < length (tc_tasks s)" "openPhase (phaseOf s t)" "openRef (phaseOf s t) = None"
  shows "terminalsOk (finishOpen t out s)"
proof (rule terminalsOk_finishOpen [OF _ _ _ _ t(1,2)])
  fix key show "length (filter (isOpen s) (ownedRefs key s)) + pendingOf key s
      \<le> MAX_PERSONAL_TERMINALS + (if key = accessKey (accessOf s t) then 1 else 0)"
    using ok unfolding terminalsOk_def capOk_def by (simp add: le_SucI)
qed (use ok t(3) in \<open>simp_all add: terminalsOk_def\<close>)

lemma terminalsOk_profileReturns:
  assumes ok: "terminalsOk s" and t: "t < length (tc_tasks s)" "tk_phase (tc_tasks s ! t) = AwaitProfile"
  shows "terminalsOk (profileReturns t reply s)"
proof -
  have p: "phaseOf s t = AwaitProfile" using t(2) by (simp add: phaseOf_def)
  have "terminalsOk (finishOpen t out s)" for out using finishOpen_ok [OF ok t(1)] p by simp
  moreover have "terminalsOk (setPhase t (AwaitOpen a n) s)" for a n using terminalsOk_setPhase [OF ok t(1)] p by simp
  ultimately show ?thesis by (simp add: profileReturns_def Let_def split: option.split)
qed

lemma terminalsOk_openReturns:
  assumes ok: "terminalsOk s" and t: "t < length (tc_tasks s)"
  shows "terminalsOk (openReturns t reply now s)"
proof (cases "tk_phase (tc_tasks s ! t)")
  case (AwaitOpen allocation revision)
  then have p: "phaseOf s t = AwaitOpen allocation revision" by (simp add: phaseOf_def)
  have "terminalsOk (finishOpen t out s)" for out using finishOpen_ok [OF ok t] p by simp
  moreover have "terminalsOk (setPhase t AwaitUnusable s)" using terminalsOk_setPhase [OF ok t] p by simp
  ultimately show ?thesis
    using terminalsOk_insertRecord [OF ok t p]
    by (auto simp: openReturns_def Let_def AwaitOpen recordKey_def accessKey_def accessOf_def split: option.split js_value.split)
qed (use ok in \<open>simp_all add: openReturns_def Let_def\<close>)

lemma closeRecord_fields [simp]:
  "phaseOf (closeRecord ref s) = phaseOf s" "tc_tasks (closeRecord ref s) = tc_tasks s"
  "accessOf (closeRecord ref s) = accessOf s" "tc_agentEpochs (closeRecord ref s) = tc_agentEpochs s"
  "tc_gatewayEpoch (closeRecord ref s) = tc_gatewayEpoch s" "tc_pendingOwners (closeRecord ref s) = tc_pendingOwners s"
  by (auto simp: closeRecord_def phaseOf_def accessOf_def fun_eq_iff)

lemma closeRecord_gone: "mapsOk s \<Longrightarrow> mapGet (tc_bySession (closeRecord ref s)) sid \<noteq> Some ref"
  using mapsOkD(3) [of s sid ref] by (auto simp: closeRecord_def removeRecord_bySession isCurrent_def)

lemma terminalsOk_failOpen:
  assumes ok: "terminalsOk s" and t: "t < length (tc_tasks s)" "openPhase (phaseOf s t)"
    and ref: "openRef (phaseOf s t) = Some ref" and op: "opRef (phaseOf s t) = None"
  shows "terminalsOk (failOpen t ref e s)"
  unfolding failOpen_def
proof (rule terminalsOk_setPhase)
  show "terminalsOk (closeRecord ref s)" using ok by (rule terminalsOk_closeRecord)
  have maps: "mapsOk s" using ok by (simp add: terminalsOk_def)
  show "\<not> tr_opening (recordAt (closeRecord ref s) i)"
    if "openRef (phaseOf (closeRecord ref s) t) = Some i" "mapGet (tc_bySession (closeRecord ref s)) sid = Some i" for i sid
    using that ref closeRecord_gone [OF maps] by simp
qed (use t op in simp_all)

lemma terminalsOk_attachReturns:
  assumes ok: "terminalsOk s" and t: "t < length (tc_tasks s)"
  shows "terminalsOk (attachReturns t reply s)"
proof (cases "tk_phase (tc_tasks s ! t)")
  case (AwaitAttach ref raw)
  then have p: "phaseOf s t = AwaitAttach ref raw" by (simp add: phaseOf_def)
  have "terminalsOk (setPhase t (AwaitOpenAudit ref raw attached) s)" for attached
    by (rule terminalsOk_setPhase [OF ok t]) (simp_all add: p)
  moreover have "terminalsOk (failOpen t ref e s)" for e using terminalsOk_failOpen [OF ok t] p by simp
  ultimately show ?thesis by (simp add: attachReturns_def AwaitAttach split: option.split js_value.split)
qed (use ok in \<open>simp_all add: attachReturns_def\<close>)

lemma opened_maps:
  "tc_pendingOwners (opened ref s) = tc_pendingOwners s" "tc_tasks (opened ref s) = tc_tasks s"
  by (simp_all add: opened_def)

lemma terminalsOk_opened:
  assumes ok: "terminalsOk s" and t: "t < length (tc_tasks s)" and p: "phaseOf s t = AwaitOpenAudit ref raw attached"
  shows "terminalsOk (finishOpen t out (opened ref s))"
proof (rule terminalsOk_finishOpen)
  have maps: "mapsOk s" using ok by (simp add: terminalsOk_def)
  have ref: "recordKey (recordAt s ref) = accessKey (accessOf s t)" "ref < length (tc_records s)"
    using ok t p unfolding terminalsOk_def openingOk_def by auto
  show "mapsOk (opened ref s)" using maps by (simp add: opened_def mapsOk_changeRecord)
  show "pendingOk (opened ref s)" using ok by (simp add: terminalsOk_def pendingOk_def opened_kept opened_maps)
  show "openingOk (opened ref s)"
    using ok opened_kept(2) [of ref s] unfolding terminalsOk_def openingOk_def opened_kept by (simp add: opened_def)
  show "queuesOk (opened ref s)"
    using ok opened_kept(3) [of s _ ref] unfolding terminalsOk_def queuesOk_def entitled_def queued_def lastInQueue_def opened_kept
    by (simp add: opened_def recordAt_changeRecord)
  show "t < length (tc_tasks (opened ref s))" "openPhase (phaseOf (opened ref s) t)"
    using t p by (simp_all add: opened_def phaseOf_def)
  fix key
  have "length (filter (isOpen s) (ownedRefs key s)) + pendingOf key s \<le> MAX_PERSONAL_TERMINALS"
    using ok unfolding terminalsOk_def capOk_def by blast
  then show "length (filter (isOpen (opened ref s)) (ownedRefs key (opened ref s))) + pendingOf key (opened ref s)
      \<le> MAX_PERSONAL_TERMINALS + (if key = accessKey (accessOf (opened ref s) t) then 1 else 0)"
    using opened_cap [OF maps, of ref key] ref by (simp add: opened_kept)
next
  fix i sid
  have ref: "ref < length (tc_records s)" using ok t p unfolding terminalsOk_def openingOk_def by auto
  assume "openRef (phaseOf (opened ref s) t) = Some i"
  then show "\<not> tr_opening (recordAt (opened ref s) i)"
    using p ref by (auto simp: opened_def phaseOf_def recordAt_changeRecord)
qed

lemma terminalsOk_auditReturns:
  assumes ok: "terminalsOk s" and t: "t < length (tc_tasks s)"
  shows "terminalsOk (auditReturns t recorded now s)"
proof (cases "tk_phase (tc_tasks s ! t)")
  case (AwaitOpenAudit ref raw attached)
  then have p: "phaseOf s t = AwaitOpenAudit ref raw attached" by (simp add: phaseOf_def)
  have "terminalsOk (failOpen t ref e s)" for e using terminalsOk_failOpen [OF ok t] p by simp
  then show ?thesis
    using terminalsOk_opened [OF ok t p]
    by (simp add: auditReturns_def Let_def AwaitOpenAudit opened_def split: sum.split)
qed (use ok in \<open>simp_all add: auditReturns_def Let_def\<close>)

lemma terminalsOk_cleanupReturns:
  assumes ok: "terminalsOk s" and t: "t < length (tc_tasks s)"
  shows "terminalsOk (cleanupReturns t s)"
  using ok finishOpen_ok [OF ok t] by (cases "tk_phase (tc_tasks s ! t)") (simp_all add: cleanupReturns_def phaseOf_def)

text \<open>A request that holds no record moves on to another such phase.\<close>

lemma terminalsOk_plainPhase:
  assumes "terminalsOk s" and "t < length (tc_tasks s)" and "\<not> openPhase (phaseOf s t)" "opRef (phaseOf s t) = None"
    and "\<not> openPhase phase" "opRef phase = None"
  shows "terminalsOk (setPhase t phase s)"
proof (rule terminalsOk_setPhase [OF assms(1,2)])
  have "openRef x = None" if "\<not> openPhase x" for x using that by (cases x) auto
  then show "openRef phase = None \<or> openRef phase = openRef (phaseOf s t)"
    and "\<And>ref sid. openRef (phaseOf s t) = Some ref \<Longrightarrow> \<not> tr_opening (recordAt s ref)"
    using assms(3,5) by auto
qed (use assms in auto)

lemma terminalsOk_listRecords:
  assumes "terminalsOk s" and "t < length (tc_tasks s)" and "\<not> openPhase (phaseOf s t)" "opRef (phaseOf s t) = None"
  shows "terminalsOk (listRecords t c listed projected refs s)"
  using assms
proof (induction t c listed projected refs s rule: listRecords.induct)
  case (1 t c listed projected s)
  then show ?case using terminalsOk_plainPhase [of s t] by simp
next
  case (2 t c listed projected ref refs s)
  have "terminalsOk (setPhase t (AwaitMissing listed projected refs) (removeRecord ref s))"
    using 2(3-6) terminalsOk_removeRecord terminalsOk_plainPhase [of "removeRecord ref s" t] by (simp add: phaseOf_def)
  with 2 show ?case by (auto split: option.split)
qed

lemma terminalsOk_listReturns:
  assumes ok: "terminalsOk s" and t: "t < length (tc_tasks s)"
  shows "terminalsOk (listReturns t reply s)"
proof -
  have "terminalsOk (listReturns t reply s)" if p: "\<not> openPhase (phaseOf s t)" "opRef (phaseOf s t) = None"
    using ok terminalsOk_listRecords [OF ok t p] terminalsOk_plainPhase [OF ok t p]
    by (auto simp: listReturns_def Let_def split: terminal_phase.split option.split js_value.split)
  then show ?thesis using ok by (cases "tk_phase (tc_tasks s ! t)") (simp_all add: listReturns_def Let_def phaseOf_def)
qed

text \<open>A request that has its turn, or has had it, is the first in its queue.\<close>

lemma first_at_turn:
  assumes ok: "queuesOk s" and t: "t < length (tc_tasks s)" "phaseOf s t = AwaitTurn ref previous" and d: "settledOperation s previous"
    and u: "u < t"
  shows "opRef (phaseOf s u) \<noteq> Some ref"
proof
  assume o: "opRef (phaseOf s u) = Some ref"
  have "queued s t ref" using ok t unfolding queuesOk_def by simp
  then obtain p where p: "previous = Some p" "opRef (phaseOf s p) = Some ref"
    using o u t(2) unfolding queued_def by auto
  then show False using d by (cases "phaseOf s p") (auto simp: settledOperation_def phaseOf_def)
qed

lemma first_in_turn:
  assumes ok: "queuesOk s" and t: "t < length (tc_tasks s)" "opRef (phaseOf s t) = Some ref" "\<And>p. phaseOf s t \<noteq> AwaitTurn ref p"
    and u: "u < t"
  shows "opRef (phaseOf s u) \<noteq> Some ref"
  using ok t u unfolding queuesOk_def queued_def by blast

lemma terminalsOk_operationTurn:
  assumes ok: "terminalsOk s" and t: "t < length (tc_tasks s)"
  shows "terminalsOk (operationTurn t now s)"
proof (cases "tk_phase (tc_tasks s ! t)")
  case (AwaitTurn ref previous)
  then have p: "phaseOf s t = AwaitTurn ref previous" by (simp add: phaseOf_def)
  have q: "queuesOk s" using ok by (simp add: terminalsOk_def)
  have next_: "terminalsOk (setPhase t phase s)"
    if "settledOperation s previous" "\<not> openPhase phase" "openRef phase = None" "opRef phase \<in> {None, Some ref}" for phase
    by (rule terminalsOk_setPhase [OF ok t]) (use that p first_at_turn [OF q t p that(1)] in auto)
  show ?thesis
    unfolding operationTurn_def Let_def AwaitTurn terminal_phase.case
    by (cases "settledOperation s previous") (auto intro!: ok_if ok_sum next_ ok)
qed (use ok in \<open>simp_all add: operationTurn_def Let_def\<close>)

lemma terminalsOk_attach: "terminalsOk s \<Longrightarrow> terminalsOk (attach ref c s)"
proof -
  assume ok: "terminalsOk s"
  let ?s = "changeRecord ref (\<lambda>r. r\<lparr>tr_reaper := False, tr_attached := Some c\<rparr>) s"
  have "terminalsOk ?s" using ok by (simp add: terminalsOk_changeRecord)
  moreover have "terminalsOk (?s\<lparr>tc_detached := xs\<rparr>) \<longleftrightarrow> terminalsOk ?s" for xs by (rule terminalsOk_frame) simp_all
  ultimately show ?thesis by (simp add: attach_def Let_def split: option.split)
qed

lemma attach_tasks [simp]: "tc_tasks (attach ref c s) = tc_tasks s"
  by (simp add: attach_def Let_def split: option.split)

lemma terminalsOk_operationReturns:
  assumes ok: "terminalsOk s" and t: "t < length (tc_tasks s)"
  shows "terminalsOk (operationReturns t reply now s)"
proof -
  have next_: "terminalsOk (setPhase t phase s')"
    if "terminalsOk s'" "tc_tasks s' = tc_tasks s" "opRef (phaseOf s t) = Some ref" "\<And>p. phaseOf s t \<noteq> AwaitTurn ref p"
      "\<not> openPhase phase" "openRef phase = None" "opRef phase \<in> {None, Some ref}" for phase ref s'
  proof (rule terminalsOk_setPhase [OF that(1)])
    have p: "phaseOf s' = phaseOf s" using that(2) by (simp add: phaseOf_def [abs_def])
    have q: "queuesOk s" using ok by (simp add: terminalsOk_def)
    have "\<not> openPhase (phaseOf s t)" "openRef (phaseOf s t) = None" using that(3) by (cases "phaseOf s t"; simp)+
    then show "openPhase phase = openPhase (phaseOf s' t)" "openRef phase = None \<or> openRef phase = openRef (phaseOf s' t)"
      "\<And>ref. openRef (phaseOf s' t) = Some ref \<Longrightarrow> \<not> tr_opening (recordAt s' ref)"
      using that by (simp_all add: p)
    show "opRef (phaseOf s' u) \<noteq> Some i" if "opRef (phaseOf s' t) = Some i" "u < t" for i u
      using first_in_turn [OF q t \<open>opRef (phaseOf s t) = Some ref\<close> \<open>\<And>p. phaseOf s t \<noteq> AwaitTurn ref p\<close> that(2)] that(1)
        \<open>opRef (phaseOf s t) = Some ref\<close> by (simp add: p)
  qed (use that t in \<open>auto simp: phaseOf_def\<close>)
  show ?thesis
  proof (cases "tk_phase (tc_tasks s ! t)")
    case (AwaitOperation ref)
    then have p: "phaseOf s t = AwaitOperation ref" by (simp add: phaseOf_def)
    note n = next_ [where ref = ref, unfolded p, simplified]
    show ?thesis
      unfolding operationReturns_def attachReplies_def Let_def AwaitOperation
      by (auto split: option.split js_value.split intro!: ok_if ok_sum n ok terminalsOk_removeRecord terminalsOk_attach)
  next
    case (AwaitCloseAudit ref result)
    then have p: "phaseOf s t = AwaitCloseAudit ref result" by (simp add: phaseOf_def)
    show ?thesis
      unfolding operationReturns_def Let_def AwaitCloseAudit by (auto intro!: next_ [where ref = ref] ok simp: p)
  qed (use ok in \<open>simp_all add: operationReturns_def Let_def\<close>)
qed

section \<open>Every reached state\<close>

lemma terminalsOk_releaseConnection: "terminalsOk s \<Longrightarrow> terminalsOk (releaseConnection c s)"
proof -
  have fold: "terminalsOk s \<Longrightarrow> terminalsOk (fold (\<lambda>ref. changeRecord ref releaseRecord) refs s)" for refs s
    by (induction refs arbitrary: s) (simp_all add: terminalsOk_changeRecord)
  have "terminalsOk (s\<lparr>tc_listeners := l, tc_connections := d\<rparr>) \<longleftrightarrow> terminalsOk s" for l d
    by (rule terminalsOk_frame) simp_all
  then show "terminalsOk s \<Longrightarrow> terminalsOk (releaseConnection c s)"
    unfolding releaseConnection_def by (intro fold) simp
qed

lemma terminalsOk_filterConnectionEvent: "terminalsOk s \<Longrightarrow> terminalsOk (snd (filterConnectionEvent event sid c now s))"
  by (auto simp: filterConnectionEvent_def Let_def intro: terminalsOk_closeRecord terminalsOk_removeRecord split: option.split)

lemma terminalsOk_closeForAgent: "terminalsOk s \<Longrightarrow> terminalsOk (closeForAgent a s)"
proof -
  have "terminalsOk (s\<lparr>tc_agentEpochs := e\<rparr>) \<longleftrightarrow> terminalsOk s" for e by (rule terminalsOk_frame) simp_all
  then show "terminalsOk s \<Longrightarrow> terminalsOk (closeForAgent a s)"
    unfolding closeForAgent_def by (intro terminalsOk_closeRecords) simp
qed

lemma terminalsOk_connectionExpires: "terminalsOk s \<Longrightarrow> terminalsOk (connectionExpires c n s)"
proof -
  have "terminalsOk (s\<lparr>tc_connections := d\<rparr>) \<longleftrightarrow> terminalsOk s" for d by (rule terminalsOk_frame) simp_all
  then show "terminalsOk s \<Longrightarrow> terminalsOk (connectionExpires c n s)"
    unfolding connectionExpires_def by (auto split: option.split intro: terminalsOk_closeRecords)
qed

lemma terminalsOk_handleGatewayDisconnect:
  assumes ok: "terminalsOk s"
  shows "terminalsOk (handleGatewayDisconnect s)" (is "terminalsOk ?s")
proof -
  have frame: "recordAt ?s = recordAt s" "isOpen ?s = isOpen s" "ownedRefs key ?s = []" "phaseOf ?s = phaseOf s" "accessOf ?s = accessOf s"
    "pendingOf key ?s = pendingOf key s" "tc_tasks ?s = tc_tasks s" "tc_pendingOwners ?s = tc_pendingOwners s" for key
    by (auto simp: handleGatewayDisconnect_def recordAt_def isOpen_def ownedRefs_def phaseOf_def accessOf_def pendingOf_def fun_eq_iff)
  have maps: "tc_bySession ?s = []" "tc_byOwner ?s = []" "tc_records ?s = tc_records s" by (simp_all add: handleGatewayDisconnect_def)
  have "pendingOf key s \<le> MAX_PERSONAL_TERMINALS" for key
    using ok unfolding terminalsOk_def capOk_def using add_leD2 by blast
  then have "capOk ?s" by (simp add: capOk_def frame)
  moreover have "mapsOk ?s" by (simp add: mapsOk_def owns_def maps)
  moreover have "pendingOk ?s" "openingOk ?s" "queuesOk ?s"
    using ok by (simp_all add: terminalsOk_def pendingOk_def openingOk_def queuesOk_def frame maps entitled_def queued_def lastInQueue_def)
  ultimately show ?thesis by (simp add: terminalsOk_def)
qed

lemma terminalsOk_step:
  assumes ok: "terminalsOk s"
  shows "terminalsOk (terminalStep e s)"
proof (cases e)
  case (SubscribeEvents c l)
  have "terminalsOk (subscribeConnectionEvents c l s) \<longleftrightarrow> terminalsOk s"
    by (rule terminalsOk_frame) (simp_all add: subscribeConnectionEvents_def split: option.split)
  with ok SubscribeEvents show ?thesis by simp
next
  case (UnsubscribeEvents c ls l)
  have "terminalsOk (unsubscribe c ls l s) \<longleftrightarrow> terminalsOk s"
    by (rule terminalsOk_frame) (simp_all add: unsubscribe_def Let_def)
  with ok UnsubscribeEvents show ?thesis by simp
qed (use ok in \<open>auto simp: terminalsOk_refreshConnection reaperFires_def intro: terminalsOk_startRequest terminalsOk_profileReturns
  terminalsOk_openReturns terminalsOk_attachReturns terminalsOk_auditReturns terminalsOk_cleanupReturns terminalsOk_listReturns
  terminalsOk_operationTurn terminalsOk_operationReturns terminalsOk_filterConnectionEvent terminalsOk_releaseConnection
  terminalsOk_connectionExpires terminalsOk_closeRecord terminalsOk_closeForAgent terminalsOk_handleGatewayDisconnect\<close>)

lemma reachable_terminalsOk: "terminal_reachable s \<Longrightarrow> terminalsOk s"
proof (induction rule: terminal_reachable.induct)
  case start
  show ?case by (simp add: terminalsOk_parts mapsOk_def owns_def emptyTerminals_def pendingOf_def ownedRefs_def)
qed (rule terminalsOk_step)

end
