(* ===== verification/TerminalRevocation.thy ===== *)
theory TerminalRevocation
  imports TerminalSafety
begin

text \<open>
  Revocation of personal VM terminals: an agent whose assignment ends, or a gateway that disconnects, ends
  the requests that are opening a terminal at that moment, whatever answers arrive later. The last part states
  the properties of the terminals and runs them on a concrete sequence of events.
\<close>

section \<open>Revocation\<close>

text \<open>A request that opens a terminal and cannot succeed any more, or has failed.\<close>

definition agentOf :: "terminals \<Rightarrow> nat \<Rightarrow> string" where
  "agentOf s t = b_agentId (ga_binding (accessOf s t))"

definition outdated :: "terminals \<Rightarrow> nat \<Rightarrow> bool" where
  "outdated s t \<longleftrightarrow> tk_gatewayEpoch (tc_tasks s ! t) < tc_gatewayEpoch s
     \<or> tk_agentEpoch (tc_tasks s ! t) < agentEpochOf (agentOf s t) s"

definition doomed :: "nat \<Rightarrow> terminals \<Rightarrow> bool" where
  "doomed t s \<longleftrightarrow> t < length (tc_tasks s)
     \<and> (openPhase (phaseOf s t) \<and> outdated s t \<or> (\<exists>e. phaseOf s t = Returned (Inl e)))"

text \<open>The answer to a request that opens a terminal: it goes on, or ends, and succeeds only in its own epochs.\<close>

definition sameQueue :: "terminals \<Rightarrow> terminals \<Rightarrow> bool" where
  "sameQueue s s' \<longleftrightarrow> tc_tasks s' = tc_tasks s \<and> tc_agentEpochs s' = tc_agentEpochs s \<and> tc_gatewayEpoch s' = tc_gatewayEpoch s"

definition answered :: "nat \<Rightarrow> terminals \<Rightarrow> terminals \<Rightarrow> bool" where
  "answered u s s' \<longleftrightarrow> (\<exists>x. sameQueue s x \<and>
     (s' = x \<or> (\<exists>phase. openPhase phase \<and> s' = setPhase u phase x) \<or> (\<exists>e. s' = finishOpen u (Inl e) x)
      \<or> (\<exists>v. s' = finishOpen u (Inr v) x \<and> \<not> outdated s u)))"

lemma sameQueue_refl [simp]: "sameQueue s s"
  by (simp add: sameQueue_def)

lemma answeredI:
  "sameQueue s x \<Longrightarrow> answered u s x"
  "sameQueue s x \<Longrightarrow> openPhase phase \<Longrightarrow> answered u s (setPhase u phase x)"
  "sameQueue s x \<Longrightarrow> answered u s (finishOpen u (Inl e) x)"
  "sameQueue s x \<Longrightarrow> \<not> outdated s u \<Longrightarrow> answered u s (finishOpen u (Inr v) x)"
  unfolding answered_def by blast+

lemma profileReturns_answered: "answered u s (profileReturns u reply s)"
  by (auto simp: profileReturns_def terminalRefused_def Let_def intro: answeredI split: option.split)

lemma openReturns_answered: "answered u s (openReturns u reply now s)"
proof -
  have i: "sameQueue s (insertRecord r s)" for r by (simp add: sameQueue_def)
  show ?thesis
    by (auto simp: openReturns_def unusableTerminal_def terminalRefused_def Let_def intro: answeredI(1,3) answeredI(2) [OF i] answeredI(2)
        split: terminal_phase.split option.split js_value.split)
qed

lemma failOpen_answered: "answered u s (failOpen u ref e s)"
  unfolding failOpen_def by (rule answeredI(2)) (simp_all add: sameQueue_def)

lemma attachReturns_answered: "answered u s (attachReturns u reply s)"
  by (auto simp: attachReturns_def intro: answeredI failOpen_answered split: terminal_phase.split option.split js_value.split)

lemma auditReturns_answered:
  assumes ok: "openingOk s" and u: "u < length (tc_tasks s)"
  shows "answered u s (auditReturns u recorded now s)"
proof (cases "tk_phase (tc_tasks s ! u)")
  case (AwaitOpenAudit ref raw attached)
  then have "tr_agentId (recordAt s ref) = agentOf s u"
    using ok u unfolding openingOk_def by (simp add: phaseOf_def agentOf_def)
  moreover have "sameQueue s (changeRecord ref f s)" for f by (simp add: sameQueue_def)
  ultimately show ?thesis
    by (auto simp: auditReturns_def Let_def AwaitOpenAudit outdated_def intro: failOpen_answered answeredI(4) split: sum.split)
qed (auto simp: auditReturns_def Let_def intro: answeredI)

lemma cleanupReturns_answered: "answered u s (cleanupReturns u s)"
  by (auto simp: cleanupReturns_def unusableTerminal_def terminalRefused_def intro: answeredI split: terminal_phase.split)

lemma setPhase_task: "tc_tasks (setPhase u phase s) ! t =
    (if t = u \<and> u < length (tc_tasks s) then (tc_tasks s ! t)\<lparr>tk_phase := phase\<rparr> else tc_tasks s ! t)"
  by (simp add: setPhase_def nth_update)

text \<open>The epoch of an agent is kept as long as a request of the agent is in progress.\<close>

lemma finishOpen_epoch:
  assumes ok: "pendingOk (finishOpen u out s)" and t: "t < length (tc_tasks s)" "openPhase (phaseOf (finishOpen u out s) t)"
  shows "agentEpochOf (agentOf s t) (finishOpen u out s) = agentEpochOf (agentOf s t) s"
proof (cases "agentOf s t = agentOf s u")
  case True
  let ?s = "finishOpen u out s"
  obtain n where n: "mapGet (tc_pendingOwners ?s) (accessKey (accessOf s t)) = Some (Suc n)"
    using pendingOf_pos [OF ok _ t(2)] t(1) by auto
  have "accessKey (accessOf s t) \<in> set (mapKeys (tc_pendingOwners ?s))"
    unfolding set_mapKeys using n by (rule domI)
  moreover have "suffix (nul # agentOf s u) (accessKey (accessOf s t))"
    by (simp add: accessKey_def ownerKey_def agentOf_def True [unfolded agentOf_def, symmetric] suffix_def)
  ultimately have "agentPending (agentOf s u) ?s" unfolding agentPending_def list_ex_iff by blast
  then show ?thesis
    by (auto simp: finishOpen_def Let_def agentEpochOf_def agentOf_def accessOf_def setPhase_def agentPending_def split: if_splits)
next
  case False
  then show ?thesis
    by (auto simp: finishOpen_def Let_def agentEpochOf_def agentOf_def accessOf_def setPhase_def)
qed

lemma doomed_answered:
  assumes ok: "pendingOk s'" and a: "answered u s s'" and u: "u < length (tc_tasks s)" "openPhase (phaseOf s u)" and d: "doomed t s"
  shows "doomed t s'"
proof -
  obtain x where x: "tc_tasks x = tc_tasks s" "tc_agentEpochs x = tc_agentEpochs s" "tc_gatewayEpoch x = tc_gatewayEpoch s"
    and s': "s' = x \<or> (\<exists>phase. openPhase phase \<and> s' = setPhase u phase x) \<or> (\<exists>e. s' = finishOpen u (Inl e) x)
      \<or> (\<exists>v. s' = finishOpen u (Inr v) x \<and> \<not> outdated s u)"
    using a unfolding answered_def sameQueue_def by blast
  have frame: "phaseOf x = phaseOf s" "accessOf x = accessOf s" "agentOf x = agentOf s" "outdated x = outdated s"
    using x by (simp_all add: phaseOf_def [abs_def] accessOf_def [abs_def] agentOf_def [abs_def] outdated_def [abs_def] agentEpochOf_def)
  have t: "t < length (tc_tasks s)" using d by (simp add: doomed_def)
  have other: "doomed t s'" if "s' = finishOpen u out x" "t \<noteq> u" for out
  proof -
    have "phaseOf s' t = phaseOf s t" using that u x by (simp add: phaseOf_finishOpen phaseOf_setPhase frame)
    moreover have "outdated s' t \<longleftrightarrow> outdated s t" if o: "openPhase (phaseOf s' t)"
      using finishOpen_epoch [of u out x t] ok t o that \<open>s' = finishOpen u out x\<close> x \<open>t \<noteq> u\<close>
      by (simp add: outdated_def agentOf_def finishOpen_tasks setPhase_task frame agentEpochOf_def)
    ultimately show ?thesis using d that(1) x by (auto simp: doomed_def)
  qed
  have own: "outdated s u" if "t = u" using d that u by (auto simp: doomed_def)
  show ?thesis
    using s'
  proof (elim disjE exE conjE)
    assume "s' = x" with d x show ?thesis by (simp add: doomed_def frame)
  next
    fix phase assume p: "openPhase phase" "s' = setPhase u phase x"
    then have "outdated s' t \<longleftrightarrow> outdated s t"
      using u x by (simp add: outdated_def agentOf_def setPhase_task frame agentEpochOf_def)
    then show ?thesis using p d u x own by (auto simp: doomed_def phaseOf_setPhase frame)
  next
    fix e assume p: "s' = finishOpen u (Inl e) x"
    show ?thesis
    proof (cases "t = u")
      case True
      then show ?thesis using p u x by (simp add: doomed_def phaseOf_finishOpen phaseOf_setPhase)
    qed (rule other [OF p])
  next
    fix v assume p: "s' = finishOpen u (Inr v) x" "\<not> outdated s u"
    then have "t \<noteq> u" using own by blast
    then show ?thesis by (rule other [OF p(1)])
  qed
qed

text \<open>Every other step leaves the requests that open a terminal, and the epochs they depend on, alone.\<close>

definition fixedPhase :: "terminal_phase \<Rightarrow> bool" where
  "fixedPhase phase \<longleftrightarrow> openPhase phase \<or> (\<exists>out. phase = Returned out)"

text \<open>The epochs a request took are not ahead of the current ones.\<close>

definition epochsTaken :: "terminals \<Rightarrow> nat \<Rightarrow> bool" where
  "epochsTaken s t \<longleftrightarrow> tk_gatewayEpoch (tc_tasks s ! t) \<le> tc_gatewayEpoch s
     \<and> tk_agentEpoch (tc_tasks s ! t) \<le> agentEpochOf (agentOf s t) s"

definition onlyPhase :: "terminal_task \<Rightarrow> terminal_task \<Rightarrow> bool" where
  "onlyPhase task task' \<longleftrightarrow> task' = task
     \<or> \<not> fixedPhase (tk_phase task) \<and> (\<exists>phase. \<not> openPhase phase \<and> task' = task\<lparr>tk_phase := phase\<rparr>)"

definition leavesOpening :: "terminals \<Rightarrow> terminals \<Rightarrow> bool" where
  "leavesOpening s s' \<longleftrightarrow>
     length (tc_tasks s) \<le> length (tc_tasks s') \<and> tc_gatewayEpoch s \<le> tc_gatewayEpoch s'
     \<and> (\<forall>agentId. agentEpochOf agentId s \<le> agentEpochOf agentId s')
     \<and> (\<forall>t < length (tc_tasks s). onlyPhase (tc_tasks s ! t) (tc_tasks s' ! t))
     \<and> (\<forall>t. length (tc_tasks s) \<le> t \<longrightarrow> t < length (tc_tasks s') \<longrightarrow> epochsTaken s' t)"

lemma onlyPhase_trans:
  assumes "onlyPhase x y" and "onlyPhase y z"
  shows "onlyPhase x z"
proof -
  have "openPhase p \<Longrightarrow> fixedPhase p" for p by (simp add: fixedPhase_def)
  then show ?thesis using assms unfolding onlyPhase_def by auto
qed

lemma onlyPhase_keeps:
  "onlyPhase x y \<Longrightarrow> tk_access y = tk_access x \<and> tk_agentEpoch y = tk_agentEpoch x \<and> tk_gatewayEpoch y = tk_gatewayEpoch x"
  "onlyPhase x y \<Longrightarrow> openPhase (tk_phase y) \<Longrightarrow> openPhase (tk_phase x)"
  "onlyPhase x y \<Longrightarrow> fixedPhase (tk_phase x) \<Longrightarrow> y = x"
  by (auto simp: onlyPhase_def)

lemma leavesOpening_refl [simp]: "leavesOpening s s"
  by (simp add: leavesOpening_def onlyPhase_def)

lemma epochsTaken_later:
  assumes "epochsTaken s t" and "onlyPhase (tc_tasks s ! t) (tc_tasks s' ! t)"
    and "tc_gatewayEpoch s \<le> tc_gatewayEpoch s'" "agentEpochOf (agentOf s t) s \<le> agentEpochOf (agentOf s t) s'"
  shows "epochsTaken s' t"
proof -
  note k = onlyPhase_keeps(1) [OF assms(2)]
  then have "agentOf s' t = agentOf s t" by (simp add: agentOf_def accessOf_def)
  then show ?thesis using assms(1,3,4) k unfolding epochsTaken_def by simp
qed

lemma leavesOpening_trans:
  assumes a: "leavesOpening s s'" and b: "leavesOpening s' s''"
  shows "leavesOpening s s''"
  unfolding leavesOpening_def
proof (intro conjI allI impI)
  show "length (tc_tasks s) \<le> length (tc_tasks s'')" "tc_gatewayEpoch s \<le> tc_gatewayEpoch s''"
    using a b unfolding leavesOpening_def by linarith+
  show "agentEpochOf i s \<le> agentEpochOf i s''" for i
    using a b le_trans unfolding leavesOpening_def by blast
  show "onlyPhase (tc_tasks s ! t) (tc_tasks s'' ! t)" if "t < length (tc_tasks s)" for t
    using a b that onlyPhase_trans less_le_trans unfolding leavesOpening_def by blast
  show "epochsTaken s'' t" if t: "length (tc_tasks s) \<le> t" "t < length (tc_tasks s'')" for t
  proof (cases "t < length (tc_tasks s')")
    case True
    then have "epochsTaken s' t" using a t(1) unfolding leavesOpening_def by blast
    then show ?thesis using b True epochsTaken_later unfolding leavesOpening_def by blast
  qed (use b t in \<open>simp add: leavesOpening_def\<close>)
qed

lemma leavesOpening_same:
  "tc_tasks s' = tc_tasks s \<Longrightarrow> tc_agentEpochs s' = tc_agentEpochs s \<Longrightarrow> tc_gatewayEpoch s' = tc_gatewayEpoch s \<Longrightarrow> leavesOpening s s'"
  by (simp add: leavesOpening_def agentEpochOf_def onlyPhase_def)

lemma leavesOpening_setPhase:
  "\<not> fixedPhase (phaseOf s t) \<Longrightarrow> \<not> openPhase phase \<Longrightarrow> leavesOpening s (setPhase t phase s)"
  by (auto simp: leavesOpening_def agentEpochOf_def setPhase_task phaseOf_def onlyPhase_def)

lemma leavesOpening_addTask: "leavesOpening s (addTask access c m r phase s)"
  by (auto simp: leavesOpening_def agentEpochOf_def addTask_def nth_append onlyPhase_def epochsTaken_def agentOf_def accessOf_def
      less_Suc_eq)

lemma closeRecords_same [simp]:
  "tc_tasks (closeRecords sel s) = tc_tasks s" "tc_agentEpochs (closeRecords sel s) = tc_agentEpochs s"
  "tc_gatewayEpoch (closeRecords sel s) = tc_gatewayEpoch s"
proof -
  have "tc_tasks (fold closeRecord refs s) = tc_tasks s \<and> tc_agentEpochs (fold closeRecord refs s) = tc_agentEpochs s
      \<and> tc_gatewayEpoch (fold closeRecord refs s) = tc_gatewayEpoch s" for refs
    by (induction refs arbitrary: s) simp_all
  then show "tc_tasks (closeRecords sel s) = tc_tasks s" "tc_agentEpochs (closeRecords sel s) = tc_agentEpochs s"
    "tc_gatewayEpoch (closeRecords sel s) = tc_gatewayEpoch s" unfolding closeRecords_def by blast+
qed

lemma leavesOpening_closeForAgent: "leavesOpening s (closeForAgent a s)"
  by (auto simp: leavesOpening_def closeForAgent_def agentEpochOf_def onlyPhase_def split: option.split)

lemma leavesOpening_startRequest: "leavesOpening s (startRequest access c connected m r now s)"
proof -
  have i: "leavesOpening s x \<Longrightarrow> leavesOpening s y \<Longrightarrow> leavesOpening s (if b then x else y)" for x y b by simp
  have j: "(\<And>e. leavesOpening s (f e)) \<Longrightarrow> (\<And>v. leavesOpening s (g v)) \<Longrightarrow> leavesOpening s (case q of Inl e \<Rightarrow> f e | Inr v \<Rightarrow> g v)"
    for f g and q :: "terminal_error + unit" by (simp split: sum.split)
  have r: "leavesOpening s (refreshConnection d access now s)" for d
    by (rule leavesOpening_same) (simp_all add: refreshConnection_def)
  have add: "leavesOpening s (addTask access d n r phase x)" if "leavesOpening s x" for d n r phase x
    using leavesOpening_trans [OF that leavesOpening_addTask] .
  have p: "leavesOpening s (x\<lparr>tc_pendingOwners := q\<rparr>)" if "leavesOpening s x" for x q
    by (rule leavesOpening_trans [OF that leavesOpening_same]) simp_all
  have o: "leavesOpening s (startOpen access d r x)" if "leavesOpening s x" for d x
    unfolding startOpen_def Let_def by (intro i add p that)
  have l: "leavesOpening s (startList access d r x)" if "leavesOpening s x" for d x
    unfolding startList_def Let_def by (intro add that)
  have q: "leavesOpening s (startOperation access d m r x)" if "leavesOpening s x" for d x
    unfolding startOperation_def
    using add [OF that] add [OF leavesOpening_trans [OF that leavesOpening_same]] by (simp split: option.split)
  show ?thesis
    unfolding startRequest_def Let_def by (intro i j add o l q r leavesOpening_refl)
qed

lemma leavesOpening_listRecords:
  "t < length (tc_tasks s) \<Longrightarrow> \<not> fixedPhase (phaseOf s t) \<Longrightarrow> leavesOpening s (listRecords t c listed projected refs s)"
proof (induction t c listed projected refs s rule: listRecords.induct)
  case (2 t c listed projected ref refs s)
  have "leavesOpening s (removeRecord ref s)" by (rule leavesOpening_same) simp_all
  moreover have "leavesOpening (removeRecord ref s) (setPhase t (AwaitMissing listed projected refs) (removeRecord ref s))"
    using 2(4) by (intro leavesOpening_setPhase) (simp_all add: phaseOf_def)
  ultimately have "leavesOpening s (setPhase t (AwaitMissing listed projected refs) (removeRecord ref s))"
    by (rule leavesOpening_trans)
  then show ?case using 2(1) [OF _ 2(3,4)] 2(2) [OF _ _ 2(3,4)] by (simp split: option.split)
qed (simp add: leavesOpening_setPhase)

lemma leavesOpening_listReturns: "t < length (tc_tasks s) \<Longrightarrow> leavesOpening s (listReturns t reply s)"
proof (cases "fixedPhase (phaseOf s t)")
  case True
  then show ?thesis by (cases "tk_phase (tc_tasks s ! t)") (auto simp: listReturns_def Let_def fixedPhase_def phaseOf_def)
next
  case False
  assume t: "t < length (tc_tasks s)"
  show ?thesis
    using leavesOpening_listRecords [OF t False] leavesOpening_setPhase [OF False]
    by (auto simp: listReturns_def Let_def split: terminal_phase.split option.split js_value.split)
qed

lemma leavesOpening_operation:
  "leavesOpening s (operationTurn t now s)" "leavesOpening s (operationReturns t reply now s)"
proof -
  have f: "\<not> fixedPhase (AwaitTurn ref p)" "\<not> fixedPhase (AwaitOperation ref)" "\<not> fixedPhase (AwaitCloseAudit ref v)" for ref p v
    by (simp_all add: fixedPhase_def)
  have set: "leavesOpening s (setPhase t phase x)"
    if "sameQueue s x" "\<not> fixedPhase (tk_phase (tc_tasks s ! t))" "\<not> openPhase phase" for phase x
  proof (rule leavesOpening_trans)
    show "leavesOpening s x" using that(1) by (intro leavesOpening_same) (simp_all add: sameQueue_def)
    show "leavesOpening x (setPhase t phase x)" using that by (intro leavesOpening_setPhase) (simp_all add: sameQueue_def phaseOf_def)
  qed
  have q: "sameQueue s (removeRecord ref s)" "sameQueue s (attach ref c s)" for ref c
    by (simp_all add: sameQueue_def) (simp add: attach_def Let_def split: option.split)
  show "leavesOpening s (operationTurn t now s)"
    using set f by (auto simp: operationTurn_def Let_def split: terminal_phase.split sum.split)
  show "leavesOpening s (operationReturns t reply now s)"
    using set [OF sameQueue_refl] set [OF q(1)] set [OF q(2)] f
    by (auto simp: operationReturns_def attachReplies_def Let_def split: terminal_phase.split option.split js_value.split sum.split)
qed

text \<open>Answers a request does not wait for are ignored.\<close>

lemma ignored_answer:
  "\<not> openPhase (phaseOf s u) \<Longrightarrow> openReturns u reply now s = s"
  "\<not> openPhase (phaseOf s u) \<Longrightarrow> attachReturns u reply s = s"
  "\<not> openPhase (phaseOf s u) \<Longrightarrow> auditReturns u recorded now s = s"
  "\<not> openPhase (phaseOf s u) \<Longrightarrow> cleanupReturns u s = s"
  by (cases "tk_phase (tc_tasks s ! u)"; simp add: phaseOf_def openReturns_def attachReturns_def auditReturns_def cleanupReturns_def Let_def)+

text \<open>A step answers a request that opens a terminal, or leaves all of them alone.\<close>

lemma step_opening:
  assumes ok: "terminalsOk s"
  shows "leavesOpening s (terminalStep e s)
    \<or> (\<exists>u < length (tc_tasks s). openPhase (phaseOf s u) \<and> answered u s (terminalStep e s))"
proof -
  have opens: "openingOk s" using ok by (simp add: terminalsOk_def)
  have same: "leavesOpening s x" if "sameQueue s x" for x
    using that by (intro leavesOpening_same) (simp_all add: sameQueue_def)
  have answer: "leavesOpening s x \<or> (\<exists>u < length (tc_tasks s). openPhase (phaseOf s u) \<and> answered u s x)"
    if "u < length (tc_tasks s)" "\<not> openPhase (phaseOf s u) \<Longrightarrow> x = s" "answered u s x" for u x
    using that by (cases "openPhase (phaseOf s u)") auto
  show ?thesis
  proof (cases e)
    case (ProfileReturns u reply)
    then show ?thesis using answer [OF _ _ profileReturns_answered, of u reply] by (auto simp: phaseOf_def)
  next
    case (OpenReturns u reply now)
    then show ?thesis using answer [OF _ ignored_answer(1) openReturns_answered, of u] by simp
  next
    case (AttachReturns u reply)
    then show ?thesis using answer [OF _ ignored_answer(2) attachReturns_answered, of u] by simp
  next
    case (AuditReturns u recorded now)
    then show ?thesis using answer [OF _ ignored_answer(3) auditReturns_answered [OF opens], of u] by simp
  next
    case (CleanupReturns u)
    then show ?thesis using answer [OF _ ignored_answer(4) cleanupReturns_answered, of u] by simp
  next
    case (ReleaseConnection c)
    have "sameQueue x (fold (\<lambda>ref. changeRecord ref releaseRecord) refs x)" for refs x
      by (induction refs arbitrary: x) (simp_all add: sameQueue_def)
    then have "sameQueue s (releaseConnection c s)" by (simp add: releaseConnection_def sameQueue_def)
    then show ?thesis using ReleaseConnection same by simp
  next
    case GatewayDisconnects
    have "leavesOpening s (handleGatewayDisconnect s)"
      by (simp add: leavesOpening_def handleGatewayDisconnect_def agentEpochOf_def onlyPhase_def)
    then show ?thesis using GatewayDisconnects by simp
  next
    case (ListReturns u reply) then show ?thesis using leavesOpening_listReturns by simp
  next
    case (OperationTurn u now) then show ?thesis using leavesOpening_operation by simp
  next
    case (OperationReturns u reply now) then show ?thesis using leavesOpening_operation by simp
  next
    case (Request access c connected m r now) then show ?thesis using leavesOpening_startRequest by simp
  next
    case (CloseForAgent a) then show ?thesis using leavesOpening_closeForAgent by simp
  qed (auto intro!: same simp: sameQueue_def refreshConnection_def subscribeConnectionEvents_def unsubscribe_def Let_def
      filterConnectionEvent_def connectionExpires_def reaperFires_def split: option.split)
qed

lemma doomed_leaves:
  assumes l: "leavesOpening s s'" and d: "doomed t s"
  shows "doomed t s'"
proof -
  have t: "t < length (tc_tasks s)" "fixedPhase (tk_phase (tc_tasks s ! t))" using d by (auto simp: doomed_def fixedPhase_def phaseOf_def)
  then have task: "tc_tasks s' ! t = tc_tasks s ! t" using l onlyPhase_keeps(3) unfolding leavesOpening_def by blast
  have e: "tc_gatewayEpoch s \<le> tc_gatewayEpoch s'" "agentEpochOf a s \<le> agentEpochOf a s'" for a
    using l unfolding leavesOpening_def by blast+
  have same: "phaseOf s' t = phaseOf s t" "agentOf s' t = agentOf s t" using task by (simp_all add: phaseOf_def agentOf_def accessOf_def)
  have "outdated s' t" if "outdated s t"
    using that e(1) e(2) [of "agentOf s t"] unfolding outdated_def task same(2) by linarith
  moreover have "t < length (tc_tasks s')" using l t(1) unfolding leavesOpening_def by simp
  ultimately show ?thesis using d same by (auto simp: doomed_def)
qed

lemma doomed_step:
  assumes ok: "terminalsOk s" and d: "doomed t s"
  shows "doomed t (terminalStep e s)"
proof -
  have "pendingOk (terminalStep e s)" using terminalsOk_step [OF ok] by (simp add: terminalsOk_def)
  then show ?thesis using step_opening [OF ok, of e] doomed_leaves [OF _ d] doomed_answered [OF _ _ _ _ d] by blast
qed

text \<open>The epochs of every request in progress are current or past.\<close>

definition epochsOk :: "terminals \<Rightarrow> bool" where
  "epochsOk s \<longleftrightarrow> (\<forall>t < length (tc_tasks s). openPhase (phaseOf s t) \<longrightarrow> epochsTaken s t)"

lemma epochsOk_leaves:
  assumes ok: "epochsOk s" and l: "leavesOpening s s'"
  shows "epochsOk s'"
  unfolding epochsOk_def
proof (intro allI impI)
  fix t assume t: "t < length (tc_tasks s')" "openPhase (phaseOf s' t)"
  show "epochsTaken s' t"
  proof (cases "t < length (tc_tasks s)")
    case True
    then have o: "onlyPhase (tc_tasks s ! t) (tc_tasks s' ! t)" using l unfolding leavesOpening_def by blast
    then have "epochsTaken s t" using ok True t(2) onlyPhase_keeps(2) unfolding epochsOk_def phaseOf_def by blast
    then show ?thesis using epochsTaken_later [OF _ o] l unfolding leavesOpening_def by blast
  qed (use l t in \<open>simp add: leavesOpening_def\<close>)
qed

lemma epochsOk_answered:
  assumes ok: "epochsOk s" and p: "pendingOk s'" and a: "answered u s s'" and u: "u < length (tc_tasks s)" "openPhase (phaseOf s u)"
  shows "epochsOk s'"
  unfolding epochsOk_def
proof (intro allI impI)
  obtain x where x: "tc_tasks x = tc_tasks s" "tc_agentEpochs x = tc_agentEpochs s" "tc_gatewayEpoch x = tc_gatewayEpoch s"
    and s': "s' = x \<or> (\<exists>phase. openPhase phase \<and> s' = setPhase u phase x) \<or> (\<exists>out. s' = finishOpen u out x)"
    using a unfolding answered_def sameQueue_def by blast
  have frame: "phaseOf x = phaseOf s" "accessOf x = accessOf s" "agentOf x = agentOf s"
    using x by (simp_all add: phaseOf_def [abs_def] accessOf_def [abs_def] agentOf_def [abs_def])
  fix t assume t: "t < length (tc_tasks s')" "openPhase (phaseOf s' t)"
  have l: "t < length (tc_tasks s)" using t(1) s' x by auto
  have keeps: "accessOf s' t = accessOf s t \<and> tk_gatewayEpoch (tc_tasks s' ! t) = tk_gatewayEpoch (tc_tasks s ! t)
      \<and> tk_agentEpoch (tc_tasks s' ! t) = tk_agentEpoch (tc_tasks s ! t) \<and> tc_gatewayEpoch s' = tc_gatewayEpoch s"
    using s' x frame by (auto simp: setPhase_task finishOpen_tasks)
  then have agent: "agentOf s' t = agentOf s t" by (simp add: agentOf_def)
  have open_: "openPhase (phaseOf s t)"
    using s' t(2) u x by (cases "t = u") (auto simp: frame phaseOf_setPhase phaseOf_finishOpen)
  have epoch: "agentEpochOf (agentOf s t) s' = agentEpochOf (agentOf s t) s"
  proof -
    have "agentEpochOf (agentOf s t) x = agentEpochOf (agentOf s t) s" using x by (simp add: agentEpochOf_def)
    moreover have "agentEpochOf (agentOf s t) s' = agentEpochOf (agentOf s t) x"
      using s' finishOpen_epoch [of u _ x t] p l t(2) x frame by (auto simp: agentEpochOf_def)
    ultimately show ?thesis by simp
  qed
  show "epochsTaken s' t" using ok l open_ keeps agent epoch unfolding epochsOk_def epochsTaken_def by simp
qed

lemma epochsOk_step: "terminalsOk s \<Longrightarrow> epochsOk s \<Longrightarrow> epochsOk (terminalStep e s)"
proof -
  assume ok: "terminalsOk s" and epochs: "epochsOk s"
  have "pendingOk (terminalStep e s)" using terminalsOk_step [OF ok] by (simp add: terminalsOk_def)
  then show ?thesis using step_opening [OF ok, of e] epochsOk_leaves [OF epochs] epochsOk_answered [OF epochs] by blast
qed

lemma reachable_epochsOk: "terminal_reachable s \<Longrightarrow> epochsOk s"
proof (induction rule: terminal_reachable.induct)
  case start
  show ?case by (simp add: epochsOk_def emptyTerminals_def)
qed (simp add: epochsOk_step reachable_terminalsOk)

lemma runTerminals_reachable: "terminal_reachable s \<Longrightarrow> terminal_reachable (runTerminals es s)"
  unfolding runTerminals_def by (induction es arbitrary: s) (auto intro: terminal_reachable.step)

lemma runTerminals_doomed: "terminal_reachable s \<Longrightarrow> doomed t s \<Longrightarrow> doomed t (runTerminals es s)"
  unfolding runTerminals_def
  by (induction es arbitrary: s) (auto intro: terminal_reachable.step doomed_step reachable_terminalsOk)

lemma closeRecords_gone:
  assumes "mapsOk s" and "mapGet (tc_bySession (closeRecords sel s)) sid = Some ref"
  shows "\<not> sel (recordAt s ref)"
proof -
  have fold: "mapGet (tc_bySession (fold closeRecord refs s)) sid = Some ref \<Longrightarrow>
      ref \<notin> set refs \<and> mapGet (tc_bySession s) sid = Some ref" if "mapsOk s" for refs s
    using that
  proof (induction refs arbitrary: s)
    case (Cons i refs)
    have m: "mapsOk (closeRecord i s)" using Cons.prems(2) mapsOk_removeRecord by (simp add: closeRecord_def)
    have "ref \<notin> set refs" "mapGet (tc_bySession (closeRecord i s)) sid = Some ref"
      using Cons.IH [OF _ m] Cons.prems(1) by simp_all
    moreover have "ref \<noteq> i" using calculation(2) closeRecord_gone [OF Cons.prems(2)] by blast
    moreover have "mapGet (tc_bySession s) sid = Some ref"
      using calculation(2) by (simp add: closeRecord_def removeRecord_bySession split: if_splits)
    ultimately show ?case by simp
  qed simp
  have "ref \<notin> set (filter (\<lambda>ref. sel (recordAt s ref)) (mapValues (tc_bySession s)))" "mapGet (tc_bySession s) sid = Some ref"
    using fold [OF assms(1)] assms(2) unfolding closeRecords_def by blast+
  then show ?thesis using in_mapValuesI by fastforce
qed

section \<open>Properties\<close>

lemma ownedRefs_sessions:
  assumes "mapsOk s"
  shows "{sid. \<exists>ref. mapGet (tc_bySession s) sid = Some ref \<and> recordKey (recordAt s ref) = key}
    = (\<lambda>ref. tr_sessionId (recordAt s ref)) ` set (ownedRefs key s)" (is "?l = ?r")
proof
  show "?r \<subseteq> ?l" using ownedRefs_valid [OF assms] mapsOkD(3) [OF assms] by fastforce
  show "?l \<subseteq> ?r"
  proof
    fix sid assume "sid \<in> ?l"
    then obtain ref where ref: "mapGet (tc_bySession s) sid = Some ref" "recordKey (recordAt s ref) = key" by blast
    then have "owns s key sid ref" using mapsOkD(5) [OF assms] by blast
    then obtain m where "mapGet (tc_byOwner s) key = Some m" "mapGet m sid = Some ref" unfolding owns_def by blast
    then have "ref \<in> set (ownedRefs key s)" using in_mapValuesI by (simp add: ownedRefs_def)
    then show "sid \<in> ?r" using mapsOkD(3) [OF assms ref(1)] by (intro image_eqI [of _ _ ref]) simp_all
  qed
qed

lemma opening_pending:
  assumes ok: "terminalsOk s"
  shows "length (filter (\<lambda>ref. \<not> isOpen s ref) (ownedRefs key s)) \<le> pendingOf key s"
proof -
  have maps: "mapsOk s" using ok by (simp add: terminalsOk_def)
  let ?refs = "filter (\<lambda>ref. \<not> isOpen s ref) (ownedRefs key s)"
  let ?tasks = "{t. t < length (tc_tasks s) \<and> opensFor key (tc_tasks s ! t)}"
  have "set ?refs \<subseteq> (\<lambda>t. the (openRef (phaseOf s t))) ` ?tasks"
  proof
    fix ref assume ref: "ref \<in> set ?refs"
    then obtain sid where sid: "mapGet (tc_bySession s) sid = Some ref" "key = recordKey (recordAt s ref)"
      using ownedRefs_valid [OF maps] by auto
    have "tr_opening (recordAt s ref)" using ref by (simp add: isOpen_def)
    then obtain t where t: "t < length (tc_tasks s)" "openRef (phaseOf s t) = Some ref"
      using ok sid(1) unfolding terminalsOk_def openingOk_def by blast
    have "recordKey (recordAt s ref) = accessKey (accessOf s t)" using ok t unfolding terminalsOk_def openingOk_def by blast
    moreover have "openPhase (phaseOf s t)" using t(2) by (cases "phaseOf s t") auto
    ultimately have "t \<in> ?tasks" using t(1) sid(2) by (simp add: opensFor_def phaseOf_def accessOf_def)
    then show "ref \<in> (\<lambda>t. the (openRef (phaseOf s t))) ` ?tasks" using t(2) by (intro image_eqI [of _ _ t]) simp_all
  qed
  then have "card (set ?refs) \<le> card ?tasks" using surj_card_le [of ?tasks] by simp
  moreover have "card (set ?refs) = length ?refs" by (rule distinct_card [OF distinct_filter [OF distinct_ownedRefs [OF maps]]])
  moreover have "pendingOf key s = card ?tasks"
    using ok unfolding terminalsOk_def pendingOk_def by (simp add: length_filter_conv_card)
  ultimately show ?thesis by simp
qed

text \<open>
  C26. An owner (a user with an agent) never has more than eight personal VM terminals, the ones being opened
  included, in whatever order requests, answers of the gateway, timers and disconnections arrive: browsers that
  ask at the same time cannot get past the limit.
\<close>

theorem terminals_bounded:
  assumes "terminal_reachable s"
  shows "card {sid. \<exists>ref. mapGet (tc_bySession s) sid = Some ref \<and> recordKey (recordAt s ref) = key} \<le> MAX_PERSONAL_TERMINALS"
proof -
  note ok = reachable_terminalsOk [OF assms]
  have maps: "mapsOk s" using ok by (simp add: terminalsOk_def)
  have "card {sid. \<exists>ref. mapGet (tc_bySession s) sid = Some ref \<and> recordKey (recordAt s ref) = key} \<le> length (ownedRefs key s)"
    unfolding ownedRefs_sessions [OF maps] by (rule le_trans [OF card_image_le card_length]) simp
  also have "\<dots> = length (filter (isOpen s) (ownedRefs key s)) + length (filter (\<lambda>ref. \<not> isOpen s ref) (ownedRefs key s))"
    by (rule sum_length_filter_compl [symmetric])
  also have "\<dots> \<le> length (filter (isOpen s) (ownedRefs key s)) + pendingOf key s"
    using opening_pending [OF ok] by simp
  also have "\<dots> \<le> MAX_PERSONAL_TERMINALS" using ok unfolding terminalsOk_def capOk_def by blast
  finally show ?thesis .
qed

text \<open>
  C27. An operation on a terminal is sent to the gateway only for the user, agent, account and binding the
  terminal belongs to, while the terminal is still held, and, unless it attaches the terminal, over the
  connection it is attached to, which has not expired. At that moment no other operation on the terminal is in
  progress, and none that was requested before it is waiting.
\<close>

theorem operation_dispatched:
  assumes "terminal_reachable s" and "t < length (tc_tasks s)" and "phaseOf s t = AwaitTurn ref previous"
    and "phaseOf (terminalStep (OperationTurn t now) s) t = AwaitOperation ref"
  shows "entitled s t ref \<and> isCurrent ref s
    \<and> (tk_method (tc_tasks s ! t) \<noteq> ''terminal.attach'' \<longrightarrow>
         tr_attached (recordAt s ref) = Some (tk_connection (tc_tasks s ! t)))
    \<and> (\<exists>c. mapGet (tc_connections s) (tk_connection (tc_tasks s ! t)) = Some c \<and> now < cn_expiresAt c)
    \<and> (\<forall>u < length (tc_tasks s). phaseOf s u \<noteq> AwaitOperation ref)
    \<and> (\<forall>u < t. opRef (phaseOf s u) \<noteq> Some ref)"
proof -
  have q: "queuesOk s" using reachable_terminalsOk [OF assms(1)] by (simp add: terminalsOk_def)
  have p: "tk_phase (tc_tasks s ! t) = AwaitTurn ref previous" using assms(3) by (simp add: phaseOf_def)
  have set: "tk_phase (tc_tasks (setPhase t phase s) ! t) = phase" for phase
    using assms(2) by (simp add: setPhase_task)
  have turn: "settledOperation s previous" "isCurrent ref s"
    "tk_method (tc_tasks s ! t) \<noteq> ''terminal.attach'' \<longrightarrow> tr_attached (recordAt s ref) = Some (tk_connection (tc_tasks s ! t))"
    "\<exists>c. mapGet (tc_connections s) (tk_connection (tc_tasks s ! t)) = Some c \<and> now < cn_expiresAt c"
    using assms(2,4) p set
    by (auto simp: phaseOf_def operationTurn_def Let_def assertCurrentRecord_def assertConnection_def terminalRefused_def
        split: if_splits option.splits sum.splits)
  have first: "opRef (phaseOf s u) \<noteq> Some ref" if "u < t" for u
    using first_at_turn [OF q assms(2,3) turn(1) that] .
  have "phaseOf s u \<noteq> AwaitOperation ref" if "u < length (tc_tasks s)" for u
  proof
    assume u: "phaseOf s u = AwaitOperation ref"
    then have "u \<noteq> t" "opRef (phaseOf s u) = Some ref" using assms(3) by auto
    moreover have "\<not> u < t" using first calculation(2) by blast
    ultimately show False using first_in_turn [OF q that, of ref t] u assms(3) by simp
  qed
  moreover have "entitled s t ref" using q assms(2,3) unfolding queuesOk_def by simp
  ultimately show ?thesis using turn first by blast
qed

text \<open>
  C28. Revocation is final for the requests it meets: when the assignment of an agent ends, or the gateway
  disconnects, every request that is opening a terminal of the agent fails, whatever is answered to it later,
  and no terminal of the agent that was open is left.
\<close>

theorem revoked_open_fails:
  assumes "terminal_reachable s" and "t < length (tc_tasks s)" and "openPhase (phaseOf s t)"
    and "e = CloseForAgent (agentOf s t) \<or> e = GatewayDisconnects"
  shows "(\<forall>out. phaseOf (runTerminals es (terminalStep e s)) t = Returned out \<longrightarrow> (\<exists>err. out = Inl err))
    \<and> (\<forall>sid ref. mapGet (tc_bySession (terminalStep e s)) sid = Some ref \<longrightarrow> tr_agentId (recordAt s ref) \<noteq> agentOf s t)"
proof -
  note ok = reachable_terminalsOk [OF assms(1)]
  have maps: "mapsOk s" and pending: "pendingOk s" using ok by (simp_all add: terminalsOk_def)
  have taken: "epochsTaken s t" using reachable_epochsOk [OF assms(1)] assms(2,3) unfolding epochsOk_def by blast
  have "agentPending (agentOf s t) s"
  proof -
    obtain n where "mapGet (tc_pendingOwners s) (accessKey (accessOf s t)) = Some (Suc n)"
      using pendingOf_pos [OF pending assms(2,3)] ..
    then have "accessKey (accessOf s t) \<in> set (mapKeys (tc_pendingOwners s))" unfolding set_mapKeys by (rule domI)
    moreover have "suffix (nul # agentOf s t) (accessKey (accessOf s t))"
      by (simp add: accessKey_def ownerKey_def agentOf_def suffix_def)
    ultimately show ?thesis unfolding agentPending_def list_ex_iff by blast
  qed
  then have "doomed t (terminalStep e s)"
    using assms(2-4) taken
    by (auto simp: doomed_def outdated_def epochsTaken_def closeForAgent_def handleGatewayDisconnect_def phaseOf_def agentOf_def
        accessOf_def agentEpochOf_def)
  then have "doomed t (runTerminals es (terminalStep e s))"
    using runTerminals_doomed [OF terminal_reachable.step [OF assms(1)]] by blast
  moreover have "tr_agentId (recordAt s ref) \<noteq> agentOf s t" if r: "mapGet (tc_bySession (terminalStep e s)) sid = Some ref" for sid ref
    using assms(4)
  proof
    assume "e = CloseForAgent (agentOf s t)"
    moreover have "mapsOk (s\<lparr>tc_agentEpochs := x\<rparr>)" for x using maps mapsOk_frame [of "s\<lparr>tc_agentEpochs := x\<rparr>" s] by simp
    ultimately show ?thesis
      using r closeRecords_gone [of "s\<lparr>tc_agentEpochs := x\<rparr>" for x] closeRecords_gone [OF maps]
      by (fastforce simp: closeForAgent_def recordAt_def split: if_splits)
  qed (use r in \<open>simp add: handleGatewayDisconnect_def\<close>)
  ultimately show ?thesis by (auto simp: doomed_def)
qed

section \<open>A concrete run\<close>

text \<open>
  The member opens a terminal, types into it, and has asked for a second one when the assignment of the agent
  ends.
\<close>

definition vmAccess :: gateway_access where
  "vmAccess = \<lparr>ga_user = annMember, ga_session = Some annSession20, ga_binding = annActive,
     ga_mainSessionKey = ''agent:ann:main''\<rparr>"

definition vmProfile :: execution_profile where
  "vmProfile = \<lparr>ep_agentBindingId = ''binding-xx'', ep_activeTarget = AssignedVm, ep_activeAllocationId = Some ''vm1'',
     ep_targetRevision = 1, ep_updatedAt = 11\<rparr>"

definition vmOpened :: js_object where
  "vmOpened = [(''sessionId'', JStr ''t1''), (''agentId'', JStr ''ann''), (''confined'', JBool True)]"

definition vmAttached :: js_object where
  "vmAttached = vmOpened @ [(''buffer'', JStr ''$'')]"

definition openEvents :: "terminal_event list" where
  "openEvents = [Request vmAccess (Some ''c1'') True ''terminal.open'' [] 20, ProfileReturns 0 (Some (Some vmProfile)),
     OpenReturns 0 (Some (JObj vmOpened)) 21, AttachReturns 0 (Some (JObj vmAttached)), AuditReturns 0 True 22,
     Request vmAccess (Some ''c1'') True ''terminal.input'' [(''sessionId'', JStr ''t1''), (''data'', JStr ''ls'')] 23]"

definition vmTerminals :: terminals where
  "vmTerminals = runTerminals openEvents emptyTerminals"

lemma vmTerminals_reachable: "terminal_reachable vmTerminals"
  unfolding vmTerminals_def by (rule runTerminals_reachable [OF terminal_reachable.start])

lemma vm_opened: "phaseOf vmTerminals 0 = Returned (Inr (openResult vmOpened vmAttached))"
  by code_simp

theorem terminals_bounded_witness:
  "card {sid. \<exists>ref. mapGet (tc_bySession vmTerminals) sid = Some ref
     \<and> recordKey (recordAt vmTerminals ref) = ownerKey ''user-x'' ''ann''} \<le> 8"
  using terminals_bounded [OF vmTerminals_reachable] by (simp add: MAX_PERSONAL_TERMINALS_def)

lemma vm_input:
  "1 < length (tc_tasks vmTerminals)" "phaseOf vmTerminals 1 = AwaitTurn 0 None"
  "phaseOf (terminalStep (OperationTurn 1 24) vmTerminals) 1 = AwaitOperation 0"
  "tk_method (tc_tasks vmTerminals ! 1) = ''terminal.input''" "tk_connection (tc_tasks vmTerminals ! 1) = ''c1''"
  by code_simp+

theorem operation_dispatched_witness: "tr_attached (recordAt vmTerminals 0) = Some ''c1'' \<and> isCurrent 0 vmTerminals"
  using operation_dispatched [OF vmTerminals_reachable vm_input(1-3)] vm_input(4,5) by simp

definition vmOpening :: terminals where
  "vmOpening = runTerminals [Request vmAccess (Some ''c2'') True ''terminal.open'' [] 25, ProfileReturns 2 (Some (Some vmProfile))]
     vmTerminals"

lemma vm_opening: "2 < length (tc_tasks vmOpening)" "openPhase (phaseOf vmOpening 2)" "agentOf vmOpening 2 = ''ann''"
  by code_simp+

theorem revoked_open_fails_witness:
  "\<not> (\<exists>sid ref. mapGet (tc_bySession (terminalStep (CloseForAgent ''ann'') vmOpening)) sid = Some ref
          \<and> tr_agentId (recordAt vmOpening ref) = ''ann'')"
proof -
  have "terminal_reachable vmOpening"
    unfolding vmOpening_def by (rule runTerminals_reachable [OF vmTerminals_reachable])
  note fails = revoked_open_fails [OF this vm_opening(1,2), where e = "CloseForAgent ''ann''", unfolded vm_opening(3)]
  show ?thesis using conjunct2 [OF fails [OF disjI1 [OF refl]]] by blast
qed

end
