(* ===== verification/InteractiveOwnership.thy ===== *)
theory InteractiveOwnership
  imports GatewayRequest
begin

text \<open>
  Who may answer the questions, task suggestions and approvals of an agent
  (\<open>browser-gateway-interactive-ownership.ts\<close>): bounded registries that remember whom an id belongs to, the
  requests on them, and the events that are passed on to a browser.
\<close>

section \<open>Bindings\<close>

text \<open>\<open>ia_canAccess\<close> is \<open>canAccessSession\<close>, constantly true where the access has none.\<close>

record interactive_access =
  ia_agentId :: string
  ia_resolve :: "string \<Rightarrow> string option"
  ia_canAccess :: "string \<Rightarrow> bool \<Rightarrow> bool"

record interactive_owner =
  io_agentId :: string
  io_sessionKey :: "string option"

record approval_owner = interactive_owner +
  io_kind :: string
  io_decisions :: "string list"

record interactive =
  in_questions :: "(string, interactive_owner) jsmap"
  in_suggestions :: "(string, interactive_owner) jsmap"
  in_approvals :: "(string, approval_owner) jsmap"

definition noInteractive :: interactive where
  "noInteractive = \<lparr>in_questions = [], in_suggestions = [], in_approvals = []\<rparr>"

definition MAX_OWNERSHIP_BINDINGS :: nat where
  "MAX_OWNERSHIP_BINDINGS = 4096"

text \<open>The oldest entry is the first; an empty id would end the loop.\<close>

fun evictOldest :: "(string, 'a) jsmap \<Rightarrow> (string, 'a) jsmap" where
  "evictOldest [] = []"
| "evictOldest ((oldest, v) # rest) =
     (if length ((oldest, v) # rest) > MAX_OWNERSHIP_BINDINGS \<and> oldest \<noteq> [] then evictOldest rest
      else (oldest, v) # rest)"

definition bindBounded :: "(string, 'a) jsmap \<Rightarrow> string \<Rightarrow> 'a \<Rightarrow> (string, 'a) jsmap" where
  "bindBounded registry bindingId binding = evictOldest (mapSet (mapDelete registry bindingId) bindingId binding)"

section \<open>Bounded registries\<close>

definition registryOk :: "nat \<Rightarrow> ('k \<Rightarrow> bool) \<Rightarrow> ('v \<Rightarrow> bool) \<Rightarrow> ('k, 'v) jsmap \<Rightarrow> bool" where
  "registryOk cap validKey P m \<longleftrightarrow>
     distinct (mapKeys m) \<and> length m \<le> cap \<and> (\<forall>(k, v) \<in> set m. validKey k \<and> P v)"

lemma registryOk_Nil [simp]: "registryOk cap validKey P []"
  by (simp add: registryOk_def)

lemma registryOk_get: "registryOk cap validKey P m \<Longrightarrow> mapGet m k = Some v \<Longrightarrow> P v"
  unfolding registryOk_def by (blast dest: map_of_SomeD)

lemma registryOk_mono: "registryOk cap validKey P m \<Longrightarrow> (\<And>v. P v \<Longrightarrow> Q v) \<Longrightarrow> registryOk cap validKey Q m"
  unfolding registryOk_def by blast

text \<open>What a client of a bounded registry relies on: entries are only ever pushed out, never the newest.\<close>

locale bounded_registry =
  fixes put :: "('k, 'v) jsmap \<Rightarrow> 'k \<Rightarrow> 'v \<Rightarrow> ('k, 'v) jsmap"
    and cap :: nat
    and validKey :: "'k \<Rightarrow> bool"
  assumes put_distinct: "distinct (mapKeys m) \<Longrightarrow> distinct (mapKeys (put m k v))"
    and put_set: "set (put m k v) \<subseteq> insert (k, v) (set m)"
    and put_length:
      "distinct (mapKeys m) \<Longrightarrow> length m \<le> cap \<Longrightarrow> \<forall>e \<in> set m. validKey (fst e) \<Longrightarrow> validKey k \<Longrightarrow>
       length (put m k v) \<le> cap"
    and put_get: "distinct (mapKeys m) \<Longrightarrow> length m \<le> cap \<Longrightarrow> mapGet (put m k v) k = Some v"
begin

lemma put_ok:
  assumes "registryOk cap validKey P m" "validKey k" "P v"
  shows "registryOk cap validKey P (put m k v)"
proof -
  have "\<forall>e \<in> set m. validKey (fst e)" using assms(1) by (auto simp: registryOk_def)
  with assms show ?thesis
    using put_distinct [of m k v] put_length [of m k v] put_set [of m k v]
    unfolding registryOk_def by fast
qed

lemma put_found: "registryOk cap validKey P m \<Longrightarrow> mapGet (put m k v) k = Some v"
  by (rule put_get) (simp_all add: registryOk_def)

end

lemma evictOldest_suffix: "\<exists>gone. m = gone @ evictOldest m"
proof (induction m rule: evictOldest.induct)
  case (2 oldest v rest)
  show ?case
  proof (cases "length ((oldest, v) # rest) > MAX_OWNERSHIP_BINDINGS \<and> oldest \<noteq> []")
    case True
    then obtain gone where "rest = gone @ evictOldest rest" using 2 by blast
    then show ?thesis using True by (metis append_Cons evictOldest.simps(2))
  next
    case False
    then have "evictOldest ((oldest, v) # rest) = (oldest, v) # rest" by (subst evictOldest.simps) (simp only: if_False)
    then show ?thesis by simp
  qed
qed simp

lemma evictOldest_set: "set (evictOldest m) \<subseteq> set m"
  using evictOldest_suffix [of m] by (metis Un_upper2 set_append)

lemma evictOldest_distinct: "distinct (mapKeys m) \<Longrightarrow> distinct (mapKeys (evictOldest m))"
  using evictOldest_suffix [of m] by (metis distinct_append map_append)

lemma evictOldest_length:
  "\<forall>e \<in> set m. fst e \<noteq> [] \<Longrightarrow> length (evictOldest m) \<le> MAX_OWNERSHIP_BINDINGS"
  by (induction m rule: evictOldest.induct) auto

lemma evictOldest_small: "length m \<le> MAX_OWNERSHIP_BINDINGS \<Longrightarrow> evictOldest m = m"
  by (induction m rule: evictOldest.induct) auto

lemma bindBounded_put: "bindBounded m k v = evictOldest (mapDelete m k @ [(k, v)])"
  by (simp add: bindBounded_def mapSet_fresh)

lemma mapDelete_set: "set (mapDelete m k) \<subseteq> set m"
  by (induction m) auto

lemma bindBounded_get:
  assumes "distinct (mapKeys m)" "length m \<le> MAX_OWNERSHIP_BINDINGS"
  shows "mapGet (bindBounded m k v) k = Some v"
proof -
  have "\<exists>rest. bindBounded m k v = rest @ [(k, v)] \<and> set rest \<subseteq> set (mapDelete m k)"
  proof (cases "mapDelete m k")
    case Nil
    then show ?thesis by (simp add: bindBounded_put evictOldest_small MAX_OWNERSHIP_BINDINGS_def)
  next
    case (Cons e rest)
    then have "length (rest @ [(k, v)]) \<le> MAX_OWNERSHIP_BINDINGS"
      using length_delete_le [of k m] assms(2) by simp
    then show ?thesis using Cons by (cases e) (auto simp: bindBounded_put evictOldest_small)
  qed
  then obtain rest where rest: "bindBounded m k v = rest @ [(k, v)]" "set rest \<subseteq> set (mapDelete m k)" by blast
  have "mapGet rest k = None" using rest(2) delete_notin_dom [of k m] by (auto simp: map_of_eq_None_iff)
  with rest(1) show ?thesis by (simp add: map_add_def)
qed

interpretation owners: bounded_registry bindBounded MAX_OWNERSHIP_BINDINGS "\<lambda>k. k \<noteq> []"
proof unfold_locales
  fix m :: "(string, 'a) jsmap" and k :: string and v :: 'a
  have present: "set (mapDelete m k) \<subseteq> set m" by (rule mapDelete_set)
  show "set (bindBounded m k v) \<subseteq> insert (k, v) (set m)"
    using evictOldest_set [of "mapDelete m k @ [(k, v)]"] present by (auto simp: bindBounded_put)
  show "distinct (mapKeys (bindBounded m k v))" if "distinct (mapKeys m)"
    using that by (simp add: bindBounded_def evictOldest_distinct)
  show "length (bindBounded m k v) \<le> MAX_OWNERSHIP_BINDINGS" if "\<forall>e \<in> set m. fst e \<noteq> []" "k \<noteq> []"
    unfolding bindBounded_put by (rule evictOldest_length) (use that present in auto)
qed (rule bindBounded_get)

section \<open>Owners\<close>

text \<open>\<open>!sessionAgentId\<close> also holds of an empty id.\<close>

definition resolvedAgent :: "interactive_access \<Rightarrow> string \<Rightarrow> string option" where
  "resolvedAgent access key = (if ia_resolve access key = Some [] then None else ia_resolve access key)"

definition ownerFromRecord :: "interactive_access \<Rightarrow> js_object \<Rightarrow> interactive_owner option" where
  "ownerFromRecord access obj =
     (let declaredAgentId = optionalString (fieldOf obj ''agentId'');
          sessionKey = optionalString (fieldOf obj ''sessionKey'');
          sessionAgentId = Option.bind sessionKey (resolvedAgent access)
      in if sessionKey \<noteq> None \<and> sessionAgentId = None then None
         else if declaredAgentId \<noteq> None \<and> sessionAgentId \<noteq> None \<and> declaredAgentId \<noteq> sessionAgentId then None
         else
           case (if declaredAgentId \<noteq> None then declaredAgentId else sessionAgentId) of
             None \<Rightarrow> None
           | Some agentId \<Rightarrow> Some \<lparr>io_agentId = agentId, io_sessionKey = sessionKey\<rparr>)"

definition bindingBelongsToAccess :: "interactive_access \<Rightarrow> 'a interactive_owner_scheme \<Rightarrow> bool" where
  "bindingBelongsToAccess access binding \<longleftrightarrow>
     io_agentId binding = ia_agentId access
     \<and> (case io_sessionKey binding of
          None \<Rightarrow> True
        | Some key \<Rightarrow> ia_resolve access key = Some (ia_agentId access) \<and> ia_canAccess access key True)"

text \<open>Decisions that outlive the session are taken out; an approval without any decision left is withheld.\<close>

definition sessionDecisions :: "js_value list \<Rightarrow> js_value list" where
  "sessionDecisions decisions = filter (\<lambda>d. d \<in> {JStr ''allow-once'', JStr ''deny''}) decisions"

definition projectSessionApproval :: "js_object \<Rightarrow> js_object option" where
  "projectSessionApproval approval =
     (case fieldOf approval ''presentation'' of
        JObj presentation \<Rightarrow>
          (case fieldOf presentation ''allowedDecisions'' of
             JArr decisions \<Rightarrow>
               let allowed = sessionDecisions decisions in
               if allowed = [] then None
               else Some (mapSet approval ''presentation'' (JObj (mapSet presentation ''allowedDecisions'' (JArr allowed))))
           | _ \<Rightarrow> None)
      | _ \<Rightarrow> None)"

definition bindQuestion :: "interactive_access \<Rightarrow> js_object \<Rightarrow> interactive \<Rightarrow> bool \<times> interactive" where
  "bindQuestion access obj s =
     (case (optionalString (fieldOf obj ''id''), ownerFromRecord access obj) of
        (Some questionId, Some owner) \<Rightarrow>
          if \<not> bindingBelongsToAccess access owner then (False, s)
          else (True, s\<lparr>in_questions := bindBounded (in_questions s) questionId owner\<rparr>)
      | _ \<Rightarrow> (False, s))"

definition bindTaskSuggestion :: "interactive_access \<Rightarrow> js_object \<Rightarrow> interactive \<Rightarrow> bool \<times> interactive" where
  "bindTaskSuggestion access obj s =
     (case (optionalString (fieldOf obj ''id''), ownerFromRecord access obj) of
        (Some taskId, Some owner) \<Rightarrow>
          if io_sessionKey owner = None \<or> \<not> bindingBelongsToAccess access owner then (False, s)
          else (True, s\<lparr>in_suggestions := bindBounded (in_suggestions s) taskId owner\<rparr>)
      | _ \<Rightarrow> (False, s))"

definition approvalDecisions :: "js_value \<Rightarrow> string list" where
  "approvalDecisions presentation =
     (case memberOf presentation ''allowedDecisions'' of
        JArr decisions \<Rightarrow> jsUnique (List.map_filter optionalString decisions)
      | _ \<Rightarrow> [])"

definition bindApproval ::
    "interactive_access \<Rightarrow> string \<Rightarrow> js_object \<Rightarrow> interactive \<Rightarrow> bool \<times> interactive" where
  "bindApproval access sessionKey approval s =
     (let presentation = fieldOf approval ''presentation'';
          presentationAgentId = optionalString (memberOf presentation ''agentId'');
          allowedDecisions = approvalDecisions presentation
      in case (optionalString (fieldOf approval ''id''), optionalString (memberOf presentation ''kind'')) of
           (Some approvalId, Some kind) \<Rightarrow>
             if allowedDecisions = [] \<or> ia_resolve access sessionKey \<noteq> Some (ia_agentId access)
                \<or> \<not> ia_canAccess access sessionKey True
                \<or> (presentationAgentId \<noteq> None \<and> presentationAgentId \<noteq> Some (ia_agentId access))
             then (False, s)
             else (True, s\<lparr>in_approvals := bindBounded (in_approvals s) approvalId
                    \<lparr>io_agentId = ia_agentId access, io_sessionKey = Some sessionKey, io_kind = kind,
                     io_decisions = allowedDecisions\<rparr>\<rparr>)
         | _ \<Rightarrow> (False, s))"

definition bindSessionApproval :: "interactive_access \<Rightarrow> js_object \<Rightarrow> interactive \<Rightarrow> bool \<times> interactive" where
  "bindSessionApproval access payload s =
     (case (optionalString (fieldOf payload ''sessionKey''), asRecord (fieldOf payload ''approval'')) of
        (Some sessionKey, Some approval) \<Rightarrow>
          if ia_resolve access sessionKey \<noteq> Some (ia_agentId access) then (False, s)
          else bindApproval access sessionKey approval s
      | _ \<Rightarrow> (False, s))"

section \<open>Events\<close>

datatype event_verdict = NotInteractive | Withheld | PassedOn js_value

definition boundEventBelongsToAccess ::
    "interactive_access \<Rightarrow> js_value \<Rightarrow> (string, interactive_owner) jsmap \<Rightarrow> bool" where
  "boundEventBelongsToAccess access eventId registry \<longleftrightarrow>
     (case Option.bind (optionalString eventId) (mapGet registry) of
        None \<Rightarrow> False | Some binding \<Rightarrow> bindingBelongsToAccess access binding)"

definition passIf :: "bool \<times> interactive \<Rightarrow> js_value \<Rightarrow> event_verdict \<times> interactive" where
  "passIf bound payload = (if fst bound then PassedOn payload else Withheld, snd bound)"

definition filterApprovalEvent :: "interactive_access \<Rightarrow> js_value \<Rightarrow> interactive \<Rightarrow> event_verdict \<times> interactive" where
  "filterApprovalEvent access payload s =
     (case Option.bind (asRecord (memberOf payload ''approval'')) projectSessionApproval of
        None \<Rightarrow> (Withheld, s)
      | Some projected \<Rightarrow>
          (case payload of
             JObj obj \<Rightarrow>
               let projectedPayload = mapSet obj ''approval'' (JObj projected)
               in passIf (bindSessionApproval access projectedPayload s) (JObj projectedPayload)
           | _ \<Rightarrow> (Withheld, s)))"

definition filterEvent :: "interactive_access \<Rightarrow> string \<Rightarrow> js_value \<Rightarrow> interactive \<Rightarrow> event_verdict \<times> interactive" where
  "filterEvent access event payload s =
     (if event = ''question.requested'' then
        (case payload of JObj obj \<Rightarrow> passIf (bindQuestion access obj s) payload | _ \<Rightarrow> (Withheld, s))
      else if event = ''question.resolved'' then
        passIf (boundEventBelongsToAccess access (memberOf payload ''id'') (in_questions s), s) payload
      else if event = ''task.suggestion'' then
        (case payload of
           JObj obj \<Rightarrow>
             if fieldOf obj ''action'' = JStr ''created'' then
               (case fieldOf obj ''suggestion'' of
                  JObj suggestion \<Rightarrow> passIf (bindTaskSuggestion access suggestion s) payload
                | _ \<Rightarrow> (Withheld, s))
             else if fieldOf obj ''action'' = JStr ''resolved'' then
               passIf (boundEventBelongsToAccess access (fieldOf obj ''taskId'') (in_suggestions s), s) payload
             else (Withheld, s)
         | _ \<Rightarrow> (Withheld, s))
      else if event = ''session.approval'' then filterApprovalEvent access payload s
      else (NotInteractive, s))"

section \<open>Replies of the gateway\<close>

fun bindEach ::
    "(js_object \<Rightarrow> interactive \<Rightarrow> bool \<times> interactive) \<Rightarrow> string \<Rightarrow> js_value list \<Rightarrow> interactive
     \<Rightarrow> (gateway_error + js_value list) \<times> interactive" where
  "bindEach bind message [] s = (Inr [], s)"
| "bindEach bind message (value # rest) s =
     (case asRecord value of
        None \<Rightarrow> (refuse UpstreamResultDenied message, s)
      | Some obj \<Rightarrow>
          if optionalString (fieldOf obj ''id'') = None then (refuse UpstreamResultDenied message, s)
          else
            let (bound, s1) = bind obj s
            in andThen (bindEach bind message rest s1)
                 (\<lambda>kept s2. (Inr (if bound then value # kept else kept), s2)))"

definition projectQuestionList ::
    "interactive_access \<Rightarrow> js_value \<Rightarrow> interactive \<Rightarrow> (gateway_error + js_value) \<times> interactive" where
  "projectQuestionList access value s =
     (case memberOf value ''questions'' of
        JArr questions \<Rightarrow>
          andThen (bindEach (bindQuestion access) ''Gateway returned an invalid question record'' questions s)
            (\<lambda>kept s1. (Inr (JObj [(''questions'', JArr kept)]), s1))
      | _ \<Rightarrow> (refuse UpstreamResultDenied ''Gateway returned an invalid question list'', s))"

definition projectQuestionGet ::
    "interactive_access \<Rightarrow> js_value \<Rightarrow> interactive \<Rightarrow> (gateway_error + js_value) \<times> interactive" where
  "projectQuestionGet access value s =
     (case asRecord (memberOf value ''question'') of
        None \<Rightarrow> (refuse CrossAgentDenied ''question is not owned by browser agent'', s)
      | Some question \<Rightarrow>
          let (bound, s1) = bindQuestion access question s
          in if bound then (Inr (JObj [(''question'', JObj question)]), s1)
             else (refuse CrossAgentDenied ''question is not owned by browser agent'', s1))"

definition projectTaskSuggestionList ::
    "interactive_access \<Rightarrow> js_value \<Rightarrow> interactive \<Rightarrow> (gateway_error + js_value list) \<times> interactive" where
  "projectTaskSuggestionList access value s =
     (case memberOf value ''suggestions'' of
        JArr suggestions \<Rightarrow>
          bindEach (bindTaskSuggestion access) ''Gateway returned an invalid task suggestion'' suggestions s
      | _ \<Rightarrow> (refuse UpstreamResultDenied ''Gateway returned an invalid task suggestion list'', s))"

fun bindApprovals ::
    "interactive_access \<Rightarrow> string \<Rightarrow> js_value list \<Rightarrow> interactive \<Rightarrow> js_value list \<times> interactive" where
  "bindApprovals access sessionKey [] s = ([], s)"
| "bindApprovals access sessionKey (value # rest) s =
     (case Option.bind (asRecord value) projectSessionApproval of
        None \<Rightarrow> bindApprovals access sessionKey rest s
      | Some projected \<Rightarrow>
          let (bound, s1) = bindApproval access sessionKey projected s;
              (kept, s2) = bindApprovals access sessionKey rest s1
          in (if bound then JObj projected # kept else kept, s2))"

definition projectApprovalReplay ::
    "interactive_access \<Rightarrow> js_value \<Rightarrow> interactive \<Rightarrow> (gateway_error + js_value) \<times> interactive" where
  "projectApprovalReplay access value s =
     (case (asRecord value, optionalString (memberOf value ''sessionKey'')) of
        (Some replay, Some sessionKey) \<Rightarrow>
          if ia_resolve access sessionKey \<noteq> Some (ia_agentId access) \<or> \<not> ia_canAccess access sessionKey True
          then (refuse UpstreamResultDenied ''Gateway returned a foreign approval replay'', s)
          else
            (case fieldOf replay ''approvals'' of
               JArr approvals \<Rightarrow>
                 let (kept, s1) = bindApprovals access sessionKey approvals s
                 in (Inr (JObj (mapSet replay ''approvals'' (JArr kept))), s1)
             | _ \<Rightarrow> (refuse UpstreamResultDenied ''Gateway returned an invalid approval replay'', s))
      | _ \<Rightarrow> (refuse UpstreamResultDenied ''Gateway returned a foreign approval replay'', s))"

section \<open>Interleaved activity\<close>

text \<open>
  The code that changes the registries between two awaits, whichever browser it runs for. The registries
  that can occur are those of \<open>runActivities\<close> from the empty ones.
\<close>

datatype interactive_activity =
    EventArrives interactive_access string js_value
  | QuestionsListed interactive_access js_value
  | QuestionRead interactive_access js_value
  | SuggestionsListed interactive_access js_value
  | ApprovalsReplayed interactive_access js_value

primrec runActivity :: "interactive_activity \<Rightarrow> interactive \<Rightarrow> interactive" where
  "runActivity (EventArrives access event payload) s = snd (filterEvent access event payload s)"
| "runActivity (QuestionsListed access value) s = snd (projectQuestionList access value s)"
| "runActivity (QuestionRead access value) s = snd (projectQuestionGet access value s)"
| "runActivity (SuggestionsListed access value) s = snd (projectTaskSuggestionList access value s)"
| "runActivity (ApprovalsReplayed access value) s = snd (projectApprovalReplay access value s)"

definition runActivities :: "interactive_activity list \<Rightarrow> interactive \<Rightarrow> interactive" where
  "runActivities acts s = fold runActivity acts s"

section \<open>Requests\<close>

text \<open>
  A request awaits the gateway up to three times. \<open>gw_reply n\<close> is the answer to its \<open>n\<close>-th call
  (\<open>None\<close> when it rejects), \<open>gw_meanwhile n\<close> is what happens during that await, and
  \<open>gw_access n\<close> is what the browser's access answers after \<open>n\<close> awaits.
\<close>

record interactive_gateway =
  gw_reply :: "nat \<Rightarrow> string \<Rightarrow> js_object \<Rightarrow> js_value option"
  gw_meanwhile :: "nat \<Rightarrow> interactive_activity list"
  gw_access :: "nat \<Rightarrow> interactive_access"

datatype interactive_failure = RequestRefused gateway_error | GatewayRejected

record interactive_run =
  ir_owners :: interactive
  ir_sent :: "(string \<times> js_object) list"

definition accessNow :: "interactive_gateway \<Rightarrow> interactive_run \<Rightarrow> interactive_access" where
  "accessNow gw r = gw_access gw (length (ir_sent r))"

definition askGateway ::
    "interactive_gateway \<Rightarrow> string \<Rightarrow> js_object \<Rightarrow> interactive_run \<Rightarrow> (interactive_failure + js_value) \<times> interactive_run" where
  "askGateway gw method params r =
     (let n = length (ir_sent r)
      in (case gw_reply gw n method params of None \<Rightarrow> Inl GatewayRejected | Some reply \<Rightarrow> Inr reply,
          \<lparr>ir_owners = runActivities (gw_meanwhile gw n) (ir_owners r), ir_sent = ir_sent r @ [(method, params)]\<rparr>))"

definition refused :: "gateway_error + 'a \<Rightarrow> interactive_failure + 'a" where
  "refused result = map_sum RequestRefused id result"

definition onOwners ::
    "(interactive_access \<Rightarrow> interactive \<Rightarrow> (gateway_error + 'a) \<times> interactive) \<Rightarrow> interactive_gateway \<Rightarrow> interactive_run
     \<Rightarrow> (interactive_failure + 'a) \<times> interactive_run" where
  "onOwners f gw r =
     (let (out, owners) = f (accessNow gw r) (ir_owners r) in (refused out, r\<lparr>ir_owners := owners\<rparr>))"

definition requireInteractiveId :: "js_value \<Rightarrow> string \<Rightarrow> interactive_failure + string" where
  "requireInteractiveId value method =
     (case optionalString value of
        None \<Rightarrow> refused (refuse InvalidParams (method @ '' requires an id''))
      | Some requestedId \<Rightarrow> Inr requestedId)"

definition failWith ::
    "gateway_error_code \<Rightarrow> string \<Rightarrow> interactive_run \<Rightarrow> (interactive_failure + 'a) \<times> interactive_run" where
  "failWith code message r = (refused (refuse code message), r)"

definition ensureTaskSuggestionOwner ::
    "interactive_gateway \<Rightarrow> string \<Rightarrow> interactive_run \<Rightarrow> (interactive_failure + unit) \<times> interactive_run" where
  "ensureTaskSuggestionOwner gw taskId r =
     (if (case mapGet (in_suggestions (ir_owners r)) taskId of
            None \<Rightarrow> False | Some existing \<Rightarrow> bindingBelongsToAccess (accessNow gw r) existing)
      then (Inr (), r)
      else
        andThen (askGateway gw ''taskSuggestions.list'' [(''agentId'', JStr (ia_agentId (accessNow gw r)))] r)
          (\<lambda>value r1.
             andThen (onOwners (\<lambda>access. projectTaskSuggestionList access value) gw r1)
               (\<lambda>suggestions r2.
                  if \<exists>suggestion \<in> set suggestions. memberOf suggestion ''id'' = JStr taskId then (Inr (), r2)
                  else failWith CrossAgentDenied ''task suggestion is not owned by browser agent'' r2)))"

definition questionAnswer :: "string \<Rightarrow> js_object \<Rightarrow> interactive_failure + js_object" where
  "questionAnswer questionId params =
     (if fieldOf params ''cancel'' = JBool True then Inr [(''id'', JStr questionId), (''cancel'', JBool True)]
      else if asRecord (fieldOf params ''answers'') \<noteq> None
      then Inr [(''id'', JStr questionId), (''answers'', fieldOf params ''answers'')]
      else refused (refuse InvalidParams ''question.resolve requires answers or cancel=true''))"

definition requestQuestion ::
    "interactive_gateway \<Rightarrow> string \<Rightarrow> js_object \<Rightarrow> interactive_run \<Rightarrow> (interactive_failure + js_value) \<times> interactive_run" where
  "requestQuestion gw method params r =
     (if method = ''question.list'' then
        andThen (askGateway gw method [] r) (\<lambda>value. onOwners (\<lambda>access. projectQuestionList access value) gw)
      else
        orThrow (requireInteractiveId (fieldOf params ''id'') method) r (\<lambda>questionId.
          andThen (askGateway gw ''question.get'' [(''id'', JStr questionId)] r) (\<lambda>current r1.
            andThen (onOwners (\<lambda>access. projectQuestionGet access current) gw r1) (\<lambda>shown r2.
              if method = ''question.get'' then (Inr shown, r2)
              else
                orThrow (questionAnswer questionId params) r2 (\<lambda>answer.
                  andThen (askGateway gw method answer r2) (\<lambda>value r3.
                    andThen (onOwners (\<lambda>access. projectQuestionGet access current) gw r3)
                      (\<lambda>again r4. (Inr value, r4))))))))"

definition listSuggestions ::
    "interactive_gateway \<Rightarrow> js_object \<Rightarrow> interactive_run \<Rightarrow> (interactive_failure + js_value) \<times> interactive_run" where
  "listSuggestions gw params r =
     (let access = accessNow gw r; sessionKey = optionalString (fieldOf params ''sessionKey'')
      in if (case sessionKey of None \<Rightarrow> False | Some key \<Rightarrow> ia_resolve access key \<noteq> Some (ia_agentId access))
         then failWith CrossAgentDenied ''task suggestion session is not owned by browser agent'' r
         else
           andThen
             (askGateway gw ''taskSuggestions.list''
                ((''agentId'', JStr (ia_agentId access)) # optionalField ''sessionKey'' sessionKey) r)
             (\<lambda>value r1.
                andThen (onOwners (\<lambda>access. projectTaskSuggestionList access value) gw r1)
                  (\<lambda>suggestions r2. (Inr (JObj [(''suggestions'', JArr suggestions)]), r2))))"

definition dismissReason :: "string \<Rightarrow> js_value \<Rightarrow> js_object" where
  "dismissReason method reason =
     (case reason of
        JStr text \<Rightarrow> if method = ''taskSuggestions.dismiss'' then [(''reason'', JStr text)] else []
      | _ \<Rightarrow> [])"

definition settleSuggestion ::
    "interactive_gateway \<Rightarrow> string \<Rightarrow> js_object \<Rightarrow> interactive_run \<Rightarrow> (interactive_failure + js_value) \<times> interactive_run" where
  "settleSuggestion gw method params r =
     orThrow (requireInteractiveId (fieldOf params ''taskId'') method) r (\<lambda>taskId.
       andThen (ensureTaskSuggestionOwner gw taskId r) (\<lambda>_ r1.
         andThen (askGateway gw method ((''taskId'', JStr taskId) # dismissReason method (fieldOf params ''reason'')) r1)
           (\<lambda>value r2.
              if (case mapGet (in_suggestions (ir_owners r2)) taskId of
                    None \<Rightarrow> True | Some owner \<Rightarrow> \<not> bindingBelongsToAccess (accessNow gw r2) owner)
              then failWith CrossAgentDenied ''task suggestion is no longer owned by browser agent'' r2
              else if method = ''taskSuggestions.accept''
                \<and> (case optionalString (memberOf value ''key'') of
                     None \<Rightarrow> True
                   | Some key \<Rightarrow> ia_resolve (accessNow gw r2) key \<noteq> Some (ia_agentId (accessNow gw r2)))
              then failWith UpstreamResultDenied ''Gateway returned a foreign suggested-task session'' r2
              else (Inr value, r2))))"

definition ownedApproval :: "interactive_gateway \<Rightarrow> interactive_run \<Rightarrow> string \<Rightarrow> approval_owner option" where
  "ownedApproval gw r approvalId =
     (case mapGet (in_approvals (ir_owners r)) approvalId of
        None \<Rightarrow> None
      | Some binding \<Rightarrow> if bindingBelongsToAccess (accessNow gw r) binding then Some binding else None)"

definition getApproval ::
    "interactive_gateway \<Rightarrow> js_object \<Rightarrow> interactive_run \<Rightarrow> (interactive_failure + js_value) \<times> interactive_run" where
  "getApproval gw params r =
     orThrow (requireInteractiveId (fieldOf params ''id'') ''approval.get'') r (\<lambda>approvalId.
       case ownedApproval gw r approvalId of
         None \<Rightarrow> failWith CrossAgentDenied ''approval is not bound to the browser agent'' r
       | Some binding \<Rightarrow>
           andThen (askGateway gw ''approval.get'' [(''id'', JStr approvalId)] r) (\<lambda>value r1.
             case Option.bind (asRecord (memberOf value ''approval'')) projectSessionApproval of
               None \<Rightarrow> failWith UpstreamResultDenied ''Gateway returned a mismatched approval record'' r1
             | Some projected \<Rightarrow>
                 if optionalString (fieldOf projected ''id'') \<noteq> Some approvalId
                    \<or> optionalString (memberOf (fieldOf projected ''presentation'') ''kind'') \<noteq> Some (io_kind binding)
                    \<or> \<not> bindingBelongsToAccess (accessNow gw r1) binding
                 then failWith UpstreamResultDenied ''Gateway returned a mismatched approval record'' r1
                 else (Inr (JObj [(''approval'', JObj projected)]), r1)))"

definition resolvedApproval :: "js_value \<Rightarrow> js_value" where
  "resolvedApproval value =
     (case value of
        JObj result \<Rightarrow>
          (case Option.bind (asRecord (fieldOf result ''approval'')) projectSessionApproval of
             None \<Rightarrow> JObj result
           | Some projected \<Rightarrow> JObj (mapSet result ''approval'' (JObj projected)))
      | _ \<Rightarrow> JNull)"

definition resolveApproval ::
    "interactive_gateway \<Rightarrow> js_object \<Rightarrow> interactive_run \<Rightarrow> (interactive_failure + js_value) \<times> interactive_run" where
  "resolveApproval gw params r =
     orThrow (requireInteractiveId (fieldOf params ''id'') ''approval.resolve'') r (\<lambda>approvalId.
       case ownedApproval gw r approvalId of
         None \<Rightarrow> failWith CrossAgentDenied ''approval is not bound to the browser agent'' r
       | Some binding \<Rightarrow>
           (case (optionalString (fieldOf params ''kind''), optionalString (fieldOf params ''decision'')) of
              (Some kind, Some decision) \<Rightarrow>
                if kind \<noteq> io_kind binding \<or> decision \<notin> set (io_decisions binding)
                then failWith InvalidParams ''approval kind or decision does not match the session prompt'' r
                else
                  andThen
                    (askGateway gw ''approval.resolve''
                       [(''id'', JStr approvalId), (''kind'', JStr kind), (''decision'', JStr decision)] r)
                    (\<lambda>value r1.
                       if \<not> bindingBelongsToAccess (accessNow gw r1) binding
                       then failWith CrossAgentDenied ''approval is no longer bound to the browser agent'' r1
                       else (Inr (resolvedApproval value), r1))
            | _ \<Rightarrow> failWith InvalidParams ''approval kind or decision does not match the session prompt'' r))"

text \<open>\<open>None\<close> is \<open>handled: false\<close>.\<close>

definition handled :: "(interactive_failure + js_value) \<times> interactive_run \<Rightarrow> (interactive_failure + js_value option) \<times> interactive_run" where
  "handled result = (map_sum id Some (fst result), snd result)"

definition requestInteractive ::
    "interactive_gateway \<Rightarrow> string \<Rightarrow> js_object \<Rightarrow> interactive_run
     \<Rightarrow> (interactive_failure + js_value option) \<times> interactive_run" where
  "requestInteractive gw method params r =
     (if method = ''question.list'' \<or> method = ''question.get'' \<or> method = ''question.resolve''
      then handled (requestQuestion gw method params r)
      else if method = ''taskSuggestions.list'' then handled (listSuggestions gw params r)
      else if method = ''taskSuggestions.accept'' \<or> method = ''taskSuggestions.dismiss''
      then handled (settleSuggestion gw method params r)
      else if method = ''approval.get'' then handled (getApproval gw params r)
      else if method = ''approval.resolve'' then handled (resolveApproval gw params r)
      else (Inr None, r))"

section \<open>What the registries hold\<close>

definition boundBy :: "interactive_access \<Rightarrow> approval_owner \<Rightarrow> bool" where
  "boundBy access b \<longleftrightarrow>
     io_agentId b = ia_agentId access
     \<and> (\<exists>key. io_sessionKey b = Some key \<and> ia_resolve access key = Some (ia_agentId access) \<and> ia_canAccess access key True)
     \<and> io_decisions b \<noteq> [] \<and> set (io_decisions b) \<subseteq> {''allow-once'', ''deny''}"

definition interactiveOk :: "(approval_owner \<Rightarrow> bool) \<Rightarrow> interactive \<Rightarrow> bool" where
  "interactiveOk Q s \<longleftrightarrow>
     registryOk MAX_OWNERSHIP_BINDINGS (\<lambda>k. k \<noteq> []) (\<lambda>_. True) (in_questions s)
     \<and> registryOk MAX_OWNERSHIP_BINDINGS (\<lambda>k. k \<noteq> []) (\<lambda>owner. io_sessionKey owner \<noteq> None) (in_suggestions s)
     \<and> registryOk MAX_OWNERSHIP_BINDINGS (\<lambda>k. k \<noteq> []) Q (in_approvals s)"

lemma interactiveOk_none [simp]: "interactiveOk Q noInteractive"
  by (simp add: interactiveOk_def noInteractive_def)

lemma interactiveOk_mono: "interactiveOk Q s \<Longrightarrow> (\<And>b. Q b \<Longrightarrow> R b) \<Longrightarrow> interactiveOk R s"
  unfolding interactiveOk_def by (blast intro: registryOk_mono)

lemma optionalString_nonempty: "optionalString v = Some t \<Longrightarrow> t \<noteq> []"
  by (simp add: optionalString_Some)

lemma bindQuestion_ok: "interactiveOk Q s \<Longrightarrow> interactiveOk Q (snd (bindQuestion access obj s))"
  unfolding bindQuestion_def interactiveOk_def
  by (auto split: option.split intro: owners.put_ok dest: optionalString_nonempty)

lemma bindTaskSuggestion_ok: "interactiveOk Q s \<Longrightarrow> interactiveOk Q (snd (bindTaskSuggestion access obj s))"
  unfolding bindTaskSuggestion_def interactiveOk_def
  by (auto split: option.split intro!: owners.put_ok dest: optionalString_nonempty)

lemma optionalString_sessionDecision:
  "d \<in> set (sessionDecisions ds) \<Longrightarrow> optionalString d = Some t \<Longrightarrow> t = ''allow-once'' \<or> t = ''deny''"
  by (auto simp: sessionDecisions_def optionalString_def trim_def trimStart_def trimEnd_def isSpace_def
      split: if_splits)

lemma projectSessionApproval_Some:
  "projectSessionApproval approval = Some projected \<Longrightarrow>
   \<exists>presentation decisions. fieldOf approval ''presentation'' = JObj presentation
     \<and> fieldOf presentation ''allowedDecisions'' = JArr decisions \<and> sessionDecisions decisions \<noteq> []
     \<and> projected = mapSet approval ''presentation''
                     (JObj (mapSet presentation ''allowedDecisions'' (JArr (sessionDecisions decisions))))"
  unfolding projectSessionApproval_def Let_def by (auto split: js_value.splits if_splits)

lemma in_map_filterD: "x \<in> set (List.map_filter f xs) \<Longrightarrow> \<exists>y \<in> set xs. f y = Some x"
  by (auto simp: List.map_filter_def)

lemma projected_decisions:
  assumes "projectSessionApproval approval = Some projected"
  shows "set (approvalDecisions (fieldOf projected ''presentation'')) \<subseteq> {''allow-once'', ''deny''}"
proof -
  obtain presentation decisions where
    "fieldOf projected ''presentation''
       = JObj (mapSet presentation ''allowedDecisions'' (JArr (sessionDecisions decisions)))"
    using projectSessionApproval_Some [OF assms] by auto
  then have "approvalDecisions (fieldOf projected ''presentation'')
               = jsUnique (List.map_filter optionalString (sessionDecisions decisions))"
    by (simp add: approvalDecisions_def)
  then show ?thesis by (auto dest!: in_map_filterD dest: optionalString_sessionDecision)
qed

lemma bindApproval_ok:
  assumes "interactiveOk Q s" and "projectSessionApproval approval = Some projected"
    and "\<And>b. boundBy access b \<Longrightarrow> Q b"
  shows "interactiveOk Q (snd (bindApproval access key projected s))"
proof -
  let ?b = "\<lambda>kind. \<lparr>io_agentId = ia_agentId access, io_sessionKey = Some key, io_kind = kind,
                io_decisions = approvalDecisions (fieldOf projected ''presentation'')\<rparr>"
  have "Q (?b kind)" if "approvalDecisions (fieldOf projected ''presentation'') \<noteq> []"
      "ia_resolve access key = Some (ia_agentId access)" "ia_canAccess access key True" for kind
    by (rule assms(3)) (use that projected_decisions [OF assms(2)] in \<open>simp add: boundBy_def\<close>)
  with assms(1) show ?thesis
    unfolding bindApproval_def interactiveOk_def Let_def
    by (auto split: option.split intro!: owners.put_ok dest: optionalString_nonempty)
qed

definition grantedBy :: "interactive_access \<Rightarrow> (approval_owner \<Rightarrow> bool) \<Rightarrow> bool" where
  "grantedBy access Q \<longleftrightarrow> (\<forall>b. boundBy access b \<longrightarrow> Q b)"

lemma bindApproval_granted:
  assumes "interactiveOk Q s" "grantedBy access Q" "Option.bind source projectSessionApproval = Some projected"
  shows "interactiveOk Q (snd (bindApproval access key projected s))"
  using bindApproval_ok [OF assms(1), of _ projected access key] assms(2, 3)
  by (auto simp: grantedBy_def bind_eq_Some_conv)

lemma bindApprovals_ok:
  "interactiveOk Q s \<Longrightarrow> grantedBy access Q \<Longrightarrow> interactiveOk Q (snd (bindApprovals access key values s))"
proof (induction "values" arbitrary: s)
  case (Cons v rest)
  show ?case
  proof (cases "Option.bind (asRecord v) projectSessionApproval")
    case None
    then show ?thesis using Cons by simp
  next
    case (Some projected)
    then have "interactiveOk Q (snd (bindApproval access key projected s))"
      using bindApproval_granted Cons.prems by blast
    then show ?thesis using Some Cons by (simp add: split_def Let_def)
  qed
qed simp

lemma bindEach_ok:
  assumes "\<And>obj s. interactiveOk Q s \<Longrightarrow> interactiveOk Q (snd (bind obj s))"
  shows "interactiveOk Q s \<Longrightarrow> interactiveOk Q (snd (bindEach bind message values s))"
proof (induction "values" arbitrary: s)
  case (Cons v rest)
  then show ?case
    using assms by (auto split: option.split prod.split throw_splits) (metis snd_conv)+
qed simp

lemma projectQuestionList_ok: "interactiveOk Q s \<Longrightarrow> interactiveOk Q (snd (projectQuestionList access value s))"
  using bindEach_ok [of Q "bindQuestion access", OF bindQuestion_ok]
  unfolding projectQuestionList_def by (auto split: js_value.split throw_splits) (metis snd_conv)+

lemma projectQuestionGet_ok: "interactiveOk Q s \<Longrightarrow> interactiveOk Q (snd (projectQuestionGet access value s))"
  unfolding projectQuestionGet_def by (auto split: option.split prod.split) (metis bindQuestion_ok snd_conv)+

lemma projectTaskSuggestionList_ok:
  "interactiveOk Q s \<Longrightarrow> interactiveOk Q (snd (projectTaskSuggestionList access value s))"
  using bindEach_ok [of Q "bindTaskSuggestion access", OF bindTaskSuggestion_ok]
  unfolding projectTaskSuggestionList_def by (auto split: js_value.split)

lemma projectApprovalReplay_ok:
  "interactiveOk Q s \<Longrightarrow> grantedBy access Q \<Longrightarrow> interactiveOk Q (snd (projectApprovalReplay access value s))"
  unfolding projectApprovalReplay_def
  by (auto split: option.split js_value.split prod.split) (metis bindApprovals_ok snd_conv)+

lemma bindSessionApproval_ok:
  assumes "interactiveOk Q s" "grantedBy access Q" "Option.bind source projectSessionApproval = Some projected"
  shows "interactiveOk Q (snd (bindSessionApproval access (mapSet obj ''approval'' (JObj projected)) s))"
  using bindApproval_granted [OF assms] assms(1) unfolding bindSessionApproval_def by (simp split: option.split)

lemma filterApprovalEvent_ok:
  assumes "interactiveOk Q s" "grantedBy access Q"
  shows "interactiveOk Q (snd (filterApprovalEvent access payload s))"
  using bindSessionApproval_ok [OF assms] assms(1) unfolding filterApprovalEvent_def passIf_def Let_def
  by (auto split: option.split js_value.split)

lemma filterEvent_ok:
  assumes "interactiveOk Q s" "grantedBy access Q"
  shows "interactiveOk Q (snd (filterEvent access event payload s))"
  using bindQuestion_ok [OF assms(1)] bindTaskSuggestion_ok [OF assms(1)] filterApprovalEvent_ok [OF assms] assms(1)
  unfolding filterEvent_def passIf_def by (simp split: js_value.split)

primrec activityAccess :: "interactive_activity \<Rightarrow> interactive_access" where
  "activityAccess (EventArrives access event payload) = access"
| "activityAccess (QuestionsListed access value) = access"
| "activityAccess (QuestionRead access value) = access"
| "activityAccess (SuggestionsListed access value) = access"
| "activityAccess (ApprovalsReplayed access value) = access"

lemma runActivity_ok:
  "interactiveOk Q s \<Longrightarrow> grantedBy (activityAccess act) Q \<Longrightarrow> interactiveOk Q (runActivity act s)"
  by (cases act)
    (simp_all add: filterEvent_ok projectQuestionList_ok projectQuestionGet_ok projectTaskSuggestionList_ok
      projectApprovalReplay_ok)

lemma runActivities_ok:
  "interactiveOk Q s \<Longrightarrow> \<forall>act \<in> set acts. grantedBy (activityAccess act) Q \<Longrightarrow> interactiveOk Q (runActivities acts s)"
  unfolding runActivities_def by (induction acts arbitrary: s) (simp_all add: runActivity_ok)

text \<open>Every approval that can be resolved was offered to an access that had write access to its session.\<close>

definition offeredIn :: "interactive_activity list \<Rightarrow> approval_owner \<Rightarrow> bool" where
  "offeredIn acts b \<longleftrightarrow> (\<exists>act \<in> set acts. boundBy (activityAccess act) b)"

lemma reachable_interactiveOk: "interactiveOk (offeredIn acts) (runActivities acts noInteractive)"
  by (rule runActivities_ok) (auto simp: grantedBy_def offeredIn_def)

section \<open>Runs of a request\<close>

text \<open>\<open>runs I result\<close>: the run a step leaves satisfies \<open>I\<close>.\<close>

named_theorems run_ok \<open>composition of the steps of a request\<close>

definition runs :: "(interactive_run \<Rightarrow> bool) \<Rightarrow> 'a \<times> interactive_run \<Rightarrow> bool" where
  "runs I result \<longleftrightarrow> I (snd result)"

lemma runs_orThrow [run_ok]: "I r \<Longrightarrow> (\<And>x. m = Inr x \<Longrightarrow> runs I (k x)) \<Longrightarrow> runs I (orThrow m r k)"
  by (cases m) (auto simp: runs_def)

lemma runs_andThen [run_ok]: "runs I m \<Longrightarrow> (\<And>x r. I r \<Longrightarrow> runs I (k x r)) \<Longrightarrow> runs I (andThen m k)"
  unfolding runs_def by (auto split: andThen_split)

lemma runs_return [run_ok]: "I r \<Longrightarrow> runs I (x, r)"
  by (simp add: runs_def)

lemma runs_fail [run_ok]: "I r \<Longrightarrow> runs I (failWith code message r)"
  by (simp add: runs_def failWith_def)

lemma runs_if [run_ok]: "(c \<Longrightarrow> runs I m) \<Longrightarrow> (\<not> c \<Longrightarrow> runs I n) \<Longrightarrow> runs I (if c then m else n)"
  by simp

lemma runs_option [run_ok]:
  "(x = None \<Longrightarrow> runs I m) \<Longrightarrow> (\<And>y. x = Some y \<Longrightarrow> runs I (n y)) \<Longrightarrow>
   runs I (case x of None \<Rightarrow> m | Some y \<Rightarrow> n y)"
  by (cases x) simp_all

lemma runs_handled [run_ok]: "runs I m \<Longrightarrow> runs I (handled m)"
  by (simp add: runs_def handled_def)

lemmas request_defs =
  requestInteractive_def requestQuestion_def listSuggestions_def settleSuggestion_def getApproval_def
  resolveApproval_def ensureTaskSuggestionOwner_def Let_def prod.case

text \<open>A request on questions, suggestions or approvals keeps what its awaits and its own bindings keep.\<close>

lemma requestInteractive_runs:
  assumes ask: "\<And>m params r. I r \<Longrightarrow> m \<noteq> ''approval.resolve'' \<Longrightarrow> runs I (askGateway gw m params r)"
    and resolve: "\<And>approvalId kind decision binding r.
      I r \<Longrightarrow> r = start \<Longrightarrow> ownedApproval gw r approvalId = Some binding \<Longrightarrow> kind = io_kind binding \<Longrightarrow>
      decision \<in> set (io_decisions binding) \<Longrightarrow>
      runs I (askGateway gw ''approval.resolve''
        [(''id'', JStr approvalId), (''kind'', JStr kind), (''decision'', JStr decision)] r)"
    and questions: "\<And>value r. I r \<Longrightarrow> runs I (onOwners (\<lambda>access. projectQuestionList access value) gw r)"
    and question: "\<And>value r. I r \<Longrightarrow> runs I (onOwners (\<lambda>access. projectQuestionGet access value) gw r)"
    and suggestions: "\<And>value r. I r \<Longrightarrow> runs I (onOwners (\<lambda>access. projectTaskSuggestionList access value) gw r)"
    and start: "I start"
  shows "runs I (requestInteractive gw method params start)"
proof -
  have ensure: "runs I (ensureTaskSuggestionOwner gw taskId r)" if "I r" for taskId r
    unfolding ensureTaskSuggestionOwner_def by (intro run_ok ask suggestions that) simp_all
  have q: "runs I (requestQuestion gw method params start)" if "method \<noteq> ''approval.resolve''"
    unfolding requestQuestion_def by (intro run_ok ask questions question start that) (simp_all add: that)
  have l: "runs I (listSuggestions gw params start)"
    unfolding listSuggestions_def Let_def by (intro run_ok ask suggestions start) simp_all
  have s: "runs I (settleSuggestion gw method params start)" if "method \<noteq> ''approval.resolve''"
    unfolding settleSuggestion_def by (intro run_ok ask ensure start that) (simp_all add: that)
  have g: "runs I (getApproval gw params start)"
    unfolding getApproval_def by (intro run_ok ask start) simp_all
  have d: "runs I (resolveApproval gw params start)"
    unfolding resolveApproval_def prod.case
    by (rule runs_orThrow, rule start, rule runs_option, rule runs_fail, rule start, rule runs_option,
        rule runs_fail, rule start, rule runs_option, rule runs_fail, rule start, rule runs_if,
        rule runs_fail, rule start, rule runs_andThen, rule resolve, rule start)
      (simp_all add: runs_if runs_fail runs_return)
  show ?thesis
    unfolding requestInteractive_def by (intro runs_if runs_handled runs_return start q l s g d) auto
qed

lemma askGateway_run:
  "snd (askGateway gw m params r)
     = \<lparr>ir_owners = runActivities (gw_meanwhile gw (length (ir_sent r))) (ir_owners r),
        ir_sent = ir_sent r @ [(m, params)]\<rparr>"
  by (simp add: askGateway_def Let_def)

lemma onOwners_run:
  "snd (onOwners f gw r) = r\<lparr>ir_owners := snd (f (accessNow gw r) (ir_owners r))\<rparr>"
  by (simp add: onOwners_def split_def Let_def)

lemma requestInteractive_ok:
  assumes "interactiveOk Q (ir_owners r)" and "\<And>n act. act \<in> set (gw_meanwhile gw n) \<Longrightarrow> grantedBy (activityAccess act) Q"
  shows "interactiveOk Q (ir_owners (snd (requestInteractive gw method params r)))"
proof -
  have "runs (\<lambda>r. interactiveOk Q (ir_owners r)) (requestInteractive gw method params r)"
    by (rule requestInteractive_runs)
      (use assms in \<open>simp_all add: runs_def askGateway_run onOwners_run runActivities_ok projectQuestionList_ok
        projectQuestionGet_ok projectTaskSuggestionList_ok\<close>)
  then show ?thesis by (simp add: runs_def)
qed

definition interactiveStart :: "interactive_activity list \<Rightarrow> interactive_run" where
  "interactiveStart acts = \<lparr>ir_owners = runActivities acts noInteractive, ir_sent = []\<rparr>"

definition decisionSent :: "interactive_gateway \<Rightarrow> interactive_run \<Rightarrow> string \<times> js_object \<Rightarrow> bool" where
  "decisionSent gw r call \<longleftrightarrow>
     (\<exists>approvalId binding decision. ownedApproval gw r approvalId = Some binding \<and> decision \<in> set (io_decisions binding)
        \<and> snd call = [(''id'', JStr approvalId), (''kind'', JStr (io_kind binding)), (''decision'', JStr decision)])"

lemma requestInteractive_decisions:
  assumes "ir_sent start = []" "(''approval.resolve'', sent) \<in> set (ir_sent (snd (requestInteractive gw method params start)))"
  shows "decisionSent gw start (''approval.resolve'', sent)"
proof -
  let ?I = "\<lambda>r. \<forall>call \<in> set (ir_sent r). fst call = ''approval.resolve'' \<longrightarrow> decisionSent gw start call"
  have "runs ?I (requestInteractive gw method params start)"
    by (rule requestInteractive_runs)
      (use assms(1) in \<open>auto simp: runs_def askGateway_run onOwners_run decisionSent_def\<close>)
  with assms(2) show ?thesis by (fastforce simp: runs_def)
qed

section \<open>Events that are passed on\<close>

lemma interactive_found:
  assumes "interactiveOk Q s"
  shows "mapGet (bindBounded (in_questions s) k v) k = Some v"
    and "mapGet (bindBounded (in_suggestions s) k v) k = Some v"
    and "mapGet (bindBounded (in_approvals s) k w) k = Some w"
  using assms by (auto simp: interactiveOk_def intro: owners.put_found)

lemma bindQuestion_bound:
  assumes "interactiveOk Q s" "bindQuestion access obj s = (True, s')"
  shows "\<exists>subject owner. optionalString (fieldOf obj ''id'') = Some subject
    \<and> mapGet (in_questions s') subject = Some owner \<and> bindingBelongsToAccess access owner"
  using assms(2) unfolding bindQuestion_def
  by (auto simp: interactive_found [OF assms(1)] split: option.splits if_splits)

lemma bindTaskSuggestion_bound:
  assumes "interactiveOk Q s" "bindTaskSuggestion access obj s = (True, s')"
  shows "\<exists>subject owner. optionalString (fieldOf obj ''id'') = Some subject
    \<and> mapGet (in_suggestions s') subject = Some owner \<and> bindingBelongsToAccess access owner"
  using assms(2) unfolding bindTaskSuggestion_def
  by (auto simp: interactive_found [OF assms(1)] split: option.splits if_splits)

lemma bindSessionApproval_bound:
  assumes "interactiveOk Q s" "bindSessionApproval access obj s = (True, s')"
  shows "\<exists>approval subject owner. fieldOf obj ''approval'' = JObj approval
    \<and> optionalString (fieldOf approval ''id'') = Some subject
    \<and> mapGet (in_approvals s') subject = Some owner \<and> bindingBelongsToAccess access owner"
  using assms(2) unfolding bindSessionApproval_def bindApproval_def Let_def
  by (auto simp: interactive_found [OF assms(1)] bindingBelongsToAccess_def split: option.splits if_splits)

lemma boundEvent_bound:
  "boundEventBelongsToAccess access value registry \<Longrightarrow>
   \<exists>subject owner. optionalString value = Some subject \<and> mapGet registry subject = Some owner
     \<and> bindingBelongsToAccess access owner"
  unfolding boundEventBelongsToAccess_def by (auto split: option.splits simp: bind_eq_Some_conv)

lemma passIf_passed: "passIf bound payload = (PassedOn shown, s') \<longleftrightarrow> bound = (True, s') \<and> shown = payload"
  by (cases bound) (auto simp: passIf_def)

text \<open>The id that an event is about: that of the question, of the suggested task or of the approval.\<close>

definition eventSubject :: "string \<Rightarrow> js_value \<Rightarrow> js_value" where
  "eventSubject event payload =
     (if event = ''task.suggestion'' then
        (if memberOf payload ''action'' = JStr ''created'' then memberOf (memberOf payload ''suggestion'') ''id''
         else memberOf payload ''taskId'')
      else if event = ''session.approval'' then memberOf (memberOf payload ''approval'') ''id''
      else memberOf payload ''id'')"

definition ownedIn :: "interactive_access \<Rightarrow> string \<Rightarrow> (string, 'a interactive_owner_scheme) jsmap \<Rightarrow> bool" where
  "ownedIn access subject registry \<longleftrightarrow>
     (\<exists>owner. mapGet registry subject = Some owner \<and> bindingBelongsToAccess access owner)"

definition eventOwned :: "interactive_access \<Rightarrow> string \<Rightarrow> string \<Rightarrow> interactive \<Rightarrow> bool" where
  "eventOwned access event subject s =
     (if event = ''task.suggestion'' then ownedIn access subject (in_suggestions s)
      else if event = ''session.approval'' then ownedIn access subject (in_approvals s)
      else ownedIn access subject (in_questions s))"

definition shownDecisions :: "string \<Rightarrow> js_value \<Rightarrow> js_value list" where
  "shownDecisions event shown =
     (if event = ''session.approval'' then
        (case memberOf (memberOf (memberOf shown ''approval'') ''presentation'') ''allowedDecisions'' of
           JArr decisions \<Rightarrow> decisions | _ \<Rightarrow> [])
      else [])"

lemma projected_shown:
  assumes "projectSessionApproval approval = Some projected"
  shows "\<exists>decisions. memberOf (fieldOf projected ''presentation'') ''allowedDecisions'' = JArr decisions
           \<and> set decisions \<subseteq> {JStr ''allow-once'', JStr ''deny''}"
    and "fieldOf projected ''id'' = fieldOf approval ''id''"
proof -
  obtain presentation decisions where
    "projected = mapSet approval ''presentation''
       (JObj (mapSet presentation ''allowedDecisions'' (JArr (sessionDecisions decisions))))"
    using projectSessionApproval_Some [OF assms] by blast
  then show "\<exists>decisions. memberOf (fieldOf projected ''presentation'') ''allowedDecisions'' = JArr decisions
      \<and> set decisions \<subseteq> {JStr ''allow-once'', JStr ''deny''}"
    "fieldOf projected ''id'' = fieldOf approval ''id''"
    by (auto simp: sessionDecisions_def)
qed

lemma filterApprovalEvent_passed:
  assumes "interactiveOk Q s" "filterApprovalEvent access payload s = (PassedOn shown, s')"
  shows "\<exists>subject. optionalString (memberOf (memberOf payload ''approval'') ''id'') = Some subject
           \<and> ownedIn access subject (in_approvals s')"
    and "set (shownDecisions ''session.approval'' shown) \<subseteq> {JStr ''allow-once'', JStr ''deny''}"
proof -
  obtain obj approval projected where run: "payload = JObj obj" "fieldOf obj ''approval'' = JObj approval"
      "projectSessionApproval approval = Some projected"
      "bindSessionApproval access (mapSet obj ''approval'' (JObj projected)) s = (True, s')"
      "shown = JObj (mapSet obj ''approval'' (JObj projected))"
    using assms(2) unfolding filterApprovalEvent_def Let_def
    by (auto simp: passIf_passed bind_eq_Some_conv split: option.splits js_value.splits)
  show "\<exists>subject. optionalString (memberOf (memberOf payload ''approval'') ''id'') = Some subject
      \<and> ownedIn access subject (in_approvals s')"
    using bindSessionApproval_bound [OF assms(1) run(4)] run(1, 2) projected_shown(2) [OF run(3)]
    by (auto simp: ownedIn_def)
  show "set (shownDecisions ''session.approval'' shown) \<subseteq> {JStr ''allow-once'', JStr ''deny''}"
    using projected_shown(1) [OF run(3)] run(5) by (auto simp: shownDecisions_def)
qed

lemma filterEvent_passed:
  assumes "interactiveOk Q s" "filterEvent access event payload s = (PassedOn shown, s')"
  shows "\<exists>subject. optionalString (eventSubject event payload) = Some subject \<and> eventOwned access event subject s'"
proof -
  consider "event = ''question.requested''" | "event = ''question.resolved''" | "event = ''task.suggestion''"
    | "event = ''session.approval''"
    using assms(2) by (auto simp: filterEvent_def split: if_splits)
  then show ?thesis
  proof cases
    case 1
    then show ?thesis
      using assms by (auto simp: filterEvent_def passIf_passed eventSubject_def eventOwned_def ownedIn_def
          split: js_value.splits dest: bindQuestion_bound)
  next
    case 2
    then show ?thesis
      using assms(2) by (auto simp: filterEvent_def passIf_passed eventSubject_def eventOwned_def ownedIn_def
          dest: boundEvent_bound)
  next
    case 3
    then show ?thesis
      using assms by (auto simp: filterEvent_def passIf_passed eventSubject_def eventOwned_def ownedIn_def
          split: js_value.splits if_splits dest: bindTaskSuggestion_bound boundEvent_bound)
  next
    case 4
    then show ?thesis
      using assms filterApprovalEvent_passed(1) [OF assms(1), of access payload shown s']
      by (auto simp: filterEvent_def eventSubject_def eventOwned_def)
  qed
qed

section \<open>Ownership\<close>

text \<open>
  The three registries stay bounded. Whatever events arrived and whatever was listed, read or replayed
  for any browser before a request and during each of its awaits, none of them ever holds more than 4096
  entries, and no id twice.
\<close>

theorem interactive_registries_bounded:
  "let s = ir_owners (snd (requestInteractive gw method params (interactiveStart acts)))
   in length (in_questions s) \<le> 4096 \<and> length (in_suggestions s) \<le> 4096 \<and> length (in_approvals s) \<le> 4096
      \<and> distinct (mapKeys (in_questions s)) \<and> distinct (mapKeys (in_suggestions s)) \<and> distinct (mapKeys (in_approvals s))"
proof -
  have "interactiveOk (\<lambda>_. True) (ir_owners (interactiveStart acts))"
    using interactiveOk_mono [OF reachable_interactiveOk [of acts], of "\<lambda>_. True"] by (simp add: interactiveStart_def)
  then have "interactiveOk (\<lambda>_. True) (ir_owners (snd (requestInteractive gw method params (interactiveStart acts))))"
    by (rule requestInteractive_ok) (simp add: grantedBy_def)
  then show ?thesis by (simp add: interactiveOk_def registryOk_def MAX_OWNERSHIP_BINDINGS_def Let_def)
qed

text \<open>
  C29. A browser can only decide what it was offered. When a request sends \<open>approval.resolve\<close>, the id
  is one that is bound to the browser's agent, the kind is the bound one, and the decision is \<open>allow-once\<close>
  or \<open>deny\<close>: a decision that outlives the session cannot be sent. The binding was made for an access of
  that agent with write access to the session of the approval.
\<close>

theorem approvals_session_scoped:
  assumes "(''approval.resolve'', sent) \<in> set (ir_sent (snd (requestInteractive gw method params (interactiveStart acts))))"
  shows "\<exists>approvalId binding decision act.
    sent = [(''id'', JStr approvalId), (''kind'', JStr (io_kind binding)), (''decision'', JStr decision)]
    \<and> mapGet (in_approvals (runActivities acts noInteractive)) approvalId = Some binding
    \<and> bindingBelongsToAccess (gw_access gw 0) binding \<and> decision \<in> {''allow-once'', ''deny''}
    \<and> act \<in> set acts \<and> boundBy (activityAccess act) binding"
proof -
  from requestInteractive_decisions [OF _ assms] obtain approvalId binding decision where
    sent: "sent = [(''id'', JStr approvalId), (''kind'', JStr (io_kind binding)), (''decision'', JStr decision)]"
    and owned: "ownedApproval gw (interactiveStart acts) approvalId = Some binding"
    and decision: "decision \<in> set (io_decisions binding)"
    by (auto simp: decisionSent_def interactiveStart_def)
  from owned have binding: "mapGet (in_approvals (runActivities acts noInteractive)) approvalId = Some binding"
    "bindingBelongsToAccess (gw_access gw 0) binding"
    by (auto simp: ownedApproval_def interactiveStart_def accessNow_def split: option.splits if_splits)
  from reachable_interactiveOk [of acts] binding(1) have "offeredIn acts binding"
    unfolding interactiveOk_def by (blast dest: registryOk_get)
  then obtain act where "act \<in> set acts" "boundBy (activityAccess act) binding" by (auto simp: offeredIn_def)
  then show ?thesis using sent binding decision unfolding boundBy_def by blast
qed

definition annInteractive :: interactive_access where
  "annInteractive =
     \<lparr>ia_agentId = ''ann'', ia_resolve = \<lambda>key. if key = ''agent:ann:main'' then Some ''ann'' else None,
      ia_canAccess = \<lambda>key write. True\<rparr>"

definition demoApproval :: js_value where
  "demoApproval = JObj [(''sessionKey'', JStr ''agent:ann:main''),
     (''approval'', JObj [(''id'', JStr ''ap1''), (''presentation'', JObj [(''kind'', JStr ''exec''),
       (''allowedDecisions'', JArr [JStr ''allow-always'', JStr ''allow-once''])])])]"

definition annGateway :: interactive_gateway where
  "annGateway = \<lparr>gw_reply = \<lambda>n m ps. Some JNull, gw_meanwhile = \<lambda>n. [], gw_access = \<lambda>n. annInteractive\<rparr>"

lemmas interactive_run_defs =
  interactiveStart_def runActivities_def noInteractive_def filterEvent_def filterApprovalEvent_def
  projectSessionApproval_def sessionDecisions_def passIf_def bindSessionApproval_def bindApproval_def
  approvalDecisions_def List.map_filter_def jsUnique_def optionalString_def annInteractive_def demoApproval_def annGateway_def
  bindBounded_def MAX_OWNERSHIP_BINDINGS_def trim_def trimStart_def trimEnd_def isSpace_def

theorem approvals_session_scoped_witness:
  "\<exists>approvalId binding decision act.
    [(''id'', JStr ''ap1''), (''kind'', JStr ''exec''), (''decision'', JStr ''allow-once'')]
      = [(''id'', JStr approvalId), (''kind'', JStr (io_kind binding)), (''decision'', JStr decision)]
    \<and> mapGet (in_approvals (runActivities [EventArrives annInteractive ''session.approval'' demoApproval] noInteractive))
         approvalId = Some binding
    \<and> bindingBelongsToAccess (gw_access annGateway 0) binding \<and> decision \<in> {''allow-once'', ''deny''}
    \<and> act \<in> set [EventArrives annInteractive ''session.approval'' demoApproval] \<and> boundBy (activityAccess act) binding"
  by (rule approvals_session_scoped [of _ annGateway "''approval.resolve''"
        "[(''id'', JStr ''ap1''), (''kind'', JStr ''exec''), (''decision'', JStr ''allow-once'')]"])
    (simp add: interactive_run_defs requestInteractive_def resolveApproval_def requireInteractiveId_def handled_def
      ownedApproval_def accessNow_def bindingBelongsToAccess_def askGateway_def)

text \<open>
  Live events reach only the browser they concern. When a question, task suggestion or approval event is
  passed on, the id it is about is, after the event, bound to an owner that belongs to the access of the
  receiving browser, and of an approval only \<open>allow-once\<close> and \<open>deny\<close> are shown.
\<close>

theorem interactive_events_owned:
  assumes "filterEvent access event payload (runActivities acts noInteractive) = (PassedOn shown, s)"
  shows "\<exists>subject. optionalString (eventSubject event payload) = Some subject \<and> eventOwned access event subject s
           \<and> set (shownDecisions event shown) \<subseteq> {JStr ''allow-once'', JStr ''deny''}"
proof -
  have "set (shownDecisions event shown) \<subseteq> {JStr ''allow-once'', JStr ''deny''}"
  proof (cases "event = ''session.approval''")
    case True
    with assms have "filterApprovalEvent access payload (runActivities acts noInteractive) = (PassedOn shown, s)"
      by (simp add: filterEvent_def)
    with True show ?thesis using filterApprovalEvent_passed(2) [OF reachable_interactiveOk] by blast
  qed (simp add: shownDecisions_def)
  with filterEvent_passed [OF reachable_interactiveOk assms] show ?thesis by blast
qed

theorem interactive_events_owned_witness:
  "\<exists>subject shown s. optionalString (eventSubject ''session.approval'' demoApproval) = Some subject
     \<and> eventOwned annInteractive ''session.approval'' subject s
     \<and> set (shownDecisions ''session.approval'' shown) \<subseteq> {JStr ''allow-once'', JStr ''deny''}"
proof -
  obtain shown s where
    "filterEvent annInteractive ''session.approval'' demoApproval (runActivities [] noInteractive) = (PassedOn shown, s)"
    by (simp add: interactive_run_defs)
  from interactive_events_owned [OF this] show ?thesis by blast
qed

end
