(* ===== verification/SqlTables.thy ===== *)
theory SqlTables
  imports GatewayJson
begin

text \<open>
  What the models of the SQLite stores share. A table is the list of its rows; a statement that runs inside
  \<open>runImmediateTransaction\<close> (\<open>kysely-sync.ts\<close>) is a function to an error or a result and the new tables, and
  an error rolls the transaction back.
\<close>

fun forEach :: "('a \<Rightarrow> 's \<Rightarrow> 'e + 's) \<Rightarrow> 'a list \<Rightarrow> 's \<Rightarrow> 'e + 's" where
  "forEach f [] s = Inr s"
| "forEach f (x # xs) s = resultThen (f x s) (forEach f xs)"

definition inTransaction :: "('s \<Rightarrow> 'e + ('a \<times> 's)) \<Rightarrow> 's \<Rightarrow> ('e + 'a) \<times> 's" where
  "inTransaction operation s = (case operation s of Inl failure \<Rightarrow> (Inl failure, s) | Inr (result, s1) \<Rightarrow> (Inr result, s1))"

lemma distinct_row: "distinct (map f xs) \<Longrightarrow> x \<in> set xs \<Longrightarrow> y \<in> set xs \<Longrightarrow> f x = f y \<Longrightarrow> x = y"
  by (auto simp: distinct_map dest: inj_onD)

lemma distinct_sort_key: "distinct (map f xs) \<Longrightarrow> distinct (map f (sort_key g xs))"
  by (simp add: distinct_map)

lemma find_in_set: "List.find P xs = Some x \<Longrightarrow> x \<in> set xs \<and> P x"
  by (auto simp: find_Some_iff)

lemma find_unique:
  assumes "x \<in> set xs" "P x" "\<And>y. y \<in> set xs \<Longrightarrow> P y \<Longrightarrow> y = x"
  shows "List.find P xs = Some x"
proof (cases "List.find P xs")
  case None
  then show ?thesis using assms(1, 2) by (auto simp: find_None_iff)
next
  case (Some y)
  then show ?thesis using find_in_set [OF Some] assms(3) by blast
qed

lemma forEach_keeps:
  assumes "\<And>x s s'. f x s = Inr s' \<Longrightarrow> P s \<Longrightarrow> P s'"
  shows "forEach f xs s = Inr s' \<Longrightarrow> P s \<Longrightarrow> P s'"
proof (induction xs arbitrary: s)
  case (Cons x xs)
  then obtain s1 where "f x s = Inr s1" "forEach f xs s1 = Inr s'" by (auto simp: ok_iff)
  then show ?case using Cons.IH [of s1] assms Cons.prems(2) by blast
qed simp

lemma inTransaction_keeps:
  assumes "P s" "\<And>result s'. operation s = Inr (result, s') \<Longrightarrow> P s'"
  shows "P (snd (inTransaction operation s))"
  using assms by (auto simp: inTransaction_def split: sum.split prod.split)

section \<open>Decimal numbers\<close>

lemma decimalValue_append: "decimalValue acc (s @ [c]) = 10 * decimalValue acc s + (of_char c - 48)"
  by (induction s arbitrary: acc) simp_all

lemma digit_char: "d < 10 \<Longrightarrow> of_char (char_of (48 + d) :: char) = (48 + d :: nat)"
  by (simp add: of_char_of)

lemma decimalValue_decimal: "decimalValue 0 (decimal n) = n"
proof (induction n rule: decimal.induct)
  case (1 n)
  then show ?case
    by (cases "n < 10") (simp_all add: decimal.simps [of n] decimalValue_append digit_char)
qed

lemma decimal_digits: "list_all isDigitChar (decimal n)"
proof (induction n rule: decimal.induct)
  case (1 n)
  then show ?case
    by (cases "n < 10") (simp_all add: decimal.simps [of n] isDigitChar_def digit_char)
qed

lemma decimal_head: "0 < n \<Longrightarrow> decimal n \<noteq> [] \<and> hd (decimal n) \<noteq> CHR ''0''"
proof (induction n rule: decimal.induct)
  case (1 n)
  show ?case
  proof (cases "n < 10")
    case True
    then have "of_char (char_of (48 + n) :: char) \<noteq> (of_char CHR ''0'' :: nat)" using 1(2) by (simp add: digit_char)
    then have "char_of (48 + n) \<noteq> CHR ''0''" by metis
    then show ?thesis using True by (simp add: decimal.simps [of n])
  next
    case False
    then show ?thesis using 1 by (simp add: decimal.simps [of n])
  qed
qed

end
