(* ===== verification/HorsePricing.thy ===== *)
theory HorsePricing
  imports SqlTables Complex_Main "HOL-Library.Signed_Division" "HOL-Library.Multiset"
begin

text \<open>
  Prices of the horse races (\<open>horse-racing-pricing.ts\<close>, \<open>horse-racing-profile.ts\<close>): exact fractions of
  big integers, the two hidden forms of the joker, and the quote for a bet. Prices are compared with the
  distribution of the finish order: a draw without replacement in which every place goes to a remaining
  horse with a probability proportional to its weight.
\<close>

section \<open>Fractions\<close>

text \<open>BigInt division and remainder round towards zero; a zero divisor, which throws, does not occur.\<close>

record fraction =
  fr_numerator :: int
  fr_denominator :: int

function euclid :: "int \<Rightarrow> int \<Rightarrow> int" where
  "euclid divisor remainder = (if remainder = 0 then divisor else euclid remainder (divisor smod remainder))"
  by pat_completeness auto
termination
proof (relation "measure (\<lambda>(divisor, remainder). nat \<bar>remainder\<bar>)")
  fix divisor remainder :: int
  assume "remainder \<noteq> 0"
  then have "\<bar>divisor smod remainder\<bar> < \<bar>remainder\<bar>"
    by (simp add: smod_int_alt_def abs_mult abs_sgn_eq)
  then show "((remainder, divisor smod remainder), divisor, remainder)
      \<in> measure (\<lambda>(divisor, remainder). nat \<bar>remainder\<bar>)"
    by simp
qed simp

declare euclid.simps [simp del]

definition reduceFraction :: "int \<Rightarrow> int \<Rightarrow> fraction" where
  "reduceFraction numerator denominator =
     (let divisor = euclid denominator numerator
      in \<lparr>fr_numerator = numerator sdiv divisor, fr_denominator = denominator sdiv divisor\<rparr>)"

definition addFractions :: "fraction \<Rightarrow> fraction \<Rightarrow> fraction" where
  "addFractions left right =
     reduceFraction
       (fr_numerator left * fr_denominator right + fr_numerator right * fr_denominator left)
       (fr_denominator left * fr_denominator right)"

section \<open>Profiles\<close>

definition HORSE_RACING_JOKER_ID :: string where
  "HORSE_RACING_JOKER_ID = ''6''"

record profile_weight =
  pw_id :: string
  pw_weight :: int

datatype joker_form = ColdForm | HotForm

record race_scenario =
  sc_numerator :: int
  sc_denominator :: int
  sc_jokerForm :: "joker_form option"
  sc_horses :: "profile_weight list"

definition scenarioHorses :: "int \<Rightarrow> profile_weight list \<Rightarrow> profile_weight list" where
  "scenarioHorses jokerWeight horses =
     map (\<lambda>horse. \<lparr>pw_id = pw_id horse,
            pw_weight = (if pw_id horse = HORSE_RACING_JOKER_ID then jokerWeight else pw_weight horse)\<rparr>) horses"

definition horseRaceScenarios :: "profile_weight list \<Rightarrow> race_scenario list" where
  "horseRaceScenarios horses =
     (if \<not> list_ex (\<lambda>horse. pw_id horse = HORSE_RACING_JOKER_ID) horses
      then [\<lparr>sc_numerator = 1, sc_denominator = 1, sc_jokerForm = None, sc_horses = horses\<rparr>]
      else
        [\<lparr>sc_numerator = 2231, sc_denominator = 2375, sc_jokerForm = Some ColdForm, sc_horses = scenarioHorses 1 horses\<rparr>,
         \<lparr>sc_numerator = 144, sc_denominator = 2375, sc_jokerForm = Some HotForm, sc_horses = scenarioHorses 96 horses\<rparr>])"

section \<open>Quotes\<close>

definition HORSE_RACING_MIN_BET_GOLD :: int where
  "HORSE_RACING_MIN_BET_GOLD = 50"

definition HORSE_RACING_MAX_BET_GOLD :: int where
  "HORSE_RACING_MAX_BET_GOLD = 1000"

definition HORSE_RACING_FEE_PERCENT :: int where
  "HORSE_RACING_FEE_PERCENT = 3"

datatype racing_error = HorseRacingError string

definition totalWeight :: "profile_weight list \<Rightarrow> int" where
  "totalWeight horses = foldl (\<lambda>acc horse. acc + pw_weight horse) 0 horses"

definition selectedHorses :: "profile_weight list \<Rightarrow> string list \<Rightarrow> profile_weight list" where
  "selectedHorses horses selection = filter (\<lambda>horse. pw_id horse \<in> set selection) horses"

definition topThreeTerm ::
    "string list \<Rightarrow> int \<Rightarrow> profile_weight \<Rightarrow> profile_weight \<Rightarrow> profile_weight \<Rightarrow> fraction \<Rightarrow> fraction" where
  "topThreeTerm selection whole first second third probability =
     (if pw_id third = pw_id first \<or> pw_id third = pw_id second
         \<or> \<not> (\<forall>s \<in> set selection. s = pw_id first \<or> s = pw_id second \<or> s = pw_id third)
      then probability
      else
        addFractions probability
          \<lparr>fr_numerator = pw_weight first * pw_weight second * pw_weight third,
           fr_denominator = whole * (whole - pw_weight first) * (whole - pw_weight first - pw_weight second)\<rparr>)"

definition topThreePairProbability :: "profile_weight list \<Rightarrow> string list \<Rightarrow> int \<Rightarrow> fraction" where
  "topThreePairProbability horses selection whole =
     fold (\<lambda>first probability1.
        fold (\<lambda>second probability2.
          if pw_id second = pw_id first then probability2
          else fold (topThreeTerm selection whole first second) horses probability2)
        horses probability1)
     horses \<lparr>fr_numerator = 0, fr_denominator = 1\<rparr>"

definition isPositiveDecimal :: "string \<Rightarrow> bool" where
  "isPositiveDecimal s \<longleftrightarrow> s \<noteq> [] \<and> list_all isDigitChar s \<and> hd s \<noteq> CHR ''0''"

definition quoteHorsePayout :: "string \<Rightarrow> string \<Rightarrow> int \<Rightarrow> racing_error + int" where
  "quoteHorsePayout numerator denominator amount =
     (if \<not> isSafeInteger amount \<or> amount < 1 then Inl (HorseRacingError ''invalid_bet'')
      else if \<not> isPositiveDecimal numerator \<or> \<not> isPositiveDecimal denominator
      then Inl (HorseRacingError ''invalid_quote'')
      else
        let payout = (amount * int (decimalValue 0 numerator)) sdiv int (decimalValue 0 denominator)
        in if payout > 2 ^ 53 - 1 then Inl (HorseRacingError ''invalid_bet'') else Inr payout)"

text \<open>The two floating point numbers for display, \<open>probability\<close> and \<open>odds\<close>, are left out.\<close>

record horse_quote =
  hq_numerator :: string
  hq_denominator :: string
  hq_potentialPayout :: int

definition branchProbability :: "string \<Rightarrow> string list \<Rightarrow> profile_weight list \<Rightarrow> fraction" where
  "branchProbability market selection horses =
     (let whole = totalWeight horses;
          scenarioSelection = selectedHorses horses selection;
          product = foldl (\<lambda>acc horse. acc * pw_weight horse) 1 scenarioSelection
      in if market = ''quinella-place'' then topThreePairProbability horses selection whole
         else if market = ''quinella'' then
           \<lparr>fr_numerator = product * (2 * whole - totalWeight scenarioSelection),
            fr_denominator = whole * foldl (\<lambda>acc horse. acc * (whole - pw_weight horse)) 1 scenarioSelection\<rparr>
         else \<lparr>fr_numerator = product, fr_denominator = whole\<rparr>)"

definition quoteProbability :: "string \<Rightarrow> string list \<Rightarrow> profile_weight list \<Rightarrow> fraction" where
  "quoteProbability market selection horses =
     foldl (\<lambda>probability scenario.
        let branch = branchProbability market selection (sc_horses scenario)
        in addFractions probability
             \<lparr>fr_numerator = fr_numerator branch * sc_numerator scenario,
              fr_denominator = fr_denominator branch * sc_denominator scenario\<rparr>)
       \<lparr>fr_numerator = 0, fr_denominator = 1\<rparr> (horseRaceScenarios horses)"

definition quoteMultiplier :: "string \<Rightarrow> string list \<Rightarrow> profile_weight list \<Rightarrow> fraction" where
  "quoteMultiplier market selection horses =
     (let probability = quoteProbability market selection horses
      in reduceFraction (fr_denominator probability * (100 - HORSE_RACING_FEE_PERCENT)) (fr_numerator probability * 100))"

definition MARKETS :: "string list" where
  "MARKETS = [''win'', ''quinella'', ''quinella-place'']"

definition selectionSize :: "string \<Rightarrow> nat" where
  "selectionSize market = (if market = ''win'' then 1 else 2)"

definition validRoster :: "profile_weight list \<Rightarrow> bool" where
  "validRoster horses \<longleftrightarrow>
     list_all (\<lambda>horse. isSafeInteger (pw_weight horse) \<and> pw_weight horse > 0) horses
     \<and> length (jsUnique (map pw_id horses)) = length horses"

definition validBet :: "string \<Rightarrow> string list \<Rightarrow> profile_weight list \<Rightarrow> bool" where
  "validBet market selection horses \<longleftrightarrow>
     market \<in> set MARKETS \<and> length selection = selectionSize market
     \<and> length (selectedHorses horses selection) = length selection"

text \<open>\<open>String\<close> of a positive integer.\<close>

definition bigintString :: "int \<Rightarrow> string" where
  "bigintString n = (if n < 0 then CHR ''-'' # decimal (nat (- n)) else decimal (nat n))"

definition quoteHorseBet ::
    "profile_weight list \<Rightarrow> string \<Rightarrow> string list \<Rightarrow> int \<Rightarrow> racing_error + horse_quote" where
  "quoteHorseBet horses market selection amount =
     (if \<not> isSafeInteger amount \<or> amount < HORSE_RACING_MIN_BET_GOLD \<or> amount > HORSE_RACING_MAX_BET_GOLD
      then Inl (HorseRacingError ''invalid_bet'')
      else if \<not> validRoster horses then Inl (HorseRacingError ''invalid_roster'')
      else if \<not> validBet market selection horses then Inl (HorseRacingError ''invalid_selection'')
      else if market = ''quinella-place'' \<and> length horses < 3 then Inl (HorseRacingError ''invalid_roster'')
      else
        let multiplier = quoteMultiplier market selection horses;
            numerator = bigintString (fr_numerator multiplier);
            denominator = bigintString (fr_denominator multiplier)
        in resultThen (quoteHorsePayout numerator denominator amount)
             (\<lambda>payout. Inr \<lparr>hq_numerator = numerator, hq_denominator = denominator, hq_potentialPayout = payout\<rparr>))"

section \<open>Exact values\<close>

definition ratOf :: "fraction \<Rightarrow> rat" where
  "ratOf f = of_int (fr_numerator f) / of_int (fr_denominator f)"

definition properFraction :: "fraction \<Rightarrow> bool" where
  "properFraction f \<longleftrightarrow> 0 \<le> fr_numerator f \<and> 0 < fr_denominator f"

lemma euclid_gcd: "0 < divisor \<Longrightarrow> 0 \<le> remainder \<Longrightarrow> euclid divisor remainder = gcd divisor remainder"
proof (induction divisor remainder rule: euclid.induct)
  case (1 divisor remainder)
  show ?case
  proof (cases "remainder = 0")
    case True
    then show ?thesis using 1(2) by (simp add: euclid.simps)
  next
    case False
    then have "euclid remainder (divisor smod remainder) = gcd remainder (divisor smod remainder)"
      using 1 by (simp add: smod_mod_positive)
    also have "\<dots> = gcd divisor remainder"
      using False 1(2, 3) by (simp add: smod_mod_positive gcd.commute [of divisor] flip: gcd_red_int)
    finally show ?thesis using False by (simp add: euclid.simps [of divisor])
  qed
qed

lemma sdiv_nonneg: "0 \<le> a \<Longrightarrow> 0 < b \<Longrightarrow> (a :: int) sdiv b = a div b"
  by (cases "a = 0") (simp_all add: signed_divide_int_def)

lemma reduceFraction_value:
  assumes "0 \<le> n" "0 < d"
  shows "ratOf (reduceFraction n d) = of_int n / of_int d" and "properFraction (reduceFraction n d)"
    and "coprime (fr_numerator (reduceFraction n d)) (fr_denominator (reduceFraction n d))"
    and "0 < n \<Longrightarrow> 0 < fr_numerator (reduceFraction n d)"
proof -
  define g where "g = gcd d n"
  have g: "0 < g" "g dvd d" "g dvd n" using assms by (auto simp: g_def)
  have r: "reduceFraction n d = \<lparr>fr_numerator = n div g, fr_denominator = d div g\<rparr>"
    using assms g(1) by (simp add: reduceFraction_def euclid_gcd sdiv_nonneg g_def [symmetric])
  show "ratOf (reduceFraction n d) = of_int n / of_int d"
    using g assms(2) by (auto simp: r ratOf_def elim!: dvdE)
  show "properFraction (reduceFraction n d)"
    using g assms by (auto simp: r properFraction_def pos_imp_zdiv_nonneg_iff elim!: dvdE simp: zero_less_mult_iff)
  show "coprime (fr_numerator (reduceFraction n d)) (fr_denominator (reduceFraction n d))"
    using assms by (simp add: r g_def gcd.commute [of d] div_gcd_coprime)
  show "0 < fr_numerator (reduceFraction n d)" if "0 < n"
    using g that by (auto simp: r elim!: dvdE simp: zero_less_mult_iff)
qed

lemma addFractions_value:
  assumes "properFraction f" "properFraction g"
  shows "ratOf (addFractions f g) = ratOf f + ratOf g" and "properFraction (addFractions f g)"
proof -
  let ?n = "fr_numerator f * fr_denominator g + fr_numerator g * fr_denominator f"
  let ?d = "fr_denominator f * fr_denominator g"
  have "0 \<le> ?n" "0 < ?d" using assms by (auto simp: properFraction_def)
  note r = reduceFraction_value [OF this]
  show "properFraction (addFractions f g)" using r(2) by (simp add: addFractions_def)
  show "ratOf (addFractions f g) = ratOf f + ratOf g"
    using r(1) assms by (simp add: addFractions_def ratOf_def properFraction_def add_frac_eq)
qed

text \<open>A step that adds an amount to an accumulated fraction, and loops of such steps.\<close>

definition adds :: "(fraction \<Rightarrow> fraction) \<Rightarrow> rat \<Rightarrow> bool" where
  "adds step v \<longleftrightarrow> (\<forall>acc. properFraction acc \<longrightarrow> properFraction (step acc) \<and> ratOf (step acc) = ratOf acc + v)"

lemma adds_nothing: "adds (\<lambda>acc. acc) 0"
  by (simp add: adds_def)

lemma adds_fraction: "properFraction f \<Longrightarrow> adds (\<lambda>acc. addFractions acc f) (ratOf f)"
  by (simp add: adds_def addFractions_value)

lemma adds_if: "(c \<Longrightarrow> adds f v) \<Longrightarrow> (\<not> c \<Longrightarrow> adds g w) \<Longrightarrow> adds (\<lambda>acc. if c then f acc else g acc) (if c then v else w)"
  by (simp add: adds_def)

lemma adds_fold: "(\<And>x. x \<in> set xs \<Longrightarrow> adds (g x) (v x)) \<Longrightarrow> adds (fold g xs) (\<Sum>x\<leftarrow>xs. v x)"
proof (induction xs)
  case (Cons x xs)
  then have "adds (g x) (v x)" "adds (fold g xs) (\<Sum>x\<leftarrow>xs. v x)" by simp_all
  then show ?case by (simp add: adds_def)
qed (simp add: adds_def)

lemma adds_value: "adds g v \<Longrightarrow> ratOf (g \<lparr>fr_numerator = 0, fr_denominator = 1\<rparr>) = v"
  and adds_proper: "adds g v \<Longrightarrow> properFraction (g \<lparr>fr_numerator = 0, fr_denominator = 1\<rparr>)"
  by (simp_all add: adds_def properFraction_def ratOf_def)

section \<open>The finish order\<close>

text \<open>
  The possible first \<open>k\<close> places with their probabilities, for a draw of one place after the other
  without replacement, and the probability of an event on them.
\<close>

definition share :: "profile_weight \<Rightarrow> int \<Rightarrow> rat" where
  "share horse remaining = of_int (pw_weight horse) / of_int remaining"

fun draws :: "nat \<Rightarrow> profile_weight list \<Rightarrow> (string list \<times> rat) list" where
  "draws 0 horses = [([], 1)]"
| "draws (Suc k) horses =
     concat (map (\<lambda>horse.
       map (\<lambda>(order, p). (pw_id horse # order, share horse (totalWeight horses) * p))
         (draws k (remove1 horse horses))) horses)"

definition prob :: "(string list \<Rightarrow> bool) \<Rightarrow> (string list \<times> rat) list \<Rightarrow> rat" where
  "prob E ds = (\<Sum>d\<leftarrow>ds. if E (fst d) then snd d else 0)"

definition weighted :: "profile_weight list \<Rightarrow> bool" where
  "weighted horses \<longleftrightarrow> distinct (map pw_id horses) \<and> (\<forall>horse \<in> set horses. 0 < pw_weight horse)"

lemma totalWeight_sum: "totalWeight horses = (\<Sum>horse\<leftarrow>horses. pw_weight horse)"
proof -
  have "foldl (\<lambda>acc horse. acc + pw_weight horse) n horses = n + (\<Sum>horse\<leftarrow>horses. pw_weight horse)" for n
    by (induction horses arbitrary: n) simp_all
  then show ?thesis by (simp add: totalWeight_def)
qed

lemma totalWeight_remove: "horse \<in> set horses \<Longrightarrow> totalWeight (remove1 horse horses) = totalWeight horses - pw_weight horse"
  by (simp add: totalWeight_sum sum_list_map_remove1 [of horse horses])

lemma weighted_remove: "weighted horses \<Longrightarrow> weighted (remove1 horse horses)"
  unfolding weighted_def distinct_map
  by (meson distinct_remove1 inj_on_subset set_remove1_subset subsetD)

lemma weighted_total: "weighted horses \<Longrightarrow> horses \<noteq> [] \<Longrightarrow> 0 < totalWeight horses"
proof (cases horses)
  case (Cons horse rest)
  assume w: "weighted horses"
  have "0 \<le> (\<Sum>horse\<leftarrow>rest. pw_weight horse)"
    using w Cons by (intro sum_list_nonneg) (auto simp: weighted_def intro: less_imp_le)
  with w Cons show ?thesis by (simp add: weighted_def totalWeight_sum)
qed simp

lemma prob_step:
  "prob E (draws (Suc k) horses) =
     (\<Sum>horse\<leftarrow>horses. share horse (totalWeight horses)
        * prob (\<lambda>order. E (pw_id horse # order)) (draws k (remove1 horse horses)))"
proof -
  have "prob E (concat xss) = (\<Sum>xs\<leftarrow>xss. prob E xs)" for xss
    by (induction xss) (simp_all add: prob_def)
  moreover have "prob E (map (\<lambda>(order, p). (x # order, c * p)) ds) = c * prob (\<lambda>order. E (x # order)) ds" for x c ds
    by (induction ds) (auto simp: prob_def distrib_left)
  ultimately show ?thesis by (simp add: comp_def)
qed

declare draws.simps [simp del]

lemma draws_0 [simp]: "draws 0 horses = [([], 1)]"
  by (simp add: draws.simps)

lemma weight_shares: "(\<Sum>horse\<leftarrow>horses. of_int (pw_weight horse) / c) = of_int (\<Sum>horse\<leftarrow>horses. pw_weight horse) / (c :: rat)"
  by (induction horses) (simp_all add: add_divide_distrib)

lemma prob_total: "weighted horses \<Longrightarrow> k \<le> length horses \<Longrightarrow> prob (\<lambda>_. True) (draws k horses) = 1"
proof (induction k arbitrary: horses)
  case (Suc k)
  have "prob (\<lambda>_. True) (draws k (remove1 horse horses)) = 1" if "horse \<in> set horses" for horse
    using Suc that by (simp add: weighted_remove length_remove1)
  then have "prob (\<lambda>_. True) (draws (Suc k) horses) = (\<Sum>horse\<leftarrow>horses. share horse (totalWeight horses))"
    unfolding prob_step by (intro arg_cong [of _ _ sum_list] map_cong) simp_all
  also have "\<dots> = of_int (totalWeight horses) / of_int (totalWeight horses)"
    by (simp add: totalWeight_sum share_def weight_shares)
  also have "\<dots> = 1"
  proof -
    have "horses \<noteq> []" using Suc(3) by auto
    then show ?thesis using weighted_total [OF Suc(2)] by simp
  qed
  finally show ?case .
qed (simp add: prob_def)

lemma prob_prefix:
  "weighted horses \<Longrightarrow> k \<le> n \<Longrightarrow> n \<le> length horses \<Longrightarrow>
   prob (\<lambda>order. E (take k order)) (draws n horses) = prob E (draws k horses)"
proof (induction k arbitrary: n horses E)
  case 0
  then show ?case using prob_total [of horses n] by (simp add: prob_def)
next
  case (Suc k)
  then obtain m where m: "n = Suc m" by (cases n) auto
  have "prob (\<lambda>order. E (pw_id horse # take k order)) (draws m (remove1 horse horses))
          = prob (\<lambda>order. E (pw_id horse # order)) (draws k (remove1 horse horses))" if "horse \<in> set horses" for horse
    by (rule Suc.IH [of "remove1 horse horses" m "\<lambda>order. E (pw_id horse # order)"])
      (use Suc.prems m that in \<open>simp_all add: weighted_remove length_remove1\<close>)
  then show ?case unfolding m prob_step by (simp cong: map_cong)
qed

text \<open>The probability that the first places are those of a given path.\<close>

fun pathProb :: "int \<Rightarrow> profile_weight list \<Rightarrow> rat" where
  "pathProb remaining [] = 1"
| "pathProb remaining (horse # path) =
     share horse remaining * pathProb (remaining - pw_weight horse) path"

lemma sum_other_horses:
  assumes "weighted horses" "horse \<in> set horses"
  shows "(\<Sum>other\<leftarrow>remove1 horse horses. f other)
           = (\<Sum>other\<leftarrow>horses. if pw_id other = pw_id horse then 0 else f other :: rat)"
  using assms
proof (induction horses)
  case (Cons first rest)
  show ?case
  proof (cases "first = horse")
    case True
    have "(if pw_id other = pw_id horse then 0 else f other) = f other" if "other \<in> set rest" for other
      using Cons.prems(1) True that by (auto simp: weighted_def rev_image_eqI)
    then show ?thesis using True by (simp cong: map_cong)
  next
    case False
    then have "pw_id first \<noteq> pw_id horse" using Cons.prems by (auto simp: weighted_def rev_image_eqI)
    moreover have "weighted rest" using Cons.prems(1) by (simp add: weighted_def)
    ultimately show ?thesis using Cons False by simp
  qed
qed simp

lemma sum_one_horse:
  assumes "weighted horses" "horse \<in> set horses"
  shows "(\<Sum>other\<leftarrow>horses. if pw_id other = pw_id horse then f other else 0) = (f horse :: rat)"
  using assms
proof (induction horses)
  case (Cons first rest)
  show ?case
  proof (cases "first = horse")
    case True
    have "(if pw_id other = pw_id horse then f other else 0) = 0" if "other \<in> set rest" for other
      using Cons.prems(1) True that by (auto simp: weighted_def rev_image_eqI)
    then have "(\<Sum>other\<leftarrow>rest. if pw_id other = pw_id horse then f other else 0) = (\<Sum>other\<leftarrow>rest. 0)"
      by (simp cong: map_cong)
    then show ?thesis using True by (simp add: sum_list_0)
  next
    case False
    then have "pw_id first \<noteq> pw_id horse" using Cons.prems by (auto simp: weighted_def rev_image_eqI)
    moreover have "weighted rest" using Cons.prems(1) by (simp add: weighted_def)
    ultimately show ?thesis using Cons False by simp
  qed
qed simp

lemma prob_cong: "(\<And>order. E order = F order) \<Longrightarrow> prob E ds = prob F ds"
  by (simp add: prob_def)

lemma prob_single [simp]: "prob E [(order, 1)] = (if E order then 1 else 0)"
  by (simp add: prob_def)

lemma prob_never: "prob (\<lambda>_. False) ds = 0"
  by (induction ds) (simp_all add: prob_def)

lemma prob_or: "(\<And>order. \<not> (E order \<and> F order)) \<Longrightarrow> prob (\<lambda>order. E order \<or> F order) ds = prob E ds + prob F ds"
  by (induction ds) (auto simp: prob_def)

lemma prob_path:
  "weighted horses \<Longrightarrow> distinct path \<Longrightarrow> set path \<subseteq> set horses \<Longrightarrow>
   prob (\<lambda>order. order = map pw_id path) (draws (length path) horses) = pathProb (totalWeight horses) path"
proof (induction path arbitrary: horses)
  case (Cons horse path)
  then have horse: "horse \<in> set horses" and path: "set path \<subseteq> set (remove1 horse horses)"
    by (auto simp: weighted_def distinct_map)
  let ?p = "\<lambda>first. share first (totalWeight horses)
      * prob (\<lambda>order. order = map pw_id path) (draws (length path) (remove1 first horses))"
  have "prob (\<lambda>order. order = map pw_id (horse # path)) (draws (length (horse # path)) horses)
          = (\<Sum>first\<leftarrow>horses. if pw_id first = pw_id horse then ?p first else 0)"
    unfolding length_Cons prob_step by (intro arg_cong [of _ _ sum_list] map_cong) (simp_all add: prob_never)
  also have "\<dots> = ?p horse" by (rule sum_one_horse) (use Cons.prems horse in auto)
  also have "\<dots> = pathProb (totalWeight horses) (horse # path)"
    using Cons.IH [OF weighted_remove [OF Cons.prems(1)] _ path] Cons.prems(2) horse by (simp add: totalWeight_remove)
  finally show ?case .
qed (simp add: prob_def)

section \<open>Bets that win\<close>

text \<open>
  The rule of \<open>settle\<close> (\<open>sqlite-horse-racing.ts\<close>); a selection is kept as the sorted ids, joined with commas.
\<close>

definition canonicalIds :: "string list \<Rightarrow> string" where
  "canonicalIds ids = joinWith (CHR '','') (sort ids)"

definition betWon :: "string \<Rightarrow> string \<Rightarrow> string list \<Rightarrow> bool" where
  "betWon market selection order \<longleftrightarrow>
     (if market = ''quinella-place''
      then list_all (\<lambda>horseId. horseId \<in> set (take 3 order)) (splitOn (CHR '','') selection)
      else if market = ''win'' then take 1 order = [selection]
      else selection = canonicalIds (take 2 order))"

text \<open>The chance of a bet: over the hidden forms of the joker and the draw of all places.\<close>

definition winChance :: "string \<Rightarrow> string \<Rightarrow> profile_weight list \<Rightarrow> rat" where
  "winChance market selection horses =
     (\<Sum>scenario\<leftarrow>horseRaceScenarios horses.
        of_int (sc_numerator scenario) / of_int (sc_denominator scenario)
        * prob (betWon market selection) (draws (length horses) (sc_horses scenario)))"

definition plainIds :: "profile_weight list \<Rightarrow> bool" where
  "plainIds horses \<longleftrightarrow> (\<forall>horse \<in> set horses. CHR '','' \<notin> set (pw_id horse))"

lemma splitOn_plain: "d \<notin> set w \<Longrightarrow> splitOn d w = [w]"
  by (induction w) auto

lemma splitOn_joinWith: "ws \<noteq> [] \<Longrightarrow> \<forall>w \<in> set ws. d \<notin> set w \<Longrightarrow> splitOn d (joinWith d ws) = ws"
  by (induction d ws rule: joinWith.induct) (simp_all add: splitOn_plain splitOn_append)

lemma canonicalIds_eq:
  assumes "xs \<noteq> []" "ys \<noteq> []" "\<forall>x \<in> set xs \<union> set ys. CHR '','' \<notin> set x"
  shows "canonicalIds xs = canonicalIds ys \<longleftrightarrow> mset xs = mset ys"
proof
  assume "canonicalIds xs = canonicalIds ys"
  then have "splitOn (CHR '','') (joinWith (CHR '','') (sort xs)) = splitOn (CHR '','') (joinWith (CHR '','') (sort ys))"
    by (simp add: canonicalIds_def)
  moreover have "sort xs \<noteq> []" "sort ys \<noteq> []" using assms(1, 2) by (metis length_0_conv length_sort)+
  ultimately have "sort xs = sort ys" using assms(3) by (subst (asm) (1 2) splitOn_joinWith) auto
  then show "mset xs = mset ys" by (metis mset_sort)
qed (metis canonicalIds_def mset_sort properties_for_sort sorted_sort)

lemma prob_support: "(\<And>d. d \<in> set ds \<Longrightarrow> E (fst d) = F (fst d)) \<Longrightarrow> prob E ds = prob F ds"
  unfolding prob_def by (intro arg_cong [of _ _ sum_list] map_cong) auto

lemma draws_support:
  "d \<in> set (draws k horses) \<Longrightarrow> weighted horses \<Longrightarrow>
   length (fst d) = k \<and> distinct (fst d) \<and> set (fst d) \<subseteq> pw_id ` set horses \<and> 0 \<le> snd d"
proof (induction k arbitrary: d horses)
  case (Suc k)
  then obtain horse e where e: "horse \<in> set horses" "e \<in> set (draws k (remove1 horse horses))"
      "fst d = pw_id horse # fst e" "snd d = share horse (totalWeight horses) * snd e"
    by (auto simp: draws.simps)
  note ih = Suc.IH [OF e(2) weighted_remove [OF Suc.prems(2)]]
  have "pw_id horse \<notin> pw_id ` set (remove1 horse horses)"
    using Suc.prems(2) e(1) by (auto simp: weighted_def distinct_map dest: inj_onD)
  moreover have ne: "horses \<noteq> []" using e(1) by auto
  moreover have "0 < totalWeight horses" "0 < pw_weight horse"
    using weighted_total [OF Suc.prems(2) ne] Suc.prems(2) e(1) by (auto simp: weighted_def)
  moreover have "pw_id ` set (remove1 horse horses) \<subseteq> pw_id ` set horses"
    by (intro image_mono set_remove1_subset)
  ultimately show ?case using ih e(1, 3, 4) by (auto simp: share_def)
qed simp

lemma prob_mono:
  assumes "weighted horses" "\<And>d. d \<in> set (draws k horses) \<Longrightarrow> E (fst d) \<Longrightarrow> F (fst d)"
  shows "prob E (draws k horses) \<le> prob F (draws k horses)"
  unfolding prob_def by (rule sum_list_mono) (use assms draws_support in auto)

section \<open>The three markets\<close>

lemma betWon_prefix:
  "betWon market selection order =
     betWon market selection (take (if market = ''quinella-place'' then 3 else if market = ''win'' then 1 else 2) order)"
  by (simp add: betWon_def)

lemma win_chance:
  assumes "weighted horses" "a \<in> set horses"
  shows "prob (betWon ''win'' (canonicalIds [pw_id a])) (draws (length horses) horses)
           = share a (totalWeight horses)"
proof -
  have n: "1 \<le> length horses" using assms(2) by (cases horses) auto
  have "prob (betWon ''win'' (canonicalIds [pw_id a])) (draws (length horses) horses)
          = prob (\<lambda>order. take 1 order = map pw_id [a]) (draws (length horses) horses)"
    by (rule prob_cong) (simp add: betWon_def canonicalIds_def)
  also have "\<dots> = prob (\<lambda>order. order = map pw_id [a]) (draws 1 horses)"
    using prob_prefix [OF assms(1) n order_refl, of "\<lambda>order. order = map pw_id [a]"] by simp
  also have "\<dots> = share a (totalWeight horses)"
    using prob_path [OF assms(1), of "[a]"] assms(2) by simp
  finally show ?thesis .
qed

lemma quinella_chance:
  assumes "weighted horses" "plainIds horses" "a \<in> set horses" "b \<in> set horses" "a \<noteq> b"
  shows "prob (betWon ''quinella'' (canonicalIds [pw_id a, pw_id b])) (draws (length horses) horses)
           = pathProb (totalWeight horses) [a, b] + pathProb (totalWeight horses) [b, a]"
proof -
  have ids: "pw_id a \<noteq> pw_id b" using assms by (auto simp: weighted_def distinct_map dest: inj_onD)
  have n: "2 \<le> length horses" using assms(3-5) by (cases horses; cases "tl horses") auto
  let ?E = "\<lambda>order. canonicalIds [pw_id a, pw_id b] = canonicalIds order"
  have "prob (betWon ''quinella'' (canonicalIds [pw_id a, pw_id b])) (draws (length horses) horses)
          = prob (\<lambda>order. ?E (take 2 order)) (draws (length horses) horses)"
    by (rule prob_cong) (simp add: betWon_def)
  also have "\<dots> = prob ?E (draws 2 horses)" by (rule prob_prefix [OF assms(1) n order_refl])
  also have "\<dots> = prob (\<lambda>order. order = map pw_id [a, b] \<or> order = map pw_id [b, a]) (draws 2 horses)"
  proof (rule prob_support)
    fix d assume d: "d \<in> set (draws 2 horses)"
    then obtain x y where xy: "fst d = [x, y]" "set [x, y] \<subseteq> pw_id ` set horses"
      using draws_support [OF d assms(1)] by (auto simp: length_Suc_conv numeral_2_eq_2)
    have "?E [x, y] \<longleftrightarrow> mset [pw_id a, pw_id b] = mset [x, y]"
      by (rule canonicalIds_eq) (use assms(2-4) xy(2) in \<open>auto simp: plainIds_def\<close>)
    also have "\<dots> \<longleftrightarrow> [x, y] = map pw_id [a, b] \<or> [x, y] = map pw_id [b, a]"
      using ids by (auto simp: add_eq_conv_ex)
    finally show "?E (fst d) = (fst d = map pw_id [a, b] \<or> fst d = map pw_id [b, a])" using xy(1) by simp
  qed
  also have "\<dots> = prob (\<lambda>order. order = map pw_id [a, b]) (draws 2 horses)
                  + prob (\<lambda>order. order = map pw_id [b, a]) (draws 2 horses)"
    by (rule prob_or) (use ids in auto)
  also have "\<dots> = pathProb (totalWeight horses) [a, b] + pathProb (totalWeight horses) [b, a]"
    using prob_path [OF assms(1), of "[a, b]"] prob_path [OF assms(1), of "[b, a]"] assms(3-5)
    by (simp add: numeral_2_eq_2)
  finally show ?thesis .
qed

lemma prob_remaining:
  assumes "weighted horses" "first \<in> set horses"
  shows "prob E (draws (Suc k) (remove1 first horses)) =
    (\<Sum>second\<leftarrow>horses. if pw_id second = pw_id first then 0
       else share second (totalWeight horses - pw_weight first)
              * prob (\<lambda>order. E (pw_id second # order)) (draws k (remove1 second (remove1 first horses))))"
  unfolding prob_step totalWeight_remove [OF assms(2)] by (rule sum_other_horses [OF assms])

lemma prob_last:
  assumes "weighted horses" "first \<in> set horses" "second \<in> set horses" "pw_id second \<noteq> pw_id first"
  shows "prob E (draws 1 (remove1 second (remove1 first horses))) =
    (\<Sum>third\<leftarrow>horses. if pw_id third = pw_id first \<or> pw_id third = pw_id second \<or> \<not> E [pw_id third] then 0
       else share third (totalWeight horses - pw_weight first - pw_weight second))"
proof -
  have second: "second \<in> set (remove1 first horses)" using assms(3, 4) by (metis in_set_remove1)
  let ?rest = "remove1 second (remove1 first horses)"
  let ?part = "\<lambda>third. share third (totalWeight horses - pw_weight first - pw_weight second) * (if E [pw_id third] then 1 else 0)"
  have whole: "totalWeight ?rest = totalWeight horses - pw_weight first - pw_weight second"
    by (simp add: totalWeight_remove assms(2) second)
  have "prob E (draws 1 ?rest) = (\<Sum>third\<leftarrow>?rest. ?part third)"
    unfolding One_nat_def prob_step whole draws_0 prob_single ..
  also have "\<dots> = (\<Sum>third\<leftarrow>remove1 first horses. if pw_id third = pw_id second then 0 else ?part third)"
    by (rule sum_other_horses [OF weighted_remove [OF assms(1)] second])
  also have "\<dots> = (\<Sum>third\<leftarrow>horses. if pw_id third = pw_id first then 0
                     else if pw_id third = pw_id second then 0 else ?part third)"
    by (rule sum_other_horses [OF assms(1, 2)])
  also have "\<dots> = (\<Sum>third\<leftarrow>horses. if pw_id third = pw_id first \<or> pw_id third = pw_id second \<or> \<not> E [pw_id third] then 0
       else share third (totalWeight horses - pw_weight first - pw_weight second))"
    by (intro arg_cong [of _ _ sum_list] map_cong) simp_all
  finally show ?thesis .
qed

text \<open>The enumeration of the first three places.\<close>

definition placeTerm :: "string list \<Rightarrow> int \<Rightarrow> profile_weight \<Rightarrow> profile_weight \<Rightarrow> profile_weight \<Rightarrow> rat" where
  "placeTerm selection whole first second third =
     (if pw_id third = pw_id first \<or> pw_id third = pw_id second
         \<or> \<not> (\<forall>s \<in> set selection. s = pw_id first \<or> s = pw_id second \<or> s = pw_id third)
      then 0 else pathProb whole [first, second, third])"

lemma prob_two_more:
  assumes "weighted horses" "first \<in> set horses"
  shows "share first (totalWeight horses)
        * prob (\<lambda>order. \<forall>s \<in> set selection. s \<in> set (pw_id first # order)) (draws 2 (remove1 first horses))
    = (\<Sum>second\<leftarrow>horses. if pw_id second = pw_id first then 0
         else \<Sum>third\<leftarrow>horses. placeTerm selection (totalWeight horses) first second third)"
proof -
  let ?W = "totalWeight horses"
  let ?E = "\<lambda>order. \<forall>s \<in> set selection. s \<in> set order"
  have "share first ?W * (share second (?W - pw_weight first)
          * prob (\<lambda>order. ?E (pw_id first # pw_id second # order)) (draws 1 (remove1 second (remove1 first horses))))
      = (\<Sum>third\<leftarrow>horses. placeTerm selection ?W first second third)"
    if "second \<in> set horses" "pw_id second \<noteq> pw_id first" for second
    unfolding prob_last [OF assms that] sum_list_const_mult [symmetric] placeTerm_def
    by (intro arg_cong [of _ _ sum_list] map_cong) auto
  then show ?thesis
    unfolding numeral_2_eq_2 prob_remaining [OF assms] sum_list_const_mult [symmetric] One_nat_def
    by (intro arg_cong [of _ _ sum_list] map_cong) simp_all
qed

lemma prob_three:
  assumes "weighted horses"
  shows "prob (\<lambda>order. \<forall>s \<in> set selection. s \<in> set order) (draws 3 horses)
    = (\<Sum>first\<leftarrow>horses. \<Sum>second\<leftarrow>horses. if pw_id second = pw_id first then 0
         else \<Sum>third\<leftarrow>horses. placeTerm selection (totalWeight horses) first second third)"
proof -
  have three: "3 = Suc 2" by simp
  show ?thesis
    unfolding three by (subst prob_step) (intro arg_cong [of _ _ sum_list] map_cong refl prob_two_more assms)
qed

lemma adds_topThree:
  assumes "weighted horses" "3 \<le> length horses"
  shows "adds (\<lambda>acc. fold (\<lambda>first. fold (\<lambda>second acc. if pw_id second = pw_id first then acc
              else fold (topThreeTerm selection (totalWeight horses) first second) horses acc) horses) horses acc)
          (prob (\<lambda>order. \<forall>s \<in> set selection. s \<in> set order) (draws 3 horses))"
proof -
  let ?W = "totalWeight horses"
  let ?part = "placeTerm selection ?W"
  have positive: "0 < ?W - pw_weight first - pw_weight second \<and> 0 < ?W - pw_weight first \<and> 0 < ?W"
    if "first \<in> set horses" "second \<in> set horses" "pw_id second \<noteq> pw_id first" for first second
  proof -
    have second: "second \<in> set (remove1 first horses)" using that by (metis in_set_remove1)
    let ?rest = "remove1 second (remove1 first horses)"
    have "?rest \<noteq> []" using assms(2) that(1) second by (metis One_nat_def Suc_eq_plus1 length_0_conv length_remove1
          diff_diff_left not_less_eq_eq one_add_one numeral_3_eq_3 diff_is_0_eq numeral_2_eq_2 Suc_1 add.commute)
    then have "0 < totalWeight ?rest" by (intro weighted_total weighted_remove assms(1))
    moreover have "0 < pw_weight first" "0 < pw_weight second" using that assms(1) by (auto simp: weighted_def)
    ultimately show ?thesis using that second by (simp add: totalWeight_remove)
  qed
  have third: "adds (topThreeTerm selection ?W first second third) (?part first second third)"
    if "first \<in> set horses" "second \<in> set horses" "pw_id second \<noteq> pw_id first" "third \<in> set horses" for first second third
  proof -
    let ?f = "\<lparr>fr_numerator = pw_weight first * pw_weight second * pw_weight third,
               fr_denominator = ?W * (?W - pw_weight first) * (?W - pw_weight first - pw_weight second)\<rparr>"
    have "properFraction ?f" using positive [OF that(1-3)] that assms(1)
      by (auto simp: properFraction_def weighted_def intro!: mult_nonneg_nonneg mult_pos_pos less_imp_le)
    moreover have "ratOf ?f = pathProb ?W [first, second, third]" by (simp add: ratOf_def share_def mult.assoc)
    ultimately have "adds (\<lambda>acc. addFractions acc ?f) (pathProb ?W [first, second, third])"
      using adds_fraction by metis
    then show ?thesis unfolding topThreeTerm_def placeTerm_def by (intro adds_if adds_nothing)
  qed
  let ?second = "\<lambda>first second. if pw_id second = pw_id first then 0 else \<Sum>third\<leftarrow>horses. ?part first second third"
  have "adds (fold (\<lambda>first. fold (\<lambda>second acc. if pw_id second = pw_id first then acc
              else fold (topThreeTerm selection ?W first second) horses acc) horses) horses)
          (\<Sum>first\<leftarrow>horses. \<Sum>second\<leftarrow>horses. ?second first second)"
    by (intro adds_fold adds_if adds_nothing third)
  moreover have "prob (\<lambda>order. \<forall>s \<in> set selection. s \<in> set order) (draws 3 horses)
      = (\<Sum>first\<leftarrow>horses. \<Sum>second\<leftarrow>horses. ?second first second)"
    by (rule prob_three [OF assms(1)])
  ultimately show ?thesis by simp
qed

section \<open>The price of a scenario\<close>

lemma selected_one:
  assumes "weighted horses" "validBet ''win'' selection horses"
  shows "\<exists>a \<in> set horses. selectedHorses horses selection = [a] \<and> selection = [pw_id a]"
proof -
  have "length selection = 1" "length (selectedHorses horses selection) = 1"
    using assms(2) by (simp_all add: validBet_def selectionSize_def)
  then obtain s a where s: "selection = [s]" "selectedHorses horses selection = [a]"
    by (auto simp: length_Suc_conv)
  then have "a \<in> set (selectedHorses horses selection)" by simp
  then show ?thesis using s by (auto simp: selectedHorses_def)
qed

lemma selected_two:
  assumes "weighted horses" "validBet market selection horses" "market \<noteq> ''win''"
  obtains a b where "selectedHorses horses selection = [a, b]" "a \<in> set horses" "b \<in> set horses" "a \<noteq> b"
    "mset selection = mset [pw_id a, pw_id b]"
proof -
  have n: "length selection = 2" "length (selectedHorses horses selection) = 2"
    using assms(2, 3) by (simp_all add: validBet_def selectionSize_def)
  then obtain a b where ab: "selectedHorses horses selection = [a, b]" by (auto simp: length_Suc_conv numeral_2_eq_2)
  have in_sel: "a \<in> set (selectedHorses horses selection)" "b \<in> set (selectedHorses horses selection)" using ab by simp_all
  have "distinct (map pw_id (selectedHorses horses selection))"
    using assms(1) by (simp add: weighted_def selectedHorses_def distinct_map_filter)
  then have ids: "pw_id a \<noteq> pw_id b" using ab by simp
  obtain s t where st: "selection = [s, t]" using n(1) by (auto simp: length_Suc_conv numeral_2_eq_2)
  have "pw_id a \<in> set selection" "pw_id b \<in> set selection" using in_sel by (simp_all add: selectedHorses_def)
  then have "mset selection = mset [pw_id a, pw_id b]" using ids st by (auto simp: add_mset_commute)
  moreover have "a \<in> set horses" "b \<in> set horses" using in_sel by (simp_all add: selectedHorses_def)
  ultimately show thesis using that ab ids by blast
qed

lemma canonical_pair:
  "mset selection = mset [x, y] \<Longrightarrow> canonicalIds selection = canonicalIds [x, y]"
  by (metis canonicalIds_def mset_sort properties_for_sort sorted_sort)

lemma placed_iff:
  assumes "plainIds horses" "set selection \<subseteq> pw_id ` set horses" "selection \<noteq> []"
  shows "betWon ''quinella-place'' (canonicalIds selection) order \<longleftrightarrow> (\<forall>s \<in> set selection. s \<in> set (take 3 order))"
proof -
  have "sort selection \<noteq> []" using assms(3) by (metis length_0_conv length_sort)
  then have "splitOn (CHR '','') (canonicalIds selection) = sort selection"
    unfolding canonicalIds_def using assms(1, 2) by (intro splitOn_joinWith) (auto simp: plainIds_def)
  then show ?thesis by (simp add: betWon_def list_all_iff)
qed

lemma place_chance:
  assumes "weighted horses" "plainIds horses" "set selection \<subseteq> pw_id ` set horses" "selection \<noteq> []" "3 \<le> length horses"
  shows "prob (betWon ''quinella-place'' (canonicalIds selection)) (draws (length horses) horses)
           = prob (\<lambda>order. \<forall>s \<in> set selection. s \<in> set order) (draws 3 horses)"
  using prob_prefix [OF assms(1, 5) order_refl, of "\<lambda>order. \<forall>s \<in> set selection. s \<in> set order"]
  by (simp add: placed_iff [OF assms(2-4)] cong: prob_cong)

lemma weighted_two:
  assumes "weighted horses" "a \<in> set horses" "b \<in> set horses" "a \<noteq> b"
  shows "0 < pw_weight a" "0 < totalWeight horses" "0 < totalWeight horses - pw_weight a"
proof -
  have b: "b \<in> set (remove1 a horses)" using assms by simp
  show "0 < pw_weight a" using assms by (auto simp: weighted_def)
  have "horses \<noteq> []" "remove1 a horses \<noteq> []" using assms(2) b by auto
  then show "0 < totalWeight horses" "0 < totalWeight horses - pw_weight a"
    using weighted_total [OF assms(1)] weighted_total [OF weighted_remove [OF assms(1)], of a]
    by (simp_all add: totalWeight_remove assms(2))
qed

definition priced :: "string \<Rightarrow> string list \<Rightarrow> profile_weight list \<Rightarrow> bool" where
  "priced market selection horses \<longleftrightarrow>
     weighted horses \<and> plainIds horses \<and> validBet market selection horses
     \<and> (market = ''quinella-place'' \<longrightarrow> 3 \<le> length horses)"

lemma two_orders:
  "0 < t \<Longrightarrow> x < t \<Longrightarrow> y < t \<Longrightarrow>
   x * y * (2 * t - (x + y)) / (t * ((t - x) * (t - y))) = x * y / (t * (t - x)) + y * x / (t * (t - y))"
  for t x y :: rat
proof -
  have "x * y * (p + q) / (t * (p * q)) = x * y / (t * p) + y * x / (t * q)" if "0 < t" "0 < p" "0 < q" for p q :: rat
    using that by (simp add: field_simps)
  from this [of "t - x" "t - y"] show "0 < t \<Longrightarrow> x < t \<Longrightarrow> y < t \<Longrightarrow> ?thesis" by (simp add: algebra_simps)
qed

lemma branch_value:
  assumes "priced market selection horses"
  shows "properFraction (branchProbability market selection horses)"
    and "ratOf (branchProbability market selection horses)
           = prob (betWon market (canonicalIds selection)) (draws (length horses) horses)" (is "_ = ?P")
proof -
  have w: "weighted horses" and plain: "plainIds horses" and bet: "validBet market selection horses"
    using assms by (auto simp: priced_def)
  let ?B = "branchProbability market selection horses"
  consider (win) "market = ''win''" | (quinella) "market = ''quinella''" | (place) "market = ''quinella-place''"
    using bet by (auto simp: validBet_def MARKETS_def)
  then have "properFraction ?B \<and> ratOf ?B = ?P"
  proof cases
    case win
    then obtain a where a: "a \<in> set horses" "selectedHorses horses selection = [a]" "selection = [pw_id a]"
      using selected_one [OF w] bet by blast
    have "horses \<noteq> []" using a(1) by auto
    then have "0 < pw_weight a" "0 < totalWeight horses"
      using w a(1) weighted_total [OF w] by (simp_all add: weighted_def)
    then show ?thesis using win a win_chance [OF w a(1)]
      by (simp add: branchProbability_def Let_def ratOf_def properFraction_def share_def)
  next
    case quinella
    then obtain a b where ab: "selectedHorses horses selection = [a, b]" "a \<in> set horses" "b \<in> set horses" "a \<noteq> b"
        "mset selection = mset [pw_id a, pw_id b]"
      using selected_two [OF w bet] by auto
    note pos = weighted_two [OF w ab(2-4)] weighted_two [OF w ab(3, 2) ab(4) [symmetric]]
    let ?t = "totalWeight horses"
    have P: "?P = pathProb ?t [a, b] + pathProb ?t [b, a]"
      using quinella quinella_chance [OF w plain ab(2-4)] canonical_pair [OF ab(5)] by simp
    have B: "?B = \<lparr>fr_numerator = pw_weight a * pw_weight b * (2 * ?t - (pw_weight a + pw_weight b)),
                   fr_denominator = ?t * ((?t - pw_weight a) * (?t - pw_weight b))\<rparr>"
      using quinella by (simp add: branchProbability_def Let_def ab(1) totalWeight_sum)
    have "properFraction ?B" using pos by (simp add: B properFraction_def)
    moreover have "ratOf ?B = ?P"
      unfolding P B ratOf_def share_def pathProb.simps
      using pos by (simp add: two_orders [of "of_int ?t" "of_int (pw_weight a)" "of_int (pw_weight b)"])
    ultimately show ?thesis ..
  next
    case place
    then obtain a b where ab: "selectedHorses horses selection = [a, b]" "a \<in> set horses" "b \<in> set horses"
        "a \<noteq> b" "mset selection = mset [pw_id a, pw_id b]"
      using selected_two [OF w bet] by auto
    have n: "3 \<le> length horses" using place assms by (simp add: priced_def)
    have sel: "set selection \<subseteq> pw_id ` set horses" "selection \<noteq> []"
      using ab(2, 3) mset_eq_setD [OF ab(5)] by auto
    have B: "?B = fold (\<lambda>first. fold (\<lambda>second acc. if pw_id second = pw_id first then acc
              else fold (topThreeTerm selection (totalWeight horses) first second) horses acc) horses) horses
              \<lparr>fr_numerator = 0, fr_denominator = 1\<rparr>"
      using place by (simp add: branchProbability_def topThreePairProbability_def Let_def)
    show ?thesis unfolding B
      using adds_value [OF adds_topThree [OF w n]] adds_proper [OF adds_topThree [OF w n]]
        place_chance [OF w plain sel n] place by simp
  qed
  then show "properFraction ?B" "ratOf ?B = ?P" by simp_all
qed

text \<open>Every valid bet can win.\<close>

lemma path_chance:
  assumes "weighted horses" "path \<noteq> []" "length path \<le> 2" "distinct path" "set path \<subseteq> set horses"
    and "\<And>order. take (length path) order = map pw_id path \<Longrightarrow> betWon market selection order"
  shows "0 < prob (betWon market selection) (draws (length horses) horses)"
proof -
  have n: "length path \<le> length horses"
    using assms(4, 5) by (metis card_mono card_length distinct_card le_trans List.finite_set)
  have "0 < pathProb (totalWeight horses) path"
  proof (cases "tl path")
    case Nil
    then obtain a where a: "path = [a]" using assms(2) by (cases path) auto
    then have "horses \<noteq> []" using assms(5) by auto
    then show ?thesis using a assms(1, 5) weighted_total [OF assms(1)] by (auto simp: share_def weighted_def)
  next
    case (Cons b rest)
    then obtain a where p: "path = [a, b]" using assms(2, 3) by (cases path; cases rest) auto
    then show ?thesis using assms(4, 5) weighted_two [OF assms(1), of a b] weighted_two [OF assms(1), of b a]
      by (simp add: share_def)
  qed
  also have "\<dots> = prob (\<lambda>order. order = map pw_id path) (draws (length path) horses)"
    using prob_path [OF assms(1, 4, 5)] by simp
  also have "\<dots> = prob (\<lambda>order. take (length path) order = map pw_id path) (draws (length horses) horses)"
    by (rule prob_prefix [OF assms(1) n order_refl, symmetric])
  also have "\<dots> \<le> prob (betWon market selection) (draws (length horses) horses)"
    by (rule prob_mono [OF assms(1)]) (rule assms(6))
  finally show ?thesis .
qed

lemma chance_positive:
  assumes "priced market selection horses"
  shows "0 < prob (betWon market (canonicalIds selection)) (draws (length horses) horses)"
proof -
  have w: "weighted horses" and plain: "plainIds horses" and bet: "validBet market selection horses"
    using assms by (auto simp: priced_def)
  show ?thesis
  proof (cases "market = ''win''")
    case True
    then obtain a where "a \<in> set horses" "selection = [pw_id a]" using selected_one [OF w] bet by blast
    then show ?thesis using True by (intro path_chance [OF w, of "[a]"]) (simp_all add: betWon_def canonicalIds_def)
  next
    case False
    then obtain a b where ab: "a \<in> set horses" "b \<in> set horses" "a \<noteq> b" "mset selection = mset [pw_id a, pw_id b]"
      using selected_two [OF w bet] by blast
    have sel: "set selection = {pw_id a, pw_id b}" using mset_eq_setD [OF ab(4)] by simp
    have "betWon market (canonicalIds selection) order" if "take 2 order = [pw_id a, pw_id b]" for order
    proof (cases "market = ''quinella-place''")
      case True
      have "set (take 2 order) \<subseteq> set (take 3 order)" by (rule set_take_subset_set_take) simp
      moreover have "set selection \<subseteq> pw_id ` set horses" "selection \<noteq> []" using ab(1, 2) sel by auto
      ultimately show ?thesis using that sel True by (simp add: placed_iff [OF plain])
    next
      case False
      then show ?thesis using \<open>market \<noteq> ''win''\<close> that canonical_pair [OF ab(4)] by (simp add: betWon_def)
    qed
    then show ?thesis using ab by (intro path_chance [OF w, of "[a, b]"]) (simp_all add: numeral_2_eq_2)
  qed
qed

section \<open>The quote\<close>

lemma scenario_ids: "map pw_id (scenarioHorses jokerWeight horses) = map pw_id horses"
  by (simp add: scenarioHorses_def)

lemma scenario_selected:
  "length (selectedHorses (scenarioHorses jokerWeight horses) selection) = length (selectedHorses horses selection)"
  by (simp add: selectedHorses_def scenarioHorses_def filter_map comp_def)

lemma scenario_priced:
  assumes "priced market selection horses" "scenario \<in> set (horseRaceScenarios horses)"
  shows "priced market selection (sc_horses scenario) \<and> length (sc_horses scenario) = length horses
    \<and> 0 < sc_numerator scenario \<and> 0 < sc_denominator scenario"
proof -
  have "priced market selection (scenarioHorses jokerWeight horses)" if "0 < jokerWeight" for jokerWeight
  proof -
    have "set (map pw_id (scenarioHorses jokerWeight horses)) = set (map pw_id horses)" by (simp only: scenario_ids)
    then have "plainIds (scenarioHorses jokerWeight horses)"
      using assms(1) unfolding priced_def plainIds_def by (metis (no_types, lifting) image_eqI imageE list.set_map)
    moreover have "weighted (scenarioHorses jokerWeight horses)"
      using assms(1) that unfolding priced_def weighted_def scenario_ids by (auto simp: scenarioHorses_def)
    ultimately show ?thesis
      using assms(1) by (simp add: priced_def validBet_def scenario_selected) (simp add: scenarioHorses_def)
  qed
  then show ?thesis using assms by (auto simp: horseRaceScenarios_def scenarioHorses_def split: if_splits)
qed

lemma quoteProbability_value:
  assumes "priced market selection horses"
  shows "properFraction (quoteProbability market selection horses)"
    and "ratOf (quoteProbability market selection horses) = winChance market (canonicalIds selection) horses"
proof -
  let ?step = "\<lambda>scenario probability.
      let branch = branchProbability market selection (sc_horses scenario)
      in addFractions probability
           \<lparr>fr_numerator = fr_numerator branch * sc_numerator scenario,
            fr_denominator = fr_denominator branch * sc_denominator scenario\<rparr>"
  let ?v = "\<lambda>scenario. of_int (sc_numerator scenario) / of_int (sc_denominator scenario)
      * prob (betWon market (canonicalIds selection)) (draws (length horses) (sc_horses scenario))"
  have "adds (?step scenario) (?v scenario)" if "scenario \<in> set (horseRaceScenarios horses)" for scenario
  proof -
    note s = scenario_priced [OF assms that]
    let ?branch = "branchProbability market selection (sc_horses scenario)"
    let ?f = "\<lparr>fr_numerator = fr_numerator ?branch * sc_numerator scenario,
               fr_denominator = fr_denominator ?branch * sc_denominator scenario\<rparr>"
    have "properFraction ?f" using branch_value(1) [OF conjunct1 [OF s]] s by (simp add: properFraction_def)
    moreover have "ratOf ?f = of_int (sc_numerator scenario) / of_int (sc_denominator scenario) * ratOf ?branch"
      by (simp add: ratOf_def mult.commute)
    then have "ratOf ?f = ?v scenario" using branch_value(2) [OF conjunct1 [OF s]] s by simp
    ultimately have "adds (\<lambda>acc. addFractions acc ?f) (?v scenario)" using adds_fraction by metis
    then show ?thesis by (simp add: Let_def)
  qed
  then have all: "adds (fold ?step (horseRaceScenarios horses)) (\<Sum>scenario\<leftarrow>horseRaceScenarios horses. ?v scenario)"
    by (rule adds_fold)
  have q: "quoteProbability market selection horses
      = fold ?step (horseRaceScenarios horses) \<lparr>fr_numerator = 0, fr_denominator = 1\<rparr>"
    by (simp add: quoteProbability_def foldl_conv_fold)
  show "properFraction (quoteProbability market selection horses)"
    "ratOf (quoteProbability market selection horses) = winChance market (canonicalIds selection) horses"
    unfolding q winChance_def by (rule adds_proper [OF all], rule adds_value [OF all])
qed

lemma sum_positive:
  fixes f :: "'a \<Rightarrow> rat"
  shows "\<forall>x \<in> set xs. 0 < f x \<Longrightarrow> xs \<noteq> [] \<Longrightarrow> 0 < (\<Sum>x\<leftarrow>xs. f x)"
  by (cases xs) (auto intro!: add_pos_nonneg sum_list_nonneg simp: less_imp_le)

lemma winChance_positive:
  assumes "priced market selection horses"
  shows "0 < winChance market (canonicalIds selection) horses"
proof -
  have chance: "0 < of_int (sc_numerator scenario) / of_int (sc_denominator scenario)
      * prob (betWon market (canonicalIds selection)) (draws (length horses) (sc_horses scenario))"
    if "scenario \<in> set (horseRaceScenarios horses)" for scenario
    using scenario_priced [OF assms that] chance_positive by fastforce
  have "horseRaceScenarios horses \<noteq> []" by (simp add: horseRaceScenarios_def)
  then show ?thesis unfolding winChance_def by (intro sum_positive ballI chance)
qed

lemma multiplier_value:
  assumes "priced market selection horses"
  defines "m \<equiv> quoteMultiplier market selection horses"
  shows "ratOf m * winChance market (canonicalIds selection) horses = 97 / 100"
    and "0 < fr_numerator m" "0 < fr_denominator m"
proof -
  let ?p = "quoteProbability market selection horses"
  have p: "properFraction ?p" "ratOf ?p = winChance market (canonicalIds selection) horses"
    by (rule quoteProbability_value [OF assms(1)])+
  have "0 < ratOf ?p" using p(2) winChance_positive [OF assms(1)] by simp
  then have pos: "0 < fr_numerator ?p" "0 < fr_denominator ?p"
    using p(1) by (auto simp: ratOf_def properFraction_def zero_less_divide_iff)
  have m: "m = reduceFraction (fr_denominator ?p * 97) (fr_numerator ?p * 100)"
    by (simp add: m_def quoteMultiplier_def HORSE_RACING_FEE_PERCENT_def Let_def)
  have range: "0 \<le> fr_denominator ?p * 97" "0 < fr_numerator ?p * 100" using pos by simp_all
  show "0 < fr_numerator m" using reduceFraction_value(4) [OF range] pos m by simp
  show "0 < fr_denominator m" using reduceFraction_value(2) [OF range] m by (simp add: properFraction_def)
  have "ratOf m = of_int (fr_denominator ?p) * 97 / (of_int (fr_numerator ?p) * 100)"
    using reduceFraction_value(1) [OF range] m by simp
  then show "ratOf m * winChance market (canonicalIds selection) horses = 97 / 100"
    using pos unfolding p(2) [symmetric] ratOf_def by simp
qed

lemma bigintString_parsed:
  assumes "0 < n"
  shows "isPositiveDecimal (bigintString n)" and "int (decimalValue 0 (bigintString n)) = n"
  using assms decimal_head [of "nat n"] decimal_digits [of "nat n"]
  by (simp_all add: bigintString_def isPositiveDecimal_def decimalValue_decimal)

lemma quoteHorseBet_ok:
  assumes "quoteHorseBet horses market selection amount = Inr q" "plainIds horses"
  defines "m \<equiv> quoteMultiplier market selection horses"
  shows "priced market selection horses" and "50 \<le> amount" "amount \<le> 1000"
    and "hq_numerator q = bigintString (fr_numerator m)" "hq_denominator q = bigintString (fr_denominator m)"
    and "hq_potentialPayout q = (amount * fr_numerator m) div fr_denominator m"
    and "hq_potentialPayout q \<le> 2 ^ 53 - 1"
proof -
  have checks: "50 \<le> amount \<and> amount \<le> 1000 \<and> validRoster horses \<and> validBet market selection horses
      \<and> (market = ''quinella-place'' \<longrightarrow> 3 \<le> length horses)"
    using assms(1) by (auto simp: quoteHorseBet_def HORSE_RACING_MIN_BET_GOLD_def HORSE_RACING_MAX_BET_GOLD_def split: if_splits)
  have "distinct (map pw_id horses)"
    using checks length_remdups_card_conv [of "rev (map pw_id horses)"]
    by (simp add: validRoster_def jsUnique_def card_distinct)
  then show priced: "priced market selection horses"
    using checks assms(2) by (auto simp: priced_def weighted_def validRoster_def list_all_iff)
  note pos = multiplier_value(2,3) [OF priced, folded m_def]
  show "50 \<le> amount" "amount \<le> 1000" using checks by simp_all
  obtain payout where payout: "quoteHorsePayout (bigintString (fr_numerator m)) (bigintString (fr_denominator m)) amount = Inr payout"
      "q = \<lparr>hq_numerator = bigintString (fr_numerator m), hq_denominator = bigintString (fr_denominator m),
            hq_potentialPayout = payout\<rparr>"
    using assms(1) by (auto simp: quoteHorseBet_def Let_def m_def ok_iff split: if_splits)
  have "payout = (amount * fr_numerator m) div fr_denominator m \<and> payout \<le> 2 ^ 53 - 1"
    using payout(1) checks pos
    by (auto simp: quoteHorsePayout_def bigintString_parsed sdiv_nonneg Let_def split: if_splits)
  then show "hq_numerator q = bigintString (fr_numerator m)" "hq_denominator q = bigintString (fr_denominator m)"
    "hq_potentialPayout q = (amount * fr_numerator m) div fr_denominator m" "hq_potentialPayout q \<le> 2 ^ 53 - 1"
    using payout(2) by simp_all
qed

section \<open>Fair prices\<close>

lemma floor_div:
  fixes x d :: int
  assumes "0 < d"
  shows "x div d * d \<le> x" and "x < (x div d + 1) * d"
  using assms by (simp_all add: distrib_right flip: minus_mod_eq_div_mult)

text \<open>
  C30. The quoted odds are exact. For any roster with positive weights and distinct ids, and each of the three
  kinds of bet, the quoted odds times the chance that the settlement rule pays the bet is exactly 97/100, where
  the chance is that of the whole finish order, over the hidden forms of the joker and the draw of every place:
  the closed formulas for the first two places and the enumeration of the first three are those of the full race.
\<close>

theorem quoted_odds_exact:
  assumes "quoteHorseBet horses market selection amount = Inr q" and "plainIds horses"
  shows "of_nat (decimalValue 0 (hq_numerator q)) / of_nat (decimalValue 0 (hq_denominator q))
           * winChance market (canonicalIds selection) horses = 97 / 100"
proof -
  let ?m = "quoteMultiplier market selection horses"
  note ok = quoteHorseBet_ok [OF assms]
  note m = multiplier_value [OF ok(1)]
  have "int (decimalValue 0 (hq_numerator q)) = fr_numerator ?m" "int (decimalValue 0 (hq_denominator q)) = fr_denominator ?m"
    unfolding ok(4, 5) by (rule bigintString_parsed(2) [OF m(2)], rule bigintString_parsed(2) [OF m(3)])
  then have "of_nat (decimalValue 0 (hq_numerator q)) = (of_int (fr_numerator ?m) :: rat)"
    "of_nat (decimalValue 0 (hq_denominator q)) = (of_int (fr_denominator ?m) :: rat)"
    by (metis of_int_of_nat_eq)+
  then show ?thesis using m(1) by (simp add: ratOf_def)
qed

definition twoHorses :: "profile_weight list" where
  "twoHorses = [\<lparr>pw_id = ''1'', pw_weight = 1\<rparr>, \<lparr>pw_id = ''2'', pw_weight = 3\<rparr>]"

lemma twoHorses_quote:
  "quoteHorseBet twoHorses ''quinella'' [''2'', ''1''] 100
     = Inr \<lparr>hq_numerator = ''97'', hq_denominator = ''100'', hq_potentialPayout = 97\<rparr>"
  "quoteHorseBet twoHorses ''win'' [''1''] 100
     = Inr \<lparr>hq_numerator = ''97'', hq_denominator = ''25'', hq_potentialPayout = 388\<rparr>"
  "plainIds twoHorses"
  by code_simp+

theorem quoted_odds_exact_witness:
  "of_nat (decimalValue 0 ''97'') / of_nat (decimalValue 0 ''25'')
     * winChance ''win'' (canonicalIds [''1'']) twoHorses = 97 / 100"
  using quoted_odds_exact [OF twoHorses_quote(2,3)] by simp

text \<open>
  A bet never costs the house in expectation, and rounding costs the player less than one gold. The payout of
  an accepted bet times its chance is at most 97/100 of the stake, one gold more would exceed it, and the payout
  is a safe integer.
\<close>

theorem expected_payout_bounded:
  assumes "quoteHorseBet horses market selection amount = Inr q" and "plainIds horses"
  shows "of_int (hq_potentialPayout q) * winChance market (canonicalIds selection) horses \<le> 97 / 100 * of_int amount
    \<and> 97 / 100 * of_int amount < of_int (hq_potentialPayout q + 1) * winChance market (canonicalIds selection) horses
    \<and> isSafeInteger (hq_potentialPayout q)"
proof -
  let ?m = "quoteMultiplier market selection horses" and ?P = "winChance market (canonicalIds selection) horses"
  note ok = quoteHorseBet_ok [OF assms]
  note m = multiplier_value [OF ok(1)]
  let ?n = "fr_numerator ?m" and ?d = "fr_denominator ?m"
  have P: "0 < ?P" by (rule winChance_positive [OF ok(1)])
  have odds: "of_int ?n * ?P = 97 / 100 * of_int ?d" using m by (simp add: ratOf_def field_simps)
  have payout: "hq_potentialPayout q * ?d \<le> amount * ?n" "amount * ?n < (hq_potentialPayout q + 1) * ?d"
    unfolding ok(6) by (rule floor_div [OF m(3)])+
  have d: "0 < (of_int ?d :: rat)" using m(3) by simp
  have "of_int (hq_potentialPayout q) * ?P * of_int ?d \<le> of_int amount * of_int ?n * ?P"
    using P payout(1) by (simp add: mult.commute mult.left_commute mult_left_mono flip: of_int_mult)
  also have "\<dots> = 97 / 100 * of_int amount * of_int ?d" using odds by simp
  finally have upper: "of_int (hq_potentialPayout q) * ?P \<le> 97 / 100 * of_int amount" using d by simp
  have "97 / 100 * of_int amount * of_int ?d = of_int amount * of_int ?n * ?P" using odds by simp
  also have "\<dots> = of_int (amount * ?n) * ?P" by simp
  also have "\<dots> < of_int ((hq_potentialPayout q + 1) * ?d) * ?P"
    using P payout(2) by (intro mult_strict_right_mono) (simp_all only: of_int_less_iff)
  also have "\<dots> = of_int (hq_potentialPayout q + 1) * ?P * of_int ?d" by (simp only: of_int_mult mult_ac)
  finally have lower: "97 / 100 * of_int amount < of_int (hq_potentialPayout q + 1) * ?P" using d by simp
  have "0 \<le> hq_potentialPayout q" using ok(2, 6) m(2, 3) by (simp add: pos_imp_zdiv_nonneg_iff)
  then have "isSafeInteger (hq_potentialPayout q)" using ok(7) by (simp add: isSafeInteger_def)
  with upper lower show ?thesis by simp
qed

theorem expected_payout_bounded_witness:
  "of_int 97 * winChance ''quinella'' (canonicalIds [''2'', ''1'']) twoHorses \<le> 97 / 100 * of_int 100"
  using conjunct1 [OF expected_payout_bounded [OF twoHorses_quote(1,3)]] by simp

section \<open>The fixed roster\<close>

text \<open>The fields of \<open>HORSE_ROSTER\<close> that a price depends on.\<close>

definition HORSE_ROSTER :: "profile_weight list" where
  "HORSE_ROSTER =
     [\<lparr>pw_id = ''1'', pw_weight = 32\<rparr>, \<lparr>pw_id = ''2'', pw_weight = 19\<rparr>, \<lparr>pw_id = ''3'', pw_weight = 12\<rparr>,
      \<lparr>pw_id = ''4'', pw_weight = 8\<rparr>, \<lparr>pw_id = ''5'', pw_weight = 25\<rparr>,
      \<lparr>pw_id = HORSE_RACING_JOKER_ID, pw_weight = 4\<rparr>]"

lemma scenario_win:
  assumes "weighted horses" "a \<in> set horses" "length horses = n"
  shows "prob (betWon ''win'' (pw_id a)) (draws n horses) = of_int (pw_weight a) / of_int (totalWeight horses)"
  using win_chance [OF assms(1, 2)] assms(3) by (simp add: canonicalIds_def share_def)

text \<open>
  The mixture of the joker's two hidden forms keeps the published chances. With the fixed roster every
  horse, the joker included, wins with exactly its weight in percent, although the joker draws with weight 1 in
  one form and 96 in the other.
\<close>

theorem roster_win_chances:
  "map (\<lambda>horse. winChance ''win'' (pw_id horse) HORSE_ROSTER) HORSE_ROSTER
     = map (\<lambda>horse. of_int (pw_weight horse) / 100) HORSE_ROSTER"
proof -
  let ?cold = "scenarioHorses 1 HORSE_ROSTER" and ?hot = "scenarioHorses 96 HORSE_ROSTER"
  have w: "weighted ?cold" "weighted ?hot" by code_simp+
  have n: "length ?cold = length HORSE_ROSTER" "length ?hot = length HORSE_ROSTER" by (simp_all add: scenarioHorses_def)
  have joker: "list_ex (\<lambda>horse. pw_id horse = HORSE_RACING_JOKER_ID) HORSE_ROSTER" by code_simp
  have whole: "totalWeight ?cold = 97" "totalWeight ?hot = 192" by code_simp+
  have "winChance ''win'' (pw_id h) HORSE_ROSTER = of_int (pw_weight h) / 100" if h: "h \<in> set HORSE_ROSTER" for h
  proof -
    let ?form = "\<lambda>jokerWeight. \<lparr>pw_id = pw_id h,
      pw_weight = (if pw_id h = HORSE_RACING_JOKER_ID then jokerWeight else pw_weight h)\<rparr>"
    have "?form 1 \<in> set ?cold" "?form 96 \<in> set ?hot" using h by (auto simp: scenarioHorses_def)
    from scenario_win [OF w(1) this(1) n(1)] scenario_win [OF w(2) this(2) n(2)]
    have "winChance ''win'' (pw_id h) HORSE_ROSTER
        = 2231 / 2375 * (of_int (pw_weight (?form 1)) / 97) + 144 / 2375 * (of_int (pw_weight (?form 96)) / 192)"
      by (simp add: winChance_def horseRaceScenarios_def whole joker)
    moreover have "pw_weight h = 4" if "pw_id h = HORSE_RACING_JOKER_ID"
      using h that by (auto simp: HORSE_ROSTER_def HORSE_RACING_JOKER_ID_def)
    ultimately show ?thesis by simp
  qed
  then show ?thesis by simp
qed

end
