(* ===== verification/HorseSchedule.thy ===== *)
theory HorseSchedule
  imports GatewayJson
begin

text \<open>
  The timetable of the horse races (\<open>horse-racing-engine.ts\<close>): the starts of a day, when betting on a race
  opens, and the next start. A time is a whole number of milliseconds since 1970; \<open>Date\<close> is used for the
  calendar day, the day of the week and the time of day in UTC, which are divisions of that number
  (1970-01-01 was a Thursday; \<open>Date.UTC\<close> of the calendar day is its midnight).
\<close>

section \<open>Times\<close>

definition HORSE_RACE_DURATION_MS :: int where
  "HORSE_RACE_DURATION_MS = 180000"

definition HORSE_RACE_BETTING_WINDOW_MS :: int where
  "HORSE_RACE_BETTING_WINDOW_MS = 10 * 60000"

definition HORSE_RACE_LOCK_BEFORE_MS :: int where
  "HORSE_RACE_LOCK_BEFORE_MS = 60000"

definition HORSE_RACE_REST_MS :: int where
  "HORSE_RACE_REST_MS = 10000"

definition HORSE_RACE_INTERVAL_MS :: int where
  "HORSE_RACE_INTERVAL_MS = 30 * 60000"

definition FIRST_HORSE_RACE_HOUR :: int where
  "FIRST_HORSE_RACE_HOUR = 9"

definition LAST_HORSE_RACE_HOUR :: int where
  "LAST_HORSE_RACE_HOUR = 20"

definition KST_OFFSET_MS :: int where
  "KST_OFFSET_MS = 9 * 60 * 60000"

definition DAY_MS :: int where
  "DAY_MS = 24 * 60 * 60000"

lemmas race_times =
  HORSE_RACE_DURATION_MS_def HORSE_RACE_BETTING_WINDOW_MS_def HORSE_RACE_LOCK_BEFORE_MS_def HORSE_RACE_REST_MS_def
  HORSE_RACE_INTERVAL_MS_def FIRST_HORSE_RACE_HOUR_def LAST_HORSE_RACE_HOUR_def KST_OFFSET_MS_def DAY_MS_def

definition getUTCDay :: "int \<Rightarrow> int" where
  "getUTCDay t = (t div DAY_MS + 4) mod 7"

definition getUTCHours :: "int \<Rightarrow> int" where
  "getUTCHours t = t mod DAY_MS div 3600000"

definition getUTCMinutes :: "int \<Rightarrow> int" where
  "getUTCMinutes t = t mod 3600000 div 60000"

definition utcMidnight :: "int \<Rightarrow> int" where
  "utcMidnight t = t div DAY_MS * DAY_MS"

section \<open>Starts\<close>

definition dayStart :: "int \<Rightarrow> nat \<Rightarrow> int" where
  "dayStart midnight index =
     midnight + FIRST_HORSE_RACE_HOUR * 3600000 + int index * HORSE_RACE_INTERVAL_MS - KST_OFFSET_MS"

definition startsPerDay :: nat where
  "startsPerDay = nat ((LAST_HORSE_RACE_HOUR - FIRST_HORSE_RACE_HOUR) * 3600000 div HORSE_RACE_INTERVAL_MS + 1)"

definition getHorseRaceDayStarts :: "int \<Rightarrow> int list" where
  "getHorseRaceDayStarts now =
     (let local_time = now + KST_OFFSET_MS
      in if getUTCDay local_time = 0 \<or> getUTCDay local_time = 6 then []
         else map (dayStart (utcMidnight local_time)) [0..<startsPerDay])"

definition horseRaceOpensAt :: "int \<Rightarrow> int" where
  "horseRaceOpensAt startsAt =
     (let local_time = startsAt + KST_OFFSET_MS
      in if getUTCHours local_time = FIRST_HORSE_RACE_HOUR \<and> getUTCMinutes local_time = 0
         then startsAt - HORSE_RACE_BETTING_WINDOW_MS
         else startsAt - HORSE_RACE_INTERVAL_MS + HORSE_RACE_DURATION_MS + HORSE_RACE_REST_MS)"

text \<open>\<open>None\<close> is the error at the end of the loop.\<close>

fun firstStartFrom :: "nat list \<Rightarrow> int \<Rightarrow> int option" where
  "firstStartFrom [] now = None"
| "firstStartFrom (day # days) now =
     (case List.find (\<lambda>start. start > now) (getHorseRaceDayStarts (now + int day * DAY_MS)) of
        Some next_start \<Rightarrow> Some next_start
      | None \<Rightarrow> firstStartFrom days now)"

definition nextHorseRaceStartsAt :: "int \<Rightarrow> int option" where
  "nextHorseRaceStartsAt now = firstStartFrom [0..<4] now"

section \<open>Days\<close>

text \<open>The days of the races, in Korean time, and the starts of the timetable.\<close>

definition localDay :: "int \<Rightarrow> int" where
  "localDay t = (t + KST_OFFSET_MS) div DAY_MS"

definition raceDay :: "int \<Rightarrow> bool" where
  "raceDay d \<longleftrightarrow> (d + 4) mod 7 \<notin> {0, 6}"

definition startOn :: "int \<Rightarrow> nat \<Rightarrow> int" where
  "startOn d index = d * DAY_MS + int index * HORSE_RACE_INTERVAL_MS"

definition scheduled :: "int \<Rightarrow> bool" where
  "scheduled s \<longleftrightarrow> s \<in> set (getHorseRaceDayStarts s)"

lemma startsPerDay_23 [simp]: "startsPerDay = 23"
  by (simp add: startsPerDay_def race_times)

lemma dayStarts_day:
  "getHorseRaceDayStarts t = (if raceDay (localDay t) then map (startOn (localDay t)) [0..<23] else [])"
  by (auto simp: getHorseRaceDayStarts_def raceDay_def localDay_def getUTCDay_def utcMidnight_def dayStart_def startOn_def
      race_times Let_def)

lemma localDay_later: "localDay (t + int k * DAY_MS) = localDay t + int k"
proof -
  have "(t + KST_OFFSET_MS + int k * DAY_MS) div DAY_MS = (t + KST_OFFSET_MS) div DAY_MS + int k"
    by (simp add: race_times)
  then show ?thesis by (simp add: localDay_def algebra_simps)
qed

lemma localDay_bounds: "localDay t * DAY_MS - KST_OFFSET_MS \<le> t" "t < (localDay t + 1) * DAY_MS - KST_OFFSET_MS"
proof -
  have d: "(t + KST_OFFSET_MS) div DAY_MS * DAY_MS \<le> t + KST_OFFSET_MS"
    "t + KST_OFFSET_MS < ((t + KST_OFFSET_MS) div DAY_MS + 1) * DAY_MS"
    by (simp_all add: distrib_right race_times flip: minus_mod_eq_div_mult)
  show "localDay t * DAY_MS - KST_OFFSET_MS \<le> t" "t < (localDay t + 1) * DAY_MS - KST_OFFSET_MS"
    using d by (simp_all add: localDay_def)
qed

lemma localDay_eqI:
  assumes "d * DAY_MS - KST_OFFSET_MS \<le> t" "t < (d + 1) * DAY_MS - KST_OFFSET_MS"
  shows "localDay t = d"
proof -
  have "d < localDay t + 1" "localDay t < d + 1"
    using assms localDay_bounds [of t] by (simp_all add: race_times)
  then show ?thesis by simp
qed

lemma localDay_start: "index < 23 \<Longrightarrow> localDay (startOn d index) = d"
  by (rule localDay_eqI) (simp_all add: startOn_def race_times)

lemma scheduled_iff: "scheduled s \<longleftrightarrow> (\<exists>d index. index < 23 \<and> raceDay d \<and> s = startOn d index)"
proof
  assume "scheduled s"
  then show "\<exists>d index. index < 23 \<and> raceDay d \<and> s = startOn d index"
    unfolding scheduled_def dayStarts_day by (auto split: if_splits) blast
next
  assume "\<exists>d index. index < 23 \<and> raceDay d \<and> s = startOn d index"
  then show "scheduled s" by (auto simp: scheduled_def dayStarts_day localDay_start)
qed

section \<open>The next start\<close>

lemma find_start:
  assumes "List.find (\<lambda>start. start > now) (map (startOn d) [0..<n]) = Some s"
  shows "\<exists>index < n. s = startOn d index \<and> now < s \<and> (\<forall>j < n. now < startOn d j \<longrightarrow> s \<le> startOn d j)"
proof -
  obtain i where i: "i < n" "now < startOn d i" "s = startOn d i" "\<forall>j < i. \<not> now < startOn d j"
    using assms by (auto simp: find_Some_iff)
  have "startOn d i \<le> startOn d j" if "now < startOn d j" for j
  proof -
    have "i \<le> j" using i(4) that by (meson not_le)
    then show ?thesis by (simp add: startOn_def race_times)
  qed
  then show ?thesis using i by blast
qed

definition nextStart :: "int \<Rightarrow> int \<Rightarrow> bool" where
  "nextStart now s \<longleftrightarrow> scheduled s \<and> now < s \<and> (\<forall>s'. scheduled s' \<and> now < s' \<longrightarrow> s \<le> s')"

text \<open>When the days before have no later start, the first day that has one gives the next start.\<close>

lemma firstStartFrom_next:
  assumes "firstStartFrom [k..<n] now = Some s"
    and "\<forall>j < k. \<forall>s. scheduled s \<and> localDay s = localDay now + int j \<longrightarrow> s \<le> now"
  shows "nextStart now s"
  using assms
proof (induction "n - k" arbitrary: k)
  case (Suc m)
  then have upt: "[k..<n] = k # [Suc k..<n]" by (simp add: upt_rec)
  let ?d = "localDay now + int k"
  show ?case
  proof (cases "List.find (\<lambda>start. start > now) (getHorseRaceDayStarts (now + int k * DAY_MS))")
    case None
    have "s' \<le> now" if s': "scheduled s'" "localDay s' = ?d" for s'
    proof -
      obtain d index where "index < 23" "raceDay d" "s' = startOn d index" using s'(1) by (auto simp: scheduled_iff)
      moreover from this have "d = ?d" using s'(2) by (simp add: localDay_start)
      ultimately have "index < 23" "raceDay ?d" "s' = startOn ?d index" by simp_all
      then have "s' \<in> set (getHorseRaceDayStarts (now + int k * DAY_MS))" by (simp add: dayStarts_day localDay_later)
      then show ?thesis using None by (auto simp: find_None_iff)
    qed
    then have "\<forall>j < Suc k. \<forall>s. scheduled s \<and> localDay s = localDay now + int j \<longrightarrow> s \<le> now"
      using Suc.prems(2) by (auto simp: less_Suc_eq)
    then show ?thesis using Suc.hyps(1) [of "Suc k"] Suc.hyps(2) Suc.prems(1) None by (simp add: upt)
  next
    case (Some start)
    then have race: "raceDay ?d" and s: "start = s"
      using Suc.prems(1) by (auto simp: upt dayStarts_day localDay_later split: if_splits)
    with Some obtain index where index: "index < 23" "s = startOn ?d index" "now < s"
        "\<forall>j < 23. now < startOn ?d j \<longrightarrow> s \<le> startOn ?d j"
      using find_start [of now ?d 23 s] by (auto simp: dayStarts_day localDay_later)
    have "s \<le> s'" if s': "scheduled s'" "now < s'" for s'
    proof -
      obtain d j where dj: "j < 23" "raceDay d" "s' = startOn d j" using s'(1) by (auto simp: scheduled_iff)
      then have day: "localDay s' = d" by (simp add: localDay_start)
      have "localDay now \<le> d" using s'(2) localDay_bounds [of now] localDay_bounds [of s'] day by (simp add: race_times)
      then obtain i where di: "d = localDay now + int i" using zle_iff_zadd by metis
      have no: False if "d = localDay now + int i" "i < k" for i
        using Suc.prems(2) that s' day by fastforce
      have "k \<le> i" by (rule leI, rule notI, rule no [OF di])
      with di have "?d \<le> d" by simp
      then consider "d = ?d" | "?d + 1 \<le> d" by linarith
      then show ?thesis
      proof cases
        case 1
        then show ?thesis using index(4) dj s'(2) by blast
      next
        case 2
        have "s < (?d + 1) * DAY_MS - KST_OFFSET_MS"
          using localDay_bounds(2) [of s] index(1, 2) by (simp add: localDay_start)
        also have "\<dots> \<le> d * DAY_MS - KST_OFFSET_MS" using 2 by (simp add: race_times)
        also have "\<dots> \<le> s'" using localDay_bounds(1) [of s'] day by simp
        finally show ?thesis by simp
      qed
    qed
    then show ?thesis using index race by (auto simp: nextStart_def scheduled_iff)
  qed
qed simp

lemma firstStartFrom_some:
  assumes "k < n" "raceDay (localDay now + int k)" "0 < k"
  shows "firstStartFrom [j..<n] now \<noteq> None \<or> k < j"
proof (induction "n - j" arbitrary: j)
  case (Suc m)
  then have upt: "[j..<n] = j # [Suc j..<n]" by (simp add: upt_rec)
  show ?case
  proof (cases "j = k")
    case True
    have "now < startOn (localDay now + int k) 0"
      using localDay_bounds(2) [of now] assms(3) by (simp add: startOn_def race_times)
    then have "List.find (\<lambda>start. start > now) (getHorseRaceDayStarts (now + int j * DAY_MS)) \<noteq> None"
      using assms(2) True by (auto simp: find_None_iff dayStarts_day localDay_later)
    then show ?thesis by (auto simp: upt)
  next
    case False
    then show ?thesis using Suc.hyps(1) [of "Suc j"] Suc.hyps(2) by (auto simp: upt split: option.split)
  qed
qed (use assms in simp)

lemma some_race_day: "\<exists>k. 0 < k \<and> k < (4 :: nat) \<and> raceDay (d + int k)"
proof -
  have "(x + 2) mod 7 \<noteq> 0 \<and> (x + 2) mod 7 \<noteq> 6" if "x mod 7 = 0 \<or> x mod 7 = 6" for x :: int
    using that by presburger
  from this [of "d + 5"] have "raceDay (d + 1) \<or> raceDay (d + 3)" by (auto simp: raceDay_def add.commute)
  then show ?thesis by (auto intro: exI [of _ 1] exI [of _ 3])
qed

section \<open>The timetable\<close>

text \<open>
  There is always a next race, and it is the right one. From any time on, the search over four calendar days
  finds a start (it never throws, weekends included), the start lies on a weekday's timetable and after the time
  given, and no race of the timetable lies in between.
\<close>

theorem next_start_correct: "\<exists>s. nextHorseRaceStartsAt now = Some s \<and> nextStart now s"
proof -
  obtain n :: nat where n: "0 < n" "n < 4" "raceDay (localDay now + int n)" using some_race_day by blast
  from firstStartFrom_some [OF n(2,3,1), of 0] obtain s where s: "nextHorseRaceStartsAt now = Some s"
    by (auto simp: nextHorseRaceStartsAt_def)
  moreover have "nextStart now s"
    using firstStartFrom_next [of 0 4 now s] s by (simp add: nextHorseRaceStartsAt_def)
  ultimately show ?thesis by blast
qed

text \<open>
  Betting windows and races never overlap. Betting on a race of the timetable opens before it is locked, and
  for any two races of the timetable the earlier one has run its full time, and the rest after it, before betting
  on the later one opens.
\<close>

theorem races_do_not_overlap:
  assumes "scheduled s"
  shows "horseRaceOpensAt s < s - HORSE_RACE_LOCK_BEFORE_MS
    \<and> (\<forall>s'. scheduled s' \<and> s' < s \<longrightarrow> s' + HORSE_RACE_DURATION_MS + HORSE_RACE_REST_MS \<le> horseRaceOpensAt s)"
proof -
  obtain d index where s: "index < 23" "raceDay d" "s = startOn d index" using assms by (auto simp: scheduled_iff)
  have local_time: "(s + KST_OFFSET_MS) mod DAY_MS = 32400000 + int index * 1800000"
  proof -
    have "s + KST_OFFSET_MS = 32400000 + int index * 1800000 + d * DAY_MS" using s(3) by (simp add: startOn_def race_times)
    also have "\<dots> mod DAY_MS = (32400000 + int index * 1800000) mod DAY_MS" by (rule mod_mult_self1)
    also have "\<dots> = 32400000 + int index * 1800000" using s(1) by (intro mod_pos_pos_trivial) (simp_all add: race_times)
    finally show ?thesis .
  qed
  have opens: "horseRaceOpensAt s = s - (if index = 0 then 600000 else 1610000)"
  proof -
    have minutes: "(s + KST_OFFSET_MS) mod 3600000 = (32400000 + int index * 1800000) mod 3600000"
      unfolding local_time [symmetric] by (simp add: mod_mod_cancel race_times)
    consider "index = 0" | "index = 1" | "2 \<le> index" by linarith
    then show ?thesis
    proof cases
      case 3
      then have "10 \<le> (32400000 + int index * 1800000) div 3600000" by simp
      then show ?thesis using 3 local_time
        by (simp add: horseRaceOpensAt_def getUTCHours_def Let_def) (simp add: race_times)
    qed (use local_time minutes in \<open>simp_all add: horseRaceOpensAt_def getUTCHours_def getUTCMinutes_def Let_def,
        simp_all add: race_times\<close>)
  qed
  have "s' + 190000 \<le> s - 1610000 \<and> 0 < index \<or> s' + 190000 \<le> s - 1610000 - 600000"
    if s': "scheduled s'" "s' < s" for s'
  proof -
    obtain e j where j: "j < 23" "raceDay e" "s' = startOn e j" using s'(1) by (auto simp: scheduled_iff)
    have "e \<le> d"
      using s'(2) localDay_bounds [of s] localDay_bounds [of s'] localDay_start [OF j(1), of e] localDay_start [OF s(1), of d]
      unfolding j(3) [symmetric] s(3) [symmetric] by (simp add: race_times)
    then consider "e = d" | "e + 1 \<le> d" by linarith
    then show ?thesis
    proof cases
      case 1
      then have "j < index" using s'(2) s(3) j(3) by (simp add: startOn_def race_times)
      then show ?thesis using 1 s(3) j(3) by (simp add: startOn_def race_times)
    next
      case 2
      have "s' < (e + 1) * DAY_MS - KST_OFFSET_MS"
        using localDay_bounds(2) [of s'] localDay_start [OF j(1), of e] j(3) by simp
      then show ?thesis using 2 s(3) by (simp add: startOn_def race_times)
    qed
  qed
  then show ?thesis unfolding opens by (fastforce simp: race_times)
qed

text \<open>The first race of Monday, 5 January 1970, after the last one of Friday.\<close>

theorem races_do_not_overlap_witness:
  "horseRaceOpensAt 345600000 < 345600000 - HORSE_RACE_LOCK_BEFORE_MS
    \<and> 126000000 + HORSE_RACE_DURATION_MS + HORSE_RACE_REST_MS \<le> horseRaceOpensAt 345600000"
proof -
  have "scheduled 345600000" "scheduled 126000000" by code_simp+
  then show ?thesis using races_do_not_overlap [of 345600000] by simp
qed

end
