(* ===== verification/HorseRacing.thy ===== *)
theory HorseRacing
  imports HorsePricing HorseSchedule
begin

text \<open>
  The horse races of the web client (\<open>sqlite-horse-racing.ts\<close>) and the wallet they are paid from
  (\<open>sqlite-game-economy.ts\<close>). A table is the list of its rows, a \<open>SELECT\<close> a filter on it, and the constraints of
  the schema (\<open>sqlite-schema-horse-racing.ts\<close>, \<open>sqlite-schema-game-economy.ts\<close>) are checked where rows are
  inserted. Everything inside \<open>runImmediateTransaction\<close> is a function to an error or a result and the new
  tables; an error rolls the transaction back.
\<close>

section \<open>Tables\<close>

datatype racing_failure =
    RacingFailure racing_error | InsufficientGold | GoldMovementInvalid | WalletMissing | ConstraintViolated
  | NoRaceStart | PayoutMissing

record game_wallet =
  gw_gold :: int
  gw_revision :: int

text \<open>A row of \<open>game_gold_transactions\<close>, without its random primary key.\<close>

record gold_transaction =
  gt_user :: string
  gt_reason :: string
  gt_reference :: string
  gt_delta :: int
  gt_balanceAfter :: int
  gt_createdAt :: int

datatype race_status = RaceScheduled | RaceBetting | RaceLocked | RaceRunning | RaceSettled | RaceCancelled

text \<open>Of a race's horses the ids and weights are kept; the commitment to the seed is left out.\<close>

record horse_race =
  rc_id :: string
  rc_startsAt :: int
  rc_status :: race_status
  rc_horses :: "profile_weight list"
  rc_seed :: string
  rc_algorithm :: string
  rc_pricing :: string
  rc_animation :: string
  rc_finishOrder :: "string list option"
  rc_cancellationReason :: "string option"

record horse_bet =
  bt_id :: string
  bt_user :: string
  bt_requestId :: string
  bt_raceId :: string
  bt_market :: string
  bt_selection :: string
  bt_amount :: int
  bt_payout :: "int option"
  bt_refunded :: bool

text \<open>\<open>rg_users\<close> is the column that the foreign keys refer to.\<close>

record racing =
  rg_users :: "string list"
  rg_wallets :: "(string, game_wallet) jsmap"
  rg_ledger :: "gold_transaction list"
  rg_races :: "horse_race list"
  rg_bets :: "horse_bet list"
  rg_quotes :: "(string, int) jsmap"
  rg_cancellations :: "(string, int) jsmap"
  rg_activity :: "(string, int) jsmap"

text \<open>Seeds, rosters and finish orders come from random numbers and SHA-256.\<close>

record racing_engine =
  re_seed :: "string \<Rightarrow> string"
  re_horses :: "string \<Rightarrow> string \<Rightarrow> profile_weight list"
  re_draw :: "profile_weight list \<Rightarrow> string \<Rightarrow> string list"

section \<open>The wallet\<close>

definition ensureWallet :: "string \<Rightarrow> racing \<Rightarrow> racing_failure + racing" where
  "ensureWallet userId s =
     (if mapHas (rg_wallets s) userId then Inr s
      else if userId \<notin> set (rg_users s) then Inl ConstraintViolated
      else Inr (s\<lparr>rg_wallets := mapSet (rg_wallets s) userId \<lparr>gw_gold = 0, gw_revision = 0\<rparr>\<rparr>))"

definition changeGold :: "string \<Rightarrow> int \<Rightarrow> string \<Rightarrow> string \<Rightarrow> int \<Rightarrow> racing \<Rightarrow> racing_failure + racing" where
  "changeGold userId delta reason referenceId now s =
     (if \<not> isSafeInteger delta \<or> delta = 0 then Inl GoldMovementInvalid
      else
        case mapGet (rg_wallets s) userId of
          None \<Rightarrow> Inl WalletMissing
        | Some current \<Rightarrow>
            let gold = gw_gold current + delta
            in if \<not> isSafeInteger gold \<or> gold < 0 then Inl InsufficientGold
               else if \<exists>t \<in> set (rg_ledger s). gt_user t = userId \<and> gt_reason t = reason \<and> gt_reference t = referenceId
               then Inl ConstraintViolated
               else Inr (s\<lparr>rg_wallets := mapSet (rg_wallets s) userId \<lparr>gw_gold = gold, gw_revision = gw_revision current + 1\<rparr>,
                           rg_ledger := rg_ledger s @ [\<lparr>gt_user = userId, gt_reason = reason, gt_reference = referenceId,
                             gt_delta = delta, gt_balanceAfter = gold, gt_createdAt = now\<rparr>]\<rparr>))"

section \<open>Rows\<close>

definition HORSE_RACING_ALGORITHM_VERSION :: string where
  "HORSE_RACING_ALGORITHM_VERSION = ''sha256-fixed-profile-joker-v4''"

definition HORSE_RACING_PRICING_VERSION :: string where
  "HORSE_RACING_PRICING_VERSION = ''probability-net-3pct-v2''"

definition HORSE_RACING_ANIMATION_VERSION :: string where
  "HORSE_RACING_ANIMATION_VERSION = ''seeded-pace-stumble-v2''"

definition findRace :: "string \<Rightarrow> racing \<Rightarrow> horse_race option" where
  "findRace raceId s = List.find (\<lambda>race. rc_id race = raceId) (rg_races s)"

definition changeRace :: "string \<Rightarrow> (horse_race \<Rightarrow> horse_race) \<Rightarrow> racing \<Rightarrow> racing" where
  "changeRace raceId f s = s\<lparr>rg_races := map (\<lambda>race. if rc_id race = raceId then f race else race) (rg_races s)\<rparr>"

definition changeBet :: "string \<Rightarrow> (horse_bet \<Rightarrow> horse_bet) \<Rightarrow> racing \<Rightarrow> racing" where
  "changeBet betId f s = s\<lparr>rg_bets := map (\<lambda>bet. if bt_id bet = betId then f bet else bet) (rg_bets s)\<rparr>"

definition setRaceStatus :: "string \<Rightarrow> race_status \<Rightarrow> racing \<Rightarrow> racing" where
  "setRaceStatus raceId status = changeRace raceId (\<lambda>race. race\<lparr>rc_status := status\<rparr>)"

text \<open>The bets of a race ordered by id, with the cancelled ones when asked for.\<close>

definition raceBets :: "string \<Rightarrow> bool \<Rightarrow> racing \<Rightarrow> horse_bet list" where
  "raceBets raceId includeCancelled s =
     sort_key bt_id (filter (\<lambda>bet. bt_raceId bet = raceId
       \<and> (includeCancelled \<or> \<not> mapHas (rg_cancellations s) (bt_id bet))) (rg_bets s))"

section \<open>Settlement\<close>

definition refundBet :: "int \<Rightarrow> horse_bet \<Rightarrow> racing \<Rightarrow> racing_failure + racing" where
  "refundBet now bet s =
     resultThen (ensureWallet (bt_user bet) s) (\<lambda>s1.
     resultThen (changeGold (bt_user bet) (bt_amount bet) ''horse_refund'' (bt_id bet) now s1) (\<lambda>s2.
       Inr (changeBet (bt_id bet) (\<lambda>row. row\<lparr>bt_payout := Some (bt_amount bet), bt_refunded := True\<rparr>) s2)))"

definition settleBet :: "string list \<Rightarrow> int \<Rightarrow> horse_bet \<Rightarrow> racing \<Rightarrow> racing_failure + racing" where
  "settleBet order now bet s =
     (case mapGet (rg_quotes s) (bt_id bet) of
        None \<Rightarrow> Inl PayoutMissing
      | Some potentialPayout \<Rightarrow>
          let payout = (if betWon (bt_market bet) (bt_selection bet) order then potentialPayout else 0)
          in resultThen
               (if payout > 0
                then resultThen (ensureWallet (bt_user bet) s)
                       (changeGold (bt_user bet) payout ''horse_payout'' (bt_id bet) now)
                else Inr s)
               (\<lambda>s1. Inr (changeBet (bt_id bet) (\<lambda>row. row\<lparr>bt_payout := Some payout\<rparr>) s1)))"

definition cancelRace :: "string \<Rightarrow> string \<Rightarrow> int \<Rightarrow> racing \<Rightarrow> racing_failure + racing" where
  "cancelRace raceId reason now s =
     resultThen (forEach (refundBet now) (raceBets raceId False s) s) (\<lambda>s1.
       Inr (changeRace raceId (\<lambda>race. race\<lparr>rc_status := RaceCancelled, rc_cancellationReason := Some reason\<rparr>) s1))"

section \<open>Advancing the races\<close>

definition raceIdAt :: "int \<Rightarrow> string" where
  "raceIdAt startsAt = ''race-'' @ bigintString startsAt"

definition openRace :: "racing_engine \<Rightarrow> int \<Rightarrow> racing \<Rightarrow> racing_failure + racing" where
  "openRace engine startsAt s =
     (let raceId = raceIdAt startsAt; seed = re_seed engine raceId
      in if findRace raceId s \<noteq> None then Inr s
         else if \<exists>race \<in> set (rg_races s). rc_startsAt race = startsAt then Inl ConstraintViolated
         else Inr (s\<lparr>rg_races := rg_races s @
           [\<lparr>rc_id = raceId, rc_startsAt = startsAt, rc_status = RaceScheduled, rc_horses = re_horses engine raceId seed,
             rc_seed = seed, rc_algorithm = HORSE_RACING_ALGORITHM_VERSION, rc_pricing = HORSE_RACING_PRICING_VERSION,
             rc_animation = HORSE_RACING_ANIMATION_VERSION, rc_finishOrder = None, rc_cancellationReason = None\<rparr>]\<rparr>))"

text \<open>A scheduled race of the first animation version is refreshed.\<close>

definition refreshable :: "horse_race \<Rightarrow> bool" where
  "refreshable race \<longleftrightarrow>
     rc_status race = RaceScheduled \<and> rc_algorithm race = HORSE_RACING_ALGORITHM_VERSION
     \<and> rc_pricing race = HORSE_RACING_PRICING_VERSION \<and> rc_animation race = ''seeded-pace-v1''"

definition currentEngine :: "horse_race \<Rightarrow> bool" where
  "currentEngine race \<longleftrightarrow>
     rc_algorithm race = HORSE_RACING_ALGORITHM_VERSION \<and> rc_pricing race = HORSE_RACING_PRICING_VERSION
     \<and> rc_animation race = HORSE_RACING_ANIMATION_VERSION"

definition runRace :: "racing_engine \<Rightarrow> int \<Rightarrow> horse_race \<Rightarrow> horse_bet list \<Rightarrow> racing \<Rightarrow> racing_failure + racing" where
  "runRace engine now race bets s =
     (let order = (case rc_finishOrder race of Some drawn \<Rightarrow> drawn | None \<Rightarrow> re_draw engine (rc_horses race) (rc_seed race));
          s1 = (if rc_finishOrder race = None
                then changeRace (rc_id race) (\<lambda>row. row\<lparr>rc_finishOrder := Some order\<rparr>) s else s)
      in if now < rc_startsAt race then Inr (setRaceStatus (rc_id race) RaceLocked s1)
         else if now < rc_startsAt race + HORSE_RACE_DURATION_MS then Inr (setRaceStatus (rc_id race) RaceRunning s1)
         else
           resultThen (forEach (settleBet order now) bets s1) (\<lambda>s2.
             Inr (changeRace (rc_id race) (\<lambda>row. row\<lparr>rc_status := RaceSettled, rc_finishOrder := Some order\<rparr>) s2)))"

definition advanceRace :: "racing_engine \<Rightarrow> int \<Rightarrow> horse_race \<Rightarrow> racing \<Rightarrow> racing_failure + racing" where
  "advanceRace engine now pending s =
     (let fresh = (\<lambda>row. row\<lparr>rc_animation := HORSE_RACING_ANIMATION_VERSION\<rparr>);
          race = (if refreshable pending then fresh pending else pending);
          s1 = (if refreshable pending then changeRace (rc_id race) fresh s else s)
      in if now < horseRaceOpensAt (rc_startsAt race) then Inr s1
         else if \<not> currentEngine race then cancelRace (rc_id race) ''engine_changed'' now s1
         else if now < rc_startsAt race - HORSE_RACE_LOCK_BEFORE_MS then Inr (setRaceStatus (rc_id race) RaceBetting s1)
         else
           let bets = raceBets (rc_id race) False s1
           in if length (jsUnique (map bt_user bets)) < 2 then cancelRace (rc_id race) ''insufficient_participants'' now s1
              else runRace engine now race bets s1)"

definition pendingRaces :: "racing \<Rightarrow> horse_race list" where
  "pendingRaces s = sort_key rc_startsAt (filter (\<lambda>race. rc_status race \<notin> {RaceSettled, RaceCancelled}) (rg_races s))"

definition advanceRaces :: "racing_engine \<Rightarrow> int \<Rightarrow> racing \<Rightarrow> racing_failure + racing" where
  "advanceRaces engine now s =
     (case nextHorseRaceStartsAt now of
        None \<Rightarrow> Inl NoRaceStart
      | Some upcoming \<Rightarrow>
          resultThen (forEach (openRace engine) (jsUnique (getHorseRaceDayStarts now @ [upcoming])) s) (\<lambda>s1.
            forEach (advanceRace engine now) (pendingRaces s1) s1))"

section \<open>Bets\<close>

record bet_request =
  br_requestId :: js_value
  br_raceId :: js_value
  br_market :: js_value
  br_selection :: js_value
  br_amount :: js_value

record valid_request =
  vr_requestId :: string
  vr_raceId :: string
  vr_market :: string
  vr_selection :: "string list"
  vr_amount :: int

definition racingError :: "string \<Rightarrow> racing_failure + 'a" where
  "racingError code = Inl (RacingFailure (HorseRacingError code))"

definition isHorseId :: "js_value \<Rightarrow> bool" where
  "isHorseId v \<longleftrightarrow> v \<in> JStr ` set [''1'', ''2'', ''3'', ''4'', ''5'', ''6'']"

definition stringsOf :: "js_value list \<Rightarrow> string list" where
  "stringsOf values = List.map_filter (\<lambda>v. case v of JStr text \<Rightarrow> Some text | _ \<Rightarrow> None) values"

text \<open>The checks before the transaction; the selection is put in canonical form by the caller.\<close>

definition checkRequest :: "bet_request \<Rightarrow> racing_failure + valid_request" where
  "checkRequest request =
     (case (br_requestId request, br_raceId request, br_amount request) of
        (JStr requestId, JStr raceId, JNum amount) \<Rightarrow>
          if trim requestId = [] \<or> length requestId > 128 \<or> length raceId > 128 \<or> \<not> isSafeInteger amount \<or> amount < 1
          then racingError ''invalid_bet''
          else
            (case (br_market request, br_selection request) of
               (JStr market, JArr ids) \<Rightarrow>
                 if market \<notin> set MARKETS \<or> length ids \<noteq> selectionSize market \<or> \<not> list_all isHorseId ids
                    \<or> length (jsUnique ids) \<noteq> length ids
                 then racingError ''invalid_selection''
                 else Inr \<lparr>vr_requestId = requestId, vr_raceId = raceId, vr_market = market,
                            vr_selection = stringsOf ids, vr_amount = amount\<rparr>
             | _ \<Rightarrow> racingError ''invalid_selection'')
      | _ \<Rightarrow> racingError ''invalid_bet'')"

record bet_receipt =
  rt_bet :: horse_bet
  rt_potentialPayout :: "int option"
  rt_cancelledAt :: "int option"

definition ticketReceipt :: "horse_bet \<Rightarrow> racing \<Rightarrow> bet_receipt" where
  "ticketReceipt bet s =
     \<lparr>rt_bet = bet, rt_potentialPayout = mapGet (rg_quotes s) (bt_id bet),
      rt_cancelledAt = mapGet (rg_cancellations s) (bt_id bet)\<rparr>"

definition MAX_TICKETS :: nat where
  "MAX_TICKETS = 20"

definition MAX_STAKES :: int where
  "MAX_STAKES = 1000000000"

definition samePrior :: "horse_bet \<Rightarrow> valid_request \<Rightarrow> bool" where
  "samePrior prior request \<longleftrightarrow>
     bt_raceId prior = vr_raceId request \<and> bt_market prior = vr_market request
     \<and> bt_selection prior = canonicalIds (vr_selection request) \<and> bt_amount prior = vr_amount request"

definition bettingOpen :: "horse_race \<Rightarrow> int \<Rightarrow> bool" where
  "bettingOpen race now \<longleftrightarrow>
     rc_status race = RaceBetting \<and> now \<ge> horseRaceOpensAt (rc_startsAt race)
     \<and> now < rc_startsAt race - HORSE_RACE_LOCK_BEFORE_MS"

text \<open>The inserts of a new ticket; a quote needs odds of at least one and a positive payout.\<close>

definition insertTicket :: "horse_bet \<Rightarrow> horse_quote \<Rightarrow> int \<Rightarrow> racing \<Rightarrow> racing_failure + racing" where
  "insertTicket ticket quote now s =
     (if (\<exists>bet \<in> set (rg_bets s). bt_id bet = bt_id ticket
            \<or> bt_user bet = bt_user ticket \<and> bt_requestId bet = bt_requestId ticket)
         \<or> mapHas (rg_quotes s) (bt_id ticket) \<or> mapHas (rg_activity s) (bt_id ticket)
         \<or> decimalValue 0 (hq_numerator quote) < decimalValue 0 (hq_denominator quote) \<or> hq_potentialPayout quote \<le> 0
      then Inl ConstraintViolated
      else Inr (s\<lparr>rg_bets := rg_bets s @ [ticket],
                  rg_quotes := mapSet (rg_quotes s) (bt_id ticket) (hq_potentialPayout quote),
                  rg_activity := mapSet (rg_activity s) (bt_id ticket) now\<rparr>))"

definition acceptBet ::
    "string \<Rightarrow> valid_request \<Rightarrow> int \<Rightarrow> string \<Rightarrow> horse_race \<Rightarrow> racing \<Rightarrow> racing_failure + (bet_receipt \<times> racing)" where
  "acceptBet userId request now ticketId race s =
     (if length (filter (\<lambda>bet. bt_user bet = userId) (raceBets (rc_id race) True s)) \<ge> MAX_TICKETS
      then racingError ''ticket_limit''
      else if foldl (\<lambda>acc bet. acc + bt_amount bet) 0 (raceBets (rc_id race) False s) + vr_amount request > MAX_STAKES
      then racingError ''stake_limit''
      else
        case quoteHorseBet (rc_horses race) (vr_market request) (vr_selection request) (vr_amount request) of
          Inl failure \<Rightarrow> Inl (RacingFailure failure)
        | Inr quote \<Rightarrow>
            let ticket = \<lparr>bt_id = ticketId, bt_user = userId, bt_requestId = vr_requestId request,
                  bt_raceId = rc_id race, bt_market = vr_market request,
                  bt_selection = canonicalIds (vr_selection request), bt_amount = vr_amount request,
                  bt_payout = None, bt_refunded = False\<rparr>
            in resultThen (changeGold userId (- bt_amount ticket) ''horse_bet'' ticketId now s) (\<lambda>s1.
               resultThen (insertTicket ticket quote now s1) (\<lambda>s2.
                 Inr (\<lparr>rt_bet = ticket, rt_potentialPayout = Some (hq_potentialPayout quote), rt_cancelledAt = None\<rparr>, s2))))"

definition placeTicket ::
    "string \<Rightarrow> valid_request \<Rightarrow> int \<Rightarrow> string \<Rightarrow> racing \<Rightarrow> racing_failure + (bet_receipt \<times> racing)" where
  "placeTicket userId request now ticketId s0 =
     resultThen (ensureWallet userId s0) (\<lambda>s.
       case List.find (\<lambda>bet. bt_user bet = userId \<and> bt_requestId bet = vr_requestId request) (rg_bets s) of
         Some prior \<Rightarrow>
           if \<not> samePrior prior request then racingError ''idempotency_conflict''
           else Inr (ticketReceipt prior s, s)
       | None \<Rightarrow>
           if vr_amount request < HORSE_RACING_MIN_BET_GOLD \<or> vr_amount request > HORSE_RACING_MAX_BET_GOLD
           then racingError ''invalid_bet''
           else
             (case findRace (vr_raceId request) s of
                None \<Rightarrow> racingError ''betting_closed''
              | Some race \<Rightarrow>
                  if \<not> bettingOpen race now then racingError ''betting_closed''
                  else acceptBet userId request now ticketId race s))"

definition cancelTicket :: "string \<Rightarrow> string \<Rightarrow> int \<Rightarrow> racing \<Rightarrow> racing_failure + (bet_receipt \<times> racing)" where
  "cancelTicket userId betId now s0 =
     resultThen (ensureWallet userId s0) (\<lambda>s.
       case List.find (\<lambda>bet. bt_id bet = betId \<and> bt_user bet = userId) (rg_bets s) of
         None \<Rightarrow> racingError ''unknown_bet''
       | Some bet \<Rightarrow>
           if mapHas (rg_cancellations s) (bt_id bet) then Inr (ticketReceipt bet s, s)
           else
             (case findRace (bt_raceId bet) s of
                None \<Rightarrow> racingError ''betting_closed''
              | Some race \<Rightarrow>
                  if rc_status race \<noteq> RaceBetting \<or> now \<ge> rc_startsAt race - HORSE_RACE_LOCK_BEFORE_MS
                  then racingError ''betting_closed''
                  else
                    resultThen
                      (refundBet now bet (s\<lparr>rg_cancellations := mapSet (rg_cancellations s) (bt_id bet) now\<rparr>)) (\<lambda>s1.
                        Inr (\<lparr>rt_bet = bet\<lparr>bt_payout := Some (bt_amount bet), bt_refunded := True\<rparr>,
                              rt_potentialPayout = mapGet (rg_quotes s) (bt_id bet), rt_cancelledAt = Some now\<rparr>, s1))))"

section \<open>Transactions\<close>

definition advance :: "racing_engine \<Rightarrow> int \<Rightarrow> racing \<Rightarrow> (racing_failure + unit) \<times> racing" where
  "advance engine now = inTransaction (\<lambda>s. resultThen (advanceRaces engine now s) (\<lambda>s1. Inr ((), s1)))"

definition placeBet ::
    "racing_engine \<Rightarrow> string \<Rightarrow> bet_request \<Rightarrow> int \<Rightarrow> string \<Rightarrow> racing \<Rightarrow> (racing_failure + bet_receipt) \<times> racing" where
  "placeBet engine userId request now ticketId s =
     andThen (advance engine now s) (\<lambda>_ s1.
       orThrow (checkRequest request) s1 (\<lambda>checked. inTransaction (placeTicket userId checked now ticketId) s1))"

definition cancelBet ::
    "racing_engine \<Rightarrow> string \<Rightarrow> js_value \<Rightarrow> int \<Rightarrow> racing \<Rightarrow> (racing_failure + bet_receipt) \<times> racing" where
  "cancelBet engine userId betId now s =
     andThen (advance engine now s) (\<lambda>_ s1.
       case betId of
         JStr wanted \<Rightarrow>
           if trim wanted = [] \<or> length wanted > 128 then (racingError ''invalid_bet'', s1)
           else inTransaction (cancelTicket userId wanted now) s1
       | _ \<Rightarrow> (racingError ''invalid_bet'', s1))"

end
