(* ===== verification/RacingLedger.thy ===== *)
theory RacingLedger
  imports HorseRacing
begin

text \<open>
  The books of the horse races: every gold piece of a wallet has a transaction, and the transactions of a bet
  add up to what its row says. The invariant is kept by every operation, in whatever order they come.
\<close>

section \<open>Sums of the ledger\<close>

definition userTotal :: "string \<Rightarrow> gold_transaction list \<Rightarrow> int" where
  "userTotal user ledger = (\<Sum>t\<leftarrow>ledger. if gt_user t = user then gt_delta t else 0)"

definition paid :: "string \<Rightarrow> string \<Rightarrow> gold_transaction list \<Rightarrow> int" where
  "paid reason ref ledger = (\<Sum>t\<leftarrow>ledger. if gt_reason t = reason \<and> gt_reference t = ref then gt_delta t else 0)"

definition settledSum :: "string \<Rightarrow> gold_transaction list \<Rightarrow> int" where
  "settledSum ref ledger = paid ''horse_payout'' ref ledger + paid ''horse_refund'' ref ledger"

lemma userTotal_simps [simp]:
  "userTotal user [] = 0"
  "userTotal user (ledger @ [t]) = userTotal user ledger + (if gt_user t = user then gt_delta t else 0)"
  by (simp_all add: userTotal_def)

lemma paid_simps [simp]:
  "paid reason ref [] = 0"
  "paid reason ref (ledger @ [t])
     = paid reason ref ledger + (if gt_reason t = reason \<and> gt_reference t = ref then gt_delta t else 0)"
  by (simp_all add: paid_def)

section \<open>The invariant\<close>

definition backed :: "int \<Rightarrow> game_wallet option \<Rightarrow> bool" where
  "backed gold wallet \<longleftrightarrow>
     (case wallet of
        None \<Rightarrow> gold = 0
      | Some w \<Rightarrow> gw_gold w = gold \<and> 0 \<le> gold \<and> isSafeInteger gold)"

lemma backed_simps [simp]:
  "backed gold None \<longleftrightarrow> gold = 0"
  "backed gold (Some w) \<longleftrightarrow> gw_gold w = gold \<and> 0 \<le> gold \<and> isSafeInteger gold"
  by (simp_all add: backed_def)

definition walletsOk :: "racing \<Rightarrow> bool" where
  "walletsOk s \<longleftrightarrow> (\<forall>user. backed (userTotal user (rg_ledger s)) (mapGet (rg_wallets s) user))"

definition owedTo :: "horse_bet \<Rightarrow> int" where
  "owedTo bet = (case bt_payout bet of None \<Rightarrow> 0 | Some payout \<Rightarrow> payout)"

definition booked :: "gold_transaction list \<Rightarrow> horse_bet \<Rightarrow> bool" where
  "booked ledger bet \<longleftrightarrow>
     paid ''horse_bet'' (bt_id bet) ledger = - bt_amount bet \<and> settledSum (bt_id bet) ledger = owedTo bet
     \<and> (bt_refunded bet \<longrightarrow> bt_payout bet = Some (bt_amount bet))"

definition untouched :: "gold_transaction list \<Rightarrow> string \<Rightarrow> bool" where
  "untouched ledger ref \<longleftrightarrow> paid ''horse_bet'' ref ledger = 0 \<and> settledSum ref ledger = 0"

definition betsOk :: "racing \<Rightarrow> bool" where
  "betsOk s \<longleftrightarrow>
     distinct (map bt_id (rg_bets s)) \<and> distinct (map (\<lambda>bet. (bt_user bet, bt_requestId bet)) (rg_bets s))
     \<and> (\<forall>bet \<in> set (rg_bets s). booked (rg_ledger s) bet \<and> bt_raceId bet \<in> rc_id ` set (rg_races s)
          \<and> (mapHas (rg_cancellations s) (bt_id bet) \<longrightarrow> bt_refunded bet))
     \<and> (\<forall>ref. ref \<notin> bt_id ` set (rg_bets s) \<longrightarrow> untouched (rg_ledger s) ref \<and> \<not> mapHas (rg_cancellations s) ref)"

definition isPending :: "horse_race \<Rightarrow> bool" where
  "isPending race \<longleftrightarrow> rc_status race \<noteq> RaceSettled \<and> rc_status race \<noteq> RaceCancelled"

text \<open>Apart from the bets in \<open>X\<close>, which are being settled, a live bet on a pending race is not paid yet.\<close>

definition livePending :: "racing \<Rightarrow> horse_bet \<Rightarrow> bool" where
  "livePending s bet \<longleftrightarrow>
     \<not> mapHas (rg_cancellations s) (bt_id bet)
     \<and> (\<exists>race \<in> set (rg_races s). rc_id race = bt_raceId bet \<and> isPending race)"

definition unpaid :: "string set \<Rightarrow> racing \<Rightarrow> bool" where
  "unpaid X s \<longleftrightarrow> (\<forall>bet \<in> set (rg_bets s). bt_id bet \<notin> X \<longrightarrow> livePending s bet \<longrightarrow> bt_payout bet = None)"

lemma unpaidD: "unpaid X s \<Longrightarrow> bet \<in> set (rg_bets s) \<Longrightarrow> bt_id bet \<notin> X \<Longrightarrow> livePending s bet \<Longrightarrow> bt_payout bet = None"
  unfolding unpaid_def by blast

text \<open>A quote promises something.\<close>

definition quotesOk :: "racing \<Rightarrow> bool" where
  "quotesOk s \<longleftrightarrow> (\<forall>betId quote. mapGet (rg_quotes s) betId = Some quote \<longrightarrow> 0 < quote)"

text \<open>Every bet on a race that is over is paid, if only with nothing.\<close>

definition overPaid :: "racing \<Rightarrow> bool" where
  "overPaid s \<longleftrightarrow> (\<forall>bet \<in> set (rg_bets s). \<forall>race \<in> set (rg_races s).
     rc_id race = bt_raceId bet \<longrightarrow> \<not> isPending race \<longrightarrow> bt_payout bet \<noteq> None)"

lemma overPaidD:
  "overPaid s \<Longrightarrow> bet \<in> set (rg_bets s) \<Longrightarrow> race \<in> set (rg_races s) \<Longrightarrow> rc_id race = bt_raceId bet \<Longrightarrow> \<not> isPending race
     \<Longrightarrow> bt_payout bet \<noteq> None"
  unfolding overPaid_def by blast

definition racingOk :: "string set \<Rightarrow> racing \<Rightarrow> bool" where
  "racingOk X s \<longleftrightarrow> walletsOk s \<and> betsOk s \<and> unpaid X s \<and> distinct (map rc_id (rg_races s)) \<and> quotesOk s \<and> overPaid s"

lemma racingOk_mono: "racingOk X s \<Longrightarrow> X \<subseteq> Y \<Longrightarrow> racingOk Y s"
  unfolding racingOk_def unpaid_def by blast

section \<open>The wallet\<close>

lemma ensureWallet_frame:
  "ensureWallet user s = Inr s' \<Longrightarrow> \<exists>wallets. s' = s\<lparr>rg_wallets := wallets\<rparr>"
  unfolding ensureWallet_def by (cases s) (auto split: if_splits)

lemma ensureWallet_walletsOk:
  assumes "ensureWallet user s = Inr s'" "walletsOk s"
  shows "walletsOk s'"
proof (cases "mapHas (rg_wallets s) user")
  case True
  then show ?thesis using assms by (simp add: ensureWallet_def)
next
  case False
  then have "s' = s\<lparr>rg_wallets := mapSet (rg_wallets s) user \<lparr>gw_gold = 0, gw_revision = 0\<rparr>\<rparr>"
    using assms(1) by (simp add: ensureWallet_def split: if_splits)
  moreover have "userTotal user (rg_ledger s) = 0"
    using assms(2) False unfolding walletsOk_def by (metis backed_simps(1))
  ultimately show ?thesis using assms(2) by (simp add: walletsOk_def isSafeInteger_def)
qed

lemma racingOk_wallets:
  "racingOk X s \<Longrightarrow> walletsOk (s\<lparr>rg_wallets := wallets\<rparr>) \<Longrightarrow> racingOk X (s\<lparr>rg_wallets := wallets\<rparr>)"
  by (simp add: racingOk_def betsOk_def unpaid_def livePending_def quotesOk_def overPaid_def)

lemma ensureWallet_racingOk: "ensureWallet user s = Inr s' \<Longrightarrow> racingOk X s \<Longrightarrow> racingOk X s'"
  using ensureWallet_frame [of user s s'] ensureWallet_walletsOk [of user s s'] racingOk_wallets [of X s]
  by (metis racingOk_def)

lemma changeGold_Inr:
  assumes "changeGold user delta reason ref now s = Inr s'"
  obtains current t where "mapGet (rg_wallets s) user = Some current" "isSafeInteger (gw_gold current + delta)"
    "0 \<le> gw_gold current + delta" "gt_user t = user" "gt_reason t = reason" "gt_reference t = ref" "gt_delta t = delta"
    "s' = s\<lparr>rg_wallets := mapSet (rg_wallets s) user \<lparr>gw_gold = gw_gold current + delta, gw_revision = gw_revision current + 1\<rparr>,
            rg_ledger := rg_ledger s @ [t]\<rparr>"
proof -
  obtain current where current: "mapGet (rg_wallets s) user = Some current"
    using assms by (auto simp: changeGold_def split: if_splits option.splits)
  let ?t = "\<lparr>gt_user = user, gt_reason = reason, gt_reference = ref, gt_delta = delta,
              gt_balanceAfter = gw_gold current + delta, gt_createdAt = now\<rparr>"
  show thesis
    using assms current
    by (intro that [of current ?t]) (auto simp: changeGold_def Let_def split: if_splits)
qed

lemma changeGold_walletsOk:
  assumes "changeGold user delta reason ref now s = Inr s'" "walletsOk s"
  shows "walletsOk s'"
  using assms(1)
proof (rule changeGold_Inr)
  fix current t
  assume c: "mapGet (rg_wallets s) user = Some current" "isSafeInteger (gw_gold current + delta)"
    "0 \<le> gw_gold current + delta" "gt_user t = user" "gt_delta t = delta"
    "s' = s\<lparr>rg_wallets := mapSet (rg_wallets s) user \<lparr>gw_gold = gw_gold current + delta, gw_revision = gw_revision current + 1\<rparr>,
            rg_ledger := rg_ledger s @ [t]\<rparr>"
  have "gw_gold current = userTotal user (rg_ledger s)"
    using assms(2) c(1) unfolding walletsOk_def by (metis backed_simps(2))
  then show ?thesis using assms(2) c by (simp add: walletsOk_def)
qed

definition horseReasons :: "string set" where
  "horseReasons = {''horse_bet'', ''horse_payout'', ''horse_refund''}"

lemma changeGold_other:
  assumes "changeGold user delta reason ref now s = Inr s'" "reason \<notin> horseReasons" "racingOk X s"
  shows "racingOk X s'"
proof -
  obtain wallets t where t: "s' = s\<lparr>rg_wallets := wallets, rg_ledger := rg_ledger s @ [t]\<rparr>" "gt_reason t = reason"
    using changeGold_Inr [OF assms(1)] by metis
  have same: "paid ''horse_bet'' ref' (rg_ledger s @ [t]) = paid ''horse_bet'' ref' (rg_ledger s)"
    "settledSum ref' (rg_ledger s @ [t]) = settledSum ref' (rg_ledger s)" for ref'
    using assms(2) t(2) by (auto simp: horseReasons_def settledSum_def)
  then have "booked (rg_ledger s @ [t]) bet = booked (rg_ledger s) bet" for bet by (simp only: booked_def)
  moreover have "untouched (rg_ledger s @ [t]) ref' = untouched (rg_ledger s) ref'" for ref'
    by (simp only: untouched_def same)
  ultimately show ?thesis
    using assms(3) changeGold_walletsOk [OF assms(1)] t(1) by (simp add: racingOk_def betsOk_def unpaid_def livePending_def quotesOk_def overPaid_def)
qed

section \<open>Rows of bets and races\<close>

text \<open>A bet is paid: its row and the ledger change together.\<close>

definition payBet :: "string \<Rightarrow> int \<Rightarrow> bool \<Rightarrow> racing \<Rightarrow> racing" where
  "payBet betId payout refunded =
     changeBet betId (\<lambda>row. row\<lparr>bt_payout := Some payout, bt_refunded := refunded\<rparr>)"

lemma payBet_bets:
  "rg_bets (payBet betId payout refunded s)
     = map (\<lambda>row. if bt_id row = betId then row\<lparr>bt_payout := Some payout, bt_refunded := refunded\<rparr> else row) (rg_bets s)"
  by (simp add: payBet_def changeBet_def)

lemma payBet_frame [simp]:
  "rg_wallets (payBet betId payout refunded s) = rg_wallets s" "rg_ledger (payBet betId payout refunded s) = rg_ledger s"
  "rg_races (payBet betId payout refunded s) = rg_races s" "rg_quotes (payBet betId payout refunded s) = rg_quotes s"
  "rg_cancellations (payBet betId payout refunded s) = rg_cancellations s"
  "map bt_id (rg_bets (payBet betId payout refunded s)) = map bt_id (rg_bets s)"
  "map (\<lambda>bet. (bt_user bet, bt_requestId bet)) (rg_bets (payBet betId payout refunded s))
     = map (\<lambda>bet. (bt_user bet, bt_requestId bet)) (rg_bets s)"
  by (simp_all add: payBet_def changeBet_def)

lemma payBet_ids [simp]: "bt_id ` set (rg_bets (payBet betId payout refunded s)) = bt_id ` set (rg_bets s)"
  by (metis list.set_map payBet_frame(6))

text \<open>The entries of one bet may change while its row is paid.\<close>

definition paysOnly :: "string \<Rightarrow> int \<Rightarrow> gold_transaction list \<Rightarrow> gold_transaction list \<Rightarrow> bool" where
  "paysOnly betId payout before after \<longleftrightarrow>
     (\<forall>ref. paid ''horse_bet'' ref after = paid ''horse_bet'' ref before
        \<and> settledSum ref after = settledSum ref before + (if ref = betId then payout else 0))"

lemma payBet_ok:
  assumes ok: "racingOk X s" and bet: "bet \<in> set (rg_bets s)" "bt_payout bet = None" "bt_id bet \<in> X"
    and refund: "refunded \<longrightarrow> payout = bt_amount bet"
    and live: "\<not> mapHas (rg_cancellations s) (bt_id bet)"
    and ledger: "paysOnly (bt_id bet) payout (rg_ledger s) ledger"
    and wallets: "walletsOk (s\<lparr>rg_wallets := wallets, rg_ledger := ledger\<rparr>)"
  shows "racingOk X (payBet (bt_id bet) payout refunded (s\<lparr>rg_wallets := wallets, rg_ledger := ledger\<rparr>))" (is "racingOk X ?s")
proof -
  have bets: "betsOk s" and unpaid: "unpaid X s" and races: "distinct (map rc_id (rg_races s))"
      and quotes: "quotesOk s" and over: "overPaid s"
    using ok by (simp_all add: racingOk_def)
  have ids: "distinct (map bt_id (rg_bets s))" using bets by (simp add: betsOk_def)
  have rows: "\<exists>old \<in> set (rg_bets s). bt_id row = bt_id old \<and> bt_raceId row = bt_raceId old
      \<and> (bt_id row = bt_id bet \<and> old = bet \<and> row = bet\<lparr>bt_payout := Some payout, bt_refunded := refunded\<rparr>
         \<or> bt_id row \<noteq> bt_id bet \<and> row = old)" if "row \<in> set (rg_bets ?s)" for row
  proof -
    from that obtain old where old: "old \<in> set (rg_bets s)"
        "row = (if bt_id old = bt_id bet then old\<lparr>bt_payout := Some payout, bt_refunded := refunded\<rparr> else old)"
      by (auto simp: payBet_bets)
    show ?thesis
    proof (cases "bt_id old = bt_id bet")
      case True
      then have "old = bet" by (rule distinct_row [OF ids old(1) bet(1)])
      then show ?thesis using old bet(1) by (intro bexI [of _ bet]) simp_all
    qed (use old in \<open>intro bexI [of _ old]; simp\<close>)
  qed
  have "booked ledger row \<and> bt_raceId row \<in> rc_id ` set (rg_races s)
      \<and> (mapHas (rg_cancellations s) (bt_id row) \<longrightarrow> bt_refunded row)" if row: "row \<in> set (rg_bets ?s)" for row
  proof -
    from rows [OF row] obtain old where old: "old \<in> set (rg_bets s)" "bt_raceId row = bt_raceId old" "bt_id row = bt_id old"
        "bt_id row = bt_id bet \<and> old = bet \<and> row = bet\<lparr>bt_payout := Some payout, bt_refunded := refunded\<rparr>
         \<or> bt_id row \<noteq> bt_id bet \<and> row = old" by blast
    have b: "booked (rg_ledger s) old" "bt_raceId old \<in> rc_id ` set (rg_races s)"
        "mapHas (rg_cancellations s) (bt_id old) \<longrightarrow> bt_refunded old"
      using bets old(1) by (auto simp: betsOk_def)
    have "booked ledger row"
      using b(1) old(4) ledger bet(2) refund by (auto simp: booked_def paysOnly_def owedTo_def)
    then show ?thesis using b old live by auto
  qed
  moreover have "untouched ledger ref \<and> \<not> mapHas (rg_cancellations s) ref" if "ref \<notin> bt_id ` set (rg_bets s)" for ref
  proof -
    have "ref \<noteq> bt_id bet" using that bet(1) by auto
    then show ?thesis using bets that ledger by (simp add: betsOk_def untouched_def paysOnly_def)
  qed
  ultimately have "betsOk ?s" using bets ids by (simp add: betsOk_def)
  moreover have "unpaid X ?s"
    unfolding unpaid_def
  proof (intro ballI impI)
    fix row assume row: "row \<in> set (rg_bets ?s)" "bt_id row \<notin> X" "livePending ?s row"
    have "row \<in> set (rg_bets s)" using rows [OF row(1)] bet(3) row(2) by auto
    moreover have "livePending s row" using row(3) by (simp add: livePending_def)
    ultimately show "bt_payout row = None" using unpaidD [OF unpaid] row(2) by blast
  qed
  moreover have "walletsOk ?s" using wallets by (simp add: walletsOk_def)
  moreover have "overPaid ?s"
    unfolding overPaid_def
  proof (intro ballI impI)
    fix row race assume row: "row \<in> set (rg_bets ?s)" and race: "race \<in> set (rg_races ?s)" "rc_id race = bt_raceId row" "\<not> isPending race"
    from rows [OF row] obtain old where old: "old \<in> set (rg_bets s)" "bt_raceId row = bt_raceId old"
        "row = bet\<lparr>bt_payout := Some payout, bt_refunded := refunded\<rparr> \<or> row = old" by blast
    have "bt_payout old \<noteq> None" using overPaidD [OF over old(1)] race old(2) by simp
    then show "bt_payout row \<noteq> None" using old(3) by auto
  qed
  moreover have "quotesOk ?s" using quotes by (simp add: quotesOk_def)
  ultimately show ?thesis using races by (simp add: racingOk_def)
qed

section \<open>Refunds and settlements\<close>

text \<open>What a bet was placed with.\<close>

definition ticketOf :: "horse_bet \<Rightarrow> horse_bet" where
  "ticketOf bet = bet\<lparr>bt_payout := None, bt_refunded := False\<rparr>"

lemma ticketOf_eq:
  "ticketOf a = ticketOf b \<Longrightarrow> bt_id a = bt_id b \<and> bt_user a = bt_user b \<and> bt_requestId a = bt_requestId b
     \<and> bt_raceId a = bt_raceId b \<and> bt_market a = bt_market b \<and> bt_selection a = bt_selection b \<and> bt_amount a = bt_amount b"
  by (cases a; cases b) (simp add: ticketOf_def)

text \<open>What paying a bet leaves alone.\<close>

definition keepsRest :: "string set \<Rightarrow> racing \<Rightarrow> racing \<Rightarrow> bool" where
  "keepsRest ids s s' \<longleftrightarrow>
     rg_races s' = rg_races s \<and> rg_cancellations s' = rg_cancellations s \<and> rg_quotes s' = rg_quotes s
     \<and> (\<forall>row \<in> set (rg_bets s). bt_id row \<notin> ids \<longrightarrow> row \<in> set (rg_bets s'))
     \<and> map ticketOf (rg_bets s') = map ticketOf (rg_bets s)"

lemma keepsRest_refl [simp]: "keepsRest ids s s"
  by (simp add: keepsRest_def)

lemma keepsRest_trans: "keepsRest A s s' \<Longrightarrow> keepsRest B s' s'' \<Longrightarrow> keepsRest (A \<union> B) s s''"
  by (simp add: keepsRest_def)

lemma payBet_keepsRest: "keepsRest {betId} s (payBet betId payout refunded (s\<lparr>rg_wallets := wallets, rg_ledger := ledger\<rparr>))"
  by (auto simp: keepsRest_def payBet_bets ticketOf_def)

lemma payBet_row:
  "bet \<in> set (rg_bets s) \<Longrightarrow>
     bet\<lparr>bt_payout := Some payout, bt_refunded := refunded\<rparr>
       \<in> set (rg_bets (payBet (bt_id bet) payout refunded (s\<lparr>rg_wallets := wallets, rg_ledger := ledger\<rparr>)))"
  by (auto simp: payBet_bets)

definition payable :: "string set \<Rightarrow> horse_bet \<Rightarrow> racing \<Rightarrow> bool" where
  "payable X bet s \<longleftrightarrow>
     bet \<in> set (rg_bets s) \<and> bt_payout bet = None \<and> bt_id bet \<in> X \<and> \<not> mapHas (rg_cancellations s) (bt_id bet)"

lemma payable_rest:
  "payable X bet s \<Longrightarrow> keepsRest ids s s' \<Longrightarrow> bt_id bet \<notin> ids \<Longrightarrow> payable X bet s'"
  by (simp add: payable_def keepsRest_def)

definition refunded :: "horse_bet \<Rightarrow> horse_bet" where
  "refunded bet = bet\<lparr>bt_payout := Some (bt_amount bet), bt_refunded := True\<rparr>"

definition settled :: "string list \<Rightarrow> (string, int) jsmap \<Rightarrow> horse_bet \<Rightarrow> horse_bet" where
  "settled order quotes bet =
     bet\<lparr>bt_payout := Some (if betWon (bt_market bet) (bt_selection bet) order then the (mapGet quotes (bt_id bet)) else 0),
         bt_refunded := False\<rparr>"

lemma refundBet_ok:
  assumes ok: "racingOk X s" and bet: "payable X bet s" and run: "refundBet now bet s = Inr s'"
  shows "racingOk X s' \<and> keepsRest {bt_id bet} s s' \<and> refunded bet \<in> set (rg_bets s')"
proof -
  obtain s1 s2 where s1: "ensureWallet (bt_user bet) s = Inr s1"
    and s2: "changeGold (bt_user bet) (bt_amount bet) ''horse_refund'' (bt_id bet) now s1 = Inr s2"
    and s': "s' = payBet (bt_id bet) (bt_amount bet) True s2"
    using run by (auto simp: refundBet_def ok_iff payBet_def)
  obtain w where w: "s1 = s\<lparr>rg_wallets := w\<rparr>" using ensureWallet_frame [OF s1] by blast
  obtain wallets t where t: "s2 = s1\<lparr>rg_wallets := wallets, rg_ledger := rg_ledger s1 @ [t]\<rparr>"
      "gt_reason t = ''horse_refund''" "gt_reference t = bt_id bet" "gt_delta t = bt_amount bet"
    using changeGold_Inr [OF s2] by metis
  have s2': "s2 = s\<lparr>rg_wallets := wallets, rg_ledger := rg_ledger s @ [t]\<rparr>" using t(1) w by simp
  have "walletsOk s2" using changeGold_walletsOk [OF s2] ensureWallet_walletsOk [OF s1] ok by (simp add: racingOk_def)
  moreover have "paysOnly (bt_id bet) (bt_amount bet) (rg_ledger s) (rg_ledger s @ [t])"
    using t by (simp add: paysOnly_def settledSum_def)
  ultimately have "racingOk X s'"
    using payBet_ok [OF ok, of bet True "bt_amount bet"] bet unfolding s' s2' payable_def by blast
  then show ?thesis
    using payBet_keepsRest payBet_row bet unfolding s' s2' refunded_def payable_def by blast
qed

lemma settleRow:
  assumes "racingOk X s" "bet \<in> set (rg_bets s)" "bt_payout bet = None"
  shows "changeBet (bt_id bet) (\<lambda>row. row\<lparr>bt_payout := Some payout\<rparr>) (s\<lparr>rg_wallets := wallets, rg_ledger := ledger\<rparr>)
           = payBet (bt_id bet) payout False (s\<lparr>rg_wallets := wallets, rg_ledger := ledger\<rparr>)"
proof -
  have ids: "distinct (map bt_id (rg_bets s))" and b: "booked (rg_ledger s) bet"
    using assms(1, 2) by (auto simp: racingOk_def betsOk_def)
  have "\<not> bt_refunded bet" using b assms(3) by (auto simp: booked_def)
  then have "bt_refunded row = False" if "row \<in> set (rg_bets s)" "bt_id row = bt_id bet" for row
    using distinct_row [OF ids that(1) assms(2)] that(2) by simp
  then show ?thesis by (simp add: payBet_def changeBet_def)
qed

lemma settleBet_ok:
  assumes ok: "racingOk X s" and bet: "payable X bet s" and run: "settleBet order now bet s = Inr s'"
  shows "racingOk X s' \<and> keepsRest {bt_id bet} s s' \<and> settled order (rg_quotes s) bet \<in> set (rg_bets s')"
proof -
  obtain potential where q: "mapGet (rg_quotes s) (bt_id bet) = Some potential"
    using run by (auto simp: settleBet_def split: option.splits)
  define payout where "payout = (if betWon (bt_market bet) (bt_selection bet) order then potential else 0)"
  have row: "bet \<in> set (rg_bets s)" "bt_payout bet = None" using bet by (simp_all add: payable_def)
  have row': "settled order (rg_quotes s) bet = bet\<lparr>bt_payout := Some payout, bt_refunded := False\<rparr>"
    by (simp add: settled_def payout_def q)
  show ?thesis
  proof (cases "payout > 0")
    case True
    then obtain s1 s2 where s1: "ensureWallet (bt_user bet) s = Inr s1"
      and s2: "changeGold (bt_user bet) payout ''horse_payout'' (bt_id bet) now s1 = Inr s2"
      and s': "s' = changeBet (bt_id bet) (\<lambda>row. row\<lparr>bt_payout := Some payout\<rparr>) s2"
      using run q by (auto simp: settleBet_def ok_iff Let_def payout_def split: if_splits)
    obtain w where w: "s1 = s\<lparr>rg_wallets := w\<rparr>" using ensureWallet_frame [OF s1] by blast
    obtain wallets t where t: "s2 = s1\<lparr>rg_wallets := wallets, rg_ledger := rg_ledger s1 @ [t]\<rparr>"
        "gt_reason t = ''horse_payout''" "gt_reference t = bt_id bet" "gt_delta t = payout"
      using changeGold_Inr [OF s2] by metis
    have s2': "s2 = s\<lparr>rg_wallets := wallets, rg_ledger := rg_ledger s @ [t]\<rparr>" using t(1) w by simp
    have "walletsOk s2" using changeGold_walletsOk [OF s2] ensureWallet_walletsOk [OF s1] ok by (simp add: racingOk_def)
    moreover have "paysOnly (bt_id bet) payout (rg_ledger s) (rg_ledger s @ [t])"
      using t by (simp add: paysOnly_def settledSum_def)
    ultimately have "racingOk X (payBet (bt_id bet) payout False s2)"
      using payBet_ok [OF ok, of bet False payout] bet unfolding s2' payable_def by blast
    then show ?thesis
      using payBet_keepsRest payBet_row [OF row(1)] unfolding s' s2' settleRow [OF ok row] row' by blast
  next
    case False
    then have s': "s' = changeBet (bt_id bet) (\<lambda>row. row\<lparr>bt_payout := Some payout\<rparr>)
        (s\<lparr>rg_wallets := rg_wallets s, rg_ledger := rg_ledger s\<rparr>)"
      using run q by (simp add: settleBet_def Let_def payout_def split: if_splits)
    have "0 < potential" using ok q by (auto simp: racingOk_def quotesOk_def)
    then have zero: "payout = 0" using False by (simp add: payout_def split: if_splits)
    have "walletsOk (s\<lparr>rg_wallets := rg_wallets s, rg_ledger := rg_ledger s\<rparr>)" using ok by (simp add: racingOk_def)
    moreover have "paysOnly (bt_id bet) payout (rg_ledger s) (rg_ledger s)" by (simp add: paysOnly_def zero)
    ultimately have "racingOk X (payBet (bt_id bet) payout False (s\<lparr>rg_wallets := rg_wallets s, rg_ledger := rg_ledger s\<rparr>))"
      using payBet_ok [OF ok, of bet False payout] bet unfolding payable_def by blast
    then show ?thesis
      using payBet_keepsRest payBet_row [OF row(1)] unfolding s' settleRow [OF ok row] row' by blast
  qed
qed

section \<open>Paying the bets of a race\<close>

lemma keepsRest_payable:
  assumes "keepsRest {betId} s s'" "\<forall>bet \<in> set bets. payable X bet s" "betId \<notin> bt_id ` set bets"
  shows "\<forall>bet \<in> set bets. payable X bet s'"
proof
  fix bet assume bet: "bet \<in> set bets"
  then have "bt_id bet \<notin> {betId}" using assms(3) by blast
  then show "payable X bet s'" using payable_rest [OF _ assms(1)] bet assms(2) by blast
qed

lemma forEach_pay:
  assumes "racingOk X s" "\<forall>bet \<in> set bets. payable X bet s" "distinct (map bt_id bets)" "forEach f bets s = Inr s'"
    and step: "\<And>bet s s'. racingOk X s \<Longrightarrow> payable X bet s \<Longrightarrow> f bet s = Inr s' \<Longrightarrow>
       racingOk X s' \<and> keepsRest {bt_id bet} s s' \<and> row (rg_quotes s) bet \<in> set (rg_bets s')"
    and row: "\<And>quotes bet. bt_id (row quotes bet) = bt_id bet"
  shows "racingOk X s' \<and> keepsRest (bt_id ` set bets) s s' \<and> (\<forall>bet \<in> set bets. row (rg_quotes s) bet \<in> set (rg_bets s'))"
  using assms(1-4)
proof (induction bets arbitrary: s)
  case Nil
  then show ?case by simp
next
  case (Cons bet bets)
  then obtain s1 where s1: "f bet s = Inr s1" "forEach f bets s1 = Inr s'" by (auto simp: ok_iff)
  have one: "racingOk X s1" "keepsRest {bt_id bet} s s1" "row (rg_quotes s) bet \<in> set (rg_bets s1)"
    using step [OF Cons.prems(1) _ s1(1)] Cons.prems(2) by simp_all
  have pay: "\<forall>b \<in> set bets. payable X b s1"
    using keepsRest_payable [OF one(2), of bets X] Cons.prems by auto
  have rest: "racingOk X s'" "keepsRest (bt_id ` set bets) s1 s'" "\<forall>b \<in> set bets. row (rg_quotes s1) b \<in> set (rg_bets s')"
    using Cons.IH [OF one(1) pay _ s1(2)] Cons.prems(3) by auto
  have "row (rg_quotes s) bet \<in> set (rg_bets s')"
    using rest(2) one(3) row Cons.prems(3) by (auto simp: keepsRest_def)
  moreover have "rg_quotes s1 = rg_quotes s" using one(2) by (simp add: keepsRest_def)
  ultimately show ?case using rest keepsRest_trans [OF one(2) rest(2)] by simp
qed

text \<open>The live bets of a pending race can all be paid.\<close>

definition raceIds :: "string \<Rightarrow> racing \<Rightarrow> string set" where
  "raceIds raceId s = bt_id ` set (raceBets raceId False s)"

lemma raceBets_set:
  "set (raceBets raceId False s) = {bet \<in> set (rg_bets s). bt_raceId bet = raceId \<and> \<not> mapHas (rg_cancellations s) (bt_id bet)}"
  by (auto simp: raceBets_def)

lemma raceBets_distinct: "betsOk s \<Longrightarrow> distinct (map bt_id (raceBets raceId False s))"
  unfolding raceBets_def by (intro distinct_sort_key distinct_map_filter) (simp add: betsOk_def)

lemma raceBets_payable:
  assumes "racingOk {} s" "race \<in> set (rg_races s)" "rc_id race = raceId" "isPending race"
  shows "\<forall>bet \<in> set (raceBets raceId False s). payable (raceIds raceId s) bet s"
proof
  fix bet assume bet: "bet \<in> set (raceBets raceId False s)"
  then have b: "bet \<in> set (rg_bets s)" "bt_raceId bet = raceId" "\<not> mapHas (rg_cancellations s) (bt_id bet)"
    by (simp_all add: raceBets_set)
  then have "livePending s bet" using assms by (auto simp: livePending_def)
  then have "bt_payout bet = None" using unpaidD [of "{}" s bet] assms(1) b(1) by (simp add: racingOk_def)
  then show "payable (raceIds raceId s) bet s" using b bet by (simp add: payable_def raceIds_def)
qed

section \<open>Rows of races\<close>

lemma changeRace_fields [simp]:
  "rg_wallets (changeRace raceId f s) = rg_wallets s" "rg_ledger (changeRace raceId f s) = rg_ledger s"
  "rg_bets (changeRace raceId f s) = rg_bets s" "rg_quotes (changeRace raceId f s) = rg_quotes s"
  "rg_cancellations (changeRace raceId f s) = rg_cancellations s" "rg_users (changeRace raceId f s) = rg_users s"
  by (simp_all add: changeRace_def)

lemma changeRace_set:
  "set (rg_races (changeRace raceId f s)) = (\<lambda>race. if rc_id race = raceId then f race else race) ` set (rg_races s)"
  by (simp add: changeRace_def)

lemma changeRace_ids:
  "(\<And>race. rc_id (f race) = rc_id race) \<Longrightarrow> map rc_id (rg_races (changeRace raceId f s)) = map rc_id (rg_races s)"
  by (simp add: changeRace_def)

lemma changeRace_idset:
  "(\<And>race. rc_id (f race) = rc_id race) \<Longrightarrow> rc_id ` set (rg_races (changeRace raceId f s)) = rc_id ` set (rg_races s)"
  by (metis list.set_map changeRace_ids)

lemma changeRace_walletsBets:
  assumes "\<And>race. rc_id (f race) = rc_id race"
  shows "walletsOk (changeRace raceId f s) = walletsOk s" "betsOk (changeRace raceId f s) = betsOk s"
    "quotesOk (changeRace raceId f s) = quotesOk s"
  by (simp_all only: walletsOk_def betsOk_def quotesOk_def changeRace_fields changeRace_idset [of f, OF assms])

text \<open>A row may change as long as its race stays open.\<close>

lemma changeRace_open:
  assumes ok: "racingOk X s" and ids: "\<And>race. rc_id (f race) = rc_id race"
    and pend: "\<forall>race \<in> set (rg_races s). rc_id race = raceId \<longrightarrow> isPending race \<and> isPending (f race)"
  shows "racingOk X (changeRace raceId f s)" (is "racingOk X ?s")
proof -
  have rows: "\<exists>old \<in> set (rg_races s). rc_id race = rc_id old \<and> isPending race = isPending old"
    if "race \<in> set (rg_races ?s)" for race
    using that pend ids by (auto simp: changeRace_set)
  have "unpaid X ?s"
    unfolding unpaid_def
  proof (intro ballI impI)
    fix bet assume bet: "bet \<in> set (rg_bets ?s)" "bt_id bet \<notin> X" "livePending ?s bet"
    obtain race where race: "race \<in> set (rg_races ?s)" "rc_id race = bt_raceId bet" "isPending race"
      using bet(3) by (auto simp: livePending_def)
    then have "livePending s bet" using rows [OF race(1)] bet(3) by (auto simp: livePending_def)
    then show "bt_payout bet = None" using unpaidD [of X s bet] ok bet by (simp add: racingOk_def)
  qed
  moreover have "overPaid ?s"
    unfolding overPaid_def
  proof (intro ballI impI)
    fix bet race assume bet: "bet \<in> set (rg_bets ?s)" and race: "race \<in> set (rg_races ?s)" "rc_id race = bt_raceId bet" "\<not> isPending race"
    obtain old where "old \<in> set (rg_races s)" "rc_id old = bt_raceId bet" "\<not> isPending old"
      using rows [OF race(1)] race(2, 3) by auto
    then show "bt_payout bet \<noteq> None" using overPaidD [of s bet old] ok bet by (simp add: racingOk_def)
  qed
  moreover have "distinct (map rc_id (rg_races ?s))" using ok by (simp add: racingOk_def changeRace_ids [of f, OF ids])
  ultimately show ?thesis using ok changeRace_walletsBets [of f, OF ids] by (simp add: racingOk_def)
qed

text \<open>A race is over once its live bets are paid.\<close>

lemma changeRace_close:
  assumes ok: "racingOk X s" and ids: "\<And>race. rc_id (f race) = rc_id race" and closed: "\<And>race. \<not> isPending (f race)"
    and own: "\<forall>bet \<in> set (rg_bets s). bt_id bet \<in> X \<longrightarrow> bt_raceId bet = raceId"
    and paid: "\<forall>bet \<in> set (rg_bets s). bt_raceId bet = raceId \<longrightarrow> bt_payout bet \<noteq> None"
  shows "racingOk {} (changeRace raceId f s)" (is "racingOk {} ?s")
proof -
  have other: "race \<in> set (rg_races s)" if "race \<in> set (rg_races ?s)" "rc_id race \<noteq> raceId" for race
    using that ids by (auto simp: changeRace_set split: if_splits)
  have same: "\<not> isPending race" if "race \<in> set (rg_races ?s)" "rc_id race = raceId" for race
    using that ids closed by (auto simp: changeRace_set split: if_splits)
  have "unpaid {} ?s"
    unfolding unpaid_def
  proof (intro ballI impI)
    fix bet assume bet: "bet \<in> set (rg_bets ?s)" "livePending ?s bet"
    obtain race where race: "race \<in> set (rg_races ?s)" "rc_id race = bt_raceId bet" "isPending race"
      using bet(2) by (auto simp: livePending_def)
    then have diff: "bt_raceId bet \<noteq> raceId" using same by metis
    then have "race \<in> set (rg_races s)" using other race by simp
    then have "livePending s bet" using bet(2) race by (auto simp: livePending_def)
    moreover have "bt_id bet \<notin> X" using own bet(1) diff by auto
    ultimately show "bt_payout bet = None" using unpaidD [of X s bet] ok bet by (simp add: racingOk_def)
  qed
  moreover have "overPaid ?s"
    unfolding overPaid_def
  proof (intro ballI impI)
    fix bet race assume bet: "bet \<in> set (rg_bets ?s)" and race: "race \<in> set (rg_races ?s)" "rc_id race = bt_raceId bet" "\<not> isPending race"
    show "bt_payout bet \<noteq> None"
    proof (cases "bt_raceId bet = raceId")
      case True
      then show ?thesis using paid bet by simp
    next
      case False
      then show ?thesis using overPaidD [of s bet race] ok bet race other by (simp add: racingOk_def)
    qed
  qed
  moreover have "distinct (map rc_id (rg_races ?s))" using ok by (simp add: racingOk_def changeRace_ids [of f, OF ids])
  ultimately show ?thesis using ok changeRace_walletsBets [of f, OF ids] by (simp add: racingOk_def)
qed

section \<open>Closing a race\<close>

lemma same_tickets:
  assumes "keepsRest ids s s'" "bet' \<in> set (rg_bets s')"
  shows "\<exists>bet \<in> set (rg_bets s). ticketOf bet = ticketOf bet'"
proof -
  have "ticketOf bet' \<in> set (map ticketOf (rg_bets s))" using assms by (metis keepsRest_def image_eqI list.set_map)
  then show ?thesis by auto
qed

lemma payRace:
  assumes ok: "racingOk {} s" and race: "race \<in> set (rg_races s)" "rc_id race = raceId" "isPending race"
    and run: "forEach f (raceBets raceId False s) s = Inr s1"
    and step: "\<And>X bet s s'. racingOk X s \<Longrightarrow> payable X bet s \<Longrightarrow> f bet s = Inr s' \<Longrightarrow>
       racingOk X s' \<and> keepsRest {bt_id bet} s s' \<and> row (rg_quotes s) bet \<in> set (rg_bets s')"
    and row: "\<And>quotes bet. bt_id (row quotes bet) = bt_id bet \<and> bt_payout (row quotes bet) \<noteq> None"
  shows "racingOk (raceIds raceId s) s1 \<and> keepsRest (raceIds raceId s) s s1
    \<and> (\<forall>bet \<in> set (raceBets raceId False s). row (rg_quotes s) bet \<in> set (rg_bets s1))
    \<and> (\<forall>bet \<in> set (rg_bets s1). bt_id bet \<in> raceIds raceId s \<longrightarrow> bt_raceId bet = raceId)
    \<and> (\<forall>bet \<in> set (rg_bets s1). bt_raceId bet = raceId \<longrightarrow> bt_payout bet \<noteq> None)"
proof -
  have bets: "betsOk s" using ok by (simp add: racingOk_def)
  have ids: "distinct (map bt_id (rg_bets s))" using bets by (simp add: betsOk_def)
  have ok': "racingOk (raceIds raceId s) s" by (rule racingOk_mono [OF ok]) simp
  have row': "bt_id (row quotes bet) = bt_id bet" for quotes bet using row by blast
  have "racingOk (raceIds raceId s) s1 \<and> keepsRest (bt_id ` set (raceBets raceId False s)) s s1
      \<and> (\<forall>bet \<in> set (raceBets raceId False s). row (rg_quotes s) bet \<in> set (rg_bets s1))"
    by (rule forEach_pay [OF ok' raceBets_payable [OF ok race] raceBets_distinct [OF bets] run step row'])
  then have r: "racingOk (raceIds raceId s) s1" "keepsRest (raceIds raceId s) s s1"
      "\<forall>bet \<in> set (raceBets raceId False s). row (rg_quotes s) bet \<in> set (rg_bets s1)"
    unfolding raceIds_def by blast+
  have b1: "betsOk s1" using r(1) by (simp add: racingOk_def)
  then have ids1: "distinct (map bt_id (rg_bets s1))" by (simp add: betsOk_def)
  have own: "bt_raceId bet = raceId" if bet: "bet \<in> set (rg_bets s1)" "bt_id bet \<in> raceIds raceId s" for bet
  proof -
    obtain old where old: "old \<in> set (rg_bets s)" "ticketOf old = ticketOf bet" using same_tickets [OF r(2) bet(1)] by blast
    obtain live where live: "live \<in> set (rg_bets s)" "bt_raceId live = raceId" "bt_id live = bt_id bet"
      using bet(2) by (auto simp: raceIds_def raceBets_set)
    have "bt_id old = bt_id live" using ticketOf_eq [OF old(2)] live(3) by simp
    then have "old = live" by (rule distinct_row [OF ids old(1) live(1)])
    then show ?thesis using ticketOf_eq [OF old(2)] live(2) by simp
  qed
  have "bt_payout bet \<noteq> None" if bet: "bet \<in> set (rg_bets s1)" "bt_raceId bet = raceId" for bet
  proof (cases "mapHas (rg_cancellations s) (bt_id bet)")
    case True
    moreover have "rg_cancellations s1 = rg_cancellations s" using r(2) by (simp add: keepsRest_def)
    ultimately have "mapHas (rg_cancellations s1) (bt_id bet)" by simp
    moreover have "booked (rg_ledger s1) bet" "mapHas (rg_cancellations s1) (bt_id bet) \<longrightarrow> bt_refunded bet"
      using b1 bet(1) unfolding betsOk_def by blast+
    ultimately show ?thesis by (simp add: booked_def)
  next
    case False
    obtain old where old: "old \<in> set (rg_bets s)" "ticketOf old = ticketOf bet" using same_tickets [OF r(2) bet(1)] by blast
    then have "old \<in> set (raceBets raceId False s)" using ticketOf_eq [OF old(2)] False bet(2) by (simp add: raceBets_set)
    then have "row (rg_quotes s) old \<in> set (rg_bets s1)" using r(3) by blast
    moreover have "bt_id (row (rg_quotes s) old) = bt_id bet" using row ticketOf_eq [OF old(2)] by simp
    ultimately have "row (rg_quotes s) old = bet" using distinct_row [OF ids1 _ bet(1)] by blast
    then show ?thesis using row by metis
  qed
  then show ?thesis using r own by blast
qed

lemma closeRace_ok:
  assumes "racingOk {} s" "race \<in> set (rg_races s)" "rc_id race = raceId" "isPending race"
    and "forEach f (raceBets raceId False s) s = Inr s1"
    and "\<And>X bet s s'. racingOk X s \<Longrightarrow> payable X bet s \<Longrightarrow> f bet s = Inr s' \<Longrightarrow>
       racingOk X s' \<and> keepsRest {bt_id bet} s s' \<and> row (rg_quotes s) bet \<in> set (rg_bets s')"
    and "\<And>quotes bet. bt_id (row quotes bet) = bt_id bet \<and> bt_payout (row quotes bet) \<noteq> None"
    and ids: "\<And>race. rc_id (g race) = rc_id race" and closed: "\<And>race. \<not> isPending (g race)"
  shows "racingOk {} (changeRace raceId g s1)"
  using changeRace_close [OF _ ids closed, of "raceIds raceId s" s1 raceId]
    payRace [OF assms(1-7)] by blast

definition othersKept :: "string \<Rightarrow> racing \<Rightarrow> racing \<Rightarrow> bool" where
  "othersKept raceId s s' \<longleftrightarrow> (\<forall>race \<in> set (rg_races s). rc_id race \<noteq> raceId \<longrightarrow> race \<in> set (rg_races s'))"

lemma othersKept_refl [simp]: "othersKept raceId s s" by (simp add: othersKept_def)

lemma othersKept_trans: "othersKept raceId s s' \<Longrightarrow> othersKept raceId s' s'' \<Longrightarrow> othersKept raceId s s''"
  by (simp add: othersKept_def)

lemma othersKept_changeRace [simp]: "othersKept raceId s (changeRace raceId f s)"
  by (force simp: othersKept_def changeRace_set)

lemma othersKept_keepsRest: "keepsRest ids s s' \<Longrightarrow> othersKept raceId s s'"
  by (simp add: keepsRest_def othersKept_def)

lemma othersKept_setRaceStatus [simp]: "othersKept raceId s (setRaceStatus raceId status s)"
  by (simp add: setRaceStatus_def)

lemma row_simps [simp]:
  "bt_id (refunded bet) = bt_id bet" "bt_payout (refunded bet) = Some (bt_amount bet)"
  "bt_id (settled order quotes bet) = bt_id bet" "bt_payout (settled order quotes bet) \<noteq> None"
  by (simp_all add: refunded_def settled_def)

lemma cancelRace_ok:
  assumes ok: "racingOk {} s" and race: "race \<in> set (rg_races s)" "rc_id race = raceId" "isPending race"
    and run: "cancelRace raceId reason now s = Inr s'"
  shows "racingOk {} s' \<and> othersKept raceId s s'"
proof -
  obtain s1 where s1: "forEach (refundBet now) (raceBets raceId False s) s = Inr s1"
    and s': "s' = changeRace raceId (\<lambda>race. race\<lparr>rc_status := RaceCancelled, rc_cancellationReason := Some reason\<rparr>) s1"
    using run by (auto simp: cancelRace_def ok_iff)
  have "racingOk {} s'"
    unfolding s' by (rule closeRace_ok [OF ok race s1 refundBet_ok]) (simp_all add: isPending_def)
  moreover have "keepsRest (raceIds raceId s) s s1"
    using payRace [OF ok race s1 refundBet_ok] by simp
  ultimately show ?thesis
    unfolding s' by (blast intro: othersKept_trans othersKept_keepsRest othersKept_changeRace)
qed

lemma pending_row:
  "racingOk X s \<Longrightarrow> race \<in> set (rg_races s) \<Longrightarrow> isPending race \<Longrightarrow> r \<in> set (rg_races s) \<Longrightarrow> rc_id r = rc_id race \<Longrightarrow> isPending r"
  using distinct_row [of rc_id "rg_races s" r race] by (simp add: racingOk_def)

lemma setRaceStatus_ok:
  assumes "racingOk X s" "race \<in> set (rg_races s)" "rc_id race = raceId" "isPending race" "status \<noteq> RaceSettled" "status \<noteq> RaceCancelled"
  shows "racingOk X (setRaceStatus raceId status s)"
  unfolding setRaceStatus_def
  using pending_row [OF assms(1, 2, 4)] assms(3, 5, 6) by (intro changeRace_open [OF assms(1)]) (auto simp: isPending_def)

text \<open>A change of a row that leaves the status keeps the race pending.\<close>

lemma changeRace_pending:
  assumes ok: "racingOk X s" and race: "race \<in> set (rg_races s)" "rc_id race = raceId" "isPending race"
    and f: "\<And>race. rc_id (f race) = rc_id race" "\<And>race. rc_status (f race) = rc_status race"
  shows "racingOk X (changeRace raceId f s) \<and> f race \<in> set (rg_races (changeRace raceId f s)) \<and> isPending (f race)"
proof -
  have same: "isPending (f r) = isPending r" for r using f by (simp add: isPending_def)
  have "racingOk X (changeRace raceId f s)"
    using pending_row [OF ok race(1, 3)] race(2) f by (intro changeRace_open [OF ok]) (auto simp: same)
  then show ?thesis using race same by (auto simp: changeRace_set)
qed

section \<open>Advancing\<close>

lemma runRace_ok:
  assumes ok: "racingOk {} s" and row: "race \<in> set (rg_races s)" "isPending race"
    and run: "runRace engine now race (raceBets (rc_id race) False s) s = Inr s'"
  shows "racingOk {} s' \<and> othersKept (rc_id race) s s'"
proof -
  define order where "order = (case rc_finishOrder race of Some drawn \<Rightarrow> drawn | None \<Rightarrow> re_draw engine (rc_horses race) (rc_seed race))"
  define f where "f = (\<lambda>row :: horse_race. row\<lparr>rc_finishOrder := Some order\<rparr>)"
  define s1 where "s1 = (if rc_finishOrder race = None then changeRace (rc_id race) f s else s)"
  define race' where "race' = (if rc_finishOrder race = None then f race else race)"
  have one: "racingOk {} s1" "race' \<in> set (rg_races s1)" "isPending race'" "rc_id race' = rc_id race"
    using changeRace_pending [OF ok row(1) refl row(2), of f] ok row by (auto simp: s1_def race'_def f_def)
  have kept: "othersKept (rc_id race) s s1" by (simp add: s1_def)
  have bets: "raceBets (rc_id race) False s = raceBets (rc_id race) False s1" by (simp add: s1_def raceBets_def)
  let ?settle = "changeRace (rc_id race) (\<lambda>row. row\<lparr>rc_status := RaceSettled, rc_finishOrder := Some order\<rparr>)"
  have "runRace engine now race bets s =
      (if now < rc_startsAt race then Inr (setRaceStatus (rc_id race) RaceLocked s1)
       else if now < rc_startsAt race + HORSE_RACE_DURATION_MS then Inr (setRaceStatus (rc_id race) RaceRunning s1)
       else resultThen (forEach (settleBet order now) bets s1) (\<lambda>s2. Inr (?settle s2)))" for bets
    unfolding runRace_def Let_def s1_def order_def f_def ..
  with run consider status where "s' = setRaceStatus (rc_id race) status s1" "status \<in> {RaceLocked, RaceRunning}"
    | s2 where "forEach (settleBet order now) (raceBets (rc_id race) False s1) s1 = Inr s2" "s' = ?settle s2"
    unfolding bets by (auto simp: ok_iff split: if_splits)
  then show ?thesis
  proof cases
    case 1
    then have "racingOk {} s'" using setRaceStatus_ok [OF one(1, 2, 4, 3)] by auto
    then show ?thesis using othersKept_trans [OF kept] 1(1) by simp
  next
    case 2
    have "racingOk {} s'"
      unfolding 2(2) by (rule closeRace_ok [OF one(1, 2, 4, 3) 2(1) settleBet_ok]) (simp_all add: isPending_def)
    moreover have "keepsRest (raceIds (rc_id race) s1) s1 s2"
      using payRace [OF one(1, 2, 4, 3) 2(1) settleBet_ok] by simp
    ultimately show ?thesis
      unfolding 2(2) by (blast intro: othersKept_trans kept othersKept_keepsRest othersKept_changeRace)
  qed
qed

lemma advanceRace_ok:
  assumes ok: "racingOk {} s" and row: "race \<in> set (rg_races s)" "isPending race"
    and run: "advanceRace engine now race s = Inr s'"
  shows "racingOk {} s' \<and> othersKept (rc_id race) s s'"
proof -
  define f where "f = (\<lambda>row :: horse_race. row\<lparr>rc_animation := HORSE_RACING_ANIMATION_VERSION\<rparr>)"
  define race' where "race' = (if refreshable race then f race else race)"
  define s1 where "s1 = (if refreshable race then changeRace (rc_id race') f s else s)"
  have same: "rc_id race' = rc_id race" by (simp add: race'_def f_def)
  have one: "racingOk {} s1" "race' \<in> set (rg_races s1)" "isPending race'" "rc_id race' = rc_id race"
    using changeRace_pending [OF ok row(1) refl row(2), of f] ok row by (auto simp: s1_def same) (auto simp: race'_def f_def)
  have kept: "othersKept (rc_id race) s s1" by (simp add: s1_def same)
  have "advanceRace engine now race s =
      (if now < horseRaceOpensAt (rc_startsAt race') then Inr s1
       else if \<not> currentEngine race' then cancelRace (rc_id race') ''engine_changed'' now s1
       else if now < rc_startsAt race' - HORSE_RACE_LOCK_BEFORE_MS then Inr (setRaceStatus (rc_id race') RaceBetting s1)
       else if length (jsUnique (map bt_user (raceBets (rc_id race') False s1))) < 2
            then cancelRace (rc_id race') ''insufficient_participants'' now s1
            else runRace engine now race' (raceBets (rc_id race') False s1) s1)"
    unfolding advanceRace_def Let_def s1_def race'_def f_def ..
  with run consider "s' = s1" | reason where "cancelRace (rc_id race') reason now s1 = Inr s'"
    | "s' = setRaceStatus (rc_id race') RaceBetting s1"
    | "runRace engine now race' (raceBets (rc_id race') False s1) s1 = Inr s'"
    by (metis Inr_inject)
  then have "racingOk {} s' \<and> othersKept (rc_id race) s1 s'"
  proof cases
    case 2
    then show ?thesis using cancelRace_ok [OF one(1, 2) refl one(3)] one(4) by simp
  next
    case 3
    then show ?thesis using setRaceStatus_ok [OF one(1, 2) refl one(3)] one(4) by simp
  next
    case 4
    then show ?thesis using runRace_ok [OF one(1-3)] one(4) by simp
  qed (use one in simp)
  then show ?thesis using othersKept_trans [OF kept] by blast
qed

lemma openRace_ok:
  assumes "openRace engine startsAt s = Inr s'" "racingOk {} s"
  shows "racingOk {} s'"
proof (cases "findRace (raceIdAt startsAt) s")
  case None
  obtain race where s': "s' = s\<lparr>rg_races := rg_races s @ [race]\<rparr>" and race: "rc_id race = raceIdAt startsAt" "isPending race"
    using assms(1) None by (auto simp: openRace_def Let_def isPending_def split: if_splits)
  have fresh: "rc_id race \<notin> rc_id ` set (rg_races s)" using None by (auto simp: findRace_def find_None_iff race(1))
  then have other: "bt_raceId bet \<noteq> rc_id race" if "bet \<in> set (rg_bets s)" for bet
  proof -
    have "bt_raceId bet \<in> rc_id ` set (rg_races s)" using assms(2) that unfolding racingOk_def betsOk_def by blast
    then show ?thesis using fresh by metis
  qed
  have "betsOk s'" using assms(2) by (auto simp: racingOk_def betsOk_def s')
  moreover have "unpaid {} s'" "overPaid s'"
    using assms(2) other by (auto simp: racingOk_def unpaid_def livePending_def overPaid_def s' dest: sym)
  ultimately show ?thesis using assms(2) fresh by (simp add: racingOk_def s' walletsOk_def quotesOk_def)
qed (use assms in \<open>simp add: openRace_def Let_def\<close>)

lemma forEach_advance:
  assumes "racingOk {} s" "\<forall>race \<in> set races. race \<in> set (rg_races s) \<and> isPending race" "distinct (map rc_id races)"
    "forEach (advanceRace engine now) races s = Inr s'"
  shows "racingOk {} s'"
  using assms
proof (induction races arbitrary: s)
  case (Cons race races)
  obtain s1 where s1: "advanceRace engine now race s = Inr s1" "forEach (advanceRace engine now) races s1 = Inr s'"
    using Cons.prems(4) by (auto simp: ok_iff)
  have one: "racingOk {} s1" "othersKept (rc_id race) s s1" using advanceRace_ok [OF Cons.prems(1) _ _ s1(1)] Cons.prems(2) by simp_all
  moreover have "\<forall>r \<in> set races. rc_id r \<noteq> rc_id race" using Cons.prems(3) by (auto dest: sym)
  ultimately have "\<forall>r \<in> set races. r \<in> set (rg_races s1) \<and> isPending r" using Cons.prems(2) by (simp add: othersKept_def)
  then show ?case using Cons.IH [OF one(1) _ _ s1(2)] Cons.prems(3) by simp
qed simp

lemma pendingRaces_set: "set (pendingRaces s) = {race \<in> set (rg_races s). isPending race}"
  by (auto simp: pendingRaces_def isPending_def)

lemma advanceRaces_ok:
  assumes "advanceRaces engine now s = Inr s'" "racingOk {} s"
  shows "racingOk {} s'"
proof -
  obtain starts s1 where s1: "forEach (openRace engine) starts s = Inr s1"
      "forEach (advanceRace engine now) (pendingRaces s1) s1 = Inr s'"
    using assms(1) by (auto simp: advanceRaces_def ok_iff split: option.splits)
  have one: "racingOk {} s1" using forEach_keeps [of "openRace engine" "racingOk {}", OF openRace_ok s1(1) assms(2)] .
  then have "distinct (map rc_id (pendingRaces s1))"
    unfolding pendingRaces_def by (intro distinct_sort_key distinct_map_filter) (simp add: racingOk_def)
  then show ?thesis using forEach_advance [OF one _ _ s1(2)] pendingRaces_set by blast
qed

section \<open>Tickets\<close>

lemma insertTicket_Inr:
  assumes "insertTicket ticket quote now s = Inr s'"
  shows "bt_id ticket \<notin> bt_id ` set (rg_bets s)"
    "(bt_user ticket, bt_requestId ticket) \<notin> (\<lambda>bet. (bt_user bet, bt_requestId bet)) ` set (rg_bets s)"
    "0 < hq_potentialPayout quote"
    "\<exists>activity. s' = s\<lparr>rg_bets := rg_bets s @ [ticket],
       rg_quotes := mapSet (rg_quotes s) (bt_id ticket) (hq_potentialPayout quote), rg_activity := activity\<rparr>"
  using assms by (auto simp: insertTicket_def split: if_splits)

lemma quotesOk_set: "quotesOk s \<Longrightarrow> 0 < quote \<Longrightarrow> \<forall>betId q. mapGet (mapSet (rg_quotes s) ref quote) betId = Some q \<longrightarrow> 0 < q"
  by (simp add: quotesOk_def)

lemma newTicket_ok:
  assumes ok: "racingOk {} s"
    and debit: "changeGold (bt_user ticket) (- bt_amount ticket) ''horse_bet'' (bt_id ticket) now s = Inr s1"
    and insert: "insertTicket ticket quote now s1 = Inr s2"
    and new: "bt_payout ticket = None" "\<not> bt_refunded ticket"
    and race: "race \<in> set (rg_races s)" "rc_id race = bt_raceId ticket" "isPending race"
  shows "racingOk {} s2"
proof -
  obtain wallets t where s1: "s1 = s\<lparr>rg_wallets := wallets, rg_ledger := rg_ledger s @ [t]\<rparr>"
    and t: "gt_reason t = ''horse_bet''" "gt_reference t = bt_id ticket" "gt_delta t = - bt_amount ticket"
    using changeGold_Inr [OF debit] by metis
  obtain activity where s2: "s2 = s1\<lparr>rg_bets := rg_bets s1 @ [ticket],
       rg_quotes := mapSet (rg_quotes s1) (bt_id ticket) (hq_potentialPayout quote), rg_activity := activity\<rparr>"
    using insertTicket_Inr(4) [OF insert] by blast
  have fresh: "bt_id ticket \<notin> bt_id ` set (rg_bets s)"
      "(bt_user ticket, bt_requestId ticket) \<notin> (\<lambda>bet. (bt_user bet, bt_requestId bet)) ` set (rg_bets s)"
    using insertTicket_Inr(1, 2) [OF insert] by (simp_all add: s1)
  have bets: "betsOk s" using ok by (simp add: racingOk_def)
  have none: "untouched (rg_ledger s) (bt_id ticket)" "\<not> mapHas (rg_cancellations s) (bt_id ticket)"
    using bets fresh(1) unfolding betsOk_def by blast+
  have sums: "paid ''horse_bet'' ref (rg_ledger s @ [t]) = paid ''horse_bet'' ref (rg_ledger s) - (if ref = bt_id ticket then bt_amount ticket else 0)"
      "settledSum ref (rg_ledger s @ [t]) = settledSum ref (rg_ledger s)" for ref
    using t by (auto simp: settledSum_def)
  have "booked (rg_ledger s @ [t]) ticket"
    using none(1) new t by (simp add: booked_def untouched_def owedTo_def sums)
  moreover have "booked (rg_ledger s @ [t]) bet = booked (rg_ledger s) bet" if "bet \<in> set (rg_bets s)" for bet
  proof -
    have "bt_id bet \<noteq> bt_id ticket" using that fresh(1) by (metis image_eqI)
    then show ?thesis using t by (simp add: booked_def sums)
  qed
  moreover have "untouched (rg_ledger s @ [t]) ref = untouched (rg_ledger s) ref" if "ref \<noteq> bt_id ticket" for ref
    using that t by (simp add: untouched_def sums)
  moreover have "bt_raceId ticket \<in> rc_id ` set (rg_races s)" using race by (auto simp flip: race(2))
  ultimately have "betsOk s2" using bets fresh none(2) by (simp add: betsOk_def s2 s1)
  moreover have "unpaid {} s2" using ok new by (simp add: racingOk_def unpaid_def livePending_def s2 s1)
  moreover have "overPaid s2"
    using ok pending_row [OF ok race(1, 3)] race(2) by (auto simp: racingOk_def overPaid_def s2 s1)
  moreover have "walletsOk s2"
    using changeGold_walletsOk [OF debit] ok by (simp add: racingOk_def walletsOk_def s2)
  moreover have "quotesOk s2"
    using quotesOk_set [OF _ insertTicket_Inr(3) [OF insert], of s] ok by (simp add: racingOk_def quotesOk_def s2 s1)
  ultimately show ?thesis using ok by (simp add: racingOk_def s2 s1)
qed

lemma findRace_Some: "findRace raceId s = Some race \<Longrightarrow> race \<in> set (rg_races s) \<and> rc_id race = raceId"
  by (auto simp: findRace_def find_Some_iff)

lemma placeTicket_ok:
  assumes "placeTicket userId request now ticketId s0 = Inr (receipt, s')" "racingOk {} s0"
  shows "racingOk {} s'"
proof -
  obtain s where s: "ensureWallet userId s0 = Inr s" using assms(1) by (auto simp: placeTicket_def ok_iff)
  have ok: "racingOk {} s" using ensureWallet_racingOk [OF s assms(2)] .
  from assms(1) s consider "s' = s"
    | race where "findRace (vr_raceId request) s = Some race" "bettingOpen race now"
        "acceptBet userId request now ticketId race s = Inr (receipt, s')"
    by (auto simp: placeTicket_def racingError_def split: option.splits if_splits)
  then show ?thesis
  proof cases
    case 2
    obtain quote where "quoteHorseBet (rc_horses race) (vr_market request) (vr_selection request) (vr_amount request) = Inr quote"
      using 2(3) by (auto simp: acceptBet_def racingError_def split: if_splits sum.splits)
    moreover define ticket where "ticket = \<lparr>bt_id = ticketId, bt_user = userId, bt_requestId = vr_requestId request,
       bt_raceId = rc_id race, bt_market = vr_market request, bt_selection = canonicalIds (vr_selection request),
       bt_amount = vr_amount request, bt_payout = None, bt_refunded = False\<rparr>"
    ultimately obtain s1 where debit: "changeGold userId (- vr_amount request) ''horse_bet'' ticketId now s = Inr s1"
      and insert: "insertTicket ticket quote now s1 = Inr s'"
      using 2(3) by (auto simp: acceptBet_def racingError_def ok_iff Let_def split: if_splits)
    have "isPending race" using 2(2) by (simp add: bettingOpen_def isPending_def)
    then show ?thesis
      using findRace_Some [OF 2(1)] debit newTicket_ok [OF ok _ insert, where ?race = race] by (simp add: ticket_def)
  qed (use ok in simp)
qed

text \<open>A refund does not look at the cancellations.\<close>

lemma ensureWallet_cancellations:
  "ensureWallet user (s\<lparr>rg_cancellations := c\<rparr>)
     = (case ensureWallet user s of Inl failure \<Rightarrow> Inl failure | Inr s1 \<Rightarrow> Inr (s1\<lparr>rg_cancellations := c\<rparr>))"
  by (simp add: ensureWallet_def)

lemma changeGold_cancellations:
  "changeGold user delta reason ref now (s\<lparr>rg_cancellations := c\<rparr>)
     = (case changeGold user delta reason ref now s of Inl failure \<Rightarrow> Inl failure | Inr s1 \<Rightarrow> Inr (s1\<lparr>rg_cancellations := c\<rparr>))"
  by (cases "mapGet (rg_wallets s) user") (auto simp: changeGold_def Let_def split: if_splits)

lemma refundBet_cancellations:
  "refundBet now bet (s\<lparr>rg_cancellations := c\<rparr>)
     = (case refundBet now bet s of Inl failure \<Rightarrow> Inl failure | Inr s1 \<Rightarrow> Inr (s1\<lparr>rg_cancellations := c\<rparr>))"
  unfolding refundBet_def ensureWallet_cancellations
  by (cases "ensureWallet (bt_user bet) s")
    (simp_all add: changeGold_cancellations changeBet_def resultThen_def split: sum.split)

lemma cancelBet_close:
  assumes ok: "racingOk {bt_id bet} s" and bet: "refunded bet \<in> set (rg_bets s)"
  shows "racingOk {} (s\<lparr>rg_cancellations := mapSet (rg_cancellations s) (bt_id bet) now\<rparr>)" (is "racingOk {} ?s")
proof -
  have ids: "distinct (map bt_id (rg_bets s))" and bets: "betsOk s" using ok by (simp_all add: racingOk_def betsOk_def)
  have "bt_refunded row" if "row \<in> set (rg_bets s)" "bt_id row = bt_id bet" for row
  proof -
    have "bt_id row = bt_id (refunded bet)" using that(2) by simp
    then have "row = refunded bet" by (rule distinct_row [OF ids that(1) bet])
    then show ?thesis by (simp add: refunded_def)
  qed
  moreover have "bt_id bet \<in> bt_id ` set (rg_bets s)" using bet by (metis image_eqI row_simps(1))
  ultimately have "betsOk ?s" using bets unfolding betsOk_def by auto
  moreover have "unpaid {} ?s" using ok by (auto simp: racingOk_def unpaid_def livePending_def)
  ultimately show ?thesis using ok by (simp add: racingOk_def walletsOk_def quotesOk_def overPaid_def)
qed

lemma cancelTicket_ok:
  assumes "cancelTicket userId betId now s0 = Inr (receipt, s')" "racingOk {} s0"
  shows "racingOk {} s'"
proof -
  obtain s where s: "ensureWallet userId s0 = Inr s" using assms(1) by (auto simp: cancelTicket_def ok_iff)
  have ok: "racingOk {} s" using ensureWallet_racingOk [OF s assms(2)] .
  from assms(1) s consider "s' = s"
    | bet race where "bet \<in> set (rg_bets s)" "\<not> mapHas (rg_cancellations s) (bt_id bet)"
        "findRace (bt_raceId bet) s = Some race" "rc_status race = RaceBetting"
        "refundBet now bet (s\<lparr>rg_cancellations := mapSet (rg_cancellations s) (bt_id bet) now\<rparr>) = Inr s'"
    by (auto simp: cancelTicket_def racingError_def ok_iff dest!: find_in_set split: option.splits if_splits)
  then show ?thesis
  proof cases
    case 2
    obtain s1 where s1: "refundBet now bet s = Inr s1"
      and s': "s' = s1\<lparr>rg_cancellations := mapSet (rg_cancellations s) (bt_id bet) now\<rparr>"
      using 2(5) by (auto simp: refundBet_cancellations split: sum.splits)
    have "livePending s bet"
      using 2(2, 4) findRace_Some [OF 2(3)] unfolding livePending_def isPending_def by (intro conjI bexI [of _ race]) simp_all
    then have "bt_payout bet = None" using unpaidD [of "{}" s bet] ok 2(1) by (simp add: racingOk_def)
    then have "payable {bt_id bet} bet s" using 2 by (simp add: payable_def)
    then have r: "racingOk {bt_id bet} s1" "keepsRest {bt_id bet} s s1" "refunded bet \<in> set (rg_bets s1)"
      using refundBet_ok [OF racingOk_mono [OF ok] _ s1] by blast+
    then have "rg_cancellations s1 = rg_cancellations s" by (simp add: keepsRest_def)
    then show ?thesis using cancelBet_close [OF r(1, 3), of now] s' by simp
  qed (use ok in simp)
qed

text \<open>The digits of an integer without unary numbers, for evaluation.\<close>

lemma bigintString_code [code]:
  "bigintString n =
     (if n < 0 then CHR ''-'' # bigintString (- n)
      else if n < 10 then [char_of (48 + nat n)]
      else bigintString (n div 10) @ [char_of (48 + nat (n mod 10))])"
  by (simp add: bigintString_def decimal.simps [of "nat n"] nat_div_distrib nat_mod_distrib)

section \<open>Histories\<close>

text \<open>The games besides the races move gold through the same wallet, under their own reasons.\<close>

datatype racing_op =
    AdvanceOp int
  | PlaceBetOp string bet_request int string
  | CancelBetOp string js_value int
  | OtherGameOp string int string string int
  | NewUserOp string

definition otherGame :: "string \<Rightarrow> int \<Rightarrow> string \<Rightarrow> string \<Rightarrow> int \<Rightarrow> racing \<Rightarrow> (racing_failure + unit) \<times> racing" where
  "otherGame user delta reason ref now =
     inTransaction (\<lambda>s. if reason \<in> horseReasons then Inl GoldMovementInvalid
       else resultThen (ensureWallet user s) (\<lambda>s1. resultThen (changeGold user delta reason ref now s1) (\<lambda>s2. Inr ((), s2))))"

fun racingStep :: "racing_engine \<Rightarrow> racing_op \<Rightarrow> racing \<Rightarrow> racing" where
  "racingStep engine (AdvanceOp now) s = snd (advance engine now s)"
| "racingStep engine (PlaceBetOp user request now ticketId) s = snd (placeBet engine user request now ticketId s)"
| "racingStep engine (CancelBetOp user betId now) s = snd (cancelBet engine user betId now s)"
| "racingStep engine (OtherGameOp user delta reason ref now) s = snd (otherGame user delta reason ref now s)"
| "racingStep engine (NewUserOp user) s = s\<lparr>rg_users := rg_users s @ [user]\<rparr>"

definition racingRun :: "racing_engine \<Rightarrow> racing_op list \<Rightarrow> racing \<Rightarrow> racing" where
  "racingRun engine ops s = foldl (\<lambda>state op. racingStep engine op state) s ops"

definition noRaces :: racing where
  "noRaces = \<lparr>rg_users = [], rg_wallets = [], rg_ledger = [], rg_races = [], rg_bets = [], rg_quotes = [],
     rg_cancellations = [], rg_activity = []\<rparr>"

lemma advance_keeps:
  assumes "P s" "\<And>s'. advanceRaces engine now s = Inr s' \<Longrightarrow> P s'"
  shows "P (snd (advance engine now s))"
  unfolding advance_def by (rule inTransaction_keeps [of P, OF assms(1)]) (auto simp: ok_iff intro: assms(2))

lemma otherGame_keeps:
  assumes "P s"
    and "\<And>s1 s2. reason \<notin> horseReasons \<Longrightarrow> ensureWallet user s = Inr s1 \<Longrightarrow> changeGold user delta reason ref now s1 = Inr s2 \<Longrightarrow> P s2"
  shows "P (snd (otherGame user delta reason ref now s))"
  unfolding otherGame_def
  by (rule inTransaction_keeps [of P, OF assms(1)]) (auto simp: ok_iff split: if_splits intro: assms(2))

text \<open>What the transactions keep, every operation keeps.\<close>

lemma racingStep_keeps:
  assumes "P s"
    and advances: "\<And>s s' now. P s \<Longrightarrow> advanceRaces engine now s = Inr s' \<Longrightarrow> P s'"
    and places: "\<And>s s' user request now ticketId receipt. P s \<Longrightarrow> placeTicket user request now ticketId s = Inr (receipt, s') \<Longrightarrow> P s'"
    and cancels: "\<And>s s' user betId now receipt. P s \<Longrightarrow> cancelTicket user betId now s = Inr (receipt, s') \<Longrightarrow> P s'"
    and others: "\<And>s s1 s2 user delta reason ref now. P s \<Longrightarrow> reason \<notin> horseReasons \<Longrightarrow> ensureWallet user s = Inr s1 \<Longrightarrow>
       changeGold user delta reason ref now s1 = Inr s2 \<Longrightarrow> P s2"
    and users: "\<And>s us. P s \<Longrightarrow> P (s\<lparr>rg_users := us\<rparr>)"
  shows "P (racingStep engine op s)"
proof -
  have adv: "P (snd (advance engine now s))" for now using advance_keeps [of P, OF assms(1) advances [OF assms(1)]] .
  show ?thesis
  proof (cases op)
    case (PlaceBetOp user request now ticketId)
    have "P (snd (inTransaction (placeTicket user checked now ticketId) (snd (advance engine now s))))" for checked
      by (rule inTransaction_keeps [of P, OF adv places [OF adv]])
    then show ?thesis
      using PlaceBetOp adv [of now]
      by (cases "advance engine now s"; cases "fst (advance engine now s)"; cases "checkRequest request") (simp_all add: placeBet_def)
  next
    case (CancelBetOp user betId now)
    have "P (snd (inTransaction (cancelTicket user wanted now) (snd (advance engine now s))))" for wanted
      by (rule inTransaction_keeps [of P, OF adv cancels [OF adv]])
    then show ?thesis
      using CancelBetOp adv [of now]
      by (cases "advance engine now s"; cases "fst (advance engine now s)") (simp_all add: cancelBet_def split: js_value.split)
  next
    case (OtherGameOp user delta reason ref now)
    then show ?thesis using otherGame_keeps [of P, OF assms(1) others [OF assms(1)]] by simp
  qed (use adv users [OF assms(1)] in simp_all)
qed

lemma racingRun_simps [simp]:
  "racingRun engine [] s = s" "racingRun engine (op # ops) s = racingRun engine ops (racingStep engine op s)"
  "racingRun engine (ops @ ops') s = racingRun engine ops' (racingRun engine ops s)"
  by (simp_all add: racingRun_def)

lemma racingRun_keeps:
  assumes "\<And>op s. P s \<Longrightarrow> P (racingStep engine op s)"
  shows "P s \<Longrightarrow> P (racingRun engine ops s)"
  by (induction ops arbitrary: s) (simp_all add: assms)

lemma racingStep_ok: "racingOk {} s \<Longrightarrow> racingOk {} (racingStep engine op s)"
proof (rule racingStep_keeps [of "racingOk {}"])
  fix s s1 s2 user delta reason ref now
  assume "racingOk {} s" "reason \<notin> horseReasons" "ensureWallet user s = Inr s1" "changeGold user delta reason ref now s1 = Inr s2"
  then show "racingOk {} s2" using changeGold_other ensureWallet_racingOk by metis
next
  fix s :: racing and us assume "racingOk {} s"
  then show "racingOk {} (s\<lparr>rg_users := us\<rparr>)"
    by (simp add: racingOk_def walletsOk_def betsOk_def unpaid_def livePending_def quotesOk_def overPaid_def)
qed (blast intro: advanceRaces_ok placeTicket_ok cancelTicket_ok)+

lemma noRaces_ok: "racingOk {} noRaces"
  by (simp add: racingOk_def walletsOk_def betsOk_def unpaid_def quotesOk_def overPaid_def untouched_def settledSum_def noRaces_def)

lemma racingRun_ok: "racingOk {} (racingRun engine ops noRaces)"
  by (rule racingRun_keeps [of "racingOk {}", OF racingStep_ok noRaces_ok])

section \<open>Tickets stay\<close>

text \<open>Operations only add bets, and never change what a bet was placed with.\<close>

definition grows :: "racing \<Rightarrow> racing \<Rightarrow> bool" where
  "grows s s' \<longleftrightarrow>
     ticketOf ` set (rg_bets s) \<subseteq> ticketOf ` set (rg_bets s')
     \<and> dom (mapGet (rg_wallets s)) \<subseteq> dom (mapGet (rg_wallets s'))"

lemma grows_refl [simp]: "grows s s"
  by (simp add: grows_def)

lemma grows_trans: "grows s s' \<Longrightarrow> grows s' s'' \<Longrightarrow> grows s s''"
  unfolding grows_def by (meson subset_trans)

lemma ensureWallet_grows:
  assumes "ensureWallet user s = Inr s'"
  shows "grows s s' \<and> mapHas (rg_wallets s') user"
proof (cases "mapHas (rg_wallets s) user")
  case False
  then have "s' = s\<lparr>rg_wallets := mapSet (rg_wallets s) user \<lparr>gw_gold = 0, gw_revision = 0\<rparr>\<rparr>"
    using assms by (simp add: ensureWallet_def split: if_splits)
  then show ?thesis by (auto simp: grows_def)
qed (use assms in \<open>simp add: ensureWallet_def\<close>)

lemma changeGold_grows: "changeGold user delta reason ref now s = Inr s' \<Longrightarrow> grows s s'"
  by (erule changeGold_Inr) (auto simp: grows_def)

lemma changeBet_grows:
  assumes "\<And>row. ticketOf (f row) = ticketOf row"
  shows "grows s (changeBet betId f s)"
proof -
  have "map ticketOf (rg_bets (changeBet betId f s)) = map ticketOf (rg_bets s)"
    by (simp add: changeBet_def assms)
  then have "ticketOf ` set (rg_bets (changeBet betId f s)) = ticketOf ` set (rg_bets s)"
    by (metis list.set_map)
  then show ?thesis by (simp add: grows_def changeBet_def)
qed

lemma changeRace_grows [simp]:
  "grows s (changeRace raceId f s') \<longleftrightarrow> grows s s'" "grows (changeRace raceId f s) s' \<longleftrightarrow> grows s s'"
  "grows s (setRaceStatus raceId status s') \<longleftrightarrow> grows s s'"
  by (simp_all add: grows_def setRaceStatus_def)

lemma forEach_grows:
  assumes "\<And>x s s'. f x s = Inr s' \<Longrightarrow> grows s s'"
  shows "forEach f xs s = Inr s' \<Longrightarrow> grows s s'"
proof (induction xs arbitrary: s)
  case (Cons x xs)
  then obtain s1 where s1: "f x s = Inr s1" "forEach f xs s1 = Inr s'" by (auto simp: ok_iff)
  show ?case using grows_trans [OF assms [OF s1(1)] Cons.IH [OF s1(2)]] .
qed simp

lemma ticketOf_paid [simp]:
  "ticketOf (bet\<lparr>bt_payout := payout, bt_refunded := r\<rparr>) = ticketOf bet" "ticketOf (bet\<lparr>bt_payout := payout\<rparr>) = ticketOf bet"
  by (simp_all add: ticketOf_def)

lemma refundBet_grows:
  assumes "refundBet now bet s = Inr s'"
  shows "grows s s'"
proof -
  obtain s1 s2 where s1: "ensureWallet (bt_user bet) s = Inr s1"
      and s2: "changeGold (bt_user bet) (bt_amount bet) ''horse_refund'' (bt_id bet) now s1 = Inr s2"
      and s': "s' = changeBet (bt_id bet) (\<lambda>row. row\<lparr>bt_payout := Some (bt_amount bet), bt_refunded := True\<rparr>) s2"
    using assms by (auto simp: refundBet_def ok_iff)
  have "grows s s2" by (rule grows_trans [OF conjunct1 [OF ensureWallet_grows [OF s1]] changeGold_grows [OF s2]])
  then show ?thesis unfolding s' by (rule grows_trans) (rule changeBet_grows, simp)
qed

lemma settleBet_grows:
  assumes "settleBet order now bet s = Inr s'"
  shows "grows s s'"
proof -
  obtain s1 payout where s': "s' = changeBet (bt_id bet) (\<lambda>row. row\<lparr>bt_payout := Some payout\<rparr>) s1"
    and s1: "s1 = s \<or> (\<exists>s0. ensureWallet (bt_user bet) s = Inr s0 \<and> changeGold (bt_user bet) payout ''horse_payout'' (bt_id bet) now s0 = Inr s1)"
    using assms by (fastforce simp: settleBet_def ok_iff Let_def split: option.splits if_splits)
  from s1 have "grows s s1"
  proof (elim disjE exE conjE)
    fix s0 assume "ensureWallet (bt_user bet) s = Inr s0" "changeGold (bt_user bet) payout ''horse_payout'' (bt_id bet) now s0 = Inr s1"
    then show ?thesis using grows_trans [OF conjunct1 [OF ensureWallet_grows] changeGold_grows] by blast
  qed simp
  then show ?thesis unfolding s' by (rule grows_trans) (rule changeBet_grows, simp)
qed

lemma forEach_rows_grow:
  "forEach (refundBet now) bets s = Inr s' \<Longrightarrow> grows s s'"
  "forEach (settleBet order now) bets s = Inr s' \<Longrightarrow> grows s s'"
  by (erule forEach_grows [rotated], erule refundBet_grows settleBet_grows)+

lemma cancelRace_grows: "cancelRace raceId reason now s = Inr s' \<Longrightarrow> grows s s'"
  by (auto simp: cancelRace_def ok_iff dest!: forEach_rows_grow)

lemma runRace_grows: "runRace engine now race bets s = Inr s' \<Longrightarrow> grows s s'"
  by (auto simp: runRace_def Let_def ok_iff split: if_splits dest!: forEach_rows_grow)

lemma advanceRace_grows: "advanceRace engine now race s = Inr s' \<Longrightarrow> grows s s'"
  by (auto simp: advanceRace_def Let_def split: if_splits dest!: cancelRace_grows runRace_grows)

lemma openRace_grows: "openRace engine startsAt s = Inr s' \<Longrightarrow> grows s s'"
  by (auto simp: openRace_def Let_def grows_def split: if_splits)

lemma forEach_races_grow:
  "forEach (openRace engine) starts s = Inr s' \<Longrightarrow> grows s s'"
  "forEach (advanceRace engine now) races s = Inr s' \<Longrightarrow> grows s s'"
  by (erule forEach_grows [rotated], erule openRace_grows advanceRace_grows)+

lemma advanceRaces_grows: "advanceRaces engine now s = Inr s' \<Longrightarrow> grows s s'"
  by (auto simp: advanceRaces_def ok_iff split: option.splits intro: grows_trans dest!: forEach_races_grow)

lemma insertTicket_grows: "insertTicket ticket quote now s = Inr s' \<Longrightarrow> grows s s'"
  by (auto simp: insertTicket_def grows_def split: if_splits)

lemma acceptBet_grows: "acceptBet userId request now ticketId race s = Inr (receipt, s') \<Longrightarrow> grows s s'"
  by (auto simp: acceptBet_def racingError_def Let_def ok_iff split: if_splits sum.splits
      dest!: changeGold_grows insertTicket_grows intro: grows_trans)

lemma placeTicket_grows:
  assumes "placeTicket userId request now ticketId s = Inr (receipt, s')"
  shows "grows s s'"
proof -
  obtain s1 where s1: "ensureWallet userId s = Inr s1" using assms by (auto simp: placeTicket_def ok_iff)
  have "s' = s1 \<or> (\<exists>race. acceptBet userId request now ticketId race s1 = Inr (receipt, s'))"
    using assms s1 by (simp add: placeTicket_def racingError_def split: option.splits if_splits) blast
  then have "grows s1 s'" by (auto dest: acceptBet_grows)
  then show ?thesis using grows_trans ensureWallet_grows [OF s1] by blast
qed

lemma cancellations_grow: "grows (s\<lparr>rg_cancellations := c\<rparr>) s' \<longleftrightarrow> grows s s'"
  by (simp add: grows_def)

lemma cancelTicket_grows:
  assumes "cancelTicket userId betId now s = Inr (receipt, s')"
  shows "grows s s'"
proof -
  obtain s1 where s1: "ensureWallet userId s = Inr s1" using assms by (auto simp: cancelTicket_def ok_iff)
  have "s' = s1 \<or> (\<exists>bet c. refundBet now bet (s1\<lparr>rg_cancellations := c\<rparr>) = Inr s')"
    using assms s1 by (simp add: cancelTicket_def racingError_def ok_iff split: option.splits if_splits) blast
  then have "grows s1 s'" by (auto dest!: refundBet_grows simp: cancellations_grow)
  then show ?thesis using grows_trans ensureWallet_grows [OF s1] by blast
qed

lemma racingStep_grows: "grows s0 s \<Longrightarrow> grows s0 (racingStep engine op s)"
proof (rule racingStep_keeps [of "grows s0"])
  fix s :: racing and us assume "grows s0 s"
  then show "grows s0 (s\<lparr>rg_users := us\<rparr>)" by (simp add: grows_def)
qed (blast intro: grows_trans ensureWallet_grows [THEN conjunct1] changeGold_grows advanceRaces_grows placeTicket_grows cancelTicket_grows)+

lemma racingRun_grows: "grows s (racingRun engine ops s)"
  by (rule racingRun_keeps [of "grows s", OF racingStep_grows grows_refl])

text \<open>The ticket of an answer is the caller's, is stored, and was placed with the request.\<close>

lemma placeTicket_receipt:
  assumes "placeTicket user request now ticketId s = Inr (receipt, s1)"
  shows "ticketOf (rt_bet receipt) \<in> ticketOf ` set (rg_bets s1)"
    and "bt_user (rt_bet receipt) = user \<and> bt_requestId (rt_bet receipt) = vr_requestId request"
    and "samePrior (rt_bet receipt) request" and "mapHas (rg_wallets s1) user"
proof -
  obtain s0 where s0: "ensureWallet user s = Inr s0" using assms by (auto simp: placeTicket_def ok_iff)
  from assms s0 consider bet where "bet \<in> set (rg_bets s0)" "bt_user bet = user" "bt_requestId bet = vr_requestId request"
      "samePrior bet request" "receipt = ticketReceipt bet s0" "s1 = s0"
    | race where "findRace (vr_raceId request) s0 = Some race" "acceptBet user request now ticketId race s0 = Inr (receipt, s1)"
  proof (cases "List.find (\<lambda>bet. bt_user bet = user \<and> bt_requestId bet = vr_requestId request) (rg_bets s0)")
    case None
    then show thesis
      using assms s0 that(2) by (simp add: placeTicket_def racingError_def split: option.splits if_splits)
  next
    case (Some bet)
    then have "samePrior bet request \<and> receipt = ticketReceipt bet s0 \<and> s1 = s0"
      using assms s0 by (auto simp add: placeTicket_def racingError_def split: if_splits)
    then show thesis using that(1) [of bet] find_in_set [OF Some] by simp
  qed
  then have "ticketOf (rt_bet receipt) \<in> ticketOf ` set (rg_bets s1)
    \<and> (bt_user (rt_bet receipt) = user \<and> bt_requestId (rt_bet receipt) = vr_requestId request)
    \<and> samePrior (rt_bet receipt) request \<and> grows s0 s1"
  proof cases
    case 1
    then show ?thesis by (simp add: ticketReceipt_def)
  next
    case 2
    have "rt_bet receipt \<in> set (rg_bets s1) \<and> bt_user (rt_bet receipt) = user \<and> bt_requestId (rt_bet receipt) = vr_requestId request
        \<and> samePrior (rt_bet receipt) request"
      using 2(2) findRace_Some [OF 2(1)]
      by (auto simp: acceptBet_def racingError_def Let_def ok_iff samePrior_def insertTicket_def split: if_splits sum.splits)
    then show ?thesis using acceptBet_grows [OF 2(2)] by blast
  qed
  moreover have "mapHas (rg_wallets s0) user" using ensureWallet_grows [OF s0] by blast
  ultimately show "ticketOf (rt_bet receipt) \<in> ticketOf ` set (rg_bets s1)"
    and "bt_user (rt_bet receipt) = user \<and> bt_requestId (rt_bet receipt) = vr_requestId request"
    and "samePrior (rt_bet receipt) request" and "mapHas (rg_wallets s1) user"
    by (auto simp: grows_def)
qed

section \<open>What holds\<close>

definition paidOut :: "horse_bet \<Rightarrow> racing \<Rightarrow> bool" where
  "paidOut bet s \<longleftrightarrow>
     paid ''horse_bet'' (bt_id bet) (rg_ledger s) = - bt_amount bet
     \<and> paid ''horse_payout'' (bt_id bet) (rg_ledger s) + paid ''horse_refund'' (bt_id bet) (rg_ledger s)
         = (case bt_payout bet of None \<Rightarrow> 0 | Some payout \<Rightarrow> payout)"

definition onClosedRace :: "racing \<Rightarrow> horse_bet \<Rightarrow> bool" where
  "onClosedRace s bet \<longleftrightarrow>
     list_ex (\<lambda>race. rc_id race = bt_raceId bet \<and> rc_status race \<in> {RaceSettled, RaceCancelled}) (rg_races s)"

text \<open>
  C31. The gold is accounted for. After any sequence of bets, cancellations, advances and movements of the other
  games, failed ones included, every wallet holds exactly the sum of its transactions and is never negative; for
  every bet the ledger debits the stake once and credits what the row of the bet says, nothing while it is open;
  and every bet on a race that is settled or cancelled is paid or refunded.
\<close>

theorem bets_accounted:
  "let s = racingRun engine ops noRaces
   in (\<forall>user. case mapGet (rg_wallets s) user of
         None \<Rightarrow> userTotal user (rg_ledger s) = 0
       | Some wallet \<Rightarrow> gw_gold wallet = userTotal user (rg_ledger s) \<and> 0 \<le> gw_gold wallet)
      \<and> list_all (\<lambda>bet. paidOut bet s) (rg_bets s)
      \<and> list_all (\<lambda>bet. bt_payout bet \<noteq> None) (filter (onClosedRace s) (rg_bets s))"
proof -
  define s where "s = racingRun engine ops noRaces"
  have ok: "walletsOk s" "betsOk s" "overPaid s" using racingRun_ok [of engine ops] by (simp_all add: s_def racingOk_def)
  have "case mapGet (rg_wallets s) user of
         None \<Rightarrow> userTotal user (rg_ledger s) = 0
       | Some wallet \<Rightarrow> gw_gold wallet = userTotal user (rg_ledger s) \<and> 0 \<le> gw_gold wallet" for user
  proof -
    have "backed (userTotal user (rg_ledger s)) (mapGet (rg_wallets s) user)" using ok(1) by (simp add: walletsOk_def)
    then show ?thesis by (auto split: option.split)
  qed
  moreover have "paidOut bet s" if "bet \<in> set (rg_bets s)" for bet
  proof -
    have "booked (rg_ledger s) bet" using ok(2) that by (simp add: betsOk_def)
    then show ?thesis by (simp add: booked_def paidOut_def settledSum_def owedTo_def)
  qed
  moreover have "bt_payout bet \<noteq> None" if "bet \<in> set (rg_bets s)" "onClosedRace s bet" for bet
    using that(2) overPaidD [OF ok(3) that(1)] by (auto simp: onClosedRace_def list_ex_iff isPending_def)
  ultimately show ?thesis by (simp add: Let_def list_all_iff flip: s_def)
qed

text \<open>
  C32. A bet request is idempotent. Once a request was accepted, sending it again at any later time, whatever
  happened in between and whether or not the race is over, returns the ticket that was placed then and changes
  nothing: no second debit, no second bet.
\<close>

theorem bet_replay_idempotent:
  assumes "racingOk {} s" "placeTicket user request now ticketId s = Inr (receipt, s1)"
    and s2: "s2 = racingRun engine ops s1"
  shows "\<exists>bet. ticketOf bet = ticketOf (rt_bet receipt) \<and> bt_user bet = user \<and> bt_requestId bet = vr_requestId request
    \<and> placeTicket user request later otherId s2 = Inr (ticketReceipt bet s2, s2)"
proof -
  have "racingOk {} s1" using placeTicket_ok [OF assms(2, 1)] .
  then have "betsOk s2" using racingRun_keeps [of "racingOk {}" engine, OF racingStep_ok] by (simp add: s2 racingOk_def)
  then have unique: "distinct (map (\<lambda>bet. (bt_user bet, bt_requestId bet)) (rg_bets s2))" by (simp add: betsOk_def)
  note placed = placeTicket_receipt [OF assms(2)]
  obtain bet where bet: "bet \<in> set (rg_bets s2)" "ticketOf bet = ticketOf (rt_bet receipt)"
    using racingRun_grows [of s1 engine ops] placed(1) by (auto simp: grows_def s2)
  have wallet: "mapHas (rg_wallets s2) user"
    using racingRun_grows [of s1 engine ops] placed(4) by (auto simp: grows_def s2)
  have mine: "bt_user bet = user" "bt_requestId bet = vr_requestId request" "samePrior bet request"
    using placed(2, 3) ticketOf_eq [OF bet(2)] by (simp_all add: samePrior_def)
  have "List.find (\<lambda>bet. bt_user bet = user \<and> bt_requestId bet = vr_requestId request) (rg_bets s2) = Some bet"
  proof (rule find_unique [OF bet(1)])
    fix row assume "row \<in> set (rg_bets s2)" "bt_user row = user \<and> bt_requestId row = vr_requestId request"
    then show "row = bet" using distinct_row [OF unique _ bet(1)] mine by simp
  qed (use mine in simp)
  then have "placeTicket user request later otherId s2 = Inr (ticketReceipt bet s2, s2)"
    using wallet mine(3) by (simp add: placeTicket_def ensureWallet_def)
  then show ?thesis using bet(2) mine by blast
qed
text \<open>A race with its first bets open, as the witnesses use it.\<close>

definition exampleEngine :: racing_engine where
  "exampleEngine = \<lparr>re_seed = (\<lambda>raceId. raceId), re_horses = (\<lambda>raceId seed. twoHorses), re_draw = (\<lambda>horses seed. [''1'', ''2''])\<rparr>"

definition exampleRace :: horse_race where
  "exampleRace = \<lparr>rc_id = ''race-345600000'', rc_startsAt = 345600000, rc_status = RaceBetting, rc_horses = twoHorses,
     rc_seed = ''s'', rc_algorithm = HORSE_RACING_ALGORITHM_VERSION, rc_pricing = HORSE_RACING_PRICING_VERSION,
     rc_animation = HORSE_RACING_ANIMATION_VERSION, rc_finishOrder = None, rc_cancellationReason = None\<rparr>"

definition exampleGold :: "string \<Rightarrow> gold_transaction" where
  "exampleGold user = \<lparr>gt_user = user, gt_reason = ''daily'', gt_reference = ''1'', gt_delta = 500, gt_balanceAfter = 500, gt_createdAt = 1\<rparr>"

definition exampleRacing :: racing where
  "exampleRacing = \<lparr>rg_users = [''ann'', ''bob''],
     rg_wallets = [(''ann'', \<lparr>gw_gold = 500, gw_revision = 1\<rparr>), (''bob'', \<lparr>gw_gold = 500, gw_revision = 1\<rparr>)],
     rg_ledger = [exampleGold ''ann'', exampleGold ''bob''], rg_races = [exampleRace], rg_bets = [], rg_quotes = [],
     rg_cancellations = [], rg_activity = []\<rparr>"

lemma exampleRacing_ok: "racingOk {} exampleRacing"
  by (simp add: racingOk_def walletsOk_def betsOk_def unpaid_def quotesOk_def overPaid_def untouched_def settledSum_def
      exampleRacing_def exampleGold_def userTotal_def paid_def isSafeInteger_def)

definition exampleRequest :: "string \<Rightarrow> string \<Rightarrow> valid_request" where
  "exampleRequest requestId horse = \<lparr>vr_requestId = requestId, vr_raceId = ''race-345600000'', vr_market = ''win'',
     vr_selection = [horse], vr_amount = 100\<rparr>"

definition exampleBet :: "string \<Rightarrow> string \<Rightarrow> string \<Rightarrow> string \<Rightarrow> horse_bet" where
  "exampleBet betId user requestId horse = \<lparr>bt_id = betId, bt_user = user, bt_requestId = requestId, bt_raceId = ''race-345600000'',
     bt_market = ''win'', bt_selection = horse, bt_amount = 100, bt_payout = None, bt_refunded = False\<rparr>"

definition exampleDebit :: "string \<Rightarrow> string \<Rightarrow> gold_transaction" where
  "exampleDebit user betId = \<lparr>gt_user = user, gt_reason = ''horse_bet'', gt_reference = betId, gt_delta = -100, gt_balanceAfter = 400, gt_createdAt = 345500000\<rparr>"

definition exampleOne :: racing where
  "exampleOne = exampleRacing\<lparr>rg_wallets := [(''ann'', \<lparr>gw_gold = 400, gw_revision = 2\<rparr>), (''bob'', \<lparr>gw_gold = 500, gw_revision = 1\<rparr>)],
     rg_ledger := [exampleGold ''ann'', exampleGold ''bob'', exampleDebit ''ann'' ''t1''],
     rg_bets := [exampleBet ''t1'' ''ann'' ''a'' ''1''], rg_quotes := [(''t1'', 388)], rg_activity := [(''t1'', 345500000)]\<rparr>"

definition exampleTwo :: racing where
  "exampleTwo = exampleOne\<lparr>rg_wallets := [(''ann'', \<lparr>gw_gold = 400, gw_revision = 2\<rparr>), (''bob'', \<lparr>gw_gold = 400, gw_revision = 2\<rparr>)],
     rg_ledger := [exampleGold ''ann'', exampleGold ''bob'', exampleDebit ''ann'' ''t1'', exampleDebit ''bob'' ''t2''],
     rg_bets := [exampleBet ''t1'' ''ann'' ''a'' ''1'', exampleBet ''t2'' ''bob'' ''b'' ''2''],
     rg_quotes := [(''t1'', 388), (''t2'', 129)], rg_activity := [(''t1'', 345500000), (''t2'', 345500000)]\<rparr>"

lemma example_bets:
  "placeTicket ''ann'' (exampleRequest ''a'' ''1'') 345500000 ''t1'' exampleRacing
     = Inr (\<lparr>rt_bet = exampleBet ''t1'' ''ann'' ''a'' ''1'', rt_potentialPayout = Some 388, rt_cancelledAt = None\<rparr>, exampleOne)"
  "placeTicket ''bob'' (exampleRequest ''b'' ''2'') 345500000 ''t2'' exampleOne
     = Inr (\<lparr>rt_bet = exampleBet ''t2'' ''bob'' ''b'' ''2'', rt_potentialPayout = Some 129, rt_cancelledAt = None\<rparr>, exampleTwo)"
  by code_simp+

lemma exampleTwo_ok: "racingOk {} exampleTwo"
  by (rule placeTicket_ok [OF example_bets(2) placeTicket_ok [OF example_bets(1) exampleRacing_ok]])
theorem bet_replay_idempotent_witness:
  "let s2 = racingRun exampleEngine [OtherGameOp ''ann'' 50 ''fishing'' ''2'' 345500001] exampleOne
   in \<exists>bet. ticketOf bet = ticketOf (exampleBet ''t1'' ''ann'' ''a'' ''1'')
        \<and> placeTicket ''ann'' (exampleRequest ''a'' ''1'') 345500002 ''t9'' s2 = Inr (ticketReceipt bet s2, s2)"
  using bet_replay_idempotent [OF exampleRacing_ok example_bets(1) refl,
      where engine = exampleEngine and ops = "[OtherGameOp ''ann'' 50 ''fishing'' ''2'' 345500001]"
        and later = 345500002 and otherId = "''t9''"]
  unfolding Let_def by (simp only: bet_receipt.select_convs) blast

text \<open>Once its race has been run for its whole time, a race of the current version is settled.\<close>

lemma advanceRace_settles:
  assumes "currentEngine race" "rc_startsAt race + HORSE_RACE_DURATION_MS \<le> now"
    and "2 \<le> length (jsUnique (map bt_user (raceBets (rc_id race) False s)))"
  shows "advanceRace engine now race s = runRace engine now race (raceBets (rc_id race) False s) s"
proof -
  have "horseRaceOpensAt (rc_startsAt race) \<le> now" "rc_startsAt race - HORSE_RACE_LOCK_BEFORE_MS \<le> now"
    using assms(2) by (simp_all add: horseRaceOpensAt_def race_times Let_def)
  moreover have "\<not> refreshable race"
    using assms(1) by (simp add: currentEngine_def refreshable_def HORSE_RACING_ANIMATION_VERSION_def)
  ultimately show ?thesis using assms by (simp add: advanceRace_def Let_def)
qed

lemma runRace_settled:
  assumes ok: "racingOk {} s" and row: "race \<in> set (rg_races s)" "isPending race"
    and run: "runRace engine now race (raceBets (rc_id race) False s) s = Inr s'"
    and time: "rc_startsAt race + HORSE_RACE_DURATION_MS \<le> now"
    and order: "order = (case rc_finishOrder race of Some drawn \<Rightarrow> drawn | None \<Rightarrow> re_draw engine (rc_horses race) (rc_seed race))"
  shows "\<forall>bet \<in> set (raceBets (rc_id race) False s). settled order (rg_quotes s) bet \<in> set (rg_bets s')"
    and "\<exists>r \<in> set (rg_races s'). rc_id r = rc_id race \<and> rc_status r = RaceSettled \<and> rc_finishOrder r = Some order"
proof -
  define f where "f = (\<lambda>row :: horse_race. row\<lparr>rc_finishOrder := Some order\<rparr>)"
  define s1 where "s1 = (if rc_finishOrder race = None then changeRace (rc_id race) f s else s)"
  define race' where "race' = (if rc_finishOrder race = None then f race else race)"
  have one: "racingOk {} s1" "race' \<in> set (rg_races s1)" "isPending race'" "rc_id race' = rc_id race"
    using changeRace_pending [OF ok row(1) refl row(2), of f] ok row by (auto simp: s1_def race'_def f_def)
  have bets: "raceBets (rc_id race) False s = raceBets (rc_id race) False s1" by (simp add: s1_def raceBets_def)
  have quotes: "rg_quotes s1 = rg_quotes s" by (simp add: s1_def)
  have late: "\<not> now < rc_startsAt race" "\<not> now < rc_startsAt race + HORSE_RACE_DURATION_MS"
    using time by (simp_all add: HORSE_RACE_DURATION_MS_def)
  have "runRace engine now race bets s
      = resultThen (forEach (settleBet order now) bets s1) (\<lambda>s2.
          Inr (changeRace (rc_id race) (\<lambda>row. row\<lparr>rc_status := RaceSettled, rc_finishOrder := Some order\<rparr>) s2))" for bets
    unfolding runRace_def Let_def s1_def order f_def using late by simp
  then obtain s2 where s2: "forEach (settleBet order now) (raceBets (rc_id race) False s1) s1 = Inr s2"
      and s': "s' = changeRace (rc_id race) (\<lambda>row. row\<lparr>rc_status := RaceSettled, rc_finishOrder := Some order\<rparr>) s2"
    using run unfolding bets by (auto simp: ok_iff)
  have paid: "keepsRest (raceIds (rc_id race) s1) s1 s2"
      "\<forall>bet \<in> set (raceBets (rc_id race) False s1). settled order (rg_quotes s1) bet \<in> set (rg_bets s2)"
    using payRace [where row = "settled order", OF one(1, 2, 4, 3) s2 settleBet_ok] by simp_all
  then show "\<forall>bet \<in> set (raceBets (rc_id race) False s). settled order (rg_quotes s) bet \<in> set (rg_bets s')"
    unfolding bets s' by (simp add: quotes)
  have "race' \<in> set (rg_races s2)" using paid(1) one(2) by (simp add: keepsRest_def)
  then show "\<exists>r \<in> set (rg_races s'). rc_id r = rc_id race \<and> rc_status r = RaceSettled \<and> rc_finishOrder r = Some order"
    unfolding s' changeRace_set using one(4)
    by (intro bexI [of _ "race'\<lparr>rc_status := RaceSettled, rc_finishOrder := Some order\<rparr>"])
      (auto intro!: image_eqI [of _ _ race'])
qed

text \<open>
  C33. Settlement pays the winners. When a race of the current version with two or more bettors is advanced past
  its running time, it becomes settled with the drawn finish order, and every live bet on it ends with its
  quoted payout if the settlement rule says it won under that order and with nothing otherwise; the payments of
  the ledger for the bet are exactly that amount.
\<close>

theorem settlement_pays_winners:
  assumes "racingOk {} s" "race \<in> set (rg_races s)" "isPending race" "currentEngine race"
    and "rc_startsAt race + HORSE_RACE_DURATION_MS \<le> now"
    and "2 \<le> length (jsUnique (map bt_user (raceBets (rc_id race) False s)))"
    and "advanceRace engine now race s = Inr s'"
  shows "let order = (case rc_finishOrder race of Some drawn \<Rightarrow> drawn | None \<Rightarrow> re_draw engine (rc_horses race) (rc_seed race));
             due = (\<lambda>bet :: horse_bet. if betWon (bt_market bet) (bt_selection bet) order then the (mapGet (rg_quotes s) (bt_id bet)) else 0)
         in list_ex (\<lambda>r. rc_id r = rc_id race \<and> rc_status r = RaceSettled \<and> rc_finishOrder r = Some order) (rg_races s')
            \<and> list_all (\<lambda>bet. bet\<lparr>bt_payout := Some (due bet), bt_refunded := False\<rparr> \<in> set (rg_bets s')
                 \<and> paid ''horse_payout'' (bt_id bet) (rg_ledger s') + paid ''horse_refund'' (bt_id bet) (rg_ledger s') = due bet)
               (raceBets (rc_id race) False s)"
proof -
  define order where "order = (case rc_finishOrder race of Some drawn \<Rightarrow> drawn | None \<Rightarrow> re_draw engine (rc_horses race) (rc_seed race))"
  define due where "due = (\<lambda>bet :: horse_bet. if betWon (bt_market bet) (bt_selection bet) order then the (mapGet (rg_quotes s) (bt_id bet)) else 0)"
  have run: "runRace engine now race (raceBets (rc_id race) False s) s = Inr s'"
    using assms(7) advanceRace_settles [OF assms(4-6)] by simp
  note settledNow = runRace_settled [OF assms(1-3) run assms(5) order_def]
  have "betsOk s'" using runRace_ok [OF assms(1-3) run] by (simp add: racingOk_def)
  then have "booked (rg_ledger s') (settled order (rg_quotes s) bet)" if "bet \<in> set (raceBets (rc_id race) False s)" for bet
    using settledNow(1) that by (simp add: betsOk_def)
  then have "paid ''horse_payout'' (bt_id bet) (rg_ledger s') + paid ''horse_refund'' (bt_id bet) (rg_ledger s') = due bet"
    if "bet \<in> set (raceBets (rc_id race) False s)" for bet
    using that by (simp add: booked_def settledSum_def owedTo_def settled_def due_def)
  then show ?thesis
    using settledNow unfolding order_def [symmetric] due_def [symmetric] Let_def
    by (simp add: list_ex_iff list_all_iff settled_def due_def)
qed

lemma exampleTwo_settles:
  "exampleRace \<in> set (rg_races exampleTwo)" "isPending exampleRace" "currentEngine exampleRace"
  "2 \<le> length (jsUnique (map bt_user (raceBets (rc_id exampleRace) False exampleTwo)))"
  "case advanceRace exampleEngine 345800000 exampleRace exampleTwo of Inl _ \<Rightarrow> False | Inr _ \<Rightarrow> True"
  "raceBets (rc_id exampleRace) False exampleTwo = [exampleBet ''t1'' ''ann'' ''a'' ''1'', exampleBet ''t2'' ''bob'' ''b'' ''2'']"
  "rc_finishOrder exampleRace = None" "re_draw exampleEngine (rc_horses exampleRace) (rc_seed exampleRace) = [''1'', ''2'']"
  "mapGet (rg_quotes exampleTwo) ''t1'' = Some 388"
  by (simp add: exampleTwo_def exampleOne_def exampleRacing_def) code_simp+

lemma exampleBet_simps:
  "bt_id (exampleBet betId user requestId horse) = betId"
  "betWon (bt_market (exampleBet betId user requestId ''1'')) (bt_selection (exampleBet betId user requestId ''1'')) [''1'', ''2'']"
  "\<not> betWon (bt_market (exampleBet betId user requestId ''2'')) (bt_selection (exampleBet betId user requestId ''2'')) [''1'', ''2'']"
  by (simp_all add: exampleBet_def betWon_def)

theorem settlement_pays_winners_witness:
  "\<exists>s'. advanceRace exampleEngine 345800000 exampleRace exampleTwo = Inr s'
     \<and> paid ''horse_payout'' ''t1'' (rg_ledger s') + paid ''horse_refund'' ''t1'' (rg_ledger s') = 388
     \<and> paid ''horse_payout'' ''t2'' (rg_ledger s') + paid ''horse_refund'' ''t2'' (rg_ledger s') = 0"
proof -
  obtain s' where s': "advanceRace exampleEngine 345800000 exampleRace exampleTwo = Inr s'"
    using exampleTwo_settles(5) by (auto split: sum.splits)
  have time: "rc_startsAt exampleRace + HORSE_RACE_DURATION_MS \<le> 345800000"
    by (simp add: exampleRace_def HORSE_RACE_DURATION_MS_def)
  from settlement_pays_winners [OF exampleTwo_ok exampleTwo_settles(1-3) time exampleTwo_settles(4) s'] s'
  show ?thesis by (simp add: Let_def exampleTwo_settles(6-9) exampleBet_simps)
qed

end
