(* ===== verification/SpaceStore.thy ===== *)
theory SpaceStore
  imports SqlTables
begin

text \<open>
  Shared spaces: their members, pages, runs and personal conversations (\<open>sqlite-spaces.ts\<close>,
  \<open>sqlite-space-lifecycle.ts\<close>, \<open>sqlite-space-conversations.ts\<close>). The tables are those of
  \<open>sqlite-schema-spaces.ts\<close> together with the accounts and agents they refer to. Random ids and the clock
  are arguments, and so is SHA-256.
\<close>

section \<open>Tables\<close>

datatype space_role = SpaceViewer | SpaceEditor | SpaceOwner

fun rank :: "space_role \<Rightarrow> nat" where
  "rank SpaceViewer = 1"
| "rank SpaceEditor = 2"
| "rank SpaceOwner = 3"

record account_row =
  ac_id :: string
  ac_accountId :: string
  ac_displayName :: string
  ac_active :: bool

record agent_row =
  ag_agentId :: string
  ag_userId :: "string option"
  ag_personal :: bool
  ag_active :: bool

record space_row =
  sr_id :: string
  sr_name :: string
  sr_agentId :: string
  sr_creatorId :: string
  sr_requestId :: string
  sr_revision :: int
  sr_createdAt :: int

record member_row =
  mr_spaceId :: string
  mr_userId :: string
  mr_role :: space_role

record page_row =
  pg_id :: string
  pg_spaceId :: string
  pg_parentId :: "string option"
  pg_title :: string
  pg_body :: string
  pg_revision :: int
  pg_creatorId :: string
  pg_requestId :: string
  pg_updatedAt :: int

datatype run_state = RunActive | RunRevoked | RunFinished | RunFailed

record run_row =
  rn_runId :: string
  rn_spaceId :: string
  rn_pageId :: string
  rn_userId :: string
  rn_contentHash :: string
  rn_state :: run_state
  rn_createdAt :: int

record deletion_row =
  dl_spaceId :: string
  dl_userId :: string
  dl_name :: string
  dl_agentId :: string
  dl_revision :: int
  dl_creatorId :: string
  dl_requestId :: string
  dl_ownerIds :: "string list"
  dl_deleted :: bool
  dl_createdAt :: int

record departure_row =
  dr_spaceId :: string
  dr_userId :: string
  dr_revision :: int
  dr_pending :: bool

record conversation_row =
  cv_id :: string
  cv_spaceId :: string
  cv_pageId :: string
  cv_title :: string
  cv_ownerId :: string
  cv_ownerName :: string
  cv_agentId :: string
  cv_sessionKey :: string
  cv_requestId :: string
  cv_createdAt :: int

record space_audit =
  sa_actor :: string
  sa_event :: string
  sa_spaceId :: string
  sa_createdAt :: int
  sa_details :: js_object

text \<open>\<open>ss_titles\<close> is the table of the titles that conversations were first requested with.\<close>

record space_store =
  ss_accounts :: "account_row list"
  ss_agents :: "agent_row list"
  ss_spaces :: "space_row list"
  ss_members :: "member_row list"
  ss_pages :: "page_row list"
  ss_runs :: "run_row list"
  ss_deletions :: "deletion_row list"
  ss_departures :: "departure_row list"
  ss_conversations :: "conversation_row list"
  ss_titles :: "(string, string) jsmap"
  ss_audit :: "space_audit list"

section \<open>Access\<close>

definition spaceUnavailable :: "error + 'a" where
  "spaceUnavailable = Inl (AuthorizationError ''Space unavailable'')"

definition spaceChanged :: "error + 'a" where
  "spaceChanged = Inl (ConflictError SpaceChanged)"

definition stateError :: "string \<Rightarrow> error + 'a" where
  "stateError message = Inl (StateError message [])"

definition constraintFailed :: "error + 'a" where
  "constraintFailed = Inl (PlainError ''constraint failed'' [])"

definition spaceText :: "js_value \<Rightarrow> string \<Rightarrow> int \<Rightarrow> bool \<Rightarrow> error + string" where
  "spaceText value label limit blank =
     (case value of
        JStr text \<Rightarrow>
          if int (length text) > limit \<or> \<not> blank \<and> trim text = [] then Inl (StateError ''Invalid'' [label]) else Inr text
      | _ \<Rightarrow> Inl (StateError ''Invalid'' [label]))"

definition isActiveAccount :: "string \<Rightarrow> space_store \<Rightarrow> bool" where
  "isActiveAccount userId s \<longleftrightarrow> list_ex (\<lambda>account. ac_id account = userId \<and> ac_active account) (ss_accounts s)"

definition activeUser :: "string \<Rightarrow> space_store \<Rightarrow> error + unit" where
  "activeUser userId s = (if isActiveAccount userId s then Inr () else spaceUnavailable)"

definition deleting :: "string \<Rightarrow> space_store \<Rightarrow> bool" where
  "deleting spaceId s \<longleftrightarrow> list_ex (\<lambda>deletion. dl_spaceId deletion = spaceId) (ss_deletions s)"

definition deletedRequest :: "string \<Rightarrow> string \<Rightarrow> space_store \<Rightarrow> bool" where
  "deletedRequest userId requestId s \<longleftrightarrow>
     list_ex (\<lambda>deletion. dl_creatorId deletion = userId \<and> dl_requestId deletion = requestId) (ss_deletions s)"

record space_view =
  sv_id :: string
  sv_name :: string
  sv_agentId :: string
  sv_revision :: int
  sv_role :: space_role

definition findSpace :: "string \<Rightarrow> space_store \<Rightarrow> space_row option" where
  "findSpace spaceId s = List.find (\<lambda>row. sr_id row = spaceId) (ss_spaces s)"

definition findMember :: "string \<Rightarrow> string \<Rightarrow> space_store \<Rightarrow> member_row option" where
  "findMember spaceId userId s =
     List.find (\<lambda>row. mr_spaceId row = spaceId \<and> mr_userId row = userId) (ss_members s)"

definition spaceAccess :: "string \<Rightarrow> string \<Rightarrow> space_role \<Rightarrow> space_store \<Rightarrow> error + space_view" where
  "spaceAccess userId spaceId minimum s =
     resultThen (activeUser userId s) (\<lambda>_.
       if deleting spaceId s then spaceUnavailable
       else
         case (findSpace spaceId s, findMember spaceId userId s) of
           (Some space, Some member) \<Rightarrow>
             if rank (mr_role member) < rank minimum then spaceUnavailable
             else Inr \<lparr>sv_id = sr_id space, sv_name = sr_name space, sv_agentId = sr_agentId space,
                       sv_revision = sr_revision space, sv_role = mr_role member\<rparr>
         | _ \<Rightarrow> spaceUnavailable)"

section \<open>Lists\<close>

definition recallScope :: "string \<Rightarrow> space_store \<Rightarrow> error + (space_view list \<times> bool)" where
  "recallScope userId s =
     resultThen (activeUser userId s) (\<lambda>_.
       let rows = take 101 (sort_key mr_spaceId
             (filter (\<lambda>row. mr_userId row = userId \<and> \<not> deleting (mr_spaceId row) s) (ss_members s)))
       in resultThen (mapResult (\<lambda>row. spaceAccess userId (mr_spaceId row) SpaceViewer s) (take 100 rows)) (\<lambda>spaces.
            Inr (spaces, length rows > 100)))"

text \<open>A space of the list, with its marks.\<close>

datatype listed_space = ActiveSpace space_view | DeletingSpace space_view | LeavingSpace space_view

definition pendingDeletions :: "string \<Rightarrow> space_store \<Rightarrow> listed_space list" where
  "pendingDeletions userId s =
     map (\<lambda>row. DeletingSpace \<lparr>sv_id = dl_spaceId row, sv_name = dl_name row, sv_agentId = dl_agentId row,
                                sv_revision = dl_revision row, sv_role = SpaceOwner\<rparr>)
       (take 100 (sort_key dl_createdAt
         (filter (\<lambda>row. \<not> dl_deleted row
            \<and> list_ex (\<lambda>m. mr_spaceId m = dl_spaceId row \<and> mr_userId m = userId \<and> mr_role m = SpaceOwner) (ss_members s))
           (ss_deletions s))))"

definition pendingDepartures :: "string \<Rightarrow> space_store \<Rightarrow> listed_space list" where
  "pendingDepartures userId s =
     List.map_filter (\<lambda>row.
         case findSpace (dr_spaceId row) s of
           None \<Rightarrow> None
         | Some space \<Rightarrow> Some (LeavingSpace \<lparr>sv_id = sr_id space, sv_name = sr_name space, sv_agentId = sr_agentId space,
                                              sv_revision = dr_revision row, sv_role = SpaceViewer\<rparr>))
       (take 100 (sort_key dr_spaceId
         (filter (\<lambda>row. dr_userId row = userId \<and> dr_pending row \<and> findSpace (dr_spaceId row) s \<noteq> None
            \<and> findMember (dr_spaceId row) userId s = None \<and> \<not> deleting (dr_spaceId row) s)
           (ss_departures s))))"

definition listSpaces :: "string \<Rightarrow> bool \<Rightarrow> space_store \<Rightarrow> error + listed_space list" where
  "listSpaces userId includePending s =
     resultThen (recallScope userId s) (\<lambda>(spaces, _).
       Inr (if includePending
            then map ActiveSpace spaces @ pendingDeletions userId s @ pendingDepartures userId s
            else map ActiveSpace spaces))"

record member_view =
  mv_userId :: string
  mv_accountId :: string
  mv_displayName :: string
  mv_role :: space_role

definition shownName :: "account_row \<Rightarrow> string" where
  "shownName account = (if ac_displayName account = [] then ac_accountId account else ac_displayName account)"

definition activeAccount :: "string \<Rightarrow> space_store \<Rightarrow> account_row option" where
  "activeAccount userId s = List.find (\<lambda>account. ac_id account = userId \<and> ac_active account) (ss_accounts s)"

text \<open>The members with an active account, in the order of their account ids, at most 200.\<close>

definition MEMBER_LIMIT :: nat where
  "MEMBER_LIMIT = 200"

definition activeMembers :: "string \<Rightarrow> space_store \<Rightarrow> member_view list" where
  "activeMembers spaceId s =
     List.map_filter (\<lambda>row.
       case activeAccount (mr_userId row) s of
         Some account \<Rightarrow>
           if mr_spaceId row = spaceId
           then Some \<lparr>mv_userId = mr_userId row, mv_accountId = ac_accountId account, mv_displayName = shownName account,
                      mv_role = mr_role row\<rparr>
           else None
       | None \<Rightarrow> None)
     (ss_members s)"

definition spaceMembers :: "string \<Rightarrow> string \<Rightarrow> space_store \<Rightarrow> error + member_view list" where
  "spaceMembers userId spaceId s =
     resultThen (spaceAccess userId spaceId SpaceViewer s) (\<lambda>_.
       Inr (take MEMBER_LIMIT (sort_key mv_accountId (activeMembers spaceId s))))"

text \<open>\<open>instr(lower(text), lower(part)) > 0\<close>\<close>

definition containsText :: "string \<Rightarrow> string \<Rightarrow> bool" where
  "containsText part text \<longleftrightarrow>
     list_ex (\<lambda>n. take (length part) (drop n (toLowerCase text)) = toLowerCase part) [0..<length text + 1]"

definition spacePeople :: "string \<Rightarrow> string \<Rightarrow> js_value \<Rightarrow> space_store \<Rightarrow> error + (string \<times> string \<times> string) list" where
  "spacePeople userId spaceId query s =
     resultThen (spaceAccess userId spaceId SpaceOwner s) (\<lambda>_.
     resultThen (spaceText query ''employee search'' 160 False) (\<lambda>text.
       Inr (map (\<lambda>account. (ac_id account, ac_accountId account, shownName account))
         (take 20 (sort_key ac_accountId (sort_key ac_id
           (filter (\<lambda>account. ac_active account
              \<and> (containsText (trim text) (ac_accountId account) \<or> containsText (trim text) (ac_displayName account))
              \<and> findMember spaceId (ac_id account) s = None)
             (ss_accounts s))))))))"

section \<open>Spaces and members\<close>

definition auditSpace :: "string \<Rightarrow> string \<Rightarrow> string \<Rightarrow> js_object \<Rightarrow> int \<Rightarrow> space_store \<Rightarrow> space_store" where
  "auditSpace userId spaceId event details now s =
     s\<lparr>ss_audit := ss_audit s @
       [\<lparr>sa_actor = userId, sa_event = event, sa_spaceId = spaceId, sa_createdAt = now, sa_details = details\<rparr>]\<rparr>"

definition setRevision :: "string \<Rightarrow> int \<Rightarrow> space_store \<Rightarrow> space_store" where
  "setRevision spaceId revision s =
     s\<lparr>ss_spaces := map (\<lambda>row. if sr_id row = spaceId then row\<lparr>sr_revision := revision\<rparr> else row) (ss_spaces s)\<rparr>"

text \<open>Active runs that satisfy a condition are revoked.\<close>

definition revokeRuns :: "(run_row \<Rightarrow> bool) \<Rightarrow> space_store \<Rightarrow> space_store" where
  "revokeRuns chosen s =
     s\<lparr>ss_runs := map (\<lambda>run. if rn_state run = RunActive \<and> chosen run then run\<lparr>rn_state := RunRevoked\<rparr> else run)
       (ss_runs s)\<rparr>"

definition insertSpace :: "space_row \<Rightarrow> space_store \<Rightarrow> error + space_store" where
  "insertSpace space s =
     (if list_ex (\<lambda>row. sr_id row = sr_id space \<or> sr_agentId row = sr_agentId space
           \<or> sr_creatorId row = sr_creatorId space \<and> sr_requestId row = sr_requestId space) (ss_spaces s)
      then constraintFailed
      else Inr (s\<lparr>ss_spaces := ss_spaces s @ [space]\<rparr>))"

definition insertMember :: "member_row \<Rightarrow> space_store \<Rightarrow> error + space_store" where
  "insertMember member s =
     (if findMember (mr_spaceId member) (mr_userId member) s \<noteq> None then constraintFailed
      else Inr (s\<lparr>ss_members := ss_members s @ [member]\<rparr>))"

definition createSpaceRows ::
    "string \<Rightarrow> string \<Rightarrow> string \<Rightarrow> string \<Rightarrow> int \<Rightarrow> space_store \<Rightarrow> error + (space_view \<times> space_store)" where
  "createSpaceRows userId name requestId freshId now s =
     resultThen (activeUser userId s) (\<lambda>_.
       if deletedRequest userId requestId s then stateError ''Space was deleted; use a new creation request''
       else
         case List.find (\<lambda>row. sr_creatorId row = userId \<and> sr_requestId row = requestId) (ss_spaces s) of
           Some prior \<Rightarrow>
             if sr_name prior \<noteq> name then spaceChanged
             else resultThen (spaceAccess userId (sr_id prior) SpaceViewer s) (\<lambda>space. Inr (space, s))
         | None \<Rightarrow>
             if length (filter (\<lambda>row. sr_creatorId row = userId) (ss_spaces s)) \<ge> 100
             then stateError ''Space limit reached''
             else
               resultThen (insertSpace
                   \<lparr>sr_id = freshId, sr_name = name, sr_agentId = ''space-'' @ freshId, sr_creatorId = userId,
                    sr_requestId = requestId, sr_revision = 1, sr_createdAt = now\<rparr> s) (\<lambda>s1.
               resultThen (insertMember \<lparr>mr_spaceId = freshId, mr_userId = userId, mr_role = SpaceOwner\<rparr> s1) (\<lambda>s2.
                 let s3 = auditSpace userId freshId ''space.created'' [] now s2
                 in resultThen (spaceAccess userId freshId SpaceViewer s3) (\<lambda>space. Inr (space, s3)))))"

definition createSpace ::
    "string \<Rightarrow> js_value \<Rightarrow> js_value \<Rightarrow> string \<Rightarrow> int \<Rightarrow> space_store \<Rightarrow> error + (space_view \<times> space_store)" where
  "createSpace userId name requestId freshId now s =
     resultThen (activeUser userId s) (\<lambda>_.
     resultThen (spaceText name ''Space name'' 160 False) (\<lambda>nameText.
     resultThen (spaceText requestId ''request id'' 128 False) (\<lambda>requestText.
       createSpaceRows userId nameText requestText freshId now s)))"

text \<open>\<open>None\<close> removes the member; a role is a string of the request.\<close>

definition roleOf :: "string \<Rightarrow> space_role option" where
  "roleOf text =
     (if text = ''viewer'' then Some SpaceViewer else if text = ''editor'' then Some SpaceEditor
      else if text = ''owner'' then Some SpaceOwner else None)"

definition parseRole :: "string option \<Rightarrow> error + space_role option" where
  "parseRole role =
     (case role of
        None \<Rightarrow> Inr None
      | Some text \<Rightarrow> (case roleOf text of None \<Rightarrow> stateError ''Invalid Space role'' | Some r \<Rightarrow> Inr (Some r)))"

definition ownersOf :: "member_view list \<Rightarrow> member_view list" where
  "ownersOf members = filter (\<lambda>member. mv_role member = SpaceOwner) members"

definition leavesNoOwner :: "member_view list \<Rightarrow> string \<Rightarrow> bool" where
  "leavesNoOwner members memberId \<longleftrightarrow>
     (case List.find (\<lambda>member. mv_userId member = memberId) members of
        None \<Rightarrow> False
      | Some member \<Rightarrow> mv_role member = SpaceOwner) \<and> length (ownersOf members) = 1"

definition upsertMember :: "string \<Rightarrow> string \<Rightarrow> space_role \<Rightarrow> space_store \<Rightarrow> space_store" where
  "upsertMember spaceId userId role s =
     (if findMember spaceId userId s = None
      then s\<lparr>ss_members := ss_members s @ [\<lparr>mr_spaceId = spaceId, mr_userId = userId, mr_role = role\<rparr>]\<rparr>
      else s\<lparr>ss_members := map (\<lambda>row. if mr_spaceId row = spaceId \<and> mr_userId row = userId then row\<lparr>mr_role := role\<rparr> else row)
               (ss_members s)\<rparr>)"

definition deleteMember :: "string \<Rightarrow> string \<Rightarrow> space_store \<Rightarrow> space_store" where
  "deleteMember spaceId userId s =
     s\<lparr>ss_members := filter (\<lambda>row. \<not> (mr_spaceId row = spaceId \<and> mr_userId row = userId)) (ss_members s)\<rparr>"

definition isLeaving :: "string \<Rightarrow> string \<Rightarrow> space_store \<Rightarrow> bool" where
  "isLeaving spaceId userId s \<longleftrightarrow>
     list_ex (\<lambda>row. dr_spaceId row = spaceId \<and> dr_userId row = userId \<and> dr_pending row) (ss_departures s)"

definition changeMember :: "string \<Rightarrow> string \<Rightarrow> space_role option \<Rightarrow> space_store \<Rightarrow> space_store" where
  "changeMember spaceId memberId role s =
     (case role of Some r \<Rightarrow> upsertMember spaceId memberId r s | None \<Rightarrow> deleteMember spaceId memberId s)"

definition roleValue :: "space_role option \<Rightarrow> js_value" where
  "roleValue role =
     (case role of None \<Rightarrow> JNull | Some SpaceViewer \<Rightarrow> JStr ''viewer'' | Some SpaceEditor \<Rightarrow> JStr ''editor''
      | Some SpaceOwner \<Rightarrow> JStr ''owner'')"

text \<open>What follows a change of membership: a new revision, and no more runs for a reader.\<close>

definition afterMemberChange ::
    "string \<Rightarrow> string \<Rightarrow> string \<Rightarrow> space_role option \<Rightarrow> int \<Rightarrow> int \<Rightarrow> space_store \<Rightarrow> space_store" where
  "afterMemberChange userId spaceId memberId role revision now s =
     (let s1 = setRevision spaceId (revision + 1) s;
          s2 = (if role = None \<or> role = Some SpaceViewer
                then revokeRuns (\<lambda>run. rn_spaceId run = spaceId \<and> rn_userId run = memberId) s1 else s1)
      in auditSpace userId spaceId ''space.member.changed'' [(''userId'', JStr memberId), (''role'', roleValue role)] now s2)"

definition setMemberRows ::
    "string \<Rightarrow> string \<Rightarrow> string \<Rightarrow> space_role option \<Rightarrow> int \<Rightarrow> int \<Rightarrow> space_store \<Rightarrow> error + (unit \<times> space_store)" where
  "setMemberRows userId spaceId memberId role revision now s =
     resultThen (spaceAccess userId spaceId SpaceOwner s) (\<lambda>space.
       if sv_revision space \<noteq> revision then spaceChanged
       else
         resultThen (if role \<noteq> None then activeUser memberId s else Inr ()) (\<lambda>_.
           if isLeaving spaceId memberId s
           then stateError ''This member is still leaving; finish their cleanup before changing membership''
           else
             resultThen (spaceMembers userId spaceId s) (\<lambda>members.
               if role \<noteq> Some SpaceOwner \<and> leavesNoOwner members memberId
               then stateError ''Keep at least one active Space owner''
               else if role \<noteq> None \<and> \<not> list_ex (\<lambda>member. mv_userId member = memberId) members \<and> length members \<ge> MEMBER_LIMIT
               then stateError ''Space member limit reached''
               else Inr ((), afterMemberChange userId spaceId memberId role revision now
                               (changeMember spaceId memberId role s)))))"

definition setMember ::
    "string \<Rightarrow> string \<Rightarrow> string \<Rightarrow> string option \<Rightarrow> int \<Rightarrow> int \<Rightarrow> space_store \<Rightarrow> error + (unit \<times> space_store)" where
  "setMember userId spaceId memberId role revision now s =
     resultThen (spaceAccess userId spaceId SpaceOwner s) (\<lambda>_.
     resultThen (parseRole role) (\<lambda>parsed. setMemberRows userId spaceId memberId parsed revision now s))"

section \<open>Leaving and deletion\<close>

text \<open>A space that is being left: its id and agent.\<close>

datatype departure = Left | Leaving string string

definition findDeparture :: "string \<Rightarrow> string \<Rightarrow> space_store \<Rightarrow> departure_row option" where
  "findDeparture spaceId userId s =
     List.find (\<lambda>row. dr_spaceId row = spaceId \<and> dr_userId row = userId) (ss_departures s)"

definition recordDeparture :: "string \<Rightarrow> string \<Rightarrow> int \<Rightarrow> space_store \<Rightarrow> space_store" where
  "recordDeparture spaceId userId revision s =
     s\<lparr>ss_departures :=
         filter (\<lambda>row. \<not> (dr_spaceId row = spaceId \<and> dr_userId row = userId)) (ss_departures s)
         @ [\<lparr>dr_spaceId = spaceId, dr_userId = userId, dr_revision = revision, dr_pending = True\<rparr>]\<rparr>"

text \<open>A repeated call of a member who has left finds the receipt of the departure.\<close>

definition departureReplay :: "string \<Rightarrow> string \<Rightarrow> int \<Rightarrow> space_store \<Rightarrow> departure option" where
  "departureReplay userId spaceId revision s =
     (case (findMember spaceId userId s, findDeparture spaceId userId s, findSpace spaceId s) of
        (None, Some receipt, Some space) \<Rightarrow>
          if dr_revision receipt = revision \<and> \<not> deleting spaceId s
          then Some (if dr_pending receipt then Leaving (sr_id space) (sr_agentId space) else Left)
          else None
      | _ \<Rightarrow> None)"

definition departMember :: "string \<Rightarrow> string \<Rightarrow> int \<Rightarrow> int \<Rightarrow> space_store \<Rightarrow> space_store" where
  "departMember userId spaceId revision now s =
     (let s1 = setRevision spaceId (revision + 1) (deleteMember spaceId userId s);
          s2 = revokeRuns (\<lambda>run. rn_spaceId run = spaceId \<and> rn_userId run = userId) s1
      in auditSpace userId spaceId ''space.member.left'' [] now (recordDeparture spaceId userId revision s2))"

definition leaveSpace :: "string \<Rightarrow> string \<Rightarrow> int \<Rightarrow> int \<Rightarrow> space_store \<Rightarrow> error + (departure \<times> space_store)" where
  "leaveSpace userId spaceId revision now s =
     resultThen (activeUser userId s) (\<lambda>_.
       case departureReplay userId spaceId revision s of
         Some receipt \<Rightarrow> Inr (receipt, s)
       | None \<Rightarrow>
           resultThen (spaceAccess userId spaceId SpaceViewer s) (\<lambda>space.
             if sv_revision space \<noteq> revision then spaceChanged
             else
               resultThen (spaceMembers userId spaceId s) (\<lambda>members.
                 if sv_role space = SpaceOwner \<and> length (ownersOf members) = 1
                 then stateError ''Assign another active Space owner before leaving''
                 else Inr (Leaving (sv_id space) (sv_agentId space), departMember userId spaceId revision now s))))"

definition finishLeave :: "string \<Rightarrow> string \<Rightarrow> int \<Rightarrow> space_store \<Rightarrow> space_store" where
  "finishLeave userId spaceId revision s =
     s\<lparr>ss_departures := map (\<lambda>row. if dr_spaceId row = spaceId \<and> dr_userId row = userId \<and> dr_revision row = revision
                                    then row\<lparr>dr_pending := False\<rparr> else row) (ss_departures s)\<rparr>"

definition findDeletion :: "string \<Rightarrow> space_store \<Rightarrow> deletion_row option" where
  "findDeletion spaceId s = List.find (\<lambda>row. dl_spaceId row = spaceId) (ss_deletions s)"

definition isOwnerRow :: "string \<Rightarrow> string \<Rightarrow> space_store \<Rightarrow> bool" where
  "isOwnerRow spaceId userId s \<longleftrightarrow>
     list_ex (\<lambda>row. mr_spaceId row = spaceId \<and> mr_userId row = userId \<and> mr_role row = SpaceOwner) (ss_members s)"

definition insertDeletion :: "deletion_row \<Rightarrow> space_store \<Rightarrow> error + space_store" where
  "insertDeletion deletion s =
     (if list_ex (\<lambda>row. dl_spaceId row = dl_spaceId deletion
           \<or> dl_creatorId row = dl_creatorId deletion \<and> dl_requestId row = dl_requestId deletion) (ss_deletions s)
      then constraintFailed
      else Inr (s\<lparr>ss_deletions := ss_deletions s @ [deletion]\<rparr>))"

definition beginDelete ::
    "string \<Rightarrow> string \<Rightarrow> int \<Rightarrow> string \<Rightarrow> int \<Rightarrow> space_store \<Rightarrow> error + (deletion_row \<times> space_store)" where
  "beginDelete userId spaceId revision confirmName now s =
     resultThen (activeUser userId s) (\<lambda>_.
       case findDeletion spaceId s of
         Some prior \<Rightarrow>
           let owner = \<not> dl_deleted prior \<and> isOwnerRow spaceId userId s
           in if \<not> owner \<and> userId \<notin> set (dl_ownerIds prior) \<or> dl_revision prior \<noteq> revision
                 \<or> \<not> dl_deleted prior \<and> dl_name prior \<noteq> confirmName
              then Inl (AuthorizationError ''Space deletion unavailable'')
              else Inr (prior, s)
       | None \<Rightarrow>
           resultThen (spaceAccess userId spaceId SpaceOwner s) (\<lambda>space.
             if sv_revision space \<noteq> revision then spaceChanged
             else if confirmName \<noteq> sv_name space
             then stateError ''Enter the exact Space name to confirm permanent deletion''
             else
               case findSpace spaceId s of
                 None \<Rightarrow> spaceUnavailable
               | Some original \<Rightarrow>
                   resultThen (spaceMembers userId spaceId s) (\<lambda>members.
                     let row = \<lparr>dl_spaceId = spaceId, dl_userId = userId, dl_name = sv_name space,
                                dl_agentId = sv_agentId space, dl_revision = revision, dl_creatorId = sr_creatorId original,
                                dl_requestId = sr_requestId original, dl_ownerIds = map mv_userId (ownersOf members),
                                dl_deleted = False, dl_createdAt = now\<rparr>
                     in resultThen (insertDeletion row s) (\<lambda>s1.
                          Inr (row, auditSpace userId spaceId ''space.deletion.started'' [] now
                                 (revokeRuns (\<lambda>run. rn_spaceId run = spaceId) (setRevision spaceId (revision + 1) s1)))))))"

definition deletionSessions :: "string \<Rightarrow> string \<Rightarrow> space_store \<Rightarrow> (string \<times> string) list" where
  "deletionSessions spaceId agentId s =
     map (\<lambda>row. (cv_agentId row, cv_sessionKey row)) (sort_key cv_id (filter (\<lambda>row. cv_spaceId row = spaceId) (ss_conversations s)))
     @ map (\<lambda>page. (agentId, ''agent:'' @ agentId @ '':space:'' @ pg_id page))
         (sort_key pg_id (filter (\<lambda>page. pg_spaceId page = spaceId) (ss_pages s)))"

text \<open>The rows of a space, removed by the foreign keys with the space.\<close>

definition deleteSpaceRows :: "string \<Rightarrow> space_store \<Rightarrow> space_store" where
  "deleteSpaceRows spaceId s =
     (let gone = map cv_id (filter (\<lambda>row. cv_spaceId row = spaceId) (ss_conversations s))
      in s\<lparr>ss_spaces := filter (\<lambda>row. sr_id row \<noteq> spaceId) (ss_spaces s),
           ss_members := filter (\<lambda>row. mr_spaceId row \<noteq> spaceId) (ss_members s),
           ss_pages := filter (\<lambda>row. pg_spaceId row \<noteq> spaceId) (ss_pages s),
           ss_runs := filter (\<lambda>row. rn_spaceId row \<noteq> spaceId) (ss_runs s),
           ss_departures := filter (\<lambda>row. dr_spaceId row \<noteq> spaceId) (ss_departures s),
           ss_conversations := filter (\<lambda>row. cv_spaceId row \<noteq> spaceId) (ss_conversations s),
           ss_titles := filter (\<lambda>entry. fst entry \<notin> set gone) (ss_titles s)\<rparr>)"

definition finishDelete :: "string \<Rightarrow> string \<Rightarrow> int \<Rightarrow> space_store \<Rightarrow> space_store" where
  "finishDelete userId spaceId now s =
     (let s1 = deleteSpaceRows spaceId s
      in auditSpace userId spaceId ''space.deleted'' [] now
           (s1\<lparr>ss_deletions := map (\<lambda>row. if dl_spaceId row = spaceId
                                           then row\<lparr>dl_deleted := True, dl_name := [], dl_userId := userId\<rparr> else row)
                                 (ss_deletions s1)\<rparr>))"

section \<open>Pages\<close>

definition spacePages :: "string \<Rightarrow> string \<Rightarrow> space_store \<Rightarrow> error + page_row list" where
  "spacePages userId spaceId s =
     resultThen (spaceAccess userId spaceId SpaceViewer s) (\<lambda>_.
       Inr (take 200 (sort_key (\<lambda>page. - pg_updatedAt page) (filter (\<lambda>page. pg_spaceId page = spaceId) (ss_pages s)))))"

definition spacePage :: "string \<Rightarrow> string \<Rightarrow> string \<Rightarrow> space_role \<Rightarrow> space_store \<Rightarrow> error + page_row" where
  "spacePage userId spaceId pageId role s =
     resultThen (spaceAccess userId spaceId role s) (\<lambda>_.
       case List.find (\<lambda>page. pg_id page = pageId \<and> pg_spaceId page = spaceId) (ss_pages s) of
         None \<Rightarrow> spaceUnavailable
       | Some page \<Rightarrow> Inr page)"

definition NESTING_LIMIT :: nat where
  "NESTING_LIMIT = 20"

text \<open>The loop over the parents; \<open>depth\<close> counts the pages above the new one.\<close>

function climbParents :: "string \<Rightarrow> string \<Rightarrow> space_store \<Rightarrow> nat \<Rightarrow> page_row \<Rightarrow> error + unit" where
  "climbParents userId spaceId s depth parent =
     (if depth + 1 \<ge> NESTING_LIMIT then stateError ''Page nesting limit reached; create a sibling issue''
      else
        case pg_parentId parent of
          None \<Rightarrow> Inr ()
        | Some parentId \<Rightarrow>
            if parentId = [] then Inr ()
            else
              case spacePage userId spaceId parentId SpaceViewer s of
                Inl failure \<Rightarrow> Inl failure
              | Inr next_page \<Rightarrow> climbParents userId spaceId s (depth + 1) next_page)"
  by pat_completeness auto
termination
  by (relation "measure (\<lambda>(_, _, _, depth, _). NESTING_LIMIT - depth)") auto

declare climbParents.simps [simp del]

definition checkParent :: "string \<Rightarrow> string \<Rightarrow> string option \<Rightarrow> space_store \<Rightarrow> error + unit" where
  "checkParent userId spaceId parentId s =
     (case parentId of
        None \<Rightarrow> Inr ()
      | Some pageId \<Rightarrow>
          if pageId = [] then Inr ()
          else resultThen (spacePage userId spaceId pageId SpaceViewer s) (climbParents userId spaceId s 0))"

definition insertPage :: "page_row \<Rightarrow> space_store \<Rightarrow> error + space_store" where
  "insertPage page s =
     (if list_ex (\<lambda>row. pg_id row = pg_id page \<or> pg_creatorId row = pg_creatorId page \<and> pg_requestId row = pg_requestId page)
           (ss_pages s)
         \<or> (case pg_parentId page of None \<Rightarrow> False | Some parentId \<Rightarrow> \<not> list_ex (\<lambda>row. pg_id row = parentId) (ss_pages s))
      then constraintFailed
      else Inr (s\<lparr>ss_pages := ss_pages s @ [page]\<rparr>))"

definition createPageRows ::
    "string \<Rightarrow> string \<Rightarrow> string option \<Rightarrow> string \<Rightarrow> string \<Rightarrow> string \<Rightarrow> string \<Rightarrow> int \<Rightarrow> space_store \<Rightarrow> error + (page_row \<times> space_store)"
  where
  "createPageRows userId spaceId parentId title body requestId freshId now s =
     resultThen (spaceAccess userId spaceId SpaceEditor s) (\<lambda>_.
     resultThen (checkParent userId spaceId parentId s) (\<lambda>_.
       case List.find (\<lambda>page. pg_creatorId page = userId \<and> pg_requestId page = requestId) (ss_pages s) of
         Some prior \<Rightarrow>
           if pg_spaceId prior \<noteq> spaceId \<or> pg_title prior \<noteq> title \<or> pg_body prior \<noteq> body \<or> pg_parentId prior \<noteq> parentId
           then spaceChanged else Inr (prior, s)
       | None \<Rightarrow>
           resultThen (spacePages userId spaceId s) (\<lambda>pages.
             if length pages \<ge> 200 then stateError ''Space page limit reached''
             else
               let row = \<lparr>pg_id = freshId, pg_spaceId = spaceId, pg_parentId = parentId, pg_title = title, pg_body = body,
                          pg_revision = 1, pg_creatorId = userId, pg_requestId = requestId, pg_updatedAt = now\<rparr>
               in resultThen (insertPage row s) (\<lambda>s1.
                    Inr (row, auditSpace userId spaceId ''space.page.created'' [(''pageId'', JStr freshId)] now s1)))))"

definition createPage ::
    "string \<Rightarrow> string \<Rightarrow> string option \<Rightarrow> js_value \<Rightarrow> js_value \<Rightarrow> js_value \<Rightarrow> string \<Rightarrow> int \<Rightarrow> space_store
       \<Rightarrow> error + (page_row \<times> space_store)" where
  "createPage userId spaceId parentId title body requestId freshId now s =
     resultThen (spaceAccess userId spaceId SpaceEditor s) (\<lambda>_.
     resultThen (spaceText title ''page title'' 240 False) (\<lambda>titleText.
     resultThen (spaceText body ''page body'' 32000 True) (\<lambda>bodyText.
     resultThen (spaceText requestId ''request id'' 128 False) (\<lambda>requestText.
       createPageRows userId spaceId parentId titleText bodyText requestText freshId now s))))"

definition savePage ::
    "string \<Rightarrow> string \<Rightarrow> string \<Rightarrow> js_value \<Rightarrow> js_value \<Rightarrow> int \<Rightarrow> int \<Rightarrow> space_store \<Rightarrow> error + (page_row \<times> space_store)" where
  "savePage userId spaceId pageId title body revision now s =
     resultThen (spacePage userId spaceId pageId SpaceEditor s) (\<lambda>page.
     resultThen (spaceText title ''page title'' 240 False) (\<lambda>titleText.
     resultThen (spaceText body ''page body'' 32000 True) (\<lambda>bodyText.
       if pg_revision page \<noteq> revision then spaceChanged
       else
         let edit = (\<lambda>row. row\<lparr>pg_title := titleText, pg_body := bodyText, pg_revision := revision + 1, pg_updatedAt := now\<rparr>);
             s1 = s\<lparr>ss_pages := map (\<lambda>row. if pg_id row = pageId then edit row else row) (ss_pages s)\<rparr>;
             s2 = auditSpace userId spaceId ''space.page.saved'' [(''pageId'', JStr pageId), (''revision'', JNum (revision + 1))] now s1
         in resultThen (spacePage userId spaceId pageId SpaceViewer s2) (\<lambda>saved. Inr (saved, s2)))))"

section \<open>Agents\<close>

definition userForAgent :: "string \<Rightarrow> space_store \<Rightarrow> error + string" where
  "userForAgent agentId s =
     (case List.find (\<lambda>row. ag_agentId row = agentId \<and> ag_personal row \<and> ag_active row) (ss_agents s) of
        None \<Rightarrow> spaceUnavailable
      | Some row \<Rightarrow>
          (case ag_userId row of
             None \<Rightarrow> spaceUnavailable
           | Some userId \<Rightarrow> if userId = [] then spaceUnavailable else resultThen (activeUser userId s) (\<lambda>_. Inr userId)))"

definition personalAgentOwner :: "string \<Rightarrow> space_store \<Rightarrow> string option" where
  "personalAgentOwner agentId s =
     Option.bind (List.find (\<lambda>row. ag_agentId row = agentId \<and> ag_personal row) (ss_agents s)) ag_userId"

definition spaceForAgent :: "string \<Rightarrow> space_store \<Rightarrow> string option" where
  "spaceForAgent agentId s = map_option sr_id (List.find (\<lambda>row. sr_agentId row = agentId) (ss_spaces s))"

definition agentScope :: "string \<Rightarrow> space_store \<Rightarrow> error + (space_row \<times> page_row list)" where
  "agentScope agentId s =
     (case List.find (\<lambda>row. sr_agentId row = agentId) (ss_spaces s) of
        None \<Rightarrow> spaceUnavailable
      | Some space \<Rightarrow>
          if deleting (sr_id space) s then spaceUnavailable
          else Inr (space, take 200 (sort_key (\<lambda>page. - pg_updatedAt page)
                 (filter (\<lambda>page. pg_spaceId page = sr_id space) (ss_pages s)))))"

section \<open>Runs\<close>

definition findRun :: "string \<Rightarrow> space_store \<Rightarrow> run_row option" where
  "findRun runId s = List.find (\<lambda>run. rn_runId run = runId) (ss_runs s)"

definition setRunState :: "(run_row \<Rightarrow> bool) \<Rightarrow> run_state \<Rightarrow> space_store \<Rightarrow> space_store" where
  "setRunState chosen state s =
     s\<lparr>ss_runs := map (\<lambda>run. if chosen run then run\<lparr>rn_state := state\<rparr> else run) (ss_runs s)\<rparr>"

definition activeRuns :: "string \<Rightarrow> space_store \<Rightarrow> nat" where
  "activeRuns spaceId s = length (filter (\<lambda>run. rn_spaceId run = spaceId \<and> rn_state run = RunActive) (ss_runs s))"

text \<open>The result is whether the run had finished before.\<close>

definition beginRun ::
    "(string \<Rightarrow> string) \<Rightarrow> string \<Rightarrow> string \<Rightarrow> string \<Rightarrow> string \<Rightarrow> string \<Rightarrow> int \<Rightarrow> space_store \<Rightarrow> error + (bool \<times> space_store)" where
  "beginRun sha256 userId spaceId pageId runId message now s =
     resultThen (spacePage userId spaceId pageId SpaceEditor s) (\<lambda>_.
       let digest = sha256 message;
           admit = (\<lambda>next_store. if activeRuns spaceId s \<ge> 200
                                 then stateError ''Space has too many pending messages; wait and retry''
                                 else Inr (False, next_store))
       in case findRun runId s of
            Some prior \<Rightarrow>
              if rn_userId prior \<noteq> userId \<or> rn_pageId prior \<noteq> pageId \<or> rn_contentHash prior \<noteq> digest
                 \<or> rn_state prior = RunRevoked
              then spaceChanged
              else if rn_state prior \<noteq> RunFailed then Inr (rn_state prior = RunFinished, s)
              else admit (setRunState (\<lambda>run. rn_runId run = runId) RunActive s)
          | None \<Rightarrow>
              admit (s\<lparr>ss_runs := ss_runs s @ [\<lparr>rn_runId = runId, rn_spaceId = spaceId, rn_pageId = pageId, rn_userId = userId,
                rn_contentHash = digest, rn_state = RunActive, rn_createdAt = now\<rparr>]\<rparr>))"

definition assertRun :: "string \<Rightarrow> string option \<Rightarrow> string option \<Rightarrow> space_store \<Rightarrow> error + unit" where
  "assertRun agentId runId pageId s =
     (case Option.bind runId (\<lambda>wanted. if wanted = [] then None else findRun wanted s) of
        None \<Rightarrow> spaceUnavailable
      | Some run \<Rightarrow>
          if Some (rn_spaceId run) \<noteq> spaceForAgent agentId s \<or> rn_state run \<noteq> RunActive
             \<or> (case pageId of None \<Rightarrow> False | Some wanted \<Rightarrow> wanted \<noteq> [] \<and> rn_pageId run \<noteq> wanted)
          then spaceUnavailable
          else resultThen (spacePage (rn_userId run) (rn_spaceId run) (rn_pageId run) SpaceEditor s) (\<lambda>_. Inr ()))"

definition revokedRuns :: "string \<Rightarrow> string \<Rightarrow> string option \<Rightarrow> space_store \<Rightarrow> (string \<times> string) list" where
  "revokedRuns spaceId userId afterRunId s =
     map (\<lambda>run. (rn_runId run, rn_pageId run)) (take 200 (sort_key rn_runId
       (filter (\<lambda>run. rn_spaceId run = spaceId \<and> rn_userId run = userId \<and> rn_state run = RunRevoked
          \<and> (case afterRunId of None \<Rightarrow> True | Some seen \<Rightarrow> seen < rn_runId run)) (ss_runs s))))"

definition finishRun :: "string \<Rightarrow> string option \<Rightarrow> space_store \<Rightarrow> space_store" where
  "finishRun runId pageId =
     setRunState (\<lambda>run. rn_runId run = runId \<and> rn_state run \<in> {RunActive, RunRevoked}
       \<and> (case pageId of None \<Rightarrow> True | Some wanted \<Rightarrow> wanted = [] \<or> rn_pageId run = wanted)) RunFinished"

definition failRun :: "string \<Rightarrow> space_store \<Rightarrow> space_store" where
  "failRun runId = setRunState (\<lambda>run. rn_runId run = runId \<and> rn_state run = RunActive) RunFailed"

definition hasConversation :: "string \<Rightarrow> space_store \<Rightarrow> bool" where
  "hasConversation pageId s \<longleftrightarrow> list_ex (\<lambda>run. rn_pageId run = pageId) (ss_runs s)"

section \<open>Titles of conversations\<close>

text \<open>\<open>truncateUtf16Safe\<close> of \<open>packages/normalization-core/src/utf16-slice.ts\<close>; a \<open>string\<close> has no surrogate pairs.\<close>

definition truncateUtf16Safe :: "string \<Rightarrow> nat \<Rightarrow> string" where
  "truncateUtf16Safe text limit = take limit text"

definition numberedTitle :: "string \<Rightarrow> nat \<Rightarrow> string" where
  "numberedTitle base number = truncateUtf16Safe base (240 - length (decimal number)) @ decimal number"

text \<open>Titles with numbers of the same length differ, so a free one is found.\<close>

lemma decimal_inject: "decimal m = decimal n \<longleftrightarrow> m = n"
  by (metis decimalValue_decimal)

lemma numberedTitle_inject:
  assumes "length (decimal m) = length (decimal n)" "numberedTitle base m = numberedTitle base n"
  shows "m = n"
  using assms by (simp add: numberedTitle_def decimal_inject)

lemma decimal_length: "0 < k \<Longrightarrow> 10 ^ (k - 1) \<le> n \<Longrightarrow> n < 10 ^ k \<Longrightarrow> 0 < n \<Longrightarrow> length (decimal n) = k"
proof (induction k arbitrary: n)
  case (Suc k)
  show ?case
  proof (cases "n < 10")
    case True
    then have "k = 0"
      using Suc.prems(2) by (cases k) (auto simp: power_Suc dest: order.strict_trans1)
    then show ?thesis using True by (simp add: decimal.simps [of n])
  next
    case False
    then have k: "0 < k" using Suc.prems(3) by (cases k) auto
    have "10 ^ (k - 1) \<le> n div 10" using Suc.prems(2) k by (cases k) (auto simp: less_eq_div_iff_mult_less_eq mult.commute)
    moreover have "n div 10 < 10 ^ k" using Suc.prems(3) by (simp add: less_mult_imp_div_less mult.commute)
    moreover have "0 < n div 10" using False by simp
    ultimately have "length (decimal (n div 10)) = k" using Suc.IH k by blast
    then show ?thesis using False by (simp add: decimal.simps [of n])
  qed
qed simp

lemma free_title: "\<exists>m \<ge> number. numberedTitle base m \<notin> set titles"
proof (rule ccontr)
  assume none: "\<not> ?thesis"
  define k where "k = Suc (number + length titles + 1)"
  let ?N = "{10 ^ (k - 1)..<(10 :: nat) ^ k}"
  have big: "n < 10 ^ n" for n :: nat by (induction n) auto
  have len: "length (decimal n) = k" if "n \<in> ?N" for n
    using that by (intro decimal_length) (auto simp: k_def intro: order.strict_trans2 [OF zero_less_power])
  have "numberedTitle base ` ?N \<subseteq> set titles"
  proof
    fix t assume "t \<in> numberedTitle base ` ?N"
    then obtain n where n: "n \<in> ?N" "t = numberedTitle base n" by blast
    have "number \<le> 10 ^ (k - 1)" using big [of "k - 1"] by (simp add: k_def)
    then show "t \<in> set titles" using none n by (meson atLeastLessThan_iff order.trans)
  qed
  then have "card (numberedTitle base ` ?N) \<le> length titles"
    using card_length [of titles] card_mono [of "set titles"] by (meson List.finite_set order.trans)
  moreover have "inj_on (numberedTitle base) ?N" using len numberedTitle_inject by (metis inj_onI)
  then have "card (numberedTitle base ` ?N) = card ?N" by (rule card_image)
  moreover have "card ?N = 9 * 10 ^ (k - 1)" by (simp add: k_def)
  moreover have "length titles < 10 ^ (k - 1)" using big [of "k - 1"] by (simp add: k_def)
  ultimately show False by simp
qed

function freeTitle :: "string list \<Rightarrow> string \<Rightarrow> nat \<Rightarrow> string" where
  "freeTitle titles base number =
     (let title = numberedTitle base number
      in if title \<in> set titles then freeTitle titles base (number + 1) else title)"
  by pat_completeness auto
termination
proof (relation "measure (\<lambda>(titles, base, number). (LEAST m. number \<le> m \<and> numberedTitle base m \<notin> set titles) - number)")
  fix titles :: "string list" and base number and title
  assume title: "title = numberedTitle base number" "title \<in> set titles"
  let ?P = "\<lambda>n m. n \<le> m \<and> numberedTitle base m \<notin> set titles"
  obtain m where "?P number m" using free_title by blast
  then have least: "?P number (LEAST m. ?P number m)" by (rule LeastI)
  then have "number < (LEAST m. ?P number m)" using title by (metis order_le_imp_less_or_eq)
  moreover have "(LEAST m. ?P (number + 1) m) \<le> (LEAST m. ?P number m)"
    using least calculation by (intro Least_le) simp
  ultimately show "((titles, base, number + 1), (titles, base, number))
      \<in> measure (\<lambda>(titles, base, number). (LEAST m. number \<le> m \<and> numberedTitle base m \<notin> set titles) - number)"
    by simp
qed simp

declare freeTitle.simps [simp del]

lemma freeTitle_free: "freeTitle titles base number \<notin> set titles"
proof (induction titles base number rule: freeTitle.induct)
  case (1 titles base number)
  then show ?case by (cases "numberedTitle base number \<in> set titles") (simp_all add: freeTitle.simps [of titles base number] Let_def)
qed

lemma freeTitle_numbered: "\<exists>m \<ge> number. freeTitle titles base number = numberedTitle base m"
proof (induction titles base number rule: freeTitle.induct)
  case (1 titles base number)
  then show ?case
    by (cases "numberedTitle base number \<in> set titles")
      (auto simp: freeTitle.simps [of titles base number] Let_def intro: order.trans [of number "number + 1"] dest: Suc_leD)
qed

definition takenTitles :: "string \<Rightarrow> string \<Rightarrow> string option \<Rightarrow> space_store \<Rightarrow> string list" where
  "takenTitles userId pageId except s =
     map cv_title (filter (\<lambda>row. cv_ownerId row = userId \<and> cv_pageId row = pageId
       \<and> (case except of None \<Rightarrow> True | Some conversationId \<Rightarrow> cv_id row \<noteq> conversationId)) (ss_conversations s))"

definition allocateTitle :: "string \<Rightarrow> string \<Rightarrow> string \<Rightarrow> string option \<Rightarrow> space_store \<Rightarrow> string" where
  "allocateTitle userId pageId requestedTitle except s =
     (let titles = takenTitles userId pageId except s; base = trim requestedTitle
      in if base \<in> set titles then freeTitle titles base 2 else base)"

section \<open>Conversations\<close>

text \<open>\<open>LIKE\<close>: letters compare without case, a percent sign matches any text and an underscore any character.\<close>

fun sqlLike :: "string \<Rightarrow> string \<Rightarrow> bool" where
  "sqlLike [] text = (text = [])"
| "sqlLike (p # pattern) text =
     (if p = CHR ''%'' then list_ex (\<lambda>n. sqlLike pattern (drop n text)) [0..<length text + 1]
      else case text of [] \<Rightarrow> False | c # rest \<Rightarrow> (p = CHR ''_'' \<or> lowerChar p = lowerChar c) \<and> sqlLike pattern rest)"

definition conversationSessionPrefix :: "string \<Rightarrow> string" where
  "conversationSessionPrefix agentId = ''agent:'' @ agentId @ '':space-session:''"

text \<open>The active personal agent of an active account, with the account's name.\<close>

definition personalBinding :: "string \<Rightarrow> space_store \<Rightarrow> (string \<times> string) option" where
  "personalBinding userId s =
     (case (activeAccount userId s, List.find (\<lambda>row. ag_userId row = Some userId \<and> ag_personal row \<and> ag_active row) (ss_agents s)) of
        (Some account, Some row) \<Rightarrow> Some (ag_agentId row, shownName account)
      | _ \<Rightarrow> None)"

definition personalAgent :: "string \<Rightarrow> space_store \<Rightarrow> string option" where
  "personalAgent userId s = map_option fst (personalBinding userId s)"

text \<open>A conversation with \<open>canWrite\<close>.\<close>

definition projectAccess ::
    "string \<Rightarrow> space_role \<Rightarrow> conversation_row \<Rightarrow> string option \<Rightarrow> bool \<Rightarrow> error + (conversation_row \<times> bool)" where
  "projectAccess userId role conversation agentId write =
     (let canWrite = (userId = cv_ownerId conversation \<and> role \<noteq> SpaceViewer \<and> agentId = Some (cv_agentId conversation))
      in if write \<and> \<not> canWrite then Inl (AuthorizationError ''Space conversation is read-only'')
         else Inr (conversation, canWrite))"

definition conversationUnavailable :: "error + 'a" where
  "conversationUnavailable = Inl (AuthorizationError ''Space conversation unavailable'')"

definition getConversation ::
    "string \<Rightarrow> string \<Rightarrow> string \<Rightarrow> bool \<Rightarrow> bool \<Rightarrow> space_store \<Rightarrow> error + (conversation_row \<times> bool)" where
  "getConversation userId spaceId conversationId write shared s =
     resultThen (spaceAccess userId spaceId SpaceViewer s) (\<lambda>space.
       case List.find (\<lambda>row. cv_spaceId row = spaceId \<and> cv_id row = conversationId) (ss_conversations s) of
         None \<Rightarrow> conversationUnavailable
       | Some row \<Rightarrow>
           if \<not> shared \<and> cv_ownerId row \<noteq> userId then conversationUnavailable
           else projectAccess userId (sv_role space) row (personalAgent userId s) write)"

definition listConversations ::
    "string \<Rightarrow> string \<Rightarrow> string option \<Rightarrow> bool \<Rightarrow> space_store \<Rightarrow> error + (conversation_row \<times> bool) list" where
  "listConversations userId spaceId pageId shared s =
     resultThen (spaceAccess userId spaceId SpaceViewer s) (\<lambda>space.
     resultThen (case pageId of None \<Rightarrow> Inr () | Some wanted \<Rightarrow>
         resultThen (spacePage userId spaceId wanted SpaceViewer s) (\<lambda>_. Inr ())) (\<lambda>_.
       mapResult (\<lambda>row. projectAccess userId (sv_role space) row (personalAgent userId s) False)
         (take 200 (sort_key (\<lambda>row. - cv_createdAt row) (sort_key cv_id
           (filter (\<lambda>row. cv_spaceId row = spaceId \<and> (shared \<or> cv_ownerId row = userId)
              \<and> (case pageId of None \<Rightarrow> True | Some wanted \<Rightarrow> cv_pageId row = wanted)) (ss_conversations s)))))))"

definition registeredConversation :: "string \<Rightarrow> space_store \<Rightarrow> conversation_row option" where
  "registeredConversation sessionKey s = List.find (\<lambda>row. cv_sessionKey row = sessionKey) (ss_conversations s)"

definition conversationBySession :: "string \<Rightarrow> string \<Rightarrow> bool \<Rightarrow> space_store \<Rightarrow> error + (conversation_row \<times> bool)" where
  "conversationBySession userId sessionKey write s =
     (case registeredConversation sessionKey s of
        None \<Rightarrow> conversationUnavailable
      | Some row \<Rightarrow>
          if cv_ownerId row \<noteq> userId then conversationUnavailable
          else resultThen (spaceAccess userId (cv_spaceId row) SpaceViewer s) (\<lambda>space.
                 projectAccess userId (sv_role space) row (personalAgent userId s) write))"

definition conversationByShortId ::
    "string \<Rightarrow> string \<Rightarrow> string \<Rightarrow> space_store \<Rightarrow> error + (conversation_row \<times> bool) option" where
  "conversationByShortId userId agentId shortId s =
     (case take 2 (filter (\<lambda>row. cv_ownerId row = userId \<and> cv_agentId row = agentId
             \<and> sqlLike (shortId @ ''%'') (filter (\<lambda>c. c \<noteq> CHR ''-'') (cv_id row))) (ss_conversations s)) of
        [] \<Rightarrow> Inr None
      | [row] \<Rightarrow> resultThen (conversationBySession userId (cv_sessionKey row) False s) (\<lambda>found. Inr (Some found))
      | _ \<Rightarrow> stateError ''Conversation link is ambiguous; open it through Spaces'')"

definition ownedConversations :: "string \<Rightarrow> string \<Rightarrow> space_store \<Rightarrow> conversation_row list" where
  "ownedConversations spaceId userId s =
     take 200 (sort_key cv_id (filter (\<lambda>row. cv_spaceId row = spaceId \<and> cv_ownerId row = userId) (ss_conversations s)))"

definition hasInaccessibleConversations :: "string option \<Rightarrow> string option \<Rightarrow> space_store \<Rightarrow> bool" where
  "hasInaccessibleConversations userId agentId s \<longleftrightarrow>
     list_ex (\<lambda>row. (case agentId of None \<Rightarrow> True | Some agent \<Rightarrow> cv_agentId row = agent)
       \<and> (case userId of
             None \<Rightarrow> True
           | Some user \<Rightarrow> cv_ownerId row \<noteq> user \<or> findMember (cv_spaceId row) user s = None \<or> deleting (cv_spaceId row) s))
       (ss_conversations s)"

definition insertConversation :: "conversation_row \<Rightarrow> space_store \<Rightarrow> error + space_store" where
  "insertConversation conversation s =
     (if list_ex (\<lambda>row. cv_id row = cv_id conversation \<or> cv_sessionKey row = cv_sessionKey conversation
           \<or> cv_ownerId row = cv_ownerId conversation \<and> cv_requestId row = cv_requestId conversation) (ss_conversations s)
      then constraintFailed
      else Inr (s\<lparr>ss_conversations := ss_conversations s @ [conversation]\<rparr>))"

text \<open>The title a conversation was requested with: its receipt, or its own title.\<close>

definition requestedTitle :: "conversation_row \<Rightarrow> space_store \<Rightarrow> string" where
  "requestedTitle row s = (case mapGet (ss_titles s) (cv_id row) of None \<Rightarrow> cv_title row | Some title \<Rightarrow> title)"

definition createConversationRows ::
    "string \<Rightarrow> string \<Rightarrow> string \<Rightarrow> string \<Rightarrow> string \<Rightarrow> string \<Rightarrow> int \<Rightarrow> space_store
       \<Rightarrow> error + ((conversation_row \<times> bool) \<times> space_store)" where
  "createConversationRows userId spaceId pageId requested requestId freshId now s =
     resultThen (spacePage userId spaceId pageId SpaceEditor s) (\<lambda>_.
       case personalBinding userId s of
         None \<Rightarrow> Inl (AuthorizationError ''Active personal agent required'')
       | Some (agentId, ownerName) \<Rightarrow>
           (case List.find (\<lambda>row. cv_ownerId row = userId \<and> cv_requestId row = requestId) (ss_conversations s) of
              Some prior \<Rightarrow>
                if cv_spaceId prior \<noteq> spaceId \<or> cv_pageId prior \<noteq> pageId \<or> requestedTitle prior s \<noteq> requested
                then spaceChanged
                else resultThen (getConversation userId spaceId (cv_id prior) True False s) (\<lambda>found. Inr (found, s))
            | None \<Rightarrow>
                if length (filter (\<lambda>row. cv_spaceId row = spaceId) (ss_conversations s)) \<ge> 200
                then stateError ''Space conversation limit reached''
                else
                  let title = allocateTitle userId pageId requested None s;
                      row = \<lparr>cv_id = freshId, cv_spaceId = spaceId, cv_pageId = pageId, cv_title = title, cv_ownerId = userId,
                             cv_ownerName = ownerName, cv_agentId = agentId,
                             cv_sessionKey = conversationSessionPrefix agentId @ freshId, cv_requestId = requestId,
                             cv_createdAt = now\<rparr>
                  in resultThen (insertConversation row s) (\<lambda>s1.
                       let s2 = (if title \<noteq> requested then s1\<lparr>ss_titles := mapSet (ss_titles s1) freshId requested\<rparr> else s1)
                       in Inr ((row, True), auditSpace userId spaceId ''space.conversation.created''
                            [(''conversationId'', JStr freshId), (''pageId'', JStr pageId)] now s2))))"

definition createConversation ::
    "string \<Rightarrow> string \<Rightarrow> js_value \<Rightarrow> js_value \<Rightarrow> js_value \<Rightarrow> string \<Rightarrow> int \<Rightarrow> space_store
       \<Rightarrow> error + ((conversation_row \<times> bool) \<times> space_store)" where
  "createConversation userId spaceId pageId title requestId freshId now s =
     resultThen (spaceText pageId ''page id'' 128 False) (\<lambda>pageText.
     resultThen (spaceText title ''conversation title'' 240 False) (\<lambda>titleText.
     resultThen (spaceText requestId ''request id'' 128 False) (\<lambda>requestText.
       createConversationRows userId spaceId pageText titleText requestText freshId now s)))"

definition renameConversationRows ::
    "string \<Rightarrow> string \<Rightarrow> string \<Rightarrow> string \<Rightarrow> int \<Rightarrow> string \<Rightarrow> int \<Rightarrow> space_store
       \<Rightarrow> error + ((conversation_row \<times> bool) \<times> space_store)" where
  "renameConversationRows userId spaceId conversationId requested revision expectedTitle now s =
     resultThen (getConversation userId spaceId conversationId True False s) (\<lambda>(conversation, canWrite).
     resultThen (spaceAccess userId spaceId SpaceEditor s) (\<lambda>space.
       if sv_revision space \<noteq> revision \<or> cv_title conversation \<noteq> expectedTitle then spaceChanged
       else
         let title = allocateTitle userId (cv_pageId conversation) requested (Some conversationId) s
         in if title = cv_title conversation then Inr ((conversation, canWrite), s)
            else
              let s1 = (if mapHas (ss_titles s) conversationId then s
                        else s\<lparr>ss_titles := mapSet (ss_titles s) conversationId (cv_title conversation)\<rparr>);
                  s2 = s1\<lparr>ss_conversations := map (\<lambda>row. if cv_id row = conversationId then row\<lparr>cv_title := title\<rparr> else row)
                             (ss_conversations s1)\<rparr>
              in Inr ((conversation\<lparr>cv_title := title\<rparr>, canWrite), auditSpace userId spaceId ''space.conversation.renamed''
                   [(''conversationId'', JStr conversationId), (''pageId'', JStr (cv_pageId conversation))] now s2)))"

definition renameConversation ::
    "string \<Rightarrow> string \<Rightarrow> js_value \<Rightarrow> js_value \<Rightarrow> int \<Rightarrow> js_value \<Rightarrow> int \<Rightarrow> space_store
       \<Rightarrow> error + ((conversation_row \<times> bool) \<times> space_store)" where
  "renameConversation userId spaceId conversationId title revision expectedTitle now s =
     resultThen (spaceText expectedTitle ''expected title'' 240 False) (\<lambda>expectedText.
     resultThen (spaceText conversationId ''conversation id'' 128 False) (\<lambda>idText.
     resultThen (spaceText title ''conversation title'' 240 False) (\<lambda>titleText.
       renameConversationRows userId spaceId idText titleText revision expectedText now s)))"

end
