(* ===== verification/SpaceLifecycle.thy ===== *)
theory SpaceLifecycle
  imports SpaceStore
begin

text \<open>
  Leaving and deleting a space (\<open>space-lifecycle-service.ts\<close>): the store marks the space at once and the rows
  are removed only when the gateway has confirmed that every session of it is purged. The last section collects
  the calls on the spaces as steps, between which accounts and agents change.
\<close>

section \<open>The service\<close>

record purge =
  pu_spaceId :: string
  pu_userId :: string
  pu_sessions :: "(string \<times> string) list"

text \<open>The maps of the running purges and cancellations.\<close>

record lifecycle =
  lf_store :: space_store
  lf_deleting :: "purge list"
  lf_leaving :: "(string \<times> string \<times> int) list"

datatype delete_outcome = SpaceDeleted | PurgePending

definition startPurge :: "string \<Rightarrow> string \<Rightarrow> string \<Rightarrow> lifecycle \<Rightarrow> lifecycle" where
  "startPurge userId spaceId agentId l =
     (if list_ex (\<lambda>p. pu_spaceId p = spaceId) (lf_deleting l) then l
      else l\<lparr>lf_deleting := lf_deleting l @
        [\<lparr>pu_spaceId = spaceId, pu_userId = userId, pu_sessions = deletionSessions spaceId agentId (lf_store l)\<rparr>]\<rparr>)"

definition deleteCall :: "string \<Rightarrow> string \<Rightarrow> int \<Rightarrow> string \<Rightarrow> int \<Rightarrow> lifecycle \<Rightarrow> error + (delete_outcome \<times> lifecycle)" where
  "deleteCall userId spaceId revision confirmName now l =
     resultThen (beginDelete userId spaceId revision confirmName now (lf_store l)) (\<lambda>(deletion, s1).
       let l1 = l\<lparr>lf_store := s1\<rparr>
       in if dl_deleted deletion then Inr (SpaceDeleted, l1)
          else Inr (PurgePending, startPurge userId spaceId (dl_agentId deletion) l1))"

text \<open>The gateway's reply to \<open>sessions.delete\<close>; a request that fails has none.\<close>

definition purgeConfirmed :: "string \<Rightarrow> js_value \<Rightarrow> bool" where
  "purgeConfirmed sessionKey reply \<longleftrightarrow>
     memberOf reply ''ok'' = JBool True \<and> memberOf reply ''key'' = JStr sessionKey \<and> memberOf reply ''purged'' = JBool True
     \<and> memberOf reply ''purgeScope'' = JStr ''owned-session-data''"

definition allPurged :: "purge \<Rightarrow> (string \<Rightarrow> js_value option) \<Rightarrow> bool" where
  "allPurged p replies \<longleftrightarrow>
     list_all (\<lambda>session. case replies (snd session) of None \<Rightarrow> False | Some reply \<Rightarrow> purgeConfirmed (snd session) reply)
       (pu_sessions p)"

definition purgeSettled :: "string \<Rightarrow> (string \<Rightarrow> js_value option) \<Rightarrow> int \<Rightarrow> lifecycle \<Rightarrow> lifecycle" where
  "purgeSettled spaceId replies now l =
     (case List.find (\<lambda>p. pu_spaceId p = spaceId) (lf_deleting l) of
        None \<Rightarrow> l
      | Some p \<Rightarrow>
          let l1 = l\<lparr>lf_deleting := filter (\<lambda>q. pu_spaceId q \<noteq> spaceId) (lf_deleting l)\<rparr>
          in if allPurged p replies then l1\<lparr>lf_store := finishDelete (pu_userId p) spaceId now (lf_store l1)\<rparr> else l1)"

definition leaveCall :: "string \<Rightarrow> string \<Rightarrow> int \<Rightarrow> int \<Rightarrow> lifecycle \<Rightarrow> error + (departure \<times> lifecycle)" where
  "leaveCall userId spaceId revision now l =
     resultThen (leaveSpace userId spaceId revision now (lf_store l)) (\<lambda>(departure, s1).
       let l1 = l\<lparr>lf_store := s1\<rparr>; key = (spaceId, userId, revision)
       in if departure = Left \<or> key \<in> set (lf_leaving l1) then Inr (departure, l1)
          else Inr (departure, l1\<lparr>lf_leaving := lf_leaving l1 @ [key]\<rparr>))"

definition cancelSettled :: "string \<Rightarrow> string \<Rightarrow> int \<Rightarrow> bool \<Rightarrow> lifecycle \<Rightarrow> lifecycle" where
  "cancelSettled userId spaceId revision succeeded l =
     (let key = (spaceId, userId, revision)
      in if key \<notin> set (lf_leaving l) then l
         else
           let l1 = l\<lparr>lf_leaving := removeAll key (lf_leaving l)\<rparr>
           in if succeeded then l1\<lparr>lf_store := finishLeave userId spaceId revision (lf_store l1)\<rparr> else l1)"

section \<open>Calls\<close>

datatype space_call =
    CreateSpace string js_value js_value string int
  | SetMember string string string "string option" int int
  | LeaveSpace string string int int
  | CancelSettled string string int bool
  | DeleteSpace string string int string int
  | PurgeSettled string "string \<Rightarrow> js_value option" int
  | CreatePage string string "string option" js_value js_value js_value string int
  | SavePage string string string js_value js_value int int
  | BeginRun string string string string string int
  | FinishRun string "string option"
  | FailRun string
  | CreateConversation string string js_value js_value js_value string int
  | RenameConversation string string js_value js_value int js_value int
  | AddAccount account_row
  | SetAccountActive string bool
  | SetAgents "agent_row list"

definition onStore :: "(space_store \<Rightarrow> space_store) \<Rightarrow> lifecycle \<Rightarrow> lifecycle" where
  "onStore f l = l\<lparr>lf_store := f (lf_store l)\<rparr>"

definition addAccount :: "account_row \<Rightarrow> space_store \<Rightarrow> space_store" where
  "addAccount account s =
     (if list_ex (\<lambda>row. ac_id row = ac_id account) (ss_accounts s) then s
      else s\<lparr>ss_accounts := ss_accounts s @ [account]\<rparr>)"

definition setAccountActive :: "string \<Rightarrow> bool \<Rightarrow> space_store \<Rightarrow> space_store" where
  "setAccountActive userId active s =
     s\<lparr>ss_accounts := map (\<lambda>row. if ac_id row = userId then row\<lparr>ac_active := active\<rparr> else row) (ss_accounts s)\<rparr>"

fun spaceStep :: "(string \<Rightarrow> string) \<Rightarrow> space_call \<Rightarrow> lifecycle \<Rightarrow> lifecycle" where
  "spaceStep sha256 (CreateSpace userId name requestId freshId now) l =
     onStore (\<lambda>s. snd (inTransaction (createSpace userId name requestId freshId now) s)) l"
| "spaceStep sha256 (SetMember userId spaceId memberId role revision now) l =
     onStore (\<lambda>s. snd (inTransaction (setMember userId spaceId memberId role revision now) s)) l"
| "spaceStep sha256 (LeaveSpace userId spaceId revision now) l = snd (inTransaction (leaveCall userId spaceId revision now) l)"
| "spaceStep sha256 (CancelSettled userId spaceId revision succeeded) l = cancelSettled userId spaceId revision succeeded l"
| "spaceStep sha256 (DeleteSpace userId spaceId revision confirmName now) l =
     snd (inTransaction (deleteCall userId spaceId revision confirmName now) l)"
| "spaceStep sha256 (PurgeSettled spaceId replies now) l = purgeSettled spaceId replies now l"
| "spaceStep sha256 (CreatePage userId spaceId parentId title body requestId freshId now) l =
     onStore (\<lambda>s. snd (inTransaction (createPage userId spaceId parentId title body requestId freshId now) s)) l"
| "spaceStep sha256 (SavePage userId spaceId pageId title body revision now) l =
     onStore (\<lambda>s. snd (inTransaction (savePage userId spaceId pageId title body revision now) s)) l"
| "spaceStep sha256 (BeginRun userId spaceId pageId runId message now) l =
     onStore (\<lambda>s. snd (inTransaction (beginRun sha256 userId spaceId pageId runId message now) s)) l"
| "spaceStep sha256 (FinishRun runId pageId) l = onStore (finishRun runId pageId) l"
| "spaceStep sha256 (FailRun runId) l = onStore (failRun runId) l"
| "spaceStep sha256 (CreateConversation userId spaceId pageId title requestId freshId now) l =
     onStore (\<lambda>s. snd (inTransaction (createConversation userId spaceId pageId title requestId freshId now) s)) l"
| "spaceStep sha256 (RenameConversation userId spaceId conversationId title revision expectedTitle now) l =
     onStore (\<lambda>s. snd (inTransaction (renameConversation userId spaceId conversationId title revision expectedTitle now) s)) l"
| "spaceStep sha256 (AddAccount account) l = onStore (addAccount account) l"
| "spaceStep sha256 (SetAccountActive userId active) l = onStore (setAccountActive userId active) l"
| "spaceStep sha256 (SetAgents agents) l = onStore (\<lambda>s. s\<lparr>ss_agents := agents\<rparr>) l"

definition noSpaces :: lifecycle where
  "noSpaces = \<lparr>lf_store = \<lparr>ss_accounts = [], ss_agents = [], ss_spaces = [], ss_members = [], ss_pages = [], ss_runs = [],
     ss_deletions = [], ss_departures = [], ss_conversations = [], ss_titles = [], ss_audit = []\<rparr>,
     lf_deleting = [], lf_leaving = []\<rparr>"

definition spaceRun :: "(string \<Rightarrow> string) \<Rightarrow> space_call list \<Rightarrow> lifecycle \<Rightarrow> lifecycle" where
  "spaceRun sha256 calls l = foldl (\<lambda>state call. spaceStep sha256 call state) l calls"

lemma spaceRun_simps [simp]:
  "spaceRun sha256 [] l = l" "spaceRun sha256 (call # calls) l = spaceRun sha256 calls (spaceStep sha256 call l)"
  by (simp_all add: spaceRun_def)

lemma spaceRun_keeps:
  assumes "\<And>call l. P l \<Longrightarrow> P (spaceStep sha256 call l)"
  shows "P l \<Longrightarrow> P (spaceRun sha256 calls l)"
  by (induction calls arbitrary: l) (simp_all add: assms)

end
