(* ===== verification/SpaceTables.thy ===== *)
theory SpaceTables
  imports SpaceLifecycle
begin

text \<open>
  The tables of the spaces stay well-formed: what refers to a row finds it in the same space, keys are unique,
  pages are nested at most 20 deep, the titles of an owner's conversations on a page differ, and a run is active
  only for a member who may write.
\<close>

section \<open>What the tables satisfy\<close>

type_synonym page_key = "string \<times> string \<times> string option"

definition pageKey :: "page_row \<Rightarrow> page_key" where
  "pageKey page = (pg_id page, pg_spaceId page, pg_parentId page)"

text \<open>At most \<open>n\<close> pages from here to a page without parent.\<close>

fun within :: "nat \<Rightarrow> page_key set \<Rightarrow> string \<Rightarrow> string option \<Rightarrow> bool" where
  "within 0 keys spaceId parent = False"
| "within (Suc n) keys spaceId parent =
     (parent = None \<or> parent = Some [] \<or> (\<exists>above. (the parent, spaceId, above) \<in> keys \<and> within n keys spaceId above))"

lemma within_mono: "within n keys spaceId parent \<Longrightarrow> keys \<inter> {key. fst (snd key) = spaceId} \<subseteq> keys' \<Longrightarrow> within n keys' spaceId parent"
  by (induction n arbitrary: parent) fastforce+

lemma within_Suc: "within n keys spaceId parent \<Longrightarrow> within (Suc n) keys spaceId parent"
proof (induction n arbitrary: parent)
  case (Suc n)
  then show ?case using within.simps(2) [of "Suc n"] within.simps(2) [of n] by metis
qed simp

lemma within_le: "within n keys spaceId parent \<Longrightarrow> n \<le> m \<Longrightarrow> within m keys spaceId parent"
  by (induction m) (auto simp: le_Suc_eq intro: within_Suc simp del: within.simps(2))

definition membersFit :: "string set \<Rightarrow> string set \<Rightarrow> member_row list \<Rightarrow> bool" where
  "membersFit spaces accounts members \<longleftrightarrow>
     distinct (map (\<lambda>row. (mr_spaceId row, mr_userId row)) members)
     \<and> (\<forall>row \<in> set members. mr_spaceId row \<in> spaces \<and> mr_userId row \<in> accounts)"

definition pagesFit :: "string set \<Rightarrow> page_key list \<Rightarrow> bool" where
  "pagesFit spaces keys \<longleftrightarrow>
     distinct (map fst keys)
     \<and> (\<forall>(pageId, spaceId, parent) \<in> set keys. spaceId \<in> spaces \<and> within NESTING_LIMIT (set keys) spaceId parent)"

definition onPage :: "page_key set \<Rightarrow> string \<Rightarrow> string \<Rightarrow> bool" where
  "onPage keys spaceId pageId \<longleftrightarrow> (\<exists>parent. (pageId, spaceId, parent) \<in> keys)"

definition mayWrite :: "member_row set \<Rightarrow> string \<Rightarrow> string \<Rightarrow> bool" where
  "mayWrite members spaceId userId \<longleftrightarrow>
     (\<exists>row \<in> members. mr_spaceId row = spaceId \<and> mr_userId row = userId \<and> mr_role row \<noteq> SpaceViewer)"

definition runsFit :: "page_key set \<Rightarrow> member_row set \<Rightarrow> string set \<Rightarrow> run_row list \<Rightarrow> bool" where
  "runsFit keys members deleted runs \<longleftrightarrow>
     distinct (map rn_runId runs)
     \<and> (\<forall>run \<in> set runs. onPage keys (rn_spaceId run) (rn_pageId run)
          \<and> (rn_state run = RunActive \<longrightarrow> rn_spaceId run \<notin> deleted \<and> mayWrite members (rn_spaceId run) (rn_userId run)))"

definition conversationsFit :: "page_key set \<Rightarrow> conversation_row list \<Rightarrow> bool" where
  "conversationsFit keys conversations \<longleftrightarrow>
     distinct (map cv_id conversations)
     \<and> distinct (map (\<lambda>row. (cv_ownerId row, cv_pageId row, cv_title row)) conversations)
     \<and> (\<forall>row \<in> set conversations. onPage keys (cv_spaceId row) (cv_pageId row) \<and> length (cv_title row) \<le> 240)
     \<and> (\<forall>spaceId. length (filter (\<lambda>row. cv_spaceId row = spaceId) conversations) \<le> 200)"

definition spaceIds :: "space_store \<Rightarrow> string set" where
  "spaceIds s = sr_id ` set (ss_spaces s)"

definition deletedIds :: "space_store \<Rightarrow> string set" where
  "deletedIds s = dl_spaceId ` set (ss_deletions s)"

definition pageKeys :: "space_store \<Rightarrow> page_key list" where
  "pageKeys s = map pageKey (ss_pages s)"

definition tablesOk :: "space_store \<Rightarrow> bool" where
  "tablesOk s \<longleftrightarrow>
     distinct (map ac_id (ss_accounts s)) \<and> distinct (map sr_id (ss_spaces s))
     \<and> membersFit (spaceIds s) (ac_id ` set (ss_accounts s)) (ss_members s)
     \<and> pagesFit (spaceIds s) (pageKeys s)
     \<and> runsFit (set (pageKeys s)) (set (ss_members s)) (deletedIds s) (ss_runs s)
     \<and> conversationsFit (set (pageKeys s)) (ss_conversations s)"

lemma membersFit_mono: "membersFit spaces accounts members \<Longrightarrow> spaces \<subseteq> spaces' \<Longrightarrow> accounts \<subseteq> accounts' \<Longrightarrow> membersFit spaces' accounts' members"
  unfolding membersFit_def by blast

lemma pagesFit_mono: "pagesFit spaces keys \<Longrightarrow> spaces \<subseteq> spaces' \<Longrightarrow> pagesFit spaces' keys"
  unfolding pagesFit_def by blast

lemma onPage_mono: "onPage keys spaceId pageId \<Longrightarrow> keys \<subseteq> keys' \<Longrightarrow> onPage keys' spaceId pageId"
  unfolding onPage_def by blast

lemma runsFit_pages: "runsFit keys members deleted runs \<Longrightarrow> keys \<subseteq> keys' \<Longrightarrow> runsFit keys' members deleted runs"
  unfolding runsFit_def using onPage_mono by blast

lemma runsFit_members: "runsFit keys members deleted runs \<Longrightarrow> members \<subseteq> members' \<Longrightarrow> runsFit keys members' deleted runs"
  unfolding runsFit_def mayWrite_def by blast

lemma conversationsFit_pages: "conversationsFit keys rows \<Longrightarrow> keys \<subseteq> keys' \<Longrightarrow> conversationsFit keys' rows"
  unfolding conversationsFit_def using onPage_mono by blast

section \<open>Access\<close>

lemma spaceAccess_ok [ok_iff]:
  "spaceAccess userId spaceId minimum s = Inr view \<longleftrightarrow>
     isActiveAccount userId s \<and> \<not> deleting spaceId s
     \<and> (\<exists>space member. findSpace spaceId s = Some space \<and> findMember spaceId userId s = Some member
          \<and> rank minimum \<le> rank (mr_role member)
          \<and> view = \<lparr>sv_id = sr_id space, sv_name = sr_name space, sv_agentId = sr_agentId space,
                     sv_revision = sr_revision space, sv_role = mr_role member\<rparr>)"
  by (auto simp: spaceAccess_def activeUser_def spaceUnavailable_def split: option.splits)

lemma activeUser_ok [ok_iff]: "activeUser userId s = Inr u \<longleftrightarrow> isActiveAccount userId s"
  by (simp add: activeUser_def spaceUnavailable_def)

lemma failed_ok [ok_iff, simp]:
  "spaceUnavailable \<noteq> Inr y" "spaceChanged \<noteq> Inr y" "stateError message \<noteq> Inr y" "constraintFailed \<noteq> Inr y"
  "conversationUnavailable \<noteq> Inr y"
  by (simp_all add: spaceUnavailable_def spaceChanged_def stateError_def constraintFailed_def conversationUnavailable_def)

lemma spacePage_ok [ok_iff]:
  "spacePage userId spaceId pageId role s = Inr page \<longleftrightarrow>
     (\<exists>view. spaceAccess userId spaceId role s = Inr view)
     \<and> List.find (\<lambda>page. pg_id page = pageId \<and> pg_spaceId page = spaceId) (ss_pages s) = Some page"
  by (cases "List.find (\<lambda>page. pg_id page = pageId \<and> pg_spaceId page = spaceId) (ss_pages s)")
    (simp_all add: spacePage_def resultThen_ok)

lemma spacePage_key:
  "spacePage userId spaceId pageId role s = Inr page \<Longrightarrow>
     page \<in> set (ss_pages s) \<and> pg_id page = pageId \<and> pg_spaceId page = spaceId
     \<and> (pageId, spaceId, pg_parentId page) \<in> set (pageKeys s)"
  unfolding spacePage_ok pageKeys_def using find_in_set [of _ "ss_pages s" page] by (force simp: pageKey_def)

lemma rank_editor: "rank SpaceEditor \<le> rank role \<longleftrightarrow> role \<noteq> SpaceViewer"
  by (cases role) simp_all

lemma rank_owner: "rank SpaceOwner \<le> rank role \<longleftrightarrow> role = SpaceOwner"
  by (cases role) simp_all

lemma findMember_in: "findMember spaceId userId s = Some row \<Longrightarrow> row \<in> set (ss_members s) \<and> mr_spaceId row = spaceId \<and> mr_userId row = userId"
  unfolding findMember_def by (drule find_in_set)

lemma findSpace_in: "findSpace spaceId s = Some row \<Longrightarrow> row \<in> set (ss_spaces s) \<and> sr_id row = spaceId"
  unfolding findSpace_def by (drule find_in_set)

lemma isActiveAccount_in: "isActiveAccount userId s \<Longrightarrow> userId \<in> ac_id ` set (ss_accounts s)"
  by (auto simp: isActiveAccount_def list_ex_iff)

lemma deleting_iff: "deleting spaceId s \<longleftrightarrow> spaceId \<in> deletedIds s"
  by (auto simp: deleting_def deletedIds_def list_ex_iff)

lemma editor_mayWrite:
  assumes "spaceAccess userId spaceId SpaceEditor s = Inr view"
  shows "spaceId \<notin> deletedIds s \<and> mayWrite (set (ss_members s)) spaceId userId \<and> spaceId \<in> spaceIds s"
  using assms findMember_in findSpace_in
  unfolding spaceAccess_ok rank_editor deleting_iff mayWrite_def spaceIds_def by (metis image_eqI)

section \<open>Moves on the tables\<close>

lemma audit_fields [simp]:
  "ss_accounts (auditSpace u sp e d n s) = ss_accounts s" "ss_agents (auditSpace u sp e d n s) = ss_agents s"
  "ss_spaces (auditSpace u sp e d n s) = ss_spaces s" "ss_members (auditSpace u sp e d n s) = ss_members s"
  "ss_pages (auditSpace u sp e d n s) = ss_pages s" "ss_runs (auditSpace u sp e d n s) = ss_runs s"
  "ss_deletions (auditSpace u sp e d n s) = ss_deletions s" "ss_departures (auditSpace u sp e d n s) = ss_departures s"
  "ss_conversations (auditSpace u sp e d n s) = ss_conversations s" "ss_titles (auditSpace u sp e d n s) = ss_titles s"
  by (simp_all add: auditSpace_def)

lemma tablesOk_audit [simp]: "tablesOk (auditSpace u sp e d n s) = tablesOk s"
  by (simp add: tablesOk_def spaceIds_def pageKeys_def deletedIds_def)

lemma tablesOk_unrelated [simp]:
  "tablesOk (s\<lparr>ss_departures := x\<rparr>) = tablesOk s" "tablesOk (s\<lparr>ss_titles := y\<rparr>) = tablesOk s"
  "tablesOk (s\<lparr>ss_agents := z\<rparr>) = tablesOk s"
  by (simp_all add: tablesOk_def spaceIds_def pageKeys_def deletedIds_def)

lemma setRevision_ids: "map sr_id (ss_spaces (setRevision spaceId revision s)) = map sr_id (ss_spaces s)"
  by (simp add: setRevision_def)

lemma tablesOk_setRevision [simp]: "tablesOk (setRevision spaceId revision s) = tablesOk s"
proof -
  have "spaceIds (setRevision spaceId revision s) = spaceIds s"
    by (metis setRevision_ids spaceIds_def list.set_map)
  then show ?thesis unfolding tablesOk_def setRevision_ids by (simp add: setRevision_def pageKeys_def deletedIds_def)
qed

text \<open>Runs keep their keys; none becomes active.\<close>

lemma runsFit_map:
  assumes "runsFit keys members deleted runs" "\<And>run. rn_runId (f run) = rn_runId run"
    and "\<And>run. rn_spaceId (f run) = rn_spaceId run \<and> rn_pageId (f run) = rn_pageId run \<and> rn_userId (f run) = rn_userId run"
    and "\<And>run. run \<in> set runs \<Longrightarrow> rn_state (f run) = RunActive \<Longrightarrow>
       rn_spaceId run \<notin> deleted' \<and> mayWrite members' (rn_spaceId run) (rn_userId run)"
  shows "runsFit keys members' deleted' (map f runs)"
  using assms by (auto simp: runsFit_def comp_def)

lemma tablesOk_runs: "tablesOk s \<Longrightarrow> runsFit (set (pageKeys s)) (set (ss_members s)) (deletedIds s) runs \<Longrightarrow> tablesOk (s\<lparr>ss_runs := runs\<rparr>)"
  by (simp add: tablesOk_def spaceIds_def pageKeys_def deletedIds_def)

lemma runs_active: "tablesOk s \<Longrightarrow> run \<in> set (ss_runs s) \<Longrightarrow> rn_state run = RunActive \<Longrightarrow>
    rn_spaceId run \<notin> deletedIds s \<and> mayWrite (set (ss_members s)) (rn_spaceId run) (rn_userId run)"
  by (simp add: tablesOk_def runsFit_def)

text \<open>A change of the members, with the runs of those who may no longer write revoked.\<close>

lemma tablesOk_members:
  assumes ok: "tablesOk s" and fit: "membersFit (spaceIds s) (ac_id ` set (ss_accounts s)) members"
    and keep: "\<And>run. run \<in> set (ss_runs s) \<Longrightarrow> rn_state run = RunActive \<Longrightarrow> \<not> chosen run \<Longrightarrow>
       mayWrite (set (ss_members s)) (rn_spaceId run) (rn_userId run) \<Longrightarrow> mayWrite (set members) (rn_spaceId run) (rn_userId run)"
  shows "tablesOk (revokeRuns chosen (s\<lparr>ss_members := members\<rparr>))"
proof -
  have "runsFit (set (pageKeys s)) (set (ss_members s)) (deletedIds s) (ss_runs s)" using ok by (simp add: tablesOk_def)
  then have "runsFit (set (pageKeys s)) (set members) (deletedIds s)
      (map (\<lambda>run. if rn_state run = RunActive \<and> chosen run then run\<lparr>rn_state := RunRevoked\<rparr> else run) (ss_runs s))"
    by (rule runsFit_map) (use runs_active [OF ok] keep in \<open>auto split: if_splits\<close>)
  then show ?thesis
    using ok fit by (simp add: tablesOk_def revokeRuns_def spaceIds_def pageKeys_def deletedIds_def)
qed

lemma revokeRuns_none: "revokeRuns (\<lambda>_. False) s = s"
  by (simp add: revokeRuns_def)

lemma revokeRuns_setRevision: "revokeRuns chosen (setRevision spaceId revision s) = setRevision spaceId revision (revokeRuns chosen s)"
  by (simp add: revokeRuns_def setRevision_def)

lemma tablesOk_deletion:
  assumes ok: "tablesOk s"
  shows "tablesOk (revokeRuns (\<lambda>run. rn_spaceId run = dl_spaceId row) (s\<lparr>ss_deletions := ss_deletions s @ [row]\<rparr>))"
proof -
  have "runsFit (set (pageKeys s)) (set (ss_members s)) (deletedIds s) (ss_runs s)" using ok by (simp add: tablesOk_def)
  then have "runsFit (set (pageKeys s)) (set (ss_members s)) (insert (dl_spaceId row) (deletedIds s))
      (map (\<lambda>run. if rn_state run = RunActive \<and> rn_spaceId run = dl_spaceId row then run\<lparr>rn_state := RunRevoked\<rparr> else run) (ss_runs s))"
    by (rule runsFit_map) (use runs_active [OF ok] in \<open>auto split: if_splits\<close>)
  then show ?thesis
    using ok by (simp add: tablesOk_def revokeRuns_def spaceIds_def pageKeys_def deletedIds_def)
qed

text \<open>Everything of a space goes at once.\<close>

lemma onPage_other: "onPage keys spaceId pageId \<Longrightarrow> spaceId \<noteq> gone \<Longrightarrow> onPage {key \<in> keys. fst (snd key) \<noteq> gone} spaceId pageId"
  by (auto simp: onPage_def)

lemma mayWrite_other: "mayWrite members spaceId userId \<Longrightarrow> spaceId \<noteq> gone \<Longrightarrow> mayWrite {row \<in> members. mr_spaceId row \<noteq> gone} spaceId userId"
  by (auto simp: mayWrite_def)

lemma within_other: "within n keys spaceId parent \<Longrightarrow> spaceId \<noteq> gone \<Longrightarrow> within n {key \<in> keys. fst (snd key) \<noteq> gone} spaceId parent"
  by (rule within_mono) auto

lemma pageKeys_deleted: "pageKeys (deleteSpaceRows gone s) = filter (\<lambda>key. fst (snd key) \<noteq> gone) (pageKeys s)"
  by (simp add: pageKeys_def deleteSpaceRows_def Let_def filter_map comp_def pageKey_def)

lemma length_filter_twice: "length (filter P (filter Q xs)) \<le> length (filter P xs)"
  by (induction xs) auto

lemma tablesOk_deleteSpaceRows:
  assumes ok: "tablesOk s"
  shows "tablesOk (deleteSpaceRows gone s)"
proof -
  let ?s = "deleteSpaceRows gone s"
  have m: "membersFit (spaceIds ?s) (ac_id ` set (ss_accounts ?s)) (ss_members ?s)"
    using ok by (auto simp: tablesOk_def membersFit_def deleteSpaceRows_def Let_def spaceIds_def distinct_map_filter)
  have p: "pagesFit (spaceIds ?s) (pageKeys ?s)"
    using ok unfolding pagesFit_def pageKeys_deleted
    by (auto simp: tablesOk_def pagesFit_def deleteSpaceRows_def Let_def spaceIds_def distinct_map_filter intro: within_other)
  have r: "runsFit (set (pageKeys ?s)) (set (ss_members ?s)) (deletedIds ?s) (ss_runs ?s)"
    using ok unfolding pageKeys_deleted
    by (auto simp: tablesOk_def runsFit_def deleteSpaceRows_def Let_def deletedIds_def distinct_map_filter
        intro: onPage_other mayWrite_other)
  have c: "conversationsFit (set (pageKeys ?s)) (ss_conversations ?s)"
  proof -
    have "length (filter (\<lambda>row. cv_spaceId row = spaceId) (filter (\<lambda>row. cv_spaceId row \<noteq> gone) (ss_conversations s))) \<le> 200" for spaceId
      using ok length_filter_twice unfolding tablesOk_def conversationsFit_def by (meson le_trans)
    then show ?thesis
      using ok unfolding pageKeys_deleted
      by (auto simp: tablesOk_def conversationsFit_def deleteSpaceRows_def Let_def distinct_map_filter intro: onPage_other)
  qed
  show ?thesis
    using ok m p r c unfolding tablesOk_def by (simp add: deleteSpaceRows_def Let_def distinct_map_filter)
qed

section \<open>Operations on spaces and members\<close>

lemma createSpaceRows_Inr:
  assumes "createSpaceRows userId name requestId freshId now s = Inr (view, s')"
  shows "s' = s \<or> isActiveAccount userId s \<and> freshId \<notin> spaceIds s \<and> findMember freshId userId s = None
    \<and> (\<exists>space. sr_id space = freshId \<and> sr_creatorId space = userId
         \<and> s' = auditSpace userId freshId ''space.created'' [] now (s\<lparr>ss_spaces := ss_spaces s @ [space],
                  ss_members := ss_members s @ [\<lparr>mr_spaceId = freshId, mr_userId = userId, mr_role = SpaceOwner\<rparr>]\<rparr>))"
proof (cases "List.find (\<lambda>row. sr_creatorId row = userId \<and> sr_requestId row = requestId) (ss_spaces s)")
  case None
  let ?space = "\<lparr>sr_id = freshId, sr_name = name, sr_agentId = ''space-'' @ freshId, sr_creatorId = userId,
    sr_requestId = requestId, sr_revision = 1, sr_createdAt = now\<rparr>"
  obtain s1 s2 where s1: "insertSpace ?space s = Inr s1"
      and s2: "insertMember \<lparr>mr_spaceId = freshId, mr_userId = userId, mr_role = SpaceOwner\<rparr> s1 = Inr s2"
      and s': "s' = auditSpace userId freshId ''space.created'' [] now s2" and active: "isActiveAccount userId s"
    using assms None by (auto simp: createSpaceRows_def ok_iff Let_def simp del: spaceAccess_ok split: if_splits)
  have "freshId \<notin> spaceIds s" "s1 = s\<lparr>ss_spaces := ss_spaces s @ [?space]\<rparr>"
    using s1 by (auto simp: insertSpace_def spaceIds_def list_ex_iff split: if_splits)
  moreover have "findMember freshId userId s1 = None"
      "s2 = s1\<lparr>ss_members := ss_members s1 @ [\<lparr>mr_spaceId = freshId, mr_userId = userId, mr_role = SpaceOwner\<rparr>]\<rparr>"
    using s2 by (auto simp: insertMember_def split: if_splits)
  ultimately show ?thesis using active unfolding s' by (auto simp: findMember_def intro!: exI [of _ ?space])
next
  case (Some prior)
  then show ?thesis using assms by (auto simp: createSpaceRows_def ok_iff simp del: spaceAccess_ok split: if_splits)
qed

lemma createSpace_Inr:
  "createSpace userId name requestId freshId now s = Inr (view, s') \<Longrightarrow>
     \<exists>nameText requestText. createSpaceRows userId nameText requestText freshId now s = Inr (view, s')"
  by (auto simp: createSpace_def ok_iff)

lemma createSpace_tables:
  assumes "createSpace userId name requestId freshId now s = Inr (view, s')" "tablesOk s"
  shows "tablesOk s'"
proof -
  obtain nameText requestText where "createSpaceRows userId nameText requestText freshId now s = Inr (view, s')"
    using createSpace_Inr [OF assms(1)] by blast
  from createSpaceRows_Inr [OF this] show ?thesis
  proof (elim disjE exE conjE)
    fix space
    assume new: "isActiveAccount userId s" "freshId \<notin> spaceIds s" "sr_id space = freshId"
      and s': "s' = auditSpace userId freshId ''space.created'' [] now (s\<lparr>ss_spaces := ss_spaces s @ [space],
                  ss_members := ss_members s @ [\<lparr>mr_spaceId = freshId, mr_userId = userId, mr_role = SpaceOwner\<rparr>]\<rparr>)"
    have ids: "spaceIds (s\<lparr>ss_spaces := ss_spaces s @ [space], ss_members := m\<rparr>) = insert freshId (spaceIds s)" for m
      by (simp add: spaceIds_def new(3))
    have "membersFit (insert freshId (spaceIds s)) (ac_id ` set (ss_accounts s))
        (ss_members s @ [\<lparr>mr_spaceId = freshId, mr_userId = userId, mr_role = SpaceOwner\<rparr>])"
      using assms(2) new(2) isActiveAccount_in [OF new(1)] by (auto simp: tablesOk_def membersFit_def)
    moreover have "pagesFit (insert freshId (spaceIds s)) (pageKeys s)"
      by (rule pagesFit_mono [of "spaceIds s"]) (use assms(2) in \<open>auto simp: tablesOk_def\<close>)
    moreover have "runsFit (set (pageKeys s)) (insert m (set (ss_members s))) (deletedIds s) (ss_runs s)" for m
      by (rule runsFit_members [of _ "set (ss_members s)"]) (use assms(2) in \<open>auto simp: tablesOk_def\<close>)
    ultimately show ?thesis
      using assms(2) new(2, 3) unfolding s' tablesOk_audit
      by (simp add: tablesOk_def ids pageKeys_def deletedIds_def) (simp add: spaceIds_def)
  qed (use assms(2) in simp)
qed

lemma setMemberRows_Inr:
  assumes "setMemberRows userId spaceId memberId role revision now s = Inr (u, s')"
  shows "\<exists>view members. spaceAccess userId spaceId SpaceOwner s = Inr view \<and> sv_revision view = revision
    \<and> (role \<noteq> None \<longrightarrow> isActiveAccount memberId s) \<and> spaceMembers userId spaceId s = Inr members
    \<and> (role \<noteq> Some SpaceOwner \<longrightarrow> \<not> leavesNoOwner members memberId)
    \<and> (role \<noteq> None \<longrightarrow> list_ex (\<lambda>member. mv_userId member = memberId) members \<or> length members < MEMBER_LIMIT)
    \<and> \<not> isLeaving spaceId memberId s
    \<and> s' = afterMemberChange userId spaceId memberId role revision now (changeMember spaceId memberId role s)"
  using assms unfolding setMemberRows_def
  by (auto simp: resultThen_ok activeUser_ok not_le split: if_splits)

lemma setMember_Inr:
  "setMember userId spaceId memberId role revision now s = Inr (u, s') \<Longrightarrow>
     \<exists>parsed. setMemberRows userId spaceId memberId parsed revision now s = Inr (u, s') \<and> parseRole role = Inr parsed"
  by (auto simp: setMember_def resultThen_ok)

lemma membersFit_upsert:
  assumes fit: "membersFit spaces accounts (ss_members s)" and "spaceId \<in> spaces" "memberId \<in> accounts"
  shows "membersFit spaces accounts (ss_members (upsertMember spaceId memberId role s))"
proof (cases "findMember spaceId memberId s")
  case None
  then have "(spaceId, memberId) \<notin> (\<lambda>row. (mr_spaceId row, mr_userId row)) ` set (ss_members s)"
    by (auto simp: findMember_def find_None_iff)
  then show ?thesis using None assms by (simp add: upsertMember_def membersFit_def)
next
  case (Some row)
  have "map (\<lambda>row. (mr_spaceId row, mr_userId row)) (ss_members (upsertMember spaceId memberId role s))
      = map (\<lambda>row. (mr_spaceId row, mr_userId row)) (ss_members s)"
    using Some by (simp add: upsertMember_def)
  moreover have "mr_spaceId row \<in> spaces \<and> mr_userId row \<in> accounts"
    if "row \<in> set (ss_members (upsertMember spaceId memberId role s))" for row
    using that Some fit assms(2, 3) by (auto simp: upsertMember_def membersFit_def split: if_splits)
  ultimately show ?thesis using fit unfolding membersFit_def by simp
qed

lemma membersFit_delete: "membersFit spaces accounts (ss_members s) \<Longrightarrow> membersFit spaces accounts (ss_members (deleteMember spaceId userId s))"
  by (simp add: membersFit_def deleteMember_def distinct_map_filter)

lemma upsert_frame: "upsertMember spaceId userId role s = s\<lparr>ss_members := ss_members (upsertMember spaceId userId role s)\<rparr>"
  by (simp add: upsertMember_def)

lemma delete_frame: "deleteMember spaceId userId s = s\<lparr>ss_members := ss_members (deleteMember spaceId userId s)\<rparr>"
  by (simp add: deleteMember_def)

lemma change_frame: "changeMember spaceId userId role s = s\<lparr>ss_members := ss_members (changeMember spaceId userId role s)\<rparr>"
  by (simp add: changeMember_def upsert_frame [symmetric] delete_frame [symmetric] split: option.split)

lemma mayWrite_change:
  assumes "mayWrite (set (ss_members s)) spaceId' userId'"
    and "role \<noteq> None \<and> role \<noteq> Some SpaceViewer \<or> \<not> (spaceId' = spaceId \<and> userId' = memberId)"
  shows "mayWrite (set (ss_members (changeMember spaceId memberId role s))) spaceId' userId'"
proof -
  obtain row where row: "row \<in> set (ss_members s)" "mr_spaceId row = spaceId'" "mr_userId row = userId'" "mr_role row \<noteq> SpaceViewer"
    using assms(1) by (auto simp: mayWrite_def)
  show ?thesis
  proof (cases "spaceId' = spaceId \<and> userId' = memberId")
    case True
    then obtain r where r: "role = Some r" "r \<noteq> SpaceViewer" using assms(2) by (cases role) auto
    have "findMember spaceId memberId s \<noteq> None" using row True by (auto simp: findMember_def find_None_iff)
    then have "row\<lparr>mr_role := r\<rparr> \<in> set (ss_members (changeMember spaceId memberId role s))"
      using row True r by (auto simp: changeMember_def upsertMember_def)
    then show ?thesis using row r(2) unfolding mayWrite_def by (intro bexI [of _ "row\<lparr>mr_role := r\<rparr>"]) simp_all
  next
    case False
    then have "row \<in> set (ss_members (changeMember spaceId memberId role s))"
      using row by (auto simp: changeMember_def upsertMember_def deleteMember_def split: option.split)
    then show ?thesis using row unfolding mayWrite_def by blast
  qed
qed

lemma membersFit_change:
  assumes "tablesOk s" "spaceId \<in> spaceIds s" "role \<noteq> None \<longrightarrow> isActiveAccount memberId s"
  shows "membersFit (spaceIds s) (ac_id ` set (ss_accounts s)) (ss_members (changeMember spaceId memberId role s))"
  using assms isActiveAccount_in [of memberId s] membersFit_delete membersFit_upsert
  by (cases role) (simp_all add: changeMember_def tablesOk_def)

lemma setMember_tables:
  assumes "setMember userId spaceId memberId role revision now s = Inr (u, s')" "tablesOk s"
  shows "tablesOk s'"
proof -
  obtain parsed where rows: "setMemberRows userId spaceId memberId parsed revision now s = Inr (u, s')"
    using setMember_Inr [OF assms(1)] by blast
  obtain view where a: "spaceAccess userId spaceId SpaceOwner s = Inr view" "parsed \<noteq> None \<longrightarrow> isActiveAccount memberId s"
    and s': "s' = afterMemberChange userId spaceId memberId parsed revision now (changeMember spaceId memberId parsed s)"
    using setMemberRows_Inr [OF rows] by blast
  have "spaceId \<in> spaceIds s" using a(1) findSpace_in unfolding spaceAccess_ok spaceIds_def by (metis image_eqI)
  then have fit: "membersFit (spaceIds s) (ac_id ` set (ss_accounts s)) (ss_members (changeMember spaceId memberId parsed s))"
    using membersFit_change [OF assms(2)] a(2) by blast
  define chosen where "chosen = (\<lambda>run :: run_row. (parsed = None \<or> parsed = Some SpaceViewer) \<and> rn_spaceId run = spaceId \<and> rn_userId run = memberId)"
  have "tablesOk (revokeRuns chosen (s\<lparr>ss_members := ss_members (changeMember spaceId memberId parsed s)\<rparr>))"
    by (rule tablesOk_members [OF assms(2) fit]) (auto simp: chosen_def intro: mayWrite_change)
  then have ok: "tablesOk (revokeRuns chosen (changeMember spaceId memberId parsed s))" using change_frame by metis
  show ?thesis
  proof (cases "parsed = None \<or> parsed = Some SpaceViewer")
    case True
    then have "chosen = (\<lambda>run. rn_spaceId run = spaceId \<and> rn_userId run = memberId)" by (simp add: chosen_def)
    then show ?thesis using ok True by (simp add: s' afterMemberChange_def Let_def revokeRuns_setRevision)
  next
    case False
    then have "chosen = (\<lambda>_. False)" by (auto simp: chosen_def)
    then show ?thesis using ok False by (auto simp: s' afterMemberChange_def Let_def revokeRuns_none)
  qed
qed

section \<open>Leaving and deletion\<close>

lemma leaveSpace_Inr:
  assumes "leaveSpace userId spaceId revision now s = Inr (outcome, s')"
  shows "s' = s \<or> (\<exists>view members. spaceAccess userId spaceId SpaceViewer s = Inr view \<and> sv_revision view = revision
    \<and> spaceMembers userId spaceId s = Inr members \<and> (sv_role view = SpaceOwner \<longrightarrow> length (ownersOf members) \<noteq> 1)
    \<and> s' = departMember userId spaceId revision now s)"
  using assms unfolding leaveSpace_def
  by (cases "departureReplay userId spaceId revision s") (auto simp: resultThen_ok simp del: spaceAccess_ok split: if_splits)

lemma departMember_tables:
  assumes "tablesOk s"
  shows "tablesOk (departMember userId spaceId revision now s)"
proof -
  have "tablesOk (revokeRuns (\<lambda>run. rn_spaceId run = spaceId \<and> rn_userId run = userId)
      (s\<lparr>ss_members := ss_members (changeMember spaceId userId None s)\<rparr>))"
    by (rule tablesOk_members [OF assms])
      (use assms in \<open>auto simp: changeMember_def tablesOk_def intro: membersFit_delete mayWrite_change [of _ _ _ None, unfolded changeMember_def, simplified]\<close>)
  then have "tablesOk (revokeRuns (\<lambda>run. rn_spaceId run = spaceId \<and> rn_userId run = userId) (deleteMember spaceId userId s))"
    using change_frame [of spaceId userId None s] by (simp add: changeMember_def)
  then show ?thesis
    by (simp add: departMember_def Let_def recordDeparture_def revokeRuns_setRevision)
qed

lemma beginDelete_Inr:
  assumes "beginDelete userId spaceId revision confirmName now s = Inr (row, s')"
  shows "(s' = s \<and> findDeletion spaceId s = Some row)
    \<or> (\<exists>view. spaceAccess userId spaceId SpaceOwner s = Inr view \<and> sv_revision view = revision \<and> confirmName = sv_name view
         \<and> dl_spaceId row = spaceId \<and> dl_agentId row = sv_agentId view \<and> \<not> dl_deleted row
         \<and> s' = auditSpace userId spaceId ''space.deletion.started'' [] now
               (revokeRuns (\<lambda>run. rn_spaceId run = spaceId) (setRevision spaceId (revision + 1)
                 (s\<lparr>ss_deletions := ss_deletions s @ [row]\<rparr>))))"
proof (cases "findDeletion spaceId s")
  case None
  have ins: "insertDeletion r t = Inr t' \<Longrightarrow> t' = t\<lparr>ss_deletions := ss_deletions t @ [r]\<rparr>" for r t t'
    by (simp add: insertDeletion_def split: if_splits)
  from assms None show ?thesis
    by (auto simp: beginDelete_def resultThen_ok Let_def simp del: spaceAccess_ok dest!: ins split: if_splits option.splits)
next
  case (Some prior)
  then show ?thesis using assms by (auto simp: beginDelete_def resultThen_ok Let_def simp del: spaceAccess_ok split: if_splits)
qed

lemma beginDelete_tables:
  assumes "beginDelete userId spaceId revision confirmName now s = Inr (row, s')" "tablesOk s"
  shows "tablesOk s'"
  using beginDelete_Inr [OF assms(1)] tablesOk_deletion [OF assms(2), of row] assms(2)
  by (auto simp: revokeRuns_setRevision)

lemma deletedIds_map:
  assumes "\<And>row. dl_spaceId (f row) = dl_spaceId row"
  shows "deletedIds (s\<lparr>ss_deletions := map f (ss_deletions s)\<rparr>) = deletedIds s"
proof -
  have "map dl_spaceId (map f (ss_deletions s)) = map dl_spaceId (ss_deletions s)" by (simp add: assms)
  then have "dl_spaceId ` set (map f (ss_deletions s)) = dl_spaceId ` set (ss_deletions s)" by (metis list.set_map)
  then show ?thesis unfolding deletedIds_def by simp
qed

lemma tablesOk_deletions:
  assumes "\<And>row. dl_spaceId (f row) = dl_spaceId row"
  shows "tablesOk (s\<lparr>ss_deletions := map f (ss_deletions s)\<rparr>) = tablesOk s"
  unfolding tablesOk_def deletedIds_map [of f, OF assms] by (simp add: spaceIds_def pageKeys_def)

lemma finishDelete_tables:
  assumes "tablesOk s"
  shows "tablesOk (finishDelete userId spaceId now s)"
  using tablesOk_deleteSpaceRows [OF assms] unfolding finishDelete_def Let_def tablesOk_audit
  by (subst tablesOk_deletions) simp_all

section \<open>Operations on pages and runs\<close>

lemma climbParents_within:
  assumes "climbParents userId spaceId s depth parent = Inr u"
  shows "depth + 1 < NESTING_LIMIT \<and> within (NESTING_LIMIT - 1 - depth) (set (pageKeys s)) spaceId (pg_parentId parent)"
  using assms
proof (induction userId spaceId s depth parent rule: climbParents.induct)
  case (1 userId spaceId s depth parent)
  have depth: "depth + 1 < NESTING_LIMIT" using "1.prems" by (simp add: climbParents.simps [of _ _ _ depth] split: if_splits)
  then obtain n where n: "NESTING_LIMIT - 1 - depth = Suc n" "n = NESTING_LIMIT - 1 - (depth + 1)" by (cases "NESTING_LIMIT - 1 - depth") auto
  show ?case
  proof (cases "pg_parentId parent = None \<or> pg_parentId parent = Some []")
    case True
    then have "within (Suc n) (set (pageKeys s)) spaceId (pg_parentId parent)" by auto
    then show ?thesis using depth n by simp
  next
    case False
    then obtain parentId where p: "pg_parentId parent = Some parentId" "parentId \<noteq> []" by (cases "pg_parentId parent") auto
    obtain above where above: "spacePage userId spaceId parentId SpaceViewer s = Inr above"
        "climbParents userId spaceId s (depth + 1) above = Inr u"
      using "1.prems" depth p by (simp add: climbParents.simps [of _ _ _ depth] split: sum.splits)
    have "within n (set (pageKeys s)) spaceId (pg_parentId above)"
      using "1.IH" [OF _ p above(1)] above(2) depth n(2) by simp
    moreover have "(parentId, spaceId, pg_parentId above) \<in> set (pageKeys s)" using spacePage_key [OF above(1)] by blast
    ultimately show ?thesis using depth n p by auto
  qed
qed

lemma checkParent_within:
  assumes "checkParent userId spaceId parentId s = Inr u"
  shows "within NESTING_LIMIT (set (pageKeys s)) spaceId parentId"
proof (cases "parentId = None \<or> parentId = Some []")
  case True
  have "NESTING_LIMIT = Suc 19" by (simp add: NESTING_LIMIT_def)
  then show ?thesis using True by (metis within.simps(2))
next
  case False
  then obtain pageId page where page: "parentId = Some pageId" "spacePage userId spaceId pageId SpaceViewer s = Inr page"
      "climbParents userId spaceId s 0 page = Inr u"
    using assms by (cases parentId) (auto simp: checkParent_def resultThen_ok simp del: spacePage_ok)
  have "within (NESTING_LIMIT - 1) (set (pageKeys s)) spaceId (pg_parentId page)" using climbParents_within [OF page(3)] by simp
  moreover have "(pageId, spaceId, pg_parentId page) \<in> set (pageKeys s)" using spacePage_key [OF page(2)] by blast
  moreover have "NESTING_LIMIT = Suc (NESTING_LIMIT - 1)" by (simp add: NESTING_LIMIT_def)
  ultimately show ?thesis using page(1) by (metis option.sel within.simps(2))
qed

lemma createPageRows_Inr:
  assumes "createPageRows userId spaceId parentId title body requestId freshId now s = Inr (page, s')"
  shows "\<exists>view. spaceAccess userId spaceId SpaceEditor s = Inr view \<and> (s' = s
    \<or> checkParent userId spaceId parentId s = Inr () \<and> pg_id page = freshId \<and> pg_spaceId page = spaceId \<and> pg_parentId page = parentId
      \<and> freshId \<notin> pg_id ` set (ss_pages s)
      \<and> s' = auditSpace userId spaceId ''space.page.created'' [(''pageId'', JStr freshId)] now (s\<lparr>ss_pages := ss_pages s @ [page]\<rparr>))"
proof (cases "List.find (\<lambda>page. pg_creatorId page = userId \<and> pg_requestId page = requestId) (ss_pages s)")
  case None
  have ins: "insertPage p t = Inr t' \<Longrightarrow> pg_id p \<notin> pg_id ` set (ss_pages t) \<and> t' = t\<lparr>ss_pages := ss_pages t @ [p]\<rparr>" for p t t'
    by (auto simp: insertPage_def list_ex_iff split: if_splits)
  from assms None show ?thesis
    by (auto simp: createPageRows_def resultThen_ok Let_def simp del: spaceAccess_ok dest!: ins split: if_splits)
next
  case (Some prior)
  then show ?thesis using assms by (auto simp: createPageRows_def resultThen_ok simp del: spaceAccess_ok split: if_splits)
qed

lemma createPage_Inr:
  "createPage userId spaceId parentId title body requestId freshId now s = Inr (page, s') \<Longrightarrow>
     \<exists>titleText bodyText requestText.
       createPageRows userId spaceId parentId titleText bodyText requestText freshId now s = Inr (page, s')"
  by (auto simp: createPage_def resultThen_ok simp del: spaceAccess_ok)

lemma createPage_tables:
  assumes "createPage userId spaceId parentId title body requestId freshId now s = Inr (page, s')" "tablesOk s"
  shows "tablesOk s'"
proof -
  obtain titleText bodyText requestText where
    rows: "createPageRows userId spaceId parentId titleText bodyText requestText freshId now s = Inr (page, s')"
    using createPage_Inr [OF assms(1)] by blast
  from createPageRows_Inr [OF rows] show ?thesis
  proof (elim disjE exE conjE)
    fix view
    assume view: "spaceAccess userId spaceId SpaceEditor s = Inr view" and parent: "checkParent userId spaceId parentId s = Inr ()"
      and page: "pg_id page = freshId" "pg_spaceId page = spaceId" "pg_parentId page = parentId" "freshId \<notin> pg_id ` set (ss_pages s)"
      and s': "s' = auditSpace userId spaceId ''space.page.created'' [(''pageId'', JStr freshId)] now (s\<lparr>ss_pages := ss_pages s @ [page]\<rparr>)"
    let ?keys = "pageKeys s @ [(freshId, spaceId, parentId)]"
    have keys: "pageKeys (s\<lparr>ss_pages := ss_pages s @ [page]\<rparr>) = ?keys" by (simp add: pageKeys_def pageKey_def page)
    have fresh: "freshId \<notin> fst ` set (pageKeys s)" using page(4) by (auto simp: pageKeys_def pageKey_def)
    have "within NESTING_LIMIT (set ?keys) sp p" if "within NESTING_LIMIT (set (pageKeys s)) sp p" for sp p
      by (rule within_mono [OF that]) auto
    then have "pagesFit (spaceIds s) ?keys"
      using assms(2) editor_mayWrite [OF view] checkParent_within [OF parent] fresh
      by (fastforce simp: tablesOk_def pagesFit_def)
    moreover have "runsFit (set ?keys) (set (ss_members s)) (deletedIds s) (ss_runs s)"
      by (rule runsFit_pages [of "set (pageKeys s)"]) (use assms(2) in \<open>auto simp: tablesOk_def\<close>)
    moreover have "conversationsFit (set ?keys) (ss_conversations s)"
      by (rule conversationsFit_pages [of "set (pageKeys s)"]) (use assms(2) in \<open>auto simp: tablesOk_def\<close>)
    ultimately show ?thesis
      using assms(2) unfolding s' tablesOk_audit unfolding tablesOk_def keys by (simp add: spaceIds_def deletedIds_def)
  qed (use assms(2) in simp)
qed

lemma savePage_Inr:
  assumes "savePage userId spaceId pageId title body revision now s = Inr (page, s')"
  shows "\<exists>old titleText bodyText. spacePage userId spaceId pageId SpaceEditor s = Inr old \<and> pg_revision old = revision
    \<and> s' = auditSpace userId spaceId ''space.page.saved'' [(''pageId'', JStr pageId), (''revision'', JNum (revision + 1))] now
        (s\<lparr>ss_pages := map (\<lambda>row. if pg_id row = pageId
             then row\<lparr>pg_title := titleText, pg_body := bodyText, pg_revision := revision + 1, pg_updatedAt := now\<rparr> else row) (ss_pages s)\<rparr>)"
  using assms unfolding savePage_def by (auto simp: resultThen_ok Let_def simp del: spacePage_ok split: if_splits)

lemma tablesOk_pageEdit:
  assumes "\<And>row. pageKey (f row) = pageKey row" "tablesOk s"
  shows "tablesOk (s\<lparr>ss_pages := map f (ss_pages s)\<rparr>)"
proof -
  have "pageKeys (s\<lparr>ss_pages := map f (ss_pages s)\<rparr>) = pageKeys s" by (simp add: pageKeys_def assms(1))
  then show ?thesis using assms(2) unfolding tablesOk_def by (simp add: spaceIds_def deletedIds_def)
qed

lemma savePage_tables: "savePage userId spaceId pageId title body revision now s = Inr (page, s') \<Longrightarrow> tablesOk s \<Longrightarrow> tablesOk s'"
  by (drule savePage_Inr) (auto intro!: tablesOk_pageEdit simp: pageKey_def)

lemma page_space_unique:
  assumes "tablesOk s" "(pageId, spaceId, parent) \<in> set (pageKeys s)" "onPage (set (pageKeys s)) spaceId' pageId"
  shows "spaceId' = spaceId"
proof -
  have keys: "distinct (map fst (pageKeys s))" using assms(1) by (simp add: tablesOk_def pagesFit_def)
  obtain parent' where "(pageId, spaceId', parent') \<in> set (pageKeys s)" using assms(3) by (auto simp: onPage_def)
  from distinct_row [OF keys this assms(2)] have "(pageId, spaceId', parent') = (pageId, spaceId, parent)" by simp
  then show ?thesis by simp
qed

lemma run_page: "tablesOk s \<Longrightarrow> run \<in> set (ss_runs s) \<Longrightarrow> onPage (set (pageKeys s)) (rn_spaceId run) (rn_pageId run)"
  by (simp add: tablesOk_def runsFit_def)

lemma beginRun_Inr:
  assumes "beginRun sha256 userId spaceId pageId runId message now s = Inr (finished, s')"
  shows "\<exists>page. spacePage userId spaceId pageId SpaceEditor s = Inr page
    \<and> (s' = s
       \<or> (\<exists>prior. findRun runId s = Some prior \<and> rn_userId prior = userId \<and> rn_pageId prior = pageId \<and> rn_state prior = RunFailed
            \<and> s' = setRunState (\<lambda>run. rn_runId run = runId) RunActive s)
       \<or> (\<exists>run. findRun runId s = None \<and> rn_runId run = runId \<and> rn_spaceId run = spaceId \<and> rn_pageId run = pageId \<and> rn_userId run = userId
            \<and> s' = s\<lparr>ss_runs := ss_runs s @ [run]\<rparr>))"
proof (cases "findRun runId s")
  case None
  let ?run = "\<lparr>rn_runId = runId, rn_spaceId = spaceId, rn_pageId = pageId, rn_userId = userId,
    rn_contentHash = sha256 message, rn_state = RunActive, rn_createdAt = now\<rparr>"
  have "s' = s\<lparr>ss_runs := ss_runs s @ [?run]\<rparr> \<and> (\<exists>page. spacePage userId spaceId pageId SpaceEditor s = Inr page)"
    using assms None by (auto simp: beginRun_def resultThen_ok Let_def simp del: spacePage_ok split: if_splits)
  moreover have "rn_runId ?run = runId" "rn_spaceId ?run = spaceId" "rn_pageId ?run = pageId" "rn_userId ?run = userId" by simp_all
  ultimately show ?thesis using None by blast
next
  case (Some prior)
  then show ?thesis using assms
    by (auto simp: beginRun_def resultThen_ok Let_def simp del: spacePage_ok split: if_splits)
qed

lemma setRunState_tables:
  assumes "tablesOk s"
    and "\<And>run. run \<in> set (ss_runs s) \<Longrightarrow> chosen run \<Longrightarrow> state = RunActive \<Longrightarrow>
       rn_spaceId run \<notin> deletedIds s \<and> mayWrite (set (ss_members s)) (rn_spaceId run) (rn_userId run)"
  shows "tablesOk (setRunState chosen state s)"
proof -
  have "runsFit (set (pageKeys s)) (set (ss_members s)) (deletedIds s) (ss_runs s)" using assms(1) by (simp add: tablesOk_def)
  then have "runsFit (set (pageKeys s)) (set (ss_members s)) (deletedIds s)
      (map (\<lambda>run. if chosen run then run\<lparr>rn_state := state\<rparr> else run) (ss_runs s))"
    by (rule runsFit_map) (use runs_active [OF assms(1)] assms(2) in \<open>auto split: if_splits\<close>)
  then show ?thesis unfolding setRunState_def by (rule tablesOk_runs [OF assms(1)])
qed

lemma beginRun_tables:
  assumes run: "beginRun sha256 userId spaceId pageId runId message now s = Inr (finished, s')" and ok: "tablesOk s"
  shows "tablesOk s'"
proof -
  obtain page where page: "spacePage userId spaceId pageId SpaceEditor s = Inr page" and
    cases: "s' = s \<or> (\<exists>prior. findRun runId s = Some prior \<and> rn_userId prior = userId \<and> rn_pageId prior = pageId
            \<and> s' = setRunState (\<lambda>run. rn_runId run = runId) RunActive s)
       \<or> (\<exists>run. findRun runId s = None \<and> rn_runId run = runId \<and> rn_spaceId run = spaceId \<and> rn_pageId run = pageId \<and> rn_userId run = userId
            \<and> s' = s\<lparr>ss_runs := ss_runs s @ [run]\<rparr>)"
    using beginRun_Inr [OF run] by blast
  obtain view where view: "spaceAccess userId spaceId SpaceEditor s = Inr view" using page unfolding spacePage_ok by blast
  note may = editor_mayWrite [OF view]
  have key: "(pageId, spaceId, pg_parentId page) \<in> set (pageKeys s)" using spacePage_key [OF page] by blast
  have runs: "distinct (map rn_runId (ss_runs s))" using ok by (simp add: tablesOk_def runsFit_def)
  from cases show ?thesis
  proof (elim disjE exE conjE)
    fix prior
    assume prior: "findRun runId s = Some prior" "rn_userId prior = userId" "rn_pageId prior = pageId"
      and s': "s' = setRunState (\<lambda>run. rn_runId run = runId) RunActive s"
    have inRuns: "prior \<in> set (ss_runs s)" "rn_runId prior = runId" using find_in_set prior(1) unfolding findRun_def by fast+
    have "rn_spaceId prior = spaceId" using page_space_unique [OF ok key] run_page [OF ok inRuns(1)] prior(3) by simp
    moreover have "run = prior" if "run \<in> set (ss_runs s)" "rn_runId run = runId" for run
      using distinct_row [OF runs that(1) inRuns(1)] that(2) inRuns(2) by simp
    ultimately show ?thesis unfolding s' using may prior(2) by (intro setRunState_tables [OF ok]) auto
  next
    fix run
    assume new: "findRun runId s = None" "rn_runId run = runId" "rn_spaceId run = spaceId" "rn_pageId run = pageId" "rn_userId run = userId"
      and s': "s' = s\<lparr>ss_runs := ss_runs s @ [run]\<rparr>"
    have "runId \<notin> rn_runId ` set (ss_runs s)" using new(1) by (auto simp: findRun_def find_None_iff)
    moreover have "onPage (set (pageKeys s)) spaceId pageId" using key by (auto simp: onPage_def)
    ultimately have "runsFit (set (pageKeys s)) (set (ss_members s)) (deletedIds s) (ss_runs s @ [run])"
      using ok new may by (auto simp: tablesOk_def runsFit_def)
    then show ?thesis unfolding s' by (rule tablesOk_runs [OF ok])
  qed (use ok in simp)
qed

section \<open>Titles\<close>

lemma freeTitle_first:
  "\<exists>m \<ge> number. freeTitle titles base number = numberedTitle base m
     \<and> (\<forall>j. number \<le> j \<and> j < m \<longrightarrow> numberedTitle base j \<in> set titles)"
proof (induction titles base number rule: freeTitle.induct)
  case (1 titles base number)
  show ?case
  proof (cases "numberedTitle base number \<in> set titles")
    case True
    then obtain m where m: "number + 1 \<le> m" "freeTitle titles base (number + 1) = numberedTitle base m"
        "\<forall>j. number + 1 \<le> j \<and> j < m \<longrightarrow> numberedTitle base j \<in> set titles"
      using 1 by auto
    then have "\<forall>j. number \<le> j \<and> j < m \<longrightarrow> numberedTitle base j \<in> set titles" using True by (metis Suc_eq_plus1 Suc_leI le_neq_implies_less)
    then show ?thesis using True m by (intro exI [of _ m]) (simp add: freeTitle.simps [of titles base number] Let_def)
  qed (auto simp: freeTitle.simps [of titles base number] Let_def)
qed

lemma freeTitle_length:
  assumes "length titles \<le> 200" "number \<le> 100"
  shows "length (freeTitle titles base number) \<le> 240"
proof -
  obtain m where m: "freeTitle titles base number = numberedTitle base m"
      "\<forall>j. number \<le> j \<and> j < m \<longrightarrow> numberedTitle base j \<in> set titles"
    using freeTitle_first by blast
  have "m < 1000"
  proof (rule ccontr)
    assume "\<not> m < 1000"
    then have sub: "numberedTitle base ` {100..<1000} \<subseteq> set titles" using m(2) assms(2) by auto
    have len: "length (decimal n) = 3" if "n \<in> {100..<1000}" for n using that by (intro decimal_length) auto
    have "inj_on (numberedTitle base) {100..<1000}"
      by (rule inj_onI) (metis len numberedTitle_inject)
    then have "card (numberedTitle base ` {100..<1000}) = 900" by (simp add: card_image)
    moreover have "card (numberedTitle base ` {100..<1000}) \<le> length titles"
      using card_mono [OF _ sub] card_length [of titles] by (meson List.finite_set order.trans)
    ultimately show False using assms(1) by simp
  qed
  have "length (decimal m) \<le> 240"
  proof (cases "m < 100")
    case True
    then have "m div 10 < 10" by simp
    then show ?thesis by (simp add: decimal.simps [of m] decimal.simps [of "m div 10"])
  next
    case False
    then have "length (decimal m) = 3" using \<open>m < 1000\<close> by (intro decimal_length) auto
    then show ?thesis by simp
  qed
  then show ?thesis by (simp add: m(1) numberedTitle_def truncateUtf16Safe_def)
qed

lemma length_filter_imp: "\<forall>x \<in> set xs. P x \<longrightarrow> Q x \<Longrightarrow> length (filter P xs) \<le> length (filter Q xs)"
  by (induction xs) auto

lemma allocateTitle_fits:
  assumes ok: "tablesOk s" and key: "(pageId, spaceId, parent) \<in> set (pageKeys s)" and short: "length requested \<le> 240"
  shows "allocateTitle userId pageId requested except s \<notin> set (takenTitles userId pageId except s)
    \<and> length (allocateTitle userId pageId requested except s) \<le> 240"
proof -
  have "\<forall>row \<in> set (ss_conversations s). onPage (set (pageKeys s)) (cv_spaceId row) (cv_pageId row)"
    using ok by (simp add: tablesOk_def conversationsFit_def)
  then have "\<forall>row \<in> set (ss_conversations s). cv_pageId row = pageId \<longrightarrow> cv_spaceId row = spaceId"
    using page_space_unique [OF ok key] by auto
  then have "length (takenTitles userId pageId except s) \<le> length (filter (\<lambda>row. cv_spaceId row = spaceId) (ss_conversations s))"
    unfolding takenTitles_def length_map by (intro length_filter_imp) auto
  also have "\<dots> \<le> 200" using ok by (simp add: tablesOk_def conversationsFit_def)
  finally have few: "length (takenTitles userId pageId except s) \<le> 200" .
  show ?thesis
    using freeTitle_free freeTitle_length [OF few, of 2] length_trim [of requested] short
    by (auto simp: allocateTitle_def Let_def)
qed

section \<open>Operations on conversations\<close>

lemma projectAccess_ok [ok_iff]:
  "projectAccess userId role row agentId write = Inr (row', canWrite) \<longleftrightarrow>
     row' = row \<and> canWrite = (userId = cv_ownerId row \<and> role \<noteq> SpaceViewer \<and> agentId = Some (cv_agentId row))
     \<and> (write \<longrightarrow> canWrite)"
  by (auto simp: projectAccess_def Let_def)

lemma getConversation_Inr:
  "getConversation userId spaceId conversationId write shared s = Inr (row, canWrite) \<Longrightarrow>
     \<exists>view. spaceAccess userId spaceId SpaceViewer s = Inr view \<and> row \<in> set (ss_conversations s) \<and> cv_spaceId row = spaceId
       \<and> cv_id row = conversationId \<and> (\<not> shared \<longrightarrow> cv_ownerId row = userId) \<and> (write \<longrightarrow> cv_ownerId row = userId \<and> sv_role view \<noteq> SpaceViewer)"
  by (auto simp: getConversation_def resultThen_ok projectAccess_ok simp del: spaceAccess_ok
      dest!: find_in_set split: option.splits if_splits)

lemma createConversationRows_Inr:
  assumes "createConversationRows userId spaceId pageId requested requestId freshId now s = Inr (found, s')"
  shows "\<exists>page. spacePage userId spaceId pageId SpaceEditor s = Inr page
    \<and> (s' = s
       \<or> (\<exists>row titles. cv_id row = freshId \<and> cv_spaceId row = spaceId \<and> cv_pageId row = pageId \<and> cv_ownerId row = userId
            \<and> cv_title row = allocateTitle userId pageId requested None s \<and> freshId \<notin> cv_id ` set (ss_conversations s)
            \<and> length (filter (\<lambda>row. cv_spaceId row = spaceId) (ss_conversations s)) < 200
            \<and> s' = auditSpace userId spaceId ''space.conversation.created''
                 [(''conversationId'', JStr freshId), (''pageId'', JStr pageId)] now
                 (s\<lparr>ss_conversations := ss_conversations s @ [row], ss_titles := titles\<rparr>)))"
proof -
  obtain page where page: "spacePage userId spaceId pageId SpaceEditor s = Inr page"
    using assms by (auto simp: createConversationRows_def resultThen_ok simp del: spacePage_ok)
  obtain agentId ownerName where binding: "personalBinding userId s = Some (agentId, ownerName)"
    using assms page by (auto simp: createConversationRows_def split: option.splits)
  show ?thesis
  proof (cases "List.find (\<lambda>row. cv_ownerId row = userId \<and> cv_requestId row = requestId) (ss_conversations s)")
    case None
    let ?row = "\<lparr>cv_id = freshId, cv_spaceId = spaceId, cv_pageId = pageId,
      cv_title = allocateTitle userId pageId requested None s, cv_ownerId = userId, cv_ownerName = ownerName, cv_agentId = agentId,
      cv_sessionKey = conversationSessionPrefix agentId @ freshId, cv_requestId = requestId, cv_createdAt = now\<rparr>"
    have count: "length (filter (\<lambda>row. cv_spaceId row = spaceId) (ss_conversations s)) < 200"
      using assms page binding None by (simp add: createConversationRows_def not_le split: if_splits)
    have rows: "createConversationRows userId spaceId pageId requested requestId freshId now s
      = resultThen (insertConversation ?row s) (\<lambda>s1.
          let s2 = (if cv_title ?row \<noteq> requested then s1\<lparr>ss_titles := mapSet (ss_titles s1) freshId requested\<rparr> else s1)
          in Inr ((?row, True), auditSpace userId spaceId ''space.conversation.created''
               [(''conversationId'', JStr freshId), (''pageId'', JStr pageId)] now s2))"
      using page binding None count by (simp add: createConversationRows_def Let_def)
    obtain s1 where s1: "insertConversation ?row s = Inr s1"
        and s2: "s' = auditSpace userId spaceId ''space.conversation.created'' [(''conversationId'', JStr freshId), (''pageId'', JStr pageId)] now
           (if cv_title ?row \<noteq> requested then s1\<lparr>ss_titles := mapSet (ss_titles s1) freshId requested\<rparr> else s1)"
      using assms unfolding rows by (auto simp: resultThen_ok Let_def)
    define titles where "titles = (if cv_title ?row \<noteq> requested then mapSet (ss_titles s1) freshId requested else ss_titles s1)"
    have s': "s' = auditSpace userId spaceId ''space.conversation.created''
                 [(''conversationId'', JStr freshId), (''pageId'', JStr pageId)] now (s1\<lparr>ss_titles := titles\<rparr>)"
      using s2 by (simp add: titles_def split: if_splits)
    have "freshId \<notin> cv_id ` set (ss_conversations s)" "s1 = s\<lparr>ss_conversations := ss_conversations s @ [?row]\<rparr>"
      using s1 by (auto simp: insertConversation_def list_ex_iff split: if_splits)
    then have "s' = auditSpace userId spaceId ''space.conversation.created''
                 [(''conversationId'', JStr freshId), (''pageId'', JStr pageId)] now
                 (s\<lparr>ss_conversations := ss_conversations s @ [?row], ss_titles := titles\<rparr>)"
      using s' by simp
    moreover have "cv_id ?row = freshId \<and> cv_spaceId ?row = spaceId \<and> cv_pageId ?row = pageId \<and> cv_ownerId ?row = userId
        \<and> cv_title ?row = allocateTitle userId pageId requested None s" by simp
    ultimately show ?thesis using page count \<open>freshId \<notin> cv_id ` set (ss_conversations s)\<close> by blast
  next
    case (Some prior)
    then show ?thesis
      using assms page binding by (auto simp: createConversationRows_def resultThen_ok split: if_splits)
  qed
qed

lemma spaceText_ok [ok_iff]:
  "spaceText value label limit blank = Inr accepted \<longleftrightarrow>
     value = JStr accepted \<and> int (length accepted) \<le> limit \<and> (blank \<or> trim accepted \<noteq> [])"
  by (auto simp: spaceText_def split: js_value.split)

lemma createConversation_Inr:
  "createConversation userId spaceId pageId title requestId freshId now s = Inr (found, s') \<Longrightarrow>
     \<exists>pageText requested requestText. length requested \<le> 240
       \<and> createConversationRows userId spaceId pageText requested requestText freshId now s = Inr (found, s')"
  by (auto simp: createConversation_def resultThen_ok spaceText_ok)

lemma titles_frame:
  "s\<lparr>ss_titles := t, ss_conversations := c\<rparr> = s\<lparr>ss_conversations := c, ss_titles := t\<rparr>"
  "s\<lparr>ss_conversations := c, ss_titles := ss_titles s\<rparr> = s\<lparr>ss_conversations := c\<rparr>"
  by simp_all

lemma renameConversationRows_Inr:
  assumes "renameConversationRows userId spaceId conversationId requested revision expectedTitle now s = Inr (found, s')"
  shows "\<exists>view row titles. spaceAccess userId spaceId SpaceEditor s = Inr view \<and> sv_revision view = revision
    \<and> row \<in> set (ss_conversations s) \<and> cv_spaceId row = spaceId \<and> cv_id row = conversationId \<and> cv_ownerId row = userId
    \<and> (s' = s
       \<or> s' = auditSpace userId spaceId ''space.conversation.renamed''
               [(''conversationId'', JStr conversationId), (''pageId'', JStr (cv_pageId row))] now
               (s\<lparr>ss_conversations := map (\<lambda>r. if cv_id r = conversationId
                      then r\<lparr>cv_title := allocateTitle userId (cv_pageId row) requested (Some conversationId) s\<rparr> else r) (ss_conversations s),
                  ss_titles := titles\<rparr>))"
proof -
  obtain row canWrite where got: "getConversation userId spaceId conversationId True False s = Inr (row, canWrite)"
    using assms by (auto simp: renameConversationRows_def resultThen_ok)
  obtain view where view: "spaceAccess userId spaceId SpaceEditor s = Inr view" "sv_revision view = revision"
    using assms got by (auto simp: renameConversationRows_def resultThen_ok simp del: spaceAccess_ok split: if_splits)
  have "\<exists>titles. s' = s \<or> s' = auditSpace userId spaceId ''space.conversation.renamed''
               [(''conversationId'', JStr conversationId), (''pageId'', JStr (cv_pageId row))] now
               (s\<lparr>ss_conversations := map (\<lambda>r. if cv_id r = conversationId
                      then r\<lparr>cv_title := allocateTitle userId (cv_pageId row) requested (Some conversationId) s\<rparr> else r) (ss_conversations s),
                  ss_titles := titles\<rparr>)"
  proof (cases "mapHas (ss_titles s) conversationId")
    case True
    then show ?thesis
      using assms got view by (intro exI [of _ "ss_titles s"]) (auto simp: renameConversationRows_def Let_def titles_frame simp del: spaceAccess_ok split: if_splits)
  next
    case False
    then show ?thesis
      using assms got view
      by (intro exI [of _ "mapSet (ss_titles s) conversationId (cv_title row)"])
        (auto simp: renameConversationRows_def Let_def titles_frame simp del: spaceAccess_ok split: if_splits)
  qed
  then show ?thesis using view getConversation_Inr [OF got] by blast
qed

lemma renameConversation_Inr:
  "renameConversation userId spaceId conversationId title revision expectedTitle now s = Inr (found, s') \<Longrightarrow>
     \<exists>idText requested expectedText. length requested \<le> 240
       \<and> renameConversationRows userId spaceId idText requested revision expectedText now s = Inr (found, s')"
  by (auto simp: renameConversation_def resultThen_ok spaceText_ok)

lemma tablesOk_conversations:
  "tablesOk s \<Longrightarrow> conversationsFit (set (pageKeys s)) rows \<Longrightarrow> tablesOk (s\<lparr>ss_conversations := rows, ss_titles := titles\<rparr>)"
  by (simp add: tablesOk_def spaceIds_def pageKeys_def deletedIds_def)

lemma createConversation_tables:
  assumes "createConversation userId spaceId pageId title requestId freshId now s = Inr (found, s')" and ok: "tablesOk s"
  shows "tablesOk s'"
proof -
  obtain pageText requested requestText where short: "length requested \<le> 240"
    and rows: "createConversationRows userId spaceId pageText requested requestText freshId now s = Inr (found, s')"
    using createConversation_Inr [OF assms(1)] by blast
  obtain page where page: "spacePage userId spaceId pageText SpaceEditor s = Inr page"
    using createConversationRows_Inr [OF rows] by blast
  then have key: "(pageText, spaceId, pg_parentId page) \<in> set (pageKeys s)" using spacePage_key by blast
  have fit: "conversationsFit (set (pageKeys s)) (ss_conversations s)" using ok by (simp add: tablesOk_def)
  from createConversationRows_Inr [OF rows] show ?thesis
  proof (elim exE disjE conjE)
    fix row titles
    assume row: "cv_id row = freshId" "cv_spaceId row = spaceId" "cv_pageId row = pageText" "cv_ownerId row = userId"
        "cv_title row = allocateTitle userId pageText requested None s" "freshId \<notin> cv_id ` set (ss_conversations s)"
      and count: "length (filter (\<lambda>row. cv_spaceId row = spaceId) (ss_conversations s)) < 200"
      and s': "s' = auditSpace userId spaceId ''space.conversation.created''
                 [(''conversationId'', JStr freshId), (''pageId'', JStr pageText)] now
                 (s\<lparr>ss_conversations := ss_conversations s @ [row], ss_titles := titles\<rparr>)"
    have title: "cv_title row \<notin> set (takenTitles userId pageText None s)" "length (cv_title row) \<le> 240"
      using allocateTitle_fits [OF ok key short] row(5) by simp_all
    have "(userId, pageText, cv_title row) \<notin> (\<lambda>row. (cv_ownerId row, cv_pageId row, cv_title row)) ` set (ss_conversations s)"
      using title(1) by (auto simp: takenTitles_def)
    moreover have "onPage (set (pageKeys s)) spaceId pageText" using key by (auto simp: onPage_def)
    ultimately have "conversationsFit (set (pageKeys s)) (ss_conversations s @ [row])"
      using fit row title(2) count by (auto simp: conversationsFit_def)
    then show ?thesis unfolding s' tablesOk_audit by (rule tablesOk_conversations [OF ok])
  qed (use ok in simp)
qed

lemma conversationsFit_retitle:
  assumes fit: "conversationsFit keys rows" and row: "row \<in> set rows" and title: "length title \<le> 240"
    and free: "title \<notin> cv_title ` {r \<in> set rows. cv_ownerId r = cv_ownerId row \<and> cv_pageId r = cv_pageId row \<and> cv_id r \<noteq> cv_id row}"
  shows "conversationsFit keys (map (\<lambda>r. if cv_id r = cv_id row then r\<lparr>cv_title := title\<rparr> else r) rows)"
proof -
  let ?f = "\<lambda>r. if cv_id r = cv_id row then r\<lparr>cv_title := title\<rparr> else r"
  let ?k = "\<lambda>r. (cv_ownerId r, cv_pageId r, cv_title r)"
  have ids: "distinct (map cv_id rows)" and keys: "distinct (map ?k rows)" using fit by (simp_all add: conversationsFit_def)
  have only: "r = row" if "r \<in> set rows" "cv_id r = cv_id row" for r using distinct_row [OF ids that(1) row that(2)] .
  have "inj_on (?k \<circ> ?f) (set rows)"
  proof (rule inj_onI)
    fix a b assume ab: "a \<in> set rows" "b \<in> set rows" "(?k \<circ> ?f) a = (?k \<circ> ?f) b"
    consider "a = row" "b = row" | "a = row" "b \<noteq> row" | "a \<noteq> row" "b = row" | "a \<noteq> row" "b \<noteq> row" by blast
    then show "a = b"
    proof cases
      case 2
      then have "cv_id b \<noteq> cv_id row" using only [OF ab(2)] by blast
      then show ?thesis using ab(3) 2 free ab(2) by auto
    next
      case 3
      then have "cv_id a \<noteq> cv_id row" using only [OF ab(1)] by blast
      then show ?thesis using ab(3) 3 free ab(1) by force
    next
      case 4
      then have "cv_id a \<noteq> cv_id row" "cv_id b \<noteq> cv_id row" using only ab by blast+
      then have "?k a = ?k b" using ab(3) by simp
      then show ?thesis using distinct_row [OF keys ab(1, 2)] by blast
    qed simp
  qed
  moreover have "distinct rows" using ids by (simp add: distinct_map)
  ultimately have "distinct (map (?k \<circ> ?f) rows)" by (simp add: distinct_map)
  moreover define rows' where "rows' = map ?f rows"
  ultimately have d: "distinct (map ?k rows')" by (simp only: map_map)
  have "map cv_id rows' = map cv_id rows" by (simp add: rows'_def)
  then have i: "distinct (map cv_id rows')" using ids by metis
  have "length (filter (\<lambda>r. cv_spaceId r = spaceId) rows') = length (filter (\<lambda>r. cv_spaceId r = spaceId) rows)" for spaceId
    unfolding rows'_def by (induction rows) auto
  then have n: "\<forall>spaceId. length (filter (\<lambda>r. cv_spaceId r = spaceId) rows') \<le> 200" using fit by (simp add: conversationsFit_def)
  have "\<forall>r \<in> set rows'. onPage keys (cv_spaceId r) (cv_pageId r) \<and> length (cv_title r) \<le> 240"
    using fit title by (auto simp: conversationsFit_def rows'_def)
  then have "conversationsFit keys rows'" using d i n by (simp add: conversationsFit_def)
  then show ?thesis by (simp only: rows'_def)
qed

lemma renameConversation_tables:
  assumes "renameConversation userId spaceId conversationId title revision expectedTitle now s = Inr (found, s')" and ok: "tablesOk s"
  shows "tablesOk s'"
proof -
  obtain idText requested expectedText where short: "length requested \<le> 240"
    and rows: "renameConversationRows userId spaceId idText requested revision expectedText now s = Inr (found, s')"
    using renameConversation_Inr [OF assms(1)] by blast
  have fit: "conversationsFit (set (pageKeys s)) (ss_conversations s)" using ok by (simp add: tablesOk_def)
  from renameConversationRows_Inr [OF rows] show ?thesis
  proof (elim exE disjE conjE)
    fix row titles
    assume row: "row \<in> set (ss_conversations s)" "cv_spaceId row = spaceId" "cv_id row = idText" "cv_ownerId row = userId"
      and s': "s' = auditSpace userId spaceId ''space.conversation.renamed''
               [(''conversationId'', JStr idText), (''pageId'', JStr (cv_pageId row))] now
               (s\<lparr>ss_conversations := map (\<lambda>r. if cv_id r = idText
                      then r\<lparr>cv_title := allocateTitle userId (cv_pageId row) requested (Some idText) s\<rparr> else r) (ss_conversations s),
                  ss_titles := titles\<rparr>)"
    obtain parent where key: "(cv_pageId row, spaceId, parent) \<in> set (pageKeys s)"
      using fit row(1, 2) by (auto simp: conversationsFit_def onPage_def)
    have new: "allocateTitle userId (cv_pageId row) requested (Some idText) s \<notin> set (takenTitles userId (cv_pageId row) (Some idText) s)"
        "length (allocateTitle userId (cv_pageId row) requested (Some idText) s) \<le> 240"
      using allocateTitle_fits [OF ok key short] by blast+
    have "conversationsFit (set (pageKeys s)) (map (\<lambda>r. if cv_id r = idText
        then r\<lparr>cv_title := allocateTitle userId (cv_pageId row) requested (Some idText) s\<rparr> else r) (ss_conversations s))"
      using conversationsFit_retitle [OF fit row(1) new(2)] new(1) row by (auto simp: takenTitles_def)
    then show ?thesis unfolding s' tablesOk_audit by (rule tablesOk_conversations [OF ok])
  qed (use ok in simp)
qed

section \<open>Steps\<close>

text \<open>What a call does to the store.\<close>

inductive store_step :: "(string \<Rightarrow> string) \<Rightarrow> space_call \<Rightarrow> space_store \<Rightarrow> space_store \<Rightarrow> bool" for sha256 where
  refused: "store_step sha256 call s s"
| creates_space: "createSpace userId name requestId freshId now s = Inr (view, s') \<Longrightarrow>
    store_step sha256 (CreateSpace userId name requestId freshId now) s s'"
| sets_member: "setMember userId spaceId memberId role revision now s = Inr (u, s') \<Longrightarrow>
    store_step sha256 (SetMember userId spaceId memberId role revision now) s s'"
| leaves: "leaveSpace userId spaceId revision now s = Inr (outcome, s') \<Longrightarrow>
    store_step sha256 (LeaveSpace userId spaceId revision now) s s'"
| left: "store_step sha256 (CancelSettled userId spaceId revision succeeded) s (finishLeave userId spaceId revision s)"
| deletes: "beginDelete userId spaceId revision confirmName now s = Inr (deletion, s') \<Longrightarrow>
    store_step sha256 (DeleteSpace userId spaceId revision confirmName now) s s'"
| purges: "store_step sha256 (PurgeSettled spaceId replies now) s (finishDelete userId spaceId now s)"
| creates_page: "createPage userId spaceId parentId title body requestId freshId now s = Inr (page, s') \<Longrightarrow>
    store_step sha256 (CreatePage userId spaceId parentId title body requestId freshId now) s s'"
| saves_page: "savePage userId spaceId pageId title body revision now s = Inr (page, s') \<Longrightarrow>
    store_step sha256 (SavePage userId spaceId pageId title body revision now) s s'"
| begins_run: "beginRun sha256 userId spaceId pageId runId message now s = Inr (finished, s') \<Longrightarrow>
    store_step sha256 (BeginRun userId spaceId pageId runId message now) s s'"
| finishes_run: "store_step sha256 (FinishRun runId onlyPage) s (finishRun runId onlyPage s)"
| fails_run: "store_step sha256 (FailRun runId) s (failRun runId s)"
| creates_conversation: "createConversation userId spaceId page title requestId freshId now s = Inr (found, s') \<Longrightarrow>
    store_step sha256 (CreateConversation userId spaceId page title requestId freshId now) s s'"
| renames_conversation: "renameConversation userId spaceId conversation title revision expectedTitle now s = Inr (found, s') \<Longrightarrow>
    store_step sha256 (RenameConversation userId spaceId conversation title revision expectedTitle now) s s'"
| adds_account: "store_step sha256 (AddAccount account) s (addAccount account s)"
| sets_account: "store_step sha256 (SetAccountActive userId active) s (setAccountActive userId active s)"
| sets_agents: "store_step sha256 (SetAgents agents) s (s\<lparr>ss_agents := agents\<rparr>)"

lemma onStore_store [simp]: "lf_store (onStore f l) = f (lf_store l)"
  by (simp add: onStore_def)

lemma inTransaction_snd:
  "snd (inTransaction operation s) = s \<or> (\<exists>result. operation s = Inr (result, snd (inTransaction operation s)))"
  by (auto simp: inTransaction_def split: sum.split)

lemma startPurge_store [simp]: "lf_store (startPurge userId spaceId agentId l) = lf_store l"
  by (simp add: startPurge_def)

lemma leaveCall_store:
  "leaveCall userId spaceId revision now l = Inr (outcome, l') \<Longrightarrow> leaveSpace userId spaceId revision now (lf_store l) = Inr (outcome, lf_store l')"
  by (auto simp: leaveCall_def resultThen_ok Let_def split: if_splits)

lemma deleteCall_store:
  "deleteCall userId spaceId revision confirmName now l = Inr (outcome, l') \<Longrightarrow>
     \<exists>deletion. beginDelete userId spaceId revision confirmName now (lf_store l) = Inr (deletion, lf_store l')"
  by (auto simp: deleteCall_def resultThen_ok Let_def split: if_splits)

lemma spaceStep_step: "store_step sha256 call (lf_store l) (lf_store (spaceStep sha256 call l))"
proof (cases call)
  case (CreateSpace userId name requestId freshId now)
  then show ?thesis using inTransaction_snd [of "createSpace userId name requestId freshId now" "lf_store l"]
    by simp (metis creates_space refused)
next
  case (SetMember userId spaceId memberId role revision now)
  then show ?thesis using inTransaction_snd [of "setMember userId spaceId memberId role revision now" "lf_store l"]
    by simp (metis sets_member refused)
next
  case (LeaveSpace userId spaceId revision now)
  then show ?thesis
    using inTransaction_snd [of "leaveCall userId spaceId revision now" l] leaveCall_store
    by simp (metis leaves refused)
next
  case (CancelSettled userId spaceId revision succeeded)
  then show ?thesis by (auto simp: cancelSettled_def Let_def intro: refused left)
next
  case (DeleteSpace userId spaceId revision confirmName now)
  then show ?thesis
    using inTransaction_snd [of "deleteCall userId spaceId revision confirmName now" l] deleteCall_store
    by simp (metis deletes refused)
next
  case (PurgeSettled spaceId replies now)
  then show ?thesis by (auto simp: purgeSettled_def Let_def intro: refused purges split: option.split)
next
  case (CreatePage userId spaceId parentId title body requestId freshId now)
  then show ?thesis using inTransaction_snd [of "createPage userId spaceId parentId title body requestId freshId now" "lf_store l"]
    by simp (metis creates_page refused)
next
  case (SavePage userId spaceId pageId title body revision now)
  then show ?thesis using inTransaction_snd [of "savePage userId spaceId pageId title body revision now" "lf_store l"]
    by simp (metis saves_page refused)
next
  case (BeginRun userId spaceId pageId runId message now)
  then show ?thesis using inTransaction_snd [of "beginRun sha256 userId spaceId pageId runId message now" "lf_store l"]
    by simp (metis begins_run refused)
next
  case (CreateConversation userId spaceId pageId title requestId freshId now)
  then show ?thesis using inTransaction_snd [of "createConversation userId spaceId pageId title requestId freshId now" "lf_store l"]
    by simp (metis creates_conversation refused)
next
  case (RenameConversation userId spaceId conversationId title revision expectedTitle now)
  then show ?thesis
    using inTransaction_snd [of "renameConversation userId spaceId conversationId title revision expectedTitle now" "lf_store l"]
    by simp (metis renames_conversation refused)
qed (auto intro: store_step.intros)

lemma tablesOk_accounts:
  assumes "tablesOk s" "distinct (map ac_id accounts)" "ac_id ` set (ss_accounts s) \<subseteq> ac_id ` set accounts"
  shows "tablesOk (s\<lparr>ss_accounts := accounts\<rparr>)"
  using assms membersFit_mono [of "spaceIds s" "ac_id ` set (ss_accounts s)" "ss_members s" "spaceIds s" "ac_id ` set accounts"]
  by (simp add: tablesOk_def spaceIds_def pageKeys_def deletedIds_def)

lemma setAccountActive_ids: "map ac_id (ss_accounts (setAccountActive userId active s)) = map ac_id (ss_accounts s)"
  by (simp add: setAccountActive_def)

lemma setAccountActive_tables:
  assumes "tablesOk s"
  shows "tablesOk (setAccountActive userId active s)"
proof -
  have "ac_id ` set (ss_accounts s) \<subseteq> ac_id ` set (ss_accounts (setAccountActive userId active s))"
    by (metis setAccountActive_ids list.set_map order_refl)
  moreover have "distinct (map ac_id (ss_accounts (setAccountActive userId active s)))"
    unfolding setAccountActive_ids using assms by (simp add: tablesOk_def)
  ultimately have "tablesOk (s\<lparr>ss_accounts := ss_accounts (setAccountActive userId active s)\<rparr>)" by (rule tablesOk_accounts [OF assms, rotated])
  then show ?thesis by (simp add: setAccountActive_def)
qed

lemma addAccount_tables:
  assumes "tablesOk s"
  shows "tablesOk (addAccount account s)"
proof (cases "list_ex (\<lambda>row. ac_id row = ac_id account) (ss_accounts s)")
  case False
  have "distinct (map ac_id (ss_accounts s @ [account]))"
    using assms False by (auto simp: tablesOk_def list_ex_iff)
  moreover have "ac_id ` set (ss_accounts s) \<subseteq> ac_id ` set (ss_accounts s @ [account])" by (simp add: subset_insertI)
  ultimately have "tablesOk (s\<lparr>ss_accounts := ss_accounts s @ [account]\<rparr>)" by (rule tablesOk_accounts [OF assms])
  then show ?thesis unfolding addAccount_def if_not_P [OF False] .
next
  case True
  then show ?thesis unfolding addAccount_def if_P [OF True] using assms by simp
qed

lemma store_step_tables: "store_step sha256 call s s' \<Longrightarrow> tablesOk s \<Longrightarrow> tablesOk s'"
proof (induction rule: store_step.induct)
  case (leaves userId spaceId revision now s outcome s')
  then show ?case using leaveSpace_Inr [OF leaves(1)] departMember_tables by blast
next
  case (left userId spaceId revision succeeded s)
  then show ?case by (simp add: finishLeave_def)
next
  case (finishes_run runId onlyPage s)
  then show ?case unfolding finishRun_def by (intro setRunState_tables) simp_all
next
  case (fails_run runId s)
  then show ?case unfolding failRun_def by (intro setRunState_tables) simp_all
qed (simp_all add: createSpace_tables setMember_tables beginDelete_tables finishDelete_tables createPage_tables savePage_tables
    beginRun_tables createConversation_tables renameConversation_tables addAccount_tables setAccountActive_tables)

lemma noSpaces_tables: "tablesOk (lf_store noSpaces)"
  by (simp add: noSpaces_def tablesOk_def membersFit_def pagesFit_def runsFit_def conversationsFit_def spaceIds_def pageKeys_def)

lemma reached_tables: "tablesOk (lf_store (spaceRun sha256 calls noSpaces))"
  using spaceRun_keeps [of "\<lambda>l. tablesOk (lf_store l)" sha256 noSpaces calls] store_step_tables [OF spaceStep_step] noSpaces_tables
  by blast

end
