(* ===== verification/SpaceSafety.thy ===== *)
theory SpaceSafety
  imports SpaceTables
begin

text \<open>
  Who may change what in the spaces: a call reaches the rows of the space it names and of no other, with the
  role it needs, and a space under deletion stays as it is until every session of it is purged.
\<close>

section \<open>The rows of a space\<close>

type_synonym space_rows = "space_row list \<times> member_row list \<times> page_row list \<times> run_row list \<times> conversation_row list"

definition spaceRows :: "string \<Rightarrow> space_store \<Rightarrow> space_rows" where
  "spaceRows spaceId s =
     (filter (\<lambda>row. sr_id row = spaceId) (ss_spaces s), filter (\<lambda>row. mr_spaceId row = spaceId) (ss_members s),
      filter (\<lambda>row. pg_spaceId row = spaceId) (ss_pages s), filter (\<lambda>row. rn_spaceId row = spaceId) (ss_runs s),
      filter (\<lambda>row. cv_spaceId row = spaceId) (ss_conversations s))"

definition withoutRuns :: "space_rows \<Rightarrow> space_row list \<times> member_row list \<times> page_row list \<times> conversation_row list" where
  "withoutRuns rows = (case rows of (spaces, members, pages, runs, conversations) \<Rightarrow> (spaces, members, pages, conversations))"

lemma filter_map_other:
  "(\<And>x. x \<in> set xs \<Longrightarrow> P (f x) = P x) \<Longrightarrow> (\<And>x. x \<in> set xs \<Longrightarrow> P x \<Longrightarrow> f x = x) \<Longrightarrow> filter P (map f xs) = filter P xs"
  by (induction xs) auto

lemma filter_filter_other: "(\<And>x. P x \<Longrightarrow> Q x) \<Longrightarrow> filter P (filter Q xs) = filter P xs"
  by (induction xs) auto

lemma rows_audit [simp]: "spaceRows spaceId (auditSpace u sp e d n s) = spaceRows spaceId s"
  by (simp add: spaceRows_def)

lemma rows_unrelated [simp]:
  "spaceRows spaceId (s\<lparr>ss_departures := x\<rparr>) = spaceRows spaceId s" "spaceRows spaceId (s\<lparr>ss_titles := y\<rparr>) = spaceRows spaceId s"
  "spaceRows spaceId (s\<lparr>ss_agents := z\<rparr>) = spaceRows spaceId s" "spaceRows spaceId (s\<lparr>ss_deletions := d\<rparr>) = spaceRows spaceId s"
  "spaceRows spaceId (s\<lparr>ss_accounts := a\<rparr>) = spaceRows spaceId s"
  by (simp_all add: spaceRows_def)

lemma rows_setRevision: "spaceId \<noteq> other \<Longrightarrow> spaceRows spaceId (setRevision other revision s) = spaceRows spaceId s"
  by (simp add: spaceRows_def setRevision_def) (rule filter_map_other, auto)

lemma rows_runs:
  assumes "\<And>run. run \<in> set (ss_runs s) \<Longrightarrow> rn_spaceId (f run) = rn_spaceId run"
    and "\<And>run. run \<in> set (ss_runs s) \<Longrightarrow> rn_spaceId run = spaceId \<Longrightarrow> f run = run"
  shows "spaceRows spaceId (s\<lparr>ss_runs := map f (ss_runs s)\<rparr>) = spaceRows spaceId s"
  unfolding spaceRows_def using assms by (simp add: filter_map_other)

lemma rows_revokeRuns:
  assumes "\<And>run. run \<in> set (ss_runs s) \<Longrightarrow> rn_spaceId run = spaceId \<Longrightarrow> \<not> chosen run"
  shows "spaceRows spaceId (revokeRuns chosen s) = spaceRows spaceId s"
  unfolding revokeRuns_def by (rule rows_runs) (use assms in auto)

lemma rows_setRunState:
  assumes "\<And>run. run \<in> set (ss_runs s) \<Longrightarrow> rn_spaceId run = spaceId \<Longrightarrow> \<not> chosen run"
  shows "spaceRows spaceId (setRunState chosen state s) = spaceRows spaceId s"
  unfolding setRunState_def by (rule rows_runs) (use assms in auto)

lemma setRunState_withoutRuns: "withoutRuns (spaceRows spaceId (setRunState chosen state s)) = withoutRuns (spaceRows spaceId s)"
  by (simp add: spaceRows_def withoutRuns_def setRunState_def)

lemma rows_changeMember: "spaceId \<noteq> other \<Longrightarrow> spaceRows spaceId (changeMember other memberId role s) = spaceRows spaceId s"
  by (auto simp: spaceRows_def changeMember_def upsertMember_def deleteMember_def filter_filter_other
      simp del: filter_filter intro!: filter_map_other filter_filter_other split: option.split)

lemma rows_deleteSpaceRows: "spaceId \<noteq> gone \<Longrightarrow> spaceRows spaceId (deleteSpaceRows gone s) = spaceRows spaceId s"
  by (simp add: spaceRows_def deleteSpaceRows_def Let_def filter_filter_other del: filter_filter)

lemma rows_deleted: "spaceRows gone (deleteSpaceRows gone s) = ([], [], [], [], [])"
  by (simp add: spaceRows_def deleteSpaceRows_def Let_def)

lemma rows_afterMemberChange:
  "spaceId \<noteq> other \<Longrightarrow> spaceRows spaceId (afterMemberChange userId other memberId role revision now s) = spaceRows spaceId s"
  by (simp add: afterMemberChange_def Let_def rows_setRevision rows_revokeRuns)

lemma rows_departMember: "spaceId \<noteq> other \<Longrightarrow> spaceRows spaceId (departMember userId other revision now s) = spaceRows spaceId s"
  using rows_changeMember [of spaceId other userId None s]
  by (simp add: departMember_def Let_def recordDeparture_def changeMember_def rows_setRevision rows_revokeRuns)

lemma rows_finishDelete: "spaceId \<noteq> gone \<Longrightarrow> spaceRows spaceId (finishDelete userId gone now s) = spaceRows spaceId s"
  by (simp add: finishDelete_def Let_def rows_deleteSpaceRows)

lemma rows_purged: "spaceRows gone (finishDelete userId gone now s) = ([], [], [], [], [])"
  by (simp add: finishDelete_def Let_def rows_deleted)

lemma find_filter: "List.find P xs = (case filter P xs of [] \<Rightarrow> None | x # _ \<Rightarrow> Some x)"
  by (induction xs) auto

lemma findSpace_rows: "spaceRows spaceId s' = spaceRows spaceId s \<Longrightarrow> findSpace spaceId s' = findSpace spaceId s"
  by (simp add: findSpace_def find_filter spaceRows_def)

lemma findMember_rows: "spaceRows spaceId s' = spaceRows spaceId s \<Longrightarrow> findMember spaceId userId s' = findMember spaceId userId s"
proof -
  have split: "findMember spaceId userId t = List.find (\<lambda>row. mr_userId row = userId) (filter (\<lambda>row. mr_spaceId row = spaceId) (ss_members t))" for t
    by (simp add: findMember_def find_filter conj_commute)
  show "spaceRows spaceId s' = spaceRows spaceId s \<Longrightarrow> findMember spaceId userId s' = findMember spaceId userId s"
    unfolding split by (simp add: spaceRows_def)
qed

section \<open>Authority\<close>

definition hasRole :: "string \<Rightarrow> string \<Rightarrow> space_role \<Rightarrow> space_store \<Rightarrow> bool" where
  "hasRole userId spaceId role s \<longleftrightarrow> \<not> isl (spaceAccess userId spaceId role s)"

lemma hasRole_iff: "hasRole userId spaceId role s \<longleftrightarrow> (\<exists>view. spaceAccess userId spaceId role s = Inr view)"
  unfolding hasRole_def by (cases "spaceAccess userId spaceId role s") simp_all

text \<open>The calls that may change rows of a space, as the interface promises it.\<close>

fun authorised :: "space_call \<Rightarrow> string \<Rightarrow> space_store \<Rightarrow> bool" where
  "authorised (CreateSpace userId name requestId freshId now) spaceId s =
     (freshId = spaceId \<and> isActiveAccount userId s \<and> findSpace spaceId s = None \<and> \<not> deleting spaceId s)"
| "authorised (SetMember userId target memberId role revision now) spaceId s = (target = spaceId \<and> hasRole userId spaceId SpaceOwner s)"
| "authorised (LeaveSpace userId target revision now) spaceId s = (target = spaceId \<and> hasRole userId spaceId SpaceViewer s)"
| "authorised (DeleteSpace userId target revision confirmName now) spaceId s = (target = spaceId \<and> hasRole userId spaceId SpaceOwner s)"
| "authorised (PurgeSettled target replies now) spaceId s = (target = spaceId \<and> deleting spaceId s)"
| "authorised (CreatePage userId target parentId title body requestId freshId now) spaceId s =
     (target = spaceId \<and> hasRole userId spaceId SpaceEditor s)"
| "authorised (SavePage userId target pageId title body revision now) spaceId s = (target = spaceId \<and> hasRole userId spaceId SpaceEditor s)"
| "authorised (BeginRun userId target pageId runId message now) spaceId s = (target = spaceId \<and> hasRole userId spaceId SpaceEditor s)"
| "authorised (FinishRun runId pageId) spaceId s = list_ex (\<lambda>run. rn_runId run = runId \<and> rn_spaceId run = spaceId) (ss_runs s)"
| "authorised (FailRun runId) spaceId s = list_ex (\<lambda>run. rn_runId run = runId \<and> rn_spaceId run = spaceId) (ss_runs s)"
| "authorised (CreateConversation userId target pageId title requestId freshId now) spaceId s =
     (target = spaceId \<and> hasRole userId spaceId SpaceEditor s)"
| "authorised (RenameConversation userId target conversationId title revision expectedTitle now) spaceId s =
     (target = spaceId \<and> hasRole userId spaceId SpaceEditor s)"
| "authorised _ spaceId s = False"

lemma createSpace_undeleted:
  assumes "createSpace userId name requestId freshId now s = Inr (view, s')"
  shows "s' = s \<or> \<not> deleting freshId s"
proof -
  obtain nameText requestText where rows: "createSpaceRows userId nameText requestText freshId now s = Inr (view, s')"
    using createSpace_Inr [OF assms] by blast
  have sealed: "deleting freshId (auditSpace u sp e d n t) = deleting freshId t" for u sp e d n t
    by (simp add: deleting_def)
  have kept: "insertSpace space t = Inr t1 \<Longrightarrow> insertMember m t1 = Inr t2 \<Longrightarrow> deleting freshId t2 = deleting freshId t" for space m t t1 t2
    by (auto simp: insertSpace_def insertMember_def deleting_def split: if_splits)
  show ?thesis
  proof (cases "List.find (\<lambda>row. sr_creatorId row = userId \<and> sr_requestId row = requestText) (ss_spaces s)")
    case None
    with rows show ?thesis by (auto simp: createSpaceRows_def ok_iff Let_def sealed dest!: kept split: if_splits)
  next
    case (Some prior)
    with rows show ?thesis by (auto simp: createSpaceRows_def ok_iff simp del: spaceAccess_ok split: if_splits)
  qed
qed

section \<open>Only authorised calls change rows\<close>

lemma setMember_rows:
  assumes "setMember userId other memberId role revision now s = Inr (u, s')" "\<not> (other = spaceId \<and> hasRole userId spaceId SpaceOwner s)"
  shows "spaceRows spaceId s' = spaceRows spaceId s"
proof -
  obtain parsed where rows: "setMemberRows userId other memberId parsed revision now s = Inr (u, s')"
    using setMember_Inr [OF assms(1)] by blast
  obtain view where view: "spaceAccess userId other SpaceOwner s = Inr view"
    and s': "s' = afterMemberChange userId other memberId parsed revision now (changeMember other memberId parsed s)"
    using setMemberRows_Inr [OF rows] by blast
  have "spaceId \<noteq> other" using assms(2) view by (auto simp: hasRole_iff simp del: spaceAccess_ok)
  then show ?thesis unfolding s' by (simp add: rows_afterMemberChange rows_changeMember)
qed

lemma leaveSpace_rows:
  assumes "leaveSpace userId other revision now s = Inr (outcome, s')" "\<not> (other = spaceId \<and> hasRole userId spaceId SpaceViewer s)"
  shows "spaceRows spaceId s' = spaceRows spaceId s"
  using leaveSpace_Inr [OF assms(1)] assms(2) rows_departMember unfolding hasRole_iff by metis

lemma beginDelete_rows:
  assumes "beginDelete userId other revision confirmName now s = Inr (row, s')" "\<not> (other = spaceId \<and> hasRole userId spaceId SpaceOwner s)"
  shows "spaceRows spaceId s' = spaceRows spaceId s"
  using beginDelete_Inr [OF assms(1)]
proof (elim disjE exE conjE)
  fix view
  assume "spaceAccess userId other SpaceOwner s = Inr view" and "dl_spaceId row = other"
    and s': "s' = auditSpace userId other ''space.deletion.started'' [] now
               (revokeRuns (\<lambda>run. rn_spaceId run = other) (setRevision other (revision + 1)
                 (s\<lparr>ss_deletions := ss_deletions s @ [row]\<rparr>)))"
  then have "spaceId \<noteq> other" using assms(2) unfolding hasRole_iff by blast
  then show ?thesis unfolding s' by (simp add: rows_revokeRuns rows_setRevision)
qed simp

lemma page_space:
  assumes "tablesOk s" "spacePage userId other pageId role s = Inr page" "row \<in> set (ss_pages s)" "pg_id row = pageId"
  shows "pg_spaceId row = other"
proof -
  have "onPage (set (pageKeys s)) (pg_spaceId row) pageId"
    using assms(3, 4) by (force simp: onPage_def pageKeys_def pageKey_def)
  with page_space_unique [OF assms(1)] spacePage_key [OF assms(2)] show ?thesis by blast
qed

lemma spacePage_role: "spacePage userId spaceId pageId role s = Inr page \<Longrightarrow> hasRole userId spaceId role s"
  unfolding hasRole_iff spacePage_ok by blast

lemma createPage_rows:
  assumes "createPage userId other parentId title body requestId freshId now s = Inr (page, s')"
    "\<not> (other = spaceId \<and> hasRole userId spaceId SpaceEditor s)"
  shows "spaceRows spaceId s' = spaceRows spaceId s"
proof -
  obtain titleText bodyText requestText where
    rows: "createPageRows userId other parentId titleText bodyText requestText freshId now s = Inr (page, s')"
    using createPage_Inr [OF assms(1)] by blast
  from createPageRows_Inr [OF rows] show ?thesis
  proof (elim disjE exE conjE)
    fix view
    assume "spaceAccess userId other SpaceEditor s = Inr view" and page: "pg_spaceId page = other"
      and s': "s' = auditSpace userId other ''space.page.created'' [(''pageId'', JStr freshId)] now (s\<lparr>ss_pages := ss_pages s @ [page]\<rparr>)"
    then have "spaceId \<noteq> other" using assms(2) unfolding hasRole_iff by blast
    then show ?thesis unfolding s' rows_audit using page by (simp add: spaceRows_def)
  qed simp
qed

lemma savePage_rows:
  assumes "savePage userId other pageId title body revision now s = Inr (page, s')" "tablesOk s"
    "\<not> (other = spaceId \<and> hasRole userId spaceId SpaceEditor s)"
  shows "spaceRows spaceId s' = spaceRows spaceId s"
proof -
  obtain old titleText bodyText where old: "spacePage userId other pageId SpaceEditor s = Inr old"
    and s': "s' = auditSpace userId other ''space.page.saved'' [(''pageId'', JStr pageId), (''revision'', JNum (revision + 1))] now
        (s\<lparr>ss_pages := map (\<lambda>row. if pg_id row = pageId
             then row\<lparr>pg_title := titleText, pg_body := bodyText, pg_revision := revision + 1, pg_updatedAt := now\<rparr> else row) (ss_pages s)\<rparr>)"
    using savePage_Inr [OF assms(1)] by blast
  have other: "spaceId \<noteq> other" using spacePage_role [OF old] assms(3) by blast
  have "filter (\<lambda>row. pg_spaceId row = spaceId) (map (\<lambda>row. if pg_id row = pageId
             then row\<lparr>pg_title := titleText, pg_body := bodyText, pg_revision := revision + 1, pg_updatedAt := now\<rparr> else row) (ss_pages s))
      = filter (\<lambda>row. pg_spaceId row = spaceId) (ss_pages s)"
    by (rule filter_map_other) (use page_space [OF assms(2) old] other in auto)
  then show ?thesis unfolding s' rows_audit spaceRows_def by simp
qed

lemma beginRun_rows:
  assumes "beginRun sha256 userId other pageId runId message now s = Inr (finished, s')" "tablesOk s"
    "\<not> (other = spaceId \<and> hasRole userId spaceId SpaceEditor s)"
  shows "spaceRows spaceId s' = spaceRows spaceId s"
proof -
  obtain page where page: "spacePage userId other pageId SpaceEditor s = Inr page" and
    cases: "s' = s \<or> (\<exists>prior. findRun runId s = Some prior \<and> rn_pageId prior = pageId
            \<and> s' = setRunState (\<lambda>run. rn_runId run = runId) RunActive s)
       \<or> (\<exists>run. rn_spaceId run = other \<and> s' = s\<lparr>ss_runs := ss_runs s @ [run]\<rparr>)"
    using beginRun_Inr [OF assms(1)] by blast
  have other: "spaceId \<noteq> other" using spacePage_role [OF page] assms(3) by blast
  from cases show ?thesis
  proof (elim disjE exE conjE)
    fix prior
    assume prior: "findRun runId s = Some prior" "rn_pageId prior = pageId" and s': "s' = setRunState (\<lambda>run. rn_runId run = runId) RunActive s"
    have inRuns: "prior \<in> set (ss_runs s)" "rn_runId prior = runId" using find_in_set prior(1) unfolding findRun_def by fast+
    have "onPage (set (pageKeys s)) (rn_spaceId prior) pageId" using run_page [OF assms(2) inRuns(1)] prior(2) by simp
    then have "rn_spaceId prior = other" using page_space_unique [OF assms(2)] spacePage_key [OF page] by blast
    moreover have "run = prior" if "run \<in> set (ss_runs s)" "rn_runId run = runId" for run
      using distinct_row [of rn_runId "ss_runs s" run prior] assms(2) that inRuns by (simp add: tablesOk_def runsFit_def)
    ultimately show ?thesis unfolding s' using other by (intro rows_setRunState) auto
  next
    fix run
    assume "rn_spaceId run = other" "s' = s\<lparr>ss_runs := ss_runs s @ [run]\<rparr>"
    then show ?thesis using other by (simp add: spaceRows_def)
  qed simp
qed

lemma createConversation_rows:
  assumes "createConversation userId other page title requestId freshId now s = Inr (found, s')"
    "\<not> (other = spaceId \<and> hasRole userId spaceId SpaceEditor s)"
  shows "spaceRows spaceId s' = spaceRows spaceId s"
proof -
  obtain pageId requested requestText where
    rows: "createConversationRows userId other pageId requested requestText freshId now s = Inr (found, s')"
    using createConversation_Inr [OF assms(1)] by blast
  obtain row where page: "spacePage userId other pageId SpaceEditor s = Inr row"
    and cases: "s' = s \<or> (\<exists>row titles. cv_spaceId row = other \<and> s' = auditSpace userId other ''space.conversation.created''
                 [(''conversationId'', JStr freshId), (''pageId'', JStr pageId)] now
                 (s\<lparr>ss_conversations := ss_conversations s @ [row], ss_titles := titles\<rparr>))"
    using createConversationRows_Inr [OF rows] by blast
  have "spaceId \<noteq> other" using spacePage_role [OF page] assms(2) by blast
  then show ?thesis using cases by (auto simp: spaceRows_def)
qed

lemma renameConversation_rows:
  assumes "renameConversation userId other conversation title revision expectedTitle now s = Inr (found, s')" "tablesOk s"
    "\<not> (other = spaceId \<and> hasRole userId spaceId SpaceEditor s)"
  shows "spaceRows spaceId s' = spaceRows spaceId s"
proof -
  obtain conversationId requested expectedText where
    rows: "renameConversationRows userId other conversationId requested revision expectedText now s = Inr (found, s')"
    using renameConversation_Inr [OF assms(1)] by blast
  obtain view row titles where view: "spaceAccess userId other SpaceEditor s = Inr view"
    and row: "row \<in> set (ss_conversations s)" "cv_spaceId row = other" "cv_id row = conversationId"
    and cases: "s' = s
       \<or> s' = auditSpace userId other ''space.conversation.renamed''
               [(''conversationId'', JStr conversationId), (''pageId'', JStr (cv_pageId row))] now
               (s\<lparr>ss_conversations := map (\<lambda>r. if cv_id r = conversationId
                      then r\<lparr>cv_title := allocateTitle userId (cv_pageId row) requested (Some conversationId) s\<rparr> else r) (ss_conversations s),
                  ss_titles := titles\<rparr>)"
    using renameConversationRows_Inr [OF rows] by blast
  have other: "spaceId \<noteq> other" using view assms(3) unfolding hasRole_iff by blast
  have unique: "r = row" if "r \<in> set (ss_conversations s)" "cv_id r = conversationId" for r
    using distinct_row [of cv_id "ss_conversations s" r row] assms(2) that row by (simp add: tablesOk_def conversationsFit_def)
  have "filter (\<lambda>r. cv_spaceId r = spaceId) (map (\<lambda>r. if cv_id r = conversationId
                      then r\<lparr>cv_title := allocateTitle userId (cv_pageId row) requested (Some conversationId) s\<rparr> else r) (ss_conversations s))
      = filter (\<lambda>r. cv_spaceId r = spaceId) (ss_conversations s)"
    by (rule filter_map_other) (use unique row(2) other in auto)
  then show ?thesis using cases by (auto simp: spaceRows_def)
qed

lemma createSpace_rows:
  assumes "createSpace userId name requestId freshId now s = Inr (view, s')"
    "\<not> (freshId = spaceId \<and> isActiveAccount userId s \<and> findSpace spaceId s = None \<and> \<not> deleting spaceId s)"
  shows "spaceRows spaceId s' = spaceRows spaceId s"
proof (cases "s' = s")
  case False
  obtain nameText requestText where rows: "createSpaceRows userId nameText requestText freshId now s = Inr (view, s')"
    using createSpace_Inr [OF assms(1)] by blast
  obtain space where new: "isActiveAccount userId s" "freshId \<notin> spaceIds s" "sr_id space = freshId"
      and s': "s' = auditSpace userId freshId ''space.created'' [] now (s\<lparr>ss_spaces := ss_spaces s @ [space],
                  ss_members := ss_members s @ [\<lparr>mr_spaceId = freshId, mr_userId = userId, mr_role = SpaceOwner\<rparr>]\<rparr>)"
    using createSpaceRows_Inr [OF rows] False by blast
  have "findSpace freshId s = None" using new(2) by (auto simp: findSpace_def find_None_iff spaceIds_def)
  then have "spaceId \<noteq> freshId" using assms(2) new(1) createSpace_undeleted [OF assms(1)] False by blast
  then show ?thesis unfolding s' using new(3) by (simp add: spaceRows_def)
qed simp

lemma store_step_rows:
  assumes "store_step sha256 call s s'" "tablesOk s" "\<not> authorised call spaceId s"
    and purge: "\<And>other replies now. call = PurgeSettled other replies now \<Longrightarrow> other \<noteq> spaceId \<or> s' = s"
  shows "spaceRows spaceId s' = spaceRows spaceId s"
  using assms
proof (induction rule: store_step.induct)
  case (left userId other revision succeeded s)
  then show ?case by (simp add: finishLeave_def)
next
  case (finishes_run runId onlyPage s)
  then show ?case unfolding finishRun_def by (intro rows_setRunState) (auto simp: list_ex_iff)
next
  case (fails_run runId s)
  then show ?case unfolding failRun_def by (intro rows_setRunState) (auto simp: list_ex_iff)
next
  case (purges other replies now s userId)
  then show ?case using rows_finishDelete by metis
next
  case (creates_space userId name requestId freshId now s view s')
  then show ?case using createSpace_rows by simp
next
  case (sets_account userId active s)
  then show ?case by (simp add: setAccountActive_def)
qed (simp_all add: setMember_rows leaveSpace_rows beginDelete_rows createPage_rows savePage_rows beginRun_rows
    createConversation_rows renameConversation_rows addAccount_def)

section \<open>Running purges\<close>

definition spaceKeys :: "space_store \<Rightarrow> (string \<times> string) set" where
  "spaceKeys s = set (map (\<lambda>row. (sr_id row, sr_agentId row)) (ss_spaces s))"

definition deletionKeys :: "space_store \<Rightarrow> (string \<times> string) set" where
  "deletionKeys s = set (map (\<lambda>row. (dl_spaceId row, dl_agentId row)) (ss_deletions s))"

lemma keys_simps [simp]:
  "spaceKeys (auditSpace u sp e d n s) = spaceKeys s" "deletionKeys (auditSpace u sp e d n s) = deletionKeys s"
  "spaceKeys (setRevision sp r s) = spaceKeys s" "deletionKeys (setRevision sp r s) = deletionKeys s"
  "spaceKeys (revokeRuns chosen s) = spaceKeys s" "deletionKeys (revokeRuns chosen s) = deletionKeys s"
  "spaceKeys (setRunState chosen state s) = spaceKeys s" "deletionKeys (setRunState chosen state s) = deletionKeys s"
  "spaceKeys (changeMember sp m role s) = spaceKeys s" "deletionKeys (changeMember sp m role s) = deletionKeys s"
  by (auto simp: spaceKeys_def deletionKeys_def setRevision_def revokeRuns_def setRunState_def changeMember_def
      upsertMember_def deleteMember_def comp_def split: option.split)

lemma keys_fields [simp]:
  "spaceKeys (s\<lparr>ss_pages := p\<rparr>) = spaceKeys s" "deletionKeys (s\<lparr>ss_pages := p\<rparr>) = deletionKeys s"
  "spaceKeys (s\<lparr>ss_runs := q\<rparr>) = spaceKeys s" "deletionKeys (s\<lparr>ss_runs := q\<rparr>) = deletionKeys s"
  "spaceKeys (s\<lparr>ss_members := m\<rparr>) = spaceKeys s" "deletionKeys (s\<lparr>ss_members := m\<rparr>) = deletionKeys s"
  "spaceKeys (s\<lparr>ss_conversations := c\<rparr>) = spaceKeys s" "deletionKeys (s\<lparr>ss_conversations := c\<rparr>) = deletionKeys s"
  "spaceKeys (s\<lparr>ss_titles := t\<rparr>) = spaceKeys s" "deletionKeys (s\<lparr>ss_titles := t\<rparr>) = deletionKeys s"
  "spaceKeys (s\<lparr>ss_departures := x\<rparr>) = spaceKeys s" "deletionKeys (s\<lparr>ss_departures := x\<rparr>) = deletionKeys s"
  "spaceKeys (s\<lparr>ss_accounts := a\<rparr>) = spaceKeys s" "deletionKeys (s\<lparr>ss_accounts := a\<rparr>) = deletionKeys s"
  "spaceKeys (s\<lparr>ss_agents := g\<rparr>) = spaceKeys s" "deletionKeys (s\<lparr>ss_agents := g\<rparr>) = deletionKeys s"
  "spaceKeys (s\<lparr>ss_deletions := d\<rparr>) = spaceKeys s" "deletionKeys (s\<lparr>ss_spaces := w\<rparr>) = deletionKeys s"
  by (simp_all add: spaceKeys_def deletionKeys_def)

lemma finishDelete_keys: "deletionKeys (finishDelete userId spaceId now s) = deletionKeys s"
    "spaceKeys (finishDelete userId spaceId now s) \<subseteq> spaceKeys s"
  by (auto simp: finishDelete_def deleteSpaceRows_def Let_def deletionKeys_def spaceKeys_def comp_def)

lemma deleting_keys: "deleting spaceId s \<longleftrightarrow> (\<exists>agentId. (spaceId, agentId) \<in> deletionKeys s)"
  by (auto simp: deleting_def deletionKeys_def list_ex_iff)

text \<open>What happens to spaces and deletions: nothing but a new space, a new deletion, or a purge.\<close>

inductive keys_step :: "space_store \<Rightarrow> space_store \<Rightarrow> bool" where
  same_keys: "spaceKeys s' = spaceKeys s \<Longrightarrow> deletionKeys s' = deletionKeys s \<Longrightarrow> keys_step s s'"
| new_space: "\<not> deleting spaceId s \<Longrightarrow> spaceKeys s' = insert (spaceId, agentId) (spaceKeys s) \<Longrightarrow> deletionKeys s' = deletionKeys s \<Longrightarrow>
    keys_step s s'"
| new_deletion: "(spaceId, agentId) \<in> spaceKeys s \<Longrightarrow> spaceKeys s' = spaceKeys s \<Longrightarrow>
    deletionKeys s' = insert (spaceId, agentId) (deletionKeys s) \<Longrightarrow> keys_step s s'"

lemma createSpace_keys:
  assumes "createSpace userId name requestId freshId now s = Inr (view, s')"
  shows "keys_step s s'"
proof (cases "s' = s")
  case False
  obtain nameText requestText where rows: "createSpaceRows userId nameText requestText freshId now s = Inr (view, s')"
    using createSpace_Inr [OF assms] by blast
  obtain space where "sr_id space = freshId"
      and s': "s' = auditSpace userId freshId ''space.created'' [] now (s\<lparr>ss_spaces := ss_spaces s @ [space],
                  ss_members := ss_members s @ [\<lparr>mr_spaceId = freshId, mr_userId = userId, mr_role = SpaceOwner\<rparr>]\<rparr>)"
    using createSpaceRows_Inr [OF rows] False by blast
  then have "spaceKeys s' = insert (freshId, sr_agentId space) (spaceKeys s)" "deletionKeys s' = deletionKeys s"
    unfolding s' keys_simps keys_fields by (auto simp: spaceKeys_def)
  then show ?thesis using createSpace_undeleted [OF assms] False by (blast intro: new_space)
qed (simp add: same_keys)

lemma space_key:
  assumes "spaceAccess userId spaceId role s = Inr view"
  shows "(spaceId, sv_agentId view) \<in> spaceKeys s"
  using assms by (auto simp: spaceAccess_ok spaceKeys_def dest!: findSpace_in)

lemma beginDelete_keys:
  assumes "beginDelete userId spaceId revision confirmName now s = Inr (row, s')"
  shows "keys_step s s' \<and> (spaceId, dl_agentId row) \<in> deletionKeys s'"
  using beginDelete_Inr [OF assms]
proof (elim disjE exE conjE)
  assume "s' = s" "findDeletion spaceId s = Some row"
  then show ?thesis by (auto simp: same_keys findDeletion_def deletionKeys_def dest!: find_in_set)
next
  fix view
  assume view: "spaceAccess userId spaceId SpaceOwner s = Inr view" and row: "dl_spaceId row = spaceId" "dl_agentId row = sv_agentId view"
    and s': "s' = auditSpace userId spaceId ''space.deletion.started'' [] now
               (revokeRuns (\<lambda>run. rn_spaceId run = spaceId) (setRevision spaceId (revision + 1)
                 (s\<lparr>ss_deletions := ss_deletions s @ [row]\<rparr>)))"
  have "spaceKeys s' = spaceKeys s" "deletionKeys s' = insert (spaceId, sv_agentId view) (deletionKeys s)"
    unfolding s' keys_simps keys_fields using row by (auto simp: deletionKeys_def)
  then show ?thesis using space_key [OF view] row by (auto intro: new_deletion)
qed

lemma setMember_keys:
  assumes "setMember userId spaceId memberId role revision now s = Inr (u, s')"
  shows "spaceKeys s' = spaceKeys s \<and> deletionKeys s' = deletionKeys s"
proof -
  obtain parsed where rows: "setMemberRows userId spaceId memberId parsed revision now s = Inr (u, s')"
    using setMember_Inr [OF assms(1)] by blast
  have s': "s' = afterMemberChange userId spaceId memberId parsed revision now (changeMember spaceId memberId parsed s)"
    using setMemberRows_Inr [OF rows] by blast
  show ?thesis unfolding s' by (simp add: afterMemberChange_def Let_def)
qed

lemma leaveSpace_keys:
  assumes "leaveSpace userId spaceId revision now s = Inr (outcome, s')"
  shows "spaceKeys s' = spaceKeys s \<and> deletionKeys s' = deletionKeys s"
  using leaveSpace_Inr [OF assms] by (auto simp: departMember_def Let_def recordDeparture_def deleteMember_def)

lemma createPage_keys:
  assumes "createPage userId spaceId parentId title body requestId freshId now s = Inr (page, s')"
  shows "spaceKeys s' = spaceKeys s \<and> deletionKeys s' = deletionKeys s"
proof -
  obtain titleText bodyText requestText where
    rows: "createPageRows userId spaceId parentId titleText bodyText requestText freshId now s = Inr (page, s')"
    using createPage_Inr [OF assms(1)] by blast
  show ?thesis using createPageRows_Inr [OF rows] by auto
qed

lemma savePage_keys:
  "savePage userId spaceId pageId title body revision now s = Inr (page, s') \<Longrightarrow> spaceKeys s' = spaceKeys s \<and> deletionKeys s' = deletionKeys s"
  by (drule savePage_Inr) auto

lemma beginRun_keys:
  "beginRun sha256 userId spaceId pageId runId message now s = Inr (finished, s') \<Longrightarrow>
     spaceKeys s' = spaceKeys s \<and> deletionKeys s' = deletionKeys s"
  by (drule beginRun_Inr) auto

lemma createConversation_keys:
  assumes "createConversation userId spaceId page title requestId freshId now s = Inr (found, s')"
  shows "spaceKeys s' = spaceKeys s \<and> deletionKeys s' = deletionKeys s"
proof -
  obtain pageId requested requestText where
    rows: "createConversationRows userId spaceId pageId requested requestText freshId now s = Inr (found, s')"
    using createConversation_Inr [OF assms(1)] by blast
  show ?thesis using createConversationRows_Inr [OF rows] by auto
qed

lemma renameConversation_keys:
  assumes "renameConversation userId spaceId conversation title revision expectedTitle now s = Inr (found, s')"
  shows "spaceKeys s' = spaceKeys s \<and> deletionKeys s' = deletionKeys s"
proof -
  obtain conversationId requested expectedText where
    rows: "renameConversationRows userId spaceId conversationId requested revision expectedText now s = Inr (found, s')"
    using renameConversation_Inr [OF assms(1)] by blast
  show ?thesis using renameConversationRows_Inr [OF rows] by auto
qed

lemma store_step_keys:
  assumes "store_step sha256 call s s'"
  shows "keys_step s s' \<or> (\<exists>spaceId replies now userId. call = PurgeSettled spaceId replies now \<and> s' = finishDelete userId spaceId now s)"
  using assms
proof (induction rule: store_step.induct)
  case (deletes userId spaceId revision confirmName now s deletion s')
  then show ?case using beginDelete_keys by blast
next
  case (creates_space userId name requestId freshId now s view s')
  then show ?case using createSpace_keys by blast
qed (auto intro!: same_keys simp: setMember_keys leaveSpace_keys createPage_keys savePage_keys beginRun_keys createConversation_keys
    renameConversation_keys finishLeave_def finishRun_def failRun_def addAccount_def setAccountActive_def)

text \<open>The agent of a deletion is the agent of its space.\<close>

definition deletionsFit :: "space_store \<Rightarrow> bool" where
  "deletionsFit s \<longleftrightarrow>
     (\<forall>spaceId agent agent'. (spaceId, agent) \<in> spaceKeys s \<longrightarrow> (spaceId, agent') \<in> deletionKeys s \<longrightarrow> agent = agent')"

lemma space_key_unique:
  "tablesOk s \<Longrightarrow> (spaceId, agent) \<in> spaceKeys s \<Longrightarrow> (spaceId, agent') \<in> spaceKeys s \<Longrightarrow> agent = agent'"
  unfolding tablesOk_def spaceKeys_def by (auto dest: distinct_row)

lemma keys_step_fit:
  assumes "keys_step s s'" "tablesOk s" "deletionsFit s"
  shows "deletionsFit s'"
  using assms
proof (induction rule: keys_step.induct)
  case (new_space spaceId s s' agentId)
  then show ?case by (auto simp: deletionsFit_def deleting_keys)
next
  case (new_deletion spaceId agentId s s')
  have "agent = agentId" if "(spaceId, agent) \<in> spaceKeys s" for agent
    by (rule space_key_unique [OF new_deletion(4) that new_deletion(1)])
  then show ?case using new_deletion(2, 3, 5) by (auto simp: deletionsFit_def)
qed (simp add: deletionsFit_def)

lemma finishDelete_fit: "deletionsFit s \<Longrightarrow> deletionsFit (finishDelete userId spaceId now s)"
  using finishDelete_keys unfolding deletionsFit_def by blast

lemma store_step_fit:
  "store_step sha256 call s s' \<Longrightarrow> tablesOk s \<Longrightarrow> deletionsFit s \<Longrightarrow> deletionsFit s'"
  using store_step_keys keys_step_fit finishDelete_fit by metis

lemma store_step_deleting: "store_step sha256 call s s' \<Longrightarrow> deletionKeys s \<subseteq> deletionKeys s'"
  using store_step_keys [of sha256 call s s'] finishDelete_keys(1) by (auto elim: keys_step.cases)

text \<open>A running purge covers the sessions that its space still has.\<close>

definition purgesOk :: "lifecycle \<Rightarrow> bool" where
  "purgesOk l \<longleftrightarrow>
     (\<forall>p \<in> set (lf_deleting l). \<exists>agentId. (pu_spaceId p, agentId) \<in> deletionKeys (lf_store l)
        \<and> pu_sessions p = deletionSessions (pu_spaceId p) agentId (lf_store l))"

definition lifecycleOk :: "lifecycle \<Rightarrow> bool" where
  "lifecycleOk l \<longleftrightarrow> tablesOk (lf_store l) \<and> deletionsFit (lf_store l) \<and> purgesOk l"

lemma deleting_no_role: "deleting spaceId s \<Longrightarrow> \<not> hasRole userId spaceId role s"
  by (auto simp: hasRole_iff spaceAccess_ok)

lemma sealed_step:
  assumes "tablesOk (lf_store l)" "deleting spaceId (lf_store l)"
    and "\<And>other replies now. call = PurgeSettled other replies now \<Longrightarrow> other \<noteq> spaceId \<or> lf_store (spaceStep sha256 call l) = lf_store l"
  shows "withoutRuns (spaceRows spaceId (lf_store (spaceStep sha256 call l))) = withoutRuns (spaceRows spaceId (lf_store l))"
proof (cases "\<exists>runId pageId. call = FinishRun runId pageId \<or> call = FailRun runId")
  case True
  then show ?thesis by (auto simp: finishRun_def failRun_def setRunState_withoutRuns)
next
  case False
  show ?thesis
  proof (cases "\<exists>target replies now. call = PurgeSettled target replies now")
    case True
    then obtain target replies now where call: "call = PurgeSettled target replies now" by blast
    then consider "lf_store (spaceStep sha256 call l) = lf_store l" | "\<not> authorised call spaceId (lf_store l)"
      using assms(3) [OF call] by auto
    then show ?thesis
      using store_step_rows [OF spaceStep_step assms(1)] assms(3) by cases (metis, metis)
  next
    case purge: False
    then have "\<not> authorised call spaceId (lf_store l)"
      using False assms(2) deleting_no_role [OF assms(2)] by (cases call) auto
    then have "spaceRows spaceId (lf_store (spaceStep sha256 call l)) = spaceRows spaceId (lf_store l)"
      by (rule store_step_rows [OF spaceStep_step assms(1)]) (use purge in blast)
    then show ?thesis by simp
  qed
qed

lemma sealed_sessions: "withoutRuns (spaceRows spaceId s') = withoutRuns (spaceRows spaceId s) \<Longrightarrow>
    deletionSessions spaceId agentId s' = deletionSessions spaceId agentId s"
  by (simp add: withoutRuns_def spaceRows_def deletionSessions_def)

lemma purges_kept:
  assumes "lifecycleOk l" "p \<in> set (lf_deleting l)"
    and "\<And>other replies now. call = PurgeSettled other replies now \<Longrightarrow> other \<noteq> pu_spaceId p"
  shows "\<exists>agentId. (pu_spaceId p, agentId) \<in> deletionKeys (lf_store (spaceStep sha256 call l))
    \<and> pu_sessions p = deletionSessions (pu_spaceId p) agentId (lf_store (spaceStep sha256 call l))"
proof -
  obtain agentId where agent: "(pu_spaceId p, agentId) \<in> deletionKeys (lf_store l)"
      "pu_sessions p = deletionSessions (pu_spaceId p) agentId (lf_store l)"
    using assms(1, 2) by (auto simp: lifecycleOk_def purgesOk_def)
  have "tablesOk (lf_store l)" "deleting (pu_spaceId p) (lf_store l)"
    using assms(1) agent(1) by (auto simp: lifecycleOk_def deleting_keys)
  then have "withoutRuns (spaceRows (pu_spaceId p) (lf_store (spaceStep sha256 call l))) = withoutRuns (spaceRows (pu_spaceId p) (lf_store l))"
    using sealed_step [of l "pu_spaceId p" call sha256] assms(3) by simp
  from sealed_sessions [OF this, of agentId] agent show ?thesis
    using store_step_deleting [OF spaceStep_step [of sha256 call l]] by auto
qed

lemma startPurge_new:
  "p \<in> set (lf_deleting (startPurge userId spaceId agentId l)) \<Longrightarrow>
     p \<in> set (lf_deleting l) \<or> pu_spaceId p = spaceId \<and> pu_sessions p = deletionSessions spaceId agentId (lf_store l)"
  by (auto simp: startPurge_def split: if_splits)

lemma deleteCall_purges:
  assumes "deleteCall userId spaceId revision confirmName now l = Inr (outcome, l')" "p \<in> set (lf_deleting l')" "p \<notin> set (lf_deleting l)"
  shows "\<exists>agentId. (pu_spaceId p, agentId) \<in> deletionKeys (lf_store l') \<and> pu_sessions p = deletionSessions (pu_spaceId p) agentId (lf_store l')"
proof -
  obtain deletion s' where deletion: "beginDelete userId spaceId revision confirmName now (lf_store l) = Inr (deletion, s')"
      and l': "l' = (if dl_deleted deletion then l\<lparr>lf_store := s'\<rparr>
                     else startPurge userId spaceId (dl_agentId deletion) (l\<lparr>lf_store := s'\<rparr>))"
    using assms(1) by (auto simp: deleteCall_def resultThen_ok Let_def split: if_splits)
  have "lf_store l' = s'" "pu_spaceId p = spaceId" "pu_sessions p = deletionSessions spaceId (dl_agentId deletion) s'"
    using assms(2, 3) startPurge_new [of p userId spaceId "dl_agentId deletion" "l\<lparr>lf_store := s'\<rparr>"] unfolding l'
    by (auto split: if_splits)
  then show ?thesis using beginDelete_keys [OF deletion] by blast
qed

text \<open>Only a deletion starts a purge, and a settled purge is over.\<close>

lemma running_purges:
  assumes "p \<in> set (lf_deleting (spaceStep sha256 call l))"
  shows "p \<in> set (lf_deleting l) \<and> (\<forall>other replies now. call = PurgeSettled other replies now \<longrightarrow> other \<noteq> pu_spaceId p)
    \<or> (\<exists>userId spaceId revision confirmName now outcome. p \<notin> set (lf_deleting l)
         \<and> deleteCall userId spaceId revision confirmName now l = Inr (outcome, spaceStep sha256 call l))"
proof (cases call)
  case (LeaveSpace userId spaceId revision now)
  have "leaveCall userId spaceId revision now l = Inr (outcome, l') \<Longrightarrow> lf_deleting l' = lf_deleting l" for outcome l'
    by (auto simp: leaveCall_def resultThen_ok Let_def split: if_splits)
  then have "lf_deleting (spaceStep sha256 call l) = lf_deleting l"
    unfolding LeaveSpace using inTransaction_snd [of "leaveCall userId spaceId revision now" l] by auto
  then show ?thesis using assms LeaveSpace by simp
next
  case (DeleteSpace userId spaceId revision confirmName now)
  then consider "spaceStep sha256 call l = l"
    | outcome where "deleteCall userId spaceId revision confirmName now l = Inr (outcome, spaceStep sha256 call l)"
    using inTransaction_snd [of "deleteCall userId spaceId revision confirmName now" l] by auto
  then show ?thesis using assms DeleteSpace by cases (simp, blast)
next
  case (CancelSettled userId spaceId revision succeeded)
  then show ?thesis using assms by (auto simp: cancelSettled_def Let_def split: if_splits)
next
  case (PurgeSettled spaceId replies now)
  then show ?thesis using assms
    by (auto simp: purgeSettled_def Let_def find_None_iff split: if_splits option.splits)
qed (use assms in \<open>simp_all add: onStore_def\<close>)

lemma spaceStep_lifecycle:
  assumes "lifecycleOk l"
  shows "lifecycleOk (spaceStep sha256 call l)"
proof -
  have "purgesOk (spaceStep sha256 call l)"
    unfolding purgesOk_def
  proof
    fix p assume p: "p \<in> set (lf_deleting (spaceStep sha256 call l))"
    from running_purges [OF this]
    show "\<exists>agentId. (pu_spaceId p, agentId) \<in> deletionKeys (lf_store (spaceStep sha256 call l))
        \<and> pu_sessions p = deletionSessions (pu_spaceId p) agentId (lf_store (spaceStep sha256 call l))"
    proof (elim disjE exE conjE)
      assume "p \<in> set (lf_deleting l)" "\<forall>other replies now. call = PurgeSettled other replies now \<longrightarrow> other \<noteq> pu_spaceId p"
      then show ?thesis using purges_kept [OF assms] by blast
    next
      fix userId spaceId revision confirmName now outcome
      assume "deleteCall userId spaceId revision confirmName now l = Inr (outcome, spaceStep sha256 call l)" "p \<notin> set (lf_deleting l)"
      then show ?thesis using deleteCall_purges p by blast
    qed
  qed
  then show ?thesis
    using assms store_step_tables [OF spaceStep_step] store_step_fit [OF spaceStep_step] unfolding lifecycleOk_def by blast
qed

lemma reached_lifecycle: "lifecycleOk (spaceRun sha256 calls noSpaces)"
proof (rule spaceRun_keeps [where P = lifecycleOk, OF spaceStep_lifecycle])
  show "lifecycleOk noSpaces"
    using noSpaces_tables by (simp add: lifecycleOk_def deletionsFit_def purgesOk_def spaceKeys_def noSpaces_def)
qed

lemma purgeSettled_store:
  "lf_store (purgeSettled spaceId replies now l) = lf_store l
   \<or> (\<exists>p \<in> set (lf_deleting l). pu_spaceId p = spaceId \<and> allPurged p replies
        \<and> lf_store (purgeSettled spaceId replies now l) = finishDelete (pu_userId p) spaceId now (lf_store l))"
  by (auto simp: purgeSettled_def Let_def dest!: find_in_set split: option.split)

lemma sealed_or_purged:
  assumes "lifecycleOk l" "deleting spaceId (lf_store l)"
  shows "withoutRuns (spaceRows spaceId (lf_store (spaceStep sha256 call l))) = withoutRuns (spaceRows spaceId (lf_store l))
    \<or> withoutRuns (spaceRows spaceId (lf_store (spaceStep sha256 call l))) = ([], [], [], [])"
proof (cases "\<exists>replies now. call = PurgeSettled spaceId replies now")
  case True
  then obtain replies now where call: "call = PurgeSettled spaceId replies now" by blast
  show ?thesis
    using purgeSettled_store [of spaceId replies now l] by (auto simp: call rows_purged withoutRuns_def)
next
  case False
  then show ?thesis using sealed_step [of l spaceId call sha256] assms by (auto simp: lifecycleOk_def)
qed

lemma deleting_kept: "deleting spaceId (lf_store l) \<Longrightarrow> deleting spaceId (lf_store (spaceStep sha256 call l))"
  using store_step_deleting [OF spaceStep_step [of sha256 call l]] unfolding deleting_keys by blast

lemma sealed_run:
  assumes "lifecycleOk l" "deleting spaceId (lf_store l)"
  shows "deleting spaceId (lf_store (spaceRun sha256 later l))
    \<and> (withoutRuns (spaceRows spaceId (lf_store (spaceRun sha256 later l))) = withoutRuns (spaceRows spaceId (lf_store l))
       \<or> withoutRuns (spaceRows spaceId (lf_store (spaceRun sha256 later l))) = ([], [], [], []))"
  using assms
proof (induction later arbitrary: l)
  case (Cons call later)
  let ?l = "spaceStep sha256 call l"
  have "lifecycleOk ?l" "deleting spaceId (lf_store ?l)"
    using Cons.prems spaceStep_lifecycle deleting_kept by blast+
  from Cons.IH [OF this] sealed_or_purged [OF Cons.prems, of sha256 call] show ?case by fastforce
qed simp

section \<open>An example\<close>

text \<open>Two colleagues, a space with a page, a run of the editor, and a personal conversation on the page.\<close>

definition exampleCalls :: "space_call list" where
  "exampleCalls =
     [AddAccount \<lparr>ac_id = ''u1'', ac_accountId = ''kim'', ac_displayName = ''Kim'', ac_active = True\<rparr>,
      AddAccount \<lparr>ac_id = ''u2'', ac_accountId = ''lee'', ac_displayName = [], ac_active = True\<rparr>,
      SetAgents [\<lparr>ag_agentId = ''p2'', ag_userId = Some ''u2'', ag_personal = True, ag_active = True\<rparr>],
      CreateSpace ''u1'' (JStr ''Plans'') (JStr ''r1'') ''s1'' 1,
      SetMember ''u1'' ''s1'' ''u2'' (Some ''editor'') 1 2,
      CreatePage ''u2'' ''s1'' None (JStr ''Goals'') (JStr '''') (JStr ''r2'') ''g1'' 3,
      BeginRun ''u2'' ''s1'' ''g1'' ''n1'' ''hello'' 4,
      CreateConversation ''u2'' ''s1'' (JStr ''g1'') (JStr ''Draft'') (JStr ''r3'') ''c1'' 5]"

definition exampleStore :: space_store where
  "exampleStore =
     \<lparr>ss_accounts = [\<lparr>ac_id = ''u1'', ac_accountId = ''kim'', ac_displayName = ''Kim'', ac_active = True\<rparr>,
                     \<lparr>ac_id = ''u2'', ac_accountId = ''lee'', ac_displayName = [], ac_active = True\<rparr>],
      ss_agents = [\<lparr>ag_agentId = ''p2'', ag_userId = Some ''u2'', ag_personal = True, ag_active = True\<rparr>],
      ss_spaces = [\<lparr>sr_id = ''s1'', sr_name = ''Plans'', sr_agentId = ''space-s1'', sr_creatorId = ''u1'', sr_requestId = ''r1'',
                    sr_revision = 2, sr_createdAt = 1\<rparr>],
      ss_members = [\<lparr>mr_spaceId = ''s1'', mr_userId = ''u1'', mr_role = SpaceOwner\<rparr>,
                    \<lparr>mr_spaceId = ''s1'', mr_userId = ''u2'', mr_role = SpaceEditor\<rparr>],
      ss_pages = [\<lparr>pg_id = ''g1'', pg_spaceId = ''s1'', pg_parentId = None, pg_title = ''Goals'', pg_body = [], pg_revision = 1,
                   pg_creatorId = ''u2'', pg_requestId = ''r2'', pg_updatedAt = 3\<rparr>],
      ss_runs = [\<lparr>rn_runId = ''n1'', rn_spaceId = ''s1'', rn_pageId = ''g1'', rn_userId = ''u2'', rn_contentHash = ''hello'',
                  rn_state = RunActive, rn_createdAt = 4\<rparr>],
      ss_deletions = [], ss_departures = [],
      ss_conversations = [\<lparr>cv_id = ''c1'', cv_spaceId = ''s1'', cv_pageId = ''g1'', cv_title = ''Draft'', cv_ownerId = ''u2'',
                           cv_ownerName = ''lee'', cv_agentId = ''p2'', cv_sessionKey = ''agent:p2:space-session:c1'',
                           cv_requestId = ''r3'', cv_createdAt = 5\<rparr>],
      ss_titles = [],
      ss_audit = [\<lparr>sa_actor = ''u1'', sa_event = ''space.created'', sa_spaceId = ''s1'', sa_createdAt = 1, sa_details = []\<rparr>,
                  \<lparr>sa_actor = ''u1'', sa_event = ''space.member.changed'', sa_spaceId = ''s1'', sa_createdAt = 2,
                   sa_details = [(''userId'', JStr ''u2''), (''role'', JStr ''editor'')]\<rparr>,
                  \<lparr>sa_actor = ''u2'', sa_event = ''space.page.created'', sa_spaceId = ''s1'', sa_createdAt = 3,
                   sa_details = [(''pageId'', JStr ''g1'')]\<rparr>,
                  \<lparr>sa_actor = ''u2'', sa_event = ''space.conversation.created'', sa_spaceId = ''s1'', sa_createdAt = 5,
                   sa_details = [(''conversationId'', JStr ''c1''), (''pageId'', JStr ''g1'')]\<rparr>]\<rparr>"

definition exampleSpaces :: lifecycle where
  "exampleSpaces = \<lparr>lf_store = exampleStore, lf_deleting = [], lf_leaving = []\<rparr>"

lemma exampleSpaces_reached: "spaceRun id exampleCalls noSpaces = exampleSpaces"
  by code_simp

lemma spaceRun_append: "spaceRun sha256 (calls @ later) l = spaceRun sha256 later (spaceRun sha256 calls l)"
  by (simp add: spaceRun_def)

text \<open>The editor is removed; or the space is deleted, and the gateway confirms the purge of every session.\<close>

definition exampleDelete :: space_call where
  "exampleDelete = DeleteSpace ''u1'' ''s1'' 2 ''Plans'' 6"

definition examplePurge :: space_call where
  "examplePurge = PurgeSettled ''s1'' (\<lambda>key. Some (JObj [(''ok'', JBool True), (''key'', JStr key), (''purged'', JBool True),
     (''purgeScope'', JStr ''owned-session-data'')])) 7"

lemma exampleDelete_reached: "spaceRun id (exampleCalls @ [exampleDelete]) noSpaces = spaceStep id exampleDelete exampleSpaces"
  by (simp add: spaceRun_append exampleSpaces_reached)

lemma example_demotion:
  "spaceRows ''s1'' (lf_store (spaceStep id (SetMember ''u1'' ''s1'' ''u2'' None 2 6) exampleSpaces)) \<noteq> spaceRows ''s1'' (lf_store exampleSpaces)"
  by code_simp

lemma example_deleting: "deleting ''s1'' (lf_store (spaceStep id exampleDelete exampleSpaces))"
  by code_simp

lemma example_purged:
  "findSpace ''s1'' (lf_store (spaceStep id exampleDelete exampleSpaces)) = Some (hd (ss_spaces (lf_store (spaceStep id exampleDelete exampleSpaces))))"
  "findSpace ''s1'' (lf_store (spaceStep id examplePurge (spaceStep id exampleDelete exampleSpaces))) = None"
  by code_simp+

text \<open>The editor has an active run, which is accepted; it stays active when the account is disabled, and is refused.\<close>

lemma example_disabled:
  "assertRun ''space-s1'' (Some ''n1'') (Some ''g1'') (lf_store exampleSpaces) = Inr ()"
  "ss_runs (lf_store (spaceStep id (SetAccountActive ''u2'' False) exampleSpaces)) = ss_runs (lf_store exampleSpaces)"
  "assertRun ''space-s1'' (Some ''n1'') (Some ''g1'') (lf_store (spaceStep id (SetAccountActive ''u2'' False) exampleSpaces)) = spaceUnavailable"
  by code_simp+

text \<open>The user of an active run may write exactly when the account is active, and then the run is accepted.\<close>

lemma find_key:
  "distinct (map f xs) \<Longrightarrow> x \<in> set xs \<Longrightarrow> List.find (\<lambda>y. f y = f x) xs = Some x"
  by (induction xs) auto

lemma run_space:
  assumes ok: "tablesOk s" and run: "run \<in> set (ss_runs s)"
  shows "\<exists>space. findSpace (rn_spaceId run) s = Some space"
proof -
  have "onPage (set (pageKeys s)) (rn_spaceId run) (rn_pageId run)" "pagesFit (spaceIds s) (pageKeys s)"
    using ok run by (simp_all add: tablesOk_def runsFit_def)
  then have "rn_spaceId run \<in> spaceIds s" by (auto simp: onPage_def pagesFit_def)
  then show ?thesis
    unfolding findSpace_def spaceIds_def by (cases "List.find (\<lambda>row. sr_id row = rn_spaceId run) (ss_spaces s)") (auto simp: find_None_iff)
qed

lemma run_writer:
  assumes ok: "tablesOk s" and run: "run \<in> set (ss_runs s)" "rn_state run = RunActive"
  shows "hasRole (rn_userId run) (rn_spaceId run) SpaceEditor s = isActiveAccount (rn_userId run) s"
proof -
  note r = runs_active [OF ok run]
  then obtain row where row: "row \<in> set (ss_members s)" "mr_spaceId row = rn_spaceId run" "mr_userId row = rn_userId run"
    "mr_role row \<noteq> SpaceViewer" by (auto simp: mayWrite_def)
  have "distinct (map (\<lambda>row. (mr_spaceId row, mr_userId row)) (ss_members s))"
    using ok by (simp add: tablesOk_def membersFit_def)
  from find_key [OF this row(1)] have "findMember (rn_spaceId run) (rn_userId run) s = Some row"
    using row(2,3) by (simp add: findMember_def)
  then show ?thesis
    using run_space [OF ok run(1)] r row(4)
    by (auto simp: hasRole_iff spaceAccess_ok deleting_iff rank_editor simp del: rank.simps)
qed

lemma run_accepted:
  assumes ok: "tablesOk s" and run: "run \<in> set (ss_runs s)" "rn_state run = RunActive"
  shows "(assertRun agentId (Some (rn_runId run)) pageId s = Inr ()) =
    (isActiveAccount (rn_userId run) s \<and> rn_runId run \<noteq> [] \<and> spaceForAgent agentId s = Some (rn_spaceId run)
     \<and> pageId \<in> {None, Some [], Some (rn_pageId run)})"
proof -
  have "distinct (map rn_runId (ss_runs s))" using ok by (simp add: tablesOk_def runsFit_def)
  then have find: "findRun (rn_runId run) s = Some run" unfolding findRun_def using run(1) by (rule find_key)
  obtain page where "page \<in> set (ss_pages s)" "pg_id page = rn_pageId run" "pg_spaceId page = rn_spaceId run"
    using run_page [OF ok run(1)] by (auto simp: onPage_def pageKeys_def pageKey_def)
  then have "\<exists>page. List.find (\<lambda>page. pg_id page = rn_pageId run \<and> pg_spaceId page = rn_spaceId run) (ss_pages s) = Some page"
    by (cases "List.find (\<lambda>page. pg_id page = rn_pageId run \<and> pg_spaceId page = rn_spaceId run) (ss_pages s)")
      (auto simp: find_None_iff)
  then have page: "(\<exists>page. spacePage (rn_userId run) (rn_spaceId run) (rn_pageId run) SpaceEditor s = Inr page)
      = isActiveAccount (rn_userId run) s"
    unfolding run_writer [OF ok run, symmetric] hasRole_iff spacePage_ok by blast
  show ?thesis
  proof (cases "rn_runId run = []")
    case True
    then show ?thesis by (simp add: assertRun_def)
  next
    case False
    then show ?thesis
      using find run(2) page by (cases pageId) (auto simp: assertRun_def resultThen_ok simp del: spacePage_ok)
  qed
qed

section \<open>Properties\<close>

text \<open>
  C34. After any history of calls the tables of the spaces are well-formed: keys are unique, every member, page, run
  and conversation refers to rows of its own space, pages are nested at most 20 deep without cycles, no two
  conversations of an owner on a page have the same title, and a space has at most 200 conversations.
\<close>

theorem space_tables_wellformed: "tablesOk (lf_store (spaceRun sha256 calls noSpaces))"
  by (rule reached_tables)

text \<open>
  C35. After any history of calls every active run belongs to a space that is not being deleted, to a page of that
  space, and to a user who is at that moment a member of the space with a role that may write: demoting or removing
  a member, a member who leaves and a deletion all revoke the runs concerned at once. Disabling the account of
  the user does not revoke the run, but the user may then not write and no use of the run is accepted: of an active
  run the user may write in the space exactly when the account is active, and the run is accepted exactly
  then, from the agent of its space, for its page.
\<close>

theorem active_runs_authorised:
  "let s = lf_store (spaceRun sha256 calls noSpaces)
   in list_all (\<lambda>run. \<not> deleting (rn_spaceId run) s
        \<and> list_ex (\<lambda>page. pg_id page = rn_pageId run \<and> pg_spaceId page = rn_spaceId run) (ss_pages s)
        \<and> list_ex (\<lambda>row. mr_spaceId row = rn_spaceId run \<and> mr_userId row = rn_userId run
              \<and> rank SpaceEditor \<le> rank (mr_role row)) (ss_members s)
        \<and> hasRole (rn_userId run) (rn_spaceId run) SpaceEditor s = isActiveAccount (rn_userId run) s
        \<and> (assertRun agentId (Some (rn_runId run)) pageId s = Inr ()) =
            (isActiveAccount (rn_userId run) s \<and> rn_runId run \<noteq> [] \<and> spaceForAgent agentId s = Some (rn_spaceId run)
             \<and> pageId \<in> {None, Some [], Some (rn_pageId run)}))
      (filter (\<lambda>run. rn_state run = RunActive) (ss_runs s))"
proof -
  let ?s = "lf_store (spaceRun sha256 calls noSpaces)"
  have ok: "tablesOk ?s" by (rule reached_tables)
  show ?thesis
    using runs_active [OF ok] run_page [OF ok] run_writer [OF ok] run_accepted [OF ok]
    by (fastforce simp: Let_def list_all_iff list_ex_iff deleting_iff mayWrite_def onPage_def pageKeys_def pageKey_def rank_editor
        simp del: rank.simps)
qed

text \<open>
  C36. A call changes the rows of a space (the space, its members, pages, runs and conversations) only when it names
  that space and its user has the role the operation needs: an owner for members and deletion, a member for
  leaving, an editor for pages, runs and conversations. The calls of the system itself touch only the space of the
  run they settle or a space under deletion. So no call reaches into another space, whatever ids it is given.
\<close>

theorem space_writes_authorised:
  assumes "l = spaceRun sha256 calls noSpaces"
    and "spaceRows spaceId (lf_store (spaceStep sha256 call l)) \<noteq> spaceRows spaceId (lf_store l)"
  shows "authorised call spaceId (lf_store l)"
proof (rule ccontr)
  assume unauthorised: "\<not> authorised call spaceId (lf_store l)"
  have ok: "lifecycleOk l" unfolding assms(1) by (rule reached_lifecycle)
  have "other \<noteq> spaceId \<or> lf_store (spaceStep sha256 call l) = lf_store l"
    if "call = PurgeSettled other replies now" for other replies now
    using that unauthorised purgeSettled_store [of other replies now l] ok
    by (auto simp: lifecycleOk_def purgesOk_def deleting_keys)
  with store_step_rows [OF spaceStep_step] ok unauthorised assms(2) show False unfolding lifecycleOk_def by blast
qed

theorem space_writes_authorised_witness:
  "authorised (SetMember ''u1'' ''s1'' ''u2'' None 2 6) ''s1'' (lf_store exampleSpaces)"
  by (rule space_writes_authorised [OF exampleSpaces_reached [symmetric] example_demotion])

text \<open>
  C37. From the moment a space is marked for deletion nobody has access to it again, in any role and after any
  calls, and its members, pages and conversations stay exactly as they are until all of them are removed.
\<close>

theorem deleted_space_sealed:
  assumes "l = spaceRun sha256 calls noSpaces" and "deleting spaceId (lf_store l)" and "s' = lf_store (spaceRun sha256 later l)"
  shows "\<not> hasRole userId spaceId role s'
    \<and> (withoutRuns (spaceRows spaceId s') = withoutRuns (spaceRows spaceId (lf_store l))
       \<or> withoutRuns (spaceRows spaceId s') = ([], [], [], []))"
proof -
  have "lifecycleOk l" unfolding assms(1) by (rule reached_lifecycle)
  from sealed_run [OF this assms(2), of sha256 later] show ?thesis unfolding assms(3) using deleting_no_role by blast
qed

theorem deleted_space_sealed_witness:
  "\<not> hasRole ''u1'' ''s1'' SpaceViewer (lf_store (spaceRun id [examplePurge] (spaceStep id exampleDelete exampleSpaces)))"
  by (rule deleted_space_sealed [OF exampleDelete_reached [symmetric] example_deleting refl, THEN conjunct1])

text \<open>
  C38. A space is removed only by the settling of its own purge, and only when the gateway has confirmed for every
  session that the space has at that moment (those of its personal conversations and of its pages) that the session
  and the data it owns are purged.
\<close>

theorem purge_confirmed:
  assumes "l = spaceRun sha256 calls noSpaces" and "findSpace spaceId (lf_store l) = Some space"
    and "findSpace spaceId (lf_store (spaceStep sha256 call l)) = None"
  shows "\<exists>replies now. call = PurgeSettled spaceId replies now
    \<and> list_all (\<lambda>(agentId, key). \<exists>reply. replies key = Some reply \<and> purgeConfirmed key reply)
        (deletionSessions spaceId (sr_agentId space) (lf_store l))"
proof -
  let ?s = "lf_store l" and ?s' = "lf_store (spaceStep sha256 call l)"
  have ok: "lifecycleOk l" unfolding assms(1) by (rule reached_lifecycle)
  have key: "(spaceId, sr_agentId space) \<in> spaceKeys ?s" using findSpace_in [OF assms(2)] by (auto simp: spaceKeys_def)
  have gone: "(spaceId, agentId) \<notin> spaceKeys ?s'" for agentId
    using assms(3) by (auto simp: findSpace_def find_None_iff spaceKeys_def)
  have "\<not> keys_step ?s ?s'" using key gone by (auto elim!: keys_step.cases)
  then obtain target replies now where call: "call = PurgeSettled target replies now"
    using store_step_keys [OF spaceStep_step [of sha256 call l]] by blast
  then obtain p where p: "p \<in> set (lf_deleting l)" "pu_spaceId p = target" "allPurged p replies"
      and s': "?s' = finishDelete (pu_userId p) target now ?s"
    using purgeSettled_store [of target replies now l] key gone by auto
  have target: "target = spaceId"
  proof (rule ccontr)
    assume "target \<noteq> spaceId"
    then have "spaceRows spaceId ?s' = spaceRows spaceId ?s" unfolding s' by (intro rows_finishDelete) simp
    from findSpace_rows [OF this] show False using assms(2, 3) by simp
  qed
  obtain agentId where agent: "(spaceId, agentId) \<in> deletionKeys ?s" "pu_sessions p = deletionSessions spaceId agentId ?s"
    using ok p target by (auto simp: lifecycleOk_def purgesOk_def)
  have "agentId = sr_agentId space" using ok key agent(1) by (auto simp: lifecycleOk_def deletionsFit_def)
  then show ?thesis
    using call target p(3) agent(2) by (auto simp: allPurged_def list_all_iff split: option.splits)
qed

theorem purge_confirmed_witness:
  "\<exists>replies now. examplePurge = PurgeSettled ''s1'' replies now
    \<and> list_all (\<lambda>(agentId, key). \<exists>reply. replies key = Some reply \<and> purgeConfirmed key reply)
        (deletionSessions ''s1'' (sr_agentId (hd (ss_spaces (lf_store (spaceStep id exampleDelete exampleSpaces)))))
          (lf_store (spaceStep id exampleDelete exampleSpaces)))"
  by (rule purge_confirmed [OF exampleDelete_reached [symmetric] example_purged])

end
