(* ===== verification/SpaceMembership.thy ===== *)
theory SpaceMembership
  imports SpaceSafety
begin

text \<open>
  Changes of membership: they apply at the current revision of a space only, and they never leave a space without
  an owner.
\<close>

section \<open>Revisions\<close>

lemma find_map: "(\<And>x. P (f x) = P x) \<Longrightarrow> List.find P (map f xs) = map_option f (List.find P xs)"
  by (induction xs) auto

lemma findSpace_setRevision:
  "findSpace spaceId (setRevision other revision s) =
     map_option (\<lambda>row. if sr_id row = other then row\<lparr>sr_revision := revision\<rparr> else row) (findSpace spaceId s)"
  unfolding findSpace_def setRevision_def by (simp add: find_map)

lemma findSpace_fields [simp]:
  "findSpace spaceId (auditSpace u sp e d n s) = findSpace spaceId s"
  "findSpace spaceId (revokeRuns chosen s) = findSpace spaceId s" "findSpace spaceId (setRunState chosen state s) = findSpace spaceId s"
  "findSpace spaceId (changeMember sp m role s) = findSpace spaceId s" "findSpace spaceId (deleteMember sp m s) = findSpace spaceId s"
  "findSpace spaceId (recordDeparture sp m r s) = findSpace spaceId s"
  by (simp_all add: findSpace_def revokeRuns_def setRunState_def changeMember_def upsertMember_def deleteMember_def recordDeparture_def
      split: option.split)

lemma findSpace_deletion [simp]: "findSpace spaceId (s\<lparr>ss_deletions := d\<rparr>) = findSpace spaceId s"
  by (simp add: findSpace_def)

lemma findSpace_afterMemberChange:
  "findSpace spaceId (afterMemberChange userId other memberId role revision now s) =
     map_option (\<lambda>row. if sr_id row = other then row\<lparr>sr_revision := revision + 1\<rparr> else row) (findSpace spaceId s)"
  by (simp add: afterMemberChange_def Let_def findSpace_setRevision)

lemma findSpace_departMember:
  "findSpace spaceId (departMember userId other revision now s) =
     map_option (\<lambda>row. if sr_id row = other then row\<lparr>sr_revision := revision + 1\<rparr> else row) (findSpace spaceId s)"
  by (simp add: departMember_def Let_def findSpace_setRevision)

text \<open>The revision of a space is past a number, or the space is under deletion.\<close>

definition revisionPast :: "string \<Rightarrow> int \<Rightarrow> space_store \<Rightarrow> bool" where
  "revisionPast spaceId revision s \<longleftrightarrow>
     deleting spaceId s \<or> (\<exists>row. findSpace spaceId s = Some row \<and> revision < sr_revision row)"

lemma access_revision:
  "spaceAccess userId spaceId role s = Inr view \<Longrightarrow> \<exists>row. findSpace spaceId s = Some row \<and> sr_id row = spaceId \<and> sr_revision row = sv_revision view"
  by (auto simp: spaceAccess_ok dest: findSpace_in)

lemma setMember_past:
  assumes "setMember userId spaceId memberId role revision now s = Inr (u, s')"
  shows "(\<exists>old. findSpace spaceId s = Some old \<and> sr_revision old = revision)
    \<and> (\<forall>other. findSpace other s' = map_option (\<lambda>row. if sr_id row = spaceId then row\<lparr>sr_revision := revision + 1\<rparr> else row) (findSpace other s))"
proof -
  obtain parsed where rows: "setMemberRows userId spaceId memberId parsed revision now s = Inr (u, s')"
    using setMember_Inr [OF assms(1)] by blast
  obtain view where view: "spaceAccess userId spaceId SpaceOwner s = Inr view" "sv_revision view = revision"
    and s': "s' = afterMemberChange userId spaceId memberId parsed revision now (changeMember spaceId memberId parsed s)"
    using setMemberRows_Inr [OF rows] by blast
  show ?thesis using access_revision [OF view(1)] view(2) unfolding s' findSpace_afterMemberChange by auto
qed

lemma leaveSpace_past:
  assumes "leaveSpace userId spaceId revision now s = Inr (outcome, s')"
  shows "s' = s \<or> (\<exists>old. findSpace spaceId s = Some old \<and> sr_revision old = revision)
    \<and> (\<forall>other. findSpace other s' = map_option (\<lambda>row. if sr_id row = spaceId then row\<lparr>sr_revision := revision + 1\<rparr> else row) (findSpace other s))"
  using leaveSpace_Inr [OF assms]
proof (elim disjE exE conjE)
  fix view
  assume "spaceAccess userId spaceId SpaceViewer s = Inr view" "sv_revision view = revision" and s': "s' = departMember userId spaceId revision now s"
  then show ?thesis using access_revision unfolding s' findSpace_departMember by fastforce
qed simp

text \<open>The calls on pages, runs and conversations leave spaces and members alone.\<close>

fun membershipCall :: "space_call \<Rightarrow> bool" where
  "membershipCall (CreateSpace userId name requestId freshId now) = True"
| "membershipCall (SetMember userId spaceId memberId role revision now) = True"
| "membershipCall (LeaveSpace userId spaceId revision now) = True"
| "membershipCall (DeleteSpace userId spaceId revision confirmName now) = True"
| "membershipCall (PurgeSettled spaceId replies now) = True"
| "membershipCall _ = False"

fun accountCall :: "space_call \<Rightarrow> bool" where
  "accountCall (AddAccount account) = True"
| "accountCall (SetAccountActive userId active) = True"
| "accountCall _ = False"

lemma createPage_members:
  assumes "createPage userId other parentId title body requestId freshId now s = Inr (page, s')"
  shows "ss_spaces s' = ss_spaces s \<and> ss_members s' = ss_members s \<and> ss_accounts s' = ss_accounts s"
proof -
  obtain titleText bodyText requestText where
    rows: "createPageRows userId other parentId titleText bodyText requestText freshId now s = Inr (page, s')"
    using createPage_Inr [OF assms(1)] by blast
  show ?thesis using createPageRows_Inr [OF rows] by auto
qed

lemma createConversation_members:
  assumes "createConversation userId other page title requestId freshId now s = Inr (found, s')"
  shows "ss_spaces s' = ss_spaces s \<and> ss_members s' = ss_members s \<and> ss_accounts s' = ss_accounts s"
proof -
  obtain pageId requested requestText where
    rows: "createConversationRows userId other pageId requested requestText freshId now s = Inr (found, s')"
    using createConversation_Inr [OF assms(1)] by blast
  show ?thesis using createConversationRows_Inr [OF rows] by auto
qed

lemma renameConversation_members:
  assumes "renameConversation userId other conversation title revision expectedTitle now s = Inr (found, s')"
  shows "ss_spaces s' = ss_spaces s \<and> ss_members s' = ss_members s \<and> ss_accounts s' = ss_accounts s"
proof -
  obtain conversationId requested expectedText where
    rows: "renameConversationRows userId other conversationId requested revision expectedText now s = Inr (found, s')"
    using renameConversation_Inr [OF assms(1)] by blast
  show ?thesis using renameConversationRows_Inr [OF rows] by auto
qed

lemma savePage_members:
  "savePage userId other pageId title body revision now s = Inr (page, s') \<Longrightarrow> ss_spaces s' = ss_spaces s \<and> ss_members s' = ss_members s \<and> ss_accounts s' = ss_accounts s"
  by (drule savePage_Inr) auto

lemma beginRun_members:
  "beginRun sha256 userId other pageId runId message now s = Inr (finished, s') \<Longrightarrow> ss_spaces s' = ss_spaces s \<and> ss_members s' = ss_members s \<and> ss_accounts s' = ss_accounts s"
  by (drule beginRun_Inr) (auto simp: setRunState_def)

lemma store_step_members:
  "store_step sha256 call s s' \<Longrightarrow> \<not> membershipCall call \<Longrightarrow>
     ss_spaces s' = ss_spaces s \<and> ss_members s' = ss_members s \<and> (accountCall call \<or> ss_accounts s' = ss_accounts s)"
  by (induction rule: store_step.induct)
    (auto simp: createPage_members savePage_members beginRun_members createConversation_members renameConversation_members
      finishLeave_def finishRun_def failRun_def setRunState_def addAccount_def setAccountActive_def)

lemma createSpace_space:
  assumes "createSpace userId name requestId freshId now s = Inr (view, s')" "findSpace spaceId s = Some row"
  shows "findSpace spaceId s' = Some row"
proof -
  obtain nameText requestText where rows: "createSpaceRows userId nameText requestText freshId now s = Inr (view, s')"
    using createSpace_Inr [OF assms(1)] by blast
  have append: "List.find P xs = Some x \<Longrightarrow> List.find P (xs @ ys) = Some x" for P :: "space_row \<Rightarrow> bool" and xs ys x
    by (induction xs) auto
  show ?thesis using createSpaceRows_Inr [OF rows] assms(2) by (auto simp: findSpace_def append)
qed

lemma beginDelete_space:
  assumes "beginDelete userId other revision confirmName now s = Inr (row, s')"
  shows "s' = s \<or> ss_members s' = ss_members s \<and> (\<exists>old. findSpace other s = Some old \<and> sr_revision old = revision)
    \<and> (\<forall>spaceId. findSpace spaceId s' = map_option (\<lambda>row. if sr_id row = other then row\<lparr>sr_revision := revision + 1\<rparr> else row) (findSpace spaceId s))"
  using beginDelete_Inr [OF assms]
proof (elim disjE exE conjE)
  fix view
  assume "spaceAccess userId other SpaceOwner s = Inr view" "sv_revision view = revision"
    and s': "s' = auditSpace userId other ''space.deletion.started'' [] now
               (revokeRuns (\<lambda>run. rn_spaceId run = other) (setRevision other (revision + 1)
                 (s\<lparr>ss_deletions := ss_deletions s @ [row]\<rparr>)))"
  then show ?thesis
    using access_revision unfolding s' by (fastforce simp: findSpace_setRevision revokeRuns_def setRevision_def findSpace_def find_map)
qed simp

lemma store_step_revision:
  assumes "store_step sha256 call s s'" "findSpace spaceId s = Some row"
  shows "(\<exists>row'. findSpace spaceId s' = Some row' \<and> sr_revision row \<le> sr_revision row')
    \<or> (\<exists>replies now. call = PurgeSettled spaceId replies now)"
proof (cases "membershipCall call")
  case False
  then show ?thesis using store_step_members [OF assms(1)] assms(2) by (auto simp: findSpace_def)
next
  case True
  from assms True show ?thesis
  proof (induction rule: store_step.induct)
    case (creates_space userId name requestId freshId now s view s')
    then show ?case using createSpace_space by fastforce
  next
    case (sets_member userId other memberId role rev now s u s')
    then show ?case using setMember_past [OF sets_member(1)] findSpace_in by fastforce
  next
    case (leaves userId other rev now s outcome s')
    then show ?case using leaveSpace_past [OF leaves(1)] findSpace_in by fastforce
  next
    case (deletes userId other rev confirmName now s deletion s')
    then show ?case using beginDelete_space [OF deletes(1)] findSpace_in by fastforce
  next
    case (purges other replies now s userId)
    then show ?case using findSpace_rows [OF rows_finishDelete] by (metis order_refl)
  qed auto
qed

lemma revisionPast_step:
  assumes "lifecycleOk l" "revisionPast spaceId revision (lf_store l)"
  shows "revisionPast spaceId revision (lf_store (spaceStep sha256 call l))"
proof (cases "deleting spaceId (lf_store l)")
  case True
  then show ?thesis using deleting_kept unfolding revisionPast_def by blast
next
  case False
  then obtain row where row: "findSpace spaceId (lf_store l) = Some row" "revision < sr_revision row"
    using assms(2) unfolding revisionPast_def by blast
  have "lf_store (spaceStep sha256 call l) = lf_store l" if "call = PurgeSettled spaceId replies now" for replies now
    using that False purgeSettled_store [of spaceId replies now l] assms(1) by (auto simp: lifecycleOk_def purgesOk_def deleting_keys)
  then show ?thesis
    using store_step_revision [OF spaceStep_step [of sha256 call l] row(1)] row unfolding revisionPast_def by force
qed

lemma revisionPast_run:
  "lifecycleOk l \<Longrightarrow> revisionPast spaceId revision (lf_store l) \<Longrightarrow> revisionPast spaceId revision (lf_store (spaceRun sha256 later l))"
  by (induction later arbitrary: l) (simp_all add: revisionPast_step spaceStep_lifecycle)

section \<open>The members after a change\<close>

lemma findMember_afterMemberChange [simp]:
  "findMember spaceId memberId (afterMemberChange userId other changed role revision now s) = findMember spaceId memberId s"
  by (simp add: afterMemberChange_def Let_def findMember_def revokeRuns_def setRevision_def)

lemma findMember_change:
  "map_option mr_role (findMember spaceId memberId (changeMember spaceId memberId role s)) = role"
proof (cases role)
  case None
  then show ?thesis by (simp add: changeMember_def deleteMember_def findMember_def find_None_iff)
next
  case (Some r)
  show ?thesis
  proof (cases "findMember spaceId memberId s")
    case None
    have append: "List.find P xs = None \<Longrightarrow> List.find P (xs @ [x]) = (if P x then Some x else None)" for P :: "member_row \<Rightarrow> bool" and xs x
      by (induction xs) (auto split: if_splits)
    show ?thesis using None Some by (simp add: changeMember_def upsertMember_def findMember_def append)
  next
    case found: (Some row)
    have "findMember spaceId memberId (changeMember spaceId memberId role s)
        = map_option (\<lambda>row. if mr_spaceId row = spaceId \<and> mr_userId row = memberId then row\<lparr>mr_role := r\<rparr> else row) (findMember spaceId memberId s)"
      using found Some by (simp add: changeMember_def upsertMember_def findMember_def find_map)
    then show ?thesis using found findMember_in [OF found] Some by simp
  qed
qed

lemma parseRole_ok: "parseRole role = Inr parsed \<Longrightarrow> parsed = Option.bind role roleOf"
  by (auto simp: parseRole_def stateError_def split: option.splits)

lemma stale_setMember:
  assumes "revisionPast spaceId revision s"
  shows "isl (setMember userId spaceId memberId role revision now s)"
proof (rule ccontr)
  assume "\<not> isl (setMember userId spaceId memberId role revision now s)"
  then obtain u s' where changed: "setMember userId spaceId memberId role revision now s = Inr (u, s')"
    by (cases "setMember userId spaceId memberId role revision now s") auto
  then have "\<not> deleting spaceId s" by (auto simp: setMember_def resultThen_ok spaceAccess_ok)
  then show False using setMember_past [OF changed] assms by (auto simp: revisionPast_def)
qed

section \<open>Owners\<close>

definition hasOwner :: "string \<Rightarrow> space_store \<Rightarrow> bool" where
  "hasOwner spaceId s \<longleftrightarrow> list_ex (\<lambda>row. mr_spaceId row = spaceId \<and> mr_role row = SpaceOwner) (ss_members s)"

definition activeCount :: "string \<Rightarrow> space_store \<Rightarrow> nat" where
  "activeCount spaceId s = length (filter (\<lambda>row. mr_spaceId row = spaceId \<and> isActiveAccount (mr_userId row) s) (ss_members s))"

lemma hasOwner_iff: "hasOwner spaceId s \<longleftrightarrow> (\<exists>userId. isOwnerRow spaceId userId s)"
  by (auto simp: hasOwner_def isOwnerRow_def list_ex_iff)

lemma activeAccount_some: "activeAccount userId s \<noteq> None \<longleftrightarrow> isActiveAccount userId s"
  by (auto simp: activeAccount_def isActiveAccount_def list_ex_iff find_None_iff)

definition memberView :: "space_store \<Rightarrow> member_row \<Rightarrow> member_view" where
  "memberView s row =
     (let account = the (activeAccount (mr_userId row) s)
      in \<lparr>mv_userId = mr_userId row, mv_accountId = ac_accountId account, mv_displayName = shownName account, mv_role = mr_role row\<rparr>)"

lemma memberView_simps [simp]: "mv_userId (memberView s row) = mr_userId row" "mv_role (memberView s row) = mr_role row"
  by (simp_all add: memberView_def Let_def)

lemma activeMembers_map:
  "activeMembers spaceId s = map (memberView s) (filter (\<lambda>row. mr_spaceId row = spaceId \<and> isActiveAccount (mr_userId row) s) (ss_members s))"
proof -
  have "(\<lambda>row. case activeAccount (mr_userId row) s of
         Some account \<Rightarrow>
           if mr_spaceId row = spaceId
           then Some \<lparr>mv_userId = mr_userId row, mv_accountId = ac_accountId account, mv_displayName = shownName account,
                      mv_role = mr_role row\<rparr>
           else None
       | None \<Rightarrow> None) = (\<lambda>row. if mr_spaceId row = spaceId \<and> isActiveAccount (mr_userId row) s then Some (memberView s row) else None)"
    by (rule ext) (auto simp: memberView_def activeAccount_some [symmetric] Let_def split: option.split)
  then show ?thesis unfolding activeMembers_def by (simp add: map_filter_map_filter)
qed

lemma memberRows_distinct:
  assumes "tablesOk s"
  shows "distinct (map mr_userId (filter (\<lambda>row. mr_spaceId row = spaceId \<and> P row) (ss_members s)))"
proof -
  have "distinct (map (\<lambda>row. (mr_spaceId row, mr_userId row)) (filter (\<lambda>row. mr_spaceId row = spaceId \<and> P row) (ss_members s)))"
    using assms by (simp add: tablesOk_def membersFit_def distinct_map_filter)
  then show ?thesis by (auto simp: distinct_map inj_on_def)
qed

lemma spaceMembers_all:
  assumes "spaceMembers userId spaceId s = Inr members" "activeCount spaceId s \<le> MEMBER_LIMIT" "tablesOk s"
  shows "set members = set (activeMembers spaceId s)" "length members = activeCount spaceId s" "distinct (map mv_userId members)"
proof -
  have len: "length (activeMembers spaceId s) = activeCount spaceId s" by (simp add: activeMembers_map activeCount_def)
  have "members = take MEMBER_LIMIT (sort_key mv_accountId (activeMembers spaceId s))"
    using assms(1) by (simp add: spaceMembers_def resultThen_ok)
  then have members: "members = sort_key mv_accountId (activeMembers spaceId s)" using assms(2) len by simp
  then show "set members = set (activeMembers spaceId s)" "length members = activeCount spaceId s" using len by simp_all
  have "distinct (map mv_userId (activeMembers spaceId s))"
    using memberRows_distinct [OF assms(3)] by (simp add: activeMembers_map comp_def)
  then show "distinct (map mv_userId members)" unfolding members by (rule distinct_sort_key)
qed

lemma member_unique:
  "tablesOk s \<Longrightarrow> row \<in> set (ss_members s) \<Longrightarrow> row' \<in> set (ss_members s) \<Longrightarrow> mr_spaceId row = mr_spaceId row' \<Longrightarrow>
     mr_userId row = mr_userId row' \<Longrightarrow> row = row'"
  using distinct_row [of "\<lambda>row. (mr_spaceId row, mr_userId row)" "ss_members s" row row'] by (simp add: tablesOk_def membersFit_def)

text \<open>An active owner who is not the only one leaves another behind.\<close>

lemma another_owner:
  assumes "spaceMembers userId spaceId s = Inr members" "activeCount spaceId s \<le> MEMBER_LIMIT" "tablesOk s"
    and "isOwnerRow spaceId leaver s" "isActiveAccount leaver s" "length (ownersOf members) \<noteq> 1"
  shows "\<exists>other. other \<noteq> leaver \<and> isOwnerRow spaceId other s"
proof (rule ccontr)
  assume none: "\<not> ?thesis"
  note all = spaceMembers_all [OF assms(1-3)]
  have owners: "set (ownersOf members) = memberView s ` {row \<in> set (ss_members s). mr_spaceId row = spaceId \<and> isActiveAccount (mr_userId row) s \<and> mr_role row = SpaceOwner}"
    unfolding ownersOf_def using all(1) by (auto simp: activeMembers_map)
  have "mv_userId ` set (ownersOf members) = {leaver}"
  proof
    show "mv_userId ` set (ownersOf members) \<subseteq> {leaver}" using none unfolding owners by (auto simp: isOwnerRow_def list_ex_iff)
    show "{leaver} \<subseteq> mv_userId ` set (ownersOf members)"
      using assms(4, 5) unfolding owners by (force simp: isOwnerRow_def list_ex_iff image_iff)
  qed
  moreover have "distinct (map mv_userId (ownersOf members))" using all(3) by (simp add: ownersOf_def distinct_map_filter)
  then have "card (mv_userId ` set (ownersOf members)) = length (ownersOf members)" by (metis distinct_card length_map list.set_map)
  ultimately show False using assms(6) by simp
qed

lemma ownerRow_change:
  "isOwnerRow spaceId userId s \<Longrightarrow> userId \<noteq> memberId \<Longrightarrow> isOwnerRow spaceId userId (changeMember spaceId memberId role s)"
  by (auto simp: isOwnerRow_def list_ex_iff changeMember_def upsertMember_def deleteMember_def image_iff split: option.split)

lemma isActiveAccount_accounts: "ss_accounts s' = ss_accounts s \<Longrightarrow> isActiveAccount userId s' = isActiveAccount userId s"
  by (simp add: isActiveAccount_def)

definition membersOf :: "string \<Rightarrow> space_store \<Rightarrow> member_row list" where
  "membersOf spaceId s = filter (\<lambda>row. mr_spaceId row = spaceId) (ss_members s)"

definition spaceKept :: "string \<Rightarrow> space_store \<Rightarrow> bool" where
  "spaceKept spaceId s \<longleftrightarrow> hasOwner spaceId s \<and> activeCount spaceId s \<le> MEMBER_LIMIT"

lemma hasOwner_members: "hasOwner spaceId s \<longleftrightarrow> list_ex (\<lambda>row. mr_role row = SpaceOwner) (membersOf spaceId s)"
  by (auto simp: hasOwner_def membersOf_def list_ex_iff)

lemma activeCount_members: "activeCount spaceId s = length (filter (\<lambda>row. isActiveAccount (mr_userId row) s) (membersOf spaceId s))"
  by (simp add: activeCount_def membersOf_def conj_commute)

lemma membersOf_rows: "spaceRows spaceId s' = spaceRows spaceId s \<Longrightarrow> membersOf spaceId s' = membersOf spaceId s"
  by (simp add: spaceRows_def membersOf_def)

lemma spaceKept_frame:
  assumes "spaceKept spaceId s" "membersOf spaceId s' = membersOf spaceId s"
    and "\<And>row. row \<in> set (membersOf spaceId s) \<Longrightarrow> isActiveAccount (mr_userId row) s' \<Longrightarrow> isActiveAccount (mr_userId row) s"
  shows "spaceKept spaceId s'"
proof -
  have "length (filter (\<lambda>row. isActiveAccount (mr_userId row) s') (membersOf spaceId s))
      \<le> length (filter (\<lambda>row. isActiveAccount (mr_userId row) s) (membersOf spaceId s))"
    by (rule length_filter_imp) (use assms(3) in blast)
  then show ?thesis
    using assms(1) unfolding spaceKept_def hasOwner_members activeCount_members assms(2) by simp
qed

text \<open>How a change of a member counts.\<close>

lemma activeCount_change:
  assumes "findMember spaceId memberId s = None \<Longrightarrow> role \<noteq> None \<Longrightarrow> activeCount spaceId s < MEMBER_LIMIT" "activeCount spaceId s \<le> MEMBER_LIMIT"
  shows "activeCount spaceId (changeMember spaceId memberId role s) \<le> MEMBER_LIMIT"
proof (cases role)
  case None
  have "activeCount spaceId (deleteMember spaceId memberId s) \<le> activeCount spaceId s"
    unfolding activeCount_def deleteMember_def by (simp add: isActiveAccount_def) (rule length_filter_imp, simp)
  then show ?thesis using assms(2) None by (simp add: changeMember_def)
next
  case (Some r)
  have same: "length (filter (\<lambda>row. mr_spaceId row = spaceId \<and> isActiveAccount (mr_userId row) s) (map f rows))
      = length (filter (\<lambda>row. mr_spaceId row = spaceId \<and> isActiveAccount (mr_userId row) s) rows)"
    if "\<And>row. mr_spaceId (f row) = mr_spaceId row \<and> mr_userId (f row) = mr_userId row" for f rows
    using that by (simp add: filter_map comp_def)
  have active: "isActiveAccount u (s\<lparr>ss_members := m\<rparr>) = isActiveAccount u s" for u m by (simp add: isActiveAccount_def)
  have members: "ss_members (s\<lparr>ss_members := m\<rparr>) = m" for m by simp
  show ?thesis
  proof (cases "findMember spaceId memberId s = None")
    case True
    then show ?thesis using assms Some by (simp add: changeMember_def upsertMember_def activeCount_def active)
  next
    case False
    have "activeCount spaceId (changeMember spaceId memberId role s) = activeCount spaceId s"
      unfolding Some changeMember_def upsertMember_def if_not_P [OF False] option.case activeCount_def active members by (rule same) simp
    then show ?thesis using assms(2) by simp
  qed
qed

lemma spaceKept_after:
  "spaceKept spaceId (afterMemberChange userId other memberId role revision now s) = spaceKept spaceId s"
  "spaceKept spaceId (auditSpace u sp e d n s) = spaceKept spaceId s" "spaceKept spaceId (setRevision other revision s) = spaceKept spaceId s"
  "spaceKept spaceId (revokeRuns chosen s) = spaceKept spaceId s" "spaceKept spaceId (recordDeparture other memberId revision s) = spaceKept spaceId s"
  by (simp_all add: spaceKept_def hasOwner_def activeCount_def isActiveAccount_def afterMemberChange_def Let_def setRevision_def revokeRuns_def
      recordDeparture_def)

lemma owner_isOwnerRow:
  "spaceAccess userId spaceId role s = Inr view \<Longrightarrow> sv_role view = SpaceOwner \<Longrightarrow> isActiveAccount userId s \<and> isOwnerRow spaceId userId s"
  by (auto simp: spaceAccess_ok isOwnerRow_def list_ex_iff dest!: findMember_in)

lemma owner_access: "spaceAccess userId spaceId SpaceOwner s = Inr view \<Longrightarrow> sv_role view = SpaceOwner"
  by (auto simp: spaceAccess_ok rank_owner simp del: rank.simps)

lemma active_listed:
  assumes "tablesOk s" "activeCount spaceId s \<le> MEMBER_LIMIT" "spaceMembers userId spaceId s = Inr members"
    and "isOwnerRow spaceId memberId s" "isActiveAccount memberId s" "\<not> leavesNoOwner members memberId"
  shows "length (ownersOf members) \<noteq> 1"
proof -
  note all = spaceMembers_all [OF assms(3, 2, 1)]
  obtain row where row: "row \<in> set (ss_members s)" "mr_spaceId row = spaceId" "mr_userId row = memberId" "mr_role row = SpaceOwner"
    using assms(4) by (auto simp: isOwnerRow_def list_ex_iff)
  then have listed: "memberView s row \<in> set members" using assms(5) all(1) by (auto simp: activeMembers_map)
  have "List.find (\<lambda>member. mv_userId member = memberId) members = Some (memberView s row)"
    by (rule find_unique [OF listed]) (use distinct_row [OF all(3) _ listed] row(3) in simp_all)
  then show ?thesis using assms(6) row(4) by (simp add: leavesNoOwner_def)
qed

lemma setMember_kept:
  assumes "setMember userId spaceId memberId role revision now s = Inr (u, s')" "tablesOk s" "spaceKept spaceId s"
  shows "spaceKept spaceId s'"
proof -
  obtain parsed where rows: "setMemberRows userId spaceId memberId parsed revision now s = Inr (u, s')"
    using setMember_Inr [OF assms(1)] by blast
  obtain view members where view: "spaceAccess userId spaceId SpaceOwner s = Inr view" and members: "spaceMembers userId spaceId s = Inr members"
    and guard: "parsed \<noteq> Some SpaceOwner \<Longrightarrow> \<not> leavesNoOwner members memberId"
    and limit: "parsed \<noteq> None \<Longrightarrow> list_ex (\<lambda>member. mv_userId member = memberId) members \<or> length members < MEMBER_LIMIT"
    and s': "s' = afterMemberChange userId spaceId memberId parsed revision now (changeMember spaceId memberId parsed s)"
    using setMemberRows_Inr [OF rows] by blast
  have count: "activeCount spaceId s \<le> MEMBER_LIMIT" using assms(3) by (simp add: spaceKept_def)
  note all = spaceMembers_all [OF members count assms(2)]
  note actor = owner_isOwnerRow [OF view owner_access [OF view]]
  have "activeCount spaceId s < MEMBER_LIMIT" if "findMember spaceId memberId s = None" "parsed \<noteq> None"
    using limit [OF that(2)] all that(1) by (auto simp: list_ex_iff activeMembers_map findMember_def find_None_iff)
  then have "activeCount spaceId (changeMember spaceId memberId parsed s) \<le> MEMBER_LIMIT" using count by (rule activeCount_change)
  moreover have "hasOwner spaceId (changeMember spaceId memberId parsed s)"
  proof (cases "parsed = Some SpaceOwner")
    case True
    then obtain row where "findMember spaceId memberId (changeMember spaceId memberId parsed s) = Some row" "mr_role row = SpaceOwner"
      using findMember_change [of spaceId memberId parsed s] by auto
    then show ?thesis using findMember_in by (fastforce simp: hasOwner_def list_ex_iff)
  next
    case False
    have "\<exists>other. other \<noteq> memberId \<and> isOwnerRow spaceId other s"
    proof (cases "memberId = userId")
      case True
      then show ?thesis
        using another_owner [OF members count assms(2)] active_listed [OF assms(2) count members] actor guard [OF False] by blast
    next
      case False
      then show ?thesis using actor by (intro exI [of _ userId]) simp
    qed
    then show ?thesis using ownerRow_change unfolding hasOwner_iff by blast
  qed
  ultimately have "spaceKept spaceId (changeMember spaceId memberId parsed s)" by (simp add: spaceKept_def)
  then show ?thesis unfolding s' spaceKept_after .
qed

lemma leaveSpace_kept:
  assumes "leaveSpace userId spaceId revision now s = Inr (outcome, s')" "tablesOk s" "spaceKept spaceId s"
  shows "spaceKept spaceId s'"
  using leaveSpace_Inr [OF assms(1)]
proof (elim disjE exE conjE)
  fix view members
  assume view: "spaceAccess userId spaceId SpaceViewer s = Inr view" and members: "spaceMembers userId spaceId s = Inr members"
    and guard: "sv_role view = SpaceOwner \<longrightarrow> length (ownersOf members) \<noteq> 1" and s': "s' = departMember userId spaceId revision now s"
  have count: "activeCount spaceId s \<le> MEMBER_LIMIT" using assms(3) by (simp add: spaceKept_def)
  have "\<exists>other. other \<noteq> userId \<and> isOwnerRow spaceId other s"
  proof (cases "sv_role view = SpaceOwner")
    case True
    then show ?thesis using another_owner [OF members count assms(2)] owner_isOwnerRow [OF view] guard by blast
  next
    case False
    obtain row where row: "findMember spaceId userId s = Some row" "sv_role view = mr_role row"
      using view by (auto simp: spaceAccess_ok)
    have "\<not> isOwnerRow spaceId userId s"
    proof
      assume "isOwnerRow spaceId userId s"
      then obtain row' where row': "row' \<in> set (ss_members s)" "mr_spaceId row' = spaceId" "mr_userId row' = userId" "mr_role row' = SpaceOwner"
        by (auto simp: isOwnerRow_def list_ex_iff)
      have "row' = row" using member_unique [OF assms(2) row'(1)] findMember_in [OF row(1)] row'(2, 3) by simp
      then show False using False row(2) row'(4) by simp
    qed
    moreover obtain other where "isOwnerRow spaceId other s" using assms(3) unfolding spaceKept_def hasOwner_iff by blast
    ultimately show ?thesis by (intro exI [of _ other]) auto
  qed
  then have "hasOwner spaceId (changeMember spaceId userId None s)" using ownerRow_change unfolding hasOwner_iff by blast
  moreover have "activeCount spaceId (changeMember spaceId userId None s) \<le> MEMBER_LIMIT"
    by (rule activeCount_change) (use count in simp_all)
  ultimately have "spaceKept spaceId (deleteMember spaceId userId s)" by (simp add: spaceKept_def changeMember_def)
  then show ?thesis unfolding s' departMember_def Let_def spaceKept_after .
qed (use assms(3) in simp)

text \<open>Accounts may be added and disabled.\<close>

fun keepsDisabled :: "space_call \<Rightarrow> bool" where
  "keepsDisabled (SetAccountActive userId active) = (\<not> active)"
| "keepsDisabled _ = True"

definition ownersKept :: "space_store \<Rightarrow> bool" where
  "ownersKept s \<longleftrightarrow> (\<forall>spaceId \<in> spaceIds s. spaceKept spaceId s)"

lemma ownersKept_frame:
  assumes "ownersKept s" "spaceIds s' \<subseteq> spaceIds s" "ss_accounts s' = ss_accounts s"
    and "\<And>spaceId. spaceId \<noteq> other \<Longrightarrow> spaceRows spaceId s' = spaceRows spaceId s"
    and "other \<in> spaceIds s' \<Longrightarrow> spaceKept other s \<Longrightarrow> spaceKept other s'"
  shows "ownersKept s'"
  unfolding ownersKept_def
proof
  fix spaceId
  assume here: "spaceId \<in> spaceIds s'"
  then have kept: "spaceKept spaceId s" using assms(1, 2) unfolding ownersKept_def by blast
  show "spaceKept spaceId s'"
  proof (cases "spaceId = other")
    case True
    then show ?thesis using kept here assms(5) by simp
  next
    case False
    show ?thesis
      by (rule spaceKept_frame [OF kept membersOf_rows [OF assms(4) [OF False]]]) (simp add: isActiveAccount_accounts [OF assms(3)])
  qed
qed

lemma spaceIds_keys: "spaceIds s = fst ` spaceKeys s"
  by (force simp: spaceIds_def spaceKeys_def)

lemma change_accounts [simp]:
  "ss_accounts (afterMemberChange userId other memberId role revision now s) = ss_accounts s"
  "ss_accounts (changeMember other memberId role s) = ss_accounts s" "ss_accounts (departMember userId other revision now s) = ss_accounts s"
  "ss_accounts (finishDelete userId other now s) = ss_accounts s"
  by (simp_all add: afterMemberChange_def changeMember_def upsertMember_def deleteMember_def departMember_def recordDeparture_def finishDelete_def
      deleteSpaceRows_def Let_def setRevision_def revokeRuns_def split: option.split)

lemma setMember_owners:
  assumes "setMember userId other memberId role revision now s = Inr (u, s')" "tablesOk s" "ownersKept s"
  shows "ownersKept s'"
proof (rule ownersKept_frame [OF assms(3), where other = other])
  show "spaceIds s' \<subseteq> spaceIds s" using setMember_keys [OF assms(1)] by (simp add: spaceIds_keys)
  obtain parsed where rows: "setMemberRows userId other memberId parsed revision now s = Inr (u, s')"
    using setMember_Inr [OF assms(1)] by blast
  show "ss_accounts s' = ss_accounts s" using setMemberRows_Inr [OF rows] by auto
  show "spaceRows spaceId s' = spaceRows spaceId s" if "spaceId \<noteq> other" for spaceId
    by (rule setMember_rows [OF assms(1)]) (use that in simp)
  show "spaceKept other s'" if "spaceKept other s" by (rule setMember_kept [OF assms(1, 2) that])
qed

lemma leaveSpace_owners:
  assumes "leaveSpace userId other revision now s = Inr (outcome, s')" "tablesOk s" "ownersKept s"
  shows "ownersKept s'"
proof (rule ownersKept_frame [OF assms(3), where other = other])
  show "spaceIds s' \<subseteq> spaceIds s" using leaveSpace_keys [OF assms(1)] by (simp add: spaceIds_keys)
  show "ss_accounts s' = ss_accounts s" using leaveSpace_Inr [OF assms(1)] by auto
  show "spaceRows spaceId s' = spaceRows spaceId s" if "spaceId \<noteq> other" for spaceId
    by (rule leaveSpace_rows [OF assms(1)]) (use that in simp)
  show "spaceKept other s'" if "spaceKept other s" by (rule leaveSpace_kept [OF assms(1, 2) that])
qed

lemma beginDelete_owners:
  assumes "beginDelete userId other revision confirmName now s = Inr (row, s')" "ownersKept s"
  shows "ownersKept s'"
  using beginDelete_Inr [OF assms(1)]
proof (elim disjE exE conjE)
  assume s': "s' = auditSpace userId other ''space.deletion.started'' [] now
               (revokeRuns (\<lambda>run. rn_spaceId run = other) (setRevision other (revision + 1)
                 (s\<lparr>ss_deletions := ss_deletions s @ [row]\<rparr>)))"
  have "spaceIds s' = spaceIds s" unfolding s' spaceIds_keys by simp
  moreover have "spaceKept spaceId (s\<lparr>ss_deletions := ss_deletions s @ [row]\<rparr>) = spaceKept spaceId s" for spaceId
    by (simp add: spaceKept_def hasOwner_def activeCount_def isActiveAccount_def)
  then have "spaceKept spaceId s' = spaceKept spaceId s" for spaceId unfolding s' spaceKept_after .
  ultimately show ?thesis using assms(2) by (simp add: ownersKept_def)
qed (use assms(2) in simp)

lemma createSpace_owners:
  assumes "createSpace userId name requestId freshId now s = Inr (view, s')" "tablesOk s" "ownersKept s"
  shows "ownersKept s'"
proof -
  obtain nameText requestText where rows: "createSpaceRows userId nameText requestText freshId now s = Inr (view, s')"
    using createSpace_Inr [OF assms(1)] by blast
  from createSpaceRows_Inr [OF rows] show ?thesis
  proof (elim disjE exE conjE)
    fix space
    assume new: "freshId \<notin> spaceIds s" "sr_id space = freshId"
      and s': "s' = auditSpace userId freshId ''space.created'' [] now (s\<lparr>ss_spaces := ss_spaces s @ [space],
                  ss_members := ss_members s @ [\<lparr>mr_spaceId = freshId, mr_userId = userId, mr_role = SpaceOwner\<rparr>]\<rparr>)"
    have ids: "spaceIds s' = insert freshId (spaceIds s)" unfolding s' by (simp add: spaceIds_def new(2))
    have "membersOf freshId s = []"
      using new(1) assms(2) by (auto simp: membersOf_def tablesOk_def membersFit_def filter_empty_conv)
    then have fresh: "membersOf freshId s' = [\<lparr>mr_spaceId = freshId, mr_userId = userId, mr_role = SpaceOwner\<rparr>]"
      unfolding s' by (simp add: membersOf_def)
    have "spaceKept freshId s'"
      unfolding spaceKept_def hasOwner_members activeCount_members fresh by (simp add: MEMBER_LIMIT_def)
    moreover have "spaceKept spaceId s'" if "spaceId \<in> spaceIds s" for spaceId
    proof -
      have "membersOf spaceId s' = membersOf spaceId s" using that new(1) unfolding s' by (auto simp: membersOf_def)
      moreover have "isActiveAccount u s' = isActiveAccount u s" for u unfolding s' by (simp add: isActiveAccount_def)
      ultimately show ?thesis using spaceKept_frame [of spaceId s s'] that assms(3) by (simp add: ownersKept_def)
    qed
    ultimately show ?thesis by (simp add: ownersKept_def ids)
  qed (use assms(3) in simp)
qed

lemma store_step_owners:
  assumes "store_step sha256 call s s'" "tablesOk s" "ownersKept s" "keepsDisabled call"
  shows "ownersKept s'"
proof (cases "membershipCall call")
  case True
  from assms True show ?thesis
  proof (induction rule: store_step.induct)
    case (purges other replies now s userId)
    show ?case
    proof (rule ownersKept_frame [OF purges(2), where other = other])
      show "spaceIds (finishDelete userId other now s) \<subseteq> spaceIds s" using finishDelete_keys(2) by (force simp: spaceIds_keys)
      show "spaceKept other (finishDelete userId other now s)" if "other \<in> spaceIds (finishDelete userId other now s)"
        using that by (auto simp: finishDelete_def deleteSpaceRows_def Let_def spaceIds_def)
    qed (simp_all add: rows_finishDelete)
  qed (simp_all add: createSpace_owners setMember_owners leaveSpace_owners beginDelete_owners)
next
  case False
  have same: "ss_spaces s' = ss_spaces s" "ss_members s' = ss_members s" and accounts: "accountCall call \<or> ss_accounts s' = ss_accounts s"
    using store_step_members [OF assms(1) False] by blast+
  have "isActiveAccount (mr_userId row) s" if "row \<in> set (ss_members s)" "isActiveAccount (mr_userId row) s'" for row
    using assms(1, 2, 4) accounts that
  proof (induction rule: store_step.induct)
    case (adds_account account s)
    have "mr_userId row \<in> ac_id ` set (ss_accounts s)" using adds_account by (simp add: tablesOk_def membersFit_def)
    then show ?case using adds_account by (auto simp: addAccount_def isActiveAccount_def list_ex_iff split: if_splits)
  next
    case (sets_account userId active s)
    then show ?case by (auto simp: setAccountActive_def isActiveAccount_def list_ex_iff split: if_splits)
  qed (simp_all add: isActiveAccount_def)
  then have "spaceKept spaceId s'" if "spaceKept spaceId s" for spaceId
    by (intro spaceKept_frame [OF that]) (simp_all add: membersOf_def same)
  then show ?thesis using assms(3) by (simp add: ownersKept_def spaceIds_def same)
qed

lemma reached_owners: "list_all keepsDisabled calls \<Longrightarrow> ownersKept (lf_store (spaceRun sha256 calls noSpaces))"
proof -
  have "list_all keepsDisabled calls \<Longrightarrow> tablesOk (lf_store l) \<Longrightarrow> ownersKept (lf_store l) \<Longrightarrow> ownersKept (lf_store (spaceRun sha256 calls l))" for l
    by (induction calls arbitrary: l)
      (simp_all add: store_step_owners [OF spaceStep_step] store_step_tables [OF spaceStep_step])
  moreover have "ownersKept (lf_store noSpaces)" by (simp add: ownersKept_def noSpaces_def spaceIds_def)
  ultimately show "list_all keepsDisabled calls \<Longrightarrow> ?thesis" using noSpaces_tables by blast
qed

section \<open>Properties\<close>

text \<open>
  C39. Whatever its members do, a space keeps an owner and at most 200 members with an active account: no change of
  a role, removal, departure or replay takes the last owner away. This holds as long as no disabled account is
  enabled again; enabling may take a space past 200 active members, and the code then no longer sees all of them.
\<close>

theorem space_keeps_owner:
  assumes "list_all keepsDisabled calls" and "s = lf_store (spaceRun sha256 calls noSpaces)"
  shows "list_all (\<lambda>space. hasOwner (sr_id space) s \<and> activeCount (sr_id space) s \<le> MEMBER_LIMIT) (ss_spaces s)"
  using reached_owners [OF assms(1), of sha256] unfolding assms(2)
  by (auto simp: ownersKept_def spaceKept_def spaceIds_def list_all_iff)

theorem space_keeps_owner_witness: "hasOwner ''s1'' exampleStore \<and> activeCount ''s1'' exampleStore \<le> MEMBER_LIMIT"
proof -
  have "list_all keepsDisabled exampleCalls" by (simp add: exampleCalls_def)
  from space_keeps_owner [OF this refl, of id] show ?thesis
    unfolding exampleSpaces_reached by (simp add: exampleSpaces_def) (simp add: exampleStore_def)
qed

text \<open>
  C40. A change of membership is made at the current revision of the space: it gives the member the requested role
  (or removes them) and raises the revision by one, and no later change with the same revision is ever accepted,
  whatever happens in between. So of two owners who edit the same state one is told to look again.
\<close>

theorem membership_changes_once:
  assumes "l = spaceRun sha256 calls noSpaces" and "setMember userId spaceId memberId role revision now (lf_store l) = Inr (u, s1)"
  shows "map_option mr_role (findMember spaceId memberId s1) = Option.bind role roleOf
    \<and> map_option sr_revision (findSpace spaceId (lf_store l)) = Some revision
    \<and> map_option sr_revision (findSpace spaceId s1) = Some (revision + 1)
    \<and> isl (setMember other spaceId memberId' role' revision now' (lf_store (spaceRun sha256 later (l\<lparr>lf_store := s1\<rparr>))))"
proof -
  obtain parsed where rows: "setMemberRows userId spaceId memberId parsed revision now (lf_store l) = Inr (u, s1)"
    and parsed: "parseRole role = Inr parsed"
    using setMember_Inr [OF assms(2)] by blast
  have s1: "s1 = afterMemberChange userId spaceId memberId parsed revision now (changeMember spaceId memberId parsed (lf_store l))"
    using setMemberRows_Inr [OF rows] by blast
  have member: "map_option mr_role (findMember spaceId memberId s1) = Option.bind role roleOf"
    unfolding s1 findMember_afterMemberChange findMember_change using parseRole_ok [OF parsed] .
  obtain old where old: "findSpace spaceId (lf_store l) = Some old" "sr_revision old = revision"
      "findSpace spaceId s1 = Some (old\<lparr>sr_revision := revision + 1\<rparr>)"
    using setMember_past [OF assms(2)] findSpace_in by fastforce
  have "spaceStep sha256 (SetMember userId spaceId memberId role revision now) l = l\<lparr>lf_store := s1\<rparr>"
    using assms(2) by (simp add: onStore_def inTransaction_def)
  then have "lifecycleOk (l\<lparr>lf_store := s1\<rparr>)" using spaceStep_lifecycle reached_lifecycle assms(1) by metis
  moreover have "revisionPast spaceId revision (lf_store (l\<lparr>lf_store := s1\<rparr>))" using old by (simp add: revisionPast_def)
  ultimately show ?thesis using member old stale_setMember [OF revisionPast_run] by simp
qed

theorem membership_changes_once_witness:
  "isl (setMember ''u1'' ''s1'' ''u2'' (Some ''owner'') 2 8 (lf_store (spaceRun id [exampleDelete]
     (spaceStep id (SetMember ''u1'' ''s1'' ''u2'' None 2 6) exampleSpaces))))"
proof -
  let ?l = "spaceStep id (SetMember ''u1'' ''s1'' ''u2'' None 2 6) exampleSpaces"
  have changed: "setMember ''u1'' ''s1'' ''u2'' None 2 6 (lf_store exampleSpaces) = Inr ((), lf_store ?l)" by code_simp
  have "?l = exampleSpaces\<lparr>lf_store := lf_store ?l\<rparr>" by (simp add: onStore_def)
  with membership_changes_once [OF exampleSpaces_reached [symmetric] changed, THEN conjunct2, THEN conjunct2, THEN conjunct2]
  show ?thesis by metis
qed

end
