(* ===== verification/Spec2Isabelle.thy ===== *)
theory Spec2Isabelle
  imports ControlStore SshCredentials ExecutionStore OrganizationPolicy LoginRateLimiter CredentialGrants ZipArchive
    BrowserAuth KnoxRouting RestartReconciler MutationLock GatewayIsolation TerminalRevocation InteractiveOwnership RacingLedger SpaceMembership
begin

text \<open>
  The PlatformClaw control plane, the part of the repository that belongs to this program: a fork of the
  OpenClaw agent gateway to which \<open>src/packages/platformclaw-control-plane/src\<close> adds company logins, one
  personal agent per employee, room agents for the Knox messenger, execution hosts and an organization
  directory. File names below are relative to that directory unless they say otherwise.

  \<^bold>\<open>The program and its model.\<close> Employees log in with a browser (\<open>browser-auth-service.ts\<close>), behind a rate
  limiter (\<open>browser-login-rate-limiter.ts\<close>); the store (\<open>memory-store.ts\<close>, the reference implementation of
  the interface in \<open>contracts.ts\<close>) keeps users, identities, agent bindings, sessions and the audit log; a
  login reserves the user's agent, provisions it and opens a session. Knox messages are routed to personal
  or room agents (\<open>knox-routing-service.ts\<close>); after a restart the bindings are checked against the gateway
  (\<open>restart-reconciler.ts\<close>). Administrators register hosts for agents (\<open>execution-memory-store.ts\<close>); users
  store SSH credentials (\<open>ssh-credential-memory-store.ts\<close>), released once per grant
  (\<open>credential-broker-grants.ts\<close>). Teams, groups and parts decide who may read and manage what
  (\<open>organization-policy.ts\<close>). Skills are uploaded as archives (\<open>zip-archive-validator.ts\<close>) and moved under a
  lock (\<open>skill-hub-registry-mutation-lock.ts\<close>). After the login a browser speaks to the gateway through the
  control plane: each request is checked against a policy and rewritten for the tenant
  (\<open>browser-gateway-policy.ts\<close>, \<open>browser-gateway-access.ts\<close>, \<open>browser-gateway-proxy.ts\<close>), questions and approvals
  reach only the browsers they concern (\<open>browser-gateway-interactive-ownership.ts\<close>), and terminals are opened in
  the user's own machine (\<open>browser-gateway-terminal.ts\<close>). Users share pages and conversations in spaces
  (\<open>sqlite-spaces.ts\<close> and its neighbours) and bet play money on horse races (\<open>sqlite-horse-racing.ts\<close>).

  \<^bold>\<open>The theories.\<close>
  \<^item> \<open>Prelude\<close>: JavaScript strings, maps, sets, stable sorting, paths, and operations that may throw.
  \<^item> \<open>Contracts\<close>: the data of \<open>contracts.ts\<close>; the locale \<open>id_factory\<close>.
  \<^item> \<open>AgentIds\<close>: \<open>ids.ts\<close> and the id normalisation of \<open>src/packages/normalization-core\<close>.
  \<^item> \<open>StoreState\<close>, \<open>Directory\<close>, \<open>Agents\<close>, \<open>Sessions\<close>, \<open>ControlStore\<close>: \<open>memory-store.ts\<close>. The record \<open>mem\<close> has a
    field per \<open>Map\<close> of the class; a method is a function of the same name from the state to a result or an
    error and the new state. \<open>ControlStore\<close> has the calls as data, \<open>step\<close>, and the stores they reach.
  \<^item> \<open>SshCredentials\<close>, \<open>ExecutionValidation\<close>, \<open>ExecutionStore\<close>: credentials, the validation of host keys,
    addresses and environments (\<open>execution-validation.ts\<close>), hosts and allocations. What they ask of the store
    are the locales \<open>credential_host\<close> and \<open>execution_host\<close>, interpreted on \<open>mem\<close>.
  \<^item> \<open>OrganizationPolicy\<close>, \<open>LoginRateLimiter\<close>, \<open>CredentialGrants\<close>, \<open>ZipArchive\<close>: the files named above.
  \<^item> \<open>StoreInterface\<close>: the store as a record of operations, and what its clients rely on as the locales
    \<open>binding_store\<close> and \<open>session_store\<close>, both interpreted on the in-memory store.
  \<^item> \<open>Provisioning\<close>, \<open>BrowserAuth\<close>, \<open>KnoxRouting\<close>, \<open>RestartReconciler\<close>: the services, proved in those locales.
    Their methods await, so other requests may change the store between two of their calls; the argument
    \<open>env\<close> says what happens at each await point, and \<open>requestsEnv\<close> fills it with arbitrary store calls.
  \<^item> \<open>MutationLock\<close>: the chained promises of the lock as a step relation over jobs and tickets.
  \<^item> \<open>GatewayJson\<close>, \<open>GatewayPolicy\<close>, \<open>GatewayAccess\<close>, \<open>GatewayRequest\<close>, \<open>GatewayFields\<close>, \<open>GatewayBoundary\<close>,
    \<open>GatewayFilters\<close>, \<open>GatewayIsolation\<close>: the values of JSON, the table of methods with who may call them, the
    session keys a tenant owns, the rewriting of the parameters per method, the boundary that composes them, and the
    fields that select sessions unchecked.
  \<^item> \<open>TerminalController\<close>, \<open>TerminalSafety\<close>, \<open>TerminalRevocation\<close>: the personal terminals. A turn runs from one
    await to the next; turns of several requests, closing connections and revocations interleave freely.
  \<^item> \<open>InteractiveOwnership\<close>: the registries of pending questions, suggestions and approvals.
  \<^item> \<open>SqlTables\<close>: tables as lists of rows, transactions that roll back, statements over rows.
  \<^item> \<open>HorsePricing\<close>, \<open>HorseSchedule\<close>, \<open>HorseRacing\<close>, \<open>RacingLedger\<close>: odds (\<open>horse-racing-pricing.ts\<close>), timetable
    (\<open>horse-racing-engine.ts\<close>), the tables of races, bets and wallets with their transactions, and the ledger.
  \<^item> \<open>SpaceStore\<close>: the tables of \<open>sqlite-schema-spaces.ts\<close> as the record \<open>space_store\<close>, one field per table, and
    the methods of \<open>sqlite-spaces.ts\<close>, \<open>sqlite-space-lifecycle.ts\<close> and \<open>sqlite-space-conversations.ts\<close> as
    transactions on it. \<open>SpaceLifecycle\<close>: \<open>space-lifecycle-service.ts\<close>, and the calls on spaces as data, between
    which accounts and agents change. \<open>SpaceTables\<close>, \<open>SpaceSafety\<close>, \<open>SpaceMembership\<close>: their properties.

  \<^bold>\<open>What the lemmas show.\<close> For the store: an invariant (\<open>wfStore\<close>) that every call keeps, then that tokens
  resolve exactly for live sessions, that the session limit holds, that revoked and disabled sessions stay
  dead, that agents and owners have one binding each and what may change in users and bindings. For the
  validators: accepted input is in a normal form that is accepted again unchanged, and is safe. For the
  limiter, the grants and the archives: lockout, one use per grant and exact accounting, disjoint and
  verified entries. For the services: a login returns a token that works unless another request ends the
  session meanwhile, a logout is final, provisioning settles its binding, recovery settles the bindings up to a probe
  that throws, room messages reach the room's agent, also those that join a run in flight. For the lock: mutual exclusion in the
  order of the requests, and no deadlock. For the gateway: the session keys and agents of a request are those of
  its tenant, the unchecked filters select only among the sessions of its agent, and a turn is attributed to its user. For the terminals: a limit per user, operations only over
  the attached connection, and no terminal across a revocation. For the hosts: only active administrators manage them, anyone else is refused. For the races: exact odds, a ledger that balances,
  idempotent bets and correct settlement. For the spaces: well-formed tables, runs only for members with a role that may write, accepted only while their account is active,
  writes only with the role they need, sealed deletion that waits for the purge, owners that stay, and changes
  of membership that are never lost.

  \<^bold>\<open>Bounds.\<close> Times are unbounded integers of milliseconds. Characters are the code units 0 to 255. No definition
  uses fuel: loops are structural, or recursive with a termination proof (the walk over parent scopes, the
  eviction loop of the limiter, the scans of an archive, the climb over parent pages, the search for a free title). CRC-32 and the archive flags are 32-bit words.

  \<^bold>\<open>Parameters.\<close> SHA-256, the UTF-8 decoder, the inflater, IPv6 and IDNA parsing, locale comparison, the token
  factory, the employee directory, the provisioners, the gateway with its replies, the draw of a race, random ids and
  the clock are arguments of the definitions. Identifier factories never repeat an identifier (the locale
  \<open>id_factory\<close>); the spaces and the races need no such assumption, a key that is taken fails the insertion.

  \<^bold>\<open>Not modelled.\<close> The SQLite counterpart of the in-memory store (which implements the same interface), the HTTP and
  WebSocket servers, the notes and question threads of the spaces and the services around them, the skill hub
  catalogue, the knowledge vault, the other games, the snapshots and positions shown while a race runs, and
  everything inherited from upstream: the OpenClaw gateway and agent runtime under \<open>src/src\<close>, the channel and
  provider plugins under \<open>src/extensions\<close>, the web interface under \<open>src/ui\<close>, the applications under
  \<open>src/apps\<close>, scripts and tests.
\<close>

end
